(* ===== verification/Prelude.thy ===== *)
theory Prelude
  imports Main "HOL-Library.Multiset" "HOL-Library.AList"
begin

text \<open>
  What every component shares: the types that stand for JavaScript values the code passes
  around, the sum type used for operations that throw, JavaScript's insertion-ordered
  \<open>Set\<close> and \<open>Map\<close>, and its stable \<open>sort\<close> with a comparator, with the interface
  (\<open>comparator\<close>) every comparator of the code satisfies.

  Discord snowflakes are canonical decimal text (\<open>src/domain/values.ts\<close>, \<open>idSchema\<close>), so
  an ID is a \<^typ>\<open>string\<close> of ASCII characters.
\<close>

type_synonym ident = string

named_theorems bits_simps \<open>bitwise facts about Discord permission sets\<close>
named_theorems menu_simps \<open>unfoldings of the role menu document\<close>
named_theorems ledger_simps \<open>unfoldings of the ledger tables\<close>
named_theorems job_simps \<open>unfoldings of the job table\<close>

section \<open>Operations that throw\<close>

text \<open>A throwing operation returns \<^const>\<open>Inl\<close> what it threw; the rest of its body does not run.\<close>

definition and_then :: "'e + 'a \<Rightarrow> ('a \<Rightarrow> 'e + 'b) \<Rightarrow> 'e + 'b" where
  "and_then r k = (case r of Inl e \<Rightarrow> Inl e | Inr a \<Rightarrow> k a)"

definition require :: "bool \<Rightarrow> 'e \<Rightarrow> 'e + unit" where
  "require ok e = (if ok then Inr () else Inl e)"

lemma and_then_simps [simp]:
  "and_then (Inl e) k = Inl e"
  "and_then (Inr a) k = k a"
  by (simp_all add: and_then_def)

lemma and_then_Inr_iff: "and_then r k = Inr b \<longleftrightarrow> (\<exists>a. r = Inr a \<and> k a = Inr b)"
  by (cases r) auto

lemma require_Inr_iff [simp]: "require ok e = Inr u \<longleftrightarrow> ok"
  by (simp add: require_def)

lemma require_Inl_iff [simp]: "require ok e = Inl e' \<longleftrightarrow> \<not> ok \<and> e' = e"
  by (auto simp: require_def)

lemma and_then_require [simp]:
  "and_then (require ok e) k = (if ok then k () else Inl e)"
  by (simp add: require_def)

section \<open>Insertion-ordered sets\<close>

text \<open>\<open>[...new Set(xs)]\<close>: the distinct elements in the order they first appear.\<close>

definition js_set :: "'a list \<Rightarrow> 'a list" where
  "js_set xs = rev (remdups (rev xs))"

lemma set_js_set [simp]: "set (js_set xs) = set xs"
  by (simp add: js_set_def)

lemma distinct_js_set [simp]: "distinct (js_set xs)"
  by (simp add: js_set_def)

lemma js_set_id: "distinct xs \<Longrightarrow> js_set xs = xs"
  by (simp add: js_set_def distinct_remdups_id)

lemma js_set_Nil [simp]: "js_set [] = []"
  by (simp add: js_set_def)

lemma js_set_eq_Nil_iff [simp]: "js_set xs = [] \<longleftrightarrow> xs = []"
  by (simp add: js_set_def)

lemma length_js_set: "length (js_set xs) = card (set xs)"
  by (metis distinct_card distinct_js_set set_js_set)

text \<open>\<open>new Set(xs).size === xs.length\<close> is how the code asks whether there are no repeats.\<close>

lemma length_js_set_eq_iff: "length (js_set xs) = length xs \<longleftrightarrow> distinct xs"
  by (metis card_distinct distinct_card length_js_set)

section \<open>Keys of filtered lists\<close>

text \<open>Unique keys of the rows a filter keeps survive an update that keeps the keys and lets no row in.\<close>

lemma distinct_filter_map:
  assumes "\<And>x. k (f x) = k x" "\<And>x. p (f x) \<Longrightarrow> p x"
  shows "distinct (map k (filter p xs)) \<Longrightarrow> distinct (map k (filter p (map f xs)))"
proof (induction xs)
  case (Cons x xs)
  have sub: "k ` set (filter p (map f xs)) \<subseteq> k ` set (filter p xs)"
    using assms by (auto simp: image_iff)
  show ?case
    using Cons sub assms by (auto split: if_splits)
qed simp

section \<open>Sorting with a comparator\<close>

text \<open>
  \<open>xs.sort(cmp)\<close> is stable: among elements the comparator calls equal, the earlier one stays
  earlier. Insertion of each element before the first one it is not greater than does that.
\<close>

fun insert_by :: "('a \<Rightarrow> 'a \<Rightarrow> int) \<Rightarrow> 'a \<Rightarrow> 'a list \<Rightarrow> 'a list" where
  "insert_by cmp x [] = [x]"
| "insert_by cmp x (y # ys) =
     (if cmp x y \<le> 0 then x # y # ys else y # insert_by cmp x ys)"

fun sort_by :: "('a \<Rightarrow> 'a \<Rightarrow> int) \<Rightarrow> 'a list \<Rightarrow> 'a list" where
  "sort_by cmp [] = []"
| "sort_by cmp (x # xs) = insert_by cmp x (sort_by cmp xs)"

lemma mset_insert_by [simp]: "mset (insert_by cmp x xs) = add_mset x (mset xs)"
  by (induction xs) auto

lemma mset_sort_by [simp]: "mset (sort_by cmp xs) = mset xs"
  by (induction xs) auto

lemma set_sort_by [simp]: "set (sort_by cmp xs) = set xs"
  by (metis mset_sort_by set_mset_mset)

lemma length_sort_by [simp]: "length (sort_by cmp xs) = length xs"
  by (metis mset_sort_by size_mset)

lemma distinct_sort_by [simp]: "distinct (sort_by cmp xs) = distinct xs"
  by (metis mset_sort_by mset_eq_imp_distinct_iff)

lemma distinct_map_sort_by [simp]: "distinct (map f (sort_by cmp xs)) = distinct (map f xs)"
  by (metis mset_map mset_sort_by mset_eq_imp_distinct_iff)

lemma sort_by_eq_Nil_iff [simp]: "sort_by cmp xs = [] \<longleftrightarrow> xs = []"
  by (metis length_0_conv length_sort_by)

text \<open>What a comparator promises: some order, reflexive, total and transitive.\<close>

locale comparator =
  fixes cmp :: "'a \<Rightarrow> 'a \<Rightarrow> int"
  assumes cmp_total: "cmp x y \<le> 0 \<or> cmp y x \<le> 0"
    and cmp_trans: "cmp x y \<le> 0 \<Longrightarrow> cmp y z \<le> 0 \<Longrightarrow> cmp x z \<le> 0"
begin

lemma cmp_refl: "cmp x x \<le> 0"
  using cmp_total [of x x] by simp

lemma sorted_insert_by:
  "sorted_wrt (\<lambda>x y. cmp x y \<le> 0) xs \<Longrightarrow> sorted_wrt (\<lambda>x y. cmp x y \<le> 0) (insert_by cmp x xs)"
proof (induction xs)
  case Nil
  then show ?case by simp
next
  case (Cons y ys)
  have "set (insert_by cmp x ys) = insert x (set ys)"
    by (metis mset_insert_by set_mset_add_mset_insert set_mset_mset)
  with Cons show ?case
    using cmp_total [of x y] by (auto intro: cmp_trans)
qed

lemma sorted_sort_by: "sorted_wrt (\<lambda>x y. cmp x y \<le> 0) (sort_by cmp xs)"
  by (induction xs) (auto intro: sorted_insert_by)

lemma insert_by_least:
  "\<forall>y \<in> set xs. cmp x y \<le> 0 \<Longrightarrow> insert_by cmp x xs = x # xs"
  by (cases xs) auto

lemma sort_by_sorted: "sorted_wrt (\<lambda>x y. cmp x y \<le> 0) xs \<Longrightarrow> sort_by cmp xs = xs"
  by (induction xs) (auto simp: insert_by_least)

lemma sort_by_idem: "sort_by cmp (sort_by cmp xs) = sort_by cmp xs"
  by (rule sort_by_sorted) (rule sorted_sort_by)

end

text \<open>A comparator that is never \<open>0\<close> both ways on two different elements sorts to one list only.\<close>

locale strict_comparator = comparator +
  assumes cmp_antisym: "cmp x y \<le> 0 \<Longrightarrow> cmp y x \<le> 0 \<Longrightarrow> x = y"
begin

lemma sorted_unique:
  assumes "sorted_wrt (\<lambda>x y. cmp x y \<le> 0) xs" "sorted_wrt (\<lambda>x y. cmp x y \<le> 0) ys"
    and "mset xs = mset ys"
  shows "xs = ys"
  using assms
proof (induction xs arbitrary: ys)
  case Nil
  then show ?case by simp
next
  case (Cons x xs)
  then obtain y ys' where ys: "ys = y # ys'"
    by (cases ys) auto
  have "x \<in> set ys" "y \<in> set (x # xs)"
    using Cons.prems(3) ys by (metis list.set_intros(1) set_mset_mset)+
  with Cons.prems ys have "cmp x y \<le> 0" "cmp y x \<le> 0"
    by (auto intro: cmp_refl)
  then have "x = y" by (rule cmp_antisym)
  with Cons ys show ?case by simp
qed

lemma sort_by_cong_mset: "mset xs = mset ys \<Longrightarrow> sort_by cmp xs = sort_by cmp ys"
  by (rule sorted_unique) (simp_all add: sorted_sort_by)

end

text \<open>A number compared by difference, \<open>(a, b) => f(a) - f(b)\<close>, and the next key on a tie.\<close>

definition by_key :: "('a \<Rightarrow> int) \<Rightarrow> 'a \<Rightarrow> 'a \<Rightarrow> int" where
  "by_key f x y = f x - f y"

definition then_by :: "('a \<Rightarrow> 'a \<Rightarrow> int) \<Rightarrow> ('a \<Rightarrow> 'a \<Rightarrow> int) \<Rightarrow> 'a \<Rightarrow> 'a \<Rightarrow> int" where
  "then_by c d x y = (if c x y \<noteq> 0 then c x y else d x y)"

interpretation by_key_comparator: comparator "by_key f" for f
  by unfold_locales (auto simp: by_key_def)

section \<open>JavaScript's \<open>localeCompare\<close> on decimal IDs\<close>

text \<open>
  The code compares only IDs with \<open>localeCompare\<close>. On digits the collation is the lexicographic
  order of the characters, a prefix first.
\<close>

fun locale_compare :: "string \<Rightarrow> string \<Rightarrow> int" where
  "locale_compare [] [] = 0"
| "locale_compare [] (_ # _) = -1"
| "locale_compare (_ # _) [] = 1"
| "locale_compare (a # as) (b # bs) =
     (if (of_char a :: nat) < of_char b then -1
      else if (of_char b :: nat) < of_char a then 1
      else locale_compare as bs)"

lemma locale_compare_antisym: "locale_compare x y \<le> 0 \<Longrightarrow> locale_compare y x \<le> 0 \<Longrightarrow> x = y"
  by (induction x y rule: locale_compare.induct) (auto split: if_splits)

lemma locale_compare_total: "locale_compare x y \<le> 0 \<or> locale_compare y x \<le> 0"
  by (induction x y rule: locale_compare.induct) (auto split: if_splits)

lemma locale_compare_Nil_right [simp]: "locale_compare x [] \<le> 0 \<longleftrightarrow> x = []"
  by (cases x) auto

lemma locale_compare_Cons_iff:
  "locale_compare x (b # bs) \<le> 0 \<longleftrightarrow>
     (case x of [] \<Rightarrow> True
      | a # as \<Rightarrow> (of_char a :: nat) < of_char b \<or>
          (a = b \<and> locale_compare as bs \<le> 0))"
  by (cases x) auto

lemma locale_compare_trans:
  "locale_compare x y \<le> 0 \<Longrightarrow> locale_compare y z \<le> 0 \<Longrightarrow> locale_compare x z \<le> 0"
proof (induction z arbitrary: x y)
  case Nil
  then show ?case by simp
next
  case (Cons c cs)
  then show ?case
    by (cases x; cases y) (auto simp: locale_compare_Cons_iff split: if_splits)
qed

interpretation locale_compare: strict_comparator locale_compare
  using locale_compare_total locale_compare_trans locale_compare_antisym
  by unfold_locales blast+

section \<open>Lists\<close>

lemma length_filter_partition:
  "length (filter P xs) + length (filter (\<lambda>x. \<not> P x) xs) = length xs"
  by (induction xs) auto

lemma option_ext: "(\<And>x. a = Some x \<longleftrightarrow> b = Some x) \<Longrightarrow> a = b"
  by (cases a; cases b) auto

lemma find_Some_mem: "find P xs = Some x \<Longrightarrow> x \<in> set xs \<and> P x"
  by (auto simp: find_Some_iff)

lemma find_None_mem: "find P xs = None \<longleftrightarrow> (\<forall>x \<in> set xs. \<not> P x)"
  by (auto simp: find_None_iff)

lemma find_distinct_key:
  assumes "distinct (map k xs)" and "x \<in> set xs"
  shows "find (\<lambda>y. k y = k x) xs = Some x"
  using assms by (induction xs) (auto simp: image_iff)

lemma sum_list_append_mset: "mset xs = mset ys \<Longrightarrow> sum_list (map f xs) = sum_list (map f ys)"
  for f :: "'a \<Rightarrow> int"
  by (metis mset_map sum_mset_sum_list)

end
