(* ===== verification/Rbac.thy ===== *)
theory Rbac
  imports Prelude
begin

text \<open>
  TaruBot's permission catalog, \<open>src/domain/rbac.ts\<close>: every permission with its area, kind,
  tier and label, the catalog's order, which permissions can be paused, and the code templates of
  the four managed roles. The lemmas give the catalog's closure facts: names are unique, the
  pausable permissions are exactly the member and baseline ones, and no template carries a
  permission its role may not carry.
\<close>

section \<open>Tiers, kinds and areas\<close>

datatype permission_tier = FixedTier | StaffTier | MemberTier | BaselineTier

datatype permission_kind = ReadKind | WriteKind

datatype permission_area =
    ServerSetupArea
  | ConfigurationArea
  | MembersArea
  | RosterArea
  | GuestsArea
  | LedgerArea
  | ModMailArea
  | RoleMenuArea
  | ModerationArea
  | MemberFeaturesArea

record permission_spec =
  ps_area :: permission_area
  ps_kind :: permission_kind
  ps_tier :: permission_tier
  ps_label :: string
  ps_member_side :: bool

section \<open>The catalog\<close>

datatype permission_id =
    P_admin_fc
  | P_admin_roles
  | P_admin_ranks
  | P_admin_grants
  | P_admin_links
  | P_admin_setup
  | P_config_view
  | P_config_channels
  | P_config_officer_channel
  | P_config_guest_applications
  | P_members_view
  | P_characters_assign
  | P_characters_unassign
  | P_characters_claim
  | P_sync_view_all
  | P_roster_refresh
  | P_roster_refresh_force
  | P_guests_apply
  | P_guests_decide
  | P_guests_manage
  | P_ledger_view
  | P_ledger_deposit
  | P_ledger_audit
  | P_ledger_withdraw
  | P_ledger_adjust
  | P_ledger_initialize
  | P_modmail_open
  | P_modmail_inbox
  | P_modmail_read_log
  | P_modmail_respond
  | P_modmail_settings
  | P_rolemenu_view
  | P_rolemenu_edit
  | P_rolemenu_publish
  | P_moderation_view
  | P_moderation_block
  | P_selfroles_use
  | P_suggest_use
  | P_issue_use

text \<open>The stable ID of each permission, as stored permission sets and pauses name it.\<close>

fun permission_name :: "permission_id \<Rightarrow> string" where
  "permission_name P_admin_fc = ''admin.fc''"
| "permission_name P_admin_roles = ''admin.roles''"
| "permission_name P_admin_ranks = ''admin.ranks''"
| "permission_name P_admin_grants = ''admin.grants''"
| "permission_name P_admin_links = ''admin.links''"
| "permission_name P_admin_setup = ''admin.setup''"
| "permission_name P_config_view = ''config.view''"
| "permission_name P_config_channels = ''config.channels''"
| "permission_name P_config_officer_channel = ''config.officer_channel''"
| "permission_name P_config_guest_applications = ''config.guest_applications''"
| "permission_name P_members_view = ''members.view''"
| "permission_name P_characters_assign = ''characters.assign''"
| "permission_name P_characters_unassign = ''characters.unassign''"
| "permission_name P_characters_claim = ''characters.claim''"
| "permission_name P_sync_view_all = ''sync.view_all''"
| "permission_name P_roster_refresh = ''roster.refresh''"
| "permission_name P_roster_refresh_force = ''roster.refresh_force''"
| "permission_name P_guests_apply = ''guests.apply''"
| "permission_name P_guests_decide = ''guests.decide''"
| "permission_name P_guests_manage = ''guests.manage''"
| "permission_name P_ledger_view = ''ledger.view''"
| "permission_name P_ledger_deposit = ''ledger.deposit''"
| "permission_name P_ledger_audit = ''ledger.audit''"
| "permission_name P_ledger_withdraw = ''ledger.withdraw''"
| "permission_name P_ledger_adjust = ''ledger.adjust''"
| "permission_name P_ledger_initialize = ''ledger.initialize''"
| "permission_name P_modmail_open = ''modmail.open''"
| "permission_name P_modmail_inbox = ''modmail.inbox''"
| "permission_name P_modmail_read_log = ''modmail.read_log''"
| "permission_name P_modmail_respond = ''modmail.respond''"
| "permission_name P_modmail_settings = ''modmail.settings''"
| "permission_name P_rolemenu_view = ''rolemenu.view''"
| "permission_name P_rolemenu_edit = ''rolemenu.edit''"
| "permission_name P_rolemenu_publish = ''rolemenu.publish''"
| "permission_name P_moderation_view = ''moderation.view''"
| "permission_name P_moderation_block = ''moderation.block''"
| "permission_name P_selfroles_use = ''selfroles.use''"
| "permission_name P_suggest_use = ''suggest.use''"
| "permission_name P_issue_use = ''issue.use''"

fun permission :: "permission_id \<Rightarrow> permission_spec" where
  "permission P_admin_fc =
     \<lparr>ps_area = ServerSetupArea, ps_kind = WriteKind, ps_tier = FixedTier,
      ps_label = ''Link or unlink the Free Company'',
      ps_member_side = False\<rparr>"
| "permission P_admin_roles =
     \<lparr>ps_area = ServerSetupArea, ps_kind = WriteKind, ps_tier = FixedTier,
      ps_label = ''Choose the roles TaruBot manages, and their layout'',
      ps_member_side = False\<rparr>"
| "permission P_admin_ranks =
     \<lparr>ps_area = ServerSetupArea, ps_kind = WriteKind, ps_tier = FixedTier,
      ps_label = ''Choose the officer rank'',
      ps_member_side = False\<rparr>"
| "permission P_admin_grants =
     \<lparr>ps_area = ServerSetupArea, ps_kind = WriteKind, ps_tier = FixedTier,
      ps_label = ''Grant, revoke and reset officer access'',
      ps_member_side = False\<rparr>"
| "permission P_admin_links =
     \<lparr>ps_area = ServerSetupArea, ps_kind = WriteKind, ps_tier = FixedTier,
      ps_label = ''Make or remove character links that count for rank'',
      ps_member_side = False\<rparr>"
| "permission P_admin_setup =
     \<lparr>ps_area = ServerSetupArea, ps_kind = WriteKind, ps_tier = FixedTier,
      ps_label = ''Run /setup'',
      ps_member_side = False\<rparr>"
| "permission P_config_view =
     \<lparr>ps_area = ConfigurationArea, ps_kind = ReadKind, ps_tier = StaffTier,
      ps_label = ''See the configuration and health check'',
      ps_member_side = False\<rparr>"
| "permission P_config_channels =
     \<lparr>ps_area = ConfigurationArea, ps_kind = WriteKind, ps_tier = StaffTier,
      ps_label = ''Choose the ledger and update channels'',
      ps_member_side = False\<rparr>"
| "permission P_config_officer_channel =
     \<lparr>ps_area = ConfigurationArea, ps_kind = WriteKind, ps_tier = StaffTier,
      ps_label = ''Choose the officer notifications channel'',
      ps_member_side = False\<rparr>"
| "permission P_config_guest_applications =
     \<lparr>ps_area = ConfigurationArea, ps_kind = WriteKind, ps_tier = StaffTier,
      ps_label = ''Open or close guest applications'',
      ps_member_side = False\<rparr>"
| "permission P_members_view =
     \<lparr>ps_area = MembersArea, ps_kind = ReadKind, ps_tier = StaffTier,
      ps_label = (''Look up other members'' @ [CHR 0x27] @ '' characters and guest records''),
      ps_member_side = False\<rparr>"
| "permission P_characters_assign =
     \<lparr>ps_area = MembersArea, ps_kind = WriteKind, ps_tier = StaffTier,
      ps_label = ''Link a character to a member (/assign)'',
      ps_member_side = False\<rparr>"
| "permission P_characters_unassign =
     \<lparr>ps_area = MembersArea, ps_kind = WriteKind, ps_tier = StaffTier,
      ps_label = (''Remove a member'' @ [CHR 0x27] @ ''s character link (/unassign)''),
      ps_member_side = False\<rparr>"
| "permission P_characters_claim =
     \<lparr>ps_area = MembersArea, ps_kind = WriteKind, ps_tier = BaselineTier,
      ps_label = ''Link your own character (/claim, /verify)'',
      ps_member_side = False\<rparr>"
| "permission P_sync_view_all =
     \<lparr>ps_area = RosterArea, ps_kind = ReadKind, ps_tier = StaffTier,
      ps_label = (''See everyone'' @ [CHR 0x27] @ ''s background work''),
      ps_member_side = False\<rparr>"
| "permission P_roster_refresh =
     \<lparr>ps_area = RosterArea, ps_kind = WriteKind, ps_tier = BaselineTier,
      ps_label = ''Ask for a roster check (/refresh)'',
      ps_member_side = False\<rparr>"
| "permission P_roster_refresh_force =
     \<lparr>ps_area = RosterArea, ps_kind = WriteKind, ps_tier = StaffTier,
      ps_label = ''Force a roster check (/refresh force)'',
      ps_member_side = False\<rparr>"
| "permission P_guests_apply =
     \<lparr>ps_area = GuestsArea, ps_kind = WriteKind, ps_tier = BaselineTier,
      ps_label = ''Apply for guest access'',
      ps_member_side = False\<rparr>"
| "permission P_guests_decide =
     \<lparr>ps_area = GuestsArea, ps_kind = WriteKind, ps_tier = StaffTier,
      ps_label = ''Approve or deny guest applications'',
      ps_member_side = False\<rparr>"
| "permission P_guests_manage =
     \<lparr>ps_area = GuestsArea, ps_kind = WriteKind, ps_tier = StaffTier,
      ps_label = ''Grant, revoke and reset guest access'',
      ps_member_side = False\<rparr>"
| "permission P_ledger_view =
     \<lparr>ps_area = LedgerArea, ps_kind = ReadKind, ps_tier = MemberTier,
      ps_label = ''See the ledger balance and history'',
      ps_member_side = False\<rparr>"
| "permission P_ledger_deposit =
     \<lparr>ps_area = LedgerArea, ps_kind = WriteKind, ps_tier = MemberTier,
      ps_label = ''Record deposits'',
      ps_member_side = False\<rparr>"
| "permission P_ledger_audit =
     \<lparr>ps_area = LedgerArea, ps_kind = ReadKind, ps_tier = StaffTier,
      ps_label = (''See ledger details and past Free Companies'' @ [CHR 0x27] @ '' ledgers''),
      ps_member_side = False\<rparr>"
| "permission P_ledger_withdraw =
     \<lparr>ps_area = LedgerArea, ps_kind = WriteKind, ps_tier = StaffTier,
      ps_label = ''Record withdrawals'',
      ps_member_side = False\<rparr>"
| "permission P_ledger_adjust =
     \<lparr>ps_area = LedgerArea, ps_kind = WriteKind, ps_tier = StaffTier,
      ps_label = ''Correct the balance'',
      ps_member_side = False\<rparr>"
| "permission P_ledger_initialize =
     \<lparr>ps_area = LedgerArea, ps_kind = WriteKind, ps_tier = StaffTier,
      ps_label = ''Set the opening balance'',
      ps_member_side = False\<rparr>"
| "permission P_modmail_open =
     \<lparr>ps_area = ModMailArea, ps_kind = WriteKind, ps_tier = MemberTier,
      ps_label = ''Open mod mail cases and follow your own'',
      ps_member_side = True\<rparr>"
| "permission P_modmail_inbox =
     \<lparr>ps_area = ModMailArea, ps_kind = ReadKind, ps_tier = StaffTier,
      ps_label = ''Read every mod mail case'',
      ps_member_side = False\<rparr>"
| "permission P_modmail_read_log =
     \<lparr>ps_area = ModMailArea, ps_kind = ReadKind, ps_tier = StaffTier,
      ps_label = ''See who read each mod mail case'',
      ps_member_side = False\<rparr>"
| "permission P_modmail_respond =
     \<lparr>ps_area = ModMailArea, ps_kind = WriteKind, ps_tier = StaffTier,
      ps_label = ''Reply to, close and reopen mod mail cases'',
      ps_member_side = False\<rparr>"
| "permission P_modmail_settings =
     \<lparr>ps_area = ModMailArea, ps_kind = WriteKind, ps_tier = StaffTier,
      ps_label = ''Turn mod mail on or off'',
      ps_member_side = False\<rparr>"
| "permission P_rolemenu_view =
     \<lparr>ps_area = RoleMenuArea, ps_kind = ReadKind, ps_tier = StaffTier,
      ps_label = ''See the role menu, drafts included'',
      ps_member_side = False\<rparr>"
| "permission P_rolemenu_edit =
     \<lparr>ps_area = RoleMenuArea, ps_kind = WriteKind, ps_tier = StaffTier,
      ps_label = ''Edit role menu categories and options'',
      ps_member_side = False\<rparr>"
| "permission P_rolemenu_publish =
     \<lparr>ps_area = RoleMenuArea, ps_kind = WriteKind, ps_tier = StaffTier,
      ps_label = ''Add roles to the menu and publish them'',
      ps_member_side = False\<rparr>"
| "permission P_moderation_view =
     \<lparr>ps_area = ModerationArea, ps_kind = ReadKind, ps_tier = StaffTier,
      ps_label = ''See who is paused, and who sent a suggestion'',
      ps_member_side = False\<rparr>"
| "permission P_moderation_block =
     \<lparr>ps_area = ModerationArea, ps_kind = WriteKind, ps_tier = StaffTier,
      ps_label = (''Pause a member'' @ [CHR 0x27] @ ''s use of a feature''),
      ps_member_side = False\<rparr>"
| "permission P_selfroles_use =
     \<lparr>ps_area = MemberFeaturesArea, ps_kind = WriteKind, ps_tier = MemberTier,
      ps_label = ''Pick your own roles on My roles'',
      ps_member_side = False\<rparr>"
| "permission P_suggest_use =
     \<lparr>ps_area = MemberFeaturesArea, ps_kind = WriteKind, ps_tier = MemberTier,
      ps_label = ''Suggest features (/suggest)'',
      ps_member_side = True\<rparr>"
| "permission P_issue_use =
     \<lparr>ps_area = MemberFeaturesArea, ps_kind = WriteKind, ps_tier = BaselineTier,
      ps_label = ''Report a problem (/issue)'',
      ps_member_side = False\<rparr>"

abbreviation tier_of :: "permission_id \<Rightarrow> permission_tier" where
  "tier_of p \<equiv> ps_tier (permission p)"

text \<open>The catalog in its own order, area by area.\<close>

definition server_setup_ids :: "permission_id list" where
  "server_setup_ids = [P_admin_fc,
     P_admin_roles,
     P_admin_ranks,
     P_admin_grants,
     P_admin_links,
     P_admin_setup]"

definition configuration_ids :: "permission_id list" where
  "configuration_ids = [P_config_view,
     P_config_channels,
     P_config_officer_channel,
     P_config_guest_applications]"

definition members_ids :: "permission_id list" where
  "members_ids = [P_members_view,
     P_characters_assign,
     P_characters_unassign,
     P_characters_claim]"

definition roster_ids :: "permission_id list" where
  "roster_ids = [P_sync_view_all,
     P_roster_refresh,
     P_roster_refresh_force]"

definition guests_ids :: "permission_id list" where
  "guests_ids = [P_guests_apply,
     P_guests_decide,
     P_guests_manage]"

definition ledger_ids :: "permission_id list" where
  "ledger_ids = [P_ledger_view,
     P_ledger_deposit,
     P_ledger_audit,
     P_ledger_withdraw,
     P_ledger_adjust,
     P_ledger_initialize]"

definition mod_mail_ids :: "permission_id list" where
  "mod_mail_ids = [P_modmail_open,
     P_modmail_inbox,
     P_modmail_read_log,
     P_modmail_respond,
     P_modmail_settings]"

definition role_menu_ids :: "permission_id list" where
  "role_menu_ids = [P_rolemenu_view,
     P_rolemenu_edit,
     P_rolemenu_publish]"

definition moderation_ids :: "permission_id list" where
  "moderation_ids = [P_moderation_view,
     P_moderation_block]"

definition member_features_ids :: "permission_id list" where
  "member_features_ids = [P_selfroles_use,
     P_suggest_use,
     P_issue_use]"

lemmas area_ids_defs = server_setup_ids_def configuration_ids_def members_ids_def roster_ids_def guests_ids_def ledger_ids_def mod_mail_ids_def role_menu_ids_def moderation_ids_def member_features_ids_def

definition PERMISSION_IDS :: "permission_id list" where
  "PERMISSION_IDS = server_setup_ids @ configuration_ids @ members_ids @ roster_ids @ guests_ids @
     ledger_ids @ mod_mail_ids @ role_menu_ids @ moderation_ids @ member_features_ids"


lemma PERMISSION_IDS_complete: "set PERMISSION_IDS = UNIV"
proof -
  have "p \<in> set PERMISSION_IDS" for p
    by (cases p) (simp_all add: PERMISSION_IDS_def area_ids_defs)
  then show ?thesis by auto
qed

lemma PERMISSION_IDS_distinct: "distinct PERMISSION_IDS"
  by (simp add: PERMISSION_IDS_def area_ids_defs)

lemma mem_PERMISSION_IDS [simp]: "p \<in> set PERMISSION_IDS"
  by (simp add: PERMISSION_IDS_complete)

text \<open>The catalog enumerates the type, so questions about every permission compute.\<close>

instantiation permission_id :: enum
begin

definition enum_permission_id :: "permission_id list" where
  "enum_permission_id = PERMISSION_IDS"

definition enum_all_permission_id :: "(permission_id \<Rightarrow> bool) \<Rightarrow> bool" where
  "enum_all_permission_id Q = list_all Q PERMISSION_IDS"

definition enum_ex_permission_id :: "(permission_id \<Rightarrow> bool) \<Rightarrow> bool" where
  "enum_ex_permission_id Q = list_ex Q PERMISSION_IDS"

instance
  by standard
    (simp_all add: enum_permission_id_def enum_all_permission_id_def enum_ex_permission_id_def
      PERMISSION_IDS_complete PERMISSION_IDS_distinct list_all_iff list_ex_iff)

end

lemma all_permissions_iff: "(\<forall>p. Q p) \<longleftrightarrow> list_all Q PERMISSION_IDS"
  by (simp add: list_all_iff PERMISSION_IDS_complete)

section \<open>Names back to permissions\<close>

text \<open>\<open>Object.hasOwn(PERMISSIONS, value)\<close>, as a lookup.\<close>

definition permission_of_name :: "string \<Rightarrow> permission_id option" where
  "permission_of_name n = find (\<lambda>p. permission_name p = n) PERMISSION_IDS"

text \<open>An untrusted value: a string, or something else.\<close>

datatype untyped = UString string | UOther

fun isPermissionId :: "untyped \<Rightarrow> bool" where
  "isPermissionId (UString n) = (permission_of_name n \<noteq> None)"
| "isPermissionId UOther = False"

fun named_permission :: "untyped \<Rightarrow> permission_id option" where
  "named_permission (UString n) = permission_of_name n"
| "named_permission UOther = None"

text \<open>A module's declared permissions: absent, something that is not an array, or an array.\<close>

datatype module_value = MUndefined | MNotArray | MArray "untyped list"

definition MODULE_PERMISSIONS_ERROR :: string where
  "MODULE_PERMISSIONS_ERROR =
     ''A module'' @ [CHR 0x27] @ ''s permissions must be TaruBot permission ids.''"

definition modulePermissions :: "module_value \<Rightarrow> string + permission_id list" where
  "modulePermissions value =
     (case value of
        MUndefined \<Rightarrow> Inr []
      | MNotArray \<Rightarrow> Inl MODULE_PERMISSIONS_ERROR
      | MArray vs \<Rightarrow>
          if list_all isPermissionId vs then Inr (List.map_filter named_permission vs)
          else Inl MODULE_PERMISSIONS_ERROR)"

lemma distinct_permission_names: "distinct (map permission_name PERMISSION_IDS)"
  by (simp add: PERMISSION_IDS_def area_ids_defs)

lemma permission_name_inject: "permission_name p = permission_name q \<longleftrightarrow> p = q"
  using distinct_permission_names by (auto simp: distinct_map inj_on_def)

lemma permission_of_name_name [simp]: "permission_of_name (permission_name p) = Some p"
  unfolding permission_of_name_def
  by (rule find_distinct_key [OF distinct_permission_names]) simp

lemma permission_of_name_Some: "permission_of_name n = Some p \<Longrightarrow> permission_name p = n"
  by (auto simp: permission_of_name_def dest: find_Some_mem)

section \<open>Tiers and pauses\<close>

definition permissionsOfTier :: "permission_tier \<Rightarrow> permission_id list" where
  "permissionsOfTier t = filter (\<lambda>p. tier_of p = t) PERMISSION_IDS"

lemma set_permissionsOfTier [simp]: "set (permissionsOfTier t) = {p. tier_of p = t}"
  by (simp add: permissionsOfTier_def)

definition BLOCKABLE :: "permission_id list" where
  "BLOCKABLE = filter (\<lambda>p. tier_of p = MemberTier \<or> tier_of p = BaselineTier) PERMISSION_IDS"

definition isBlockable :: "permission_id \<Rightarrow> bool" where
  "isBlockable p = (p \<in> set BLOCKABLE)"

lemma isBlockable_iff: "isBlockable p \<longleftrightarrow> tier_of p = MemberTier \<or> tier_of p = BaselineTier"
  by (simp add: isBlockable_def BLOCKABLE_def)

definition MANAGER_ONLY_BLOCKS :: "permission_id set" where
  "MANAGER_ONLY_BLOCKS = {P_modmail_open}"

lemma manager_only_blocks_blockable: "p \<in> MANAGER_ONLY_BLOCKS \<Longrightarrow> isBlockable p"
  by (simp add: MANAGER_ONLY_BLOCKS_def isBlockable_iff)

section \<open>Managed roles and their templates\<close>

datatype managed_role = MemberRole | GuestRole | OfficerRole | LeaderRole

fun ROLE_TIERS :: "managed_role \<Rightarrow> permission_tier list" where
  "ROLE_TIERS MemberRole = [MemberTier]"
| "ROLE_TIERS GuestRole = [MemberTier]"
| "ROLE_TIERS OfficerRole = [StaffTier, MemberTier]"
| "ROLE_TIERS LeaderRole = [StaffTier, MemberTier]"

fun TEMPLATES_V1 :: "managed_role \<Rightarrow> permission_id list" where
  "TEMPLATES_V1 OfficerRole =
     permissionsOfTier StaffTier @ [P_ledger_view, P_ledger_deposit, P_selfroles_use]"
| "TEMPLATES_V1 MemberRole =
     [P_ledger_view, P_ledger_deposit, P_modmail_open, P_selfroles_use, P_suggest_use]"
| "TEMPLATES_V1 GuestRole = [P_modmail_open, P_selfroles_use, P_suggest_use]"
| "TEMPLATES_V1 LeaderRole = []"

lemma template_within_tiers: "p \<in> set (TEMPLATES_V1 r) \<Longrightarrow> tier_of p \<in> set (ROLE_TIERS r)"
  by (cases r) auto

lemma staff_template_officer: "p \<in> set (TEMPLATES_V1 r) \<Longrightarrow> tier_of p = StaffTier \<Longrightarrow> r = OfficerRole"
  by (cases r) auto

section \<open>Pauses people can be given\<close>

text \<open>\<open>src/domain/moderation.ts\<close>: the fixed durations and the features a pause names.\<close>

datatype pause_duration = Pause1h | Pause1d | Pause1w | Pause30d | PauseForever

fun duration_key :: "pause_duration \<Rightarrow> string" where
  "duration_key Pause1h = ''1h''"
| "duration_key Pause1d = ''1d''"
| "duration_key Pause1w = ''1w''"
| "duration_key Pause30d = ''30d''"
| "duration_key PauseForever = ''forever''"

fun duration_seconds :: "pause_duration \<Rightarrow> nat option" where
  "duration_seconds Pause1h = Some 3600"
| "duration_seconds Pause1d = Some 86400"
| "duration_seconds Pause1w = Some 604800"
| "duration_seconds Pause30d = Some 2592000"
| "duration_seconds PauseForever = None"

definition DEFAULT_PAUSE_DURATION :: pause_duration where
  "DEFAULT_PAUSE_DURATION = Pause1w"

definition isPauseDuration :: "untyped \<Rightarrow> bool" where
  "isPauseDuration v =
     (case v of UOther \<Rightarrow> False
      | UString n \<Rightarrow>
          n \<in> set (map duration_key [Pause1h, Pause1d, Pause1w, Pause30d, PauseForever]))"

definition PAUSE_FEATURES :: "(permission_id \<times> string) list" where
  "PAUSE_FEATURES =
     [(P_characters_claim, ''Linking characters (/claim and /verify)''),
      (P_roster_refresh, ''Roster checks (/refresh)''),
      (P_guests_apply, ''Guest applications (/apply)''),
      (P_ledger_view, ''Reading the ledger''),
      (P_ledger_deposit, ''Recording ledger deposits''),
      (P_modmail_open, ''Opening mod mail cases''),
      (P_selfroles_use, ''Picking roles on My roles''),
      (P_suggest_use, ''Suggesting features (/suggest)''),
      (P_issue_use, ''Reporting problems (/issue)'')]"

definition featureLabel :: "permission_id \<Rightarrow> string" where
  "featureLabel p =
     (case find (\<lambda>f. fst f = p) PAUSE_FEATURES of Some f \<Rightarrow> snd f | None \<Rightarrow> permission_name p)"

definition PAUSE_FEATURE_IDS :: "permission_id list" where
  "PAUSE_FEATURE_IDS = map fst PAUSE_FEATURES"

definition featuresMatchCatalog :: bool where
  "featuresMatchCatalog =
     (length PAUSE_FEATURE_IDS = length BLOCKABLE \<and>
      list_all (\<lambda>p. p \<in> set PAUSE_FEATURE_IDS) BLOCKABLE)"

text \<open>The listed features are the pausable permissions, in catalog order.\<close>

lemma pause_features_are_blockable: "PAUSE_FEATURE_IDS = BLOCKABLE"
  by (simp add: PAUSE_FEATURE_IDS_def PAUSE_FEATURES_def BLOCKABLE_def PERMISSION_IDS_def
      area_ids_defs)

end
