(* ===== verification/Failures.thy ===== *)
theory Failures
  imports Rbac
begin

text \<open>
  The failure catalog, \<open>src/domain/failures.ts\<close>, and the \<open>Failure\<close> class of
  \<open>src/domain/values.ts\<close>: every code with its presentation category and log level, the
  structured detail, and how any thrown value is classified. Throwing operations of the model
  return a sum with the failure on its left.

  A wording is the literal text of the source where the text is fixed and ASCII; a text built from
  values (or one with a typographic character) is a constructor that carries those values.
\<close>

section \<open>Codes, categories and levels\<close>

datatype failure_category =
    C_input
  | C_forbidden
  | C_setup
  | C_not_found
  | C_ambiguous
  | C_conflict
  | C_stale
  | C_wait
  | C_eligible
  | C_upstream
  | C_blocked
  | C_paused
  | C_unexpected

datatype report_level = LevelInfo | LevelWarn | LevelError

datatype failure_code =
    F_input
  | F_invalid_data
  | F_forbidden
  | F_setup
  | F_not_found
  | F_ambiguous
  | F_ownership_conflict
  | F_fc_linked
  | F_initialized
  | F_uninitialized
  | F_insufficient_funds
  | F_conflict
  | F_superseded
  | F_stale
  | F_expired
  | F_pending_proof
  | F_cooldown
  | F_rate_limited
  | F_busy
  | F_transient
  | F_stopping
  | F_eligible
  | F_unavailable
  | F_incomplete
  | F_invalid_response
  | F_private_profile
  | F_blocked
  | F_disabled
  | F_idempotency_conflict
  | F_invalid_job
  | F_lease_lost
  | F_ordered
  | F_dm_blocked
  | F_configuration
  | F_schema
  | F_test_plan
  | F_writer_lease
  | F_unexpected

fun failure_code_name :: "failure_code \<Rightarrow> string" where
  "failure_code_name F_input = ''input''"
| "failure_code_name F_invalid_data = ''invalid_data''"
| "failure_code_name F_forbidden = ''forbidden''"
| "failure_code_name F_setup = ''setup''"
| "failure_code_name F_not_found = ''not_found''"
| "failure_code_name F_ambiguous = ''ambiguous''"
| "failure_code_name F_ownership_conflict = ''ownership_conflict''"
| "failure_code_name F_fc_linked = ''fc_linked''"
| "failure_code_name F_initialized = ''initialized''"
| "failure_code_name F_uninitialized = ''uninitialized''"
| "failure_code_name F_insufficient_funds = ''insufficient_funds''"
| "failure_code_name F_conflict = ''conflict''"
| "failure_code_name F_superseded = ''superseded''"
| "failure_code_name F_stale = ''stale''"
| "failure_code_name F_expired = ''expired''"
| "failure_code_name F_pending_proof = ''pending_proof''"
| "failure_code_name F_cooldown = ''cooldown''"
| "failure_code_name F_rate_limited = ''rate_limited''"
| "failure_code_name F_busy = ''busy''"
| "failure_code_name F_transient = ''transient''"
| "failure_code_name F_stopping = ''stopping''"
| "failure_code_name F_eligible = ''eligible''"
| "failure_code_name F_unavailable = ''unavailable''"
| "failure_code_name F_incomplete = ''incomplete''"
| "failure_code_name F_invalid_response = ''invalid_response''"
| "failure_code_name F_private_profile = ''private_profile''"
| "failure_code_name F_blocked = ''blocked''"
| "failure_code_name F_disabled = ''disabled''"
| "failure_code_name F_idempotency_conflict = ''idempotency_conflict''"
| "failure_code_name F_invalid_job = ''invalid_job''"
| "failure_code_name F_lease_lost = ''lease_lost''"
| "failure_code_name F_ordered = ''ordered''"
| "failure_code_name F_dm_blocked = ''dm_blocked''"
| "failure_code_name F_configuration = ''configuration''"
| "failure_code_name F_schema = ''schema''"
| "failure_code_name F_test_plan = ''test_plan''"
| "failure_code_name F_writer_lease = ''writer_lease''"
| "failure_code_name F_unexpected = ''unexpected''"

fun FAILURE_CATEGORY :: "failure_code \<Rightarrow> failure_category" where
  "FAILURE_CATEGORY F_input = C_input"
| "FAILURE_CATEGORY F_invalid_data = C_input"
| "FAILURE_CATEGORY F_forbidden = C_forbidden"
| "FAILURE_CATEGORY F_setup = C_setup"
| "FAILURE_CATEGORY F_not_found = C_not_found"
| "FAILURE_CATEGORY F_ambiguous = C_ambiguous"
| "FAILURE_CATEGORY F_ownership_conflict = C_conflict"
| "FAILURE_CATEGORY F_fc_linked = C_conflict"
| "FAILURE_CATEGORY F_initialized = C_conflict"
| "FAILURE_CATEGORY F_uninitialized = C_conflict"
| "FAILURE_CATEGORY F_insufficient_funds = C_conflict"
| "FAILURE_CATEGORY F_conflict = C_stale"
| "FAILURE_CATEGORY F_superseded = C_stale"
| "FAILURE_CATEGORY F_stale = C_stale"
| "FAILURE_CATEGORY F_expired = C_stale"
| "FAILURE_CATEGORY F_pending_proof = C_wait"
| "FAILURE_CATEGORY F_cooldown = C_wait"
| "FAILURE_CATEGORY F_rate_limited = C_wait"
| "FAILURE_CATEGORY F_busy = C_wait"
| "FAILURE_CATEGORY F_transient = C_wait"
| "FAILURE_CATEGORY F_stopping = C_wait"
| "FAILURE_CATEGORY F_eligible = C_eligible"
| "FAILURE_CATEGORY F_unavailable = C_upstream"
| "FAILURE_CATEGORY F_incomplete = C_upstream"
| "FAILURE_CATEGORY F_invalid_response = C_upstream"
| "FAILURE_CATEGORY F_private_profile = C_upstream"
| "FAILURE_CATEGORY F_blocked = C_blocked"
| "FAILURE_CATEGORY F_disabled = C_paused"
| "FAILURE_CATEGORY F_idempotency_conflict = C_unexpected"
| "FAILURE_CATEGORY F_invalid_job = C_unexpected"
| "FAILURE_CATEGORY F_lease_lost = C_unexpected"
| "FAILURE_CATEGORY F_ordered = C_unexpected"
| "FAILURE_CATEGORY F_dm_blocked = C_unexpected"
| "FAILURE_CATEGORY F_configuration = C_unexpected"
| "FAILURE_CATEGORY F_schema = C_unexpected"
| "FAILURE_CATEGORY F_test_plan = C_unexpected"
| "FAILURE_CATEGORY F_writer_lease = C_unexpected"
| "FAILURE_CATEGORY F_unexpected = C_unexpected"

fun FAILURE_LEVEL :: "failure_category \<Rightarrow> report_level" where
  "FAILURE_LEVEL C_input = LevelInfo"
| "FAILURE_LEVEL C_forbidden = LevelInfo"
| "FAILURE_LEVEL C_setup = LevelInfo"
| "FAILURE_LEVEL C_not_found = LevelInfo"
| "FAILURE_LEVEL C_ambiguous = LevelInfo"
| "FAILURE_LEVEL C_conflict = LevelInfo"
| "FAILURE_LEVEL C_stale = LevelInfo"
| "FAILURE_LEVEL C_wait = LevelInfo"
| "FAILURE_LEVEL C_eligible = LevelInfo"
| "FAILURE_LEVEL C_upstream = LevelWarn"
| "FAILURE_LEVEL C_blocked = LevelWarn"
| "FAILURE_LEVEL C_paused = LevelWarn"
| "FAILURE_LEVEL C_unexpected = LevelError"

text \<open>Codes whose job waits rather than fails.\<close>

definition WAITING_CODES :: "failure_code set" where
  "WAITING_CODES = {F_ordered, F_busy, F_cooldown, F_superseded, F_lease_lost, F_rate_limited}"

text \<open>Discord's numeric API codes the code reacts to.\<close>

definition DISCORD_BLOCKED_CODES :: "nat set" where
  "DISCORD_BLOCKED_CODES = {50001, 50013, 10003, 10011}"

definition DISCORD_GONE_ACTOR_CODES :: "nat set" where
  "DISCORD_GONE_ACTOR_CODES = {10007, 10013}"

section \<open>Structured detail\<close>

datatype forbidden_scope =
    Scope_officer
  | Scope_owner
  | Scope_manager
  | Scope_manage_roles
  | Scope_manage_channels
  | Scope_administrator
  | Scope_hierarchy
  | Scope_membership
  | Scope_human
  | Scope_test_guild
  | Scope_current_member
  | Scope_blocked
  | Scope_protected
  | Scope_self

datatype setup_piece =
    Setup_guild
  | Setup_fc
  | Setup_ledger
  | Setup_guest_applications
  | Setup_guest_role
  | Setup_officer_role

datatype failure_resource =
    Resource_character
  | Resource_freecompany
  | Resource_link
  | Resource_member
  | Resource_application
  | Resource_entry
  | Resource_account
  | Resource_challenge
  | Resource_fc_link
  | Resource_role
  | Resource_channel
  | Resource_biography

record failure_character =
  fch_id :: ident
  fch_name :: string
  fch_world :: string

datatype failure_fix = FixHierarchy | FixChannelPermissions | FixMemberEntry

datatype matched_resource = MatchedCharacter | MatchedRole | MatchedChannel

datatype stale_what = StaleControl | StaleForm | StaleReview | StaleJoin

datatype limit_kind = ClaimsOwn | ClaimsAll | LimitApply | LimitIssue | LimitSuggest

datatype discord_what = MemberList | DiscordApi

text \<open>Instants are milliseconds since the epoch.\<close>

datatype failure_detail =
    DScope forbidden_scope "permission_id option" "int option" "nat list option"
  | DSetup setup_piece
  | DResource failure_resource "ident option" "string option" "string option" "failure_fix option"
  | DOwnership failure_character ident
  | DMatches matched_resource string "string option" "ident list"
  | DStale stale_what
  | DLimit limit_kind "int option"
  | DFunds int int
  | DProof failure_character int
  | DDiscord discord_what
  | DJoinContext "ident option"
  | DOption string
  | DGithub

section \<open>The thrown failure\<close>

datatype text_label = LabelNote | LabelReason | LabelRank

datatype wording =
    Literal string
  | AddText text_label
  | UnsavableText text_label
  | RolesNamed string
  | Withdrawing int
  | BalanceTooLarge
  | NoLedgerFor ident
  | PlanMismatch string string
  | GenerationChanged nat nat

record failure =
  f_code :: failure_code
  f_message :: wording
  f_retry_after :: nat
  f_detail :: "failure_detail option"

definition mk_failure :: "failure_code \<Rightarrow> wording \<Rightarrow> failure" where
  "mk_failure c m = \<lparr>f_code = c, f_message = m, f_retry_after = 0, f_detail = None\<rparr>"

definition mk_failure_detail :: "failure_code \<Rightarrow> wording \<Rightarrow> failure_detail \<Rightarrow> failure" where
  "mk_failure_detail c m d = \<lparr>f_code = c, f_message = m, f_retry_after = 0, f_detail = Some d\<rparr>"

lemma f_code_mk [simp]: "f_code (mk_failure c m) = c" "f_code (mk_failure_detail c m d) = c"
  by (simp_all add: mk_failure_def mk_failure_detail_def)

lemma f_message_mk [simp]:
  "f_message (mk_failure c m) = m" "f_message (mk_failure_detail c m d) = m"
  by (simp_all add: mk_failure_def mk_failure_detail_def)

lemma f_detail_mk [simp]:
  "f_detail (mk_failure c m) = None" "f_detail (mk_failure_detail c m d) = Some d"
  by (simp_all add: mk_failure_def mk_failure_detail_def)

lemma f_retry_after_mk [simp]:
  "f_retry_after (mk_failure c m) = 0" "f_retry_after (mk_failure_detail c m d) = 0"
  by (simp_all add: mk_failure_def mk_failure_detail_def)

definition effectsPaused :: "bool \<Rightarrow> failure" where
  "effectsPaused deploymentEnabled =
     mk_failure F_disabled
       (Literal (if deploymentEnabled then ''Discord effects are disabled pending activation.''
                 else ''Discord changes are off for this deployment (ENABLE_EFFECTS=false).''))"

definition STOPPING_RETRY_AFTER :: nat where
  "STOPPING_RETRY_AFTER = 30"

definition stoppingRefusal :: failure where
  "stoppingRefusal =
     (mk_failure F_stopping (Literal ''TaruBot is restarting, so nothing was saved.''))
       \<lparr>f_retry_after := STOPPING_RETRY_AFTER\<rparr>"

section \<open>Classifying any thrown value\<close>

text \<open>
  What can be thrown, as far as the code tells it apart: a \<open>Failure\<close> (whose code an untyped
  caller may have left outside the catalog), discord.js's three REST errors with the fields read
  from them, any other \<open>Error\<close> with its name, and a value that is not an \<open>Error\<close>.
\<close>

datatype thrown =
    ThrownFailure failure
  | ThrownUncatalogued failure
  | RateLimitError string
  | HTTPError string nat
  | DiscordAPIError string nat nat
  | OtherError string
  | NotAnError

record failure_classification =
  cl_code :: failure_code
  cl_category :: failure_category
  cl_level :: report_level
  cl_source :: string
  cl_failure :: "failure option"
  cl_detail :: "failure_detail option"

definition classified ::
  "failure_code \<Rightarrow> string \<Rightarrow> failure_detail option \<Rightarrow> failure option \<Rightarrow> failure_classification" where
  "classified code src detail fl =
     \<lparr>cl_code = code, cl_category = FAILURE_CATEGORY code,
      cl_level = FAILURE_LEVEL (FAILURE_CATEGORY code), cl_source = src,
      cl_failure = fl, cl_detail = detail\<rparr>"

text \<open>A \<open>DiscordAPIError\<close> carries its name, its JSON code and its HTTP status, in that order.\<close>

fun discordClassification :: "thrown \<Rightarrow> failure_classification option" where
  "discordClassification (RateLimitError name) =
     Some (classified F_unavailable name (Some (DDiscord DiscordApi)) None)"
| "discordClassification (HTTPError name status) =
     (if status \<ge> 500 then Some (classified F_unavailable name (Some (DDiscord DiscordApi)) None)
      else None)"
| "discordClassification (DiscordAPIError name code status) =
     (if code \<in> DISCORD_BLOCKED_CODES then Some (classified F_blocked name None None)
      else if code \<in> DISCORD_GONE_ACTOR_CODES then
        Some (classified F_forbidden name (Some (DScope Scope_current_member None None None)) None)
      else if status = 429 \<or> status \<ge> 500 then
        Some (classified F_unavailable name (Some (DDiscord DiscordApi)) None)
      else None)"
| "discordClassification (ThrownFailure _) = None"
| "discordClassification (ThrownUncatalogued _) = None"
| "discordClassification (OtherError _) = None"
| "discordClassification NotAnError = None"

text \<open>The name of the error: a \<open>Failure\<close> sets its own to \<open>"Failure"\<close>.\<close>

fun error_name :: "thrown \<Rightarrow> string" where
  "error_name (ThrownFailure _) = ''Failure''"
| "error_name (ThrownUncatalogued _) = ''Failure''"
| "error_name (RateLimitError name) = name"
| "error_name (HTTPError name _) = name"
| "error_name (DiscordAPIError name _ _) = name"
| "error_name (OtherError name) = name"
| "error_name NotAnError = ''unknown''"

fun classifyFailure :: "thrown \<Rightarrow> failure_classification" where
  "classifyFailure (ThrownFailure f) = classified (f_code f) ''Failure'' (f_detail f) (Some f)"
| "classifyFailure (ThrownUncatalogued f) =
     classified F_unexpected ''Failure'' (f_detail f) (Some f)"
| "classifyFailure e =
     (case discordClassification e of
        Some c \<Rightarrow> c
      | None \<Rightarrow> classified F_unexpected (error_name e) None None)"

text \<open>The level of a classified error is always its category's, and the category its code's.\<close>

lemma discordClassification_consistent:
  "discordClassification e = Some c \<Longrightarrow>
     cl_category c = FAILURE_CATEGORY (cl_code c) \<and> cl_level c = FAILURE_LEVEL (cl_category c)"
  by (cases e) (auto simp: classified_def split: if_splits)

lemma classifyFailure_consistent:
  "cl_category (classifyFailure e) = FAILURE_CATEGORY (cl_code (classifyFailure e)) \<and>
   cl_level (classifyFailure e) = FAILURE_LEVEL (cl_category (classifyFailure e))"
  by (cases e)
    (auto simp: classified_def simp del: discordClassification.simps split: option.split
      dest!: discordClassification_consistent)

text \<open>Only codes of the unexpected category are logged as errors.\<close>

lemma level_error_iff: "FAILURE_LEVEL k = LevelError \<longleftrightarrow> k = C_unexpected"
  by (cases k) simp_all

end
