(* ===== verification/Values.thy ===== *)
theory Values
  imports Failures
begin

text \<open>
  The boundary values of \<open>src/domain/values.ts\<close>: external IDs, amounts of gil, history cursors
  and notes, parsed from untrusted input without ever passing through a JavaScript number.

  A JavaScript string is its list of UTF-16 code units. The lemmas show that the parsers accept
  exactly the canonical decimal numerals of their range and give back the number they denote, so
  printing and parsing are inverse, and that a stored note is trimmed, within its limit, and text
  PostgreSQL can hold.
\<close>

type_synonym text16 = "nat list"

definition units :: "string \<Rightarrow> text16" where
  "units s = map of_char s"

text \<open>An untrusted value: an integer-valued number, another number, a string, or anything else.\<close>

datatype js_value = JInteger int | JFraction | JString text16 | JOther

definition MAX_SAFE_INTEGER :: int where
  "MAX_SAFE_INTEGER = 9007199254740991"

definition MAX_ID :: nat where
  "MAX_ID = 18446744073709551615"

definition MAX_GIL :: nat where
  "MAX_GIL = 9223372036854775807"

section \<open>Decimal numerals\<close>

definition is_digit :: "nat \<Rightarrow> bool" where
  "is_digit c \<longleftrightarrow> 48 \<le> c \<and> c \<le> 57"

definition is_nonzero_digit :: "nat \<Rightarrow> bool" where
  "is_nonzero_digit c \<longleftrightarrow> 49 \<le> c \<and> c \<le> 57"

text \<open>\<open>BigInt(s)\<close> of a digit string.\<close>

definition big_int :: "text16 \<Rightarrow> nat" where
  "big_int ds = foldl (\<lambda>n d. 10 * n + (d - 48)) 0 ds"

text \<open>\<open>String(n)\<close> and \<open>n.toString()\<close> of a nonnegative integer.\<close>

fun decimal :: "nat \<Rightarrow> text16" where
  "decimal n = (if n < 10 then [48 + n] else decimal (n div 10) @ [48 + n mod 10])"

declare decimal.simps [simp del]

text \<open>The regular expression \<open>^[1-9][0-9]{0,k}$\<close>.\<close>

fun positive_numeral :: "nat \<Rightarrow> text16 \<Rightarrow> bool" where
  "positive_numeral k [] = False"
| "positive_numeral k (d # ds) = (is_nonzero_digit d \<and> length ds \<le> k \<and> list_all is_digit ds)"

lemma big_int_snoc [simp]: "big_int (ds @ [d]) = 10 * big_int ds + (d - 48)"
  by (simp add: big_int_def)

lemma big_int_decimal [simp]: "big_int (decimal n) = n"
proof (induction n rule: decimal.induct)
  case (1 n)
  show ?case
  proof (cases "n < 10")
    case True
    then show ?thesis by (simp add: decimal.simps [of n] big_int_def)
  next
    case False
    with 1 show ?thesis by (simp add: decimal.simps [of n])
  qed
qed

lemma big_int_zero [simp]: "big_int [48] = 0"
  by (simp add: big_int_def)

lemma decimal_digits: "list_all is_digit (decimal n)"
proof (induction n rule: decimal.induct)
  case (1 n)
  then show ?case by (auto simp: decimal.simps [of n] is_digit_def)
qed

lemma decimal_nonempty [simp]: "decimal n \<noteq> []"
  by (simp add: decimal.simps [of n])

lemma decimal_hd: "0 < n \<Longrightarrow> is_nonzero_digit (hd (decimal n))"
proof (induction n rule: decimal.induct)
  case (1 n)
  then show ?case by (auto simp: decimal.simps [of n] is_nonzero_digit_def)
qed

lemma length_decimal_le: "n < 10 ^ k \<Longrightarrow> 0 < k \<Longrightarrow> length (decimal n) \<le> k"
proof (induction n arbitrary: k rule: decimal.induct)
  case (1 n)
  show ?case
  proof (cases "n < 10")
    case True
    with 1 show ?thesis by (simp add: decimal.simps [of n])
  next
    case False
    with 1 have "k \<noteq> 1" "k \<noteq> 0" by auto
    then obtain k' where k: "k = Suc k'" "0 < k'"
      by (cases k) auto
    with 1 False have "length (decimal (n div 10)) \<le> k'" by simp
    with False k show ?thesis by (simp add: decimal.simps [of n])
  qed
qed

lemma big_int_hd_pos: "is_nonzero_digit d \<Longrightarrow> 0 < big_int (d # ds)"
proof (induction ds rule: rev_induct)
  case Nil
  then show ?case by (simp add: big_int_def is_nonzero_digit_def)
next
  case (snoc x xs)
  then show ?case using big_int_snoc [of "d # xs" x] by simp
qed

lemma decimal_step: "0 < n \<Longrightarrow> d < 10 \<Longrightarrow> decimal (10 * n + d) = decimal n @ [48 + d]"
  by (subst decimal.simps) simp

lemma decimal_big_int: "is_nonzero_digit d \<Longrightarrow> list_all is_digit ds \<Longrightarrow> decimal (big_int (d # ds)) = d # ds"
proof (induction ds rule: rev_induct)
  case Nil
  then show ?case by (auto simp: big_int_def is_nonzero_digit_def decimal.simps)
next
  case (snoc x xs)
  have pos: "0 < big_int (d # xs)" using snoc.prems by (simp add: big_int_hd_pos)
  have x: "48 \<le> x" "x - 48 < 10" using snoc.prems by (auto simp: is_digit_def)
  have eq: "big_int (d # xs @ [x]) = 10 * big_int (d # xs) + (x - 48)"
    using big_int_snoc [of "d # xs" x] by simp
  have "decimal (big_int (d # xs @ [x])) = decimal (big_int (d # xs)) @ [x]"
    unfolding eq using decimal_step [OF pos x(2)] x(1) by (simp only: le_add_diff_inverse)
  with snoc show ?case by (simp add: x)
qed

lemma positive_numeral_iff:
  "positive_numeral k ds \<longleftrightarrow> (\<exists>n > 0. ds = decimal n \<and> length ds \<le> Suc k)"
proof
  assume "positive_numeral k ds"
  then obtain d ds' where ds: "ds = d # ds'" "is_nonzero_digit d" "length ds' \<le> k"
    "list_all is_digit ds'"
    by (cases ds) auto
  then show "\<exists>n > 0. ds = decimal n \<and> length ds \<le> Suc k"
    using big_int_hd_pos decimal_big_int by (intro exI [of _ "big_int ds"]) auto
next
  assume "\<exists>n > 0. ds = decimal n \<and> length ds \<le> Suc k"
  then obtain n where n: "n > 0" "ds = decimal n" "length ds \<le> Suc k" by blast
  then show "positive_numeral k ds"
    using decimal_hd [of n] decimal_digits [of n] decimal_nonempty [of n]
    by (cases "decimal n") auto
qed

section \<open>External IDs\<close>

definition idSchema :: "text16 \<Rightarrow> bool" where
  "idSchema v \<longleftrightarrow> positive_numeral 19 v \<and> big_int v \<le> MAX_ID"

text \<open>A number is accepted only while it is a safe positive integer, then printed.\<close>

definition id_candidate :: "js_value \<Rightarrow> js_value" where
  "id_candidate value =
     (case value of
        JInteger n \<Rightarrow>
          if \<bar>n\<bar> \<le> MAX_SAFE_INTEGER \<and> n > 0 then JString (decimal (nat n)) else value
      | _ \<Rightarrow> value)"

definition id_failure :: "string option \<Rightarrow> failure" where
  "id_failure name =
     (mk_failure F_invalid_data
        (Literal (''That ID isn'' @ [CHR 0x27] @ ''t valid. Pick a suggestion, or paste the numeric ID (for example 123456789012345678).'')))
       \<lparr>f_detail := map_option DOption name\<rparr>"

definition parse_id :: "js_value \<Rightarrow> string option \<Rightarrow> failure + text16" where
  "parse_id value name =
     (case id_candidate value of
        JString v \<Rightarrow> if idSchema v then Inr v else Inl (id_failure name)
      | _ \<Rightarrow> Inl (id_failure name))"

lemma idSchema_iff: "idSchema v \<longleftrightarrow> (\<exists>n. 0 < n \<and> n \<le> MAX_ID \<and> v = decimal n)"
proof
  assume "idSchema v"
  then show "\<exists>n. 0 < n \<and> n \<le> MAX_ID \<and> v = decimal n"
    by (auto simp: idSchema_def positive_numeral_iff)
next
  assume "\<exists>n. 0 < n \<and> n \<le> MAX_ID \<and> v = decimal n"
  then obtain n where n: "0 < n" "n \<le> MAX_ID" "v = decimal n" by blast
  have "length (decimal n) \<le> 20"
    using n by (intro length_decimal_le) (simp_all add: MAX_ID_def)
  with n show "idSchema v" by (auto simp: idSchema_def positive_numeral_iff)
qed

section \<open>Amounts of gil\<close>

definition gil_numeral :: "text16 \<Rightarrow> bool" where
  "gil_numeral v \<longleftrightarrow> v = [48] \<or> positive_numeral 18 v"

definition gil :: "js_value \<Rightarrow> failure + nat" where
  "gil value =
     (case value of
        JString v \<Rightarrow>
          if gil_numeral v then
            if big_int v > MAX_GIL then
              Inl (mk_failure_detail F_input BalanceTooLarge (DOption ''balance''))
            else Inr (big_int v)
          else Inl (mk_failure_detail F_input
                 (Literal ''Enter the balance in whole gil, digits only, for example 10005000.'')
                 (DOption ''balance''))
      | _ \<Rightarrow> Inl (mk_failure_detail F_input
                 (Literal ''Enter the balance in whole gil, digits only, for example 10005000.'')
                 (DOption ''balance'')))"

definition sequenceCursor :: "js_value \<Rightarrow> failure + nat" where
  "sequenceCursor value =
     (let bad = mk_failure_detail F_input
                  (Literal ''Use an entry number from a previous page, such as 34.'')
                  (DOption ''before'')
      in case value of
           JString v \<Rightarrow>
             if \<not> positive_numeral 18 v \<or> big_int v > MAX_GIL then Inl bad else Inr (big_int v)
         | _ \<Rightarrow> Inl bad)"

lemma gil_numeral_iff: "gil_numeral v \<and> big_int v \<le> MAX_GIL \<longleftrightarrow> (\<exists>n \<le> MAX_GIL. v = decimal n)"
proof
  assume "gil_numeral v \<and> big_int v \<le> MAX_GIL"
  then have "v = decimal 0 \<or> (\<exists>n. v = decimal n \<and> n \<le> MAX_GIL)"
    by (auto simp: gil_numeral_def positive_numeral_iff decimal.simps [of 0])
  then show "\<exists>n \<le> MAX_GIL. v = decimal n"
    by auto
next
  assume "\<exists>n \<le> MAX_GIL. v = decimal n"
  then obtain n where n: "n \<le> MAX_GIL" "v = decimal n" by blast
  have "length (decimal n) \<le> 19"
    using n by (intro length_decimal_le) (simp_all add: MAX_GIL_def)
  with n show "gil_numeral v \<and> big_int v \<le> MAX_GIL"
    by (cases "n = 0") (auto simp: gil_numeral_def positive_numeral_iff decimal.simps [of 0])
qed

lemma gil_Inr_iff: "gil value = Inr n \<longleftrightarrow> value = JString (decimal n) \<and> n \<le> MAX_GIL"
proof
  assume "gil value = Inr n"
  then obtain v where v: "value = JString v" "gil_numeral v" "big_int v \<le> MAX_GIL" "n = big_int v"
    by (auto simp: gil_def not_less split: js_value.splits if_splits)
  then show "value = JString (decimal n) \<and> n \<le> MAX_GIL"
    using gil_numeral_iff [of v] by auto
next
  assume "value = JString (decimal n) \<and> n \<le> MAX_GIL"
  then show "gil value = Inr n"
    using gil_numeral_iff [of "decimal n"] by (auto simp: gil_def)
qed

lemma sequenceCursor_Inr_iff:
  "sequenceCursor value = Inr n \<longleftrightarrow> value = JString (decimal n) \<and> 0 < n \<and> n \<le> MAX_GIL"
proof
  assume "sequenceCursor value = Inr n"
  then show "value = JString (decimal n) \<and> 0 < n \<and> n \<le> MAX_GIL"
    by (auto simp: sequenceCursor_def Let_def not_less positive_numeral_iff
        split: js_value.splits if_splits)
next
  assume n: "value = JString (decimal n) \<and> 0 < n \<and> n \<le> MAX_GIL"
  then have "length (decimal n) \<le> 19"
    by (intro length_decimal_le) (simp_all add: MAX_GIL_def)
  with n show "sequenceCursor value = Inr n"
    by (auto simp: sequenceCursor_def Let_def positive_numeral_iff)
qed

section \<open>Notes\<close>

text \<open>JavaScript's \<open>trim\<close> strips white space and line terminators: the code units below.\<close>

definition is_js_space :: "nat \<Rightarrow> bool" where
  "is_js_space c \<longleftrightarrow>
     (9 \<le> c \<and> c \<le> 13) \<or> c = 32 \<or> c = 160 \<or> c = 5760 \<or> (8192 \<le> c \<and> c \<le> 8202) \<or>
     c = 8232 \<or> c = 8233 \<or> c = 8239 \<or> c = 8287 \<or> c = 12288 \<or> c = 65279"

definition js_trim :: "text16 \<Rightarrow> text16" where
  "js_trim s = rev (dropWhile is_js_space (rev (dropWhile is_js_space s)))"

text \<open>\<open>replace(/\r\n?/gu, "\n")\<close>.\<close>

fun unify_lines :: "text16 \<Rightarrow> text16" where
  "unify_lines (c # d # s) =
     (if c = 13 then 10 # (if d = 10 then unify_lines s else unify_lines (d # s)) else c # unify_lines (d # s))"
| "unify_lines [c] = (if c = 13 then [10] else [c])"
| "unify_lines [] = []"

text \<open>\<open>isWellFormed\<close>: every surrogate is half of a pair, the high half first.\<close>

fun is_well_formed :: "text16 \<Rightarrow> bool" where
  "is_well_formed [] = True"
| "is_well_formed (c # s) =
     (if 55296 \<le> c \<and> c \<le> 56319 then
        (case s of [] \<Rightarrow> False
         | d # s' \<Rightarrow> 56320 \<le> d \<and> d \<le> 57343 \<and> is_well_formed s')
      else if 56320 \<le> c \<and> c \<le> 57343 then False
      else is_well_formed s)"

fun label_name :: "text_label \<Rightarrow> string" where
  "label_name LabelNote = ''note''"
| "label_name LabelReason = ''reason''"
| "label_name LabelRank = ''rank''"

definition parse_note :: "text16 \<Rightarrow> text_label \<Rightarrow> failure + text16" where
  "parse_note value label =
     (let trimmed = js_trim value in
      if trimmed = [] \<or> length trimmed > 1000 then
        Inl (mk_failure_detail F_input (AddText label) (DOption (label_name label)))
      else if \<not> is_well_formed trimmed \<or> 0 \<in> set trimmed then
        Inl (mk_failure_detail F_input (UnsavableText label) (DOption (label_name label)))
      else Inr trimmed)"

lemma dropWhile_rev_dropWhile_hd:
  "xs \<noteq> [] \<Longrightarrow> \<not> P (hd xs) \<Longrightarrow> rev (dropWhile P (rev xs)) \<noteq> [] \<and>
     hd (rev (dropWhile P (rev xs))) = hd xs"
  by (cases xs) (auto simp: dropWhile_append)

lemma dropWhile_hd: "dropWhile P xs \<noteq> [] \<Longrightarrow> \<not> P (hd (dropWhile P xs))"
  by (induction xs) auto

lemma js_trim_ends:
  assumes "js_trim s \<noteq> []"
  shows "\<not> is_js_space (hd (js_trim s)) \<and> \<not> is_js_space (last (js_trim s))"
proof -
  let ?t = "dropWhile is_js_space s"
  have ne: "dropWhile is_js_space (rev ?t) \<noteq> []"
    using assms unfolding js_trim_def by blast
  then have "?t \<noteq> []" by (metis dropWhile.simps(1) rev.simps(1))
  note t = this dropWhile_hd [OF this]
  have "hd (js_trim s) = hd ?t"
    unfolding js_trim_def using dropWhile_rev_dropWhile_hd [of ?t is_js_space] t by blast
  moreover have "\<not> is_js_space (last (js_trim s))"
    using dropWhile_hd [OF ne] by (simp add: js_trim_def last_rev)
  ultimately show ?thesis using t by simp
qed

lemma dropWhile_hd_id: "xs \<noteq> [] \<Longrightarrow> \<not> P (hd xs) \<Longrightarrow> dropWhile P xs = xs"
  by (cases xs) auto

lemma js_trim_id:
  assumes "s \<noteq> []" "\<not> is_js_space (hd s)" "\<not> is_js_space (last s)"
  shows "js_trim s = s"
  using assms by (simp add: js_trim_def dropWhile_hd_id hd_rev)

lemma js_trim_idem [simp]: "js_trim (js_trim s) = js_trim s"
proof (cases "js_trim s = []")
  case True
  then show ?thesis by (simp only: True) (simp add: js_trim_def)
next
  case False
  then show ?thesis using js_trim_ends [OF False] by (simp add: js_trim_id)
qed

lemma parse_note_Inr_iff:
  "parse_note value label = Inr t \<longleftrightarrow>
     t = js_trim value \<and> t \<noteq> [] \<and> length t \<le> 1000 \<and> is_well_formed t \<and> 0 \<notin> set t"
  by (auto simp: parse_note_def Let_def)

lemma parse_note_stored: "parse_note value label = Inr t \<Longrightarrow> parse_note t label' = Inr t"
  by (auto simp: parse_note_Inr_iff)

end
