(* ===== verification/Policy.thy ===== *)
theory Policy
  imports Failures
begin

text \<open>
  Authorization and access policy, \<open>src/domain/policy.ts\<close>. The first half is what an actor may
  do: \<open>accessFor\<close> computes an actor's permissions from their Discord authority, the managed roles
  that count and their active pauses, and \<open>requirePermission\<close> and \<open>requireAnyPermission\<close> are the
  decision points. The second half is what access a member is owed: the FC membership class, the
  desired Member and Guest roles, which of those decisions depend on the roles already held, and
  the two-observation rule for departures.
\<close>

section \<open>Access\<close>

text \<open>Instants are milliseconds since the epoch; a reason is its UTF-16 code units; \<open>pause_until = None\<close> lasts until lifted.\<close>

record pause =
  pause_until :: "int option"
  pause_reason :: "nat list"

record access =
  acc_manager :: bool
  acc_roles :: "managed_role list"
  acc_permissions :: "permission_id set"
  acc_blocked :: "permission_id \<Rightarrow> pause option"

definition role_permissions :: "managed_role \<Rightarrow> permission_id list" where
  "role_permissions r = filter (\<lambda>p. tier_of p \<in> set (ROLE_TIERS r)) (TEMPLATES_V1 r)"

definition accessFor :: "bool \<Rightarrow> managed_role list \<Rightarrow> (permission_id \<Rightarrow> pause option) \<Rightarrow> access" where
  "accessFor manager roles pauses =
     (let held = js_set roles;
          perms = set (permissionsOfTier BaselineTier) \<union>
            (\<Union>r \<in> set held. set (role_permissions r)) \<union>
            (if manager then set (filter (\<lambda>p. \<not> ps_member_side (permission p)) PERMISSION_IDS)
             else {});
          blocked = (if manager then (\<lambda>_. None)
                     else (\<lambda>p. if p \<in> perms then pauses p else None))
      in \<lparr>acc_manager = manager, acc_roles = held, acc_permissions = perms, acc_blocked = blocked\<rparr>)"

definition NO_ACCESS :: access where
  "NO_ACCESS = accessFor False [] (\<lambda>_. None)"

record actor =
  act_guild :: ident
  act_user :: ident
  act_manage_roles :: bool
  act_server_manager :: "bool option"
  act_role_ids :: "ident list option"
  act_access :: access
  act_member :: "bool option"
  act_guest :: "bool option"
  act_bot_administrator :: "bool option"
  act_timed_out :: "bool option"

definition can :: "actor \<Rightarrow> permission_id \<Rightarrow> bool" where
  "can a p \<longleftrightarrow> p \<in> acc_permissions (act_access a) \<and> acc_blocked (act_access a) p = None"

definition holds :: "actor \<Rightarrow> permission_id \<Rightarrow> bool" where
  "holds a p \<longleftrightarrow> p \<in> acc_permissions (act_access a)"

definition pauseOn :: "actor \<Rightarrow> permission_id \<Rightarrow> pause option" where
  "pauseOn a p = acc_blocked (act_access a) p"

definition pausedFailure :: "permission_id \<Rightarrow> pause \<Rightarrow> failure" where
  "pausedFailure p pause =
     mk_failure_detail F_forbidden (Literal ''Your use of this feature here is paused.'')
       (DScope Scope_blocked (Some p) (pause_until pause) (Some (pause_reason pause)))"

definition requireNotPaused :: "actor \<Rightarrow> permission_id \<Rightarrow> failure + unit" where
  "requireNotPaused a p =
     (case pauseOn a p of Some pause \<Rightarrow> Inl (pausedFailure p pause) | None \<Rightarrow> Inr ())"

definition STAFF_TIERS :: "permission_tier set" where
  "STAFF_TIERS = {StaffTier, FixedTier}"

definition isStaff :: "actor \<Rightarrow> bool" where
  "isStaff a \<longleftrightarrow> acc_manager (act_access a) \<or>
     list_ex (\<lambda>p. p \<in> acc_permissions (act_access a) \<and> tier_of p \<in> STAFF_TIERS) PERMISSION_IDS"

definition selfServiceAccess :: "actor \<Rightarrow> bool" where
  "selfServiceAccess a \<longleftrightarrow>
     holds a P_selfroles_use \<and> (isStaff a \<or> act_bot_administrator a = Some False)"

section \<open>The decision points\<close>

definition MANAGERS_ONLY :: string where
  "MANAGERS_ONLY =
     ''Changing who has officer authority needs Discord'' @ [CHR 0x27] @
     ''s Manage Server and Manage Roles permissions. Bot officer access isn'' @ [CHR 0x27] @
     ''t enough.''"

definition OFFICERS_ONLY :: string where
  "OFFICERS_ONLY = ''Only FC officers can do that.''"

definition NOT_INCLUDED :: string where
  "NOT_INCLUDED = ''Your roles in this server don'' @ [CHR 0x27] @ ''t include this.''"

definition authorize :: "actor \<Rightarrow> ident \<Rightarrow> failure + unit" where
  "authorize a guild =
     (if act_guild a \<noteq> guild then
        Inl (mk_failure_detail F_forbidden (Literal ''That record belongs to another server.'')
               (DScope Scope_test_guild None None None))
      else Inr ())"

definition authorizeOwner :: "actor \<Rightarrow> ident \<Rightarrow> ident \<Rightarrow> failure + unit" where
  "authorizeOwner a guild owner =
     and_then (authorize a guild) (\<lambda>_.
       if owner \<noteq> act_user a \<and> \<not> can a P_members_view then
         Inl (mk_failure_detail F_forbidden
           (Literal ''You can view only your own records. Officers can look up other members.'')
           (DScope Scope_owner (Some P_members_view) None None))
       else Inr ())"

text \<open>\<open>message ?? fallback\<close>: a throw site's own wording wins over the default one.\<close>

definition refusal_wording :: "string option \<Rightarrow> string \<Rightarrow> wording" where
  "refusal_wording message fallback = Literal (case message of Some m \<Rightarrow> m | None \<Rightarrow> fallback)"

definition missing_permission :: "permission_id \<Rightarrow> string option \<Rightarrow> failure" where
  "missing_permission p message =
     (case tier_of p of
        FixedTier \<Rightarrow> mk_failure_detail F_forbidden (refusal_wording message MANAGERS_ONLY)
                       (DScope Scope_manager (Some p) None None)
      | StaffTier \<Rightarrow> mk_failure_detail F_forbidden (refusal_wording message OFFICERS_ONLY)
                       (DScope Scope_officer (Some p) None None)
      | _ \<Rightarrow> mk_failure_detail F_forbidden (refusal_wording message NOT_INCLUDED)
                       (DScope Scope_membership (Some p) None None))"

definition requirePermission ::
  "actor \<Rightarrow> ident \<Rightarrow> permission_id \<Rightarrow> string option \<Rightarrow> failure + unit" where
  "requirePermission a guild p message =
     and_then (authorize a guild) (\<lambda>_.
     and_then (requireNotPaused a p) (\<lambda>_.
       if can a p then Inr () else Inl (missing_permission p message)))"

definition requireAnyPermission :: "actor \<Rightarrow> ident \<Rightarrow> permission_id list \<Rightarrow> failure + unit" where
  "requireAnyPermission a guild ids =
     and_then (authorize a guild) (\<lambda>_.
       if ids = [] \<or> list_ex (can a) ids then Inr ()
       else
         (let first = (case find (\<lambda>p. tier_of p \<noteq> FixedTier) ids of
                         Some p \<Rightarrow> Some p
                       | None \<Rightarrow> (case ids of [] \<Rightarrow> None | p # _ \<Rightarrow> Some p))
          in case first of Some p \<Rightarrow> requirePermission a guild p None | None \<Rightarrow> Inr ()))"

subsection \<open>Facts about access\<close>

lemma acc_manager_accessFor [simp]: "acc_manager (accessFor m rs ps) = m"
  by (simp add: accessFor_def Let_def)

lemma role_permissions_templates [simp]: "role_permissions r = TEMPLATES_V1 r"
  by (simp add: role_permissions_def template_within_tiers filter_id_conv)

lemma mem_accessFor_iff:
  "p \<in> acc_permissions (accessFor m rs ps) \<longleftrightarrow>
     tier_of p = BaselineTier \<or> (\<exists>r \<in> set rs. p \<in> set (TEMPLATES_V1 r)) \<or>
     (m \<and> \<not> ps_member_side (permission p))"
  by (simp add: accessFor_def Let_def del: TEMPLATES_V1.simps)

lemma blocked_accessFor:
  "acc_blocked (accessFor m rs ps) p =
     (if m \<or> p \<notin> acc_permissions (accessFor m rs ps) then None else ps p)"
  by (simp add: accessFor_def Let_def del: TEMPLATES_V1.simps)

lemma can_holds: "can a p \<Longrightarrow> holds a p"
  by (simp add: can_def holds_def)

lemma isStaff_iff:
  "isStaff a \<longleftrightarrow> acc_manager (act_access a) \<or>
     (\<exists>p. holds a p \<and> (tier_of p = StaffTier \<or> tier_of p = FixedTier))"
  by (auto simp: isStaff_def list_ex_iff holds_def STAFF_TIERS_def)

lemma authorize_Inr_iff [simp]: "authorize a g = Inr u \<longleftrightarrow> act_guild a = g"
  by (simp add: authorize_def)

lemma requireNotPaused_Inr_iff [simp]: "requireNotPaused a p = Inr u \<longleftrightarrow> pauseOn a p = None"
  by (simp add: requireNotPaused_def split: option.split)

lemma can_not_paused: "can a p \<Longrightarrow> pauseOn a p = None"
  by (simp add: can_def pauseOn_def)

lemma requirePermission_Inr_iff:
  "requirePermission a g p m = Inr u \<longleftrightarrow> act_guild a = g \<and> can a p"
  by (auto simp: requirePermission_def and_then_Inr_iff can_not_paused)

lemma requirePermission_cases:
  "requirePermission a g p m =
     (if act_guild a \<noteq> g then authorize a g
      else case pauseOn a p of
             Some pause \<Rightarrow> Inl (pausedFailure p pause)
           | None \<Rightarrow> if can a p then Inr () else Inl (missing_permission p m))"
  by (auto simp: requirePermission_def authorize_def requireNotPaused_def split: option.split)

section \<open>Membership and desired access\<close>

datatype membership_class = Member | Ineligible | Uncertain

record access_facts =
  af_membership :: membership_class
  af_fresh :: bool
  af_former :: bool
  af_grant :: bool
  af_revoked :: bool
  af_has_member :: bool
  af_has_guest :: bool
  af_verified :: "bool option"

definition membershipClass :: "bool \<Rightarrow> int \<Rightarrow> int \<Rightarrow> bool \<Rightarrow> membership_class" where
  "membershipClass fcLinked confirmed unknown localLoss =
     (if \<not> fcLinked then Ineligible
      else if confirmed > 0 then Member
      else if unknown > 0 \<and> \<not> localLoss then Uncertain else Ineligible)"

record desired =
  want_member :: bool
  want_guest :: bool

definition desiredAccess :: "access_facts \<Rightarrow> desired" where
  "desiredAccess f =
     (if af_membership f = Member then
        (let member = af_fresh f \<or> af_has_member f in
         \<lparr>want_member = member,
          want_guest = (if member then False else if af_revoked f then False else af_has_guest f)\<rparr>)
      else if af_membership f = Uncertain then
        \<lparr>want_member = af_has_member f,
         want_guest = (\<not> af_has_member f \<and> \<not> af_revoked f \<and> (af_grant f \<or> af_has_guest f))\<rparr>
      else
        \<lparr>want_member = False,
         want_guest = (\<not> af_revoked f \<and>
           (af_grant f \<or> af_former f \<or>
            (af_verified f = Some True \<and> (af_fresh f \<or> af_has_guest f))))\<rparr>)"

definition access_probes :: "access_facts \<Rightarrow> desired list" where
  "access_probes f =
     concat (map (\<lambda>hm. map (\<lambda>hg. desiredAccess (f\<lparr>af_has_member := hm, af_has_guest := hg\<rparr>))
                         [False, True])
                [False, True])"

definition agree :: "('a \<Rightarrow> bool) \<Rightarrow> 'a list \<Rightarrow> bool" where
  "agree flag probes = list_all (\<lambda>p. flag p = flag (hd probes)) probes"

definition accessDecisive :: "access_facts \<Rightarrow> desired" where
  "accessDecisive f =
     \<lparr>want_member = agree want_member (access_probes f),
      want_guest = agree want_guest (access_probes f)\<rparr>"

lemmas desired_access_defs = desiredAccess_def accessDecisive_def access_probes_def agree_def

section \<open>Departures\<close>

datatype presence = Present | Missing | Absent

text \<open>The observation's time and the first absence are in milliseconds.\<close>

definition departure ::
  "presence option \<Rightarrow> bool \<Rightarrow> int option \<Rightarrow> int \<Rightarrow> presence \<times> int option" where
  "departure previous appears firstAbsence observation =
     (if appears then (Present, None)
      else if previous = None \<or> previous = Some Absent then (Absent, None)
      else
        (case firstAbsence of
           Some first \<Rightarrow>
             if previous = Some Missing \<and> observation - first \<ge> 60000 then (Absent, Some first)
             else (Missing, Some first)
         | None \<Rightarrow> (Missing, Some observation)))"

text \<open>A character's stored state over a series of accepted complete observations.\<close>

type_synonym roster_state = "presence option \<times> int option"

fun observe_roster :: "roster_state \<Rightarrow> (int \<times> bool) list \<Rightarrow> roster_state" where
  "observe_roster s [] = s"
| "observe_roster (p, first) ((at, appears) # obs) =
     (let (p', first') = departure p appears first at in observe_roster (Some p', first') obs)"

text \<open>
  What the stored state knows of the observations so far: a missing character was absent at its
  stored first absence and has not appeared since.
\<close>

definition absent_since :: "(int \<times> bool) list \<Rightarrow> int \<Rightarrow> bool" where
  "absent_since obs first \<longleftrightarrow>
     (\<exists>pre post. obs = pre @ (first, False) # post \<and> list_all (\<lambda>(_, appears). \<not> appears) post)"

definition roster_inv :: "(int \<times> bool) list \<Rightarrow> roster_state \<Rightarrow> bool" where
  "roster_inv obs s \<longleftrightarrow>
     (case fst s of
        None \<Rightarrow> obs = []
      | Some Present \<Rightarrow> snd s = None \<and> (\<exists>pre at. obs = pre @ [(at, True)])
      | Some Missing \<Rightarrow> (\<exists>first. snd s = Some first \<and> absent_since obs first)
      | Some Absent \<Rightarrow> True)"

lemma observe_roster_append:
  "observe_roster s (xs @ ys) = observe_roster (observe_roster s xs) ys"
  by (induction s xs rule: observe_roster.induct) (auto split: prod.split)

lemma absent_since_snoc: "absent_since obs first \<Longrightarrow> absent_since (obs @ [(at, False)]) first"
  unfolding absent_since_def by fastforce

lemma absent_since_start: "absent_since (obs @ [(at, False)]) at"
  unfolding absent_since_def by (rule exI [of _ obs]) auto

lemma absent_since_start2: "absent_since (obs @ [o', (at, False)]) at"
  using absent_since_start [of "obs @ [o']" at] by simp

lemma roster_inv_step:
  assumes "roster_inv obs (p, first)" "departure p appears first at = (p', first')"
  shows "roster_inv (obs @ [(at, appears)]) (Some p', first')"
  using assms
  by (auto simp: roster_inv_def departure_def absent_since_start absent_since_start2
      absent_since_snoc
      split: if_splits option.splits presence.splits)

lemma roster_inv_observe: "roster_inv obs (observe_roster (None, None) obs)"
proof (induction obs rule: rev_induct)
  case Nil
  then show ?case by (simp add: roster_inv_def)
next
  case (snoc o' obs)
  obtain at appears where o': "o' = (at, appears)" by force
  obtain p first where s: "observe_roster (None, None) obs = (p, first)" by force
  obtain p' first' where d: "departure p appears first at = (p', first')" by force
  from snoc s have "roster_inv obs (p, first)" by simp
  then have "roster_inv (obs @ [(at, appears)]) (Some p', first')"
    using d by (rule roster_inv_step)
  then show ?case by (simp add: observe_roster_append s o' d)
qed

section \<open>Properties\<close>

text \<open>
  Least privilege: without Discord's manager authority, a person holds a staff permission only
  through the Officer role, never a fixed one, and holds a member permission only from a managed
  role whose template carries it; a manager holds everything but the member-side permissions no
  role gives them.
\<close>

theorem accessFor_least_privilege:
  "p \<in> acc_permissions (accessFor manager roles pauses) \<longleftrightarrow>
     (case tier_of p of
        FixedTier \<Rightarrow> manager
      | StaffTier \<Rightarrow> manager \<or> OfficerRole \<in> set roles
      | MemberTier \<Rightarrow> (manager \<and> \<not> ps_member_side (permission p)) \<or>
                      (\<exists>r \<in> set roles. p \<in> set (TEMPLATES_V1 r))
      | BaselineTier \<Rightarrow> True)"
proof -
  have "tier_of p = FixedTier \<Longrightarrow> p \<notin> set (TEMPLATES_V1 r)" for r
    by (cases r) auto
  moreover have "tier_of p = StaffTier \<Longrightarrow> p \<in> set (TEMPLATES_V1 r) \<longleftrightarrow> r = OfficerRole" for r
    by (cases r) auto
  moreover have "tier_of p = FixedTier \<or> tier_of p = StaffTier \<Longrightarrow> \<not> ps_member_side (permission p)"
    by (cases p) simp_all
  ultimately show ?thesis
    by (cases "tier_of p") (auto simp: mem_accessFor_iff simp del: TEMPLATES_V1.simps)
qed

text \<open>
  A pause only ever takes a held permission away from someone who is not a server manager:
  with pauses the person may use exactly what they may use without them, less the paused
  permissions, and what they hold is unchanged.
\<close>

theorem accessFor_pause_deny_only:
  "holds (a\<lparr>act_access := accessFor m roles pauses\<rparr>) p =
     holds (a\<lparr>act_access := accessFor m roles (\<lambda>_. None)\<rparr>) p \<and>
   can (a\<lparr>act_access := accessFor m roles pauses\<rparr>) p =
     (can (a\<lparr>act_access := accessFor m roles (\<lambda>_. None)\<rparr>) p \<and> (m \<or> pauses p = None))"
  by (auto simp: holds_def can_def mem_accessFor_iff blocked_accessFor
      simp del: TEMPLATES_V1.simps)

text \<open>
  (C38) The single decision point lets an actor through exactly when they act in that guild and may use the
  permission: they hold it and it is not paused. Every other branch has its own refusal. Another guild's record is refused as
  such, before the permission is looked at. A pause is reported as that pause ahead of a missing permission. A missing
  permission is forbidden by its tier's rule, naming the permission, with the throw site's wording when it has one
  and the tier's own otherwise.
\<close>

theorem requirePermission_decides:
  "(requirePermission a guild p message = Inr () \<longleftrightarrow> act_guild a = guild \<and> holds a p \<and> pauseOn a p = None) \<and>
   (act_guild a = guild \<and> pauseOn a p = Some pause \<longrightarrow>
      requirePermission a guild p message =
        Inl \<lparr>f_code = F_forbidden, f_message = Literal ''Your use of this feature here is paused.'', f_retry_after = 0,
              f_detail = Some (DScope Scope_blocked (Some p) (pause_until pause) (Some (pause_reason pause)))\<rparr>) \<and>
   (act_guild a \<noteq> guild \<longrightarrow>
      requirePermission a guild p message =
        Inl \<lparr>f_code = F_forbidden, f_message = Literal ''That record belongs to another server.'', f_retry_after = 0,
              f_detail = Some (DScope Scope_test_guild None None None)\<rparr>) \<and>
   (act_guild a = guild \<and> pauseOn a p = None \<and> \<not> holds a p \<longrightarrow>
      requirePermission a guild p message =
        Inl \<lparr>f_code = F_forbidden,
              f_message = Literal (case message of Some m \<Rightarrow> m
                | None \<Rightarrow> if tier_of p = FixedTier then MANAGERS_ONLY else if tier_of p = StaffTier then OFFICERS_ONLY else NOT_INCLUDED),
              f_retry_after = 0,
              f_detail = Some (DScope
                (if tier_of p = FixedTier then Scope_manager else if tier_of p = StaffTier then Scope_officer else Scope_membership)
                (Some p) None None)\<rparr>)"
proof (intro conjI)
  show "requirePermission a guild p message = Inr () \<longleftrightarrow> act_guild a = guild \<and> holds a p \<and> pauseOn a p = None"
    unfolding requirePermission_Inr_iff by (auto simp: can_def holds_def pauseOn_def)
qed (auto simp: requirePermission_cases requirePermission_def authorize_def missing_permission_def refusal_wording_def
    mk_failure_detail_def can_def holds_def pauseOn_def pausedFailure_def split: permission_tier.split option.split)

theorem requirePermission_decides_witness:
  "requirePermission
     \<lparr>act_guild = ''7'', act_user = ''1'', act_manage_roles = False, act_server_manager = None,
      act_role_ids = None,
      act_access = accessFor False [MemberRole]
        ((\<lambda>_. None)(P_ledger_deposit := Some \<lparr>pause_until = None, pause_reason = [115, 112, 97, 109]\<rparr>)),
      act_member = None, act_guest = None, act_bot_administrator = None, act_timed_out = None\<rparr>
     ''7'' P_ledger_deposit None =
   Inl \<lparr>f_code = F_forbidden, f_message = Literal ''Your use of this feature here is paused.'', f_retry_after = 0,
         f_detail = Some (DScope Scope_blocked (Some P_ledger_deposit) None (Some [115, 112, 97, 109]))\<rparr>"
  using requirePermission_decides [THEN conjunct2, THEN conjunct1, rule_format, of
      "\<lparr>act_guild = ''7'', act_user = ''1'', act_manage_roles = False, act_server_manager = None, act_role_ids = None,
      act_access = accessFor False [MemberRole]
        ((\<lambda>_. None)(P_ledger_deposit := Some \<lparr>pause_until = None, pause_reason = [115, 112, 97, 109]\<rparr>)),
      act_member = None, act_guest = None, act_bot_administrator = None, act_timed_out = None\<rparr>"]
    by (simp add: pauseOn_def blocked_accessFor mem_accessFor_iff)

text \<open>
  The router's any-of gate passes exactly when the actor is in the guild and the module
  declares no permission or the actor may use one of those it declares: the fall-through refusal
  always refuses.
\<close>

theorem requireAnyPermission_decides:
  "requireAnyPermission a guild ids = Inr () \<longleftrightarrow>
     act_guild a = guild \<and> (ids = [] \<or> (\<exists>p \<in> set ids. can a p))"
proof -
  have "find Q ids = Some p \<Longrightarrow> p \<in> set ids" for Q p
    by (auto dest: find_Some_mem)
  then show ?thesis
    by (auto simp: requireAnyPermission_def and_then_Inr_iff list_ex_iff requirePermission_Inr_iff
        split: option.splits list.splits)
qed

text \<open>
  Whatever the facts, nobody is owed Member and Guest at once, a revocation always withholds
  Guest, stale evidence creates no new Member, and an uncertain class neither creates nor removes
  Member.
\<close>

theorem desiredAccess_safe:
  "\<not> (want_member (desiredAccess f) \<and> want_guest (desiredAccess f)) \<and>
   (af_revoked f \<longrightarrow> \<not> want_guest (desiredAccess f)) \<and>
   (want_member (desiredAccess f) \<and> \<not> af_fresh f \<longrightarrow> af_has_member f) \<and>
   (af_membership f = Uncertain \<longrightarrow> want_member (desiredAccess f) = af_has_member f)"
  by (auto simp: desiredAccess_def Let_def)

theorem desiredAccess_safe_witness:
  "\<not> want_guest (desiredAccess
      \<lparr>af_membership = Ineligible, af_fresh = True, af_former = True, af_grant = True,
       af_revoked = True, af_has_member = False, af_has_guest = True, af_verified = Some True\<rparr>)"
  by (rule desiredAccess_safe [THEN conjunct2, THEN conjunct1, rule_format]) simp

text \<open>
  The probing in \<open>accessDecisive\<close> finds exactly the decisions its comment works out by class:
  Member is decisive for a fresh member and for the ineligible; Guest is decisive for a member with
  fresh evidence or a revocation, for an uncertain person only under a revocation, and for the
  ineligible unless all they have is registration with stale evidence.
\<close>

theorem accessDecisive_by_class:
  "accessDecisive f =
     (case af_membership f of
        Member \<Rightarrow> \<lparr>want_member = af_fresh f, want_guest = (af_fresh f \<or> af_revoked f)\<rparr>
      | Uncertain \<Rightarrow> \<lparr>want_member = False, want_guest = af_revoked f\<rparr>
      | Ineligible \<Rightarrow>
          \<lparr>want_member = True,
           want_guest = (if af_verified f = Some True
                         then af_fresh f \<or> af_grant f \<or> af_former f \<or> af_revoked f
                         else True)\<rparr>)"
  by (cases "af_membership f") (auto simp: desired_access_defs Let_def)

text \<open>
  A character whose membership was confirmed is recorded absent only after a second absence: at
  the observation that does it the character does not appear, and there is an earlier observation
  at least a minute before it without the character and no appearance in between.
\<close>

theorem departure_needs_two_absences:
  assumes "fst (observe_roster (None, None) obs) = Some Present \<or>
           fst (observe_roster (None, None) obs) = Some Missing"
    and "fst (observe_roster (None, None) (obs @ [(at, appears)])) = Some Absent"
  shows "\<not> appears \<and> (\<exists>first. absent_since obs first \<and> at - first \<ge> 60000)"
proof -
  obtain p first where s: "observe_roster (None, None) obs = (p, first)" by force
  with assms have "fst (departure p appears first at) = Absent" "p \<noteq> None" "p \<noteq> Some Absent"
    by (auto simp: observe_roster_append split: prod.splits)
  then have "\<not> appears" "p = Some Missing" "\<exists>f. first = Some f \<and> at - f \<ge> 60000"
    by (auto simp: departure_def split: if_splits option.splits)
  moreover from roster_inv_observe [of obs] s have "roster_inv obs (p, first)" by simp
  ultimately show ?thesis by (auto simp: roster_inv_def)
qed

theorem departure_needs_two_absences_witness:
  "\<exists>first. absent_since [(0, True), (1000, False), (30000, False)] first \<and> 61000 - first \<ge> 60000"
proof -
  let ?obs = "[(0, True), (1000, False), (30000, False)] :: (int \<times> bool) list"
  have "fst (observe_roster (None, None) ?obs) = Some Missing"
    and "fst (observe_roster (None, None) (?obs @ [(61000, False)])) = Some Absent"
    by (simp_all add: departure_def)
  then show ?thesis using departure_needs_two_absences [of ?obs 61000 False] by blast
qed

end
