(* ===== verification/Permissions.thy ===== *)
theory Permissions
  imports Values
begin

unbundle bit_operations_syntax

text \<open>
  Discord's permission arithmetic over raw payloads, \<open>src/domain/permissions.ts\<close>. Permission sets
  are JavaScript bigints, so they are \<^typ>\<open>int\<close> with its unbounded two's complement bit operations;
  the decimal strings of the payloads are the numbers they denote.

  The bit of each named permission is discord.js's (\<open>PermissionFlagsBits\<close>), a parameter
  \<open>flags\<close> of every definition that reads one, as is the value of all permissions together. What
  Discord documents of them is \<open>flag_bits_ok\<close>: each flag is one bit, and no two share theirs.

  The lemmas read a result one bit at a time: which layer of the overwrite algorithm decides it.
\<close>

section \<open>Permission flags\<close>

datatype perm_flag =
    CreateInstantInvite | KickMembers | BanMembers | Administrator | ManageChannels | ManageGuild
  | ViewChannel | SendMessages | ManageMessages | EmbedLinks | AttachFiles | ReadMessageHistory
  | MentionEveryone | Connect | ManageNicknames | ManageRoles | ManageWebhooks
  | UseApplicationCommands | CreatePublicThreads | CreatePrivateThreads | ModerateMembers

type_synonym flag_bits = "perm_flag \<Rightarrow> int"

definition flag_bits_ok :: "flag_bits \<Rightarrow> bool" where
  "flag_bits_ok P \<longleftrightarrow> (\<exists>pos :: perm_flag \<Rightarrow> nat. inj pos \<and> (\<forall>f. P f = 2 ^ pos f))"

text \<open>The documented positions, the instance the examples compute with.\<close>

fun documented_position :: "perm_flag \<Rightarrow> nat" where
  "documented_position CreateInstantInvite = 0"
| "documented_position KickMembers = 1"
| "documented_position BanMembers = 2"
| "documented_position Administrator = 3"
| "documented_position ManageChannels = 4"
| "documented_position ManageGuild = 5"
| "documented_position ViewChannel = 10"
| "documented_position SendMessages = 11"
| "documented_position ManageMessages = 13"
| "documented_position EmbedLinks = 14"
| "documented_position AttachFiles = 15"
| "documented_position ReadMessageHistory = 16"
| "documented_position MentionEveryone = 17"
| "documented_position Connect = 20"
| "documented_position ManageNicknames = 27"
| "documented_position ManageRoles = 28"
| "documented_position ManageWebhooks = 29"
| "documented_position UseApplicationCommands = 31"
| "documented_position CreatePublicThreads = 35"
| "documented_position CreatePrivateThreads = 36"
| "documented_position ModerateMembers = 40"

definition documented_bits :: flag_bits where
  "documented_bits f = 2 ^ documented_position f"

lemma documented_bits_ok: "flag_bits_ok documented_bits"
proof -
  have "documented_position f = documented_position g \<Longrightarrow> f = g" for f g
    by (cases f; cases g) simp_all
  then have "inj documented_position" by (rule injI)
  then show ?thesis by (auto simp: flag_bits_ok_def documented_bits_def)
qed

lemma bit_two_power: "bit ((2::int) ^ k) n \<longleftrightarrow> n = k"
  by (simp add: bit_exp_iff)

lemma flag_bit_obtain:
  assumes "flag_bits_ok P"
  obtains k where "P f = 2 ^ k" "\<And>n. bit (P f) n \<longleftrightarrow> n = k" "\<And>g. bit (P g) k \<longleftrightarrow> g = f"
proof -
  from assms obtain pos :: "perm_flag \<Rightarrow> nat" where pos: "inj pos" "\<And>f. P f = 2 ^ pos f"
    by (auto simp: flag_bits_ok_def)
  show thesis
  proof
    show "P f = 2 ^ pos f" by (rule pos)
    show "bit (P f) n \<longleftrightarrow> n = pos f" for n by (simp add: pos bit_two_power)
    show "bit (P g) (pos f) \<longleftrightarrow> g = f" for g
      using pos by (auto simp: bit_two_power inj_def)
  qed
qed

lemma and_eq_zero_iff: "(a::int) AND b = 0 \<longleftrightarrow> (\<forall>n. \<not> (bit a n \<and> bit b n))"
  by (auto simp: bit_eq_iff bit_simps)

lemma and_single_bit: "(\<And>n. bit b n \<longleftrightarrow> n = k) \<Longrightarrow> (a::int) AND b \<noteq> 0 \<longleftrightarrow> bit a k"
  by (auto simp: and_eq_zero_iff)

definition bits_le :: "int \<Rightarrow> int \<Rightarrow> bool" where
  "bits_le a b \<longleftrightarrow> a AND NOT b = 0"

lemma bits_le_iff: "bits_le a b \<longleftrightarrow> (\<forall>n. bit a n \<longrightarrow> bit b n)"
  by (auto simp: bits_le_def and_eq_zero_iff bit_simps)

lemma bits_le_refl [simp]: "bits_le a a"
  by (simp add: bits_le_iff)

text \<open>\<open>xs.reduce((total, x) => total | f(x), 0n)\<close>.\<close>

definition or_all :: "('a \<Rightarrow> int) \<Rightarrow> 'a list \<Rightarrow> int" where
  "or_all f xs = foldl (\<lambda>total x. total OR f x) 0 xs"

lemma bit_or_all [bits_simps]: "bit (or_all f xs) n \<longleftrightarrow> (\<exists>x \<in> set xs. bit (f x) n)"
proof -
  have "bit (foldl (\<lambda>total x. total OR f x) t xs) n \<longleftrightarrow> bit t n \<or> (\<exists>x \<in> set xs. bit (f x) n)" for t
    by (induction xs arbitrary: t) (auto simp: bit_simps)
  then show ?thesis by (simp add: or_all_def)
qed

section \<open>Roles and overwrites\<close>

record api_role =
  ar_id :: ident
  ar_name :: string
  ar_position :: int
  ar_permissions :: int
  ar_hoist :: bool
  ar_managed :: bool
  ar_mentionable :: "bool option"

text \<open>Overwrite type 0 targets a role, type 1 a member.\<close>

datatype overwrite_type = OwRole | OwMember

record overwrite =
  ow_id :: ident
  ow_type :: overwrite_type
  ow_allow :: int
  ow_deny :: int

text \<open>\<open>BigInt(id)\<close> of a canonical ID.\<close>

definition id_number :: "ident \<Rightarrow> int" where
  "id_number i = int (big_int (units i))"

definition ascending_cmp :: "('a \<Rightarrow> int) \<Rightarrow> ('a \<Rightarrow> ident) \<Rightarrow> 'a \<Rightarrow> 'a \<Rightarrow> int" where
  "ascending_cmp position iden left right =
     (if position left \<noteq> position right then position left - position right
      else if id_number (iden left) = id_number (iden right) then 0
      else if id_number (iden left) > id_number (iden right) then -1 else 1)"

definition ascendingRoles :: "api_role list \<Rightarrow> api_role list" where
  "ascendingRoles roles = sort_by (ascending_cmp ar_position ar_id) roles"

interpretation ascending: comparator "ascending_cmp p i" for p i
  by unfold_locales (auto simp: ascending_cmp_def split: if_splits)

section \<open>Discord's permission algorithm\<close>

definition guildPermissions ::
  "flag_bits \<Rightarrow> int \<Rightarrow> ident \<Rightarrow> api_role list \<Rightarrow> ident list \<Rightarrow> bool \<Rightarrow> int" where
  "guildPermissions P allp guildId roles memberRoles ignoreAdministrator =
     (let held = set (guildId # memberRoles);
          bits = or_all ar_permissions (filter (\<lambda>r. ar_id r \<in> held) roles)
      in if ignoreAdministrator then bits AND NOT (P Administrator)
         else if bits AND P Administrator \<noteq> 0 then allp
         else bits)"

definition channelPermissions ::
  "flag_bits \<Rightarrow> int \<Rightarrow> ident \<Rightarrow> int \<Rightarrow> overwrite list \<Rightarrow> ident \<Rightarrow> ident list \<Rightarrow> bool \<Rightarrow> int" where
  "channelPermissions P allp guildId base overwrites memberId memberRoles ignoreAdministrator =
     (let bits = (if ignoreAdministrator then base AND NOT (P Administrator) else base)
      in if \<not> ignoreAdministrator \<and> bits AND P Administrator \<noteq> 0 then allp
         else
           let bits = (case find (\<lambda>e. ow_id e = guildId) overwrites of
                         Some e \<Rightarrow> (bits AND NOT (ow_deny e)) OR ow_allow e
                       | None \<Rightarrow> bits);
               roles = filter (\<lambda>e. ow_type e = OwRole \<and> ow_id e \<noteq> guildId \<and>
                                  ow_id e \<in> set memberRoles) overwrites;
               roleDeny = or_all ow_deny roles;
               roleAllow = or_all ow_allow roles;
               bits = (bits AND NOT roleDeny) OR roleAllow
           in case find (\<lambda>e. ow_type e = OwMember \<and> ow_id e = memberId) overwrites of
                Some e \<Rightarrow> (bits AND NOT (ow_deny e)) OR ow_allow e
              | None \<Rightarrow> bits)"

text \<open>One layer of the algorithm, bit by bit.\<close>

lemma bit_layer [bits_simps]:
  "bit (((b::int) AND NOT d) OR a) n \<longleftrightarrow> bit a n \<or> (bit b n \<and> \<not> bit d n)"
  by (auto simp: bit_simps)

lemma bit_and_not [bits_simps]: "bit ((b::int) AND NOT d) n \<longleftrightarrow> bit b n \<and> \<not> bit d n"
  by (auto simp: bit_simps)

definition entry_layer :: "overwrite option \<Rightarrow> nat \<Rightarrow> bool \<Rightarrow> bool" where
  "entry_layer e n below =
     (case e of None \<Rightarrow> below | Some e \<Rightarrow> bit (ow_allow e) n \<or> (below \<and> \<not> bit (ow_deny e) n))"

text \<open>
  The algorithm as Discord states it: the member's own entry decides a bit it names; else any
  allow of a held role; else any deny of one; else the @everyone entry; else the server-wide
  permissions.
\<close>

definition decided_bit ::
  "ident \<Rightarrow> (nat \<Rightarrow> bool) \<Rightarrow> overwrite list \<Rightarrow> ident \<Rightarrow> ident list \<Rightarrow> nat \<Rightarrow> bool" where
  "decided_bit guildId base ows memberId memberRoles n =
     entry_layer (find (\<lambda>e. ow_type e = OwMember \<and> ow_id e = memberId) ows) n
       ((\<exists>e \<in> set ows. ow_type e = OwRole \<and> ow_id e \<noteq> guildId \<and> ow_id e \<in> set memberRoles \<and>
            bit (ow_allow e) n) \<or>
        (entry_layer (find (\<lambda>e. ow_id e = guildId) ows) n (base n) \<and>
         \<not> (\<exists>e \<in> set ows. ow_type e = OwRole \<and> ow_id e \<noteq> guildId \<and> ow_id e \<in> set memberRoles \<and>
              bit (ow_deny e) n)))"

lemma bit_channelPermissions_ignore:
  "bit (channelPermissions P allp g base ows m rs True) n =
     decided_bit g (\<lambda>n. bit base n \<and> \<not> bit (P Administrator) n) ows m rs n"
  unfolding channelPermissions_def decided_bit_def entry_layer_def Let_def
  by (auto simp: bits_simps split: option.split)

lemma bit_channelPermissions:
  assumes "base AND P Administrator = 0"
  shows "bit (channelPermissions P allp g base ows m rs False) n =
    decided_bit g (bit base) ows m rs n"
  using assms unfolding channelPermissions_def decided_bit_def entry_layer_def Let_def
  by (auto simp: bits_simps split: option.split)

lemma channelPermissions_administrator:
  "base AND P Administrator \<noteq> 0 \<Longrightarrow> channelPermissions P allp g base ows m rs False = allp"
  by (simp add: channelPermissions_def Let_def)

lemma bit_guildPermissions_ignore:
  "bit (guildPermissions P allp g roles rs True) n \<longleftrightarrow>
     (\<exists>r \<in> set roles. ar_id r \<in> insert g (set rs) \<and> bit (ar_permissions r) n) \<and>
     \<not> bit (P Administrator) n"
  by (auto simp: guildPermissions_def Let_def bits_simps)

section \<open>The catalogs\<close>

text \<open>
  Each catalog is its keys in the order of the source, with the bit discord.js gives them; keys and
  flags have the same names.
\<close>

definition CORE_PERMISSIONS :: "perm_flag list" where
  "CORE_PERMISSIONS = [ManageRoles, ManageNicknames, ViewChannel, SendMessages, EmbedLinks,
     AttachFiles, ReadMessageHistory]"

definition ONBOARDING_PERMISSIONS :: "perm_flag list" where
  "ONBOARDING_PERMISSIONS = [ManageChannels, UseApplicationCommands, CreatePublicThreads,
     CreatePrivateThreads, Connect]"

definition RECOMMENDED_PERMISSIONS :: int where
  "RECOMMENDED_PERMISSIONS = 105630518288"

definition POSTING_PERMISSIONS :: "perm_flag list" where
  "POSTING_PERMISSIONS = [ViewChannel, SendMessages, EmbedLinks, ReadMessageHistory]"

definition NEVER_NEEDED_PERMISSIONS :: "perm_flag list" where
  "NEVER_NEEDED_PERMISSIONS = [ManageGuild, ManageMessages, MentionEveryone, KickMembers,
     BanMembers, ModerateMembers, ManageWebhooks]"

definition DENY_MASK :: "flag_bits \<Rightarrow> int" where
  "DENY_MASK P = P ReadMessageHistory OR P ManageRoles OR P ManageChannels OR P CreateInstantInvite"

definition VOICE_DENY_MASK :: "flag_bits \<Rightarrow> int" where
  "VOICE_DENY_MASK P = DENY_MASK P OR P Connect"

definition LABELLED_PERMISSIONS :: "perm_flag list" where
  "LABELLED_PERMISSIONS = CORE_PERMISSIONS @ ONBOARDING_PERMISSIONS @ NEVER_NEEDED_PERMISSIONS @
     [Administrator, CreateInstantInvite]"

fun LABELS :: "perm_flag \<Rightarrow> string" where
  "LABELS ManageRoles = ''Manage Roles''"
| "LABELS ManageNicknames = ''Manage Nicknames''"
| "LABELS ViewChannel = ''View Channel''"
| "LABELS SendMessages = ''Send Messages''"
| "LABELS EmbedLinks = ''Embed Links''"
| "LABELS AttachFiles = ''Attach Files''"
| "LABELS ReadMessageHistory = ''Read Message History''"
| "LABELS ManageChannels = ''Manage Channels''"
| "LABELS UseApplicationCommands = ''Use Application Commands''"
| "LABELS CreatePublicThreads = ''Create Public Threads''"
| "LABELS CreatePrivateThreads = ''Create Private Threads''"
| "LABELS Connect = ''Connect''"
| "LABELS ManageGuild = ''Manage Server''"
| "LABELS ManageMessages = ''Manage Messages''"
| "LABELS MentionEveryone = ''Mention Everyone''"
| "LABELS KickMembers = ''Kick Members''"
| "LABELS BanMembers = ''Ban Members''"
| "LABELS ModerateMembers = ''Time Out Members''"
| "LABELS ManageWebhooks = ''Manage Webhooks''"
| "LABELS Administrator = ''Administrator''"
| "LABELS CreateInstantInvite = ''Create Invite''"

datatype label_context = ServerContext | ChannelContext

definition permissionLabel :: "perm_flag \<Rightarrow> label_context \<Rightarrow> string" where
  "permissionLabel key ctx =
     (if key = ManageRoles \<and> ctx = ChannelContext then ''Manage Permissions'' else LABELS key)"

definition permissionKeys :: "flag_bits \<Rightarrow> int \<Rightarrow> perm_flag list \<Rightarrow> perm_flag list" where
  "permissionKeys P bits catalog = filter (\<lambda>key. bits AND P key = P key) catalog"

text \<open>The recommended set is the union of the two catalogs it is documented to be.\<close>

lemma recommended_is_core_and_onboarding:
  "or_all documented_bits (CORE_PERMISSIONS @ ONBOARDING_PERMISSIONS) = RECOMMENDED_PERMISSIONS"
  by (simp add: or_all_def CORE_PERMISSIONS_def ONBOARDING_PERMISSIONS_def documented_bits_def
      RECOMMENDED_PERMISSIONS_def)

lemma permissionKeys_or_all:
  assumes "flag_bits_ok P"
  shows "permissionKeys P (or_all P fs) catalog = filter (\<lambda>f. f \<in> set fs) catalog"
proof -
  have "or_all P fs AND P f = P f \<longleftrightarrow> f \<in> set fs" for f
  proof -
    obtain k where k: "P f = 2 ^ k" "\<And>n. bit (P f) n \<longleftrightarrow> n = k" "\<And>g. bit (P g) k \<longleftrightarrow> g = f"
      using flag_bit_obtain [OF assms] by blast
    have "or_all P fs AND P f = P f \<longleftrightarrow> bit (or_all P fs) k"
      by (auto simp: bit_eq_iff [of _ "P f"] bit_simps k(2))
    also have "\<dots> \<longleftrightarrow> f \<in> set fs"
      using k(3) by (auto simp: bits_simps)
    finally show ?thesis .
  qed
  then show ?thesis by (simp add: permissionKeys_def)
qed

section \<open>Properties\<close>

text \<open>
  For a member without Administrator, or with Administrator ignored, each permission in a
  channel is decided by Discord's precedence: the member's own entry, then any allow of a held
  role, then any deny of one, then the @everyone entry, then the server-wide permissions; with
  Administrator not ignored every permission is granted.
\<close>

theorem channelPermissions_precedence:
  "bit (channelPermissions P allp g base ows m rs True) n =
     decided_bit g (\<lambda>n. bit base n \<and> \<not> bit (P Administrator) n) ows m rs n \<and>
   (if base AND P Administrator = 0
    then bit (channelPermissions P allp g base ows m rs False) n = decided_bit g (bit base) ows m rs n
    else channelPermissions P allp g base ows m rs False = allp)"
  by (simp add: bit_channelPermissions_ignore bit_channelPermissions channelPermissions_administrator)

end
