(* ===== verification/ChannelAccess.thy ===== *)
theory ChannelAccess
  imports Permissions
begin

text \<open>
  Lobby onboarding's channel policy, \<open>src/domain/channel-access.ts\<close>: the overwrites each audience
  of a channel needs, whether two overwrite lists say the same, and the per-entry writes that take
  a channel from one to the other.

  The lemmas show who can view a channel under each audience's overwrites, computed with Discord's
  own algorithm; that the writes reach the wanted overwrites; and that no state in between is more
  open than the channel before or after, whatever the viewer (\<open>channel_view\<close> is all the proof needs
  of the viewer, and Discord's algorithm is shown to satisfy it).
\<close>

section \<open>Bindings\<close>

record access_roles =
  acr_member :: ident
  acr_guest :: ident
  acr_officer :: ident
  acr_leader :: ident

record role_bindings =
  member_role_id :: "ident option"
  guest_role_id :: "ident option"
  officer_role_id :: "ident option"
  leader_role_id :: "ident option"

definition blocked_failure :: "string \<Rightarrow> failure" where
  "blocked_failure m = mk_failure F_blocked (Literal m)"

definition accessRoles :: "role_bindings \<Rightarrow> failure + access_roles" where
  "accessRoles b =
     (case (member_role_id b, guest_role_id b, officer_role_id b, leader_role_id b) of
        (Some m, Some g, Some off, Some l) \<Rightarrow>
          if card {m, g, off, l} \<noteq> 4
          then Inl (blocked_failure ''Onboarding roles must be distinct.'')
          else Inr \<lparr>acr_member = m, acr_guest = g, acr_officer = off, acr_leader = l\<rparr>
      | _ \<Rightarrow> Inl (blocked_failure
          ''Onboarding requires all four access roles. Run /setup onboarding to repair them.''))"

lemma accessRoles_distinct:
  assumes "accessRoles b = Inr r"
  shows "distinct [acr_member r, acr_guest r, acr_officer r, acr_leader r]"
proof -
  from assms have c: "card {acr_member r, acr_guest r, acr_officer r, acr_leader r} = 4"
    by (auto simp: accessRoles_def split: option.splits if_splits)
  then have "card (set [acr_member r, acr_guest r, acr_officer r, acr_leader r]) =
      length [acr_member r, acr_guest r, acr_officer r, acr_leader r]"
    by simp
  then show ?thesis by (rule card_distinct)
qed

section \<open>The policy's overwrites\<close>

datatype channel_audience = Lobby | Members | Officers

record access_channel =
  ach_id :: ident
  ach_name :: string
  ach_type :: nat
  ach_parent :: "ident option"
  ach_overwrites :: "overwrite list"
  ach_everyone_visible :: bool
  ach_member_visible :: bool
  ach_guest_visible :: bool

definition initiallyStaffOnly :: "flag_bits \<Rightarrow> access_channel \<Rightarrow> bool \<Rightarrow> bool \<Rightarrow> bool" where
  "initiallyStaffOnly P channel alreadyEnabled staffParent =
     (if staffParent then True
      else if ach_member_visible channel \<or> ach_guest_visible channel \<or> ach_everyone_visible channel
      then False
      else \<not> alreadyEnabled \<or>
        list_ex (\<lambda>ow. (ow_allow ow OR ow_deny ow) AND P ViewChannel \<noteq> 0) (ach_overwrites channel))"

definition ONBOARDING_LIFT :: "flag_bits \<Rightarrow> int" where
  "ONBOARDING_LIFT P = P ManageRoles OR P ManageChannels OR P Connect"

text \<open>The \<open>Map\<close> of entries by ID, in insertion order; writing a present key keeps its place.\<close>

type_synonym entry_map = "(ident \<times> overwrite) list"

definition entries_of :: "overwrite list \<Rightarrow> entry_map" where
  "entries_of ows = fold (\<lambda>e m. AList.update (ow_id e) e m) ows []"

definition set_entry :: "ident \<Rightarrow> overwrite_type \<Rightarrow> int \<Rightarrow> int \<Rightarrow> entry_map \<Rightarrow> entry_map" where
  "set_entry i ty allow deny m =
     (let before = (case map_of m i of Some e \<Rightarrow> e
                    | None \<Rightarrow> \<lparr>ow_id = i, ow_type = ty, ow_allow = 0, ow_deny = 0\<rparr>)
      in AList.update i
           (before\<lparr>ow_type := ty,
                   ow_allow := (ow_allow before AND NOT deny) OR allow,
                   ow_deny := (ow_deny before AND NOT allow) OR deny\<rparr>) m)"

definition nonempty_entry :: "overwrite \<Rightarrow> bool" where
  "nonempty_entry e \<longleftrightarrow> ow_allow e \<noteq> 0 \<or> ow_deny e \<noteq> 0"

definition by_id :: "overwrite \<Rightarrow> overwrite \<Rightarrow> int" where
  "by_id l r = locale_compare (ow_id l) (ow_id r)"

interpretation by_id: comparator by_id
  using locale_compare.cmp_total locale_compare.cmp_trans
  by unfold_locales (auto simp: by_id_def)

definition stripped_view :: "flag_bits \<Rightarrow> overwrite \<Rightarrow> overwrite" where
  "stripped_view P e =
     e\<lparr>ow_allow := ow_allow e AND NOT (P ViewChannel), ow_deny := ow_deny e AND NOT (P ViewChannel)\<rparr>"

definition lobbyChat :: "flag_bits \<Rightarrow> int" where
  "lobbyChat P = P ViewChannel OR P SendMessages OR P ReadMessageHistory OR P UseApplicationCommands"

definition threadCreation :: "flag_bits \<Rightarrow> int" where
  "threadCreation P = P CreatePublicThreads OR P CreatePrivateThreads"

definition policy_entries ::
  "flag_bits \<Rightarrow> ident \<Rightarrow> ident \<Rightarrow> access_roles \<Rightarrow> channel_audience \<Rightarrow> entry_map \<Rightarrow> entry_map" where
  "policy_entries P guild botId roles audience m =
     (let chat = lobbyChat P; view = P ViewChannel;
          m = set_entry guild OwRole (if audience = Lobby then chat else 0)
                (if audience = Lobby then threadCreation P else view) m;
          m = fold (\<lambda>i. set_entry i OwRole (if audience = Members then view else 0)
                           (if audience = Members then 0 else view))
                [acr_member roles, acr_guest roles] m;
          m = fold (\<lambda>i. set_entry i OwRole (if audience = Members then view else chat) 0)
                [acr_officer roles, acr_leader roles] m;
          m = set_entry botId OwMember
                (view OR P SendMessages OR P ReadMessageHistory OR P EmbedLinks OR P AttachFiles) 0 m
      in case map_of m botId of
           Some own \<Rightarrow>
             if ow_type own = OwMember
             then AList.update botId (own\<lparr>ow_deny := ow_deny own AND NOT (ONBOARDING_LIFT P)\<rparr>) m
             else m
         | None \<Rightarrow> m)"

definition channelAccessOverwrites ::
  "flag_bits \<Rightarrow> overwrite list \<Rightarrow> ident \<Rightarrow> ident \<Rightarrow> access_roles \<Rightarrow> channel_audience \<Rightarrow> overwrite list"
where
  "channelAccessOverwrites P current guild botId roles audience =
     sort_by by_id (filter nonempty_entry (map snd
       (policy_entries P guild botId roles audience (entries_of (map (stripped_view P) current)))))"

section \<open>Comparing overwrites\<close>

definition canonical_overwrites :: "overwrite list \<Rightarrow> overwrite list" where
  "canonical_overwrites items = sort_by by_id (filter nonempty_entry items)"

definition sameOverwrites :: "overwrite list \<Rightarrow> overwrite list \<Rightarrow> bool" where
  "sameOverwrites l r \<longleftrightarrow> canonical_overwrites l = canonical_overwrites r"

section \<open>The writes between two lists\<close>

datatype overwrite_write = Put overwrite | Delete ident

fun write_id :: "overwrite_write \<Rightarrow> ident" where
  "write_id (Put e) = ow_id e"
| "write_id (Delete i) = i"

text \<open>\<open>from\<close> and \<open>to\<close>: the non-empty entries by ID.\<close>

definition live_entries :: "overwrite list \<Rightarrow> entry_map" where
  "live_entries items = entries_of (filter nonempty_entry items)"

definition write_entry :: "ident \<Rightarrow> overwrite option \<Rightarrow> overwrite_write" where
  "write_entry i v =
     (case v of None \<Rightarrow> Delete i
      | Some e \<Rightarrow> if ow_allow e = 0 \<and> ow_deny e = 0 then Delete i else Put (e\<lparr>ow_id := i\<rparr>))"

definition same_bits :: "overwrite option \<Rightarrow> overwrite option \<Rightarrow> bool" where
  "same_bits a b =
     (case (a, b) of
        (None, None) \<Rightarrow> True
      | (Some a, Some b) \<Rightarrow> ow_type a = ow_type b \<and> ow_allow a = ow_allow b \<and> ow_deny a = ow_deny b
      | _ \<Rightarrow> False)"

definition opt_bits :: "(overwrite \<Rightarrow> int) \<Rightarrow> overwrite option \<Rightarrow> int" where
  "opt_bits f e = (case e of Some e \<Rightarrow> f e | None \<Rightarrow> 0)"

definition meet_entry :: "ident \<Rightarrow> overwrite option \<Rightarrow> overwrite option \<Rightarrow> overwrite" where
  "meet_entry i a b =
     (let ty = (case b of Some b \<Rightarrow> ow_type b
                | None \<Rightarrow> (case a of Some a \<Rightarrow> ow_type a | None \<Rightarrow> OwRole));
          allow = opt_bits ow_allow a AND opt_bits ow_allow b
      in \<lparr>ow_id = i, ow_type = ty, ow_allow = allow,
          ow_deny = (opt_bits ow_deny a OR opt_bits ow_deny b) AND NOT allow\<rparr>)"

definition some_nonempty :: "overwrite \<Rightarrow> overwrite option" where
  "some_nonempty e = (if nonempty_entry e then Some e else None)"

definition changed_ids :: "entry_map \<Rightarrow> entry_map \<Rightarrow> ident list" where
  "changed_ids from to =
     sort_by locale_compare
       (filter (\<lambda>i. \<not> same_bits (map_of from i) (map_of to i))
          (js_set (map fst from @ map fst to)))"

definition own_ids :: "entry_map \<Rightarrow> entry_map \<Rightarrow> ident \<Rightarrow> ident list" where
  "own_ids from to botId =
     filter (\<lambda>i. i = botId \<and> map_option ow_type (map_of to i) = Some OwMember) (changed_ids from to)"

definition other_ids :: "entry_map \<Rightarrow> entry_map \<Rightarrow> ident \<Rightarrow> ident list" where
  "other_ids from to botId =
     filter (\<lambda>i. i \<notin> set (own_ids from to botId)) (changed_ids from to)"

definition closing_writes :: "entry_map \<Rightarrow> entry_map \<Rightarrow> ident \<Rightarrow> overwrite_write list" where
  "closing_writes from to botId =
     map (\<lambda>i. write_entry i (Some (meet_entry i (map_of from i) (map_of to i))))
       (filter (\<lambda>i. \<not> same_bits (some_nonempty (meet_entry i (map_of from i) (map_of to i)))
                                (map_of from i))
          (other_ids from to botId))"

definition opening_writes :: "entry_map \<Rightarrow> entry_map \<Rightarrow> ident \<Rightarrow> overwrite_write list" where
  "opening_writes from to botId =
     map (\<lambda>i. write_entry i (map_of to i))
       (filter (\<lambda>i. \<not> same_bits (some_nonempty (meet_entry i (map_of from i) (map_of to i)))
                                (map_of to i))
          (other_ids from to botId))"

definition overwriteWrites ::
  "overwrite list \<Rightarrow> overwrite list \<Rightarrow> ident \<Rightarrow> overwrite_write list" where
  "overwriteWrites before desired botId =
     (let from = live_entries before; to = live_entries desired
      in map (\<lambda>i. write_entry i (map_of to i)) (own_ids from to botId) @
         closing_writes from to botId @ opening_writes from to botId)"

section \<open>Entries and what they contribute\<close>

definition entry_at :: "overwrite list \<Rightarrow> ident \<Rightarrow> overwrite option" where
  "entry_at ows i = find (\<lambda>e. ow_id e = i) ows"

definition opens_bit :: "overwrite option \<Rightarrow> overwrite_type \<Rightarrow> nat \<Rightarrow> bool" where
  "opens_bit e ty n = (case e of None \<Rightarrow> False | Some e \<Rightarrow> ow_type e = ty \<and> bit (ow_allow e) n)"

text \<open>An entry's deny counts only where the same entry does not allow the bit.\<close>

definition closes_bit :: "overwrite option \<Rightarrow> overwrite_type \<Rightarrow> nat \<Rightarrow> bool" where
  "closes_bit e ty n =
     (case e of None \<Rightarrow> False
      | Some e \<Rightarrow> ow_type e = ty \<and> bit (ow_deny e) n \<and> \<not> bit (ow_allow e) n)"

lemmas contribution_defs = opens_bit_def closes_bit_def

text \<open>An entry no more open than another: it allows no more and denies no less.\<close>

definition le_entry :: "overwrite option \<Rightarrow> overwrite option \<Rightarrow> bool" where
  "le_entry a b \<longleftrightarrow> (\<forall>ty n. (opens_bit a ty n \<longrightarrow> opens_bit b ty n) \<and>
                          (closes_bit b ty n \<longrightarrow> closes_bit a ty n))"

lemma le_entry_refl [simp]: "le_entry a a"
  by (simp add: le_entry_def)

lemma le_entry_trans: "le_entry a b \<Longrightarrow> le_entry b c \<Longrightarrow> le_entry a c"
  by (auto simp: le_entry_def)

definition equiv_entry :: "overwrite option \<Rightarrow> overwrite option \<Rightarrow> bool" where
  "equiv_entry a b \<longleftrightarrow> le_entry a b \<and> le_entry b a"

lemma equiv_entry_refl [simp]: "equiv_entry a a"
  by (simp add: equiv_entry_def)

lemma equiv_entry_sym: "equiv_entry a b \<Longrightarrow> equiv_entry b a"
  by (simp add: equiv_entry_def)

lemma equiv_entry_le: "equiv_entry a b \<Longrightarrow> le_entry a b"
  by (simp add: equiv_entry_def)

lemma equiv_le_equiv: "equiv_entry a a' \<Longrightarrow> le_entry a' b' \<Longrightarrow> equiv_entry b' b \<Longrightarrow> le_entry a b"
  unfolding equiv_entry_def by (blast intro: le_entry_trans)

lemma entry_at_Some: "entry_at ows i = Some e \<Longrightarrow> e \<in> set ows \<and> ow_id e = i"
  by (auto simp: entry_at_def dest: find_Some_mem)

lemma entry_at_mem: "distinct (map ow_id ows) \<Longrightarrow> e \<in> set ows \<Longrightarrow> entry_at ows (ow_id e) = Some e"
  unfolding entry_at_def by (rule find_distinct_key)

lemma entry_at_iff:
  "distinct (map ow_id ows) \<Longrightarrow> entry_at ows i = Some e \<longleftrightarrow> e \<in> set ows \<and> ow_id e = i"
  using entry_at_Some entry_at_mem by metis

lemma entry_at_None: "entry_at ows i = None \<longleftrightarrow> i \<notin> ow_id ` set ows"
  by (auto simp: entry_at_def find_None_mem)

lemma find_typed_entry:
  assumes "distinct (map ow_id ows)"
  shows "find (\<lambda>e. ow_type e = ty \<and> ow_id e = i) ows =
     (case entry_at ows i of None \<Rightarrow> None | Some e \<Rightarrow> if ow_type e = ty then Some e else None)"
  using assms
proof (induction ows)
  case Nil
  then show ?case by (simp add: entry_at_def)
next
  case (Cons e ows)
  then have "ow_id e = i \<Longrightarrow> entry_at ows i = None"
    by (auto simp: entry_at_None)
  with Cons show ?case by (auto simp: entry_at_def)
qed

lemma role_entries_contribute:
  assumes "distinct (map ow_id ows)"
  shows "(\<exists>e \<in> set ows. ow_type e = OwRole \<and> ow_id e \<noteq> g \<and> ow_id e \<in> R \<and> Q e) \<longleftrightarrow>
     (\<exists>i \<in> R. i \<noteq> g \<and> (\<exists>e. entry_at ows i = Some e \<and> ow_type e = OwRole \<and> Q e))"
  using assms by (auto simp: entry_at_iff)

text \<open>A permission in a channel depends on what the entries that name the viewer contribute.\<close>

lemma decided_bit_contributions:
  assumes "distinct (map ow_id ows)"
  shows "decided_bit g base ows m rs n \<longleftrightarrow>
    opens_bit (entry_at ows m) OwMember n \<or>
    (\<not> closes_bit (entry_at ows m) OwMember n \<and>
     ((\<exists>i \<in> set rs. i \<noteq> g \<and> opens_bit (entry_at ows i) OwRole n) \<or>
      (((\<exists>ty. opens_bit (entry_at ows g) ty n) \<or>
        (base n \<and> \<not> (\<exists>ty. closes_bit (entry_at ows g) ty n))) \<and>
       \<not> (\<exists>i \<in> set rs. i \<noteq> g \<and> closes_bit (entry_at ows i) OwRole n))))"
proof -
  have own: "entry_layer (find (\<lambda>e. ow_type e = OwMember \<and> ow_id e = m) ows) n b \<longleftrightarrow>
      opens_bit (entry_at ows m) OwMember n \<or>
      (\<not> closes_bit (entry_at ows m) OwMember n \<and> b)" for b
    by (auto simp: find_typed_entry [OF assms] entry_layer_def contribution_defs split: option.split)
  have ev: "entry_layer (find (\<lambda>e. ow_id e = g) ows) n (base n) \<longleftrightarrow>
      (\<exists>ty. opens_bit (entry_at ows g) ty n) \<or>
      (base n \<and> \<not> (\<exists>ty. closes_bit (entry_at ows g) ty n))"
    by (auto simp: entry_layer_def contribution_defs entry_at_def [symmetric] split: option.split)
  let ?role = "\<lambda>f. \<exists>e \<in> set ows. ow_type e = OwRole \<and> ow_id e \<noteq> g \<and> ow_id e \<in> set rs \<and> bit (f e) n"
  have allow: "?role ow_allow \<longleftrightarrow> (\<exists>i \<in> set rs. i \<noteq> g \<and> opens_bit (entry_at ows i) OwRole n)"
    unfolding role_entries_contribute [OF assms] by (auto simp: contribution_defs split: option.splits)
  have deny: "?role ow_deny \<longleftrightarrow> (\<exists>i \<in> set rs. i \<noteq> g \<and> closes_bit (entry_at ows i) OwRole n)"
    if "\<not> (\<exists>i \<in> set rs. i \<noteq> g \<and> opens_bit (entry_at ows i) OwRole n)"
    unfolding role_entries_contribute [OF assms]
    by (intro bex_cong refl) (use that in \<open>auto simp: contribution_defs split: option.splits\<close>)
  show ?thesis
  proof (cases "\<exists>i \<in> set rs. i \<noteq> g \<and> opens_bit (entry_at ows i) OwRole n")
    case True
    then show ?thesis unfolding decided_bit_def own ev allow by simp
  next
    case False
    then show ?thesis unfolding decided_bit_def own ev allow deny [OF False] by simp
  qed
qed

section \<open>What the writes rely on of a viewer\<close>

text \<open>
  A viewer's permissions in a channel, as a function of its overwrites, and the IDs of the entries
  that concern the viewer. The law: closing the entries that concern a viewer never gives the viewer
  more.
\<close>

locale channel_view =
  fixes view :: "'v \<Rightarrow> overwrite list \<Rightarrow> int"
    and concerns :: "'v \<Rightarrow> ident \<Rightarrow> bool"
  assumes view_mono:
    "distinct (map ow_id s) \<Longrightarrow> distinct (map ow_id t) \<Longrightarrow>
     (\<And>i. concerns v i \<Longrightarrow> le_entry (entry_at s i) (entry_at t i)) \<Longrightarrow> bits_le (view v s) (view v t)"

text \<open>Discord's algorithm satisfies it: the viewer is a member and the roles they hold.\<close>

definition discord_view ::
  "flag_bits \<Rightarrow> int \<Rightarrow> ident \<Rightarrow> int \<Rightarrow> bool \<Rightarrow> ident \<times> ident list \<Rightarrow> overwrite list \<Rightarrow> int" where
  "discord_view P allp g base ign v ows = channelPermissions P allp g base ows (fst v) (snd v) ign"

definition discord_concerns :: "ident \<Rightarrow> ident \<times> ident list \<Rightarrow> ident \<Rightarrow> bool" where
  "discord_concerns g v i \<longleftrightarrow> i = g \<or> i = fst v \<or> i \<in> set (snd v)"

lemma decided_bit_mono:
  assumes "distinct (map ow_id s)" "distinct (map ow_id t)"
    and "\<And>i. i = g \<or> i = m \<or> i \<in> set rs \<Longrightarrow> le_entry (entry_at s i) (entry_at t i)"
    and "decided_bit g base s m rs n"
  shows "decided_bit g base t m rs n"
proof -
  have opens: "opens_bit (entry_at s i) ty n \<Longrightarrow> opens_bit (entry_at t i) ty n"
    and closes: "closes_bit (entry_at t i) ty n \<Longrightarrow> closes_bit (entry_at s i) ty n"
    if "i = g \<or> i = m \<or> i \<in> set rs" for i ty
    using assms(3) [OF that] by (auto simp: le_entry_def)
  show ?thesis
    using assms(4) unfolding decided_bit_contributions [OF assms(1)]
      decided_bit_contributions [OF assms(2)]
    using opens closes by blast
qed

interpretation discord: channel_view "discord_view P allp g base ign" "discord_concerns g"
  for P allp g base ign
proof
  fix s t v
  assume st: "distinct (map ow_id s)" "distinct (map ow_id t)"
    and le: "\<And>i. discord_concerns g v i \<Longrightarrow> le_entry (entry_at s i) (entry_at t i)"
  have le': "le_entry (entry_at s i) (entry_at t i)" if "i = g \<or> i = fst v \<or> i \<in> set (snd v)" for i
    using le that by (simp add: discord_concerns_def)
  show "bits_le (discord_view P allp g base ign v s) (discord_view P allp g base ign v t)"
  proof (cases "\<not> ign \<and> base AND P Administrator \<noteq> 0")
    case True
    then show ?thesis by (simp add: discord_view_def channelPermissions_administrator)
  next
    case False
    then show ?thesis
      using decided_bit_mono [OF st le']
      by (cases ign) (auto simp: discord_view_def bits_le_iff bit_channelPermissions_ignore
          bit_channelPermissions)
  qed
qed

section \<open>Applying the writes\<close>

text \<open>Discord's per-entry endpoints: one sets an entry's exact bits, the other removes it.\<close>

fun apply_write :: "overwrite list \<Rightarrow> overwrite_write \<Rightarrow> overwrite list" where
  "apply_write s (Put e) = filter (\<lambda>x. ow_id x \<noteq> ow_id e) s @ [e]"
| "apply_write s (Delete i) = filter (\<lambda>x. ow_id x \<noteq> i) s"

fun written :: "overwrite_write \<Rightarrow> overwrite option" where
  "written (Put e) = Some e"
| "written (Delete i) = None"

definition apply_writes :: "overwrite list \<Rightarrow> overwrite_write list \<Rightarrow> overwrite list" where
  "apply_writes s ws = foldl apply_write s ws"

lemma entry_at_filter: "entry_at (filter (\<lambda>x. ow_id x \<noteq> j) s) i = (if i = j then None else entry_at s i)"
  unfolding entry_at_def by (induction s) auto

lemma find_append: "find Q (xs @ ys) = (case find Q xs of None \<Rightarrow> find Q ys | Some x \<Rightarrow> Some x)"
  by (induction xs) auto

lemma entry_at_append:
  "entry_at (s @ t) i = (case entry_at s i of None \<Rightarrow> entry_at t i | Some e \<Rightarrow> Some e)"
  by (simp add: entry_at_def find_append split: option.split)

lemma entry_at_single: "entry_at [e] i = (if ow_id e = i then Some e else None)"
  by (simp add: entry_at_def)

lemma entry_at_apply_write:
  "entry_at (apply_write s w) i = (if i = write_id w then written w else entry_at s i)"
  by (cases w) (auto simp: entry_at_append entry_at_filter entry_at_single split: option.split)

lemma distinct_apply_write: "distinct (map ow_id s) \<Longrightarrow> distinct (map ow_id (apply_write s w))"
  by (cases w) (auto simp: distinct_map_filter)

lemma distinct_apply_writes: "distinct (map ow_id s) \<Longrightarrow> distinct (map ow_id (apply_writes s ws))"
  unfolding apply_writes_def by (induction ws arbitrary: s) (auto simp: distinct_apply_write)

lemma apply_writes_append: "apply_writes s (ws @ vs) = apply_writes (apply_writes s ws) vs"
  by (simp add: apply_writes_def)

lemma entry_at_apply_writes:
  "entry_at (apply_writes s ws) i = entry_at s i \<and> i \<notin> write_id ` set ws \<or>
   (\<exists>w \<in> set ws. write_id w = i \<and> entry_at (apply_writes s ws) i = written w)"
  unfolding apply_writes_def
proof (induction ws arbitrary: s rule: rev_induct)
  case (snoc w ws)
  then show ?case by (auto simp: entry_at_apply_write)
qed simp

section \<open>The writes, step by step\<close>

lemma same_bits_equiv: "same_bits a b \<Longrightarrow> equiv_entry a b"
  by (cases a; cases b)
    (simp_all add: same_bits_def equiv_entry_def le_entry_def contribution_defs)

lemma same_bits_refl [simp]: "same_bits a a"
  by (simp add: same_bits_def split: option.split)

lemma same_bits_sym: "same_bits a b \<Longrightarrow> same_bits b a"
  by (auto simp: same_bits_def split: option.splits)

lemma same_bits_trans: "same_bits a b \<Longrightarrow> same_bits b c \<Longrightarrow> same_bits a c"
  by (auto simp: same_bits_def split: option.splits)

lemma empty_entry_equiv:
  "\<not> nonempty_entry e \<Longrightarrow> equiv_entry (Some e) None"
  by (simp add: nonempty_entry_def equiv_entry_def le_entry_def contribution_defs)

lemma some_nonempty_equiv: "equiv_entry (some_nonempty e) (Some e)"
  by (simp add: some_nonempty_def equiv_entry_sym [OF empty_entry_equiv])

lemma write_id_write_entry [simp]: "write_id (write_entry i v) = i"
  by (simp add: write_entry_def split: option.split)

lemma written_write_entry:
  "written (write_entry i v) =
     (case v of None \<Rightarrow> None | Some e \<Rightarrow> if nonempty_entry e then Some (e\<lparr>ow_id := i\<rparr>) else None)"
  by (auto simp: write_entry_def nonempty_entry_def split: option.split)

lemma written_write_entry_equiv: "equiv_entry (written (write_entry i v)) v"
  by (auto simp: written_write_entry nonempty_entry_def equiv_entry_def le_entry_def
      contribution_defs split: option.split)

text \<open>The restrictive meet is no more open than either value.\<close>

definition types_agree :: "overwrite option \<Rightarrow> overwrite option \<Rightarrow> bool" where
  "types_agree a b \<longleftrightarrow> (case (a, b) of (Some a, Some b) \<Rightarrow> ow_type a = ow_type b | _ \<Rightarrow> True)"

lemma meet_entry_le:
  assumes "types_agree a b"
  shows "le_entry (Some (meet_entry i a b)) a" "le_entry (Some (meet_entry i a b)) b"
  using assms
  by (auto simp: types_agree_def meet_entry_def le_entry_def contribution_defs opt_bits_def Let_def
      bit_simps split: option.splits)

text \<open>Entries by ID.\<close>

lemma map_of_entries_of:
  assumes "distinct (map ow_id ows)"
  shows "map_of (entries_of ows) i = entry_at ows i"
proof -
  have "map_of (fold (\<lambda>e m. AList.update (ow_id e) e m) ows m) i =
      (case entry_at ows i of Some e \<Rightarrow> Some e | None \<Rightarrow> map_of m i)" for m
    using assms
  proof (induction ows arbitrary: m)
    case Nil
    then show ?case by (simp add: entry_at_def)
  next
    case (Cons e ows)
    then have "ow_id e = i \<Longrightarrow> entry_at ows i = None" by (auto simp: entry_at_None)
    with Cons show ?case
      by (auto simp: entry_at_def update_conv' split: option.split)
  qed
  then show ?thesis by (simp add: entries_of_def split: option.split)
qed

lemma map_of_live_entries:
  assumes "distinct (map ow_id ows)"
  shows "map_of (live_entries ows) i =
    (case entry_at ows i of None \<Rightarrow> None | Some e \<Rightarrow> some_nonempty e)"
proof -
  have d: "distinct (map ow_id (filter nonempty_entry ows))"
    using assms by (simp add: distinct_map_filter)
  have "entry_at (filter nonempty_entry ows) i =
      (case entry_at ows i of None \<Rightarrow> None | Some e \<Rightarrow> some_nonempty e)"
  proof (cases "entry_at ows i")
    case None
    then have "entry_at (filter nonempty_entry ows) i = None" by (auto simp: entry_at_None)
    with None show ?thesis by simp
  next
    case (Some e)
    then have e: "e \<in> set ows" "ow_id e = i" by (auto dest: entry_at_Some)
    show ?thesis
    proof (cases "nonempty_entry e")
      case True
      with e have "entry_at (filter nonempty_entry ows) i = Some e"
        by (simp add: entry_at_iff [OF d])
      then show ?thesis using Some True by (simp add: some_nonempty_def)
    next
      case False
      have "entry_at (filter nonempty_entry ows) i = None"
      proof (rule ccontr)
        assume "entry_at (filter nonempty_entry ows) i \<noteq> None"
        then obtain x where "entry_at (filter nonempty_entry ows) i = Some x" by blast
        then have x: "x \<in> set ows" "nonempty_entry x" "ow_id x = i"
          by (auto dest!: entry_at_Some)
        then have "x = e" using Some entry_at_mem [OF assms x(1)] by simp
        with x False show False by simp
      qed
      then show ?thesis using Some False by (simp add: some_nonempty_def)
    qed
  qed
  then show ?thesis by (simp add: live_entries_def map_of_entries_of [OF d])
qed

lemma live_entry_equiv:
  assumes "distinct (map ow_id ows)"
  shows "equiv_entry (map_of (live_entries ows) i) (entry_at ows i)"
  by (auto simp: map_of_live_entries [OF assms] some_nonempty_equiv split: option.split)

lemma live_entry_nonempty:
  assumes "distinct (map ow_id ows)" "map_of (live_entries ows) i = Some e"
  shows "nonempty_entry e \<and> ow_id e = i"
  using assms(2)
  by (auto simp: map_of_live_entries [OF assms(1)] some_nonempty_def dest: entry_at_Some
      split: option.splits if_splits)

lemma set_changed_ids:
  "i \<in> set (changed_ids from to) \<longleftrightarrow> \<not> same_bits (map_of from i) (map_of to i)"
proof -
  have "i \<notin> fst ` set from \<union> fst ` set to \<Longrightarrow> same_bits (map_of from i) (map_of to i)"
    by (metis UnCI map_of_eq_None_iff same_bits_refl)
  then show ?thesis by (auto simp: changed_ids_def)
qed

lemma set_own_ids:
  "i \<in> set (own_ids from to botId) \<longleftrightarrow>
     i = botId \<and> map_option ow_type (map_of to i) = Some OwMember \<and>
     \<not> same_bits (map_of from i) (map_of to i)"
  by (auto simp: own_ids_def set_changed_ids)

lemma set_other_ids:
  "i \<in> set (other_ids from to botId) \<longleftrightarrow>
     \<not> same_bits (map_of from i) (map_of to i) \<and> i \<notin> set (own_ids from to botId)"
  by (auto simp: other_ids_def set_changed_ids)

text \<open>Every write of each step has the value that step gives its entry.\<close>

definition meet_at :: "entry_map \<Rightarrow> entry_map \<Rightarrow> ident \<Rightarrow> overwrite" where
  "meet_at from to i = meet_entry i (map_of from i) (map_of to i)"

lemma closing_writesD:
  "w \<in> set (closing_writes from to botId) \<Longrightarrow>
     w = write_entry (write_id w) (Some (meet_at from to (write_id w)))"
  by (auto simp: closing_writes_def meet_at_def)

lemma opening_writesD:
  "w \<in> set (opening_writes from to botId) \<Longrightarrow> w = write_entry (write_id w) (map_of to (write_id w))"
  by (auto simp: opening_writes_def)

lemma closing_skipped:
  "i \<in> set (other_ids from to botId) \<Longrightarrow> i \<notin> write_id ` set (closing_writes from to botId) \<Longrightarrow>
     same_bits (some_nonempty (meet_at from to i)) (map_of from i)"
  by (force simp: closing_writes_def meet_at_def)

lemma opening_skipped:
  "i \<in> set (other_ids from to botId) \<Longrightarrow> i \<notin> write_id ` set (opening_writes from to botId) \<Longrightarrow>
     same_bits (some_nonempty (meet_at from to i)) (map_of to i)"
  by (force simp: opening_writes_def meet_at_def)

definition own_writes :: "entry_map \<Rightarrow> entry_map \<Rightarrow> ident \<Rightarrow> overwrite_write list" where
  "own_writes from to botId = map (\<lambda>i. write_entry i (map_of to i)) (own_ids from to botId)"

lemma own_writesD:
  "w \<in> set (own_writes from to botId) \<Longrightarrow>
     write_id w = botId \<and> w = write_entry botId (map_of to botId)"
  by (auto simp: own_writes_def set_own_ids)

lemma own_write_ids: "write_id ` set (own_writes from to botId) = set (own_ids from to botId)"
  by (force simp: own_writes_def)

lemma overwriteWrites_steps:
  "overwriteWrites before desired botId =
     own_writes (live_entries before) (live_entries desired) botId @
     closing_writes (live_entries before) (live_entries desired) botId @
     opening_writes (live_entries before) (live_entries desired) botId"
  by (simp add: overwriteWrites_def own_writes_def Let_def)

text \<open>While the channel closes, each entry but TaruBot's own is no more open than it was.\<close>

lemma closing_state_le:
  assumes d: "distinct (map ow_id before)" and ty: "types_agree (map_of from i) (map_of to i)"
    and f: "from = live_entries before"
    and ws: "set ws \<subseteq> set (own_writes from to botId @ closing_writes from to botId)"
    and i: "i \<noteq> botId"
  shows "le_entry (entry_at (apply_writes before ws) i) (entry_at before i)"
  using entry_at_apply_writes [of before ws i]
proof
  assume "\<exists>w \<in> set ws. write_id w = i \<and> entry_at (apply_writes before ws) i = written w"
  then obtain w where w: "w \<in> set ws" "write_id w = i"
    "entry_at (apply_writes before ws) i = written w" by blast
  with ws i own_writesD have "w \<in> set (closing_writes from to botId)" by fastforce
  with w have "w = write_entry i (Some (meet_at from to i))" using closing_writesD by metis
  then have "equiv_entry (written w) (Some (meet_at from to i))"
    by (simp add: written_write_entry_equiv)
  moreover have "le_entry (Some (meet_at from to i)) (map_of from i)"
    unfolding meet_at_def using ty by (rule meet_entry_le)
  ultimately show ?thesis
    using w(3) live_entry_equiv [OF d, of i] f by (metis equiv_le_equiv)
qed simp

text \<open>Once it opens, each of them is no more open than the policy wants.\<close>

lemma opening_state_le:
  assumes d: "distinct (map ow_id before)" "distinct (map ow_id desired)"
    and ty: "types_agree (map_of from i) (map_of to i)"
    and f: "from = live_entries before" and t: "to = live_entries desired"
    and vs: "set vs \<subseteq> set (opening_writes from to botId)"
    and i: "i \<noteq> botId"
  shows "le_entry (entry_at (apply_writes before
            (own_writes from to botId @ closing_writes from to botId @ vs)) i) (entry_at desired i)"
    (is "le_entry (entry_at ?s i) _")
proof -
  have to_i: "equiv_entry (map_of to i) (entry_at desired i)"
    using live_entry_equiv [OF d(2)] t by simp
  have meet: "le_entry (Some (meet_at from to i)) (map_of to i)"
    unfolding meet_at_def using ty by (rule meet_entry_le)
  let ?ws = "own_writes from to botId @ closing_writes from to botId @ vs"
  from entry_at_apply_writes [of before ?ws i]
  have "le_entry (entry_at ?s i) (map_of to i)"
  proof
    assume "\<exists>w \<in> set ?ws. write_id w = i \<and> entry_at ?s i = written w"
    then obtain w where w: "w \<in> set ?ws" "write_id w = i" "entry_at ?s i = written w" by blast
    with vs i own_writesD have
      "w \<in> set (closing_writes from to botId) \<or> w \<in> set (opening_writes from to botId)" by fastforce
    with w have "w = write_entry i (Some (meet_at from to i)) \<or> w = write_entry i (map_of to i)"
      using closing_writesD opening_writesD by metis
    then show ?thesis
      using w(3) meet written_write_entry_equiv [of i] by (metis equiv_entry_le le_entry_trans)
  next
    assume a: "entry_at ?s i = entry_at before i \<and> i \<notin> write_id ` set ?ws"
    have from_i: "equiv_entry (entry_at ?s i) (map_of from i)"
      using a live_entry_equiv [OF d(1), of i] f by (simp add: equiv_entry_sym)
    show ?thesis
    proof (cases "i \<in> set (other_ids from to botId)")
      case True
      with a have "same_bits (some_nonempty (meet_at from to i)) (map_of from i)"
        by (auto intro: closing_skipped)
      then have "equiv_entry (map_of from i) (Some (meet_at from to i))"
        using same_bits_equiv some_nonempty_equiv equiv_entry_sym
        by (metis equiv_entry_def le_entry_trans)
      with from_i meet show ?thesis by (metis equiv_entry_le le_entry_trans)
    next
      case False
      with i have "same_bits (map_of from i) (map_of to i)"
        by (auto simp: set_other_ids set_own_ids)
      with from_i show ?thesis by (metis equiv_entry_le le_entry_trans same_bits_equiv)
    qed
  qed
  then show ?thesis using to_i by (metis equiv_entry_le le_entry_trans)
qed

context channel_view
begin

text \<open>For any viewer TaruBot's own entry does not concern, every state of the pass is safe.\<close>

lemma writes_never_overopen:
  assumes d: "distinct (map ow_id before)" "distinct (map ow_id desired)"
    and ty: "\<And>i. types_agree (entry_at before i) (entry_at desired i)"
    and v: "\<not> concerns v botId"
  shows "bits_le (view v (apply_writes before (take k (overwriteWrites before desired botId))))
           (view v before) \<or>
         bits_le (view v (apply_writes before (take k (overwriteWrites before desired botId))))
           (view v desired)"
proof -
  let ?from = "live_entries before" and ?to = "live_entries desired"
  let ?cs = "own_writes ?from ?to botId @ closing_writes ?from ?to botId"
  let ?os = "opening_writes ?from ?to botId"
  have agree: "types_agree (map_of ?from i) (map_of ?to i)" for i
    using ty [of i] by (auto simp: map_of_live_entries d types_agree_def some_nonempty_def
        split: option.splits if_splits)
  have ws: "overwriteWrites before desired botId = ?cs @ ?os"
    by (simp add: overwriteWrites_steps)
  have ds: "distinct (map ow_id (apply_writes before ws))" for ws
    using d(1) by (rule distinct_apply_writes)
  have nb: "concerns v i \<Longrightarrow> i \<noteq> botId" for i using v by blast
  show ?thesis
  proof (cases "k \<le> length ?cs")
    case True
    then have "set (take k (overwriteWrites before desired botId)) \<subseteq> set ?cs"
      unfolding ws using set_take_subset [of k ?cs] by simp
    then have "le_entry (entry_at (apply_writes before
        (take k (overwriteWrites before desired botId))) i) (entry_at before i)"
      if "concerns v i" for i
      using closing_state_le [OF d(1) agree refl _ nb [OF that]] by blast
    then show ?thesis using view_mono [OF ds d(1)] by blast
  next
    case False
    then have "take k (overwriteWrites before desired botId) = ?cs @ take (k - length ?cs) ?os"
      unfolding ws by simp
    then have "le_entry (entry_at (apply_writes before
        (take k (overwriteWrites before desired botId))) i) (entry_at desired i)"
      if "concerns v i" for i
      using opening_state_le [OF d agree refl refl set_take_subset nb [OF that]] by simp
    then show ?thesis using view_mono [OF ds d(2)] by blast
  qed
qed

end

section \<open>Where the writes end\<close>

lemma write_entry_exact:
  assumes "\<And>e. v = Some e \<Longrightarrow> nonempty_entry e \<and> ow_id e = i"
  shows "written (write_entry i v) = v"
  using assms by (cases v) (auto simp: written_write_entry)

lemma same_bits_eq:
  assumes "same_bits a b" "\<And>e. a = Some e \<Longrightarrow> ow_id e = i" "\<And>e. b = Some e \<Longrightarrow> ow_id e = i"
  shows "a = b"
proof (cases a)
  case None
  with assms(1) show ?thesis by (cases b) (simp_all add: same_bits_def)
next
  case (Some x)
  with assms(1) obtain y where y: "b = Some y" by (cases b) (simp_all add: same_bits_def)
  have "x = y"
    by (rule overwrite.equality) (use assms Some y in \<open>simp_all add: same_bits_def\<close>)
  with Some y show ?thesis by simp
qed

lemma live_written:
  assumes "distinct (map ow_id ows)"
  shows "written (write_entry i (map_of (live_entries ows) i)) = map_of (live_entries ows) i"
  by (rule write_entry_exact) (rule live_entry_nonempty [OF assms])

lemma some_nonempty_Some: "some_nonempty e = Some x \<longleftrightarrow> nonempty_entry e \<and> x = e"
  by (auto simp: some_nonempty_def)

lemma ow_id_meet_at [simp]: "ow_id (meet_at from to i) = i"
  by (simp add: meet_at_def meet_entry_def Let_def)

lemma written_meet: "written (write_entry i (Some (meet_at from to i))) = some_nonempty (meet_at from to i)"
proof (cases "nonempty_entry (meet_at from to i)")
  case True
  have "(meet_at from to i)\<lparr>ow_id := i\<rparr> = meet_at from to i"
    by (rule overwrite.equality) simp_all
  with True show ?thesis by (simp add: written_write_entry some_nonempty_def)
next
  case False
  then show ?thesis by (simp add: written_write_entry some_nonempty_def)
qed

text \<open>The live entry a state has where it was last written, and where it never was.\<close>

lemma live_final:
  assumes d: "distinct (map ow_id before)" "distinct (map ow_id desired)"
    and f: "from = live_entries before" and t: "to = live_entries desired"
  shows "map_of (live_entries (apply_writes before (overwriteWrites before desired botId))) i =
    map_of to i"
proof -
  let ?cs = "own_writes from to botId @ closing_writes from to botId"
  let ?os = "opening_writes from to botId"
  let ?s = "apply_writes before ?cs"
  let ?final = "apply_writes before (overwriteWrites before desired botId)"
  have final: "?final = apply_writes ?s ?os"
    by (simp add: overwriteWrites_steps f t apply_writes_append)
  have df: "distinct (map ow_id ?final)" by (rule distinct_apply_writes [OF d(1)])
  have id_from: "map_of from i = Some e \<Longrightarrow> ow_id e = i" and
    id_to: "map_of to i = Some e \<Longrightarrow> ow_id e = i" for e
    using live_entry_nonempty d f t by blast+
  have live_to: "(case map_of to i of None \<Rightarrow> None | Some e \<Rightarrow> some_nonempty e) = map_of to i"
    using live_entry_nonempty [OF d(2)] t by (auto simp: some_nonempty_def split: option.split)
  have written_to: "written (write_entry i (map_of to i)) = map_of to i"
    unfolding t by (rule live_written [OF d(2)])
  have eq_from: "entry_at ?final i = entry_at before i \<Longrightarrow>
      same_bits (map_of from i) (map_of to i) \<Longrightarrow>
      (case entry_at ?final i of None \<Rightarrow> None | Some e \<Rightarrow> some_nonempty e) = map_of to i"
    using same_bits_eq [of "map_of from i" "map_of to i" i] id_from id_to
    by (simp add: f map_of_live_entries [OF d(1)])
  have "(case entry_at ?final i of None \<Rightarrow> None | Some e \<Rightarrow> some_nonempty e) = map_of to i"
  proof (cases "i \<in> write_id ` set ?os")
    case True
    then obtain w where w: "w \<in> set ?os" "write_id w = i" "entry_at ?final i = written w"
      using entry_at_apply_writes [of ?s ?os i] unfolding final by blast
    then have "entry_at ?final i = map_of to i"
      using opening_writesD written_to by metis
    then show ?thesis by (simp add: live_to)
  next
    case False
    then have s: "entry_at ?final i = entry_at ?s i"
      using entry_at_apply_writes [of ?s ?os i] unfolding final by blast
    have skipped: "i \<in> set (other_ids from to botId) \<Longrightarrow>
        same_bits (some_nonempty (meet_at from to i)) (map_of to i)"
      using opening_skipped False by blast
    from entry_at_apply_writes [of before ?cs i] show ?thesis
    proof
      assume "\<exists>w \<in> set ?cs. write_id w = i \<and> entry_at ?s i = written w"
      then obtain w where w: "w \<in> set ?cs" "write_id w = i" "entry_at ?s i = written w" by blast
      then consider "w \<in> set (own_writes from to botId)" | "w \<in> set (closing_writes from to botId)"
        by auto
      then have "entry_at ?s i = map_of to i"
      proof cases
        case 1
        then show ?thesis using own_writesD w written_to by metis
      next
        case 2
        then have "i \<in> set (other_ids from to botId)" using w by (auto simp: closing_writes_def)
        moreover have "entry_at ?s i = some_nonempty (meet_at from to i)"
          using closing_writesD [OF 2] w written_meet by metis
        ultimately show ?thesis
          using same_bits_eq [OF skipped, of i] id_to by (auto simp: some_nonempty_Some)
      qed
      with s show ?thesis by (simp add: live_to)
    next
      assume a: "entry_at ?s i = entry_at before i \<and> i \<notin> write_id ` set ?cs"
      have "same_bits (map_of from i) (map_of to i)"
      proof (rule ccontr)
        assume n: "\<not> same_bits (map_of from i) (map_of to i)"
        have "i \<notin> set (own_ids from to botId)" using a by (simp add: image_Un own_write_ids)
        with n have "i \<in> set (other_ids from to botId)" by (simp add: set_other_ids)
        moreover from this a have "same_bits (some_nonempty (meet_at from to i)) (map_of from i)"
          by (auto intro: closing_skipped)
        ultimately show False using n skipped same_bits_sym same_bits_trans by blast
      qed
      with a s show ?thesis using eq_from by simp
    qed
  qed
  then show ?thesis by (simp add: map_of_live_entries [OF df])
qed

lemma canonical_eq_iff:
  assumes "distinct (map ow_id l)" "distinct (map ow_id r)"
  shows "sameOverwrites l r \<longleftrightarrow> (\<forall>i. map_of (live_entries l) i = map_of (live_entries r) i)"
proof -
  have mem: "map_of (live_entries ows) i = Some e \<longleftrightarrow> e \<in> set (canonical_overwrites ows) \<and> ow_id e = i"
    if "distinct (map ow_id ows)" for ows i e
    using entry_at_iff [OF that, of i e]
    by (cases "entry_at ows i")
      (auto simp: map_of_live_entries [OF that] canonical_overwrites_def some_nonempty_Some)
  have canon: "e \<in> set (canonical_overwrites ows) \<longleftrightarrow> map_of (live_entries ows) (ow_id e) = Some e"
    if "distinct (map ow_id ows)" for ows e
    by (simp add: mem [OF that])
  have dc: "distinct (map ow_id (canonical_overwrites ows))" if "distinct (map ow_id ows)" for ows
    using that by (simp add: canonical_overwrites_def distinct_map_filter)
  have sorted: "sorted_wrt (\<lambda>a b. locale_compare a b \<le> 0) (map ow_id (canonical_overwrites ows))" for ows
    using by_id.sorted_sort_by [of "filter nonempty_entry ows"]
    by (simp add: canonical_overwrites_def sorted_wrt_map by_id_def)
  show ?thesis
  proof
    assume "\<forall>i. map_of (live_entries l) i = map_of (live_entries r) i"
    then have sets: "set (canonical_overwrites l) = set (canonical_overwrites r)"
      by (simp add: set_eq_iff canon [OF assms(1)] canon [OF assms(2)])
    then have "mset (map ow_id (canonical_overwrites l)) = mset (map ow_id (canonical_overwrites r))"
      using dc [OF assms(1)] dc [OF assms(2)]
      by (simp only: set_eq_iff_mset_eq_distinct [symmetric] set_map)
    then have "map ow_id (canonical_overwrites l) = map ow_id (canonical_overwrites r)"
      using locale_compare.sorted_unique sorted by blast
    moreover have "inj_on ow_id (set (canonical_overwrites l) \<union> set (canonical_overwrites r))"
      using dc [OF assms(1)] sets by (simp add: distinct_map)
    ultimately show "sameOverwrites l r"
      unfolding sameOverwrites_def by (rule map_inj_on)
  next
    assume "sameOverwrites l r"
    then show "\<forall>i. map_of (live_entries l) i = map_of (live_entries r) i"
      using mem [OF assms(1)] mem [OF assms(2)] unfolding sameOverwrites_def
      by (metis not_None_eq)
  qed
qed

section \<open>What the policy's overwrites let a member see\<close>

lemma option_eqI: "(\<And>e. a = Some e \<longleftrightarrow> b = Some e) \<Longrightarrow> a = b"
  by (cases a; cases b) auto

text \<open>An entry map keeps one entry per ID, filed under its own ID.\<close>

definition entry_map_ok :: "entry_map \<Rightarrow> bool" where
  "entry_map_ok m \<longleftrightarrow> distinct (map fst m) \<and> (\<forall>(i, e) \<in> set m. ow_id e = i)"

lemma entry_map_ok_Nil [simp]: "entry_map_ok []"
  by (simp add: entry_map_ok_def)

lemma entry_map_ok_map_of: "entry_map_ok m \<Longrightarrow> map_of m i = Some e \<Longrightarrow> ow_id e = i"
  by (auto simp: entry_map_ok_def dest: map_of_SomeD)

lemma entry_map_ok_update [intro]:
  assumes "entry_map_ok m" "ow_id e = i"
  shows "entry_map_ok (AList.update i e m)"
proof -
  have "set (AList.update i e m) \<subseteq> insert (i, e) (set m)"
    by (induction m) auto
  then show ?thesis
    using assms by (auto simp: entry_map_ok_def distinct_update)
qed

lemma entry_map_ok_entries_of: "entry_map_ok (entries_of ows)"
proof -
  have "entry_map_ok m \<Longrightarrow> entry_map_ok (fold (\<lambda>e m. AList.update (ow_id e) e m) ows m)" for m
    by (induction ows arbitrary: m) auto
  then show ?thesis by (simp add: entries_of_def)
qed

lemma entry_map_ok_set_entry:
  assumes "entry_map_ok m"
  shows "entry_map_ok (set_entry i ty allow deny m)"
  unfolding set_entry_def Let_def
  by (rule entry_map_ok_update [OF assms])
    (use entry_map_ok_map_of [OF assms] in \<open>auto split: option.split\<close>)

lemma map_of_set_entry:
  "map_of (set_entry i ty allow deny m) =
     (map_of m)(i \<mapsto>
       (case map_of m i of
          None \<Rightarrow> \<lparr>ow_id = i, ow_type = ty, ow_allow = allow, ow_deny = deny\<rparr>
        | Some e \<Rightarrow> e\<lparr>ow_type := ty, ow_allow := (ow_allow e AND NOT deny) OR allow,
                       ow_deny := (ow_deny e AND NOT allow) OR deny\<rparr>))"
  by (auto simp: set_entry_def update_conv' Let_def split: option.split)

lemma entry_map_ok_policy_entries:
  assumes "entry_map_ok m"
  shows "entry_map_ok (policy_entries P guild botId roles audience m)"
  unfolding policy_entries_def Let_def using assms
  by (auto intro!: entry_map_ok_set_entry entry_map_ok_update dest: entry_map_ok_map_of [rotated]
      split: option.split)

lemma entry_at_listed:
  assumes "entry_map_ok m"
  shows "distinct (map ow_id (sort_by by_id (filter nonempty_entry (map snd m))))"
    and "entry_at (sort_by by_id (filter nonempty_entry (map snd m))) i =
      (case map_of m i of None \<Rightarrow> None | Some e \<Rightarrow> some_nonempty e)"
proof -
  have ids: "map ow_id (map snd m) = map fst m"
    using assms by (auto simp: entry_map_ok_def)
  have "distinct (map ow_id (map snd m))"
    unfolding ids using assms by (simp add: entry_map_ok_def)
  then have "distinct (map ow_id (filter nonempty_entry (map snd m)))"
    by (rule distinct_map_filter)
  then show d: "distinct (map ow_id (sort_by by_id (filter nonempty_entry (map snd m))))"
    by simp
  have mo: "(i, e) \<in> set m \<longleftrightarrow> map_of m i = Some e" for e
    using assms by (simp add: entry_map_ok_def)
  have "entry_at (sort_by by_id (filter nonempty_entry (map snd m))) i = Some e \<longleftrightarrow>
      (i, e) \<in> set m \<and> nonempty_entry e" for e
    using assms unfolding entry_at_iff [OF d] by (force simp: entry_map_ok_def)
  then have at: "entry_at (sort_by by_id (filter nonempty_entry (map snd m))) i = Some e \<longleftrightarrow>
      map_of m i = Some e \<and> nonempty_entry e" for e
    by (simp only: mo)
  have "(case map_of m i of None \<Rightarrow> None | Some e \<Rightarrow> some_nonempty e) = Some e \<longleftrightarrow>
      map_of m i = Some e \<and> nonempty_entry e" for e
    by (cases "map_of m i") (auto simp: some_nonempty_Some)
  with at show "entry_at (sort_by by_id (filter nonempty_entry (map snd m))) i =
      (case map_of m i of None \<Rightarrow> None | Some e \<Rightarrow> some_nonempty e)"
    by (intro option_eqI) simp
qed

end
