(* ===== verification/ChannelSafety.thy ===== *)
theory ChannelSafety
  imports ChannelAccess
begin

text \<open>
  What Lobby onboarding's channel policy promises: who can see a channel under each audience's
  overwrites, that the writes reach those overwrites, and that no state in between is more open
  than the channel before or after. The definitions are in ChannelAccess.
\<close>

section \<open>The View Channel bit of the policy's entries\<close>

text \<open>What an entry decides of one bit, whatever its other bits: its allow, else its deny.\<close>

definition verdict :: "overwrite option \<Rightarrow> nat \<Rightarrow> bool option" where
  "verdict e k =
     (case e of None \<Rightarrow> None
      | Some e \<Rightarrow> if bit (ow_allow e) k then Some True
                  else if bit (ow_deny e) k then Some False else None)"

definition typed :: "overwrite option \<Rightarrow> overwrite_type \<Rightarrow> bool" where
  "typed e ty \<longleftrightarrow> (case e of None \<Rightarrow> False | Some e \<Rightarrow> ow_type e = ty)"

lemma opens_verdict: "opens_bit e ty k \<longleftrightarrow> typed e ty \<and> verdict e k = Some True"
  by (cases e) (simp_all add: opens_bit_def verdict_def typed_def)

lemma closes_verdict: "closes_bit e ty k \<longleftrightarrow> typed e ty \<and> verdict e k = Some False"
  by (cases e) (auto simp: closes_bit_def verdict_def typed_def)

lemma typed_ex: "(\<exists>ty. typed e ty \<and> Q) \<longleftrightarrow> e \<noteq> None \<and> Q"
  by (cases e) (simp_all add: typed_def)

lemma verdict_some_nonempty [simp]: "verdict (some_nonempty e) k = verdict (Some e) k"
  by (auto simp: verdict_def some_nonempty_def nonempty_entry_def)

lemma typed_some_nonempty:
  "typed (some_nonempty e) ty \<and> verdict (Some e) k = Some b \<longleftrightarrow>
     ow_type e = ty \<and> verdict (Some e) k = Some b"
  by (auto simp: verdict_def some_nonempty_def nonempty_entry_def typed_def split: if_splits)

text \<open>A set entry says what was set of a bit one of its two sides names.\<close>

lemma set_entry_at:
  "map_of (set_entry i ty allow deny m) j = (if j = i then Some
     (case map_of m i of
        None \<Rightarrow> \<lparr>ow_id = i, ow_type = ty, ow_allow = allow, ow_deny = deny\<rparr>
      | Some e \<Rightarrow> e\<lparr>ow_type := ty, ow_allow := (ow_allow e AND NOT deny) OR allow,
                     ow_deny := (ow_deny e AND NOT allow) OR deny\<rparr>) else map_of m j)"
  by (simp add: map_of_set_entry)

lemma set_entry_other: "j \<noteq> i \<Longrightarrow> map_of (set_entry i ty allow deny m) j = map_of m j"
  by (simp add: map_of_set_entry)

lemma typed_set_entry: "typed (map_of (set_entry i ty allow deny m) i) ty' \<longleftrightarrow> ty' = ty"
  by (auto simp: map_of_set_entry typed_def split: option.split)

lemma verdict_set_entry_allow:
  "bit allow k \<Longrightarrow> verdict (map_of (set_entry i ty allow deny m) i) k = Some True"
  by (auto simp: map_of_set_entry verdict_def bit_simps split: option.split)

lemma verdict_set_entry_deny:
  "bit deny k \<Longrightarrow> \<not> bit allow k \<Longrightarrow> verdict (map_of (set_entry i ty allow deny m) i) k = Some False"
  by (auto simp: map_of_set_entry verdict_def bit_simps split: option.split)

lemmas set_entry_simps = set_entry_other typed_set_entry verdict_set_entry_allow
  verdict_set_entry_deny

text \<open>Every entry but the policy's own has lost its View Channel bit.\<close>

lemma entries_of_mem: "map_of (entries_of ows) i = Some e \<Longrightarrow> e \<in> set ows"
proof -
  have "map_of (fold (\<lambda>e m. AList.update (ow_id e) e m) ows m) i = Some e \<longrightarrow>
      e \<in> set ows \<or> map_of m i = Some e" for m
  proof (induction ows arbitrary: m)
    case (Cons a ows)
    from this [of "AList.update (ow_id a) a m"] show ?case by (auto simp: update_conv' split: if_splits)
  qed simp
  from this [of "[]"] show "map_of (entries_of ows) i = Some e \<Longrightarrow> e \<in> set ows"
    unfolding entries_of_def by simp
qed

lemma verdict_stripped:
  assumes "bit (P ViewChannel) k"
  shows "verdict (map_of (entries_of (map (stripped_view P) current)) i) k = None"
proof (cases "map_of (entries_of (map (stripped_view P) current)) i")
  case (Some e)
  then obtain x where "e = stripped_view P x" using entries_of_mem by fastforce
  with Some assms show ?thesis by (simp add: verdict_def stripped_view_def bit_simps)
qed (simp add: verdict_def)

section \<open>The policy's verdict on View Channel\<close>

definition policy_ids :: "ident \<Rightarrow> ident \<Rightarrow> access_roles \<Rightarrow> ident list" where
  "policy_ids guild botId roles =
     [guild, botId, acr_member roles, acr_guest roles, acr_officer roles, acr_leader roles]"

text \<open>The policy's entries, before and after TaruBot's own loses the denies that would stop it.\<close>

definition policy_sets ::
  "flag_bits \<Rightarrow> ident \<Rightarrow> ident \<Rightarrow> access_roles \<Rightarrow> channel_audience \<Rightarrow> entry_map \<Rightarrow> entry_map" where
  "policy_sets P guild botId roles audience m =
     (let chat = lobbyChat P; view = P ViewChannel;
          closed = (if audience = Members then 0 else view);
          opened = (if audience = Members then view else 0);
          staff = (if audience = Members then view else chat)
      in set_entry botId OwMember
           (view OR P SendMessages OR P ReadMessageHistory OR P EmbedLinks OR P AttachFiles) 0
           (set_entry (acr_leader roles) OwRole staff 0
             (set_entry (acr_officer roles) OwRole staff 0
               (set_entry (acr_guest roles) OwRole opened closed
                 (set_entry (acr_member roles) OwRole opened closed
                   (set_entry guild OwRole (if audience = Lobby then chat else 0)
                      (if audience = Lobby then threadCreation P else view) m))))))"

definition lift_own :: "int \<Rightarrow> ident \<Rightarrow> entry_map \<Rightarrow> entry_map" where
  "lift_own l botId m =
     (case map_of m botId of
        Some own \<Rightarrow>
          if ow_type own = OwMember
          then AList.update botId (own\<lparr>ow_deny := ow_deny own AND NOT l\<rparr>) m
          else m
      | None \<Rightarrow> m)"

lemma policy_entries_steps:
  "policy_entries P guild botId roles audience m =
     lift_own (ONBOARDING_LIFT P) botId (policy_sets P guild botId roles audience m)"
  by (simp add: policy_entries_def lift_own_def policy_sets_def Let_def)

lemma verdict_lift_own:
  "verdict (map_of m botId) k = Some True \<Longrightarrow>
     verdict (map_of (lift_own l botId m) i) k = verdict (map_of m i) k"
  by (auto simp: lift_own_def update_conv' verdict_def split: option.splits if_splits)

lemma typed_lift_own: "typed (map_of (lift_own l botId m) i) ty = typed (map_of m i) ty"
  by (auto simp: lift_own_def update_conv' typed_def split: option.splits if_splits)

definition view_bit :: "flag_bits \<Rightarrow> nat \<Rightarrow> bool" where
  "view_bit P k \<longleftrightarrow> (\<forall>f. bit (P f) k \<longleftrightarrow> f = ViewChannel)"

lemma view_bitD: "view_bit P k \<Longrightarrow> bit (P f) k \<longleftrightarrow> f = ViewChannel"
  by (simp add: view_bit_def)

lemma policy_verdicts:
  assumes v: "view_bit P k" and d: "distinct (policy_ids guild botId roles)"
    and m: "\<And>i. verdict (map_of m i) k = None"
  shows "verdict (map_of (policy_entries P guild botId roles audience m) i) k =
      (if i = guild then Some (audience = Lobby)
       else if i = botId then Some True
       else if i \<in> {acr_member roles, acr_guest roles} then Some (audience = Members)
       else if i \<in> {acr_officer roles, acr_leader roles} then Some True
       else None)"
proof -
  have bits: "bit (lobbyChat P) k" "\<not> bit (threadCreation P) k" "bit (P ViewChannel) k"
    by (simp_all add: lobbyChat_def threadCreation_def bit_simps view_bitD [OF v])
  have own: "verdict (map_of (policy_sets P guild botId roles audience m) botId) k = Some True"
    by (simp add: policy_sets_def Let_def set_entry_simps bit_simps bits)
  show ?thesis
    unfolding policy_entries_steps verdict_lift_own [OF own] using d m
    by (auto simp: policy_sets_def policy_ids_def Let_def set_entry_simps bit_simps bits)
qed

lemma policy_types:
  assumes d: "distinct (policy_ids guild botId roles)" and i: "i \<in> set (policy_ids guild botId roles)"
  shows "typed (map_of (policy_entries P guild botId roles audience m) i) ty \<longleftrightarrow>
      ty = (if i = botId then OwMember else OwRole)"
  unfolding policy_entries_steps typed_lift_own using d i
  by (auto simp: policy_sets_def policy_ids_def Let_def set_entry_simps)

text \<open>The wanted overwrites, entry by entry.\<close>

lemma channelAccess_entry:
  "distinct (map ow_id (channelAccessOverwrites P current guild botId roles audience))"
  "verdict (entry_at (channelAccessOverwrites P current guild botId roles audience) i) k =
     verdict (map_of (policy_entries P guild botId roles audience
       (entries_of (map (stripped_view P) current))) i) k"
  "typed (entry_at (channelAccessOverwrites P current guild botId roles audience) i) ty \<and>
     verdict (entry_at (channelAccessOverwrites P current guild botId roles audience) i) k = Some b \<longleftrightarrow>
   typed (map_of (policy_entries P guild botId roles audience
       (entries_of (map (stripped_view P) current))) i) ty \<and>
     verdict (map_of (policy_entries P guild botId roles audience
       (entries_of (map (stripped_view P) current))) i) k = Some b"
proof -
  let ?m = "policy_entries P guild botId roles audience (entries_of (map (stripped_view P) current))"
  have ok: "entry_map_ok ?m" by (intro entry_map_ok_policy_entries entry_map_ok_entries_of)
  show "distinct (map ow_id (channelAccessOverwrites P current guild botId roles audience))"
    unfolding channelAccessOverwrites_def by (rule entry_at_listed [OF ok])
  have at: "entry_at (channelAccessOverwrites P current guild botId roles audience) i =
      (case map_of ?m i of None \<Rightarrow> None | Some e \<Rightarrow> some_nonempty e)"
    unfolding channelAccessOverwrites_def by (rule entry_at_listed [OF ok])
  show "verdict (entry_at (channelAccessOverwrites P current guild botId roles audience) i) k =
      verdict (map_of ?m i) k"
    unfolding at by (simp split: option.split)
  show "typed (entry_at (channelAccessOverwrites P current guild botId roles audience) i) ty \<and>
     verdict (entry_at (channelAccessOverwrites P current guild botId roles audience) i) k = Some b \<longleftrightarrow>
    typed (map_of ?m i) ty \<and> verdict (map_of ?m i) k = Some b"
    unfolding at
    by (cases "map_of ?m i") (simp_all add: typed_some_nonempty, simp_all add: typed_def)
qed

lemma channelAccess_opens:
  assumes v: "view_bit P k" and d: "distinct (policy_ids guild botId roles)"
  shows "opens_bit (entry_at (channelAccessOverwrites P current guild botId roles audience) i) ty k \<longleftrightarrow>
      (if i = guild then ty = OwRole \<and> audience = Lobby
       else if i = botId then ty = OwMember
       else if i \<in> {acr_member roles, acr_guest roles} then ty = OwRole \<and> audience = Members
       else ty = OwRole \<and> i \<in> {acr_officer roles, acr_leader roles})"
    and "closes_bit (entry_at (channelAccessOverwrites P current guild botId roles audience) i) ty k \<longleftrightarrow>
      (if i = guild then ty = OwRole \<and> audience \<noteq> Lobby
       else i \<noteq> botId \<and> ty = OwRole \<and> i \<in> {acr_member roles, acr_guest roles} \<and>
         audience \<noteq> Members)"
proof -
  have strip: "verdict (map_of (entries_of (map (stripped_view P) current)) j) k = None" for j
    by (rule verdict_stripped) (simp add: view_bitD [OF v])
  note table = policy_verdicts [OF v d strip] policy_types [OF d]
  show "opens_bit (entry_at (channelAccessOverwrites P current guild botId roles audience) i) ty k \<longleftrightarrow>
      (if i = guild then ty = OwRole \<and> audience = Lobby
       else if i = botId then ty = OwMember
       else if i \<in> {acr_member roles, acr_guest roles} then ty = OwRole \<and> audience = Members
       else ty = OwRole \<and> i \<in> {acr_officer roles, acr_leader roles})"
    unfolding opens_verdict channelAccess_entry(3) using d
    by (auto simp: table policy_ids_def)
  show "closes_bit (entry_at (channelAccessOverwrites P current guild botId roles audience) i) ty k \<longleftrightarrow>
      (if i = guild then ty = OwRole \<and> audience \<noteq> Lobby
       else i \<noteq> botId \<and> ty = OwRole \<and> i \<in> {acr_member roles, acr_guest roles} \<and>
         audience \<noteq> Members)"
    unfolding closes_verdict channelAccess_entry(3) using d
    by (auto simp: table policy_ids_def)
qed

section \<open>Properties\<close>

text \<open>
  (C2) Under a channel's wanted overwrites, whatever it had before, a member other than TaruBot
  (without Administrator) can view it exactly when its audience says so: the lobby for anyone
  without the Member and Guest roles and for Officers and Leaders; a members' channel for holders
  of any of the four roles; an officers' channel for Officers and Leaders only. TaruBot can always
  view it.
\<close>

theorem channelAccessOverwrites_visibility:
  assumes "flag_bits_ok P" and "distinct (policy_ids guild botId roles)"
  shows "(channelPermissions P allp guild base
      (channelAccessOverwrites P current guild botId roles audience) user held True
        AND P ViewChannel \<noteq> 0) \<longleftrightarrow>
    (if user = botId then True
     else if acr_officer roles \<in> set held \<or> acr_leader roles \<in> set held then True
     else case audience of
         Lobby \<Rightarrow> acr_member roles \<notin> set held \<and> acr_guest roles \<notin> set held
       | Members \<Rightarrow> acr_member roles \<in> set held \<or> acr_guest roles \<in> set held
       | Officers \<Rightarrow> False)"
proof -
  obtain k where k: "P ViewChannel = 2 ^ k" "\<And>g. bit (P g) k \<longleftrightarrow> g = ViewChannel"
    using flag_bit_obtain [OF assms(1), of ViewChannel] by metis
  then have v: "view_bit P k" by (simp add: view_bit_def)
  have seen: "x AND P ViewChannel \<noteq> 0 \<longleftrightarrow> bit x k" for x :: int
    by (simp add: k(1) and_exp_eq_0_iff_not_bit)
  let ?ows = "channelAccessOverwrites P current guild botId roles audience"
  have own: "opens_bit (entry_at ?ows user) OwMember k \<longleftrightarrow> user = botId"
    "\<not> closes_bit (entry_at ?ows user) OwMember k"
    using assms(2) by (simp_all add: channelAccess_opens [OF v assms(2)] policy_ids_def)
  have everyone: "(\<exists>ty. opens_bit (entry_at ?ows guild) ty k) \<longleftrightarrow> audience = Lobby"
    "(\<exists>ty. closes_bit (entry_at ?ows guild) ty k) \<longleftrightarrow> audience \<noteq> Lobby"
    by (simp_all add: channelAccess_opens [OF v assms(2)])
  have role: "i \<noteq> guild \<and> opens_bit (entry_at ?ows i) OwRole k \<longleftrightarrow>
      i \<in> {acr_officer roles, acr_leader roles} \<or>
      audience = Members \<and> i \<in> {acr_member roles, acr_guest roles}"
    "i \<noteq> guild \<and> closes_bit (entry_at ?ows i) OwRole k \<longleftrightarrow>
      audience \<noteq> Members \<and> i \<in> {acr_member roles, acr_guest roles}" for i
    using assms(2) by (auto simp: channelAccess_opens [OF v assms(2)] policy_ids_def)
  show ?thesis
    unfolding seen bit_channelPermissions_ignore decided_bit_contributions [OF channelAccess_entry(1)]
      own everyone role
    using own by (cases audience) auto
qed

theorem channelAccessOverwrites_visibility_witness:
  "(channelPermissions documented_bits 0 ''1'' 0
      (channelAccessOverwrites documented_bits
        [\<lparr>ow_id = ''77'', ow_type = OwMember, ow_allow = 1024, ow_deny = 0\<rparr>]
        ''1'' ''2'' \<lparr>acr_member = ''3'', acr_guest = ''4'', acr_officer = ''5'', acr_leader = ''6''\<rparr> Officers)
      ''77'' [''3''] True AND documented_bits ViewChannel \<noteq> 0) \<longleftrightarrow> False"
  using channelAccessOverwrites_visibility [OF documented_bits_ok,
      of "''1''" "''2''" "\<lparr>acr_member = ''3'', acr_guest = ''4'', acr_officer = ''5'', acr_leader = ''6''\<rparr>"
         0 0 "[\<lparr>ow_id = ''77'', ow_type = OwMember, ow_allow = 1024, ow_deny = 0\<rparr>]" Officers "''77''" "[''3'']"]
  by (simp add: policy_ids_def)

text \<open>
  (C1) After every write of onboarding's pass, the channel gives a member other than TaruBot no
  more than it did before the pass, or no more than the policy wants: no state in between opens it.
\<close>

theorem overwriteWrites_never_overopen:
  assumes "distinct (map ow_id before)" "distinct (map ow_id desired)"
    and "\<And>i. types_agree (entry_at before i) (entry_at desired i)"
    and "botId \<noteq> guild" "botId \<noteq> user" "botId \<notin> set held"
  shows "let gives = (\<lambda>ows. channelPermissions P allp guild base ows user held ign);
             reached = apply_writes before (take k (overwriteWrites before desired botId))
         in bits_le (gives reached) (gives before) \<or> bits_le (gives reached) (gives desired)"
  using discord.writes_never_overopen [OF assms(1-3), of guild "(user, held)" botId P allp base ign k] assms(4-6)
  by (simp add: discord_view_def discord_concerns_def Let_def)

theorem overwriteWrites_never_overopen_witness:
  "let before = [\<lparr>ow_id = ''1'', ow_type = OwRole, ow_allow = 1024, ow_deny = 0\<rparr>];
       desired = [\<lparr>ow_id = ''1'', ow_type = OwRole, ow_allow = 0, ow_deny = 1024\<rparr>,
                  \<lparr>ow_id = ''3'', ow_type = OwRole, ow_allow = 1024, ow_deny = 0\<rparr>];
       gives = (\<lambda>ows. channelPermissions documented_bits 0 ''1'' 0 ows ''77'' [''3''] True);
       reached = apply_writes before (take 1 (overwriteWrites before desired ''2''))
   in bits_le (gives reached) (gives before) \<or> bits_le (gives reached) (gives desired)"
  unfolding Let_def
  by (rule overwriteWrites_never_overopen [unfolded Let_def])
    (auto simp: types_agree_def entry_at_def)

text \<open>
  (C39) The writes reach the wanted overwrites: once all of them have landed, in their order, the
  channel's overwrites and the wanted ones are the same to sameOverwrites.
\<close>

theorem overwriteWrites_reaches_desired:
  assumes "distinct (map ow_id before)" "distinct (map ow_id desired)"
  shows "sameOverwrites (apply_writes before (overwriteWrites before desired botId)) desired"
  unfolding canonical_eq_iff [OF distinct_apply_writes [OF assms(1)] assms(2)]
  using live_final [OF assms refl refl] by blast

theorem overwriteWrites_reaches_desired_witness:
  "let before = [\<lparr>ow_id = ''1'', ow_type = OwRole, ow_allow = 1024, ow_deny = 0\<rparr>];
       desired = [\<lparr>ow_id = ''2'', ow_type = OwMember, ow_allow = 1024, ow_deny = 0\<rparr>]
   in sameOverwrites (apply_writes before (overwriteWrites before desired ''2'')) desired"
  unfolding Let_def by (rule overwriteWrites_reaches_desired) simp_all

text \<open>
  A pass writes nothing exactly when the channel's overwrites are already the wanted ones, so
  a second pass over what the first one wrote changes nothing.
\<close>

theorem overwriteWrites_empty_iff:
  assumes "distinct (map ow_id before)" "distinct (map ow_id desired)"
  shows "overwriteWrites before desired botId = [] \<longleftrightarrow> sameOverwrites before desired"
proof
  assume "overwriteWrites before desired botId = []"
  then show "sameOverwrites before desired"
    using live_final [OF assms refl refl, of botId] canonical_eq_iff [OF assms]
    by (simp add: apply_writes_def)
next
  assume "sameOverwrites before desired"
  then have "map_of (live_entries before) i = map_of (live_entries desired) i" for i
    using canonical_eq_iff [OF assms] by blast
  then have "changed_ids (live_entries before) (live_entries desired) = []"
    using set_changed_ids [of _ "live_entries before" "live_entries desired"] by (simp add: set_empty [symmetric] set_eq_iff del: set_empty)
  then show "overwriteWrites before desired botId = []"
    by (simp add: overwriteWrites_def own_ids_def other_ids_def closing_writes_def
        opening_writes_def Let_def)
qed

theorem overwriteWrites_empty_iff_witness:
  "overwriteWrites [\<lparr>ow_id = ''1'', ow_type = OwRole, ow_allow = 0, ow_deny = 0\<rparr>] [] ''2'' = [] \<longleftrightarrow>
     sameOverwrites [\<lparr>ow_id = ''1'', ow_type = OwRole, ow_allow = 0, ow_deny = 0\<rparr>] []"
  by (rule overwriteWrites_empty_iff) simp_all

end
