(* ===== verification/RankPolicy.thy ===== *)
theory RankPolicy
  imports Policy
begin

text \<open>
  Officer and FC Leader from the FC roster, \<open>src/application/rank-policy.ts\<close>: the union over a
  user's trusted links (\<open>rankUnion\<close>), the manager overrides \<open>rankAccess\<close> applies to it, and which
  role the resulting state asks for. The rows \<open>rankAccess\<close> reads from the database are arguments.

  The lemmas show what each rank state rests on, that only trusted links confer rank, and that
  missing evidence never creates a role.
\<close>

section \<open>Evidence\<close>

datatype rank_state = RankYes | RankNo | Unreadable | Unresolved

record rank_evidence =
  re_state :: "presence option"
  re_rank :: "string option"
  re_leader :: "bool option"
  re_authority :: bool

record rank_context =
  rc_linked :: bool
  rc_officer_rank :: "string option"
  rc_local_loss :: bool

definition trusted_rows :: "rank_evidence list \<Rightarrow> rank_evidence list" where
  "trusted_rows rows = filter re_authority rows"

definition eligible_rows :: "rank_evidence list \<Rightarrow> rank_evidence list" where
  "eligible_rows rows =
     filter (\<lambda>r. re_state r = Some Present \<or> re_state r = Some Missing) (trusted_rows rows)"

definition unresolved_rows :: "rank_context \<Rightarrow> rank_evidence list \<Rightarrow> bool" where
  "unresolved_rows ctx rows \<longleftrightarrow>
     \<not> rc_local_loss ctx \<and> list_ex (\<lambda>r. re_state r = None) (trusted_rows rows)"

definition decide ::
  "rank_evidence list \<Rightarrow> bool \<Rightarrow> (rank_evidence \<Rightarrow> bool) \<Rightarrow> (rank_evidence \<Rightarrow> bool) \<Rightarrow> rank_state" where
  "decide eligible unresolved hold unread =
     (if list_ex hold eligible then RankYes
      else if list_ex unread eligible then Unreadable
      else if unresolved then Unresolved
      else RankNo)"

record rank_union =
  ru_officer :: rank_state
  ru_leader :: rank_state

text \<open>An empty officer rank key is falsy, like a missing one.\<close>

definition rankUnion :: "rank_evidence list \<Rightarrow> rank_context \<Rightarrow> rank_union" where
  "rankUnion rows ctx =
     (let eligible = eligible_rows rows; unresolved = unresolved_rows ctx rows
      in if \<not> rc_linked ctx then \<lparr>ru_officer = RankNo, ru_leader = RankNo\<rparr>
         else
           \<lparr>ru_officer =
              (case rc_officer_rank ctx of
                 None \<Rightarrow> RankNo
               | Some key \<Rightarrow>
                   if key = [] then RankNo
                   else decide eligible unresolved (\<lambda>r. re_rank r = Some key) (\<lambda>r. re_rank r = None)),
            ru_leader =
              decide eligible unresolved (\<lambda>r. re_leader r = Some True) (\<lambda>r. re_leader r = None)\<rparr>)"

text \<open>A link's stored source: an object with its \<open>officerAuthority\<close> field, or anything else.\<close>

datatype link_source = NotAnObject | SourceObject "bool option"

definition linkConfersRank :: "string \<Rightarrow> link_source \<Rightarrow> bool" where
  "linkConfersRank provenance source =
     (if provenance \<noteq> ''officer_assignment'' then True
      else source = SourceObject (Some True))"

definition rankBacks :: "rank_state \<Rightarrow> bool" where
  "rankBacks s \<longleftrightarrow> s = RankYes \<or> s = Unreadable"

section \<open>Overrides and the role asked for\<close>

datatype override_state = OverrideGranted | OverrideRevoked

record rank_access =
  ra_officer :: rank_state
  ra_leader :: rank_state
  ra_manual :: bool
  ra_revoked :: bool
  ra_fresh :: bool

definition rankAccess ::
  "override_state option \<Rightarrow> rank_evidence list \<Rightarrow> rank_context \<Rightarrow> bool \<Rightarrow> rank_access" where
  "rankAccess over rows ctx fresh =
     (let u = rankUnion rows ctx;
          officer = ru_officer u;
          officer = (if over = Some OverrideGranted then RankYes else officer);
          officer = (if over = Some OverrideRevoked then RankNo else officer)
      in \<lparr>ra_officer = officer, ra_leader = ru_leader u, ra_manual = (over = Some OverrideGranted),
          ra_revoked = (over = Some OverrideRevoked), ra_fresh = fresh\<rparr>)"

definition desiredRankRole :: "rank_state \<Rightarrow> bool \<Rightarrow> bool \<Rightarrow> bool \<Rightarrow> bool" where
  "desiredRankRole state held fresh manual =
     (if state = Unreadable \<or> state = Unresolved then held
      else state = RankYes \<and> (manual \<or> fresh \<or> held))"

definition rankDecisive :: "rank_state \<Rightarrow> bool \<Rightarrow> bool \<Rightarrow> bool" where
  "rankDecisive state fresh manual \<longleftrightarrow>
     desiredRankRole state True fresh manual = desiredRankRole state False fresh manual"

lemmas rank_defs = rankUnion_def decide_def eligible_rows_def trusted_rows_def unresolved_rows_def
  Let_def

lemma rankDecisive_iff:
  "rankDecisive s fresh manual \<longleftrightarrow> s = RankNo \<or> (s = RankYes \<and> (manual \<or> fresh))"
  by (cases s) (auto simp: rankDecisive_def desiredRankRole_def)

lemma desiredRankRole_decisive:
  "rankDecisive s fresh manual \<Longrightarrow> desiredRankRole s held fresh manual \<longleftrightarrow> s = RankYes"
  by (cases s) (auto simp: rankDecisive_iff desiredRankRole_def)

lemma desiredRankRole_gained: "desiredRankRole s False fresh m \<longleftrightarrow> s = RankYes \<and> (m \<or> fresh)"
  by (auto simp: desiredRankRole_def)

lemma decide_yes: "decide el u h n = RankYes \<longleftrightarrow> (\<exists>r \<in> set el. h r)"
  by (simp add: decide_def list_ex_iff)

lemma rankUnion_officer_yes:
  "ru_officer (rankUnion rows ctx) = RankYes \<longleftrightarrow>
     rc_linked ctx \<and>
     (\<exists>r. r \<in> set rows \<and> re_authority r \<and> (re_state r = Some Present \<or> re_state r = Some Missing) \<and>
        re_rank r \<noteq> Some [] \<and> re_rank r \<noteq> None \<and> re_rank r = rc_officer_rank ctx)"
  by (auto simp: rankUnion_def Let_def decide_yes eligible_rows_def trusted_rows_def
      split: option.splits if_splits)

lemma rankUnion_leader_yes:
  "ru_leader (rankUnion rows ctx) = RankYes \<longleftrightarrow>
     rc_linked ctx \<and>
     (\<exists>r. r \<in> set rows \<and> re_authority r \<and> (re_state r = Some Present \<or> re_state r = Some Missing) \<and>
        re_leader r = Some True)"
  by (auto simp: rankUnion_def Let_def decide_yes eligible_rows_def trusted_rows_def)

lemma rankUnion_unlinked: "\<not> rc_linked ctx \<Longrightarrow> rankUnion rows ctx = \<lparr>ru_officer = RankNo, ru_leader = RankNo\<rparr>"
  by (simp add: rankUnion_def Let_def)

lemma rankUnion_trusted_only: "rankUnion (filter re_authority rows) ctx = rankUnion rows ctx"
  by (simp add: rank_defs)

section \<open>Properties\<close>

text \<open>
  A person who does not hold the Officer role is given it only on evidence: a manager's grant,
  or fresh roster data in which a trusted, confirmed character of theirs has the configured rank in
  the linked FC; and a manager's revocation always takes the role away. FC Leader likewise needs a
  trusted, confirmed character that holds the leader flag, and no override can give it.
\<close>

theorem rank_role_needs_evidence:
  "(desiredRankRole (ra_officer (rankAccess over rows ctx fresh)) False fresh
      (ra_manual (rankAccess over rows ctx fresh)) \<longleftrightarrow>
       (case over of
          Some OverrideGranted \<Rightarrow> True
        | Some OverrideRevoked \<Rightarrow> False
        | None \<Rightarrow> fresh \<and> rc_linked ctx \<and>
            (\<exists>e. e \<in> set rows \<and> re_authority e \<and>
               (re_state e = Some Present \<or> re_state e = Some Missing) \<and>
               re_rank e \<noteq> Some [] \<and> re_rank e \<noteq> None \<and> re_rank e = rc_officer_rank ctx))) \<and>
   \<not> desiredRankRole (ra_officer (rankAccess (Some OverrideRevoked) rows ctx fresh)) held fresh
        (ra_manual (rankAccess (Some OverrideRevoked) rows ctx fresh)) \<and>
   (desiredRankRole (ra_leader (rankAccess over rows ctx fresh)) False fresh False \<longleftrightarrow>
       fresh \<and> rc_linked ctx \<and>
       (\<exists>e. e \<in> set rows \<and> re_authority e \<and>
          (re_state e = Some Present \<or> re_state e = Some Missing) \<and> re_leader e = Some True))"
  (is "?officer \<and> ?revoked \<and> ?leader")
proof (intro conjI)
  show ?officer
    by (cases over; simp add: rankAccess_def Let_def desiredRankRole_gained rankUnion_officer_yes
        split: override_state.split) blast
  show ?revoked
    by (simp add: rankAccess_def desiredRankRole_def Let_def)
  show ?leader
    by (simp add: rankAccess_def Let_def desiredRankRole_gained rankUnion_leader_yes) blast
qed

end
