(* ===== verification/StatusNotices.thy ===== *)
theory StatusNotices
  imports RankPolicy
begin

text \<open>
  Officer status notices, \<open>src/domain/status.ts\<close>: the per-member state behind the one post that
  lists gained and lost access. A state is the JSON document on \<open>guild_users\<close>; a flag's value is
  \<open>None\<close> while its role is unbound or before the first decisive observation.

  The lemmas show that reasons are kept only for flags that wait, which flags wait after a pass,
  that a pass seen twice changes nothing, that a posted entry clears what it announced and nothing
  observed after it was frozen, and that the reason given for a decisive value is true.
\<close>

section \<open>State\<close>

datatype flag = FMember | FGuest | FOfficer | FLeader

instantiation flag :: enum
begin

definition enum_flag :: "flag list" where
  "enum_flag = [FMember, FGuest, FOfficer, FLeader]"

definition enum_all_flag :: "(flag \<Rightarrow> bool) \<Rightarrow> bool" where
  "enum_all_flag P \<longleftrightarrow> P FMember \<and> P FGuest \<and> P FOfficer \<and> P FLeader"

definition enum_ex_flag :: "(flag \<Rightarrow> bool) \<Rightarrow> bool" where
  "enum_ex_flag P \<longleftrightarrow> P FMember \<or> P FGuest \<or> P FOfficer \<or> P FLeader"

instance
proof
  show u: "(UNIV :: flag set) = set enum_class.enum"
    using flag.exhaust by (auto simp: enum_flag_def)
  show "distinct (enum_class.enum :: flag list)"
    by (simp add: enum_flag_def)
  show "enum_class.enum_all P \<longleftrightarrow> Ball UNIV P" "enum_class.enum_ex P \<longleftrightarrow> Bex UNIV P" for P :: "flag \<Rightarrow> bool"
    unfolding u by (simp_all add: enum_flag_def enum_all_flag_def enum_ex_flag_def)
qed

end

definition STATUS_FLAGS :: "flag list" where
  "STATUS_FLAGS = [FMember, FGuest, FOfficer, FLeader]"

lemma set_STATUS_FLAGS [simp]: "set STATUS_FLAGS = UNIV"
  using flag.exhaust by (auto simp: STATUS_FLAGS_def)

lemma distinct_STATUS_FLAGS [simp]: "distinct STATUS_FLAGS"
  by (simp add: STATUS_FLAGS_def)

datatype reason_code =
    in_fc | not_in_fc | no_fc | guest_grant | former_member | registered | is_member
  | guest_revoked | no_guest_basis | officer_override | officer_rank | officer_revoked
  | officer_rank_unset | no_officer_rank | fc_leader | no_fc_leader

type_synonym flags = "flag \<Rightarrow> bool option"

type_synonym reasons = "flag \<Rightarrow> reason_code option"

record departed_character =
  dc_character :: ident
  dc_name :: string
  dc_world :: string
  dc_snapshot :: string

record status_state =
  st_joined :: "string option"
  st_announced :: flags
  st_current :: flags
  st_reasons :: reasons
  st_departed :: "departed_character list"

record status_entry =
  se_user :: ident
  se_joined :: "string option"
  se_from :: flags
  se_to :: flags
  se_reasons :: reasons
  se_departed :: "departed_character list"

definition noFlags :: flags where
  "noFlags = (\<lambda>_. None)"

text \<open>Normalised documents are equal as text exactly when they hold the same values.\<close>

definition sameState :: "status_state \<Rightarrow> status_state \<Rightarrow> bool" where
  "sameState a b \<longleftrightarrow>
     st_joined a = st_joined b \<and> st_announced a = st_announced b \<and> st_current a = st_current b \<and>
     st_reasons a = st_reasons b \<and> st_departed a = st_departed b"

definition waits :: "status_state \<Rightarrow> flag \<Rightarrow> bool" where
  "waits s f \<longleftrightarrow> st_announced s f \<noteq> None \<and> st_current s f \<noteq> None \<and> st_announced s f \<noteq> st_current s f"

definition changedFlags :: "status_state \<Rightarrow> flag list" where
  "changedFlags s = filter (waits s) STATUS_FLAGS"

definition tidied :: "status_state \<Rightarrow> status_state" where
  "tidied s = s\<lparr>st_reasons := (\<lambda>f. if f \<in> set (changedFlags s) then st_reasons s f else None)\<rparr>"

definition isPending :: "status_state \<Rightarrow> bool" where
  "isPending s \<longleftrightarrow> length (changedFlags s) > 0 \<or> length (st_departed s) > 0"

section \<open>Recording a pass\<close>

record flag_observation =
  ob_value :: "bool option"
  ob_decisive :: bool
  ob_reason :: reason_code

type_synonym observation = "flag \<Rightarrow> flag_observation"

record observed =
  od_next :: status_state
  od_changed :: bool
  od_pending :: bool
  od_moved :: bool

text \<open>The loop's variables: announced, current, reasons and moved.\<close>

type_synonym pass = "flags \<times> flags \<times> reasons \<times> bool"

fun observe_flag :: "observation \<Rightarrow> flag \<Rightarrow> pass \<Rightarrow> pass" where
  "observe_flag obs f (announced, current, reasons, moved) =
     (case ob_value (obs f) of
        None \<Rightarrow> (announced(f := None), current(f := None), reasons, moved)
      | Some v \<Rightarrow>
          if \<not> ob_decisive (obs f) then (announced, current, reasons, moved)
          else if announced f = None
          then (announced(f := Some v), current(f := Some v), reasons, moved)
          else (announced, current(f := Some v),
                (if Some v \<noteq> announced f then reasons(f := Some (ob_reason (obs f))) else reasons),
                moved \<or> current f \<noteq> Some v))"

definition fresh_state :: "string option \<Rightarrow> departed_character list \<Rightarrow> status_state" where
  "fresh_state joined departed =
     \<lparr>st_joined = joined, st_announced = noFlags, st_current = noFlags, st_reasons = (\<lambda>_. None),
      st_departed = departed\<rparr>"

definition observe_base :: "status_state option \<Rightarrow> string \<Rightarrow> status_state" where
  "observe_base previous joined =
     (case previous of
        None \<Rightarrow> fresh_state (Some joined) []
      | Some p \<Rightarrow>
          if st_joined p = Some joined then p else fresh_state (Some joined) (st_departed p))"

definition observe :: "status_state option \<Rightarrow> observation \<Rightarrow> string \<Rightarrow> observed" where
  "observe previous obs joined =
     (let base = observe_base previous joined;
          (announced, current, reasons, moved) =
            fold (observe_flag obs) STATUS_FLAGS
              (st_announced base, st_current base, st_reasons base, False);
          next = tidied \<lparr>st_joined = Some joined, st_announced = announced, st_current = current,
                         st_reasons = reasons, st_departed = st_departed base\<rparr>
      in \<lparr>od_next = next,
          od_changed = (case previous of None \<Rightarrow> True | Some p \<Rightarrow> \<not> sameState p next),
          od_pending = isPending next,
          od_moved = moved\<rparr>)"

definition same_departure :: "departed_character \<Rightarrow> departed_character \<Rightarrow> bool" where
  "same_departure a b \<longleftrightarrow> dc_character a = dc_character b \<and> dc_snapshot a = dc_snapshot b"

definition addDeparture :: "status_state option \<Rightarrow> departed_character \<Rightarrow> status_state" where
  "addDeparture previous d =
     (let base = (case previous of Some p \<Rightarrow> p | None \<Rightarrow> fresh_state None []);
          known = list_ex (\<lambda>x. same_departure x d) (st_departed base)
      in base\<lparr>st_departed := (if known then st_departed base else st_departed base @ [d])\<rparr>)"

section \<open>Posting\<close>

definition entryFor :: "ident \<Rightarrow> status_state \<Rightarrow> status_entry option" where
  "entryFor user s =
     (if \<not> isPending s then None
      else Some
        \<lparr>se_user = user, se_joined = st_joined s, se_from = st_announced s,
         se_to = (\<lambda>f. if f \<in> set (changedFlags s) then st_current s f else st_announced s f),
         se_reasons = (\<lambda>f. if f \<in> set (changedFlags s) then st_reasons s f else None),
         se_departed = st_departed s\<rparr>)"

datatype access_level = LevelNone | LevelGuest | LevelMember

definition levelOf :: "flags \<Rightarrow> access_level" where
  "levelOf fl =
     (if fl FMember = Some True then LevelMember
      else if fl FGuest = Some True then LevelGuest else LevelNone)"

definition entryVisible :: "status_entry \<Rightarrow> bool" where
  "entryVisible e \<longleftrightarrow>
     levelOf (se_from e) \<noteq> levelOf (se_to e) \<or>
     se_from e FOfficer \<noteq> se_to e FOfficer \<or>
     se_from e FLeader \<noteq> se_to e FLeader \<or>
     length (se_departed e) > 0"

definition mark_flag :: "status_entry \<Rightarrow> flag \<Rightarrow> flags \<Rightarrow> flags" where
  "mark_flag e f announced =
     (if se_from e f \<noteq> None \<and> se_from e f \<noteq> se_to e f \<and> announced f = se_from e f
      then announced(f := se_to e f) else announced)"

definition applyPosted :: "status_state \<Rightarrow> status_entry \<Rightarrow> status_state" where
  "applyPosted s e =
     (let announced =
            (if se_joined e = st_joined s then fold (mark_flag e) STATUS_FLAGS (st_announced s)
             else st_announced s);
          departed =
            filter (\<lambda>x. \<not> list_ex (\<lambda>posted. same_departure posted x) (se_departed e)) (st_departed s)
      in tidied (s\<lparr>st_announced := announced, st_departed := departed\<rparr>))"

definition dropPending :: "status_state \<Rightarrow> status_state" where
  "dropPending s = s\<lparr>st_announced := st_current s, st_reasons := (\<lambda>_. None), st_departed := []\<rparr>"

section \<open>Reasons\<close>

record reason_facts =
  rf_fcLinked :: bool
  rf_officerRankSet :: bool
  rf_grant :: bool
  rf_former :: bool
  rf_guestRevoked :: bool
  rf_manualOfficer :: bool
  rf_officerRevoked :: bool

definition statusReason :: "flag \<Rightarrow> bool \<Rightarrow> bool \<Rightarrow> reason_facts \<Rightarrow> reason_code" where
  "statusReason f value member facts =
     (if f = FMember then
        (if value then in_fc else if rf_fcLinked facts then not_in_fc else no_fc)
      else if f = FGuest then
        (if value then
           (if rf_grant facts then guest_grant else if rf_former facts then former_member
            else registered)
         else if member then is_member
         else if rf_guestRevoked facts then guest_revoked else no_guest_basis)
      else if f = FOfficer then
        (if value then (if rf_manualOfficer facts then officer_override else officer_rank)
         else if rf_officerRevoked facts then officer_revoked
         else if \<not> rf_fcLinked facts then no_fc
         else if rf_officerRankSet facts then no_officer_rank else officer_rank_unset)
      else (if value then fc_leader else if rf_fcLinked facts then no_fc_leader else no_fc))"

definition statusObservation ::
  "(flag \<Rightarrow> bool) \<Rightarrow> (flag \<Rightarrow> bool) \<Rightarrow> (flag \<Rightarrow> bool) \<Rightarrow> reason_facts \<Rightarrow> observation" where
  "statusObservation bound values decisive facts f =
     (let member = decisive FMember \<and> values FMember
      in \<lparr>ob_value = (if bound f then Some (values f) else None),
          ob_decisive = decisive f,
          ob_reason = statusReason f (values f) member facts\<rparr>)"

section \<open>One pass, flag by flag\<close>

definition seen_announced :: "flag_observation \<Rightarrow> bool option \<Rightarrow> bool option" where
  "seen_announced ob a =
     (if ob_value ob = None then None else if ob_decisive ob \<and> a = None then ob_value ob else a)"

definition seen_current :: "flag_observation \<Rightarrow> bool option \<Rightarrow> bool option" where
  "seen_current ob c =
     (if ob_value ob = None \<or> ob_decisive ob then ob_value ob else c)"

definition seen_reason :: "flag_observation \<Rightarrow> bool option \<Rightarrow> reason_code option \<Rightarrow> reason_code option"
where
  "seen_reason ob a r =
     (if ob_value ob \<noteq> None \<and> ob_decisive ob \<and> a \<noteq> None \<and> ob_value ob \<noteq> a
      then Some (ob_reason ob) else r)"

definition seen_moves :: "flag_observation \<Rightarrow> bool option \<Rightarrow> bool option \<Rightarrow> bool" where
  "seen_moves ob a c \<longleftrightarrow> ob_value ob \<noteq> None \<and> ob_decisive ob \<and> a \<noteq> None \<and> c \<noteq> ob_value ob"

lemmas seen_defs = seen_announced_def seen_current_def seen_reason_def seen_moves_def

lemma observe_flag_seen:
  "observe_flag obs f (a, c, r, m) =
     (a(f := seen_announced (obs f) (a f)), c(f := seen_current (obs f) (c f)),
      r(f := seen_reason (obs f) (a f) (r f)), m \<or> seen_moves (obs f) (a f) (c f))"
  by (auto simp: seen_defs fun_eq_iff split: option.split)

lemma observe_flags_seen:
  "distinct fs \<Longrightarrow> fold (observe_flag obs) fs (a, c, r, m) =
     (\<lambda>f. if f \<in> set fs then seen_announced (obs f) (a f) else a f,
      \<lambda>f. if f \<in> set fs then seen_current (obs f) (c f) else c f,
      \<lambda>f. if f \<in> set fs then seen_reason (obs f) (a f) (r f) else r f,
      m \<or> (\<exists>f \<in> set fs. seen_moves (obs f) (a f) (c f)))"
proof (induction fs arbitrary: a c r m)
  case (Cons g fs)
  then show ?case
    by (auto simp: observe_flag_seen fun_eq_iff simp del: observe_flag.simps)
qed simp

lemma set_changedFlags [simp]: "f \<in> set (changedFlags s) \<longleftrightarrow> waits s f"
  by (simp add: changedFlags_def)

lemma changedFlags_empty: "changedFlags s = [] \<longleftrightarrow> (\<forall>f. \<not> waits s f)"
  by (simp add: changedFlags_def filter_empty_conv)

lemma isPending_iff: "isPending s \<longleftrightarrow> (\<exists>f. waits s f) \<or> st_departed s \<noteq> []"
  by (auto simp: isPending_def changedFlags_empty)

lemma tidied_select [simp]:
  "st_joined (tidied s) = st_joined s" "st_announced (tidied s) = st_announced s"
  "st_current (tidied s) = st_current s" "st_departed (tidied s) = st_departed s"
  "waits (tidied s) f = waits s f"
  by (simp_all add: tidied_def waits_def)

lemma st_reasons_tidied: "st_reasons (tidied s) f = (if waits s f then st_reasons s f else None)"
  by (simp add: tidied_def)

lemma observe_next:
  "od_next (observe previous obs joined) =
     (let base = observe_base previous joined in
      tidied \<lparr>st_joined = Some joined,
              st_announced = (\<lambda>f. seen_announced (obs f) (st_announced base f)),
              st_current = (\<lambda>f. seen_current (obs f) (st_current base f)),
              st_reasons = (\<lambda>f. seen_reason (obs f) (st_announced base f) (st_reasons base f)),
              st_departed = st_departed base\<rparr>)"
  by (simp add: observe_def observe_flags_seen Let_def)

lemma observe_moved:
  "od_moved (observe previous obs joined) \<longleftrightarrow>
     (let base = observe_base previous joined in
      \<exists>f. seen_moves (obs f) (st_announced base f) (st_current base f))"
  by (simp add: observe_def observe_flags_seen Let_def)

lemma observe_changed:
  "od_changed (observe previous obs joined) \<longleftrightarrow>
     (case previous of None \<Rightarrow> True | Some p \<Rightarrow> \<not> sameState p (od_next (observe previous obs joined)))"
  by (simp add: observe_def observe_flags_seen Let_def split: option.split)

lemma sameState_eq: "sameState a b \<longleftrightarrow> a = b"
  by (auto simp: sameState_def)

lemma observe_base_again:
  "observe_base (Some (od_next (observe previous obs joined))) joined = od_next (observe previous obs joined)"
  by (simp add: observe_base_def observe_next Let_def)

text \<open>Each flag waits after a pass for what the pass saw of it, or as it did before.\<close>

lemma waits_observe:
  "waits (od_next (observe previous obs joined)) f \<longleftrightarrow>
     (let base = observe_base previous joined in
      case ob_value (obs f) of
        None \<Rightarrow> False
      | Some v \<Rightarrow> if ob_decisive (obs f)
                  then st_announced base f = Some (\<not> v)
                  else waits base f)"
  by (auto simp: observe_next Let_def waits_def seen_defs split: option.split)

lemma mark_flags:
  "distinct fs \<Longrightarrow> fold (mark_flag e) fs a =
     (\<lambda>f. if f \<in> set fs \<and> se_from e f \<noteq> None \<and> se_from e f \<noteq> se_to e f \<and> a f = se_from e f
          then se_to e f else a f)"
proof (induction fs arbitrary: a)
  case (Cons g fs)
  then show ?case by (auto simp: mark_flag_def fun_eq_iff)
qed simp

lemma applyPosted_select [simp]:
  "st_joined (applyPosted s e) = st_joined s" "st_current (applyPosted s e) = st_current s"
  "st_announced (applyPosted s e) f =
     (if se_joined e = st_joined s \<and> se_from e f \<noteq> None \<and> se_from e f \<noteq> se_to e f \<and>
         st_announced s f = se_from e f
      then se_to e f else st_announced s f)"
  by (simp_all add: applyPosted_def Let_def mark_flags)

lemma st_departed_applyPosted:
  "st_departed (applyPosted s e) =
     filter (\<lambda>x. \<not> (\<exists>p \<in> set (se_departed e). same_departure p x)) (st_departed s)"
  by (simp add: applyPosted_def Let_def list_ex_iff)

lemma same_departure_refl [simp]: "same_departure d d"
  by (simp add: same_departure_def)

section \<open>What every operation keeps\<close>

text \<open>A stored reason belongs to a flag that waits.\<close>

definition reasons_ok :: "status_state \<Rightarrow> bool" where
  "reasons_ok s \<longleftrightarrow> (\<forall>f. st_reasons s f \<noteq> None \<longrightarrow> waits s f)"

text \<open>No departure is stored twice.\<close>

definition departures_ok :: "status_state \<Rightarrow> bool" where
  "departures_ok s \<longleftrightarrow> distinct (map (\<lambda>d. (dc_character d, dc_snapshot d)) (st_departed s))"

definition status_ok :: "status_state \<Rightarrow> bool" where
  "status_ok s \<longleftrightarrow> reasons_ok s \<and> departures_ok s"

lemma reasons_ok_tidied [simp]: "reasons_ok (tidied s)"
  by (simp add: reasons_ok_def st_reasons_tidied)

lemma departures_ok_tidied [simp]: "departures_ok (tidied s) = departures_ok s"
  by (simp add: departures_ok_def)

lemma departures_ok_base: "(\<And>p. previous = Some p \<Longrightarrow> departures_ok p) \<Longrightarrow> departures_ok (observe_base previous j)"
  by (auto simp: observe_base_def fresh_state_def departures_ok_def split: option.split)

lemma status_ok_observe:
  "(\<And>p. previous = Some p \<Longrightarrow> status_ok p) \<Longrightarrow> status_ok (od_next (observe previous obs joined))"
  using departures_ok_base [of previous joined]
  by (auto simp: status_ok_def observe_next Let_def departures_ok_def)

lemma status_ok_addDeparture:
  "(\<And>p. previous = Some p \<Longrightarrow> status_ok p) \<Longrightarrow> status_ok (addDeparture previous d)"
  by (cases previous)
    (auto simp: status_ok_def addDeparture_def Let_def fresh_state_def reasons_ok_def waits_def
      departures_ok_def list_ex_iff same_departure_def)

lemma status_ok_applyPosted: "status_ok s \<Longrightarrow> status_ok (applyPosted s e)"
  by (auto simp: status_ok_def applyPosted_def Let_def departures_ok_def distinct_map_filter)

lemma status_ok_dropPending: "status_ok (dropPending s)"
  by (simp add: status_ok_def dropPending_def reasons_ok_def departures_ok_def)

section \<open>A member's history\<close>

datatype status_op =
    Pass observation string
  | Left departed_character
  | Posted status_entry
  | Dropped

text \<open>Only a pass and a departure create a state; the mark and the drop act on a stored one.\<close>

fun status_step :: "status_op \<Rightarrow> status_state option \<Rightarrow> status_state option" where
  "status_step (Pass obs joined) s = Some (od_next (observe s obs joined))"
| "status_step (Left d) s = Some (addDeparture s d)"
| "status_step (Posted e) s = map_option (\<lambda>s. applyPosted s e) s"
| "status_step Dropped s = map_option dropPending s"

definition status_run :: "status_op list \<Rightarrow> status_state option" where
  "status_run ops = fold status_step ops None"

lemma status_step_ok: "pred_option status_ok s \<Longrightarrow> pred_option status_ok (status_step op s)"
  by (cases op; cases s)
    (auto simp: status_ok_applyPosted status_ok_dropPending intro!: status_ok_observe status_ok_addDeparture)

lemma status_run_ok: "pred_option status_ok (status_run ops)"
proof -
  have "pred_option status_ok s \<Longrightarrow> pred_option status_ok (fold status_step ops s)" for s
    by (induction ops arbitrary: s) (auto intro: status_step_ok)
  then show ?thesis by (simp add: status_run_def)
qed

section \<open>Reasons and the policy they report\<close>

definition officer_evidence :: "rank_evidence list \<Rightarrow> rank_context \<Rightarrow> bool" where
  "officer_evidence rows ctx = list_ex
     (\<lambda>e. re_rank e \<noteq> Some [] \<and> re_rank e \<noteq> None \<and> re_rank e = rc_officer_rank ctx) (eligible_rows rows)"

definition leader_evidence :: "rank_evidence list \<Rightarrow> bool" where
  "leader_evidence rows = list_ex (\<lambda>e. re_leader e = Some True) (eligible_rows rows)"

lemma officer_yes_evidence:
  "ru_officer (rankUnion rows ctx) = RankYes \<longleftrightarrow> rc_linked ctx \<and> officer_evidence rows ctx"
  by (auto simp: rankUnion_officer_yes officer_evidence_def list_ex_iff eligible_rows_def trusted_rows_def)

lemma leader_yes_evidence:
  "ru_leader (rankUnion rows ctx) = RankYes \<longleftrightarrow> rc_linked ctx \<and> leader_evidence rows"
  by (auto simp: rankUnion_leader_yes leader_evidence_def list_ex_iff eligible_rows_def trusted_rows_def)

text \<open>What each reason says of the facts.\<close>

fun reason_true ::
  "access_facts \<Rightarrow> override_state option \<Rightarrow> rank_evidence list \<Rightarrow> rank_context \<Rightarrow> reason_code \<Rightarrow> bool" where
  "reason_true f over rows ctx in_fc = (af_membership f = Member \<and> af_fresh f)"
| "reason_true f over rows ctx not_in_fc = (af_membership f = Ineligible \<and> rc_linked ctx)"
| "reason_true f over rows ctx no_fc = (\<not> rc_linked ctx)"
| "reason_true f over rows ctx guest_grant = af_grant f"
| "reason_true f over rows ctx former_member = (af_former f \<and> \<not> af_grant f)"
| "reason_true f over rows ctx registered = (af_verified f = Some True \<and> \<not> af_grant f \<and> \<not> af_former f)"
| "reason_true f over rows ctx is_member = (af_membership f = Member \<and> af_fresh f)"
| "reason_true f over rows ctx guest_revoked = af_revoked f"
| "reason_true f over rows ctx no_guest_basis =
     (\<not> af_grant f \<and> \<not> af_former f \<and> af_verified f \<noteq> Some True)"
| "reason_true f over rows ctx officer_override = (over = Some OverrideGranted)"
| "reason_true f over rows ctx officer_rank =
     (over = None \<and> rc_linked ctx \<and> officer_evidence rows ctx)"
| "reason_true f over rows ctx officer_revoked = (over = Some OverrideRevoked)"
| "reason_true f over rows ctx officer_rank_unset =
     (over = None \<and> (rc_officer_rank ctx = None \<or> rc_officer_rank ctx = Some []))"
| "reason_true f over rows ctx no_officer_rank = (over = None \<and> \<not> officer_evidence rows ctx)"
| "reason_true f over rows ctx fc_leader = (rc_linked ctx \<and> leader_evidence rows)"
| "reason_true f over rows ctx no_fc_leader = (rc_linked ctx \<and> \<not> leader_evidence rows)"

text \<open>The values, the decisive flags and the facts one pass hands to \<open>statusObservation\<close>.\<close>

definition pass_values ::
  "access_facts \<Rightarrow> rank_access \<Rightarrow> bool \<Rightarrow> bool \<Rightarrow> flag \<Rightarrow> bool" where
  "pass_values f r officer_held leader_held flag =
     (case flag of
        FMember \<Rightarrow> want_member (desiredAccess f)
      | FGuest \<Rightarrow> want_guest (desiredAccess f)
      | FOfficer \<Rightarrow> desiredRankRole (ra_officer r) officer_held (ra_fresh r) (ra_manual r)
      | FLeader \<Rightarrow> desiredRankRole (ra_leader r) leader_held (ra_fresh r) False)"

definition pass_decisive :: "access_facts \<Rightarrow> rank_access \<Rightarrow> flag \<Rightarrow> bool" where
  "pass_decisive f r flag =
     (case flag of
        FMember \<Rightarrow> want_member (accessDecisive f)
      | FGuest \<Rightarrow> want_guest (accessDecisive f)
      | FOfficer \<Rightarrow> rankDecisive (ra_officer r) (ra_fresh r) (ra_manual r)
      | FLeader \<Rightarrow> rankDecisive (ra_leader r) (ra_fresh r) False)"

definition pass_facts :: "access_facts \<Rightarrow> rank_access \<Rightarrow> rank_context \<Rightarrow> reason_facts" where
  "pass_facts f r ctx =
     \<lparr>rf_fcLinked = rc_linked ctx,
      rf_officerRankSet = (rc_officer_rank ctx \<noteq> None \<and> rc_officer_rank ctx \<noteq> Some []),
      rf_grant = af_grant f, rf_former = af_former f, rf_guestRevoked = af_revoked f,
      rf_manualOfficer = ra_manual r, rf_officerRevoked = ra_revoked r\<rparr>"

definition pass_observation ::
  "(flag \<Rightarrow> bool) \<Rightarrow> access_facts \<Rightarrow> rank_access \<Rightarrow> rank_context \<Rightarrow> bool \<Rightarrow> bool \<Rightarrow> observation" where
  "pass_observation bound f r ctx officer_held leader_held =
     statusObservation bound (pass_values f r officer_held leader_held) (pass_decisive f r)
       (pass_facts f r ctx)"

lemmas pass_defs = pass_observation_def statusObservation_def pass_values_def pass_decisive_def
  pass_facts_def statusReason_def

lemma guest_reasons:
  assumes "want_guest (accessDecisive f)"
  shows "reason_true f over rows ctx
    (statusReason FGuest (want_guest (desiredAccess f))
       (want_member (accessDecisive f) \<and> want_member (desiredAccess f)) (pass_facts f r ctx))"
  using assms
  by (cases "af_membership f") (auto simp: desired_access_defs Let_def statusReason_def pass_facts_def)

lemma member_reasons:
  assumes "want_member (accessDecisive f)"
    and "af_membership f = membershipClass (rc_linked ctx) confirmed unknown loss"
  shows "reason_true f over rows ctx
    (statusReason FMember (want_member (desiredAccess f)) m (pass_facts f r ctx))"
  using assms
  by (cases "af_membership f")
    (auto simp: desired_access_defs Let_def statusReason_def pass_facts_def membershipClass_def
      split: if_splits)

lemma officer_reasons:
  assumes "rankDecisive (ra_officer r) (ra_fresh r) (ra_manual r)"
    and "r = rankAccess over rows ctx fresh"
  shows "reason_true f over rows ctx
    (statusReason FOfficer (desiredRankRole (ra_officer r) held (ra_fresh r) (ra_manual r)) m
       (pass_facts f r ctx))"
proof -
  consider "over = None" | "over = Some OverrideGranted" | "over = Some OverrideRevoked"
    using override_state.exhaust by (metis option.exhaust)
  then show ?thesis
    using assms officer_yes_evidence [of rows ctx]
    by cases (auto simp: desiredRankRole_decisive statusReason_def pass_facts_def rankAccess_def Let_def)
qed

lemma leader_reasons:
  assumes "rankDecisive (ra_leader r) (ra_fresh r) False"
    and "r = rankAccess over rows ctx fresh"
  shows "reason_true f over rows ctx
    (statusReason FLeader (desiredRankRole (ra_leader r) held (ra_fresh r) False) m
       (pass_facts f r ctx))"
  using assms leader_yes_evidence [of rows ctx]
  by (auto simp: desiredRankRole_decisive statusReason_def pass_facts_def rankAccess_def Let_def)

text \<open>
  The converse of \<open>reasons_ok\<close> fails: a change frozen for a post and reversed before the mark waits
  afterwards (the post announced it) with no reason, until a later pass sees the flag again.
\<close>

lemma posted_reversal_has_no_reason:
  fixes s seen
  defines "s \<equiv> \<lparr>st_joined = Some ''2026'', st_announced = (\<lambda>_. Some False),
                st_current = (\<lambda>f. Some (f = FMember)),
                st_reasons = (\<lambda>f. if f = FMember then Some in_fc else None), st_departed = []\<rparr>"
    and "seen \<equiv> (\<lambda>_. \<lparr>ob_value = Some False, ob_decisive = True, ob_reason = not_in_fc\<rparr>)"
  shows "case entryFor ''7'' s of
      None \<Rightarrow> False
    | Some e \<Rightarrow>
        let t = applyPosted (od_next (observe (Some s) seen ''2026'')) e
        in FMember \<in> set (changedFlags t) \<and> st_reasons t FMember = None"
  by (simp add: s_def seen_def entryFor_def isPending_iff waits_def observe_next observe_base_def
      seen_defs applyPosted_def mark_flags st_reasons_tidied Let_def) auto

section \<open>Properties\<close>

text \<open>
  The reason a status post gives for a decisive value is true: whatever the links, overrides,
  roster freshness and roles held, each reason that an observation carries for a bound, decisive
  flag follows from the facts the policy decided on.
\<close>

theorem statusObservation_reasons_true:
  assumes "af_membership f = membershipClass (rc_linked ctx) confirmed unknown loss"
    and "ob_decisive (pass_observation bound f (rankAccess over rows ctx fresh) ctx oh lh flag)"
  shows "reason_true f over rows ctx
    (ob_reason (pass_observation bound f (rankAccess over rows ctx fresh) ctx oh lh flag))"
proof (cases flag)
  case FMember
  with assms show ?thesis
    using member_reasons by (simp add: pass_observation_def statusObservation_def pass_values_def
        pass_decisive_def Let_def)
next
  case FGuest
  with assms show ?thesis
    using guest_reasons by (simp add: pass_observation_def statusObservation_def pass_values_def
        pass_decisive_def Let_def)
next
  case FOfficer
  with assms show ?thesis
    using officer_reasons [OF _ refl] by (simp add: pass_observation_def statusObservation_def
        pass_values_def pass_decisive_def Let_def)
next
  case FLeader
  with assms show ?thesis
    using leader_reasons [OF _ refl] by (simp add: pass_observation_def statusObservation_def
        pass_values_def pass_decisive_def Let_def)
qed

theorem statusObservation_reasons_true_witness:
  "reason_true \<lparr>af_membership = Ineligible, af_fresh = True, af_former = True, af_grant = False,
       af_revoked = False, af_has_member = True, af_has_guest = False, af_verified = None\<rparr>
     None [] \<lparr>rc_linked = True, rc_officer_rank = None, rc_local_loss = False\<rparr>
    (ob_reason (pass_observation (\<lambda>_. True)
       \<lparr>af_membership = Ineligible, af_fresh = True, af_former = True, af_grant = False,
        af_revoked = False, af_has_member = True, af_has_guest = False, af_verified = None\<rparr>
       (rankAccess None [] \<lparr>rc_linked = True, rc_officer_rank = None, rc_local_loss = False\<rparr> True)
       \<lparr>rc_linked = True, rc_officer_rank = None, rc_local_loss = False\<rparr> False False FGuest))"
  by (rule statusObservation_reasons_true [where confirmed = 0 and unknown = 0 and loss = False])
    (simp_all add: membershipClass_def pass_defs desired_access_defs Let_def)

text \<open>
  What waits after a pass: a flag with a decisive value waits exactly when the announced value
  (in this join) is the other one, so a change reversed before the post cancels itself; an unbound
  flag never waits; a flag without a decisive value waits as before.
\<close>

theorem observe_waits:
  "f \<in> set (changedFlags (od_next (observe previous obs joined))) \<longleftrightarrow>
     (case ob_value (obs f) of
        None \<Rightarrow> False
      | Some v \<Rightarrow>
          if ob_decisive (obs f)
          then st_announced (observe_base previous joined) f = Some (\<not> v)
          else f \<in> set (changedFlags (observe_base previous joined)))"
  by (simp add: waits_observe Let_def split: option.split)

text \<open>
  A second identical pass writes nothing and queues nothing: whatever the stored state, after
  a pass the same observation neither changes the state nor moves a value.
\<close>

theorem observe_twice_unchanged:
  "\<not> od_changed (observe (Some (od_next (observe previous obs joined))) obs joined) \<and>
   \<not> od_moved (observe (Some (od_next (observe previous obs joined))) obs joined)"
proof -
  let ?s = "od_next (observe previous obs joined)"
  have moved: "\<not> od_moved (observe (Some ?s) obs joined)"
    unfolding observe_moved observe_base_again Let_def
    by (auto simp: observe_next Let_def seen_defs)
  have "od_next (observe (Some ?s) obs joined) = ?s"
    unfolding observe_next [of "Some ?s"] observe_base_again Let_def
    by (rule status_state.equality)
      (auto simp: observe_next Let_def seen_defs fun_eq_iff st_reasons_tidied waits_def)
  with moved show ?thesis by (simp add: observe_changed sameState_eq)
qed

text \<open>
  Whatever a member's history of passes, departures, posts and drops, a stored reason belongs
  to a flag that waits, and no departure (a character and the snapshot that confirmed it) is stored
  twice.
\<close>

theorem status_history_ok:
  "case status_run ops of
     None \<Rightarrow> True
   | Some s \<Rightarrow>
       (\<forall>f. f \<in> set (changedFlags s) \<or> st_reasons s f = None) \<and>
       distinct (map (\<lambda>d. (dc_character d, dc_snapshot d)) (st_departed s))"
  using status_run_ok [of ops]
  by (auto simp: status_ok_def reasons_ok_def departures_ok_def split: option.split)

text \<open>
  Posting an entry announces exactly what was frozen: marked against whatever state the member
  has by then, it keeps every value and departure recorded since the freeze, removes the departures
  it listed, and no flag that still has its frozen values waits; marked at once, nothing waits.
\<close>

theorem posted_entry_announces_what_was_frozen:
  assumes "entryFor user s = Some e"
  shows "st_current (applyPosted t e) = st_current t \<and>
    set (st_departed (applyPosted t e)) =
      {d \<in> set (st_departed t). \<not> list_ex (\<lambda>p. same_departure p d) (st_departed s)} \<and>
    (\<forall>f. if st_joined t = st_joined s \<and> st_announced t f = st_announced s f \<and>
            st_current t f = st_current s f
         then f \<notin> set (changedFlags (applyPosted t e)) else True) \<and>
    \<not> isPending (applyPosted s e)"
proof -
  from assms have e: "se_joined e = st_joined s" "se_from e = st_announced s"
    "se_to e = (\<lambda>f. if waits s f then st_current s f else st_announced s f)"
    "se_departed e = st_departed s"
    by (auto simp: entryFor_def split: if_splits)
  have dep: "set (st_departed (applyPosted t e)) =
      {d \<in> set (st_departed t). \<not> list_ex (\<lambda>p. same_departure p d) (st_departed s)}" for t
    by (simp add: st_departed_applyPosted e list_ex_iff)
  have still: "\<not> waits (applyPosted t e) f"
    if "st_joined t = st_joined s" "st_announced t f = st_announced s f" "st_current t f = st_current s f"
    for t f
    using that by (auto simp: waits_def e)
  have "set (st_departed (applyPosted s e)) = {}"
    unfolding dep list_ex_iff using same_departure_refl by blast
  then have "\<not> isPending (applyPosted s e)"
    using still [of s] by (auto simp: isPending_iff)
  with dep still show ?thesis by auto
qed

theorem posted_entry_announces_what_was_frozen_witness:
  "\<not> isPending (applyPosted
      \<lparr>st_joined = Some ''2026'', st_announced = (\<lambda>_. Some False), st_current = (\<lambda>_. Some True),
       st_reasons = (\<lambda>_. None), st_departed = []\<rparr>
      \<lparr>se_user = ''7'', se_joined = Some ''2026'', se_from = (\<lambda>_. Some False), se_to = (\<lambda>_. Some True),
       se_reasons = (\<lambda>_. None), se_departed = []\<rparr>)"
  by (rule posted_entry_announces_what_was_frozen [of "''7''", THEN conjunct2, THEN conjunct2,
        THEN conjunct2])
    (simp add: entryFor_def isPending_iff waits_def)

end
