(* ===== verification/RoleLayout.thy ===== *)
theory RoleLayout
  imports Permissions
begin

text \<open>
  Managed role presentation: \<open>src/domain/role-layout.ts\<close> packs the managed roles into one block of
  the server's hierarchy, and \<open>src/domain/role-selection.ts\<close> chooses an existing role to reuse.
  A hierarchy is a list of role IDs, lowest first; position 0 is @everyone.

  The lemmas show that the new order is a permutation with the managed roles consecutive and every
  other role in its old order, that @everyone stays at the bottom, and that a second pass changes
  nothing.
\<close>

section \<open>The managed order\<close>

record layout_bindings =
  lb_leader :: "ident option"
  lb_officer :: "ident option"
  lb_member :: "ident option"
  lb_guest :: "ident option"

definition managedRoleOrder :: "layout_bindings \<Rightarrow> ident list" where
  "managedRoleOrder b = List.map_filter (\<lambda>v. v) [lb_leader b, lb_officer b, lb_member b, lb_guest b]"

definition layout_blocked :: "string \<Rightarrow> failure" where
  "layout_blocked m = mk_failure F_blocked (Literal m)"

definition managed_slots :: "ident list \<Rightarrow> ident list \<Rightarrow> (ident \<times> nat) list" where
  "managed_slots asc priority = filter (\<lambda>(i, _). i \<in> set priority) (zip asc [0..<length asc])"

definition unrelated_roles :: "ident list \<Rightarrow> ident list \<Rightarrow> ident list" where
  "unrelated_roles asc priority = filter (\<lambda>i. i \<notin> set priority) asc"

definition wanted_order :: "ident list \<Rightarrow> ident list \<Rightarrow> nat \<Rightarrow> ident list" where
  "wanted_order asc priority first =
     (let unrelated = unrelated_roles asc priority
      in take first unrelated @ rev priority @ drop first unrelated)"

text \<open>\<open>wanted.every((id, index) => ascendingIds[index] === id)\<close>; past the end nothing is equal.\<close>

definition already_in_order :: "ident list \<Rightarrow> ident list \<Rightarrow> bool" where
  "already_in_order wanted asc \<longleftrightarrow>
     list_all (\<lambda>(i, n). n < length asc \<and> asc ! n = i) (zip wanted [0..<length wanted])"

definition rolePositionChanges :: "ident list \<Rightarrow> ident list \<Rightarrow> failure + (ident \<times> nat) list" where
  "rolePositionChanges asc priority =
     (if length (js_set priority) \<noteq> length priority
      then Inl (layout_blocked ''Managed roles must be distinct before arranging their hierarchy.'')
      else
        let slots = managed_slots asc priority
        in if length slots \<noteq> length priority
           then Inl (layout_blocked ''A managed role is missing; run /setup onboarding or repair its configuration.'')
           else case slots of
               [] \<Rightarrow> Inr []
             | (_, first) # _ \<Rightarrow>
                 if first = 0 then Inl (layout_blocked ''The everyone role cannot be managed.'')
                 else
                   let wanted = wanted_order asc priority first
                   in if already_in_order wanted asc then Inr []
                      else Inr (zip wanted [0..<length wanted]))"

section \<open>The plan\<close>

record layout_role =
  lr_id :: ident
  lr_name :: string
  lr_hoist :: bool

record moved_role =
  mv_id :: ident
  mv_name :: string
  mv_from :: nat
  mv_to :: nat

record role_layout_plan =
  rlp_order :: "ident list"
  rlp_hoist :: "(ident \<times> string) list"
  rlp_moved :: "moved_role list"
  rlp_positions :: "(ident \<times> nat) list"

text \<open>A \<open>Map\<close> built from pairs keeps the last value of a key.\<close>

definition layout_by_id :: "layout_role list \<Rightarrow> ident \<Rightarrow> (layout_role \<times> nat) option" where
  "layout_by_id asc =
     map_of (rev (map (\<lambda>(r, n). (lr_id r, (r, n))) (zip asc [0..<length asc])))"

definition roleLayoutPlan :: "layout_role list \<Rightarrow> ident list \<Rightarrow> failure + role_layout_plan" where
  "roleLayoutPlan asc priority =
     and_then (rolePositionChanges (map lr_id asc) priority) (\<lambda>positions.
       let byId = layout_by_id asc;
           hoist = List.map_filter (\<lambda>i.
             case byId i of
               Some (r, _) \<Rightarrow> if \<not> lr_hoist r then Some (lr_id r, lr_name r) else None
             | None \<Rightarrow> None) priority;
           moved = List.map_filter (\<lambda>(role, position).
             case byId role of
               Some (r, index) \<Rightarrow>
                 if index \<noteq> position
                 then Some \<lparr>mv_id = role, mv_name = lr_name r, mv_from = index, mv_to = position\<rparr>
                 else None
             | None \<Rightarrow> None) positions
       in Inr \<lparr>rlp_order = priority, rlp_hoist = hoist, rlp_moved = moved, rlp_positions = positions\<rparr>)"

section \<open>Reusing a role\<close>

text \<open>\<open>normalized\<close> (NFKC, case folded, trimmed) is a parameter; \<open>ambiguous\<close> carries the matches.\<close>

datatype role_pick = Chosen "ident option" | AmbiguousRole "ident list"

definition named_role ::
  "(string \<Rightarrow> string) \<Rightarrow> (ident \<times> string) list \<Rightarrow> string \<Rightarrow> string \<Rightarrow> role_pick" where
  "named_role normalized roles desired canonical =
     (let names = {normalized desired, normalized canonical};
          matches = filter (\<lambda>r. normalized (snd r) \<in> names) roles
      in if length matches > 1 then AmbiguousRole (map fst matches)
         else Chosen (case matches of [] \<Rightarrow> None | m # _ \<Rightarrow> Some (fst m)))"

definition existingRoleId ::
  "(string \<Rightarrow> string) \<Rightarrow> (ident \<times> string) list \<Rightarrow> string \<Rightarrow> string \<Rightarrow> ident option \<Rightarrow> role_pick" where
  "existingRoleId normalized roles desired canonical configured =
     (case configured of
        Some c \<Rightarrow> if c \<noteq> [] \<and> list_ex (\<lambda>r. fst r = c) roles then Chosen (Some c)
                  else named_role normalized roles desired canonical
      | None \<Rightarrow> named_role normalized roles desired canonical)"

section \<open>The block\<close>

lemma map_fst_managed_slots: "map fst (managed_slots asc p) = filter (\<lambda>i. i \<in> set p) asc"
proof -
  have "map fst (filter (\<lambda>(i, _). Q i) (zip xs ns)) = filter Q xs"
    if "length xs = length ns" for Q and xs :: "ident list" and ns :: "nat list"
    using that by (induction xs ns rule: list_induct2) auto
  then show ?thesis by (simp add: managed_slots_def)
qed

lemma managed_slots_first:
  assumes "managed_slots asc p = (i, n) # rest"
  shows "n < length asc \<and> asc ! n \<in> set p \<and> (\<forall>j < n. asc ! j \<notin> set p)"
proof -
  have "filter (\<lambda>(i, _). Q i) (zip xs [m..<m + length xs]) = (i, n) # rest \<Longrightarrow>
      m \<le> n \<and> n < m + length xs \<and> Q (xs ! (n - m)) \<and> (\<forall>j < n - m. \<not> Q (xs ! j))" for Q m and xs :: "ident list"
  proof (induction xs arbitrary: m)
    case (Cons x xs)
    have upt: "[m..<m + length (x # xs)] = m # [Suc m..<Suc m + length xs]"
      by (simp add: upt_conv_Cons del: upt_Suc)
    show ?case
    proof (cases "Q x")
      case True
      with Cons.prems show ?thesis unfolding upt by simp
    next
      case False
      with Cons.prems have "filter (\<lambda>(i, _). Q i) (zip xs [Suc m..<Suc m + length xs]) = (i, n) # rest"
        unfolding upt by simp
      from Cons.IH [OF this] have le: "Suc m \<le> n" "n < Suc m + length xs" "Q (xs ! (n - Suc m))"
        "\<forall>j < n - Suc m. \<not> Q (xs ! j)" by blast+
      then obtain k where k: "n = Suc m + k" using le_Suc_ex by blast
      have "\<not> Q ((x # xs) ! j)" if "j < Suc k" for j
        using that le(4) False k by (cases j) auto
      with le k show ?thesis by simp
    qed
  qed simp
  from this [where Q = "\<lambda>i. i \<in> set p" and m = 0 and xs = asc] assms show ?thesis
    by (simp add: managed_slots_def)
qed

lemma take_before_first:
  assumes "\<forall>j < n. \<not> Q (asc ! j)" "n \<le> length asc"
  shows "take n (filter (\<lambda>i. \<not> Q i) asc) = take n asc"
proof -
  have "\<forall>x \<in> set (take n asc). \<not> Q x"
    using assms by (auto simp: in_set_conv_nth)
  then have "filter (\<lambda>i. \<not> Q i) asc = take n asc @ filter (\<lambda>i. \<not> Q i) (drop n asc)"
    by (metis append_take_drop_id filter_True filter_append)
  with assms(2) show ?thesis by simp
qed

lemma already_in_order_iff: "length w = length asc \<Longrightarrow> already_in_order w asc \<longleftrightarrow> w = asc"
  by (auto simp: already_in_order_def list_all_length intro!: nth_equalityI)

text \<open>What a pass leaves: the old order when nothing changes, else the order of the payload.\<close>

definition layout_result :: "ident list \<Rightarrow> (ident \<times> nat) list \<Rightarrow> ident list" where
  "layout_result asc changes = (if changes = [] then asc else map fst changes)"

lemma rolePositionChanges_wanted:
  assumes d: "distinct asc" and r: "rolePositionChanges asc p = Inr changes" and p: "p \<noteq> []"
  obtains n where "0 < n" "n < length asc" "\<forall>j < n. asc ! j \<notin> set p" "distinct p" "set p \<subseteq> set asc"
    "layout_result asc changes = wanted_order asc p n"
    "mset (wanted_order asc p n) = mset asc"
    "changes = [] \<or> map snd changes = [0..<length asc]"
proof -
  have dp: "distinct p"
    using r by (auto simp: rolePositionChanges_def length_js_set_eq_iff split: if_splits)
  have len: "length (managed_slots asc p) = length p"
    using r by (auto simp: rolePositionChanges_def Let_def split: if_splits)
  then obtain i n rest where slots: "managed_slots asc p = (i, n) # rest"
    using p by (cases "managed_slots asc p") auto
  note first = managed_slots_first [OF slots]
  have "length (filter (\<lambda>i. i \<in> set p) asc) = length p"
    using len by (metis length_map map_fst_managed_slots)
  then have "card (set asc \<inter> set p) = card (set p)"
    using d dp by (metis distinct_card distinct_filter Int_def set_filter)
  then have sub: "set p \<subseteq> set asc"
    by (metis Int_lower2 List.finite_set card_subset_eq inf.absorb_iff2)
  have managed: "mset (filter (\<lambda>i. i \<in> set p) asc) = mset p"
    using d dp sub by (metis Int_absorb2 distinct_filter inter_set_filter set_eq_iff_mset_eq_distinct)
  have perm: "mset (wanted_order asc p n) = mset asc"
  proof -
    have "mset (wanted_order asc p n) = mset (unrelated_roles asc p) + mset p"
      by (simp add: wanted_order_def Let_def) (metis append_take_drop_id mset_append union_commute union_lcomm)
    also have "\<dots> = mset asc"
      unfolding managed [symmetric] unrelated_roles_def mset_filter
      by (metis multiset_partition union_commute)
    finally show ?thesis .
  qed
  then have leq: "length (wanted_order asc p n) = length asc" by (metis size_mset)
  have n: "n \<noteq> 0"
    using r slots dp len by (simp add: rolePositionChanges_def length_js_set_eq_iff split: if_splits)
  have ch: "changes = (if wanted_order asc p n = asc then [] else
      zip (wanted_order asc p n) [0..<length asc])"
    using r slots dp len n leq
    by (simp add: rolePositionChanges_def length_js_set_eq_iff Let_def already_in_order_iff split: if_splits)
  have "asc \<noteq> []" using first by auto
  then have res: "layout_result asc changes = wanted_order asc p n"
    using leq by (auto simp: ch layout_result_def)
  show thesis
    using that [of n] n first dp sub res perm leq by (auto simp: ch)
qed

lemma managed_slots_length_iff:
  assumes "distinct asc" "distinct p"
  shows "length (managed_slots asc p) = length p \<longleftrightarrow> set p \<subseteq> set asc"
proof -
  have "length (managed_slots asc p) = length (filter (\<lambda>i. i \<in> set p) asc)"
    by (metis length_map map_fst_managed_slots)
  also have "\<dots> = card (set asc \<inter> set p)"
    using assms by (metis distinct_card distinct_filter Int_def set_filter)
  finally have "length (managed_slots asc p) = length p \<longleftrightarrow> card (set asc \<inter> set p) = card (set p)"
    using distinct_card [OF assms(2)] by simp
  also have "\<dots> \<longleftrightarrow> set p \<subseteq> set asc"
    by (metis Int_absorb1 Int_lower2 List.finite_set card_subset_eq inf.absorb_iff2)
  finally show ?thesis .
qed

lemma managed_slots_first_zero:
  assumes "managed_slots asc p = (i, n) # rest"
  shows "n = 0 \<longleftrightarrow> asc ! 0 \<in> set p"
  using managed_slots_first [OF assms] by (cases n) auto

lemma unrelated_wanted: "unrelated_roles (wanted_order asc p n) p = unrelated_roles asc p"
proof -
  have "filter (\<lambda>i. i \<notin> set p) xs = xs" if "set xs \<subseteq> set (unrelated_roles asc p)" for xs
    using that by (intro filter_True) (auto simp: unrelated_roles_def)
  then have "filter (\<lambda>i. i \<notin> set p) (take n (unrelated_roles asc p)) = take n (unrelated_roles asc p)"
    "filter (\<lambda>i. i \<notin> set p) (drop n (unrelated_roles asc p)) = drop n (unrelated_roles asc p)"
    using set_take_subset set_drop_subset by metis+
  then show ?thesis
    by (simp add: wanted_order_def Let_def unrelated_roles_def [of "_ @ _"])
qed

lemma wanted_again:
  assumes d: "distinct asc" "distinct p" "set p \<subseteq> set asc" and p: "p \<noteq> []"
    and n: "0 < n" "n < length asc" "\<forall>j < n. asc ! j \<notin> set p"
    and m: "mset (wanted_order asc p n) = mset asc"
  shows "rolePositionChanges (wanted_order asc p n) p = Inr []"
proof -
  let ?w = "wanted_order asc p n"
  have dw: "distinct ?w" and sw: "set ?w = set asc"
    using d m mset_eq_imp_distinct_iff mset_eq_setD by blast+
  have pre: "take n (unrelated_roles asc p) = take n asc"
    unfolding unrelated_roles_def using n by (intro take_before_first) auto
  then have w: "?w = take n asc @ rev p @ drop n (unrelated_roles asc p)"
    by (simp add: wanted_order_def Let_def)
  have at: "?w ! j \<in> set p \<longleftrightarrow> j = n" if "j \<le> n" for j
  proof (cases "j = n")
    case True
    with n p have "?w ! j = rev p ! 0" by (simp add: w nth_append)
    moreover have "rev p ! 0 \<in> set p" using p by (metis length_greater_0_conv length_rev nth_mem set_rev)
    ultimately show ?thesis using True by simp
  next
    case False
    with that n show ?thesis by (simp add: w nth_append)
  qed
  have len: "length (managed_slots ?w p) = length p"
    using managed_slots_length_iff [OF dw d(2)] sw d(3) by simp
  with p obtain i k rest where slots: "managed_slots ?w p = (i, k) # rest"
    by (cases "managed_slots ?w p") auto
  have "k = n"
    using managed_slots_first [OF slots] at by (metis le_refl less_imp_le_nat linorder_neqE_nat)
  moreover have "wanted_order ?w p n = ?w"
    by (simp add: wanted_order_def [of ?w] unrelated_wanted Let_def) (simp add: wanted_order_def Let_def)
  ultimately show ?thesis
    using slots len n(1) d(2)
    by (simp add: rolePositionChanges_def length_js_set_eq_iff Let_def already_in_order_iff)
qed

section \<open>Properties\<close>

text \<open>
  A layout pass that does not refuse ends in an order that has the same roles, the managed ones
  as one consecutive block in their priority, every other role in its old relative order and
  @everyone still lowest; the payload gives every role its place in that order; and a second pass
  over the result changes nothing.
\<close>

theorem rolePositionChanges_packs_block:
  assumes "distinct asc" and "rolePositionChanges asc priority = Inr changes" and "priority \<noteq> []"
  shows "let final = layout_result asc changes in
     mset final = mset asc \<and>
     (\<exists>lower upper. final = lower @ rev priority @ upper) \<and>
     filter (\<lambda>i. i \<notin> set priority) final = filter (\<lambda>i. i \<notin> set priority) asc \<and>
     hd final = hd asc \<and>
     (if changes = [] then True else map snd changes = [0..<length asc]) \<and>
     rolePositionChanges final priority = Inr []"
proof -
  from rolePositionChanges_wanted [OF assms] obtain n where n: "0 < n" "n < length asc"
    "\<forall>j < n. asc ! j \<notin> set priority" "distinct priority" "set priority \<subseteq> set asc"
    "layout_result asc changes = wanted_order asc priority n"
    "mset (wanted_order asc priority n) = mset asc"
    "changes = [] \<or> map snd changes = [0..<length asc]" by blast
  have pre: "take n (unrelated_roles asc priority) = take n asc"
    unfolding unrelated_roles_def using n by (intro take_before_first) auto
  have w: "wanted_order asc priority n = take n asc @ rev priority @ drop n (unrelated_roles asc priority)"
    by (simp add: wanted_order_def Let_def pre)
  have "hd (wanted_order asc priority n) = hd asc"
    using n(1,2) unfolding w by (cases asc; cases n) auto
  moreover have "filter (\<lambda>i. i \<notin> set priority) (wanted_order asc priority n) =
      filter (\<lambda>i. i \<notin> set priority) asc"
    using unrelated_wanted [of asc priority n] by (simp add: unrelated_roles_def)
  moreover have "rolePositionChanges (wanted_order asc priority n) priority = Inr []"
    using wanted_again assms(1,3) n by blast
  ultimately show ?thesis
    unfolding Let_def n(6) using n w by auto
qed

theorem rolePositionChanges_packs_block_witness:
  "let final = layout_result [''1'', ''2'', ''3'', ''4''] (zip [''1'', ''2'', ''4'', ''3''] [0..<4]) in
     rolePositionChanges final [''3'', ''4''] = Inr []"
  unfolding Let_def
  by (rule rolePositionChanges_packs_block [unfolded Let_def, THEN conjunct2, THEN conjunct2,
        THEN conjunct2, THEN conjunct2, THEN conjunct2]) (simp, code_simp, simp)

text \<open>
  A layout pass refuses exactly when the managed roles are not distinct, one of them is not in
  the server, or one of them is @everyone.
\<close>

theorem rolePositionChanges_refuses:
  assumes "distinct (everyone # upper)"
  shows "(\<exists>e. rolePositionChanges (everyone # upper) priority = Inl e) \<longleftrightarrow>
     \<not> (distinct priority \<and> set priority \<subseteq> set upper)"
proof (cases "distinct priority \<and> set priority \<subseteq> set (everyone # upper)")
  case False
  then show ?thesis
    using managed_slots_length_iff [OF assms]
    by (auto simp: rolePositionChanges_def length_js_set_eq_iff Let_def)
next
  case True
  then have len: "length (managed_slots (everyone # upper) priority) = length priority"
    using managed_slots_length_iff [OF assms] by blast
  show ?thesis
  proof (cases "managed_slots (everyone # upper) priority")
    case Nil
    with len True show ?thesis by (auto simp: rolePositionChanges_def length_js_set_eq_iff Let_def)
  next
    case (Cons s rest)
    then obtain i n where "managed_slots (everyone # upper) priority = (i, n) # rest"
      by (cases s) auto
    with len True managed_slots_first_zero [OF this] assms show ?thesis
      by (auto simp: rolePositionChanges_def length_js_set_eq_iff Let_def split: if_splits)
  qed
qed

theorem rolePositionChanges_refuses_witness:
  "(\<exists>e. rolePositionChanges [''1'', ''2''] [''1''] = Inl e) \<longleftrightarrow>
     \<not> (distinct [''1''] \<and> set [''1''] \<subseteq> set [''2''])"
  by (rule rolePositionChanges_refuses) simp

end
