(* ===== verification/Grandfathering.thy ===== *)
theory Grandfathering
  imports Policy Values
begin

text \<open>
  First-activation Guest grandfathering, \<open>src/domain/grandfathering.ts\<close>: who is grandfathered, the
  plan an operator reviews, its checksum, the review summary, and how a planned grant shows in a
  preview. Instants are milliseconds.

  \<open>planChecksum\<close> is SHA-256 over the JSON text of the plan's identity. The hash is not the
  repository's code: it is the parameter \<open>digest\<close>, a function of the four fields the JSON text
  encodes.

  The lemmas show that IDs sort numerically, that the plan and its checksum do not depend on the
  order of enumeration, that a reviewed plan is the plan that was confirmed, and that
  grandfathering takes no access away from anyone it covers.
\<close>

section \<open>Classification\<close>

datatype grandfather_basis = BasisMember | BasisRevoked | BasisExistingGrant | BasisGrant

datatype grandfather_state = GrandfatherPending | GrandfatherCompleted | GrandfatherNotApplicable

definition GRANDFATHER_SAMPLE :: nat where
  "GRANDFATHER_SAMPLE = 25"

definition grandfatherBasis :: "access_facts \<Rightarrow> failure + grandfather_basis" where
  "grandfatherBasis f =
     (if \<not> af_fresh f
      then Inl (mk_failure F_stale (Literal ''Acquire a fresh complete roster before grandfathering.''))
      else if af_membership f = Member \<and> want_member (desiredAccess f) then Inr BasisMember
      else if af_revoked f then Inr BasisRevoked
      else if af_grant f then Inr BasisExistingGrant
      else Inr BasisGrant)"

record candidate =
  gc_user :: ident
  gc_basis :: grandfather_basis
  gc_membership :: membership_class
  gc_former :: bool
  gc_registered :: bool
  gc_heldMember :: bool
  gc_heldGuest :: bool
  gc_newSinceImport :: bool
  gc_joinedAt :: int
  gc_provenance :: "string list"
  gc_projected :: desired

record plan_identity =
  pi_guild :: ident
  pi_import :: "string option"
  pi_roster :: "string option"
  pi_grants :: "ident list"

record grandfather_plan =
  gp_identity :: plan_identity
  gp_guestRole :: "ident option"
  gp_enumeratedAt :: int
  gp_rosterObservedAt :: "int option"
  gp_humans :: nat
  gp_bots :: nat
  gp_candidates :: "candidate list"
  gp_checksum :: string

section \<open>Sorting IDs\<close>

text \<open>\<open><\<close> on strings compares code units lexicographically, a prefix first.\<close>

definition compareIds :: "ident \<Rightarrow> ident \<Rightarrow> int" where
  "compareIds l r =
     (if int (length l) - int (length r) \<noteq> 0 then int (length l) - int (length r)
      else locale_compare l r)"

definition sortIds :: "ident list \<Rightarrow> ident list" where
  "sortIds ids = sort_by compareIds ids"

interpretation compareIds: strict_comparator compareIds
proof
  show "compareIds x y \<le> 0 \<or> compareIds y x \<le> 0" for x y
    using locale_compare_total [of x y] by (auto simp: compareIds_def)
  show "compareIds x y \<le> 0 \<Longrightarrow> compareIds y z \<le> 0 \<Longrightarrow> compareIds x z \<le> 0" for x y z
    using locale_compare_trans [of x y z] by (auto simp: compareIds_def split: if_splits)
  show "compareIds x y \<le> 0 \<Longrightarrow> compareIds y x \<le> 0 \<Longrightarrow> x = y" for x y
    using locale_compare_antisym [of x y] by (auto simp: compareIds_def split: if_splits)
qed

context strict_comparator
begin

text \<open>Elements with distinct keys have one sorted order by their key.\<close>

lemma keyed: "comparator (\<lambda>a b. cmp (k a) (k b))"
  using cmp_total cmp_trans by unfold_locales blast+

lemma sort_by_distinct_key:
  assumes "mset xs = mset ys" "distinct (map k xs)"
  shows "sort_by (\<lambda>a b. cmp (k a) (k b)) xs = sort_by (\<lambda>a b. cmp (k a) (k b)) ys"
    (is "?s xs = ?s ys")
proof (rule map_inj_on)
  have sorted: "sorted_wrt (\<lambda>x y. cmp x y \<le> 0) (map k (?s zs))" for zs
    using comparator.sorted_sort_by [OF keyed] by (simp add: sorted_wrt_map)
  show "map k (?s xs) = map k (?s ys)"
    by (rule sorted_unique [OF sorted sorted]) (simp add: assms(1))
  have "set (?s xs) \<union> set (?s ys) = set xs"
    using mset_eq_setD [OF assms(1)] by simp
  then show "inj_on k (set (?s xs) \<union> set (?s ys))"
    using assms(2) by (simp add: distinct_map)
qed

end

text \<open>On canonical decimal IDs the order is the numeric one.\<close>

definition canonical_id :: "ident \<Rightarrow> bool" where
  "canonical_id i \<longleftrightarrow> idSchema (units i)"

lemma big_int_Cons: "big_int (d # ds) = (d - 48) * 10 ^ length ds + big_int ds"
proof (induction ds rule: rev_induct)
  case (snoc x xs)
  have "big_int (d # xs @ [x]) = 10 * big_int (d # xs) + (x - 48)"
    using big_int_snoc [of "d # xs" x] by simp
  with snoc show ?case by (simp add: algebra_simps)
qed (simp add: big_int_def)

lemma big_int_less: "list_all is_digit ds \<Longrightarrow> big_int ds < 10 ^ length ds"
proof (induction ds rule: rev_induct)
  case (snoc x xs)
  then have "big_int xs + 1 \<le> 10 ^ length xs" "x - 48 < 10" by (auto simp: is_digit_def)
  then have "10 * big_int xs + (x - 48) < 10 * 10 ^ length xs" by linarith
  then show ?case by simp
qed (simp add: big_int_def)

lemma big_int_ge: "is_nonzero_digit d \<Longrightarrow> 10 ^ length ds \<le> big_int (d # ds)"
proof -
  assume "is_nonzero_digit d"
  then have "1 \<le> d - 48" unfolding is_nonzero_digit_def by linarith
  then have "1 * 10 ^ length ds \<le> (d - 48) * 10 ^ length ds" by (rule mult_le_mono1)
  then show ?thesis by (simp only: big_int_Cons mult_1 trans_le_add1)
qed

lemma locale_compare_numeric:
  assumes "length l = length r" "list_all is_digit (units l)" "list_all is_digit (units r)"
  shows "locale_compare l r \<le> 0 \<longleftrightarrow> big_int (units l) \<le> big_int (units r)"
  using assms
proof (induction l r rule: list_induct2)
  case Nil
  then show ?case by (simp add: units_def)
next
  case (Cons a as b bs)
  let ?a = "of_char a :: nat" and ?b = "of_char b :: nat"
  have len: "length (units as) = length (units bs)" using Cons.hyps by (simp add: units_def)
  have lt: "big_int (units as) < 10 ^ length (units as)" "big_int (units bs) < 10 ^ length (units as)"
    using Cons.prems len big_int_less [of "units as"] big_int_less [of "units bs"]
    by (simp_all add: units_def)
  have d: "48 \<le> ?a" "48 \<le> ?b" using Cons.prems by (simp_all add: units_def is_digit_def)
  have step: "big_int (units (c # cs)) = (of_char c - 48) * 10 ^ length (units cs) + big_int (units cs)" for c cs
    by (simp add: units_def big_int_Cons)
  have less: "x * n + u < y * n + v" if "x < y" "u < n" for x y u v n :: nat
  proof -
    have "x * n + n \<le> y * n" using that(1) by (metis Suc_leI add.commute mult_Suc mult_le_mono1)
    with that(2) show ?thesis by simp
  qed
  consider "?a < ?b" | "?b < ?a" | "?a = ?b" by linarith
  then show ?case
  proof cases
    case 1
    then have "?a - 48 < ?b - 48" using d by simp
    from less [OF this lt(1), of "big_int (units bs)"] 1 show ?thesis
      by (simp add: step len)
  next
    case 2
    then have "?b - 48 < ?a - 48" using d by simp
    from less [OF this lt(2), of "big_int (units as)"] 2 show ?thesis
      by (simp add: step len)
  next
    case 3
    with Cons show ?thesis by (simp add: step len) (simp add: units_def)
  qed
qed

lemma canonical_idD:
  assumes "canonical_id i"
  shows "list_all is_digit (units i)" "10 ^ (length i - 1) \<le> big_int (units i)" "0 < length i"
    "big_int (units i) < 10 ^ length i"
proof -
  obtain d ds where u: "units i = d # ds" "is_nonzero_digit d" "list_all is_digit ds"
    using assms by (cases "units i") (auto simp: canonical_id_def idSchema_def)
  then have len: "length i = Suc (length ds)" by (metis length_Cons length_map units_def)
  show digits: "list_all is_digit (units i)"
    using u by (simp add: is_nonzero_digit_def is_digit_def)
  show "10 ^ (length i - 1) \<le> big_int (units i)" "0 < length i"
    using u big_int_ge by (simp_all add: len)
  show "big_int (units i) < 10 ^ length i"
    using big_int_less [OF digits] by (simp add: units_def)
qed

lemma compareIds_numeric_le:
  assumes "canonical_id l" "canonical_id r"
  shows "compareIds l r \<le> 0 \<longleftrightarrow> big_int (units l) \<le> big_int (units r)"
proof -
  note l = canonical_idD [OF assms(1)] and r = canonical_idD [OF assms(2)]
  have shorter: "big_int (units x) < big_int (units y)"
    if "length x < length y" "canonical_id x" "canonical_id y" for x y
  proof -
    have "big_int (units x) < 10 ^ length x" using canonical_idD [OF that(2)] by simp
    also have "\<dots> \<le> 10 ^ (length y - 1)" using that(1) by (intro power_increasing) auto
    also have "\<dots> \<le> big_int (units y)" using canonical_idD [OF that(3)] by simp
    finally show ?thesis .
  qed
  consider "length l < length r" | "length r < length l" | "length l = length r" by linarith
  then show ?thesis
    using shorter assms locale_compare_numeric [OF _ l(1) r(1)]
    by cases (fastforce simp: compareIds_def)+
qed

section \<open>The plan\<close>

definition planChecksum :: "(plan_identity \<Rightarrow> string) \<Rightarrow> plan_identity \<Rightarrow> string" where
  "planChecksum digest p = digest (p\<lparr>pi_grants := sortIds (pi_grants p)\<rparr>)"

record plan_input =
  in_guild :: ident
  in_import :: "string option"
  in_roster :: "string option"
  in_guestRole :: "ident option"
  in_enumeratedAt :: int
  in_rosterObservedAt :: "int option"
  in_bots :: nat
  in_candidates :: "candidate list"

definition assemblePlan :: "(plan_identity \<Rightarrow> string) \<Rightarrow> plan_input \<Rightarrow> grandfather_plan" where
  "assemblePlan digest p =
     (let candidates = sort_by (\<lambda>l r. compareIds (gc_user l) (gc_user r)) (in_candidates p);
          grants = map gc_user (filter (\<lambda>c. gc_basis c = BasisGrant) candidates);
          identity = \<lparr>pi_guild = in_guild p, pi_import = in_import p, pi_roster = in_roster p,
                      pi_grants = grants\<rparr>
      in \<lparr>gp_identity = identity, gp_guestRole = in_guestRole p,
          gp_enumeratedAt = in_enumeratedAt p, gp_rosterObservedAt = in_rosterObservedAt p,
          gp_humans = length candidates, gp_bots = in_bots p, gp_candidates = candidates,
          gp_checksum = planChecksum digest identity\<rparr>)"

record subset_sample =
  sub_count :: nat
  sub_sample :: "ident list"

definition subset :: "ident list \<Rightarrow> subset_sample" where
  "subset ids =
     (let sorted = sortIds ids
      in \<lparr>sub_count = length sorted, sub_sample = take GRANDFATHER_SAMPLE sorted\<rparr>)"

section \<open>The review summary\<close>

record planned_detail =
  pd_memberRoleRemoved :: subset_sample
  pd_guestRoleAdded :: subset_sample
  pd_guestRoleAlreadyHeld :: subset_sample
  pd_uncertainKeepsMember :: subset_sample
  pd_formerMembers :: subset_sample
  pd_registeredVisitors :: subset_sample
  pd_newSinceImport :: subset_sample

text \<open>\<open>existingGrant\<close> is its subset and the users per provenance, in insertion order.\<close>

record grandfather_report =
  gr_state :: grandfather_state
  gr_completedAt :: "int option"
  gr_blocked :: "string option"
  gr_planChecksum :: "string option"
  gr_import :: "string option"
  gr_roster :: "string option"
  gr_enumeratedAt :: "int option"
  gr_rosterObservedAt :: "int option"
  gr_humans :: "nat option"
  gr_bots :: "nat option"
  gr_memberEligible :: "nat option"
  gr_pendingDepartures :: subset_sample
  gr_planned :: "subset_sample option"
  gr_plannedDetail :: "planned_detail option"
  gr_existingGrant :: "(subset_sample \<times> (string \<times> nat) list) option"
  gr_revoked :: "subset_sample option"

definition count_key :: "string \<Rightarrow> (string \<times> nat) list \<Rightarrow> (string \<times> nat) list" where
  "count_key k m = AList.update k ((case map_of m k of Some n \<Rightarrow> n | None \<Rightarrow> 0) + 1) m"

definition pick :: "candidate list \<Rightarrow> (candidate \<Rightarrow> bool) \<Rightarrow> subset_sample" where
  "pick rows keep = subset (map gc_user (filter keep rows))"

definition grandfatherReport ::
  "grandfather_state \<Rightarrow> grandfather_plan option \<Rightarrow> int option \<Rightarrow> subset_sample option \<Rightarrow> string option \<Rightarrow>
   grandfather_report" where
  "grandfatherReport state plan completedAt pendingDepartures blocked =
     (let all = (case plan of Some p \<Rightarrow> gp_candidates p | None \<Rightarrow> []);
          planned = filter (\<lambda>c. gc_basis c = BasisGrant) all;
          existing = filter (\<lambda>c. gc_basis c = BasisExistingGrant) all;
          byProvenance = fold (\<lambda>c m. fold count_key (js_set (gc_provenance c)) m) existing []
      in \<lparr>gr_state = state, gr_completedAt = completedAt, gr_blocked = blocked,
          gr_planChecksum = map_option gp_checksum plan,
          gr_import = Option.bind plan (\<lambda>p. pi_import (gp_identity p)),
          gr_roster = Option.bind plan (\<lambda>p. pi_roster (gp_identity p)),
          gr_enumeratedAt = map_option gp_enumeratedAt plan,
          gr_rosterObservedAt = Option.bind plan gp_rosterObservedAt,
          gr_humans = map_option gp_humans plan,
          gr_bots = map_option gp_bots plan,
          gr_memberEligible =
            map_option (\<lambda>_. length (filter (\<lambda>c. gc_basis c = BasisMember) all)) plan,
          gr_pendingDepartures = (case pendingDepartures of Some s \<Rightarrow> s | None \<Rightarrow> subset []),
          gr_planned = map_option (\<lambda>_. subset (map gc_user planned)) plan,
          gr_plannedDetail = map_option (\<lambda>_.
            \<lparr>pd_memberRoleRemoved = pick planned (\<lambda>c. gc_heldMember c \<and> \<not> want_member (gc_projected c)),
             pd_guestRoleAdded = pick planned (\<lambda>c. \<not> gc_heldGuest c \<and> want_guest (gc_projected c)),
             pd_guestRoleAlreadyHeld = pick planned gc_heldGuest,
             pd_uncertainKeepsMember = pick planned (\<lambda>c.
               gc_membership c = Uncertain \<and> gc_heldMember c \<and> want_member (gc_projected c)),
             pd_formerMembers = pick planned gc_former,
             pd_registeredVisitors = pick planned gc_registered,
             pd_newSinceImport = pick planned gc_newSinceImport\<rparr>) plan,
          gr_existingGrant = map_option (\<lambda>_. (pick existing (\<lambda>_. True), byProvenance)) plan,
          gr_revoked = map_option (\<lambda>_. pick all (\<lambda>c. gc_basis c = BasisRevoked)) plan\<rparr>)"

section \<open>Previewing a planned grant\<close>

text \<open>An action of the preview: a role delta with its other fields, or a result of another shape.\<close>

record role_delta =
  rd_user :: ident
  rd_add :: "ident list"
  rd_remove :: "ident list"
  rd_desired :: "desired option"
  rd_grandfathered :: "string option"

datatype preview_action = Delta role_delta | OtherAction string

definition planned_index :: "grandfather_plan \<Rightarrow> ident \<Rightarrow> candidate option" where
  "planned_index plan =
     map_of (rev (map (\<lambda>c. (gc_user c, c)) (filter (\<lambda>c. gc_basis c = BasisGrant) (gp_candidates plan))))"

definition overlayPlannedGrant :: "preview_action \<Rightarrow> grandfather_plan \<Rightarrow> preview_action" where
  "overlayPlannedGrant action plan =
     (case action of
        OtherAction _ \<Rightarrow> action
      | Delta d \<Rightarrow>
          (case planned_index plan (rd_user d) of
             None \<Rightarrow> action
           | Some c \<Rightarrow>
               let (add, remove) =
                     (case gp_guestRole plan of
                        Some guest \<Rightarrow>
                          if guest \<noteq> [] \<and> want_guest (gc_projected c) then
                            (if \<not> gc_heldGuest c \<and> guest \<notin> set (rd_add d)
                             then rd_add d @ [guest] else rd_add d,
                             filter (\<lambda>r. r \<noteq> guest) (rd_remove d))
                          else (rd_add d, rd_remove d)
                      | None \<Rightarrow> (rd_add d, rd_remove d))
               in Delta (d\<lparr>rd_add := add, rd_remove := remove,
                          rd_desired := Some (gc_projected c),
                          rd_grandfathered := Some ''planned''\<rparr>)))"

section \<open>The reviewed plan\<close>

text \<open>A plan file that has the schema's shape: its identity and the checksum it states.\<close>

record reviewed =
  rv_identity :: plan_identity
  rv_checksum :: string

definition is_hex :: "char \<Rightarrow> bool" where
  "is_hex c \<longleftrightarrow> c \<in> set ''0123456789abcdef''"

definition reviewed_shape :: "reviewed \<Rightarrow> bool" where
  "reviewed_shape p \<longleftrightarrow>
     canonical_id (pi_guild (rv_identity p)) \<and> list_all canonical_id (pi_grants (rv_identity p)) \<and>
     length (rv_checksum p) = 64 \<and> list_all is_hex (rv_checksum p)"

datatype reviewed_refusal = NotAPlan | PlanModified | OtherPlan string string

definition reviewedPlan ::
  "(plan_identity \<Rightarrow> string) \<Rightarrow> reviewed option \<Rightarrow> string \<Rightarrow> reviewed_refusal + reviewed" where
  "reviewedPlan digest value confirmed =
     (case value of
        None \<Rightarrow> Inl NotAPlan
      | Some plan \<Rightarrow>
          if \<not> reviewed_shape plan then Inl NotAPlan
          else if planChecksum digest (rv_identity plan) \<noteq> rv_checksum plan then Inl PlanModified
          else if rv_checksum plan \<noteq> confirmed then Inl (OtherPlan (rv_checksum plan) confirmed)
          else Inr (plan\<lparr>rv_identity :=
                 (rv_identity plan)\<lparr>pi_grants := sortIds (pi_grants (rv_identity plan))\<rparr>\<rparr>))"

record plan_difference =
  df_added :: "ident list"
  df_removed :: "ident list"
  df_guild :: bool
  df_import :: bool
  df_roster :: bool

definition planDifference :: "plan_identity \<Rightarrow> plan_identity \<Rightarrow> plan_difference" where
  "planDifference reviewed current =
     (let before = js_set (pi_grants reviewed); after = js_set (pi_grants current)
      in \<lparr>df_added = sortIds (filter (\<lambda>u. u \<notin> set before) after),
          df_removed = sortIds (filter (\<lambda>u. u \<notin> set after) before),
          df_guild = (pi_guild reviewed \<noteq> pi_guild current),
          df_import = (pi_import reviewed \<noteq> pi_import current),
          df_roster = (pi_roster reviewed \<noteq> pi_roster current)\<rparr>)"

section \<open>Properties\<close>

lemma set_sortIds [simp]: "set (sortIds ids) = set ids"
  by (simp add: sortIds_def)

lemma sorted_sortIds: "sorted_wrt (\<lambda>a b. compareIds a b \<le> 0) (sortIds ids)"
  unfolding sortIds_def by (rule compareIds.sorted_sort_by)

lemma sortIds_idem: "sortIds (sortIds ids) = sortIds ids"
  unfolding sortIds_def by (rule compareIds.sort_by_idem)

lemma sortIds_cong: "mset xs = mset ys \<Longrightarrow> sortIds xs = sortIds ys"
  unfolding sortIds_def by (rule compareIds.sort_by_cong_mset)

lemma sortIds_sorted: "sorted_wrt (\<lambda>a b. compareIds a b \<le> 0) ids \<Longrightarrow> sortIds ids = ids"
  unfolding sortIds_def by (rule compareIds.sort_by_sorted)

lemma assembled_grants_sorted:
  "sortIds (pi_grants (gp_identity (assemblePlan digest p))) = pi_grants (gp_identity (assemblePlan digest p))"
proof (rule sortIds_sorted)
  have "sorted_wrt (\<lambda>l r. compareIds (gc_user l) (gc_user r) \<le> 0)
      (sort_by (\<lambda>l r. compareIds (gc_user l) (gc_user r)) (in_candidates p))"
    by (rule comparator.sorted_sort_by [OF compareIds.keyed])
  then show "sorted_wrt (\<lambda>a b. compareIds a b \<le> 0) (pi_grants (gp_identity (assemblePlan digest p)))"
    by (simp add: assemblePlan_def Let_def sorted_wrt_map sorted_wrt_filter)
qed

text \<open>
  Nobody loses access to grandfathering: a classified human who is not revoked ends, once the
  planned grant exists, with the Member or the Guest role, and a grant never changes whether they
  are owed Member.
\<close>

theorem grandfathering_keeps_access:
  assumes "grandfatherBasis f = Inr b"
  shows "let after = desiredAccess (if b = BasisGrant then f\<lparr>af_grant := True\<rparr> else f)
         in want_member after = want_member (desiredAccess f) \<and>
            (b = BasisRevoked \<or> want_member after \<or> want_guest after)"
  using assms
  by (cases "af_membership f") (auto simp: grandfatherBasis_def desiredAccess_def Let_def split: if_splits)

theorem grandfathering_keeps_access_witness:
  "let f = \<lparr>af_membership = Ineligible, af_fresh = True, af_former = False, af_grant = False,
            af_revoked = False, af_has_member = True, af_has_guest = False, af_verified = None\<rparr>;
       after = desiredAccess (if BasisGrant = BasisGrant then f\<lparr>af_grant := True\<rparr> else f)
   in want_member after = want_member (desiredAccess f) \<and>
      (BasisGrant = BasisRevoked \<or> want_member after \<or> want_guest after)"
  unfolding Let_def
  by (rule grandfathering_keeps_access [unfolded Let_def]) (simp add: grandfatherBasis_def)

text \<open>
  Canonical Discord IDs sort by their numeric value.
\<close>

theorem sortIds_numeric:
  assumes "list_all canonical_id ids"
  shows "sorted (map (\<lambda>i. big_int (units i)) (sortIds ids)) \<and> mset (sortIds ids) = mset ids"
proof -
  have "sorted_wrt (\<lambda>a b. compareIds a b \<le> 0) (sortIds ids)" by (rule sorted_sortIds)
  then have "sorted_wrt (\<lambda>a b. big_int (units a) \<le> big_int (units b)) (sortIds ids)"
    by (rule sorted_wrt_mono_rel [rotated])
      (use assms compareIds_numeric_le in \<open>auto simp: list_all_iff\<close>)
  then show ?thesis by (simp add: sorted_map) (simp add: sortIds_def)
qed

theorem sortIds_numeric_witness:
  "sorted (map (\<lambda>i. big_int (units i)) (sortIds [''100'', ''99''])) \<and>
     mset (sortIds [''100'', ''99'']) = mset [''100'', ''99'']"
  by (rule sortIds_numeric)
    (simp add: canonical_id_def idSchema_def units_def is_nonzero_digit_def is_digit_def big_int_def
      MAX_ID_def)

text \<open>
  The plan does not depend on the order of enumeration: the same humans in any order give the
  same plan with the same checksum, and a plan file that an operator confirmed by that checksum has
  exactly the plan's identity, provided the hash has no second preimage of it; so nothing is left
  to review.
\<close>

theorem confirmed_plan_is_the_plan:
  assumes "distinct (map gc_user (in_candidates p))"
    and "mset (in_candidates q) = mset (in_candidates p)" "q\<lparr>in_candidates := []\<rparr> = p\<lparr>in_candidates := []\<rparr>"
    and "\<And>i. digest i = digest (gp_identity (assemblePlan digest p)) \<Longrightarrow>
              i = gp_identity (assemblePlan digest p)"
    and "reviewedPlan digest file (gp_checksum (assemblePlan digest p)) = Inr r"
  shows "assemblePlan digest q = assemblePlan digest p \<and>
    rv_identity r = gp_identity (assemblePlan digest q) \<and>
    planDifference (rv_identity r) (gp_identity (assemblePlan digest q)) =
      \<lparr>df_added = [], df_removed = [], df_guild = False, df_import = False, df_roster = False\<rparr>"
proof -
  let ?plan = "assemblePlan digest p"
  have "sort_by (\<lambda>l r. compareIds (gc_user l) (gc_user r)) (in_candidates q) =
      sort_by (\<lambda>l r. compareIds (gc_user l) (gc_user r)) (in_candidates p)"
    by (rule compareIds.sort_by_distinct_key [symmetric]) (use assms(1,2) in auto)
  moreover have "in_guild q = in_guild p" "in_import q = in_import p" "in_roster q = in_roster p"
    "in_guestRole q = in_guestRole p" "in_enumeratedAt q = in_enumeratedAt p"
    "in_rosterObservedAt q = in_rosterObservedAt p" "in_bots q = in_bots p"
    using assms(3) by (metis plan_input.select_convs plan_input.surjective plan_input.update_convs(8))+
  ultimately have same: "assemblePlan digest q = ?plan"
    by (simp add: assemblePlan_def Let_def)
  obtain i c where plan_file: "file = Some \<lparr>rv_identity = i, rv_checksum = c\<rparr>"
    using assms(5) by (cases "file") (auto simp: reviewedPlan_def intro: reviewed.cases)
  have check: "planChecksum digest i = gp_checksum ?plan"
    and r: "rv_identity r = i\<lparr>pi_grants := sortIds (pi_grants i)\<rparr>"
    using assms(5) by (auto simp: reviewedPlan_def plan_file split: if_splits)
  have "gp_checksum ?plan = planChecksum digest (gp_identity ?plan)"
    by (simp add: assemblePlan_def Let_def)
  also have "\<dots> = digest (gp_identity ?plan)"
    unfolding planChecksum_def assembled_grants_sorted by simp
  finally have "digest (i\<lparr>pi_grants := sortIds (pi_grants i)\<rparr>) = digest (gp_identity ?plan)"
    using check by (simp add: planChecksum_def)
  then have id: "rv_identity r = gp_identity ?plan" unfolding r by (rule assms(4))
  show ?thesis unfolding same id by (simp add: planDifference_def Let_def sortIds_def)
qed

theorem confirmed_plan_is_the_plan_witness:
  "let c = (\<lambda>u. \<lparr>gc_user = u, gc_basis = BasisGrant, gc_membership = Ineligible, gc_former = False,
             gc_registered = False, gc_heldMember = False, gc_heldGuest = False,
             gc_newSinceImport = False, gc_joinedAt = 0, gc_provenance = [],
             gc_projected = \<lparr>want_member = False, want_guest = True\<rparr>\<rparr>);
       p = (\<lambda>cs. \<lparr>in_guild = ''1'', in_import = None, in_roster = None, in_guestRole = None,
             in_enumeratedAt = 0, in_rosterObservedAt = None, in_bots = 0, in_candidates = cs\<rparr>);
       i = \<lparr>pi_guild = ''1'', pi_import = None, pi_roster = None, pi_grants = [''8'', ''9'']\<rparr>;
       digest = (\<lambda>j. if j = i then replicate 64 (CHR ''a'') else [])
   in assemblePlan digest (p [c ''9'', c ''8'']) = assemblePlan digest (p [c ''8'', c ''9''])"
proof -
  let ?c = "\<lambda>u. \<lparr>gc_user = u, gc_basis = BasisGrant, gc_membership = Ineligible, gc_former = False,
             gc_registered = False, gc_heldMember = False, gc_heldGuest = False,
             gc_newSinceImport = False, gc_joinedAt = 0, gc_provenance = [],
             gc_projected = \<lparr>want_member = False, want_guest = True\<rparr>\<rparr>"
  let ?p = "\<lambda>cs. \<lparr>in_guild = ''1'', in_import = None, in_roster = None, in_guestRole = None,
             in_enumeratedAt = 0, in_rosterObservedAt = None, in_bots = 0, in_candidates = cs\<rparr>"
  let ?i = "\<lparr>pi_guild = ''1'', pi_import = None, pi_roster = None, pi_grants = [''8'', ''9'']\<rparr>"
  let ?d = "\<lambda>j. if j = ?i then replicate 64 (CHR ''a'') else []"
  have id: "gp_identity (assemblePlan ?d (?p [?c ''8'', ?c ''9''])) = ?i"
    by (simp add: assemblePlan_def Let_def compareIds_def)
  have sort: "sortIds [''8'', ''9''] = [''8'', ''9'']" by (simp add: sortIds_def compareIds_def)
  have sum: "gp_checksum (assemblePlan ?d (?p [?c ''8'', ?c ''9''])) = replicate 64 (CHR ''a'')"
    by (simp add: assemblePlan_def Let_def compareIds_def planChecksum_def sort)
  have "canonical_id ''1''" "canonical_id ''8''" "canonical_id ''9''"
    by (simp_all add: canonical_id_def idSchema_def units_def is_nonzero_digit_def big_int_def MAX_ID_def)
  then have "reviewedPlan ?d (Some \<lparr>rv_identity = ?i, rv_checksum = replicate 64 (CHR ''a'')\<rparr>)
      (gp_checksum (assemblePlan ?d (?p [?c ''8'', ?c ''9'']))) =
      Inr \<lparr>rv_identity = ?i, rv_checksum = replicate 64 (CHR ''a'')\<rparr>"
    unfolding sum
    by (simp add: reviewedPlan_def reviewed_shape_def planChecksum_def sort is_hex_def list_all_iff)
  then show ?thesis
    unfolding Let_def
    by (intro confirmed_plan_is_the_plan [THEN conjunct1, of "?p [?c ''8'', ?c ''9'']" _ ?d])
      (auto simp: id split: if_splits)
qed

end
