(* ===== verification/Uptime.thy ===== *)
theory Uptime
  imports Values
begin

text \<open>
  The public status page's rules, \<open>src/domain/uptime.ts\<close>: the headline, the five-minute sample
  buckets, the daily history, its bands and its text. Instants are epoch milliseconds, and a UTC day
  is its number (\<open>utcDay\<close> prints it as YYYY-MM-DD, one text per day).

  The lemmas show that a day expects exactly its buckets from the first sample to the last one
  counted, so never more than 288, and that an uptime below 100% never reads as 100%.
\<close>

section \<open>Components and the headline\<close>

definition SAMPLE_INTERVAL_MS :: int where
  "SAMPLE_INTERVAL_MS = 5 * 60000"

definition DAY_MS :: int where
  "DAY_MS = 86400000"

definition SAMPLES_PER_DAY :: int where
  "SAMPLES_PER_DAY = DAY_MS div SAMPLE_INTERVAL_MS"

definition HISTORY_DAYS :: nat where
  "HISTORY_DAYS = 90"

datatype lodestone_state = LodestoneAvailable | LodestoneCooling | LodestoneUnreachable

datatype changes_state = ChangesLive | ChangesPaused

record status_components =
  sc_discord :: bool
  sc_database :: bool
  sc_lodestone :: lodestone_state
  sc_changes :: changes_state

datatype overall_status = Operational | Degraded | Down

definition overallStatus :: "bool \<Rightarrow> status_components \<Rightarrow> overall_status" where
  "overallStatus ready c =
     (if \<not> ready \<or> \<not> sc_discord c \<or> \<not> sc_database c then Down
      else if sc_lodestone c = LodestoneUnreachable then Degraded
      else Operational)"

section \<open>The history\<close>

definition sampleBucket :: "int \<Rightarrow> int" where
  "sampleBucket at = (at div SAMPLE_INTERVAL_MS) * SAMPLE_INTERVAL_MS"

definition dayStart :: "int \<Rightarrow> int" where
  "dayStart at = (at div DAY_MS) * DAY_MS"

definition utcDay :: "int \<Rightarrow> int" where
  "utcDay at = at div DAY_MS"

record sample_count =
  sa_day :: int
  sa_version :: string
  sa_ready :: int
  sa_first :: int

record uptime_day =
  ud_day :: int
  ud_ready :: int
  ud_expected :: int
  ud_versions :: "string list"

record uptime_history =
  uh_days :: "uptime_day list"
  uh_asOf :: int

text \<open>One day of the loop. With no first sample \<open>start\<close> is infinite, so nothing is expected.\<close>

definition uptime_day_of :: "sample_count list \<Rightarrow> int option \<Rightarrow> int \<Rightarrow> int \<Rightarrow> uptime_day" where
  "uptime_day_of counts first stop from =
     (let day = utcDay from;
          until = min (from + DAY_MS) stop;
          expected =
            (case first of
               None \<Rightarrow> 0
             | Some f \<Rightarrow>
                 let counted = max from (sampleBucket f)
                 in if until > counted then (until - counted) div SAMPLE_INTERVAL_MS else 0);
          groups = sort_by (by_key sa_first) (filter (\<lambda>c. sa_day c = day) counts);
          ready = sum_list (map sa_ready groups)
      in \<lparr>ud_day = day, ud_ready = min ready expected, ud_expected = expected,
          ud_versions = (if expected = 0 then [] else js_set (map sa_version groups))\<rparr>)"

definition uptimeHistory :: "sample_count list \<Rightarrow> int option \<Rightarrow> int \<Rightarrow> nat \<Rightarrow> uptime_history" where
  "uptimeHistory counts first latest days =
     (let stop = sampleBucket latest + SAMPLE_INTERVAL_MS;
          today = dayStart (stop - SAMPLE_INTERVAL_MS)
      in \<lparr>uh_days = map (\<lambda>index. uptime_day_of counts first stop (today - int index * DAY_MS))
                      (rev [0..<days]),
          uh_asOf = stop - SAMPLE_INTERVAL_MS\<rparr>)"

section \<open>Bands and text\<close>

datatype uptime_band = BandFull | BandHigh | BandMid | BandLow | BandNone

text \<open>The quotients compared are of at most 288 samples, so a double decides them exactly.\<close>

definition uptimeBand :: "int \<Rightarrow> int \<Rightarrow> uptime_band" where
  "uptimeBand ready expected =
     (if expected = 0 then BandNone
      else if ready = expected then BandFull
      else if ready * 100 \<ge> 99 * expected then BandHigh
      else if ready * 100 \<ge> 95 * expected then BandMid
      else BandLow)"

definition pad2 :: "text16 \<Rightarrow> text16" where
  "pad2 t = replicate (2 - length t) 48 @ t"

definition hundredths :: "nat \<Rightarrow> nat \<Rightarrow> nat" where
  "hundredths ready expected = ready * 10000 div expected"

definition uptimePercent :: "nat \<Rightarrow> nat \<Rightarrow> text16 option" where
  "uptimePercent ready expected =
     (if expected = 0 then None
      else if ready \<ge> expected then Some (units ''100%'')
      else
        let h = hundredths ready expected
        in Some (decimal (h div 100) @ units ''.'' @ pad2 (decimal (h mod 100)) @ units ''%''))"

record uptime_summary =
  us_ready :: int
  us_expected :: int
  us_daysWithData :: nat
  us_since :: "int option"
  us_daysDown :: nat

definition uptimeSummary :: "uptime_history \<Rightarrow> uptime_summary" where
  "uptimeSummary h =
     (let counted = filter (\<lambda>d. ud_expected d > 0) (uh_days h)
      in \<lparr>us_ready = sum_list (map ud_ready counted),
          us_expected = sum_list (map ud_expected counted),
          us_daysWithData = length counted,
          us_since = (case counted of [] \<Rightarrow> None | d # _ \<Rightarrow> Some (ud_day d)),
          us_daysDown = length (filter (\<lambda>d. ud_ready d < ud_expected d) counted)\<rparr>)"

definition downtimeText :: "nat \<Rightarrow> text16" where
  "downtimeText missed =
     (let minutes = missed * 5; hours = minutes div 60; rest = minutes mod 60
      in if hours = 0 then decimal rest @ units '' min''
         else if rest = 0 then decimal hours @ units '' h''
         else decimal hours @ units '' h '' @ decimal rest @ units '' min'')"

section \<open>Buckets\<close>

lemma interval_pos: "0 < SAMPLE_INTERVAL_MS"
  by (simp add: SAMPLE_INTERVAL_MS_def)

lemma day_intervals: "DAY_MS = 288 * SAMPLE_INTERVAL_MS"
  by (simp add: DAY_MS_def SAMPLE_INTERVAL_MS_def)

lemma samples_per_day: "SAMPLES_PER_DAY = 288"
  by (simp add: SAMPLES_PER_DAY_def DAY_MS_def SAMPLE_INTERVAL_MS_def)

lemma sampleBucket_mult: "\<exists>k. sampleBucket at = k * SAMPLE_INTERVAL_MS"
  by (auto simp: sampleBucket_def)

text \<open>The buckets a day has in a period are counted by dividing its length.\<close>

lemma card_buckets:
  assumes "0 < s"
  shows "int (card {k :: int. a * s \<le> k * s \<and> k * s < b * s}) = (if b > a then (b * s - a * s) div s else 0)"
proof -
  have "{k. a * s \<le> k * s \<and> k * s < b * s} = {a..<b}"
    using assms by auto
  moreover have "(b * s - a * s) div s = b - a"
    using assms by (metis left_diff_distrib nonzero_mult_div_cancel_right less_irrefl)
  ultimately show ?thesis by simp
qed

lemma expected_buckets:
  assumes "from = a * SAMPLE_INTERVAL_MS" "stop = b * SAMPLE_INTERVAL_MS"
  shows "ud_expected (uptime_day_of counts (Some f) stop from) =
    int (card {k :: int. from \<le> k * SAMPLE_INTERVAL_MS \<and> k * SAMPLE_INTERVAL_MS < from + DAY_MS \<and>
                 sampleBucket f \<le> k * SAMPLE_INTERVAL_MS \<and> k * SAMPLE_INTERVAL_MS < stop})"
proof -
  obtain c where c: "sampleBucket f = c * SAMPLE_INTERVAL_MS" using sampleBucket_mult by blast
  have day: "from + DAY_MS = (a + 288) * SAMPLE_INTERVAL_MS"
    by (simp add: assms(1) day_intervals distrib_right)
  have lower: "max from (sampleBucket f) = max a c * SAMPLE_INTERVAL_MS"
    using interval_pos by (auto simp: assms(1) c max_def)
  have upper: "min (from + DAY_MS) stop = min (a + 288) b * SAMPLE_INTERVAL_MS"
    using interval_pos by (auto simp: assms(2) day min_def)
  have "{k :: int. from \<le> k * SAMPLE_INTERVAL_MS \<and> k * SAMPLE_INTERVAL_MS < from + DAY_MS \<and>
           sampleBucket f \<le> k * SAMPLE_INTERVAL_MS \<and> k * SAMPLE_INTERVAL_MS < stop} =
    {k. max a c * SAMPLE_INTERVAL_MS \<le> k * SAMPLE_INTERVAL_MS \<and>
        k * SAMPLE_INTERVAL_MS < min (a + 288) b * SAMPLE_INTERVAL_MS}"
    unfolding lower [symmetric] upper [symmetric] by auto
  then have "int (card {k :: int. from \<le> k * SAMPLE_INTERVAL_MS \<and>
        k * SAMPLE_INTERVAL_MS < from + DAY_MS \<and>
        sampleBucket f \<le> k * SAMPLE_INTERVAL_MS \<and> k * SAMPLE_INTERVAL_MS < stop}) =
      (if max a c < min (a + 288) b
       then (min (a + 288) b * SAMPLE_INTERVAL_MS - max a c * SAMPLE_INTERVAL_MS) div SAMPLE_INTERVAL_MS
       else 0)"
    by (simp only: card_buckets [OF interval_pos])
  moreover have "max a c * SAMPLE_INTERVAL_MS < min (a + 288) b * SAMPLE_INTERVAL_MS \<longleftrightarrow>
      max a c < min (a + 288) b"
    using interval_pos by (simp only: mult_less_cancel_right_pos)
  ultimately show ?thesis
    by (simp only: uptime_day_of_def Let_def lower upper uptime_day.select_convs option.case)
qed

lemma expected_le_day:
  assumes "from = a * SAMPLE_INTERVAL_MS"
  shows "ud_expected (uptime_day_of counts first stop from) \<le> 288 \<and>
    0 \<le> ud_expected (uptime_day_of counts first stop from)"
proof (cases first)
  case (Some f)
  have "min (from + DAY_MS) stop - max from (sampleBucket f) \<le> 288 * SAMPLE_INTERVAL_MS"
    by (simp add: day_intervals [symmetric])
  then have "(min (from + DAY_MS) stop - max from (sampleBucket f)) div SAMPLE_INTERVAL_MS \<le> 288"
    using interval_pos by (metis mult.commute nonzero_mult_div_cancel_left zdiv_mono1 less_irrefl)
  then show ?thesis
    using Some interval_pos by (auto simp: uptime_day_of_def Let_def pos_imp_zdiv_nonneg_iff)
qed (simp add: uptime_day_of_def Let_def)

lemma bucket_end: "\<exists>b. sampleBucket latest + SAMPLE_INTERVAL_MS = b * SAMPLE_INTERVAL_MS"
  by (intro exI [of _ "latest div SAMPLE_INTERVAL_MS + 1"]) (simp add: sampleBucket_def distrib_right)

lemma day_bucket: "\<exists>a. dayStart at - int i * DAY_MS = a * SAMPLE_INTERVAL_MS"
  by (intro exI [of _ "(at div DAY_MS - int i) * 288"])
    (simp add: dayStart_def day_intervals algebra_simps)

section \<open>Properties\<close>

text \<open>
  The history has the days asked for, oldest first and ending with the day of the last bucket;
  each day expects exactly its five-minute buckets from the first sample's bucket to the last one
  counted, at most 288 of them, and reports at most as many ready.
\<close>

theorem uptimeHistory_counts_buckets:
  "let h = uptimeHistory counts first latest days; d = uh_days h ! i
   in length (uh_days h) = days \<and>
      (if i < days then
         ud_day d = utcDay (sampleBucket latest) - int (days - Suc i) \<and>
         0 \<le> ud_expected d \<and> ud_expected d \<le> SAMPLES_PER_DAY \<and> ud_ready d \<le> ud_expected d \<and>
         ud_expected d =
           (case first of
              None \<Rightarrow> 0
            | Some f \<Rightarrow> int (card {k :: int.
                utcDay (k * SAMPLE_INTERVAL_MS) = ud_day d \<and>
                sampleBucket f \<le> k * SAMPLE_INTERVAL_MS \<and>
                k * SAMPLE_INTERVAL_MS \<le> sampleBucket latest}))
       else True)"
proof (cases "i < days")
  case False
  then show ?thesis by (simp add: uptimeHistory_def Let_def)
next
  case True
  let ?h = "uptimeHistory counts first latest days"
  let ?stop = "sampleBucket latest + SAMPLE_INTERVAL_MS"
  let ?from = "dayStart (sampleBucket latest) - int (days - Suc i) * DAY_MS"
  have d: "uh_days ?h ! i = uptime_day_of counts first ?stop ?from"
    using True by (simp add: uptimeHistory_def Let_def rev_nth)
  obtain a where a: "?from = a * SAMPLE_INTERVAL_MS" using day_bucket by blast
  obtain b where b: "?stop = b * SAMPLE_INTERVAL_MS" using bucket_end by blast
  have day: "utcDay ?from = utcDay (sampleBucket latest) - int (days - Suc i)"
  proof -
    have "?from = (sampleBucket latest div DAY_MS - int (days - Suc i)) * DAY_MS"
      by (simp add: dayStart_def left_diff_distrib)
    then show ?thesis by (simp add: utcDay_def DAY_MS_def)
  qed
  have in_day: "?from \<le> x \<and> x < ?from + DAY_MS \<longleftrightarrow> utcDay x = utcDay ?from" for x
    by (auto simp: utcDay_def dayStart_def DAY_MS_def)
  have last: "k * SAMPLE_INTERVAL_MS < ?stop \<longleftrightarrow> k * SAMPLE_INTERVAL_MS \<le> sampleBucket latest" for k
  proof -
    obtain c where "sampleBucket latest = c * SAMPLE_INTERVAL_MS" using sampleBucket_mult by blast
    then show ?thesis using interval_pos by (simp add: SAMPLE_INTERVAL_MS_def) linarith
  qed
  let ?buckets = "\<lambda>f. {k :: int.
      utcDay (k * SAMPLE_INTERVAL_MS) = utcDay (sampleBucket latest) - int (days - Suc i) \<and>
      sampleBucket f \<le> k * SAMPLE_INTERVAL_MS \<and> k * SAMPLE_INTERVAL_MS \<le> sampleBucket latest}"
  have expected: "ud_expected (uptime_day_of counts first ?stop ?from) =
      (case first of None \<Rightarrow> 0 | Some f \<Rightarrow> int (card (?buckets f)))"
  proof (cases first)
    case (Some f)
    then show ?thesis
      using expected_buckets [OF a b, of counts f] unfolding last day [symmetric] in_day [symmetric]
      by (simp add: conj_assoc)
  qed (simp add: uptime_day_of_def Let_def)
  have dayno: "ud_day (uptime_day_of counts first ?stop ?from) =
      utcDay (sampleBucket latest) - int (days - Suc i)"
    unfolding day [symmetric] by (simp add: uptime_day_of_def Let_def)
  have ready: "ud_ready (uptime_day_of counts first ?stop ?from) \<le>
      ud_expected (uptime_day_of counts first ?stop ?from)"
    by (simp add: uptime_day_of_def Let_def)
  have len: "length (uh_days ?h) = days" by (simp add: uptimeHistory_def Let_def)
  show ?thesis
    unfolding Let_def d dayno samples_per_day if_P [OF True]
    using expected_le_day [OF a, of counts first ?stop] ready expected len by blast
qed

text \<open>
  Uptime text: it reads 100% exactly when nothing was missed; otherwise it is the uptime in
  hundredths of a percent rounded down, so it is below 100.00% and at most one hundredth below the
  exact value.
\<close>

theorem uptimePercent_rounds_down:
  assumes "0 < expected" "ready < expected"
  shows "hundredths ready expected < 10000 \<and>
    hundredths ready expected * expected \<le> ready * 10000 \<and>
    ready * 10000 < (hundredths ready expected + 1) * expected \<and>
    uptimePercent ready expected =
      Some (decimal (hundredths ready expected div 100) @ units ''.'' @
            pad2 (decimal (hundredths ready expected mod 100)) @ units ''%'') \<and>
    uptimePercent ready expected \<noteq> uptimePercent expected expected"
proof -
  have lt: "hundredths ready expected < 10000"
    unfolding hundredths_def using assms by (simp add: less_mult_imp_div_less)
  have "ready * 10000 = hundredths ready expected * expected + ready * 10000 mod expected"
    unfolding hundredths_def by simp
  moreover have "ready * 10000 mod expected < expected" using assms(1) by simp
  ultimately have bounds: "hundredths ready expected * expected \<le> ready * 10000"
    "ready * 10000 < (hundredths ready expected + 1) * expected"
    unfolding add_mult_distrib by linarith+
  have shown: "uptimePercent ready expected =
      Some (decimal (hundredths ready expected div 100) @ units ''.'' @
            pad2 (decimal (hundredths ready expected mod 100)) @ units ''%'')"
    using assms by (simp add: uptimePercent_def Let_def)
  have "(46::nat) \<notin> set (units ''100%'')" "46 \<in> set (x @ units ''.'' @ y)" for x y :: text16
    by (simp_all add: units_def)
  then have "x @ units ''.'' @ y \<noteq> units ''100%''" for x y :: text16 by metis
  then have "uptimePercent ready expected \<noteq> uptimePercent expected expected"
    unfolding shown using assms by (simp add: uptimePercent_def)
  with lt bounds shown show ?thesis by blast
qed

theorem uptimePercent_rounds_down_witness:
  "uptimePercent 287 288 \<noteq> uptimePercent 288 288"
  by (rule uptimePercent_rounds_down [THEN conjunct2, THEN conjunct2, THEN conjunct2, THEN conjunct2])
    simp_all

end
