(* ===== verification/RateLimits.thy ===== *)
theory RateLimits
  imports Failures
begin

text \<open>
  The web's in-memory limits, \<open>src/web/limits.ts\<close>: the fixed-window \<open>RateLimiter\<close>, its refusals, and
  the \<open>ExchangeGate\<close> around Discord's token exchange. The clock is an argument of each operation
  (the limiter reads it once per use); its reading is a whole number of the clock's unit, with
  \<open>1000\<close> of them to a second.

  The lemmas show that a limiter answers each key as if the key were alone (\<open>spec_take\<close>), how many
  uses any window-long interval can let through, that the gate never runs more exchanges than its
  cap, and that nothing starts while Discord's own limit is being waited out.
\<close>

section \<open>Refusals\<close>

definition POST_WINDOW_MS :: int where "POST_WINDOW_MS = 10 * 60000"
definition STATUS_LIMIT :: nat where "STATUS_LIMIT = 600"
definition STATUS_WINDOW_MS :: int where "STATUS_WINDOW_MS = 60000"
definition SIGN_IN_LIMIT :: nat where "SIGN_IN_LIMIT = 10"
definition SIGN_IN_WINDOW_MS :: int where "SIGN_IN_WINDOW_MS = 10 * 60000"
definition EXCHANGE_LIMIT :: nat where "EXCHANGE_LIMIT = 30"
definition EXCHANGE_WINDOW_MS :: int where "EXCHANGE_WINDOW_MS = 60000"
definition EXCHANGE_CONCURRENCY :: nat where "EXCHANGE_CONCURRENCY = 4"
definition EXCHANGE_BUSY_SECONDS :: int where "EXCHANGE_BUSY_SECONDS = 5"

definition refusal_after :: "failure_code \<Rightarrow> string \<Rightarrow> int \<Rightarrow> failure" where
  "refusal_after code m retryAfter = (mk_failure code (Literal m))\<lparr>f_retry_after := nat retryAfter\<rparr>"

definition overBudget :: "int \<Rightarrow> failure" where
  "overBudget = refusal_after F_rate_limited
     (''You'' @ [CHR 0x27] @ ''ve sent a lot of saves in a short time, so TaruBot didn'' @ [CHR 0x27] @ ''t take this one.'')"

definition statusBusy :: "int \<Rightarrow> failure" where
  "statusBusy = refusal_after F_rate_limited
     (''Lots of people are checking TaruBot'' @ [CHR 0x27] @ ''s status right now, so it didn'' @ [CHR 0x27] @ ''t answer this time.'')"

definition tooManySignIns :: "int \<Rightarrow> failure" where
  "tooManySignIns = refusal_after F_rate_limited
     (''That'' @ [CHR 0x27] @ ''s a lot of sign-ins in a short time, so TaruBot didn'' @ [CHR 0x27] @ ''t sign you in.'')"

definition signInsBusy :: "int \<Rightarrow> failure" where
  "signInsBusy retryAfter = refusal_after F_unavailable
     (''Lots of people are signing in right now, so TaruBot didn'' @ [CHR 0x27] @ ''t sign you in.'')
     (max 1 retryAfter)"

section \<open>The limiter\<close>

record limiter_window =
  w_start :: int
  w_count :: nat

text \<open>The \<open>Map\<close> of windows in insertion order, oldest first.\<close>

type_synonym windows = "(string \<times> limiter_window) list"

definition ceil_div :: "int \<Rightarrow> int \<Rightarrow> int" where
  "ceil_div a b = - ((- a) div b)"

definition prune :: "int \<Rightarrow> int \<Rightarrow> windows \<Rightarrow> windows" where
  "prune windowMs now ws = dropWhile (\<lambda>(_, w). \<not> now - w_start w < windowMs) ws"

definition take_use :: "nat \<Rightarrow> int \<Rightarrow> int \<Rightarrow> string \<Rightarrow> windows \<Rightarrow> int \<times> windows" where
  "take_use limit windowMs now key ws0 =
     (let ws = prune windowMs now ws0; fresh = AList.delete key ws @ [(key, \<lparr>w_start = now, w_count = 1\<rparr>)]
      in case map_of ws key of
           None \<Rightarrow> (0, fresh)
         | Some w \<Rightarrow>
             if now - w_start w \<ge> windowMs then (0, fresh)
             else if w_count w < limit then (0, AList.update key (w\<lparr>w_count := w_count w + 1\<rparr>) ws)
             else (max 1 (ceil_div (w_start w + windowMs - now) 1000), ws))"

text \<open>The limiter's constructor refuses a limit or window that is not positive.\<close>

definition limiter_ok :: "nat \<Rightarrow> int \<Rightarrow> bool" where
  "limiter_ok limit windowMs \<longleftrightarrow> 1 \<le> limit \<and> 1 \<le> windowMs"

text \<open>A run of uses, each at its time, with its answer.\<close>

fun take_run :: "nat \<Rightarrow> int \<Rightarrow> (int \<times> string) list \<Rightarrow> windows \<Rightarrow> int list" where
  "take_run limit windowMs [] ws = []"
| "take_run limit windowMs ((now, key) # uses) ws =
     (let (r, ws') = take_use limit windowMs now key ws in r # take_run limit windowMs uses ws')"

section \<open>One key alone\<close>

text \<open>What the limiter promises a key: its own window, untouched by pruning and by other keys.\<close>

definition spec_take :: "nat \<Rightarrow> int \<Rightarrow> int \<Rightarrow> limiter_window option \<Rightarrow> int \<times> limiter_window" where
  "spec_take limit windowMs now w =
     (case w of
        None \<Rightarrow> (0, \<lparr>w_start = now, w_count = 1\<rparr>)
      | Some w \<Rightarrow>
          if now - w_start w \<ge> windowMs then (0, \<lparr>w_start = now, w_count = 1\<rparr>)
          else if w_count w < limit then (0, w\<lparr>w_count := w_count w + 1\<rparr>)
          else (max 1 (ceil_div (w_start w + windowMs - now) 1000), w))"

fun spec_run :: "nat \<Rightarrow> int \<Rightarrow> int list \<Rightarrow> limiter_window option \<Rightarrow> int list" where
  "spec_run limit windowMs [] w = []"
| "spec_run limit windowMs (now # nows) w =
     (let (r, w') = spec_take limit windowMs now w in r # spec_run limit windowMs nows (Some w'))"

text \<open>A stored window and the promised one agree, or the promised one has ended.\<close>

definition agrees :: "int \<Rightarrow> int \<Rightarrow> limiter_window option \<Rightarrow> limiter_window option \<Rightarrow> bool" where
  "agrees windowMs now stored w \<longleftrightarrow>
     stored = w \<or> (stored = None \<and> (\<forall>x. w = Some x \<longrightarrow> now - w_start x \<ge> windowMs))"

lemma agrees_later: "agrees W now stored w \<Longrightarrow> now \<le> now' \<Longrightarrow> agrees W now' stored w"
  by (auto simp: agrees_def)

lemma prune_distinct: "distinct (map fst ws) \<Longrightarrow> distinct (map fst (prune W now ws))"
  unfolding prune_def by (induction ws) auto

lemma prune_agrees:
  assumes "distinct (map fst ws)" "agrees W now (map_of ws k) w"
  shows "agrees W now (map_of (prune W now ws) k) w"
  using assms
proof (induction ws)
  case (Cons x ws)
  obtain j u where x: "x = (j, u)" by force
  show ?case
  proof (cases "now - w_start u < W")
    case True
    with Cons.prems x show ?thesis by (simp add: prune_def)
  next
    case False
    have "agrees W now (map_of ws k) w"
    proof (cases "j = k")
      case True
      with Cons.prems x have "map_of ws k = None" by (simp add: map_of_eq_None_iff)
      with Cons.prems x True False show ?thesis by (auto simp: agrees_def)
    next
      case False
      with Cons.prems x show ?thesis by simp
    qed
    with Cons.IH Cons.prems x False show ?thesis by (simp add: prune_def)
  qed
qed (simp add: prune_def)

lemma take_use_spec:
  assumes "distinct (map fst ws)" "agrees W now (map_of ws key) w"
  shows "fst (take_use L W now key ws) = fst (spec_take L W now w)"
    and "agrees W now (map_of (snd (take_use L W now key ws)) key) (Some (snd (spec_take L W now w)))"
    and "distinct (map fst (snd (take_use L W now key ws)))"
    and "agrees W now (map_of ws j) v \<Longrightarrow> j \<noteq> key \<Longrightarrow>
           agrees W now (map_of (snd (take_use L W now key ws)) j) v"
proof -
  let ?ws = "prune W now ws"
  have d: "distinct (map fst ?ws)" using assms(1) by (rule prune_distinct)
  have a: "agrees W now (map_of ?ws key) w" using assms by (rule prune_agrees)
  have fresh: "map_of (AList.delete key ?ws @ [(key, u)]) i = (if i = key then Some u else map_of ?ws i)" for u i
    by (auto simp: delete_conv' map_add_def split: option.split)
  have dfresh: "distinct (map fst (AList.delete key ?ws @ [(key, u)]))" for u
    using d by (simp add: AList.delete_keys distinct_removeAll)
  show "fst (take_use L W now key ws) = fst (spec_take L W now w)"
    using a by (auto simp: take_use_def spec_take_def Let_def agrees_def split: option.split)
  show "agrees W now (map_of (snd (take_use L W now key ws)) key) (Some (snd (spec_take L W now w)))"
    using a fresh by (auto simp: take_use_def spec_take_def Let_def agrees_def update_conv' split: option.splits)
  show "distinct (map fst (snd (take_use L W now key ws)))"
    using d dfresh by (auto simp: take_use_def Let_def distinct_update split: option.split)
  show "agrees W now (map_of ws j) v \<Longrightarrow> j \<noteq> key \<Longrightarrow>
      agrees W now (map_of (snd (take_use L W now key ws)) j) v"
    using prune_agrees [OF assms(1)] fresh
    by (auto simp: take_use_def Let_def update_conv' split: option.split)
qed

lemma take_run_spec:
  assumes "distinct (map fst ws)" "sorted (map fst uses)"
    and "\<And>now. now \<in> fst ` set uses \<Longrightarrow> agrees W now (map_of ws key) w"
  shows "map snd (filter (\<lambda>((_, k), _). k = key) (zip uses (take_run L W uses ws))) =
     spec_run L W (map fst (filter (\<lambda>(_, k). k = key) uses)) w"
  using assms
proof (induction uses arbitrary: ws w)
  case (Cons u uses)
  obtain now k where u: "u = (now, k)" by force
  have later: "now \<le> now'" if "now' \<in> fst ` set uses" for now'
    using Cons.prems(2) that by (auto simp: u)
  have a: "agrees W now (map_of ws key) w" using Cons.prems(3) by (simp add: u)
  obtain r ws' where t: "take_use L W now k ws = (r, ws')" by force
  show ?case
  proof (cases "k = key")
    case True
    note step = take_use_spec(1-3) [OF Cons.prems(1) a, where L = L]
    obtain w' where s: "spec_take L W now w = (r, w')"
      using step(1) t True by (metis fst_conv prod.collapse)
    have "map snd (filter (\<lambda>((_, k), _). k = key) (zip uses (take_run L W uses ws'))) =
        spec_run L W (map fst (filter (\<lambda>(_, k). k = key) uses)) (Some w')"
    proof (rule Cons.IH)
      show "distinct (map fst ws')" using step(3) t True by simp
      show "sorted (map fst uses)" using Cons.prems(2) by (simp add: u)
      show "agrees W now' (map_of ws' key) (Some w')" if "now' \<in> fst ` set uses" for now'
        using step(2) t s True later [OF that] by (auto intro: agrees_later)
    qed
    then show ?thesis using t True by (simp add: u s)
  next
    case False
    have k: "agrees W now (map_of ws k) (map_of ws k)" by (simp add: agrees_def)
    note step = take_use_spec(3,4) [OF Cons.prems(1) k, where L = L]
    have "map snd (filter (\<lambda>((_, k), _). k = key) (zip uses (take_run L W uses ws'))) =
        spec_run L W (map fst (filter (\<lambda>(_, k). k = key) uses)) w"
    proof (rule Cons.IH)
      show "distinct (map fst ws')" using step(1) t by simp
      show "sorted (map fst uses)" using Cons.prems(2) by (simp add: u)
      show "agrees W now' (map_of ws' key) w" if "now' \<in> fst ` set uses" for now'
        using step(2) [OF a] t False later [OF that] by (auto intro: agrees_later)
    qed
    then show ?thesis using t False by (simp add: u)
  qed
qed simp

section \<open>How much an interval lets through\<close>

definition allowed_in :: "int \<Rightarrow> int \<Rightarrow> (int \<times> int) list \<Rightarrow> nat" where
  "allowed_in a b answers = length (filter (\<lambda>(t, r). r = 0 \<and> a \<le> t \<and> t < b) answers)"

lemma allowed_in_Nil [simp]: "allowed_in a b [] = 0"
  by (simp add: allowed_in_def)

lemma allowed_in_Cons:
  "allowed_in a b ((t, r) # answers) =
     (if r = 0 \<and> a \<le> t \<and> t < b then 1 else 0) + allowed_in a b answers"
  by (simp add: allowed_in_def)

lemma allowed_in_later: "\<forall>t \<in> fst ` set answers. b \<le> t \<Longrightarrow> allowed_in a b answers = 0"
  by (force simp: allowed_in_def filter_empty_conv)

lemma spec_run_bound:
  assumes "sorted ts" "\<forall>t \<in> set ts. w_start w \<le> t" "w_count w \<le> L" "1 \<le> L" "0 < W"
  shows "(a \<le> w_start w \<longrightarrow> allowed_in a (a + W) (zip ts (spec_run L W ts (Some w))) \<le> L - w_count w) \<and>
    (a < w_start w + W \<longrightarrow> allowed_in a (a + W) (zip ts (spec_run L W ts (Some w))) \<le> 2 * L - w_count w) \<and>
    allowed_in a (a + W) (zip ts (spec_run L W ts (Some w))) \<le> 2 * L"
  using assms
proof (induction ts arbitrary: w)
  case (Cons t ts)
  have later: "\<forall>x \<in> set ts. t \<le> x" "sorted ts" using Cons.prems(1) by auto
  have none: "allowed_in a (a + W) (zip ts rs) = 0" if "a + W \<le> t" for rs
    using later that by (intro allowed_in_later) (fastforce dest: set_zip_leftD)
  have t: "w_start w \<le> t" using Cons.prems(2) by simp
  consider "t - w_start w \<ge> W" | "t - w_start w < W" "w_count w < L" | "t - w_start w < W" "\<not> w_count w < L"
    by linarith
  then show ?case
  proof cases
    case 1
    let ?n = "\<lparr>w_start = t, w_count = 1\<rparr>"
    have "(a \<le> t \<longrightarrow> allowed_in a (a + W) (zip ts (spec_run L W ts (Some ?n))) \<le> L - 1) \<and>
      (a < t + W \<longrightarrow> allowed_in a (a + W) (zip ts (spec_run L W ts (Some ?n))) \<le> 2 * L - 1) \<and>
      allowed_in a (a + W) (zip ts (spec_run L W ts (Some ?n))) \<le> 2 * L"
      using Cons.IH [of ?n] later Cons.prems(4,5) by simp
    then show ?thesis
      using 1 t Cons.prems(3,4) none [of "spec_run L W ts (Some ?n)"]
      by (auto simp: spec_take_def allowed_in_Cons)
  next
    case 2
    let ?n = "w\<lparr>w_count := w_count w + 1\<rparr>"
    have "(a \<le> w_start w \<longrightarrow> allowed_in a (a + W) (zip ts (spec_run L W ts (Some ?n))) \<le> L - (w_count w + 1)) \<and>
      (a < w_start w + W \<longrightarrow> allowed_in a (a + W) (zip ts (spec_run L W ts (Some ?n))) \<le> 2 * L - (w_count w + 1)) \<and>
      allowed_in a (a + W) (zip ts (spec_run L W ts (Some ?n))) \<le> 2 * L"
      using Cons.IH [of ?n] later Cons.prems 2 t by simp
    then show ?thesis
      using 2 t Cons.prems(3,4) by (auto simp: spec_take_def allowed_in_Cons)
  next
    case 3
    have "(a \<le> w_start w \<longrightarrow> allowed_in a (a + W) (zip ts (spec_run L W ts (Some w))) \<le> L - w_count w) \<and>
      (a < w_start w + W \<longrightarrow> allowed_in a (a + W) (zip ts (spec_run L W ts (Some w))) \<le> 2 * L - w_count w) \<and>
      allowed_in a (a + W) (zip ts (spec_run L W ts (Some w))) \<le> 2 * L"
      using Cons.IH [of w] later Cons.prems t by simp
    then show ?thesis
      using 3 by (auto simp: spec_take_def allowed_in_Cons)
  qed
qed simp

lemma spec_run_bound_fresh:
  assumes "sorted ts" "1 \<le> L" "0 < W"
  shows "allowed_in a (a + W) (zip ts (spec_run L W ts None)) \<le> 2 * L"
proof (cases ts)
  case (Cons t ts')
  let ?n = "\<lparr>w_start = t, w_count = 1\<rparr>"
  have b: "(a \<le> t \<longrightarrow> allowed_in a (a + W) (zip ts' (spec_run L W ts' (Some ?n))) \<le> L - 1) \<and>
      allowed_in a (a + W) (zip ts' (spec_run L W ts' (Some ?n))) \<le> 2 * L"
    using spec_run_bound [of ts' ?n L W a] assms Cons by simp
  then show ?thesis using assms(2) by (auto simp: Cons spec_take_def allowed_in_Cons)
qed simp

lemma ceil_div_covers: "0 < b \<Longrightarrow> a \<le> ceil_div a b * b"
proof -
  assume "0 < b"
  then have "((- a) div b) * b \<le> - a" by (metis minus_mod_eq_div_mult diff_ge_0_iff_ge minus_diff_eq pos_mod_sign add.commute diff_add_cancel le_add_same_cancel1 add_le_same_cancel1 minus_mult_div_eq_mod mult.commute)
  then show ?thesis by (simp add: ceil_div_def)
qed

lemma refused_use_window:
  assumes "take_use L W now key ws = (r, ws')" "0 < r"
  shows "\<exists>w. map_of ws' key = Some w \<and> w_start w + W \<le> now + r * 1000"
proof -
  obtain w where w: "map_of (prune W now ws) key = Some w" "\<not> now - w_start w \<ge> W"
    "r = max 1 (ceil_div (w_start w + W - now) 1000)" "ws' = prune W now ws"
    using assms by (auto simp: take_use_def Let_def split: option.splits if_splits)
  have "w_start w + W - now \<le> ceil_div (w_start w + W - now) 1000 * 1000"
    by (rule ceil_div_covers) simp
  also have "\<dots> \<le> r * 1000" using w(3) by simp
  finally show ?thesis using w by auto
qed

section \<open>The exchange gate\<close>

record exchange_gate =
  eg_rate :: windows
  eg_running :: nat
  eg_paused :: "int option"

definition gate_initial :: exchange_gate where
  "gate_initial = \<lparr>eg_rate = [], eg_running = 0, eg_paused = None\<rparr>"

record gate_options =
  go_limit :: nat
  go_windowMs :: int
  go_concurrency :: nat

definition default_gate_options :: gate_options where
  "default_gate_options =
     \<lparr>go_limit = EXCHANGE_LIMIT, go_windowMs = EXCHANGE_WINDOW_MS, go_concurrency = EXCHANGE_CONCURRENCY\<rparr>"

definition pausedFor :: "int \<Rightarrow> exchange_gate \<Rightarrow> int" where
  "pausedFor now g =
     (case eg_paused g of
        None \<Rightarrow> 0
      | Some until \<Rightarrow> if until - now > 0 then ceil_div (until - now) 1000 else 0)"

text \<open>\<open>run\<close> up to the call of \<open>exchange\<close>: a refusal, or one more exchange in flight.\<close>

definition run_begin :: "gate_options \<Rightarrow> int \<Rightarrow> exchange_gate \<Rightarrow> failure option \<times> exchange_gate" where
  "run_begin opts now g =
     (let paused = pausedFor now g
      in if paused > 0 then (Some (signInsBusy paused), g)
         else if eg_running g \<ge> go_concurrency opts then (Some (signInsBusy EXCHANGE_BUSY_SECONDS), g)
         else
           let (wait, rate) = take_use (go_limit opts) (go_windowMs opts) now ''exchange'' (eg_rate g)
           in if wait > 0 then (Some (signInsBusy wait), g\<lparr>eg_rate := rate\<rparr>)
              else (None, g\<lparr>eg_rate := rate, eg_running := eg_running g + 1\<rparr>))"

text \<open>How the exchange ended: it returned, threw a \<open>Failure\<close>, or threw anything else.\<close>

datatype exchange_outcome = Returned | ThrewFailure failure | ThrewOther

definition run_end :: "int \<Rightarrow> exchange_outcome \<Rightarrow> exchange_gate \<Rightarrow> exchange_gate" where
  "run_end now out g =
     (let g = (case out of
                 ThrewFailure f \<Rightarrow>
                   if f_code f = F_unavailable \<and> f_retry_after f > 0
                   then g\<lparr>eg_paused := Some (case eg_paused g of
                            None \<Rightarrow> now + int (f_retry_after f) * 1000
                          | Some p \<Rightarrow> max p (now + int (f_retry_after f) * 1000))\<rparr>
                   else g
               | _ \<Rightarrow> g)
      in g\<lparr>eg_running := eg_running g - 1\<rparr>)"

text \<open>Exchanges overlap: one begins, or one in flight ends.\<close>

datatype gate_event = Began int "failure option" | Ended int exchange_outcome

inductive gate_step :: "gate_options \<Rightarrow> exchange_gate \<Rightarrow> gate_event \<Rightarrow> exchange_gate \<Rightarrow> bool"
  for opts where
  begins: "run_begin opts now g = (r, g') \<Longrightarrow> gate_step opts g (Began now r) g'"
| ends: "0 < eg_running g \<Longrightarrow> gate_step opts g (Ended now out) (run_end now out g)"

inductive_cases beginsE: "gate_step opts g (Began now r) g'"
inductive_cases endsE: "gate_step opts g (Ended now out) g'"

inductive gate_steps :: "gate_options \<Rightarrow> exchange_gate \<Rightarrow> gate_event list \<Rightarrow> exchange_gate \<Rightarrow> bool"
  for opts where
  none: "gate_steps opts g [] g"
| more: "gate_steps opts g es g' \<Longrightarrow> gate_step opts g' e g'' \<Longrightarrow> gate_steps opts g (es @ [e]) g''"

lemma run_begin_cases:
  assumes "run_begin opts now g = (r, g')"
  shows "eg_paused g' = eg_paused g"
    and "eg_running g' = (if r = None then eg_running g + 1 else eg_running g)"
    and "r = None \<Longrightarrow> pausedFor now g \<le> 0 \<and> eg_running g < go_concurrency opts"
  using assms by (auto simp: run_begin_def Let_def split: prod.splits if_splits)

lemma run_end_select [simp]:
  "eg_running (run_end now out g) = eg_running g - 1"
  by (auto simp: run_end_def Let_def split: exchange_outcome.split)

definition paused_at_least :: "int \<Rightarrow> exchange_gate \<Rightarrow> bool" where
  "paused_at_least until g \<longleftrightarrow> (case eg_paused g of None \<Rightarrow> False | Some p \<Rightarrow> until \<le> p)"

lemma paused_at_least_step:
  "gate_step opts g e g' \<Longrightarrow> paused_at_least until g \<Longrightarrow> paused_at_least until g'"
  by (induction rule: gate_step.induct)
    (auto simp: paused_at_least_def run_begin_cases run_end_def Let_def
      split: exchange_outcome.splits option.splits)

lemma ceil_div_pos: "0 < a \<Longrightarrow> 0 < b \<Longrightarrow> 0 < ceil_div a b"
  using ceil_div_covers [of b a] by (smt (verit, best) mult_nonneg_nonneg mult_minus_left zero_less_mult_iff)

lemma not_admitted_while_paused:
  assumes "run_begin opts now g = (None, g')" "paused_at_least until g"
  shows "until \<le> now"
proof (rule ccontr)
  assume "\<not> until \<le> now"
  with assms(2) have "0 < pausedFor now g"
    by (auto simp: paused_at_least_def pausedFor_def intro: ceil_div_pos split: option.splits)
  with run_begin_cases(3) [OF assms(1)] show False by simp
qed

lemma gate_running:
  "gate_steps opts g es g' \<Longrightarrow>
     int (eg_running g') = int (eg_running g) + int (length (filter (\<lambda>e. \<exists>t. e = Began t None) es)) -
       int (length (filter (\<lambda>e. \<exists>t out. e = Ended t out) es))"
  by (induction rule: gate_steps.induct)
    (auto elim!: gate_step.cases dest: run_begin_cases(2) split: if_splits)

lemma gate_capped:
  "gate_steps opts g es g' \<Longrightarrow> eg_running g \<le> go_concurrency opts \<Longrightarrow> eg_running g' \<le> go_concurrency opts"
proof (induction rule: gate_steps.induct)
  case (more g es g' e g'')
  then have le: "eg_running g' \<le> go_concurrency opts" by simp
  from more.hyps(2) show ?case
  proof (cases rule: gate_step.cases)
    case (begins now r)
    then show ?thesis using le run_begin_cases(2,3) [OF begins(2)] by (cases r) auto
  next
    case (ends now out)
    then show ?thesis using le by simp
  qed
qed simp

lemma gate_pause_held:
  "gate_steps opts g es g' \<Longrightarrow> paused_at_least until g \<Longrightarrow>
     paused_at_least until g' \<and> (\<forall>t. Began t None \<in> set es \<longrightarrow> until \<le> t)"
proof (induction rule: gate_steps.induct)
  case (more g es g' e g'')
  then have ih: "paused_at_least until g'" "\<forall>t. Began t None \<in> set es \<longrightarrow> until \<le> t" by auto
  have "until \<le> t" if "e = Began t None" for t
    using more.hyps(2) that ih(1) by (auto elim!: beginsE intro: not_admitted_while_paused)
  with ih paused_at_least_step [OF more.hyps(2) ih(1)] show ?case by auto
qed simp

section \<open>Properties\<close>

text \<open>
  The limiter answers each key as if it were alone: over any run of uses at times that never
  go back, what it answers one key is what that key's own window, never pruned and untouched by
  other keys, answers the key's uses.
\<close>

theorem limiter_answers_each_key_alone:
  assumes "sorted (map fst uses)"
  shows "map snd (filter (\<lambda>((_, k), _). k = key) (zip uses (take_run limit windowMs uses []))) =
     spec_run limit windowMs (map fst (filter (\<lambda>(_, k). k = key) uses)) None"
  by (rule take_run_spec) (simp_all add: assms agrees_def)

theorem limiter_answers_each_key_alone_witness:
  "map snd (filter (\<lambda>((_, k), _). k = ''a'')
      (zip [(0::int, ''a''), (1::int, ''b''), (2::int, ''a'')] (take_run 1 60000 [(0::int, ''a''), (1::int, ''b''), (2::int, ''a'')] []))) =
     spec_run 1 60000 (map fst (filter (\<lambda>(_, k). k = ''a'') [(0::int, ''a''), (1::int, ''b''), (2::int, ''a'')])) None"
  by (rule limiter_answers_each_key_alone) simp

text \<open>
  However the uses of a key are spaced, at most twice the limit of them is let through in any
  interval as long as the window.
\<close>

theorem limiter_interval_bound:
  assumes "limiter_ok limit windowMs" "sorted (map fst uses)"
  shows "allowed_in a (a + windowMs)
      (zip (map fst (filter (\<lambda>(_, k). k = key) uses))
           (map snd (filter (\<lambda>((_, k), _). k = key) (zip uses (take_run limit windowMs uses []))))) \<le> 2 * limit"
proof -
  have run: "map snd (filter (\<lambda>((_, k), _). k = key) (zip uses (take_run limit windowMs uses []))) =
      spec_run limit windowMs (map fst (filter (\<lambda>(_, k). k = key) uses)) None"
    by (rule take_run_spec) (simp_all add: assms agrees_def)
  have "sorted (map fst (filter (\<lambda>(_, k). k = key) uses))"
    using assms(2) by (simp add: sorted_filter)
  then show ?thesis
    unfolding run using assms(1) by (intro spec_run_bound_fresh) (auto simp: limiter_ok_def)
qed

theorem limiter_interval_bound_witness:
  "allowed_in 5 (5 + 10) (zip (map fst (filter (\<lambda>(_, k). k = ''a'') [(0::int, ''a''), (9::int, ''a''), (10::int, ''a'')]))
     (map snd (filter (\<lambda>((_, k), _). k = ''a'')
        (zip [(0::int, ''a''), (9::int, ''a''), (10::int, ''a'')] (take_run 1 10 [(0::int, ''a''), (9::int, ''a''), (10::int, ''a'')] []))))) \<le> 2 * 1"
  by (rule limiter_interval_bound) (simp_all add: limiter_ok_def)

text \<open>
  Retry-After tells the truth: a client refused with \<open>r\<close> seconds that next uses its key after
  waiting them is let through.
\<close>

theorem limiter_retry_after:
  assumes "take_use limit windowMs now key ws = (r, ws')" "0 < r" "distinct (map fst ws)"
    and "now + r * 1000 \<le> later"
  shows "fst (take_use limit windowMs later key ws') = 0"
proof -
  obtain w where w: "map_of ws' key = Some w" "w_start w + windowMs \<le> now + r * 1000"
    using refused_use_window [OF assms(1,2)] by blast
  have d: "distinct (map fst ws')"
    using take_use_spec(3) [OF assms(3), of windowMs now key "map_of ws key" limit] assms(1)
    by (simp add: agrees_def)
  have "fst (take_use limit windowMs later key ws') = fst (spec_take limit windowMs later (Some w))"
    by (rule take_use_spec(1) [OF d]) (simp add: w(1) agrees_def)
  then show ?thesis using w(2) assms(4) by (simp add: spec_take_def)
qed

theorem limiter_retry_after_witness:
  "fst (take_use 1 60000 60000 ''a'' [(''a'', \<lparr>w_start = 0, w_count = 1\<rparr>)]) = 0"
  by (rule limiter_retry_after [where now = 30000 and r = 30 and ws = "[(''a'', \<lparr>w_start = 0, w_count = 1\<rparr>)]"])
    (simp_all add: take_use_def prune_def ceil_div_def)

text \<open>
  The exchange gate: whatever begins and ends, never more exchanges are in flight than its cap,
  and after Discord's own limit ended one with a Retry-After no exchange begins until that delay has
  passed since.
\<close>

theorem exchange_gate_safe:
  assumes "gate_steps opts gate_initial before g"
    and "gate_step opts g (Ended t (ThrewFailure f)) g'"
    and "f_code f = F_unavailable" "0 < f_retry_after f"
    and "gate_steps opts g' after g''"
  shows "eg_running g'' \<le> go_concurrency opts \<and>
    list_all (\<lambda>e. case e of Began now None \<Rightarrow> t + int (f_retry_after f) * 1000 \<le> now | _ \<Rightarrow> True) after"
proof -
  have "gate_steps opts gate_initial (before @ [Ended t (ThrewFailure f)]) g'"
    using assms(1,2) by (rule gate_steps.more)
  then have cap: "eg_running g' \<le> go_concurrency opts"
    by (rule gate_capped) (simp add: gate_initial_def)
  have "g' = run_end t (ThrewFailure f) g" using assms(2) by (auto elim: endsE)
  then have "paused_at_least (t + int (f_retry_after f) * 1000) g'"
    using assms(3,4) by (simp add: paused_at_least_def run_end_def Let_def split: option.split)
  from gate_pause_held [OF assms(5) this] gate_capped [OF assms(5) cap] show ?thesis
    by (auto simp: list_all_iff split: gate_event.split option.split)
qed

theorem exchange_gate_safe_witness:
  "eg_running (run_end 10 (ThrewFailure (signInsBusy 7)) (snd (run_begin default_gate_options 0 gate_initial)))
     \<le> go_concurrency default_gate_options"
proof -
  let ?g1 = "snd (run_begin default_gate_options 0 gate_initial)"
  have b: "run_begin default_gate_options 0 gate_initial = (None, ?g1)"
    by (simp add: run_begin_def gate_initial_def pausedFor_def default_gate_options_def
        EXCHANGE_CONCURRENCY_def take_use_def prune_def Let_def)
  have begun: "gate_steps default_gate_options gate_initial ([] @ [Began 0 None]) ?g1"
    by (rule gate_steps.more [OF gate_steps.none]) (rule gate_step.begins [OF b])
  have ended: "gate_step default_gate_options ?g1 (Ended 10 (ThrewFailure (signInsBusy 7)))
      (run_end 10 (ThrewFailure (signInsBusy 7)) ?g1)"
    by (rule gate_step.ends) (simp add: run_begin_cases(2) [OF b])
  show ?thesis
    by (rule exchange_gate_safe [OF begun ended _ _ gate_steps.none, THEN conjunct1])
      (simp_all add: signInsBusy_def refusal_after_def mk_failure_def)
qed

end
