(* ===== verification/LodestoneGate.thy ===== *)
theory LodestoneGate
  imports RateLimits
begin

text \<open>
  The process-wide Lodestone admission, \<open>src/infrastructure/lodestone/gate.ts\<close>: request starts are
  spaced, and after a 429 every start is refused until a shared cooldown has run out.

  \<open>admit\<close> runs under a mutex, so one caller at a time is between its first check and its start;
  each turn of its loop is a step (\<open>admit_turn\<close>), and answers to requests in flight (\<open>throttled\<close>,
  \<open>answered\<close>) may come between two turns. The clock never goes back; a sleep only lets it move on.

  The lemmas show that starts are spaced and never fall inside a cooldown, how the cooldown grows,
  and that it is always bounded.
\<close>

definition COOLDOWN_BASE_MS :: int where "COOLDOWN_BASE_MS = 15000"
definition COOLDOWN_MAX_MS :: int where "COOLDOWN_MAX_MS = 300000"
definition RETRY_AFTER_MAX_MS :: int where "RETRY_AFTER_MAX_MS = 900000"

text \<open>\<open>None\<close> is the initial negative infinity.\<close>

record lodestone_gate =
  lg_lastStart :: "int option"
  lg_coolUntil :: "int option"
  lg_strikes :: nat

definition lodestone_initial :: lodestone_gate where
  "lodestone_initial = \<lparr>lg_lastStart = None, lg_coolUntil = None, lg_strikes = 0\<rparr>"

definition cooldownSeconds :: "int \<Rightarrow> lodestone_gate \<Rightarrow> int" where
  "cooldownSeconds now g =
     (case lg_coolUntil g of None \<Rightarrow> 0 | Some until \<Rightarrow> max 0 (ceil_div (until - now) 1000))"

text \<open>
  A caller in \<open>admit\<close>: it checks the cooldown once, then turns in the loop until its slot has come,
  checks the cooldown again, and starts.
\<close>

datatype admission = Refused int | Sleeps int | Aborted | Starts

definition admit_first :: "int \<Rightarrow> lodestone_gate \<Rightarrow> admission option" where
  "admit_first now g = (if cooldownSeconds now g > 0 then Some (Refused (cooldownSeconds now g)) else None)"

definition admit_turn :: "int \<Rightarrow> int \<Rightarrow> bool \<Rightarrow> lodestone_gate \<Rightarrow> admission \<times> lodestone_gate" where
  "admit_turn spacingMs now aborted g =
     (if (case lg_lastStart g of None \<Rightarrow> False | Some prev \<Rightarrow> now < prev + spacingMs)
      then (if aborted then (Aborted, g)
            else (Sleeps ((case lg_lastStart g of None \<Rightarrow> 0 | Some prev \<Rightarrow> prev + spacingMs) - now), g))
      else if aborted then (Aborted, g)
      else if cooldownSeconds now g > 0 then (Refused (cooldownSeconds now g), g)
      else (Starts, g\<lparr>lg_lastStart := Some now\<rparr>))"

definition throttled :: "int \<Rightarrow> int \<Rightarrow> lodestone_gate \<Rightarrow> int \<times> lodestone_gate" where
  "throttled now retryAfterSeconds g =
     (let strikes = lg_strikes g + 1;
          backoff = min COOLDOWN_MAX_MS (COOLDOWN_BASE_MS * 2 ^ (strikes - 1));
          requested = min (max 0 retryAfterSeconds * 1000) RETRY_AFTER_MAX_MS;
          until = now + max backoff requested;
          cool = (case lg_coolUntil g of None \<Rightarrow> until | Some c \<Rightarrow> max c until);
          g' = g\<lparr>lg_strikes := strikes, lg_coolUntil := Some cool\<rparr>
      in (cooldownSeconds now g', g'))"

definition answered :: "lodestone_gate \<Rightarrow> lodestone_gate" where
  "answered g = g\<lparr>lg_strikes := 0\<rparr>"

definition gate_status :: "int \<Rightarrow> lodestone_gate \<Rightarrow> int \<times> nat" where
  "gate_status now g = (cooldownSeconds now g, lg_strikes g)"

section \<open>Runs\<close>

datatype lodestone_event =
    Turn int bool admission
  | Throttled int int
  | Answered int

fun event_time :: "lodestone_event \<Rightarrow> int" where
  "event_time (Turn t _ _) = t"
| "event_time (Throttled t _) = t"
| "event_time (Answered t) = t"

inductive lodestone_step :: "int \<Rightarrow> lodestone_gate \<Rightarrow> lodestone_event \<Rightarrow> lodestone_gate \<Rightarrow> bool"
  for spacing where
  turn: "admit_turn spacing now aborted g = (r, g') \<Longrightarrow> lodestone_step spacing g (Turn now aborted r) g'"
| refused: "throttled now retry g = (s, g') \<Longrightarrow> lodestone_step spacing g (Throttled now retry) g'"
| replied: "lodestone_step spacing g (Answered now) (answered g)"

inductive_cases turnE: "lodestone_step spacing g (Turn now aborted r) g'"

text \<open>A run whose events' times never go back.\<close>

inductive lodestone_run :: "int \<Rightarrow> lodestone_event list \<Rightarrow> lodestone_gate \<Rightarrow> bool"
  for spacing where
  start: "lodestone_run spacing [] lodestone_initial"
| step: "lodestone_run spacing es g \<Longrightarrow> lodestone_step spacing g e g' \<Longrightarrow>
    (\<And>e'. e' \<in> set es \<Longrightarrow> event_time e' \<le> event_time e) \<Longrightarrow> lodestone_run spacing (es @ [e]) g'"

definition start_times :: "lodestone_event list \<Rightarrow> int list" where
  "start_times es = List.map_filter (\<lambda>e. case e of Turn t _ Starts \<Rightarrow> Some t | _ \<Rightarrow> None) es"

definition spaced :: "int \<Rightarrow> int list \<Rightarrow> bool" where
  "spaced s ts \<longleftrightarrow> (\<forall>i. Suc i < length ts \<longrightarrow> ts ! i + s \<le> ts ! Suc i)"

lemma start_times_snoc:
  "start_times (es @ [e]) =
     start_times es @ (case e of Turn t _ Starts \<Rightarrow> [t] | _ \<Rightarrow> [])"
  by (auto simp: start_times_def map_filter_def split: lodestone_event.split admission.split)

lemma spaced_single [simp]: "spaced s [t]"
  by (simp add: spaced_def)

lemma spaced_snoc: "spaced s (ts @ [t]) \<longleftrightarrow> spaced s ts \<and> (ts = [] \<or> last ts + s \<le> t)"
proof (cases ts rule: rev_cases)
  case (snoc us u)
  have "(\<forall>i. Suc i < length (ts @ [t]) \<longrightarrow> (ts @ [t]) ! i + s \<le> (ts @ [t]) ! Suc i) \<longleftrightarrow>
      (\<forall>i. Suc i < length ts \<longrightarrow> ts ! i + s \<le> ts ! Suc i) \<and> u + s \<le> t"
    by (auto simp: snoc nth_append less_Suc_eq all_conj_distrib)
  then show ?thesis by (simp add: spaced_def snoc)
qed (simp add: spaced_def)

text \<open>What every reachable gate satisfies.\<close>

definition lodestone_inv :: "int \<Rightarrow> lodestone_event list \<Rightarrow> lodestone_gate \<Rightarrow> bool" where
  "lodestone_inv spacing es g \<longleftrightarrow>
     spaced spacing (start_times es) \<and>
     lg_lastStart g = (if start_times es = [] then None else Some (last (start_times es)))"

lemma admit_turn_starts:
  assumes "admit_turn spacing now aborted g = (Starts, g')"
  shows "\<not> aborted" "cooldownSeconds now g \<le> 0" "g' = g\<lparr>lg_lastStart := Some now\<rparr>"
    "\<And>prev. lg_lastStart g = Some prev \<Longrightarrow> prev + spacing \<le> now"
  using assms by (auto simp: admit_turn_def split: if_splits option.splits)

lemma admit_turn_other:
  "admit_turn spacing now aborted g = (r, g') \<Longrightarrow> r \<noteq> Starts \<Longrightarrow> g' = g"
  by (auto simp: admit_turn_def split: if_splits)

lemma lodestone_run_inv: "lodestone_run spacing es g \<Longrightarrow> lodestone_inv spacing es g"
proof (induction rule: lodestone_run.induct)
  case start
  then show ?case by (simp add: lodestone_inv_def start_times_def spaced_def lodestone_initial_def)
next
  case (step es g e g')
  from step.hyps(2) show ?case
  proof (cases rule: lodestone_step.cases)
    case (turn now aborted r)
    show ?thesis
    proof (cases "r = Starts")
      case True
      then show ?thesis
        using step.IH admit_turn_starts [of spacing now aborted g g'] turn
        by (cases "start_times es = []") (auto simp: lodestone_inv_def start_times_snoc spaced_snoc)
    next
      case False
      then show ?thesis
        using step.IH admit_turn_other [OF turn(2)] turn(1)
        by (cases r) (auto simp: lodestone_inv_def start_times_snoc)
    qed
  next
    case (refused now retry s)
    then show ?thesis
      using step.IH by (auto simp: lodestone_inv_def start_times_snoc throttled_def Let_def)
  next
    case (replied now)
    then show ?thesis
      using step.IH by (simp add: lodestone_inv_def start_times_snoc answered_def)
  qed
qed

lemma cooldownSeconds_zero: "cooldownSeconds now g \<le> 0 \<longleftrightarrow> (\<forall>u. lg_coolUntil g = Some u \<longrightarrow> u \<le> now)"
proof -
  have "ceil_div (u - now) 1000 \<le> 0 \<longleftrightarrow> u \<le> now" for u
    using pos_imp_zdiv_nonneg_iff [of 1000 "- (u - now)"] by (simp add: ceil_div_def)
  then show ?thesis
    by (cases "lg_coolUntil g") (simp_all add: cooldownSeconds_def)
qed

definition cools_until :: "int \<Rightarrow> lodestone_gate \<Rightarrow> bool" where
  "cools_until u g \<longleftrightarrow> (\<exists>c. lg_coolUntil g = Some c \<and> u \<le> c)"

lemma cools_until_step: "lodestone_step spacing g e g' \<Longrightarrow> cools_until u g \<Longrightarrow> cools_until u g'"
proof (induction rule: lodestone_step.induct)
  case (turn now aborted g r g')
  then show ?case
    by (cases "r = Starts") (auto dest!: admit_turn_starts(3) admit_turn_other simp: cools_until_def)
qed (auto simp: cools_until_def throttled_def answered_def Let_def)

text \<open>The cooldown one 429 asks for: the doubling backoff, or the Lodestone's own delay if longer.\<close>

definition cooldown_asked :: "nat \<Rightarrow> int \<Rightarrow> int" where
  "cooldown_asked strikes retryAfterSeconds =
     max (min COOLDOWN_MAX_MS (COOLDOWN_BASE_MS * 2 ^ strikes))
         (min (max 0 retryAfterSeconds * 1000) RETRY_AFTER_MAX_MS)"

lemma throttled_state:
  "snd (throttled now retry g) =
     g\<lparr>lg_strikes := lg_strikes g + 1,
       lg_coolUntil := Some (case lg_coolUntil g of
           None \<Rightarrow> now + cooldown_asked (lg_strikes g) retry
         | Some c \<Rightarrow> max c (now + cooldown_asked (lg_strikes g) retry))\<rparr>"
  by (simp only: throttled_def cooldown_asked_def Let_def snd_conv add_diff_cancel_right')

lemma cooldown_asked_bounds: "0 \<le> cooldown_asked n r \<and> cooldown_asked n r \<le> RETRY_AFTER_MAX_MS"
proof -
  have "(0::int) \<le> 15000 * 2 ^ n" by simp
  then show ?thesis
    unfolding cooldown_asked_def COOLDOWN_MAX_MS_def COOLDOWN_BASE_MS_def RETRY_AFTER_MAX_MS_def
    by (simp add: min_le_iff_disj le_max_iff_disj)
qed

lemma throttled_cools:
  "cools_until (now + cooldown_asked (lg_strikes g) retry) (snd (throttled now retry g))"
  unfolding throttled_state cools_until_def by (simp split: option.split)

text \<open>Starts after a 429 wait out the cooldown it asked for.\<close>

lemma no_start_while_cooling:
  assumes "admit_turn spacing now aborted g = (Starts, g')" "cools_until u g"
  shows "u \<le> now"
  using admit_turn_starts(2) [OF assms(1)] assms(2)
  by (auto simp: cooldownSeconds_zero cools_until_def)

inductive lodestone_steps :: "int \<Rightarrow> lodestone_gate \<Rightarrow> lodestone_event list \<Rightarrow> lodestone_gate \<Rightarrow> bool"
  for spacing where
  stops: "lodestone_steps spacing g [] g"
| more: "lodestone_step spacing g e g' \<Longrightarrow> lodestone_steps spacing g' es g'' \<Longrightarrow>
    lodestone_steps spacing g (e # es) g''"

lemma starts_wait_out:
  "lodestone_steps spacing g es g' \<Longrightarrow> cools_until u g \<Longrightarrow> t \<in> set (start_times es) \<Longrightarrow> u \<le> t"
proof (induction rule: lodestone_steps.induct)
  case stops
  then show ?case by (simp add: start_times_def)
next
  case (more g e g' es g'')
  have cons: "start_times (e # es) = (case e of Turn t _ Starts \<Rightarrow> [t] | _ \<Rightarrow> []) @ start_times es"
    by (simp add: start_times_def map_filter_simps split: lodestone_event.split admission.split)
  have "u \<le> t" if "e = Turn t a Starts" for a
    using more.hyps(1) more.prems(1) that by (auto elim!: turnE intro: no_start_while_cooling)
  moreover have "cools_until u g'" by (rule cools_until_step) (use more in auto)
  ultimately show ?case
    using more.IH more.prems(2) by (auto simp: cons split: lodestone_event.splits admission.splits)
qed

text \<open>The remaining cooldown is bounded in every reachable state.\<close>

lemma cooldown_bounded:
  "lodestone_run spacing es g \<Longrightarrow> lg_coolUntil g = Some c \<Longrightarrow>
     \<exists>e \<in> set es. c \<le> event_time e + RETRY_AFTER_MAX_MS"
proof (induction arbitrary: c rule: lodestone_run.induct)
  case start
  then show ?case by (simp add: lodestone_initial_def)
next
  case (step es g e g')
  from step.hyps(2) show ?case
  proof (cases rule: lodestone_step.cases)
    case (turn now aborted r)
    then have "lg_coolUntil g = Some c"
      using step.prems by (cases "r = Starts") (auto dest: admit_turn_starts(3) admit_turn_other)
    then show ?thesis using step.IH by auto
  next
    case (refused now retry s)
    have g': "g' = snd (throttled now retry g)" using refused by simp
    consider "c = now + cooldown_asked (lg_strikes g) retry" | "lg_coolUntil g = Some c"
      using step.prems unfolding g' throttled_state by (auto simp: max_def split: option.splits if_splits)
    then show ?thesis
    proof cases
      case 1
      then show ?thesis using refused(1) cooldown_asked_bounds by auto
    next
      case 2
      then show ?thesis using step.IH by auto
    qed
  next
    case (replied now)
    then show ?thesis using step.IH step.prems by (auto simp: answered_def)
  qed
qed

section \<open>Properties\<close>

text \<open>
  In every run of the gate, whatever 429s and other answers come in between, two consecutive
  request starts are at least the spacing apart.
\<close>

theorem lodestone_starts_spaced:
  assumes "lodestone_run spacing events g"
  shows "spaced spacing (start_times events)"
  using lodestone_run_inv [OF assms] by (simp add: lodestone_inv_def)

theorem lodestone_starts_spaced_witness:
  "spaced 3000 (start_times [Turn 0 False Starts, Turn 10 False (Sleeps 2990)])"
proof -
  let ?g = "lodestone_initial\<lparr>lg_lastStart := Some 0\<rparr>"
  have one: "lodestone_run 3000 ([] @ [Turn 0 False Starts]) ?g"
    by (rule lodestone_run.step [OF lodestone_run.start], rule lodestone_step.turn)
      (simp_all add: admit_turn_def lodestone_initial_def cooldownSeconds_def)
  have "lodestone_run 3000 (([] @ [Turn 0 False Starts]) @ [Turn 10 False (Sleeps 2990)]) ?g"
    by (rule lodestone_run.step [OF one], rule lodestone_step.turn)
      (simp_all add: admit_turn_def lodestone_initial_def)
  from lodestone_starts_spaced [OF this] show ?thesis by simp
qed

text \<open>
  After a 429 no request starts until its cooldown is over: fifteen seconds doubled for each
  429 before it in a row (at most five minutes), or the Lodestone's own Retry-After where that is
  longer (at most fifteen minutes); and no cooldown ever reaches past fifteen minutes after the
  last event.
\<close>

theorem lodestone_cooldown_respected:
  assumes "lodestone_run spacing events g"
    and "lodestone_steps spacing (snd (throttled now retry g)) later g'"
  shows "list_all (\<lambda>t. now + max (min COOLDOWN_MAX_MS (COOLDOWN_BASE_MS * 2 ^ lg_strikes g))
        (min (max 0 retry * 1000) RETRY_AFTER_MAX_MS) \<le> t) (start_times later) \<and>
    (case lg_coolUntil g of None \<Rightarrow> True
     | Some c \<Rightarrow> \<exists>e. e \<in> set events \<and> c \<le> event_time e + RETRY_AFTER_MAX_MS)"
  using starts_wait_out [OF assms(2) throttled_cools] cooldown_bounded [OF assms(1)]
  by (auto simp: list_all_iff cooldown_asked_def [symmetric] split: option.split)

theorem lodestone_cooldown_respected_witness:
  "list_all (\<lambda>t. 0 + max (min COOLDOWN_MAX_MS (COOLDOWN_BASE_MS * 2 ^ lg_strikes lodestone_initial))
     (min (max 0 60 * 1000) RETRY_AFTER_MAX_MS) \<le> t) (start_times [Turn 60000 False Starts])"
proof -
  have "lodestone_steps 3000 (snd (throttled 0 60 lodestone_initial)) [Turn 60000 False Starts]
      ((snd (throttled 0 60 lodestone_initial))\<lparr>lg_lastStart := Some 60000\<rparr>)"
    by (rule lodestone_steps.more [OF _ lodestone_steps.stops], rule lodestone_step.turn)
      (simp add: throttled_state lodestone_initial_def admit_turn_def cooldownSeconds_def ceil_div_def
        cooldown_asked_def COOLDOWN_MAX_MS_def COOLDOWN_BASE_MS_def RETRY_AFTER_MAX_MS_def)
  from lodestone_cooldown_respected [OF lodestone_run.start this] show ?thesis by blast
qed

end
