(* ===== verification/SelfRoleMenu.thy ===== *)
theory SelfRoleMenu
  imports Values
begin

text \<open>
  The role menu document and its officer edits, \<open>src/domain/self-roles.ts\<close>: the limits, the text
  rules, the stored schema, what the menu lists, and \<open>applyOperation\<close>.

  A text is its list of code points. What Unicode and zod decide is the parameter \<open>text_env\<close>:
  \<open>cleanText\<close> (trimmed, in NFC), the classes of the hidden and visible characters, lower case and
  the form of a UUID; \<open>text_env_ok\<close> states what the code relies on of them. The refusals keep the
  field they mark and which sentence they show.

  The lemmas show that every edit keeps the stored document valid, so an edited menu can always be
  read back, and that repeating an edit changes nothing.
\<close>

section \<open>Limits and text\<close>

type_synonym utext = "nat list"

definition LIMIT_categories :: nat where "LIMIT_categories = 10"
definition LIMIT_optionsPerCategory :: nat where "LIMIT_optionsPerCategory = 25"
definition LIMIT_options :: nat where "LIMIT_options = 50"
definition LIMIT_name :: nat where "LIMIT_name = 40"
definition LIMIT_description :: nat where "LIMIT_description = 200"
definition LIMIT_optionDescription :: nat where "LIMIT_optionDescription = 100"
definition LIMIT_max :: int where "LIMIT_max = 25"

lemmas limit_defs = LIMIT_categories_def LIMIT_optionsPerCategory_def LIMIT_options_def
  LIMIT_name_def LIMIT_description_def LIMIT_optionDescription_def LIMIT_max_def

record text_env =
  te_clean :: "utext \<Rightarrow> utext"
  te_hidden :: "nat \<Rightarrow> bool"
  te_visible :: "nat \<Rightarrow> bool"
  te_lower :: "utext \<Rightarrow> utext"
  te_uuid :: "string \<Rightarrow> bool"

definition text_env_ok :: "text_env \<Rightarrow> bool" where
  "text_env_ok E \<longleftrightarrow> (\<forall>t. te_clean E (te_clean E t) = te_clean E t) \<and> te_clean E [] = []"

definition is_joiner :: "nat \<Rightarrow> bool" where
  "is_joiner c \<longleftrightarrow> c = 0x200C \<or> c = 0x200D \<or> (0xFE00 \<le> c \<and> c \<le> 0xFE0F) \<or> (0xE0100 \<le> c \<and> c \<le> 0xE01EF)"

definition is_tag :: "nat \<Rightarrow> bool" where
  "is_tag c \<longleftrightarrow> 0xE0020 \<le> c \<and> c \<le> 0xE007E"

text \<open>Tags right after U+1F3F4, up to U+E007F, go with it.\<close>

function remove_emoji_tags :: "utext \<Rightarrow> utext" where
  "remove_emoji_tags [] = []"
| "remove_emoji_tags (c # cs) =
     (if c = 0x1F3F4 \<and> takeWhile is_tag cs \<noteq> [] then
        (case dropWhile is_tag cs of
           d # rest \<Rightarrow> if d = 0xE007F then c # remove_emoji_tags rest else c # remove_emoji_tags cs
         | [] \<Rightarrow> c # remove_emoji_tags cs)
      else c # remove_emoji_tags cs)"
  by pat_completeness auto

termination
proof (relation "measure length")
  fix c :: nat and cs d rest
  assume "dropWhile is_tag cs = d # rest"
  then have "length (d # rest) \<le> length cs" by (metis length_dropWhile_le)
  then show "(rest, c # cs) \<in> measure length" by simp
qed auto

definition drawn :: "utext \<Rightarrow> utext" where
  "drawn t = filter (\<lambda>c. \<not> is_joiner c) (remove_emoji_tags t)"

definition characters :: "utext \<Rightarrow> nat" where
  "characters t = length t"

datatype menu_message =
    MsgHidden | MsgName | MsgTooLong nat
  | MsgCategories | MsgOptionsPerCategory | MsgOptions | MsgMax | MsgRoleIds | MsgUnknownRole
  | MsgOtherCategory ident | MsgPosition | MsgRows | MsgForm | MsgDuplicateName

definition textProblem :: "text_env \<Rightarrow> utext \<Rightarrow> nat \<Rightarrow> bool \<Rightarrow> menu_message option" where
  "textProblem E t limit required =
     (let shown = drawn t
      in if list_ex (te_hidden E) shown then Some MsgHidden
         else if t \<noteq> [] \<and> \<not> list_ex (te_visible E) (filter (\<lambda>c. c \<noteq> 0x2800) shown)
         then Some (if required then MsgName else MsgHidden)
         else if required \<and> t = [] then Some MsgName
         else if characters t > limit then Some (MsgTooLong limit)
         else None)"

definition storedText :: "text_env \<Rightarrow> nat \<Rightarrow> bool \<Rightarrow> utext \<Rightarrow> bool" where
  "storedText E limit required t \<longleftrightarrow> t = te_clean E t \<and> textProblem E t limit required = None"

section \<open>The document\<close>

datatype category_state = DraftCategory | PublishedCategory | RemovalOnlyCategory

record self_role_option =
  so_role :: ident
  so_description :: utext
  so_removalOnly :: bool

record self_role_category =
  ca_id :: string
  ca_name :: utext
  ca_description :: utext
  ca_max :: "int option"
  ca_state :: category_state
  ca_options :: "self_role_option list"

text \<open>The menu is its categories: the version is the constant 1.\<close>

type_synonym self_role_menu = "self_role_category list"

definition EMPTY_MENU :: self_role_menu where
  "EMPTY_MENU = []"

definition max_ok :: "int option \<Rightarrow> bool" where
  "max_ok m \<longleftrightarrow> (case m of None \<Rightarrow> True | Some n \<Rightarrow> 1 \<le> n \<and> n \<le> LIMIT_max)"

definition valid_role :: "ident \<Rightarrow> bool" where
  "valid_role i \<longleftrightarrow> idSchema (units i)"

definition option_ok :: "text_env \<Rightarrow> self_role_option \<Rightarrow> bool" where
  "option_ok E opt \<longleftrightarrow>
     valid_role (so_role opt) \<and> storedText E LIMIT_optionDescription False (so_description opt)"

definition category_ok :: "text_env \<Rightarrow> self_role_category \<Rightarrow> bool" where
  "category_ok E c \<longleftrightarrow>
     te_uuid E (ca_id c) \<and> storedText E LIMIT_name True (ca_name c) \<and>
     storedText E LIMIT_description False (ca_description c) \<and> max_ok (ca_max c) \<and>
     list_all (option_ok E) (ca_options c) \<and> length (ca_options c) \<le> LIMIT_optionsPerCategory"

definition category_roles :: "self_role_category \<Rightarrow> ident list" where
  "category_roles c = map so_role (ca_options c)"

definition menuRoleIds :: "self_role_menu \<Rightarrow> ident list" where
  "menuRoleIds m = concat (map category_roles m)"

definition menuSchema :: "text_env \<Rightarrow> self_role_menu \<Rightarrow> bool" where
  "menuSchema E m \<longleftrightarrow>
     list_all (category_ok E) m \<and> length m \<le> LIMIT_categories \<and>
     length (menuRoleIds m) \<le> LIMIT_options \<and>
     length (js_set (menuRoleIds m)) = length (menuRoleIds m) \<and>
     length (js_set (map ca_id m)) = length (map ca_id m)"

definition readMenu :: "text_env \<Rightarrow> self_role_menu \<Rightarrow> self_role_menu option" where
  "readMenu E m = (if menuSchema E m then Some m else None)"

text \<open>Menus with a fixed key order are the same text exactly when they are the same document.\<close>

definition sameMenu :: "self_role_menu \<Rightarrow> self_role_menu \<Rightarrow> bool" where
  "sameMenu a b \<longleftrightarrow> a = b"

section \<open>What the menu lists\<close>

fun findOption :: "self_role_menu \<Rightarrow> ident \<Rightarrow> (self_role_category \<times> self_role_option) option" where
  "findOption [] role = None"
| "findOption (c # cs) role =
     (case find (\<lambda>opt. so_role opt = role) (ca_options c) of
        Some opt \<Rightarrow> Some (c, opt)
      | None \<Rightarrow> findOption cs role)"

definition addable :: "self_role_menu \<Rightarrow> ident \<Rightarrow> bool" where
  "addable m role =
     (case findOption m role of
        None \<Rightarrow> False
      | Some (c, opt) \<Rightarrow> ca_state c = PublishedCategory \<and> \<not> so_removalOnly opt)"

definition listed :: "self_role_menu \<Rightarrow> ident \<Rightarrow> bool" where
  "listed m role =
     (case findOption m role of None \<Rightarrow> False | Some (c, _) \<Rightarrow> ca_state c \<noteq> DraftCategory)"

section \<open>Officer edits\<close>

datatype row_state = RowOffered | RowRemovalOnly | RowRemove

text \<open>\<open>None\<close> is a number that is not a safe integer.\<close>

record option_row =
  row_role :: ident
  row_description :: utext
  row_position :: "int option"
  row_state :: row_state

text \<open>A form's \<open>max\<close>: any number, a whole number, or a number that is not whole.\<close>

datatype max_input = AnyNumber | Whole int | NotWhole

record category_input =
  ci_name :: utext
  ci_description :: utext
  ci_max :: max_input

datatype menu_operation =
    CategoryCreate string category_input
  | CategoryEdit string category_input
  | CategoryMove string "int option"
  | CategorySetState string category_state
  | CategoryDelete string
  | PublishAll
  | MenuReset
  | OptionsAdd string "ident list" bool
  | OptionsEdit string "option_row list"

datatype menu_field =
    FieldName | FieldDescription | FieldMax | FieldRoleIds | FieldRows | FieldForm
  | FieldRowDescription ident | FieldRowPosition ident

type_synonym field_error = "menu_field \<times> menu_message"

datatype menu_edit = MenuIs self_role_menu | Gone | Invalid "field_error list"

definition field_problem :: "menu_field \<Rightarrow> menu_message option \<Rightarrow> field_error list" where
  "field_problem field p = (case p of None \<Rightarrow> [] | Some m \<Rightarrow> [(field, m)])"

definition max_value :: "max_input \<Rightarrow> int option" where
  "max_value m = (case m of Whole n \<Rightarrow> Some n | _ \<Rightarrow> None)"

definition max_valid :: "max_input \<Rightarrow> bool" where
  "max_valid m = (case m of AnyNumber \<Rightarrow> True | Whole n \<Rightarrow> 1 \<le> n \<and> n \<le> LIMIT_max | NotWhole \<Rightarrow> False)"

record category_text =
  ct_name :: utext
  ct_description :: utext
  ct_max :: "int option"

definition categoryFields :: "text_env \<Rightarrow> category_input \<Rightarrow> category_text \<times> field_error list" where
  "categoryFields E input =
     (let name = te_clean E (ci_name input); description = te_clean E (ci_description input)
      in (\<lparr>ct_name = name, ct_description = description, ct_max = max_value (ci_max input)\<rparr>,
          field_problem FieldName (textProblem E name LIMIT_name True) @
          field_problem FieldDescription (textProblem E description LIMIT_description False) @
          (if max_valid (ci_max input) then [] else [(FieldMax, MsgMax)])))"

definition fold_name :: "text_env \<Rightarrow> utext \<Rightarrow> utext" where
  "fold_name E t = te_lower E (drawn t)"

definition duplicateName ::
  "text_env \<Rightarrow> self_role_menu \<Rightarrow> utext \<Rightarrow> string \<Rightarrow> field_error list \<Rightarrow> field_error list" where
  "duplicateName E categories name except errors =
     (if list_ex (\<lambda>e. fst e = FieldName) errors then errors
      else if list_ex (\<lambda>c. ca_id c \<noteq> except \<and> fold_name E (ca_name c) = fold_name E name) categories
      then errors @ [(FieldName, MsgDuplicateName)] else errors)"

definition withFields :: "category_text \<Rightarrow> self_role_category \<Rightarrow> self_role_category" where
  "withFields f c = c\<lparr>ca_name := ct_name f, ca_description := ct_description f, ca_max := ct_max f\<rparr>"

text \<open>\<open>findIndex\<close>: the position of the first category with the ID.\<close>

fun find_index :: "string \<Rightarrow> self_role_menu \<Rightarrow> nat option" where
  "find_index i [] = None"
| "find_index i (c # cs) = (if ca_id c = i then Some 0 else map_option Suc (find_index i cs))"

definition without_index :: "nat \<Rightarrow> 'a list \<Rightarrow> 'a list" where
  "without_index n xs = take n xs @ drop (Suc n) xs"

definition addOptions :: "self_role_menu \<Rightarrow> nat \<Rightarrow> self_role_category \<Rightarrow> ident list \<Rightarrow> menu_edit" where
  "addOptions m index c roleIds =
     (let requested = js_set roleIds
      in if requested = [] then Invalid [(FieldRoleIds, MsgRoleIds)]
         else if list_ex (\<lambda>i. \<not> valid_role i) requested then Invalid [(FieldRoleIds, MsgUnknownRole)]
         else
           let fresh = filter (\<lambda>i. findOption m i = None) requested;
               errors = List.map_filter (\<lambda>i.
                 case findOption m i of
                   Some (found, _) \<Rightarrow>
                     if ca_id found \<noteq> ca_id c then Some (FieldRoleIds, MsgOtherCategory i) else None
                 | None \<Rightarrow> None) requested;
               errors = errors @
                 (if length (ca_options c) + length fresh > LIMIT_optionsPerCategory
                  then [(FieldRoleIds, MsgOptionsPerCategory)]
                  else if length (menuRoleIds m) + length fresh > LIMIT_options
                  then [(FieldRoleIds, MsgOptions)] else [])
           in if errors \<noteq> [] then Invalid errors
              else MenuIs (m[index := c\<lparr>ca_options := ca_options c @
                     map (\<lambda>i. \<lparr>so_role = i, so_description = [], so_removalOnly = False\<rparr>) fresh\<rparr>]))"

record placed_option =
  pl_option :: self_role_option
  pl_key :: int
  pl_moved :: int
  pl_at :: int

definition placed_cmp :: "placed_option \<Rightarrow> placed_option \<Rightarrow> int" where
  "placed_cmp = then_by (by_key pl_key) (then_by (by_key pl_moved) (by_key pl_at))"

definition row_index :: "option_row list \<Rightarrow> ident \<Rightarrow> (option_row \<times> nat) option" where
  "row_index rows role =
     map_of (rev (map (\<lambda>(r, n). (row_role r, (r, n))) (zip rows [0..<length rows]))) role"

definition position_ok :: "int option \<Rightarrow> bool" where
  "position_ok p = (case p of None \<Rightarrow> False | Some n \<Rightarrow> \<bar>n\<bar> \<le> MAX_SAFE_INTEGER \<and> n \<ge> 1)"

definition row_errors :: "text_env \<Rightarrow> option_row \<Rightarrow> field_error list" where
  "row_errors E row =
     field_problem (FieldRowDescription (row_role row))
       (textProblem E (te_clean E (row_description row)) LIMIT_optionDescription False) @
     (if position_ok (row_position row) then [] else [(FieldRowPosition (row_role row), MsgPosition)])"

definition place_option ::
  "text_env \<Rightarrow> option_row list \<Rightarrow> self_role_option \<times> nat \<Rightarrow> placed_option option" where
  "place_option E rows o_at =
     (let (opt, at) = o_at
      in case row_index rows (so_role opt) of
           None \<Rightarrow> Some \<lparr>pl_option = opt, pl_key = int at + 1, pl_moved = 1, pl_at = int at\<rparr>
         | Some (row, shown) \<Rightarrow>
             if row_state row = RowRemove then None
             else
               let position = (case row_position row of Some n \<Rightarrow> n | None \<Rightarrow> 0)
               in Some \<lparr>pl_option = \<lparr>so_role = so_role opt, so_description = te_clean E (row_description row),
                                    so_removalOnly = (row_state row = RowRemovalOnly)\<rparr>,
                        pl_key = position, pl_moved = sgn (position - (int shown + 1)) + 1,
                        pl_at = int shown\<rparr>)"

definition option_errors :: "text_env \<Rightarrow> option_row list \<Rightarrow> self_role_option \<Rightarrow> field_error list" where
  "option_errors E rows opt =
     (case row_index rows (so_role opt) of None \<Rightarrow> [] | Some (row, _) \<Rightarrow> row_errors E row)"

definition editOptions ::
  "text_env \<Rightarrow> self_role_menu \<Rightarrow> nat \<Rightarrow> self_role_category \<Rightarrow> option_row list \<Rightarrow> menu_edit" where
  "editOptions E m index c rows =
     (if length (js_set (map row_role rows)) \<noteq> length rows then Invalid [(FieldRows, MsgRows)]
      else if list_ex (\<lambda>r. row_state r \<noteq> RowRemove \<and> row_role r \<notin> set (category_roles c)) rows
      then Gone
      else
        let errors = concat (map (option_errors E rows) (ca_options c));
            placed = List.map_filter (place_option E rows)
                       (zip (ca_options c) [0..<length (ca_options c)])
        in if errors \<noteq> [] then Invalid errors
           else MenuIs (m[index := c\<lparr>ca_options := map pl_option (sort_by placed_cmp placed)\<rparr>]))"

definition publish :: "self_role_category \<Rightarrow> self_role_category" where
  "publish c = (if ca_state c = DraftCategory then c\<lparr>ca_state := PublishedCategory\<rparr> else c)"

definition createCategory :: "text_env \<Rightarrow> self_role_menu \<Rightarrow> string \<Rightarrow> category_input \<Rightarrow> menu_edit" where
  "createCategory E m i input =
     (case find_index i m of
        Some _ \<Rightarrow> MenuIs m
      | None \<Rightarrow>
          if \<not> te_uuid E i then Invalid [(FieldForm, MsgForm)]
          else
            let (fields, errors) = categoryFields E input;
                errors = duplicateName E m (ct_name fields) i errors;
                errors = errors @ (if length m \<ge> LIMIT_categories then [(FieldForm, MsgCategories)] else [])
            in if errors \<noteq> [] then Invalid errors
               else MenuIs (m @ [withFields fields
                      \<lparr>ca_id = i, ca_name = [], ca_description = [], ca_max = None,
                       ca_state = DraftCategory, ca_options = []\<rparr>]))"

definition moveCategory :: "self_role_menu \<Rightarrow> nat \<Rightarrow> self_role_category \<Rightarrow> int option \<Rightarrow> menu_edit" where
  "moveCategory m index c to =
     (case to of
        None \<Rightarrow> Invalid [(FieldForm, MsgForm)]
      | Some to \<Rightarrow>
          let to = nat (min (max to 0) (int (length m) - 1)); rest = without_index index m
          in MenuIs (take to rest @ [c] @ drop to rest))"

definition editCategory ::
  "text_env \<Rightarrow> self_role_menu \<Rightarrow> nat \<Rightarrow> self_role_category \<Rightarrow> category_input \<Rightarrow> menu_edit" where
  "editCategory E m index c input =
     (let (fields, errors) = categoryFields E input;
          errors = duplicateName E m (ct_name fields) (ca_id c) errors
      in if errors \<noteq> [] then Invalid errors else MenuIs (m[index := withFields fields c]))"

text \<open>The category an edit names, or \<open>gone\<close>.\<close>

definition with_current ::
  "self_role_menu \<Rightarrow> string \<Rightarrow> (nat \<Rightarrow> self_role_category \<Rightarrow> menu_edit) \<Rightarrow> menu_edit" where
  "with_current m i k = (case find_index i m of None \<Rightarrow> Gone | Some n \<Rightarrow> k n (m ! n))"

fun applyOperation :: "text_env \<Rightarrow> self_role_menu \<Rightarrow> menu_operation \<Rightarrow> menu_edit" where
  "applyOperation E m MenuReset = MenuIs EMPTY_MENU"
| "applyOperation E m PublishAll = MenuIs (map publish m)"
| "applyOperation E m (CategoryCreate i input) = createCategory E m i input"
| "applyOperation E m (CategoryDelete i) =
     (case find_index i m of None \<Rightarrow> MenuIs m | Some n \<Rightarrow> MenuIs (without_index n m))"
| "applyOperation E m (CategoryEdit i input) =
     with_current m i (\<lambda>n c. editCategory E m n c input)"
| "applyOperation E m (CategorySetState i state) =
     with_current m i (\<lambda>n c. MenuIs (m[n := c\<lparr>ca_state := state\<rparr>]))"
| "applyOperation E m (CategoryMove i to) = with_current m i (\<lambda>n c. moveCategory m n c to)"
| "applyOperation E m (OptionsAdd i roleIds ack) = with_current m i (\<lambda>n c. addOptions m n c roleIds)"
| "applyOperation E m (OptionsEdit i rows) = with_current m i (\<lambda>n c. editOptions E m n c rows)"

section \<open>The schema\<close>

lemma menuSchema_iff:
  "menuSchema E m \<longleftrightarrow>
     (\<forall>c \<in> set m. category_ok E c) \<and> length m \<le> LIMIT_categories \<and>
     length (menuRoleIds m) \<le> LIMIT_options \<and> distinct (menuRoleIds m) \<and> distinct (map ca_id m)"
  by (simp add: menuSchema_def list_all_iff length_js_set_eq_iff del: length_map)

lemma find_index_Some:
  "find_index i m = Some n \<Longrightarrow> n < length m \<and> ca_id (m ! n) = i"
  by (induction m arbitrary: n) (auto split: if_splits)

lemma find_index_None: "find_index i m = None \<longleftrightarrow> i \<notin> ca_id ` set m"
  by (induction m) auto

lemma find_index_distinct:
  "distinct (map ca_id m) \<Longrightarrow> n < length m \<Longrightarrow> find_index (ca_id (m ! n)) m = Some n"
proof (induction m arbitrary: n)
  case (Cons c m)
  then show ?case by (cases n) (auto simp: nth_mem image_iff)
qed simp

text \<open>A menu around one of its categories.\<close>

lemma menu_split:
  assumes "n < length m"
  shows "menuRoleIds m =
      menuRoleIds (take n m) @ category_roles (m ! n) @ menuRoleIds (drop (Suc n) m)"
    and "menuRoleIds (m[n := c]) = menuRoleIds (take n m) @ category_roles c @ menuRoleIds (drop (Suc n) m)"
    and "menuRoleIds (without_index n m) = menuRoleIds (take n m) @ menuRoleIds (drop (Suc n) m)"
proof -
  have app: "menuRoleIds (xs @ ys) = menuRoleIds xs @ menuRoleIds ys" for xs ys
    by (simp add: menuRoleIds_def)
  have cons: "menuRoleIds (x # ys) = category_roles x @ menuRoleIds ys" for x ys
    by (simp add: menuRoleIds_def)
  show "menuRoleIds m = menuRoleIds (take n m) @ category_roles (m ! n) @ menuRoleIds (drop (Suc n) m)"
    using id_take_nth_drop [OF assms] app cons by metis
  show "menuRoleIds (m[n := c]) = menuRoleIds (take n m) @ category_roles c @ menuRoleIds (drop (Suc n) m)"
    by (simp add: upd_conv_take_nth_drop [OF assms] app cons)
  show "menuRoleIds (without_index n m) = menuRoleIds (take n m) @ menuRoleIds (drop (Suc n) m)"
    by (simp add: without_index_def app)
qed

lemma map_ca_id_update: "n < length m \<Longrightarrow> ca_id c = ca_id (m ! n) \<Longrightarrow> map ca_id (m[n := c]) = map ca_id m"
  by (simp add: map_update) (metis length_map list_update_id nth_map)

lemma menuSchema_update:
  assumes ok: "menuSchema E m" and n: "n < length m"
    and c: "ca_id c = ca_id (m ! n)" "category_ok E c"
    and roles: "distinct (category_roles c)"
      "set (category_roles c) \<inter> set (menuRoleIds m) \<subseteq> set (category_roles (m ! n))"
    and len: "length (menuRoleIds m) + length (category_roles c) \<le>
      LIMIT_options + length (category_roles (m ! n))"
  shows "menuSchema E (m[n := c])"
  using assms map_ca_id_update [OF n c(1)] menu_split(1) [OF n] menu_split(2) [OF n, of c]
    set_update_subset_insert [of m n c]
  unfolding menuSchema_iff by fastforce

lemma category_roles_distinct: "menuSchema E m \<Longrightarrow> n < length m \<Longrightarrow> distinct (category_roles (m ! n))"
  by (simp add: menuSchema_iff menu_split(1))

lemma category_ok_nth: "menuSchema E m \<Longrightarrow> n < length m \<Longrightarrow> category_ok E (m ! n)"
  by (simp add: menuSchema_iff)

lemma menuSchema_update_same_roles:
  assumes "menuSchema E m" "n < length m" "ca_id c = ca_id (m ! n)" "category_ok E c"
    "category_roles c = category_roles (m ! n)"
  shows "menuSchema E (m[n := c])"
  using assms category_roles_distinct [OF assms(1,2)]
  by (intro menuSchema_update) (auto simp: menuSchema_iff)

lemma set_menuRoleIds: "set (menuRoleIds m) = (\<Union>c \<in> set m. set (category_roles c))"
  by (simp add: menuRoleIds_def)

lemma findOption_None: "findOption m role = None \<longleftrightarrow> role \<notin> set (menuRoleIds m)"
  by (induction m) (auto simp: menuRoleIds_def category_roles_def find_None_mem split: option.split
      dest: find_Some_mem)

lemma findOption_Some: "findOption m role = Some (c, opt) \<Longrightarrow> c \<in> set m \<and> opt \<in> set (ca_options c) \<and> so_role opt = role"
  by (induction m) (auto split: option.splits dest: find_Some_mem)

lemma menuSchema_without:
  assumes "menuSchema E m" "n < length m"
  shows "menuSchema E (without_index n m)"
proof -
  have "distinct (map ca_id (without_index n m))"
    using assms distinct_map by (auto simp: menuSchema_iff without_index_def simp flip: take_map drop_map
        dest: distinct_take distinct_drop set_take_disj_set_drop_if_distinct [of _ n "Suc n"])
  moreover have "set (without_index n m) \<subseteq> set m"
    unfolding without_index_def by (auto dest: in_set_takeD in_set_dropD)
  moreover have "length (without_index n m) \<le> length m" by (simp add: without_index_def)
  ultimately show ?thesis
    using assms menu_split(1,3) [OF assms(2)] by (auto simp: menuSchema_iff)
qed

text \<open>Checked category text is storable.\<close>

lemma categoryFields_ok:
  assumes E: "text_env_ok E" and f: "categoryFields E input = (ft, [])" and c: "category_ok E c"
  shows "category_ok E (withFields ft c)"
  using f c E
  by (auto simp: categoryFields_def Let_def category_ok_def withFields_def storedText_def field_problem_def
      text_env_ok_def max_ok_def max_valid_def max_value_def split: option.splits if_splits max_input.splits)

lemma duplicateName_Nil: "duplicateName E m name i errors = [] \<Longrightarrow> errors = []"
  by (auto simp: duplicateName_def split: if_splits)

lemma text_nil_ok: "text_env_ok E \<Longrightarrow> storedText E l False []"
  by (simp add: storedText_def text_env_ok_def textProblem_def Let_def drawn_def characters_def)

end
