(* ===== verification/SelfRoleEdits.thy ===== *)
theory SelfRoleEdits
  imports SelfRoleMenu
begin

text \<open>
  What the role menu's officer edits promise: every edit of a valid menu gives a valid menu, and an
  edit applied again to its own result changes nothing. The definitions are in SelfRoleMenu.
\<close>

section \<open>Every edit keeps the schema\<close>

lemma place_option_role:
  "place_option E rows (opt, at) = Some p \<Longrightarrow> so_role (pl_option p) = so_role opt"
  by (auto simp: place_option_def Let_def split: option.splits if_splits prod.splits)

lemma placed_roles:
  fixes E rows
  defines "f \<equiv> List.map_filter (place_option E rows)"
  shows "set (map (so_role \<circ> pl_option) (f zs)) \<subseteq> set (map (so_role \<circ> fst) zs)"
    and "distinct (map (so_role \<circ> fst) zs) \<Longrightarrow> distinct (map (so_role \<circ> pl_option) (f zs))"
    and "length (f zs) \<le> length zs"
proof -
  have sub: "set (map (so_role \<circ> pl_option) (f zs)) \<subseteq> set (map (so_role \<circ> fst) zs)" for zs
    unfolding f_def
  proof (induction zs)
    case (Cons z zs)
    then show ?case
      by (cases z; cases "place_option E rows z")
        (auto simp: List.map_filter_simps dest: place_option_role)
  qed (simp add: List.map_filter_simps)
  show "set (map (so_role \<circ> pl_option) (f zs)) \<subseteq> set (map (so_role \<circ> fst) zs)" by (rule sub)
  show "distinct (map (so_role \<circ> fst) zs) \<Longrightarrow> distinct (map (so_role \<circ> pl_option) (f zs))"
  proof (induction zs)
    case (Cons z zs)
    obtain opt at where z: "z = (opt, at)" by force
    show ?case
    proof (cases "place_option E rows z")
      case None
      with Cons show ?thesis by (simp add: f_def List.map_filter_simps)
    next
      case (Some p)
      then have "so_role (pl_option p) \<notin> set (map (so_role \<circ> pl_option) (f zs))"
        using Cons.prems sub [of zs] place_option_role [of E rows opt at p] z by auto
      with Some Cons show ?thesis by (simp add: f_def List.map_filter_simps)
    qed
  qed (simp add: f_def List.map_filter_simps)
  show "length (f zs) \<le> length zs"
    unfolding f_def by (induction zs) (auto simp: List.map_filter_simps split: option.split)
qed

lemma row_index_Some: "row_index rows role = Some (row, n) \<Longrightarrow> row_role row = role \<and> row \<in> set rows"
  unfolding row_index_def
  by (auto dest!: map_of_SomeD simp: set_zip)

lemma place_option_ok:
  assumes "text_env_ok E" "option_ok E opt" "option_errors E rows opt = []"
    "place_option E rows (opt, at) = Some p"
  shows "option_ok E (pl_option p)"
  using assms
  by (auto simp: place_option_def option_errors_def row_errors_def field_problem_def option_ok_def
      storedText_def text_env_ok_def Let_def split: option.splits if_splits prod.splits)

lemma editOptions_cases:
  assumes "editOptions E m n c rows = MenuIs m'"
  shows "distinct (map row_role rows)"
    and "\<And>opt. opt \<in> set (ca_options c) \<Longrightarrow> option_errors E rows opt = []"
    and "m' = m[n := c\<lparr>ca_options := map pl_option (sort_by placed_cmp
           (List.map_filter (place_option E rows) (zip (ca_options c) [0..<length (ca_options c)])))\<rparr>]"
    and "\<And>row. row \<in> set rows \<Longrightarrow> row_state row \<noteq> RowRemove \<Longrightarrow> row_role row \<in> set (category_roles c)"
  using assms length_js_set_eq_iff [of "map row_role rows"]
  by (auto simp: editOptions_def Let_def list_ex_iff split: if_splits)

lemma map_filter_mem: "p \<in> set (List.map_filter f zs) \<Longrightarrow> \<exists>z \<in> set zs. f z = Some p"
  by (force simp: List.map_filter_def)

lemma menuSchema_editOptions:
  assumes E: "text_env_ok E" and ok: "menuSchema E m" and n: "n < length m"
    and e: "editOptions E m n (m ! n) rows = MenuIs m'"
  shows "menuSchema E m'"
proof -
  let ?c = "m ! n"
  let ?zs = "zip (ca_options ?c) [0..<length (ca_options ?c)]"
  let ?placed = "List.map_filter (place_option E rows) ?zs"
  let ?new = "?c\<lparr>ca_options := map pl_option (sort_by placed_cmp ?placed)\<rparr>"
  have roles: "map (so_role \<circ> fst) ?zs = category_roles ?c"
    by (simp add: category_roles_def flip: map_map)
  have d: "distinct (category_roles ?c)" using category_roles_distinct [OF ok n] .
  have new_roles: "category_roles ?new = map (so_role \<circ> pl_option) (sort_by placed_cmp ?placed)"
    by (simp add: category_roles_def)
  have sub: "set (category_roles ?new) \<subseteq> set (category_roles ?c)"
    using placed_roles(1) [of E rows ?zs] unfolding new_roles roles by simp
  have dn: "distinct (category_roles ?new)"
    using placed_roles(2) [of ?zs E rows] d unfolding new_roles roles by simp
  have len: "length (category_roles ?new) \<le> length (category_roles ?c)"
    using placed_roles(3) [of E rows ?zs] by (simp add: new_roles) (simp add: category_roles_def)
  have cat: "category_ok E ?c" by (rule category_ok_nth [OF ok n])
  have "option_ok E (pl_option p)" if p: "p \<in> set ?placed" for p
  proof -
    obtain opt at where z: "(opt, at) \<in> set ?zs" "place_option E rows (opt, at) = Some p"
      using map_filter_mem [OF p] by auto
    then have mem: "opt \<in> set (ca_options ?c)" by (auto dest: set_zip_leftD)
    with cat have "option_ok E opt" by (simp add: category_ok_def list_all_iff)
    then show ?thesis using place_option_ok [OF E _ editOptions_cases(2) [OF e mem] z(2)] by blast
  qed
  then have "category_ok E ?new"
    using cat len by (auto simp: category_ok_def list_all_iff category_roles_def)
  then have "menuSchema E (m[n := ?new])"
    using sub dn len ok by (intro menuSchema_update [OF ok n]) (auto simp: menuSchema_iff)
  then show ?thesis by (simp add: editOptions_cases(3) [OF e])
qed

lemma addOptions_cases:
  assumes "addOptions m n c roleIds = MenuIs m'"
  defines "fresh \<equiv> filter (\<lambda>i. findOption m i = None) (js_set roleIds)"
  shows "m' = m[n := c\<lparr>ca_options := ca_options c @
           map (\<lambda>i. \<lparr>so_role = i, so_description = [], so_removalOnly = False\<rparr>) fresh\<rparr>]"
    and "js_set roleIds \<noteq> []" "\<forall>i \<in> set roleIds. valid_role i"
    and "length (ca_options c) + length fresh \<le> LIMIT_optionsPerCategory"
    and "length (menuRoleIds m) + length fresh \<le> LIMIT_options"
    and "\<And>i found opt. i \<in> set roleIds \<Longrightarrow> findOption m i = Some (found, opt) \<Longrightarrow> ca_id found = ca_id c"
  using assms(1)
  by (auto simp: addOptions_def fresh_def Let_def list_ex_iff List.map_filter_def filter_empty_conv
      split: if_splits option.splits)

lemma menuSchema_addOptions:
  assumes E: "text_env_ok E" and ok: "menuSchema E m" and n: "n < length m"
    and e: "addOptions m n (m ! n) roleIds = MenuIs m'"
  shows "menuSchema E m'"
proof -
  let ?c = "m ! n"
  let ?fresh = "filter (\<lambda>i. findOption m i = None) (js_set roleIds)"
  let ?new = "?c\<lparr>ca_options := ca_options ?c @
           map (\<lambda>i. \<lparr>so_role = i, so_description = [], so_removalOnly = False\<rparr>) ?fresh\<rparr>"
  note cases = addOptions_cases [OF e]
  have roles: "category_roles ?new = category_roles ?c @ ?fresh"
    by (simp add: category_roles_def comp_def)
  have absent: "set ?fresh \<inter> set (menuRoleIds m) = {}"
    by (auto simp: findOption_None)
  have in_menu: "set (category_roles ?c) \<subseteq> set (menuRoleIds m)"
    using nth_mem [OF n] by (auto simp: set_menuRoleIds)
  have "category_ok E ?new"
    using category_ok_nth [OF ok n] cases(3,4) text_nil_ok [OF E]
    by (auto simp: category_ok_def list_all_iff option_ok_def)
  then have "menuSchema E (m[n := ?new])"
    using category_roles_distinct [OF ok n] absent in_menu cases(5)
    by (intro menuSchema_update [OF ok n]) (auto simp: roles)
  then show ?thesis by (simp add: cases(1))
qed

lemma menuSchema_perm:
  assumes "menuSchema E m" "mset m' = mset m"
  shows "menuSchema E m'"
proof -
  have "mset (menuRoleIds m') = mset (menuRoleIds m)"
  proof -
    have "mset (menuRoleIds k) = sum_mset (image_mset (\<lambda>c. mset (category_roles c)) (mset k))" for k
      by (induction k) (simp_all add: menuRoleIds_def)
    then show ?thesis using assms(2) by simp
  qed
  moreover have "mset (map ca_id m') = mset (map ca_id m)" using assms(2) by simp
  moreover have "set m' = set m" "length m' = length m"
    using assms(2) by (metis mset_eq_setD, metis mset_eq_length)
  ultimately show ?thesis
    using assms(1) mset_eq_imp_distinct_iff [of "menuRoleIds m'" "menuRoleIds m"]
      mset_eq_imp_distinct_iff [of "map ca_id m'" "map ca_id m"]
      mset_eq_length [of "menuRoleIds m'" "menuRoleIds m"]
    by (simp add: menuSchema_iff)
qed

lemma without_index_mset: "n < length m \<Longrightarrow> add_mset (m ! n) (mset (without_index n m)) = mset m"
  using id_take_nth_drop [of n m] unfolding without_index_def
  by (metis mset.simps(2) mset_append union_mset_add_mset_right)

lemma mset_moved:
  assumes "n < length m"
  shows "mset (take k (without_index n m) @ [m ! n] @ drop k (without_index n m)) = mset m"
proof -
  have "mset (take k (without_index n m) @ [m ! n] @ drop k (without_index n m)) =
      add_mset (m ! n) (mset (take k (without_index n m)) + mset (drop k (without_index n m)))"
    by simp
  also have "mset (take k (without_index n m)) + mset (drop k (without_index n m)) =
      mset (without_index n m)"
    by (metis append_take_drop_id mset_append)
  also have "add_mset (m ! n) (mset (without_index n m)) = mset m"
    by (rule without_index_mset [OF assms])
  finally show ?thesis .
qed

lemma menuSchema_move:
  assumes "menuSchema E m" "n < length m"
  shows "menuSchema E (take k (without_index n m) @ [m ! n] @ drop k (without_index n m))"
  by (rule menuSchema_perm [OF assms(1) mset_moved [OF assms(2)]])

lemma menuSchema_publish: "menuSchema E m \<Longrightarrow> menuSchema E (map publish m)"
proof -
  have "category_roles (publish c) = category_roles c" "ca_id (publish c) = ca_id c"
    "category_ok E (publish c) = category_ok E c" for c
    by (simp_all add: publish_def category_roles_def category_ok_def)
  then show "menuSchema E m \<Longrightarrow> menuSchema E (map publish m)"
    by (simp add: menuSchema_iff menuRoleIds_def comp_def)
qed

lemma menuSchema_create:
  assumes E: "text_env_ok E" and ok: "menuSchema E m" and e: "createCategory E m i input = MenuIs m'"
  shows "menuSchema E m'"
proof (cases "find_index i m")
  case (Some n)
  with e ok show ?thesis by (simp add: createCategory_def)
next
  case None
  let ?c = "\<lparr>ca_id = i, ca_name = [], ca_description = [], ca_max = None,
             ca_state = DraftCategory, ca_options = []\<rparr>"
  obtain ft errors where cf: "categoryFields E input = (ft, errors)" by force
  with e None have u: "te_uuid E i" and len: "length m < LIMIT_categories"
    and dup: "duplicateName E m (ct_name ft) i errors = []"
    and m': "m' = m @ [withFields ft ?c]"
    by (auto simp: createCategory_def Let_def split: if_splits)
  from duplicateName_Nil [OF dup] cf have cf: "categoryFields E input = (ft, [])" by simp
  have "category_ok E (withFields ft ?c)"
    using cf u E
    by (auto simp: categoryFields_def Let_def category_ok_def withFields_def storedText_def field_problem_def
        text_env_ok_def max_ok_def max_valid_def max_value_def split: option.splits if_splits max_input.splits)
  then show ?thesis
    using ok len None by (auto simp: m' menuSchema_iff find_index_None menuRoleIds_def category_roles_def withFields_def)
qed

lemma menuSchema_edit:
  assumes E: "text_env_ok E" and ok: "menuSchema E m" and n: "n < length m"
    and e: "editCategory E m n (m ! n) input = MenuIs m'"
  shows "menuSchema E m'"
proof -
  obtain ft errors where cf: "categoryFields E input = (ft, errors)" by force
  with e have dup: "duplicateName E m (ct_name ft) (ca_id (m ! n)) errors = []"
    and m': "m' = m[n := withFields ft (m ! n)]"
    by (auto simp: editCategory_def Let_def split: if_splits)
  from duplicateName_Nil [OF dup] cf have cf: "categoryFields E input = (ft, [])" by simp
  show ?thesis
    unfolding m' using categoryFields_ok [OF E cf category_ok_nth [OF ok n]]
    by (intro menuSchema_update_same_roles [OF ok n]) (simp_all add: withFields_def category_roles_def)
qed

lemma with_current_MenuIs:
  assumes "with_current m i k = MenuIs m'"
  obtains n where "find_index i m = Some n" "n < length m" "ca_id (m ! n) = i" "k n (m ! n) = MenuIs m'"
  using assms find_index_Some by (auto simp: with_current_def split: option.splits)

lemma applyOperation_menuSchema:
  assumes E: "text_env_ok E" and ok: "menuSchema E m" and e: "applyOperation E m op = MenuIs m'"
  shows "menuSchema E m'"
proof (cases op)
  case (CategoryCreate i input)
  with e show ?thesis using menuSchema_create [OF E ok] by simp
next
  case (CategoryEdit i input)
  with e show ?thesis using menuSchema_edit [OF E ok] by (auto elim!: with_current_MenuIs)
next
  case (CategoryMove i to)
  with e show ?thesis
    using menuSchema_move [OF ok]
    by (auto simp: moveCategory_def Let_def elim!: with_current_MenuIs split: option.splits)
next
  case (CategorySetState i state)
  with e show ?thesis
    using category_ok_nth [OF ok]
    by (auto elim!: with_current_MenuIs intro!: menuSchema_update_same_roles [OF ok]
        simp: category_ok_def category_roles_def)
next
  case (CategoryDelete i)
  with e show ?thesis
    using menuSchema_without [OF ok] find_index_Some [of i m] ok by (auto split: option.splits)
next
  case PublishAll
  with e show ?thesis using menuSchema_publish [OF ok] by simp
next
  case MenuReset
  with e show ?thesis by (auto simp: menuSchema_iff EMPTY_MENU_def menuRoleIds_def)
next
  case (OptionsAdd i roleIds ack)
  with e show ?thesis using menuSchema_addOptions [OF E ok] by (auto elim!: with_current_MenuIs)
next
  case (OptionsEdit i rows)
  with e show ?thesis using menuSchema_editOptions [OF E ok] by (auto elim!: with_current_MenuIs)
qed

section \<open>Repeating an edit\<close>

interpretation placed: comparator placed_cmp
  by unfold_locales (auto simp: placed_cmp_def then_by_def by_key_def split: if_splits)

lemma find_index_cong: "map ca_id a = map ca_id b \<Longrightarrow> find_index i a = find_index i b"
proof (induction a arbitrary: b)
  case (Cons x a)
  then show ?case by (cases b) auto
qed simp

lemma find_index_update:
  "n < length m \<Longrightarrow> ca_id c = ca_id (m ! n) \<Longrightarrow> find_index i (m[n := c]) = find_index i m"
  by (rule find_index_cong) (rule map_ca_id_update)

text \<open>A form that names every option of the category.\<close>

definition full_form :: "self_role_menu \<Rightarrow> menu_operation \<Rightarrow> bool" where
  "full_form m op \<longleftrightarrow>
     (case op of
        OptionsEdit i rows \<Rightarrow>
          (case find_index i m of
             None \<Rightarrow> True
           | Some n \<Rightarrow> set (category_roles (m ! n)) \<subseteq> set (map row_role rows))
      | _ \<Rightarrow> True)"

lemma row_index_named: "role \<in> set (map row_role rows) \<Longrightarrow> \<exists>row n. row_index rows role = Some (row, n)"
proof -
  assume "role \<in> set (map row_role rows)"
  moreover have "fst ` set (map (\<lambda>(r, n). (row_role r, (r, n))) (zip rows [0..<length rows])) =
      set (map row_role rows)"
  proof -
    have "map fst (map (\<lambda>(r, n). (row_role r, (r, n))) (zip rows [0..<length rows])) = map row_role rows"
      by (rule nth_equalityI) auto
    then show ?thesis by (metis set_map)
  qed
  ultimately have "map_of (rev (map (\<lambda>(r, n). (row_role r, (r, n))) (zip rows [0..<length rows]))) role \<noteq> None"
    unfolding map_of_eq_None_iff by simp
  then show ?thesis unfolding row_index_def by auto
qed

lemma place_option_again:
  assumes "place_option E rows (opt, at) = Some p" "so_role opt \<in> set (map row_role rows)"
  shows "place_option E rows (pl_option p, at') = Some p"
  using assms row_index_named [OF assms(2)]
  by (auto simp: place_option_def Let_def split: if_splits)

lemma option_errors_role: "so_role a = so_role b \<Longrightarrow> option_errors E rows a = option_errors E rows b"
  by (simp add: option_errors_def)

lemma map_filter_zip_all:
  "\<forall>x \<in> set xs. \<forall>n. f (g x, n) = Some x \<Longrightarrow> length ns = length xs \<Longrightarrow>
     List.map_filter f (zip (map g xs) ns) = xs"
proof (induction xs arbitrary: ns)
  case (Cons x xs)
  then show ?case by (cases ns) (auto simp: List.map_filter_simps)
qed (simp add: List.map_filter_simps)

lemma editOptions_again:
  assumes n: "n < length m" and e: "editOptions E m n (m ! n) rows = MenuIs m'"
    and full: "set (category_roles (m ! n)) \<subseteq> set (map row_role rows)"
  shows "editOptions E m' n (m' ! n) rows = MenuIs m'"
proof -
  let ?c = "m ! n"
  let ?zs = "zip (ca_options ?c) [0..<length (ca_options ?c)]"
  let ?placed = "List.map_filter (place_option E rows) ?zs"
  let ?sorted = "sort_by placed_cmp ?placed"
  let ?new = "?c\<lparr>ca_options := map pl_option ?sorted\<rparr>"
  note cases = editOptions_cases [OF e]
  have m': "m' = m[n := ?new]" by (rule cases(3))
  have src: "\<exists>opt at. opt \<in> set (ca_options ?c) \<and> place_option E rows (opt, at) = Some p"
    if p: "p \<in> set ?sorted" for p
    using map_filter_mem [of p "place_option E rows" ?zs] p by (auto dest: set_zip_leftD)
  have again: "\<forall>p \<in> set ?sorted. \<forall>at. place_option E rows (pl_option p, at) = Some p"
  proof (intro ballI allI)
    fix p at
    assume "p \<in> set ?sorted"
    then obtain opt at' where opt: "opt \<in> set (ca_options ?c)" "place_option E rows (opt, at') = Some p"
      using src by blast
    then have "so_role opt \<in> set (map row_role rows)"
      using full by (auto simp: category_roles_def)
    with opt(2) show "place_option E rows (pl_option p, at) = Some p" by (rule place_option_again)
  qed
  have placed': "List.map_filter (place_option E rows)
      (zip (map pl_option ?sorted) [0..<length (map pl_option ?sorted)]) = ?sorted"
    by (rule map_filter_zip_all [OF again]) simp
  have errors: "option_errors E rows (pl_option p) = []" if p: "p \<in> set ?sorted" for p
  proof -
    obtain opt at where opt: "opt \<in> set (ca_options ?c)" "place_option E rows (opt, at) = Some p"
      using src [OF p] by blast
    show ?thesis
      using cases(2) [OF opt(1)] option_errors_role [OF place_option_role [OF opt(2)]] by metis
  qed
  have held: "row_role row \<in> set (category_roles ?new)"
    if row: "row \<in> set rows" "row_state row \<noteq> RowRemove" for row
  proof -
    obtain opt where opt: "opt \<in> set (ca_options ?c)" "so_role opt = row_role row"
      using cases(4) [OF row] by (auto simp: category_roles_def)
    then obtain at where at: "(opt, at) \<in> set ?zs"
      by (metis in_set_impl_in_set_zip1 length_map length_upt map_nth minus_nat.diff_0)
    obtain row' k where ri: "row_index rows (so_role opt) = Some (row', k)"
      using row_index_named [of "so_role opt" rows] opt(2) row(1) by auto
    have "row' = row"
      using row_index_Some [OF ri] row(1) opt(2) cases(1) by (auto simp: distinct_map dest: inj_onD)
    then obtain p where p: "place_option E rows (opt, at) = Some p"
      using ri row(2) by (auto simp: place_option_def Let_def)
    then have "p \<in> set ?placed" using at by (force simp: List.map_filter_def)
    then show ?thesis
      using place_option_role [OF p] opt(2) by (force simp: category_roles_def)
  qed
  have nth: "m' ! n = ?new" using n by (simp add: m')
  have new_options: "ca_options ?new = map pl_option ?sorted" by simp
  have rows: "length (js_set (map row_role rows)) = length rows"
    using cases(1) by (metis length_js_set_eq_iff length_map)
  have known: "\<not> list_ex (\<lambda>r. row_state r \<noteq> RowRemove \<and> row_role r \<notin> set (category_roles ?new)) rows"
    using held by (auto simp: list_ex_iff)
  have none: "concat (map (option_errors E rows) (ca_options ?new)) = []"
    unfolding new_options using errors by simp
  have sorted: "sort_by placed_cmp (List.map_filter (place_option E rows)
      (zip (ca_options ?new) [0..<length (ca_options ?new)])) = ?sorted"
    unfolding new_options placed' by (rule placed.sort_by_idem)
  have "editOptions E m' n ?new rows =
      MenuIs (m'[n := ?new\<lparr>ca_options := map pl_option ?sorted\<rparr>])"
    unfolding editOptions_def Let_def rows none sorted using known by simp
  then show ?thesis unfolding nth using n by (simp add: m')
qed

lemma findOption_at:
  "distinct (menuRoleIds m) \<Longrightarrow> n < length m \<Longrightarrow> i \<in> set (category_roles (m ! n)) \<Longrightarrow>
     \<exists>opt. findOption m i = Some (m ! n, opt)"
proof (induction m arbitrary: n)
  case (Cons c m)
  show ?case
  proof (cases n)
    case 0
    with Cons.prems(3) obtain opt where "find (\<lambda>opt. so_role opt = i) (ca_options c) = Some opt"
      using find_None_mem [of "\<lambda>opt. so_role opt = i" "ca_options c"]
      by (cases "find (\<lambda>opt. so_role opt = i) (ca_options c)") (auto simp: category_roles_def)
    with 0 show ?thesis by simp
  next
    case (Suc k)
    then have k: "k < length m" "i \<in> set (category_roles (m ! k))" "distinct (menuRoleIds m)"
      using Cons.prems by (simp_all add: menuRoleIds_def)
    then have "i \<in> set (menuRoleIds m)" using nth_mem [OF k(1)] by (auto simp: set_menuRoleIds)
    then have "i \<notin> set (category_roles c)" using Cons.prems(1) by (auto simp: menuRoleIds_def)
    then have "find (\<lambda>opt. so_role opt = i) (ca_options c) = None"
      by (auto simp: find_None_mem category_roles_def)
    with Cons.IH [OF k(3,1,2)] Suc show ?thesis by simp
  qed
qed simp

lemma addOptions_again:
  assumes ok: "menuSchema E m" and ok': "menuSchema E m'" and n: "n < length m"
    and e: "addOptions m n (m ! n) roleIds = MenuIs m'"
  shows "addOptions m' n (m' ! n) roleIds = MenuIs m'"
proof -
  let ?c = "m ! n"
  let ?fresh = "filter (\<lambda>i. findOption m i = None) (js_set roleIds)"
  let ?new = "?c\<lparr>ca_options := ca_options ?c @
           map (\<lambda>i. \<lparr>so_role = i, so_description = [], so_removalOnly = False\<rparr>) ?fresh\<rparr>"
  note cases = addOptions_cases [OF e]
  have nth: "m' ! n = ?new" and n': "n < length m'" using n by (simp_all add: cases(1))
  have ids: "distinct (map ca_id m')" "distinct (map ca_id m)" using ok ok' by (simp_all add: menuSchema_iff)
  have roles_new: "category_roles (m' ! n) = category_roles ?c @ ?fresh"
    unfolding nth by (simp add: category_roles_def comp_def)
  have here: "i \<in> set (category_roles (m' ! n))" if i: "i \<in> set roleIds" for i
  proof (cases "findOption m i")
    case None
    with i show ?thesis by (simp add: roles_new)
  next
    case (Some co)
    then obtain found opt where f: "findOption m i = Some (found, opt)" by force
    then have "ca_id found = ca_id ?c" "found \<in> set m" using cases(6) [OF i f] findOption_Some by auto
    then have "found = ?c" using ids(2) n by (metis distinct_map inj_onD nth_mem)
    then have "i \<in> set (category_roles ?c)"
      using findOption_Some [OF f] by (auto simp: category_roles_def)
    then show ?thesis by (simp add: roles_new)
  qed
  have dm: "distinct (menuRoleIds m')" using ok' by (simp add: menuSchema_iff)
  have found: "\<exists>opt. findOption m' i = Some (m' ! n, opt)" if i: "i \<in> set roleIds" for i
    using findOption_at [OF dm n' here [OF i]] .
  have no_fresh: "filter (\<lambda>i. findOption m' i = None) (js_set roleIds) = []"
    using found by (fastforce simp: filter_empty_conv)
  have no_errors: "List.map_filter (\<lambda>i.
      case findOption m' i of
        Some (found, _) \<Rightarrow> if ca_id found \<noteq> ca_id (m' ! n) then Some (FieldRoleIds, MsgOtherCategory i) else None
      | None \<Rightarrow> None) (js_set roleIds) = []"
    using found by (fastforce simp: List.map_filter_def filter_empty_conv)
  have "length (ca_options (m' ! n)) \<le> LIMIT_optionsPerCategory" "length (menuRoleIds m') \<le> LIMIT_options"
    using ok' n' by (auto simp: menuSchema_iff category_ok_def)
  then show ?thesis
    using cases(2,3) n' unfolding addOptions_def Let_def no_fresh no_errors
    by (auto simp: list_ex_iff)
qed

lemma duplicateName_update:
  assumes "n < length m" "ca_id c = ca_id (m ! n)" "ca_id c = i"
  shows "duplicateName E (m[n := c]) name i errors = duplicateName E m name i errors"
proof -
  have "list_ex (\<lambda>x. ca_id x \<noteq> i \<and> fold_name E (ca_name x) = fold_name E name) (m[n := c]) \<longleftrightarrow>
      list_ex (\<lambda>x. ca_id x \<noteq> i \<and> fold_name E (ca_name x) = fold_name E name) m"
    using assms unfolding list_ex_length by (auto simp: nth_list_update)
  then show ?thesis by (simp add: duplicateName_def)
qed

lemma editCategory_again:
  assumes n: "n < length m" and e: "editCategory E m n (m ! n) input = MenuIs m'"
  shows "editCategory E m' n (m' ! n) input = MenuIs m'"
proof -
  obtain ft errors where cf: "categoryFields E input = (ft, errors)" by force
  with e have dup: "duplicateName E m (ct_name ft) (ca_id (m ! n)) errors = []"
    and m': "m' = m[n := withFields ft (m ! n)]"
    by (auto simp: editCategory_def Let_def split: if_splits)
  have "duplicateName E m' (ct_name ft) (ca_id (m ! n)) errors = []"
    using dup n unfolding m' by (subst duplicateName_update) (simp_all add: withFields_def)
  moreover have "m' ! n = withFields ft (m ! n)" using n by (simp add: m')
  ultimately show ?thesis
    using n by (simp add: editCategory_def cf Let_def withFields_def m')
qed

lemma without_move:
  assumes "k \<le> length xs"
  shows "without_index k (take k xs @ [x] @ drop k xs) = xs" "(take k xs @ [x] @ drop k xs) ! k = x"
  using assms by (simp_all add: without_index_def nth_append)

lemma moveCategory_again:
  assumes "distinct (map ca_id m)" "n < length m" "moveCategory m n (m ! n) to = MenuIs m'"
  shows "\<exists>k. find_index (ca_id (m ! n)) m' = Some k \<and> m' ! k = m ! n \<and> moveCategory m' k (m' ! k) to = MenuIs m'"
proof -
  obtain t where t: "to = Some t" using assms(3) by (auto simp: moveCategory_def split: option.splits)
  let ?k = "nat (min (max t 0) (int (length m) - 1))"
  let ?rest = "without_index n m"
  have m': "m' = take ?k ?rest @ [m ! n] @ drop ?k ?rest"
    using assms(3) t by (simp add: moveCategory_def Let_def)
  have len: "length ?rest = length m - 1" using assms(2) by (simp add: without_index_def)
  then have k: "?k \<le> length ?rest" using assms(2) by linarith
  have lm': "length m' = length m" using k len assms(2) by (simp add: m')
  have nth: "m' ! ?k = m ! n" unfolding m' by (rule without_move(2) [OF k])
  have rest: "without_index ?k m' = ?rest" unfolding m' by (rule without_move(1) [OF k])
  have "mset m' = mset m" unfolding m' by (rule mset_moved [OF assms(2)])
  then have "distinct (map ca_id m')"
    using assms(1) mset_eq_imp_distinct_iff [of "map ca_id m'" "map ca_id m"] by simp
  then have "find_index (ca_id (m' ! ?k)) m' = Some ?k"
    using k len lm' assms(2) by (intro find_index_distinct) auto
  moreover have "moveCategory m' ?k (m' ! ?k) to = MenuIs m'"
    unfolding nth moveCategory_def t option.case Let_def lm' rest by (simp add: m')
  ultimately show ?thesis using nth by auto
qed

lemma find_index_without:
  assumes "distinct (map ca_id m)" "find_index i m = Some n"
  shows "find_index i (without_index n m) = None"
proof -
  have n: "n < length m" "ca_id (m ! n) = i" using find_index_Some [OF assms(2)] by auto
  have "add_mset i (mset (map ca_id (without_index n m))) = mset (map ca_id m)"
    using arg_cong [OF without_index_mset [OF n(1)], of "image_mset ca_id"] n(2) by simp
  then have "distinct (i # map ca_id (without_index n m))"
    using assms(1) mset_eq_imp_distinct_iff [of "i # map ca_id (without_index n m)" "map ca_id m"] by simp
  then show ?thesis by (simp add: find_index_None)
qed

lemma createCategory_again:
  assumes "createCategory E m i input = MenuIs m'"
  shows "createCategory E m' i input = MenuIs m'"
proof (cases "find_index i m")
  case (Some n)
  with assms show ?thesis by (simp add: createCategory_def)
next
  case None
  obtain ft errors where cf: "categoryFields E input = (ft, errors)" by force
  with assms None obtain c where "m' = m @ [c]" "ca_id c = i"
    by (auto simp: createCategory_def Let_def withFields_def split: if_splits)
  then have "find_index i m' \<noteq> None" by (simp add: find_index_None)
  then show ?thesis by (auto simp: createCategory_def)
qed

lemma with_current_again:
  assumes "find_index i m' = Some n" "k n (m' ! n) = MenuIs m'"
  shows "with_current m' i k = MenuIs m'"
  using assms by (simp add: with_current_def)

lemma applyOperation_again:
  assumes E: "text_env_ok E" and ok: "menuSchema E m" and full: "full_form m op"
    and e: "applyOperation E m op = MenuIs m'"
  shows "applyOperation E m' op = MenuIs m'"
proof -
  have ok': "menuSchema E m'" by (rule applyOperation_menuSchema [OF E ok e])
  have ids: "distinct (map ca_id m)" using ok by (simp add: menuSchema_iff)
  show ?thesis
  proof (cases op)
    case (CategoryCreate i input)
    with e show ?thesis using createCategory_again by simp
  next
    case (CategoryEdit i input)
    with e obtain n where n: "find_index i m = Some n" "n < length m" "ca_id (m ! n) = i"
      and edit: "editCategory E m n (m ! n) input = MenuIs m'" by (auto elim!: with_current_MenuIs)
    have "find_index i m' = Some n"
      using edit n by (auto simp: editCategory_def Let_def withFields_def find_index_update
          split: if_splits prod.splits)
    with editCategory_again [OF n(2) edit] CategoryEdit show ?thesis
      by (simp add: with_current_again)
  next
    case (CategoryMove i to)
    with e obtain n where n: "n < length m" "ca_id (m ! n) = i"
      and move: "moveCategory m n (m ! n) to = MenuIs m'" by (auto elim!: with_current_MenuIs)
    with moveCategory_again [OF ids n(1) move] CategoryMove show ?thesis
      by (auto simp: with_current_again)
  next
    case (CategorySetState i state)
    with e obtain n where "find_index i m = Some n" "n < length m"
      "m' = m[n := (m ! n)\<lparr>ca_state := state\<rparr>]" by (auto elim!: with_current_MenuIs)
    with CategorySetState show ?thesis by (simp add: with_current_def find_index_update)
  next
    case (CategoryDelete i)
    with e ids show ?thesis by (auto simp: find_index_without split: option.splits)
  next
    case PublishAll
    with e show ?thesis by (auto simp: publish_def)
  next
    case MenuReset
    with e show ?thesis by auto
  next
    case (OptionsAdd i roleIds ack)
    with e obtain n where n: "find_index i m = Some n" "n < length m"
      and add: "addOptions m n (m ! n) roleIds = MenuIs m'" by (auto elim!: with_current_MenuIs)
    have "find_index i m' = Some n"
      using n addOptions_cases(1) [OF add] by (simp add: find_index_update)
    with addOptions_again [OF ok ok' n(2) add] OptionsAdd show ?thesis
      by (simp add: with_current_again)
  next
    case (OptionsEdit i rows)
    with e obtain n where n: "find_index i m = Some n" "n < length m"
      and edit: "editOptions E m n (m ! n) rows = MenuIs m'" by (auto elim!: with_current_MenuIs)
    have "find_index i m' = Some n"
      using n editOptions_cases(3) [OF edit] by (simp add: find_index_update)
    moreover have "set (category_roles (m ! n)) \<subseteq> set (map row_role rows)"
      using full n(1) OptionsEdit by (simp add: full_form_def)
    ultimately show ?thesis
      using editOptions_again [OF n(2) edit] OptionsEdit by (simp add: with_current_again)
  qed
qed

section \<open>The properties\<close>

text \<open>
  (C34) Every officer edit that the editor accepts, of a menu that the stored schema accepts, gives a
  menu that the stored schema accepts: no edit can store a menu that cannot be read back, with too
  many categories or options, with one role in two places, or with text that is not clean.
\<close>

theorem applyOperation_keeps_schema:
  assumes "text_env_ok E" "readMenu E m = Some m" "applyOperation E m op = MenuIs m'"
  shows "readMenu E m' = Some m'"
  using assms applyOperation_menuSchema [of E m op m'] by (simp add: readMenu_def split: if_splits)

text \<open>
  An edit sent twice changes nothing the second time: an accepted edit, applied again to the
  menu it gave, is accepted and gives that same menu, for every operation, when an options form
  names every option the category had.
\<close>

theorem applyOperation_twice:
  assumes "text_env_ok E" "readMenu E m = Some m" "full_form m op" "applyOperation E m op = MenuIs m'"
  shows "applyOperation E m' op = MenuIs m'"
  using assms applyOperation_again [of E m op m'] by (simp add: readMenu_def split: if_splits)

text \<open>A menu with two options, and a form that takes the first away and describes the second.\<close>

definition sample_env :: text_env where
  "sample_env = \<lparr>te_clean = (\<lambda>t. t), te_hidden = (\<lambda>c. c < 32), te_visible = (\<lambda>c. 32 < c),
     te_lower = (\<lambda>t. t), te_uuid = (\<lambda>i. i \<noteq> [])\<rparr>"

definition sample_option :: "ident \<Rightarrow> utext \<Rightarrow> self_role_option" where
  "sample_option i t = \<lparr>so_role = i, so_description = t, so_removalOnly = False\<rparr>"

definition sample_menu :: "self_role_option list \<Rightarrow> self_role_menu" where
  "sample_menu opts = [\<lparr>ca_id = ''c'', ca_name = [65], ca_description = [], ca_max = Some 1,
     ca_state = PublishedCategory, ca_options = opts\<rparr>]"

definition sample_form :: menu_operation where
  "sample_form = OptionsEdit ''c''
     [\<lparr>row_role = ''10'', row_description = [], row_position = Some 1, row_state = RowRemove\<rparr>,
      \<lparr>row_role = ''20'', row_description = [66], row_position = Some 1, row_state = RowOffered\<rparr>]"

lemmas sample_simps = sample_env_def sample_option_def sample_menu_def sample_form_def

lemma sample_env_ok: "text_env_ok sample_env"
  by (simp add: sample_env_def text_env_ok_def)

lemma sample_read: "readMenu sample_env (sample_menu [sample_option ''10'' [], sample_option ''20'' []]) =
    Some (sample_menu [sample_option ''10'' [], sample_option ''20'' []])"
  by (simp add: readMenu_def menuSchema_def sample_simps category_ok_def menuRoleIds_def category_roles_def
      js_set_def storedText_def textProblem_def drawn_def option_ok_def valid_role_def idSchema_def units_def
      is_nonzero_digit_def is_digit_def big_int_def MAX_ID_def limit_defs max_ok_def is_joiner_def
      characters_def Let_def)

lemma sample_edit: "applyOperation sample_env (sample_menu [sample_option ''10'' [], sample_option ''20'' []]) sample_form =
    MenuIs (sample_menu [sample_option ''20'' [66]])"
  by (simp add: sample_simps with_current_def editOptions_def js_set_def category_roles_def Let_def
      option_errors_def row_index_def row_errors_def field_problem_def textProblem_def drawn_def
      position_ok_def MAX_SAFE_INTEGER_def limit_defs characters_def is_joiner_def
      List.map_filter_simps place_option_def)

theorem applyOperation_keeps_schema_witness:
  "readMenu sample_env (sample_menu [sample_option ''20'' [66]]) =
     Some (sample_menu [sample_option ''20'' [66]])"
  by (rule applyOperation_keeps_schema [OF sample_env_ok sample_read sample_edit])

theorem applyOperation_twice_witness:
  "applyOperation sample_env (sample_menu [sample_option ''20'' [66]]) sample_form =
     MenuIs (sample_menu [sample_option ''20'' [66]])"
  by (rule applyOperation_twice [OF sample_env_ok sample_read _ sample_edit])
    (simp add: full_form_def sample_simps category_roles_def)

end
