(* ===== verification/Visibility.thy ===== *)
theory Visibility
  imports Permissions
begin

text \<open>
  What TaruBot can see of a server, \<open>src/domain/visibility.ts\<close>: the gateway's channels and guild,
  and which channels TaruBot cannot read. Snowflakes are their texts; overwrite strings are the
  numbers they denote.
\<close>

section \<open>The snapshot\<close>

datatype channel_type = GuildCategory | GuildVoice | GuildStageVoice | OtherChannel nat

record visibility_channel =
  vc_id :: ident
  vc_type :: channel_type
  vc_parent :: "ident option"
  vc_position :: int
  vc_overwrites :: "overwrite list"
  vc_obfuscated :: bool
  vc_fetched :: bool

record visibility_guild =
  vg_guild :: ident
  vg_botId :: ident
  vg_botRoles :: "ident list"
  vg_botRole :: "ident option"
  vg_roles :: "api_role list"
  vg_channels :: "visibility_channel list"
  vg_heldRoles :: "ident list"
  vg_communityUpdates :: "ident option"

definition unreadable :: "flag_bits \<Rightarrow> visibility_guild \<Rightarrow> visibility_channel \<Rightarrow> bool" where
  "unreadable P g c =
     (if vc_obfuscated c then True
      else if vc_fetched c then False
      else (case vc_overwrites c of
              [only] \<Rightarrow> ow_id only = vg_guild g \<and> ow_type only = OwRole \<and> ow_allow only = 0 \<and>
                        ow_deny only = P ViewChannel
            | _ \<Rightarrow> False))"

text \<open>
  What Discord promises of a snapshot: one role per ID, one overwrite per ID in a channel, the
  @everyone overwrite is a role's, and no ID is \<open>0\<close>.
\<close>

definition overwrites_ok :: "ident \<Rightarrow> overwrite list \<Rightarrow> bool" where
  "overwrites_ok g ows \<longleftrightarrow>
     distinct (map ow_id ows) \<and> list_all (\<lambda>e. ow_id e = g \<longrightarrow> ow_type e = OwRole) ows \<and>
     ''0'' \<notin> set (map ow_id ows)"

definition snapshot_ok :: "visibility_guild \<Rightarrow> bool" where
  "snapshot_ok g \<longleftrightarrow>
     distinct (map ar_id (vg_roles g)) \<and>
     list_all (\<lambda>c. overwrites_ok (vg_guild g) (vc_overwrites c)) (vg_channels g)"

section \<open>Display order\<close>

definition isCategory :: "visibility_channel \<Rightarrow> bool" where
  "isCategory c \<longleftrightarrow> vc_type c = GuildCategory"

definition byPosition :: "visibility_channel \<Rightarrow> visibility_channel \<Rightarrow> int" where
  "byPosition l r =
     (if vc_position l \<noteq> vc_position r then vc_position l - vc_position r
      else if id_number (vc_id l) = id_number (vc_id r) then 0
      else if id_number (vc_id l) < id_number (vc_id r) then -1 else 1)"

interpretation byPosition: comparator byPosition
  by unfold_locales (auto simp: byPosition_def split: if_splits)

definition displayOrder :: "visibility_channel list \<Rightarrow> visibility_channel list" where
  "displayOrder channels =
     (let categories = sort_by byPosition (filter isCategory channels);
          known = map vc_id categories
      in sort_by byPosition (filter (\<lambda>c. \<not> isCategory c \<and>
            \<not> (case vc_parent c of None \<Rightarrow> False | Some p \<Rightarrow> p \<noteq> [] \<and> p \<in> set known)) channels) @
         concat (map (\<lambda>k. k # sort_by byPosition
            (filter (\<lambda>c. \<not> isCategory c \<and> vc_parent c = Some (vc_id k)) channels)) categories))"

text \<open>Every channel is shown, and no other.\<close>

lemma set_displayOrder [simp]: "set (displayOrder channels) = set channels"
  by (auto simp: displayOrder_def Let_def split: option.splits)

end
