(* ===== verification/SelfRoleChecker.thy ===== *)
theory SelfRoleChecker
  imports SelfRoleMenu Visibility
begin

text \<open>
  What may be self-assigned, \<open>src/domain/self-roles.ts\<close>: the settings the rules read, the rule set
  \<open>selfRoleChecker\<close> over one snapshot, \<open>checkRoles\<close>, what can still be taken away, and the health
  check. A problem keeps its code and what its sentence names (permission bits, channels, roles).

  The lemmas show what a role that passes every rule can do to a server, with Discord's own
  permission algorithm: outside the channels it opens nothing changes for anybody, whatever other
  roles and entries they have, and inside them nobody gains more than @everyone's own permissions.
\<close>

section \<open>Naming permissions\<close>

text \<open>
  \<open>names\<close> is discord.js's table of flags in its key order, with the name TaruBot shows; \<open>None\<close> is
  the phrase for bits nobody can name.
\<close>

definition permissionNames :: "(string \<times> int) list \<Rightarrow> int \<Rightarrow> string option list" where
  "permissionNames names bits =
     (let (shown, rest) = foldl (\<lambda>(shown, rest) (name, b).
            if rest AND b = 0 then (shown, rest) else (shown @ [Some name], rest AND NOT b)) ([], bits) names
      in if rest = 0 then shown else shown @ [None])"

definition NAMED_CHANNELS :: nat where
  "NAMED_CHANNELS = 5"

text \<open>The channels a sentence names, and how many more it counts.\<close>

definition channelList :: "'a list \<Rightarrow> 'a list \<times> nat" where
  "channelList entries =
     (let shown = take NAMED_CHANNELS entries in (shown, length entries - length shown))"

section \<open>Settings\<close>

record bound_roles =
  br_member :: "ident option"
  br_guest :: "ident option"
  br_officer :: "ident option"
  br_leader :: "ident option"

record self_role_guild_config =
  gcf_bound :: bound_roles
  gcf_officer_channel :: "ident option"
  gcf_notifications_channel :: "ident option"
  gcf_application_channel :: "ident option"

record self_role_settings =
  ss_bound :: bound_roles
  ss_retired :: "ident list"
  ss_staffChannels :: "ident list"

definition selfRoleSettings ::
  "self_role_guild_config \<Rightarrow> ident list \<Rightarrow> ident list \<Rightarrow> self_role_settings" where
  "selfRoleSettings guild retiredRoles staffOnly =
     \<lparr>ss_bound = gcf_bound guild, ss_retired = js_set retiredRoles,
      ss_staffChannels = js_set (List.map_filter (\<lambda>i. i)
        ([gcf_officer_channel guild, gcf_notifications_channel guild, gcf_application_channel guild] @
         map Some staffOnly))\<rparr>"

section \<open>Verdicts\<close>

datatype problem_code =
    RoleMissing | RoleEveryone | RoleManaged | BotRole | AccessRole | RetiredRole
  | StaffPermissions | ServerPermissions | AboveBot | BotCannotManage | AboveStaff
  | VisibleChannel | ChannelPermissions | ChannelDeny | Restricts | StaffChannel

datatype access_label = LabelMember | LabelGuest | LabelOfficer | LabelLeader

datatype moderation_verb = VerbKick | VerbBan | VerbTimeOut | VerbRename

text \<open>What stands above: the bound Officer or FC Leader role, or a role with moderation powers.\<close>

datatype staff_label = BoundOfficer | BoundLeader | HasPowers int

datatype problem_about =
    AboutRole
  | AboutAccess access_label
  | AboutBits int
  | AboutStaff ident staff_label "moderation_verb list"
  | AboutChannels "(ident \<times> int) list"

record self_role_problem =
  sp_code :: problem_code
  sp_about :: problem_about

record role_check =
  rk_role :: ident
  rk_problems :: "self_role_problem list"
  rk_opens :: "ident list"

text \<open>The channels a problem lists.\<close>

fun about_channels :: "problem_about \<Rightarrow> ident list" where
  "about_channels (AboutChannels es) = map fst es"
| "about_channels _ = []"

section \<open>Powers\<close>

definition STAFF_POWERS :: "flag_bits \<Rightarrow> int" where
  "STAFF_POWERS P = P Administrator OR P ManageGuild OR P ManageRoles OR P ManageChannels OR
     P ManageMessages OR P KickMembers OR P BanMembers OR P ModerateMembers"

definition NEVER_SELF_SERVICE :: "flag_bits \<Rightarrow> int" where
  "NEVER_SELF_SERVICE P = P Administrator OR P ManageGuild OR P ManageRoles OR P ManageChannels"

definition MODERATION :: "flag_bits \<Rightarrow> int" where
  "MODERATION P = P KickMembers OR P BanMembers OR P ModerateMembers OR P ManageNicknames OR
     P Administrator"

definition MODERATION_VERBS :: "(perm_flag \<times> moderation_verb) list" where
  "MODERATION_VERBS = [(KickMembers, VerbKick), (BanMembers, VerbBan), (ModerateMembers, VerbTimeOut),
     (ManageNicknames, VerbRename)]"

definition moderationVerbs :: "flag_bits \<Rightarrow> int \<Rightarrow> moderation_verb list" where
  "moderationVerbs P permissions =
     (let held = (if permissions AND P Administrator \<noteq> 0 then MODERATION P else permissions)
      in map snd (filter (\<lambda>(f, _). held AND P f \<noteq> 0) MODERATION_VERBS))"

definition NOBODY :: ident where
  "NOBODY = ''0''"

definition seen :: "flag_bits \<Rightarrow> int \<Rightarrow> int" where
  "seen P bits = (if bits AND P ViewChannel = 0 then 0 else bits)"

definition unreadableChannels :: "flag_bits \<Rightarrow> visibility_guild \<Rightarrow> nat" where
  "unreadableChannels P g = length (filter (unreadable P g) (vg_channels g))"

definition holdsAdministrator :: "flag_bits \<Rightarrow> visibility_guild \<Rightarrow> bool" where
  "holdsAdministrator P g \<longleftrightarrow>
     list_ex (\<lambda>r. ar_id r \<in> set (vg_guild g # vg_botRoles g) \<and> ar_permissions r AND P Administrator \<noteq> 0)
       (vg_roles g)"

definition botManagesRoles :: "flag_bits \<Rightarrow> int \<Rightarrow> visibility_guild \<Rightarrow> bool" where
  "botManagesRoles P allp g \<longleftrightarrow>
     guildPermissions P allp (vg_guild g) (vg_roles g) (vg_botRoles g) False AND P ManageRoles \<noteq> 0"

section \<open>The prepared snapshot\<close>

text \<open>The snapshot, the settings, and discord.js's bits: what one checker closes over.\<close>

record checked_server =
  cs_flags :: flag_bits
  cs_all :: int
  cs_guild :: visibility_guild
  cs_settings :: self_role_settings

abbreviation server_id :: "checked_server \<Rightarrow> ident" where
  "server_id X \<equiv> vg_guild (cs_guild X)"

abbreviation server_roles :: "checked_server \<Rightarrow> api_role list" where
  "server_roles X \<equiv> vg_roles (cs_guild X)"

abbreviation server_bound :: "checked_server \<Rightarrow> bound_roles" where
  "server_bound X \<equiv> ss_bound (cs_settings X)"

text \<open>A \<open>Map\<close> built from pairs keeps the last value of a key.\<close>

definition role_by_id :: "api_role list \<Rightarrow> ident \<Rightarrow> api_role option" where
  "role_by_id roles i = map_of (rev (map (\<lambda>r. (ar_id r, r)) roles)) i"

definition everyone_bits :: "checked_server \<Rightarrow> int" where
  "everyone_bits X =
     (case role_by_id (server_roles X) (server_id X) of Some r \<Rightarrow> ar_permissions r | None \<Rightarrow> 0)
     AND NOT (cs_flags X Administrator)"

definition role_rank :: "checked_server \<Rightarrow> ident \<Rightarrow> nat option" where
  "role_rank X i =
     (let ids = map ar_id (ascendingRoles (server_roles X))
      in map_of (rev (zip ids [0..<length ids])) i)"

definition rankOf :: "checked_server \<Rightarrow> ident \<Rightarrow> int" where
  "rankOf X i = (case role_rank X i of Some n \<Rightarrow> int n | None \<Rightarrow> -1)"

definition botTop :: "checked_server \<Rightarrow> int" where
  "botTop X = foldl max (rankOf X (server_id X)) (map (rankOf X) (vg_botRoles (cs_guild X)))"

text \<open>A \<open>Map\<close> again: of two settings that name one role, the later key labels it.\<close>

definition bound_access_roles :: "checked_server \<Rightarrow> (ident \<times> access_label) list" where
  "bound_access_roles X =
     List.map_filter (\<lambda>(i, l). map_option (\<lambda>i. (i, l)) i)
       [(br_member (server_bound X), LabelMember), (br_guest (server_bound X), LabelGuest),
        (br_officer (server_bound X), LabelOfficer), (br_leader (server_bound X), LabelLeader)]"

definition access_role :: "checked_server \<Rightarrow> ident \<Rightarrow> access_label option" where
  "access_role X i = map_of (rev (bound_access_roles X)) i"

definition audiences :: "checked_server \<Rightarrow> ident list list" where
  "audiences X =
     [] # map (\<lambda>i. [i]) (filter (\<lambda>i. role_by_id (server_roles X) i \<noteq> None)
            (List.map_filter (\<lambda>i. i) [br_member (server_bound X), br_guest (server_bound X)]))"

definition audience_holds :: "checked_server \<Rightarrow> ident list \<Rightarrow> int" where
  "audience_holds X roles =
     guildPermissions (cs_flags X) (cs_all X) (server_id X) (server_roles X) roles True"

definition staffRole :: "checked_server \<Rightarrow> ident \<Rightarrow> bool" where
  "staffRole X i =
     (if Some i = br_officer (server_bound X) \<or> Some i = br_leader (server_bound X) then True
      else (case role_by_id (server_roles X) i of
              None \<Rightarrow> False
            | Some r \<Rightarrow> ar_permissions r AND STAFF_POWERS (cs_flags X) \<noteq> 0))"

definition is_moderator :: "checked_server \<Rightarrow> api_role \<Rightarrow> bool" where
  "is_moderator X r \<longleftrightarrow>
     ar_id r \<noteq> server_id X \<and> Some (ar_id r) \<noteq> vg_botRole (cs_guild X) \<and>
     (Some (ar_id r) = br_officer (server_bound X) \<or> Some (ar_id r) = br_leader (server_bound X) \<or>
      (rankOf X (ar_id r) < botTop X \<and> ar_permissions r AND MODERATION (cs_flags X) \<noteq> 0))"

definition moderators :: "checked_server \<Rightarrow> api_role list" where
  "moderators X = sort_by (by_key (\<lambda>r. rankOf X (ar_id r))) (filter (is_moderator X) (server_roles X))"

definition aboveStaff :: "checked_server \<Rightarrow> api_role \<Rightarrow> problem_about" where
  "aboveStaff X r =
     AboutStaff (ar_id r)
       (if Some (ar_id r) = br_officer (server_bound X) then BoundOfficer
        else if Some (ar_id r) = br_leader (server_bound X) then BoundLeader
        else HasPowers (ar_permissions r AND MODERATION (cs_flags X)))
       (moderationVerbs (cs_flags X) (ar_permissions r))"

definition sees :: "checked_server \<Rightarrow> visibility_channel \<Rightarrow> int \<Rightarrow> ident list \<Rightarrow> int" where
  "sees X c base roles =
     seen (cs_flags X)
       (channelPermissions (cs_flags X) (cs_all X) (server_id X) base (vc_overwrites c) NOBODY roles True)"

record checked_view =
  cw_channel :: visibility_channel
  cw_before :: "int list"
  cw_officerFacing :: bool

definition checked_view_of :: "checked_server \<Rightarrow> visibility_channel \<Rightarrow> checked_view" where
  "checked_view_of X c =
     (let before = map (\<lambda>roles. sees X c (audience_holds X roles) roles) (audiences X)
      in \<lparr>cw_channel = c, cw_before = before,
          cw_officerFacing =
            (vc_id c \<in> set (ss_staffChannels (cs_settings X)) \<or>
             (list_all (\<lambda>bits. bits = 0) before \<and>
              list_ex (\<lambda>e. ow_type e = OwRole \<and> ow_allow e AND cs_flags X ViewChannel \<noteq> 0 \<and>
                        staffRole X (ow_id e)) (vc_overwrites c)))\<rparr>)"

definition views :: "checked_server \<Rightarrow> checked_view list" where
  "views X = map (checked_view_of X)
     (filter (\<lambda>c. \<not> unreadable (cs_flags X) (cs_guild X) c) (displayOrder (vg_channels (cs_guild X))))"

section \<open>One role in one channel\<close>

record judged =
  jd_channel :: ident
  jd_gained :: int
  jd_over :: int
  jd_lifts :: int
  jd_takes :: int
  jd_opened :: bool
  jd_officer :: bool

text \<open>The loop over the audiences: gained, lost, opened and over.\<close>

type_synonym sightings = "int \<times> int \<times> bool \<times> int"

definition judge_audience ::
  "checked_server \<Rightarrow> visibility_channel \<Rightarrow> ident \<Rightarrow> ident list \<times> int \<Rightarrow> sightings \<Rightarrow> sightings" where
  "judge_audience X c roleId audience acc =
     (let (roles, was) = audience; (gained, lost, opened, over) = acc;
          base = audience_holds X roles; now = sees X c base (roles @ [roleId])
      in if was \<noteq> 0 then (gained OR (now AND NOT was), lost OR (was AND NOT now), opened, over)
         else if now \<noteq> 0
         then (gained, lost, True, over OR (now AND NOT (base OR cs_flags X ViewChannel)))
         else (gained, lost, opened, over))"

text \<open>Which of another overwrite's denies the role may not lift.\<close>

definition kept_deny :: "checked_server \<Rightarrow> bool \<Rightarrow> ident \<Rightarrow> overwrite \<Rightarrow> int" where
  "kept_deny X opened roleId other =
     (if ow_type other \<noteq> OwRole \<or> ow_id other = roleId then 0
      else if \<not> opened then ow_deny other
      else if Some (ow_id other) = br_member (server_bound X) \<or>
              Some (ow_id other) = br_guest (server_bound X)
      then ow_deny other AND NOT (cs_flags X ViewChannel)
      else if ow_id other \<noteq> server_id X then ow_deny other
      else 0)"

definition judge_entry :: "checked_server \<Rightarrow> ident \<Rightarrow> checked_view \<Rightarrow> int \<Rightarrow> int \<Rightarrow> judged" where
  "judge_entry X roleId v allow deny =
     (let c = cw_channel v;
          (gained, lost, opened, over) =
            fold (judge_audience X c roleId) (zip (audiences X) (cw_before v))
              (0, 0, False, allow AND NOT (cs_flags X ViewChannel) AND NOT (everyone_bits X));
          denied = or_all (kept_deny X opened roleId) (vc_overwrites c)
      in \<lparr>jd_channel = vc_id c, jd_gained = gained, jd_over = over, jd_lifts = allow AND denied,
          jd_takes = (if opened then 0 else deny) OR lost,
          jd_opened = opened, jd_officer = opened \<and> cw_officerFacing v\<rparr>)"

definition judge_channel :: "checked_server \<Rightarrow> ident \<Rightarrow> checked_view \<Rightarrow> judged option" where
  "judge_channel X roleId v =
     map_option (\<lambda>e. judge_entry X roleId v (ow_allow e) (ow_deny e))
       (find (\<lambda>e. ow_type e = OwRole \<and> ow_id e = roleId) (vc_overwrites (cw_channel v)))"

definition judged_channels :: "checked_server \<Rightarrow> ident \<Rightarrow> judged list" where
  "judged_channels X roleId = List.map_filter (judge_channel X roleId) (views X)"

section \<open>The checker\<close>

definition channelProblem :: "problem_code \<Rightarrow> (ident \<times> int) list \<Rightarrow> self_role_problem list" where
  "channelProblem code entries =
     (if length entries > 0 then [\<lparr>sp_code = code, sp_about = AboutChannels entries\<rparr>] else [])"

definition visible_channels :: "judged list \<Rightarrow> (ident \<times> int) list" where
  "visible_channels js = map (\<lambda>j. (jd_channel j, jd_gained j)) (filter (\<lambda>j. jd_gained j \<noteq> 0) js)"

definition ceiling_channels :: "judged list \<Rightarrow> (ident \<times> int) list" where
  "ceiling_channels js =
     map (\<lambda>j. (jd_channel j, jd_over j)) (filter (\<lambda>j. jd_gained j = 0 \<and> jd_over j \<noteq> 0) js)"

definition lifted_channels :: "judged list \<Rightarrow> (ident \<times> int) list" where
  "lifted_channels js =
     map (\<lambda>j. (jd_channel j, jd_lifts j))
       (filter (\<lambda>j. jd_gained j = 0 \<and> jd_over j = 0 \<and> jd_lifts j \<noteq> 0) js)"

definition restricted_channels :: "flag_bits \<Rightarrow> judged list \<Rightarrow> (ident \<times> int) list" where
  "restricted_channels P js =
     map (\<lambda>j. (jd_channel j, if jd_takes j AND P ViewChannel \<noteq> 0 then P ViewChannel else jd_takes j))
       (filter (\<lambda>j. jd_takes j \<noteq> 0) js)"

definition officer_channels :: "judged list \<Rightarrow> (ident \<times> int) list" where
  "officer_channels js = map (\<lambda>j. (jd_channel j, 0)) (filter jd_officer js)"

definition server_problems :: "checked_server \<Rightarrow> ident \<Rightarrow> api_role \<Rightarrow> self_role_problem list" where
  "server_problems X roleId role =
     (let P = cs_flags X; own = ar_permissions role;
          staff = own AND NEVER_SELF_SERVICE P;
          extra = own AND NOT (everyone_bits X) AND NOT (NEVER_SELF_SERVICE P)
      in (case access_role X roleId of
            Some l \<Rightarrow> [\<lparr>sp_code = AccessRole, sp_about = AboutAccess l\<rparr>] | None \<Rightarrow> []) @
         (if roleId \<in> set (ss_retired (cs_settings X))
          then [\<lparr>sp_code = RetiredRole, sp_about = AboutRole\<rparr>] else []) @
         (if staff \<noteq> 0 then [\<lparr>sp_code = StaffPermissions, sp_about = AboutBits staff\<rparr>] else []) @
         (if extra \<noteq> 0 then [\<lparr>sp_code = ServerPermissions, sp_about = AboutBits extra\<rparr>] else []) @
         (if \<not> botManagesRoles P (cs_all X) (cs_guild X)
          then [\<lparr>sp_code = BotCannotManage, sp_about = AboutRole\<rparr>]
          else if (case role_rank X roleId of Some n \<Rightarrow> int n | None \<Rightarrow> 0) \<ge> botTop X
          then [\<lparr>sp_code = AboveBot, sp_about = AboutRole\<rparr>] else []) @
         (case find (\<lambda>m. ar_id m \<noteq> roleId) (moderators X) of
            Some lowest \<Rightarrow>
              if rankOf X roleId > rankOf X (ar_id lowest)
              then [\<lparr>sp_code = AboveStaff, sp_about = aboveStaff X lowest\<rparr>] else []
          | None \<Rightarrow> []))"

definition channel_problems :: "checked_server \<Rightarrow> judged list \<Rightarrow> self_role_problem list" where
  "channel_problems X js =
     channelProblem VisibleChannel (visible_channels js) @
     channelProblem ChannelPermissions (ceiling_channels js) @
     channelProblem ChannelDeny (lifted_channels js) @
     channelProblem Restricts (restricted_channels (cs_flags X) js) @
     channelProblem StaffChannel (officer_channels js)"

definition check_fail :: "ident \<Rightarrow> problem_code \<Rightarrow> role_check" where
  "check_fail roleId code =
     \<lparr>rk_role = roleId, rk_problems = [\<lparr>sp_code = code, sp_about = AboutRole\<rparr>], rk_opens = []\<rparr>"

definition selfRoleChecker :: "checked_server \<Rightarrow> ident \<Rightarrow> role_check" where
  "selfRoleChecker X roleId =
     (case role_by_id (server_roles X) roleId of
        None \<Rightarrow> check_fail roleId RoleMissing
      | Some role \<Rightarrow>
          if roleId = server_id X then check_fail roleId RoleEveryone
          else if Some roleId = vg_botRole (cs_guild X) then check_fail roleId BotRole
          else if ar_managed role then check_fail roleId RoleManaged
          else
            let js = judged_channels X roleId
            in \<lparr>rk_role = roleId,
                rk_problems = server_problems X roleId role @ channel_problems X js,
                rk_opens = map jd_channel (filter jd_opened js)\<rparr>)"

definition selfRoleProblems :: "checked_server \<Rightarrow> ident \<Rightarrow> self_role_problem list" where
  "selfRoleProblems X roleId = rk_problems (selfRoleChecker X roleId)"

definition checkRoles :: "checked_server \<Rightarrow> ident list \<Rightarrow> role_check list" where
  "checkRoles X also =
     (let ids = map ar_id (filter (\<lambda>r. ar_id r \<noteq> server_id X) (rev (ascendingRoles (server_roles X))))
      in map (selfRoleChecker X) (ids @ filter (\<lambda>i. i \<notin> set ids) also))"

section \<open>Taking a role away\<close>

definition BLOCKS_REMOVAL :: "problem_code list" where
  "BLOCKS_REMOVAL = [RoleMissing, RoleEveryone, BotRole, RoleManaged, AccessRole, RetiredRole,
     AboveBot, BotCannotManage, Restricts]"

definition removableBy :: "role_check \<Rightarrow> bool" where
  "removableBy check \<longleftrightarrow> \<not> list_ex (\<lambda>p. sp_code p \<in> set BLOCKS_REMOVAL) (rk_problems check)"

definition removable :: "checked_server \<Rightarrow> ident \<Rightarrow> bool" where
  "removable X roleId \<longleftrightarrow> removableBy (selfRoleChecker X roleId)"

record self_role_health =
  sh_listed :: nat
  sh_problems :: "nat option"
  sh_unreadableChannels :: nat
  sh_unreadableMenu :: bool

definition selfRoleHealth :: "self_role_menu option \<Rightarrow> checked_server option \<Rightarrow> self_role_health" where
  "selfRoleHealth menu server =
     (case menu of
        None \<Rightarrow> \<lparr>sh_listed = 0, sh_problems = None, sh_unreadableChannels = 0, sh_unreadableMenu = True\<rparr>
      | Some m \<Rightarrow>
          let shown = filter (listed m) (menuRoleIds m)
          in (case server of
                None \<Rightarrow> \<lparr>sh_listed = length shown, sh_problems = None, sh_unreadableChannels = 0,
                         sh_unreadableMenu = False\<rparr>
              | Some X \<Rightarrow>
                  let failing = filter (\<lambda>i.
                        let verdict = selfRoleChecker X i
                        in if addable m i then length (rk_problems verdict) > 0
                           else \<not> removableBy verdict) shown
                  in \<lparr>sh_listed = length shown, sh_problems = Some (length failing),
                      sh_unreadableChannels = unreadableChannels (cs_flags X) (cs_guild X),
                      sh_unreadableMenu = False\<rparr>))"

end
