(* ===== verification/SelfRoleSafety.thy ===== *)
theory SelfRoleSafety
  imports SelfRoleChecker
begin

text \<open>
  What a role that passes the self-service checker can do, judged with Discord's own permission
  algorithm. The definitions are in SelfRoleChecker; \<open>snapshot_ok\<close> is what Discord promises of a
  snapshot.
\<close>

section \<open>One more role in the algorithm\<close>

definition role_says ::
  "(overwrite \<Rightarrow> int) \<Rightarrow> ident \<Rightarrow> overwrite list \<Rightarrow> ident list \<Rightarrow> nat \<Rightarrow> bool" where
  "role_says f g ows roles n \<longleftrightarrow>
     (\<exists>e \<in> set ows. ow_type e = OwRole \<and> ow_id e \<noteq> g \<and> ow_id e \<in> set roles \<and> bit (f e) n)"

lemma decided_bit_layers:
  "decided_bit g base ows m roles n =
     entry_layer (find (\<lambda>e. ow_type e = OwMember \<and> ow_id e = m) ows) n
       (role_says ow_allow g ows roles n \<or>
        (entry_layer (find (\<lambda>e. ow_id e = g) ows) n (base n) \<and> \<not> role_says ow_deny g ows roles n))"
  by (simp add: decided_bit_def role_says_def)

lemma role_entry_unique:
  assumes "distinct (map ow_id ows)" "find (\<lambda>e. ow_type e = OwRole \<and> ow_id e = r) ows = Some e"
    "x \<in> set ows" "ow_id x = r"
  shows "x = e"
  using assms find_Some_mem [OF assms(2)] by (auto simp: distinct_map inj_on_def)

lemma role_says_more:
  assumes "distinct (map ow_id ows)" "r \<noteq> g"
    "find (\<lambda>e. ow_type e = OwRole \<and> ow_id e = r) ows = Some e"
  shows "role_says f g ows (r # roles) n \<longleftrightarrow> bit (f e) n \<or> role_says f g ows roles n"
  using assms find_Some_mem [OF assms(3)] role_entry_unique [OF assms(1,3)]
  unfolding role_says_def by auto

lemma role_says_no_entry:
  assumes "find (\<lambda>e. ow_type e = OwRole \<and> ow_id e = r) ows = None"
  shows "role_says f g ows (r # roles) n = role_says f g ows roles n"
  using assms unfolding role_says_def by (auto simp: find_None_mem)

lemma entry_layer_mono: "(p \<Longrightarrow> q) \<Longrightarrow> entry_layer e n p \<Longrightarrow> entry_layer e n q"
  by (auto simp: entry_layer_def split: option.splits)

text \<open>What the role's own entry may do without changing a bit: allow what is already held.\<close>

lemma decided_bit_same:
  assumes "distinct (map ow_id ows)" "r \<noteq> g"
    and e: "find (\<lambda>e. ow_type e = OwRole \<and> ow_id e = r) ows = Some e"
    and deny: "\<not> bit (ow_deny e) n"
    and allow: "bit (ow_allow e) n \<Longrightarrow>
      entry_layer (find (\<lambda>e. ow_id e = g) ows) n (base n) \<and> \<not> role_says ow_deny g ows roles n"
  shows "decided_bit g base ows m (r # roles) n = decided_bit g base ows m roles n"
  using deny allow unfolding decided_bit_layers role_says_more [OF assms(1-3)]
  by (cases "bit (ow_allow e) n") simp_all

lemma decided_bit_gain:
  assumes "distinct (map ow_id ows)" "r \<noteq> g"
    and e: "find (\<lambda>e. ow_type e = OwRole \<and> ow_id e = r) ows = Some e"
    and gain: "decided_bit g base ows m (r # roles) n" "\<not> decided_bit g base ows m roles n"
  shows "bit (ow_allow e) n"
proof (rule ccontr)
  assume "\<not> bit (ow_allow e) n"
  then have "decided_bit g base ows m roles n"
    using gain(1) unfolding decided_bit_layers role_says_more [OF assms(1-3)]
    by (elim entry_layer_mono [rotated]) blast
  with gain(2) show False by simp
qed

section \<open>The prepared snapshot\<close>

lemma role_by_id_Some: "role_by_id roles i = Some r \<Longrightarrow> r \<in> set roles \<and> ar_id r = i"
  unfolding role_by_id_def by (auto dest!: map_of_SomeD)

lemma role_by_id_unique:
  assumes "distinct (map ar_id roles)" "role_by_id roles i = Some r" "x \<in> set roles" "ar_id x = i"
  shows "x = r"
  using assms role_by_id_Some [OF assms(2)] by (auto simp: distinct_map inj_on_def)

lemma snapshot_roles: "snapshot_ok (cs_guild X) \<Longrightarrow> distinct (map ar_id (server_roles X))"
  by (simp add: snapshot_ok_def)

lemma snapshot_overwrites:
  "snapshot_ok (cs_guild X) \<Longrightarrow> c \<in> set (vg_channels (cs_guild X)) \<Longrightarrow>
     overwrites_ok (server_id X) (vc_overwrites c)"
  by (simp add: snapshot_ok_def list_all_iff)

text \<open>@everyone's server-wide bits are among any member's.\<close>

lemma everyone_bits_held:
  assumes "bit (everyone_bits X) n"
  shows "bit (guildPermissions (cs_flags X) (cs_all X) (server_id X) (server_roles X) roles True) n"
  using assms
  by (auto simp: everyone_bits_def bits_simps bit_guildPermissions_ignore dest!: role_by_id_Some
      split: option.splits)

lemma guildPermissions_same:
  assumes roles: "distinct (map ar_id rs)" "role_by_id rs r = Some role"
    and own: "\<And>n. bit (ar_permissions role) n \<Longrightarrow> \<exists>x \<in> set rs. ar_id x = g \<and> bit (ar_permissions x) n"
  shows "guildPermissions P allp g rs (r # roles) ign = guildPermissions P allp g rs roles ign"
proof -
  have "or_all ar_permissions (filter (\<lambda>x. ar_id x \<in> set (g # r # roles)) rs) =
      or_all ar_permissions (filter (\<lambda>x. ar_id x \<in> set (g # roles)) rs)"
  proof (rule bit_eqI)
    fix n
    show "bit (or_all ar_permissions (filter (\<lambda>x. ar_id x \<in> set (g # r # roles)) rs)) n =
        bit (or_all ar_permissions (filter (\<lambda>x. ar_id x \<in> set (g # roles)) rs)) n"
      using own [of n] role_by_id_unique [OF roles] by (auto simp: bits_simps)
  qed
  then show ?thesis by (simp add: guildPermissions_def)
qed

section \<open>What passing means\<close>

definition passes :: "checked_server \<Rightarrow> ident \<Rightarrow> bool" where
  "passes X r \<longleftrightarrow> selfRoleProblems X r = []"

lemma channelProblem_Nil [simp]: "channelProblem code es = [] \<longleftrightarrow> es = []"
  by (simp add: channelProblem_def)

lemma channel_problems_Nil:
  "channel_problems X js = [] \<longleftrightarrow>
     (\<forall>j \<in> set js. jd_gained j = 0 \<and> jd_over j = 0 \<and> jd_lifts j = 0 \<and> jd_takes j = 0 \<and> \<not> jd_officer j)"
  by (auto simp: channel_problems_def visible_channels_def ceiling_channels_def lifted_channels_def
      restricted_channels_def officer_channels_def filter_empty_conv)

lemma passesD:
  assumes "passes X r"
  obtains role where "role_by_id (server_roles X) r = Some role" "r \<noteq> server_id X"
    "Some r \<noteq> vg_botRole (cs_guild X)" "\<not> ar_managed role" "server_problems X r role = []"
    "channel_problems X (judged_channels X r) = []"
    "selfRoleChecker X r = \<lparr>rk_role = r, rk_problems = [],
       rk_opens = map jd_channel (filter jd_opened (judged_channels X r))\<rparr>"
proof -
  from assms obtain role where "role_by_id (server_roles X) r = Some role"
    by (auto simp: passes_def selfRoleProblems_def selfRoleChecker_def check_fail_def
        split: option.splits)
  with assms that show thesis
    by (auto simp: passes_def selfRoleProblems_def selfRoleChecker_def check_fail_def Let_def
        split: if_splits)
qed

lemma server_problems_Nil:
  assumes "server_problems X r role = []"
  shows "access_role X r = None" "r \<notin> set (ss_retired (cs_settings X))"
    "ar_permissions role AND NEVER_SELF_SERVICE (cs_flags X) = 0"
    "ar_permissions role AND NOT (everyone_bits X) AND NOT (NEVER_SELF_SERVICE (cs_flags X)) = 0"
    "botManagesRoles (cs_flags X) (cs_all X) (cs_guild X)"
    "(case role_rank X r of Some n \<Rightarrow> int n | None \<Rightarrow> 0) < botTop X"
    "\<And>m. find (\<lambda>m. ar_id m \<noteq> r) (moderators X) = Some m \<Longrightarrow> rankOf X r \<le> rankOf X (ar_id m)"
  using assms by (auto simp: server_problems_def Let_def split: option.splits if_splits)

lemma server_bits_le:
  assumes "server_problems X r role = []" "bit (ar_permissions role) n"
  shows "bit (everyone_bits X) n"
  using server_problems_Nil(3,4) [OF assms(1)] assms(2)
  by (auto simp: and_eq_zero_iff bits_simps bit_not_iff)

lemma server_base_same:
  assumes "snapshot_ok (cs_guild X)" "role_by_id (server_roles X) r = Some role"
    "server_problems X r role = []"
  shows "guildPermissions (cs_flags X) (cs_all X) (server_id X) (server_roles X) (r # roles) ign =
    guildPermissions (cs_flags X) (cs_all X) (server_id X) (server_roles X) roles ign"
proof (rule guildPermissions_same [OF snapshot_roles [OF assms(1)] assms(2)])
  fix n
  assume "bit (ar_permissions role) n"
  then have "bit (everyone_bits X) n" by (rule server_bits_le [OF assms(3)])
  then show "\<exists>x \<in> set (server_roles X). ar_id x = server_id X \<and> bit (ar_permissions x) n"
    by (auto simp: everyone_bits_def bits_simps dest!: role_by_id_Some split: option.splits)
qed

section \<open>One channel\<close>

lemma sees_nonzero: "sees X c base roles \<noteq> 0 \<longleftrightarrow>
    channelPermissions (cs_flags X) (cs_all X) (server_id X) base (vc_overwrites c) NOBODY roles True
      AND cs_flags X ViewChannel \<noteq> 0"
  by (auto simp: sees_def seen_def)

lemma judge_audience_step:
  assumes "judge_audience X c r (roles, was) (g0, l0, o0, v0) = (g, l, opened, v)"
  shows "opened \<longleftrightarrow> o0 \<or> (was = 0 \<and> sees X c (audience_holds X roles) (roles @ [r]) \<noteq> 0)"
    and "bit v0 n \<Longrightarrow> bit v n"
  using assms by (auto simp: judge_audience_def Let_def bit_or_iff split: if_splits)

lemma judge_audiences:
  assumes "fold (judge_audience X c r) as (g0, l0, o0, v0) = (g, l, opened, v)"
  shows "(opened \<longleftrightarrow> o0 \<or> (\<exists>(roles, was) \<in> set as.
            was = 0 \<and> sees X c (audience_holds X roles) (roles @ [r]) \<noteq> 0)) \<and>
         (bit v0 n \<longrightarrow> bit v n)"
  using assms
proof (induction as arbitrary: g0 l0 o0 v0)
  case (Cons a as)
  obtain roles was where a: "a = (roles, was)" by force
  obtain g1 l1 o1 v1 where step: "judge_audience X c r (roles, was) (g0, l0, o0, v0) = (g1, l1, o1, v1)"
    by (metis prod_cases4)
  then have "fold (judge_audience X c r) as (g1, l1, o1, v1) = (g, l, opened, v)"
    using Cons.prems by (simp add: a)
  from Cons.IH [OF this] judge_audience_step [OF step] show ?case by (auto simp: a)
qed simp

lemma judge_entry_opened:
  "jd_opened (judge_entry X r (checked_view_of X c) a d) \<longleftrightarrow>
     (\<exists>roles \<in> set (audiences X). sees X c (audience_holds X roles) roles = 0 \<and>
        sees X c (audience_holds X roles) (roles @ [r]) \<noteq> 0)"
proof -
  let ?as = "zip (audiences X) (cw_before (checked_view_of X c))"
  have "?as = map (\<lambda>roles. (roles, sees X c (audience_holds X roles) roles)) (audiences X)"
    by (simp add: checked_view_of_def Let_def zip_map2 zip_same_conv_map)
  then have as: "set ?as = (\<lambda>roles. (roles, sees X c (audience_holds X roles) roles)) ` set (audiences X)"
    by simp
  obtain g l opened v where f: "fold (judge_audience X c r) ?as
      (0, 0, False, a AND NOT (cs_flags X ViewChannel) AND NOT (everyone_bits X)) = (g, l, opened, v)"
    by (metis prod_cases4)
  have "jd_opened (judge_entry X r (checked_view_of X c) a d) = opened"
    using f by (simp add: judge_entry_def checked_view_of_def Let_def)
  then show ?thesis using judge_audiences [OF f] unfolding as by auto
qed

lemma judge_entry_over:
  assumes "jd_over (judge_entry X r v a d) = 0" "bit a n" "\<not> bit (cs_flags X ViewChannel) n"
  shows "bit (everyone_bits X) n"
proof -
  let ?over = "a AND NOT (cs_flags X ViewChannel) AND NOT (everyone_bits X)"
  obtain g l opened over where f: "fold (judge_audience X (cw_channel v) r)
      (zip (audiences X) (cw_before v)) (0, 0, False, ?over) = (g, l, opened, over)"
    by (metis prod_cases4)
  then have "over = 0" using assms(1) by (simp add: judge_entry_def Let_def)
  then have "\<not> bit ?over n" using judge_audiences [OF f, of n] by auto
  with assms(2,3) show ?thesis by (simp add: bit_and_iff bit_not_iff)
qed

lemma judge_entry_takes:
  assumes "jd_takes (judge_entry X r v a d) = 0" "\<not> jd_opened (judge_entry X r v a d)"
  shows "d = 0"
proof -
  have "\<not> bit d n" for n
    using assms by (auto simp: judge_entry_def Let_def bit_eq_iff bit_or_iff split: prod.splits)
  then show ?thesis by (auto simp: bit_eq_iff)
qed

lemma judge_entry_lifts:
  assumes "jd_lifts (judge_entry X r v a d) = 0" "\<not> jd_opened (judge_entry X r v a d)"
    "x \<in> set (vc_overwrites (cw_channel v))" "ow_type x = OwRole" "ow_id x \<noteq> r" "bit a n"
  shows "\<not> bit (ow_deny x) n"
proof -
  have "a AND or_all (kept_deny X False r) (vc_overwrites (cw_channel v)) = 0"
    using assms(1,2) by (auto simp: judge_entry_def Let_def split: prod.splits)
  then have "\<not> bit (kept_deny X False r x) n"
    using assms(3,6) by (auto simp: and_eq_zero_iff bits_simps)
  then show ?thesis using assms(4,5) by (simp add: kept_deny_def)
qed

section \<open>A passing role in one channel\<close>

lemma judged_in:
  assumes "c \<in> set (vg_channels (cs_guild X))" "\<not> unreadable (cs_flags X) (cs_guild X) c"
    "find (\<lambda>e. ow_type e = OwRole \<and> ow_id e = r) (vc_overwrites c) = Some e"
  shows "judge_entry X r (checked_view_of X c) (ow_allow e) (ow_deny e) \<in> set (judged_channels X r)"
proof -
  have "checked_view_of X c \<in> set (views X)" using assms(1,2) by (simp add: views_def)
  moreover have "judge_channel X r (checked_view_of X c) =
      Some (judge_entry X r (checked_view_of X c) (ow_allow e) (ow_deny e))"
    using assms(3) by (simp add: judge_channel_def checked_view_of_def Let_def)
  ultimately show ?thesis by (force simp: judged_channels_def List.map_filter_def)
qed

lemma overwrites_okD:
  assumes "overwrites_ok g ows"
  shows "distinct (map ow_id ows)" "x \<in> set ows \<Longrightarrow> ow_id x = g \<Longrightarrow> ow_type x = OwRole"
    "find (\<lambda>e. ow_type e = OwMember \<and> ow_id e = NOBODY) ows = None"
  using assms by (auto simp: overwrites_ok_def list_all_iff NOBODY_def find_None_mem image_iff)

text \<open>Whether an audience sees a channel: the View Channel bit, with no member entry in the way.\<close>

lemma sees_decided:
  assumes "overwrites_ok (server_id X) (vc_overwrites c)" "cs_flags X ViewChannel = 2 ^ k"
  shows "sees X c base roles \<noteq> 0 \<longleftrightarrow>
    role_says ow_allow (server_id X) (vc_overwrites c) roles k \<or>
    (entry_layer (find (\<lambda>e. ow_id e = server_id X) (vc_overwrites c)) k
       (bit base k \<and> \<not> bit (cs_flags X Administrator) k) \<and>
     \<not> role_says ow_deny (server_id X) (vc_overwrites c) roles k)"
proof -
  have "\<And>n. bit (cs_flags X ViewChannel) n \<longleftrightarrow> n = k" by (simp add: assms(2) bit_two_power)
  from and_single_bit [OF this] show ?thesis
    unfolding sees_nonzero
    by (simp add: bit_channelPermissions_ignore decided_bit_layers overwrites_okD(3) [OF assms(1)]
        entry_layer_def)
qed

lemma role_says_Nil [simp]: "\<not> role_says f g ows [] n"
  by (simp add: role_says_def)

text \<open>A passing role with an entry of its own in a readable channel.\<close>

lemma passing_entry:
  assumes P: "flag_bits_ok (cs_flags X)" and ok: "snapshot_ok (cs_guild X)" and pass: "passes X r"
    and c: "c \<in> set (vg_channels (cs_guild X))" "\<not> unreadable (cs_flags X) (cs_guild X) c"
    and e: "find (\<lambda>e. ow_type e = OwRole \<and> ow_id e = r) (vc_overwrites c) = Some e"
  defines "j \<equiv> judge_entry X r (checked_view_of X c) (ow_allow e) (ow_deny e)"
  shows "bit (ow_allow e) n \<Longrightarrow> bit (everyone_bits X) n \<or> bit (cs_flags X ViewChannel) n"
    and "\<not> jd_opened j \<Longrightarrow> ow_deny e = 0"
    and "\<not> jd_opened j \<Longrightarrow> x \<in> set (vc_overwrites c) \<Longrightarrow> ow_type x = OwRole \<Longrightarrow> ow_id x \<noteq> r \<Longrightarrow>
      bit (ow_allow e) n \<Longrightarrow> \<not> bit (ow_deny x) n"
    and "\<not> jd_opened j \<Longrightarrow> bit (ow_allow e) n \<Longrightarrow> bit (cs_flags X ViewChannel) n \<Longrightarrow>
      sees X c (audience_holds X []) [] \<noteq> 0"
    and "jd_opened j \<Longrightarrow> \<not> cw_officerFacing (checked_view_of X c)"
proof -
  have r: "r \<noteq> server_id X" using passesD [OF pass] by metis
  have j: "jd_over j = 0" "jd_lifts j = 0" "jd_takes j = 0" "\<not> jd_officer j"
    using passesD [OF pass] judged_in [OF c e] unfolding channel_problems_Nil j_def by metis+
  have cw: "cw_channel (checked_view_of X c) = c" by (simp add: checked_view_of_def Let_def)
  show "bit (ow_allow e) n \<Longrightarrow> bit (everyone_bits X) n \<or> bit (cs_flags X ViewChannel) n"
    using judge_entry_over j(1) unfolding j_def by blast
  show "\<not> jd_opened j \<Longrightarrow> ow_deny e = 0"
    using judge_entry_takes j(3) unfolding j_def by blast
  show "\<not> jd_opened j \<Longrightarrow> x \<in> set (vc_overwrites c) \<Longrightarrow> ow_type x = OwRole \<Longrightarrow> ow_id x \<noteq> r \<Longrightarrow>
      bit (ow_allow e) n \<Longrightarrow> \<not> bit (ow_deny x) n"
    using judge_entry_lifts [of X r "checked_view_of X c"] j(2) cw unfolding j_def by metis
  show "jd_opened j \<Longrightarrow> \<not> cw_officerFacing (checked_view_of X c)"
    using j(4) by (auto simp: j_def judge_entry_def Let_def split: prod.splits)
  assume closed: "\<not> jd_opened j" and a: "bit (ow_allow e) n" "bit (cs_flags X ViewChannel) n"
  obtain k where k: "cs_flags X ViewChannel = 2 ^ k" "\<And>n. bit (cs_flags X ViewChannel) n \<longleftrightarrow> n = k"
    using flag_bit_obtain [OF P] by metis
  note ows = snapshot_overwrites [OF ok c(1)]
  have "role_says ow_allow (server_id X) (vc_overwrites c) ([] @ [r]) k"
    using role_says_more [OF overwrites_okD(1) [OF ows] r e] a k(2) by simp
  then have "sees X c (audience_holds X []) ([] @ [r]) \<noteq> 0"
    using sees_decided [OF ows k(1)] by blast
  moreover have "[] \<in> set (audiences X)" by (simp add: audiences_def)
  ultimately show "sees X c (audience_holds X []) [] \<noteq> 0"
    using closed unfolding j_def judge_entry_opened by blast
qed

lemma unopened_bits_same:
  assumes P: "flag_bits_ok (cs_flags X)" and ok: "snapshot_ok (cs_guild X)" and pass: "passes X r"
    and c: "c \<in> set (vg_channels (cs_guild X))" "\<not> unreadable (cs_flags X) (cs_guild X) c"
    and e: "find (\<lambda>e. ow_type e = OwRole \<and> ow_id e = r) (vc_overwrites c) = Some e"
    and closed: "\<not> jd_opened (judge_entry X r (checked_view_of X c) (ow_allow e) (ow_deny e))"
    and base: "\<And>n. bit (audience_holds X []) n \<Longrightarrow> b n"
  shows "decided_bit (server_id X) b (vc_overwrites c) m (r # roles) n =
    decided_bit (server_id X) b (vc_overwrites c) m roles n"
proof -
  note entry = passing_entry [OF P ok pass c e]
  note ows = snapshot_overwrites [OF ok c(1)]
  have r: "r \<noteq> server_id X" using passesD [OF pass] by metis
  note d = overwrites_okD(1) [OF ows]
  have no_deny: "\<not> bit (ow_deny x) n"
    if "bit (ow_allow e) n" "x \<in> set (vc_overwrites c)" "ow_type x = OwRole" for x
  proof (cases "ow_id x = r")
    case True
    with that role_entry_unique [OF d e] entry(2) [OF closed] show ?thesis by auto
  next
    case False
    with that entry(3) [OF closed] show ?thesis by blast
  qed
  show ?thesis
  proof (rule decided_bit_same [OF d r e])
    show "\<not> bit (ow_deny e) n" using entry(2) [OF closed] by simp
    assume a: "bit (ow_allow e) n"
    have "\<not> role_says ow_deny (server_id X) (vc_overwrites c) roles n"
      using no_deny [OF a] by (auto simp: role_says_def)
    moreover have "entry_layer (find (\<lambda>e. ow_id e = server_id X) (vc_overwrites c)) n (b n)"
    proof (cases "bit (cs_flags X ViewChannel) n")
      case False
      then have "b n" using entry(1) [OF a] base everyone_bits_held [of X n "[]"]
        unfolding audience_holds_def by blast
      then show ?thesis
        using no_deny [OF a] overwrites_okD(2) [OF ows]
        by (auto simp: entry_layer_def split: option.split dest!: find_Some_mem)
    next
      case True
      obtain k where k: "cs_flags X ViewChannel = 2 ^ k" "\<And>n. bit (cs_flags X ViewChannel) n \<longleftrightarrow> n = k"
        using flag_bit_obtain [OF P] by metis
      have "entry_layer (find (\<lambda>e. ow_id e = server_id X) (vc_overwrites c)) k
          (bit (audience_holds X []) k \<and> \<not> bit (cs_flags X Administrator) k)"
        using entry(4) [OF closed a True] sees_decided [OF ows k(1)] by simp
      then show ?thesis using True k(2) base by (auto elim: entry_layer_mono [rotated])
    qed
    ultimately show "entry_layer (find (\<lambda>e. ow_id e = server_id X) (vc_overwrites c)) n (b n) \<and>
        \<not> role_says ow_deny (server_id X) (vc_overwrites c) roles n" by simp
  qed
qed

section \<open>A passing role and anybody's permissions\<close>

definition server_ok :: "checked_server \<Rightarrow> bool" where
  "server_ok X \<longleftrightarrow>
     flag_bits_ok (cs_flags X) \<and> snapshot_ok (cs_guild X) \<and> cs_all X AND cs_flags X Administrator \<noteq> 0"

text \<open>Somebody's permissions in a channel, from their roles and their own entry.\<close>

definition permissions_in ::
  "checked_server \<Rightarrow> visibility_channel \<Rightarrow> ident \<Rightarrow> ident list \<Rightarrow> bool \<Rightarrow> int" where
  "permissions_in X c m roles ign =
     channelPermissions (cs_flags X) (cs_all X) (server_id X)
       (guildPermissions (cs_flags X) (cs_all X) (server_id X) (server_roles X) roles ign)
       (vc_overwrites c) m roles ign"

text \<open>The bits a member's roles give before the channel's overwrites, and whether overwrites count.\<close>

definition base_bit :: "checked_server \<Rightarrow> ident list \<Rightarrow> bool \<Rightarrow> nat \<Rightarrow> bool" where
  "base_bit X roles ign n \<longleftrightarrow>
     bit (guildPermissions (cs_flags X) (cs_all X) (server_id X) (server_roles X) roles ign) n \<and>
     (ign \<longrightarrow> \<not> bit (cs_flags X Administrator) n)"

lemma permissions_in_cases:
  assumes "server_ok X"
  obtains "\<And>m. permissions_in X c m roles ign = cs_all X"
      "\<not> ign" "guildPermissions (cs_flags X) (cs_all X) (server_id X) (server_roles X) roles ign
        AND cs_flags X Administrator \<noteq> 0"
  | "\<And>m n. bit (permissions_in X c m roles ign) n =
        decided_bit (server_id X) (base_bit X roles ign) (vc_overwrites c) m roles n"
    "\<And>n. bit (audience_holds X []) n \<Longrightarrow> base_bit X roles ign n"
    "ign \<or> guildPermissions (cs_flags X) (cs_all X) (server_id X) (server_roles X) roles ign
        AND cs_flags X Administrator = 0"
proof (cases "\<not> ign \<and> guildPermissions (cs_flags X) (cs_all X) (server_id X) (server_roles X) roles ign
        AND cs_flags X Administrator \<noteq> 0")
  case True
  then have "\<not> ign" by blast
  with True that(1) show thesis by (simp add: permissions_in_def channelPermissions_administrator)
next
  case False
  show thesis
  proof (cases ign)
    case True
    have "base_bit X roles True n" if "bit (audience_holds X []) n" for n
      using that by (auto simp: base_bit_def audience_holds_def bit_guildPermissions_ignore)
    with True that(2) show thesis
      by (simp add: permissions_in_def bit_channelPermissions_ignore base_bit_def [abs_def])
  next
    case no: False
    let ?bits = "or_all ar_permissions (filter (\<lambda>x. ar_id x \<in> set (server_id X # roles)) (server_roles X))"
    have plain: "?bits AND cs_flags X Administrator = 0"
      using no False assms by (auto simp: guildPermissions_def Let_def server_ok_def split: if_splits)
    then have g: "guildPermissions (cs_flags X) (cs_all X) (server_id X) (server_roles X) roles False = ?bits"
      by (simp add: guildPermissions_def Let_def)
    have "base_bit X roles False n" if "bit (audience_holds X []) n" for n
      using that by (auto simp: base_bit_def g audience_holds_def bit_guildPermissions_ignore bits_simps)
    with no that(2) plain g show thesis
      by (simp add: permissions_in_def bit_channelPermissions base_bit_def [abs_def])
  qed
qed

lemma base_bit_same:
  assumes "server_ok X" "passes X r"
  shows "base_bit X (r # roles) ign = base_bit X roles ign"
    "guildPermissions (cs_flags X) (cs_all X) (server_id X) (server_roles X) (r # roles) ign =
     guildPermissions (cs_flags X) (cs_all X) (server_id X) (server_roles X) roles ign"
proof -
  obtain role where "role_by_id (server_roles X) r = Some role" "server_problems X r role = []"
    using passesD [OF assms(2)] by metis
  then show same: "guildPermissions (cs_flags X) (cs_all X) (server_id X) (server_roles X) (r # roles) ign =
     guildPermissions (cs_flags X) (cs_all X) (server_id X) (server_roles X) roles ign"
    using server_base_same assms(1) by (simp add: server_ok_def)
  show "base_bit X (r # roles) ign = base_bit X roles ign"
    by (simp add: base_bit_def [abs_def] same)
qed

lemma unopened_permissions_same:
  assumes X: "server_ok X" and pass: "passes X r"
    and c: "c \<in> set (vg_channels (cs_guild X))" "\<not> unreadable (cs_flags X) (cs_guild X) c"
    and closed: "\<And>e. find (\<lambda>e. ow_type e = OwRole \<and> ow_id e = r) (vc_overwrites c) = Some e \<Longrightarrow>
      \<not> jd_opened (judge_entry X r (checked_view_of X c) (ow_allow e) (ow_deny e))"
  shows "permissions_in X c m (r # roles) ign = permissions_in X c m roles ign"
proof (rule permissions_in_cases [OF X, of c roles ign])
  assume all: "\<And>m. permissions_in X c m roles ign = cs_all X" "\<not> ign"
    "guildPermissions (cs_flags X) (cs_all X) (server_id X) (server_roles X) roles ign
        AND cs_flags X Administrator \<noteq> 0"
  then show ?thesis
    by (simp add: permissions_in_def base_bit_same(2) [OF X pass] channelPermissions_administrator)
next
  assume low: "\<And>m n. bit (permissions_in X c m roles ign) n =
        decided_bit (server_id X) (base_bit X roles ign) (vc_overwrites c) m roles n"
    and base: "\<And>n. bit (audience_holds X []) n \<Longrightarrow> base_bit X roles ign n"
    and ign: "ign \<or> guildPermissions (cs_flags X) (cs_all X) (server_id X) (server_roles X) roles ign
        AND cs_flags X Administrator = 0"
  have bits: "decided_bit (server_id X) (base_bit X roles ign) (vc_overwrites c) m (r # roles) n =
      decided_bit (server_id X) (base_bit X roles ign) (vc_overwrites c) m roles n" for n
  proof (cases "find (\<lambda>e. ow_type e = OwRole \<and> ow_id e = r) (vc_overwrites c)")
    case None
    then show ?thesis by (simp add: decided_bit_layers role_says_no_entry)
  next
    case (Some e)
    show ?thesis
      using X by (intro unopened_bits_same [OF _ _ pass c Some closed [OF Some] base])
        (simp_all add: server_ok_def)
  qed
  have "bit (permissions_in X c m (r # roles) ign) n = bit (permissions_in X c m roles ign) n" for n
    using permissions_in_cases [OF X, of c "r # roles" ign] ign low bits
    unfolding base_bit_same [OF X pass] by metis
  then show ?thesis by (rule bit_eqI)
qed

section \<open>Skipping channels without an entry\<close>

text \<open>The loop without its early \<open>continue\<close>: a channel without an entry is judged as an empty one.\<close>

definition judge_every_channel :: "checked_server \<Rightarrow> ident \<Rightarrow> checked_view \<Rightarrow> judged" where
  "judge_every_channel X r v =
     (case find (\<lambda>e. ow_type e = OwRole \<and> ow_id e = r) (vc_overwrites (cw_channel v)) of
        None \<Rightarrow> judge_entry X r v 0 0
      | Some e \<Rightarrow> judge_entry X r v (ow_allow e) (ow_deny e))"

lemma sees_no_entry:
  assumes "find (\<lambda>e. ow_type e = OwRole \<and> ow_id e = r) (vc_overwrites c) = None"
  shows "sees X c base (roles @ [r]) = sees X c base roles"
proof -
  have f: "filter (\<lambda>e. ow_type e = OwRole \<and> ow_id e \<noteq> server_id X \<and> ow_id e \<in> set (roles @ [r])) (vc_overwrites c) =
      filter (\<lambda>e. ow_type e = OwRole \<and> ow_id e \<noteq> server_id X \<and> ow_id e \<in> set roles) (vc_overwrites c)"
    using assms by (intro filter_cong) (auto simp: find_None_mem)
  show ?thesis unfolding sees_def channelPermissions_def f by simp
qed

lemma judge_no_entry:
  assumes "find (\<lambda>e. ow_type e = OwRole \<and> ow_id e = r) (vc_overwrites c) = None"
  shows "judge_entry X r (checked_view_of X c) 0 0 =
    \<lparr>jd_channel = vc_id c, jd_gained = 0, jd_over = 0, jd_lifts = 0, jd_takes = 0, jd_opened = False,
     jd_officer = False\<rparr>"
proof -
  have step: "fold (judge_audience X c r)
      (map (\<lambda>roles. (roles, sees X c (audience_holds X roles) roles)) as) (0, 0, False, v) = (0, 0, False, v)"
    for as v
  proof (induction as)
    case (Cons a as)
    then show ?case
      by (simp add: judge_audience_def Let_def sees_no_entry [OF assms])
  qed simp
  have "zip (audiences X) (cw_before (checked_view_of X c)) =
      map (\<lambda>roles. (roles, sees X c (audience_holds X roles) roles)) (audiences X)"
    by (simp add: checked_view_of_def Let_def zip_map2 zip_same_conv_map)
  then show ?thesis
    using step [of "audiences X"] by (simp add: judge_entry_def checked_view_of_def Let_def)
qed

lemma filter_map_skipping:
  assumes "\<And>v. v \<in> set vs \<Longrightarrow> (case g v of None \<Rightarrow> \<not> Q (f v) | Some y \<Rightarrow> f v = y)"
  shows "filter Q (map f vs) = filter Q (List.map_filter g vs)"
  using assms
proof (induction vs)
  case (Cons v vs)
  have "filter Q (map f vs) = filter Q (List.map_filter g vs)" using Cons.prems by (intro Cons.IH) simp
  moreover have "case g v of None \<Rightarrow> \<not> Q (f v) | Some y \<Rightarrow> f v = y" using Cons.prems [of v] by simp
  ultimately show ?case by (cases "g v") (simp_all add: List.map_filter_simps)
qed (simp add: List.map_filter_simps)

lemma judged_skipping:
  assumes "\<And>ch. \<not> Q \<lparr>jd_channel = ch, jd_gained = 0, jd_over = 0, jd_lifts = 0, jd_takes = 0,
      jd_opened = False, jd_officer = False\<rparr>"
  shows "filter Q (map (judge_every_channel X r) (views X)) = filter Q (judged_channels X r)"
  unfolding judged_channels_def
proof (rule filter_map_skipping)
  fix v
  assume "v \<in> set (views X)"
  then obtain c where v: "v = checked_view_of X c" by (auto simp: views_def)
  have "cw_channel v = c" by (simp add: v checked_view_of_def Let_def)
  then show "case judge_channel X r v of None \<Rightarrow> \<not> Q (judge_every_channel X r v)
      | Some y \<Rightarrow> judge_every_channel X r v = y"
    using assms judge_no_entry [of r c X]
    by (auto simp: judge_channel_def judge_every_channel_def v split: option.splits)
qed

section \<open>Rank\<close>

lemma role_rank_Some:
  assumes "role_rank X i = Some n"
  shows "n < length (server_roles X)" "map ar_id (ascendingRoles (server_roles X)) ! n = i"
proof -
  let ?ids = "map ar_id (ascendingRoles (server_roles X))"
  have "(i, n) \<in> set (zip ?ids [0..<length ?ids])"
    using assms unfolding role_rank_def Let_def by (auto dest!: map_of_SomeD)
  then show "n < length (server_roles X)" "?ids ! n = i"
    by (auto simp: set_zip ascendingRoles_def)
qed

lemma role_rank_exists: "i \<in> ar_id ` set (server_roles X) \<Longrightarrow> \<exists>n. role_rank X i = Some n"
proof -
  assume "i \<in> ar_id ` set (server_roles X)"
  then have "i \<in> set (map ar_id (ascendingRoles (server_roles X)))" by (simp add: ascendingRoles_def)
  then have "i \<in> fst ` set (rev (zip (map ar_id (ascendingRoles (server_roles X)))
      [0..<length (map ar_id (ascendingRoles (server_roles X)))]))"
    by (metis fst_conv image_eqI in_set_impl_in_set_zip1 length_upt minus_nat.diff_0 set_rev)
  then show ?thesis
    unfolding role_rank_def Let_def by (metis map_of_eq_None_iff not_Some_eq)
qed

lemma find_sorted:
  assumes "sorted_wrt R xs" "find Q xs = Some y" "x \<in> set xs" "Q x"
  shows "x = y \<or> R y x"
  using assms by (induction xs) (auto split: if_splits)

section \<open>Properties\<close>

text \<open>
  (C3) A role that passes every rule changes nothing, for anybody, in a channel TaruBot can read
  that the role does not open: a member's permissions there are the same with and without it,
  whatever other roles the member has, whatever entry of their own, and whether or not the
  Administrator bit counts.
\<close>

theorem passing_role_elsewhere:
  assumes "server_ok X" "selfRoleProblems X r = []"
    and "c \<in> set (vg_channels (cs_guild X))" "\<not> unreadable (cs_flags X) (cs_guild X) c"
    and "vc_id c \<notin> set (rk_opens (selfRoleChecker X r))"
  shows "permissions_in X c m (r # roles) ign = permissions_in X c m roles ign"
proof -
  have pass: "passes X r" using assms(2) by (simp add: passes_def)
  have "\<not> jd_opened (judge_entry X r (checked_view_of X c) (ow_allow e) (ow_deny e))"
    if e: "find (\<lambda>e. ow_type e = OwRole \<and> ow_id e = r) (vc_overwrites c) = Some e" for e
  proof -
    have "jd_channel (judge_entry X r (checked_view_of X c) (ow_allow e) (ow_deny e)) = vc_id c"
      by (simp add: judge_entry_def checked_view_of_def Let_def split: prod.split)
    moreover have "rk_opens (selfRoleChecker X r) = map jd_channel (filter jd_opened (judged_channels X r))"
      using passesD [OF pass] by (metis role_check.select_convs(3))
    moreover have "jd_channel ` {x \<in> set (judged_channels X r). jd_opened x} = set (rk_opens (selfRoleChecker X r))"
      using calculation(2) by simp
    ultimately show ?thesis using judged_in [OF assms(3,4) e] assms(5) by (metis (mono_tags, lifting) image_eqI mem_Collect_eq)
  qed
  then show ?thesis by (rule unopened_permissions_same [OF assms(1) pass assms(3,4)])
qed

text \<open>
  (C4) In any channel TaruBot can read, a role that passes every rule gives nobody a permission
  that @everyone does not hold in the whole server, except to see the channel, and it changes
  nothing at all in a channel that the settings name for officers.
\<close>

theorem passing_role_gains:
  assumes "server_ok X" "selfRoleProblems X r = []"
    and "c \<in> set (vg_channels (cs_guild X))" "\<not> unreadable (cs_flags X) (cs_guild X) c"
  shows "bits_le (permissions_in X c m (r # roles) ign AND NOT (permissions_in X c m roles ign))
           (everyone_bits X OR cs_flags X ViewChannel) \<and>
         (vc_id c \<in> set (ss_staffChannels (cs_settings X)) \<longrightarrow>
           permissions_in X c m (r # roles) ign = permissions_in X c m roles ign)"
proof (intro conjI impI)
  have pass: "passes X r" using assms(2) by (simp add: passes_def)
  note ows = snapshot_overwrites [OF _ assms(3)]
  have ok: "flag_bits_ok (cs_flags X)" "snapshot_ok (cs_guild X)" using assms(1) by (simp_all add: server_ok_def)
  have r: "r \<noteq> server_id X" using passesD [OF pass] by metis
  show "bits_le (permissions_in X c m (r # roles) ign AND NOT (permissions_in X c m roles ign))
           (everyone_bits X OR cs_flags X ViewChannel)"
  proof (cases "find (\<lambda>e. ow_type e = OwRole \<and> ow_id e = r) (vc_overwrites c)")
    case None
    with assms have "permissions_in X c m (r # roles) ign = permissions_in X c m roles ign"
      by (intro unopened_permissions_same pass) auto
    then show ?thesis by (simp add: bits_le_def)
  next
    case (Some e)
    have "bit (ow_allow e) n"
      if "bit (permissions_in X c m (r # roles) ign) n" "\<not> bit (permissions_in X c m roles ign) n" for n
      using that decided_bit_gain [OF overwrites_okD(1) [OF ows [OF ok(2)]] r Some]
        permissions_in_cases [OF assms(1), of c "r # roles" ign]
        permissions_in_cases [OF assms(1), of c roles ign]
      unfolding base_bit_same [OF assms(1) pass] by metis
    then show ?thesis
      using passing_entry(1) [OF ok pass assms(3,4) Some]
      by (auto simp: bits_le_iff bits_simps bit_or_iff)
  qed
  assume "vc_id c \<in> set (ss_staffChannels (cs_settings X))"
  then have "cw_officerFacing (checked_view_of X c)" by (simp add: checked_view_of_def Let_def)
  then show "permissions_in X c m (r # roles) ign = permissions_in X c m roles ign"
    using passing_entry(5) [OF ok pass assms(3,4)]
    by (intro unopened_permissions_same [OF assms(1) pass assms(3,4)]) blast
qed

text \<open>
  A role that passes every rule is an ordinary role that TaruBot can assign: it is not
  @everyone, a managed role, TaruBot's own, an access role or a retired one; server-wide it gives
  only what @everyone has, and never Administrator, Manage Server, Manage Roles or Manage Channels;
  and it ranks below TaruBot and below every role whose holders moderate others.
\<close>

theorem passing_role_server_rules:
  assumes "selfRoleProblems X r = []"
  shows "\<exists>role. role_by_id (server_roles X) r = Some role \<and> r \<noteq> server_id X \<and> \<not> ar_managed role \<and>
    Some r \<noteq> vg_botRole (cs_guild X) \<and> access_role X r = None \<and> r \<notin> set (ss_retired (cs_settings X)) \<and>
    bits_le (ar_permissions role) (everyone_bits X) \<and>
    ar_permissions role AND NEVER_SELF_SERVICE (cs_flags X) = 0 \<and> rankOf X r < botTop X \<and>
    list_all (\<lambda>m. is_moderator X m \<and> ar_id m \<noteq> r \<longrightarrow> rankOf X r < rankOf X (ar_id m)) (server_roles X)"
proof -
  have pass: "passes X r" using assms by (simp add: passes_def)
  obtain role where role: "role_by_id (server_roles X) r = Some role" "r \<noteq> server_id X" "\<not> ar_managed role"
    "Some r \<noteq> vg_botRole (cs_guild X)" "server_problems X r role = []"
    using passesD [OF pass] by metis
  note rules = server_problems_Nil [OF role(5)]
  obtain n where n: "role_rank X r = Some n" using role_rank_exists role_by_id_Some [OF role(1)] by blast
  have "rankOf X r < rankOf X (ar_id m)"
    if m: "m \<in> set (server_roles X)" "is_moderator X m" "ar_id m \<noteq> r" for m
  proof -
    obtain k where k: "role_rank X (ar_id m) = Some k" using role_rank_exists m(1) by blast
    have mem: "m \<in> set (moderators X)" using m by (simp add: moderators_def)
    then obtain lowest where l: "find (\<lambda>m. ar_id m \<noteq> r) (moderators X) = Some lowest"
      using m(3) by (cases "find (\<lambda>m. ar_id m \<noteq> r) (moderators X)") (auto simp: find_None_mem)
    have "sorted_wrt (\<lambda>a b. by_key (\<lambda>r. rankOf X (ar_id r)) a b \<le> 0) (moderators X)"
      unfolding moderators_def by (rule by_key_comparator.sorted_sort_by)
    from find_sorted [OF this l mem] m(3) have "rankOf X (ar_id lowest) \<le> rankOf X (ar_id m)"
      by (auto simp: by_key_def)
    with rules(7) [OF l] have "rankOf X r \<le> rankOf X (ar_id m)" by simp
    moreover have "n \<noteq> k" using role_rank_Some(2) [OF n] role_rank_Some(2) [OF k] m(3) by auto
    ultimately show ?thesis by (simp add: rankOf_def n k)
  qed
  then show ?thesis
    using role rules(1-3,6) n server_bits_le [OF role(5)]
    by (auto simp: list_all_iff bits_le_iff rankOf_def)
qed

text \<open>
  Skipping the channels where the role has no entry is exact: judging every readable channel
  gives the same problems and the same list of opened channels.
\<close>

theorem checker_skip_exact:
  "channel_problems X (map (judge_every_channel X r) (views X)) =
     channel_problems X (judged_channels X r) \<and>
   map jd_channel (filter jd_opened (map (judge_every_channel X r) (views X))) =
     map jd_channel (filter jd_opened (judged_channels X r))"
  unfolding channel_problems_def visible_channels_def ceiling_channels_def lifted_channels_def
    restricted_channels_def officer_channels_def
  by (simp add: judged_skipping del: filter_map)

text \<open>
  A server with a lobby: the role \<open>2\<close> opens channel \<open>5\<close> and has an entry in \<open>6\<close>, which everyone
  sees; channel \<open>7\<close> is the officers', and \<open>3\<close> is a moderation role.
\<close>

definition sample_role :: "ident \<Rightarrow> int \<Rightarrow> int \<Rightarrow> bool \<Rightarrow> api_role" where
  "sample_role i pos bits managed = \<lparr>ar_id = i, ar_name = i, ar_position = pos, ar_permissions = bits,
     ar_hoist = False, ar_managed = managed, ar_mentionable = None\<rparr>"

definition sample_overwrite :: "ident \<Rightarrow> int \<Rightarrow> int \<Rightarrow> overwrite" where
  "sample_overwrite i allow deny = \<lparr>ow_id = i, ow_type = OwRole, ow_allow = allow, ow_deny = deny\<rparr>"

definition sample_channel :: "ident \<Rightarrow> overwrite list \<Rightarrow> visibility_channel" where
  "sample_channel i ows = \<lparr>vc_id = i, vc_type = OtherChannel 0, vc_parent = None, vc_position = 0,
     vc_overwrites = ows, vc_obfuscated = False, vc_fetched = True\<rparr>"

definition sample_guild :: visibility_guild where
  "sample_guild = \<lparr>vg_guild = ''1'', vg_botId = ''8'', vg_botRoles = [''9''], vg_botRole = Some ''9'',
     vg_roles = [sample_role ''1'' 0 3072 False, sample_role ''2'' 1 0 False, sample_role ''3'' 2 2 False,
       sample_role ''9'' 3 268435456 True],
     vg_channels = [sample_channel ''5'' [sample_overwrite ''1'' 0 1024, sample_overwrite ''2'' 1024 0],
       sample_channel ''6'' [sample_overwrite ''2'' 1024 0], sample_channel ''7'' [sample_overwrite ''1'' 0 1024]],
     vg_heldRoles = [], vg_communityUpdates = None\<rparr>"

definition sample_server :: checked_server where
  "sample_server = \<lparr>cs_flags = documented_bits, cs_all = -1, cs_guild = sample_guild,
     cs_settings = \<lparr>ss_bound = \<lparr>br_member = None, br_guest = None, br_officer = None, br_leader = None\<rparr>,
       ss_retired = [], ss_staffChannels = [''7'']\<rparr>\<rparr>"

lemmas sample_server_simps = sample_server_def sample_guild_def sample_role_def sample_overwrite_def
  sample_channel_def documented_bits_def

lemma sample_fields [simp]:
  "cs_flags sample_server = documented_bits" "cs_all sample_server = -1" "cs_guild sample_server = sample_guild"
  "cs_settings sample_server = \<lparr>ss_bound = \<lparr>br_member = None, br_guest = None, br_officer = None, br_leader = None\<rparr>,
       ss_retired = [], ss_staffChannels = [''7'']\<rparr>"
  "vg_guild sample_guild = ''1''" "vg_botRole sample_guild = Some ''9''" "vg_botRoles sample_guild = [''9'']"
  by (simp_all add: sample_server_def sample_guild_def)

lemma sample_server_ok: "server_ok sample_server"
  using documented_bits_ok
  by (simp add: server_ok_def snapshot_ok_def overwrites_ok_def sample_server_simps del: sample_fields)

lemma sample_ids: "id_number ''1'' = 1" "id_number ''2'' = 2" "id_number ''5'' = 5"  "id_number ''6'' = 6" "id_number ''7'' = 7"
  by (simp_all add: id_number_def units_def big_int_def)

lemma sample_ascending: "ascendingRoles (vg_roles sample_guild) = vg_roles sample_guild"
  by (simp add: ascendingRoles_def ascending_cmp_def sample_server_simps)

lemma sample_rank: "role_rank sample_server ''1'' = Some 0" "role_rank sample_server ''2'' = Some 1"
  "role_rank sample_server ''3'' = Some 2" "role_rank sample_server ''9'' = Some 3"
  unfolding role_rank_def
  by (simp_all add: sample_ascending Let_def) (simp_all add: sample_guild_def sample_role_def)

lemma sample_bits: "audience_holds sample_server [] = 3072" "everyone_bits sample_server = 3072"
  "audiences sample_server = [[]]"
  by (simp_all add: audience_holds_def guildPermissions_def Let_def or_all_def everyone_bits_def role_by_id_def
      audiences_def List.map_filter_simps sample_guild_def sample_role_def documented_bits_def)

lemma sample_display: "displayOrder (vg_channels sample_guild) = vg_channels sample_guild"
  by (simp add: displayOrder_def isCategory_def byPosition_def sample_ids sample_guild_def sample_channel_def Let_def)

lemma sample_views: "views sample_server = map (checked_view_of sample_server) (vg_channels sample_guild)"
  by (simp add: views_def sample_display) (simp add: sample_guild_def sample_channel_def unreadable_def)

lemma sample_judged:
  "judged_channels sample_server ''2'' =
    [\<lparr>jd_channel = ''5'', jd_gained = 0, jd_over = 0, jd_lifts = 0, jd_takes = 0, jd_opened = True, jd_officer = False\<rparr>,
     \<lparr>jd_channel = ''6'', jd_gained = 0, jd_over = 0, jd_lifts = 0, jd_takes = 0, jd_opened = False, jd_officer = False\<rparr>]"
  unfolding judged_channels_def sample_views
  by (simp add: sample_guild_def sample_channel_def sample_overwrite_def List.map_filter_simps judge_channel_def
      judge_entry_def checked_view_of_def Let_def sample_bits judge_audience_def sees_def seen_def
      channelPermissions_def or_all_def NOBODY_def kept_deny_def documented_bits_def staffRole_def role_by_id_def STAFF_POWERS_def sample_role_def)

lemma sample_passes: "selfRoleProblems sample_server ''2'' = []" "rk_opens (selfRoleChecker sample_server ''2'') = [''5'']"
proof -
  have r: "role_by_id (vg_roles sample_guild) ''2'' = Some (sample_role ''2'' 1 0 False)"
    by (simp add: role_by_id_def sample_guild_def sample_role_def)
  have "server_problems sample_server ''2'' (sample_role ''2'' 1 0 False) = []"
    by (simp add: server_problems_def Let_def sample_rank sample_bits access_role_def bound_access_roles_def
      List.map_filter_simps NEVER_SELF_SERVICE_def botManagesRoles_def guildPermissions_def or_all_def
      moderators_def is_moderator_def rankOf_def botTop_def sample_role_def MODERATION_def documented_bits_def sample_guild_def)
  then show "selfRoleProblems sample_server ''2'' = []" "rk_opens (selfRoleChecker sample_server ''2'') = [''5'']"
    by (simp_all add: selfRoleProblems_def selfRoleChecker_def r Let_def sample_judged channel_problems_Nil)
      (simp_all add: sample_role_def)
qed

theorem passing_role_elsewhere_witness:
  "permissions_in sample_server (sample_channel ''6'' [sample_overwrite ''2'' 1024 0]) ''77'' [''2'', ''3''] False =
   permissions_in sample_server (sample_channel ''6'' [sample_overwrite ''2'' 1024 0]) ''77'' [''3''] False"
  by (rule passing_role_elsewhere [OF sample_server_ok sample_passes(1)])
    (simp_all add: sample_passes(2) sample_guild_def sample_channel_def unreadable_def)

theorem passing_role_gains_witness:
  "permissions_in sample_server (sample_channel ''7'' [sample_overwrite ''1'' 0 1024]) ''77'' [''2'', ''3''] False =
   permissions_in sample_server (sample_channel ''7'' [sample_overwrite ''1'' 0 1024]) ''77'' [''3''] False"
proof -
  let ?c = "sample_channel ''7'' [sample_overwrite ''1'' 0 1024]"
  have "?c \<in> set (vg_channels (cs_guild sample_server))" by (simp add: sample_guild_def)
  moreover have "\<not> unreadable (cs_flags sample_server) (cs_guild sample_server) ?c"
    by (simp add: sample_channel_def unreadable_def)
  moreover have "vc_id ?c \<in> set (ss_staffChannels (cs_settings sample_server))"
    by (simp add: sample_channel_def)
  ultimately show ?thesis
    using passing_role_gains [OF sample_server_ok sample_passes(1)] by blast
qed

theorem passing_role_server_rules_witness:
  "rankOf sample_server ''2'' < rankOf sample_server ''3''"
proof -
  have "sample_role ''3'' 2 2 False \<in> set (vg_roles (cs_guild sample_server))" by (simp add: sample_guild_def)
  moreover have "is_moderator sample_server (sample_role ''3'' 2 2 False)"
    by (simp add: is_moderator_def rankOf_def sample_rank botTop_def MODERATION_def documented_bits_def sample_role_def)
  ultimately show ?thesis
    using passing_role_server_rules [OF sample_passes(1)] unfolding list_all_iff
    by (auto simp: sample_role_def)
qed

end
