(* ===== verification/SelfRoleChoices.thy ===== *)
theory SelfRoleChoices
  imports SelfRoleEdits SelfRoleSafety
begin

text \<open>
  Members' own role choices, \<open>src/domain/self-roles.ts\<close>: what My roles shows one person
  (\<open>choiceMenu\<close>), what a submission asks (\<open>changedCategories\<close>), how a save merges with the change
  still waiting (\<open>mergeChoice\<close>), what the job then does (\<open>planSelfRoles\<close>), and what losing access
  removes. The rule set is the argument \<open>check\<close>, as in the code.

  The lemmas show that every stored payload is valid, that the job takes nobody over a category's
  limit and settles after one run, and that a submission that was accepted is carried out in full
  while the menu and the member's roles stay as they were.
\<close>

section \<open>Choices\<close>

definition ROLE_CHOICE_EXPIRY_DAYS :: nat where
  "ROLE_CHOICE_EXPIRY_DAYS = 7"

definition roleChoiceKey :: "ident \<Rightarrow> ident \<Rightarrow> string" where
  "roleChoiceKey guildId userId = ''self-roles:'' @ guildId @ '':'' @ userId"

record role_choice =
  rch_chosen :: "ident list"
  rch_offered :: "ident list"

definition sameSet :: "'a list \<Rightarrow> 'a list \<Rightarrow> bool" where
  "sameSet l r \<longleftrightarrow> length (js_set l) = length (js_set r) \<and> list_all (\<lambda>i. i \<in> set r) (js_set l)"

definition unique :: "'a list \<Rightarrow> bool" where
  "unique ids \<longleftrightarrow> length (js_set ids) = length ids"

text \<open>A payload is a choice with the time it was saved at; \<open>isoDate\<close> is zod's date-time format.\<close>

definition roleChoicePayload :: "(string \<Rightarrow> bool) \<Rightarrow> role_choice \<Rightarrow> string \<Rightarrow> bool" where
  "roleChoicePayload isoDate p savedAt \<longleftrightarrow>
     list_all valid_role (rch_chosen p) \<and> length (rch_chosen p) \<le> LIMIT_options \<and>
     list_all valid_role (rch_offered p) \<and> length (rch_offered p) \<le> LIMIT_options \<and>
     isoDate savedAt \<and> unique (rch_chosen p) \<and> unique (rch_offered p) \<and>
     list_all (\<lambda>i. i \<in> set (rch_offered p)) (rch_chosen p)"

type_synonym role_checker = "ident \<Rightarrow> role_check"

definition changeable :: "self_role_menu \<Rightarrow> ident \<Rightarrow> bool \<Rightarrow> role_checker option \<Rightarrow> bool" where
  "changeable menu roleId held check =
     (case check of
        None \<Rightarrow> False
      | Some check \<Rightarrow>
          let verdict = check roleId
          in if addable menu roleId \<and> length (rk_problems verdict) = 0 then True
             else held \<and> listed menu roleId \<and> removableBy verdict)"

section \<open>What My roles shows\<close>

record choice_option =
  cho_role :: ident
  cho_description :: utext
  cho_held :: bool
  cho_ticked :: bool
  cho_changeable :: bool
  cho_notOffered :: bool
  cho_addable :: bool

datatype choice_input = InputOne | InputMany

record choice_category =
  chc_id :: string
  chc_name :: utext
  chc_description :: utext
  chc_max :: "int option"
  chc_state :: category_state
  chc_input :: choice_input
  chc_options :: "choice_option list"
  chc_ticked :: nat

record choice_context =
  cx_held :: "ident list"
  cx_waiting :: "role_choice option"
  cx_check :: "role_checker option"
  cx_officer :: bool

definition choice_option_of ::
  "self_role_menu \<Rightarrow> choice_context \<Rightarrow> self_role_category \<Rightarrow> self_role_option \<Rightarrow> choice_option option" where
  "choice_option_of menu ctx c opt =
     (let held = so_role opt \<in> set (cx_held ctx);
          waitingOn = (case cx_waiting ctx of None \<Rightarrow> [] | Some w \<Rightarrow> rch_offered w);
          wanted = (case cx_waiting ctx of None \<Rightarrow> [] | Some w \<Rightarrow> rch_chosen w);
          notOffered = (ca_state c = RemovalOnlyCategory \<or> so_removalOnly opt);
          can = (ca_state c \<noteq> DraftCategory \<and> changeable menu (so_role opt) held (cx_check ctx))
      in if ca_state c \<noteq> DraftCategory \<and> \<not> can \<and> \<not> held then None
         else Some
           \<lparr>cho_role = so_role opt, cho_description = so_description opt, cho_held = held,
            cho_ticked = (if can \<and> so_role opt \<in> set waitingOn then so_role opt \<in> set wanted else held),
            cho_changeable = can, cho_notOffered = notOffered,
            cho_addable =
              (case cx_check ctx of
                 None \<Rightarrow> False
               | Some check \<Rightarrow>
                   addable menu (so_role opt) \<and> length (rk_problems (check (so_role opt))) = 0)\<rparr>)"

definition choice_category_of ::
  "self_role_menu \<Rightarrow> choice_context \<Rightarrow> self_role_category \<Rightarrow> choice_category option" where
  "choice_category_of menu ctx c =
     (if ca_state c = DraftCategory \<and> \<not> cx_officer ctx then None
      else
        let options = List.map_filter (choice_option_of menu ctx c) (ca_options c)
        in if options = [] then None
           else if ca_state c = RemovalOnlyCategory \<and> \<not> list_ex cho_changeable options then None
           else Some
             \<lparr>chc_id = ca_id c, chc_name = ca_name c, chc_description = ca_description c,
              chc_max = ca_max c, chc_state = ca_state c,
              chc_input = (if ca_state c = PublishedCategory \<and> ca_max c = Some 1 then InputOne else InputMany),
              chc_options = options,
              chc_ticked = length (filter (\<lambda>opt. cho_changeable opt \<and> cho_ticked opt) options)\<rparr>)"

definition choiceMenu :: "self_role_menu \<Rightarrow> choice_context \<Rightarrow> choice_category list" where
  "choiceMenu menu ctx = List.map_filter (choice_category_of menu ctx) menu"

section \<open>What a submission asks\<close>

text \<open>\<open>[]\<close> is the empty value of the "No role from this category" radio.\<close>

record category_choice =
  cc_category :: string
  cc_seen :: "string list"
  cc_picked :: "string list"

datatype choice_error =
    UnavailableRole string ident
  | TooManyPicked string int
  | TooManyWithFixed string "ident list" int

datatype choice_change = ChoiceIs role_choice | ChoiceConflict | ChoiceInvalid "choice_error list"

record submitted_category =
  sb_category :: "self_role_category option"
  sb_pickOne :: bool
  sb_roles :: "ident list"
  sb_accepted :: "ident list"
  sb_can :: "string list"

definition submitted_category_of ::
  "self_role_menu \<Rightarrow> ident list \<Rightarrow> role_checker \<Rightarrow> category_choice \<Rightarrow> submitted_category" where
  "submitted_category_of menu held check entry =
     (let category = find (\<lambda>c. ca_id c = cc_category entry) menu;
          pickOne = (case category of None \<Rightarrow> False
                     | Some c \<Rightarrow> ca_state c = PublishedCategory \<and> ca_max c = Some 1);
          roles = (case category of None \<Rightarrow> [] | Some c \<Rightarrow> map so_role (ca_options c))
      in \<lparr>sb_category = category, sb_pickOne = pickOne, sb_roles = roles,
          sb_accepted = filter (\<lambda>i. addable menu i \<or> (i \<in> set held \<and> listed menu i)) roles,
          sb_can = filter (\<lambda>i. changeable menu i (i \<in> set held) (Some check)) roles @
                   (if pickOne then [[]] else [])\<rparr>)"

definition picked_conflict :: "submitted_category \<Rightarrow> category_choice \<Rightarrow> bool" where
  "picked_conflict s entry \<longleftrightarrow>
     list_ex (\<lambda>v. if v = [] then \<not> sb_pickOne s else v \<notin> set (sb_accepted s)) (cc_picked entry)"

definition failing_roles :: "ident list \<Rightarrow> submitted_category \<Rightarrow> category_choice \<Rightarrow> ident list" where
  "failing_roles held s entry =
     filter (\<lambda>i. i \<noteq> [] \<and> i \<notin> set (sb_can s) \<and> i \<notin> set held) (js_set (cc_picked entry))"

definition picked_now :: "ident list \<Rightarrow> submitted_category \<Rightarrow> category_choice \<Rightarrow> string list" where
  "picked_now held s entry =
     filter (\<lambda>v. v \<in> set (sb_can s)) (cc_picked entry) @ failing_roles held s entry"

definition picked_roles :: "ident list \<Rightarrow> submitted_category \<Rightarrow> category_choice \<Rightarrow> ident list" where
  "picked_roles held s entry =
     filter (\<lambda>i. i \<in> set (picked_now held s entry) \<and> i \<in> set (sb_can s)) (sb_roles s)"

definition fixed_roles :: "self_role_menu \<Rightarrow> ident list \<Rightarrow> submitted_category \<Rightarrow> ident list" where
  "fixed_roles menu held s =
     filter (\<lambda>i. i \<in> set held \<and> listed menu i \<and> i \<notin> set (sb_can s)) (sb_roles s)"

text \<open>One changed category: its errors, and what it adds to \<open>offered\<close> and \<open>chosen\<close>.\<close>

type_synonym submission = "choice_error list \<times> ident list \<times> ident list"

definition changed_category ::
  "self_role_menu \<Rightarrow> ident list \<Rightarrow> submitted_category \<Rightarrow> category_choice \<Rightarrow> self_role_category \<Rightarrow> submission" where
  "changed_category menu held s entry c =
     (let picks = picked_roles held s entry; fixed = fixed_roles menu held s
      in (map (UnavailableRole (ca_id c)) (failing_roles held s entry) @
          (case ca_max c of
             Some limit \<Rightarrow>
               if ca_state c \<noteq> PublishedCategory then []
               else if int (length picks) > limit then [TooManyPicked (ca_id c) limit]
               else if int (length picks + length fixed) > limit
               then [TooManyWithFixed (ca_id c) fixed limit]
               else []
           | None \<Rightarrow> []),
          filter (\<lambda>i. i \<in> set (sb_can s)) (sb_roles s), picks))"

definition submit_category ::
  "self_role_menu \<Rightarrow> ident list \<Rightarrow> role_checker \<Rightarrow> category_choice \<Rightarrow> submission option" where
  "submit_category menu held check entry =
     (let s = submitted_category_of menu held check entry
      in if picked_conflict s entry then None
         else
           let before = filter (\<lambda>v. v \<in> set (sb_can s)) (cc_seen entry)
           in (case sb_category s of
                 None \<Rightarrow> Some ([], [], [])
               | Some c \<Rightarrow>
                   if sameSet (picked_now held s entry) before then Some ([], [], [])
                   else Some (changed_category menu held s entry c)))"

definition changedCategories ::
  "self_role_menu \<Rightarrow> ident list \<Rightarrow> role_checker \<Rightarrow> category_choice list \<Rightarrow> choice_change" where
  "changedCategories menu held check submitted =
     (if \<not> unique (map cc_category submitted) then ChoiceConflict
      else if list_ex (\<lambda>e. submit_category menu held check e = None) submitted then ChoiceConflict
      else
        let parts = List.map_filter (submit_category menu held check) submitted;
            errors = concat (map fst parts)
        in if errors \<noteq> [] then ChoiceInvalid errors
           else ChoiceIs \<lparr>rch_chosen = concat (map (snd \<circ> snd) parts),
                          rch_offered = concat (map (fst \<circ> snd) parts)\<rparr>)"

section \<open>Merging and comparing\<close>

definition category_of :: "self_role_menu option \<Rightarrow> ident \<Rightarrow> string option" where
  "category_of menu roleId =
     (case menu of None \<Rightarrow> None | Some m \<Rightarrow> map_option (\<lambda>(c, _). ca_id c) (findOption m roleId))"

definition mergeChoice :: "role_choice option \<Rightarrow> role_choice \<Rightarrow> self_role_menu option \<Rightarrow> role_choice" where
  "mergeChoice waiting next menu =
     (let changed = map (category_of menu) (rch_offered next);
          kept = filter (\<lambda>i. category_of menu i \<noteq> None \<and> category_of menu i \<notin> set changed)
                   (case waiting of None \<Rightarrow> [] | Some w \<Rightarrow> rch_offered w)
      in \<lparr>rch_chosen = filter (\<lambda>i. i \<in> set kept) (case waiting of None \<Rightarrow> [] | Some w \<Rightarrow> rch_chosen w) @
                       rch_chosen next,
          rch_offered = kept @ rch_offered next\<rparr>)"

definition sameChoice :: "role_choice \<Rightarrow> role_choice \<Rightarrow> bool" where
  "sameChoice l r \<longleftrightarrow>
     sameSet (rch_chosen l) (rch_chosen r) \<and> sameSet (rch_offered l) (rch_offered r)"

definition choiceHeld :: "role_choice \<Rightarrow> ident list \<Rightarrow> bool" where
  "choiceHeld choice held \<longleftrightarrow>
     list_all (\<lambda>i. (i \<in> set (rch_chosen choice)) = (i \<in> set held)) (rch_offered choice)"

section \<open>The job's plan\<close>

record self_role_plan =
  pn_add :: "ident list"
  pn_remove :: "ident list"
  pn_skipped :: int

definition held_after :: "role_choice \<Rightarrow> ident list \<Rightarrow> self_role_category \<Rightarrow> nat" where
  "held_after choice held c =
     length (filter (\<lambda>opt. so_role opt \<in> set (rch_chosen choice) \<or>
               (so_role opt \<in> set held \<and> so_role opt \<notin> set (rch_offered choice))) (ca_options c))"

definition over_limit :: "role_choice \<Rightarrow> ident list \<Rightarrow> self_role_category \<Rightarrow> bool" where
  "over_limit choice held c \<longleftrightarrow>
     ca_state c = PublishedCategory \<and>
     (case ca_max c of None \<Rightarrow> False | Some limit \<Rightarrow> int (held_after choice held c) > limit)"

definition plan_touches ::
  "role_choice \<Rightarrow> self_role_menu \<Rightarrow> ident list \<Rightarrow> ident list \<Rightarrow> ident \<Rightarrow> bool" where
  "plan_touches choice menu held untouchable i =
     (case findOption menu i of
        None \<Rightarrow> False
      | Some (c, _) \<Rightarrow>
          i \<notin> set untouchable \<and> listed menu i \<and>
          ca_id c \<notin> set (map ca_id (filter (over_limit choice held) menu)))"

definition planSelfRoles ::
  "role_choice \<Rightarrow> self_role_menu option \<Rightarrow> ident list \<Rightarrow> ident list \<Rightarrow> self_role_plan" where
  "planSelfRoles choice menu held untouchable =
     (let wanted = set (rch_chosen choice);
          differs = filter (\<lambda>i. (i \<in> wanted) \<noteq> (i \<in> set held)) (js_set (rch_offered choice));
          (add, remove) =
            (case menu of
               None \<Rightarrow> ([], [])
             | Some m \<Rightarrow>
                 let touched = filter (plan_touches choice m held untouchable) differs
                 in (filter (\<lambda>i. i \<in> wanted \<and> addable m i) touched, filter (\<lambda>i. i \<notin> wanted) touched))
      in \<lparr>pn_add = add, pn_remove = remove,
          pn_skipped = int (length differs) - int (length add) - int (length remove)\<rparr>)"

text \<open>What the member holds once every change of the plan was made.\<close>

definition carried_out :: "self_role_plan \<Rightarrow> ident list \<Rightarrow> ident list" where
  "carried_out plan held = filter (\<lambda>i. i \<notin> set (pn_remove plan)) held @ pn_add plan"

definition accessLossRemovals :: "self_role_menu \<Rightarrow> checked_server \<Rightarrow> ident list \<Rightarrow> ident list" where
  "accessLossRemovals menu X held =
     (let candidates = filter (\<lambda>i. i \<in> set held \<and> listed menu i) (menuRoleIds menu)
      in if candidates = [] then []
         else filter (\<lambda>i. let verdict = selfRoleChecker X i
                          in length (rk_opens verdict) > 0 \<and> removableBy verdict) candidates)"

section \<open>Where a role is\<close>

lemma findOption_mem:
  assumes "menuSchema E m" "c \<in> set m" "i \<in> set (category_roles c)"
  shows "\<exists>opt. findOption m i = Some (c, opt)"
proof -
  obtain n where n: "n < length m" "c = m ! n" using assms(2) by (auto simp: in_set_conv_nth)
  show ?thesis using findOption_at [of m n i] assms n by (simp add: menuSchema_iff)
qed

lemma listed_published:
  assumes "menuSchema E m" "c \<in> set m" "i \<in> set (category_roles c)"
  shows "listed m i \<longleftrightarrow> ca_state c \<noteq> DraftCategory"
  using findOption_mem [OF assms] by (auto simp: listed_def)

lemma addable_listed: "addable m i \<Longrightarrow> listed m i"
  by (auto simp: addable_def listed_def split: option.splits)

lemma changeable_listed: "changeable m i h check \<Longrightarrow> listed m i"
  by (auto simp: changeable_def Let_def dest: addable_listed split: option.splits if_splits)

lemma changeable_not_held: "changeable m i False check \<Longrightarrow> addable m i"
  by (auto simp: changeable_def Let_def split: option.splits if_splits)

section \<open>The plan\<close>

definition differing :: "role_choice \<Rightarrow> ident list \<Rightarrow> ident list" where
  "differing choice held =
     filter (\<lambda>i. (i \<in> set (rch_chosen choice)) \<noteq> (i \<in> set held)) (js_set (rch_offered choice))"

lemma set_plan:
  "set (pn_add (planSelfRoles ch menu held unt)) =
     (case menu of None \<Rightarrow> {} | Some m \<Rightarrow>
        {i \<in> set (differing ch held). plan_touches ch m held unt i \<and> i \<in> set (rch_chosen ch) \<and> addable m i})"
  "set (pn_remove (planSelfRoles ch menu held unt)) =
     (case menu of None \<Rightarrow> {} | Some m \<Rightarrow>
        {i \<in> set (differing ch held). plan_touches ch m held unt i \<and> i \<notin> set (rch_chosen ch)})"
  by (auto simp: planSelfRoles_def differing_def Let_def split: option.splits)

lemma pn_skipped_plan:
  "pn_skipped (planSelfRoles ch menu held unt) =
     int (length (differing ch held)) - int (length (pn_add (planSelfRoles ch menu held unt))) -
     int (length (pn_remove (planSelfRoles ch menu held unt)))"
  by (simp add: planSelfRoles_def Let_def differing_def split: prod.split)

lemma plan_lists:
  "pn_add (planSelfRoles ch (Some m) held unt) =
     filter (\<lambda>i. plan_touches ch m held unt i \<and> i \<in> set (rch_chosen ch) \<and> addable m i) (differing ch held)"
  "pn_remove (planSelfRoles ch (Some m) held unt) =
     filter (\<lambda>i. plan_touches ch m held unt i \<and> i \<notin> set (rch_chosen ch)) (differing ch held)"
  "pn_skipped (planSelfRoles ch (Some m) held unt) =
     int (length (filter (\<lambda>i. \<not> (plan_touches ch m held unt i \<and> (i \<in> set (rch_chosen ch) \<longrightarrow> addable m i)))
       (differing ch held)))"
proof -
  let ?t = "plan_touches ch m held unt" and ?w = "\<lambda>i. i \<in> set (rch_chosen ch)"
  have len: "length ds = length (filter (\<lambda>i. ?t i \<and> ?w i \<and> addable m i) ds) + length (filter (\<lambda>i. ?t i \<and> \<not> ?w i) ds) +
      length (filter (\<lambda>i. \<not> (?t i \<and> (?w i \<longrightarrow> addable m i))) ds)" for ds
    by (induction ds) auto
  show a: "pn_add (planSelfRoles ch (Some m) held unt) = filter (\<lambda>i. ?t i \<and> ?w i \<and> addable m i) (differing ch held)"
    and r: "pn_remove (planSelfRoles ch (Some m) held unt) = filter (\<lambda>i. ?t i \<and> \<not> ?w i) (differing ch held)"
    by (simp_all add: planSelfRoles_def differing_def Let_def conj_ac cong: conj_cong)
  show "pn_skipped (planSelfRoles ch (Some m) held unt) =
     int (length (filter (\<lambda>i. \<not> (?t i \<and> (?w i \<longrightarrow> addable m i))) (differing ch held)))"
    using len [of "differing ch held"] unfolding pn_skipped_plan a r by linarith
qed

lemma set_carried_out:
  "i \<in> set (carried_out plan held) \<longleftrightarrow> (i \<in> set held \<and> i \<notin> set (pn_remove plan)) \<or> i \<in> set (pn_add plan)"
  by (auto simp: carried_out_def)

lemma plan_offered: "i \<in> set (pn_add (planSelfRoles ch menu held unt)) \<or> i \<in> set (pn_remove (planSelfRoles ch menu held unt)) \<Longrightarrow>
    i \<in> set (rch_offered ch)"
  by (auto simp: set_plan differing_def split: option.splits)

lemma held_after_carried:
  "held_after ch (carried_out (planSelfRoles ch menu held unt) held) c = held_after ch held c"
  unfolding held_after_def
  by (rule arg_cong [of _ _ length], rule filter_cong [OF refl])
    (use plan_offered [of _ ch menu held unt] in \<open>auto simp: set_carried_out\<close>)

lemma plan_touches_carried:
  "plan_touches ch m (carried_out (planSelfRoles ch menu held unt) held) unt i = plan_touches ch m held unt i"
proof -
  have "over_limit ch (carried_out (planSelfRoles ch menu held unt) held) = over_limit ch held"
    unfolding over_limit_def [abs_def] held_after_carried ..
  then show ?thesis unfolding plan_touches_def by (simp only:)
qed

lemma differing_carried:
  "differing ch (carried_out (planSelfRoles ch (Some m) held unt) held) =
     filter (\<lambda>i. \<not> (plan_touches ch m held unt i \<and> (i \<in> set (rch_chosen ch) \<longrightarrow> addable m i))) (differing ch held)"
proof -
  have "(i \<in> set (rch_chosen ch)) \<noteq> (i \<in> set (carried_out (planSelfRoles ch (Some m) held unt) held)) \<longleftrightarrow>
      \<not> (plan_touches ch m held unt i \<and> (i \<in> set (rch_chosen ch) \<longrightarrow> addable m i)) \<and>
      (i \<in> set (rch_chosen ch)) \<noteq> (i \<in> set held)" if "i \<in> set (rch_offered ch)" for i
    using that by (auto simp: set_carried_out set_plan differing_def)
  then show ?thesis
    unfolding differing_def filter_filter by (intro filter_cong) auto
qed

lemma plan_settles:
  "planSelfRoles ch (Some m) (carried_out (planSelfRoles ch (Some m) held unt) held) unt =
     \<lparr>pn_add = [], pn_remove = [], pn_skipped = pn_skipped (planSelfRoles ch (Some m) held unt)\<rparr>"
proof -
  let ?h = "carried_out (planSelfRoles ch (Some m) held unt) held"
  have "pn_add (planSelfRoles ch (Some m) ?h unt) = []"
    unfolding plan_lists plan_touches_carried differing_carried by (auto simp: filter_empty_conv)
  moreover have "pn_remove (planSelfRoles ch (Some m) ?h unt) = []"
    unfolding plan_lists plan_touches_carried differing_carried by (auto simp: filter_empty_conv)
  moreover have "pn_skipped (planSelfRoles ch (Some m) ?h unt) = pn_skipped (planSelfRoles ch (Some m) held unt)"
    unfolding plan_lists plan_touches_carried differing_carried by simp
  ultimately show ?thesis by (metis self_role_plan.surjective old.unit.exhaust)
qed

lemma length_filter_le_subset:
  assumes "\<And>i. i \<in> set xs \<Longrightarrow> P i \<Longrightarrow> Q i"
  shows "length (filter P xs) \<le> length (filter Q xs)"
  using assms by (induction xs) auto

lemma held_after_roles:
  "held_after ch held c =
     length (filter (\<lambda>i. i \<in> set (rch_chosen ch) \<or> (i \<in> set held \<and> i \<notin> set (rch_offered ch))) (category_roles c))"
  by (simp add: held_after_def category_roles_def filter_map comp_def)

lemma plan_within_limit:
  assumes ok: "menuSchema E m" and c: "c \<in> set m" "ca_state c = PublishedCategory" "ca_max c = Some limit"
    and unt: "set unt \<inter> set (category_roles c) = {}"
    and added: "i \<in> set (pn_add (planSelfRoles ch (Some m) held unt))" "i \<in> set (category_roles c)"
  shows "int (length (filter (\<lambda>i. i \<in> set (carried_out (planSelfRoles ch (Some m) held unt) held))
           (category_roles c))) \<le> limit"
proof -
  have found: "\<exists>opt. findOption m j = Some (c, opt)" if "j \<in> set (category_roles c)" for j
    by (rule findOption_mem [OF ok c(1) that])
  have "plan_touches ch m held unt i" using added(1) by (simp add: set_plan)
  then have under: "ca_id c \<notin> set (map ca_id (filter (over_limit ch held) m))"
    using found [OF added(2)] by (auto simp: plan_touches_def)
  then have "\<not> over_limit ch held c" using c(1) by auto
  then have after: "int (held_after ch held c) \<le> limit" using c(2,3) by (simp add: over_limit_def)
  have "plan_touches ch m held unt j" if "j \<in> set (category_roles c)" for j
    using found [OF that] under unt that listed_published [OF ok c(1) that] c(2)
    by (auto simp: plan_touches_def)
  then have "length (filter (\<lambda>i. i \<in> set (carried_out (planSelfRoles ch (Some m) held unt) held)) (category_roles c))
      \<le> held_after ch held c"
    unfolding held_after_roles
    by (intro length_filter_le_subset) (auto simp: set_carried_out set_plan differing_def)
  with after show ?thesis by linarith
qed

section \<open>A submission that is accepted\<close>

lemma submit_category_Some:
  assumes "submit_category m held check e = Some (errs, off, picks)"
  obtains "errs = []" "off = []" "picks = []"
  | c where "find (\<lambda>c. ca_id c = cc_category e) m = Some c"
      "changed_category m held (submitted_category_of m held check e) e c = (errs, off, picks)"
  using assms
  by (auto simp: submit_category_def Let_def submitted_category_of_def split: option.splits if_splits)

lemma sb_roles_of:
  assumes "find (\<lambda>c. ca_id c = cc_category e) m = Some c"
  shows "sb_roles (submitted_category_of m held check e) = category_roles c"
    "i \<in> set (category_roles c) \<Longrightarrow> i \<noteq> [] \<Longrightarrow>
       i \<in> set (sb_can (submitted_category_of m held check e)) \<longleftrightarrow> changeable m i (i \<in> set held) (Some check)"
  using assms by (auto simp: submitted_category_of_def Let_def category_roles_def)

lemma valid_role_nonempty: "valid_role i \<Longrightarrow> i \<noteq> []"
  by (auto simp: valid_role_def idSchema_def units_def)

lemma menu_role_valid:
  assumes "menuSchema E m" "c \<in> set m" "i \<in> set (category_roles c)"
  shows "valid_role i" "i \<noteq> []"
proof -
  have "category_ok E c" using assms(1,2) by (simp add: menuSchema_iff)
  then show "valid_role i"
    using assms(3) by (auto simp: category_ok_def list_all_iff option_ok_def category_roles_def)
  then show "i \<noteq> []" by (rule valid_role_nonempty)
qed

text \<open>One part of an accepted submission: the changeable roles of one category and the picks in it.\<close>

lemma submission_part:
  assumes ok: "menuSchema E m" and e: "submit_category m held check e = Some ([], off, picks)"
    and nonempty: "off \<noteq> [] \<or> picks \<noteq> []"
  obtains c where "c \<in> set m" "ca_id c = cc_category e"
    "off = filter (\<lambda>i. changeable m i (i \<in> set held) (Some check)) (category_roles c)"
    "set picks \<subseteq> set off" "distinct picks"
    "\<And>limit. ca_state c = PublishedCategory \<Longrightarrow> ca_max c = Some limit \<Longrightarrow>
       int (length picks + length (filter (\<lambda>i. i \<in> set held \<and> listed m i \<and> i \<notin> set off) (category_roles c))) \<le> limit"
proof -
  let ?s = "submitted_category_of m held check e"
  from e nonempty obtain c where c: "find (\<lambda>c. ca_id c = cc_category e) m = Some c"
    and part: "changed_category m held ?s e c = ([], off, picks)"
    by (auto elim!: submit_category_Some)
  have mem: "c \<in> set m" "ca_id c = cc_category e" using find_Some_mem [OF c] by auto
  note roles = sb_roles_of [OF c]
  have can: "i \<in> set (sb_can ?s) \<longleftrightarrow> changeable m i (i \<in> set held) (Some check)"
    if "i \<in> set (category_roles c)" for i
    using roles(2) [OF that menu_role_valid(2) [OF ok mem(1) that]] .
  have off: "off = filter (\<lambda>i. changeable m i (i \<in> set held) (Some check)) (category_roles c)"
    using part can by (auto simp: changed_category_def Let_def roles(1) intro!: filter_cong)
  have picks: "picks = filter (\<lambda>i. i \<in> set (picked_now held ?s e) \<and> i \<in> set (sb_can ?s)) (category_roles c)"
    using part by (auto simp: changed_category_def Let_def picked_roles_def roles(1))
  have fixed: "fixed_roles m held ?s = filter (\<lambda>i. i \<in> set held \<and> listed m i \<and> i \<notin> set off) (category_roles c)"
    unfolding fixed_roles_def roles(1) off using can by (intro filter_cong) auto
  show thesis
  proof (rule that [OF mem off])
    show "set picks \<subseteq> set off" unfolding picks off using can by auto
    have "distinct (category_roles c)"
      using ok mem(1) by (auto simp: in_set_conv_nth dest: category_roles_distinct)
    then show "distinct picks" unfolding picks by simp
    fix limit
    assume "ca_state c = PublishedCategory" "ca_max c = Some limit"
    then show "int (length picks + length (filter (\<lambda>i. i \<in> set held \<and> listed m i \<and> i \<notin> set off) (category_roles c))) \<le> limit"
      using part unfolding fixed [symmetric]
      by (auto simp: changed_category_def Let_def split: if_splits)
  qed
qed

lemma accepted_submission:
  assumes "changedCategories m held check sub = ChoiceIs ch"
  shows "distinct (map cc_category sub)"
    and "e \<in> set sub \<Longrightarrow> \<exists>off picks. submit_category m held check e = Some ([], off, picks)"
    and "rch_offered ch = concat (map (\<lambda>e. fst (snd (the (submit_category m held check e)))) sub)"
    and "rch_chosen ch = concat (map (\<lambda>e. snd (snd (the (submit_category m held check e)))) sub)"
proof -
  have all: "\<forall>e \<in> set sub. submit_category m held check e \<noteq> None"
    and d: "distinct (map cc_category sub)"
    using assms by (auto simp: changedCategories_def list_ex_iff unique_def length_js_set_eq_iff
        simp del: length_map split: if_splits)
  have parts: "List.map_filter (submit_category m held check) sub = map (\<lambda>e. the (submit_category m held check e)) sub"
    using all unfolding List.map_filter_def by (simp add: comp_def filter_id_conv)
  from assms all d show "distinct (map cc_category sub)"
    "rch_offered ch = concat (map (\<lambda>e. fst (snd (the (submit_category m held check e)))) sub)"
    "rch_chosen ch = concat (map (\<lambda>e. snd (snd (the (submit_category m held check e)))) sub)"
    by (auto simp: changedCategories_def parts Let_def comp_def split: if_splits)
  have no_errors: "concat (map fst (map (\<lambda>e. the (submit_category m held check e)) sub)) = []"
    using assms by (auto simp: changedCategories_def parts Let_def split: if_splits)
  show "e \<in> set sub \<Longrightarrow> \<exists>off picks. submit_category m held check e = Some ([], off, picks)"
    using all no_errors by (force simp: concat_eq_Nil_conv)
qed

lemma accepted_offered:
  assumes acc: "changedCategories m held check sub = ChoiceIs ch" and ok: "menuSchema E m"
    and i: "i \<in> set (rch_offered ch) \<or> i \<in> set (rch_chosen ch)"
  obtains e off picks c where "e \<in> set sub" "submit_category m held check e = Some ([], off, picks)"
    "i \<in> set off" "c \<in> set m" "ca_id c = cc_category e" "i \<in> set (category_roles c)"
    "changeable m i (i \<in> set held) (Some check)" "i \<in> set (rch_chosen ch) \<Longrightarrow> i \<in> set picks"
proof -
  have part: "\<exists>off picks c. submit_category m held check e = Some ([], off, picks) \<and> i \<in> set off \<and> c \<in> set m \<and>
      ca_id c = cc_category e \<and> i \<in> set (category_roles c) \<and> changeable m i (i \<in> set held) (Some check)"
    if e: "e \<in> set sub" and i: "i \<in> set (fst (snd (the (submit_category m held check e)))) \<or>
        i \<in> set (snd (snd (the (submit_category m held check e))))" for e
  proof -
    obtain off picks where p: "submit_category m held check e = Some ([], off, picks)"
      using accepted_submission(2) [OF acc e] by blast
    with i have "off \<noteq> [] \<or> picks \<noteq> []" by auto
    from submission_part [OF ok p this] p i show ?thesis by (smt (verit) fst_conv in_mono mem_Collect_eq option.sel set_filter snd_conv)
  qed
  show thesis
  proof (cases "i \<in> set (rch_chosen ch)")
    case True
    then obtain e where e: "e \<in> set sub" "i \<in> set (snd (snd (the (submit_category m held check e))))"
      unfolding accepted_submission(4) [OF acc] by auto
    with part [of e] that show thesis by (metis option.sel snd_conv)
  next
    case False
    then obtain e where "e \<in> set sub" "i \<in> set (fst (snd (the (submit_category m held check e))))"
      using i unfolding accepted_submission(3) [OF acc] by auto
    with part [of e] False that show thesis by metis
  qed
qed

lemma same_category:
  assumes "menuSchema E m" "c \<in> set m" "c' \<in> set m" "i \<in> set (category_roles c)" "i \<in> set (category_roles c')"
  shows "c = c'"
  using findOption_mem [OF assms(1,2,4)] findOption_mem [OF assms(1,3,5)] by auto

lemma length_filter_disj: "length (filter (\<lambda>i. P i \<or> Q i) xs) \<le> length (filter P xs) + length (filter Q xs)"
  by (induction xs) auto

lemma length_filter_mem: "distinct xs \<Longrightarrow> length (filter (\<lambda>i. i \<in> set ys) xs) \<le> length ys"
proof -
  assume "distinct xs"
  then have "length (filter (\<lambda>i. i \<in> set ys) xs) = card (set xs \<inter> set ys)"
    using distinct_card [of "filter (\<lambda>i. i \<in> set ys) xs"] by (simp add: Int_def)
  also have "\<dots> \<le> card (set ys)" by (simp add: card_mono)
  also have "\<dots> \<le> length ys" by (rule card_length)
  finally show ?thesis .
qed

lemma accepted_touches:
  assumes acc: "changedCategories m held check sub = ChoiceIs ch" and ok: "menuSchema E m"
    and unt: "\<And>i. i \<in> set unt \<Longrightarrow> \<not> changeable m i (i \<in> set held) (Some check)"
    and i: "i \<in> set (rch_offered ch)"
  shows "plan_touches ch m held unt i"
proof -
  obtain e off picks c where e: "e \<in> set sub" "submit_category m held check e = Some ([], off, picks)"
    and c: "c \<in> set m" "ca_id c = cc_category e" "i \<in> set (category_roles c)" "i \<in> set off"
    and can: "changeable m i (i \<in> set held) (Some check)"
    using accepted_offered [OF acc ok] i by metis
  have roles: "distinct (category_roles c)"
    using ok c(1) by (auto simp: in_set_conv_nth dest: category_roles_distinct)
  have "off \<noteq> [] \<or> picks \<noteq> []" using c(4) by auto
  from submission_part [OF ok e(2) this] c same_category [OF ok]
  have part: "off = filter (\<lambda>i. changeable m i (i \<in> set held) (Some check)) (category_roles c)"
    "\<And>limit. ca_state c = PublishedCategory \<Longrightarrow> ca_max c = Some limit \<Longrightarrow>
       int (length picks + length (filter (\<lambda>i. i \<in> set held \<and> listed m i \<and> i \<notin> set off) (category_roles c))) \<le> limit"
    by (smt (verit) mem_Collect_eq set_filter)+
  have picked: "j \<in> set picks" if j: "j \<in> set (rch_chosen ch)" "j \<in> set (category_roles c)" for j
  proof -
    obtain e' off' picks' c' where e': "e' \<in> set sub" "submit_category m held check e' = Some ([], off', picks')"
      "c' \<in> set m" "ca_id c' = cc_category e'" "j \<in> set (category_roles c')" "j \<in> set picks'"
      using accepted_offered [OF acc ok] j(1) by metis
    then have "cc_category e' = cc_category e" using same_category [OF ok c(1) e'(3) j(2)] c(2) by simp
    then have "e' = e" using accepted_submission(1) [OF acc] e(1) e'(1) by (auto simp: distinct_map inj_on_def)
    with e(2) e'(2,6) show ?thesis by simp
  qed
  have offered: "j \<in> set (rch_offered ch)" if "j \<in> set off" for j
    using that e unfolding accepted_submission(3) [OF acc] by force
  have "\<not> over_limit ch held c"
  proof
    assume over: "over_limit ch held c"
    then obtain limit where l: "ca_state c = PublishedCategory" "ca_max c = Some limit"
      "limit < int (held_after ch held c)" by (auto simp: over_limit_def split: option.splits)
    have "held_after ch held c \<le>
        length (filter (\<lambda>j. j \<in> set picks \<or> (j \<in> set held \<and> listed m j \<and> j \<notin> set off)) (category_roles c))"
      unfolding held_after_roles
      using picked offered listed_published [OF ok c(1)] l(1) by (intro length_filter_le_subset) auto
    also have "\<dots> \<le> length (filter (\<lambda>j. j \<in> set picks) (category_roles c)) +
        length (filter (\<lambda>j. j \<in> set held \<and> listed m j \<and> j \<notin> set off) (category_roles c))"
      by (rule length_filter_disj)
    also have "\<dots> \<le> length picks + length (filter (\<lambda>j. j \<in> set held \<and> listed m j \<and> j \<notin> set off) (category_roles c))"
      using length_filter_mem [OF roles] by simp
    finally show False using part(2) [OF l(1,2)] l(3) by linarith
  qed
  then have "ca_id c \<notin> set (map ca_id (filter (over_limit ch held) m))"
    using ok c(1) by (auto simp: menuSchema_iff distinct_map inj_on_def)
  then show ?thesis
    using findOption_mem [OF ok c(1,3)] unt can changeable_listed [OF can] by (auto simp: plan_touches_def)
qed

lemma accepted_plan:
  assumes acc: "changedCategories m held check sub = ChoiceIs ch" and ok: "menuSchema E m"
    and unt: "\<And>i. i \<in> set unt \<Longrightarrow> \<not> changeable m i (i \<in> set held) (Some check)"
  shows "pn_skipped (planSelfRoles ch (Some m) held unt) = 0"
    "choiceHeld ch (carried_out (planSelfRoles ch (Some m) held unt) held)"
proof -
  have touch: "plan_touches ch m held unt i" if "i \<in> set (rch_offered ch)" for i
    by (rule accepted_touches [OF acc ok unt that])
  have add: "addable m i" if "i \<in> set (rch_offered ch)" "i \<notin> set held" for i
    using accepted_offered [OF acc ok, of i] that changeable_not_held [of m i "Some check"] by auto
  have "filter (\<lambda>i. \<not> (plan_touches ch m held unt i \<and> (i \<in> set (rch_chosen ch) \<longrightarrow> addable m i))) (differing ch held) = []"
    using touch add by (auto simp: filter_empty_conv differing_def)
  then show "pn_skipped (planSelfRoles ch (Some m) held unt) = 0" unfolding plan_lists by simp
  show "choiceHeld ch (carried_out (planSelfRoles ch (Some m) held unt) held)"
    using touch add by (auto simp: choiceHeld_def list_all_iff set_carried_out set_plan differing_def)
qed

section \<open>The rule set behind a choice\<close>

text \<open>
  What the choices need of the rule set they are judged with: it refuses to give and to take the
  roles the job never touches.
\<close>

locale role_rules =
  fixes check :: role_checker and untouchable :: "ident list"
  assumes untouchable_refused:
    "i \<in> set untouchable \<Longrightarrow> rk_problems (check i) \<noteq> [] \<and> \<not> removableBy (check i)"
begin

lemma untouchable_fixed: "i \<in> set untouchable \<Longrightarrow> \<not> changeable m i h (Some check)"
  using untouchable_refused by (auto simp: changeable_def Let_def)

lemma carried_out_in_full:
  assumes "changedCategories m held check sub = ChoiceIs ch" "menuSchema E m"
  shows "pn_skipped (planSelfRoles ch (Some m) held untouchable) = 0"
    "choiceHeld ch (carried_out (planSelfRoles ch (Some m) held untouchable) held)"
  using accepted_plan [OF assms] untouchable_fixed by blast+

end

text \<open>The access roles the job never touches: the bound ones and the retired ones.\<close>

definition access_role_ids :: "self_role_settings \<Rightarrow> ident list" where
  "access_role_ids s =
     List.map_filter (\<lambda>i. i) [br_member (ss_bound s), br_guest (ss_bound s), br_officer (ss_bound s), br_leader (ss_bound s)] @
     ss_retired s"

lemma access_role_Some:
  assumes "i \<in> set (List.map_filter (\<lambda>i. i) [br_member (server_bound X), br_guest (server_bound X),
    br_officer (server_bound X), br_leader (server_bound X)])"
  shows "access_role X i \<noteq> None"
proof -
  have "map fst (bound_access_roles X) = List.map_filter (\<lambda>i. i) [br_member (server_bound X), br_guest (server_bound X),
    br_officer (server_bound X), br_leader (server_bound X)]"
    by (auto simp: bound_access_roles_def List.map_filter_simps split: option.split)
  then have "fst ` set (bound_access_roles X) = set (List.map_filter (\<lambda>i. i) [br_member (server_bound X), br_guest (server_bound X),
    br_officer (server_bound X), br_leader (server_bound X)])" by (metis set_map)
  with assms show ?thesis unfolding access_role_def map_of_eq_None_iff set_rev by blast
qed

interpretation server_rules: role_rules "selfRoleChecker X" "access_role_ids (cs_settings X)" for X
proof
  fix i
  assume i: "i \<in> set (access_role_ids (cs_settings X))"
  have "\<exists>p \<in> set (server_problems X i role). sp_code p \<in> {AccessRole, RetiredRole}" for role
    using i access_role_Some [of i X] by (auto simp: access_role_ids_def server_problems_def Let_def)
  then have "\<exists>p \<in> set (rk_problems (selfRoleChecker X i)). sp_code p \<in> set BLOCKS_REMOVAL"
    by (fastforce simp: selfRoleChecker_def check_fail_def Let_def BLOCKS_REMOVAL_def split: option.split)
  then show "rk_problems (selfRoleChecker X i) \<noteq> [] \<and> \<not> removableBy (selfRoleChecker X i)"
    by (auto simp: removableBy_def list_ex_iff)
qed

section \<open>Payloads\<close>

lemma distinct_concat_keyed:
  assumes "distinct (map k xs)" "\<And>x. x \<in> set xs \<Longrightarrow> distinct (f x)"
    "\<And>x i. x \<in> set xs \<Longrightarrow> i \<in> set (f x) \<Longrightarrow> key i = k x"
  shows "distinct (concat (map f xs))"
  using assms
proof (induction xs)
  case (Cons x xs)
  then have "distinct (concat (map f xs))" by simp
  moreover have False if i: "i \<in> set (f x)" "y \<in> set xs" "i \<in> set (f y)" for i y
  proof -
    have "k x = k y" using Cons.prems(3) [of x i] Cons.prems(3) [of y i] i by simp
    then have "k x \<in> set (map k xs)" using i(2) by simp
    with Cons.prems(1) show False by simp
  qed
  ultimately show ?case using Cons.prems(2) [of x] by auto
qed simp

lemma accepted_choice:
  assumes acc: "changedCategories m held check sub = ChoiceIs ch" and ok: "menuSchema E m"
  shows "set (rch_chosen ch) \<subseteq> set (rch_offered ch)" "distinct (rch_chosen ch)" "distinct (rch_offered ch)"
    "set (rch_offered ch) \<subseteq> set (menuRoleIds m)"
proof -
  let ?off = "\<lambda>e. fst (snd (the (submit_category m held check e)))"
    and ?picks = "\<lambda>e. snd (snd (the (submit_category m held check e)))"
  have part: "set (?picks e) \<subseteq> set (?off e) \<and> distinct (?picks e) \<and> distinct (?off e) \<and>
      (\<forall>i \<in> set (?off e). category_of (Some m) i = Some (cc_category e) \<and> i \<in> set (menuRoleIds m))"
    if e: "e \<in> set sub" for e
  proof -
    obtain off picks where p: "submit_category m held check e = Some ([], off, picks)"
      using accepted_submission(2) [OF acc e] by blast
    show ?thesis
    proof (cases "off = [] \<and> picks = []")
      case True
      with p show ?thesis by simp
    next
      case False
      then have "off \<noteq> [] \<or> picks \<noteq> []" by blast
      then obtain c where c: "c \<in> set m" "ca_id c = cc_category e"
        "off = filter (\<lambda>i. changeable m i (i \<in> set held) (Some check)) (category_roles c)"
        "set picks \<subseteq> set off" "distinct picks"
        using submission_part [OF ok p] by metis
      have "distinct (category_roles c)"
        using ok c(1) by (auto simp: in_set_conv_nth dest: category_roles_distinct)
      moreover have "category_of (Some m) i = Some (cc_category e) \<and> i \<in> set (menuRoleIds m)"
        if "i \<in> set off" for i
        using that c(1,2) findOption_mem [OF ok c(1), of i] unfolding c(3)
        by (auto simp: category_of_def set_menuRoleIds)
      ultimately show ?thesis using p c(3-5) by simp
    qed
  qed
  note eqs = accepted_submission(3,4) [OF acc]
  show "set (rch_chosen ch) \<subseteq> set (rch_offered ch)" "set (rch_offered ch) \<subseteq> set (menuRoleIds m)"
    unfolding eqs using part by fastforce+
  show "distinct (rch_chosen ch)" "distinct (rch_offered ch)"
    unfolding eqs using part
    by (auto intro!: distinct_concat_keyed [where k = "\<lambda>e. Some (cc_category e)" and key = "category_of (Some m)"]
        simp: distinct_map accepted_submission(1) [OF acc, unfolded distinct_map] inj_on_def
        dest: accepted_submission(1) [OF acc, unfolded distinct_map, THEN conjunct2, THEN inj_onD])
qed

lemma payload_bounds:
  assumes "menuSchema E m" "distinct is" "set is \<subseteq> set (menuRoleIds m)"
  shows "length is \<le> LIMIT_options" "list_all valid_role is"
proof -
  have "length is = card (set is)" using assms(2) by (simp add: distinct_card)
  also have "\<dots> \<le> card (set (menuRoleIds m))" using assms(3) by (simp add: card_mono)
  also have "\<dots> \<le> length (menuRoleIds m)" by (rule card_length)
  finally show "length is \<le> LIMIT_options" using assms(1) by (simp add: menuSchema_iff)
  show "list_all valid_role is"
    using assms(3) menu_role_valid(1) [OF assms(1)] by (auto simp: list_all_iff set_menuRoleIds)
qed

lemma merged_payload:
  assumes ok: "menuSchema E m" and acc: "changedCategories m held check sub = ChoiceIs next"
    and w: "\<And>w. waiting = Some w \<Longrightarrow> roleChoicePayload isoDate w before" and t: "isoDate savedAt"
  shows "roleChoicePayload isoDate (mergeChoice waiting next (Some m)) savedAt"
proof -
  let ?woff = "case waiting of None \<Rightarrow> [] | Some w \<Rightarrow> rch_offered w"
  let ?wch = "case waiting of None \<Rightarrow> [] | Some w \<Rightarrow> rch_chosen w"
  let ?kept = "filter (\<lambda>i. category_of (Some m) i \<noteq> None \<and>
      category_of (Some m) i \<notin> set (map (category_of (Some m)) (rch_offered next))) ?woff"
  note ch = accepted_choice [OF acc ok]
  have waiting: "distinct ?woff" "distinct ?wch"
    using w by (auto simp: roleChoicePayload_def unique_def length_js_set_eq_iff split: option.split)
  have kept: "set ?kept \<subseteq> set (menuRoleIds m)" "set ?kept \<inter> set (rch_offered next) = {}"
  proof -
    have "i \<in> set (menuRoleIds m)" if "category_of (Some m) i \<noteq> None" for i
      using that findOption_None [of m i] by (auto simp: category_of_def)
    then show "set ?kept \<subseteq> set (menuRoleIds m)" by auto
  qed auto
  let ?M = "mergeChoice waiting next (Some m)"
  have eqs: "rch_offered ?M = ?kept @ rch_offered next"
    "rch_chosen ?M = filter (\<lambda>i. i \<in> set ?kept) ?wch @ rch_chosen next"
    by (simp_all add: mergeChoice_def Let_def)
  have off: "distinct (rch_offered ?M)" "set (rch_offered ?M) \<subseteq> set (menuRoleIds m)"
    unfolding eqs using waiting(1) ch(3,4) kept by auto
  have sub: "set (rch_chosen ?M) \<subseteq> set (rch_offered ?M)" unfolding eqs using ch(1) by auto
  have cho: "distinct (rch_chosen ?M)" unfolding eqs using waiting(2) ch(1,2) kept(2) by auto
  show ?thesis
    using payload_bounds [OF ok off] payload_bounds [OF ok cho subset_trans [OF sub off(2)]] sub t off(1) cho
    by (auto simp: roleChoicePayload_def unique_def length_js_set_eq_iff list_all_iff)
qed

section \<open>Properties\<close>

text \<open>
  A submission that was accepted is carried out in full: while the menu, the server and the
  member's roles are what they were at the save, the job skips nothing, and once its changes are
  made the member holds exactly the roles they chose among those offered.
\<close>

theorem accepted_submission_carried_out:
  assumes "readMenu E m = Some m" "changedCategories m held (selfRoleChecker X) submitted = ChoiceIs choice"
  shows "let plan = planSelfRoles choice (Some m) held (access_role_ids (cs_settings X))
    in pn_skipped plan = 0 \<and> choiceHeld choice (carried_out plan held)"
  using assms server_rules.carried_out_in_full [OF assms(2)] by (simp add: readMenu_def Let_def split: if_splits)

text \<open>
  The job takes nobody over a published category's limit: when a plan adds a role of a
  category, the member holds at most the category's limit of its roles afterwards, whatever changed
  since the save.
\<close>

theorem plan_never_over_limit:
  assumes "readMenu E m = Some m" "c \<in> set m" "ca_state c = PublishedCategory" "ca_max c = Some limit"
    and "set untouchable \<inter> set (category_roles c) = {}"
    and "i \<in> set (pn_add (planSelfRoles choice (Some m) held untouchable))" "i \<in> set (category_roles c)"
  shows "int (length (filter (\<lambda>i. i \<in> set (carried_out (planSelfRoles choice (Some m) held untouchable) held))
           (category_roles c))) \<le> limit"
  using assms plan_within_limit [of E m c limit untouchable i choice held]
  by (simp add: readMenu_def split: if_splits)

text \<open>
  The job settles: run again after its changes were made, it changes nothing more and counts
  the same choices as skipped, so a job that is delivered twice is harmless.
\<close>

theorem plan_settles_after_one_run:
  "let plan = planSelfRoles choice (Some m) held untouchable
   in planSelfRoles choice (Some m) (carried_out plan held) untouchable =
        \<lparr>pn_add = [], pn_remove = [], pn_skipped = pn_skipped plan\<rparr>"
  unfolding Let_def by (rule plan_settles)

text \<open>
  Every payload a save stores can be read back: an accepted submission merged into the change
  still waiting, whatever the menu was when that one was saved, has no role twice, wants only roles
  it offers, and stays within the menu's 50 roles.
\<close>

theorem merged_choice_valid:
  assumes "readMenu E m = Some m" "changedCategories m held check submitted = ChoiceIs next"
    and "case waiting of None \<Rightarrow> True | Some w \<Rightarrow> roleChoicePayload isoDate w before" "isoDate savedAt"
  shows "roleChoicePayload isoDate (mergeChoice waiting next (Some m)) savedAt"
proof (rule merged_payload [where isoDate = isoDate, OF _ assms(2) _ assms(4)])
  show "menuSchema E m" using assms(1) by (simp add: readMenu_def split: if_splits)
  show "roleChoicePayload isoDate w before" if "waiting = Some w" for w using assms(3) that by simp
qed

text \<open>A pick-one category, and somebody who swaps its one role for the other.\<close>

definition choice_menu :: self_role_menu where
  "choice_menu = sample_menu [sample_option ''10'' [], sample_option ''20'' []]"

definition pass_all :: role_checker where
  "pass_all i = \<lparr>rk_role = i, rk_problems = [], rk_opens = []\<rparr>"

definition swap_submission :: "category_choice list" where
  "swap_submission = [\<lparr>cc_category = ''c'', cc_seen = [''10''], cc_picked = [''20'']\<rparr>]"

definition swap_choice :: role_choice where
  "swap_choice = \<lparr>rch_chosen = [''20''], rch_offered = [''10'', ''20'']\<rparr>"

lemmas choice_samples = choice_menu_def sample_menu_def sample_option_def swap_choice_def

lemma choice_menu_read: "readMenu sample_env choice_menu = Some choice_menu"
  unfolding choice_menu_def by (rule sample_read)

lemma choice_addable: "addable choice_menu ''10''" "addable choice_menu ''20''"
  by (simp_all add: addable_def choice_samples)

lemma swap_accepted: "changedCategories choice_menu [''10''] pass_all swap_submission = ChoiceIs swap_choice"
proof -
  have s: "submitted_category_of choice_menu [''10''] pass_all \<lparr>cc_category = ''c'', cc_seen = [''10''], cc_picked = [''20'']\<rparr> =
      \<lparr>sb_category = Some (hd choice_menu), sb_pickOne = True, sb_roles = [''10'', ''20''],
       sb_accepted = [''10'', ''20''], sb_can = [''10'', ''20'', []]\<rparr>"
    using choice_addable by (simp add: submitted_category_of_def Let_def changeable_def pass_all_def)
      (simp add: choice_samples)
  have "submit_category choice_menu [''10''] pass_all \<lparr>cc_category = ''c'', cc_seen = [''10''], cc_picked = [''20'']\<rparr> =
      Some ([], [''10'', ''20''], [''20''])"
    by (simp add: submit_category_def s Let_def picked_conflict_def picked_now_def failing_roles_def sameSet_def
        changed_category_def picked_roles_def fixed_roles_def js_set_def)
      (simp add: choice_samples)
  then show ?thesis
    by (simp add: changedCategories_def swap_submission_def unique_def js_set_def List.map_filter_simps swap_choice_def)
qed

text \<open>Picking the role \<open>2\<close> of SelfRoleSafety's server.\<close>

definition raid_menu :: self_role_menu where
  "raid_menu = sample_menu [sample_option ''2'' []]"

definition raid_submission :: category_choice where
  "raid_submission = \<lparr>cc_category = ''c'', cc_seen = [[]], cc_picked = [''2'']\<rparr>"

lemma raid_submission_fields: "cc_category raid_submission = ''c''" "cc_seen raid_submission = [[]]"
  "cc_picked raid_submission = [''2'']"
  by (simp_all add: raid_submission_def)

lemma raid_menu_read: "readMenu sample_env raid_menu = Some raid_menu"
  by (simp add: readMenu_def menuSchema_def sample_simps raid_menu_def category_ok_def menuRoleIds_def category_roles_def
      js_set_def storedText_def textProblem_def drawn_def option_ok_def valid_role_def idSchema_def units_def
      is_nonzero_digit_def is_digit_def big_int_def MAX_ID_def limit_defs max_ok_def is_joiner_def
      characters_def Let_def)

lemma raid_accepted: "changedCategories raid_menu [''3''] (selfRoleChecker sample_server) [raid_submission] =
    ChoiceIs \<lparr>rch_chosen = [''2''], rch_offered = [''2'']\<rparr>"
proof -
  have "rk_problems (selfRoleChecker sample_server ''2'') = []"
    using sample_passes(1) by (simp add: selfRoleProblems_def)
  then have s: "submitted_category_of raid_menu [''3''] (selfRoleChecker sample_server) raid_submission =
      \<lparr>sb_category = Some (hd raid_menu), sb_pickOne = True, sb_roles = [''2''],
       sb_accepted = [''2''], sb_can = [''2'', []]\<rparr>"
    by (simp add: submitted_category_of_def Let_def changeable_def raid_submission_fields addable_def raid_menu_def
        sample_menu_def sample_option_def)
  have "submit_category raid_menu [''3''] (selfRoleChecker sample_server) raid_submission = Some ([], [''2''], [''2''])"
    by (simp add: submit_category_def s Let_def picked_conflict_def picked_now_def failing_roles_def sameSet_def
        changed_category_def picked_roles_def fixed_roles_def js_set_def raid_submission_fields)
      (simp add: raid_menu_def sample_menu_def sample_option_def)
  then show ?thesis by (simp add: changedCategories_def unique_def js_set_def List.map_filter_simps)
qed

theorem accepted_submission_carried_out_witness:
  "choiceHeld \<lparr>rch_chosen = [''2''], rch_offered = [''2'']\<rparr>
     (carried_out (planSelfRoles \<lparr>rch_chosen = [''2''], rch_offered = [''2'']\<rparr> (Some raid_menu) [''3'']
        (access_role_ids (cs_settings sample_server))) [''3''])"
  using accepted_submission_carried_out [OF raid_menu_read raid_accepted] unfolding Let_def by blast

lemma swap_plan: "pn_add (planSelfRoles swap_choice (Some choice_menu) [''10''] []) = [''20'']"
  by (simp add: planSelfRoles_def Let_def swap_choice_def js_set_def plan_touches_def over_limit_def held_after_def
      addable_def listed_def choice_menu_def sample_menu_def sample_option_def)

theorem plan_never_over_limit_witness:
  "int (length (filter (\<lambda>i. i \<in> set (carried_out (planSelfRoles swap_choice (Some choice_menu) [''10''] []) [''10'']))
     (category_roles (hd choice_menu)))) \<le> 1"
  by (rule plan_never_over_limit [OF choice_menu_read, where i = "''20''"])
    (simp_all add: swap_plan, simp_all add: choice_samples category_roles_def)

theorem merged_choice_valid_witness:
  "roleChoicePayload (\<lambda>t. t \<noteq> []) (mergeChoice (Some \<lparr>rch_chosen = [''7''], rch_offered = [''7'']\<rparr>) swap_choice
     (Some choice_menu)) ''t2''"
  by (rule merged_choice_valid [OF choice_menu_read swap_accepted, where before = "''t1''"])
    (simp_all add: roleChoicePayload_def valid_role_def idSchema_def units_def is_nonzero_digit_def is_digit_def
      big_int_def MAX_ID_def LIMIT_options_def unique_def js_set_def)

end
