(* ===== verification/JobQueue.thy ===== *)
theory JobQueue
  imports Failures "HOL-Library.List_Lexorder" "HOL-Library.Char_ord"
begin

text \<open>
  The job queue, \<open>src/jobs/queue.ts\<close>, over the \<open>jobs\<close> and \<open>sync_run_jobs\<close> tables: one function per
  SQL transaction, from the table before to the table after. A time is milliseconds since the epoch,
  a token and an ID are texts (a UUID's order is its text's), and the order of the rows in the table stands for the order in which
  PostgreSQL returns equal rows. The partial unique index \<open>active_job\<close> is \<open>index_ok\<close>; a statement
  that would break it raises the conflict instead.
\<close>

section \<open>Stored JSON\<close>

datatype json =
    JsonNull | JsonBool bool | JsonNumber int | JsonText string | JsonArray "json list"
  | JsonObject "(string \<times> json) list"

text \<open>PostgreSQL's \<open>j -> k\<close>, \<open>a || b\<close> on objects, and \<open>jsonb_strip_nulls\<close>.\<close>

fun json_field :: "json \<Rightarrow> string \<Rightarrow> json option" where
  "json_field (JsonObject fs) k = map_of fs k"
| "json_field _ _ = None"

definition json_join :: "(string \<times> json) list \<Rightarrow> (string \<times> json) list \<Rightarrow> (string \<times> json) list" where
  "json_join a b = filter (\<lambda>(k, _). k \<notin> set (map fst b)) a @ b"

fun strip_nulls :: "json \<Rightarrow> json" where
  "strip_nulls (JsonArray xs) = JsonArray (map strip_nulls xs)"
| "strip_nulls (JsonObject fs) =
     JsonObject (map (\<lambda>(k, v). (k, strip_nulls v)) (filter (\<lambda>(_, v). v \<noteq> JsonNull) fs))"
| "strip_nulls j = j"

text \<open>The append-only evidence of an earlier result, as the object that holds it alone.\<close>

definition applied_evidence :: "json option \<Rightarrow> (string \<times> json) list" where
  "applied_evidence result =
     (case Option.bind result (\<lambda>j. json_field j ''applied'') of
        Some a \<Rightarrow> if a = JsonNull then [] else [(''applied'', strip_nulls a)]
      | None \<Rightarrow> [])"

section \<open>Rows\<close>

text \<open>The code of a caught error, and the text stored as \<open>last_error\<close>.\<close>

datatype job_code = CatalogCode failure_code | OtherCode | GoneCode

datatype job_diagnostic = FailureText job_code wording | BlockedGuidance | BareCode job_code

datatype job_status = RowQueued | RowRunning | RowBlocked | RowDisabled | RowFailed | RowSucceeded

record job =
  jb_id :: ident
  jb_kind :: string
  jb_key :: string
  jb_guild :: "ident option"
  jb_user :: "ident option"
  jb_payload :: json
  jb_version :: nat
  jb_status :: job_status
  jb_generation :: nat
  jb_attempts :: nat
  jb_due :: int
  jb_lease_until :: "int option"
  jb_lease_token :: "ident option"
  jb_created :: int
  jb_completed :: "int option"
  jb_error :: "job_diagnostic option"
  jb_result :: "json option"

record queue_db =
  qd_rows :: "job list"
  qd_links :: "(ident \<times> ident) list"

definition ACTIVE_STATES :: "job_status list" where
  "ACTIVE_STATES = [RowQueued, RowRunning, RowBlocked]"

definition active :: "job \<Rightarrow> bool" where
  "active r \<longleftrightarrow> jb_status r \<in> set ACTIVE_STATES"

text \<open>The \<open>active_job\<close> index: at most one active row per dedupe key.\<close>

definition index_ok :: "job list \<Rightarrow> bool" where
  "index_ok rows \<longleftrightarrow> distinct (map jb_key (filter active rows))"

text \<open>Migration 012's trigger on every insert and update: an ended \<open>roles.self\<close> row forgets its payload.\<close>

definition forget_self_role_choice :: "job \<Rightarrow> job" where
  "forget_self_role_choice r =
     (if jb_kind r = ''roles.self'' \<and> jb_status r \<in> {RowSucceeded, RowFailed}
      then r\<lparr>jb_payload := JsonObject []\<rparr> else r)"

definition update_rows :: "(job \<Rightarrow> bool) \<Rightarrow> (job \<Rightarrow> job) \<Rightarrow> job list \<Rightarrow> job list" where
  "update_rows p f rows = map (\<lambda>r. if p r then forget_self_role_choice (f r) else r) rows"

definition new_job ::
  "int \<Rightarrow> ident \<Rightarrow> string \<Rightarrow> string \<Rightarrow> json \<Rightarrow> ident option \<Rightarrow> ident option \<Rightarrow> int \<Rightarrow> job" where
  "new_job now i kind key payload guild user delay =
     forget_self_role_choice
       \<lparr>jb_id = i, jb_kind = kind, jb_key = key, jb_guild = guild, jb_user = user, jb_payload = payload,
        jb_version = 1, jb_status = RowQueued, jb_generation = 1, jb_attempts = 0,
        jb_due = now + 1000 * delay, jb_lease_until = None, jb_lease_token = None, jb_created = now,
        jb_completed = None, jb_error = None, jb_result = None\<rparr>"

section \<open>Enqueueing\<close>

definition coalesce :: "json \<Rightarrow> int \<Rightarrow> job \<Rightarrow> job" where
  "coalesce payload due r =
     r\<lparr>jb_payload := payload, jb_generation := jb_generation r + 1, jb_due := min (jb_due r) due,
       jb_status := (if jb_status r = RowBlocked then RowQueued else jb_status r)\<rparr>"

definition enqueue ::
  "int \<Rightarrow> ident \<Rightarrow> string \<Rightarrow> string \<Rightarrow> json \<Rightarrow> ident option \<Rightarrow> ident option \<Rightarrow> int \<Rightarrow> job list \<Rightarrow>
   ident \<times> job list" where
  "enqueue now i kind key payload guild user delay rows =
     (case find (\<lambda>r. active r \<and> jb_key r = key) rows of
        Some holder \<Rightarrow>
          (jb_id holder, update_rows (\<lambda>r. jb_id r = jb_id holder) (coalesce payload (now + 1000 * delay)) rows)
      | None \<Rightarrow> (i, rows @ [new_job now i kind key payload guild user delay]))"

definition scheduleJob ::
  "int \<Rightarrow> ident \<Rightarrow> string \<Rightarrow> string \<Rightarrow> json \<Rightarrow> ident option \<Rightarrow> int \<Rightarrow> job list \<Rightarrow> ident option \<times> job list" where
  "scheduleJob now i kind key payload guild delay rows =
     (if list_ex (\<lambda>r. active r \<and> jb_key r = key) rows then (None, rows)
      else (Some i, rows @ [new_job now i kind key payload guild None delay]))"

definition reconcileUser :: "int \<Rightarrow> ident \<Rightarrow> ident \<Rightarrow> ident \<Rightarrow> job list \<Rightarrow> ident \<times> job list" where
  "reconcileUser now i guild user =
     enqueue now i ''reconcile.user'' (''user:'' @ guild @ '':'' @ user) (JsonObject []) (Some guild) (Some user) 0"

definition layoutGuildRoles :: "int \<Rightarrow> ident \<Rightarrow> ident \<Rightarrow> job list \<Rightarrow> ident \<times> job list" where
  "layoutGuildRoles now i guild =
     enqueue now i ''roles.layout'' (''role-layout:'' @ guild) (JsonObject []) (Some guild) None 0"

definition secureGuildChannels :: "int \<Rightarrow> ident \<Rightarrow> ident \<Rightarrow> job list \<Rightarrow> ident \<times> job list" where
  "secureGuildChannels now i guild =
     enqueue now i ''channels.access'' (''channel-access:'' @ guild) (JsonObject []) (Some guild) None 0"

definition announceChangelog :: "int \<Rightarrow> ident \<Rightarrow> ident \<Rightarrow> job list \<Rightarrow> ident \<times> job list" where
  "announceChangelog now i guild =
     enqueue now i ''changelog.post'' (''changelog:'' @ guild) (JsonObject []) (Some guild) None 0"

definition degradedNoticeKey :: "ident \<Rightarrow> ident \<Rightarrow> string" where
  "degradedNoticeKey guild fc = ''officer:'' @ guild @ '':degraded:'' @ fc"

definition recoveredNoticeKey :: "ident \<Rightarrow> ident \<Rightarrow> string" where
  "recoveredNoticeKey guild fc = ''officer:'' @ guild @ '':recovered:'' @ fc"

section \<open>Closing and requeueing\<close>

definition closed :: "int \<Rightarrow> json \<Rightarrow> job \<Rightarrow> job" where
  "closed now result r =
     r\<lparr>jb_status := RowSucceeded, jb_completed := Some now, jb_lease_until := None, jb_error := None,
       jb_result := Some result\<rparr>"

definition closeUnstarted :: "int \<Rightarrow> string \<Rightarrow> string \<Rightarrow> job list \<Rightarrow> job list" where
  "closeUnstarted now key reason =
     update_rows (\<lambda>r. jb_key r = key \<and> jb_status r \<in> {RowQueued, RowBlocked, RowDisabled})
       (closed now (JsonObject [(''skipped'', JsonText reason)]))"

text \<open>One pass of \<open>requeueParked\<close>, statement by statement.\<close>

definition parked :: "ident list \<Rightarrow> job_status list \<Rightarrow> job \<Rightarrow> bool" where
  "parked guilds statuses r \<longleftrightarrow>
     (case jb_guild r of None \<Rightarrow> False | Some g \<Rightarrow> g \<in> set guilds) \<and> jb_status r \<in> set statuses"

definition newer :: "job \<Rightarrow> job \<Rightarrow> bool" where
  "newer a b \<longleftrightarrow>
     jb_created a > jb_created b \<or> (jb_created a = jb_created b \<and> jb_id a > jb_id b)"

definition loses :: "ident list \<Rightarrow> job_status list \<Rightarrow> job list \<Rightarrow> job \<Rightarrow> bool" where
  "loses guilds statuses rows r \<longleftrightarrow>
     parked guilds statuses r \<and>
     list_ex (\<lambda>x. jb_key x = jb_key r \<and> jb_id x \<noteq> jb_id r \<and>
       ((jb_status x \<in> set ACTIVE_STATES \<and> jb_status x \<notin> set statuses) \<or>
        (parked guilds statuses x \<and> newer x r))) rows"

definition supersede :: "int \<Rightarrow> ident list \<Rightarrow> job_status list \<Rightarrow> job list \<Rightarrow> job list" where
  "supersede now guilds statuses rows =
     update_rows (loses guilds statuses rows)
       (\<lambda>r. closed now (JsonObject (json_join [(''skipped'', JsonText ''superseded'')]
                                      (applied_evidence (jb_result r)))) r) rows"

definition requeue :: "int \<Rightarrow> ident list \<Rightarrow> job_status list \<Rightarrow> job list \<Rightarrow> job list" where
  "requeue now guilds statuses rows =
     update_rows (parked guilds statuses)
       (\<lambda>r. r\<lparr>jb_status := RowQueued, jb_due := now, jb_attempts := 0, jb_error := None\<rparr>) rows"

text \<open>The links of the runs that tracked a superseded row, moved to the row that holds its key.\<close>

definition holders :: "job list \<Rightarrow> ident \<Rightarrow> ident list" where
  "holders rows i =
     (case find (\<lambda>r. jb_id r = i) rows of
        None \<Rightarrow> []
      | Some loser \<Rightarrow> map jb_id (filter (\<lambda>h. active h \<and> jb_key h = jb_key loser) rows))"

definition move_links :: "ident list \<Rightarrow> job list \<Rightarrow> (ident \<times> ident) list \<Rightarrow> (ident \<times> ident) list" where
  "move_links ids rows links =
     (let moved = concat (map (\<lambda>(run, i). map (\<lambda>h. (run, h)) (holders rows i))
                    (filter (\<lambda>(_, i). i \<in> set ids) links));
          inserted = links @ filter (\<lambda>l. l \<notin> set links) (js_set moved)
      in filter (\<lambda>(_, i). \<not> (i \<in> set ids \<and> holders rows i \<noteq> [])) inserted)"

text \<open>
  \<open>other\<close> is what other transactions commit between the first statement and the second. Requeueing
  can only conflict with what they wrote.
\<close>

datatype requeue_result = ActiveJobConflict | Requeued "ident list" queue_db

definition supersedeAndRequeue ::
  "int \<Rightarrow> ident list \<Rightarrow> job_status list \<Rightarrow> (job list \<Rightarrow> job list) \<Rightarrow> queue_db \<Rightarrow> requeue_result" where
  "supersedeAndRequeue now guilds statuses other d =
     (let ids = map jb_id (filter (loses guilds statuses (qd_rows d)) (qd_rows d));
          first = other (supersede now guilds statuses (qd_rows d));
          second = requeue now guilds statuses first
      in if \<not> index_ok second then ActiveJobConflict
         else Requeued (map jb_id (filter (parked guilds statuses) first))
                \<lparr>qd_rows = second,
                 qd_links = (if ids = [] then qd_links d else move_links ids second (qd_links d))\<rparr>)"

definition REQUEUE_ATTEMPTS :: nat where
  "REQUEUE_ATTEMPTS = 5"

text \<open>
  The retry loop: a conflict rolls this transaction back to the savepoint, and what the others
  committed stays. \<open>others\<close> is what they commit during each pass. \<open>None\<close> is the conflict rethrown.
\<close>

fun requeue_passes ::
  "int \<Rightarrow> ident list \<Rightarrow> job_status list \<Rightarrow> (job list \<Rightarrow> job list) list \<Rightarrow> queue_db \<Rightarrow> (ident list \<times> queue_db) option" where
  "requeue_passes now guilds statuses [] d = None"
| "requeue_passes now guilds statuses (other # others) d =
     (case supersedeAndRequeue now guilds statuses other d of
        Requeued ids d' \<Rightarrow> Some (ids, d')
      | ActiveJobConflict \<Rightarrow>
          requeue_passes now guilds statuses others (d\<lparr>qd_rows := other (qd_rows d)\<rparr>))"

definition requeueParked ::
  "int \<Rightarrow> ident list \<Rightarrow> job_status list \<Rightarrow> (nat \<Rightarrow> job list \<Rightarrow> job list) \<Rightarrow> queue_db \<Rightarrow>
   (ident list \<times> queue_db) option" where
  "requeueParked now guilds statuses others d =
     (if guilds = [] \<or> statuses = [] then Some ([], d)
      else requeue_passes now guilds statuses (map others [0..<REQUEUE_ATTEMPTS]) d)"

datatype retry_refusal = NotRetryable | NewerJob ident job_status

definition retryJob :: "int \<Rightarrow> ident \<Rightarrow> ident \<Rightarrow> job list \<Rightarrow> retry_refusal + job list" where
  "retryJob now guild i rows =
     (case find (\<lambda>r. jb_id r = i \<and> jb_guild r = Some guild \<and>
                    jb_status r \<in> {RowBlocked, RowFailed, RowDisabled}) rows of
        None \<Rightarrow> Inl NotRetryable
      | Some target \<Rightarrow>
          (case find (\<lambda>r. jb_key r = jb_key target \<and> jb_id r \<noteq> i \<and> active r) rows of
             Some a \<Rightarrow> Inl (NewerJob (jb_id a) (jb_status a))
           | None \<Rightarrow> Inr (update_rows (\<lambda>r. jb_id r = i)
               (\<lambda>r. r\<lparr>jb_status := RowQueued, jb_attempts := 0, jb_due := now, jb_error := None,
                      jb_completed := None\<rparr>) rows)))"

section \<open>Rows and the index\<close>

lemma forget_simps [simp]:
  "jb_id (forget_self_role_choice r) = jb_id r" "jb_key (forget_self_role_choice r) = jb_key r"
  "jb_status (forget_self_role_choice r) = jb_status r" "jb_guild (forget_self_role_choice r) = jb_guild r"
  "jb_generation (forget_self_role_choice r) = jb_generation r" "jb_kind (forget_self_role_choice r) = jb_kind r"
  "jb_lease_token (forget_self_role_choice r) = jb_lease_token r" "jb_created (forget_self_role_choice r) = jb_created r"
  "jb_attempts (forget_self_role_choice r) = jb_attempts r" "jb_due (forget_self_role_choice r) = jb_due r"
  "jb_lease_until (forget_self_role_choice r) = jb_lease_until r"
  "active (forget_self_role_choice r) = active r"
  by (simp_all add: forget_self_role_choice_def active_def)

lemma forget_payload: "active r \<Longrightarrow> jb_payload (forget_self_role_choice r) = jb_payload r"
  by (auto simp: forget_self_role_choice_def active_def ACTIVE_STATES_def)

lemma new_job_simps [simp]:
  "jb_id (new_job now i kind key payload guild user delay) = i"
  "jb_key (new_job now i kind key payload guild user delay) = key"
  "jb_status (new_job now i kind key payload guild user delay) = RowQueued"
  "jb_generation (new_job now i kind key payload guild user delay) = 1"
  "jb_lease_token (new_job now i kind key payload guild user delay) = None"
  "jb_payload (new_job now i kind key payload guild user delay) = payload"
  by (simp_all add: new_job_def forget_self_role_choice_def)

lemma closed_simps [simp]:
  "jb_id (closed now v r) = jb_id r" "jb_key (closed now v r) = jb_key r" "jb_guild (closed now v r) = jb_guild r"
  "jb_status (closed now v r) = RowSucceeded" "jb_lease_token (closed now v r) = jb_lease_token r"
  "jb_generation (closed now v r) = jb_generation r"
  by (simp_all add: closed_def)

lemma coalesce_simps [simp]:
  "jb_id (coalesce p due r) = jb_id r" "jb_key (coalesce p due r) = jb_key r"
  "jb_lease_token (coalesce p due r) = jb_lease_token r" "jb_kind (coalesce p due r) = jb_kind r"
  "jb_generation (coalesce p due r) = jb_generation r + 1" "active (coalesce p due r) = active r"
  by (auto simp: coalesce_def active_def ACTIVE_STATES_def)

definition ids_ok :: "job list \<Rightarrow> bool" where
  "ids_ok rows \<longleftrightarrow> distinct (map jb_id rows)"

lemma ids_okD: "ids_ok rows \<Longrightarrow> a \<in> set rows \<Longrightarrow> b \<in> set rows \<Longrightarrow> jb_id a = jb_id b \<Longrightarrow> a = b"
  by (auto simp: ids_ok_def distinct_map dest: inj_onD)

lemma index_ok_iff:
  assumes "ids_ok rows"
  shows "index_ok rows \<longleftrightarrow>
    (\<forall>a \<in> set rows. \<forall>b \<in> set rows. active a \<and> active b \<and> jb_key a = jb_key b \<longrightarrow> jb_id a = jb_id b)"
proof -
  have "distinct rows" using assms by (simp add: ids_ok_def distinct_map)
  then have "index_ok rows \<longleftrightarrow> inj_on jb_key {r \<in> set rows. active r}"
    by (simp add: index_ok_def distinct_map)
  then show ?thesis using ids_okD [OF assms] by (auto simp: inj_on_def)
qed

lemma update_rows_ids: "(\<And>r. jb_id (f r) = jb_id r) \<Longrightarrow> map jb_id (update_rows p f rows) = map jb_id rows"
  by (induction rows) (simp_all add: update_rows_def)

lemma update_rows_ids_ok: "(\<And>r. jb_id (f r) = jb_id r) \<Longrightarrow> ids_ok (update_rows p f rows) = ids_ok rows"
  by (simp add: ids_ok_def update_rows_ids)

text \<open>A statement that keeps keys and activates nothing keeps the index.\<close>

lemma update_rows_index:
  assumes "index_ok rows" "\<And>r. r \<in> set rows \<Longrightarrow> p r \<Longrightarrow> jb_key (f r) = jb_key r \<and> (active (f r) \<longrightarrow> active r)"
  shows "index_ok (update_rows p f rows)"
proof -
  have "index_ok (update_rows p f rows) \<and> set (map jb_key (filter active (update_rows p f rows))) \<subseteq>
      set (map jb_key (filter active rows))"
    using assms by (induction rows) (auto simp: update_rows_def index_ok_def)
  then show ?thesis ..
qed

lemma find_active:
  "find (\<lambda>r. active r \<and> jb_key r = key) rows = None \<longleftrightarrow> key \<notin> set (map jb_key (filter active rows))"
  by (auto simp: find_None_iff)

lemma enqueue_index:
  assumes "index_ok rows"
  shows "index_ok (snd (enqueue now i kind key payload guild user delay rows))"
proof (cases "find (\<lambda>r. active r \<and> jb_key r = key) rows")
  case None
  then have "key \<notin> set (map jb_key (filter active rows))" by (simp only: find_active not_False_eq_True)
  then show ?thesis using None assms by (simp add: enqueue_def index_ok_def active_def ACTIVE_STATES_def)
next
  case (Some holder)
  then show ?thesis using assms by (simp add: enqueue_def update_rows_index)
qed

lemma scheduleJob_index:
  assumes "index_ok rows"
  shows "index_ok (snd (scheduleJob now i kind key payload guild delay rows))"
  using assms by (auto simp: scheduleJob_def index_ok_def list_ex_iff active_def ACTIVE_STATES_def)

lemma closeUnstarted_index: "index_ok rows \<Longrightarrow> index_ok (closeUnstarted now key reason rows)"
  unfolding closeUnstarted_def by (rule update_rows_index) (simp_all add: active_def ACTIVE_STATES_def)

section \<open>Requeueing parked work\<close>

lemma newer_total: "jb_id a \<noteq> jb_id b \<Longrightarrow> newer a b \<or> newer b a"
  by (auto simp: newer_def)

lemma newer_trans: "newer a b \<Longrightarrow> newer b c \<Longrightarrow> newer a c"
  by (auto simp: newer_def)

lemma newer_irrefl: "\<not> newer a a"
  by (simp add: newer_def)

lemma newest: "xs \<noteq> [] \<Longrightarrow> \<exists>m \<in> set xs. \<forall>x \<in> set xs. \<not> newer x m"
proof (induction xs)
  case (Cons a xs)
  show ?case
  proof (cases "xs = []")
    case True
    then show ?thesis by (simp add: newer_irrefl)
  next
    case False
    with Cons.IH obtain m where m: "m \<in> set xs" "\<forall>x \<in> set xs. \<not> newer x m" by blast
    show ?thesis
    proof (cases "newer a m")
      case True
      then have "\<not> newer x a" if "x \<in> set xs" for x using m(2) newer_trans [of x a m] that by blast
      then show ?thesis by (auto simp: newer_irrefl)
    next
      case False
      with m show ?thesis by auto
    qed
  qed
qed simp

text \<open>A key belongs to one server, as every caller of \<open>enqueue\<close> builds it.\<close>

definition keys_ok :: "job list \<Rightarrow> bool" where
  "keys_ok rows \<longleftrightarrow> list_all (\<lambda>a. list_all (\<lambda>b. jb_key a = jb_key b \<longrightarrow> jb_guild a = jb_guild b) rows) rows"

lemma keys_okD: "keys_ok rows \<Longrightarrow> a \<in> set rows \<Longrightarrow> b \<in> set rows \<Longrightarrow> jb_key a = jb_key b \<Longrightarrow> jb_guild a = jb_guild b"
  unfolding keys_ok_def list_all_iff by blast

text \<open>Both statements of one pass, as one update per row.\<close>

definition superseded_row :: "int \<Rightarrow> job \<Rightarrow> job" where
  "superseded_row now r = forget_self_role_choice (closed now (JsonObject (json_join
     [(''skipped'', JsonText ''superseded'')] (applied_evidence (jb_result r)))) r)"

definition requeued_row :: "int \<Rightarrow> job \<Rightarrow> job" where
  "requeued_row now r = forget_self_role_choice
     (r\<lparr>jb_status := RowQueued, jb_due := now, jb_attempts := 0, jb_error := None\<rparr>)"

definition pass_row :: "int \<Rightarrow> ident list \<Rightarrow> job_status list \<Rightarrow> job list \<Rightarrow> job \<Rightarrow> job" where
  "pass_row now guilds statuses rows r =
     (if loses guilds statuses rows r then superseded_row now r
      else if parked guilds statuses r then requeued_row now r else r)"

lemma superseded_row_simps [simp]:
  "jb_id (superseded_row now r) = jb_id r" "jb_key (superseded_row now r) = jb_key r"
  "jb_guild (superseded_row now r) = jb_guild r" "jb_status (superseded_row now r) = RowSucceeded"
  by (simp_all add: superseded_row_def)

lemma requeued_row_simps [simp]:
  "jb_id (requeued_row now r) = jb_id r" "jb_key (requeued_row now r) = jb_key r"
  "jb_guild (requeued_row now r) = jb_guild r" "jb_status (requeued_row now r) = RowQueued"
  "jb_due (requeued_row now r) = now" "jb_attempts (requeued_row now r) = 0"
  by (simp_all add: requeued_row_def)

lemma pass_row_simps [simp]:
  "jb_id (pass_row now guilds statuses rows r) = jb_id r" "jb_key (pass_row now guilds statuses rows r) = jb_key r"
  "jb_guild (pass_row now guilds statuses rows r) = jb_guild r"
  by (simp_all add: pass_row_def)

abbreviation parked_states :: "job_status list \<Rightarrow> bool" where
  "parked_states statuses \<equiv> set statuses \<subseteq> {RowDisabled, RowBlocked}"

lemma pass_rows:
  assumes "parked_states statuses"
  shows "requeue now guilds statuses (supersede now guilds statuses rows) = map (pass_row now guilds statuses rows) rows"
  using assms
  by (auto simp: requeue_def supersede_def update_rows_def pass_row_def superseded_row_def requeued_row_def parked_def)

lemma pass_row_parked:
  assumes "parked_states statuses"
  shows "\<not> parked guilds statuses (pass_row now guilds statuses rows r)"
  using assms by (auto simp: pass_row_def parked_def)

lemma pass_row_active:
  "active (pass_row now guilds statuses rows r) \<longleftrightarrow>
     \<not> loses guilds statuses rows r \<and> (parked guilds statuses r \<or> active r)"
  by (auto simp: pass_row_def active_def ACTIVE_STATES_def)

lemma one_survivor:
  assumes ok: "ids_ok rows" "index_ok rows" "keys_ok rows"
    and r: "r \<in> set rows" "active (pass_row now guilds statuses rows r)"
    and x: "x \<in> set rows" "active (pass_row now guilds statuses rows x)" "jb_key r = jb_key x"
  shows "jb_id r = jb_id x"
proof (rule ccontr)
  assume ne: "jb_id r \<noteq> jb_id x"
  note lose = r(2) [unfolded pass_row_active] x(2) [unfolded pass_row_active]
  have guild: "jb_guild r = jb_guild x" by (rule keys_okD [OF ok(3) r(1) x(1,3)])
  have keeps: False
    if a: "a \<in> set rows" "parked guilds statuses a" "\<not> loses guilds statuses rows a"
      and b: "b \<in> set rows" "active b" "\<not> parked guilds statuses b" "jb_guild a = jb_guild b" "jb_key b = jb_key a"
        "jb_id b \<noteq> jb_id a" for a b
  proof -
    have "jb_status b \<notin> set statuses" using a(2) b(3,4) by (auto simp: parked_def)
    moreover have "jb_status b \<in> set ACTIVE_STATES" using b(2) by (simp add: active_def)
    ultimately have "loses guilds statuses rows a"
      unfolding loses_def list_ex_iff using a(2) b(1,5,6) by blast
    with a(3) show False ..
  qed
  have both: False if "parked guilds statuses r" "parked guilds statuses x"
  proof -
    have "loses guilds statuses rows r \<or> loses guilds statuses rows x"
      unfolding loses_def list_ex_iff using newer_total [OF ne] that r(1) x(1,3) ne by metis
    with lose show False by blast
  qed
  consider "parked guilds statuses r" "parked guilds statuses x"
    | "parked guilds statuses r" "\<not> parked guilds statuses x" "active x"
    | "\<not> parked guilds statuses r" "parked guilds statuses x" "active r"
    | "active r" "active x" using lose by blast
  then show False
  proof cases
    case 1
    then show ?thesis by (rule both)
  next
    case 2
    then show ?thesis using keeps [of r x] r(1) x lose guild ne by simp
  next
    case 3
    then show ?thesis using keeps [of x r] r(1) x lose guild ne by simp
  next
    case 4
    then show ?thesis using ok(2) ne r(1) x unfolding index_ok_iff [OF ok(1)] by blast
  qed
qed

lemma pass_index:
  assumes "ids_ok rows" "index_ok rows" "keys_ok rows"
  shows "ids_ok (map (pass_row now guilds statuses rows) rows)"
    "index_ok (map (pass_row now guilds statuses rows) rows)"
proof -
  show ids: "ids_ok (map (pass_row now guilds statuses rows) rows)"
    using assms(1) by (simp add: ids_ok_def comp_def)
  show "index_ok (map (pass_row now guilds statuses rows) rows)"
  proof (unfold index_ok_iff [OF ids], intro ballI impI)
    fix a b
    assume "a \<in> set (map (pass_row now guilds statuses rows) rows)" "b \<in> set (map (pass_row now guilds statuses rows) rows)"
      and ab: "active a \<and> active b \<and> jb_key a = jb_key b"
    then obtain r x where "r \<in> set rows" "a = pass_row now guilds statuses rows r"
      "x \<in> set rows" "b = pass_row now guilds statuses rows x" by auto
    then show "jb_id a = jb_id b"
      using ab one_survivor [OF assms, of r now guilds statuses x] by simp
  qed
qed

lemma parked_key_survives:
  assumes ok: "ids_ok rows" and st: "parked_states statuses" and r: "r \<in> set rows" "parked guilds statuses r"
  obtains h where "h \<in> set rows" "jb_key h = jb_key r" "active (pass_row now guilds statuses rows h)"
proof (cases "\<exists>x \<in> set rows. jb_key x = jb_key r \<and> jb_status x \<in> set ACTIVE_STATES \<and> jb_status x \<notin> set statuses")
  case True
  then obtain x where "x \<in> set rows" "jb_key x = jb_key r" "jb_status x \<in> set ACTIVE_STATES" "jb_status x \<notin> set statuses"
    by blast
  moreover from this have "\<not> parked guilds statuses x" by (simp add: parked_def)
  ultimately have "active (pass_row now guilds statuses rows x)"
    unfolding pass_row_active by (simp add: loses_def active_def)
  with \<open>x \<in> set rows\<close> \<open>jb_key x = jb_key r\<close> show thesis using that by blast
next
  case False
  let ?xs = "filter (\<lambda>x. jb_key x = jb_key r \<and> parked guilds statuses x) rows"
  have "?xs \<noteq> []" using r by (auto simp: filter_empty_conv)
  then obtain m where "m \<in> set ?xs" "\<forall>x \<in> set ?xs. \<not> newer x m" using newest by blast
  then show thesis using that [of m] False by (auto simp: pass_row_active loses_def list_ex_iff)
qed

lemma pass_result:
  assumes "ids_ok (qd_rows d)" "index_ok (qd_rows d)" "keys_ok (qd_rows d)" "parked_states statuses"
  obtains ids d' where "supersedeAndRequeue now guilds statuses (\<lambda>rows. rows) d = Requeued ids d'"
    "qd_rows d' = map (pass_row now guilds statuses (qd_rows d)) (qd_rows d)"
    "qd_links d' =
      (let losers = map jb_id (filter (loses guilds statuses (qd_rows d)) (qd_rows d))
       in if losers = [] then qd_links d else move_links losers (qd_rows d') (qd_links d))"
proof -
  let ?d' = "\<lparr>qd_rows = map (pass_row now guilds statuses (qd_rows d)) (qd_rows d),
    qd_links = (let losers = map jb_id (filter (loses guilds statuses (qd_rows d)) (qd_rows d))
      in if losers = [] then qd_links d
         else move_links losers (map (pass_row now guilds statuses (qd_rows d)) (qd_rows d)) (qd_links d))\<rparr>"
  have "supersedeAndRequeue now guilds statuses (\<lambda>rows. rows) d =
      Requeued (map jb_id (filter (parked guilds statuses) (supersede now guilds statuses (qd_rows d)))) ?d'"
    unfolding supersedeAndRequeue_def Let_def pass_rows [OF assms(4)]
    using pass_index(2) [OF assms(1-3), of now guilds statuses] by simp
  then show thesis by (rule that) simp_all
qed

lemma one_active:
  assumes "index_ok rows" "h \<in> set rows" "active h"
  shows "length (filter (\<lambda>r. active r \<and> jb_key r = jb_key h) rows) = 1"
proof -
  have "distinct (map jb_key xs) \<Longrightarrow> h \<in> set xs \<Longrightarrow> length (filter (\<lambda>r. jb_key r = jb_key h) xs) = 1" for xs
    by (induction xs) (force simp: filter_empty_conv image_iff)+
  from this [of "filter active rows"] show ?thesis using assms by (simp add: index_ok_def conj_commute)
qed

lemma in_move_links:
  "(run, i) \<in> set (move_links ids rows links) \<longleftrightarrow>
     ((run, i) \<in> set links \<or> (\<exists>j. (run, j) \<in> set links \<and> j \<in> set ids \<and> i \<in> set (holders rows j))) \<and>
     \<not> (i \<in> set ids \<and> holders rows i \<noteq> [])"
  by (auto simp: move_links_def Let_def)

lemma holders_of:
  assumes "ids_ok rows" "r \<in> set rows"
  shows "holders rows (jb_id r) = map jb_id (filter (\<lambda>h. active h \<and> jb_key h = jb_key r) rows)"
proof -
  have "find (\<lambda>x. jb_id x = jb_id r) rows = Some r"
  proof (cases "find (\<lambda>x. jb_id x = jb_id r) rows")
    case None
    then show ?thesis using assms(2) by (auto simp: find_None_iff)
  next
    case (Some x)
    then have "x \<in> set rows" "jb_id x = jb_id r" by (auto simp: find_Some_iff)
    then show ?thesis using Some ids_okD [OF assms(1) _ assms(2)] by simp
  qed
  then show ?thesis by (simp add: holders_def)
qed

lemma runs_follow:
  fixes now :: int
  assumes ok: "ids_ok rows" "index_ok rows" "keys_ok rows" "parked_states statuses"
    and r: "r \<in> set rows" "parked guilds statuses r" "(run, jb_id r) \<in> set links"
  defines "after \<equiv> map (pass_row now guilds statuses rows) rows"
    and "losers \<equiv> map jb_id (filter (loses guilds statuses rows) rows)"
  shows "\<exists>h \<in> set after. active h \<and> jb_key h = jb_key r \<and>
    (run, jb_id h) \<in> set (if losers = [] then links else move_links losers after links)"
proof -
  have loser_iff: "jb_id x \<in> set losers \<longleftrightarrow> loses guilds statuses rows x" if "x \<in> set rows" for x
    using ids_okD [OF ok(1)] that by (auto simp: losers_def)
  obtain h where h: "h \<in> set rows" "jb_key h = jb_key r" "active (pass_row now guilds statuses rows h)"
    by (rule parked_key_survives [OF ok(1,4) r(1,2)])
  have keep: "jb_id h \<notin> set losers" using h(1,3) loser_iff by (simp add: pass_row_active)
  have ids: "ids_ok after" unfolding after_def by (rule pass_index(1) [OF ok(1-3)])
  show ?thesis
  proof (cases "loses guilds statuses rows r")
    case False
    then have "active (pass_row now guilds statuses rows r)" using r(2) by (simp add: pass_row_active)
    moreover have "jb_id r \<notin> set losers" using False loser_iff [OF r(1)] by simp
    ultimately show ?thesis
      using r(1,3) by (intro bexI [of _ "pass_row now guilds statuses rows r"]) (auto simp: after_def in_move_links)
  next
    case True
    have "pass_row now guilds statuses rows r \<in> set after" using r(1) by (simp add: after_def)
    from holders_of [OF ids this]
    have hold: "holders after (jb_id r) = map jb_id (filter (\<lambda>h. active h \<and> jb_key h = jb_key r) after)" by simp
    have "pass_row now guilds statuses rows h \<in> set after" using h(1) by (simp add: after_def)
    then have "jb_id (pass_row now guilds statuses rows h) \<in> set (holders after (jb_id r))"
      using h(2,3) unfolding hold set_map set_filter by (intro image_eqI [OF refl]) auto
    then have "jb_id h \<in> set (holders after (jb_id r))" by simp
    moreover have "jb_id r \<in> set losers" using True loser_iff [OF r(1)] by simp
    ultimately have "(run, jb_id h) \<in> set (move_links losers after links)" "losers \<noteq> []"
      using r(3) keep by (auto simp: in_move_links)
    then show ?thesis
      using h by (intro bexI [of _ "pass_row now guilds statuses rows h"]) (simp_all add: after_def)
  qed
qed

text \<open>
  Resumed work is neither lost nor duplicated: a requeueing pass that nobody disturbs never
  meets the unique index, leaves no parked row of those servers, leaves exactly one active row for
  every key that had one, and every run that tracked a parked row tracks the active row of its key.
\<close>

theorem requeue_pass_keeps_every_key:
  assumes "ids_ok (qd_rows d)" "index_ok (qd_rows d)" "keys_ok (qd_rows d)" "parked_states statuses"
  shows "\<exists>ids d'. supersedeAndRequeue now guilds statuses (\<lambda>rows. rows) d = Requeued ids d' \<and>
    index_ok (qd_rows d') \<and> list_all (\<lambda>r. \<not> parked guilds statuses r) (qd_rows d') \<and>
    (\<forall>r \<in> set (qd_rows d). parked guilds statuses r \<longrightarrow>
       length (filter (\<lambda>h. active h \<and> jb_key h = jb_key r) (qd_rows d')) = 1 \<and>
       (\<forall>run. (run, jb_id r) \<in> set (qd_links d) \<longrightarrow>
          (\<exists>h \<in> set (qd_rows d'). active h \<and> jb_key h = jb_key r \<and> (run, jb_id h) \<in> set (qd_links d'))))"
proof -
  obtain ids d' where d': "supersedeAndRequeue now guilds statuses (\<lambda>rows. rows) d = Requeued ids d'"
    and rows: "qd_rows d' = map (pass_row now guilds statuses (qd_rows d)) (qd_rows d)"
    and links: "qd_links d' = (let losers = map jb_id (filter (loses guilds statuses (qd_rows d)) (qd_rows d))
       in if losers = [] then qd_links d else move_links losers (qd_rows d') (qd_links d))"
    by (rule pass_result [OF assms])
  have index: "index_ok (qd_rows d')" unfolding rows by (rule pass_index(2) [OF assms(1-3)])
  have "length (filter (\<lambda>h. active h \<and> jb_key h = jb_key r) (qd_rows d')) = 1"
    if r: "r \<in> set (qd_rows d)" "parked guilds statuses r" for r
  proof -
    obtain h where "h \<in> set (qd_rows d)" "jb_key h = jb_key r" "active (pass_row now guilds statuses (qd_rows d) h)"
      by (rule parked_key_survives [OF assms(1,4) r])
    then show ?thesis using one_active [OF index, of "pass_row now guilds statuses (qd_rows d) h"] rows by simp
  qed
  moreover have "\<exists>h \<in> set (qd_rows d'). active h \<and> jb_key h = jb_key r \<and> (run, jb_id h) \<in> set (qd_links d')"
    if "r \<in> set (qd_rows d)" "parked guilds statuses r" "(run, jb_id r) \<in> set (qd_links d)" for r run
    using runs_follow [OF assms that] unfolding links Let_def rows .
  ultimately show ?thesis
    using d' index pass_row_parked [OF assms(4)] by (auto simp: rows list_all_iff simp del: One_nat_def)
qed

definition rows_ok :: "job list \<Rightarrow> bool" where
  "rows_ok rows \<longleftrightarrow> ids_ok rows \<and> index_ok rows \<and> keys_ok rows"

text \<open>A key whose work is still to do, or being done.\<close>

definition has_work :: "ident list \<Rightarrow> job_status list \<Rightarrow> string \<Rightarrow> job list \<Rightarrow> bool" where
  "has_work guilds statuses key rows \<longleftrightarrow> (\<exists>r \<in> set rows. jb_key r = key \<and> (parked guilds statuses r \<or> active r))"

definition keeps_work :: "ident list \<Rightarrow> job_status list \<Rightarrow> (job list \<Rightarrow> job list) \<Rightarrow> bool" where
  "keeps_work guilds statuses other \<longleftrightarrow>
     (\<forall>rows key. rows_ok rows \<longrightarrow> has_work guilds statuses key rows \<longrightarrow> has_work guilds statuses key (other rows))"

lemma supersede_ok:
  assumes "rows_ok rows"
  shows "rows_ok (supersede now guilds statuses rows)"
proof -
  have "map (\<lambda>r. (jb_key r, jb_guild r)) (supersede now guilds statuses rows) = map (\<lambda>r. (jb_key r, jb_guild r)) rows"
    by (simp add: supersede_def update_rows_def)
  then have same: "(\<lambda>r. (jb_key r, jb_guild r)) ` set (supersede now guilds statuses rows) = (\<lambda>r. (jb_key r, jb_guild r)) ` set rows"
    unfolding set_map [symmetric] by (rule arg_cong)
  have "keys_ok (supersede now guilds statuses rows)"
    unfolding keys_ok_def list_all_iff
  proof (intro ballI impI)
    fix a b
    assume ab: "a \<in> set (supersede now guilds statuses rows)" "b \<in> set (supersede now guilds statuses rows)" "jb_key a = jb_key b"
    have "(jb_key a, jb_guild a) \<in> (\<lambda>r. (jb_key r, jb_guild r)) ` set rows" "(jb_key b, jb_guild b) \<in> (\<lambda>r. (jb_key r, jb_guild r)) ` set rows"
      using ab(1,2) unfolding same [symmetric] by blast+
    then obtain x y where xy: "x \<in> set rows" "jb_key a = jb_key x" "jb_guild a = jb_guild x"
        "y \<in> set rows" "jb_key b = jb_key y" "jb_guild b = jb_guild y" by auto
    have "jb_guild x = jb_guild y" by (rule keys_okD [OF _ xy(1,4)]) (use assms ab(3) xy in \<open>simp_all add: rows_ok_def\<close>)
    then show "jb_guild a = jb_guild b" using xy by simp
  qed
  moreover have "index_ok (supersede now guilds statuses rows)" unfolding supersede_def
    by (rule update_rows_index) (use assms in \<open>simp_all add: rows_ok_def active_def ACTIVE_STATES_def\<close>)
  moreover have "ids_ok (supersede now guilds statuses rows)"
    using assms by (simp add: rows_ok_def supersede_def update_rows_ids_ok)
  ultimately show ?thesis by (simp add: rows_ok_def)
qed

lemma supersede_work:
  assumes "rows_ok rows" "parked_states statuses" "has_work guilds statuses key rows"
  shows "has_work guilds statuses key (supersede now guilds statuses rows)"
proof -
  obtain r where r: "r \<in> set rows" "jb_key r = key" "parked guilds statuses r \<or> active r"
    using assms(3) by (auto simp: has_work_def)
  have "\<exists>h \<in> set rows. jb_key h = key \<and> active (pass_row now guilds statuses rows h)"
  proof (cases "parked guilds statuses r")
    case True
    show ?thesis
      by (rule parked_key_survives [OF _ assms(2) r(1) True, of now]) (use assms(1) r(2) in \<open>auto simp: rows_ok_def\<close>)
  next
    case False
    then have "active (pass_row now guilds statuses rows r)" using r(3) by (simp add: pass_row_active loses_def)
    then show ?thesis using r(1,2) by blast
  qed
  then obtain h where h: "h \<in> set rows" "jb_key h = key" "\<not> loses guilds statuses rows h" "parked guilds statuses h \<or> active h"
    by (auto simp: pass_row_active)
  then have "h \<in> set (supersede now guilds statuses rows)" by (force simp: supersede_def update_rows_def)
  then show ?thesis using h(2,4) by (auto simp: has_work_def)
qed

lemma requeue_done:
  assumes "parked_states statuses"
  shows "list_all (\<lambda>r. \<not> parked guilds statuses r) (requeue now guilds statuses rows)"
    "i \<in> set (map jb_id (filter (parked guilds statuses) rows)) \<Longrightarrow>
       \<exists>r \<in> set (requeue now guilds statuses rows). jb_id r = i \<and> jb_status r = RowQueued \<and> jb_attempts r = 0 \<and> jb_due r = now \<and> jb_error r = None"
    "has_work guilds statuses key rows \<Longrightarrow> \<exists>r \<in> set (requeue now guilds statuses rows). active r \<and> jb_key r = key"
proof -
  have set: "set (requeue now guilds statuses rows) = (\<lambda>r. if parked guilds statuses r then requeued_row now r else r) ` set rows"
    by (simp add: requeue_def update_rows_def requeued_row_def)
  have err: "jb_error (requeued_row now r) = None" for r by (simp add: requeued_row_def forget_self_role_choice_def)
  have act: "active (requeued_row now r)" for r by (simp add: active_def ACTIVE_STATES_def)
  show "list_all (\<lambda>r. \<not> parked guilds statuses r) (requeue now guilds statuses rows)"
    using assms unfolding list_all_iff set by (auto simp: parked_def)
  show "\<exists>r \<in> set (requeue now guilds statuses rows). jb_id r = i \<and> jb_status r = RowQueued \<and> jb_attempts r = 0 \<and> jb_due r = now \<and> jb_error r = None"
    if "i \<in> set (map jb_id (filter (parked guilds statuses) rows))"
  proof -
    obtain r where r: "r \<in> set rows" "parked guilds statuses r" "jb_id r = i" using \<open>i \<in> _\<close> by auto
    show ?thesis unfolding set by (rule bexI [of _ "requeued_row now r"], use r err in simp) (rule image_eqI [of _ _ r], use r in simp_all)
  qed
  show "\<exists>r \<in> set (requeue now guilds statuses rows). active r \<and> jb_key r = key" if w: "has_work guilds statuses key rows"
  proof -
    obtain r where r: "r \<in> set rows" "jb_key r = key" "parked guilds statuses r \<or> active r" using w unfolding has_work_def by blast
    let ?r = "if parked guilds statuses r then requeued_row now r else r"
    have "active ?r \<and> jb_key ?r = key" using r act by auto
    then show ?thesis unfolding set using r(1) by blast
  qed
qed

definition requeued_well :: "int \<Rightarrow> ident list \<Rightarrow> job_status list \<Rightarrow> ident list \<Rightarrow> job list \<Rightarrow> bool" where
  "requeued_well now guilds statuses ids rows \<longleftrightarrow>
     index_ok rows \<and> list_all (\<lambda>r. \<not> parked guilds statuses r) rows \<and>
     (\<forall>i \<in> set ids. \<exists>r \<in> set rows. jb_id r = i \<and> jb_status r = RowQueued \<and> jb_attempts r = 0 \<and> jb_due r = now \<and> jb_error r = None)"

lemma pass_well:
  assumes "supersedeAndRequeue now guilds statuses f d = Requeued ids d'" "parked_states statuses"
  shows "requeued_well now guilds statuses ids (qd_rows d')"
    "rows_ok (qd_rows d) \<Longrightarrow> keeps_work guilds statuses f \<Longrightarrow> has_work guilds statuses key (qd_rows d) \<Longrightarrow>
       length (filter (\<lambda>h. active h \<and> jb_key h = key) (qd_rows d')) = 1"
proof -
  let ?first = "f (supersede now guilds statuses (qd_rows d))"
  have rows: "qd_rows d' = requeue now guilds statuses ?first" "ids = map jb_id (filter (parked guilds statuses) ?first)"
    and index: "index_ok (qd_rows d')"
    using assms(1) by (auto simp: supersedeAndRequeue_def Let_def split: if_splits)
  show "requeued_well now guilds statuses ids (qd_rows d')"
    unfolding requeued_well_def
  proof (intro conjI ballI)
    show "index_ok (qd_rows d')" by (rule index)
    show "list_all (\<lambda>r. \<not> parked guilds statuses r) (qd_rows d')" unfolding rows by (rule requeue_done(1) [OF assms(2)])
  qed (unfold rows, rule requeue_done(2) [OF assms(2)])
  assume "rows_ok (qd_rows d)" "keeps_work guilds statuses f" "has_work guilds statuses key (qd_rows d)"
  then have "has_work guilds statuses key ?first"
    unfolding keeps_work_def using supersede_ok supersede_work [OF _ assms(2)] by blast
  then obtain h where "h \<in> set (qd_rows d')" "active h" "jb_key h = key"
    using requeue_done(3) [OF assms(2)] rows(1) by metis
  then show "length (filter (\<lambda>h. active h \<and> jb_key h = key) (qd_rows d')) = 1" using one_active [OF index] by blast
qed

lemma requeue_passes_Some:
  assumes "rows_ok (qd_rows d)" "parked_states statuses" "(\<lambda>rows. rows) \<in> set others"
    and "\<And>f rows. f \<in> set others \<Longrightarrow> rows_ok rows \<Longrightarrow> rows_ok (f rows)"
  shows "\<exists>ids d'. requeue_passes now guilds statuses others d = Some (ids, d') \<and> requeued_well now guilds statuses ids (qd_rows d') \<and>
    ((\<forall>f \<in> set others. keeps_work guilds statuses f) \<longrightarrow> (\<forall>key. has_work guilds statuses key (qd_rows d) \<longrightarrow>
       length (filter (\<lambda>h. active h \<and> jb_key h = key) (qd_rows d')) = 1))"
  using assms
proof (induction others arbitrary: d)
  case (Cons f others)
  show ?case
  proof (cases "supersedeAndRequeue now guilds statuses f d")
    case (Requeued ids d')
    then show ?thesis using pass_well [OF Requeued Cons.prems(2)] Cons.prems(1) by simp
  next
    case ActiveJobConflict
    have ok: "ids_ok (qd_rows d)" "index_ok (qd_rows d)" "keys_ok (qd_rows d)"
      using Cons.prems(1) by (simp_all add: rows_ok_def)
    obtain ids d' where "supersedeAndRequeue now guilds statuses (\<lambda>rows. rows) d = Requeued ids d'"
      by (rule pass_result [OF ok Cons.prems(2)])
    then have "f \<noteq> (\<lambda>rows. rows)" using ActiveJobConflict by force
    then have others: "(\<lambda>rows. rows) \<in> set others" using Cons.prems(3) by simp
    let ?d = "d\<lparr>qd_rows := f (qd_rows d)\<rparr>"
    have rest: "requeue_passes now guilds statuses (f # others) d = requeue_passes now guilds statuses others ?d"
      using ActiveJobConflict by simp
    have "\<exists>ids d'. requeue_passes now guilds statuses others ?d = Some (ids, d') \<and> requeued_well now guilds statuses ids (qd_rows d') \<and>
        ((\<forall>f \<in> set others. keeps_work guilds statuses f) \<longrightarrow> (\<forall>key. has_work guilds statuses key (qd_rows ?d) \<longrightarrow>
           length (filter (\<lambda>h. active h \<and> jb_key h = key) (qd_rows d')) = 1))"
      by (rule Cons.IH [OF _ Cons.prems(2) others]) (use Cons.prems(1,4) in simp_all)
    moreover have "has_work guilds statuses key (qd_rows ?d)" if "keeps_work guilds statuses f" "has_work guilds statuses key (qd_rows d)" for key
      using that Cons.prems(1) by (simp add: keeps_work_def)
    ultimately show ?thesis unfolding rest by (elim exE conjE) (intro exI conjI impI allI, assumption+, simp)
  qed
qed simp

text \<open>
  (C40) Where one of the retry loop's five passes is not disturbed by other transactions, the loop returns with the
  work requeued instead of rethrowing the conflict: no row of those servers is parked any more, each ID it returns
  is a queued row, due now, with a fresh attempt budget and no error, no key has two active rows, and, as long
  as the others end no work of their own, every key that had a parked row has exactly one active row.
\<close>

theorem requeueParked_returns:
  assumes "rows_ok (qd_rows d)" "parked_states statuses"
    and "\<forall>n < 5. \<forall>rows. rows_ok rows \<longrightarrow> rows_ok (others n rows)"
    and "k < 5" "others k = (\<lambda>rows. rows)"
  shows "\<exists>ids d'. requeueParked now guilds statuses others d = Some (ids, d') \<and>
    index_ok (qd_rows d') \<and> list_all (\<lambda>r. \<not> parked guilds statuses r) (qd_rows d') \<and>
    (\<forall>i \<in> set ids. \<exists>r \<in> set (qd_rows d').
       jb_id r = i \<and> jb_status r = RowQueued \<and> jb_attempts r = 0 \<and> jb_due r = now \<and> jb_error r = None) \<and>
    ((\<forall>n < 5. keeps_work guilds statuses (others n)) \<longrightarrow>
       (\<forall>r \<in> set (qd_rows d). parked guilds statuses r \<longrightarrow>
          length (filter (\<lambda>h. active h \<and> jb_key h = jb_key r) (qd_rows d')) = 1))"
proof (cases "guilds = [] \<or> statuses = []")
  case True
  then have none: "\<not> parked guilds statuses r" for r by (auto simp: parked_def split: option.splits)
  show ?thesis using True none assms(1) by (auto simp: requeueParked_def rows_ok_def list_all_iff)
next
  case False
  let ?others = "map others [0..<REQUEUE_ATTEMPTS]"
  have all: "(\<lambda>rows. rows) \<in> set ?others" unfolding set_map
    by (rule image_eqI [of _ _ k]) (use assms(4,5) in \<open>simp_all add: REQUEUE_ATTEMPTS_def\<close>)
  have five: "f \<in> set ?others \<longleftrightarrow> (\<exists>n < 5. f = others n)" for f by (auto simp: REQUEUE_ATTEMPTS_def)
  obtain ids d' where r: "requeue_passes now guilds statuses ?others d = Some (ids, d')"
      "requeued_well now guilds statuses ids (qd_rows d')"
      "(\<forall>f \<in> set ?others. keeps_work guilds statuses f) \<longrightarrow> (\<forall>key. has_work guilds statuses key (qd_rows d) \<longrightarrow>
         length (filter (\<lambda>h. active h \<and> jb_key h = key) (qd_rows d')) = 1)"
  proof (rule exE [OF requeue_passes_Some [OF assms(1,2) all, of now guilds]], goal_cases)
    case (1 f rows)
    obtain n where "n < 5" "f = others n" using 1(2) five by blast
    then show ?case using assms(3) 1(3) by blast
  next
    case (2 ids)
    then show ?case using that by blast
  qed
  have work: "has_work guilds statuses (jb_key r) (qd_rows d)" if "r \<in> set (qd_rows d)" "parked guilds statuses r" for r
    unfolding has_work_def using that by blast
  have run: "requeueParked now guilds statuses others d = Some (ids, d')"
    unfolding requeueParked_def if_not_P [OF False] by (rule r(1))
  have keys: "\<forall>key. has_work guilds statuses key (qd_rows d) \<longrightarrow> length (filter (\<lambda>h. active h \<and> jb_key h = key) (qd_rows d')) = 1"
    if "\<forall>n < 5. keeps_work guilds statuses (others n)"
  proof (rule mp [OF r(3)], rule ballI)
    fix f assume "f \<in> set ?others"
    then obtain n where "n < 5" "f = others n" using five by blast
    then show "keeps_work guilds statuses f" using that by simp
  qed
  note well = r(2) [unfolded requeued_well_def]
  show ?thesis
    by (intro exI [of _ ids] exI [of _ d'] conjI impI ballI run well [THEN conjunct1] well [THEN conjunct2, THEN conjunct1]
        bspec [OF well [THEN conjunct2, THEN conjunct2]] keys [THEN spec, THEN mp, OF _ work]) assumption+
qed

text \<open>A retry that is accepted keeps the index, and one that is refused names an active row.\<close>

lemma retryJob_index:
  assumes "ids_ok rows" "index_ok rows" "retryJob now guild i rows = Inr rows'"
  shows "index_ok rows'"
proof -
  let ?p = "\<lambda>r. jb_id r = i \<and> jb_guild r = Some guild \<and> jb_status r \<in> {RowBlocked, RowFailed, RowDisabled}"
  obtain target where found: "find ?p rows = Some target" using assms(3) by (auto simp: retryJob_def split: option.splits)
  then have t: "target \<in> set rows" "jb_id target = i" by (auto simp: find_Some_iff)
  have free: "\<forall>r \<in> set rows. \<not> (jb_key r = jb_key target \<and> jb_id r \<noteq> i \<and> active r)"
    and rows': "rows' = update_rows (\<lambda>r. jb_id r = i) (\<lambda>r. r\<lparr>jb_status := RowQueued, jb_attempts := 0,
      jb_due := now, jb_error := None, jb_completed := None\<rparr>) rows"
    using assms(3) unfolding retryJob_def found
    by (simp add: find_None_iff split: option.splits)+
  define f where "f = (\<lambda>r. if jb_id r = i then forget_self_role_choice (r\<lparr>jb_status := RowQueued, jb_attempts := 0,
      jb_due := now, jb_error := None, jb_completed := None\<rparr>) else r)"
  have ids: "ids_ok rows'" unfolding rows' using assms(1) by (simp add: update_rows_ids_ok)
  have target: "r = target" if "r \<in> set rows" "jb_id r = i" for r
    by (rule ids_okD [OF assms(1) that(1) t(1)]) (simp add: that(2) t(2))
  have keep: "jb_id (f r) = jb_id r" "jb_key (f r) = jb_key r" "jb_id r \<noteq> i \<Longrightarrow> f r = r" for r by (simp_all add: f_def)
  have clash: "jb_id r = jb_id x"
    if r: "r \<in> set rows" "active (f r)" and x: "x \<in> set rows" "active (f x)" and key: "jb_key r = jb_key x" for r x
  proof (cases "jb_id r = i")
    case True
    then have "r = target" by (rule target [OF r(1)])
    then have "\<not> (jb_id x \<noteq> i \<and> active x)" using free x(1) key by simp
    then show ?thesis using True keep(3) [of x] x(2) by (cases "jb_id x = i") auto
  next
    case False
    show ?thesis
    proof (cases "jb_id x = i")
      case True
      then have "x = target" by (rule target [OF x(1)])
      then have "\<not> (jb_id r \<noteq> i \<and> active r)" using free r(1) key by simp
      then show ?thesis using True keep(3) [of r] r(2) by (cases "jb_id r = i") auto
    next
      case False
      then have "active r" "active x" using \<open>jb_id r \<noteq> i\<close> r(2) x(2) keep(3) by metis+
      then show ?thesis using assms(2) r(1) x(1) key unfolding index_ok_iff [OF assms(1)] by blast
    qed
  qed
  have rows'_map: "rows' = map f rows" by (simp add: rows' update_rows_def f_def)
  show ?thesis
  proof (unfold index_ok_iff [OF ids], intro ballI impI)
    fix a b
    assume "a \<in> set rows'" "b \<in> set rows'" and ab: "active a \<and> active b \<and> jb_key a = jb_key b"
    then obtain r x where "r \<in> set rows" "a = f r" "x \<in> set rows" "b = f x" by (auto simp: rows'_map)
    then show "jb_id a = jb_id b" using ab clash [of r x] by (simp add: keep)
  qed
qed

text \<open>A key with two parked rows, and a run that tracks the older one.\<close>

definition parked_job :: "ident \<Rightarrow> int \<Rightarrow> job" where
  "parked_job i created = (new_job created i ''roles.layout'' ''role-layout:7'' (JsonObject []) (Some ''7'') None 0)
     \<lparr>jb_status := RowDisabled\<rparr>"

lemma parked_job_simps [simp]:
  "jb_id (parked_job i created) = i" "jb_key (parked_job i created) = ''role-layout:7''"
  "jb_guild (parked_job i created) = Some ''7''" "jb_status (parked_job i created) = RowDisabled"
  by (simp_all add: parked_job_def new_job_def forget_self_role_choice_def)

definition parked_db :: queue_db where
  "parked_db = \<lparr>qd_rows = [parked_job ''a'' 1, parked_job ''b'' 2], qd_links = [(''run'', ''a'')]\<rparr>"

lemma parked_db_ok: "rows_ok (qd_rows parked_db)"
  by (simp add: rows_ok_def ids_ok_def index_ok_def keys_ok_def parked_db_def active_def ACTIVE_STATES_def)

theorem requeue_pass_keeps_every_key_witness:
  "\<exists>d' :: queue_db. length (filter (\<lambda>h. active h \<and> jb_key h = ''role-layout:7'') (qd_rows d')) = 1 \<and>
     (\<exists>h \<in> set (qd_rows d'). active h \<and> (''run'', jb_id h) \<in> set (qd_links d'))"
proof -
  have "ids_ok (qd_rows parked_db)" "index_ok (qd_rows parked_db)" "keys_ok (qd_rows parked_db)"
    using parked_db_ok by (simp_all add: rows_ok_def)
  moreover have "parked_states [RowDisabled]" by simp
  ultimately have "\<exists>ids d'. supersedeAndRequeue 9 [''7''] [RowDisabled] (\<lambda>rows. rows) parked_db = Requeued ids d' \<and>
      index_ok (qd_rows d') \<and> list_all (\<lambda>r. \<not> parked [''7''] [RowDisabled] r) (qd_rows d') \<and>
      (\<forall>r \<in> set (qd_rows parked_db). parked [''7''] [RowDisabled] r \<longrightarrow>
       length (filter (\<lambda>h. active h \<and> jb_key h = jb_key r) (qd_rows d')) = 1 \<and>
       (\<forall>run. (run, jb_id r) \<in> set (qd_links parked_db) \<longrightarrow>
          (\<exists>h \<in> set (qd_rows d'). active h \<and> jb_key h = jb_key r \<and> (run, jb_id h) \<in> set (qd_links d'))))"
    by (rule requeue_pass_keeps_every_key)
  then have "\<exists>d' :: queue_db. \<forall>r \<in> set (qd_rows parked_db). parked [''7''] [RowDisabled] r \<longrightarrow>
       length (filter (\<lambda>h. active h \<and> jb_key h = jb_key r) (qd_rows d')) = 1 \<and>
       (\<forall>run. (run, jb_id r) \<in> set (qd_links parked_db) \<longrightarrow>
          (\<exists>h \<in> set (qd_rows d'). active h \<and> jb_key h = jb_key r \<and> (run, jb_id h) \<in> set (qd_links d')))"
    by (elim exE conjE) (intro exI, assumption)
  moreover have "parked_job ''a'' 1 \<in> set (qd_rows parked_db)" "parked [''7''] [RowDisabled] (parked_job ''a'' 1)"
    "(''run'', jb_id (parked_job ''a'' 1)) \<in> set (qd_links parked_db)"
    by (simp_all add: parked_db_def parked_def)
  ultimately show ?thesis by fastforce
qed

theorem requeueParked_returns_witness:
  "\<exists>ids d'. requeueParked 9 [''7''] [RowDisabled] (\<lambda>n rows. rows) parked_db = Some (ids, d') \<and> index_ok (qd_rows d') \<and>
     length (filter (\<lambda>h. active h \<and> jb_key h = ''role-layout:7'') (qd_rows d')) = 1"
proof -
  have r: "parked_job ''a'' 1 \<in> set (qd_rows parked_db)" "parked [''7''] [RowDisabled] (parked_job ''a'' 1)"
    by (simp_all add: parked_db_def parked_def)
  have k: "\<forall>n < (5 :: nat). keeps_work [''7''] [RowDisabled] (\<lambda>rows. rows)" by (simp add: keeps_work_def)
  have st: "parked_states [RowDisabled]" by simp
  obtain ids d' where "requeueParked 9 [''7''] [RowDisabled] (\<lambda>n rows. rows) parked_db = Some (ids, d')" "index_ok (qd_rows d')"
      "\<forall>r \<in> set (qd_rows parked_db). parked [''7''] [RowDisabled] r \<longrightarrow>
         length (filter (\<lambda>h. active h \<and> jb_key h = jb_key r) (qd_rows d')) = 1"
    using requeueParked_returns [OF parked_db_ok st, of "\<lambda>n rows. rows" 0 9 "[''7'']"] k by auto
  moreover from this(3) have "length (filter (\<lambda>h. active h \<and> jb_key h = jb_key (parked_job ''a'' 1)) (qd_rows d')) = 1"
    using r by blast
  ultimately show ?thesis by (intro exI [of _ ids] exI [of _ d']) simp
qed

end
