(* ===== verification/SelfRoleService.thy ===== *)
theory SelfRoleService
  imports SelfRoleChoices Policy JobQueue
begin

text \<open>
  The role menu's operations, \<open>src/application/self-roles.ts\<close>: the stored menu with its revision,
  an officer's edit under the optimistic lock, a member's view and save, and the job that writes the
  chosen roles. What a transaction reads besides (the guild row, TaruBot's view of the server, the
  clock, the shutdown flag) is a record of the world at that moment.

  The lemmas show that no edit is lost or applied twice, that the stored menu can always be read
  back, that nothing becomes self-assignable without passing every rule, that only valid payloads
  are queued, and what the job may write.
\<close>

section \<open>The stored menu\<close>

text \<open>
  A document this build can read, or another value, of which only the strings anywhere in it
  (values and keys) matter.
\<close>

datatype stored_document = MenuDocument self_role_menu | ForeignDocument "string list"

record menu_row =
  mr_document :: stored_document
  mr_revision :: int

text \<open>A server without a row has the empty menu at revision 1.\<close>

definition loadMenu :: "menu_row option \<Rightarrow> menu_row" where
  "loadMenu row =
     (case row of None \<Rightarrow> \<lparr>mr_document = MenuDocument EMPTY_MENU, mr_revision = 1\<rparr> | Some r \<Rightarrow> r)"

definition stored_menu :: "text_env \<Rightarrow> stored_document \<Rightarrow> self_role_menu option" where
  "stored_menu E d = (case d of MenuDocument m \<Rightarrow> readMenu E m | ForeignDocument _ \<Rightarrow> None)"

definition stringsIn :: "stored_document \<Rightarrow> string list" where
  "stringsIn d = (case d of MenuDocument m \<Rightarrow> menuRoleIds m | ForeignDocument ss \<Rightarrow> ss)"

definition rolesOnMenu :: "text_env \<Rightarrow> stored_document \<Rightarrow> ident list \<Rightarrow> ident list" where
  "rolesOnMenu E d roleIds =
     (if roleIds = [] then []
      else
        let present = (case stored_menu E d of Some m \<Rightarrow> menuRoleIds m | None \<Rightarrow> stringsIn d)
        in filter (\<lambda>i. i \<in> set present) roleIds)"

definition assertNotOnMenu :: "text_env \<Rightarrow> stored_document \<Rightarrow> ident list \<Rightarrow> failure + unit" where
  "assertNotOnMenu E d roleIds =
     (if length (rolesOnMenu E d roleIds) > 0
      then Inl (mk_failure_detail F_input
        (Literal ''That role is on the self-service role menu. Remove it on the Role menu page first, or choose another role.'')
        (DOption ''role''))
      else Inr ())"

definition accessLossRoles ::
  "text_env \<Rightarrow> stored_document \<Rightarrow> checked_server option \<Rightarrow> ident list \<Rightarrow> ident list" where
  "accessLossRoles E d server held =
     (case stored_menu E d of
        None \<Rightarrow> []
      | Some m \<Rightarrow>
          if \<not> list_ex (\<lambda>i. i \<in> set held \<and> listed m i) (menuRoleIds m) then []
          else (case server of None \<Rightarrow> [] | Some X \<Rightarrow> accessLossRemovals m X held))"

section \<open>An officer's edit\<close>

definition PUBLISHING_OPS :: "menu_operation \<Rightarrow> bool" where
  "PUBLISHING_OPS op =
     (case op of OptionsAdd _ _ _ \<Rightarrow> True | CategorySetState _ _ \<Rightarrow> True | PublishAll \<Rightarrow> True | _ \<Rightarrow> False)"

datatype conflict_reason = MenuChanged | MenuUnreadable

datatype edit_error =
    FieldRefused field_error
  | RoleRefused ident self_role_problem
  | AcknowledgeChannels nat

datatype edit_outcome =
    EditSaved int
  | EditUnchanged int
  | EditConflict conflict_reason
  | EditInvalid "edit_error list"

text \<open>TaruBot's view of the server, when an add reads it, with the settings read under the lock.\<close>

record edit_world =
  ew_configured :: bool
  ew_server :: "checked_server option"
  ew_stopping :: bool
  ew_stopping_later :: bool

definition notConfigured :: failure where
  "notConfigured = mk_failure_detail F_setup
     (Literal ''This server has no TaruBot configuration yet. Start with /config fc link and /config roles, or /setup onboarding for lobby onboarding.'')
     (DSetup Setup_guild)"

definition edit_admission :: "edit_world \<Rightarrow> actor \<Rightarrow> menu_operation \<Rightarrow> failure + unit" where
  "edit_admission w a op =
     and_then (requirePermission a (act_guild a) P_rolemenu_view None) (\<lambda>_.
     and_then (requirePermission a (act_guild a)
         (if PUBLISHING_OPS op then P_rolemenu_publish else P_rolemenu_edit) None) (\<lambda>_.
       if ew_stopping w then Inl stoppingRefusal
       else if (case op of OptionsAdd _ _ _ \<Rightarrow> True | _ \<Rightarrow> False) \<and> ew_server w = None
       then Inl (mk_failure F_unavailable
         (Literal (''TaruBot can'' @ [CHR 0x27] @ ''t read this server'' @ [CHR 0x27] @ ''s roles right now. Try again in a minute.'')))
       else Inr ()))"

text \<open>The rule set over the roles an add adds, and the confirmation about unreadable channels.\<close>

definition add_errors ::
  "edit_world \<Rightarrow> self_role_menu option \<Rightarrow> menu_operation \<Rightarrow> self_role_menu \<Rightarrow> edit_error list" where
  "add_errors w current op m' =
     (case (op, ew_server w, current) of
        (OptionsAdd _ _ acknowledged, Some X, Some m) \<Rightarrow>
          let added = filter (\<lambda>i. i \<notin> set (menuRoleIds m)) (menuRoleIds m');
              unreadable = unreadableChannels (cs_flags X) (cs_guild X)
          in List.map_filter (\<lambda>i. case rk_problems (selfRoleChecker X i) of
                 p # _ \<Rightarrow> Some (RoleRefused i p) | [] \<Rightarrow> None) added @
             (if unreadable > 0 \<and> \<not> acknowledged then [AcknowledgeChannels unreadable] else [])
      | _ \<Rightarrow> [])"

section \<open>The editor and the health check\<close>

definition NO_SETTINGS :: self_role_settings where
  "NO_SETTINGS = selfRoleSettings
     \<lparr>gcf_bound = \<lparr>br_member = None, br_guest = None, br_officer = None, br_leader = None\<rparr>,
      gcf_officer_channel = None, gcf_notifications_channel = None, gcf_application_channel = None\<rparr> [] []"

definition selfRolesHealth ::
  "text_env \<Rightarrow> menu_row option \<Rightarrow> flag_bits \<Rightarrow> int \<Rightarrow> visibility_guild option \<Rightarrow> self_role_settings \<Rightarrow>
   self_role_health" where
  "selfRolesHealth E row P allp snapshot settings =
     selfRoleHealth (stored_menu E (mr_document (loadMenu row)))
       (map_option (\<lambda>g. \<lparr>cs_flags = P, cs_all = allp, cs_guild = g, cs_settings = settings\<rparr>) snapshot)"

text \<open>What the editor page reads: the guild row (its settings and whether onboarding owns access), the
  stored row and TaruBot's cached view.\<close>

record editor_world =
  ed_guild :: "(self_role_settings \<times> bool) option"
  ed_row :: "menu_row option"
  ed_flags :: flag_bits
  ed_all :: int
  ed_snapshot :: "visibility_guild option"

record self_role_editor =
  er_configured :: bool
  er_revision :: int
  er_menu :: "self_role_menu option"
  er_roles :: "role_check list option"
  er_unreadableChannels :: nat
  er_administrator :: "bool option"
  er_memberRole :: "ident option"
  er_guestRole :: "ident option"
  er_onboarding :: bool

definition editor :: "text_env \<Rightarrow> editor_world \<Rightarrow> actor \<Rightarrow> failure + self_role_editor" where
  "editor E w a =
     and_then (requirePermission a (act_guild a) P_rolemenu_view None) (\<lambda>_.
       let row = loadMenu (ed_row w);
           menu = stored_menu E (mr_document row);
           settings = (case ed_guild w of Some (s, _) \<Rightarrow> s | None \<Rightarrow> NO_SETTINGS)
       in Inr \<lparr>er_configured = (ed_guild w \<noteq> None), er_revision = mr_revision row, er_menu = menu,
               er_roles = map_option (\<lambda>g. checkRoles
                   \<lparr>cs_flags = ed_flags w, cs_all = ed_all w, cs_guild = g, cs_settings = settings\<rparr>
                   (case menu of Some m \<Rightarrow> menuRoleIds m | None \<Rightarrow> [])) (ed_snapshot w),
               er_unreadableChannels = (case ed_snapshot w of Some g \<Rightarrow> unreadableChannels (ed_flags w) g | None \<Rightarrow> 0),
               er_administrator = map_option (holdsAdministrator (ed_flags w)) (ed_snapshot w),
               er_memberRole = Option.bind (ed_guild w) (\<lambda>(s, _). br_member (ss_bound s)),
               er_guestRole = Option.bind (ed_guild w) (\<lambda>(s, _). br_guest (ss_bound s)),
               er_onboarding = (case ed_guild w of Some (_, onboarding) \<Rightarrow> onboarding | None \<Rightarrow> False)\<rparr>)"

section \<open>The audit row\<close>

datatype audit_change = ChangeRemoved | ChangeNotOffered | ChangeOffered | ChangeEdited

datatype audit_details =
    AuditFields int string "int option"
  | AuditMove int string int
  | AuditState int string category_state
  | AuditDelete int string "ident list"
  | AuditPublish int "string list"
  | AuditReset int bool
  | AuditAdd int string "ident list" "nat option"
  | AuditEdit int string "(ident \<times> audit_change) list"

definition category_options :: "self_role_menu option \<Rightarrow> string \<Rightarrow> self_role_option list" where
  "category_options menu i =
     (case menu of None \<Rightarrow> []
      | Some m \<Rightarrow> (case find (\<lambda>c. ca_id c = i) m of None \<Rightarrow> [] | Some c \<Rightarrow> ca_options c))"

definition option_index :: "ident \<Rightarrow> self_role_option list \<Rightarrow> nat option" where
  "option_index i opts =
     map_of (zip (map so_role opts) [0..<length opts]) i"

definition option_change ::
  "self_role_option list \<Rightarrow> self_role_option list \<Rightarrow> self_role_option \<Rightarrow> audit_change option" where
  "option_change old now opt =
     (let kept = filter (\<lambda>x. so_role x \<in> set (map so_role now)) old
      in case option_index (so_role opt) now of
           None \<Rightarrow> Some ChangeRemoved
         | Some n \<Rightarrow>
             let next = now ! n
             in if so_removalOnly next \<noteq> so_removalOnly opt
                then Some (if so_removalOnly next then ChangeNotOffered else ChangeOffered)
                else if so_description next \<noteq> so_description opt \<or>
                        Some n \<noteq> option_index (so_role opt) kept
                then Some ChangeEdited
                else None)"

fun auditDetails ::
  "menu_operation \<Rightarrow> self_role_menu option \<Rightarrow> self_role_menu \<Rightarrow> int \<Rightarrow> nat \<Rightarrow> audit_details" where
  "auditDetails (CategoryCreate i input) before m revision hidden =
     AuditFields revision i (max_value (ci_max input))"
| "auditDetails (CategoryEdit i input) before m revision hidden =
     AuditFields revision i (max_value (ci_max input))"
| "auditDetails (CategoryMove i _) before m revision hidden =
     AuditMove revision i (case find_index i m of Some n \<Rightarrow> int n | None \<Rightarrow> -1)"
| "auditDetails (CategorySetState i state) before m revision hidden = AuditState revision i state"
| "auditDetails (CategoryDelete i) before m revision hidden =
     AuditDelete revision i (map so_role (category_options before i))"
| "auditDetails PublishAll before m revision hidden =
     AuditPublish revision (map ca_id (filter (\<lambda>c. ca_state c = DraftCategory)
       (case before of Some b \<Rightarrow> b | None \<Rightarrow> [])))"
| "auditDetails MenuReset before m revision hidden = AuditReset revision (before = None)"
| "auditDetails (OptionsAdd i _ _) before m revision hidden =
     AuditAdd revision i
       (filter (\<lambda>r. r \<notin> set (case before of Some b \<Rightarrow> menuRoleIds b | None \<Rightarrow> [])) (menuRoleIds m))
       (if hidden > 0 then Some hidden else None)"
| "auditDetails (OptionsEdit i _) before m revision hidden =
     (let old = category_options before i; now = category_options (Some m) i
      in AuditEdit revision i (List.map_filter (\<lambda>opt.
           map_option (\<lambda>c. (so_role opt, c)) (option_change old now opt)) old))"

text \<open>An operation's name, which is also its audit target.\<close>

fun op_name :: "menu_operation \<Rightarrow> string" where
  "op_name (CategoryCreate _ _) = ''category.create''"
| "op_name (CategoryEdit _ _) = ''category.edit''"
| "op_name (CategoryMove _ _) = ''category.move''"
| "op_name (CategorySetState _ _) = ''category.setState''"
| "op_name (CategoryDelete _) = ''category.delete''"
| "op_name PublishAll = ''menu.publishAll''"
| "op_name MenuReset = ''menu.reset''"
| "op_name (OptionsAdd _ _ _) = ''options.add''"
| "op_name (OptionsEdit _ _) = ''options.edit''"

record menu_store =
  ms_row :: menu_row
  ms_audit :: "(ident \<times> string \<times> audit_details) list"

section \<open>The edit\<close>

text \<open>
  One transaction under the row's lock. Whatever it throws rolls everything back. A menu that its
  own schema refuses would be an error of the program, thrown by \<open>menuSchema.parse\<close>.
\<close>

datatype edit_step = EditThrows thrown | EditAnswers edit_outcome | EditWrites self_role_menu

definition edit_decision ::
  "text_env \<Rightarrow> edit_world \<Rightarrow> actor \<Rightarrow> int \<Rightarrow> menu_operation \<Rightarrow> menu_row \<Rightarrow> edit_step" where
  "edit_decision E w a revision op row =
     (case edit_admission w a op of
        Inl f \<Rightarrow> EditThrows (ThrownFailure f)
      | Inr _ \<Rightarrow>
          if \<not> ew_configured w then EditThrows (ThrownFailure notConfigured)
          else
            let current = stored_menu E (mr_document row)
            in if current = None \<and> op \<noteq> MenuReset then EditAnswers (EditConflict MenuUnreadable)
               else
                 (case applyOperation E (case current of Some m \<Rightarrow> m | None \<Rightarrow> EMPTY_MENU) op of
                    Gone \<Rightarrow> EditAnswers (EditConflict MenuChanged)
                  | Invalid errors \<Rightarrow> EditAnswers (EditInvalid (map FieldRefused errors))
                  | MenuIs m' \<Rightarrow>
                      if (case current of Some m \<Rightarrow> sameMenu m' m | None \<Rightarrow> False)
                      then EditAnswers (EditUnchanged (mr_revision row))
                      else if op = MenuReset \<and> current \<noteq> None then EditAnswers (EditConflict MenuChanged)
                      else if mr_revision row \<noteq> revision then EditAnswers (EditConflict MenuChanged)
                      else if add_errors w current op m' \<noteq> []
                      then EditAnswers (EditInvalid (add_errors w current op m'))
                      else if \<not> menuSchema E m' then EditThrows (OtherError ''ZodError'')
                      else if ew_stopping_later w then EditThrows (ThrownFailure stoppingRefusal)
                      else EditWrites m'))"

text \<open>How many channels TaruBot cannot read, for the audit row of an add.\<close>

definition edit_unreadable :: "text_env \<Rightarrow> edit_world \<Rightarrow> menu_operation \<Rightarrow> menu_row \<Rightarrow> nat" where
  "edit_unreadable E w op row =
     (case (op, ew_server w, stored_menu E (mr_document row)) of
        (OptionsAdd _ _ _, Some X, Some _) \<Rightarrow> unreadableChannels (cs_flags X) (cs_guild X)
      | _ \<Rightarrow> 0)"

definition edit ::
  "text_env \<Rightarrow> edit_world \<Rightarrow> actor \<Rightarrow> int \<Rightarrow> menu_operation \<Rightarrow> menu_store \<Rightarrow>
   (thrown + edit_outcome) \<times> menu_store" where
  "edit E w a revision op s =
     (let row = ms_row s
      in case edit_decision E w a revision op row of
           EditThrows t \<Rightarrow> (Inl t, s)
         | EditAnswers answer \<Rightarrow> (Inr answer, s)
         | EditWrites m' \<Rightarrow>
             (Inr (EditSaved (mr_revision row + 1)),
              \<lparr>ms_row = \<lparr>mr_document = MenuDocument m', mr_revision = mr_revision row + 1\<rparr>,
               ms_audit = ms_audit s @
                 [(act_user a, op_name op, auditDetails op (stored_menu E (mr_document row)) m' (mr_revision row + 1)
                    (edit_unreadable E w op row))]\<rparr>))"

text \<open>A history of edits, one transaction at a time.\<close>

type_synonym edit_request = "edit_world \<times> actor \<times> int \<times> menu_operation"

fun edit_run :: "text_env \<Rightarrow> edit_request list \<Rightarrow> menu_store \<Rightarrow> menu_store" where
  "edit_run E [] s = s"
| "edit_run E ((w, a, revision, op) # reqs) s = edit_run E reqs (snd (edit E w a revision op s))"

section \<open>A member's choices\<close>

text \<open>A stored payload as read: a choice and the time it was saved, or another shape.\<close>

type_synonym stored_payload = "(role_choice \<times> string) option"

definition readRoleChoice :: "(string \<Rightarrow> bool) \<Rightarrow> stored_payload \<Rightarrow> role_choice option" where
  "readRoleChoice isoDate p =
     (case p of None \<Rightarrow> None | Some (c, t) \<Rightarrow> if roleChoicePayload isoDate c t then Some c else None)"

definition WAITING_STATES :: "job_status list" where
  "WAITING_STATES = [RowQueued, RowRunning, RowBlocked, RowDisabled]"

text \<open>A job's result as the banner reads it: an applied one's counts, or its \<open>skipped\<close> reason.\<close>

datatype job_result = ResultApplied int int int | ResultSkipped string | ResultOther

datatype choice_state =
    ChoiceWaiting | ChoicePaused | ChoiceBlocked | ChoiceFailed | ChoiceApplied | ChoiceExpired | ChoiceDropped

record role_choice_status =
  rcs_state :: choice_state
  rcs_skipped :: int
  rcs_changed :: bool
  rcs_recent :: bool
  rcs_completedAt :: "int option"

definition choiceStatus ::
  "job_status \<Rightarrow> job_result \<Rightarrow> bool \<Rightarrow> int option \<Rightarrow> role_choice_status" where
  "choiceStatus status result recent completedAt =
     (let waiting = (\<lambda>state. \<lparr>rcs_state = state, rcs_skipped = 0, rcs_changed = False, rcs_recent = False,
                            rcs_completedAt = None\<rparr>);
          ended = (\<lambda>state skipped changed. \<lparr>rcs_state = state, rcs_skipped = skipped, rcs_changed = changed,
                            rcs_recent = recent, rcs_completedAt = completedAt\<rparr>);
          count = (\<lambda>n::int. max n 0)
      in case status of
           RowQueued \<Rightarrow> waiting ChoiceWaiting
         | RowRunning \<Rightarrow> waiting ChoiceWaiting
         | RowDisabled \<Rightarrow> waiting ChoicePaused
         | RowBlocked \<Rightarrow> waiting ChoiceBlocked
         | RowFailed \<Rightarrow> ended ChoiceFailed 0 False
         | RowSucceeded \<Rightarrow>
             (case result of
                ResultApplied added removed skipped \<Rightarrow>
                  ended ChoiceApplied (count skipped) (count added + count removed > 0)
              | ResultSkipped reason \<Rightarrow>
                  ended (if reason = ''expired'' then ChoiceExpired else ChoiceDropped) 0 False
              | ResultOther \<Rightarrow> ended ChoiceDropped 0 False))"

definition offersRoles :: "self_role_menu option \<Rightarrow> bool" where
  "offersRoles menu =
     (case menu of None \<Rightarrow> False
      | Some m \<Rightarrow> list_ex (\<lambda>c. ca_state c \<noteq> DraftCategory \<and> length (ca_options c) > 0) m)"

definition menuRoleNames ::
  "self_role_menu option \<Rightarrow> visibility_guild option \<Rightarrow> ident \<Rightarrow> string option" where
  "menuRoleNames menu snapshot =
     (case (menu, snapshot) of
        (Some m, Some g) \<Rightarrow>
          map_of (rev (map (\<lambda>r. (ar_id r, ar_name r))
            (filter (\<lambda>r. ar_id r \<in> set (menuRoleIds m)) (vg_roles g))))
      | _ \<Rightarrow> (\<lambda>_. None))"

definition CHOICE_NO_ACCESS :: string where
  "CHOICE_NO_ACCESS = ''My roles is for people with this server'' @ [CHR 0x27] @
     ''s Member or Guest role while TaruBot doesn'' @ [CHR 0x27] @ ''t have Administrator here.''"

definition CHOICE_TIMED_OUT :: string where
  "CHOICE_TIMED_OUT = ''You can change your roles here when your Discord time-out ends.''"

definition CHOICE_PAUSED :: string where
  "CHOICE_PAUSED = ''Role changes are paused in this server right now. Try again later.''"

definition CHOICE_UNAVAILABLE :: string where
  "CHOICE_UNAVAILABLE = ''TaruBot can'' @ [CHR 0x27] @ ''t read this server'' @ [CHR 0x27] @
     ''s roles right now. Try again in a minute.''"

definition noAccess :: failure where
  "noAccess = mk_failure F_forbidden (Literal CHOICE_NO_ACCESS)"

text \<open>The newest row of the person's role changes: its state, payload, result and times.\<close>

record latest_choice =
  lc_status :: job_status
  lc_payload :: stored_payload
  lc_result :: job_result
  lc_completedAt :: "int option"
  lc_recent :: bool

record choice_world =
  cwd_configured :: bool
  cwd_live :: bool
  cwd_server :: "checked_server option"
  cwd_document :: stored_document
  cwd_cachedRoles :: "ident list option"
  cwd_latest :: "latest_choice option"
  cwd_isoDate :: "string \<Rightarrow> bool"

record my_roles =
  my_configured :: bool
  my_unreadableMenu :: bool
  my_available :: bool
  my_categories :: "choice_category list"
  my_offers :: bool
  my_status :: "role_choice_status option"
  my_timedOut :: bool
  my_paused :: "pause option"
  my_canSave :: bool
  my_administrator :: "bool option"
  my_roleNames :: "ident \<Rightarrow> string option"

definition view_roles :: "text_env \<Rightarrow> choice_world \<Rightarrow> actor \<Rightarrow> failure + my_roles" where
  "view_roles E w a =
     and_then (authorize a (act_guild a)) (\<lambda>_.
       if \<not> selfServiceAccess a then Inl noAccess
       else
         let menu = stored_menu E (cwd_document w);
             server = (if cwd_configured w then cwd_server w else None);
             held = (case cwd_cachedRoles w of Some rs \<Rightarrow> rs
                     | None \<Rightarrow> (case act_role_ids a of Some rs \<Rightarrow> rs | None \<Rightarrow> []));
             waiting = (case cwd_latest w of
                          None \<Rightarrow> None
                        | Some l \<Rightarrow> if lc_status l \<in> set WAITING_STATES
                                   then readRoleChoice (cwd_isoDate w) (lc_payload l) else None);
             categories = (case menu of
                             None \<Rightarrow> []
                           | Some m \<Rightarrow>
                               if cwd_configured w
                               then choiceMenu m
                                 \<lparr>cx_held = held, cx_waiting = waiting,
                                  cx_check = map_option selfRoleChecker server,
                                  cx_officer = can a P_rolemenu_view\<rparr>
                               else []);
             timedOut = (act_timed_out a = Some True);
             paused = pauseOn a P_selfroles_use
         in Inr \<lparr>my_configured = cwd_configured w, my_unreadableMenu = (menu = None),
                 my_available = (server \<noteq> None), my_categories = categories, my_offers = offersRoles menu,
                 my_status = map_option (\<lambda>l. choiceStatus (lc_status l) (lc_result l) (lc_recent l) (lc_completedAt l))
                   (cwd_latest w),
                 my_timedOut = timedOut, my_paused = paused,
                 my_canSave = (cwd_configured w \<and> server \<noteq> None \<and> cwd_live w \<and> \<not> timedOut \<and> paused = None),
                 my_administrator = (case server of
                    Some X \<Rightarrow> if isStaff a then Some (holdsAdministrator (cs_flags X) (cs_guild X)) else None
                  | None \<Rightarrow> None),
                 my_roleNames = menuRoleNames menu (map_option cs_guild server)\<rparr>)"

section \<open>Saving a choice\<close>

datatype choice_outcome = ChoiceSaved | ChoiceUnchanged | ChoiceConflicted | ChoiceRefused "choice_error list"

text \<open>What the save reads under the member's lock, and the shutdown flag before and after.\<close>

record save_world =
  sw_waiting_row :: "stored_payload option"
  sw_endedLately :: bool
  sw_now :: string
  sw_stopping :: bool
  sw_stopping_later :: bool

definition choose_admission :: "choice_world \<Rightarrow> save_world \<Rightarrow> actor \<Rightarrow> failure + checked_server" where
  "choose_admission w sv a =
     and_then (authorize a (act_guild a)) (\<lambda>_.
       if \<not> selfServiceAccess a then Inl noAccess
       else and_then (requireNotPaused a P_selfroles_use) (\<lambda>_.
         if act_timed_out a = Some True then Inl (mk_failure F_forbidden (Literal CHOICE_TIMED_OUT))
         else if sw_stopping sv then Inl stoppingRefusal
         else if \<not> cwd_configured w then Inl notConfigured
         else if \<not> cwd_live w then Inl (mk_failure F_disabled (Literal CHOICE_PAUSED))
         else (case cwd_server w of
                 None \<Rightarrow> Inl (mk_failure F_unavailable (Literal CHOICE_UNAVAILABLE))
               | Some X \<Rightarrow> Inr X)))"

text \<open>The answer, and the payload queued with it when one is.\<close>

definition choose_roles ::
  "text_env \<Rightarrow> choice_world \<Rightarrow> save_world \<Rightarrow> actor \<Rightarrow> category_choice list \<Rightarrow>
   thrown + choice_outcome \<times> (role_choice \<times> string) option" where
  "choose_roles E w sv a submitted =
     (case choose_admission w sv a of
        Inl f \<Rightarrow> Inl (ThrownFailure f)
      | Inr X \<Rightarrow>
          let menu = stored_menu E (cwd_document w);
              held = (case act_role_ids a of Some rs \<Rightarrow> rs
                      | None \<Rightarrow> (case cwd_cachedRoles w of Some rs \<Rightarrow> rs | None \<Rightarrow> []))
          in (case changedCategories (case menu of Some m \<Rightarrow> m | None \<Rightarrow> EMPTY_MENU) held
                     (selfRoleChecker X) submitted of
                ChoiceConflict \<Rightarrow> Inr (ChoiceConflicted, None)
              | ChoiceInvalid errors \<Rightarrow> Inr (ChoiceRefused errors, None)
              | ChoiceIs choice \<Rightarrow>
                  if length (rch_offered choice) = 0 then Inr (ChoiceUnchanged, None)
                  else
                    let waiting = Option.bind (sw_waiting_row sv) (readRoleChoice (cwd_isoDate w));
                        merged = mergeChoice waiting choice menu
                    in if (case waiting of Some old \<Rightarrow> sameChoice merged old | None \<Rightarrow> False)
                       then Inr (ChoiceSaved, None)
                       else if sw_waiting_row sv = None \<and> choiceHeld merged held \<and> \<not> sw_endedLately sv
                       then Inr (ChoiceUnchanged, None)
                       else if \<not> roleChoicePayload (cwd_isoDate w) merged (sw_now sv)
                       then Inl (OtherError ''Error'')
                       else if sw_stopping_later sv then Inl (ThrownFailure stoppingRefusal)
                       else Inr (ChoiceSaved, Some (merged, sw_now sv))))"

text \<open>
  What the save writes: the choice in the member's active row, and the rows parked beside it closed.
\<close>

definition role_choice_json :: "role_choice \<Rightarrow> string \<Rightarrow> json" where
  "role_choice_json c savedAt =
     JsonObject [(''chosen'', JsonArray (map JsonText (rch_chosen c))),
                 (''offered'', JsonArray (map JsonText (rch_offered c))), (''savedAt'', JsonText savedAt)]"

definition queue_choice ::
  "int \<Rightarrow> ident \<Rightarrow> ident \<Rightarrow> ident \<Rightarrow> role_choice \<times> string \<Rightarrow> job list \<Rightarrow> job list" where
  "queue_choice now i guild user saved rows =
     (let key = roleChoiceKey guild user
      in update_rows (\<lambda>r. jb_kind r = ''roles.self'' \<and> jb_key r = key \<and> jb_status r = RowDisabled)
           (closed now (JsonObject [(''skipped'', JsonText ''superseded'')]))
           (snd (enqueue now i ''roles.self'' key (role_choice_json (fst saved) (snd saved)) (Some guild) (Some user) 0
              rows)))"

section \<open>The job\<close>

record job_world =
  jw_locked :: bool
  jw_configured :: bool
  jw_member :: "(ident list \<times> bool) option"
  jw_document :: stored_document
  jw_settings :: self_role_settings
  jw_snapshot :: "visibility_guild option"
  jw_flags :: flag_bits
  jw_all :: int
  jw_port :: bool
  jw_guard :: "thrown option"
  jw_isoDate :: "string \<Rightarrow> bool"

datatype role_choice_result = Applied int int int | GuildInactive | MemberLeft

text \<open>What the per-role write did: added, removed and skipped.\<close>

type_synonym write_result = "int \<times> int \<times> int"

definition checked_add ::
  "checked_server \<Rightarrow> ident list \<Rightarrow> ident list \<Rightarrow> ident list" where
  "checked_add X memberRoles add =
     (let bound = List.map_filter (\<lambda>i. i) [br_member (server_bound X), br_guest (server_bound X),
                    br_officer (server_bound X), br_leader (server_bound X)];
          withoutAccess = ((br_member (server_bound X) \<noteq> None \<or> br_guest (server_bound X) \<noteq> None) \<and>
                           \<not> list_ex (\<lambda>i. i \<in> set memberRoles) bound)
      in filter (\<lambda>i. let verdict = selfRoleChecker X i
                    in length (rk_problems verdict) = 0 \<and> \<not> (withoutAccess \<and> length (rk_opens verdict) > 0)) add)"

text \<open>
  \<open>RoleChoiceJob.apply\<close>: its answer, and the roles it asked Discord to add and remove when it wrote.
  \<open>write\<close> is what Discord answered to that write.
\<close>

definition apply_choice ::
  "text_env \<Rightarrow> job_world \<Rightarrow> (ident list \<Rightarrow> ident list \<Rightarrow> thrown + write_result) \<Rightarrow> bool \<Rightarrow> stored_payload \<Rightarrow>
   (thrown + role_choice_result) \<times> (ident list \<times> ident list) option" where
  "apply_choice E w write targets payload =
     (let refuse = (\<lambda>code m. (Inl (ThrownFailure (mk_failure code (Literal m))), None))
      in if \<not> targets then refuse F_invalid_job ''A role choice job needs a server and a member.''
         else
         (case readRoleChoice (jw_isoDate w) payload of
            None \<Rightarrow> refuse F_invalid_job (''A role choice job'' @ [CHR 0x27] @ ''s payload can'' @ [CHR 0x27] @ ''t be read.'')
          | Some choice \<Rightarrow>
              if \<not> jw_locked w then refuse F_busy (''This member'' @ [CHR 0x27] @ ''s roles are already being updated.'')
              else if \<not> jw_configured w then (Inr GuildInactive, None)
              else
              (case jw_member w of
                 None \<Rightarrow> (Inr MemberLeft, None)
               | Some (memberRoles, isBot) \<Rightarrow>
                   if isBot then (Inr MemberLeft, None)
                   else
                     let plan = planSelfRoles choice (stored_menu E (jw_document w)) memberRoles
                                  (access_role_ids (jw_settings w))
                     in if pn_add plan = [] \<and> pn_remove plan = []
                        then (Inr (Applied 0 0 (pn_skipped plan)), None)
                        else
                        (case jw_snapshot w of
                           None \<Rightarrow> refuse F_unavailable CHOICE_UNAVAILABLE
                         | Some g \<Rightarrow>
                             if \<not> botManagesRoles (jw_flags w) (jw_all w) g
                             then refuse F_blocked ''TaruBot needs Manage Roles to change roles in this server. Check its role with /config validate.''
                             else
                               let X = \<lparr>cs_flags = jw_flags w, cs_all = jw_all w, cs_guild = g,
                                        cs_settings = jw_settings w\<rparr>;
                                   add = checked_add X memberRoles (pn_add plan);
                                   remove = filter (\<lambda>i. removableBy (selfRoleChecker X i)) (pn_remove plan);
                                   skipped = pn_skipped plan + int (length (pn_add plan)) - int (length add) +
                                             int (length (pn_remove plan)) - int (length remove)
                               in if add = [] \<and> remove = [] then (Inr (Applied 0 0 skipped), None)
                                  else if \<not> jw_port w
                                  then refuse F_configuration (''Self-service role writes aren'' @ [CHR 0x27] @ ''t wired in this process.'')
                                  else
                                  (case jw_guard w of
                                     Some t \<Rightarrow> (Inl t, None)
                                   | None \<Rightarrow>
                                       (case write add remove of
                                          Inl t \<Rightarrow> (Inl t, Some (add, remove))
                                        | Inr (a, r, s) \<Rightarrow> (Inr (Applied a r (skipped + s)), Some (add, remove))))))))"

section \<open>What an edit does\<close>

lemma stored_menu_Some: "stored_menu E d = Some m \<longleftrightarrow> d = MenuDocument m \<and> menuSchema E m"
  by (auto simp: stored_menu_def readMenu_def split: stored_document.split)

lemma edit_decision_writes:
  assumes "edit_decision E w a revision op row = EditWrites m'"
  shows "edit_admission w a op = Inr ()" "ew_configured w" "mr_revision row = revision"
    "applyOperation E (case stored_menu E (mr_document row) of Some m \<Rightarrow> m | None \<Rightarrow> EMPTY_MENU) op = MenuIs m'"
    "stored_menu E (mr_document row) = None \<longleftrightarrow> op = MenuReset"
    "stored_menu E (mr_document row) \<noteq> Some m'" "menuSchema E m'"
    "add_errors w (stored_menu E (mr_document row)) op m' = []" "\<not> ew_stopping_later w"
  using assms
  by (auto simp: edit_decision_def Let_def sameMenu_def
      split: sum.splits if_split_asm menu_edit.splits option.splits)

lemma edit_decision_answer: "edit_decision E w a revision op row \<noteq> EditAnswers (EditSaved r)"
  unfolding edit_decision_def Let_def by (simp split: sum.split menu_edit.split)

lemma edit_cases:
  "edit E w a revision op s = (res, s') \<Longrightarrow>
     (s' = s \<and> (\<nexists>r. res = Inr (EditSaved r))) \<or>
     (\<exists>m' d. edit_decision E w a revision op (ms_row s) = EditWrites m' \<and>
        res = Inr (EditSaved (revision + 1)) \<and>
        s' = \<lparr>ms_row = \<lparr>mr_document = MenuDocument m', mr_revision = revision + 1\<rparr>,
              ms_audit = ms_audit s @ [(act_user a, op_name op, d)]\<rparr>)"
  using edit_decision_answer [of E w a revision op "ms_row s"]
    edit_decision_writes(3) [of E w a revision op "ms_row s"]
  by (auto simp: edit_def Let_def split: edit_step.splits)

lemma edit_Saved:
  assumes "edit E w a revision op s = (Inr (EditSaved r), s')"
  obtains m' d where "edit_decision E w a revision op (ms_row s) = EditWrites m'" "r = revision + 1"
    "s' = \<lparr>ms_row = \<lparr>mr_document = MenuDocument m', mr_revision = revision + 1\<rparr>,
           ms_audit = ms_audit s @ [(act_user a, op_name op, d)]\<rparr>"
  using edit_cases [OF assms] that by auto

text \<open>The save's own schema check cannot fail.\<close>

lemma edit_never_its_schema:
  assumes "text_env_ok E"
  shows "fst (edit E w a revision op s) \<noteq> Inl (OtherError x)"
proof -
  let ?c = "stored_menu E (mr_document (ms_row s))"
  have m: "menuSchema E (case ?c of Some m \<Rightarrow> m | None \<Rightarrow> EMPTY_MENU)"
    by (auto simp: stored_menu_Some menuSchema_iff EMPTY_MENU_def menuRoleIds_def split: option.split)
  then have "edit_decision E w a revision op (ms_row s) \<noteq> EditThrows (OtherError x)"
    using applyOperation_menuSchema [OF assms m, of op]
    unfolding edit_decision_def Let_def by (auto split: sum.split menu_edit.split)
  then show ?thesis by (auto simp: edit_def Let_def split: edit_step.split)
qed

section \<open>Histories\<close>

lemma edit_run_append: "edit_run E (xs @ ys) s = edit_run E ys (edit_run E xs s)"
  by (induction E xs s rule: edit_run.induct) simp_all

lemma edit_step_row:
  "ms_row (snd (edit E w a revision op s)) = ms_row s \<or>
   mr_revision (ms_row (snd (edit E w a revision op s))) = mr_revision (ms_row s) + 1"
  using edit_cases [of E w a revision op s, OF prod.collapse [symmetric]]
    edit_decision_writes(3) [of E w a revision op "ms_row s"] by auto

lemma edit_run_revision:
  "ms_row (edit_run E reqs s) = ms_row s \<or> mr_revision (ms_row s) < mr_revision (ms_row (edit_run E reqs s))"
proof (induction E reqs s rule: edit_run.induct)
  case (2 E w a revision op reqs s)
  then show ?case using edit_step_row [of E w a revision op s] by auto
qed simp

text \<open>The stored row and its audit trail: one audit row per revision.\<close>

definition store_ok :: "text_env \<Rightarrow> menu_store \<Rightarrow> bool" where
  "store_ok E s \<longleftrightarrow>
     mr_revision (ms_row s) = 1 + int (length (ms_audit s)) \<and>
     (case mr_document (ms_row s) of MenuDocument m \<Rightarrow> menuSchema E m | ForeignDocument _ \<Rightarrow> True) \<and>
     (ms_audit s \<noteq> [] \<longrightarrow> stored_menu E (mr_document (ms_row s)) \<noteq> None)"

lemma edit_store_ok:
  assumes "store_ok E s"
  shows "store_ok E (snd (edit E w a revision op s))"
  using edit_cases [of E w a revision op s, OF prod.collapse [symmetric]] assms
    edit_decision_writes(3,7) [of E w a revision op "ms_row s"]
  by (auto simp: store_ok_def stored_menu_Some)

lemma edit_run_store_ok: "store_ok E s \<Longrightarrow> store_ok E (edit_run E reqs s)"
  by (induction E reqs s rule: edit_run.induct) (simp_all add: edit_store_ok)

section \<open>Adding roles\<close>

lemma set_menuRoleIds_update:
  assumes "n < length m" "set (category_roles c) \<subseteq> set (category_roles (m ! n)) \<union> A"
  shows "set (menuRoleIds (m[n := c])) \<subseteq> set (menuRoleIds m) \<union> A"
  using assms(2) menu_split(1) [OF assms(1)] menu_split(2) [OF assms(1), of c] by auto

lemma only_adding_adds:
  assumes "menuSchema E m" "applyOperation E m op = MenuIs m'" "i \<in> set (menuRoleIds m')" "i \<notin> set (menuRoleIds m)"
  obtains c roles ack where "op = OptionsAdd c roles ack"
proof -
  have "set (menuRoleIds m') \<subseteq> set (menuRoleIds m)" if no: "\<nexists>c roles ack. op = OptionsAdd c roles ack"
  proof (cases op)
    case (CategoryCreate c input)
    with assms(2) have "m' = m \<or> (\<exists>d. m' = m @ [d] \<and> ca_options d = [])"
      by (auto simp: createCategory_def Let_def withFields_def split: option.splits prod.splits if_splits)
    then show ?thesis by (elim disjE exE conjE) (simp_all add: menuRoleIds_def category_roles_def)
  next
    case (CategoryEdit c input)
    with assms(2) obtain n where n: "n < length m" and e: "editCategory E m n (m ! n) input = MenuIs m'"
      by (auto elim!: with_current_MenuIs)
    obtain ft errors where "categoryFields E input = (ft, errors)" by force
    with e have "m' = m[n := withFields ft (m ! n)]"
      by (auto simp: editCategory_def Let_def split: if_splits)
    then show ?thesis using set_menuRoleIds_update [OF n, of "withFields ft (m ! n)" "{}"]
      by (simp add: withFields_def category_roles_def)
  next
    case (CategoryMove c to)
    with assms(2) obtain n k where n: "n < length m"
      and m': "m' = take k (without_index n m) @ [m ! n] @ drop k (without_index n m)"
      by (auto simp: moveCategory_def Let_def elim!: with_current_MenuIs split: option.splits)
    then have "set m' = set m" using mset_moved [OF n, of k] by (metis mset_eq_setD)
    then show ?thesis by (simp add: set_menuRoleIds)
  next
    case (CategorySetState c state)
    with assms(2) obtain n where n: "n < length m" "m' = m[n := (m ! n)\<lparr>ca_state := state\<rparr>]"
      by (auto elim!: with_current_MenuIs)
    then show ?thesis using set_menuRoleIds_update [OF n(1), of "(m ! n)\<lparr>ca_state := state\<rparr>" "{}"]
      by (simp add: category_roles_def)
  next
    case (CategoryDelete c)
    with assms(2) show ?thesis
      using find_index_Some [of c m] menu_split(1,3) by (auto split: option.splits)
  next
    case PublishAll
    with assms(2) have "m' = map publish m" by simp
    moreover have "category_roles (publish c) = category_roles c" for c
      by (simp add: publish_def category_roles_def)
    ultimately show ?thesis by (simp add: menuRoleIds_def comp_def)
  next
    case MenuReset
    with assms(2) show ?thesis by (auto simp: EMPTY_MENU_def menuRoleIds_def)
  next
    case (OptionsAdd c roles ack)
    with no show ?thesis by blast
  next
    case (OptionsEdit c rows)
    with assms(2) obtain n where n: "n < length m" and e: "editOptions E m n (m ! n) rows = MenuIs m'"
      by (auto elim!: with_current_MenuIs)
    let ?zs = "zip (ca_options (m ! n)) [0..<length (ca_options (m ! n))]"
    have "set (map (so_role \<circ> pl_option) (List.map_filter (place_option E rows) ?zs)) \<subseteq> set (category_roles (m ! n))"
      using placed_roles(1) [of E rows ?zs] by (simp add: category_roles_def flip: map_map)
    then show ?thesis
      unfolding editOptions_cases(3) [OF e]
      using set_menuRoleIds_update [OF n, of "(m ! n)\<lparr>ca_options := map pl_option (sort_by placed_cmp
          (List.map_filter (place_option E rows) ?zs))\<rparr>" "{}"]
      by (simp add: category_roles_def image_comp)
  qed
  then show thesis using assms(3,4) that by blast
qed

end
