(* ===== verification/SelfRoleHistory.thy ===== *)
theory SelfRoleHistory
  imports SelfRoleService
begin

text \<open>
  What the role menu's operations guarantee over time: histories of edits, a repeated request, the
  roles an edit may add, the payload a save may queue and the roles the job may write.
\<close>

section \<open>Histories of edits\<close>

text \<open>The revision an audit row names.\<close>

fun audit_revision :: "audit_details \<Rightarrow> int" where
  "audit_revision (AuditFields r _ _) = r"
| "audit_revision (AuditMove r _ _) = r"
| "audit_revision (AuditState r _ _) = r"
| "audit_revision (AuditDelete r _ _) = r"
| "audit_revision (AuditPublish r _) = r"
| "audit_revision (AuditReset r _) = r"
| "audit_revision (AuditAdd r _ _ _) = r"
| "audit_revision (AuditEdit r _ _) = r"

lemma audit_revision_details [simp]: "audit_revision (auditDetails op before m r hidden) = r"
  by (cases op) (simp_all add: Let_def)

definition new_menu_store :: menu_store where
  "new_menu_store = \<lparr>ms_row = loadMenu None, ms_audit = []\<rparr>"

lemma edit_audit:
  "ms_audit (snd (edit E w a revision op s)) = ms_audit s \<and>
     ms_row (snd (edit E w a revision op s)) = ms_row s \<or>
   (\<exists>d. ms_audit (snd (edit E w a revision op s)) = ms_audit s @ [(act_user a, op_name op, d)] \<and>
        audit_revision d = mr_revision (ms_row s) + 1 \<and>
        mr_revision (ms_row (snd (edit E w a revision op s))) = mr_revision (ms_row s) + 1)"
  by (auto simp: edit_def Let_def split: edit_step.split)

lemma edit_run_audit:
  assumes "map (\<lambda>(_, _, d). audit_revision d) (ms_audit s) = map int [2..<length (ms_audit s) + 2]"
    and "mr_revision (ms_row s) = 1 + int (length (ms_audit s))"
  shows "map (\<lambda>(_, _, d). audit_revision d) (ms_audit (edit_run E reqs s)) =
     map int [2..<length (ms_audit (edit_run E reqs s)) + 2]"
  using assms
proof (induction E reqs s rule: edit_run.induct)
  case (2 E w a revision op reqs s)
  let ?s = "snd (edit E w a revision op s)"
  have "map (\<lambda>(_, _, d). audit_revision d) (ms_audit ?s) = map int [2..<length (ms_audit ?s) + 2] \<and>
      mr_revision (ms_row ?s) = 1 + int (length (ms_audit ?s))"
    using edit_audit [of E w a revision op s] 2(2,3) by (elim disjE exE conjE) simp_all
  then show ?case using 2(1) by simp
qed simp

lemma new_menu_store_ok: "store_ok E new_menu_store"
  by (simp add: store_ok_def new_menu_store_def loadMenu_def menuSchema_iff EMPTY_MENU_def menuRoleIds_def)

lemma store_ok_readable:
  assumes "store_ok E s" "stored_menu E (mr_document (ms_row s)) \<noteq> None"
  shows "stored_menu E (mr_document (ms_row (edit_run E reqs s))) \<noteq> None"
  using assms
proof (induction E reqs s rule: edit_run.induct)
  case (2 E w a revision op reqs s)
  have "stored_menu E (mr_document (ms_row (snd (edit E w a revision op s)))) \<noteq> None"
    using edit_cases [of E w a revision op s, OF prod.collapse [symmetric]] 2(3)
      edit_decision_writes(7) [of E w a revision op "ms_row s"]
    by (auto simp: stored_menu_Some)
  then show ?case using 2(1) edit_store_ok [OF 2(2)] by simp
qed simp

text \<open>
  (C16) Whatever requests a new server's menu gets, in whatever order, from whoever and against
  whatever servers: the stored menu can always be read back, its revision is one more than the
  number of saves, and the audit trail names every revision from 2 on exactly once, in order.
\<close>

theorem menu_history:
  "let s = edit_run E reqs new_menu_store
   in stored_menu E (mr_document (ms_row s)) \<noteq> None \<and>
      mr_revision (ms_row s) = 1 + int (length (ms_audit s)) \<and>
      map (\<lambda>(_, _, d). audit_revision d) (ms_audit s) = map int [2..<length (ms_audit s) + 2]"
proof -
  have "stored_menu E (mr_document (ms_row new_menu_store)) \<noteq> None"
    using new_menu_store_ok [of E] by (simp add: store_ok_def new_menu_store_def loadMenu_def stored_menu_Some)
  then show ?thesis
    using store_ok_readable [OF new_menu_store_ok] edit_run_store_ok [OF new_menu_store_ok]
      edit_run_audit [of new_menu_store E reqs]
    by (simp add: Let_def store_ok_def new_menu_store_def loadMenu_def)
qed

text \<open>
  (C15) No edit is lost: a request made against the revision an officer saw is saved only while the
  menu is the very one they saw, whoever else edited meanwhile, and what is saved is that menu with
  their operation applied, under the next revision.
\<close>

theorem edit_applies_to_what_was_seen:
  assumes "edit E w a (mr_revision (ms_row s0)) op (edit_run E others s0) = (Inr (EditSaved r), s')"
  shows "ms_row (edit_run E others s0) = ms_row s0 \<and> r = mr_revision (ms_row s0) + 1 \<and>
    (\<exists>m'. applyOperation E (case stored_menu E (mr_document (ms_row s0)) of Some m \<Rightarrow> m | None \<Rightarrow> EMPTY_MENU) op =
            MenuIs m' \<and>
          ms_row s' = \<lparr>mr_document = MenuDocument m', mr_revision = mr_revision (ms_row s0) + 1\<rparr>)"
proof -
  obtain m' d where dec: "edit_decision E w a (mr_revision (ms_row s0)) op (ms_row (edit_run E others s0)) = EditWrites m'"
    and r: "r = mr_revision (ms_row s0) + 1"
    and s': "s' = \<lparr>ms_row = \<lparr>mr_document = MenuDocument m', mr_revision = mr_revision (ms_row s0) + 1\<rparr>,
           ms_audit = ms_audit (edit_run E others s0) @ [(act_user a, op_name op, d)]\<rparr>"
    using edit_Saved [OF assms] by blast
  have same: "ms_row (edit_run E others s0) = ms_row s0"
    using edit_run_revision [of E others s0] edit_decision_writes(3) [OF dec] by auto
  show ?thesis using edit_decision_writes(4) [OF dec] unfolding same using r s' by auto
qed

text \<open>
  A double submit is harmless: the same request sent again right after it was saved answers
  that nothing changed, with the saved revision, and stores nothing. (An option form names every
  option of its category, as the page's form does.)
\<close>

theorem edit_again_unchanged:
  assumes "text_env_ok E" "edit E w a revision op s = (Inr (EditSaved r), s')"
    and "case stored_menu E (mr_document (ms_row s)) of None \<Rightarrow> True | Some m \<Rightarrow> full_form m op"
  shows "edit E w a revision op s' = (Inr (EditUnchanged r), s')"
proof -
  obtain m' d where dec: "edit_decision E w a revision op (ms_row s) = EditWrites m'" and r: "r = revision + 1"
    and s': "s' = \<lparr>ms_row = \<lparr>mr_document = MenuDocument m', mr_revision = revision + 1\<rparr>,
           ms_audit = ms_audit s @ [(act_user a, op_name op, d)]\<rparr>"
    using edit_Saved [OF assms(2)] by blast
  note w = edit_decision_writes [OF dec]
  have stored: "stored_menu E (MenuDocument m') = Some m'" using w(7) by (simp add: stored_menu_Some)
  have "applyOperation E m' op = MenuIs m'"
  proof (cases "stored_menu E (mr_document (ms_row s))")
    case None
    then have "op = MenuReset" using w(5) by simp
    then show ?thesis using w(4) by simp
  next
    case (Some m)
    then have "full_form m op" "applyOperation E m op = MenuIs m'"
      using w(4) assms(3) by simp_all
    moreover have "menuSchema E m" using Some by (simp add: stored_menu_Some)
    ultimately show ?thesis using applyOperation_again [OF assms(1)] by blast
  qed
  then have "edit_decision E w a revision op (ms_row s') = EditAnswers (EditUnchanged r)"
    unfolding edit_decision_def using w(1,2) stored by (simp add: s' r sameMenu_def)
  then show ?thesis by (simp add: edit_def)
qed

section \<open>What an edit may add\<close>

lemma add_errors_none:
  assumes "add_errors w (Some m) (OptionsAdd c roles ack) m' = []" "ew_server w = Some X"
    and "i \<in> set (menuRoleIds m')" "i \<notin> set (menuRoleIds m)"
  shows "selfRoleProblems X i = []" "unreadableChannels (cs_flags X) (cs_guild X) > 0 \<Longrightarrow> ack"
proof -
  show "selfRoleProblems X i = []"
    using assms
    by (cases "rk_problems (selfRoleChecker X i)")
      (auto simp: add_errors_def Let_def selfRoleProblems_def List.map_filter_def filter_empty_conv split: list.splits)
  show "unreadableChannels (cs_flags X) (cs_guild X) > 0 \<Longrightarrow> ack"
    using assms by (auto simp: add_errors_def Let_def split: if_splits)
qed

text \<open>
  Only roles that pass every rule become self-assignable: a role that a saved edit puts on the
  menu was added by an officer who holds the publishing permission, with a readable server on which
  the rule set finds no problem in that role, and with the channels TaruBot cannot read confirmed.
\<close>

theorem edit_adds_only_passing_roles:
  assumes "edit E w a revision op s = (Inr (EditSaved r), s')"
    and "stored_menu E (mr_document (ms_row s)) = Some m" "stored_menu E (mr_document (ms_row s')) = Some m'"
    and "i \<in> set (menuRoleIds m')" "i \<notin> set (menuRoleIds m)"
  shows "\<exists>c roles acknowledged X.
    op = OptionsAdd c roles acknowledged \<and> ew_server w = Some X \<and> selfRoleProblems X i = [] \<and>
    requirePermission a (act_guild a) P_rolemenu_publish None = Inr () \<and>
    (unreadableChannels (cs_flags X) (cs_guild X) > 0 \<longrightarrow> acknowledged)"
proof -
  obtain m'' d where dec: "edit_decision E w a revision op (ms_row s) = EditWrites m''"
    and s': "s' = \<lparr>ms_row = \<lparr>mr_document = MenuDocument m'', mr_revision = revision + 1\<rparr>,
           ms_audit = ms_audit s @ [(act_user a, op_name op, d)]\<rparr>"
    using edit_Saved [OF assms(1)] by blast
  note w = edit_decision_writes [OF dec]
  have m'': "m'' = m'" using assms(3) by (simp add: s' stored_menu_Some)
  have ok: "menuSchema E m" and app: "applyOperation E m op = MenuIs m'"
    using assms(2) w(4) unfolding m'' by (simp add: stored_menu_Some, simp only: option.simps)
  obtain c roles ack where op: "op = OptionsAdd c roles ack"
    using only_adding_adds [OF ok app assms(4,5)] by blast
  have adm: "requirePermission a (act_guild a) P_rolemenu_publish None = Inr ()" "ew_server w \<noteq> None"
    using w(1) unfolding edit_admission_def op by (simp_all add: and_then_Inr_iff PUBLISHING_OPS_def split: if_split_asm)
  then obtain X where X: "ew_server w = Some X" by blast
  have "add_errors w (Some m) (OptionsAdd c roles ack) m' = []" using w(8) unfolding assms(2) op m'' .
  note add_errors_none [OF this X assms(4,5)]
  then show ?thesis
    by (intro exI [of _ c] exI [of _ roles] exI [of _ ack] exI [of _ X] conjI impI op X adm(1)) simp_all
qed

section \<open>What a save queues\<close>

lemma nothing_on_no_menu:
  assumes "changedCategories EMPTY_MENU held check sub = ChoiceIs ch"
  shows "rch_offered ch = []"
proof -
  have "menuSchema E EMPTY_MENU" for E by (simp add: menuSchema_iff EMPTY_MENU_def menuRoleIds_def)
  from accepted_choice [OF assms this] show ?thesis by (simp add: EMPTY_MENU_def menuRoleIds_def)
qed

lemma choose_roles_queues:
  assumes "choose_admission w sv a = Inr X" "changedCategories (case stored_menu E (cwd_document w) of Some m \<Rightarrow> m | None \<Rightarrow> EMPTY_MENU)
      held (selfRoleChecker X) submitted = ChoiceIs ch" "rch_offered ch \<noteq> []" "cwd_isoDate w (sw_now sv)"
  obtains m where "stored_menu E (cwd_document w) = Some m"
    "roleChoicePayload (cwd_isoDate w)
       (mergeChoice (Option.bind (sw_waiting_row sv) (readRoleChoice (cwd_isoDate w))) ch (Some m)) (sw_now sv)"
proof (cases "stored_menu E (cwd_document w)")
  case None
  then show thesis using assms(2,3) nothing_on_no_menu by simp
next
  case (Some m)
  let ?w = "Option.bind (sw_waiting_row sv) (readRoleChoice (cwd_isoDate w))"
  have "\<exists>before. case ?w of None \<Rightarrow> True | Some c \<Rightarrow> roleChoicePayload (cwd_isoDate w) c before"
    by (auto simp: readRoleChoice_def split: option.splits bind_split)
  then obtain before where b: "case ?w of None \<Rightarrow> True | Some c \<Rightarrow> roleChoicePayload (cwd_isoDate w) c before" ..
  have ok: "menuSchema E m" using Some by (simp add: stored_menu_Some)
  have "roleChoicePayload (cwd_isoDate w) (mergeChoice ?w ch (Some m)) (sw_now sv)"
    by (rule merged_payload [where isoDate = "cwd_isoDate w" and before = before, OF ok _ _ assms(4)])
      (use assms(2) Some b in simp_all)
  with Some show thesis by (rule that)
qed

lemma choose_admission_ok:
  assumes "choose_admission w sv a = Inr X"
  shows "selfServiceAccess a" "pauseOn a P_selfroles_use = None" "act_timed_out a \<noteq> Some True" "cwd_live w"
    "cwd_configured w" "cwd_server w = Some X"
  using assms
  by (simp_all add: choose_admission_def and_then_Inr_iff requireNotPaused_def split: if_split_asm option.split_asm)

text \<open>
  A save never fails on its own payload, and queues only what can be read back: whatever the
  member submitted and whatever was waiting, a queued payload passes the schema, and it is queued
  only for somebody with self-service access who is neither paused nor timed out, in a configured
  server whose Discord changes are live.
\<close>

theorem save_queues_valid_payload:
  assumes "cwd_isoDate w (sw_now sv)"
  shows "case choose_roles E w sv a submitted of
      Inl thrown \<Rightarrow> \<exists>f. thrown = ThrownFailure f
    | Inr (answer, None) \<Rightarrow> True
    | Inr (answer, Some (choice, savedAt)) \<Rightarrow>
        answer = ChoiceSaved \<and> roleChoicePayload (cwd_isoDate w) choice savedAt \<and>
        selfServiceAccess a \<and> pauseOn a P_selfroles_use = None \<and> act_timed_out a \<noteq> Some True \<and>
        cwd_configured w \<and> cwd_live w"
proof (cases "choose_admission w sv a")
  case (Inl f)
  then show ?thesis by (simp add: choose_roles_def)
next
  case (Inr X)
  let ?held = "case act_role_ids a of Some rs \<Rightarrow> rs | None \<Rightarrow> (case cwd_cachedRoles w of Some rs \<Rightarrow> rs | None \<Rightarrow> [])"
  let ?menu = "stored_menu E (cwd_document w)"
  let ?change = "changedCategories (case ?menu of Some m \<Rightarrow> m | None \<Rightarrow> EMPTY_MENU) ?held (selfRoleChecker X) submitted"
  show ?thesis
  proof (cases "\<exists>ch. ?change = ChoiceIs ch \<and> rch_offered ch \<noteq> []")
    case False
    then show ?thesis using Inr by (simp add: choose_roles_def Let_def split: choice_change.split)
  next
    case True
    then obtain ch where ch: "?change = ChoiceIs ch" "rch_offered ch \<noteq> []" by blast
    obtain m where "?menu = Some m"
      "roleChoicePayload (cwd_isoDate w)
       (mergeChoice (Option.bind (sw_waiting_row sv) (readRoleChoice (cwd_isoDate w))) ch (Some m)) (sw_now sv)"
      by (rule choose_roles_queues [OF Inr ch assms])
    then show ?thesis
      using choose_admission_ok [OF Inr] ch unfolding choose_roles_def Inr Let_def by simp
  qed
qed

section \<open>What the job writes\<close>

lemma access_roles_not_planned:
  "i \<in> set (pn_add (planSelfRoles ch menu held unt)) \<or> i \<in> set (pn_remove (planSelfRoles ch menu held unt)) \<Longrightarrow>
     i \<notin> set unt"
  by (auto simp: set_plan plan_touches_def split: option.splits)

definition job_server :: "job_world \<Rightarrow> visibility_guild \<Rightarrow> checked_server" where
  "job_server w g = \<lparr>cs_flags = jw_flags w, cs_all = jw_all w, cs_guild = g, cs_settings = jw_settings w\<rparr>"

definition job_plan :: "text_env \<Rightarrow> job_world \<Rightarrow> role_choice \<Rightarrow> ident list \<Rightarrow> self_role_plan" where
  "job_plan E w choice roles =
     planSelfRoles choice (stored_menu E (jw_document w)) roles (access_role_ids (jw_settings w))"

lemma apply_choice_wrote:
  assumes "apply_choice E w write targets payload = (res, Some (add, remove))"
  obtains choice roles g where "readRoleChoice (jw_isoDate w) payload = Some choice" "jw_locked w" "jw_configured w"
    "jw_member w = Some (roles, False)" "jw_snapshot w = Some g" "botManagesRoles (jw_flags w) (jw_all w) g"
    "jw_guard w = None"
    "add = checked_add (job_server w g) roles (pn_add (job_plan E w choice roles))"
    "remove = filter (\<lambda>i. removableBy (selfRoleChecker (job_server w g) i)) (pn_remove (job_plan E w choice roles))"
    "add \<noteq> [] \<or> remove \<noteq> []"
    "res = (case write add remove of Inl t \<Rightarrow> Inl t
      | Inr (a, r, s) \<Rightarrow> Inr (Applied a r (int (length (differing choice roles)) - int (length add) - int (length remove) + s)))"
proof -
  have c0: "targets" "readRoleChoice (jw_isoDate w) payload \<noteq> None" "jw_locked w" "jw_configured w"
    using assms unfolding apply_choice_def Let_def by (simp_all split: if_split_asm option.split_asm)
  then obtain choice where c: "readRoleChoice (jw_isoDate w) payload = Some choice" by blast
  have "\<exists>roles. jw_member w = Some (roles, False)"
    using assms unfolding apply_choice_def Let_def by (simp add: c0 c split: if_split_asm option.split_asm prod.split_asm)
  then obtain roles where m: "jw_member w = Some (roles, False)" ..
  have "\<exists>g. jw_snapshot w = Some g \<and> botManagesRoles (jw_flags w) (jw_all w) g"
    using assms unfolding apply_choice_def Let_def by (simp add: c0 c m split: if_split_asm option.split_asm)
  then obtain g where g: "jw_snapshot w = Some g" "botManagesRoles (jw_flags w) (jw_all w) g" by blast
  let ?add = "checked_add (job_server w g) roles (pn_add (job_plan E w choice roles))"
  let ?remove = "filter (\<lambda>i. removableBy (selfRoleChecker (job_server w g) i)) (pn_remove (job_plan E w choice roles))"
  let ?n = "int (length (differing choice roles)) - int (length ?add) - int (length ?remove)"
  have w: "jw_guard w = None \<and> ?add = add \<and> ?remove = remove \<and> (add \<noteq> [] \<or> remove \<noteq> []) \<and>
      res = (case write ?add ?remove of Inl t \<Rightarrow> Inl t | Inr (a, r, s) \<Rightarrow> Inr (Applied a r (?n + s)))"
    using assms unfolding apply_choice_def Let_def
    by (simp add: c0 c m g pn_skipped_plan job_plan_def job_server_def
        split: if_split_asm option.split_asm sum.split_asm prod.split_asm; elim conjE; hypsubst; simp)
  then have eqs: "?add = add" "?remove = remove" by blast+
  show thesis by (rule that [OF c c0(3,4) m g _ eqs [symmetric]]) (use w in \<open>simp_all only: eqs\<close>)
qed

text \<open>
  (C14) The job gives nobody a role they did not ask for and no role that would not pass now: every
  role it adds was chosen, is not held, is on a published category's list, and has no problem on the
  server as just read; every role it takes was offered and not chosen, is held, and is removable.
  It touches no role that grants access, opens no channel to somebody without access, and writes
  only under the member's lock and the worker's guard.
\<close>

theorem job_writes_only_checked_roles:
  assumes "apply_choice E w write targets payload = (res, Some (add, remove))"
  shows "\<exists>choice roles g m.
    readRoleChoice (jw_isoDate w) payload = Some choice \<and> stored_menu E (jw_document w) = Some m \<and>
    jw_member w = Some (roles, False) \<and> jw_snapshot w = Some g \<and> jw_locked w \<and> jw_configured w \<and> jw_guard w = None \<and>
    (\<forall>i \<in> set add. i \<in> set (rch_chosen choice) \<and> i \<in> set (rch_offered choice) \<and> i \<notin> set roles \<and> addable m i \<and>
       selfRoleProblems (job_server w g) i = [] \<and> i \<notin> set (access_role_ids (jw_settings w))) \<and>
    (\<forall>i \<in> set remove. i \<in> set (rch_offered choice) \<and> i \<notin> set (rch_chosen choice) \<and> i \<in> set roles \<and>
       removableBy (selfRoleChecker (job_server w g) i) \<and> i \<notin> set (access_role_ids (jw_settings w)))"
proof -
  obtain choice roles g where c: "readRoleChoice (jw_isoDate w) payload = Some choice" "jw_locked w" "jw_configured w"
    "jw_member w = Some (roles, False)" "jw_snapshot w = Some g" "jw_guard w = None"
    and add: "add = checked_add (job_server w g) roles (pn_add (job_plan E w choice roles))"
    and remove: "remove = filter (\<lambda>i. removableBy (selfRoleChecker (job_server w g) i)) (pn_remove (job_plan E w choice roles))"
    and some: "add \<noteq> [] \<or> remove \<noteq> []"
    by (rule apply_choice_wrote [OF assms])
  obtain m where m: "stored_menu E (jw_document w) = Some m"
  proof (cases "stored_menu E (jw_document w)")
    case None
    then have "pn_add (job_plan E w choice roles) = []" "pn_remove (job_plan E w choice roles) = []"
      using set_plan [of choice None roles "access_role_ids (jw_settings w)"] by (simp_all add: job_plan_def)
    then show thesis using some unfolding add remove by (simp add: checked_add_def Let_def)
  qed
  have "i \<in> set (rch_chosen choice) \<and> i \<in> set (rch_offered choice) \<and> i \<notin> set roles \<and> addable m i \<and>
       selfRoleProblems (job_server w g) i = [] \<and> i \<notin> set (access_role_ids (jw_settings w))" if "i \<in> set add" for i
    using that unfolding add
    by (auto simp: checked_add_def Let_def selfRoleProblems_def job_plan_def m set_plan differing_def plan_touches_def
        split: option.splits)
  moreover have "i \<in> set (rch_offered choice) \<and> i \<notin> set (rch_chosen choice) \<and> i \<in> set roles \<and>
       removableBy (selfRoleChecker (job_server w g) i) \<and> i \<notin> set (access_role_ids (jw_settings w))" if "i \<in> set remove" for i
    using that unfolding remove
    by (auto simp: job_plan_def m set_plan differing_def plan_touches_def split: option.splits)
  ultimately show ?thesis using c m by blast
qed

section \<open>A worked example\<close>

text \<open>
  An officer adds the role \<open>2\<close> of the sample server to an empty category, and a member who holds the
  role \<open>3\<close> takes it.
\<close>

definition sample_access :: access where
  "sample_access = \<lparr>acc_manager = False, acc_roles = [OfficerRole],
     acc_permissions = {P_rolemenu_view, P_rolemenu_publish, P_selfroles_use}, acc_blocked = (\<lambda>_. None)\<rparr>"

definition sample_actor :: actor where
  "sample_actor = \<lparr>act_guild = ''1'', act_user = ''70'', act_manage_roles = False, act_server_manager = None,
     act_role_ids = Some [''3''], act_access = sample_access, act_member = None, act_guest = None,
     act_bot_administrator = Some False, act_timed_out = None\<rparr>"

definition sample_add :: menu_operation where
  "sample_add = OptionsAdd ''c'' [''2''] False"

definition sample_world :: edit_world where
  "sample_world = \<lparr>ew_configured = True, ew_server = Some sample_server, ew_stopping = False,
     ew_stopping_later = False\<rparr>"

definition sample_store :: menu_store where
  "sample_store = \<lparr>ms_row = \<lparr>mr_document = MenuDocument (sample_menu []), mr_revision = 4\<rparr>, ms_audit = []\<rparr>"

lemma sample_store_fields [simp]:
  "ms_row sample_store = \<lparr>mr_document = MenuDocument (sample_menu []), mr_revision = 4\<rparr>"
  "ms_audit sample_store = []"
  by (simp_all add: sample_store_def)

lemma sample_actor_can: "requirePermission sample_actor (act_guild sample_actor) P_rolemenu_view None = Inr ()"
  "requirePermission sample_actor (act_guild sample_actor) P_rolemenu_publish None = Inr ()"
  by (simp_all add: requirePermission_Inr_iff can_def sample_actor_def sample_access_def)

lemma sample_empty_read: "readMenu sample_env (sample_menu []) = Some (sample_menu [])"
  by (simp add: readMenu_def menuSchema_def sample_simps category_ok_def menuRoleIds_def category_roles_def
      js_set_def storedText_def textProblem_def drawn_def max_ok_def limit_defs is_joiner_def characters_def Let_def)

lemma sample_adds: "applyOperation sample_env (sample_menu []) sample_add = MenuIs raid_menu"
  by (simp add: sample_add_def with_current_def addOptions_def sample_simps raid_menu_def js_set_def valid_role_def
      idSchema_def units_def is_nonzero_digit_def is_digit_def big_int_def MAX_ID_def Let_def limit_defs
      List.map_filter_simps menuRoleIds_def category_roles_def)

lemma sample_decision:
  "edit_decision sample_env sample_world sample_actor r sample_add (ms_row sample_store) =
     (if r = 4 then EditWrites raid_menu else EditAnswers (EditConflict MenuChanged))"
proof -
  have adm: "edit_admission sample_world sample_actor sample_add = Inr ()"
    by (simp add: edit_admission_def sample_actor_can and_then_def PUBLISHING_OPS_def sample_add_def sample_world_def)
  have stored: "stored_menu sample_env (MenuDocument (sample_menu [])) = Some (sample_menu [])"
    by (simp add: stored_menu_def sample_empty_read)
  have "rk_problems (selfRoleChecker sample_server ''2'') = []"
    using sample_passes(1) by (simp add: selfRoleProblems_def)
  then have errs: "add_errors sample_world (Some (sample_menu [])) sample_add raid_menu = []"
    by (simp add: add_errors_def sample_world_def sample_add_def raid_menu_def sample_menu_def sample_option_def
        menuRoleIds_def category_roles_def List.map_filter_simps unreadableChannels_def Let_def)
      (simp add: sample_guild_def sample_channel_def unreadable_def)
  have facts: "ew_configured sample_world" "\<not> ew_stopping_later sample_world" "sample_add \<noteq> MenuReset"
    "menuSchema sample_env raid_menu" "\<not> sameMenu raid_menu (sample_menu [])"
    using raid_menu_read by (simp_all add: sample_world_def sample_add_def readMenu_def sameMenu_def split: if_split_asm)
      (simp add: raid_menu_def sample_menu_def)
  show ?thesis
    unfolding edit_decision_def adm by (simp add: stored sample_adds errs Let_def facts)
qed

lemma sample_edit_saved:
  "\<exists>d. edit sample_env sample_world sample_actor 4 sample_add sample_store =
     (Inr (EditSaved 5), \<lparr>ms_row = \<lparr>mr_document = MenuDocument raid_menu, mr_revision = 5\<rparr>,
        ms_audit = [(''70'', ''options.add'', d)]\<rparr>)"
  by (simp add: edit_def Let_def sample_decision [simplified]) (simp add: sample_actor_def sample_add_def)

theorem edit_applies_to_what_was_seen_witness:
  "ms_row (edit_run sample_env [(sample_world, sample_actor, 3, sample_add)] sample_store) = ms_row sample_store"
proof -
  let ?others = "[(sample_world, sample_actor, 3, sample_add)]"
  have "edit_run sample_env ?others sample_store = sample_store"
    by (simp add: edit_def Let_def sample_decision [simplified])
  then have "edit sample_env sample_world sample_actor (mr_revision (ms_row sample_store)) sample_add
      (edit_run sample_env ?others sample_store) = (Inr (EditSaved 5), snd (edit sample_env sample_world sample_actor 4
        sample_add sample_store))"
    using sample_edit_saved by force
  from edit_applies_to_what_was_seen [OF this] show ?thesis ..
qed

theorem edit_again_unchanged_witness:
  "\<exists>s'. edit sample_env sample_world sample_actor 4 sample_add s' = (Inr (EditUnchanged 5), s')"
proof -
  obtain s' where e: "edit sample_env sample_world sample_actor 4 sample_add sample_store = (Inr (EditSaved 5), s')"
    using sample_edit_saved by blast
  have "full_form m sample_add" for m by (simp add: full_form_def sample_add_def)
  then have "case stored_menu sample_env (mr_document (ms_row sample_store)) of None \<Rightarrow> True | Some m \<Rightarrow> full_form m sample_add"
    by (simp split: option.split)
  from edit_again_unchanged [OF sample_env_ok e this] show ?thesis by blast
qed

theorem edit_adds_only_passing_roles_witness:
  "selfRoleProblems sample_server ''2'' = [] \<and>
   requirePermission sample_actor (act_guild sample_actor) P_rolemenu_publish None = Inr ()"
proof -
  obtain d where e: "edit sample_env sample_world sample_actor 4 sample_add sample_store =
     (Inr (EditSaved 5), \<lparr>ms_row = \<lparr>mr_document = MenuDocument raid_menu, mr_revision = 5\<rparr>,
        ms_audit = [(''70'', ''options.add'', d)]\<rparr>)"
    using sample_edit_saved by blast
  have w: "ew_server sample_world = Some sample_server" by (simp add: sample_world_def)
  have r: "''2'' \<in> set (menuRoleIds raid_menu)" "''2'' \<notin> set (menuRoleIds (sample_menu []))"
    by (simp_all add: raid_menu_def sample_menu_def sample_option_def menuRoleIds_def category_roles_def)
  have m: "stored_menu sample_env (mr_document (ms_row sample_store)) = Some (sample_menu [])"
    by (simp add: stored_menu_def sample_empty_read)
  have m': "stored_menu sample_env (MenuDocument raid_menu) = Some raid_menu"
    by (simp add: stored_menu_def raid_menu_read)
  show ?thesis using edit_adds_only_passing_roles [OF e m _ r] m' w by simp blast
qed

definition raid_choice :: role_choice where
  "raid_choice = \<lparr>rch_chosen = [''2''], rch_offered = [''2'']\<rparr>"

definition sample_job :: job_world where
  "sample_job = \<lparr>jw_locked = True, jw_configured = True, jw_member = Some ([''3''], False),
     jw_document = MenuDocument raid_menu, jw_settings = cs_settings sample_server, jw_snapshot = Some sample_guild,
     jw_flags = documented_bits, jw_all = -1, jw_port = True, jw_guard = None, jw_isoDate = (\<lambda>t. t \<noteq> [])\<rparr>"

lemma sample_job_fields [simp]:
  "jw_locked sample_job" "jw_configured sample_job" "jw_member sample_job = Some ([''3''], False)"
  "jw_document sample_job = MenuDocument raid_menu" "jw_settings sample_job = cs_settings sample_server"
  "jw_snapshot sample_job = Some sample_guild" "jw_flags sample_job = documented_bits" "jw_all sample_job = -1"
  "jw_port sample_job" "jw_guard sample_job = None" "jw_isoDate sample_job = (\<lambda>t. t \<noteq> [])"
  by (simp_all add: sample_job_def)

lemma sample_job_applied:
  "apply_choice sample_env sample_job (\<lambda>a r. Inr (int (length a), int (length r), 0)) True (Some (raid_choice, ''t'')) =
     (Inr (Applied 1 0 0), Some ([''2''], []))"
proof -
  have read: "readRoleChoice (\<lambda>t. t \<noteq> []) (Some (raid_choice, ''t'')) = Some raid_choice"
    by (simp add: readRoleChoice_def roleChoicePayload_def raid_choice_def valid_role_def idSchema_def units_def
      is_nonzero_digit_def is_digit_def big_int_def MAX_ID_def LIMIT_options_def unique_def js_set_def)
  have stored: "stored_menu sample_env (MenuDocument raid_menu) = Some raid_menu"
    by (simp add: stored_menu_def raid_menu_read)
  have plan: "planSelfRoles raid_choice (Some raid_menu) [''3''] (access_role_ids (cs_settings sample_server)) =
      \<lparr>pn_add = [''2''], pn_remove = [], pn_skipped = 0\<rparr>"
    by (simp add: planSelfRoles_def Let_def raid_choice_def js_set_def plan_touches_def over_limit_def held_after_def
      addable_def listed_def raid_menu_def sample_menu_def sample_option_def access_role_ids_def)
  have server: "\<lparr>cs_flags = documented_bits, cs_all = -1, cs_guild = sample_guild, cs_settings = cs_settings sample_server\<rparr> =
      sample_server" by (simp add: sample_server_def)
  have "rk_problems (selfRoleChecker sample_server ''2'') = []"
    using sample_passes(1) by (simp add: selfRoleProblems_def)
  then have add: "checked_add sample_server [''3''] [''2''] = [''2'']"
    by (simp add: checked_add_def Let_def)
  have bot: "botManagesRoles documented_bits (-1) sample_guild"
    by (simp add: botManagesRoles_def guildPermissions_def or_all_def sample_guild_def sample_role_def documented_bits_def)
  show ?thesis unfolding apply_choice_def by (simp add: read stored plan server add bot Let_def del: sample_fields)
qed

theorem job_writes_only_checked_roles_witness:
  "addable raid_menu ''2'' \<and> selfRoleProblems (job_server sample_job sample_guild) ''2'' = []"
proof -
  have "stored_menu sample_env (jw_document sample_job) = Some raid_menu"
    by (simp add: stored_menu_def raid_menu_read)
  then show ?thesis using job_writes_only_checked_roles [OF sample_job_applied] by auto
qed

definition sample_choice_world :: choice_world where
  "sample_choice_world = \<lparr>cwd_configured = True, cwd_live = True, cwd_server = Some sample_server,
     cwd_document = MenuDocument raid_menu, cwd_cachedRoles = None, cwd_latest = None, cwd_isoDate = (\<lambda>t. t \<noteq> [])\<rparr>"

definition sample_save :: save_world where
  "sample_save = \<lparr>sw_waiting_row = None, sw_endedLately = False, sw_now = ''t'', sw_stopping = False,
     sw_stopping_later = False\<rparr>"

theorem save_queues_valid_payload_witness:
  "roleChoicePayload (\<lambda>t. t \<noteq> []) \<lparr>rch_chosen = [''2''], rch_offered = [''2'']\<rparr> ''t''"
proof -
  have adm: "choose_admission sample_choice_world sample_save sample_actor = Inr sample_server"
    by (simp add: choose_admission_def sample_choice_world_def sample_save_def authorize_def and_then_def
      selfServiceAccess_def holds_def requireNotPaused_def pauseOn_def)
      (simp add: sample_actor_def sample_access_def)
  have stored: "stored_menu sample_env (cwd_document sample_choice_world) = Some raid_menu"
    by (simp add: stored_menu_def raid_menu_read sample_choice_world_def)
  have "mergeChoice None \<lparr>rch_chosen = [''2''], rch_offered = [''2'']\<rparr> (Some raid_menu) =
      \<lparr>rch_chosen = [''2''], rch_offered = [''2'']\<rparr>" by (simp add: mergeChoice_def)
  then have "choose_roles sample_env sample_choice_world sample_save sample_actor [raid_submission] =
      (if roleChoicePayload (\<lambda>t. t \<noteq> []) \<lparr>rch_chosen = [''2''], rch_offered = [''2'']\<rparr> ''t''
       then Inr (ChoiceSaved, Some (\<lparr>rch_chosen = [''2''], rch_offered = [''2'']\<rparr>, ''t''))
       else Inl (OtherError ''Error''))"
    using raid_accepted unfolding choose_roles_def adm Let_def stored
    by (simp add: sample_actor_def choiceHeld_def) (simp add: sample_choice_world_def sample_save_def)
  then show ?thesis
    using save_queues_valid_payload [of sample_choice_world sample_save, where E = sample_env and a = sample_actor
        and submitted = "[raid_submission]"]
    by (simp add: sample_choice_world_def sample_save_def split: if_split_asm)
qed

section \<open>The saved choice waits once\<close>

lemma enqueue_holds:
  "\<exists>r \<in> set (snd (enqueue now i kind key payload g user delay rows)).
     active r \<and> jb_key r = key \<and> jb_payload r = payload \<and> jb_status r \<in> {RowQueued, RowRunning}"
proof (cases "find (\<lambda>r. active r \<and> jb_key r = key) rows")
  case None
  then show ?thesis by (simp add: enqueue_def active_def ACTIVE_STATES_def)
next
  case (Some holder)
  then have h: "holder \<in> set rows" "active holder" "jb_key holder = key" by (auto simp: find_Some_iff)
  let ?r = "forget_self_role_choice (coalesce payload (now + 1000 * delay) holder)"
  have "jb_payload ?r = payload" using h(2) by (simp add: forget_payload) (simp add: coalesce_def)
  moreover have "jb_status ?r \<in> {RowQueued, RowRunning}"
    using h(2) by (auto simp: coalesce_def active_def ACTIVE_STATES_def)
  moreover have "?r \<in> set (snd (enqueue now i kind key payload g user delay rows))"
    using Some h(1) by (auto simp: enqueue_def update_rows_def)
  ultimately show ?thesis using h by (intro bexI [of _ ?r]) simp_all
qed

text \<open>
  However many changes of a member were queued, parked or blocked before, after a save exactly
  one row of theirs waits, it is queued or running, and it asks for the saved choice.
\<close>

theorem saved_choice_waits_once:
  assumes "index_ok rows" "\<forall>r \<in> set rows. jb_key r = roleChoiceKey guild user \<longrightarrow> jb_kind r = ''roles.self''"
  shows "\<exists>r. filter (\<lambda>r. jb_key r = roleChoiceKey guild user \<and> jb_status r \<in> set WAITING_STATES)
      (queue_choice now i guild user saved rows) = [r] \<and>
    jb_payload r = role_choice_json (fst saved) (snd saved) \<and> jb_status r \<in> {RowQueued, RowRunning}"
proof -
  let ?key = "roleChoiceKey guild user"
  let ?payload = "role_choice_json (fst saved) (snd saved)"
  define mid where "mid = snd (enqueue now i ''roles.self'' ?key ?payload (Some guild) (Some user) 0 rows)"
  let ?close = "\<lambda>r. if jb_kind r = ''roles.self'' \<and> jb_key r = ?key \<and> jb_status r = RowDisabled
      then forget_self_role_choice (closed now (JsonObject [(''skipped'', JsonText ''superseded'')]) r) else r"
  have kinds: "jb_kind r = ''roles.self''" if "r \<in> set mid" "jb_key r = ?key" for r
    using that assms(2)
    by (auto simp: mid_def enqueue_def update_rows_def new_job_def split: option.splits if_splits)
  have index: "index_ok mid" unfolding mid_def by (rule enqueue_index [OF assms(1)])
  obtain h where h: "h \<in> set mid" "active h" "jb_key h = ?key" "jb_payload h = ?payload" "jb_status h \<in> {RowQueued, RowRunning}"
    using enqueue_holds [of now i "''roles.self''" ?key ?payload "Some guild" "Some user" 0 rows] unfolding mid_def by blast
  have "filter (\<lambda>r. jb_key r = ?key \<and> jb_status r \<in> set WAITING_STATES) (map ?close xs) =
      filter (\<lambda>r. active r \<and> jb_key r = ?key) xs" if "set xs \<subseteq> set mid" for xs
    using that
  proof (induction xs)
    case (Cons x xs)
    then show ?case using kinds [of x]
      by (cases "jb_status x") (auto simp: WAITING_STATES_def active_def ACTIVE_STATES_def)
  qed simp
  from this [of mid]
  have "filter (\<lambda>r. jb_key r = ?key \<and> jb_status r \<in> set WAITING_STATES) (queue_choice now i guild user saved rows) =
      filter (\<lambda>r. active r \<and> jb_key r = jb_key h) mid"
    unfolding queue_choice_def Let_def update_rows_def h(3) mid_def [symmetric] by simp
  moreover have "length (filter (\<lambda>r. active r \<and> jb_key r = jb_key h) mid) = 1" by (rule one_active [OF index h(1,2)])
  moreover have "h \<in> set (filter (\<lambda>r. active r \<and> jb_key r = jb_key h) mid)" using h(1,2) by simp
  ultimately have "filter (\<lambda>r. jb_key r = ?key \<and> jb_status r \<in> set WAITING_STATES) (queue_choice now i guild user saved rows) = [h]"
    by (metis (no_types, lifting) length_0_conv length_Suc_conv One_nat_def empty_iff empty_set set_ConsD)
  then show ?thesis using h(4,5) by blast
qed

text \<open>A member whose change was parked while Discord changes were paused.\<close>

definition parked_choice :: job where
  "parked_choice = (new_job 1 ''a'' ''roles.self'' (roleChoiceKey ''7'' ''8'') (JsonObject []) (Some ''7'') (Some ''8'') 0)
     \<lparr>jb_status := RowDisabled\<rparr>"

theorem saved_choice_waits_once_witness:
  "\<exists>r. filter (\<lambda>r. jb_key r = roleChoiceKey ''7'' ''8'' \<and> jb_status r \<in> set WAITING_STATES)
      (queue_choice 5 ''b'' ''7'' ''8'' (raid_choice, ''t'') [parked_choice]) = [r] \<and>
    jb_payload r = role_choice_json (fst (raid_choice, ''t'')) (snd (raid_choice, ''t'')) \<and>
    jb_status r \<in> {RowQueued, RowRunning}"
  by (rule saved_choice_waits_once)
    (simp_all add: parked_choice_def index_ok_def active_def ACTIVE_STATES_def new_job_def forget_self_role_choice_def)

end
