(* ===== verification/JobWorker.thy ===== *)
theory JobWorker
  imports JobQueue
begin

text \<open>
  The queue's workers, \<open>Queue\<close> in \<open>src/jobs/queue.ts\<close>: claiming a row under a lease, the guard, the
  heartbeat, what a finished attempt writes, and how a caught error is classified. The workers, every
  other writer of the table under \<open>src/\<close> and the clock are a step relation: the transactions of \<open>queue.ts\<close>, and
  the statements that \<open>modmail.ts\<close>, \<open>self-roles.ts\<close> and \<open>synchronization.ts\<close> run on \<open>jobs\<close> themselves. A
  worker that dies leaves its row to be reclaimed. A write whose acknowledgement is lost after it was committed, and the
  column \<open>message_id\<close> that a delivery fills in, are not modelled.
\<close>

section \<open>Classifying a failed attempt\<close>

definition MAX_ATTEMPTS :: nat where
  "MAX_ATTEMPTS = 8"

definition STALE_WAIT_MS :: int where
  "STALE_WAIT_MS = 10 * 60 * 1000"

datatype job_level = JobDebug | JobInfo | JobWarn | JobError

datatype written_status = Written job_status | Unchanged

datatype job_category =
    CategoryWait | CategoryLease | CategoryGone | CategoryBlocked | CategoryDisabled | CategoryRetry | CategoryFailed

datatype job_source = SourceFailure | SourceDiscord nat | SourceError string

record job_outcome =
  jo_code :: job_code
  jo_status :: written_status
  jo_waiting :: bool
  jo_delay :: int
  jo_diagnostic :: job_diagnostic
  jo_category :: job_category
  jo_source :: job_source
  jo_level :: job_level

fun job_code_of :: "thrown \<Rightarrow> job_code" where
  "job_code_of (ThrownFailure f) = CatalogCode (f_code f)"
| "job_code_of (ThrownUncatalogued f) = OtherCode"
| "job_code_of (DiscordAPIError _ code _) =
     (if code \<in> DISCORD_BLOCKED_CODES then CatalogCode F_blocked
      else if code \<in> {10004, 10007, 10013} then GoneCode
      else CatalogCode F_transient)"
| "job_code_of _ = CatalogCode F_transient"

definition job_waits :: "job_code \<Rightarrow> bool" where
  "job_waits code \<longleftrightarrow> (case code of CatalogCode c \<Rightarrow> c \<in> WAITING_CODES | _ \<Rightarrow> False)"

definition job_written :: "job_code \<Rightarrow> nat \<Rightarrow> written_status" where
  "job_written code attempts =
     (if code = CatalogCode F_lease_lost then Unchanged
      else if job_waits code then Written RowQueued
      else if code = CatalogCode F_blocked then Written RowBlocked
      else if code = CatalogCode F_disabled then Written RowDisabled
      else if code = GoneCode then Written RowSucceeded
      else if code = CatalogCode F_dm_blocked \<or> code = CatalogCode F_invalid_job \<or> attempts \<ge> MAX_ATTEMPTS
      then Written RowFailed
      else Written RowQueued)"

fun retry_after :: "thrown \<Rightarrow> nat" where
  "retry_after (ThrownFailure f) = f_retry_after f"
| "retry_after (ThrownUncatalogued f) = f_retry_after f"
| "retry_after _ = 0"

text \<open>In milliseconds; \<open>jitter\<close> is what \<open>Math.random() * 5\<close> seconds came to.\<close>

definition job_delay :: "thrown \<Rightarrow> nat \<Rightarrow> int \<Rightarrow> int" where
  "job_delay e attempts jitter =
     (if job_code_of e = CatalogCode F_lease_lost then 0
      else max (1000 * int (retry_after e))
             (if job_waits (job_code_of e) then 1000 else min 3600000 (1000 * 2 ^ attempts + jitter)))"

definition job_diagnostic_of :: "thrown \<Rightarrow> job_diagnostic" where
  "job_diagnostic_of e =
     (case e of
        ThrownFailure f \<Rightarrow> FailureText (job_code_of e) (f_message f)
      | ThrownUncatalogued f \<Rightarrow> FailureText (job_code_of e) (f_message f)
      | _ \<Rightarrow> if job_code_of e = CatalogCode F_blocked then BlockedGuidance else BareCode (job_code_of e))"

definition job_category_of :: "job_code \<Rightarrow> written_status \<Rightarrow> job_category" where
  "job_category_of code status =
     (if code = CatalogCode F_lease_lost then CategoryLease
      else if job_waits code then CategoryWait
      else if status = Written RowSucceeded then CategoryGone
      else if status = Written RowBlocked then CategoryBlocked
      else if status = Written RowDisabled then CategoryDisabled
      else if status = Written RowFailed then CategoryFailed
      else CategoryRetry)"

definition job_level_of :: "job_code \<Rightarrow> job_category \<Rightarrow> int \<Rightarrow> job_level" where
  "job_level_of code category waitingMs =
     (if category = CategoryLease then JobWarn
      else if category = CategoryWait then (if waitingMs > STALE_WAIT_MS then JobWarn else JobDebug)
      else if category = CategoryGone \<or> code = CatalogCode F_dm_blocked then JobInfo
      else if category = CategoryFailed then JobError
      else JobWarn)"

fun job_source_of :: "thrown \<Rightarrow> job_source" where
  "job_source_of (ThrownFailure _) = SourceFailure"
| "job_source_of (ThrownUncatalogued _) = SourceFailure"
| "job_source_of (DiscordAPIError _ code _) = SourceDiscord code"
| "job_source_of e = SourceError (error_name e)"

definition jobOutcome :: "thrown \<Rightarrow> nat \<Rightarrow> int \<Rightarrow> int \<Rightarrow> job_outcome" where
  "jobOutcome e attempts waitingMs jitter =
     (let code = job_code_of e; status = job_written code attempts; category = job_category_of code status
      in \<lparr>jo_code = code, jo_status = status, jo_waiting = job_waits code, jo_delay = job_delay e attempts jitter,
          jo_diagnostic = job_diagnostic_of e, jo_category = category, jo_source = job_source_of e,
          jo_level = job_level_of code category waitingMs\<rparr>)"

text \<open>Non-negative elapsed milliseconds.\<close>

definition since :: "int \<Rightarrow> int \<Rightarrow> int" where
  "since instant now = max 0 (now - instant)"

section \<open>Claiming and writing\<close>

definition LEASE_MS :: int where
  "LEASE_MS = 45000"

definition claimable :: "int \<Rightarrow> (ident \<Rightarrow> bool) \<Rightarrow> job \<Rightarrow> bool" where
  "claimable now guildActive r \<longleftrightarrow>
     ((jb_status r = RowQueued \<and> jb_due r \<le> now) \<or>
      (jb_status r = RowRunning \<and> (case jb_lease_until r of Some u \<Rightarrow> u < now | None \<Rightarrow> False))) \<and>
     (case jb_guild r of None \<Rightarrow> True | Some g \<Rightarrow> guildActive g)"

definition claimed :: "int \<Rightarrow> ident \<Rightarrow> job \<Rightarrow> job" where
  "claimed now token r =
     r\<lparr>jb_status := RowRunning, jb_lease_token := Some token, jb_lease_until := Some (now + LEASE_MS),
       jb_attempts := jb_attempts r + 1\<rparr>"

text \<open>\<open>locked\<close> are the rows that another transaction holds, which SKIP LOCKED passes over.\<close>

definition claim ::
  "int \<Rightarrow> ident \<Rightarrow> (ident \<Rightarrow> bool) \<Rightarrow> ident set \<Rightarrow> job list \<Rightarrow> (job \<times> job list) option" where
  "claim now token guildActive locked rows =
     (case sort_by (by_key jb_due) (filter (\<lambda>r. claimable now guildActive r \<and> jb_id r \<notin> locked) rows) of
        [] \<Rightarrow> None
      | r # _ \<Rightarrow> Some (claimed now token r, update_rows (\<lambda>x. jb_id x = jb_id r) (claimed now token) rows))"

definition is_reconcile :: "job \<Rightarrow> bool" where
  "is_reconcile j \<longleftrightarrow> take 10 (jb_kind j) = ''reconcile.''"

definition lease_live :: "int \<Rightarrow> job \<Rightarrow> bool" where
  "lease_live now r \<longleftrightarrow> (case jb_lease_until r of Some u \<Rightarrow> u > now | None \<Rightarrow> False)"

definition guard :: "int \<Rightarrow> job \<Rightarrow> job list \<Rightarrow> failure + unit" where
  "guard now j rows =
     (case find (\<lambda>r. jb_id r = jb_id j) rows of
        None \<Rightarrow> Inl (mk_failure F_lease_lost (Literal
          ''Worker lease expired or was reclaimed; another worker owns this job.''))
      | Some r \<Rightarrow>
          if jb_lease_token r \<noteq> jb_lease_token j \<or> \<not> lease_live now r \<or> jb_status r \<noteq> RowRunning
          then Inl (mk_failure F_lease_lost (Literal
            ''Worker lease expired or was reclaimed; another worker owns this job.''))
          else if is_reconcile j \<and> jb_generation r \<noteq> jb_generation j
          then Inl (mk_failure F_superseded (GenerationChanged (jb_generation j) (jb_generation r)))
          else Inr ())"

definition owned :: "job \<Rightarrow> job \<Rightarrow> bool" where
  "owned j r \<longleftrightarrow> jb_id r = jb_id j \<and> jb_lease_token r = jb_lease_token j"

definition heartbeat :: "int \<Rightarrow> job \<Rightarrow> job list \<Rightarrow> job list" where
  "heartbeat now j =
     update_rows (\<lambda>r. owned j r \<and> lease_live now r) (\<lambda>r. r\<lparr>jb_lease_until := Some (now + LEASE_MS)\<rparr>)"

definition stored_result :: "json \<Rightarrow> job \<Rightarrow> json" where
  "stored_result val r =
     (case val of JsonObject fs \<Rightarrow> JsonObject (json_join fs (applied_evidence (jb_result r))) | _ \<Rightarrow> val)"

definition completed :: "int \<Rightarrow> job \<Rightarrow> json \<Rightarrow> job \<Rightarrow> job" where
  "completed now j val r =
     r\<lparr>jb_status := (if jb_generation r = jb_generation j then RowSucceeded else RowQueued),
       jb_attempts := (if jb_generation r = jb_generation j then jb_attempts r else 0),
       jb_completed := Some now, jb_lease_until := None, jb_result := Some (stored_result val r),
       jb_error := None\<rparr>"

definition complete :: "int \<Rightarrow> job \<Rightarrow> json \<Rightarrow> job list \<Rightarrow> job list" where
  "complete now j val = update_rows (owned j) (completed now j val)"

definition failed_row :: "int \<Rightarrow> job_outcome \<Rightarrow> job_status \<Rightarrow> job \<Rightarrow> job" where
  "failed_row now out status r =
     r\<lparr>jb_status := status, jb_due := now + jo_delay out,
       jb_completed := (if status = RowFailed \<or> status = RowSucceeded then Some now else None),
       jb_lease_until := None, jb_error := Some (jo_diagnostic out),
       jb_attempts := (if jo_waiting out then jb_attempts r - 1 else jb_attempts r)\<rparr>"

definition record_failure :: "int \<Rightarrow> job \<Rightarrow> job_outcome \<Rightarrow> job list \<Rightarrow> job list" where
  "record_failure now j out rows =
     (case jo_status out of
        Unchanged \<Rightarrow> rows
      | Written status \<Rightarrow> update_rows (owned j) (failed_row now out status) rows)"

text \<open>The in-memory start of each row's run of waits, from which a stall's level follows.\<close>

definition perform_outcome ::
  "int \<Rightarrow> int \<Rightarrow> job \<Rightarrow> thrown \<Rightarrow> int \<Rightarrow> (ident \<rightharpoonup> int) \<Rightarrow> job_outcome \<times> (ident \<rightharpoonup> int)" where
  "perform_outcome started now j e jitter waitingSince =
     (let first = (case waitingSince (jb_id j) of Some t \<Rightarrow> t | None \<Rightarrow> started);
          out = jobOutcome e (jb_attempts j) (now - first) jitter
      in (out, if jo_category out = CategoryWait then waitingSince(jb_id j \<mapsto> first)
               else waitingSince(jb_id j := None)))"

section \<open>Statements outside the queue\<close>

text \<open>\<open>notify\<close> in \<open>modmail.ts\<close>: a running notification covers a later event with a new generation.\<close>

definition rerun_running :: "int \<Rightarrow> string \<Rightarrow> json \<Rightarrow> int \<Rightarrow> job list \<Rightarrow> job list" where
  "rerun_running now key payload delay =
     update_rows (\<lambda>r. jb_key r = key \<and> jb_status r = RowRunning)
       (\<lambda>r. r\<lparr>jb_generation := jb_generation r + 1, jb_due := now + 1000 * max delay 600, jb_payload := payload\<rparr>)"

text \<open>\<open>SelfRoles.choose\<close>: the parked choice that a new one replaces.\<close>

definition supersede_choice :: "int \<Rightarrow> string \<Rightarrow> job list \<Rightarrow> job list" where
  "supersede_choice now key =
     update_rows (\<lambda>r. jb_kind r = ''roles.self'' \<and> jb_key r = key \<and> jb_status r = RowDisabled)
       (closed now (JsonObject [(''skipped'', JsonText ''superseded'')]))"

text \<open>
  The periodic pass of \<open>synchronization.ts\<close>. \<open>savedAt\<close> is the time PostgreSQL reads from a payload that
  has a well-formed one.
\<close>

definition DAY_MS :: int where
  "DAY_MS = 86400000"

definition expired_choice :: "int \<Rightarrow> (json \<Rightarrow> int option) \<Rightarrow> job \<Rightarrow> bool" where
  "expired_choice now savedAt r \<longleftrightarrow>
     jb_kind r = ''roles.self'' \<and>
     (jb_status r \<in> {RowQueued, RowBlocked, RowDisabled} \<or>
      jb_status r = RowRunning \<and> (case jb_lease_until r of None \<Rightarrow> True | Some u \<Rightarrow> u < now)) \<and>
     (case savedAt (jb_payload r) of Some t \<Rightarrow> t | None \<Rightarrow> jb_created r) < now - 7 * DAY_MS"

definition expire_choices :: "int \<Rightarrow> (json \<Rightarrow> int option) \<Rightarrow> job list \<Rightarrow> job list" where
  "expire_choices now savedAt =
     update_rows (expired_choice now savedAt) (closed now (JsonObject [(''skipped'', JsonText ''expired'')]))"

definition prune_choices :: "int \<Rightarrow> job list \<Rightarrow> job list" where
  "prune_choices now =
     filter (\<lambda>r. \<not> (jb_kind r = ''roles.self'' \<and> jb_status r \<in> {RowSucceeded, RowFailed} \<and>
       (case jb_completed r of None \<Rightarrow> False | Some t \<Rightarrow> t < now - 30 * DAY_MS)))"

definition retry_blocked :: "int \<Rightarrow> job list \<Rightarrow> job list" where
  "retry_blocked now =
     update_rows (\<lambda>r. jb_status r = RowBlocked \<and> jb_due r < now - 300000)
       (\<lambda>r. r\<lparr>jb_status := RowQueued, jb_due := now + 300000, jb_attempts := 0\<rparr>)"

text \<open>The evidence a reconciliation stores before its attempt ends.\<close>

definition record_evidence :: "int \<Rightarrow> job \<Rightarrow> json \<Rightarrow> job list \<Rightarrow> job list" where
  "record_evidence now j evidence =
     update_rows (\<lambda>r. owned j r \<and> lease_live now r) (\<lambda>r. r\<lparr>jb_result := Some evidence\<rparr>)"

section \<open>Workers and the other writers\<close>

datatype flight = Working | Publishing json

record queue_world =
  qw_now :: int
  qw_rows :: "job list"
  qw_links :: "(ident \<times> ident) list"
  qw_tokens :: "ident set"
  qw_flights :: "(job \<times> flight) list"

definition queue_start :: queue_world where
  "queue_start = \<lparr>qw_now = 0, qw_rows = [], qw_links = [], qw_tokens = {}, qw_flights = []\<rparr>"

text \<open>
  One step: the clock, a transaction of another writer, or a worker's next transaction. The guard
  before the last write and the write itself are two transactions, between which anything may happen. A
  write that would break the index is rejected whole: a rejected completion is an error of the attempt, which then
  fails; a rejected failure write leaves the row as it is.
\<close>

inductive queue_step :: "queue_world \<Rightarrow> queue_world \<Rightarrow> bool" where
  Tick: "now \<ge> qw_now w \<Longrightarrow> queue_step w (w\<lparr>qw_now := now\<rparr>)"
| Enqueues: "i \<notin> jb_id ` set (qw_rows w) \<Longrightarrow>
    queue_step w (w\<lparr>qw_rows := snd (enqueue (qw_now w) i kind key payload g user delay (qw_rows w))\<rparr>)"
| Schedules: "i \<notin> jb_id ` set (qw_rows w) \<Longrightarrow>
    queue_step w (w\<lparr>qw_rows := snd (scheduleJob (qw_now w) i kind key payload g delay (qw_rows w))\<rparr>)"
| Closes: "queue_step w (w\<lparr>qw_rows := closeUnstarted (qw_now w) key reason (qw_rows w)\<rparr>)"
| Requeues: "parked_states statuses \<Longrightarrow>
    supersedeAndRequeue (qw_now w) guilds statuses (\<lambda>rows. rows) \<lparr>qd_rows = qw_rows w, qd_links = qw_links w\<rparr> =
      Requeued ids d \<Longrightarrow>
    queue_step w (w\<lparr>qw_rows := qd_rows d, qw_links := qd_links d\<rparr>)"
| Retries: "retryJob (qw_now w) g i (qw_rows w) = Inr rows \<Longrightarrow> queue_step w (w\<lparr>qw_rows := rows\<rparr>)"
| Reruns: "queue_step w (w\<lparr>qw_rows := rerun_running (qw_now w) key payload delay (qw_rows w)\<rparr>)"
| Supersedes: "queue_step w (w\<lparr>qw_rows := supersede_choice (qw_now w) key (qw_rows w)\<rparr>)"
| Expires: "queue_step w (w\<lparr>qw_rows := expire_choices (qw_now w) savedAt (qw_rows w)\<rparr>)"
| Prunes: "queue_step w (w\<lparr>qw_rows := prune_choices (qw_now w) (qw_rows w)\<rparr>)"
| Unblocks: "queue_step w (w\<lparr>qw_rows := retry_blocked (qw_now w) (qw_rows w)\<rparr>)"
| Records: "(j, f) \<in> set (qw_flights w) \<Longrightarrow>
    queue_step w (w\<lparr>qw_rows := record_evidence (qw_now w) j evidence (qw_rows w)\<rparr>)"
| Claims: "token \<notin> qw_tokens w \<Longrightarrow> claim (qw_now w) token guildActive locked (qw_rows w) = Some (j, rows) \<Longrightarrow>
    queue_step w (w\<lparr>qw_rows := rows, qw_tokens := insert token (qw_tokens w),
      qw_flights := (j, Working) # qw_flights w\<rparr>)"
| Beats: "(j, f) \<in> set (qw_flights w) \<Longrightarrow>
    queue_step w (w\<lparr>qw_rows := heartbeat (qw_now w) j (qw_rows w)\<rparr>)"
| Passes: "(j, Working) \<in> set (qw_flights w) \<Longrightarrow> guard (qw_now w) j (qw_rows w) = Inr () \<Longrightarrow>
    queue_step w (w\<lparr>qw_flights := (j, Publishing val) # remove1 (j, Working) (qw_flights w)\<rparr>)"
| Publishes: "(j, Publishing val) \<in> set (qw_flights w) \<Longrightarrow> index_ok (complete (qw_now w) j val (qw_rows w)) \<Longrightarrow>
    queue_step w (w\<lparr>qw_rows := complete (qw_now w) j val (qw_rows w),
      qw_flights := remove1 (j, Publishing val) (qw_flights w)\<rparr>)"
| Fails: "(j, f) \<in> set (qw_flights w) \<Longrightarrow>
    rows = record_failure (qw_now w) j (jobOutcome e (jb_attempts j) waited jitter) (qw_rows w) \<Longrightarrow>
    queue_step w (w\<lparr>qw_rows := (if index_ok rows then rows else qw_rows w),
      qw_flights := remove1 (j, f) (qw_flights w)\<rparr>)"
| Dies: "(j, f) \<in> set (qw_flights w) \<Longrightarrow>
    queue_step w (w\<lparr>qw_flights := remove1 (j, f) (qw_flights w)\<rparr>)"

inductive queue_reachable :: "queue_world \<Rightarrow> bool" where
  Start: "queue_reachable queue_start"
| Step: "queue_reachable w \<Longrightarrow> queue_step w w' \<Longrightarrow> queue_reachable w'"

inductive_cases queue_stepE: "queue_step w w'"

section \<open>The invariant\<close>

text \<open>
  What a flight knows of the row it still owns: it runs what the flight runs, or newer input, or it is a role choice
  that was closed as expired, which takes no token away.
\<close>

definition running_for :: "job \<Rightarrow> job \<Rightarrow> bool" where
  "running_for j r \<longleftrightarrow> jb_status r = RowRunning \<and> jb_generation j \<le> jb_generation r \<and>
     (jb_generation r = jb_generation j \<longrightarrow> jb_payload r = jb_payload j)"

definition ended_choice :: "job \<Rightarrow> bool" where
  "ended_choice r \<longleftrightarrow> jb_kind r = ''roles.self'' \<and> jb_status r = RowSucceeded"

definition flight_ok :: "job list \<Rightarrow> job \<Rightarrow> bool" where
  "flight_ok rows j \<longleftrightarrow> (\<forall>r \<in> set rows. owned j r \<longrightarrow> running_for j r \<or> ended_choice r)"

definition tokens_ok :: "ident set \<Rightarrow> job list \<Rightarrow> bool" where
  "tokens_ok used rows \<longleftrightarrow> (\<forall>r \<in> set rows. \<forall>t. jb_lease_token r = Some t \<longrightarrow> t \<in> used)"

definition flights_ok :: "ident set \<Rightarrow> job list \<Rightarrow> (job \<times> flight) list \<Rightarrow> bool" where
  "flights_ok used rows fs \<longleftrightarrow>
     distinct (map (jb_lease_token \<circ> fst) fs) \<and>
     (\<forall>(j, f) \<in> set fs. (\<exists>t \<in> used. jb_lease_token j = Some t) \<and> flight_ok rows j)"

text \<open>The trigger leaves no ended role choice a payload.\<close>

definition forgotten :: "job list \<Rightarrow> bool" where
  "forgotten rows \<longleftrightarrow>
     (\<forall>r \<in> set rows. jb_kind r = ''roles.self'' \<and> jb_status r \<in> {RowSucceeded, RowFailed} \<longrightarrow> jb_payload r = JsonObject [])"

definition queue_ok :: "queue_world \<Rightarrow> bool" where
  "queue_ok w \<longleftrightarrow>
     ids_ok (qw_rows w) \<and> index_ok (qw_rows w) \<and> forgotten (qw_rows w) \<and> tokens_ok (qw_tokens w) (qw_rows w) \<and>
     flights_ok (qw_tokens w) (qw_rows w) (qw_flights w)"

text \<open>
  A statement of another writer: it keeps IDs, kinds and tokens. Where a row is running it keeps it running and
  changes its payload only with its generation, or ends it as a role choice that expired; and it leaves an ended one ended.
\<close>

definition row_kept :: "job \<Rightarrow> job \<Rightarrow> bool" where
  "row_kept r r' \<longleftrightarrow>
     jb_id r' = jb_id r \<and> jb_lease_token r' = jb_lease_token r \<and>
     (jb_status r = RowRunning \<longrightarrow> jb_status r' = RowRunning \<and>
        (jb_generation r' = jb_generation r \<and> jb_payload r' = jb_payload r \<or> jb_generation r < jb_generation r') \<or>
        ended_choice r') \<and>
     (ended_choice r \<longrightarrow> ended_choice r')"

definition writer_ok :: "job list \<Rightarrow> job list \<Rightarrow> bool" where
  "writer_ok rows rows' \<longleftrightarrow>
     (\<forall>r' \<in> set rows'. jb_lease_token r' = None \<or> (\<exists>r \<in> set rows. row_kept r r'))"

lemma writer_tokens: "writer_ok rows rows' \<Longrightarrow> tokens_ok used rows \<Longrightarrow> tokens_ok used rows'"
  unfolding writer_ok_def tokens_ok_def row_kept_def by (metis option.distinct(1))

lemma kept_running: "row_kept r r' \<Longrightarrow> running_for j r \<Longrightarrow> running_for j r' \<or> ended_choice r'"
  by (auto simp: row_kept_def running_for_def)

lemma writer_flight:
  assumes "writer_ok rows rows'" "flight_ok rows j" "jb_lease_token j \<noteq> None"
  shows "flight_ok rows' j"
  unfolding flight_ok_def
proof (intro ballI impI)
  fix r'
  assume r': "r' \<in> set rows'" "owned j r'"
  then obtain r where r: "r \<in> set rows" "row_kept r r'"
    using assms(1,3) by (auto simp: writer_ok_def owned_def)
  then have "owned j r" using r'(2) by (simp add: owned_def row_kept_def)
  then have "running_for j r \<or> ended_choice r" using assms(2) r(1) by (auto simp: flight_ok_def)
  then show "running_for j r' \<or> ended_choice r'" using kept_running [OF r(2)] r(2) by (auto simp: row_kept_def)
qed

lemma writer_flights: "writer_ok rows rows' \<Longrightarrow> flights_ok used rows fs \<Longrightarrow> flights_ok used rows' fs"
  unfolding flights_ok_def using writer_flight by fastforce

lemma row_kept_refl: "row_kept r r"
  by (simp add: row_kept_def)

lemma update_rows_writer:
  assumes "\<And>r. r \<in> set rows \<Longrightarrow> p r \<Longrightarrow> row_kept r (forget_self_role_choice (f r))"
  shows "writer_ok rows (update_rows p f rows)"
  unfolding writer_ok_def
proof
  fix r'
  assume "r' \<in> set (update_rows p f rows)"
  then obtain r where r: "r \<in> set rows" "r' = (if p r then forget_self_role_choice (f r) else r)"
    by (auto simp: update_rows_def)
  have "row_kept r r'" using assms [OF r(1)] r(2) row_kept_refl by simp
  with r(1) show "jb_lease_token r' = None \<or> (\<exists>r \<in> set rows. row_kept r r')" by blast
qed

lemma row_kept_stopped: "jb_id r' = jb_id r \<Longrightarrow> jb_lease_token r' = jb_lease_token r \<Longrightarrow>
    jb_status r \<noteq> RowRunning \<Longrightarrow> jb_status r \<noteq> RowSucceeded \<Longrightarrow> row_kept r r'"
  by (simp add: row_kept_def ended_choice_def)

lemma writer_append:
  "writer_ok rows rows' \<Longrightarrow> jb_lease_token x = None \<Longrightarrow> writer_ok rows (rows' @ [x])"
  by (auto simp: writer_ok_def)

lemma writer_refl: "writer_ok rows rows"
  unfolding writer_ok_def using row_kept_refl by blast

lemma coalesce_kept: "row_kept r (forget_self_role_choice (coalesce payload due r))"
  by (simp add: row_kept_def ended_choice_def) (simp add: coalesce_def)

lemma enqueue_writer: "writer_ok rows (snd (enqueue now i kind key payload g user delay rows))"
  by (simp add: enqueue_def writer_append writer_refl update_rows_writer coalesce_kept split: option.split)

lemma scheduleJob_writer: "writer_ok rows (snd (scheduleJob now i kind key payload g delay rows))"
  by (simp add: scheduleJob_def writer_append writer_refl)

lemma closeUnstarted_writer: "writer_ok rows (closeUnstarted now key reason rows)"
  unfolding closeUnstarted_def by (rule update_rows_writer) (auto intro!: row_kept_stopped)

lemma requeue_writer:
  assumes "parked_states statuses" "supersedeAndRequeue now guilds statuses (\<lambda>rows. rows) d = Requeued ids d'"
  shows "writer_ok (qd_rows d) (qd_rows d')" "map jb_id (qd_rows d') = map jb_id (qd_rows d)" "index_ok (qd_rows d')"
proof -
  have rows: "qd_rows d' = map (pass_row now guilds statuses (qd_rows d)) (qd_rows d)"
    and index: "index_ok (qd_rows d')"
    using assms(2) pass_rows [OF assms(1), of now guilds "qd_rows d"]
    by (auto simp: supersedeAndRequeue_def Let_def split: if_splits)
  show "index_ok (qd_rows d')" by (rule index)
  show "map jb_id (qd_rows d') = map jb_id (qd_rows d)" by (simp add: rows)
  have "row_kept r (pass_row now guilds statuses (qd_rows d) r)" for r
  proof (cases "parked guilds statuses r")
    case True
    then have "jb_status r \<noteq> RowRunning" "jb_status r \<noteq> RowSucceeded" using assms(1) by (auto simp: parked_def)
    then show ?thesis
      by (intro row_kept_stopped) (auto simp: pass_row_def superseded_row_def requeued_row_def)
  next
    case False
    then have "pass_row now guilds statuses (qd_rows d) r = r" by (simp add: pass_row_def loses_def)
    then show ?thesis by (simp add: row_kept_refl)
  qed
  then show "writer_ok (qd_rows d) (qd_rows d')" by (auto simp: writer_ok_def rows)
qed

lemma retryJob_writer:
  assumes "ids_ok rows" "retryJob now g i rows = Inr rows'"
  shows "writer_ok rows rows'" "map jb_id rows' = map jb_id rows"
proof -
  let ?p = "\<lambda>r. jb_id r = i \<and> jb_guild r = Some g \<and> jb_status r \<in> {RowBlocked, RowFailed, RowDisabled}"
  let ?f = "\<lambda>r. r\<lparr>jb_status := RowQueued, jb_attempts := 0, jb_due := now, jb_error := None, jb_completed := None\<rparr>"
  obtain target where found: "find ?p rows = Some target" and rows': "rows' = update_rows (\<lambda>r. jb_id r = i) ?f rows"
    using assms(2) by (auto simp: retryJob_def split: option.splits)
  have t: "target \<in> set rows" "?p target" using found by (auto simp: find_Some_iff)
  have "r = target" if "r \<in> set rows" "jb_id r = i" for r
    by (rule ids_okD [OF assms(1) that(1) t(1)]) (use that(2) t(2) in simp)
  then show "writer_ok rows rows'"
    unfolding rows' using t(2) by (intro update_rows_writer row_kept_stopped) auto
  show "map jb_id rows' = map jb_id rows" unfolding rows' by (rule update_rows_ids) simp
qed

lemma enqueue_ids:
  assumes "ids_ok rows" "i \<notin> jb_id ` set rows"
  shows "ids_ok (snd (enqueue now i kind key payload g user delay rows))"
    "ids_ok (snd (scheduleJob now i kind key payload g delay rows))"
  using assms by (auto simp: enqueue_def scheduleJob_def ids_ok_def update_rows_ids split: option.split)

section \<open>The workers' own writes\<close>

lemma claim_facts:
  assumes "claim now token guildActive locked rows = Some (j, rows')"
  obtains r where "r \<in> set rows" "claimable now guildActive r" "j = claimed now token r"
    "rows' = update_rows (\<lambda>x. jb_id x = jb_id r) (claimed now token) rows"
    "\<forall>x \<in> set rows. claimable now guildActive x \<and> jb_id x \<notin> locked \<longrightarrow> jb_due r \<le> jb_due x"
proof -
  let ?xs = "filter (\<lambda>r. claimable now guildActive r \<and> jb_id r \<notin> locked) rows"
  obtain r rest where s: "sort_by (by_key jb_due) ?xs = r # rest"
    and j: "j = claimed now token r" "rows' = update_rows (\<lambda>x. jb_id x = jb_id r) (claimed now token) rows"
    using assms by (auto simp: claim_def split: list.splits)
  have set: "set (r # rest) = set ?xs" using set_sort_by [of "by_key jb_due" ?xs] unfolding s .
  then have "r \<in> set rows" "claimable now guildActive r" by auto
  moreover have "jb_due r \<le> jb_due x" if "x \<in> set rows" "claimable now guildActive x" "jb_id x \<notin> locked" for x
    using by_key_comparator.sorted_sort_by [of jb_due ?xs] set that unfolding s by (auto simp: by_key_def)
  ultimately show thesis using that j by blast
qed

lemma in_remove1: "x \<in> set (remove1 y xs) \<Longrightarrow> x \<in> set xs"
  by (rule subsetD [OF set_remove1_subset])

lemma flights_ok_remove:
  "flights_ok used rows fs \<Longrightarrow> flights_ok used rows (remove1 x fs)"
proof -
  assume ok: "flights_ok used rows fs"
  have "distinct (map f xs) \<Longrightarrow> distinct (map f (remove1 x xs))" for f :: "job \<times> flight \<Rightarrow> ident option" and xs
  proof (induction xs)
    case (Cons y ys)
    have "set (remove1 x ys) \<subseteq> set ys" by (rule set_remove1_subset)
    with Cons show ?case by auto
  qed simp
  with ok show ?thesis unfolding flights_ok_def using in_remove1 [of _ x fs] by blast
qed

lemma flights_ok_other:
  assumes "flights_ok used rows fs" "(j, f) \<in> set fs" "(k, g) \<in> set (remove1 (j, f) fs)"
  shows "jb_lease_token k \<noteq> jb_lease_token j"
proof
  assume "jb_lease_token k = jb_lease_token j"
  moreover have "distinct fs" "inj_on (jb_lease_token \<circ> fst) (set fs)"
    using assms(1) by (auto simp: flights_ok_def distinct_map)
  moreover have "(k, g) \<in> set fs" by (rule in_remove1 [OF assms(3)])
  ultimately have "(k, g) = (j, f)"
    using assms(2) inj_onD [of "jb_lease_token \<circ> fst" "set fs" "(k, g)" "(j, f)"] by simp
  then show False using assms(3) \<open>distinct fs\<close> by simp
qed

text \<open>A write to the row a flight owns concerns no other flight.\<close>

lemma owned_update:
  assumes flights: "flights_ok used rows fs" and j: "(j, f) \<in> set fs"
    and f: "\<And>r. jb_id (g r) = jb_id r \<and> jb_lease_token (g r) = jb_lease_token r"
  shows "flights_ok used (update_rows (owned j) g rows) (remove1 (j, f) fs)"
proof -
  have "flight_ok (update_rows (owned j) g rows) k" if k: "(k, h) \<in> set (remove1 (j, f) fs)" for k h
    unfolding flight_ok_def
  proof (intro ballI impI)
    fix r'
    assume "r' \<in> set (update_rows (owned j) g rows)" "owned k r'"
    then obtain r where r: "r \<in> set rows" "r' = (if owned j r then forget_self_role_choice (g r) else r)"
      by (auto simp: update_rows_def)
    have "owned k r" using \<open>owned k r'\<close> r(2) f by (auto simp: owned_def split: if_splits)
    moreover have "jb_lease_token k \<noteq> jb_lease_token j" by (rule flights_ok_other [OF flights j k])
    ultimately have "r' = r" using r(2) by (auto simp: owned_def)
    moreover have "flight_ok rows k" using flights in_remove1 [OF k] by (auto simp: flights_ok_def)
    ultimately show "running_for k r' \<or> ended_choice r'"
      using r(1) \<open>owned k r\<close> by (auto simp: flight_ok_def)
  qed
  then show ?thesis
    using flights_ok_remove [OF flights, of "(j, f)"] by (auto simp: flights_ok_def)
qed

lemma owned_tokens:
  assumes "tokens_ok used rows" "\<And>r. jb_lease_token (g r) = jb_lease_token r"
  shows "tokens_ok used (update_rows p g rows)"
  using assms by (auto simp: tokens_ok_def update_rows_def)

lemma completed_simps [simp]:
  "jb_id (completed now j val r) = jb_id r" "jb_key (completed now j val r) = jb_key r"
  "jb_lease_token (completed now j val r) = jb_lease_token r"
  by (simp_all add: completed_def)

lemma failed_row_simps [simp]:
  "jb_id (failed_row now out st r) = jb_id r" "jb_key (failed_row now out st r) = jb_key r"
  "jb_lease_token (failed_row now out st r) = jb_lease_token r"
  by (simp_all add: failed_row_def)

lemma update_rows_forgotten: "forgotten rows \<Longrightarrow> forgotten (update_rows p f rows)"
  by (auto simp: forgotten_def update_rows_def forget_self_role_choice_def)

lemma new_job_forgotten: "forgotten rows \<Longrightarrow> forgotten (rows @ [new_job now i kind key payload guild user delay])"
  by (auto simp: forgotten_def)

lemma enqueue_forgotten:
  "forgotten rows \<Longrightarrow> forgotten (snd (enqueue now i kind key payload g user delay rows))"
  "forgotten rows \<Longrightarrow> forgotten (snd (scheduleJob now i kind key payload g delay rows))"
  by (simp_all add: enqueue_def scheduleJob_def update_rows_forgotten new_job_forgotten split: option.split)

lemma queue_ok_write:
  assumes ok: "queue_ok w" and j: "(j, f) \<in> set (qw_flights w)" and index: "index_ok (update_rows (owned j) g (qw_rows w))"
    and g: "\<And>r. jb_id (g r) = jb_id r \<and> jb_lease_token (g r) = jb_lease_token r"
  shows "queue_ok (w\<lparr>qw_rows := update_rows (owned j) g (qw_rows w), qw_flights := remove1 (j, f) (qw_flights w)\<rparr>)"
  using ok owned_update [OF _ j, of "qw_tokens w" "qw_rows w" g] owned_tokens [of "qw_tokens w" "qw_rows w" g "owned j"]
    index g update_rows_forgotten
  by (simp add: queue_ok_def update_rows_ids_ok)

lemma queue_ok_writer:
  assumes "queue_ok w" "writer_ok (qw_rows w) rows" "ids_ok rows" "index_ok rows" "forgotten rows"
  shows "queue_ok (w\<lparr>qw_rows := rows\<rparr>)"
  using assms writer_tokens writer_flights by (auto simp: queue_ok_def)

text \<open>A statement that updates rows in place, keeping what every writer keeps.\<close>

lemma queue_ok_update:
  assumes "queue_ok w" "\<And>r. r \<in> set (qw_rows w) \<Longrightarrow> p r \<Longrightarrow> row_kept r (forget_self_role_choice (f r))"
    "\<And>r. r \<in> set (qw_rows w) \<Longrightarrow> p r \<Longrightarrow> jb_key (f r) = jb_key r \<and> (active (f r) \<longrightarrow> active r)" "\<And>r. jb_id (f r) = jb_id r"
  shows "queue_ok (w\<lparr>qw_rows := update_rows p f (qw_rows w)\<rparr>)"
  using assms(1) by (intro queue_ok_writer update_rows_writer update_rows_index update_rows_forgotten)
    (use assms in \<open>simp_all add: queue_ok_def update_rows_ids_ok\<close>)

lemma claim_ok:
  assumes ok: "queue_ok w" and new: "token \<notin> qw_tokens w"
    and c: "claim now token guildActive locked (qw_rows w) = Some (j, rows)"
  shows "queue_ok (w\<lparr>qw_rows := rows, qw_tokens := insert token (qw_tokens w), qw_flights := (j, Working) # qw_flights w\<rparr>)"
proof -
  obtain r where r: "r \<in> set (qw_rows w)" "claimable now guildActive r" "j = claimed now token r"
    and rows: "rows = update_rows (\<lambda>x. jb_id x = jb_id r) (claimed now token) (qw_rows w)"
    by (rule claim_facts [OF c])
  have ids: "ids_ok (qw_rows w)" using ok by (simp add: queue_ok_def)
  have only: "x = r" if "x \<in> set (qw_rows w)" "jb_id x = jb_id r" for x by (rule ids_okD [OF ids that(1) r(1) that(2)])
  have active: "active r" using r(2) by (auto simp: claimable_def active_def ACTIVE_STATES_def)
  have "index_ok rows"
    unfolding rows by (rule update_rows_index) (use ok active only in \<open>auto simp: queue_ok_def claimed_def\<close>)
  moreover have "ids_ok rows" unfolding rows using ids by (simp add: update_rows_ids_ok claimed_def)
  moreover have "forgotten rows" unfolding rows using ok by (simp add: queue_ok_def update_rows_forgotten)
  moreover have "tokens_ok (insert token (qw_tokens w)) rows"
    using ok by (auto simp: queue_ok_def tokens_ok_def rows update_rows_def claimed_def)
  moreover have "flight_ok rows k" if k: "(k, f) \<in> set (qw_flights w)" for k f
  proof -
    obtain t where t: "jb_lease_token k = Some t" "t \<in> qw_tokens w" and fo: "flight_ok (qw_rows w) k"
      using ok k by (auto simp: queue_ok_def flights_ok_def)
    show ?thesis
      using fo t new unfolding flight_ok_def rows update_rows_def by (auto simp: owned_def claimed_def)
  qed
  moreover have "flight_ok rows j"
    unfolding flight_ok_def
  proof (intro ballI impI)
    fix x'
    assume "x' \<in> set rows" "owned j x'"
    then obtain x where x: "x \<in> set (qw_rows w)" "x' = (if jb_id x = jb_id r then forget_self_role_choice (claimed now token x) else x)"
      by (auto simp: rows update_rows_def)
    have "jb_id x = jb_id r" using \<open>owned j x'\<close> x(2) r(3) by (auto simp: owned_def claimed_def split: if_splits)
    then have "x' = forget_self_role_choice (claimed now token r)" using only [OF x(1)] x(2) by simp
    then show "running_for j x' \<or> ended_choice x'"
      by (simp add: running_for_def r(3) forget_payload claimed_def active_def ACTIVE_STATES_def)
  qed
  moreover have "jb_lease_token j = Some token" by (simp add: r(3) claimed_def)
  moreover have "Some token \<notin> (jb_lease_token \<circ> fst) ` set (qw_flights w)"
    using ok new by (auto simp: queue_ok_def flights_ok_def)
  ultimately show ?thesis
    using ok by (auto simp: queue_ok_def flights_ok_def)
qed

lemma queue_start_ok: "queue_ok queue_start"
  by (simp add: queue_ok_def queue_start_def ids_ok_def index_ok_def forgotten_def tokens_ok_def flights_ok_def)

lemma prune_ok:
  assumes "queue_ok w"
  shows "queue_ok (w\<lparr>qw_rows := prune_choices now (qw_rows w)\<rparr>)"
proof (rule queue_ok_writer [OF assms])
  let ?p = "\<lambda>r. \<not> (jb_kind r = ''roles.self'' \<and> jb_status r \<in> {RowSucceeded, RowFailed} \<and>
       (case jb_completed r of None \<Rightarrow> False | Some t \<Rightarrow> t < now - 30 * DAY_MS))"
  have p: "prune_choices now (qw_rows w) = filter ?p (qw_rows w)" by (simp add: prune_choices_def)
  have sub: "set (prune_choices now (qw_rows w)) \<subseteq> set (qw_rows w)" unfolding p by (rule filter_is_subset)
  show "writer_ok (qw_rows w) (prune_choices now (qw_rows w))" unfolding writer_ok_def using sub row_kept_refl by blast
  show "ids_ok (prune_choices now (qw_rows w))"
    using assms unfolding p by (simp add: queue_ok_def ids_ok_def distinct_map_filter)
  have swap: "filter active (filter ?p (qw_rows w)) = filter ?p (filter active (qw_rows w))" unfolding filter_filter by (rule filter_cong) auto
  have "distinct (map jb_key (filter active (qw_rows w)))" using assms by (simp add: queue_ok_def index_ok_def)
  then show "index_ok (prune_choices now (qw_rows w))" unfolding p index_ok_def swap by (rule distinct_map_filter)
  show "forgotten (prune_choices now (qw_rows w))" using assms sub unfolding queue_ok_def forgotten_def by blast
qed

lemma queue_step_ok:
  assumes "queue_step w w'" "queue_ok w"
  shows "queue_ok w'"
  using assms
proof (induction rule: queue_step.induct)
  case (Tick w now)
  then show ?case by (simp add: queue_ok_def)
next
  case (Enqueues i w kind key payload g user delay)
  then show ?case
    by (intro queue_ok_writer enqueue_writer enqueue_ids enqueue_index enqueue_forgotten) (simp_all add: queue_ok_def)
next
  case (Schedules i w kind key payload g delay)
  then show ?case
    by (intro queue_ok_writer scheduleJob_writer enqueue_ids scheduleJob_index enqueue_forgotten) (simp_all add: queue_ok_def)
next
  case (Closes w key reason)
  then show ?case
    by (intro queue_ok_writer closeUnstarted_writer closeUnstarted_index)
      (simp_all add: queue_ok_def closeUnstarted_def update_rows_ids_ok update_rows_forgotten)
next
  case (Requeues statuses w guilds ids d)
  have "forgotten (qd_rows d)" using Requeues(2,3)
    by (auto simp: supersedeAndRequeue_def Let_def requeue_def supersede_def queue_ok_def update_rows_forgotten split: if_splits)
  note this requeue_writer [OF Requeues(1,2)]
  with Requeues have "queue_ok (w\<lparr>qw_rows := qd_rows d\<rparr>)"
    by (intro queue_ok_writer) (simp_all add: queue_ok_def ids_ok_def)
  then show ?case by (simp add: queue_ok_def)
next
  case (Retries w g i rows)
  then have "ids_ok (qw_rows w)" "index_ok (qw_rows w)" by (simp_all add: queue_ok_def)
  with Retries retryJob_writer [OF this(1) Retries(1)] retryJob_index [OF this Retries(1)]
  moreover have "forgotten rows" using Retries
    by (auto simp: retryJob_def queue_ok_def update_rows_forgotten split: option.splits)
  ultimately show ?case by (intro queue_ok_writer) (simp_all add: ids_ok_def)
next
  case (Reruns w key payload delay)
  then show ?case unfolding rerun_running_def
    by (intro queue_ok_update) (simp_all add: row_kept_def ended_choice_def active_def)
next
  case (Supersedes w key)
  then show ?case unfolding supersede_choice_def
    by (intro queue_ok_update row_kept_stopped) (simp_all add: active_def ACTIVE_STATES_def)
next
  case (Expires w savedAt)
  then show ?case unfolding expire_choices_def
    by (intro queue_ok_update) (simp_all add: row_kept_def ended_choice_def expired_choice_def closed_def active_def ACTIVE_STATES_def)
next
  case (Prunes w)
  then show ?case by (rule prune_ok)
next
  case (Unblocks w)
  then show ?case unfolding retry_blocked_def
    by (intro queue_ok_update row_kept_stopped) (simp_all add: active_def ACTIVE_STATES_def)
next
  case (Records j f w evidence)
  then show ?case unfolding record_evidence_def
    by (intro queue_ok_update) (simp_all add: row_kept_def ended_choice_def forget_self_role_choice_def active_def)
next
  case (Claims token w guildActive locked j rows)
  then show ?case by (intro claim_ok)
next
  case (Beats j f w)
  then show ?case unfolding heartbeat_def
    by (intro queue_ok_update) (simp_all add: row_kept_def ended_choice_def forget_self_role_choice_def active_def)
next
  case (Passes j w val)
  let ?fs = "remove1 (j, Working) (qw_flights w)"
  have fs: "flights_ok (qw_tokens w) (qw_rows w) ?fs"
    using Passes(3) by (simp add: queue_ok_def flights_ok_remove)
  have "jb_lease_token j \<notin> (jb_lease_token \<circ> fst) ` set ?fs"
  proof
    assume "jb_lease_token j \<in> (jb_lease_token \<circ> fst) ` set ?fs"
    then obtain k g where "(k, g) \<in> set ?fs" "jb_lease_token k = jb_lease_token j" by auto
    moreover have "flights_ok (qw_tokens w) (qw_rows w) (qw_flights w)" using Passes(3) by (simp add: queue_ok_def)
    ultimately show False using flights_ok_other [OF _ Passes(1)] by blast
  qed
  then show ?case using Passes fs by (auto simp: queue_ok_def flights_ok_def)
next
  case (Publishes j val w)
  then show ?case unfolding complete_def by (intro queue_ok_write) simp_all
next
  case (Fails j f w rows e waited jitter)
  have stay: "queue_ok (w\<lparr>qw_rows := qw_rows w, qw_flights := remove1 (j, f) (qw_flights w)\<rparr>)"
    using Fails(3) by (simp add: queue_ok_def flights_ok_remove)
  show ?case
  proof (cases "jo_status (jobOutcome e (jb_attempts j) waited jitter)")
    case (Written st)
    then show ?thesis using Fails stay by (auto simp: record_failure_def intro: queue_ok_write)
  next
    case Unchanged
    then show ?thesis using Fails stay by (simp add: record_failure_def)
  qed
next
  case (Dies j f w)
  then show ?case by (simp add: queue_ok_def flights_ok_remove)
qed

lemma queue_reachable_ok: "queue_reachable w \<Longrightarrow> queue_ok w"
  by (induction rule: queue_reachable.induct) (simp_all add: queue_start_ok queue_step_ok)

section \<open>The properties\<close>

lemma guard_Inr:
  "guard now j rows = Inr () \<longleftrightarrow>
     (\<exists>r. find (\<lambda>r. jb_id r = jb_id j) rows = Some r \<and> jb_lease_token r = jb_lease_token j \<and> lease_live now r \<and>
        jb_status r = RowRunning \<and> (is_reconcile j \<longrightarrow> jb_generation r = jb_generation j))"
  by (auto simp: guard_def split: option.split)

text \<open>
  (C36) However the workers, the other writers and the clock interleave: at most one active row per
  key, and two running attempts never both pass the guard for the same row, so two workers never
  both believe they own one.
\<close>

theorem queue_one_owner:
  assumes "queue_reachable w"
  shows "index_ok (qw_rows w) \<and> ids_ok (qw_rows w) \<and>
    (\<forall>(j, f) \<in> set (qw_flights w). \<forall>(k, g) \<in> set (qw_flights w).
       guard (qw_now w) j (qw_rows w) = Inr () \<and> guard (qw_now w) k (qw_rows w) = Inr () \<and> jb_id j = jb_id k \<longrightarrow>
       (j, f) = (k, g))"
proof -
  have ok: "queue_ok w" by (rule queue_reachable_ok [OF assms])
  have "(j, f) = (k, g)"
    if fl: "(j, f) \<in> set (qw_flights w)" "(k, g) \<in> set (qw_flights w)" and "jb_id j = jb_id k"
      "guard (qw_now w) j (qw_rows w) = Inr ()" "guard (qw_now w) k (qw_rows w) = Inr ()" for j f k g
  proof -
    have "jb_lease_token j = jb_lease_token k" using that(3-) by (auto simp: guard_Inr)
    moreover have "inj_on (jb_lease_token \<circ> fst) (set (qw_flights w))"
      using ok by (simp add: queue_ok_def flights_ok_def distinct_map)
    ultimately show ?thesis using fl inj_onD [of "jb_lease_token \<circ> fst" "set (qw_flights w)" "(j, f)" "(k, g)"] by simp
  qed
  then show ?thesis using ok unfolding queue_ok_def by blast
qed

text \<open>What a failed attempt writes to its row.\<close>

lemma failure_write:
  assumes "r \<in> set rows" "jb_id r = jb_id j"
  shows "\<exists>r' \<in> set (record_failure now j (jobOutcome e n waited jitter) rows). jb_id r' = jb_id r \<and>
    (if jb_lease_token r \<noteq> jb_lease_token j \<or> jo_status (jobOutcome e n waited jitter) = Unchanged then r' = r
     else jo_status (jobOutcome e n waited jitter) = Written (jb_status r') \<and>
          (jb_status r' = RowSucceeded \<longleftrightarrow> jo_code (jobOutcome e n waited jitter) = GoneCode) \<and>
          jb_generation r' = jb_generation r \<and> (active r' \<longrightarrow> jb_payload r' = jb_payload r))"
proof (cases "jo_status (jobOutcome e n waited jitter)")
  case Unchanged
  then show ?thesis using assms by (auto simp: record_failure_def)
next
  case (Written st)
  let ?out = "jobOutcome e n waited jitter"
  let ?r' = "if owned j r then forget_self_role_choice (failed_row now ?out st r) else r"
  have "?r' \<in> set (record_failure now j ?out rows)" using assms(1) Written by (auto simp: record_failure_def update_rows_def)
  moreover have "st = RowSucceeded \<longleftrightarrow> jo_code ?out = GoneCode"
    using Written by (auto simp: jobOutcome_def Let_def job_written_def job_waits_def split: if_splits)
  ultimately show ?thesis using assms(2) Written
    by (intro bexI [of _ ?r']) (auto simp: owned_def forget_payload failed_row_def)
qed

text \<open>
  (C35) What a worker's last write does to a row, however everything else interleaved. A stale worker changes nothing: once the
  row has another token, neither a completion nor a failure touches it. A completion ends the row as succeeded only
  when the row still holds the very payload the worker ran; where newer input arrived meanwhile it queues the row again,
  with that input and a full attempt budget. The exception is a role choice that was closed as expired while its worker
  was taken for dead: it was succeeded already, and holds no input any more. A failed attempt ends the row as succeeded exactly when
  Discord said that its target is gone, and never changes the input of a row that stays active.
\<close>

theorem publish_ran_the_newest_input:
  assumes "queue_reachable w" "(j, f) \<in> set (qw_flights w)" "r \<in> set (qw_rows w)" "jb_id r = jb_id j"
  shows "(\<exists>r' \<in> set (complete now j val (qw_rows w)). jb_id r' = jb_id r \<and>
     (if jb_lease_token r \<noteq> jb_lease_token j then r' = r
      else if jb_status r = RowRunning
      then (if jb_generation r = jb_generation j then jb_status r' = RowSucceeded \<and> jb_payload r = jb_payload j
            else jb_status r' = RowQueued \<and> jb_payload r' = jb_payload r \<and> jb_generation r' = jb_generation r \<and>
                 jb_attempts r' = 0)
      else jb_kind r = ''roles.self'' \<and> jb_status r = RowSucceeded \<and> jb_payload r = JsonObject [] \<and> jb_payload r' = JsonObject [] \<and>
           jb_status r' = (if jb_generation r = jb_generation j then RowSucceeded else RowQueued))) \<and>
   (\<forall>e waited jitter. let out = jobOutcome e (jb_attempts j) waited jitter
      in \<exists>r' \<in> set (record_failure now j out (qw_rows w)). jb_id r' = jb_id r \<and>
        (if jb_lease_token r \<noteq> jb_lease_token j \<or> jo_status out = Unchanged then r' = r
         else jo_status out = Written (jb_status r') \<and> (jb_status r' = RowSucceeded \<longleftrightarrow> jo_code out = GoneCode) \<and>
              jb_generation r' = jb_generation r \<and> (active r' \<longrightarrow> jb_payload r' = jb_payload r)))"
proof (intro conjI allI)
  have ok: "flight_ok (qw_rows w) j" "forgotten (qw_rows w)"
    using queue_reachable_ok [OF assms(1)] assms(2) by (auto simp: queue_ok_def flights_ok_def)
  have own: "owned j r \<Longrightarrow> running_for j r \<or> ended_choice r" using ok(1) assms(3) by (auto simp: flight_ok_def)
  have empty: "ended_choice r \<Longrightarrow> jb_payload r = JsonObject []"
    using ok(2) assms(3) by (simp add: forgotten_def ended_choice_def)
  let ?r' = "if owned j r then forget_self_role_choice (completed now j val r) else r"
  have "?r' \<in> set (complete now j val (qw_rows w))"
    using assms(3) by (auto simp: complete_def update_rows_def)
  moreover have "jb_payload ?r' = jb_payload r" if "jb_generation r \<noteq> jb_generation j"
    using that by (simp add: forget_self_role_choice_def completed_def)
  moreover have "ended_choice r \<Longrightarrow> jb_payload ?r' = JsonObject []"
    using empty by (simp add: forget_self_role_choice_def completed_def)
  ultimately show "\<exists>r' \<in> set (complete now j val (qw_rows w)). jb_id r' = jb_id r \<and>
     (if jb_lease_token r \<noteq> jb_lease_token j then r' = r
      else if jb_status r = RowRunning
      then (if jb_generation r = jb_generation j then jb_status r' = RowSucceeded \<and> jb_payload r = jb_payload j
            else jb_status r' = RowQueued \<and> jb_payload r' = jb_payload r \<and> jb_generation r' = jb_generation r \<and>
                 jb_attempts r' = 0)
      else jb_kind r = ''roles.self'' \<and> jb_status r = RowSucceeded \<and> jb_payload r = JsonObject [] \<and> jb_payload r' = JsonObject [] \<and>
           jb_status r' = (if jb_generation r = jb_generation j then RowSucceeded else RowQueued))"
    using own assms(4) empty
    by (intro bexI [of _ ?r']) (auto simp: owned_def completed_def running_for_def ended_choice_def)
  fix e waited jitter
  show "let out = jobOutcome e (jb_attempts j) waited jitter
      in \<exists>r' \<in> set (record_failure now j out (qw_rows w)). jb_id r' = jb_id r \<and>
        (if jb_lease_token r \<noteq> jb_lease_token j \<or> jo_status out = Unchanged then r' = r
         else jo_status out = Written (jb_status r') \<and> (jb_status r' = RowSucceeded \<longleftrightarrow> jo_code out = GoneCode) \<and>
              jb_generation r' = jb_generation r \<and> (active r' \<longrightarrow> jb_payload r' = jb_payload r))"
    unfolding Let_def by (rule failure_write [OF assms(3,4)])
qed

text \<open>
  The attempt budget: waiting for a lock, an ordering or a cooldown always leaves the row queued
  with the attempts it had before it was claimed; an ordinary error is retried only below eight
  attempts and fails the job from the eighth on; a retry waits between a second and an hour, or what
  the failure asked for; and a lost lease writes nothing.
\<close>

theorem attempt_budget:
  "let out = jobOutcome e attempts waited jitter
   in (jo_waiting out \<longrightarrow>
         jo_status out = (if jo_code out = CatalogCode F_lease_lost then Unchanged else Written RowQueued) \<and>
         jb_attempts (failed_row now out st (claimed before token r)) = jb_attempts r) \<and>
      (\<not> jo_waiting out \<and> jo_status out = Written RowQueued \<longrightarrow> attempts < MAX_ATTEMPTS) \<and>
      (\<not> jo_waiting out \<and> attempts \<ge> MAX_ATTEMPTS \<longrightarrow>
         jo_status out \<in> {Written RowBlocked, Written RowDisabled, Written RowSucceeded, Written RowFailed}) \<and>
      (jo_code out \<noteq> CatalogCode F_lease_lost \<and> 0 \<le> jitter \<longrightarrow>
         1000 \<le> jo_delay out \<and> jo_delay out \<le> max (1000 * int (retry_after e)) 3600000)"
proof -
  have waits: "job_waits (CatalogCode F_lease_lost)" by (simp add: job_waits_def WAITING_CODES_def)
  have backoff: "1000 \<le> min 3600000 (1000 * 2 ^ attempts + jitter)" if "0 \<le> jitter"
  proof -
    have "(1::int) \<le> 2 ^ attempts" by simp
    with that show ?thesis by linarith
  qed
  have delay: "1000 \<le> job_delay e attempts jitter \<and> job_delay e attempts jitter \<le> max (1000 * int (retry_after e)) 3600000"
    if "0 \<le> jitter" "job_code_of e \<noteq> CatalogCode F_lease_lost"
    using backoff [OF that(1)] that(2) by (simp add: job_delay_def max_def min_def)
  show ?thesis
    unfolding Let_def jobOutcome_def
    using waits delay by (simp add: job_written_def failed_row_def claimed_def)
qed

text \<open>
  A run that ends in a terminal failure, unlike one that succeeds, does not look at the generation:
  input that arrived while it ran ends with it, though no worker ever saw it.
\<close>

lemma terminal_failure_drops_newer_input:
  "let rows = snd (enqueue 0 ''a'' ''modmail.dm'' ''k'' (JsonText ''first'') None None 0 []);
       (j, rows) = the (claim 0 ''t'' (\<lambda>_. True) {} rows);
       rows = snd (enqueue 1 ''b'' ''modmail.dm'' ''k'' (JsonText ''second'') None None 0 rows);
       rows = record_failure 2 j
         (jobOutcome (ThrownFailure (mk_failure F_dm_blocked (Literal ''''))) (jb_attempts j) 0 0) rows
   in jb_payload j = JsonText ''first'' \<and> map jb_status rows = [RowFailed] \<and>
      map jb_payload rows = [JsonText ''second''] \<and> map jb_generation rows = [2]"
  by (simp add: Let_def enqueue_def claim_def claimable_def new_job_def forget_self_role_choice_def by_key_def
      update_rows_def claimed_def active_def ACTIVE_STATES_def coalesce_def record_failure_def jobOutcome_def
      job_written_def job_waits_def WAITING_CODES_def failed_row_def owned_def MAX_ATTEMPTS_def)

text \<open>So does one whose target Discord says is gone, as succeeded.\<close>

lemma gone_drops_newer_input:
  "let rows = snd (enqueue 0 ''a'' ''modmail.dm'' ''k'' (JsonText ''first'') None None 0 []);
       (j, rows) = the (claim 0 ''t'' (\<lambda>_. True) {} rows);
       rows = snd (enqueue 1 ''b'' ''modmail.dm'' ''k'' (JsonText ''second'') None None 0 rows);
       rows = record_failure 2 j (jobOutcome (DiscordAPIError ''Error'' 10013 404) (jb_attempts j) 0 0) rows
   in jb_payload j = JsonText ''first'' \<and> map jb_status rows = [RowSucceeded] \<and>
      map jb_payload rows = [JsonText ''second''] \<and> map jb_generation rows = [2]"
  by (simp add: Let_def enqueue_def claim_def claimable_def new_job_def forget_self_role_choice_def by_key_def
      update_rows_def claimed_def active_def ACTIVE_STATES_def coalesce_def record_failure_def jobOutcome_def
      job_written_def job_waits_def WAITING_CODES_def failed_row_def owned_def MAX_ATTEMPTS_def DISCORD_BLOCKED_CODES_def)

text \<open>
  A role choice that expired while its worker was stalled keeps the worker's token, so the worker's failure queues the
  closed row again, with nothing left of what it asked for.
\<close>

lemma expired_choice_queued_again:
  "let rows = snd (enqueue 0 ''a'' ''roles.self'' ''k'' (JsonText ''choice'') None None 0 []);
       (j, rows) = the (claim 0 ''t'' (\<lambda>_. True) {} rows);
       expired = expire_choices 700000000 (\<lambda>_. None) rows;
       rows = record_failure 700000001 j (jobOutcome (OtherError ''Error'') (jb_attempts j) 0 0) expired
   in map jb_status expired = [RowSucceeded] \<and> map jb_status rows = [RowQueued] \<and> map jb_payload rows = [JsonObject []]"
  by (simp add: Let_def enqueue_def claim_def claimable_def new_job_def forget_self_role_choice_def by_key_def
      update_rows_def claimed_def active_def ACTIVE_STATES_def record_failure_def jobOutcome_def expire_choices_def
      expired_choice_def closed_def LEASE_MS_def DAY_MS_def
      job_written_def job_waits_def WAITING_CODES_def failed_row_def owned_def MAX_ATTEMPTS_def)

text \<open>A job that was enqueued, claimed and is about to be published.\<close>

definition sample_row :: job where
  "sample_row = new_job 0 ''a'' ''officer.notify'' ''k'' (JsonText ''first'') None None 0"

definition sample_claimed :: job where
  "sample_claimed = claimed 0 ''t'' sample_row"

definition sample_world :: queue_world where
  "sample_world = \<lparr>qw_now = 0, qw_rows = [sample_claimed], qw_links = [], qw_tokens = {''t''},
     qw_flights = [(sample_claimed, Publishing JsonNull)]\<rparr>"

lemma sample_row_fields [simp]:
  "jb_due sample_row = 0" "jb_guild sample_row = None" "jb_kind sample_row = ''officer.notify''"
  "jb_id sample_row = ''a''" "jb_status sample_row = RowQueued" "jb_generation sample_row = 1"
  by (simp_all add: sample_row_def new_job_def forget_self_role_choice_def)

lemma sample_claimed_fields [simp]:
  "jb_id sample_claimed = ''a''" "jb_lease_token sample_claimed = Some ''t''"
  "jb_status sample_claimed = RowRunning" "jb_lease_until sample_claimed = Some 45000"
  "jb_generation sample_claimed = 1" "is_reconcile sample_claimed = False"
  by (simp_all add: sample_claimed_def claimed_def LEASE_MS_def is_reconcile_def)

lemma sample_reachable: "queue_reachable sample_world"
proof -
  have enq: "snd (enqueue 0 ''a'' ''officer.notify'' ''k'' (JsonText ''first'') None None 0 []) = [sample_row]"
    by (simp add: enqueue_def sample_row_def)
  have clm: "claim 0 ''t'' (\<lambda>_. True) {} [sample_row] = Some (sample_claimed, [sample_claimed])"
    by (simp add: claim_def claimable_def update_rows_def sample_claimed_def)
      (simp add: forget_self_role_choice_def claimed_def)
  let ?w1 = "queue_start\<lparr>qw_rows := [sample_row]\<rparr>"
  let ?w2 = "?w1\<lparr>qw_rows := [sample_claimed], qw_tokens := {''t''}, qw_flights := [(sample_claimed, Working)]\<rparr>"
  have "queue_step queue_start ?w1"
    using Enqueues [of "''a''" queue_start "''officer.notify''" "''k''" "JsonText ''first''" None None 0]
    by (simp add: queue_start_def enq)
  moreover have "queue_step ?w1 ?w2"
    using Claims [of "''t''" ?w1 "\<lambda>_. True" "{}" sample_claimed "[sample_claimed]"]
    by (simp add: queue_start_def clm)
  moreover have "queue_step ?w2 sample_world"
    using Passes [of sample_claimed ?w2 JsonNull]
    by (simp add: queue_start_def guard_Inr lease_live_def sample_world_def)
  ultimately show ?thesis using queue_reachable.intros by blast
qed

theorem queue_one_owner_witness: "index_ok (qw_rows sample_world)"
  using queue_one_owner [OF sample_reachable] by blast

theorem publish_ran_the_newest_input_witness:
  "\<exists>r' \<in> set (complete 0 sample_claimed JsonNull [sample_claimed]). jb_status r' = RowSucceeded"
  using publish_ran_the_newest_input [OF sample_reachable, of sample_claimed "Publishing JsonNull" sample_claimed 0 JsonNull]
  by (auto simp: sample_world_def)

theorem attempt_budget_witness:
  "jb_attempts (failed_row 2 (jobOutcome (ThrownFailure (mk_failure F_busy (Literal ''''))) 1 0 0) RowQueued
     (claimed 0 ''t'' sample_row)) = jb_attempts sample_row"
proof -
  let ?out = "jobOutcome (ThrownFailure (mk_failure F_busy (Literal ''''))) 1 0 0"
  have "jo_waiting ?out" by (simp add: jobOutcome_def Let_def job_waits_def WAITING_CODES_def)
  then show ?thesis
    using attempt_budget [where e = "ThrownFailure (mk_failure F_busy (Literal ''''))" and attempts = 1 and waited = 0
      and jitter = 0 and now = 2 and st = RowQueued and before = 0 and token = "''t''" and r = sample_row]
    unfolding Let_def by blast
qed

end
