(* ===== verification/Members.thy ===== *)
theory Members
  imports Policy RankPolicy Values JobQueue
begin

text \<open>
  The tables about people that several services share (\<open>src/infrastructure/postgres/schema.ts\<close>), one
  record per row and a list of rows per table, and what the services read from them: the guild of an
  actor, FC membership for the ledger, and the facts that decide access
  (\<open>src/application/service.ts\<close>, \<open>src/application/access-facts.ts\<close>). A time is milliseconds.
\<close>

section \<open>Rows\<close>

record guild_row =
  gd_id :: ident
  gd_active :: bool
  gd_revision :: int
  gd_fc :: "ident option"
  gd_ledger_channel :: "ident option"
  gd_effects :: bool
  gd_member_role :: "ident option"
  gd_guest_role :: "ident option"
  gd_apps_enabled :: bool
  gd_apps_channel :: "ident option"
  gd_access_policy :: bool

record user_row =
  gu_guild :: ident
  gu_user :: ident
  gu_present :: bool
  gu_joined :: "int option"
  gu_imported :: bool
  gu_primary :: "ident option"
  gu_nick_enabled :: bool
  gu_nick_baseline :: bool
  gu_nick_pending :: bool
  gu_nick_restore :: bool
  gu_nick_suspended :: bool
  gu_local_loss :: bool

record link_row =
  lk_id :: ident
  lk_guild :: ident
  lk_user :: ident
  lk_character :: ident
  lk_active :: bool
  lk_provenance :: string
  lk_actor :: "ident option"
  lk_reason :: "text16 option"
  lk_source :: link_source
  lk_ended :: "int option"

record membership_row =
  mb_guild :: ident
  mb_fc :: ident
  mb_character :: ident
  mb_state :: presence
  mb_first_absence :: "int option"
  mb_snapshot :: "ident option"
  mb_confirmed :: "ident option"

record history_row =
  mh_guild :: ident
  mh_user :: ident
  mh_fc :: ident
  mh_link :: ident
  mh_snapshot :: "ident option"
  mh_observed :: int

record snapshot_row =
  rs_id :: ident
  rs_fc :: ident
  rs_observed :: int

record guest_state_row =
  gs_guild :: ident
  gs_user :: ident
  gs_revoked :: bool
  gs_actor :: "ident option"
  gs_reason :: "text16 option"
  gs_changed :: int

record grant_row =
  gg_id :: ident
  gg_guild :: ident
  gg_user :: ident
  gg_provenance :: string
  gg_key :: string
  gg_actor :: "ident option"
  gg_reason :: "text16 option"
  gg_ended :: "(int \<times> ident \<times> text16) option"

text \<open>A JavaScript test of an optional text: null and the empty text are both missing.\<close>

definition given :: "ident option \<Rightarrow> ident option" where
  "given i = (case i of Some t \<Rightarrow> if t = [] then None else Some t | None \<Rightarrow> None)"

section \<open>The guild\<close>

definition SETTINGS_CHANGED :: string where
  "SETTINGS_CHANGED =
     ''Server settings changed while this was running, so nothing was saved. Run the command again.''"

datatype effects_mode = DeploymentDisabled | AwaitingActivation | Live

definition effectsMode :: "bool \<Rightarrow> guild_row \<Rightarrow> effects_mode" where
  "effectsMode enable guild =
     (if \<not> enable then DeploymentDisabled else if gd_effects guild then Live else AwaitingActivation)"

definition guild_missing :: failure where
  "guild_missing = mk_failure_detail F_setup
     (Literal ''This server has no TaruBot configuration yet. Start with /config fc link and /config roles, or /setup onboarding for lobby onboarding.'')
     (DSetup Setup_guild)"

text \<open>\<open>Service.guild\<close>: the actor's own active guild row.\<close>

definition guild_of :: "guild_row list \<Rightarrow> actor \<Rightarrow> failure + guild_row" where
  "guild_of guilds a =
     and_then (authorize a (act_guild a)) (\<lambda>_.
       case find (\<lambda>g. gd_id g = act_guild a \<and> gd_active g) guilds of
         None \<Rightarrow> Inl guild_missing
       | Some g \<Rightarrow> Inr g)"

section \<open>Membership\<close>

text \<open>An active link whose character has accepted positive evidence in the linked FC.\<close>

definition memberEligible ::
  "link_row list \<Rightarrow> membership_row list \<Rightarrow> guild_row \<Rightarrow> ident \<Rightarrow> bool" where
  "memberEligible links members guild user =
     (case given (gd_fc guild) of
        None \<Rightarrow> False
      | Some fc \<Rightarrow>
          list_ex (\<lambda>l. lk_guild l = gd_id guild \<and> lk_user l = user \<and> lk_active l \<and>
            list_ex (\<lambda>m. mb_guild m = lk_guild l \<and> mb_character m = lk_character l \<and> mb_fc m = fc \<and>
              mb_state m \<in> {Present, Missing} \<and> mb_confirmed m \<noteq> None) members) links)"

definition active_links :: "link_row list \<Rightarrow> ident \<Rightarrow> ident \<Rightarrow> link_row list" where
  "active_links links guild user =
     filter (\<lambda>l. lk_guild l = guild \<and> lk_user l = user \<and> lk_active l) links"

definition hasActiveRegistration :: "link_row list \<Rightarrow> ident \<Rightarrow> ident \<Rightarrow> bool" where
  "hasActiveRegistration links guild user \<longleftrightarrow> active_links links guild user \<noteq> []"

section \<open>Access facts\<close>

text \<open>The row a link joins to in the membership of the linked FC.\<close>

definition link_state :: "membership_row list \<Rightarrow> guild_row \<Rightarrow> link_row \<Rightarrow> presence option" where
  "link_state members guild l =
     (case given (gd_fc guild) of
        None \<Rightarrow> None
      | Some fc \<Rightarrow> map_option mb_state
          (find (\<lambda>m. mb_guild m = lk_guild l \<and> mb_character m = lk_character l \<and> mb_fc m = fc) members))"

record people =
  pl_users :: "user_row list"
  pl_links :: "link_row list"
  pl_members :: "membership_row list"
  pl_history :: "history_row list"
  pl_grants :: "grant_row list"
  pl_states :: "guest_state_row list"
  pl_rosters :: "(ident \<times> int option) list"

definition accessFacts ::
  "people \<Rightarrow> guild_row \<Rightarrow> ident \<Rightarrow> int \<Rightarrow> int \<Rightarrow> ident list \<Rightarrow> access_facts" where
  "accessFacts d guild user now freshnessSeconds roles =
     (let g = gd_id guild; fc = given (gd_fc guild);
          states = map (link_state (pl_members d) guild) (active_links (pl_links d) g user);
          confirmed = length (filter (\<lambda>s. s = Some Present \<or> s = Some Missing) states);
          unknown = length (filter (\<lambda>s. s = None) states);
          loss = list_ex (\<lambda>u. gu_guild u = g \<and> gu_user u = user \<and> gu_local_loss u) (pl_users d);
          former = list_ex (\<lambda>h. mh_guild h = g \<and> mh_user h = user \<and> Some (mh_fc h) = fc) (pl_history d);
          granted = list_ex (\<lambda>r. gg_guild r = g \<and> gg_user r = user \<and> gg_ended r = None) (pl_grants d);
          revoked = list_ex (\<lambda>s. gs_guild s = g \<and> gs_user s = user \<and> gs_revoked s) (pl_states d);
          recent = (case fc of None \<Rightarrow> False | Some f \<Rightarrow>
            list_ex (\<lambda>(i, at). i = f \<and> (case at of None \<Rightarrow> False | Some at \<Rightarrow> at > now - 1000 * freshnessSeconds))
              (pl_rosters d))
      in \<lparr>af_membership = membershipClass (fc \<noteq> None) (int confirmed) (int unknown) loss,
          af_fresh = (fc = None \<or> recent), af_former = former, af_grant = granted, af_revoked = revoked,
          af_has_member = ((case gd_member_role guild of Some r \<Rightarrow> r | None \<Rightarrow> []) \<in> set roles),
          af_has_guest = ((case gd_guest_role guild of Some r \<Rightarrow> r | None \<Rightarrow> []) \<in> set roles),
          af_verified = Some (states \<noteq> [])\<rparr>)"

section \<open>Users\<close>

text \<open>\<open>ensureUser\<close>: the user's row exists, and a join observed now starts a new nickname baseline.\<close>

definition ensureUser :: "ident \<Rightarrow> ident \<Rightarrow> int option \<Rightarrow> user_row list \<Rightarrow> user_row list" where
  "ensureUser guild user joined users =
     (if list_ex (\<lambda>u. gu_guild u = guild \<and> gu_user u = user) users
      then map (\<lambda>u. if gu_guild u = guild \<and> gu_user u = user
             then (case joined of
                     None \<Rightarrow> u
                   | Some at \<Rightarrow> u\<lparr>gu_present := True,
                       gu_nick_baseline := (if gu_joined u \<noteq> joined then False else gu_nick_baseline u),
                       gu_nick_pending := (if gu_joined u \<noteq> joined then False else gu_nick_pending u),
                       gu_joined := joined\<rparr>)
             else u) users
      else users @ [\<lparr>gu_guild = guild, gu_user = user, gu_present = (joined \<noteq> None), gu_joined = joined,
             gu_imported = False, gu_primary = None, gu_nick_enabled = False, gu_nick_baseline = False,
             gu_nick_pending = False, gu_nick_restore = False, gu_nick_suspended = False,
             gu_local_loss = False\<rparr>])"

definition user_of :: "user_row list \<Rightarrow> ident \<Rightarrow> ident \<Rightarrow> user_row option" where
  "user_of users guild user = find (\<lambda>u. gu_guild u = guild \<and> gu_user u = user) users"

text \<open>A person as Discord answers: a bot or not, when they joined, the roles they hold.\<close>

record discord_member =
  dm_bot :: bool
  dm_joined :: int
  dm_roles :: "ident list"

definition update_user ::
  "ident \<Rightarrow> ident \<Rightarrow> (user_row \<Rightarrow> user_row) \<Rightarrow> user_row list \<Rightarrow> user_row list" where
  "update_user guild user f users =
     map (\<lambda>u. if gu_guild u = guild \<and> gu_user u = user then f u else u) users"

end
