(* ===== verification/Ledger.thy ===== *)
theory Ledger
  imports Members
begin

text \<open>
  The gil ledger, \<open>src/application/service.ts\<close>: recording a deposit, a withdrawal, an opening balance
  or a correction in one transaction under the account's lock, and reading a balance or a page of
  history. A table is the list of its rows in insertion order. What a transaction reads from outside
  (Discord's answer about the channel, the deployment switch, the clock, fresh IDs) is a record.
\<close>

section \<open>The tables\<close>

record account =
  la_id :: ident
  la_guild :: ident
  la_fc :: ident
  la_balance :: "int option"
  la_sequence :: int

record ledger_entry =
  le_id :: ident
  le_account :: ident
  le_sequence :: int
  le_operation :: string
  le_delta :: int
  le_balance :: int
  le_actor :: "ident option"
  le_guild :: ident
  le_note :: text16
  le_event :: int
  le_key :: string
  le_correction :: "ident option"

record audit_row =
  ad_guild :: ident
  ad_actor :: ident
  ad_action :: string
  ad_target :: ident
  ad_balance :: int
  ad_delta :: int

record ledger_db =
  ld_guilds :: "guild_row list"
  ld_accounts :: "account list"
  ld_entries :: "ledger_entry list"
  ld_links :: "link_row list"
  ld_members :: "membership_row list"
  ld_jobs :: "job list"
  ld_audit :: "audit_row list"

section \<open>Who may use the ledger\<close>

definition LEDGER_PERMISSION :: "string \<Rightarrow> permission_id option" where
  "LEDGER_PERMISSION operation =
     (if operation = ''deposit'' then Some P_ledger_deposit
      else if operation = ''withdraw'' then Some P_ledger_withdraw
      else if operation = ''initialize'' then Some P_ledger_initialize
      else if operation = ''adjust'' then Some P_ledger_adjust
      else None)"

definition membershipNeeded :: failure where
  "membershipNeeded = mk_failure_detail F_forbidden
     (Literal (''The FC ledger is for confirmed members of this server'' @ [CHR 0x27] @ ''s Free Company.''))
     (DScope Scope_membership None None None)"

definition memberRoleNeeded :: "permission_id \<Rightarrow> failure" where
  "memberRoleNeeded p = mk_failure_detail F_forbidden
     (Literal (''The FC ledger is for confirmed members of this server'' @ [CHR 0x27] @
               ''s Free Company who hold its Member role.''))
     (DScope Scope_membership (Some p) None None)"

section \<open>Recording\<close>

datatype entry_ref = ById ident | BySequence int

type_synonym correction_ref = "ident \<times> int"

definition correction_in :: "ledger_db \<Rightarrow> ident \<Rightarrow> entry_ref \<Rightarrow> correction_ref option" where
  "correction_in d accountId ref =
     map_option (\<lambda>e. (le_id e, le_sequence e))
       (find (\<lambda>e. le_account e = accountId \<and>
          (case ref of ById i \<Rightarrow> le_id e = i | BySequence n \<Rightarrow> le_sequence e = n)) (ld_entries d))"

record ledger_context =
  lc_mode :: effects_mode
  lc_fc :: "string option"
  lc_channel :: ident

datatype ledger_receipt =
    Recorded ledger_context ledger_entry "correction_ref option"
  | AlreadyRecorded ledger_context ledger_entry "correction_ref option" "job option"
  | LedgerUnchanged ledger_context int

record ledger_world =
  lw_enable :: bool
  lw_validate :: "ident \<Rightarrow> ident \<Rightarrow> thrown option"
  lw_company :: "ident \<Rightarrow> string option"
  lw_entry :: ident
  lw_job :: ident
  lw_now :: int

definition ledger_amount :: "string \<Rightarrow> js_value \<Rightarrow> failure + int" where
  "ledger_amount operation input =
     (if operation = ''deposit'' \<or> operation = ''withdraw'' then
        (case input of
           JInteger n \<Rightarrow>
             if n < 1 \<or> n > 999999999
             then Inl (mk_failure_detail F_input (Literal ''Amount must be between 1 and 999,999,999 gil.'')
                         (DOption ''amount''))
             else Inr n
         | _ \<Rightarrow> Inl (mk_failure_detail F_input (Literal ''Amount must be between 1 and 999,999,999 gil.'')
                      (DOption ''amount'')))
      else (case gil input of Inl f \<Rightarrow> Inl f | Inr n \<Rightarrow> Inr (int n)))"

text \<open>What is checked before the transaction, against the guild row as read there.\<close>

definition OFFICERS_RECORD :: string where
  "OFFICERS_RECORD =
     ''Only officers can record withdrawals, opening balances and corrections. Members can record deposits with /ledger deposit.''"

definition ledger_admission ::
  "ledger_world \<Rightarrow> ledger_db \<Rightarrow> actor \<Rightarrow> string \<Rightarrow> js_value \<Rightarrow> text16 \<Rightarrow>
   thrown + (guild_row \<times> text16 \<times> ident \<times> ident \<times> int)" where
  "ledger_admission w d a operation input noteText =
     (case and_then (guild_of (ld_guilds d) a) (\<lambda>guild.
        and_then (parse_note noteText LabelNote) (\<lambda>noteText.
        (case LEDGER_PERMISSION operation of
           None \<Rightarrow> Inl (mk_failure F_input (Literal ''Invalid ledger operation.''))
         | Some p \<Rightarrow>
             and_then (if operation \<noteq> ''deposit'' then requirePermission a (act_guild a) p (Some OFFICERS_RECORD)
                       else requireNotPaused a P_ledger_deposit) (\<lambda>_.
             (case given (gd_fc guild) of
                None \<Rightarrow> Inl (mk_failure_detail F_setup
                  (Literal ''Link the Free Company and choose a ledger channel before recording gil.'') (DSetup Setup_fc))
              | Some fc \<Rightarrow>
                  (case given (gd_ledger_channel guild) of
                     None \<Rightarrow> Inl (mk_failure_detail F_setup
                       (Literal ''Choose a ledger channel with /config ledger before recording gil.'') (DSetup Setup_ledger))
                   | Some channel \<Rightarrow> Inr (guild, noteText, fc, channel))))))) of
        Inl f \<Rightarrow> Inl (ThrownFailure f)
      | Inr (guild, noteText, fc, channel) \<Rightarrow>
          (case lw_validate w (act_guild a) channel of
             Some t \<Rightarrow> Inl t
           | None \<Rightarrow>
               (case ledger_amount operation input of
                  Inl f \<Rightarrow> Inl (ThrownFailure f)
                | Inr amount \<Rightarrow> Inr (guild, noteText, fc, channel, amount))))"

definition new_balance :: "string \<Rightarrow> int \<Rightarrow> int \<Rightarrow> int" where
  "new_balance operation before amount =
     (if operation = ''deposit'' then before + amount
      else if operation = ''withdraw'' then before - amount
      else amount)"

text \<open>A deposit needs membership and \<open>ledger.deposit\<close>; membership is answered first.\<close>

definition deposit_membership :: "ledger_db \<Rightarrow> guild_row \<Rightarrow> actor \<Rightarrow> failure + unit" where
  "deposit_membership d current a =
     (if \<not> can a P_ledger_audit \<and> \<not> memberEligible (ld_links d) (ld_members d) current (act_user a) then Inl membershipNeeded
      else if \<not> can a P_ledger_deposit then Inl (memberRoleNeeded P_ledger_deposit)
      else Inr ())"

definition account_of :: "ledger_db \<Rightarrow> ident \<Rightarrow> ident \<Rightarrow> account option" where
  "account_of d guild fc = find (\<lambda>x. la_guild x = guild \<and> la_fc x = fc) (ld_accounts d)"

definition ledger_post_key :: "ident \<Rightarrow> string" where
  "ledger_post_key i = ''ledger:'' @ i"

text \<open>The newest job of a dedupe key.\<close>

definition newest_post :: "job list \<Rightarrow> string \<Rightarrow> job option" where
  "newest_post jobs key =
     (case sort_key (\<lambda>r. - jb_created r) (filter (\<lambda>r. jb_key r = key) jobs) of [] \<Rightarrow> None | r # _ \<Rightarrow> Some r)"

definition ledger_replay ::
  "ledger_db \<Rightarrow> actor \<Rightarrow> account \<Rightarrow> ledger_context \<Rightarrow> ledger_entry \<Rightarrow> failure + ledger_receipt" where
  "ledger_replay d a acc ctx duplicate =
     (if le_guild duplicate \<noteq> act_guild a \<or> le_account duplicate \<noteq> la_id acc
      then Inl (mk_failure F_idempotency_conflict (Literal ''Idempotency key belongs to another account.''))
      else Inr (AlreadyRecorded ctx duplicate
             (case given (le_correction duplicate) of
                Some i \<Rightarrow> correction_in d (la_id acc) (ById i)
              | None \<Rightarrow> None)
             (newest_post (ld_jobs d) (ledger_post_key (le_id duplicate)))))"

definition reference_text :: "entry_ref \<Rightarrow> string" where
  "reference_text ref =
     (case ref of ById i \<Rightarrow> i | BySequence n \<Rightarrow> CHR 0x23 # map char_of (decimal (nat n)))"

text \<open>The checks on the account's own state, and the corrected entry with the balances before and after.\<close>

definition ledger_balances ::
  "ledger_db \<Rightarrow> account \<Rightarrow> string \<Rightarrow> int \<Rightarrow> entry_ref option \<Rightarrow>
   failure + (correction_ref option \<times> int \<times> int)" where
  "ledger_balances d acc operation amount correction =
     (if operation = ''initialize'' \<and> la_balance acc \<noteq> None
      then Inl (mk_failure F_initialized (Literal (''This FC'' @ [CHR 0x27] @ ''s ledger already has an opening balance.'')))
      else if operation \<noteq> ''initialize'' \<and> la_balance acc = None
      then Inl (mk_failure F_uninitialized
        (Literal (''This FC'' @ [CHR 0x27] @ ''s ledger has no opening balance yet, so it can'' @ [CHR 0x27] @ ''t record changes.'')))
      else
        (let corrected = Option.bind correction (correction_in d (la_id acc));
             before = (case la_balance acc of Some b \<Rightarrow> b | None \<Rightarrow> 0);
             balance = new_balance operation before amount
         in case (correction, corrected) of
              (Some ref, None) \<Rightarrow> Inl (mk_failure_detail F_not_found
                (Literal (''That entry isn'' @ [CHR 0x27] @ ''t in this FC'' @ [CHR 0x27] @
                          ''s ledger. Check its number or ID in /ledger history.''))
                (DResource Resource_entry (Some (reference_text ref)) None None None))
            | _ \<Rightarrow>
                if balance < 0
                then Inl (mk_failure_detail F_insufficient_funds (Withdrawing amount) (DFunds before amount))
                else if balance > int MAX_GIL
                then Inl (mk_failure_detail F_input
                  (Literal ''That would exceed the largest balance the ledger can store (9,223,372,036,854,775,807 gil).'')
                  (DOption ''amount''))
                else Inr (corrected, before, balance)))"

text \<open>The three writes of a recorded entry: the entry and the account, the channel post, the audit row.\<close>

definition ledger_write ::
  "ledger_world \<Rightarrow> actor \<Rightarrow> account \<Rightarrow> ledger_entry \<Rightarrow> ledger_db \<Rightarrow> ledger_db" where
  "ledger_write w a acc e d =
     d\<lparr>ld_entries := ld_entries d @ [e],
       ld_accounts := map (\<lambda>x. if la_id x = la_id acc
                               then x\<lparr>la_balance := Some (le_balance e), la_sequence := le_sequence e\<rparr> else x)
                        (ld_accounts d),
       ld_jobs := snd (enqueue (lw_now w) (lw_job w) ''ledger.notify'' (ledger_post_key (le_id e))
                     (JsonObject [(''entryId'', JsonText (le_id e))]) (Some (act_guild a)) (Some (act_user a)) 0
                     (ld_jobs d)),
       ld_audit := ld_audit d @ [\<lparr>ad_guild = act_guild a, ad_actor = act_user a,
                     ad_action = ''ledger.'' @ le_operation e, ad_target = le_id e,
                     ad_balance = le_balance e, ad_delta = le_delta e\<rparr>]\<rparr>"

definition ledger_account ::
  "ledger_world \<Rightarrow> actor \<Rightarrow> string \<Rightarrow> text16 \<Rightarrow> ident \<Rightarrow> int \<Rightarrow> string \<Rightarrow> entry_ref option \<Rightarrow>
   ledger_context \<Rightarrow> account \<Rightarrow> ledger_db \<Rightarrow> failure + (ledger_receipt \<times> ledger_db)" where
  "ledger_account w a operation noteText channel amount key correction ctx acc d =
     (case find (\<lambda>e. le_key e = key) (ld_entries d) of
        Some duplicate \<Rightarrow> and_then (ledger_replay d a acc ctx duplicate) (\<lambda>r. Inr (r, d))
      | None \<Rightarrow>
          and_then (ledger_balances d acc operation amount correction) (\<lambda>(corrected, before, balance).
            if operation = ''adjust'' \<and> balance = before then Inr (LedgerUnchanged ctx balance, d)
            else
              (let e = \<lparr>le_id = lw_entry w, le_account = la_id acc, le_sequence = la_sequence acc + 1,
                        le_operation = operation, le_delta = balance - before, le_balance = balance,
                        le_actor = Some (act_user a), le_guild = act_guild a, le_note = noteText,
                        le_event = lw_now w, le_key = key, le_correction = map_option fst corrected\<rparr>
               in Inr (Recorded ctx e corrected, ledger_write w a acc e d))))"

text \<open>The transaction, on the tables as they are when it takes its locks.\<close>

definition ledger_transaction ::
  "ledger_world \<Rightarrow> actor \<Rightarrow> string \<Rightarrow> string \<Rightarrow> entry_ref option \<Rightarrow>
   guild_row \<times> text16 \<times> ident \<times> ident \<times> int \<Rightarrow> ledger_db \<Rightarrow> thrown + (ledger_receipt \<times> ledger_db)" where
  "ledger_transaction w a operation key correction admitted d =
     (case admitted of (guild, noteText, linkedFc, channel, amount) \<Rightarrow>
       (case find (\<lambda>g. gd_id g = act_guild a) (ld_guilds d) of
          None \<Rightarrow> Inl (ThrownFailure (mk_failure F_conflict (Literal SETTINGS_CHANGED)))
        | Some current \<Rightarrow>
            if gd_revision current \<noteq> gd_revision guild
            then Inl (ThrownFailure (mk_failure F_conflict (Literal SETTINGS_CHANGED)))
            else
              (case (if operation = ''deposit'' then deposit_membership d current a else Inr ()) of
                 Inl f \<Rightarrow> Inl (ThrownFailure f)
               | Inr _ \<Rightarrow>
                   (case account_of d (act_guild a) linkedFc of
                      None \<Rightarrow> Inl (OtherError ''Error'')
                    | Some acc \<Rightarrow>
                        (case ledger_account w a operation noteText channel amount key correction
                                \<lparr>lc_mode = effectsMode (lw_enable w) current, lc_fc = lw_company w linkedFc,
                                 lc_channel = channel\<rparr> acc d of
                           Inl f \<Rightarrow> Inl (ThrownFailure f)
                         | Inr x \<Rightarrow> Inr x)))))"

text \<open>\<open>before\<close> are the tables the admission read, \<open>d\<close> those of the transaction.\<close>

definition record_gil ::
  "ledger_world \<Rightarrow> ledger_db \<Rightarrow> actor \<Rightarrow> string \<Rightarrow> js_value \<Rightarrow> text16 \<Rightarrow> string \<Rightarrow> entry_ref option \<Rightarrow>
   ledger_db \<Rightarrow> thrown + (ledger_receipt \<times> ledger_db)" where
  "record_gil w before a operation input noteText key correction d =
     (case ledger_admission w before a operation input noteText of
        Inl t \<Rightarrow> Inl t
      | Inr admitted \<Rightarrow> ledger_transaction w a operation key correction admitted d)"

section \<open>Reading\<close>

datatype ledger_cursor = Newest | Above int

record ledger_page =
  lp_before :: "int option"
  lp_entries :: "ledger_entry list"
  lp_older :: "int option"
  lp_newer :: "ledger_cursor option"
  lp_total :: nat
  lp_above :: nat
  lp_corrections :: "(ident \<times> int) list"

text \<open>The entries of an account, in insertion order, and a page of its history below a cursor.\<close>

definition entries_of :: "ledger_db \<Rightarrow> ident \<Rightarrow> ledger_entry list" where
  "entries_of d i = filter (\<lambda>e. le_account e = i) (ld_entries d)"

definition history_page :: "ledger_db \<Rightarrow> account \<Rightarrow> int option \<Rightarrow> ledger_page" where
  "history_page d acc cursor =
     (let es = entries_of d (la_id acc);
          top = (case cursor of Some c \<Rightarrow> c | None \<Rightarrow> la_sequence acc + 1);
          rows = take 11 (sort_key (\<lambda>e. - le_sequence e) (filter (\<lambda>e. le_sequence e < top) es));
          entries = take 10 rows;
          newerRows = take 11 (sort_key le_sequence (filter (\<lambda>e. le_sequence e \<ge> top) es));
          targets = js_set (concat (map (\<lambda>e. case given (le_correction e) of Some i \<Rightarrow> [i] | None \<Rightarrow> []) entries))
      in \<lparr>lp_before = cursor, lp_entries = entries,
          lp_older = (if length rows > 10 then Some (le_sequence (last entries)) else None),
          lp_newer = (if newerRows = [] then None
                      else if length newerRows > 10 then Some (Above (le_sequence (newerRows ! 9) + 1))
                      else Some Newest),
          lp_total = length es,
          lp_above = length (filter (\<lambda>e. le_sequence e \<ge> top) es),
          lp_corrections = map (\<lambda>e. (le_id e, le_sequence e)) (filter (\<lambda>e. le_id e \<in> set targets) es)\<rparr>)"

text \<open>The channel posts of the given entries, or of the account's entries when none are named: ten at most.\<close>

definition delivery :: "ledger_db \<Rightarrow> account \<Rightarrow> ident list option \<Rightarrow> (job \<times> ledger_entry) list" where
  "delivery d acc named =
     take 10 (sort_key (\<lambda>(_, e). - le_sequence e)
       (concat (map (\<lambda>r. map (\<lambda>e. (r, e))
          (filter (\<lambda>e. json_field (jb_payload r) ''entryId'' = Some (JsonText (le_id e)) \<and>
                      jb_kind r = ''ledger.notify'' \<and>
                      (case named of Some is \<Rightarrow> le_id e \<in> set is | None \<Rightarrow> True))
             (entries_of d (la_id acc)))) (ld_jobs d))))"

record ledger_view_context =
  lv_account :: account
  lv_fc :: "string option"
  lv_current :: bool
  lv_channel :: "ident option"
  lv_mode :: effects_mode

datatype ledger_view =
    BalanceView ledger_view_context bool "(job \<times> ledger_entry) list" "ledger_entry option"
  | HistoryView ledger_view_context ledger_page "(job \<times> ledger_entry) list"

text \<open>Whether the actor may read the target FC's ledger, and its account.\<close>

definition ledger_reader ::
  "ledger_db \<Rightarrow> actor \<Rightarrow> ident option \<Rightarrow> bool \<Rightarrow> failure + (guild_row \<times> ident \<times> account)" where
  "ledger_reader d a fcId expectCurrent =
     and_then (guild_of (ld_guilds d) a) (\<lambda>guild.
     if expectCurrent \<and> fcId \<noteq> gd_fc guild
     then Inl (mk_failure_detail F_stale
       (Literal ''The linked Free Company changed since this ledger view was shown. Run /ledger history again.'')
       (DStale StaleControl))
     else and_then (requireNotPaused a P_ledger_view) (\<lambda>_.
       (case given (case fcId of Some f \<Rightarrow> Some f | None \<Rightarrow> gd_fc guild) of
          None \<Rightarrow> Inl (mk_failure_detail F_setup
            (Literal ''No Free Company is linked to this server yet.'') (DSetup Setup_fc))
        | Some target \<Rightarrow>
            and_then (if Some target \<noteq> gd_fc guild
                      then requirePermission a (act_guild a) P_ledger_audit
                             (Some (''Only officers can view a previous FC'' @ [CHR 0x27] @ ''s ledger.''))
                      else Inr ()) (\<lambda>_.
            and_then (if can a P_ledger_audit then Inr ()
                      else if \<not> memberEligible (ld_links d) (ld_members d) guild (act_user a) then Inl membershipNeeded
                      else if \<not> can a P_ledger_view then Inl (memberRoleNeeded P_ledger_view)
                      else Inr ()) (\<lambda>_.
            case account_of d (act_guild a) target of
              None \<Rightarrow> Inl (mk_failure_detail F_not_found (NoLedgerFor target)
                            (DResource Resource_account (Some target) None None None))
            | Some acc \<Rightarrow> Inr (guild, target, acc))))))"

definition ledgerRead ::
  "ledger_world \<Rightarrow> ledger_db \<Rightarrow> actor \<Rightarrow> ident option \<Rightarrow> text16 option \<Rightarrow> bool \<Rightarrow> bool \<Rightarrow>
   failure + ledger_view" where
  "ledgerRead w d a fcId before history expectCurrent =
     and_then (ledger_reader d a fcId expectCurrent) (\<lambda>(guild, target, acc).
       let ctx = \<lparr>lv_account = acc, lv_fc = lw_company w target, lv_current = (Some target = gd_fc guild),
                  lv_channel = gd_ledger_channel guild, lv_mode = effectsMode (lw_enable w) guild\<rparr>
       in if \<not> history
          then Inr (BalanceView ctx (la_balance acc \<noteq> None) (delivery d acc None)
                 (case sort_key (\<lambda>e. - le_sequence e) (entries_of d (la_id acc)) of [] \<Rightarrow> None | e # _ \<Rightarrow> Some e))
          else and_then (case before of None \<Rightarrow> Inr None
                         | Some b \<Rightarrow> and_then (sequenceCursor (JString b)) (\<lambda>n. Inr (Some (int n)))) (\<lambda>cursor.
            let page = history_page d acc cursor
            in Inr (HistoryView ctx page
                 (if lp_entries page = [] then [] else delivery d acc (Some (map le_id (lp_entries page)))))))"

section \<open>The other writers of these tables\<close>

text \<open>
  Linking an FC opens its account without a balance (\<open>role-administration.ts\<close>), and an import opens
  an account with its opening entry (\<open>importer.ts\<close>).
\<close>

definition open_account :: "ident \<Rightarrow> ident \<Rightarrow> ident \<Rightarrow> ledger_db \<Rightarrow> ledger_db" where
  "open_account i guild fc d =
     (case account_of d guild fc of
        Some _ \<Rightarrow> d
      | None \<Rightarrow> d\<lparr>ld_accounts := ld_accounts d @
                  [\<lparr>la_id = i, la_guild = guild, la_fc = fc, la_balance = None, la_sequence = 0\<rparr>]\<rparr>)"

text \<open>\<open>None\<close> is a constraint of the tables (one account per server and FC, a balance in range, one
  entry per key) that refuses the insert.\<close>

definition import_account ::
  "ident \<Rightarrow> ident \<Rightarrow> int \<Rightarrow> string \<Rightarrow> ident \<Rightarrow> ident \<Rightarrow> int option \<Rightarrow> ledger_db \<Rightarrow> ledger_db option" where
  "import_account i entry now fingerprint guild fc balance d =
     (let key = ''import:'' @ fingerprint @ '':balance:'' @ fc
      in if account_of d guild fc \<noteq> None \<or> 
           (case balance of None \<Rightarrow> False | Some b \<Rightarrow> b < 0 \<or> b > int MAX_GIL \<or> list_ex (\<lambda>e. le_key e = key) (ld_entries d))
         then None
         else Some (d\<lparr>ld_accounts := ld_accounts d @
             [\<lparr>la_id = i, la_guild = guild, la_fc = fc, la_balance = balance,
               la_sequence = (if balance = None then 0 else 1)\<rparr>],
           ld_entries := ld_entries d @ (case balance of None \<Rightarrow> [] | Some b \<Rightarrow>
             [\<lparr>le_id = entry, le_account = i, le_sequence = 1, le_operation = ''import'', le_delta = b,
               le_balance = b, le_actor = None, le_guild = guild, le_note = units ''Imported opening balance'',
               le_event = now, le_key = key, le_correction = None\<rparr>])\<rparr>))"

end
