(* ===== verification/LedgerHistory.thy ===== *)
theory LedgerHistory
  imports Ledger
begin

text \<open>
  What holds of the ledger over any history of its writers: each account's entries are numbered from
  one without a gap, every stored balance is the sum of the deltas so far and within range, entries
  are only ever appended, a repeated request answers with the entry it recorded the first time, and
  walking the pages of the history shows every entry once.
\<close>

section \<open>Histories\<close>

inductive ledger_step :: "ledger_db \<Rightarrow> ledger_db \<Rightarrow> bool" where
  Record: "record_gil w before a operation input noteText key correction d = Inr (r, d') \<Longrightarrow>
    lw_entry w \<notin> set (map le_id (ld_entries d)) \<Longrightarrow> ledger_step d d'"
| Open: "i \<notin> set (map la_id (ld_accounts d)) \<Longrightarrow> ledger_step d (open_account i guild fc d)"
| Import: "import_account i e now fingerprint guild fc balance d = Some d' \<Longrightarrow>
    i \<notin> set (map la_id (ld_accounts d)) \<Longrightarrow> e \<notin> set (map le_id (ld_entries d)) \<Longrightarrow> ledger_step d d'"
| Elsewhere: "ld_entries d' = ld_entries d \<Longrightarrow> ld_accounts d' = ld_accounts d \<Longrightarrow> ledger_step d d'"

definition ledger_empty :: "ledger_db \<Rightarrow> bool" where
  "ledger_empty d \<longleftrightarrow> ld_entries d = [] \<and> ld_accounts d = []"

section \<open>The books\<close>

definition books :: "ledger_entry list \<Rightarrow> account \<Rightarrow> bool" where
  "books es acc \<longleftrightarrow>
     map le_sequence es = map (\<lambda>i. int i + 1) [0..<length es] \<and>
     la_sequence acc = int (length es) \<and>
     la_balance acc = (if es = [] then None else Some (sum_list (map le_delta es))) \<and>
     (\<forall>i < length es. le_balance (es ! i) = sum_list (map le_delta (take (Suc i) es)) \<and>
        0 \<le> le_balance (es ! i) \<and> le_balance (es ! i) \<le> int MAX_GIL)"

definition ledger_ok :: "ledger_db \<Rightarrow> bool" where
  "ledger_ok d \<longleftrightarrow>
     distinct (map la_id (ld_accounts d)) \<and> distinct (map le_id (ld_entries d)) \<and>
     distinct (map le_key (ld_entries d)) \<and>
     (\<forall>e \<in> set (ld_entries d). le_account e \<in> set (map la_id (ld_accounts d))) \<and>
     (\<forall>acc \<in> set (ld_accounts d). books (entries_of d (la_id acc)) acc)"

lemma books_empty: "books [] acc \<longleftrightarrow> la_sequence acc = 0 \<and> la_balance acc = None"
  by (simp add: books_def)

text \<open>One more entry, numbered next, whose balance is the old one plus its delta.\<close>

lemma books_snoc:
  assumes "books es acc" "le_sequence e = la_sequence acc + 1"
    and "le_balance e = (case la_balance acc of Some b \<Rightarrow> b | None \<Rightarrow> 0) + le_delta e"
    and "0 \<le> le_balance e" "le_balance e \<le> int MAX_GIL"
    and "la_sequence acc' = le_sequence e" "la_balance acc' = Some (le_balance e)"
  shows "books (es @ [e]) acc'"
proof -
  have b: "(case la_balance acc of Some b \<Rightarrow> b | None \<Rightarrow> 0) = sum_list (map le_delta es)"
    using assms(1) by (auto simp: books_def)
  have e: "le_balance e = sum_list (map le_delta es) + le_delta e"
    using assms(3) b by simp
  have old: "i < length es \<Longrightarrow> le_balance (es ! i) = sum_list (map le_delta (take (Suc i) es)) \<and>
      0 \<le> le_balance (es ! i) \<and> le_balance (es ! i) \<le> int MAX_GIL" for i
    using assms(1) unfolding books_def by blast
  have all: "le_balance ((es @ [e]) ! i) = sum_list (map le_delta (take (Suc i) (es @ [e]))) \<and>
      0 \<le> le_balance ((es @ [e]) ! i) \<and> le_balance ((es @ [e]) ! i) \<le> int MAX_GIL"
    if "i < length (es @ [e])" for i
  proof (cases "i < length es")
    case True
    then show ?thesis using old [OF True] by (simp add: nth_append)
  next
    case False
    then have "i = length es" using that by simp
    then show ?thesis using e assms(4,5) by simp
  qed
  have s: "la_sequence acc = int (length es)" "map le_sequence es = map (\<lambda>i. int i + 1) [0..<length es]"
    using assms(1) by (simp_all add: books_def)
  have "map le_sequence (es @ [e]) = map (\<lambda>i. int i + 1) [0..<length (es @ [e])]"
    "la_sequence acc' = int (length (es @ [e]))"
    "la_balance acc' = (if es @ [e] = [] then None else Some (sum_list (map le_delta (es @ [e]))))"
    using e s assms(2,6,7) by simp_all
  then show ?thesis
    unfolding books_def using all by blast
qed

lemma ledger_ok_empty: "ledger_empty d \<Longrightarrow> ledger_ok d"
  by (simp add: ledger_empty_def ledger_ok_def)

lemma ledger_ok_elsewhere:
  "ledger_ok d \<Longrightarrow> ld_entries d' = ld_entries d \<Longrightarrow> ld_accounts d' = ld_accounts d \<Longrightarrow> ledger_ok d'"
  by (simp add: ledger_ok_def entries_of_def)

lemma disjoint_images: "\<forall>x \<in> set xs. f x \<notin> A \<Longrightarrow> A \<inter> f ` set xs = {}"
  by auto

text \<open>A new account, with the entries written for it.\<close>

lemma ledger_ok_new_account:
  assumes "ledger_ok d" "la_id acc \<notin> set (map la_id (ld_accounts d))"
    and "\<forall>e \<in> set es. le_account e = la_id acc \<and> le_id e \<notin> set (map le_id (ld_entries d)) \<and>
           le_key e \<notin> set (map le_key (ld_entries d))"
    and "distinct (map le_id es)" "distinct (map le_key es)" "books es acc"
    and "ld_accounts d' = ld_accounts d @ [acc]" "ld_entries d' = ld_entries d @ es"
  shows "ledger_ok d'"
proof -
  have none: "entries_of d (la_id acc) = []"
  proof -
    have "le_account e \<in> set (map la_id (ld_accounts d))" if "e \<in> set (ld_entries d)" for e
      using assms(1) that unfolding ledger_ok_def by blast
    then show ?thesis
      using assms(2) unfolding entries_of_def filter_empty_conv by metis
  qed
  have new: "entries_of d' (la_id acc) = es"
    using none assms(3,8) by (simp add: entries_of_def filter_id_conv)
  have old: "entries_of d' (la_id x) = entries_of d (la_id x)" if "x \<in> set (ld_accounts d)" for x
    using that assms(2,3,8) by (auto simp: entries_of_def filter_empty_conv)
  have "\<forall>x \<in> set (ld_accounts d'). books (entries_of d' (la_id x)) x"
    using assms(1,6,7) new old by (simp add: ledger_ok_def)
  moreover have "set (map le_id (ld_entries d)) \<inter> set (map le_id es) = {}"
      "set (map le_key (ld_entries d)) \<inter> set (map le_key es) = {}"
    using assms(3) by (simp_all add: disjoint_images)
  then have ids: "distinct (map le_id (ld_entries d'))" "distinct (map le_key (ld_entries d'))"
    using assms(1,4,5,8) by (simp_all add: ledger_ok_def)
  moreover have "distinct (map la_id (ld_accounts d'))"
    using assms(1,2,7) by (simp add: ledger_ok_def)
  moreover have "\<forall>e \<in> set (ld_entries d'). le_account e \<in> set (map la_id (ld_accounts d'))"
    using assms(1,3,7,8) by (auto simp: ledger_ok_def)
  ultimately show ?thesis
    using ids by (simp add: ledger_ok_def)
qed

text \<open>What a successful recording did: nothing, or one entry that fits the account's books.\<close>

lemma ledger_balances_Inr:
  assumes "ledger_balances d acc operation amount correction = Inr (corrected, before, balance)"
  shows "before = (case la_balance acc of Some b \<Rightarrow> b | None \<Rightarrow> 0)" "balance = new_balance operation before amount"
    "0 \<le> balance" "balance \<le> int MAX_GIL" "(operation = ''initialize'') = (la_balance acc = None)"
    "corrected = Option.bind correction (correction_in d (la_id acc))" "correction \<noteq> None \<longrightarrow> corrected \<noteq> None"
  using assms
  by (auto simp: ledger_balances_def Let_def dest: sym split: if_splits option.splits)

lemma account_of_Some:
  "account_of d guild fc = Some acc \<Longrightarrow> acc \<in> set (ld_accounts d) \<and> la_guild acc = guild \<and> la_fc acc = fc"
  by (auto simp: account_of_def find_Some_iff)

lemma ledger_account_cases:
  assumes "ledger_account w a operation noteText channel amount key correction ctx acc d = Inr (r, d')"
  obtains
    (replay) duplicate post cr where "find (\<lambda>e. le_key e = key) (ld_entries d) = Some duplicate" "d' = d"
      "le_guild duplicate = act_guild a" "le_account duplicate = la_id acc"
      "r = AlreadyRecorded ctx duplicate cr post"
  | (unchanged) balance where "find (\<lambda>e. le_key e = key) (ld_entries d) = None" "operation = ''adjust''" "d' = d"
      "la_balance acc = Some balance" "r = LedgerUnchanged ctx balance"
  | (recorded) e corrected before balance where "find (\<lambda>e. le_key e = key) (ld_entries d) = None"
      "ledger_balances d acc operation amount correction = Inr (corrected, before, balance)"
      "e = \<lparr>le_id = lw_entry w, le_account = la_id acc, le_sequence = la_sequence acc + 1,
            le_operation = operation, le_delta = balance - before, le_balance = balance,
            le_actor = Some (act_user a), le_guild = act_guild a, le_note = noteText,
            le_event = lw_now w, le_key = key, le_correction = map_option fst corrected\<rparr>"
      "r = Recorded ctx e corrected" "d' = ledger_write w a acc e d"
proof (cases "find (\<lambda>e. le_key e = key) (ld_entries d)")
  case (Some duplicate)
  then show ?thesis
    using assms that(1) [of duplicate]
    by (auto simp: ledger_account_def ledger_replay_def split: if_splits)
next
  case None
  show ?thesis
  proof (cases "ledger_balances d acc operation amount correction")
    case (Inl f)
    then show ?thesis using assms None by (simp add: ledger_account_def)
  next
    case (Inr x)
    obtain corrected before balance where x: "x = (corrected, before, balance)" by (cases x)
    note b = Inr [unfolded x]
    show ?thesis
    proof (cases "operation = ''adjust'' \<and> balance = before")
      case True
      have "la_balance acc = Some balance"
        using ledger_balances_Inr(1,5) [OF b] True by (auto split: option.splits)
      then show ?thesis
        using assms None b True that(2) [of balance] by (simp add: ledger_account_def)
    next
      case False
      then show ?thesis
        using assms None b that(3) [of corrected before balance] by (auto simp: ledger_account_def Let_def)
    qed
  qed
qed

lemma ledger_transaction_Inr:
  assumes "ledger_transaction w a operation key correction (guild, noteText, fc, channel, amount) d = Inr (r, d')"
  obtains current acc ctx where "find (\<lambda>g. gd_id g = act_guild a) (ld_guilds d) = Some current"
    "gd_revision current = gd_revision guild"
    "operation = ''deposit'' \<longrightarrow> deposit_membership d current a = Inr ()"
    "account_of d (act_guild a) fc = Some acc"
    "ledger_account w a operation noteText channel amount key correction ctx acc d = Inr (r, d')"
  using assms
  by (auto simp: ledger_transaction_def split: option.splits sum.splits if_splits)

lemma record_gil_Inr:
  assumes "record_gil w before a operation input noteText key correction d = Inr (r, d')"
  obtains guild n fc channel amount where
    "ledger_admission w before a operation input noteText = Inr (guild, n, fc, channel, amount)"
    "ledger_transaction w a operation key correction (guild, n, fc, channel, amount) d = Inr (r, d')"
  using assms by (auto simp: record_gil_def split: sum.splits)

text \<open>The three outcomes of a request that did not fail.\<close>

lemma record_gil_cases:
  assumes "record_gil w before a operation input noteText key correction d = Inr (r, d')"
  obtains
    (replay) ctx duplicate post cr where "find (\<lambda>e. le_key e = key) (ld_entries d) = Some duplicate" "d' = d"
      "r = AlreadyRecorded ctx duplicate cr post"
  | (unchanged) ctx balance where "find (\<lambda>e. le_key e = key) (ld_entries d) = None" "d' = d"
      "r = LedgerUnchanged ctx balance"
  | (recorded) acc amount e corrected old balance guild n fc channel current ctx where
      "ledger_admission w before a operation input noteText = Inr (guild, n, fc, channel, amount)"
      "find (\<lambda>g. gd_id g = act_guild a) (ld_guilds d) = Some current"
      "gd_revision current = gd_revision guild"
      "operation = ''deposit'' \<longrightarrow> deposit_membership d current a = Inr ()"
      "account_of d (act_guild a) fc = Some acc"
      "find (\<lambda>e. le_key e = key) (ld_entries d) = None"
      "ledger_balances d acc operation amount correction = Inr (corrected, old, balance)"
      "e = \<lparr>le_id = lw_entry w, le_account = la_id acc, le_sequence = la_sequence acc + 1,
            le_operation = operation, le_delta = balance - old, le_balance = balance,
            le_actor = Some (act_user a), le_guild = act_guild a, le_note = n,
            le_event = lw_now w, le_key = key, le_correction = map_option fst corrected\<rparr>"
      "r = Recorded ctx e corrected" "d' = ledger_write w a acc e d"
proof -
  obtain guild n fc channel amount where
    admitted: "ledger_admission w before a operation input noteText = Inr (guild, n, fc, channel, amount)"
    and t: "ledger_transaction w a operation key correction (guild, n, fc, channel, amount) d = Inr (r, d')"
    by (rule record_gil_Inr [OF assms])
  obtain current acc ctx where c: "find (\<lambda>g. gd_id g = act_guild a) (ld_guilds d) = Some current"
    "gd_revision current = gd_revision guild"
    "operation = ''deposit'' \<longrightarrow> deposit_membership d current a = Inr ()"
    "account_of d (act_guild a) fc = Some acc"
    and l: "ledger_account w a operation n channel amount key correction ctx acc d = Inr (r, d')"
    by (rule ledger_transaction_Inr [OF t])
  show ?thesis
    using l
  proof (cases rule: ledger_account_cases)
    case (replay duplicate post cr)
    then show ?thesis using that(1) by blast
  next
    case (unchanged balance)
    then show ?thesis using that(2) by blast
  next
    case (recorded e corrected old balance)
    show ?thesis by (rule that(3) [OF admitted c recorded(1,2,3,4,5)])
  qed
qed

lemma ledger_write_simps [simp]:
  "ld_entries (ledger_write w a acc e d) = ld_entries d @ [e]"
  "map la_id (ld_accounts (ledger_write w a acc e d)) = map la_id (ld_accounts d)"
  "ld_guilds (ledger_write w a acc e d) = ld_guilds d"
  "ld_links (ledger_write w a acc e d) = ld_links d" "ld_members (ledger_write w a acc e d) = ld_members d"
  by (simp_all add: ledger_write_def comp_def if_distrib cong: map_cong if_cong)

lemma find_key_None: "find (\<lambda>e. le_key e = key) es = None \<longleftrightarrow> key \<notin> set (map le_key es)"
  by (auto simp: find_None_iff)

lemma ledger_ok_write:
  assumes ok: "ledger_ok d" and acc: "acc \<in> set (ld_accounts d)"
    and e: "le_account e = la_id acc" "le_sequence e = la_sequence acc + 1"
      "le_balance e = (case la_balance acc of Some b \<Rightarrow> b | None \<Rightarrow> 0) + le_delta e"
      "0 \<le> le_balance e" "le_balance e \<le> int MAX_GIL"
    and new: "le_id e \<notin> set (map le_id (ld_entries d))" "le_key e \<notin> set (map le_key (ld_entries d))"
  shows "ledger_ok (ledger_write w a acc e d)"
proof -
  let ?d = "ledger_write w a acc e d"
  let ?f = "\<lambda>x. if la_id x = la_id acc
                 then x\<lparr>la_balance := Some (le_balance e), la_sequence := le_sequence e\<rparr> else x"
  have ids: "distinct (map la_id (ld_accounts d))"
    using ok by (simp add: ledger_ok_def)
  have same: "x = acc" if "x \<in> set (ld_accounts d)" "la_id x = la_id acc" for x
    by (rule inj_onD [OF _ that(2) that(1) acc]) (use ids in \<open>simp add: distinct_map\<close>)
  have kept: "books (entries_of ?d (la_id (?f x))) (?f x)" if x: "x \<in> set (ld_accounts d)" for x
  proof (cases "la_id x = la_id acc")
    case True
    then have "x = acc" using same x by blast
    moreover have "books (entries_of d (la_id acc)) acc"
      using ok acc unfolding ledger_ok_def by blast
    then have "books (entries_of d (la_id acc) @ [e])
        (acc\<lparr>la_balance := Some (le_balance e), la_sequence := le_sequence e\<rparr>)"
      by (rule books_snoc) (use e in simp_all)
    ultimately show ?thesis
      using e(1) by (simp add: entries_of_def)
  next
    case False
    moreover have "books (entries_of d (la_id x)) x"
      using ok x unfolding ledger_ok_def by blast
    ultimately show ?thesis
      using e(1) by (simp add: entries_of_def)
  qed
  have accounts: "ld_accounts ?d = map ?f (ld_accounts d)"
    by (simp add: ledger_write_def)
  have "\<forall>x \<in> set (ld_accounts ?d). books (entries_of ?d (la_id x)) x"
    unfolding accounts set_map using kept by (blast elim: imageE)
  moreover have "la_id acc \<in> set (map la_id (ld_accounts d))"
    using acc by simp
  then have "\<forall>x \<in> set (ld_entries ?d). le_account x \<in> set (map la_id (ld_accounts ?d))"
    using ok e(1) unfolding ledger_ok_def ledger_write_simps by simp
  ultimately show ?thesis
    using ok new unfolding ledger_ok_def ledger_write_simps by simp
qed

lemma ledger_ok_open: "ledger_ok d \<Longrightarrow> i \<notin> set (map la_id (ld_accounts d)) \<Longrightarrow> ledger_ok (open_account i guild fc d)"
proof (cases "account_of d guild fc")
  case None
  assume "ledger_ok d" "i \<notin> set (map la_id (ld_accounts d))"
  then show ?thesis
    by (rule_tac ledger_ok_new_account [where es = "[]"])
       (simp_all add: None open_account_def books_empty)
qed (simp add: open_account_def)

lemma ledger_ok_import:
  assumes ok: "ledger_ok d" and imp: "import_account i e now fingerprint guild fc balance d = Some d'"
    and new: "i \<notin> set (map la_id (ld_accounts d))" "e \<notin> set (map le_id (ld_entries d))"
  shows "ledger_ok d'"
proof -
  define acc where "acc = \<lparr>la_id = i, la_guild = guild, la_fc = fc, la_balance = balance,
               la_sequence = (if balance = None then 0 else 1)\<rparr>"
  define key where "key = ''import:'' @ fingerprint @ '':balance:'' @ fc"
  define es where "es = (case balance of None \<Rightarrow> [] | Some b \<Rightarrow>
             [\<lparr>le_id = e, le_account = i, le_sequence = 1, le_operation = ''import'', le_delta = b,
               le_balance = b, le_actor = None, le_guild = guild, le_note = units ''Imported opening balance'',
               le_event = now, le_key = key, le_correction = None\<rparr>])"
  have guard: "\<not> (case balance of None \<Rightarrow> False | Some b \<Rightarrow> b < 0 \<or> b > int MAX_GIL \<or> list_ex (\<lambda>e. le_key e = key) (ld_entries d))"
    and d': "d' = d\<lparr>ld_accounts := ld_accounts d @ [acc], ld_entries := ld_entries d @ es\<rparr>"
    using imp [unfolded import_account_def Let_def, folded key_def, folded acc_def es_def]
    by (simp_all split: if_split_asm)
  have fresh_key: "balance \<noteq> None \<Longrightarrow> key \<notin> set (map le_key (ld_entries d))"
    using guard by (auto simp: list_ex_iff)
  show ?thesis
  proof (rule ledger_ok_new_account [OF ok])
    show "la_id acc \<notin> set (map la_id (ld_accounts d))" using new(1) by (simp add: acc_def)
    show "\<forall>x \<in> set es. le_account x = la_id acc \<and> le_id x \<notin> set (map le_id (ld_entries d)) \<and>
           le_key x \<notin> set (map le_key (ld_entries d))"
      using new(2) fresh_key by (cases balance) (simp_all add: es_def acc_def)
    show "distinct (map le_id es)" "distinct (map le_key es)"
      by (simp_all add: es_def split: option.splits)
    show "books es acc"
      using guard by (simp add: es_def acc_def books_def split: option.splits)
    show "ld_accounts d' = ld_accounts d @ [acc]" "ld_entries d' = ld_entries d @ es"
      by (simp_all add: d')
  qed
qed

lemma ledger_ok_record:
  assumes ok: "ledger_ok d"
    and rec: "record_gil w before a operation input noteText key correction d = Inr (r, d')"
    and fresh: "lw_entry w \<notin> set (map le_id (ld_entries d))"
  shows "ledger_ok d'"
  using rec
proof (cases rule: record_gil_cases)
  case (recorded acc amount e corrected old balance)
  have acc: "acc \<in> set (ld_accounts d)"
    using account_of_Some [OF recorded(5)] by blast
  note b = ledger_balances_Inr [OF recorded(7)]
  show ?thesis
    unfolding recorded(10)
    by (rule ledger_ok_write [OF ok acc])
       (use b(1,3,4) recorded(6) fresh in \<open>simp_all add: recorded(8) find_key_None\<close>)
qed (use ok in simp_all)

lemma ledger_step_ok: "ledger_step d d' \<Longrightarrow> ledger_ok d \<Longrightarrow> ledger_ok d'"
  by (induction rule: ledger_step.induct)
     (blast intro: ledger_ok_record ledger_ok_open ledger_ok_import ledger_ok_elsewhere)+

lemma ledger_history_ok: "rtranclp ledger_step d d' \<Longrightarrow> ledger_ok d \<Longrightarrow> ledger_ok d'"
  by (induction rule: rtranclp_induct) (auto intro: ledger_step_ok)

lemma ledger_step_appends: "ledger_step d d' \<Longrightarrow> \<exists>es. ld_entries d' = ld_entries d @ es"
proof (induction rule: ledger_step.induct)
  case (Record w before a operation input noteText key correction d r d')
  from Record(1) show ?case
    by (cases rule: record_gil_cases) simp_all
next
  case (Open i d guild fc)
  then show ?case by (simp add: open_account_def split: option.splits)
next
  case (Import i e now fingerprint guild fc balance d d')
  then show ?case by (auto simp: import_account_def Let_def split: if_splits)
qed simp

lemma ledger_history_appends: "rtranclp ledger_step d d' \<Longrightarrow> \<exists>es. ld_entries d' = ld_entries d @ es"
proof (induction rule: rtranclp_induct)
  case (step y z)
  then show ?case using ledger_step_appends [of y z] by auto
qed simp

lemma filter_one:
  "distinct xs \<Longrightarrow> x \<in> set xs \<Longrightarrow> (\<And>y. y \<in> set xs \<Longrightarrow> P y \<longleftrightarrow> y = x) \<Longrightarrow> filter P xs = [x]"
proof (induction xs)
  case (Cons a xs)
  then show ?case
    by (cases "a = x") (auto simp: filter_empty_conv)
qed simp

text \<open>What an account holds, read off the books.\<close>

lemma history_books:
  assumes "rtranclp ledger_step d d'" "ledger_empty d" "acc \<in> set (ld_accounts d')"
  shows "books (entries_of d' (la_id acc)) acc"
  using ledger_history_ok [OF assms(1) ledger_ok_empty [OF assms(2)]] assms(3) unfolding ledger_ok_def by blast

section \<open>Properties\<close>

text \<open>
  (C17) At any moment of any history of recordings, links and imports, an account's entries are numbered
  1, 2, 3, ... in the order they were stored, the account's sequence is the last number, every stored
  balance is the exact sum of the deltas up to its entry and lies between 0 and the storable maximum, and
  the account's balance is the sum of all of them (none exactly while there is no entry).
  The numbers have no gaps, imports included: an import opens an account with at most one entry, numbered 1, and
  nothing deletes an entry. (The comment in \<open>ledgerRead\<close> allows for gaps.)
\<close>

theorem ledger_balances_are_the_sum:
  assumes "rtranclp ledger_step d d'" "ledger_empty d" "acc \<in> set (ld_accounts d')"
  shows "map le_sequence (entries_of d' (la_id acc)) = map (\<lambda>i. int i + 1) [0..<length (entries_of d' (la_id acc))] \<and>
    la_sequence acc = int (length (entries_of d' (la_id acc))) \<and>
    map le_balance (entries_of d' (la_id acc)) =
      map (\<lambda>i. sum_list (map le_delta (take (Suc i) (entries_of d' (la_id acc))))) [0..<length (entries_of d' (la_id acc))] \<and>
    (\<forall>e \<in> set (entries_of d' (la_id acc)). 0 \<le> le_balance e \<and> le_balance e \<le> int MAX_GIL) \<and>
    la_balance acc = (if entries_of d' (la_id acc) = [] then None
                      else Some (sum_list (map le_delta (entries_of d' (la_id acc)))))"
proof -
  let ?es = "entries_of d' (la_id acc)"
  have b: "books ?es acc" by (rule history_books [OF assms])
  have each: "\<forall>i < length ?es. le_balance (?es ! i) = sum_list (map le_delta (take (Suc i) ?es)) \<and>
      0 \<le> le_balance (?es ! i) \<and> le_balance (?es ! i) \<le> int MAX_GIL"
    using b unfolding books_def by blast
  have "map le_balance ?es = map (\<lambda>i. sum_list (map le_delta (take (Suc i) ?es))) [0..<length ?es]"
    using each by (intro nth_equalityI) simp_all
  moreover have "\<forall>e \<in> set ?es. 0 \<le> le_balance e \<and> le_balance e \<le> int MAX_GIL"
    using each unfolding all_set_conv_all_nth by blast
  ultimately show ?thesis
    using b unfolding books_def by blast
qed

text \<open>
  An interaction is recorded once: after a request stored an entry under its key, any later request
  with the same key, whatever else it asks and whatever other requests, links and imports happened in
  between, either fails or changes nothing and answers with that entry; no other entry has the key.
\<close>

theorem ledger_key_recorded_once:
  assumes "rtranclp ledger_step d d1" "ledger_empty d"
    and "record_gil w before a operation input noteText key correction d1 = Inr (Recorded c e corrected, d2)"
    and "lw_entry w \<notin> set (map le_id (ld_entries d1))"
    and "rtranclp ledger_step d2 d3"
    and "record_gil w' before' a' operation' input' noteText' key correction' d3 = Inr (r, d4)"
  shows "d4 = d3 \<and> (\<exists>c' cr post. r = AlreadyRecorded c' e cr post) \<and>
    filter (\<lambda>x. le_key x = key) (ld_entries d3) = [e]"
proof -
  have e: "ld_entries d2 = ld_entries d1 @ [e] \<and> le_key e = key"
    using assms(3) by (cases rule: record_gil_cases) auto
  obtain es where es: "ld_entries d3 = ld_entries d2 @ es"
    using ledger_history_appends [OF assms(5)] by blast
  have "ledger_step d1 d2" by (rule Record [OF assms(3,4)])
  then have "rtranclp ledger_step d d3"
    using assms(1,5) by (meson rtranclp.rtrancl_into_rtrancl rtranclp_trans)
  then have keys: "distinct (map le_key (ld_entries d3))"
    using ledger_history_ok ledger_ok_empty [OF assms(2)] unfolding ledger_ok_def by blast
  have here: "e \<in> set (ld_entries d3)" using e es by simp
  have only: "x = e" if "x \<in> set (ld_entries d3)" "le_key x = key" for x
    by (rule inj_onD [where f = le_key and A = "set (ld_entries d3)"]) (use that e keys here in \<open>simp_all add: distinct_map\<close>)
  have key: "le_key e = key" using e by blast
  have f: "find (\<lambda>x. le_key x = key) (ld_entries d3) = Some e"
  proof (cases "find (\<lambda>x. le_key x = key) (ld_entries d3)")
    case None
    then have "key \<notin> set (map le_key (ld_entries d3))" unfolding find_key_None .
    moreover have "le_key e \<in> set (map le_key (ld_entries d3))" using here by simp
    ultimately show ?thesis unfolding key by blast
  next
    case (Some x)
    then have "x \<in> set (ld_entries d3)" "le_key x = key" by (auto simp: find_Some_iff)
    then show ?thesis using only Some by simp
  qed
  have "distinct (ld_entries d3)"
    using keys by (simp add: distinct_map)
  then have one: "filter (\<lambda>x. le_key x = key) (ld_entries d3) = [e]"
    by (rule filter_one) (use here only key in blast)+
  from assms(6) show ?thesis
  proof (cases rule: record_gil_cases)
    case (replay ctx duplicate post cr)
    then show ?thesis using one f by simp
  qed (use f in simp_all)
qed

text \<open>
  (C18) An entry is only recorded for someone who may: a deposit for a confirmed member of the linked FC
  or an auditor who holds the deposit permission, anything else for the holder of its own permission; in
  the settings the request was checked against; on the account of the server's linked FC. It stores exactly
  that entry after the earlier ones, moves only that account to its balance and number, queues one post
  for the entry and one audit row. The balance is the one the operation asks for.
\<close>

theorem ledger_recorded:
  assumes "record_gil w before a operation input noteText key correction d = Inr (Recorded c e corrected, d')"
  shows "\<exists>acc guild current amount p. guild_of (ld_guilds before) a = Inr guild \<and>
    find (\<lambda>g. gd_id g = act_guild a) (ld_guilds d) = Some current \<and> gd_revision current = gd_revision guild \<and>
    LEDGER_PERMISSION operation = Some p \<and> can a p \<and>
    (operation = ''deposit'' \<longrightarrow> can a P_ledger_audit \<or> memberEligible (ld_links d) (ld_members d) current (act_user a)) \<and>
    ledger_amount operation input = Inr amount \<and>
    acc \<in> set (ld_accounts d) \<and> la_guild acc = act_guild a \<and> given (gd_fc guild) = Some (la_fc acc) \<and>
    le_account e = la_id acc \<and> le_sequence e = la_sequence acc + 1 \<and>
    le_balance e = new_balance operation (le_balance e - le_delta e) amount \<and>
    la_balance acc = (if operation = ''initialize'' then None else Some (le_balance e - le_delta e)) \<and>
    0 \<le> le_balance e \<and> le_balance e \<le> int MAX_GIL \<and> le_key e = key \<and> le_actor e = Some (act_user a) \<and>
    d' = ledger_write w a acc e d"
  using assms
proof (cases rule: record_gil_cases)
  case (recorded acc amount e' cr old balance guild n fc channel current ctx)
  have e: "e' = e" using recorded(9) by simp
  from recorded(1) obtain p where p: "guild_of (ld_guilds before) a = Inr guild" "LEDGER_PERMISSION operation = Some p"
      "operation \<noteq> ''deposit'' \<longrightarrow> requirePermission a (act_guild a) p (Some OFFICERS_RECORD) = Inr ()"
      "given (gd_fc guild) = Some fc" "ledger_amount operation input = Inr amount"
    by (auto simp: ledger_admission_def and_then_Inr_iff split: sum.splits option.splits if_splits)
  have dep: "operation = ''deposit'' \<longrightarrow> (can a P_ledger_audit \<or> memberEligible (ld_links d) (ld_members d) current (act_user a)) \<and> can a P_ledger_deposit"
    using recorded(4) by (auto simp: deposit_membership_def split: if_splits)
  have may: "can a p"
  proof (cases "operation = ''deposit''")
    case True
    then show ?thesis using dep p(2) by (simp add: LEDGER_PERMISSION_def)
  next
    case False
    then show ?thesis using p(3) by (simp add: requirePermission_Inr_iff)
  qed
  note b = ledger_balances_Inr [OF recorded(7)]
  have bal: "la_balance acc = (if operation = ''initialize'' then None else Some old)"
    using b(1,5) by (auto split: option.splits)
  note acc = account_of_Some [OF recorded(5)]
  have entry: "le_account e = la_id acc" "le_sequence e = la_sequence acc + 1" "le_balance e = balance"
      "le_balance e - le_delta e = old" "le_key e = key" "le_actor e = Some (act_user a)"
    by (simp_all add: recorded(8) flip: e)
  have "la_guild acc = act_guild a" "given (gd_fc guild) = Some (la_fc acc)" "acc \<in> set (ld_accounts d)"
      "d' = ledger_write w a acc e d"
    using acc p(4) recorded(10) e by simp_all
  moreover have "operation = ''deposit'' \<longrightarrow> can a P_ledger_audit \<or> memberEligible (ld_links d) (ld_members d) current (act_user a)"
    using dep by blast
  moreover have "le_balance e = new_balance operation (le_balance e - le_delta e) amount"
      "la_balance acc = (if operation = ''initialize'' then None else Some (le_balance e - le_delta e))"
      "0 \<le> le_balance e" "le_balance e \<le> int MAX_GIL"
    unfolding entry(4) unfolding entry(3) by (rule b(2) bal b(3) b(4))+
  ultimately show ?thesis
    using p(1,2,5) may recorded(2,3) entry(1,2,5,6) by blast
qed simp_all

section \<open>Pages\<close>

definition numbered :: "ledger_entry list \<Rightarrow> bool" where
  "numbered es \<longleftrightarrow> map le_sequence es = map (\<lambda>i. int i + 1) [0..<length es]"

lemma numbered_nth: "numbered es \<Longrightarrow> i < length es \<Longrightarrow> le_sequence (es ! i) = int i + 1"
proof -
  assume n: "numbered es" and i: "i < length es"
  have "map le_sequence es ! i = map (\<lambda>i. int i + 1) [0..<length es] ! i"
    using n by (simp only: numbered_def)
  then show ?thesis using i by simp
qed

lemma numbered_inj: "numbered es \<Longrightarrow> inj_on le_sequence (set es)"
  by (intro inj_onI) (auto simp: in_set_conv_nth numbered_nth)

lemma numbered_below:
  assumes "numbered es" "k \<le> length es"
  shows "filter (\<lambda>e. le_sequence e < int k + 1) es = take k es"
    and "filter (\<lambda>e. le_sequence e \<ge> int k + 1) es = drop k es"
proof -
  have a: "\<forall>e \<in> set (take k es). le_sequence e < int k + 1"
    using assms by (auto simp: in_set_conv_nth numbered_nth)
  have b: "\<forall>e \<in> set (drop k es). \<not> le_sequence e < int k + 1"
    using assms by (auto simp: in_set_conv_nth numbered_nth)
  have "filter (\<lambda>e. le_sequence e < int k + 1) (take k es) = take k es"
      "filter (\<lambda>e. le_sequence e < int k + 1) (drop k es) = []"
      "filter (\<lambda>e. le_sequence e \<ge> int k + 1) (take k es) = []"
      "filter (\<lambda>e. le_sequence e \<ge> int k + 1) (drop k es) = drop k es"
    using a b by (fastforce simp: filter_empty_conv filter_id_conv)+
  moreover have "filter P es = filter P (take k es) @ filter P (drop k es)" for P
    by (simp flip: filter_append)
  ultimately show "filter (\<lambda>e. le_sequence e < int k + 1) es = take k es"
      "filter (\<lambda>e. le_sequence e \<ge> int k + 1) es = drop k es"
    by simp_all
qed

lemma numbered_sorted:
  assumes "numbered es" "k \<le> length es"
  shows "sort_key (\<lambda>e. - le_sequence e) (take k es) = rev (take k es)"
    and "sort_key le_sequence (drop k es) = drop k es"
proof -
  have "sorted (map (\<lambda>e. - le_sequence e) (rev (take k es)))"
    unfolding sorted_iff_nth_mono using assms by (simp add: rev_nth numbered_nth)
  moreover have "inj_on (\<lambda>e. - le_sequence e) (set (take k es))"
    using inj_on_subset [OF numbered_inj [OF assms(1)] set_take_subset] by (simp add: inj_on_def)
  ultimately show "sort_key (\<lambda>e. - le_sequence e) (take k es) = rev (take k es)"
    by (intro sort_key_inj_key_eq) simp_all
  have "sorted (map le_sequence (drop k es))"
    unfolding sorted_iff_nth_mono using assms by (simp add: numbered_nth)
  then show "sort_key le_sequence (drop k es) = drop k es"
    by (rule sort_key_id_if_sorted)
qed

text \<open>The page whose top is just above the first \<open>k\<close> entries.\<close>

lemma page_at:
  assumes es: "es = entries_of d (la_id acc)" "numbered es" "la_sequence acc = int (length es)"
    and c: "cursor = Some (int k + 1) \<or> cursor = None \<and> k = length es" "k \<le> length es"
  shows "lp_entries (history_page d acc cursor) = take 10 (rev (take k es))"
    and "lp_older (history_page d acc cursor) = (if k > 10 then Some (int (k - 10) + 1) else None)"
    and "lp_newer (history_page d acc cursor) =
           (if k = length es then None
            else if length es - k > 10 then Some (Above (int (k + 10) + 1)) else Some Newest)"
    and "lp_total (history_page d acc cursor) = length es"
    and "lp_above (history_page d acc cursor) = length es - k"
proof -
  have top: "(case cursor of Some c \<Rightarrow> c | None \<Rightarrow> la_sequence acc + 1) = int k + 1"
    using c es(3) by (auto split: option.splits)
  note below = numbered_below [OF es(2) c(2)] and sorted = numbered_sorted [OF es(2) c(2)]
  note page = history_page_def [of d acc cursor, folded es(1), unfolded top Let_def below sorted]
  have take: "take 10 (take 11 (rev (take k es))) = take 10 (rev (take k es))"
    by simp
  show "lp_entries (history_page d acc cursor) = take 10 (rev (take k es))"
    by (simp add: page)
  have "k > 10 \<Longrightarrow> last (take 10 (rev (take k es))) = es ! (k - 10)"
    using c(2) by (subst last_conv_nth) (auto simp: rev_nth)
  then show "lp_older (history_page d acc cursor) = (if k > 10 then Some (int (k - 10) + 1) else None)"
    using c(2) numbered_nth [OF es(2), of "k - 10"] by (simp add: page)
  show "lp_newer (history_page d acc cursor) =
           (if k = length es then None
            else if length es - k > 10 then Some (Above (int (k + 10) + 1)) else Some Newest)"
    using c(2) numbered_nth [OF es(2), of "k + 9"] by (simp add: page nth_append)
  show "lp_total (history_page d acc cursor) = length es" "lp_above (history_page d acc cursor) = length es - k"
    by (simp_all add: page)
qed

lemma books_numbered:
  assumes "rtranclp ledger_step d d'" "ledger_empty d" "acc \<in> set (ld_accounts d')"
  shows "numbered (entries_of d' (la_id acc))" "la_sequence acc = int (length (entries_of d' (la_id acc)))"
  using history_books [OF assms] unfolding books_def numbered_def by blast+

text \<open>Following \<open>older\<close> from a cursor, at most \<open>n\<close> pages.\<close>

fun history_walk :: "nat \<Rightarrow> ledger_db \<Rightarrow> account \<Rightarrow> int option \<Rightarrow> ledger_entry list" where
  "history_walk 0 d acc cursor = []"
| "history_walk (Suc n) d acc cursor =
     (let page = history_page d acc cursor
      in lp_entries page @ (case lp_older page of None \<Rightarrow> [] | Some c \<Rightarrow> history_walk n d acc (Some c)))"

lemma history_walk_from:
  assumes es: "es = entries_of d (la_id acc)" "numbered es" "la_sequence acc = int (length es)"
  shows "cursor = Some (int k + 1) \<or> cursor = None \<and> k = length es \<Longrightarrow> k \<le> length es \<Longrightarrow> k \<le> 10 * n \<Longrightarrow>
    history_walk n d acc cursor = rev (take k es)"
proof (induction n arbitrary: k cursor)
  case (Suc n)
  note page = page_at [OF es Suc.prems(1,2)]
  show ?case
  proof (cases "k > 10")
    case True
    have "history_walk n d acc (Some (int (k - 10) + 1)) = rev (take (k - 10) es)"
      by (rule Suc.IH) (use Suc.prems True in auto)
    moreover have "drop 10 (rev (take k es)) = rev (take (k - 10) es)"
      using Suc.prems(2) by (simp add: drop_rev min_def)
    ultimately show ?thesis
      using True page(1,2) append_take_drop_id [of 10 "rev (take k es)"] by (simp add: Let_def)
  next
    case False
    then show ?thesis using page(1,2) by (simp add: Let_def)
  qed
qed simp

text \<open>The cursor a \<open>newer\<close> control asks for.\<close>

fun follow_newer :: "ledger_cursor \<Rightarrow> int option" where
  "follow_newer Newest = None"
| "follow_newer (Above c) = Some c"

text \<open>
  (C37) At any moment of any history, walking an account's pages from the newest one along \<open>older\<close> shows
  every entry exactly once, newest first, and ends after as many pages as tens of entries.
\<close>

theorem history_walk_complete:
  assumes "rtranclp ledger_step d d'" "ledger_empty d" "acc \<in> set (ld_accounts d')"
    and "length (entries_of d' (la_id acc)) \<le> 10 * n"
  shows "history_walk n d' acc None = rev (entries_of d' (la_id acc))"
  using history_walk_from [OF refl books_numbered [OF assms(1-3)], of None] assms(4) by simp

text \<open>
  Going to the older page and back by its \<open>newer\<close> control shows the page one came from, wherever in
  the history the page stands.
\<close>

theorem older_then_newer:
  assumes "rtranclp ledger_step d d'" "ledger_empty d" "acc \<in> set (ld_accounts d')"
    and "cursor = None \<or> (\<exists>c. cursor = Some c \<and> 1 \<le> c \<and> c \<le> la_sequence acc + 1)"
    and "lp_older (history_page d' acc cursor) = Some c'"
  shows "\<exists>t. lp_newer (history_page d' acc (Some c')) = Some t \<and>
    lp_entries (history_page d' acc (follow_newer t)) = lp_entries (history_page d' acc cursor)"
proof -
  define es where "es = entries_of d' (la_id acc)"
  note n = books_numbered [OF assms(1-3), folded es_def]
  obtain k where k: "cursor = Some (int k + 1) \<or> cursor = None \<and> k = length es" "k \<le> length es"
  proof (cases cursor)
    case None
    then show ?thesis using that [of "length es"] by simp
  next
    case (Some c)
    then show ?thesis using that [of "nat (c - 1)"] assms(4) n(2) by auto
  qed
  note here = page_at [OF es_def n k]
  have c': "k > 10" "c' = int (k - 10) + 1"
    using assms(5) here(2) by (auto split: if_splits)
  have older: "lp_newer (history_page d' acc (Some c')) =
      (if length es - (k - 10) > 10 then Some (Above (int k + 1)) else Some Newest)"
    using page_at(3) [OF es_def n, of "Some c'" "k - 10"] c' k(2) by simp
  show ?thesis
  proof (cases "length es - (k - 10) > 10")
    case True
    have "lp_entries (history_page d' acc (Some (int k + 1))) = take 10 (rev (take k es))"
      by (rule page_at(1) [OF es_def n]) (use k in simp_all)
    then show ?thesis using older True here(1) by simp
  next
    case False
    then have "k = length es" using c'(1) k(2) by simp
    moreover have "lp_entries (history_page d' acc None) = take 10 (rev (take (length es) es))"
      by (rule page_at(1) [OF es_def n]) simp_all
    ultimately show ?thesis using older False here(1) by simp
  qed
qed

section \<open>Witnesses\<close>

definition sample_ledger :: ledger_db where
  "sample_ledger =
     \<lparr>ld_guilds = [\<lparr>gd_id = ''g'', gd_active = True, gd_revision = 3, gd_fc = Some ''fc'', gd_ledger_channel = Some ''c'',
        gd_effects = True, gd_member_role = None, gd_guest_role = None, gd_apps_enabled = False,
        gd_apps_channel = None, gd_access_policy = False\<rparr>], ld_accounts = [], ld_entries = [], ld_links = [], ld_members = [], ld_jobs = [],
      ld_audit = []\<rparr>"

definition sample_manager :: actor where
  "sample_manager = \<lparr>act_guild = ''g'', act_user = ''u'', act_manage_roles = True, act_server_manager = Some True,
     act_role_ids = None, act_access = \<lparr>acc_manager = True, acc_roles = [],
       acc_permissions = {P_ledger_initialize, P_ledger_audit, P_ledger_deposit}, acc_blocked = (\<lambda>_. None)\<rparr>, act_member = None, act_guest = None,
     act_bot_administrator = None, act_timed_out = None\<rparr>"

definition sample_world :: "ident \<Rightarrow> ledger_world" where
  "sample_world i = \<lparr>lw_enable = True, lw_validate = (\<lambda>_ _. None), lw_company = (\<lambda>_. None), lw_entry = i,
     lw_job = i, lw_now = 0\<rparr>"

definition sample_account_open :: ledger_db where
  "sample_account_open = open_account ''a'' ''g'' ''fc'' sample_ledger"

definition sample_note_text :: text16 where
  "sample_note_text = [86, 97, 117, 108, 116]"

definition sample_request :: "ident \<Rightarrow> string \<Rightarrow> js_value \<Rightarrow> string \<Rightarrow> ledger_db \<Rightarrow> thrown + (ledger_receipt \<times> ledger_db)" where
  "sample_request i operation input key =
     record_gil (sample_world i) sample_ledger sample_manager operation input sample_note_text key None"

fun is_recorded :: "thrown + (ledger_receipt \<times> ledger_db) \<Rightarrow> (ledger_db \<Rightarrow> bool) \<Rightarrow> bool" where
  "is_recorded (Inr (Recorded c e corrected, d)) p = p d"
| "is_recorded _ p = False"

fun is_answer :: "thrown + (ledger_receipt \<times> ledger_db) \<Rightarrow> bool" where
  "is_answer (Inr _) = True"
| "is_answer (Inl _) = False"

definition sample_entry :: ledger_entry where
  "sample_entry = \<lparr>le_id = ''e'', le_account = ''a'', le_sequence = 1, le_operation = ''initialize'', le_delta = 500,
     le_balance = 500, le_actor = Some ''u'', le_guild = ''g'', le_note = sample_note_text, le_event = 0, le_key = ''k'',
     le_correction = None\<rparr>"

lemma sample_world_simps [simp]:
  "lw_entry (sample_world i) = i" "lw_job (sample_world i) = i" "lw_now (sample_world i) = 0"
  "lw_validate (sample_world i) g c = None"
  by (simp_all add: sample_world_def)

lemma sample_note: "parse_note sample_note_text LabelNote = Inr sample_note_text"
  by (simp add: parse_note_Inr_iff sample_note_text_def js_trim_def is_js_space_def)

lemma sample_gil: "gil (JString (decimal 500)) = Inr 500"
  by (simp add: gil_Inr_iff MAX_GIL_def)

lemma sample_can [simp]:
  "can sample_manager P_ledger_initialize" "can sample_manager P_ledger_audit" "can sample_manager P_ledger_deposit"
  "act_guild sample_manager = ''g''" "act_user sample_manager = ''u''" "pauseOn sample_manager p = None"
  by (simp_all add: can_def pauseOn_def sample_manager_def)

lemma sample_requires [simp]: "requirePermission sample_manager ''g'' P_ledger_initialize m = Inr ()"
  by (simp add: requirePermission_Inr_iff)

definition sample_guild :: guild_row where
  "sample_guild = \<lparr>gd_id = ''g'', gd_active = True, gd_revision = 3, gd_fc = Some ''fc'', gd_ledger_channel = Some ''c'',
        gd_effects = True, gd_member_role = None, gd_guest_role = None, gd_apps_enabled = False,
        gd_apps_channel = None, gd_access_policy = False\<rparr>"

lemma sample_guild_of: "guild_of (ld_guilds sample_ledger) sample_manager = Inr sample_guild"
  by (simp add: guild_of_def authorize_def sample_ledger_def sample_guild_def)

lemma sample_admitted:
  "ledger_admission (sample_world i) sample_ledger sample_manager ''initialize'' (JString (decimal 500)) sample_note_text =
     Inr (sample_guild, sample_note_text, ''fc'', ''c'', 500)"
  "ledger_admission (sample_world i) sample_ledger sample_manager ''deposit'' (JInteger 20) sample_note_text =
     Inr (sample_guild, sample_note_text, ''fc'', ''c'', 20)"
  unfolding ledger_admission_def
  by (simp_all add: sample_guild_of sample_note sample_gil ledger_amount_def LEDGER_PERMISSION_def
      requireNotPaused_def sample_guild_def given_def)

definition sample_account :: account where
  "sample_account = \<lparr>la_id = ''a'', la_guild = ''g'', la_fc = ''fc'', la_balance = None, la_sequence = 0\<rparr>"

definition sample_written :: ledger_db where
  "sample_written = ledger_write (sample_world ''e'') sample_manager sample_account sample_entry sample_account_open"

lemma sample_open_tables:
  "ld_guilds sample_account_open = [sample_guild]" "ld_entries sample_account_open = []"
  "ld_accounts sample_account_open = [sample_account]" "ld_entries sample_written = [sample_entry]"
  "ld_guilds sample_written = [sample_guild]"
  by (simp_all add: sample_written_def sample_account_open_def open_account_def account_of_def sample_ledger_def
      sample_account_def sample_guild_def)

lemma sample_written_account:
  "account_of sample_written ''g'' ''fc'' =
     Some \<lparr>la_id = ''a'', la_guild = ''g'', la_fc = ''fc'', la_balance = Some 500, la_sequence = 1\<rparr>"
  by (simp add: sample_written_def ledger_write_def account_of_def sample_open_tables sample_account_def sample_entry_def)

lemma sample_first:
  "\<exists>c. sample_request ''e'' ''initialize'' (JString (decimal 500)) ''k'' sample_account_open =
     Inr (Recorded c sample_entry None, sample_written)"
  by (simp add: sample_request_def record_gil_def sample_admitted ledger_transaction_def sample_open_tables
      sample_guild_def account_of_def sample_account_def ledger_account_def ledger_balances_def Let_def
      new_balance_def MAX_GIL_def sample_written_def sample_entry_def)

lemma sample_again:
  "\<exists>r. sample_request ''e2'' ''deposit'' (JInteger 20) ''k'' sample_written = Inr (r, sample_written)"
  by (simp add: sample_request_def record_gil_def sample_admitted ledger_transaction_def sample_open_tables
      deposit_membership_def sample_guild_def sample_written_account ledger_account_def sample_entry_def
      ledger_replay_def)

lemma sample_empty: "ledger_empty sample_ledger"
  by (simp add: ledger_empty_def sample_ledger_def)

lemma sample_history: "rtranclp ledger_step sample_ledger sample_account_open"
  unfolding sample_account_open_def
  by (rule r_into_rtranclp, rule Open) (simp add: sample_ledger_def)

text \<open>A run of deposits, each under its own key.\<close>

definition sample_name :: "char \<Rightarrow> nat \<Rightarrow> string" where
  "sample_name c n = replicate (Suc n) c"

lemma sample_name_inj [simp]: "sample_name c m = sample_name c n \<longleftrightarrow> m = n"
  by (simp add: sample_name_def)

definition sample_run :: "nat \<Rightarrow> ledger_db \<Rightarrow> bool" where
  "sample_run n d \<longleftrightarrow>
     rtranclp ledger_step sample_ledger d \<and> ld_guilds d = [sample_guild] \<and>
     ld_accounts d = [\<lparr>la_id = ''a'', la_guild = ''g'', la_fc = ''fc'', la_balance = Some (500 + 20 * int n),
       la_sequence = int n + 1\<rparr>] \<and> length (ld_entries d) = Suc n \<and>
     (\<forall>e \<in> set (ld_entries d). le_account e = ''a'' \<and> (\<exists>m \<le> n. le_id e = sample_name CHR ''e'' m \<and> le_key e = sample_name CHR ''k'' m))"

lemma sample_deposit:
  assumes "sample_run n d" "n < 20"
  shows "\<exists>d'. sample_run (Suc n) d'"
proof -
  let ?w = "sample_world (sample_name CHR ''e'' (Suc n))" and ?key = "sample_name CHR ''k'' (Suc n)"
  have d: "rtranclp ledger_step sample_ledger d" "ld_guilds d = [sample_guild]"
    "ld_accounts d = [\<lparr>la_id = ''a'', la_guild = ''g'', la_fc = ''fc'', la_balance = Some (500 + 20 * int n),
       la_sequence = int n + 1\<rparr>]" "length (ld_entries d) = Suc n"
    and old: "\<forall>e \<in> set (ld_entries d). le_account e = ''a'' \<and>
       (\<exists>m \<le> n. le_id e = sample_name CHR ''e'' m \<and> le_key e = sample_name CHR ''k'' m)"
    using assms(1) unfolding sample_run_def by blast+
  have key: "find (\<lambda>e. le_key e = ?key) (ld_entries d) = None"
    using old by (fastforce simp: find_None_iff)
  have fresh: "lw_entry ?w \<notin> set (map le_id (ld_entries d))"
    using old by fastforce
  have acc: "account_of d ''g'' ''fc'' = Some \<lparr>la_id = ''a'', la_guild = ''g'', la_fc = ''fc'',
      la_balance = Some (500 + 20 * int n), la_sequence = int n + 1\<rparr>"
    by (simp add: account_of_def d(3))
  define e where "e = \<lparr>le_id = sample_name CHR ''e'' (Suc n), le_account = ''a'', le_sequence = int n + 1 + 1,
     le_operation = ''deposit'', le_delta = 20, le_balance = 500 + 20 * int n + 20, le_actor = Some ''u'', le_guild = ''g'',
     le_note = sample_note_text, le_event = 0, le_key = ?key, le_correction = None\<rparr>"
  define d' where "d' = ledger_write ?w sample_manager \<lparr>la_id = ''a'', la_guild = ''g'', la_fc = ''fc'',
      la_balance = Some (500 + 20 * int n), la_sequence = int n + 1\<rparr> e d"
  have "\<exists>r. sample_request (sample_name CHR ''e'' (Suc n)) ''deposit'' (JInteger 20) ?key d = Inr (r, d')"
    using assms(2)
    by (simp add: sample_request_def record_gil_def sample_admitted ledger_transaction_def d(2)
      deposit_membership_def sample_guild_def acc ledger_account_def key ledger_balances_def Let_def new_balance_def
      MAX_GIL_def d'_def e_def)
  then obtain r where r: "record_gil ?w sample_ledger sample_manager ''deposit'' (JInteger 20) sample_note_text ?key None d = Inr (r, d')"
    unfolding sample_request_def by blast
  have "rtranclp ledger_step sample_ledger d'"
    by (rule rtranclp.rtrancl_into_rtrancl [OF d(1) Record [OF r fresh]])
  moreover have "ld_accounts d' = [\<lparr>la_id = ''a'', la_guild = ''g'', la_fc = ''fc'',
      la_balance = Some (500 + 20 * int (Suc n)), la_sequence = int (Suc n) + 1\<rparr>]"
    by (simp add: d'_def ledger_write_def d(3) e_def)
  moreover have "\<forall>x \<in> set (ld_entries d'). le_account x = ''a'' \<and>
       (\<exists>m \<le> Suc n. le_id x = sample_name CHR ''e'' m \<and> le_key x = sample_name CHR ''k'' m)"
    using old by (auto simp: d'_def e_def intro: le_SucI)
  ultimately show ?thesis
    unfolding sample_run_def by (intro exI [of _ d']) (simp add: d'_def d(2,4))
qed

lemma sample_start: "sample_run 0 sample_written"
proof -
  obtain c where first: "sample_request ''e'' ''initialize'' (JString (decimal 500)) ''k'' sample_account_open =
     Inr (Recorded c sample_entry None, sample_written)"
    using sample_first by blast
  have "ledger_step sample_account_open sample_written"
    by (rule Record [OF first [unfolded sample_request_def]]) (simp add: sample_open_tables)
  then have "rtranclp ledger_step sample_ledger sample_written"
    by (rule rtranclp.rtrancl_into_rtrancl [OF sample_history])
  moreover have "ld_accounts sample_written = [\<lparr>la_id = ''a'', la_guild = ''g'', la_fc = ''fc'', la_balance = Some 500, la_sequence = 1\<rparr>]"
    by (simp add: sample_written_def ledger_write_def sample_open_tables sample_account_def sample_entry_def)
  ultimately show ?thesis
    by (simp add: sample_run_def sample_open_tables sample_entry_def sample_name_def)
qed

lemma sample_runs: "n \<le> 20 \<Longrightarrow> \<exists>d. sample_run n d"
proof (induction n)
  case 0
  then show ?case using sample_start by blast
next
  case (Suc n)
  then obtain d where "sample_run n d" by auto
  then show ?case using Suc.prems by (intro sample_deposit) simp_all
qed

theorem ledger_key_recorded_once_witness:
  "\<exists>r. sample_request ''e2'' ''deposit'' (JInteger 20) ''k'' sample_written = Inr (r, sample_written) \<and>
     (\<exists>c' cr post. r = AlreadyRecorded c' sample_entry cr post)"
proof -
  obtain c r where first: "sample_request ''e'' ''initialize'' (JString (decimal 500)) ''k'' sample_account_open =
     Inr (Recorded c sample_entry None, sample_written)"
    and again: "sample_request ''e2'' ''deposit'' (JInteger 20) ''k'' sample_written = Inr (r, sample_written)"
    using sample_first sample_again by blast
  have "lw_entry (sample_world ''e'') \<notin> set (map le_id (ld_entries sample_account_open))"
    by (simp add: sample_open_tables)
  then show ?thesis
    using ledger_key_recorded_once [OF sample_history sample_empty first [unfolded sample_request_def] _
        rtranclp.rtrancl_refl again [unfolded sample_request_def]] again by blast
qed

theorem ledger_balances_are_the_sum_witness:
  "map le_sequence (entries_of sample_written ''a'') = [1] \<and> sum_list (map le_delta (entries_of sample_written ''a'')) = 500"
proof -
  obtain c where first: "sample_request ''e'' ''initialize'' (JString (decimal 500)) ''k'' sample_account_open =
     Inr (Recorded c sample_entry None, sample_written)"
    using sample_first by blast
  have "ledger_step sample_account_open sample_written"
    by (rule Record [OF first [unfolded sample_request_def]]) (simp add: sample_open_tables)
  then have run: "rtranclp ledger_step sample_ledger sample_written"
    by (rule rtranclp.rtrancl_into_rtrancl [OF sample_history])
  have acc: "\<lparr>la_id = ''a'', la_guild = ''g'', la_fc = ''fc'', la_balance = Some 500, la_sequence = 1\<rparr>
      \<in> set (ld_accounts sample_written)"
    using account_of_Some [OF sample_written_account] by blast
  show ?thesis
    using ledger_balances_are_the_sum [OF run sample_empty acc]
    by (simp add: entries_of_def sample_open_tables sample_entry_def)
qed

theorem ledger_recorded_witness:
  "\<exists>p. LEDGER_PERMISSION ''initialize'' = Some p \<and> can sample_manager p"
proof -
  obtain c where first: "sample_request ''e'' ''initialize'' (JString (decimal 500)) ''k'' sample_account_open =
     Inr (Recorded c sample_entry None, sample_written)"
    using sample_first by blast
  show ?thesis
    using ledger_recorded [OF first [unfolded sample_request_def]] by blast
qed

lemma sample_twelve:
  "\<exists>d acc. rtranclp ledger_step sample_ledger d \<and> acc \<in> set (ld_accounts d) \<and>
     length (entries_of d (la_id acc)) = 12"
proof -
  obtain d where d: "sample_run 11 d" using sample_runs [of 11] by auto
  then have run: "rtranclp ledger_step sample_ledger d" "length (ld_entries d) = 12"
    and all: "\<forall>e \<in> set (ld_entries d). le_account e = ''a''"
    unfolding sample_run_def by auto
  obtain acc where acc: "acc \<in> set (ld_accounts d)" "la_id acc = ''a''"
    using d unfolding sample_run_def by auto
  have len: "length (entries_of d (la_id acc)) = 12"
    using run(2) all by (simp add: entries_of_def acc(2) filter_id_conv)
  then show ?thesis using run(1) acc(1) by blast
qed

theorem history_walk_complete_witness:
  "\<exists>d acc. length (entries_of d (la_id acc)) = 12 \<and> history_walk 2 d acc None = rev (entries_of d (la_id acc))"
proof -
  obtain d acc where run: "rtranclp ledger_step sample_ledger d" and acc: "acc \<in> set (ld_accounts d)"
    and len: "length (entries_of d (la_id acc)) = 12"
    using sample_twelve by blast
  show ?thesis
    using len history_walk_complete [OF run sample_empty acc, of 2] by auto
qed

theorem older_then_newer_witness:
  "\<exists>d acc c' t. lp_newer (history_page d acc (Some c')) = Some t \<and>
     lp_entries (history_page d acc (follow_newer t)) = lp_entries (history_page d acc None)"
proof -
  obtain d acc where run: "rtranclp ledger_step sample_ledger d" and acc: "acc \<in> set (ld_accounts d)"
    and len: "length (entries_of d (la_id acc)) = 12"
    using sample_twelve by blast
  have "lp_older (history_page d acc None) = Some 3"
    using page_at(2) [OF refl books_numbered [OF run sample_empty acc], of None 12] len by simp
  then show ?thesis
    using older_then_newer [OF run sample_empty acc, of None 3] by blast
qed

end
