(* ===== verification/Guests.thy ===== *)
theory Guests
  imports Members
begin

text \<open>
  Guest access, \<open>src/application/service.ts\<close>: submitting an application (\<open>apply\<close>), deciding it
  (\<open>decide\<close>), granting and revoking Guest (\<open>grantWithin\<close>, \<open>guestAction\<close>) and resetting it
  (\<open>guestReset\<close>), with the form of \<open>src/domain/guest-application.ts\<close>. Each is one transaction over
  the tables; what is read before it (the guild row, Discord's answer about the person) is read from
  the tables as they were then. Of an audit row's details only the reason is kept.
\<close>

section \<open>The tables\<close>

datatype application_state = AppPending | AppApproved | AppDenied | AppCancelled | AppSuperseded

record application =
  ap_id :: ident
  ap_guild :: ident
  ap_user :: ident
  ap_joined :: int
  ap_created :: int
  ap_state :: application_state
  ap_channel :: ident
  ap_message :: "ident option"
  ap_reviewer :: "ident option"
  ap_decided :: "int option"
  ap_reason :: "text16 option"
  ap_introduction :: text16
  ap_interest :: text16

record people_audit =
  pa_guild :: ident
  pa_actor :: ident
  pa_action :: string
  pa_target :: ident
  pa_reason :: "text16 option"

record guest_db =
  gt_guilds :: "guild_row list"
  gt_people :: people
  gt_apps :: "application list"
  gt_jobs :: "job list"
  gt_audit :: "people_audit list"

text \<open>
  What one request reads from outside: the deployment, Discord, the clock of the transaction and the
  process, the configured times in seconds, and fresh IDs (for a row, and for the job of a key).
\<close>

record guest_world =
  gw_enable :: bool
  gw_member :: "ident \<Rightarrow> discord_member option"
  gw_validate_role :: "thrown option"
  gw_validate_channel :: "thrown option"
  gw_now :: int
  gw_clock :: int
  gw_freshness :: int
  gw_cooldown :: int
  gw_row :: ident
  gw_job :: "string \<Rightarrow> ident"

section \<open>The form\<close>

definition GUEST_ANSWER_MIN :: nat where "GUEST_ANSWER_MIN = 10"

definition GUEST_ANSWER_MAX :: nat where "GUEST_ANSWER_MAX = 300"

definition GUEST_APPLICATIONS_CLOSED :: string where
  "GUEST_APPLICATIONS_CLOSED =
     ''Guest applications are not open in this server. Ask an officer about Guest access.''"

definition guestApplicationsOpen :: "guild_row \<Rightarrow> bool" where
  "guestApplicationsOpen guild \<longleftrightarrow>
     gd_apps_enabled guild \<and> gd_apps_channel guild \<noteq> None \<and> gd_guest_role guild \<noteq> None"

definition guest_answer :: "text16 \<Rightarrow> text16 option" where
  "guest_answer v =
     (let s = js_trim v
      in if GUEST_ANSWER_MIN \<le> length s \<and> length s \<le> GUEST_ANSWER_MAX \<and> is_well_formed s \<and> 0 \<notin> set s
         then Some s else None)"

text \<open>The parsed form: when the person had joined as it opened, and the two answers.\<close>

definition guestApplicationInput :: "int \<times> text16 \<times> text16 \<Rightarrow> (int \<times> text16 \<times> text16) option" where
  "guestApplicationInput form =
     (case form of (joinedAt, introduction, interest) \<Rightarrow>
       (case (guest_answer introduction, guest_answer interest) of
          (Some i, Some j) \<Rightarrow> Some (joinedAt, i, j)
        | _ \<Rightarrow> None))"

section \<open>Failures\<close>

definition notCurrentMember :: failure where
  "notCurrentMember = mk_failure_detail F_forbidden
     (Literal ''You need to be a current member of this server to do that.'')
     (DScope Scope_current_member None None None)"

definition joinChanged :: failure where
  "joinChanged = mk_failure_detail F_stale
     (Literal ''Your server membership changed while the form was open. Run /apply again.'') (DStale StaleJoin)"

definition applicationNotFound :: "ident \<Rightarrow> failure" where
  "applicationNotFound i = mk_failure_detail F_not_found
     (Literal (''There'' @ [CHR 0x27] @ ''s no guest application with that ID in this server. Pick one from the suggestions.''))
     (DResource Resource_application (Some i) None None None)"

definition applications_closed :: "setup_piece \<Rightarrow> failure" where
  "applications_closed piece = mk_failure_detail F_setup (Literal GUEST_APPLICATIONS_CLOSED) (DSetup piece)"

text \<open>The dash of this message is its UTF-8 bytes.\<close>

definition bad_answers :: failure where
  "bad_answers = mk_failure F_input
     (Literal (''Both answers need 10'' @ [CHR 0xE2, CHR 0x80, CHR 0x93] @ ''300 characters. Run /apply again.''))"

definition authorizeGuestDecision :: "actor \<Rightarrow> permission_id \<Rightarrow> failure + unit" where
  "authorizeGuestDecision a p =
     requirePermission a (act_guild a) p (Some ''Only officers can decide guest access.'')"

text \<open>Whole seconds until a moment, rounded up, never negative.\<close>

definition secondsUntil :: "int \<Rightarrow> int option \<Rightarrow> nat" where
  "secondsUntil clock moment =
     (case moment of None \<Rightarrow> 0 | Some m \<Rightarrow> nat (max 0 ((m - clock + 999) div 1000)))"

definition humans_only :: failure where
  "humans_only = mk_failure_detail F_input
     (Literal ''Guest access is for human members, not bots.'') (DOption ''member'')"

section \<open>Queued work\<close>

definition review_key :: "ident \<Rightarrow> string" where
  "review_key i = ''review:'' @ i"

definition dm_key :: "ident \<Rightarrow> string" where
  "dm_key i = ''dm:'' @ i"

definition queue_application ::
  "guest_world \<Rightarrow> string \<Rightarrow> string \<Rightarrow> ident \<Rightarrow> ident \<Rightarrow> ident \<Rightarrow> job list \<Rightarrow> job list" where
  "queue_application w kind key guild user i jobs =
     snd (enqueue (gw_now w) (gw_job w key) kind key (JsonObject [(''applicationId'', JsonText i)])
            (Some guild) (Some user) 0 jobs)"

definition queue_review :: "guest_world \<Rightarrow> ident \<Rightarrow> ident \<Rightarrow> ident \<Rightarrow> job list \<Rightarrow> job list" where
  "queue_review w guild user i = queue_application w ''guest.review'' (review_key i) guild user i"

definition queue_user :: "guest_world \<Rightarrow> ident \<Rightarrow> ident \<Rightarrow> job list \<Rightarrow> job list" where
  "queue_user w guild user jobs =
     snd (reconcileUser (gw_now w) (gw_job w (''user:'' @ guild @ '':'' @ user)) guild user jobs)"

definition audited :: "actor \<Rightarrow> string \<Rightarrow> ident \<Rightarrow> text16 option \<Rightarrow> guest_db \<Rightarrow> guest_db" where
  "audited a action target reason d =
     d\<lparr>gt_audit := gt_audit d @ [\<lparr>pa_guild = act_guild a, pa_actor = act_user a, pa_action = action,
        pa_target = target, pa_reason = reason\<rparr>]\<rparr>"

definition on_people :: "(people \<Rightarrow> people) \<Rightarrow> guest_db \<Rightarrow> guest_db" where
  "on_people f d = d\<lparr>gt_people := f (gt_people d)\<rparr>"

definition on_jobs :: "(job list \<Rightarrow> job list) \<Rightarrow> guest_db \<Rightarrow> guest_db" where
  "on_jobs f d = d\<lparr>gt_jobs := f (gt_jobs d)\<rparr>"

definition ensured :: "ident \<Rightarrow> ident \<Rightarrow> int option \<Rightarrow> guest_db \<Rightarrow> guest_db" where
  "ensured guild user joined = on_people (\<lambda>p. p\<lparr>pl_users := ensureUser guild user joined (pl_users p)\<rparr>)"

definition update_apps :: "(application \<Rightarrow> bool) \<Rightarrow> (application \<Rightarrow> application) \<Rightarrow> guest_db \<Rightarrow> guest_db" where
  "update_apps p f d = d\<lparr>gt_apps := map (\<lambda>x. if p x then f x else x) (gt_apps d)\<rparr>"

definition pending_of :: "guest_db \<Rightarrow> ident \<Rightarrow> ident \<Rightarrow> application option" where
  "pending_of d guild user =
     find (\<lambda>x. ap_guild x = guild \<and> ap_user x = user \<and> ap_state x = AppPending) (gt_apps d)"

section \<open>Applying\<close>

definition eligible_failure :: "string \<Rightarrow> failure" where
  "eligible_failure m = mk_failure F_eligible (Literal m)"

definition apply_admission ::
  "guest_world \<Rightarrow> guest_db \<Rightarrow> actor \<Rightarrow> int \<times> text16 \<times> text16 \<Rightarrow>
   thrown + (guild_row \<times> ident \<times> discord_member \<times> text16 \<times> text16)" where
  "apply_admission w d a form =
     (case guestApplicationInput form of
        None \<Rightarrow> Inl (ThrownFailure bad_answers)
      | Some (joinedAt, introduction, interest) \<Rightarrow>
          (case and_then (requirePermission a (act_guild a) P_guests_apply None) (\<lambda>_. guild_of (gt_guilds d) a) of
             Inl f \<Rightarrow> Inl (ThrownFailure f)
           | Inr guild \<Rightarrow>
               (case (if gd_apps_enabled guild then given (gd_apps_channel guild) else None) of
                  None \<Rightarrow> Inl (ThrownFailure (applications_closed Setup_guest_applications))
                | Some channel \<Rightarrow>
                    if given (gd_guest_role guild) = None
                    then Inl (ThrownFailure (applications_closed Setup_guest_role))
                    else
                      (case gw_validate_role w of Some t \<Rightarrow> Inl t | None \<Rightarrow>
                      (case gw_validate_channel w of Some t \<Rightarrow> Inl t | None \<Rightarrow>
                      (case gw_member w (act_user a) of
                         None \<Rightarrow> Inl (ThrownFailure notCurrentMember)
                       | Some m \<Rightarrow>
                           if dm_bot m then Inl (ThrownFailure notCurrentMember)
                           else if dm_joined m \<noteq> joinedAt then Inl (ThrownFailure joinChanged)
                           else Inr (guild, channel, m, introduction, interest)))))))"

text \<open>Someone who has access, or whose character or membership decides it, need not apply.\<close>

definition apply_eligible :: "guest_world \<Rightarrow> guest_db \<Rightarrow> guild_row \<Rightarrow> ident \<Rightarrow> discord_member \<Rightarrow> failure option" where
  "apply_eligible w d guild user m =
     (if hasActiveRegistration (pl_links (gt_people d)) (gd_id guild) user
      then Some (eligible_failure ''You have a linked character, so your access follows your character and FC membership instead of a guest application.'')
      else
        (let facts = accessFacts (gt_people d) guild user (gw_now w) (gw_freshness w) (dm_roles m)
         in if af_membership facts = Member \<or> af_has_member facts \<or> af_has_guest facts \<or>
               (\<not> af_revoked facts \<and> (af_grant facts \<or> af_former facts))
            then Some (eligible_failure ''You already have member or guest access here. If a role looks missing, TaruBot will restore it automatically.'')
            else None))"

definition recent_denials :: "guest_world \<Rightarrow> guest_db \<Rightarrow> ident \<Rightarrow> ident \<Rightarrow> int list" where
  "recent_denials w d guild user =
     filter (\<lambda>t. t > gw_now w - 1000 * gw_cooldown w)
       (List.map_filter (\<lambda>x. if ap_guild x = guild \<and> ap_user x = user \<and> ap_state x = AppDenied
                             then ap_decided x else None) (gt_apps d))"

definition cooling_until :: "guest_world \<Rightarrow> guest_db \<Rightarrow> ident \<Rightarrow> ident \<Rightarrow> int option" where
  "cooling_until w d guild user =
     (case recent_denials w d guild user of
        [] \<Rightarrow> None
      | t # ts \<Rightarrow> Some (fold max ts t + 1000 * gw_cooldown w))"

definition cooldown_failure :: "guest_world \<Rightarrow> int \<Rightarrow> failure" where
  "cooldown_failure w until =
     \<lparr>f_code = F_cooldown,
      f_message = Literal ''Your last application was declined recently. You can apply again later.'',
      f_retry_after = secondsUntil (gw_clock w) (Some until), f_detail = Some (DLimit LimitApply (Some until))\<rparr>"

datatype apply_outcome = AppCreated | AppExisting | AppReplaced

definition cancel_pending :: "guest_world \<Rightarrow> actor \<Rightarrow> application option \<Rightarrow> guest_db \<Rightarrow> guest_db" where
  "cancel_pending w a pending d =
     (case pending of
        None \<Rightarrow> d
      | Some p \<Rightarrow>
          on_jobs (queue_review w (act_guild a) (act_user a) (ap_id p))
            (update_apps (\<lambda>x. ap_id x = ap_id p)
               (\<lambda>x. x\<lparr>ap_state := AppCancelled, ap_decided := Some (gw_now w)\<rparr>) d))"

definition new_application ::
  "guest_world \<Rightarrow> actor \<Rightarrow> ident \<Rightarrow> discord_member \<Rightarrow> text16 \<Rightarrow> text16 \<Rightarrow> application" where
  "new_application w a channel m introduction interest =
     \<lparr>ap_id = gw_row w, ap_guild = act_guild a, ap_user = act_user a, ap_joined = dm_joined m,
      ap_created = gw_now w, ap_state = AppPending, ap_channel = channel, ap_message = None,
      ap_reviewer = None, ap_decided = None, ap_reason = None, ap_introduction = introduction,
      ap_interest = interest\<rparr>"

definition apply_rest ::
  "guest_world \<Rightarrow> actor \<Rightarrow> guild_row \<Rightarrow> ident \<Rightarrow> discord_member \<Rightarrow> text16 \<Rightarrow> text16 \<Rightarrow> effects_mode \<Rightarrow>
   guest_db \<Rightarrow> failure + ((application \<times> apply_outcome \<times> effects_mode) \<times> guest_db)" where
  "apply_rest w a guild channel m introduction interest mode d =
     (case apply_eligible w d guild (act_user a) m of
        Some f \<Rightarrow> Inl f
      | None \<Rightarrow>
          (let pending = pending_of d (act_guild a) (act_user a)
           in case Option.bind pending (\<lambda>p. if ap_joined p = dm_joined m then Some p else None) of
                Some p \<Rightarrow> Inr ((p, AppExisting, mode), d)
              | None \<Rightarrow>
                  (let d = cancel_pending w a pending d
                   in case cooling_until w d (act_guild a) (act_user a) of
                        Some until \<Rightarrow> Inl (cooldown_failure w until)
                      | None \<Rightarrow>
                          (let x = new_application w a channel m introduction interest;
                               d = audited a ''guest.applied'' (ap_id x) None (d\<lparr>gt_apps := gt_apps d @ [x]\<rparr>);
                               d = on_jobs (queue_review w (act_guild a) (act_user a) (ap_id x)) d
                           in Inr ((x, if pending = None then AppCreated else AppReplaced, mode), d)))))"

definition apply_transaction ::
  "guest_world \<Rightarrow> actor \<Rightarrow> guild_row \<times> ident \<times> discord_member \<times> text16 \<times> text16 \<Rightarrow> guest_db \<Rightarrow>
   failure + ((application \<times> apply_outcome \<times> effects_mode) \<times> guest_db)" where
  "apply_transaction w a admitted d =
     (case admitted of (guild, channel, m, introduction, interest) \<Rightarrow>
       (case find (\<lambda>g. gd_id g = act_guild a) (gt_guilds d) of
          None \<Rightarrow> Inl (mk_failure F_conflict (Literal SETTINGS_CHANGED))
        | Some current \<Rightarrow>
            if \<not> gd_active current \<or> gd_revision current \<noteq> gd_revision guild
            then Inl (mk_failure F_conflict (Literal SETTINGS_CHANGED))
            else
              (let mode = effectsMode (gw_enable w) current;
                   d = ensured (act_guild a) (act_user a) None d
               in case Option.bind (user_of (pl_users (gt_people d)) (act_guild a) (act_user a))
                         (\<lambda>u. map_option (\<lambda>j. (gu_present u, j)) (gu_joined u)) of
                    Some (present, j) \<Rightarrow>
                      if j > dm_joined m \<or> (\<not> present \<and> j = dm_joined m) then Inl joinChanged
                      else apply_rest w a guild channel m introduction interest mode
                             (ensured (act_guild a) (act_user a) (Some (dm_joined m)) d)
                  | None \<Rightarrow> apply_rest w a guild channel m introduction interest mode
                             (ensured (act_guild a) (act_user a) (Some (dm_joined m)) d))))"

text \<open>\<open>before\<close> are the tables the checks before the transaction read.\<close>

definition apply_for_guest ::
  "guest_world \<Rightarrow> guest_db \<Rightarrow> actor \<Rightarrow> int \<times> text16 \<times> text16 \<Rightarrow> guest_db \<Rightarrow>
   thrown + ((application \<times> apply_outcome \<times> effects_mode) \<times> guest_db)" where
  "apply_for_guest w before a form d =
     (case apply_admission w before a form of
        Inl t \<Rightarrow> Inl t
      | Inr admitted \<Rightarrow>
          (case apply_transaction w a admitted d of Inl f \<Rightarrow> Inl (ThrownFailure f) | Inr x \<Rightarrow> Inr x))"

section \<open>Granting\<close>

definition state_revoked :: "guest_db \<Rightarrow> ident \<Rightarrow> ident \<Rightarrow> bool" where
  "state_revoked d guild user \<longleftrightarrow>
     list_ex (\<lambda>s. gs_guild s = guild \<and> gs_user s = user \<and> gs_revoked s) (pl_states (gt_people d))"

definition put_state ::
  "guest_world \<Rightarrow> actor \<Rightarrow> ident \<Rightarrow> bool \<Rightarrow> text16 option \<Rightarrow> guest_db \<Rightarrow> guest_db" where
  "put_state w a user revoked reason =
     on_people (\<lambda>p. p\<lparr>pl_states :=
       (let row = \<lparr>gs_guild = act_guild a, gs_user = user, gs_revoked = revoked, gs_actor = Some (act_user a),
                  gs_reason = reason, gs_changed = gw_now w\<rparr>;
            mine = (\<lambda>s. gs_guild s = act_guild a \<and> gs_user s = user)
        in if list_ex mine (pl_states p) then map (\<lambda>s. if mine s then row else s) (pl_states p)
           else pl_states p @ [row])\<rparr>)"

definition grantWithin ::
  "guest_world \<Rightarrow> actor \<Rightarrow> ident \<Rightarrow> string \<Rightarrow> string \<Rightarrow> text16 option \<Rightarrow> guest_db \<Rightarrow> failure + (bool \<times> guest_db)" where
  "grantWithin w a user provenance key reason d =
     (let previous = state_revoked d (act_guild a) user
      in case find (\<lambda>g. gg_key g = key) (pl_grants (gt_people d)) of
           Some g \<Rightarrow>
             if gg_guild g = act_guild a \<and> gg_user g = user then Inr (False, d)
             else Inl (mk_failure F_idempotency_conflict
                    (Literal ''Grant idempotency key belongs to a different target.''))
         | None \<Rightarrow>
             (let d = on_people (\<lambda>p. p\<lparr>pl_grants := pl_grants p @
                        [\<lparr>gg_id = gw_row w, gg_guild = act_guild a, gg_user = user, gg_provenance = provenance,
                          gg_key = key, gg_actor = Some (act_user a), gg_reason = reason, gg_ended = None\<rparr>]\<rparr>) d;
                  d = put_state w a user False reason d;
                  d = (if previous then audited a ''guest.restore'' user reason d else d)
              in Inr (previous, on_jobs (queue_user w (act_guild a) user) d)))"

section \<open>Deciding\<close>

record decision =
  de_application :: ident
  de_status :: application_state
  de_queued :: bool
  de_mode :: effects_mode
  de_user :: ident
  de_reason :: "text16 option"
  de_reviewer :: "ident option"
  de_decided :: "int option"
  de_cooldown :: int

definition decided_state ::
  "guest_db \<Rightarrow> guild_row \<Rightarrow> user_row option \<Rightarrow> discord_member option \<Rightarrow> application \<Rightarrow> bool \<Rightarrow> application_state" where
  "decided_state d guild presence member x approve =
     (let p = gt_people d
      in if (case member of None \<Rightarrow> True | Some m \<Rightarrow> dm_bot m \<or> dm_joined m \<noteq> ap_joined x) \<or>
            (case presence of None \<Rightarrow> True | Some u \<Rightarrow> \<not> gu_present u \<or> gu_joined u \<noteq> Some (ap_joined x))
         then AppCancelled
         else if memberEligible (pl_links p) (pl_members p) guild (ap_user x) \<or>
                 hasActiveRegistration (pl_links p) (gd_id guild) (ap_user x)
         then AppSuperseded
         else if approve then AppApproved else AppDenied)"

definition action_of :: "application_state \<Rightarrow> string" where
  "action_of s =
     (case s of AppPending \<Rightarrow> ''guest.pending'' | AppApproved \<Rightarrow> ''guest.approved'' | AppDenied \<Rightarrow> ''guest.denied''
      | AppCancelled \<Rightarrow> ''guest.cancelled'' | AppSuperseded \<Rightarrow> ''guest.superseded'')"

definition grant_key :: "ident \<Rightarrow> string" where
  "grant_key i = ''application:'' @ i"

definition decision_of :: "guest_world \<Rightarrow> guild_row \<Rightarrow> application \<Rightarrow> bool \<Rightarrow> decision" where
  "decision_of w guild x queued =
     \<lparr>de_application = ap_id x, de_status = ap_state x, de_queued = queued,
      de_mode = effectsMode (gw_enable w) guild, de_user = ap_user x, de_reason = ap_reason x,
      de_reviewer = ap_reviewer x, de_decided = ap_decided x, de_cooldown = gw_cooldown w\<rparr>"

definition decide_pending ::
  "guest_world \<Rightarrow> actor \<Rightarrow> guild_row \<Rightarrow> application \<Rightarrow> application_state \<Rightarrow> text16 option \<Rightarrow> guest_db \<Rightarrow>
   failure + (decision \<times> guest_db)" where
  "decide_pending w a guild x state reason d =
     (let x' = x\<lparr>ap_state := state, ap_reviewer := Some (act_user a), ap_decided := Some (gw_now w),
                ap_reason := reason\<rparr>;
          d = update_apps (\<lambda>y. ap_id y = ap_id x)
                (\<lambda>y. y\<lparr>ap_state := state, ap_reviewer := Some (act_user a), ap_decided := Some (gw_now w),
                       ap_reason := reason\<rparr>) d
      in and_then (if state = AppApproved
                   then grantWithin w a (ap_user x) ''approved'' (grant_key (ap_id x)) reason d
                   else Inr (False, d)) (\<lambda>(_, d).
         let d = audited a (action_of state) (ap_id x) reason d;
             d = on_jobs (queue_review w (act_guild a) (ap_user x) (ap_id x)) d;
             d = (if state = AppApproved \<or> state = AppDenied
                  then on_jobs (queue_application w ''guest.dm'' (dm_key (ap_id x)) (act_guild a) (ap_user x) (ap_id x)) d
                  else d)
         in Inr (decision_of w guild x' True, d)))"

definition stale_review :: failure where
  "stale_review = mk_failure_detail F_stale
     (Literal ''A newer review message replaced this one. Use the latest message in the review channel, or /guest approve.'')
     (DStale StaleReview)"

definition application_of :: "guest_db \<Rightarrow> ident \<Rightarrow> ident \<Rightarrow> application option" where
  "application_of d guild i = find (\<lambda>x. ap_id x = i \<and> ap_guild x = guild) (gt_apps d)"

definition decide_transaction ::
  "guest_world \<Rightarrow> actor \<Rightarrow> ident \<Rightarrow> bool \<Rightarrow> text16 option \<Rightarrow> ident option \<Rightarrow> ident \<Rightarrow> guest_db \<Rightarrow>
   failure + (decision \<times> guest_db)" where
  "decide_transaction w a i approve reason messageId user d =
     (case find (\<lambda>g. gd_id g = act_guild a) (gt_guilds d) of
        None \<Rightarrow> Inl guild_missing
      | Some guild \<Rightarrow>
          (case application_of d (act_guild a) i of
             None \<Rightarrow> Inl (applicationNotFound i)
           | Some x \<Rightarrow>
               if given messageId \<noteq> None \<and> ap_message x \<noteq> given messageId then Inl stale_review
               else if ap_state x \<noteq> AppPending then Inr (decision_of w guild x False, d)
               else decide_pending w a guild x 
                      (decided_state d guild (user_of (pl_users (gt_people d)) (act_guild a) user) (gw_member w user) x approve)
                      reason d))"

definition officer_reason :: "text16 option \<Rightarrow> failure + text16 option" where
  "officer_reason reason =
     (case reason of None \<Rightarrow> Inr None | Some r \<Rightarrow> and_then (parse_note r LabelReason) (\<lambda>r. Inr (Some r)))"

definition decide_application ::
  "guest_world \<Rightarrow> guest_db \<Rightarrow> actor \<Rightarrow> ident \<Rightarrow> bool \<Rightarrow> text16 option \<Rightarrow> ident option \<Rightarrow> guest_db \<Rightarrow>
   failure + (decision \<times> guest_db)" where
  "decide_application w before a i approve reason messageId d =
     and_then (authorizeGuestDecision a P_guests_decide) (\<lambda>_.
     and_then (guild_of (gt_guilds before) a) (\<lambda>_.
     and_then (officer_reason reason) (\<lambda>reason.
       case application_of before (act_guild a) i of
         None \<Rightarrow> Inl (applicationNotFound i)
       | Some preliminary \<Rightarrow>
           decide_transaction w a i approve reason messageId (ap_user preliminary) d)))"

section \<open>Grants, revocations and resets by officers\<close>

record guest_action =
  ga_revoked :: bool
  ga_mode :: effects_mode
  ga_user :: ident
  ga_reason :: text16
  ga_restored :: bool
  ga_cancelled :: nat
  ga_present :: bool
  ga_configured :: bool

text \<open>The checks both share: the permission, the guild, the reason, and no bot.\<close>

definition guest_manage ::
  "guest_world \<Rightarrow> guest_db \<Rightarrow> actor \<Rightarrow> ident \<Rightarrow> text16 \<Rightarrow> failure + (guild_row \<times> text16)" where
  "guest_manage w before a user reason =
     and_then (authorizeGuestDecision a P_guests_manage) (\<lambda>_.
     and_then (guild_of (gt_guilds before) a) (\<lambda>guild.
     and_then (parse_note reason LabelReason) (\<lambda>reason.
       if (case gw_member w user of Some m \<Rightarrow> dm_bot m | None \<Rightarrow> False) then Inl humans_only
       else Inr (guild, reason))))"

definition revoke_guest :: "guest_world \<Rightarrow> actor \<Rightarrow> ident \<Rightarrow> text16 \<Rightarrow> guest_db \<Rightarrow> nat \<times> guest_db" where
  "revoke_guest w a user reason d =
     (let d = put_state w a user True (Some reason) d;
          waits = (\<lambda>x. ap_guild x = act_guild a \<and> ap_user x = user \<and> ap_state x = AppPending);
          cancelled = map ap_id (filter waits (gt_apps d));
          d = update_apps waits (\<lambda>x. x\<lparr>ap_state := AppCancelled, ap_decided := Some (gw_now w),
                ap_reviewer := Some (act_user a), ap_reason := Some reason\<rparr>) d
      in (length cancelled, fold (\<lambda>i. on_jobs (queue_review w (act_guild a) user i)) cancelled d))"

definition guestAction ::
  "guest_world \<Rightarrow> guest_db \<Rightarrow> actor \<Rightarrow> ident \<Rightarrow> bool \<Rightarrow> text16 \<Rightarrow> string \<Rightarrow> guest_db \<Rightarrow>
   failure + (guest_action \<times> guest_db)" where
  "guestAction w before a user revoke reason key d =
     and_then (guest_manage w before a user reason) (\<lambda>(guild, reason).
       let d = ensured (act_guild a) user None d
       in and_then (if revoke then Inr (False, revoke_guest w a user reason d)
                    else and_then (grantWithin w a user ''manual'' key (Some reason) d)
                           (\<lambda>(restored, d). Inr (restored, 0, d))) (\<lambda>(restored, n, d).
          let d = audited a (if revoke then ''guest.revoke'' else ''guest.grant'') user (Some reason) d;
              d = on_jobs (queue_user w (act_guild a) user) d
          in Inr (\<lparr>ga_revoked = state_revoked d (act_guild a) user, ga_mode = effectsMode (gw_enable w) guild,
                   ga_user = user, ga_reason = reason, ga_restored = restored, ga_cancelled = n,
                   ga_present = (gw_member w user \<noteq> None), ga_configured = (gd_guest_role guild \<noteq> None)\<rparr>, d)))"

record guest_reset =
  gr_reset :: bool
  gr_mode :: effects_mode
  gr_user :: ident
  gr_reason :: text16
  gr_lifted :: bool
  gr_ended :: "string list"
  gr_present :: bool
  gr_configured :: bool

definition active_grants :: "guest_db \<Rightarrow> ident \<Rightarrow> ident \<Rightarrow> grant_row list" where
  "active_grants d guild user =
     filter (\<lambda>g. gg_guild g = guild \<and> gg_user g = user \<and> gg_ended g = None) (pl_grants (gt_people d))"

definition end_grants :: "guest_world \<Rightarrow> actor \<Rightarrow> ident \<Rightarrow> text16 \<Rightarrow> guest_db \<Rightarrow> guest_db" where
  "end_grants w a user reason =
     on_people (\<lambda>p. p\<lparr>pl_grants :=
       map (\<lambda>g. if gg_guild g = act_guild a \<and> gg_user g = user \<and> gg_ended g = None
                then g\<lparr>gg_ended := Some (gw_now w, act_user a, reason)\<rparr> else g) (pl_grants p)\<rparr>)"

definition guestReset ::
  "guest_world \<Rightarrow> guest_db \<Rightarrow> actor \<Rightarrow> ident \<Rightarrow> text16 \<Rightarrow> guest_db \<Rightarrow> failure + (guest_reset \<times> guest_db)" where
  "guestReset w before a user reason d =
     and_then (guest_manage w before a user reason) (\<lambda>(guild, reason).
       let d = ensured (act_guild a) user None d;
           lifted = state_revoked d (act_guild a) user;
           ended = map gg_provenance (active_grants d (act_guild a) user);
           d = end_grants w a user reason d;
           answer = (\<lambda>reset. \<lparr>gr_reset = reset, gr_mode = effectsMode (gw_enable w) guild, gr_user = user,
             gr_reason = reason, gr_lifted = lifted, gr_ended = sort ended, gr_present = (gw_member w user \<noteq> None),
             gr_configured = (gd_guest_role guild \<noteq> None)\<rparr>)
       in if \<not> lifted \<and> ended = [] then Inr (answer False, d)
          else
            (let d = (if lifted then put_state w a user False (Some reason) d else d);
                 d = audited a ''guest.reset'' user (Some reason) d
             in Inr (answer True, on_jobs (queue_user w (act_guild a) user) d)))"

section \<open>The other writers of these tables\<close>

text \<open>Pending applications closed by a departure, an enumeration of the server, or a new membership.\<close>

definition close_pending ::
  "int \<Rightarrow> (application \<Rightarrow> bool) \<Rightarrow> application_state \<Rightarrow> guest_db \<Rightarrow> guest_db" where
  "close_pending now p state =
     update_apps (\<lambda>x. ap_state x = AppPending \<and> p x) (\<lambda>x. x\<lparr>ap_state := state, ap_decided := Some now\<rparr>)"

definition pending_ids :: "guest_db \<Rightarrow> (application \<Rightarrow> bool) \<Rightarrow> ident list" where
  "pending_ids d p = map ap_id (filter (\<lambda>x. ap_state x = AppPending \<and> p x) (gt_apps d))"

definition memberLeft :: "guest_world \<Rightarrow> ident \<Rightarrow> ident \<Rightarrow> guest_db \<Rightarrow> guest_db" where
  "memberLeft w guild user d =
     (let mine = (\<lambda>x. ap_guild x = guild \<and> ap_user x = user);
          left = on_people (\<lambda>p. p\<lparr>pl_users := update_user guild user (\<lambda>u. u\<lparr>gu_present := False\<rparr>) (pl_users p)\<rparr>) d
      in fold (\<lambda>i. on_jobs (queue_review w guild user i)) (pending_ids d mine)
           (close_pending (gw_now w) mine AppCancelled left))"

definition supersede_applications :: "guest_world \<Rightarrow> ident \<Rightarrow> ident \<Rightarrow> guest_db \<Rightarrow> guest_db" where
  "supersede_applications w guild user d =
     (let mine = (\<lambda>x. ap_guild x = guild \<and> ap_user x = user)
      in fold (\<lambda>i. on_jobs (queue_review w guild user i)) (pending_ids d mine)
           (close_pending (gw_now w) mine AppSuperseded d))"

text \<open>The review message a job posted, kept with the application.\<close>

definition post_review :: "ident \<Rightarrow> ident \<Rightarrow> ident \<Rightarrow> guest_db \<Rightarrow> guest_db" where
  "post_review guild i message =
     update_apps (\<lambda>x. ap_id x = i \<and> ap_guild x = guild) (\<lambda>x. x\<lparr>ap_message := Some message\<rparr>)"

text \<open>One candidate of an imported server's first activation.\<close>

definition grandfather_grant :: "guest_world \<Rightarrow> ident \<Rightarrow> ident \<Rightarrow> int \<Rightarrow> guest_db \<Rightarrow> guest_db" where
  "grandfather_grant w guild user joined d =
     (let key = ''grandfather:'' @ guild @ '':'' @ user;
          d = ensured guild user (Some joined) d
      in if list_ex (\<lambda>g. gg_key g = key) (pl_grants (gt_people d)) then d
         else on_people (\<lambda>p. p\<lparr>pl_grants := pl_grants p @
                [\<lparr>gg_id = gw_row w, gg_guild = guild, gg_user = user, gg_provenance = ''grandfathered'', gg_key = key,
                  gg_actor = None, gg_reason = Some (units ''Grandfathered Guest at first activation''),
                  gg_ended = None\<rparr>]\<rparr>) d)"

end
