(* ===== verification/GuestHistory.thy ===== *)
theory GuestHistory
  imports Guests
begin

text \<open>
  What holds of guest access over any history of its writers: one pending application per person, final
  decisions, an approval that gives Guest, a revocation that takes it away and that no repeated grant
  undoes, and the wait after a denial.
\<close>

section \<open>Histories\<close>

definition app_ids :: "guest_db \<Rightarrow> ident list" where
  "app_ids d = map ap_id (gt_apps d)"

definition grant_keys :: "guest_db \<Rightarrow> string list" where
  "grant_keys d = map gg_key (pl_grants (gt_people d))"

inductive guest_step :: "guest_db \<Rightarrow> guest_db \<Rightarrow> bool" where
  Apply: "apply_for_guest w before a form d = Inr (r, d') \<Longrightarrow> gw_row w \<notin> set (app_ids d) \<Longrightarrow> guest_step d d'"
| Decide: "decide_application w before a i approve reason messageId d = Inr (decided, d') \<Longrightarrow> guest_step d d'"
| Act: "guestAction w before a user revoke why key d = Inr (acted, d') \<Longrightarrow> guest_step d d'"
| Reset: "guestReset w before a user why d = Inr (answer, d') \<Longrightarrow> guest_step d d'"
| Leave: "guest_step d (memberLeft w guild user d)"
| Supersede: "guest_step d (supersede_applications w guild user d)"
| Enumerate: "guest_step d (close_pending now p AppCancelled d)"
| Post: "guest_step d (post_review guild i message d)"
| Grandfather: "guest_step d (grandfather_grant w guild user joined d)"
| Elsewhere: "gt_apps d' = gt_apps d \<Longrightarrow> pl_grants (gt_people d') = pl_grants (gt_people d) \<Longrightarrow>
    pl_states (gt_people d') = pl_states (gt_people d) \<Longrightarrow> guest_step d d'"

section \<open>What each helper keeps\<close>

lemma on_jobs_simps [simp]:
  "gt_apps (on_jobs f d) = gt_apps d" "gt_people (on_jobs f d) = gt_people d" "gt_guilds (on_jobs f d) = gt_guilds d"
  "gt_audit (on_jobs f d) = gt_audit d"
  by (simp_all add: on_jobs_def)

lemma on_people_simps [simp]:
  "gt_apps (on_people f d) = gt_apps d" "gt_people (on_people f d) = f (gt_people d)"
  "gt_guilds (on_people f d) = gt_guilds d"
  by (simp_all add: on_people_def)

lemma audited_simps [simp]:
  "gt_apps (audited a s t r d) = gt_apps d" "gt_people (audited a s t r d) = gt_people d"
  "gt_guilds (audited a s t r d) = gt_guilds d"
  by (simp_all add: audited_def)

lemma update_apps_simps [simp]:
  "gt_apps (update_apps p f d) = map (\<lambda>x. if p x then f x else x) (gt_apps d)"
  "gt_people (update_apps p f d) = gt_people d" "gt_guilds (update_apps p f d) = gt_guilds d"
  by (simp_all add: update_apps_def)

lemma ensured_simps [simp]:
  "gt_apps (ensured g u j d) = gt_apps d" "pl_grants (gt_people (ensured g u j d)) = pl_grants (gt_people d)"
  "pl_states (gt_people (ensured g u j d)) = pl_states (gt_people d)"
  "pl_links (gt_people (ensured g u j d)) = pl_links (gt_people d)" "gt_guilds (ensured g u j d) = gt_guilds d"
  by (simp_all add: ensured_def)

lemma fold_jobs_simps [simp]:
  "gt_apps (fold (\<lambda>i. on_jobs (f i)) is d) = gt_apps d"
  "gt_people (fold (\<lambda>i. on_jobs (f i)) is d) = gt_people d"
  by (induction "is" arbitrary: d) simp_all

lemma put_state_simps [simp]:
  "gt_apps (put_state w a u rv why d) = gt_apps d"
  "pl_grants (gt_people (put_state w a u rv why d)) = pl_grants (gt_people d)"
  "pl_links (gt_people (put_state w a u rv why d)) = pl_links (gt_people d)"
  by (simp_all add: put_state_def)

lemma list_ex_upsert:
  assumes "\<And>s. q s \<Longrightarrow> m s" "q row = rv"
  shows "list_ex m xs \<Longrightarrow> list_ex q (map (\<lambda>s. if m s then row else s) xs) = rv"
    and "\<not> list_ex m xs \<Longrightarrow> list_ex q (xs @ [row]) = rv"
proof -
  show "list_ex m xs \<Longrightarrow> list_ex q (map (\<lambda>s. if m s then row else s) xs) = rv"
    using assms by (induction xs) (auto simp: list_ex_iff)
  show "\<not> list_ex m xs \<Longrightarrow> list_ex q (xs @ [row]) = rv"
    using assms by (induction xs) auto
qed

text \<open>The state of one person is set.\<close>

lemma put_state_revoked [simp]: "state_revoked (put_state w a user rv why d) (act_guild a) user = rv"
proof -
  let ?row = "\<lparr>gs_guild = act_guild a, gs_user = user, gs_revoked = rv, gs_actor = Some (act_user a), gs_reason = why,
               gs_changed = gw_now w\<rparr>"
  let ?m = "\<lambda>s. gs_guild s = act_guild a \<and> gs_user s = user"
  let ?q = "\<lambda>s. gs_guild s = act_guild a \<and> gs_user s = user \<and> gs_revoked s"
  have "\<And>s. ?q s \<Longrightarrow> ?m s" "?q ?row = rv" by simp_all
  note up = list_ex_upsert [of ?q ?m ?row rv, OF this]
  show ?thesis
    unfolding put_state_def state_revoked_def Let_def on_people_simps
    by (cases "list_ex ?m (pl_states (gt_people d))") (use up in simp_all)
qed

lemma state_revoked_cong:
  "pl_states (gt_people d') = pl_states (gt_people d) \<Longrightarrow> state_revoked d' g u = state_revoked d g u"
  by (simp add: state_revoked_def)

lemma state_revoked_simps [simp]:
  "state_revoked (on_jobs f d) g u = state_revoked d g u" "state_revoked (audited a s t r d) g u = state_revoked d g u"
  "state_revoked (update_apps p h d) g u = state_revoked d g u"
  "state_revoked (ensured gu us j d) g u = state_revoked d g u"
  by (simp_all add: state_revoked_def)

section \<open>Applications and grants along a step\<close>

text \<open>An application stays the same person's, and what was decided stays decided.\<close>

definition keeps :: "application \<Rightarrow> application \<Rightarrow> bool" where
  "keeps x x' \<longleftrightarrow>
     ap_id x' = ap_id x \<and> ap_guild x' = ap_guild x \<and> ap_user x' = ap_user x \<and>
     (if ap_state x = AppPending then (ap_state x' = AppPending \<and> ap_decided x' = ap_decided x) \<or>
           (ap_state x' \<noteq> AppPending \<and> ap_decided x' \<noteq> None)
      else ap_state x' = ap_state x \<and> ap_decided x' = ap_decided x \<and> ap_reviewer x' = ap_reviewer x \<and>
           ap_reason x' = ap_reason x)"

definition grant_names :: "guest_db \<Rightarrow> (string \<times> ident \<times> ident) list" where
  "grant_names d = map (\<lambda>g. (gg_key g, gg_guild g, gg_user g)) (pl_grants (gt_people d))"

definition one_pending :: "application list \<Rightarrow> bool" where
  "one_pending xs \<longleftrightarrow> distinct (map (\<lambda>x. (ap_guild x, ap_user x)) (filter (\<lambda>x. ap_state x = AppPending) xs))"

definition guests_ok :: "guest_db \<Rightarrow> bool" where
  "guests_ok d \<longleftrightarrow>
     distinct (app_ids d) \<and> distinct (map fst (grant_names d)) \<and> one_pending (gt_apps d) \<and>
     (\<forall>x \<in> set (gt_apps d). (ap_state x = AppPending) = (ap_decided x = None)) \<and>
     (\<forall>x \<in> set (gt_apps d). ap_state x = AppApproved \<longrightarrow>
        (grant_key (ap_id x), ap_guild x, ap_user x) \<in> set (grant_names d))"

lemma keeps_refl [simp]: "keeps x x"
  by (simp add: keeps_def)

lemma keeps_trans: "keeps x y \<Longrightarrow> keeps y z \<Longrightarrow> keeps x z"
  by (auto simp: keeps_def split: if_splits)

lemma keeps_pending: "keeps x x' \<Longrightarrow> ap_state x' = AppPending \<Longrightarrow> ap_state x = AppPending"
  by (auto simp: keeps_def split: if_splits)

lemma one_pending_map: "one_pending xs \<Longrightarrow> (\<And>x. keeps x (f x)) \<Longrightarrow> one_pending (map f xs)"
  unfolding one_pending_def
proof (rule distinct_filter_map)
  fix x assume f: "\<And>x. keeps x (f x)"
  show "(ap_guild (f x), ap_user (f x)) = (ap_guild x, ap_user x)"
    using f [of x] by (simp add: keeps_def)
  show "ap_state (f x) = AppPending \<Longrightarrow> ap_state x = AppPending"
    by (rule keeps_pending [OF f])
qed

text \<open>A step that adds no application.\<close>

lemma guests_ok_map:
  assumes ok: "guests_ok d" and apps: "gt_apps d' = map f (gt_apps d)" and f: "\<And>x. keeps x (f x)"
    and grants: "grant_names d' = grant_names d @ new" "distinct (map fst (grant_names d'))"
    and given: "\<And>x. x \<in> set (gt_apps d) \<Longrightarrow> ap_state x = AppPending \<Longrightarrow> ap_state (f x) = AppApproved \<Longrightarrow>
      (grant_key (ap_id x), ap_guild x, ap_user x) \<in> set (grant_names d')"
  shows "guests_ok d'"
proof -
  have same: "ap_id (f x) = ap_id x" "ap_guild (f x) = ap_guild x" "ap_user (f x) = ap_user x" for x
    using f [of x] by (auto simp: keeps_def)
  have "app_ids d' = app_ids d"
    by (simp add: app_ids_def apps same comp_def)
  moreover have "one_pending (gt_apps d')"
    using ok f unfolding apps guests_ok_def by (intro one_pending_map) auto
  moreover have "(ap_state (f x) = AppPending) = (ap_decided (f x) = None)" if "x \<in> set (gt_apps d)" for x
    using ok that f [of x] unfolding guests_ok_def by (auto simp: keeps_def split: if_splits)
  moreover have "(grant_key (ap_id x), ap_guild x, ap_user x) \<in> set (grant_names d')"
    if "x \<in> set (gt_apps d)" "ap_state (f x) = AppApproved" for x
  proof (cases "ap_state x = AppPending")
    case True
    then show ?thesis using given that by blast
  next
    case False
    then have "ap_state x = AppApproved" using that f [of x] by (auto simp: keeps_def)
    then show ?thesis using ok that(1) grants(1) unfolding guests_ok_def by auto
  qed
  ultimately show ?thesis
    using ok grants(2) same unfolding guests_ok_def apps by simp
qed

definition grants_grow :: "guest_db \<Rightarrow> guest_db \<Rightarrow> bool" where
  "grants_grow d d' \<longleftrightarrow> (\<exists>new. grant_names d' = grant_names d @ new) \<and>
     (distinct (map fst (grant_names d)) \<longrightarrow> distinct (map fst (grant_names d')))"

lemma grants_grow_same: "grant_names d' = grant_names d \<Longrightarrow> grants_grow d d'"
  by (simp add: grants_grow_def)

lemma grant_names_cong [simp]:
  "grant_names (on_jobs f d) = grant_names d" "grant_names (audited a s t r d) = grant_names d"
  "grant_names (update_apps p g d) = grant_names d" "grant_names (ensured gu u j d) = grant_names d"
  "grant_names (put_state w a u rv why d) = grant_names d"
  "grant_names (fold (\<lambda>i. on_jobs (h i)) is d) = grant_names d"
  "grant_names (d\<lparr>gt_apps := apps\<rparr>) = grant_names d"
  by (simp_all add: grant_names_def)

lemma grant_names_add:
  "grant_names (on_people (\<lambda>p. p\<lparr>pl_grants := pl_grants p @ [g]\<rparr>) d) =
     grant_names d @ [(gg_key g, gg_guild g, gg_user g)]"
  by (simp add: grant_names_def)

lemma fresh_key: "find (\<lambda>g. gg_key g = key) (pl_grants (gt_people d)) = None \<longleftrightarrow> key \<notin> fst ` set (grant_names d)"
  by (auto simp: find_None_iff grant_names_def image_iff)

lemma grantWithin_Inr:
  assumes "grantWithin w a user provenance key reason d = Inr (restored, d')"
  shows "gt_apps d' = gt_apps d" "grants_grow d d'" "(key, act_guild a, user) \<in> set (grant_names d')"
proof -
  show "gt_apps d' = gt_apps d"
    using assms by (auto simp: grantWithin_def Let_def split: option.splits if_splits)
  show "grants_grow d d'"
  proof (cases "find (\<lambda>g. gg_key g = key) (pl_grants (gt_people d))")
    case None
    then show ?thesis
      using assms fresh_key [of key d]
      by (auto simp: grantWithin_def Let_def grants_grow_def grant_names_add)
  next
    case (Some g)
    then show ?thesis
      using assms by (auto simp: grantWithin_def Let_def intro: grants_grow_same split: if_splits)
  qed
  show "(key, act_guild a, user) \<in> set (grant_names d')"
  proof (cases "find (\<lambda>g. gg_key g = key) (pl_grants (gt_people d))")
    case None
    then show ?thesis
      using assms by (auto simp: grantWithin_def Let_def grant_names_add)
  next
    case (Some g)
    then have "g \<in> set (pl_grants (gt_people d))" "gg_key g = key"
      by (auto simp: find_Some_iff)
    then show ?thesis
      using assms Some by (force simp: grantWithin_def Let_def grant_names_def split: if_splits)
  qed
qed

text \<open>Deciding a pending application.\<close>

lemma decide_pending_Inr:
  assumes "decide_pending w a guild x state reason d = Inr (decided, d')"
  shows "gt_apps d' = map (\<lambda>y. if ap_id y = ap_id x then y\<lparr>ap_state := state, ap_reviewer := Some (act_user a),
      ap_decided := Some (gw_now w), ap_reason := reason\<rparr> else y) (gt_apps d)"
    and "grants_grow d d'"
    and "state = AppApproved \<longrightarrow> (grant_key (ap_id x), act_guild a, ap_user x) \<in> set (grant_names d')"
    and "de_status decided = state"
proof -
  let ?f = "\<lambda>y. y\<lparr>ap_state := state, ap_reviewer := Some (act_user a), ap_decided := Some (gw_now w), ap_reason := reason\<rparr>"
  let ?d = "update_apps (\<lambda>y. ap_id y = ap_id x) ?f d"
  from assms obtain r d1 where d1: "(if state = AppApproved
      then grantWithin w a (ap_user x) ''approved'' (grant_key (ap_id x)) reason ?d else Inr (False, ?d)) = Inr (r, d1)"
    and d': "gt_apps d' = gt_apps d1" "grant_names d' = grant_names d1" "de_status decided = state"
    by (auto simp: decide_pending_def Let_def and_then_Inr_iff decision_of_def)
  have "gt_apps d1 = gt_apps ?d \<and> grants_grow ?d d1 \<and>
      (state = AppApproved \<longrightarrow> (grant_key (ap_id x), act_guild a, ap_user x) \<in> set (grant_names d1))"
  proof (cases "state = AppApproved")
    case True
    then have g: "grantWithin w a (ap_user x) ''approved'' (grant_key (ap_id x)) reason ?d = Inr (r, d1)"
      using d1 by simp
    show ?thesis using grantWithin_Inr [OF g] by blast
  next
    case False
    then show ?thesis using d1 by (auto intro: grants_grow_same)
  qed
  then show "gt_apps d' = map (\<lambda>y. if ap_id y = ap_id x then ?f y else y) (gt_apps d)" "grants_grow d d'"
    "state = AppApproved \<longrightarrow> (grant_key (ap_id x), act_guild a, ap_user x) \<in> set (grant_names d')" "de_status decided = state"
    using d' by (simp_all add: grants_grow_def)
qed

lemma decided_not_pending: "decided_state d guild presence member x approve \<noteq> AppPending"
  by (simp add: decided_state_def Let_def)

lemma decide_application_Inr:
  assumes "decide_application w before a i approve reason messageId d = Inr (decided, d')"
  obtains (again) x where "application_of d (act_guild a) i = Some x" "ap_state x \<noteq> AppPending" "d' = d"
      "\<exists>guild. decided = decision_of w guild x False"
  | (now) x guild state why where "application_of d (act_guild a) i = Some x" "ap_state x = AppPending"
      "find (\<lambda>g. gd_id g = act_guild a) (gt_guilds d) = Some guild"
      "\<exists>user. state = decided_state d guild (user_of (pl_users (gt_people d)) (act_guild a) user) (gw_member w user) x approve"
      "decide_pending w a guild x state why d = Inr (decided, d')"
proof -
  from assms obtain why user where t: "decide_transaction w a i approve why messageId user d = Inr (decided, d')"
    by (auto simp: decide_application_def and_then_Inr_iff split: option.splits)
  from t obtain guild where g: "find (\<lambda>g. gd_id g = act_guild a) (gt_guilds d) = Some guild"
    by (auto simp: decide_transaction_def split: option.splits)
  from t g obtain x where x: "application_of d (act_guild a) i = Some x"
    by (auto simp: decide_transaction_def split: option.splits)
  show ?thesis
  proof (cases "ap_state x = AppPending")
    case True
    then have "decide_pending w a guild x (decided_state d guild (user_of (pl_users (gt_people d)) (act_guild a) user)
        (gw_member w user) x approve) why d = Inr (decided, d')"
      using t g x by (auto simp: decide_transaction_def split: if_splits)
    then show ?thesis using that(2) [OF x True g] by blast
  next
    case False
    then have "decided = decision_of w guild x False" "d' = d"
      using t g x by (auto simp: decide_transaction_def split: if_splits)
    then show ?thesis using that(1) [OF x False] by blast
  qed
qed

lemma application_of_Some:
  "application_of d guild i = Some x \<Longrightarrow> x \<in> set (gt_apps d) \<and> ap_id x = i \<and> ap_guild x = guild"
  by (auto simp: application_of_def find_Some_iff)

text \<open>What a step does to applications and grants, all but a new application.\<close>

definition quiet_step :: "guest_db \<Rightarrow> guest_db \<Rightarrow> bool" where
  "quiet_step d d' \<longleftrightarrow>
     (\<exists>f. gt_apps d' = map f (gt_apps d) \<and> (\<forall>x. keeps x (f x)) \<and>
       (\<forall>x \<in> set (gt_apps d). ap_state x = AppPending \<and> ap_state (f x) = AppApproved \<longrightarrow>
          (grant_key (ap_id x), ap_guild x, ap_user x) \<in> set (grant_names d'))) \<and> grants_grow d d'"

lemma quiet_step_ok: "quiet_step d d' \<Longrightarrow> guests_ok d \<Longrightarrow> guests_ok d'"
  unfolding quiet_step_def grants_grow_def
  by (elim exE conjE) (rule guests_ok_map, auto simp: guests_ok_def)

lemma quiet_same: "gt_apps d' = gt_apps d \<Longrightarrow> grants_grow d d' \<Longrightarrow> quiet_step d d'"
  unfolding quiet_step_def by (intro conjI exI [of _ "\<lambda>x. x"]) auto

lemma quiet_decide:
  assumes "decide_application w before a i approve reason messageId d = Inr (decided, d')" "guests_ok d"
  shows "quiet_step d d'"
  using assms(1)
proof (cases rule: decide_application_Inr)
  case (again x)
  then show ?thesis by (auto intro: quiet_same grants_grow_same)
next
  case (now x guild state why)
  note app = application_of_Some [OF now(1)] and eff = decide_pending_Inr [OF now(5)]
  let ?f = "\<lambda>y. if ap_id y = ap_id x \<and> ap_state y = AppPending then y\<lparr>ap_state := state, ap_reviewer := Some (act_user a),
      ap_decided := Some (gw_now w), ap_reason := why\<rparr> else y"
  have state: "state \<noteq> AppPending" using now(4) decided_not_pending by metis
  have one: "y = x" if "y \<in> set (gt_apps d)" "ap_id y = ap_id x" for y
    by (rule inj_onD [where f = ap_id and A = "set (gt_apps d)"])
       (use that app assms(2) in \<open>simp_all add: guests_ok_def app_ids_def distinct_map\<close>)
  have "gt_apps d' = map ?f (gt_apps d)"
    unfolding eff(1) using one now(2) by (intro map_cong refl) metis
  moreover have "keeps y (?f y)" for y
    using state by (simp add: keeps_def)
  moreover have "(grant_key (ap_id y), ap_guild y, ap_user y) \<in> set (grant_names d')"
    if "y \<in> set (gt_apps d)" "ap_state y = AppPending \<and> ap_state (?f y) = AppApproved" for y
  proof -
    have "ap_id y = ap_id x" "state = AppApproved" using that(2) by (auto split: if_splits)
    then show ?thesis using one [OF that(1)] eff(3) app by auto
  qed
  ultimately show ?thesis
    unfolding quiet_step_def using eff(2) by (intro conjI exI [of _ ?f]) blast+
qed

text \<open>Closing pending applications without granting.\<close>

lemma quiet_close:
  assumes "gt_apps d' = map (\<lambda>x. if ap_state x = AppPending \<and> p x then g x else x) (gt_apps d)"
    and "\<And>x. ap_state x = AppPending \<Longrightarrow> keeps x (g x) \<and> ap_state (g x) \<noteq> AppApproved" "grants_grow d d'"
  shows "quiet_step d d'"
  unfolding quiet_step_def
  by (intro conjI exI [of _ "\<lambda>x. if ap_state x = AppPending \<and> p x then g x else x"]) (use assms in auto)

lemma quiet_closed:
  assumes "gt_apps d' = map (\<lambda>x. if ap_state x = AppPending \<and> p x then x\<lparr>ap_state := s, ap_decided := Some t\<rparr> else x) (gt_apps d)"
    and "s \<in> {AppCancelled, AppSuperseded}" "grants_grow d d'"
  shows "quiet_step d d'"
  by (rule quiet_close [OF assms(1) _ assms(3)]) (use assms(2) in \<open>auto simp: keeps_def\<close>)

lemma revoke_guest_apps:
  "gt_apps (snd (revoke_guest w a user why d)) = map (\<lambda>x. if ap_state x = AppPending \<and> ap_guild x = act_guild a \<and> ap_user x = user
     then x\<lparr>ap_state := AppCancelled, ap_decided := Some (gw_now w), ap_reviewer := Some (act_user a),
       ap_reason := Some why\<rparr> else x) (gt_apps d)"
  "grant_names (snd (revoke_guest w a user why d)) = grant_names d"
  "state_revoked (snd (revoke_guest w a user why d)) (act_guild a) user"
proof -
  show "gt_apps (snd (revoke_guest w a user why d)) = map (\<lambda>x. if ap_state x = AppPending \<and> ap_guild x = act_guild a \<and> ap_user x = user
     then x\<lparr>ap_state := AppCancelled, ap_decided := Some (gw_now w), ap_reviewer := Some (act_user a),
       ap_reason := Some why\<rparr> else x) (gt_apps d)"
    by (auto simp: revoke_guest_def Let_def intro: map_cong)
  show "grant_names (snd (revoke_guest w a user why d)) = grant_names d"
    by (simp add: revoke_guest_def Let_def)
  show "state_revoked (snd (revoke_guest w a user why d)) (act_guild a) user"
    using put_state_revoked [of w a user True "Some why" d]
    by (simp add: revoke_guest_def Let_def state_revoked_def)
qed

lemma guestAction_Inr:
  assumes "guestAction w before a user revoke why key d = Inr (acted, d')"
  obtains (revoked) why' where "revoke" "gt_apps d' = gt_apps (snd (revoke_guest w a user why' (ensured (act_guild a) user None d)))"
      "gt_people d' = gt_people (snd (revoke_guest w a user why' (ensured (act_guild a) user None d)))"
  | (granted) why' restored d1 where "\<not> revoke"
      "grantWithin w a user ''manual'' key (Some why') (ensured (act_guild a) user None d) = Inr (restored, d1)"
      "gt_apps d' = gt_apps d1" "gt_people d' = gt_people d1" "ga_restored acted = restored"
proof (cases revoke)
  case True
  from assms obtain guild why' where m: "guest_manage w before a user why = Inr (guild, why')"
    by (auto simp: guestAction_def and_then_Inr_iff)
  obtain n d2 where r: "revoke_guest w a user why' (ensured (act_guild a) user None d) = (n, d2)"
    by (cases "revoke_guest w a user why' (ensured (act_guild a) user None d)")
  have "d' = on_jobs (queue_user w (act_guild a) user) (audited a ''guest.revoke'' user (Some why') d2)"
    using assms True by (simp add: guestAction_def m r Let_def)
  then show ?thesis
    by (intro that(1) [OF True, of why']) (simp_all add: r)
next
  case False
  then show ?thesis
    using assms that(2) by (auto simp: guestAction_def and_then_Inr_iff Let_def)
qed

lemma quiet_act:
  assumes "guestAction w before a user revoke why key d = Inr (acted, d')"
  shows "quiet_step d d'"
  using assms
proof (cases rule: guestAction_Inr)
  case (revoked why')
  have "grant_names d' = grant_names d"
    using revoked(3) revoke_guest_apps(2) by (simp add: grant_names_def)
  then have g: "grants_grow d d'" by (rule grants_grow_same)
  show ?thesis
    by (rule quiet_close [OF revoked(2) [unfolded revoke_guest_apps(1) ensured_simps(1)] _ g]) (simp add: keeps_def)
next
  case (granted why' restored d1)
  note g = grantWithin_Inr [OF granted(2)]
  have "grant_names d' = grant_names d1" using granted(4) by (simp add: grant_names_def)
  then have "grants_grow d d'" using g(2) by (simp add: grants_grow_def)
  then show ?thesis using granted(3) g(1) by (auto intro: quiet_same)
qed

lemma end_grants_names [simp]: "grant_names (end_grants w a user why d) = grant_names d"
  by (auto simp: grant_names_def end_grants_def)

lemma end_grants_simps [simp]:
  "gt_apps (end_grants w a user why d) = gt_apps d"
  "pl_states (gt_people (end_grants w a user why d)) = pl_states (gt_people d)"
  by (simp_all add: end_grants_def)

lemma quiet_reset:
  assumes "guestReset w before a user why d = Inr (answer, d')"
  shows "quiet_step d d'"
  using assms
  by (auto simp: guestReset_def and_then_Inr_iff Let_def intro!: quiet_same grants_grow_same split: if_splits)

lemma grandfather_grant_quiet: "quiet_step d (grandfather_grant w guild user joined d)"
proof (rule quiet_same)
  show "gt_apps (grandfather_grant w guild user joined d) = gt_apps d"
    by (simp add: grandfather_grant_def Let_def)
  show "grants_grow d (grandfather_grant w guild user joined d)"
    by (auto simp: grandfather_grant_def Let_def grants_grow_def grant_names_add list_ex_iff grant_names_def comp_def
        simp del: append_assoc)
qed

lemma quiet_leave: "quiet_step d (memberLeft w guild user d)"
proof (rule quiet_closed)
  show "gt_apps (memberLeft w guild user d) = map (\<lambda>x. if ap_state x = AppPending \<and> (ap_guild x = guild \<and> ap_user x = user)
      then x\<lparr>ap_state := AppCancelled, ap_decided := Some (gw_now w)\<rparr> else x) (gt_apps d)"
    by (simp add: memberLeft_def close_pending_def Let_def)
  show "grants_grow d (memberLeft w guild user d)"
    by (rule grants_grow_same) (simp add: memberLeft_def close_pending_def Let_def, simp add: grant_names_def)
qed simp

lemma quiet_supersede: "quiet_step d (supersede_applications w guild user d)"
proof (rule quiet_closed)
  show "gt_apps (supersede_applications w guild user d) = map (\<lambda>x. if ap_state x = AppPending \<and> (ap_guild x = guild \<and> ap_user x = user)
      then x\<lparr>ap_state := AppSuperseded, ap_decided := Some (gw_now w)\<rparr> else x) (gt_apps d)"
    by (simp add: supersede_applications_def close_pending_def Let_def)
  show "grants_grow d (supersede_applications w guild user d)"
    by (rule grants_grow_same) (simp add: supersede_applications_def close_pending_def Let_def)
qed simp

lemma quiet_enumerate: "quiet_step d (close_pending now p AppCancelled d)"
  by (rule quiet_closed [where p = p and s = AppCancelled and t = now])
     (simp_all add: close_pending_def grants_grow_same)

lemma quiet_post: "quiet_step d (post_review guild i message d)"
  unfolding quiet_step_def
  by (intro conjI exI [of _ "\<lambda>x. if ap_id x = i \<and> ap_guild x = guild then x\<lparr>ap_message := Some message\<rparr> else x"])
     (auto simp: post_review_def keeps_def grants_grow_same)

text \<open>What a submission that did not fail did.\<close>

lemma apply_rest_Inr:
  assumes "apply_rest w a guild channel m introduction interest mode d = Inr ((x, outcome, mode'), d')"
  obtains (existing) "outcome = AppExisting" "d' = d" "x \<in> set (gt_apps d)" "ap_state x = AppPending"
      "ap_guild x = act_guild a" "ap_user x = act_user a"
  | (created) "outcome \<noteq> AppExisting" "x = new_application w a channel m introduction interest"
      "gt_apps d' = gt_apps (cancel_pending w a (pending_of d (act_guild a) (act_user a)) d) @ [x]"
      "gt_people d' = gt_people d" "apply_eligible w d guild (act_user a) m = None"
      "cooling_until w (cancel_pending w a (pending_of d (act_guild a) (act_user a)) d) (act_guild a) (act_user a) = None"
proof -
  have e: "apply_eligible w d guild (act_user a) m = None"
    using assms by (simp add: apply_rest_def split: option.splits)
  let ?p = "pending_of d (act_guild a) (act_user a)"
  show ?thesis
  proof (cases "Option.bind ?p (\<lambda>p. if ap_joined p = dm_joined m then Some p else None)")
    case (Some p)
    then have "?p = Some p" by (auto simp: bind_eq_Some_conv split: if_splits)
    then have "p \<in> set (gt_apps d)" "ap_state p = AppPending" "ap_guild p = act_guild a" "ap_user p = act_user a"
      by (auto simp: pending_of_def find_Some_iff)
    then show ?thesis
      using assms Some e that(1) by (simp add: apply_rest_def Let_def)
  next
    case None
    let ?d = "cancel_pending w a ?p d"
    have people: "gt_people ?d = gt_people d" by (simp add: cancel_pending_def split: option.splits)
    have c: "cooling_until w ?d (act_guild a) (act_user a) = None"
      using assms None e by (simp add: apply_rest_def Let_def split: option.splits)
    show ?thesis
      using assms None e c people that(2) by (auto simp: apply_rest_def Let_def)
  qed
qed

lemma apply_for_guest_Inr:
  assumes "apply_for_guest w before a form d = Inr ((x, outcome, mode), d')"
  obtains guild channel m introduction interest where
    "apply_admission w before a form = Inr (guild, channel, m, introduction, interest)"
    "apply_rest w a guild channel m introduction interest mode
       (ensured (act_guild a) (act_user a) (Some (dm_joined m)) (ensured (act_guild a) (act_user a) None d)) =
     Inr ((x, outcome, mode), d')"
    "\<exists>current. find (\<lambda>g. gd_id g = act_guild a) (gt_guilds d) = Some current \<and> gd_active current \<and>
       gd_revision current = gd_revision guild"
proof -
  obtain guild channel m introduction interest where
    adm: "apply_admission w before a form = Inr (guild, channel, m, introduction, interest)"
    and t: "apply_transaction w a (guild, channel, m, introduction, interest) d = Inr ((x, outcome, mode), d')"
    using assms by (auto simp: apply_for_guest_def split: sum.splits)
  from t obtain current where c: "find (\<lambda>g. gd_id g = act_guild a) (gt_guilds d) = Some current"
      "gd_active current" "gd_revision current = gd_revision guild"
    by (auto simp: apply_transaction_def split: option.splits if_splits)
  let ?d = "ensured (act_guild a) (act_user a) (Some (dm_joined m)) (ensured (act_guild a) (act_user a) None d)"
  have r: "apply_rest w a guild channel m introduction interest (effectsMode (gw_enable w) current) ?d = Inr ((x, outcome, mode), d')"
    using t c by (auto simp: apply_transaction_def Let_def split: option.splits if_splits prod.splits)
  then have "mode = effectsMode (gw_enable w) current"
    by (auto simp: apply_rest_def Let_def split: option.splits)
  then show ?thesis using that [OF adm] r c by blast
qed

lemma pending_of_only:
  assumes "one_pending (gt_apps d)" "x \<in> set (gt_apps d)" "ap_state x = AppPending"
  shows "pending_of d (ap_guild x) (ap_user x) = Some x"
proof -
  let ?k = "\<lambda>x. (ap_guild x, ap_user x)" and ?P = "filter (\<lambda>x. ap_state x = AppPending) (gt_apps d)"
  have inj: "inj_on ?k (set ?P)"
    using assms(1) by (simp add: one_pending_def distinct_map)
  obtain y where y: "pending_of d (ap_guild x) (ap_user x) = Some y"
    using assms(2,3) by (cases "pending_of d (ap_guild x) (ap_user x)") (auto simp: pending_of_def find_None_iff)
  then have "y \<in> set ?P" "?k y = ?k x"
    by (auto simp: pending_of_def find_Some_iff)
  then have "y = x"
    by (intro inj_onD [OF inj]) (use assms(2,3) in simp_all)
  then show ?thesis using y by simp
qed

text \<open>Cancelling the person's pending application leaves none of theirs pending.\<close>

lemma cancel_pending_effect:
  fixes w a
  assumes ok: "guests_ok d"
  defines "d' \<equiv> cancel_pending w a (pending_of d (act_guild a) (act_user a)) d"
  shows "quiet_step d d'" and "pending_of d' (act_guild a) (act_user a) = None" and "gt_people d' = gt_people d"
proof -
  show people: "gt_people d' = gt_people d"
    by (simp add: d'_def cancel_pending_def split: option.splits)
  then have g: "grants_grow d d'"
    by (intro grants_grow_same) (simp add: grant_names_def)
  have op: "one_pending (gt_apps d)" using ok by (simp add: guests_ok_def)
  let ?m = "\<lambda>x. ap_guild x = act_guild a \<and> ap_user x = act_user a"
  have apps: "gt_apps d' = map (\<lambda>x. if ap_state x = AppPending \<and> ?m x
      then x\<lparr>ap_state := AppCancelled, ap_decided := Some (gw_now w)\<rparr> else x) (gt_apps d)"
  proof (cases "pending_of d (act_guild a) (act_user a)")
    case None
    then have "\<forall>x \<in> set (gt_apps d). \<not> (ap_state x = AppPending \<and> ?m x)"
      by (auto simp: pending_of_def find_None_iff)
    then have "map (\<lambda>x. if ap_state x = AppPending \<and> ?m x
        then x\<lparr>ap_state := AppCancelled, ap_decided := Some (gw_now w)\<rparr> else x) (gt_apps d) = gt_apps d"
      by (intro map_idI) auto
    then show ?thesis using None by (simp add: d'_def cancel_pending_def)
  next
    case (Some p)
    then have p: "p \<in> set (gt_apps d)" "ap_state p = AppPending" "?m p"
      by (auto simp: pending_of_def find_Some_iff)
    have ids: "inj_on ap_id (set (gt_apps d))"
      using ok by (simp add: guests_ok_def app_ids_def distinct_map)
    have "ap_id x = ap_id p \<longleftrightarrow> ap_state x = AppPending \<and> ?m x" if "x \<in> set (gt_apps d)" for x
    proof
      assume "ap_id x = ap_id p"
      then have "x = p" by (rule inj_onD [OF ids _ that p(1)])
      then show "ap_state x = AppPending \<and> ?m x" using p by blast
    next
      assume "ap_state x = AppPending \<and> ?m x"
      then have "Some x = Some p" using pending_of_only [OF op that] Some by simp
      then show "ap_id x = ap_id p" by simp
    qed
    then show ?thesis
      by (simp add: d'_def cancel_pending_def Some)
  qed
  show "quiet_step d d'"
    by (rule quiet_closed [where p = ?m and s = AppCancelled and t = "gw_now w"]) (use apps g in auto)
  show "pending_of d' (act_guild a) (act_user a) = None"
    unfolding pending_of_def apps find_None_iff by auto
qed

lemma guests_ok_new:
  assumes ok: "guests_ok d" and none: "pending_of d (ap_guild x) (ap_user x) = None"
    and x: "ap_state x = AppPending" "ap_decided x = None" "ap_id x \<notin> set (app_ids d)"
    and d': "gt_apps d' = gt_apps d @ [x]" "gt_people d' = gt_people d"
  shows "guests_ok d'"
proof -
  have names: "grant_names d' = grant_names d" using d'(2) by (simp add: grant_names_def)
  have "(ap_guild x, ap_user x) \<notin> (\<lambda>x. (ap_guild x, ap_user x)) ` set (filter (\<lambda>x. ap_state x = AppPending) (gt_apps d))"
    using none by (auto simp: pending_of_def find_None_iff)
  then have "one_pending (gt_apps d')"
    using ok x(1) by (simp add: guests_ok_def one_pending_def d'(1))
  moreover have "distinct (app_ids d')"
    using ok x(3) by (simp add: guests_ok_def app_ids_def d'(1))
  ultimately show ?thesis
    using ok x unfolding guests_ok_def names d'(1) by auto
qed

text \<open>A step closes or decides, then perhaps adds one pending application of a person without one.\<close>

definition adds_one :: "guest_db \<Rightarrow> guest_db \<Rightarrow> bool" where
  "adds_one d d' \<longleftrightarrow> (\<exists>x. gt_apps d' = gt_apps d @ [x] \<and> gt_people d' = gt_people d \<and> ap_state x = AppPending \<and>
     ap_decided x = None \<and> ap_id x \<notin> set (app_ids d) \<and> pending_of d (ap_guild x) (ap_user x) = None)"

lemma quiet_ids: "quiet_step d d' \<Longrightarrow> app_ids d' = app_ids d"
  by (auto simp: quiet_step_def app_ids_def keeps_def comp_def)

lemma guests_ok_cong: "gt_apps d' = gt_apps d \<Longrightarrow> grant_names d' = grant_names d \<Longrightarrow> guests_ok d \<Longrightarrow> guests_ok d'"
  by (simp add: guests_ok_def app_ids_def)

lemma apply_step:
  assumes "apply_for_guest w before a form d = Inr ((x, outcome, mode), d')" "guests_ok d"
    and "gw_row w \<notin> set (app_ids d)"
  shows "\<exists>d1. quiet_step d d1 \<and> (d' = d1 \<or> adds_one d1 d')"
  using assms(1)
proof (cases rule: apply_for_guest_Inr)
  case (1 guild channel m introduction interest)
  let ?d = "ensured (act_guild a) (act_user a) (Some (dm_joined m)) (ensured (act_guild a) (act_user a) None d)"
  have ok: "guests_ok ?d" by (rule guests_ok_cong [OF _ _ assms(2)]) simp_all
  have quiet: "quiet_step d d'" if "gt_apps d' = gt_apps ?d" "grants_grow ?d d'" for d'
    using that by (auto intro: quiet_same simp: grants_grow_def)
  from 1(2) show ?thesis
  proof (cases rule: apply_rest_Inr)
    case existing
    then show ?thesis using quiet [of ?d] by (auto simp: grants_grow_same)
  next
    case created
    let ?c = "cancel_pending w a (pending_of ?d (act_guild a) (act_user a)) ?d"
    note c = cancel_pending_effect [OF ok, of w a]
    have q: "quiet_step d ?c"
      using c(1) by (simp add: quiet_step_def grants_grow_def)
    moreover have "adds_one ?c d'"
      unfolding adds_one_def
      using created(2-4) c(2,3) assms(3) quiet_ids [OF q] by (intro exI [of _ x]) (simp add: new_application_def)
    ultimately show ?thesis by blast
  qed
qed

text \<open>Every step, as a quiet one and perhaps one new application.\<close>

lemma guest_step_shape:
  assumes "guest_step d d'" "guests_ok d"
  shows "\<exists>d1. quiet_step d d1 \<and> (d' = d1 \<or> adds_one d1 d')"
  using assms
proof (induction rule: guest_step.induct)
  case (Apply w before a form d r d')
  then show ?case by (cases r) (auto dest: apply_step)
next
  case (Elsewhere d' d)
  then have "quiet_step d d'" by (auto intro!: quiet_same grants_grow_same simp: grant_names_def)
  then show ?case by blast
qed (blast intro: quiet_decide quiet_act quiet_reset quiet_leave quiet_supersede quiet_enumerate quiet_post
      grandfather_grant_quiet)+

lemma guest_step_ok: "guest_step d d' \<Longrightarrow> guests_ok d \<Longrightarrow> guests_ok d'"
  using guest_step_shape [of d d'] quiet_step_ok guests_ok_new unfolding adds_one_def by metis

lemma guest_history_ok: "rtranclp guest_step d d' \<Longrightarrow> guests_ok d \<Longrightarrow> guests_ok d'"
  by (induction rule: rtranclp_induct) (auto intro: guest_step_ok)

text \<open>An application of a step's tables, later.\<close>

lemma guest_step_keeps:
  assumes "guest_step d d'" "guests_ok d" "x \<in> set (gt_apps d)"
  shows "\<exists>x' \<in> set (gt_apps d'). keeps x x'"
proof -
  obtain d1 where "quiet_step d d1" "d' = d1 \<or> adds_one d1 d'"
    using guest_step_shape [OF assms(1,2)] by blast
  then show ?thesis using assms(3) by (auto simp: quiet_step_def adds_one_def)
qed

lemma guest_history_keeps:
  "rtranclp guest_step d d' \<Longrightarrow> guests_ok d \<Longrightarrow> x \<in> set (gt_apps d) \<Longrightarrow> \<exists>x' \<in> set (gt_apps d'). keeps x x'"
proof (induction rule: rtranclp_induct)
  case (step y z)
  then obtain x' where "x' \<in> set (gt_apps y)" "keeps x x'" by blast
  moreover have "guests_ok y" using guest_history_ok step by blast
  ultimately show ?case using guest_step_keeps [OF step(2)] keeps_trans by blast
qed (blast intro: keeps_refl)

text \<open>What accepted evidence says once Guest is granted or revoked.\<close>

lemma accessFacts_grant_state:
  "af_grant (accessFacts p guild user now fresh roles) =
     list_ex (\<lambda>r. gg_guild r = gd_id guild \<and> gg_user r = user \<and> gg_ended r = None) (pl_grants p)"
  "af_revoked (accessFacts p guild user now fresh roles) =
     list_ex (\<lambda>s. gs_guild s = gd_id guild \<and> gs_user s = user \<and> gs_revoked s) (pl_states p)"
  by (simp_all add: accessFacts_def Let_def)

lemma accessFacts_unregistered:
  "\<not> hasActiveRegistration (pl_links p) (gd_id guild) user \<Longrightarrow>
     af_membership (accessFacts p guild user now fresh roles) = Ineligible"
  by (simp add: accessFacts_def Let_def hasActiveRegistration_def membershipClass_def)

lemma revoked_no_guest: "af_revoked f \<Longrightarrow> \<not> want_guest (desiredAccess f)"
  by (simp add: desiredAccess_def Let_def)

lemma granted_guest:
  "af_membership f = Ineligible \<Longrightarrow> \<not> af_revoked f \<Longrightarrow> af_grant f \<Longrightarrow>
     want_guest (desiredAccess f) \<and> \<not> want_member (desiredAccess f)"
  by (simp add: desiredAccess_def)

lemma grantWithin_fresh:
  assumes "grantWithin w a user provenance key reason d = Inr (restored, d')" "key \<notin> set (grant_keys d)"
  shows "list_ex (\<lambda>r. gg_guild r = act_guild a \<and> gg_user r = user \<and> gg_ended r = None) (pl_grants (gt_people d'))"
    and "\<not> state_revoked d' (act_guild a) user" and "pl_links (gt_people d') = pl_links (gt_people d)"
proof -
  have none: "find (\<lambda>g. gg_key g = key) (pl_grants (gt_people d)) = None"
    using assms(2) by (auto simp: find_None_iff grant_keys_def)
  show "list_ex (\<lambda>r. gg_guild r = act_guild a \<and> gg_user r = user \<and> gg_ended r = None) (pl_grants (gt_people d'))"
    using assms(1) none by (auto simp: grantWithin_def Let_def)
  show "pl_links (gt_people d') = pl_links (gt_people d)"
    using assms(1) none by (auto simp: grantWithin_def Let_def)
  show "\<not> state_revoked d' (act_guild a) user"
    using assms(1) none by (auto simp: grantWithin_def Let_def split: if_splits)
qed

lemma none_active_left:
  "filter (\<lambda>x. gg_guild x = g \<and> gg_user x = u \<and> gg_ended x = None)
     (map (\<lambda>x. if gg_guild x = g \<and> gg_user x = u \<and> gg_ended x = None then x\<lparr>gg_ended := Some (t, b, r)\<rparr> else x) xs) = []"
  by (induction xs) auto

lemma end_grants_active: "active_grants (end_grants w a user why d) (act_guild a) user = []"
  by (simp add: active_grants_def end_grants_def none_active_left)

lemma none_pending_left:
  "find (\<lambda>x. ap_guild x = g \<and> ap_user x = u \<and> ap_state x = AppPending)
     (map (\<lambda>x. if ap_state x = AppPending \<and> ap_guild x = g \<and> ap_user x = u
       then x\<lparr>ap_state := AppCancelled, ap_decided := t, ap_reviewer := r, ap_reason := w\<rparr> else x) xs) = None"
  by (induction xs) auto

lemma guestReset_clears:
  assumes "guestReset w before a user why d = Inr (r, d')"
  shows "active_grants d' (act_guild a) user = [] \<and> \<not> state_revoked d' (act_guild a) user"
proof -
  let ?d = "ensured (act_guild a) user None d"
  obtain guild why1 where m: "guest_manage w before a user why = Inr (guild, why1)"
    using assms by (auto simp: guestReset_def and_then_Inr_iff)
  let ?e = "end_grants w a user why1 ?d"
  have active: "gt_people d' = gt_people x \<Longrightarrow> active_grants d' g u = active_grants x g u" for x g u
    by (simp add: active_grants_def)
  have state: "gt_people d' = gt_people x \<Longrightarrow> state_revoked d' g u = state_revoked x g u" for x g u
    by (simp add: state_revoked_def)
  have put: "active_grants (put_state w a user False (Some why1) ?e) (act_guild a) user = []"
    using end_grants_active [of w a user why1 ?d] by (simp add: active_grants_def)
  show ?thesis
  proof (cases "state_revoked ?d (act_guild a) user")
    case True
    then have "gt_people d' = gt_people (put_state w a user False (Some why1) ?e)"
      using assms by (auto simp: guestReset_def m Let_def)
    then show ?thesis using active put state put_state_revoked by metis
  next
    case False
    then have people: "gt_people d' = gt_people ?e"
      using assms by (auto simp: guestReset_def m Let_def split: if_splits)
    have "\<not> state_revoked ?e (act_guild a) user"
      using False by (simp add: state_revoked_def)
    then show ?thesis using active [OF people] state [OF people] end_grants_active by metis
  qed
qed

section \<open>Properties\<close>

definition guests_start :: "guest_db \<Rightarrow> bool" where
  "guests_start d \<longleftrightarrow> gt_apps d = [] \<and> distinct (grant_keys d)"

lemma guests_start_ok: "guests_start d \<Longrightarrow> guests_ok d"
  by (simp add: guests_start_def guests_ok_def app_ids_def one_pending_def grant_keys_def grant_names_def comp_def)

text \<open>
  (C32) Over any history of submissions, decisions, grants, revocations, resets, departures and the other
  writers: a person has at most one pending application in a server, an application is pending exactly
  while it has no decision time, no two grants share a source key, and an approved application has the
  grant made under its own key for its own applicant.
\<close>

theorem guest_tables_consistent:
  assumes "rtranclp guest_step d d'" "guests_start d"
  shows "(\<forall>x \<in> set (gt_apps d'). \<forall>y \<in> set (gt_apps d'). ap_state x = AppPending \<and> ap_state y = AppPending \<and>
      ap_guild x = ap_guild y \<and> ap_user x = ap_user y \<longrightarrow> x = y) \<and>
    (\<forall>x \<in> set (gt_apps d'). ap_state x = AppPending \<longleftrightarrow> ap_decided x = None) \<and>
    distinct (grant_keys d') \<and>
    (\<forall>x \<in> set (gt_apps d'). ap_state x = AppApproved \<longrightarrow> (\<exists>g \<in> set (pl_grants (gt_people d')).
       gg_key g = grant_key (ap_id x) \<and> gg_guild g = ap_guild x \<and> gg_user g = ap_user x))"
proof -
  have ok: "guests_ok d'" by (rule guest_history_ok [OF assms(1) guests_start_ok [OF assms(2)]])
  then have one: "one_pending (gt_apps d')" by (simp add: guests_ok_def)
  have "x = y" if "x \<in> set (gt_apps d')" "y \<in> set (gt_apps d')" "ap_state x = AppPending" "ap_state y = AppPending"
      "ap_guild x = ap_guild y" "ap_user x = ap_user y" for x y
  proof -
    have "pending_of d' (ap_guild y) (ap_user y) = Some x"
      using pending_of_only [OF one that(1,3)] by (simp only: that(5,6))
    then show ?thesis using pending_of_only [OF one that(2,4)] by simp
  qed
  moreover have "\<exists>g \<in> set (pl_grants (gt_people d')). gg_key g = grant_key (ap_id x) \<and> gg_guild g = ap_guild x \<and> gg_user g = ap_user x"
    if "x \<in> set (gt_apps d')" "ap_state x = AppApproved" for x
    using ok that unfolding guests_ok_def by (fastforce simp: grant_names_def)
  moreover have "distinct (grant_keys d')"
    using ok by (simp add: guests_ok_def grant_keys_def grant_names_def comp_def)
  moreover have "\<forall>x \<in> set (gt_apps d'). ap_state x = AppPending \<longleftrightarrow> ap_decided x = None"
    using ok unfolding guests_ok_def by blast
  ultimately show ?thesis by blast
qed

text \<open>
  A decision is final: whatever happens after an application was decided, cancelled or superseded,
  deciding it again either fails or changes nothing and answers with the first decision, its reviewer,
  time and reason.
\<close>

theorem decision_is_final:
  assumes "rtranclp guest_step d0 d" "guests_start d0" "x \<in> set (gt_apps d)" "ap_state x \<noteq> AppPending"
    and "rtranclp guest_step d d'"
    and "decide_application w before a (ap_id x) approve reason messageId d' = Inr (r, d'')"
  shows "d'' = d' \<and> \<not> de_queued r \<and> de_status r = ap_state x \<and> de_reviewer r = ap_reviewer x \<and>
    de_decided r = ap_decided x \<and> de_reason r = ap_reason x"
proof -
  have ok: "guests_ok d" by (rule guest_history_ok [OF assms(1) guests_start_ok [OF assms(2)]])
  have ok': "guests_ok d'" by (rule guest_history_ok [OF assms(5) ok])
  obtain x' where x': "x' \<in> set (gt_apps d')" "keeps x x'"
    using guest_history_keeps [OF assms(5) ok assms(3)] by blast
  then have same: "ap_id x' = ap_id x" "ap_state x' = ap_state x" "ap_reviewer x' = ap_reviewer x"
      "ap_decided x' = ap_decided x" "ap_reason x' = ap_reason x"
    using assms(4) by (auto simp: keeps_def)
  have ids: "inj_on ap_id (set (gt_apps d'))"
    using ok' by (simp add: guests_ok_def app_ids_def distinct_map)
  have only: "y = x'" if "application_of d' (act_guild a) (ap_id x) = Some y" for y
    using application_of_Some [OF that] x'(1) same(1) inj_onD [OF ids, of y x'] by simp
  show ?thesis
    using assms(6)
  proof (cases rule: decide_application_Inr)
    case (again y)
    then show ?thesis using only [OF again(1)] same by (auto simp: decision_of_def)
  next
    case (now y guild state why)
    then show ?thesis using only [OF now(1)] same assms(4) by simp
  qed
qed

lemma grant_keys_names: "grant_keys d = map fst (grant_names d)"
  by (simp add: grant_keys_def grant_names_def comp_def)

lemma quiet_keys: "grants_grow d d' \<Longrightarrow> set (grant_keys d) \<subseteq> set (grant_keys d')"
  unfolding grants_grow_def grant_keys_names by auto

lemma guest_history_keys:
  "rtranclp guest_step d d' \<Longrightarrow> guests_ok d \<Longrightarrow> set (grant_keys d) \<subseteq> set (grant_keys d')"
proof (induction rule: rtranclp_induct)
  case (step y z)
  have "guests_ok y" using guest_history_ok step(1,4) by blast
  then obtain d1 where "quiet_step y d1" "z = d1 \<or> adds_one d1 z"
    using guest_step_shape [OF step(2)] by blast
  then have "set (grant_keys y) \<subseteq> set (grant_keys z)"
    using quiet_keys [of y d1] by (auto simp: quiet_step_def adds_one_def grant_keys_def)
  then show ?case using step by blast
qed simp

text \<open>
  (C31) Approving an application gives Guest: when the decision comes back as approved now, the access
  rules want Guest and not Member for the applicant, whatever roles they hold, whenever they are asked.
\<close>

theorem approval_gives_guest:
  assumes "decide_application w before a i approve reason messageId d = Inr (r, d')"
    and "de_queued r" "de_status r = AppApproved" "grant_key i \<notin> set (grant_keys d)"
  shows "\<exists>x guild. application_of d (act_guild a) i = Some x \<and> gd_id guild = act_guild a \<and>
    want_guest (desiredAccess (accessFacts (gt_people d') guild (ap_user x) now freshness roles)) \<and>
    \<not> want_member (desiredAccess (accessFacts (gt_people d') guild (ap_user x) now freshness roles))"
  using assms(1)
proof (cases rule: decide_application_Inr)
  case (again x)
  then show ?thesis using assms(2) by (auto simp: decision_of_def)
next
  case (now x guild state why)
  have state: "state = AppApproved" using decide_pending_Inr(4) [OF now(5)] assms(3) by simp
  have gid: "gd_id guild = act_guild a" using now(3) by (auto simp: find_Some_iff)
  have x: "ap_id x = i" using application_of_Some [OF now(1)] by blast
  let ?d = "update_apps (\<lambda>y. ap_id y = ap_id x) (\<lambda>y. y\<lparr>ap_state := state, ap_reviewer := Some (act_user a),
      ap_decided := Some (gw_now w), ap_reason := why\<rparr>) d"
  obtain b d1 where g: "grantWithin w a (ap_user x) ''approved'' (grant_key (ap_id x)) why ?d = Inr (b, d1)"
    and d': "gt_people d' = gt_people d1"
    using now(5) state by (auto simp: decide_pending_def Let_def and_then_Inr_iff)
  have "grant_key (ap_id x) \<notin> set (grant_keys ?d)" using assms(4) x by (simp add: grant_keys_def)
  note fresh = grantWithin_fresh [OF g this]
  have unregistered: "\<not> hasActiveRegistration (pl_links (gt_people d)) (gd_id guild) (ap_user x)"
    using now(4) state by (auto simp: decided_state_def Let_def split: if_splits)
  let ?f = "accessFacts (gt_people d') guild (ap_user x) now freshness roles"
  have "af_membership ?f = Ineligible"
    by (rule accessFacts_unregistered) (use unregistered fresh(3) d' in simp)
  moreover have "\<not> af_revoked ?f" "af_grant ?f"
    using fresh(1,2) d' gid by (simp_all add: accessFacts_grant_state state_revoked_def)
  ultimately show ?thesis
    using granted_guest [of ?f] now(1) gid by blast
qed

text \<open>
  (C30) A revocation stands: right after it the access rules want no Guest for the person, whatever the
  evidence, none of their applications is pending, and however much later the request of an earlier grant
  is delivered again, it changes neither the revocation nor the grants.
\<close>

theorem revocation_stands:
  assumes "rtranclp guest_step d0 d" "guests_start d0" "key \<in> set (grant_keys d)"
    and "guestAction w before a user True why k d = Inr (acted, d1)"
    and "rtranclp guest_step d1 d2"
    and "guestAction w' before' a' user' False why' key d2 = Inr (again, d3)"
  shows "(\<forall>guild now freshness roles. gd_id guild = act_guild a \<longrightarrow>
      \<not> want_guest (desiredAccess (accessFacts (gt_people d1) guild user now freshness roles))) \<and>
    pending_of d1 (act_guild a) user = None \<and>
    pl_states (gt_people d3) = pl_states (gt_people d2) \<and> pl_grants (gt_people d3) = pl_grants (gt_people d2)"
proof -
  have ok: "guests_ok d" by (rule guest_history_ok [OF assms(1) guests_start_ok [OF assms(2)]])
  have ok1: "guests_ok d1" by (rule guest_step_ok [OF guest_step.Act [OF assms(4)] ok])
  have "set (grant_keys d) \<subseteq> set (grant_keys d1)"
    using quiet_act [OF assms(4)] quiet_keys by (simp add: quiet_step_def)
  then have key: "key \<in> set (grant_keys d2)"
    using guest_history_keys [OF assms(5) ok1] assms(3) by blast
  obtain why'' where r: "gt_apps d1 = gt_apps (snd (revoke_guest w a user why'' (ensured (act_guild a) user None d)))"
      "gt_people d1 = gt_people (snd (revoke_guest w a user why'' (ensured (act_guild a) user None d)))"
    using assms(4) by (cases rule: guestAction_Inr) auto
  have revoked: "state_revoked d1 (act_guild a) user"
    using revoke_guest_apps(3) [of w a user why'' "ensured (act_guild a) user None d"] r(2)
    by (simp add: state_revoked_def)
  have one: "\<not> want_guest (desiredAccess (accessFacts (gt_people d1) guild user now freshness roles))"
    if "gd_id guild = act_guild a" for guild now freshness roles
    by (rule revoked_no_guest) (use revoked that in \<open>simp add: accessFacts_grant_state state_revoked_def\<close>)
  have apps: "gt_apps d1 = map (\<lambda>x. if ap_state x = AppPending \<and> ap_guild x = act_guild a \<and> ap_user x = user
      then x\<lparr>ap_state := AppCancelled, ap_decided := Some (gw_now w), ap_reviewer := Some (act_user a),
        ap_reason := Some why''\<rparr> else x) (gt_apps d)"
    unfolding r(1) revoke_guest_apps(1) ensured_simps(1) by (rule refl)
  have two: "pending_of d1 (act_guild a) user = None"
    unfolding pending_of_def apps by (rule none_pending_left)
  have three: "pl_states (gt_people d3) = pl_states (gt_people d2) \<and> pl_grants (gt_people d3) = pl_grants (gt_people d2)"
    using assms(6)
  proof (cases rule: guestAction_Inr)
    case (granted w1 restored dd)
    obtain g where "find (\<lambda>g. gg_key g = key) (pl_grants (gt_people d2)) = Some g"
      using key by (cases "find (\<lambda>g. gg_key g = key) (pl_grants (gt_people d2))")
        (auto simp: find_None_iff grant_keys_def)
    then have "dd = ensured (act_guild a') user' None d2"
      using granted(2) by (auto simp: grantWithin_def Let_def split: if_splits)
    then show ?thesis using granted(4) by simp
  qed simp
  show ?thesis using one two three by blast
qed

text \<open>
  After a denial the person waits: however the history goes on, a later submission of theirs that
  makes a new application comes at least the configured time after the denial.
\<close>

theorem denial_cools_down:
  assumes "rtranclp guest_step d0 d" "guests_start d0"
    and "x \<in> set (gt_apps d)" "ap_state x = AppDenied" "ap_decided x = Some t"
    and "rtranclp guest_step d d'"
    and "apply_for_guest w before a form d' = Inr ((y, outcome, mode), d'')"
    and "act_guild a = ap_guild x" "act_user a = ap_user x" "outcome \<noteq> AppExisting"
  shows "gw_now w \<ge> t + 1000 * gw_cooldown w"
proof -
  have ok: "guests_ok d" by (rule guest_history_ok [OF assms(1) guests_start_ok [OF assms(2)]])
  obtain x' where x': "x' \<in> set (gt_apps d')" "keeps x x'"
    using guest_history_keeps [OF assms(6) ok assms(3)] by blast
  obtain guild channel m introduction interest where
    r: "apply_rest w a guild channel m introduction interest mode
       (ensured (act_guild a) (act_user a) (Some (dm_joined m)) (ensured (act_guild a) (act_user a) None d')) =
     Inr ((y, outcome, mode), d'')"
    by (rule apply_for_guest_Inr [OF assms(7)])
  let ?e = "ensured (act_guild a) (act_user a) (Some (dm_joined m)) (ensured (act_guild a) (act_user a) None d')"
  let ?c = "cancel_pending w a (pending_of ?e (act_guild a) (act_user a)) ?e"
  have none: "cooling_until w ?c (act_guild a) (act_user a) = None"
    using r assms(10) by (cases rule: apply_rest_Inr) auto
  have ok': "guests_ok ?e"
    by (rule guests_ok_cong [OF _ _ guest_history_ok [OF assms(6) ok]]) simp_all
  have "quiet_step ?e ?c" by (rule cancel_pending_effect(1) [OF ok'])
  then obtain f where f: "gt_apps ?c = map f (gt_apps ?e)" "\<forall>x. keeps x (f x)"
    unfolding quiet_step_def by blast
  define z where "z = f x'"
  have z: "z \<in> set (gt_apps ?c)" "keeps x' z"
    using x'(1) f by (simp_all add: z_def)
  have "keeps x z" using keeps_trans [OF x'(2) z(2)] .
  then have zs: "ap_guild z = act_guild a" "ap_user z = act_user a" "ap_state z = AppDenied" "ap_decided z = Some t"
    using assms(4,5,8,9) by (auto simp: keeps_def)
  have "t \<in> set (List.map_filter (\<lambda>x. if ap_guild x = act_guild a \<and> ap_user x = act_user a \<and> ap_state x = AppDenied
      then ap_decided x else None) (gt_apps ?c))"
    using z(1) zs by (force simp: map_filter_def)
  moreover have "recent_denials w ?c (act_guild a) (act_user a) = []"
    using none by (simp add: cooling_until_def split: list.splits)
  ultimately have "\<not> t > gw_now w - 1000 * gw_cooldown w"
    unfolding recent_denials_def filter_empty_conv by blast
  then show ?thesis by simp
qed

text \<open>
  A reset clears both: right after it the person has no revocation and no grant that counts, and
  resetting again changes nothing more and says so.
\<close>

theorem reset_clears_guest:
  assumes "guestReset w before a user why d = Inr (r, d')" "gd_id guild = act_guild a"
    and "guestReset w' before' a' user why' d' = Inr (r', d'')" "act_guild a' = act_guild a"
  shows "\<not> af_grant (accessFacts (gt_people d') guild user now freshness roles) \<and>
    \<not> af_revoked (accessFacts (gt_people d') guild user now freshness roles) \<and> \<not> gr_reset r' \<and>
    pl_grants (gt_people d'') = pl_grants (gt_people d') \<and> pl_states (gt_people d'') = pl_states (gt_people d')"
proof -
  have clear: "active_grants d' (act_guild a) user = []" "\<not> state_revoked d' (act_guild a) user"
    using guestReset_clears [OF assms(1)] by blast+
  have "\<not> af_grant (accessFacts (gt_people d') guild user now freshness roles)"
      "\<not> af_revoked (accessFacts (gt_people d') guild user now freshness roles)"
    using clear assms(2)
    by (simp_all add: accessFacts_grant_state active_grants_def state_revoked_def filter_empty_conv list_ex_iff)
  moreover have "\<not> gr_reset r' \<and> (\<exists>why''. gt_people d'' = gt_people (end_grants w' a' user why'' (ensured (act_guild a') user None d')))"
    using assms(3,4) clear
    by (auto simp: guestReset_def and_then_Inr_iff Let_def active_grants_def split: if_splits)
  moreover have "pl_grants (gt_people (end_grants w' a' user why'' (ensured (act_guild a') user None d'))) = pl_grants (gt_people d')" for why''
    using clear(1) assms(4) by (simp add: end_grants_def active_grants_def filter_empty_conv map_idI)
  ultimately show ?thesis by auto
qed

section \<open>Witnesses\<close>

definition gs_guild_row :: guild_row where
  "gs_guild_row = \<lparr>gd_id = ''g'', gd_active = True, gd_revision = 1, gd_fc = None, gd_ledger_channel = None,
     gd_effects = True, gd_member_role = None, gd_guest_role = Some ''r'', gd_apps_enabled = True,
     gd_apps_channel = Some ''c'', gd_access_policy = False\<rparr>"

lemma gs_guild_simps [simp]:
  "gd_id gs_guild_row = ''g''" "gd_active gs_guild_row" "gd_revision gs_guild_row = 1" "gd_fc gs_guild_row = None"
  "gd_member_role gs_guild_row = None" "gd_guest_role gs_guild_row = Some ''r''" "gd_apps_enabled gs_guild_row"
  "gd_apps_channel gs_guild_row = Some ''c''"
  by (simp_all add: gs_guild_row_def)

definition gs_start :: guest_db where
  "gs_start = \<lparr>gt_guilds = [gs_guild_row],
     gt_people = \<lparr>pl_users = [], pl_links = [], pl_members = [], pl_history = [], pl_grants = [], pl_states = [],
                  pl_rosters = []\<rparr>, gt_apps = [], gt_jobs = [], gt_audit = []\<rparr>"

definition gs_world :: "int \<Rightarrow> ident \<Rightarrow> guest_world" where
  "gs_world now row = \<lparr>gw_enable = True, gw_member = (\<lambda>_. Some \<lparr>dm_bot = False, dm_joined = 5, dm_roles = []\<rparr>),
     gw_validate_role = None, gw_validate_channel = None, gw_now = now, gw_clock = now, gw_freshness = 60,
     gw_cooldown = 100, gw_row = row, gw_job = (\<lambda>k. k)\<rparr>"

lemma gs_world_simps [simp]:
  "gw_member (gs_world now row) u = Some \<lparr>dm_bot = False, dm_joined = 5, dm_roles = []\<rparr>"
  "gw_validate_role (gs_world now row) = None" "gw_validate_channel (gs_world now row) = None"
  "gw_now (gs_world now row) = now" "gw_row (gs_world now row) = row" "gw_cooldown (gs_world now row) = 100"
  by (simp_all add: gs_world_def)

definition gs_actor :: "ident \<Rightarrow> permission_id set \<Rightarrow> actor" where
  "gs_actor user ps = \<lparr>act_guild = ''g'', act_user = user, act_manage_roles = False, act_server_manager = None,
     act_role_ids = None, act_access = \<lparr>acc_manager = False, acc_roles = [], acc_permissions = ps,
       acc_blocked = (\<lambda>_. None)\<rparr>, act_member = None, act_guest = None, act_bot_administrator = None,
     act_timed_out = None\<rparr>"

abbreviation gs_person :: actor where "gs_person \<equiv> gs_actor ''u'' {P_guests_apply}"
abbreviation gs_officer :: actor where "gs_officer \<equiv> gs_actor ''o'' {P_guests_decide, P_guests_manage}"

lemma gs_actor_simps [simp]:
  "act_guild (gs_actor u ps) = ''g''" "act_user (gs_actor u ps) = u"
  "requirePermission (gs_actor u ps) ''g'' p m = (if p \<in> ps then Inr () else Inl (missing_permission p m))"
  by (simp_all add: gs_actor_def requirePermission_def authorize_def requireNotPaused_def pauseOn_def can_def)

definition gs_text :: text16 where
  "gs_text = [97, 98, 99, 100, 101, 102, 103, 104, 105, 106]"

lemma gs_form: "guestApplicationInput (5, gs_text, gs_text) = Some (5, gs_text, gs_text)"
  by (simp add: guestApplicationInput_def guest_answer_def Let_def gs_text_def js_trim_def is_js_space_def
      GUEST_ANSWER_MIN_def GUEST_ANSWER_MAX_def)

lemma gs_reason: "parse_note gs_text LabelReason = Inr gs_text"
  by (simp add: parse_note_Inr_iff gs_text_def js_trim_def is_js_space_def)

definition gs_app :: application where
  "gs_app = \<lparr>ap_id = ''x'', ap_guild = ''g'', ap_user = ''u'', ap_joined = 5, ap_created = 0, ap_state = AppPending,
     ap_channel = ''c'', ap_message = None, ap_reviewer = None, ap_decided = None, ap_reason = None,
     ap_introduction = gs_text, ap_interest = gs_text\<rparr>"

lemma gs_app_simps [simp]:
  "ap_id gs_app = ''x''" "ap_guild gs_app = ''g''" "ap_user gs_app = ''u''" "ap_state gs_app = AppPending"
  "ap_joined gs_app = 5" "ap_reason gs_app = None" "ap_message gs_app = None"
  by (simp_all add: gs_app_def)

lemma gs_admission:
  assumes "gt_guilds d = [gs_guild_row]"
  shows "apply_admission (gs_world now row) d gs_person (5, gs_text, gs_text) =
     Inr (gs_guild_row, ''c'', \<lparr>dm_bot = False, dm_joined = 5, dm_roles = []\<rparr>, gs_text, gs_text)"
  by (simp add: apply_admission_def gs_form guild_of_def authorize_def assms given_def)

lemma gs_applied:
  "\<exists>mode d. apply_for_guest (gs_world 0 ''x'') gs_start gs_person (5, gs_text, gs_text) gs_start =
     Inr ((gs_app, AppCreated, mode), d) \<and> gt_guilds d = [gs_guild_row] \<and> gt_apps d = [gs_app] \<and>
     pl_links (gt_people d) = [] \<and> pl_grants (gt_people d) = [] \<and> pl_states (gt_people d) = [] \<and>
     pl_members (gt_people d) = [] \<and> pl_history (gt_people d) = [] \<and>
     pl_users (gt_people d) = [\<lparr>gu_guild = ''g'', gu_user = ''u'', gu_present = True,
       gu_joined = Some 5, gu_imported = False, gu_primary = None, gu_nick_enabled = False, gu_nick_baseline = False,
       gu_nick_pending = False, gu_nick_restore = False, gu_nick_suspended = False, gu_local_loss = False\<rparr>]"
  by (simp add: apply_for_guest_def gs_admission gs_start_def apply_transaction_def Let_def user_of_def ensured_def
      ensureUser_def on_people_def apply_rest_def apply_eligible_def hasActiveRegistration_def active_links_def
      accessFacts_def membershipClass_def pending_of_def cancel_pending_def cooling_until_def recent_denials_def
      map_filter_def new_application_def gs_app_def audited_def on_jobs_def given_def)

definition gs_after :: "guest_db \<Rightarrow> bool" where
  "gs_after d \<longleftrightarrow> rtranclp guest_step gs_start d \<and> gt_guilds d = [gs_guild_row] \<and> gt_apps d = [gs_app] \<and>
     pl_links (gt_people d) = [] \<and> pl_grants (gt_people d) = [] \<and> pl_states (gt_people d) = [] \<and>
     pl_members (gt_people d) = [] \<and> pl_history (gt_people d) = [] \<and>
     pl_users (gt_people d) = [\<lparr>gu_guild = ''g'', gu_user = ''u'', gu_present = True,
       gu_joined = Some 5, gu_imported = False, gu_primary = None, gu_nick_enabled = False, gu_nick_baseline = False,
       gu_nick_pending = False, gu_nick_restore = False, gu_nick_suspended = False, gu_local_loss = False\<rparr>]"

lemma gs_applied_run: "\<exists>d. gs_after d"
proof -
  obtain mode d where d: "apply_for_guest (gs_world 0 ''x'') gs_start gs_person (5, gs_text, gs_text) gs_start =
     Inr ((gs_app, AppCreated, mode), d)" "gt_guilds d = [gs_guild_row]" "gt_apps d = [gs_app]"
     "pl_links (gt_people d) = []" "pl_grants (gt_people d) = []" "pl_states (gt_people d) = []"
     "pl_members (gt_people d) = []" "pl_history (gt_people d) = []"
     "pl_users (gt_people d) = [\<lparr>gu_guild = ''g'', gu_user = ''u'', gu_present = True,
       gu_joined = Some 5, gu_imported = False, gu_primary = None, gu_nick_enabled = False, gu_nick_baseline = False,
       gu_nick_pending = False, gu_nick_restore = False, gu_nick_suspended = False, gu_local_loss = False\<rparr>]"
    using gs_applied by blast
  have "guest_step gs_start d"
    by (rule guest_step.Apply [OF d(1)]) (simp add: gs_start_def app_ids_def)
  then show ?thesis using d unfolding gs_after_def by blast
qed

lemma gs_start_starts: "guests_start gs_start"
  by (simp add: guests_start_def gs_start_def grant_keys_def)

text \<open>The officer's decision of the application, either way.\<close>

definition gs_decided :: "bool \<Rightarrow> application" where
  "gs_decided approve = gs_app\<lparr>ap_state := (if approve then AppApproved else AppDenied), ap_reviewer := Some ''o'',
     ap_decided := Some 10, ap_reason := Some gs_text\<rparr>"

lemma gs_decision:
  assumes "gs_after d"
  shows "\<exists>r d'. decide_application (gs_world 10 ''y'') d gs_officer ''x'' approve (Some gs_text) None d = Inr (r, d') \<and>
     de_queued r \<and> de_status r = (if approve then AppApproved else AppDenied) \<and> gt_apps d' = [gs_decided approve] \<and>
     gt_guilds d' = [gs_guild_row]"
  using assms unfolding gs_after_def
  by (simp add: decide_application_def authorizeGuestDecision_def guild_of_def authorize_def officer_reason_def gs_reason
      application_of_def gs_app_def gs_decided_def decide_transaction_def given_def decided_state_def Let_def
      memberEligible_def hasActiveRegistration_def active_links_def decide_pending_def grantWithin_def user_of_def
      decision_of_def put_state_def audited_def on_jobs_def on_people_def update_apps_def)

theorem guest_tables_consistent_witness:
  "\<exists>d. rtranclp guest_step gs_start d \<and> gt_apps d = [gs_decided True] \<and>
     (\<exists>g \<in> set (pl_grants (gt_people d)). gg_key g = ''application:x'' \<and> gg_user g = ''u'')"
proof -
  obtain d where d: "gs_after d" using gs_applied_run by blast
  obtain r d' where r: "decide_application (gs_world 10 ''y'') d gs_officer ''x'' True (Some gs_text) None d = Inr (r, d')"
      "gt_apps d' = [gs_decided True]"
    using gs_decision [OF d, of True] by auto
  have run: "rtranclp guest_step gs_start d'"
    using d guest_step.Decide [OF r(1)] unfolding gs_after_def by (meson rtranclp.rtrancl_into_rtrancl)
  have "\<exists>g \<in> set (pl_grants (gt_people d')). gg_key g = grant_key (ap_id (gs_decided True)) \<and>
      gg_guild g = ap_guild (gs_decided True) \<and> gg_user g = ap_user (gs_decided True)"
    using guest_tables_consistent [OF run gs_start_starts] r(2) by (simp add: gs_decided_def)
  then show ?thesis
    using run r(2) by (auto simp: gs_decided_def gs_app_def grant_key_def)
qed

theorem decision_is_final_witness:
  "\<exists>d r d'. decide_application (gs_world 20 ''z'') d gs_officer ''x'' True (Some gs_text) None d = Inr (r, d') \<and>
     d' = d \<and> de_status r = AppDenied"
proof -
  obtain d where d: "gs_after d" using gs_applied_run by blast
  obtain r d1 where r: "decide_application (gs_world 10 ''y'') d gs_officer ''x'' False (Some gs_text) None d = Inr (r, d1)"
      "gt_apps d1 = [gs_decided False]" "gt_guilds d1 = [gs_guild_row]"
    using gs_decision [OF d, of False] by auto
  have run: "rtranclp guest_step gs_start d1"
    using d guest_step.Decide [OF r(1)] unfolding gs_after_def by (meson rtranclp.rtrancl_into_rtrancl)
  have x: "gs_decided False \<in> set (gt_apps d1)" "ap_state (gs_decided False) \<noteq> AppPending" "ap_id (gs_decided False) = ''x''"
    using r(2) by (simp_all add: gs_decided_def gs_app_def)
  have "\<exists>r' d2. decide_application (gs_world 20 ''z'') d1 gs_officer ''x'' True (Some gs_text) None d1 = Inr (r', d2)"
    using r(2,3) by (simp add: decide_application_def authorizeGuestDecision_def guild_of_def authorize_def officer_reason_def
      gs_reason application_of_def gs_app_def gs_decided_def decide_transaction_def given_def)
  then obtain r' d2 where again: "decide_application (gs_world 20 ''z'') d1 gs_officer ''x'' True (Some gs_text) None d1 = Inr (r', d2)"
    by blast
  show ?thesis
    using decision_is_final [OF run gs_start_starts x(1,2) rtranclp.rtrancl_refl again [folded x(3)]] again
    by (auto simp: gs_decided_def)
qed

theorem approval_gives_guest_witness:
  "\<exists>(d :: guest_db) (guild :: guild_row). gd_id guild = ''g'' \<and> want_guest (desiredAccess (accessFacts (gt_people d) guild ''u'' 99 60 []))"
proof -
  obtain d where d: "gs_after d" using gs_applied_run by blast
  obtain r d' where r: "decide_application (gs_world 10 ''y'') d gs_officer ''x'' True (Some gs_text) None d = Inr (r, d')"
      "de_queued r" "de_status r = AppApproved"
    using gs_decision [OF d, of True] by auto
  have "grant_key ''x'' \<notin> set (grant_keys d)" using d by (simp add: gs_after_def grant_keys_def)
  then obtain x guild where "application_of d ''g'' ''x'' = Some x" "gd_id guild = ''g''"
      "want_guest (desiredAccess (accessFacts (gt_people d') guild (ap_user x) 99 60 []))"
    using approval_gives_guest [OF r(1-3), of 99 60 "[]"] by auto
  moreover have "application_of d ''g'' ''x'' = Some gs_app"
    using d by (simp add: gs_after_def application_of_def)
  ultimately have "gd_id guild = ''g''" "want_guest (desiredAccess (accessFacts (gt_people d') guild ''u'' 99 60 []))"
    by simp_all
  then show ?thesis by (intro exI conjI)
qed

theorem denial_cools_down_witness:
  "\<exists>d y mode d'. apply_for_guest (gs_world 200000 ''y'') d gs_person (5, gs_text, gs_text) d = Inr ((y, AppCreated, mode), d') \<and>
     (200000 :: int) \<ge> 10 + 1000 * 100"
proof -
  obtain d where d: "gs_after d" using gs_applied_run by blast
  obtain r d1 where r: "decide_application (gs_world 10 ''y'') d gs_officer ''x'' False (Some gs_text) None d = Inr (r, d1)"
      "gt_apps d1 = [gs_decided False]" "gt_guilds d1 = [gs_guild_row]"
    using gs_decision [OF d, of False] by auto
  have "gt_people d1 = gt_people d"
    using r(1) d by (auto simp: gs_after_def decide_application_def authorizeGuestDecision_def guild_of_def authorize_def
      officer_reason_def gs_reason application_of_def gs_app_def decide_transaction_def given_def decided_state_def Let_def
      memberEligible_def hasActiveRegistration_def active_links_def decide_pending_def user_of_def)
  then have p: "pl_links (gt_people d1) = []" "pl_grants (gt_people d1) = []" "pl_states (gt_people d1) = []"
      "pl_members (gt_people d1) = []" "pl_history (gt_people d1) = []"
    using d by (simp_all add: gs_after_def)
  have run: "rtranclp guest_step gs_start d1"
    using d guest_step.Decide [OF r(1)] unfolding gs_after_def by (meson rtranclp.rtrancl_into_rtrancl)
  have x: "gs_decided False \<in> set (gt_apps d1)" "ap_state (gs_decided False) = AppDenied"
      "ap_decided (gs_decided False) = Some 10"
    using r(2) by (simp_all add: gs_decided_def)
  have u: "pl_users (gt_people d1) = [\<lparr>gu_guild = ''g'', gu_user = ''u'', gu_present = True,
       gu_joined = Some 5, gu_imported = False, gu_primary = None, gu_nick_enabled = False, gu_nick_baseline = False,
       gu_nick_pending = False, gu_nick_restore = False, gu_nick_suspended = False, gu_local_loss = False\<rparr>]"
    using \<open>gt_people d1 = gt_people d\<close> d by (simp add: gs_after_def)
  have "\<exists>y mode d'. apply_for_guest (gs_world 200000 ''y'') d1 gs_person (5, gs_text, gs_text) d1 =
     Inr ((y, AppCreated, mode), d')"
    using p r(2,3) u
    by (simp add: apply_for_guest_def gs_admission apply_transaction_def Let_def user_of_def ensured_def
      ensureUser_def on_people_def apply_rest_def apply_eligible_def hasActiveRegistration_def active_links_def
      accessFacts_def membershipClass_def pending_of_def cancel_pending_def cooling_until_def recent_denials_def
      map_filter_def new_application_def gs_app_def gs_decided_def audited_def on_jobs_def given_def)
  then obtain y mode d' where again: "apply_for_guest (gs_world 200000 ''y'') d1 gs_person (5, gs_text, gs_text) d1 =
     Inr ((y, AppCreated, mode), d')" by blast
  show ?thesis
    using denial_cools_down [OF run gs_start_starts x rtranclp.rtrancl_refl again] again
    by (auto simp: gs_decided_def gs_app_def)
qed

definition gs_act :: "int \<Rightarrow> bool \<Rightarrow> string \<Rightarrow> guest_db \<Rightarrow> failure + (guest_action \<times> guest_db)" where
  "gs_act now revoke key d = guestAction (gs_world now key) gs_start gs_officer ''u'' revoke gs_text key d"

lemma gs_acts: "\<exists>r d'. gs_act now False key d = Inr (r, d') \<and> grant_names d' = [(key, ''g'', ''u'')]"
  if "pl_grants (gt_people d) = []"
  using that by (simp add: gs_act_def guestAction_def guest_manage_def authorizeGuestDecision_def guild_of_def authorize_def
    gs_start_def gs_reason Let_def grantWithin_def grant_names_add)
     (simp add: grant_names_def)

lemma gs_revokes: "\<exists>r d'. gs_act now True key d = Inr (r, d')"
  by (simp add: gs_act_def guestAction_def guest_manage_def authorizeGuestDecision_def guild_of_def authorize_def
    gs_start_def gs_reason Let_def split: prod.splits)

theorem revocation_stands_witness:
  "\<exists>d1 d2 r. gs_act 20 False ''k'' d1 = Inr (r, d2) \<and> state_revoked d1 ''g'' ''u'' \<and>
     pl_states (gt_people d2) = pl_states (gt_people d1)"
proof -
  have "pl_grants (gt_people gs_start) = []" by (simp add: gs_start_def)
  from gs_acts [OF this] obtain r0 d0 where g: "gs_act 0 False ''k'' gs_start = Inr (r0, d0)"
      "grant_names d0 = [(''k'', ''g'', ''u'')]" by blast
  then have key: "''k'' \<in> set (grant_keys d0)" by (simp add: grant_keys_names)
  obtain r1 d1 where v: "gs_act 10 True ''v'' d0 = Inr (r1, d1)" using gs_revokes by blast
  have run: "rtranclp guest_step gs_start d0"
    by (rule r_into_rtranclp, rule guest_step.Act [OF g(1) [unfolded gs_act_def]])
  obtain why where r: "gt_people d1 = gt_people (snd (revoke_guest (gs_world 10 ''v'') gs_officer ''u'' why
      (ensured (act_guild gs_officer) ''u'' None d0)))"
    using v [unfolded gs_act_def] by (cases rule: guestAction_Inr) auto
  have v': "state_revoked d1 ''g'' ''u''"
    using revoke_guest_apps(3) [of "gs_world 10 ''v''" gs_officer "''u''"] r by (simp add: state_revoked_def)
  have "grant_names d1 = [(''k'', ''g'', ''u'')]"
    using r revoke_guest_apps(2) g(2) by (simp add: grant_names_def)
  then obtain x where x: "pl_grants (gt_people d1) = [x]" "gg_key x = ''k''" "gg_guild x = ''g''" "gg_user x = ''u''"
    by (auto simp: grant_names_def)
  have "\<exists>r2 d2. gs_act 20 False ''k'' d1 = Inr (r2, d2)"
    using x by (simp add: gs_act_def guestAction_def guest_manage_def authorizeGuestDecision_def guild_of_def
      authorize_def gs_start_def gs_reason Let_def grantWithin_def)
  then obtain r2 d2 where a: "gs_act 20 False ''k'' d1 = Inr (r2, d2)" by blast
  show ?thesis
    using revocation_stands [OF run gs_start_starts key v [unfolded gs_act_def] rtranclp.rtrancl_refl
        a [unfolded gs_act_def]] a v' by blast
qed

lemma gs_resets: "\<exists>r d'. guestReset (gs_world now row) gs_start gs_officer ''u'' gs_text d = Inr (r, d')"
  by (simp add: guestReset_def guest_manage_def authorizeGuestDecision_def guild_of_def authorize_def
    gs_start_def gs_reason Let_def)

theorem reset_clears_guest_witness:
  "\<exists>r d d'. guestReset (gs_world 9 ''z'') gs_start gs_officer ''u'' gs_text d = Inr (r, d') \<and> \<not> gr_reset r"
proof -
  obtain r d where one: "guestReset (gs_world 5 ''y'') gs_start gs_officer ''u'' gs_text gs_start = Inr (r, d)"
    using gs_resets by blast
  obtain r' d' where two: "guestReset (gs_world 9 ''z'') gs_start gs_officer ''u'' gs_text d = Inr (r', d')"
    using gs_resets by blast
  have "\<not> gr_reset r'"
    using reset_clears_guest [OF one _ two refl, of gs_guild_row] by simp
  then show ?thesis using two by blast
qed

end
