(* ===== verification/Encodings.thy ===== *)
theory Encodings
  imports Values
begin

text \<open>
  What the code uses of Node's encodings: \<open>Buffer.toString("base64url")\<close>, base64 and its reading,
  UTF-8 writing (\<open>Buffer.from(text, "utf8")\<close>) and strict reading (\<open>TextDecoder\<close>, fatal). A byte is a
  number below 256, a text its UTF-16 code units.
\<close>

definition bytes_ok :: "nat list \<Rightarrow> bool" where
  "bytes_ok bs \<longleftrightarrow> list_all (\<lambda>b. b < 256) bs"

section \<open>Base64\<close>

text \<open>Three bytes are four sextets; a rest of one or two bytes is two or three.\<close>

fun sextets :: "nat list \<Rightarrow> nat list" where
  "sextets (a # b # c # r) =
     a div 4 # (a mod 4 * 16 + b div 16) # (b mod 16 * 4 + c div 64) # c mod 64 # sextets r"
| "sextets [a, b] = [a div 4, a mod 4 * 16 + b div 16, b mod 16 * 4]"
| "sextets [a] = [a div 4, a mod 4 * 16]"
| "sextets [] = []"

fun unsextets :: "nat list \<Rightarrow> nat list" where
  "unsextets (a # b # c # d # r) =
     (a * 4 + b div 16) # (b mod 16 * 16 + c div 4) # (c mod 4 * 64 + d) # unsextets r"
| "unsextets [a, b, c] = [a * 4 + b div 16, b mod 16 * 16 + c div 4]"
| "unsextets [a, b] = [a * 4 + b div 16]"
| "unsextets _ = []"

definition base64url_char :: "nat \<Rightarrow> nat" where
  "base64url_char n =
     (if n < 26 then 65 + n else if n < 52 then 97 + (n - 26) else if n < 62 then 48 + (n - 52)
      else if n = 62 then 45 else 95)"

definition base64url :: "nat list \<Rightarrow> text16" where
  "base64url bs = map base64url_char (sextets bs)"

definition base64_char :: "nat \<Rightarrow> nat" where
  "base64_char n =
     (if n < 26 then 65 + n else if n < 52 then 97 + (n - 26) else if n < 62 then 48 + (n - 52)
      else if n = 62 then 43 else 47)"

definition base64_value :: "nat \<Rightarrow> nat" where
  "base64_value c =
     (if 65 \<le> c \<and> c \<le> 90 then c - 65 else if 97 \<le> c \<and> c \<le> 122 then c - 97 + 26
      else if 48 \<le> c \<and> c \<le> 57 then c - 48 + 52 else if c = 43 then 62 else 63)"

definition is_base64_char :: "nat \<Rightarrow> bool" where
  "is_base64_char c \<longleftrightarrow>
     65 \<le> c \<and> c \<le> 90 \<or> 97 \<le> c \<and> c \<le> 122 \<or> 48 \<le> c \<and> c \<le> 57 \<or> c = 43 \<or> c = 47"

text \<open>Written with \<open>=\<close> to a multiple of four characters; read from the characters before it.\<close>

definition base64 :: "nat list \<Rightarrow> text16" where
  "base64 bs =
     (let s = map base64_char (sextets bs)
      in s @ replicate ((4 - length s mod 4) mod 4) 61)"

definition from_base64 :: "text16 \<Rightarrow> nat list" where
  "from_base64 s = unsextets (map base64_value (takeWhile is_base64_char s))"

lemma length_sextets: "length (sextets bs) = (4 * length bs + 2) div 3"
  by (induction bs rule: sextets.induct) auto

lemma byte_parts:
  shows "(a::nat) < 256 \<Longrightarrow> a div 4 < 64" "b < 256 \<Longrightarrow> a mod 4 * 16 + b div 16 < 64" "a mod 4 * 16 < 64"
    "c < 256 \<Longrightarrow> b mod 16 * 4 + c div 64 < 64" "b mod 16 * 4 < 64"
proof -
  have m: "a mod 4 < 4" "b mod 16 < 16" by simp_all
  show "a < 256 \<Longrightarrow> a div 4 < 64" by (simp add: less_mult_imp_div_less)
  show "b < 256 \<Longrightarrow> a mod 4 * 16 + b div 16 < 64"
    using m(1) less_mult_imp_div_less [of b 16 16] by linarith
  show "c < 256 \<Longrightarrow> b mod 16 * 4 + c div 64 < 64"
    using m(2) less_mult_imp_div_less [of c 4 64] by linarith
  show "a mod 4 * 16 < 64" "b mod 16 * 4 < 64" using m by linarith+
qed

lemma sextets_bound: "\<forall>b \<in> set bs. b < 256 \<Longrightarrow> \<forall>n \<in> set (sextets bs). n < 64"
  by (induction bs rule: sextets.induct) (simp_all add: byte_parts)

text \<open>Reading back what was written.\<close>

lemma recombine:
  fixes a b c :: nat
  shows "b < 256 \<Longrightarrow> a div 4 * 4 + (a mod 4 * 16 + b div 16) div 16 = a"
    and "a div 4 * 4 + a mod 4 * 16 div 16 = a"
    and "b < 256 \<Longrightarrow> c < 256 \<Longrightarrow> (a mod 4 * 16 + b div 16) mod 16 * 16 + (b mod 16 * 4 + c div 64) div 4 = b"
    and "b < 256 \<Longrightarrow> (a mod 4 * 16 + b div 16) mod 16 * 16 + b mod 16 * 4 div 4 = b"
    and "c < 256 \<Longrightarrow> (b mod 16 * 4 + c div 64) mod 4 * 64 + c mod 64 = c"
proof -
  have q: "b < 256 \<Longrightarrow> b div 16 < 16" "c < 256 \<Longrightarrow> c div 64 < 4" by (simp_all add: less_mult_imp_div_less)
  have r: "b < 256 \<Longrightarrow> (a mod 4 * 16 + b div 16) div 16 = a mod 4" using q(1) by simp
  have s: "b < 256 \<Longrightarrow> (a mod 4 * 16 + b div 16) mod 16 = b div 16" using q(1) by simp
  show "b < 256 \<Longrightarrow> a div 4 * 4 + (a mod 4 * 16 + b div 16) div 16 = a" unfolding r by simp
  show "a div 4 * 4 + a mod 4 * 16 div 16 = a" by simp
  show "b < 256 \<Longrightarrow> c < 256 \<Longrightarrow> (a mod 4 * 16 + b div 16) mod 16 * 16 + (b mod 16 * 4 + c div 64) div 4 = b"
    using s q(2) by simp
  show "b < 256 \<Longrightarrow> (a mod 4 * 16 + b div 16) mod 16 * 16 + b mod 16 * 4 div 4 = b" using s by simp
  show "c < 256 \<Longrightarrow> (b mod 16 * 4 + c div 64) mod 4 * 64 + c mod 64 = c" using q(2) by simp
qed

lemma unsextets_sextets: "\<forall>b \<in> set bs. b < 256 \<Longrightarrow> unsextets (sextets bs) = bs"
proof (induction bs rule: sextets.induct)
  case (1 a b c r)
  then have lt: "b < 256" "c < 256" and ih: "unsextets (sextets r) = r" by simp_all
  show ?case
    unfolding sextets.simps unsextets.simps recombine(1) [OF lt(1), of a] recombine(3) [OF lt, of a]
      recombine(5) [OF lt(2), of b] ih ..
next
  case (2 a b)
  then have lt: "b < 256" by simp
  show ?case
    unfolding sextets.simps unsextets.simps recombine(1) [OF lt, of a] recombine(4) [OF lt, of a] ..
next
  case (3 a)
  show ?case unfolding sextets.simps unsextets.simps recombine(2) ..
qed simp

lemma base64_char_ok: "n < 64 \<Longrightarrow> is_base64_char (base64_char n) \<and> base64_value (base64_char n) = n"
  by (auto simp: is_base64_char_def base64_char_def base64_value_def)

lemma from_base64_base64:
  assumes "\<forall>b \<in> set bs. b < 256" shows "from_base64 (base64 bs) = bs"
proof -
  let ?s = "map base64_char (sextets bs)"
  have ok: "\<forall>n \<in> set (sextets bs). n < 64" by (rule sextets_bound [OF assms])
  then have "\<forall>c \<in> set ?s. is_base64_char c" using base64_char_ok by auto
  moreover have "\<not> is_base64_char 61" by (simp add: is_base64_char_def)
  ultimately have "takeWhile is_base64_char (?s @ replicate k 61) = ?s" for k
    by (cases k) (simp_all add: takeWhile_tail)
  moreover have "map base64_value ?s = sextets bs" using ok base64_char_ok by (simp add: map_idI)
  ultimately show ?thesis by (simp add: from_base64_def base64_def Let_def unsextets_sextets [OF assms])
qed

section \<open>UTF-8\<close>

text \<open>\<open>[...text]\<close>: a surrogate pair is one character, and any other code unit is one.\<close>

fun code_points :: "text16 \<Rightarrow> nat list" where
  "code_points (c # d # s) =
     (if 55296 \<le> c \<and> c \<le> 56319 \<and> 56320 \<le> d \<and> d \<le> 57343
      then (65536 + (c - 55296) * 1024 + (d - 56320)) # code_points s
      else c # code_points (d # s))"
| "code_points [c] = [c]"
| "code_points [] = []"

text \<open>A surrogate without its other half is written as U+FFFD.\<close>

definition utf8_point :: "nat \<Rightarrow> nat list" where
  "utf8_point p =
     (if p < 128 then [p]
      else if p < 2048 then [192 + p div 64, 128 + p mod 64]
      else if 55296 \<le> p \<and> p \<le> 57343 then [239, 191, 189]
      else if p < 65536 then [224 + p div 4096, 128 + p div 64 mod 64, 128 + p mod 64]
      else [240 + p div 262144, 128 + p div 4096 mod 64, 128 + p div 64 mod 64, 128 + p mod 64])"

definition utf8 :: "text16 \<Rightarrow> nat list" where
  "utf8 s = concat (map utf8_point (code_points s))"

definition units_of_point :: "nat \<Rightarrow> text16" where
  "units_of_point p =
     (if p < 65536 then [p] else [55296 + (p - 65536) div 1024, 56320 + (p - 65536) mod 1024])"

definition cont :: "nat \<Rightarrow> bool" where
  "cont b \<longleftrightarrow> 128 \<le> b \<and> b < 192"

text \<open>One character and the bytes after it; overlong forms, surrogates and too large values are refused.\<close>

fun utf8_next :: "nat list \<Rightarrow> (nat \<times> nat list) option" where
  "utf8_next (a # r) =
     (if a < 128 then Some (a, r)
      else if 194 \<le> a \<and> a < 224 then
        (case r of b # r \<Rightarrow> if cont b then Some ((a - 192) * 64 + (b - 128), r) else None | _ \<Rightarrow> None)
      else if 224 \<le> a \<and> a < 240 then
        (case r of b # c # r \<Rightarrow>
           (let p = (a - 224) * 4096 + (b - 128) * 64 + (c - 128)
            in if cont b \<and> cont c \<and> 2048 \<le> p \<and> \<not> (55296 \<le> p \<and> p \<le> 57343) then Some (p, r) else None)
         | _ \<Rightarrow> None)
      else if 240 \<le> a \<and> a < 245 then
        (case r of b # c # d # r \<Rightarrow>
           (let p = (a - 240) * 262144 + (b - 128) * 4096 + (c - 128) * 64 + (d - 128)
            in if cont b \<and> cont c \<and> cont d \<and> 65536 \<le> p \<and> p < 1114112 then Some (p, r) else None)
         | _ \<Rightarrow> None)
      else None)"
| "utf8_next [] = None"

lemma utf8_next_shorter: "utf8_next bs = Some (p, r) \<Longrightarrow> length r < length bs"
  by (cases bs) (auto simp: Let_def split: if_splits list.splits)

function utf8_points :: "nat list \<Rightarrow> nat list option" where
  "utf8_points bs =
     (if bs = [] then Some []
      else case utf8_next bs of
             None \<Rightarrow> None
           | Some (p, r) \<Rightarrow> map_option ((#) p) (utf8_points r))"
  by auto
termination by (relation "measure length") (auto dest: utf8_next_shorter)

declare utf8_points.simps [simp del]

text \<open>\<open>TextDecoder\<close> also drops a byte order mark at the start.\<close>

definition utf8_decode :: "nat list \<Rightarrow> text16 option" where
  "utf8_decode bs =
     map_option (\<lambda>ps. concat (map units_of_point ps))
       (utf8_points (if take 3 bs = [239, 187, 191] then drop 3 bs else bs))"

text \<open>Well-formed text without a mark at its start comes back as it was.\<close>

definition scalar :: "nat \<Rightarrow> bool" where
  "scalar p \<longleftrightarrow> p < 55296 \<or> 57343 < p \<and> p < 1114112"

lemma utf8_next_point:
  assumes "scalar p" shows "utf8_next (utf8_point p @ r) = Some (p, r)"
proof -
  define m where "m = p mod 64"
  define v where "v = p div 64 mod 64"
  define u where "u = p div 4096 mod 64"
  define q where "q = p div 64"
  define h where "h = p div 4096"
  define k where "k = p div 262144"
  have e: "p = q * 64 + m" "q = h * 64 + v" "h = k * 64 + u"
    using div_mult2_eq [of p 64 64] div_mult2_eq [of p 4096 64] by (simp_all add: m_def v_def u_def q_def h_def k_def)
  have lt: "m < 64" "v < 64" "u < 64" by (simp_all add: m_def v_def u_def)
  have qm: "q mod 64 = v" "h mod 64 = u" by (simp_all only: v_def q_def u_def h_def)
  note parts = qm m_def [symmetric] v_def [symmetric] u_def [symmetric] q_def [symmetric] h_def [symmetric] k_def [symmetric]
  consider "p < 128" | "128 \<le> p" "p < 2048" | "2048 \<le> p" "p < 65536" | "65536 \<le> p" by linarith
  then show ?thesis
  proof cases
    case 1
    then show ?thesis by (simp add: utf8_point_def)
  next
    case 2
    then have "2 \<le> q" "q < 32" using e(1) lt by linarith+
    moreover have "utf8_point p = [192 + q, 128 + m]" using 2 by (simp add: utf8_point_def parts)
    ultimately show ?thesis using e(1) lt by (simp add: cont_def)
  next
    case 3
    have s: "\<not> (55296 \<le> p \<and> p \<le> 57343)" using assms 3 by (auto simp: scalar_def)
    then have pt: "utf8_point p = [224 + h, 128 + v, 128 + m]" using 3 by (auto simp: utf8_point_def parts)
    have "h < 16" "h * 4096 + v * 64 + m = p" using 3 e lt by linarith+
    then show ?thesis using 3 s lt by (simp add: pt cont_def Let_def)
  next
    case 4
    then have pt: "utf8_point p = [240 + k, 128 + u, 128 + v, 128 + m]" by (simp add: utf8_point_def parts)
    have "p < 1114112" using assms 4 by (auto simp: scalar_def)
    moreover have "k < 5" "k * 262144 + u * 4096 + v * 64 + m = p" using calculation e lt by linarith+
    ultimately show ?thesis using 4 lt by (simp add: pt cont_def Let_def)
  qed
qed

lemma utf8_point_ne: "utf8_point p \<noteq> []"
  by (simp add: utf8_point_def)

lemma utf8_points_points:
  assumes "list_all scalar ps" shows "utf8_points (concat (map utf8_point ps)) = Some ps"
  using assms
proof (induction ps)
  case Nil
  show ?case by (simp add: utf8_points.simps)
next
  case (Cons p ps)
  let ?r = "concat (map utf8_point ps)"
  have "utf8_next (utf8_point p @ ?r) = Some (p, ?r)" using Cons.prems by (simp add: utf8_next_point)
  then have "utf8_points (utf8_point p @ ?r) = map_option ((#) p) (utf8_points ?r)"
    using utf8_point_ne [of p] by (subst utf8_points.simps) simp
  then show ?case using Cons by simp
qed

definition units_ok :: "text16 \<Rightarrow> bool" where
  "units_ok s \<longleftrightarrow> list_all (\<lambda>c. c < 65536) s"

lemma code_points_well_formed:
  assumes "is_well_formed s" "units_ok s"
  shows "list_all scalar (code_points s)" "concat (map units_of_point (code_points s)) = s"
proof -
  have "list_all scalar (code_points s) \<and> concat (map units_of_point (code_points s)) = s"
    using assms
  proof (induction s rule: code_points.induct)
    case (1 c d s)
    show ?case
    proof (cases "55296 \<le> c \<and> c \<le> 56319")
      case True
      then have d: "56320 \<le> d" "d \<le> 57343" and w: "is_well_formed s" using "1.prems"(1) by auto
      let ?p = "65536 + (c - 55296) * 1024 + (d - 56320)"
      obtain x y where c: "c = 55296 + x" and y: "d = 56320 + y" "y < 1024"
        using True d that [of "c - 55296" "d - 56320"] by simp
      have "?p < 1114112" using True d by linarith
      then have "scalar ?p" by (simp add: scalar_def)
      moreover have "(x * 1024 + y) div 1024 = x" "(x * 1024 + y) mod 1024 = y" using y(2) by simp_all
      then have "units_of_point ?p = [c, d]" unfolding c y(1) by (simp add: units_of_point_def)
      ultimately show ?thesis using True d w 1 by (simp add: units_ok_def)
    next
      case False
      then have "\<not> (56320 \<le> c \<and> c \<le> 57343)" "is_well_formed (d # s)" "c < 65536"
        using "1.prems" by (auto simp: units_ok_def split: if_splits)
      then show ?thesis using False 1 by (auto simp: units_ok_def units_of_point_def scalar_def)
    qed
  next
    case (2 c)
    then show ?case by (auto simp: scalar_def units_of_point_def units_ok_def split: if_splits)
  qed simp
  then show "list_all scalar (code_points s)" "concat (map units_of_point (code_points s)) = s" by simp_all
qed

lemma no_mark:
  assumes "list_all scalar ps" "ps = [] \<or> hd ps \<noteq> 65279"
  shows "take 3 (concat (map utf8_point ps)) \<noteq> [239, 187, 191]"
proof
  assume t: "take 3 (concat (map utf8_point ps)) = [239, 187, 191]"
  then have "concat (map utf8_point ps) = utf8_point 65279 @ drop 3 (concat (map utf8_point ps))"
    using append_take_drop_id [of 3 "concat (map utf8_point ps)"] by (simp add: utf8_point_def)
  then have n: "utf8_next (concat (map utf8_point ps)) = Some (65279, drop 3 (concat (map utf8_point ps)))"
    using utf8_next_point [of 65279 "drop 3 (concat (map utf8_point ps))"] by (simp only: scalar_def) simp
  show False
  proof (cases ps)
    case (Cons p qs)
    then have "utf8_next (utf8_point p @ concat (map utf8_point qs)) = Some (p, concat (map utf8_point qs))"
      using assms(1) by (intro utf8_next_point) simp
    with n Cons assms(2) show False by simp
  qed (use n in simp)
qed

lemma hd_code_points: "s \<noteq> [] \<Longrightarrow> hd (code_points s) = 65279 \<Longrightarrow> hd s = 65279"
  by (cases s rule: code_points.cases) (auto split: if_splits)

lemma code_points_Nil [simp]: "code_points s = [] \<longleftrightarrow> s = []"
  by (cases s rule: code_points.cases) auto

lemma utf8_decode_utf8:
  assumes "is_well_formed s" "units_ok s" "s = [] \<or> hd s \<noteq> 65279"
  shows "utf8_decode (utf8 s) = Some s"
proof -
  note c = code_points_well_formed [OF assms(1,2)]
  have "code_points s = [] \<or> hd (code_points s) \<noteq> 65279" using assms(3) hd_code_points by auto
  then show ?thesis
    using no_mark [OF c(1)] utf8_points_points [OF c(1)] c(2) by (simp add: utf8_decode_def utf8_def)
qed

text \<open>A character is at most four bytes, and no byte of a text without NUL is zero.\<close>

lemma length_utf8: "length (utf8 s) \<le> 4 * length (code_points s)"
proof -
  have "length (concat (map utf8_point ps)) \<le> 4 * length ps" for ps
    by (induction ps) (auto simp: utf8_point_def)
  then show ?thesis by (simp add: utf8_def)
qed

end
