(* ===== verification/Claims.thy ===== *)
theory Claims
  imports Guests Encodings
begin

text \<open>
  Character links, \<open>src/application/service.ts\<close>: a claim and its verification by a token in the public
  biography (\<open>claim\<close>, \<open>verify\<close>), an officer's assignment (\<open>assign\<close>), the link they commit
  (\<open>trust\<close>), its removal (\<open>unclaim\<close>, \<open>endLink\<close>), and the main character and nickname switch
  (\<open>preferences\<close>). Each is one transaction over the tables. SHA-256, the random bytes, Discord's and
  the Lodestone's answers are arguments. Of an audit row's details only the reason is kept.
\<close>

section \<open>The tables\<close>

record character_row =
  ch_id :: ident
  ch_name :: string
  ch_world :: string
  ch_dc :: "string option"
  ch_hint :: "ident option"
  ch_profile :: "int option"

record challenge =
  vc_id :: ident
  vc_guild :: ident
  vc_user :: ident
  vc_character :: ident
  vc_hash :: ident
  vc_issued :: int
  vc_expires :: int
  vc_consumed :: "int option"
  vc_replaced :: "int option"

record claims_db =
  cd_guilds :: "guild_row list"
  cd_people :: people
  cd_characters :: "character_row list"
  cd_challenges :: "challenge list"
  cd_snapshots :: "snapshot_row list"
  cd_listed :: "(ident \<times> ident) list"
  cd_jobs :: "job list"
  cd_audit :: "people_audit list"

text \<open>What the Lodestone says of a character; the biography comes with a profile read.\<close>

record identity =
  id_id :: ident
  id_name :: string
  id_world :: string
  id_dc :: string
  id_fc :: "ident option"
  id_biography :: "text16 option"

text \<open>
  What one request reads from outside. \<open>cw_now\<close> is the transaction's time, \<open>cw_check\<close> the process
  clock inside it and \<open>cw_clock\<close> the database's clock at the last statement.
\<close>

record claims_world =
  cw_enable :: bool
  cw_member :: "ident \<Rightarrow> discord_member option"
  cw_profile :: "ident \<Rightarrow> thrown + identity"
  cw_digest :: "text16 \<Rightarrow> ident"
  cw_bytes :: "nat list"
  cw_now :: int
  cw_check :: int
  cw_clock :: int
  cw_interval :: int
  cw_lifetime :: int
  cw_row :: ident
  cw_job :: "string \<Rightarrow> ident"

section \<open>Tokens\<close>

definition token_prefix :: text16 where
  "token_prefix = units ''tarubot_''"

definition issue_token :: "claims_world \<Rightarrow> text16" where
  "issue_token w = token_prefix @ base64url (cw_bytes w)"

text \<open>\<open>/tarubot_[A-Za-z0-9_-]{43}/g\<close>: the matches from the left, none overlapping the one before.\<close>

definition is_token_unit :: "nat \<Rightarrow> bool" where
  "is_token_unit u \<longleftrightarrow> 65 \<le> u \<and> u \<le> 90 \<or> 97 \<le> u \<and> u \<le> 122 \<or> 48 \<le> u \<and> u \<le> 57 \<or> u = 95 \<or> u = 45"

definition token_here :: "text16 \<Rightarrow> bool" where
  "token_here s \<longleftrightarrow>
     take 8 s = token_prefix \<and> length (take 43 (drop 8 s)) = 43 \<and> list_all is_token_unit (take 43 (drop 8 s))"

function tokens_in :: "text16 \<Rightarrow> text16 list" where
  "tokens_in s =
     (if s = [] then []
      else if token_here s then take 51 s # tokens_in (drop 51 s)
      else tokens_in (tl s))"
  by auto
termination by (relation "measure length") auto

declare tokens_in.simps [simp del]

text \<open>What is hashed binds the token to the server, the person and the character.\<close>

definition proof_text :: "ident \<Rightarrow> ident \<Rightarrow> ident \<Rightarrow> text16 \<Rightarrow> text16" where
  "proof_text guild user character token =
     units guild @ units '':'' @ units user @ units '':'' @ units character @ units '':'' @ token"

section \<open>Failures\<close>

definition ownershipConflict :: "failure_character \<Rightarrow> ident \<Rightarrow> failure" where
  "ownershipConflict character owner = mk_failure_detail F_ownership_conflict
     (Literal ''This character is already linked to a different member of this server.'')
     (DOwnership character owner)"

definition memberNotFound :: "ident \<Rightarrow> failure" where
  "memberNotFound user = mk_failure_detail F_not_found
     (Literal (''That user isn'' @ [CHR 0x27] @ ''t a current member of this server, or is a bot.''))
     (DResource Resource_member (Some user) None None None)"

definition claims_limit :: "claims_world \<Rightarrow> limit_kind \<Rightarrow> string \<Rightarrow> int option \<Rightarrow> failure" where
  "claims_limit w limit message until =
     \<lparr>f_code = F_cooldown, f_message = Literal message, f_retry_after = secondsUntil (cw_check w) until,
      f_detail = Some (DLimit limit until)\<rparr>"

definition no_challenge :: "ident \<Rightarrow> failure" where
  "no_challenge i = mk_failure_detail F_not_found
     (Literal (''You don'' @ [CHR 0x27] @ ''t have an unexpired claim for this character. Run /claim for a new token, then /verify.''))
     (DResource Resource_challenge (Some i) None None None)"

definition not_published :: "failure_character \<Rightarrow> int \<Rightarrow> failure" where
  "not_published character expires = mk_failure_detail F_pending_proof
     (Literal (''The Lodestone hasn'' @ [CHR 0x27] @ ''t published the token for this character yet. This often takes a few minutes after you save; the token is still valid.''))
     (DProof character expires)"

definition token_expired :: failure where
  "token_expired = mk_failure F_expired
     (Literal ''The token expired just before verification finished. Run /claim for a new token.'')"

definition no_such_link :: "bool \<Rightarrow> ident \<Rightarrow> failure" where
  "no_such_link own character = mk_failure_detail F_not_found
     (Literal (if own then ''That character isn'' @ [CHR 0x27] @ ''t one of your linked characters. Pick one from the suggestions.''
               else ''That character isn'' @ [CHR 0x27] @ ''t linked to that member.''))
     (DResource Resource_link (Some character) None None None)"

definition RANK_LINK_REMOVAL :: string where
  "RANK_LINK_REMOVAL =
     ''Removing a link the member verified, an imported link or a server manager'' @ [CHR 0x27] @
     ''s assignment needs Discord'' @ [CHR 0x27] @
     ''s Manage Server and Manage Roles permissions, because it can count for FC rank. Bot officer access isn'' @
     [CHR 0x27] @ ''t enough.''"

definition not_own_character :: "ident \<Rightarrow> failure" where
  "not_own_character character = mk_failure_detail F_not_found
     (Literal ''Choose one of your linked characters from the suggestions.'')
     (DResource Resource_link (Some character) None None None)"

definition main_first :: failure where
  "main_first = mk_failure F_input (Literal ''Choose a main character with /main before turning on nicknames.'')"

section \<open>Reads and small writes\<close>

definition character_ref :: "identity \<Rightarrow> failure_character" where
  "character_ref i = \<lparr>fch_id = id_id i, fch_name = id_name i, fch_world = id_world i\<rparr>"

definition row_ref :: "character_row \<Rightarrow> failure_character" where
  "row_ref c = \<lparr>fch_id = ch_id c, fch_name = ch_name c, fch_world = ch_world c\<rparr>"

definition character_of :: "claims_db \<Rightarrow> ident \<Rightarrow> character_row option" where
  "character_of d i = find (\<lambda>c. ch_id c = i) (cd_characters d)"

definition people_links :: "claims_db \<Rightarrow> link_row list" where
  "people_links d = pl_links (cd_people d)"

definition holder_of :: "claims_db \<Rightarrow> ident \<Rightarrow> ident \<Rightarrow> link_row option" where
  "holder_of d guild character =
     find (\<lambda>l. lk_guild l = guild \<and> lk_character l = character \<and> lk_active l) (people_links d)"

definition in_people :: "(people \<Rightarrow> people) \<Rightarrow> claims_db \<Rightarrow> claims_db" where
  "in_people f d = d\<lparr>cd_people := f (cd_people d)\<rparr>"

definition in_users :: "(user_row list \<Rightarrow> user_row list) \<Rightarrow> claims_db \<Rightarrow> claims_db" where
  "in_users f = in_people (\<lambda>p. p\<lparr>pl_users := f (pl_users p)\<rparr>)"

definition in_links :: "(link_row list \<Rightarrow> link_row list) \<Rightarrow> claims_db \<Rightarrow> claims_db" where
  "in_links f = in_people (\<lambda>p. p\<lparr>pl_links := f (pl_links p)\<rparr>)"

definition user_row_of :: "claims_db \<Rightarrow> ident \<Rightarrow> ident \<Rightarrow> user_row option" where
  "user_row_of d guild user = user_of (pl_users (cd_people d)) guild user"

definition queue_person :: "claims_world \<Rightarrow> ident \<Rightarrow> ident \<Rightarrow> claims_db \<Rightarrow> claims_db" where
  "queue_person w guild user d =
     d\<lparr>cd_jobs := snd (reconcileUser (cw_now w) (cw_job w (''user:'' @ guild @ '':'' @ user)) guild user (cd_jobs d))\<rparr>"

definition claims_audit :: "actor \<Rightarrow> string \<Rightarrow> ident \<Rightarrow> text16 option \<Rightarrow> claims_db \<Rightarrow> claims_db" where
  "claims_audit a action target reason d =
     d\<lparr>cd_audit := cd_audit d @ [\<lparr>pa_guild = act_guild a, pa_actor = act_user a, pa_action = action,
        pa_target = target, pa_reason = reason\<rparr>]\<rparr>"

text \<open>A profile read replaces what is stored; a roster listing leaves the company hint alone.\<close>

definition storeCharacter :: "int \<Rightarrow> bool \<Rightarrow> identity \<Rightarrow> claims_db \<Rightarrow> claims_db" where
  "storeCharacter now profile i d =
     d\<lparr>cd_characters :=
       (if list_ex (\<lambda>c. ch_id c = id_id i) (cd_characters d)
        then map (\<lambda>c. if ch_id c = id_id i
               then c\<lparr>ch_name := id_name i, ch_world := id_world i, ch_dc := Some (id_dc i),
                      ch_hint := (if profile then id_fc i else ch_hint c),
                      ch_profile := (if profile then Some now else ch_profile c)\<rparr>
               else c) (cd_characters d)
        else cd_characters d @ [\<lparr>ch_id = id_id i, ch_name = id_name i, ch_world = id_world i,
               ch_dc = Some (id_dc i), ch_hint = id_fc i,
               ch_profile = (if profile then Some now else None)\<rparr>])\<rparr>"

text \<open>The newest complete roster of a company.\<close>

definition latest_snapshot :: "claims_db \<Rightarrow> ident \<Rightarrow> snapshot_row option" where
  "latest_snapshot d fc =
     (let mine = filter (\<lambda>s. rs_fc s = fc) (cd_snapshots d)
      in find (\<lambda>s. list_all (\<lambda>x. rs_observed x \<le> rs_observed s) mine) mine)"

definition listed_in :: "claims_db \<Rightarrow> snapshot_row \<Rightarrow> ident \<Rightarrow> bool" where
  "listed_in d s character \<longleftrightarrow> (rs_id s, character) \<in> set (cd_listed d)"

text \<open>Roster evidence of a new link: the newest roster of the linked company, still fresh, lists it.\<close>

definition fresh_evidence :: "claims_world \<Rightarrow> claims_db \<Rightarrow> ident \<Rightarrow> ident \<Rightarrow> snapshot_row option" where
  "fresh_evidence w d guild character =
     (case Option.bind (find (\<lambda>g. gd_id g = guild) (cd_guilds d)) gd_fc of
        None \<Rightarrow> None
      | Some fc \<Rightarrow>
          (case latest_snapshot d fc of
             None \<Rightarrow> None
           | Some s \<Rightarrow>
               if listed_in d s character \<and> rs_observed s > cw_now w - 1000 * cw_interval w then Some s else None))"

section \<open>Committing a link\<close>

record trust_result =
  tr_id :: ident
  tr_created :: bool
  tr_first :: bool
  tr_main :: bool
  tr_sync :: bool
  tr_listed :: bool
  tr_character :: failure_character

definition new_link ::
  "claims_world \<Rightarrow> actor \<Rightarrow> ident \<Rightarrow> ident \<Rightarrow> string \<Rightarrow> text16 option \<Rightarrow> link_source \<Rightarrow> link_row" where
  "new_link w a owner character provenance reason source =
     \<lparr>lk_id = cw_row w, lk_guild = act_guild a, lk_user = owner, lk_character = character, lk_active = True,
      lk_provenance = provenance, lk_actor = Some (act_user a), lk_reason = reason, lk_source = source,
      lk_ended = None\<rparr>"

definition drop_membership :: "ident \<Rightarrow> ident \<Rightarrow> claims_db \<Rightarrow> claims_db" where
  "drop_membership guild character =
     in_people (\<lambda>p. p\<lparr>pl_members := filter (\<lambda>m. \<not> (mb_guild m = guild \<and> mb_character m = character)) (pl_members p)\<rparr>)"

definition accept_membership :: "ident \<Rightarrow> ident \<Rightarrow> snapshot_row \<Rightarrow> claims_db \<Rightarrow> claims_db" where
  "accept_membership guild character s =
     in_people (\<lambda>p. p\<lparr>pl_members :=
       (let mine = (\<lambda>m. mb_guild m = guild \<and> mb_fc m = rs_fc s \<and> mb_character m = character)
        in if list_ex mine (pl_members p)
           then map (\<lambda>m. if mine m then m\<lparr>mb_state := Present, mb_first_absence := None,
                  mb_snapshot := Some (rs_id s), mb_confirmed := Some (rs_id s)\<rparr> else m) (pl_members p)
           else pl_members p @ [\<lparr>mb_guild = guild, mb_fc = rs_fc s, mb_character = character, mb_state = Present,
                  mb_first_absence = None, mb_snapshot = Some (rs_id s), mb_confirmed = Some (rs_id s)\<rparr>])\<rparr>)"

definition record_member :: "ident \<Rightarrow> ident \<Rightarrow> ident \<Rightarrow> snapshot_row \<Rightarrow> claims_db \<Rightarrow> claims_db" where
  "record_member guild user link s =
     in_people (\<lambda>p. p\<lparr>pl_history :=
       (if list_ex (\<lambda>h. mh_link h = link \<and> mh_fc h = rs_fc s) (pl_history p) then pl_history p
        else pl_history p @ [\<lparr>mh_guild = guild, mh_user = user, mh_fc = rs_fc s, mh_link = link,
               mh_snapshot = Some (rs_id s), mh_observed = rs_observed s\<rparr>])\<rparr>)"

definition make_main :: "bool \<Rightarrow> bool \<Rightarrow> ident \<Rightarrow> user_row \<Rightarrow> user_row" where
  "make_main first enabled character u =
     (if first then u\<lparr>gu_primary := Some character, gu_nick_enabled := True, gu_nick_suspended := False\<rparr>
      else u\<lparr>gu_primary := Some character,
             gu_nick_restore := (if enabled then False else gu_nick_restore u)\<rparr>)"

text \<open>The link itself, with the evidence and the main character that come with it.\<close>

definition insert_link ::
  "claims_world \<Rightarrow> actor \<Rightarrow> ident \<Rightarrow> failure_character \<Rightarrow> ident \<Rightarrow> string \<Rightarrow> text16 option \<Rightarrow> link_source \<Rightarrow>
   claims_db \<Rightarrow> trust_result \<times> claims_db" where
  "insert_link w a owner identity character provenance reason source d =
     (let g = act_guild a;
          state = user_row_of d g owner;
          imported = (case state of Some u \<Rightarrow> gu_imported u | None \<Rightarrow> False);
          enabled = (case state of Some u \<Rightarrow> gu_nick_enabled u | None \<Rightarrow> False);
          unset = (Option.bind state (\<lambda>u. given (gu_primary u)) = None);
          first = (\<not> imported \<and> \<not> list_ex (\<lambda>l. lk_guild l = g \<and> lk_user l = owner) (people_links d));
          main = (first \<or> \<not> imported \<and> unset \<and> active_links (people_links d) g owner = []);
          evidence = fresh_evidence w d g character;
          d = drop_membership g character d;
          d = in_links (\<lambda>ls. ls @ [new_link w a owner character provenance reason source]) d;
          d = (case evidence of
                 None \<Rightarrow> d
               | Some s \<Rightarrow> record_member g owner (cw_row w) s (accept_membership g character s d));
          d = (if main then in_users (update_user g owner (make_main first enabled character)) d else d);
          d = claims_audit a ''character.link'' (cw_row w) reason d
      in (\<lparr>tr_id = cw_row w, tr_created = True, tr_first = first, tr_main = main, tr_sync = (first \<or> enabled),
           tr_listed = (evidence \<noteq> None), tr_character = identity\<rparr>,
          queue_person w g owner d))"

definition trust ::
  "claims_world \<Rightarrow> actor \<Rightarrow> ident \<Rightarrow> ident \<Rightarrow> string \<Rightarrow> text16 option \<Rightarrow> link_source \<Rightarrow> claims_db \<Rightarrow>
   thrown + (trust_result \<times> claims_db)" where
  "trust w a owner character provenance reason source d =
     (case character_of d character of
        None \<Rightarrow> Inl (OtherError ''Error'')
      | Some c \<Rightarrow>
          (case holder_of d (act_guild a) character of
             Some l \<Rightarrow>
               if lk_user l \<noteq> owner then Inl (ThrownFailure (ownershipConflict (row_ref c) (lk_user l)))
               else Inr (\<lparr>tr_id = lk_id l, tr_created = False, tr_first = False, tr_main = False,
                          tr_sync = False, tr_listed = False, tr_character = row_ref c\<rparr>,
                         queue_person w (act_guild a) owner d)
           | None \<Rightarrow> Inr (insert_link w a owner (row_ref c) character provenance reason source d)))"

section \<open>Evidence and stored rosters\<close>

record roster_evidence =
  re_linked :: bool
  re_fresh :: bool
  re_checked :: "int option"
  re_listed :: bool

definition rosterEvidence :: "claims_world \<Rightarrow> claims_db \<Rightarrow> guild_row \<Rightarrow> bool \<Rightarrow> roster_evidence" where
  "rosterEvidence w d guild listed =
     (case given (gd_fc guild) of
        None \<Rightarrow> \<lparr>re_linked = False, re_fresh = False, re_checked = None, re_listed = listed\<rparr>
      | Some fc \<Rightarrow>
          (let checked = Option.bind (find (\<lambda>(i, at). i = fc) (pl_rosters (cd_people d))) snd
           in \<lparr>re_linked = True,
               re_fresh = (case checked of None \<Rightarrow> False | Some at \<Rightarrow> at > cw_now w - 1000 * cw_interval w),
               re_checked = checked, re_listed = listed\<rparr>))"

text \<open>A selector; names are compared as the database lowers them and the code normalizes them.\<close>

datatype character_query = ById ident | ByName string string

definition rosterCharacter ::
  "(string \<Rightarrow> string) \<Rightarrow> (string \<Rightarrow> string) \<Rightarrow> claims_db \<Rightarrow> ident \<Rightarrow> character_query \<Rightarrow> identity option" where
  "rosterCharacter lower normalized d guild query =
     (case Option.bind (find (\<lambda>g. gd_id g = guild \<and> gd_active g) (cd_guilds d)) (\<lambda>g. given (gd_fc g)) of
        None \<Rightarrow> None
      | Some fc \<Rightarrow>
          (case latest_snapshot d fc of
             None \<Rightarrow> None
           | Some s \<Rightarrow>
               (case filter (\<lambda>c. listed_in d s (ch_id c) \<and>
                       (case query of
                          ById i \<Rightarrow> ch_id c = i
                        | ByName name world \<Rightarrow>
                            lower (ch_name c) = normalized name \<and> lower (ch_world c) = normalized world))
                       (cd_characters d) of
                  [c] \<Rightarrow> Some \<lparr>id_id = ch_id c, id_name = ch_name c, id_world = ch_world c,
                             id_dc = (case ch_dc c of Some dc \<Rightarrow> dc | None \<Rightarrow> []), id_fc = Some fc,
                             id_biography = None\<rparr>
                | _ \<Rightarrow> None)))"

section \<open>Claiming\<close>

definition vc_live :: "challenge \<Rightarrow> bool" where
  "vc_live c \<longleftrightarrow> vc_consumed c = None \<and> vc_replaced c = None"

definition vc_of :: "ident \<Rightarrow> ident \<Rightarrow> ident \<Rightarrow> challenge \<Rightarrow> bool" where
  "vc_of guild user character c \<longleftrightarrow> vc_guild c = guild \<and> vc_user c = user \<and> vc_character c = character"

definition replace_live :: "claims_world \<Rightarrow> actor \<Rightarrow> ident \<Rightarrow> claims_db \<Rightarrow> claims_db" where
  "replace_live w a character d =
     d\<lparr>cd_challenges := map (\<lambda>c. if vc_of (act_guild a) (act_user a) character c \<and> vc_live c
          then c\<lparr>vc_replaced := Some (cw_now w)\<rparr> else c) (cd_challenges d)\<rparr>"

text \<open>The challenges that count, and when the first of them ends.\<close>

definition unfinished :: "int \<Rightarrow> challenge list \<Rightarrow> challenge list" where
  "unfinished now cs = filter (\<lambda>c. vc_expires c > now \<and> vc_live c) cs"

definition vc_own :: "ident \<Rightarrow> ident \<Rightarrow> challenge \<Rightarrow> bool" where
  "vc_own guild user c \<longleftrightarrow> vc_guild c = guild \<and> vc_user c = user"

definition first_expiry :: "challenge list \<Rightarrow> int option" where
  "first_expiry cs = (case map vc_expires cs of [] \<Rightarrow> None | x # xs \<Rightarrow> Some (fold min xs x))"

definition claim_limits :: "claims_world \<Rightarrow> actor \<Rightarrow> claims_db \<Rightarrow> failure option" where
  "claim_limits w a d =
     (let all = unfinished (cw_now w) (cd_challenges d);
          own = filter (vc_own (act_guild a) (act_user a)) all
      in if 5 \<le> length own
         then Some (claims_limit w ClaimsOwn
                ''You already have 5 unfinished claims. Finish one with /verify, or wait until the oldest token expires.''
                (first_expiry own))
         else if 1000 \<le> length all
         then Some (claims_limit w ClaimsAll ''Verification is busy right now. Try again in a few minutes.''
                (first_expiry all))
         else None)"

definition new_challenge :: "claims_world \<Rightarrow> actor \<Rightarrow> ident \<Rightarrow> challenge" where
  "new_challenge w a character =
     \<lparr>vc_id = cw_row w, vc_guild = act_guild a, vc_user = act_user a, vc_character = character,
      vc_hash = cw_digest w (proof_text (act_guild a) (act_user a) character (issue_token w)),
      vc_issued = cw_now w, vc_expires = cw_now w + 1000 * cw_lifetime w, vc_consumed = None,
      vc_replaced = None\<rparr>"

datatype claim_result =
    ClaimPending failure_character text16 ident int
  | ClaimLinked effects_mode failure_character

definition claim_new ::
  "claims_world \<Rightarrow> actor \<Rightarrow> failure_character \<Rightarrow> claims_db \<Rightarrow> failure + (claim_result \<times> claims_db)" where
  "claim_new w a character d =
     (let d = replace_live w a (fch_id character) d
      in case claim_limits w a d of
           Some f \<Rightarrow> Inl f
         | None \<Rightarrow>
             (let c = new_challenge w a (fch_id character)
              in Inr (ClaimPending character (issue_token w) (vc_id c) (vc_expires c),
                      d\<lparr>cd_challenges := cd_challenges d @ [c]\<rparr>)))"

definition claim_transaction ::
  "claims_world \<Rightarrow> actor \<Rightarrow> guild_row \<Rightarrow> discord_member \<Rightarrow> identity \<Rightarrow> bool \<Rightarrow> claims_db \<Rightarrow>
   failure + (claim_result \<times> claims_db)" where
  "claim_transaction w a guild m identity read d =
     (let d = in_users (ensureUser (act_guild a) (act_user a) (Some (dm_joined m))) d;
          d = (if read then storeCharacter (cw_now w) True identity d else d)
      in case holder_of d (act_guild a) (id_id identity) of
           Some l \<Rightarrow>
             if lk_user l = act_user a
             then Inr (ClaimLinked (effectsMode (cw_enable w) guild) (character_ref identity),
                       queue_person w (act_guild a) (act_user a) d)
             else Inl (ownershipConflict (character_ref identity) (lk_user l))
         | None \<Rightarrow> claim_new w a (character_ref identity) d)"

definition claim_character ::
  "claims_world \<Rightarrow> claims_db \<Rightarrow> actor \<Rightarrow> identity \<Rightarrow> bool \<Rightarrow> claims_db \<Rightarrow> failure + (claim_result \<times> claims_db)" where
  "claim_character w before a identity read d =
     and_then (requirePermission a (act_guild a) P_characters_claim None) (\<lambda>_.
     and_then (guild_of (cd_guilds before) a) (\<lambda>guild.
       case cw_member w (act_user a) of
         None \<Rightarrow> Inl notCurrentMember
       | Some m \<Rightarrow> if dm_bot m then Inl notCurrentMember else claim_transaction w a guild m identity read d))"

section \<open>Verifying\<close>

text \<open>The newest challenge that was not replaced.\<close>

definition newest_challenge :: "claims_db \<Rightarrow> ident \<Rightarrow> ident \<Rightarrow> ident \<Rightarrow> challenge option" where
  "newest_challenge d guild user character =
     (let mine = filter (\<lambda>c. vc_of guild user character c \<and> vc_replaced c = None) (cd_challenges d)
      in find (\<lambda>c. list_all (\<lambda>x. vc_issued x \<le> vc_issued c) mine) mine)"

definition proven :: "claims_world \<Rightarrow> actor \<Rightarrow> ident \<Rightarrow> identity \<Rightarrow> challenge \<Rightarrow> bool" where
  "proven w a character profile c \<longleftrightarrow>
     list_ex (\<lambda>token. cw_digest w (proof_text (act_guild a) (act_user a) character token) = vc_hash c)
       (case id_biography profile of None \<Rightarrow> [] | Some text \<Rightarrow> tokens_in text)"

datatype verify_result =
    Verified trust_result effects_mode roster_evidence
  | AlreadyVerified failure_character

definition consumable :: "claims_world \<Rightarrow> challenge \<Rightarrow> challenge \<Rightarrow> bool" where
  "consumable w c x \<longleftrightarrow> vc_id x = vc_id c \<and> vc_expires x > cw_clock w \<and> vc_live x"

definition verify_transaction ::
  "claims_world \<Rightarrow> actor \<Rightarrow> guild_row \<Rightarrow> ident \<Rightarrow> identity \<Rightarrow> claims_db \<Rightarrow> thrown + (verify_result \<times> claims_db)" where
  "verify_transaction w a guild character profile d =
     (case newest_challenge d (act_guild a) (act_user a) character of
        None \<Rightarrow> Inl (ThrownFailure (no_challenge character))
      | Some c \<Rightarrow>
          if vc_expires c \<le> cw_check w then Inl (ThrownFailure (no_challenge character))
          else if vc_consumed c \<noteq> None then Inr (AlreadyVerified (character_ref profile), d)
          else if \<not> proven w a character profile c
          then Inl (ThrownFailure (not_published (character_ref profile) (vc_expires c)))
          else and_then (trust w a (act_user a) character ''profile_token'' None (SourceObject None)
                           (storeCharacter (cw_now w) True profile d)) (\<lambda>(link, d).
            if \<not> list_ex (consumable w c) (cd_challenges d) then Inl (ThrownFailure token_expired)
            else
              (let d = d\<lparr>cd_challenges := map (\<lambda>x. if consumable w c x
                          then x\<lparr>vc_consumed := Some (cw_clock w)\<rparr> else x) (cd_challenges d)\<rparr>;
                   d = claims_audit a ''verification.complete'' (tr_id link) None d
               in Inr (Verified link (effectsMode (cw_enable w) guild) (rosterEvidence w d guild (tr_listed link)), d))))"

definition verify ::
  "claims_world \<Rightarrow> claims_db \<Rightarrow> actor \<Rightarrow> ident \<Rightarrow> claims_db \<Rightarrow> thrown + (verify_result \<times> claims_db)" where
  "verify w before a character d =
     (case and_then (requirePermission a (act_guild a) P_characters_claim None)
             (\<lambda>_. guild_of (cd_guilds before) a) of
        Inl f \<Rightarrow> Inl (ThrownFailure f)
      | Inr guild \<Rightarrow>
          and_then (cw_profile w character) (\<lambda>profile. verify_transaction w a guild character profile d))"

section \<open>Assigning\<close>

record assign_result =
  as_link :: trust_result
  as_mode :: effects_mode
  as_owner :: ident
  as_reason :: text16
  as_authority :: bool
  as_roster :: roster_evidence

definition assign_transaction ::
  "claims_world \<Rightarrow> actor \<Rightarrow> guild_row \<Rightarrow> ident \<Rightarrow> discord_member \<Rightarrow> identity \<Rightarrow> text16 \<Rightarrow> claims_db \<Rightarrow>
   thrown + (assign_result \<times> claims_db)" where
  "assign_transaction w a guild owner m identity reason d =
     (let authority = can a P_admin_links;
          d = in_users (ensureUser (act_guild a) owner (Some (dm_joined m))) d;
          d = storeCharacter (cw_now w) True identity d
      in and_then (trust w a owner (id_id identity) ''officer_assignment'' (Some reason)
                     (SourceObject (Some authority)) d) (\<lambda>(link, d).
           let d = claims_audit a ''character.assign'' (tr_id link) (Some reason) d
           in Inr (\<lparr>as_link = link, as_mode = effectsMode (cw_enable w) guild, as_owner = owner,
                    as_reason = reason, as_authority = authority,
                    as_roster = rosterEvidence w d guild (tr_listed link)\<rparr>, d)))"

definition assign ::
  "claims_world \<Rightarrow> claims_db \<Rightarrow> actor \<Rightarrow> ident \<Rightarrow> identity \<Rightarrow> text16 \<Rightarrow> claims_db \<Rightarrow>
   thrown + (assign_result \<times> claims_db)" where
  "assign w before a owner identity reason d =
     (case and_then (requirePermission a (act_guild a) P_characters_assign None) (\<lambda>_.
           and_then (guild_of (cd_guilds before) a) (\<lambda>guild.
           and_then (parse_note reason LabelReason) (\<lambda>reason.
             case cw_member w owner of
               None \<Rightarrow> Inl (memberNotFound owner)
             | Some m \<Rightarrow> if dm_bot m then Inl (memberNotFound owner) else Inr (guild, reason, m)))) of
        Inl f \<Rightarrow> Inl (ThrownFailure f)
      | Inr (guild, reason, m) \<Rightarrow> assign_transaction w a guild owner m identity reason d)"

section \<open>Removing\<close>

definition endLink ::
  "claims_world \<Rightarrow> ident \<Rightarrow> ident \<Rightarrow> ident \<Rightarrow> ident \<Rightarrow> claims_db \<Rightarrow> (bool \<times> nat) \<times> claims_db" where
  "endLink w guild owner character link d =
     (let d = in_links (map (\<lambda>l. if lk_id l = link then l\<lparr>lk_active := False, lk_ended := Some (cw_now w)\<rparr> else l)) d;
          fc = Option.bind (find (\<lambda>g. gd_id g = guild) (cd_guilds d)) gd_fc;
          remaining = (case fc of
             None \<Rightarrow> False
           | Some fc \<Rightarrow> list_ex (\<lambda>l. list_ex (\<lambda>m. mb_guild m = guild \<and> mb_character m = lk_character l \<and>
                 mb_fc m = fc \<and> mb_state m \<in> {Present, Missing}) (pl_members (cd_people d)))
               (active_links (people_links d) guild owner));
          d = (if remaining then d else in_users (update_user guild owner (\<lambda>u. u\<lparr>gu_local_loss := True\<rparr>)) d);
          mine = (\<lambda>u. gu_guild u = guild \<and> gu_user u = owner \<and> gu_primary u = Some character);
          cleared = list_ex mine (pl_users (cd_people d));
          d = in_users (map (\<lambda>u. if mine u then u\<lparr>gu_primary := None, gu_nick_restore := True\<rparr> else u)) d;
          left = length (active_links (people_links d) guild owner)
      in ((cleared, left), queue_person w guild owner d))"

record unlink_result =
  ur_mode :: effects_mode
  ur_link :: ident
  ur_owner :: ident
  ur_character :: failure_character
  ur_cleared :: bool
  ur_left :: nat
  ur_reason :: "text16 option"

definition unclaim_transaction ::
  "claims_world \<Rightarrow> actor \<Rightarrow> guild_row \<Rightarrow> ident \<Rightarrow> ident \<Rightarrow> text16 option \<Rightarrow> claims_db \<Rightarrow>
   failure + (unlink_result \<times> claims_db)" where
  "unclaim_transaction w a guild owner character reason d =
     (let missing = no_such_link (owner = act_user a) character
      in case holder_of d (act_guild a) character of
           None \<Rightarrow> Inl missing
         | Some l \<Rightarrow>
             if lk_user l \<noteq> owner then Inl missing
             else (case character_of d character of
               None \<Rightarrow> Inl missing
             | Some c \<Rightarrow>
                 and_then (if owner \<noteq> act_user a \<and> linkConfersRank (lk_provenance l) (lk_source l)
                           then requirePermission a (act_guild a) P_admin_links (Some RANK_LINK_REMOVAL)
                           else Inr ()) (\<lambda>_.
                   let ((cleared, left), d) = endLink w (act_guild a) owner character (lk_id l) d;
                       d = claims_audit a ''character.unlink'' (lk_id l) reason d
                   in Inr (\<lparr>ur_mode = effectsMode (cw_enable w) guild, ur_link = lk_id l, ur_owner = owner,
                            ur_character = row_ref c, ur_cleared = cleared, ur_left = left, ur_reason = reason\<rparr>, d))))"

definition unclaim ::
  "claims_world \<Rightarrow> claims_db \<Rightarrow> actor \<Rightarrow> ident \<Rightarrow> ident \<Rightarrow> text16 option \<Rightarrow> claims_db \<Rightarrow>
   failure + (unlink_result \<times> claims_db)" where
  "unclaim w before a owner character reason d =
     and_then (if owner = act_user a then authorize a (act_guild a)
               else requirePermission a (act_guild a) P_characters_unassign None) (\<lambda>_.
     and_then (guild_of (cd_guilds before) a) (\<lambda>guild.
     and_then (if owner \<noteq> act_user a \<or> reason \<noteq> None
               then and_then (parse_note (case reason of Some r \<Rightarrow> r | None \<Rightarrow> []) LabelReason) (\<lambda>r. Inr (Some r))
               else Inr None) (\<lambda>reason.
       unclaim_transaction w a guild owner character reason d)))"

section \<open>The main character and nicknames\<close>

record preferences_result =
  pf_changed :: bool
  pf_mode :: effects_mode
  pf_primary :: "failure_character option"
  pf_enabled :: bool
  pf_suspended :: bool

definition set_main :: "ident \<Rightarrow> bool \<Rightarrow> user_row \<Rightarrow> user_row" where
  "set_main character enabled u =
     u\<lparr>gu_primary := Some character, gu_nick_restore := (if enabled then False else gu_nick_restore u)\<rparr>"

definition set_sync :: "bool \<Rightarrow> user_row \<Rightarrow> user_row" where
  "set_sync enabled u =
     u\<lparr>gu_nick_enabled := enabled, gu_nick_suspended := False, gu_nick_restore := \<not> enabled,
       gu_nick_baseline := (if enabled then False else gu_nick_baseline u)\<rparr>"

definition preferences_result_of :: "claims_world \<Rightarrow> actor \<Rightarrow> guild_row \<Rightarrow> bool \<Rightarrow> claims_db \<Rightarrow> preferences_result" where
  "preferences_result_of w a guild changed d =
     (let saved = user_row_of d (act_guild a) (act_user a)
      in \<lparr>pf_changed = changed, pf_mode = effectsMode (cw_enable w) guild,
          pf_primary = Option.bind saved (\<lambda>u. Option.bind (gu_primary u) (\<lambda>i. map_option row_ref (character_of d i))),
          pf_enabled = (case saved of Some u \<Rightarrow> gu_nick_enabled u | None \<Rightarrow> False),
          pf_suspended = (case saved of Some u \<Rightarrow> gu_nick_suspended u | None \<Rightarrow> False)\<rparr>)"

text \<open>Naming another main character, and turning the sync on, off, or on again after a manual nickname.\<close>

definition main_changes :: "user_row option \<Rightarrow> ident option \<Rightarrow> bool" where
  "main_changes current character \<longleftrightarrow> character \<noteq> None \<and> Option.bind current gu_primary \<noteq> character"

definition sync_changes :: "user_row option \<Rightarrow> bool option \<Rightarrow> bool" where
  "sync_changes current enabled =
     (case (enabled, current) of
        (Some on, Some u) \<Rightarrow> if on then \<not> gu_nick_enabled u \<or> gu_nick_suspended u else gu_nick_enabled u
      | _ \<Rightarrow> False)"

definition save_main :: "actor \<Rightarrow> user_row option \<Rightarrow> ident option \<Rightarrow> claims_db \<Rightarrow> claims_db" where
  "save_main a current character d =
     (case character of
        None \<Rightarrow> d
      | Some i \<Rightarrow>
          if main_changes current character
          then in_users (update_user (act_guild a) (act_user a)
                 (set_main i (case current of Some u \<Rightarrow> gu_nick_enabled u | None \<Rightarrow> False))) d
          else d)"

definition save_sync :: "actor \<Rightarrow> user_row option \<Rightarrow> bool option \<Rightarrow> claims_db \<Rightarrow> claims_db" where
  "save_sync a current enabled d =
     (case enabled of
        None \<Rightarrow> d
      | Some on \<Rightarrow>
          if sync_changes current enabled then in_users (update_user (act_guild a) (act_user a) (set_sync on)) d else d)"

definition main_owned :: "actor \<Rightarrow> ident option \<Rightarrow> claims_db \<Rightarrow> failure + unit" where
  "main_owned a character d =
     (case given character of
        None \<Rightarrow> Inr ()
      | Some i \<Rightarrow>
          if list_ex (\<lambda>l. lk_character l = i) (active_links (people_links d) (act_guild a) (act_user a))
          then Inr () else Inl (not_own_character i))"

definition preferences_transaction ::
  "claims_world \<Rightarrow> actor \<Rightarrow> guild_row \<Rightarrow> ident option \<Rightarrow> bool option \<Rightarrow> claims_db \<Rightarrow>
   failure + (preferences_result \<times> claims_db)" where
  "preferences_transaction w a guild character enabled d =
     (let current = user_row_of d (act_guild a) (act_user a)
      in and_then (main_owned a character d) (\<lambda>_.
           if enabled = Some True \<and> Option.bind current (\<lambda>u. given (gu_primary u)) = None \<and> given character = None
           then Inl main_first
           else
             (let changed = (main_changes current character \<or> sync_changes current enabled);
                  d = save_sync a current enabled (save_main a current character d);
                  d = (if changed then queue_person w (act_guild a) (act_user a) d else d)
              in Inr (preferences_result_of w a guild changed d, d))))"

definition preferences ::
  "claims_world \<Rightarrow> claims_db \<Rightarrow> actor \<Rightarrow> ident option \<Rightarrow> bool option \<Rightarrow> claims_db \<Rightarrow>
   failure + (preferences_result \<times> claims_db)" where
  "preferences w before a character enabled d =
     and_then (guild_of (cd_guilds before) a) (\<lambda>guild. preferences_transaction w a guild character enabled d)"

section \<open>Other writers\<close>

text \<open>A week after a challenge expired the maintenance pass deletes it.\<close>

definition prune_challenges :: "int \<Rightarrow> claims_db \<Rightarrow> claims_db" where
  "prune_challenges now d =
     d\<lparr>cd_challenges := filter (\<lambda>c. \<not> vc_expires c < now - 604800000) (cd_challenges d)\<rparr>"

text \<open>A nickname someone set by hand turns the sync off.\<close>

definition suspend_nickname :: "ident \<Rightarrow> ident \<Rightarrow> claims_db \<Rightarrow> claims_db" where
  "suspend_nickname guild user =
     in_users (update_user guild user (\<lambda>u. u\<lparr>gu_nick_suspended := True, gu_nick_enabled := False,
       gu_nick_pending := False\<rparr>))"

end
