(* ===== verification/ClaimsHistory.thy ===== *)
theory ClaimsHistory
  imports Claims
begin

text \<open>
  What holds of character links over any history of their writers: one active owner of a character, one
  live challenge for a claim and the limits on them, a main character that is really the member's own,
  links that a fresh biography proves, and rank-conferring links only a server manager gives or takes.
\<close>

section \<open>Tokens are found\<close>

lemma base64url_char_unit: "n < 64 \<Longrightarrow> is_token_unit (base64url_char n)"
  by (auto simp: base64url_char_def is_token_unit_def)

lemma token_prefix_eq: "token_prefix = [116, 97, 114, 117, 98, 111, 116, 95]"
  by (simp add: token_prefix_def units_def)

text \<open>A token of 32 random bytes is what the pattern matches.\<close>

definition token_shape :: "text16 \<Rightarrow> bool" where
  "token_shape t \<longleftrightarrow> length t = 51 \<and> token_here t"

lemma issue_token_shape:
  assumes "length (cw_bytes w) = 32" "\<forall>b \<in> set (cw_bytes w). b < 256"
  shows "token_shape (issue_token w)"
proof -
  have n: "length (base64url (cw_bytes w)) = 43" using assms(1) by (simp add: base64url_def length_sextets)
  have "\<forall>n \<in> set (sextets (cw_bytes w)). n < 64" by (rule sextets_bound [OF assms(2)])
  then have u: "list_all is_token_unit (base64url (cw_bytes w))"
    by (auto simp: base64url_def list_all_iff base64url_char_unit)
  have t: "take 43 (base64url (cw_bytes w)) = base64url (cw_bytes w)" using n by simp
  have p: "length token_prefix = 8" by (simp add: token_prefix_eq)
  show ?thesis using n u t p by (simp add: token_shape_def token_here_def issue_token_def)
qed

lemma prefix_units: "list_all is_token_unit token_prefix"
  by (simp add: token_prefix_eq is_token_unit_def)

text \<open>A match is made of token units only.\<close>

lemma token_here_units:
  assumes "token_here s" shows "51 \<le> length s" "list_all is_token_unit (take 51 s)"
proof -
  have a: "take 8 s = token_prefix" "length (take 43 (drop 8 s)) = 43" "list_all is_token_unit (take 43 (drop 8 s))"
    using assms by (simp_all add: token_here_def)
  from a(2) show "51 \<le> length s" by simp
  have "take 51 s = take 8 s @ take 43 (drop 8 s)" using take_add [of 8 43 s] by simp
  then show "list_all is_token_unit (take 51 s)" using a(1,3) prefix_units by simp
qed

lemma token_here_append:
  assumes "51 \<le> length s" shows "token_here (s @ t) = token_here s"
  using assms by (simp add: token_here_def)

lemma tokens_in_step: "s \<noteq> [] \<Longrightarrow> \<not> token_here s \<Longrightarrow> tokens_in s = tokens_in (tl s)"
  by (subst tokens_in.simps) simp

lemma tokens_in_match: "token_here s \<Longrightarrow> tokens_in s = take 51 s # tokens_in (drop 51 s)"
  by (subst tokens_in.simps) (use token_here_units(1) [of s] in auto)

text \<open>
  A token in a longer text is found when the unit before it is none of a token: no earlier match can
  run into it.
\<close>

lemma tokens_in_found:
  assumes "token_shape t" "pre = [] \<or> \<not> is_token_unit (last pre)"
  shows "t \<in> set (tokens_in (pre @ t @ post))"
  using assms(2)
proof (induction pre rule: measure_induct_rule [of length])
  case (less pre)
  let ?s = "pre @ t @ post"
  have lt: "length t = 51" "token_here t" using assms(1) by (simp_all add: token_shape_def)
  show ?case
  proof (cases "pre = []")
    case True
    have "token_here (t @ post)" using lt token_here_append [of t post] by simp
    then show ?thesis using True lt tokens_in_match [of "t @ post"] by simp
  next
    case False
    then have l: "\<not> is_token_unit (last pre)" using less.prems by simp
    show ?thesis
    proof (cases "token_here ?s")
      case True
      have u: "list_all is_token_unit (take 51 ?s)" by (rule token_here_units(2) [OF True])
      have "51 < length pre \<or> length pre \<le> 51" by auto
      moreover have "\<not> length pre \<le> 51"
      proof
        assume "length pre \<le> 51"
        then have "take 51 ?s = pre @ take (51 - length pre) (t @ post)" by simp
        with u have "list_all is_token_unit pre" by simp
        with False l show False by (simp add: list_all_iff)
      qed
      ultimately have n: "51 < length pre" by simp
      then have "drop 51 ?s = drop 51 pre @ t @ post" by simp
      moreover have "t \<in> set (tokens_in (drop 51 pre @ t @ post))"
        using less.IH [of "drop 51 pre"] n l False by simp
      ultimately show ?thesis using tokens_in_match [OF True] by simp
    next
      case nt: False
      have "tl ?s = tl pre @ t @ post" using False by simp
      moreover have "t \<in> set (tokens_in (tl pre @ t @ post))"
        using less.IH [of "tl pre"] False l by (cases pre) (auto split: if_splits)
      ultimately show ?thesis using tokens_in_step [OF _ nt] False by simp
    qed
  qed
qed

section \<open>What each operation writes\<close>

abbreviation claim_users :: "claims_db \<Rightarrow> user_row list" where
  "claim_users d \<equiv> pl_users (cd_people d)"

lemma in_users_simps [simp]:
  "people_links (in_users f d) = people_links d" "claim_users (in_users f d) = f (claim_users d)"
  "cd_challenges (in_users f d) = cd_challenges d" "cd_guilds (in_users f d) = cd_guilds d"
  "cd_characters (in_users f d) = cd_characters d"
  by (simp_all add: in_users_def in_people_def people_links_def)

lemma in_links_simps [simp]:
  "people_links (in_links f d) = f (people_links d)" "claim_users (in_links f d) = claim_users d"
  "cd_challenges (in_links f d) = cd_challenges d" "cd_guilds (in_links f d) = cd_guilds d"
  by (simp_all add: in_links_def in_people_def people_links_def)

lemma queue_person_simps [simp]:
  "people_links (queue_person w g u d) = people_links d" "claim_users (queue_person w g u d) = claim_users d"
  "cd_challenges (queue_person w g u d) = cd_challenges d" "cd_guilds (queue_person w g u d) = cd_guilds d"
  "cd_characters (queue_person w g u d) = cd_characters d"
  by (simp_all add: queue_person_def people_links_def)

lemma claims_audit_simps [simp]:
  "people_links (claims_audit a s t r d) = people_links d" "claim_users (claims_audit a s t r d) = claim_users d"
  "cd_challenges (claims_audit a s t r d) = cd_challenges d" "cd_guilds (claims_audit a s t r d) = cd_guilds d"
  by (simp_all add: claims_audit_def people_links_def)

lemma storeCharacter_simps [simp]:
  "people_links (storeCharacter t p i d) = people_links d" "claim_users (storeCharacter t p i d) = claim_users d"
  "cd_challenges (storeCharacter t p i d) = cd_challenges d" "cd_guilds (storeCharacter t p i d) = cd_guilds d"
  by (simp_all add: storeCharacter_def people_links_def)

lemma membership_simps [simp]:
  "people_links (drop_membership g c d) = people_links d" "claim_users (drop_membership g c d) = claim_users d"
  "cd_challenges (drop_membership g c d) = cd_challenges d"
  "people_links (accept_membership g c s d) = people_links d" "claim_users (accept_membership g c s d) = claim_users d"
  "cd_challenges (accept_membership g c s d) = cd_challenges d"
  "people_links (record_member g u i s d) = people_links d" "claim_users (record_member g u i s d) = claim_users d"
  "cd_challenges (record_member g u i s d) = cd_challenges d"
  by (simp_all add: drop_membership_def accept_membership_def record_member_def in_people_def people_links_def)

lemma replace_live_simps [simp]:
  "people_links (replace_live w a c d) = people_links d" "claim_users (replace_live w a c d) = claim_users d"
  "cd_guilds (replace_live w a c d) = cd_guilds d"
  by (simp_all add: replace_live_def people_links_def)

lemma stored_character: "id_id i \<in> set (map ch_id (cd_characters (storeCharacter t p i d)))"
proof (cases "list_ex (\<lambda>c. ch_id c = id_id i) (cd_characters d)")
  case True
  then have "id_id i \<in> set (map ch_id (cd_characters d))" by (force simp: list_ex_iff)
  moreover have "map ch_id (cd_characters (storeCharacter t p i d)) = map ch_id (cd_characters d)"
    using True by (simp add: storeCharacter_def)
  ultimately show ?thesis by simp
qed (simp add: storeCharacter_def)

lemma holder_of_cong: "people_links d' = people_links d \<Longrightarrow> holder_of d' g c = holder_of d g c"
  by (simp add: holder_of_def)

definition owns :: "link_row list \<Rightarrow> ident \<Rightarrow> ident \<Rightarrow> ident \<Rightarrow> bool" where
  "owns ls g u c \<longleftrightarrow> (\<exists>l \<in> set ls. lk_guild l = g \<and> lk_user l = u \<and> lk_character l = c \<and> lk_active l)"

lemma holder_of_Some:
  assumes "holder_of d g c = Some l"
  shows "l \<in> set (people_links d)" "lk_guild l = g" "lk_character l = c" "lk_active l"
  using assms by (auto simp: holder_of_def find_Some_iff)

lemma holder_of_None:
  assumes "holder_of d g c = None" "l \<in> set (people_links d)" "lk_active l"
  shows "(lk_guild l, lk_character l) \<noteq> (g, c)"
  using assms by (auto simp: holder_of_def find_None_iff)

text \<open>The users after a new link: untouched, or with the new main character.\<close>

lemma insert_link_writes:
  assumes "insert_link w a owner i c p why src d = (r, d')"
  shows "people_links d' = people_links d @ [new_link w a owner c p why src]"
    and "cd_challenges d' = cd_challenges d" and "tr_id r = cw_row w" and "tr_created r"
    and "claim_users d' = claim_users d \<or>
      (\<exists>first on. claim_users d' = update_user (act_guild a) owner (make_main first on c) (claim_users d))"
proof -
  have r: "r = fst (insert_link w a owner i c p why src d)" and d: "d' = snd (insert_link w a owner i c p why src d)"
    using assms by simp_all
  show "people_links d' = people_links d @ [new_link w a owner c p why src]"
    unfolding d insert_link_def Let_def by (simp split: option.split)
  show "cd_challenges d' = cd_challenges d" unfolding d insert_link_def Let_def by (simp split: option.split)
  show "tr_id r = cw_row w" "tr_created r" unfolding r insert_link_def Let_def by simp_all
  show "claim_users d' = claim_users d \<or>
      (\<exists>first on. claim_users d' = update_user (act_guild a) owner (make_main first on c) (claim_users d))"
    unfolding d insert_link_def Let_def by (simp split: option.split) blast
qed

lemma trust_cases:
  assumes t: "trust w a owner c p why src d = Inr (r, d')"
  obtains (Held) l where "holder_of d (act_guild a) c = Some l" "lk_user l = owner" "tr_id r = lk_id l"
      "\<not> tr_created r" "people_links d' = people_links d" "claim_users d' = claim_users d"
      "cd_challenges d' = cd_challenges d"
  | (New) "holder_of d (act_guild a) c = None" "tr_id r = cw_row w" "tr_created r"
      "people_links d' = people_links d @ [new_link w a owner c p why src]" "cd_challenges d' = cd_challenges d"
      "claim_users d' = claim_users d \<or>
       (\<exists>first on. claim_users d' = update_user (act_guild a) owner (make_main first on c) (claim_users d))"
proof (cases "character_of d c")
  case None
  with t show ?thesis by (simp add: trust_def)
next
  case (Some ch)
  show ?thesis
  proof (cases "holder_of d (act_guild a) c")
    case None
    then have i: "insert_link w a owner (row_ref ch) c p why src d = (r, d')" using t Some by (simp add: trust_def)
    note w = insert_link_writes [OF i]
    show ?thesis by (rule New [OF None w(3,4,1,2,5)])
  next
    case h: (Some l)
    then have u: "lk_user l = owner" using t Some by (simp add: trust_def split: if_splits)
    with t Some h have r: "tr_id r = lk_id l" "\<not> tr_created r" and d: "d' = queue_person w (act_guild a) owner d"
      by (auto simp: trust_def)
    show ?thesis by (rule Held [OF h u r]) (simp_all add: d)
  qed
qed

section \<open>People and their links\<close>

definition user_key :: "user_row \<Rightarrow> ident \<times> ident" where
  "user_key u = (gu_guild u, gu_user u)"

definition owner_key :: "link_row \<Rightarrow> ident \<times> ident" where
  "owner_key l = (lk_guild l, lk_character l)"

definition links_ok :: "link_row list \<Rightarrow> bool" where
  "links_ok ls \<longleftrightarrow> distinct (map lk_id ls) \<and> distinct (map owner_key (filter lk_active ls))"

definition users_ok :: "link_row list \<Rightarrow> user_row list \<Rightarrow> bool" where
  "users_ok ls us \<longleftrightarrow>
     distinct (map user_key us) \<and> (\<forall>l \<in> set ls. (lk_guild l, lk_user l) \<in> set (map user_key us)) \<and>
     (\<forall>r \<in> set us. \<forall>c. gu_primary r = Some c \<longrightarrow> owns ls (gu_guild r) (gu_user r) c)"

lemma ensureUser_keys:
  "map user_key (ensureUser g u j us) =
     map user_key us @ (if (g, u) \<in> set (map user_key us) then [] else [(g, u)])"
proof (cases "list_ex (\<lambda>r. gu_guild r = g \<and> gu_user r = u) us")
  case True
  then have m: "(g, u) \<in> set (map user_key us)" by (auto simp: list_ex_iff user_key_def)
  have "map user_key (ensureUser g u j us) = map user_key us"
    using True by (auto simp: ensureUser_def user_key_def split: option.split)
  with m show ?thesis by simp
next
  case False
  then have "(g, u) \<notin> set (map user_key us)" by (auto simp: list_ex_iff user_key_def)
  with False show ?thesis by (simp add: ensureUser_def user_key_def)
qed

lemma ensureUser_mem:
  assumes "r \<in> set (ensureUser g u j us)"
  obtains "gu_primary r = None" | s where "s \<in> set us" "user_key r = user_key s" "gu_primary r = gu_primary s"
  using assms by (auto simp: ensureUser_def user_key_def split: if_splits option.splits)

lemma users_ok_ensure: "users_ok ls us \<Longrightarrow> users_ok ls (ensureUser g u j us)"
proof -
  assume k: "users_ok ls us"
  have "distinct (map user_key (ensureUser g u j us))" using k by (auto simp: users_ok_def ensureUser_keys)
  moreover have "\<forall>l \<in> set ls. (lk_guild l, lk_user l) \<in> set (map user_key (ensureUser g u j us))"
    using k unfolding users_ok_def ensureUser_keys by auto
  moreover have "\<forall>r \<in> set (ensureUser g u j us). \<forall>c. gu_primary r = Some c \<longrightarrow> owns ls (gu_guild r) (gu_user r) c"
  proof (intro ballI allI impI)
    fix r c assume r: "r \<in> set (ensureUser g u j us)" and c: "gu_primary r = Some c"
    from r show "owns ls (gu_guild r) (gu_user r) c"
    proof (cases rule: ensureUser_mem)
      case 1 with c show ?thesis by simp
    next
      case (2 s) with k c show ?thesis by (simp add: users_ok_def user_key_def)
    qed
  qed
  ultimately show ?thesis by (simp add: users_ok_def)
qed

lemma users_ok_map:
  assumes k: "users_ok ls us" and f: "\<And>r. r \<in> set us \<Longrightarrow> user_key (f r) = user_key r"
    and m: "\<And>r c. r \<in> set us \<Longrightarrow> gu_primary (f r) = Some c \<Longrightarrow>
      gu_primary r = Some c \<or> owns ls (gu_guild r) (gu_user r) c"
  shows "users_ok ls (map f us)"
proof -
  have e: "map user_key (map f us) = map user_key us" using f by simp
  have "\<forall>r \<in> set (map f us). \<forall>c. gu_primary r = Some c \<longrightarrow> owns ls (gu_guild r) (gu_user r) c"
  proof (intro ballI allI impI)
    fix r c assume "r \<in> set (map f us)" and c: "gu_primary r = Some c"
    then obtain s where s: "s \<in> set us" "r = f s" by auto
    have "owns ls (gu_guild s) (gu_user s) c" using m [OF s(1)] c s k by (auto simp: users_ok_def)
    moreover have "gu_guild r = gu_guild s" "gu_user r = gu_user s" using f [OF s(1)] s(2) by (simp_all add: user_key_def)
    ultimately show "owns ls (gu_guild r) (gu_user r) c" by simp
  qed
  then show ?thesis using k unfolding users_ok_def e by blast
qed

lemma users_ok_update:
  assumes "users_ok ls us" "\<And>r. user_key (f r) = user_key r"
    "\<And>r c. gu_primary (f r) = Some c \<Longrightarrow> gu_primary r = Some c \<or> owns ls g u c"
  shows "users_ok ls (update_user g u f us)"
  unfolding update_user_def using assms by (intro users_ok_map) (auto split: if_splits)

lemma users_ok_link:
  assumes "users_ok ls us" "(lk_guild l, lk_user l) \<in> set (map user_key us)"
  shows "users_ok (ls @ [l]) us"
  using assms by (auto simp: users_ok_def owns_def)

lemma links_ok_link:
  assumes "links_ok ls" "lk_id l \<notin> set (map lk_id ls)"
    "\<And>k. k \<in> set ls \<Longrightarrow> lk_active k \<Longrightarrow> owner_key k \<noteq> owner_key l"
  shows "links_ok (ls @ [l])"
proof -
  have "owner_key l \<notin> set (map owner_key (filter lk_active ls))" using assms(3) by force
  then show ?thesis using assms(1,2) by (simp add: links_ok_def)
qed

text \<open>An ended link: nobody else's link changes, and the owner's main character goes with it.\<close>

definition end_row :: "int \<Rightarrow> ident \<Rightarrow> link_row \<Rightarrow> link_row" where
  "end_row now i l = (if lk_id l = i then l\<lparr>lk_active := False, lk_ended := Some now\<rparr> else l)"

definition clear_main :: "ident \<Rightarrow> ident \<Rightarrow> ident \<Rightarrow> user_row \<Rightarrow> user_row" where
  "clear_main g u c r =
     (if gu_guild r = g \<and> gu_user r = u \<and> gu_primary r = Some c
      then r\<lparr>gu_primary := None, gu_nick_restore := True\<rparr> else r)"

lemma links_ok_end: "links_ok ls \<Longrightarrow> links_ok (map (end_row now i) ls)"
proof -
  assume k: "links_ok ls"
  have e: "map lk_id (map (end_row now i) ls) = map lk_id ls" by (simp add: end_row_def)
  have "distinct (map owner_key (filter lk_active (map (end_row now i) ls)))"
    using k by (intro distinct_filter_map) (auto simp: end_row_def owner_key_def links_ok_def split: if_splits)
  with k show ?thesis unfolding links_ok_def e by simp
qed

lemma endLink_writes:
  assumes "endLink w g u c i d = (res, d')"
  shows "people_links d' = map (end_row (cw_now w) i) (people_links d)" "cd_challenges d' = cd_challenges d"
    and "\<exists>f. claim_users d' = map (clear_main g u c) (map f (claim_users d)) \<and>
      (\<forall>r. user_key (f r) = user_key r \<and> gu_primary (f r) = gu_primary r)"
proof -
  have d: "d' = snd (endLink w g u c i d)" using assms by simp
  show "people_links d' = map (end_row (cw_now w) i) (people_links d)"
    unfolding d endLink_def Let_def by (simp add: end_row_def)
  show "cd_challenges d' = cd_challenges d" unfolding d endLink_def Let_def by simp
  let ?g = "\<lambda>r. if gu_guild r = g \<and> gu_user r = u then r\<lparr>gu_local_loss := True\<rparr> else r"
  have "claim_users d' = map (clear_main g u c) (claim_users d) \<or>
      claim_users d' = map (clear_main g u c) (map ?g (claim_users d))"
    unfolding d endLink_def Let_def clear_main_def by (simp add: update_user_def)
  then show "\<exists>f. claim_users d' = map (clear_main g u c) (map f (claim_users d)) \<and>
      (\<forall>r. user_key (f r) = user_key r \<and> gu_primary (f r) = gu_primary r)"
  proof
    assume "claim_users d' = map (clear_main g u c) (claim_users d)"
    then show ?thesis by (intro exI [of _ "\<lambda>r. r"]) simp
  next
    assume "claim_users d' = map (clear_main g u c) (map ?g (claim_users d))"
    then show ?thesis by (intro exI [of _ ?g]) (simp add: user_key_def)
  qed
qed

lemma users_ok_end:
  assumes k: "users_ok ls us" and d: "distinct (map lk_id ls)"
    and l: "l \<in> set ls" "lk_guild l = g" "lk_user l = u" "lk_character l = c"
    and f: "\<And>r. user_key (f r) = user_key r \<and> gu_primary (f r) = gu_primary r"
  shows "users_ok (map (end_row now (lk_id l)) ls) (map (clear_main g u c) (map f us))"
proof -
  let ?ls = "map (end_row now (lk_id l)) ls" and ?us = "map (clear_main g u c) (map f us)"
  have keys: "map user_key ?us = map user_key us"
    using f by (auto simp: clear_main_def user_key_def)
  have fk: "\<forall>k \<in> set ?ls. (lk_guild k, lk_user k) \<in> set (map user_key us)"
    using k by (auto simp: users_ok_def end_row_def)
  have "\<forall>r \<in> set ?us. \<forall>e. gu_primary r = Some e \<longrightarrow> owns ?ls (gu_guild r) (gu_user r) e"
  proof (intro ballI allI impI)
    fix r e assume "r \<in> set ?us" and e: "gu_primary r = Some e"
    then obtain s where s: "s \<in> set us" "r = clear_main g u c (f s)" by auto
    have fs: "gu_guild (f s) = gu_guild s" "gu_user (f s) = gu_user s" "gu_primary (f s) = gu_primary s"
      using f [of s] by (simp_all add: user_key_def)
    from e s fs have r: "gu_guild r = gu_guild s" "gu_user r = gu_user s" "gu_primary s = Some e"
      "\<not> (gu_guild s = g \<and> gu_user s = u \<and> e = c)" by (auto simp: clear_main_def split: if_splits)
    have "owns ls (gu_guild s) (gu_user s) e" using k s(1) r(3) unfolding users_ok_def by blast
    then obtain x where x: "x \<in> set ls" "lk_guild x = gu_guild s" "lk_user x = gu_user s"
      "lk_character x = e" "lk_active x" by (auto simp: owns_def)
    have "lk_id x \<noteq> lk_id l"
    proof
      assume "lk_id x = lk_id l"
      then have "x = l" using d x(1) l(1) by (metis inj_onD distinct_map)
      with x l r(4) show False by simp
    qed
    then have "x \<in> set ?ls" using x(1) by (force simp: end_row_def)
    with x r show "owns ?ls (gu_guild r) (gu_user r) e" by (auto simp: owns_def)
  qed
  with fk k keys show ?thesis unfolding users_ok_def keys by blast
qed

section \<open>Challenges\<close>

definition vc_key :: "challenge \<Rightarrow> ident \<times> ident \<times> ident" where
  "vc_key c = (vc_guild c, vc_user c, vc_character c)"

definition own_count :: "int \<Rightarrow> challenge list \<Rightarrow> ident \<Rightarrow> ident \<Rightarrow> nat" where
  "own_count now cs g u = length (filter (vc_own g u) (unfinished now cs))"

definition challenges_ok :: "int \<Rightarrow> challenge list \<Rightarrow> bool" where
  "challenges_ok now cs \<longleftrightarrow>
     distinct (map vc_id cs) \<and> distinct (map vc_key (filter vc_live cs)) \<and>
     (\<forall>g u. own_count now cs g u \<le> 5) \<and> length (unfinished now cs) \<le> 1000"

text \<open>Ending challenges, or letting time pass, keeps all of it.\<close>

definition ends :: "(challenge \<Rightarrow> challenge) \<Rightarrow> bool" where
  "ends f \<longleftrightarrow> (\<forall>c. vc_id (f c) = vc_id c \<and> vc_key (f c) = vc_key c \<and> vc_expires (f c) = vc_expires c \<and>
     (vc_live (f c) \<longrightarrow> vc_live c))"

lemma length_filter_map_le:
  "(\<And>x. p (f x) \<Longrightarrow> q x) \<Longrightarrow> length (filter p (map f xs)) \<le> length (filter q xs)"
  by (induction xs) (auto intro: le_SucI)

lemma unfinished_later:
  assumes "ends f" "T \<le> T'"
  shows "length (unfinished T' (map f cs)) \<le> length (unfinished T cs)"
    and "own_count T' (map f cs) g u \<le> own_count T cs g u"
proof -
  show "length (unfinished T' (map f cs)) \<le> length (unfinished T cs)"
    unfolding unfinished_def using assms by (intro length_filter_map_le) (auto simp: ends_def)
  have "length (filter (\<lambda>c. (vc_expires c > T' \<and> vc_live c) \<and> vc_own g u c) (map f cs))
      \<le> length (filter (\<lambda>c. (vc_expires c > T \<and> vc_live c) \<and> vc_own g u c) cs)"
    using assms by (intro length_filter_map_le) (auto simp: ends_def vc_key_def vc_own_def)
  then show "own_count T' (map f cs) g u \<le> own_count T cs g u"
    unfolding own_count_def unfinished_def by (simp add: conj_commute)
qed

lemma challenges_ok_ends:
  assumes k: "challenges_ok T cs" and f: "ends f" and t: "T \<le> T'"
  shows "challenges_ok T' (map f cs)"
proof -
  have "map vc_id (map f cs) = map vc_id cs" using f by (simp add: ends_def)
  moreover have "distinct (map vc_key (filter vc_live (map f cs)))"
    using k f by (intro distinct_filter_map) (auto simp: ends_def challenges_ok_def)
  ultimately show ?thesis
    using k unfinished_later [OF f t, of cs] le_trans unfolding challenges_ok_def by (metis (no_types, lifting))
qed

lemma ends_id [simp]: "ends (\<lambda>c. c)"
  by (simp add: ends_def)

lemma challenges_ok_later: "challenges_ok T cs \<Longrightarrow> T \<le> T' \<Longrightarrow> challenges_ok T' cs"
  using challenges_ok_ends [of T cs "\<lambda>c. c" T'] by simp

lemma challenges_ok_filter: "challenges_ok T cs \<Longrightarrow> challenges_ok T (filter p cs)"
proof -
  assume k: "challenges_ok T cs"
  have a: "distinct (map vc_id (filter p cs))" using k by (simp add: challenges_ok_def distinct_map_filter)
  have "filter vc_live (filter p cs) = filter p (filter vc_live cs)" by (simp add: conj_commute)
  then have b: "distinct (map vc_key (filter vc_live (filter p cs)))"
    using k by (simp add: challenges_ok_def distinct_map_filter del: filter_filter)
  have u: "unfinished T (filter p cs) = filter p (unfinished T cs)"
    by (simp add: unfinished_def conj_commute)
  have "length (unfinished T (filter p cs)) \<le> 1000"
    unfolding u using k length_filter_le [of p "unfinished T cs"] by (meson challenges_ok_def le_trans)
  moreover have "own_count T (filter p cs) g v \<le> 5" for g v
  proof -
    have "filter (vc_own g v) (unfinished T (filter p cs)) = filter p (filter (vc_own g v) (unfinished T cs))"
      unfolding u by (simp add: conj_commute)
    then have "own_count T (filter p cs) g v \<le> own_count T cs g v"
      unfolding own_count_def using length_filter_le by metis
    also have "\<dots> \<le> 5" using k by (simp add: challenges_ok_def)
    finally show ?thesis .
  qed
  ultimately show ?thesis using a b by (simp add: challenges_ok_def)
qed

section \<open>Histories\<close>

definition link_ids :: "claims_db \<Rightarrow> ident list" where
  "link_ids d = map lk_id (people_links d)"

definition challenge_ids :: "claims_db \<Rightarrow> ident list" where
  "challenge_ids d = map vc_id (cd_challenges d)"

text \<open>
  A step from one moment to a later one. A new row's ID is fresh (\<open>gen_random_uuid\<close>), and the empty text is
  no character (\<open>external_id\<close> refuses it). The last rules are the writers elsewhere: a person's row
  (\<open>ensureUser\<close>), and anything that leaves links, challenges and main characters alone.
\<close>

inductive claims_step :: "int \<times> claims_db \<Rightarrow> int \<times> claims_db \<Rightarrow> bool" where
  Claim: "claim_character w before a identity read d = Inr (r, d') \<Longrightarrow> T \<le> cw_now w \<Longrightarrow>
    cw_row w \<notin> set (challenge_ids d) \<Longrightarrow> claims_step (T, d) (cw_now w, d')"
| Verify: "verify w before a character d = Inr (v, d') \<Longrightarrow> T \<le> cw_now w \<Longrightarrow>
    cw_row w \<notin> set (link_ids d) \<Longrightarrow> claims_step (T, d) (cw_now w, d')"
| Assign: "assign w before a owner identity reason d = Inr (s, d') \<Longrightarrow> T \<le> cw_now w \<Longrightarrow>
    cw_row w \<notin> set (link_ids d) \<Longrightarrow> claims_step (T, d) (cw_now w, d')"
| Unclaim: "unclaim w before a owner character why d = Inr (u, d') \<Longrightarrow> T \<le> cw_now w \<Longrightarrow>
    claims_step (T, d) (cw_now w, d')"
| Preferences: "preferences w before a main enabled d = Inr (p, d') \<Longrightarrow> T \<le> cw_now w \<Longrightarrow> main \<noteq> Some [] \<Longrightarrow>
    claims_step (T, d) (cw_now w, d')"
| Prune: "T \<le> T' \<Longrightarrow> claims_step (T, d) (T', prune_challenges T' d)"
| Suspend: "T \<le> T' \<Longrightarrow> claims_step (T, d) (T', suspend_nickname g u d)"
| Person: "T \<le> T' \<Longrightarrow> claims_step (T, d) (T', in_users (ensureUser g u joined) d)"
| Elsewhere: "T \<le> T' \<Longrightarrow> people_links d' = people_links d \<Longrightarrow> cd_challenges d' = cd_challenges d \<Longrightarrow>
    claim_users d' = map f (claim_users d) \<Longrightarrow>
    \<forall>r. user_key (f r) = user_key r \<and> gu_primary (f r) = gu_primary r \<Longrightarrow> claims_step (T, d) (T', d')"

definition claims_ok :: "int \<times> claims_db \<Rightarrow> bool" where
  "claims_ok s \<longleftrightarrow>
     (case s of (T, d) \<Rightarrow>
        links_ok (people_links d) \<and> users_ok (people_links d) (claim_users d) \<and>
        challenges_ok T (cd_challenges d) \<and>
        (\<forall>c \<in> set (cd_challenges d). (vc_guild c, vc_user c) \<in> set (map user_key (claim_users d))))"

lemma claims_ok_iff:
  "claims_ok (T, d) \<longleftrightarrow>
     links_ok (people_links d) \<and> users_ok (people_links d) (claim_users d) \<and> challenges_ok T (cd_challenges d) \<and>
     (\<forall>c \<in> set (cd_challenges d). (vc_guild c, vc_user c) \<in> set (map user_key (claim_users d)))"
  by (simp add: claims_ok_def)

text \<open>A step that keeps links and challenges, and every person's key and main character.\<close>

lemma claims_ok_users:
  assumes k: "claims_ok (T, d)" and t: "T \<le> T'"
    and e: "people_links d' = people_links d" "cd_challenges d' = cd_challenges d"
    and u: "users_ok (people_links d) (claim_users d')"
      "set (map user_key (claim_users d)) \<subseteq> set (map user_key (claim_users d'))"
  shows "claims_ok (T', d')"
  using k u challenges_ok_later [OF _ t] unfolding claims_ok_iff e by blast

lemma claims_ok_ensure: "claims_ok (T, d) \<Longrightarrow> T \<le> T' \<Longrightarrow> claims_ok (T', in_users (ensureUser g u j) d)"
proof -
  assume k: "claims_ok (T, d)" and t: "T \<le> T'"
  have s: "set (map user_key (claim_users d)) \<subseteq> set (map user_key (ensureUser g u j (claim_users d)))"
    unfolding ensureUser_keys by simp
  have "users_ok (people_links d) (ensureUser g u j (claim_users d))"
    using k users_ok_ensure unfolding claims_ok_iff by blast
  with s show ?thesis by (intro claims_ok_users [OF k t]) simp_all
qed

lemma claims_ok_cong:
  assumes "claims_ok (T, d)" "people_links d' = people_links d" "cd_challenges d' = cd_challenges d"
    "claim_users d' = claim_users d"
  shows "claims_ok (T, d')"
  using assms unfolding claims_ok_iff by simp

lemma update_user_keys: "(\<And>r. user_key (f r) = user_key r) \<Longrightarrow> map user_key (update_user g u f us) = map user_key us"
  by (simp add: update_user_def)

text \<open>A new link, its owner known, keeps everything.\<close>

lemma claims_ok_trust:
  assumes k: "claims_ok (T, d)" and t: "trust w a owner c p why src d = Inr (r, d')"
    and id: "cw_row w \<notin> set (link_ids d)"
    and fk: "(act_guild a, owner) \<in> set (map user_key (claim_users d))"
  shows "claims_ok (T, d')"
  using t
proof (cases rule: trust_cases)
  case (Held l)
  then show ?thesis by (intro claims_ok_cong [OF k])
next
  case New
  let ?l = "new_link w a owner c p why src"
  have l: "lk_id ?l = cw_row w" "owner_key ?l = (act_guild a, c)" "lk_guild ?l = act_guild a" "lk_user ?l = owner"
    "lk_active ?l" "lk_character ?l = c"
    by (simp_all add: new_link_def owner_key_def)
  have lo: "links_ok (people_links d')" unfolding New(4)
  proof (rule links_ok_link)
    show "links_ok (people_links d)" using k by (simp add: claims_ok_iff)
    show "lk_id ?l \<notin> set (map lk_id (people_links d))" using id l by (simp add: link_ids_def)
    show "\<And>x. x \<in> set (people_links d) \<Longrightarrow> lk_active x \<Longrightarrow> owner_key x \<noteq> owner_key ?l"
      unfolding l(2) unfolding owner_key_def by (rule holder_of_None [OF New(1)])
  qed
  have u: "users_ok (people_links d') (claim_users d)" unfolding New(4)
    using k fk l by (intro users_ok_link) (simp_all add: claims_ok_iff)
  have o: "owns (people_links d') (act_guild a) owner c" unfolding New(4) owns_def using l by force
  have "users_ok (people_links d') (claim_users d') \<and>
      map user_key (claim_users d') = map user_key (claim_users d)"
    using New(6)
  proof
    assume "claim_users d' = claim_users d" with u show ?thesis by simp
  next
    assume "\<exists>first on. claim_users d' = update_user (act_guild a) owner (make_main first on c) (claim_users d)"
    then obtain first on where e: "claim_users d' = update_user (act_guild a) owner (make_main first on c) (claim_users d)"
      by blast
    have key: "user_key (make_main first on c x) = user_key x" for x by (simp add: make_main_def user_key_def)
    have "users_ok (people_links d') (claim_users d')" unfolding e
      by (rule users_ok_update [OF u key]) (use o in \<open>auto simp: make_main_def split: if_splits\<close>)
    then show ?thesis unfolding e using update_user_keys [OF key] by blast
  qed
  then show ?thesis using k lo New(5) by (simp add: claims_ok_iff)
qed

text \<open>A claim: the person's row, the replaced challenge, and the new one within the limits.\<close>

definition replaces :: "claims_world \<Rightarrow> actor \<Rightarrow> ident \<Rightarrow> challenge \<Rightarrow> challenge" where
  "replaces w a i c =
     (if vc_of (act_guild a) (act_user a) i c \<and> vc_live c then c\<lparr>vc_replaced := Some (cw_now w)\<rparr> else c)"

lemma replaces_ends: "ends (replaces w a i)"
  by (simp add: ends_def replaces_def vc_key_def vc_live_def)

lemma claim_limits_None:
  assumes "claim_limits w a d = None"
  shows "own_count (cw_now w) (cd_challenges d) (act_guild a) (act_user a) < 5"
    and "length (unfinished (cw_now w) (cd_challenges d)) < 1000"
  using assms by (simp_all add: claim_limits_def Let_def own_count_def split: if_splits)

lemma claim_new_writes:
  assumes "claim_new w a c d = Inr (r, d')"
  shows "r = ClaimPending c (issue_token w) (cw_row w) (cw_now w + 1000 * cw_lifetime w)"
    and "cd_challenges d' = map (replaces w a (fch_id c)) (cd_challenges d) @ [new_challenge w a (fch_id c)]"
    and "people_links d' = people_links d" "claim_users d' = claim_users d"
    and "cd_guilds d' = cd_guilds d" "cd_characters d' = cd_characters d"
    and "own_count (cw_now w) (map (replaces w a (fch_id c)) (cd_challenges d)) (act_guild a) (act_user a) < 5"
    and "length (unfinished (cw_now w) (map (replaces w a (fch_id c)) (cd_challenges d))) < 1000"
proof -
  let ?d = "replace_live w a (fch_id c) d" and ?n = "new_challenge w a (fch_id c)"
  have cs: "cd_challenges ?d = map (replaces w a (fch_id c)) (cd_challenges d)"
    by (simp add: replace_live_def replaces_def)
  have n: "claim_limits w a ?d = None" using assms by (simp add: claim_new_def Let_def split: option.splits)
  have r: "r = ClaimPending c (issue_token w) (vc_id ?n) (vc_expires ?n)"
    and d: "d' = ?d\<lparr>cd_challenges := cd_challenges ?d @ [?n]\<rparr>"
    using assms n by (simp_all add: claim_new_def Let_def)
  show "r = ClaimPending c (issue_token w) (cw_row w) (cw_now w + 1000 * cw_lifetime w)"
    unfolding r by (simp add: new_challenge_def)
  show "cd_challenges d' = map (replaces w a (fch_id c)) (cd_challenges d) @ [?n]" unfolding d by (simp add: cs)
  show "people_links d' = people_links d" "claim_users d' = claim_users d" unfolding d
    by (simp_all add: people_links_def replace_live_def)
  show "cd_guilds d' = cd_guilds d" "cd_characters d' = cd_characters d" unfolding d by (simp_all add: replace_live_def)
  from claim_limits_None [OF n] show
    "own_count (cw_now w) (map (replaces w a (fch_id c)) (cd_challenges d)) (act_guild a) (act_user a) < 5"
    "length (unfinished (cw_now w) (map (replaces w a (fch_id c)) (cd_challenges d))) < 1000"
    unfolding cs .
qed

lemma claim_cases:
  assumes "claim_character w before a identity read d = Inr (r, d')"
  obtains m :: discord_member and guild e where "guild_of (cd_guilds before) a = Inr guild"
    "requirePermission a (act_guild a) P_characters_claim None = Inr ()"
    "people_links e = people_links d" "cd_challenges e = cd_challenges d" "cd_guilds e = cd_guilds d"
    "claim_users e = ensureUser (act_guild a) (act_user a) (Some (dm_joined m)) (claim_users d)"
    "e = (if read then storeCharacter (cw_now w) True identity
            (in_users (ensureUser (act_guild a) (act_user a) (Some (dm_joined m))) d)
          else in_users (ensureUser (act_guild a) (act_user a) (Some (dm_joined m))) d)"
    "(case holder_of d (act_guild a) (id_id identity) of
        Some l \<Rightarrow> lk_user l = act_user a \<and> d' = queue_person w (act_guild a) (act_user a) e \<and>
          r = ClaimLinked (effectsMode (cw_enable w) guild) (character_ref identity)
      | None \<Rightarrow> claim_new w a (character_ref identity) e = Inr (r, d'))"
proof -
  obtain guild where g: "guild_of (cd_guilds before) a = Inr guild"
      "requirePermission a (act_guild a) P_characters_claim None = Inr ()"
    and c: "(case cw_member w (act_user a) of None \<Rightarrow> Inl notCurrentMember
       | Some m \<Rightarrow> if dm_bot m then Inl notCurrentMember else claim_transaction w a guild m identity read d) = Inr (r, d')"
    using assms by (auto simp: claim_character_def and_then_Inr_iff)
  then obtain m where t: "claim_transaction w a guild m identity read d = Inr (r, d')"
    by (auto split: option.splits if_splits)
  let ?u = "in_users (ensureUser (act_guild a) (act_user a) (Some (dm_joined m))) d"
  let ?e = "if read then storeCharacter (cw_now w) True identity ?u else ?u"
  have h: "holder_of ?e (act_guild a) (id_id identity) = holder_of d (act_guild a) (id_id identity)"
    by (rule holder_of_cong) simp
  show ?thesis
    by (rule that [of guild ?e m])
      (use t h g in \<open>auto simp: claim_transaction_def Let_def split: option.splits if_splits\<close>)
qed

lemma challenges_ok_new:
  assumes k: "challenges_ok T cs" and i: "vc_id c \<notin> set (map vc_id cs)"
    and key: "\<And>x. x \<in> set cs \<Longrightarrow> vc_live x \<Longrightarrow> vc_key x \<noteq> vc_key c"
    and n: "own_count T cs (vc_guild c) (vc_user c) < 5" "length (unfinished T cs) < 1000"
  shows "challenges_ok T (cs @ [c])"
proof -
  have u: "unfinished T (cs @ [c]) = unfinished T cs @ (if vc_expires c > T \<and> vc_live c then [c] else [])"
    by (simp add: unfinished_def)
  have "own_count T (cs @ [c]) g v \<le> 5" for g v
  proof (cases "vc_own g v c")
    case True
    then have "g = vc_guild c" "v = vc_user c" by (simp_all add: vc_own_def)
    then show ?thesis using n(1) by (simp add: own_count_def u)
  next
    case False
    then have "own_count T (cs @ [c]) g v = own_count T cs g v" by (simp add: own_count_def u)
    then show ?thesis using k by (simp add: challenges_ok_def)
  qed
  moreover have "length (unfinished T (cs @ [c])) \<le> 1000" using n(2) by (simp add: u)
  moreover have "vc_live c \<Longrightarrow> vc_key c \<notin> set (map vc_key (filter vc_live cs))" using key by force
  ultimately show ?thesis using k i by (simp add: challenges_ok_def)
qed

lemma claims_ok_claim:
  assumes k: "claims_ok (T, d)" and c: "claim_character w before a identity read d = Inr (r, d')" and t: "T \<le> cw_now w"
    and i: "cw_row w \<notin> set (challenge_ids d)"
  shows "claims_ok (cw_now w, d')"
  using c
proof (cases rule: claim_cases)
  case (1 m guild e)
  let ?g = "act_guild a" and ?u = "act_user a"
  let ?e = "in_users (ensureUser ?g ?u (Some (dm_joined m))) d"
  have "claims_ok (cw_now w, ?e)" by (rule claims_ok_ensure [OF k t])
  then have ke: "claims_ok (cw_now w, e)" by (rule claims_ok_cong) (simp_all add: 1(3,4,6))
  show ?thesis
  proof (cases "holder_of d ?g (id_id identity)")
    case (Some l)
    then have "d' = queue_person w ?g ?u e" using 1(8) by simp
    then show ?thesis by (intro claims_ok_cong [OF ke]) simp_all
  next
    case None
    then have n: "claim_new w a (character_ref identity) e = Inr (r, d')" using 1(8) by simp
    note w = claim_new_writes [OF n]
    let ?i = "fch_id (character_ref identity)"
    let ?f = "replaces w a ?i" and ?c = "new_challenge w a ?i"
    have o: "challenges_ok (cw_now w) (map ?f (cd_challenges e))"
      using ke by (intro challenges_ok_ends [OF _ replaces_ends order_refl]) (simp add: claims_ok_iff)
    have ids: "map vc_id (map ?f (cd_challenges e)) = challenge_ids d"
      using replaces_ends by (simp add: ends_def challenge_ids_def 1(4))
    have nc: "vc_id ?c = cw_row w" "vc_key ?c = (?g, ?u, ?i)" "vc_guild ?c = ?g" "vc_user ?c = ?u"
      by (simp_all add: new_challenge_def vc_key_def)
    have "challenges_ok (cw_now w) (map ?f (cd_challenges e) @ [?c])"
    proof (rule challenges_ok_new [OF o])
      show "vc_id ?c \<notin> set (map vc_id (map ?f (cd_challenges e)))" unfolding ids nc by (rule i)
      show "\<And>x. x \<in> set (map ?f (cd_challenges e)) \<Longrightarrow> vc_live x \<Longrightarrow> vc_key x \<noteq> vc_key ?c"
        unfolding nc by (auto simp: replaces_def vc_of_def vc_key_def vc_live_def split: if_splits)
      show "own_count (cw_now w) (map ?f (cd_challenges e)) (vc_guild ?c) (vc_user ?c) < 5" unfolding nc by (rule w(7))
      show "length (unfinished (cw_now w) (map ?f (cd_challenges e))) < 1000" by (rule w(8))
    qed
    moreover have "(?g, ?u) \<in> set (map user_key (claim_users e))" unfolding 1(6) ensureUser_keys by simp
    moreover have "vc_guild (?f x) = vc_guild x" "vc_user (?f x) = vc_user x" for x by (simp_all add: replaces_def)
    ultimately show ?thesis using ke by (simp add: claims_ok_iff w nc)
  qed
qed

text \<open>A completed verification: its challenge, the proof, the link, and the challenge spent.\<close>

definition spend :: "claims_world \<Rightarrow> challenge \<Rightarrow> challenge \<Rightarrow> challenge" where
  "spend w c x = (if consumable w c x then x\<lparr>vc_consumed := Some (cw_clock w)\<rparr> else x)"

lemma spend_ends: "ends (spend w c)"
  by (simp add: ends_def spend_def vc_key_def vc_live_def)

lemma newest_challenge_Some:
  assumes "newest_challenge d g u i = Some c"
  shows "c \<in> set (cd_challenges d)" "vc_key c = (g, u, i)" "vc_replaced c = None"
  using assms by (auto simp: newest_challenge_def Let_def find_Some_iff vc_of_def vc_key_def dest!: nth_mem)

lemma verify_cases:
  assumes "verify w before a i d = Inr (v, d')"
  obtains (Again) profile where "v = AlreadyVerified (character_ref profile)" "d' = d"
  | (Done) guild profile c link e where "guild_of (cd_guilds before) a = Inr guild" "cw_profile w i = Inr profile"
      "newest_challenge d (act_guild a) (act_user a) i = Some c" "vc_expires c > cw_check w" "vc_consumed c = None"
      "proven w a i profile c"
      "trust w a (act_user a) i ''profile_token'' None (SourceObject None)
         (storeCharacter (cw_now w) True profile d) = Inr (link, e)"
      "list_ex (consumable w c) (cd_challenges e)"
      "cd_challenges d' = map (spend w c) (cd_challenges e)" "people_links d' = people_links e"
      "claim_users d' = claim_users e"
      "\<exists>mode ev. v = Verified link mode ev"
proof -
  from assms obtain guild profile where g: "guild_of (cd_guilds before) a = Inr guild" "cw_profile w i = Inr profile"
    and t: "verify_transaction w a guild i profile d = Inr (v, d')"
    by (auto simp: verify_def and_then_Inr_iff split: sum.splits)
  from t obtain c where c: "newest_challenge d (act_guild a) (act_user a) i = Some c" "vc_expires c > cw_check w"
    by (auto simp: verify_transaction_def split: option.splits if_splits)
  show ?thesis
  proof (cases "vc_consumed c")
    case Some
    with t c have "v = AlreadyVerified (character_ref profile)" "d' = d" by (simp_all add: verify_transaction_def)
    then show ?thesis by (rule Again)
  next
    case None
    with t c have p: "proven w a i profile c" by (simp add: verify_transaction_def split: if_splits)
    let ?t = "trust w a (act_user a) i ''profile_token'' None (SourceObject None) (storeCharacter (cw_now w) True profile d)"
    from t c None p obtain link e where l: "?t = Inr (link, e)" "list_ex (consumable w c) (cd_challenges e)"
      by (auto simp: verify_transaction_def and_then_Inr_iff split: if_splits)
    let ?e = "e\<lparr>cd_challenges := map (\<lambda>x. if consumable w c x then x\<lparr>vc_consumed := Some (cw_clock w)\<rparr> else x)
        (cd_challenges e)\<rparr>"
    have d: "d' = claims_audit a ''verification.complete'' (tr_id link) None ?e"
      and v: "\<exists>mode ev. v = Verified link mode ev"
      using t c None p l by (auto simp: verify_transaction_def Let_def)
    show ?thesis
      by (rule Done [OF g c None p l])
        (simp_all add: d v spend_def [abs_def], simp add: people_links_def)
  qed
qed

lemma claims_ok_verify:
  assumes k: "claims_ok (T, d)" and v: "verify w before a i d = Inr (v, d')" and t: "T \<le> cw_now w"
    and id: "cw_row w \<notin> set (link_ids d)"
  shows "claims_ok (cw_now w, d')"
  using v
proof (cases rule: verify_cases)
  case (Again profile)
  then show ?thesis using k challenges_ok_later [OF _ t] by (simp add: claims_ok_iff)
next
  case (Done guild profile c link e)
  let ?d = "storeCharacter (cw_now w) True profile d"
  have kd: "claims_ok (T, ?d)" by (rule claims_ok_cong [OF k]) simp_all
  have "vc_key c = (act_guild a, act_user a, i)" "c \<in> set (cd_challenges d)"
    using newest_challenge_Some [OF Done(3)] by simp_all
  then have fk: "(act_guild a, act_user a) \<in> set (map user_key (claim_users ?d))"
    using k by (auto simp: claims_ok_iff vc_key_def)
  have "claims_ok (T, e)" by (rule claims_ok_trust [OF kd Done(7) _ fk]) (use id in \<open>simp add: link_ids_def\<close>)
  moreover have "challenges_ok (cw_now w) (map (spend w c) (cd_challenges e))"
    using \<open>claims_ok (T, e)\<close> by (intro challenges_ok_ends [OF _ spend_ends t]) (simp add: claims_ok_iff)
  moreover have "vc_guild (spend w c x) = vc_guild x" "vc_user (spend w c x) = vc_user x" for x
    by (simp_all add: spend_def)
  ultimately show ?thesis by (simp add: claims_ok_iff Done(9,10,11))
qed

lemma assign_cases:
  assumes "assign w before a owner identity reason d = Inr (s, d')"
  obtains m :: discord_member and guild why link e where "guild_of (cd_guilds before) a = Inr guild"
    "requirePermission a (act_guild a) P_characters_assign None = Inr ()"
    "cw_member w owner = Some m" "\<not> dm_bot m"
    "parse_note reason LabelReason = Inr why"
    "trust w a owner (id_id identity) ''officer_assignment'' (Some why) (SourceObject (Some (can a P_admin_links)))
       (storeCharacter (cw_now w) True identity
         (in_users (ensureUser (act_guild a) owner (Some (dm_joined m))) d)) = Inr (link, e)"
    "d' = claims_audit a ''character.assign'' (tr_id link) (Some why) e"
    "as_link s = link" "as_authority s = can a P_admin_links"
proof -
  from assms obtain guild why m where g: "guild_of (cd_guilds before) a = Inr guild"
      "requirePermission a (act_guild a) P_characters_assign None = Inr ()" "parse_note reason LabelReason = Inr why"
      "cw_member w owner = Some m" "\<not> dm_bot m"
    and t: "assign_transaction w a guild owner m identity why d = Inr (s, d')"
    by (auto simp: assign_def and_then_Inr_iff split: sum.splits option.splits if_splits)
  let ?t = "trust w a owner (id_id identity) ''officer_assignment'' (Some why) (SourceObject (Some (can a P_admin_links)))
       (storeCharacter (cw_now w) True identity
         (in_users (ensureUser (act_guild a) owner (Some (dm_joined m))) d))"
  from t obtain link e where l: "?t = Inr (link, e)"
    by (auto simp: assign_transaction_def Let_def and_then_Inr_iff)
  show ?thesis
    by (rule that [OF g(1,2,4,5,3) l]) (use t l in \<open>auto simp: assign_transaction_def Let_def\<close>)
qed

lemma claims_ok_assign:
  assumes k: "claims_ok (T, d)" and s: "assign w before a owner identity reason d = Inr (s, d')" and t: "T \<le> cw_now w"
    and id: "cw_row w \<notin> set (link_ids d)"
  shows "claims_ok (cw_now w, d')"
  using s
proof (cases rule: assign_cases)
  case (1 m guild why link e)
  let ?d = "in_users (ensureUser (act_guild a) owner (Some (dm_joined m))) d"
  let ?e = "storeCharacter (cw_now w) True identity ?d"
  have kd: "claims_ok (cw_now w, ?d)" by (rule claims_ok_ensure [OF k t])
  have ke: "claims_ok (cw_now w, ?e)" by (rule claims_ok_cong [OF kd]) simp_all
  have fk: "(act_guild a, owner) \<in> set (map user_key (claim_users ?e))"
    by (simp add: ensureUser_keys del: set_map)
  have "claims_ok (cw_now w, e)" by (rule claims_ok_trust [OF ke 1(6) _ fk]) (use id in \<open>simp add: link_ids_def\<close>)
  then show ?thesis unfolding 1(7) by (rule claims_ok_cong) simp_all
qed

lemma required_can: "requirePermission a g p m = Inr () \<Longrightarrow> can a p"
  by (auto simp: requirePermission_def and_then_Inr_iff split: if_splits)

lemma unclaim_cases:
  assumes "unclaim w before a owner i why d = Inr (u, d')"
  obtains guild reason l res e where "guild_of (cd_guilds before) a = Inr guild"
    "holder_of d (act_guild a) i = Some l" "lk_user l = owner"
    "owner \<noteq> act_user a \<Longrightarrow> linkConfersRank (lk_provenance l) (lk_source l) \<Longrightarrow> can a P_admin_links"
    "owner \<noteq> act_user a \<Longrightarrow> can a P_characters_unassign"
    "endLink w (act_guild a) owner i (lk_id l) d = (res, e)"
    "d' = claims_audit a ''character.unlink'' (lk_id l) reason e"
proof -
  obtain guild reason where g: "guild_of (cd_guilds before) a = Inr guild"
      "owner \<noteq> act_user a \<Longrightarrow> requirePermission a (act_guild a) P_characters_unassign None = Inr ()"
    and t: "unclaim_transaction w a guild owner i reason d = Inr (u, d')"
    using assms by (auto simp: unclaim_def and_then_Inr_iff split: if_splits)
  from t obtain l c where l: "holder_of d (act_guild a) i = Some l" "lk_user l = owner" "character_of d i = Some c"
    by (auto simp: unclaim_transaction_def Let_def split: option.splits if_splits)
  have r: "owner \<noteq> act_user a \<Longrightarrow> linkConfersRank (lk_provenance l) (lk_source l) \<Longrightarrow>
      requirePermission a (act_guild a) P_admin_links (Some RANK_LINK_REMOVAL) = Inr ()"
    using t l by (auto simp: unclaim_transaction_def Let_def and_then_Inr_iff)
  obtain res e where e: "endLink w (act_guild a) owner i (lk_id l) d = (res, e)" by (cases "endLink w (act_guild a) owner i (lk_id l) d")
  have "d' = claims_audit a ''character.unlink'' (lk_id l) reason e"
    using t l e by (auto simp: unclaim_transaction_def Let_def and_then_Inr_iff split: prod.splits)
  then show ?thesis using required_can [OF r] required_can [OF g(2)] by (intro that [OF g(1) l(1,2) _ _ e])
qed

lemma claims_ok_unclaim:
  assumes k: "claims_ok (T, d)" and u: "unclaim w before a owner i why d = Inr (u, d')" and t: "T \<le> cw_now w"
  shows "claims_ok (cw_now w, d')"
  using u
proof (cases rule: unclaim_cases)
  case (1 guild reason l res e)
  note w = endLink_writes [OF 1(6)] and h = holder_of_Some [OF 1(2)]
  from w(3) obtain f where f: "claim_users e = map (clear_main (act_guild a) owner i) (map f (claim_users d))"
      "\<And>r. user_key (f r) = user_key r \<and> gu_primary (f r) = gu_primary r" by blast
  have lo: "links_ok (people_links d)" and uo: "users_ok (people_links d) (claim_users d)"
    and co: "challenges_ok T (cd_challenges d)"
    and fk: "\<forall>c \<in> set (cd_challenges d). (vc_guild c, vc_user c) \<in> set (map user_key (claim_users d))"
    using k by (simp_all add: claims_ok_iff)
  have "users_ok (people_links e) (claim_users e)" unfolding w(1) f(1)
    by (rule users_ok_end [OF uo _ h(1,2) 1(3) h(3)]) (use lo f(2) in \<open>auto simp: links_ok_def\<close>)
  moreover have "map user_key (claim_users e) = map user_key (claim_users d)"
    unfolding f(1) using f(2) by (auto simp: clear_main_def user_key_def)
  ultimately have "claims_ok (cw_now w, e)"
    using links_ok_end [OF lo] challenges_ok_later [OF co t] fk unfolding claims_ok_iff w(1,2) by metis
  then show ?thesis unfolding 1(7) by (rule claims_ok_cong) simp_all
qed

lemma set_main_key: "user_key (set_main c on r) = user_key r" "user_key (set_sync v r) = user_key r"
  by (simp_all add: set_main_def set_sync_def user_key_def)

lemma preferences_cases:
  assumes "preferences w before a main enabled d = Inr (p, d')"
  obtains guild e where "guild_of (cd_guilds before) a = Inr guild"
    "\<And>i. given main = Some i \<Longrightarrow> owns (people_links d) (act_guild a) (act_user a) i"
    "people_links d' = people_links d" "cd_challenges d' = cd_challenges d"
    "e = claim_users d \<or> (\<exists>i on. main = Some i \<and> e = update_user (act_guild a) (act_user a) (set_main i on) (claim_users d))"
    "claim_users d' = e \<or> (\<exists>on. claim_users d' = update_user (act_guild a) (act_user a) (set_sync on) e)"
proof -
  from assms obtain guild where g: "guild_of (cd_guilds before) a = Inr guild"
    and t: "preferences_transaction w a guild main enabled d = Inr (p, d')"
    by (auto simp: preferences_def and_then_Inr_iff)
  let ?g = "act_guild a" and ?u = "act_user a" and ?cur = "user_row_of d (act_guild a) (act_user a)"
  let ?d1 = "save_main a ?cur main d"
  let ?d2 = "save_sync a ?cur enabled ?d1"
  have m: "main_owned a main d = Inr ()" and d': "d' = ?d2 \<or> d' = queue_person w ?g ?u ?d2"
    using t unfolding preferences_transaction_def Let_def and_then_Inr_iff by (auto split: if_splits)
  have o: "\<And>i. given main = Some i \<Longrightarrow> owns (people_links d) ?g ?u i"
    using m by (auto simp: main_owned_def owns_def active_links_def list_ex_iff split: if_splits)
  have e1: "claim_users ?d1 = claim_users d \<or>
      (\<exists>i on. main = Some i \<and> claim_users ?d1 = update_user ?g ?u (set_main i on) (claim_users d))"
    unfolding save_main_def by (cases main) auto
  have e2: "claim_users d' = claim_users ?d1 \<or> (\<exists>on. claim_users d' = update_user ?g ?u (set_sync on) (claim_users ?d1))"
    using d' unfolding save_sync_def by (cases enabled) (auto split: if_splits)
  have k1: "people_links ?d1 = people_links d" "cd_challenges ?d1 = cd_challenges d"
    unfolding save_main_def by (simp_all split: option.split)
  have k: "people_links d' = people_links d" "cd_challenges d' = cd_challenges d"
    using d' k1 unfolding save_sync_def by (auto split: option.splits if_splits)
  show ?thesis by (rule that [OF g o k e1 e2])
qed

lemma preference_keys:
  "map user_key (update_user g u (set_main i on) us) = map user_key us"
  "map user_key (update_user g u (set_sync v) us) = map user_key us"
  by (rule update_user_keys, rule set_main_key)+

lemma claims_ok_preferences:
  assumes k: "claims_ok (T, d)" and p: "preferences w before a main enabled d = Inr (p, d')" and t: "T \<le> cw_now w"
    and m: "main \<noteq> Some []"
  shows "claims_ok (cw_now w, d')"
  using p
proof (cases rule: preferences_cases)
  case (1 guild e)
  have uo: "users_ok (people_links d) (claim_users d)" using k by (simp add: claims_ok_iff)
  have "users_ok (people_links d) e \<and> map user_key e = map user_key (claim_users d)"
    using 1(5)
  proof
    assume "e = claim_users d" with uo show ?thesis by simp
  next
    assume "\<exists>i on. main = Some i \<and> e = update_user (act_guild a) (act_user a) (set_main i on) (claim_users d)"
    then obtain i on where i: "main = Some i" and e: "e = update_user (act_guild a) (act_user a) (set_main i on) (claim_users d)"
      by blast
    have "owns (people_links d) (act_guild a) (act_user a) i" by (rule 1(2)) (use i m in \<open>simp add: given_def\<close>)
    then have "users_ok (people_links d) e" unfolding e
      by (intro users_ok_update [OF uo set_main_key(1)]) (auto simp: set_main_def)
    then show ?thesis unfolding e using preference_keys by blast
  qed
  then have ue: "users_ok (people_links d) e" and ke: "map user_key e = map user_key (claim_users d)" by blast+
  have "users_ok (people_links d) (claim_users d') \<and> map user_key (claim_users d') = map user_key e"
    using 1(6)
  proof
    assume "claim_users d' = e" with ue show ?thesis by simp
  next
    assume "\<exists>on. claim_users d' = update_user (act_guild a) (act_user a) (set_sync on) e"
    then obtain on where d: "claim_users d' = update_user (act_guild a) (act_user a) (set_sync on) e" by blast
    have "users_ok (people_links d) (claim_users d')" unfolding d
      by (intro users_ok_update [OF ue set_main_key(2)]) (auto simp: set_sync_def)
    then show ?thesis unfolding d using preference_keys by blast
  qed
  then show ?thesis using ke by (intro claims_ok_users [OF k t 1(3,4)]) (simp_all del: set_map)
qed

lemma claims_step_ok: "claims_step s s' \<Longrightarrow> claims_ok s \<Longrightarrow> claims_ok s'"
proof (induction rule: claims_step.induct)
  case (Claim w before a identity read d r d' T)
  then show ?case using claims_ok_claim by blast
next
  case (Verify w before a character d v d' T)
  then show ?case using claims_ok_verify by blast
next
  case (Assign w before a owner identity reason d s d' T)
  then show ?case using claims_ok_assign by blast
next
  case (Unclaim w before a owner character why d u d' T)
  then show ?case using claims_ok_unclaim by blast
next
  case (Preferences w before a main enabled d p d' T)
  then show ?case using claims_ok_preferences by blast
next
  case (Prune T T' d)
  then have "challenges_ok T' (cd_challenges d)" using challenges_ok_later unfolding claims_ok_iff by blast
  then have "challenges_ok T' (cd_challenges (prune_challenges T' d))"
    unfolding prune_challenges_def using challenges_ok_filter by simp
  then show ?case using Prune.prems by (simp add: claims_ok_iff prune_challenges_def people_links_def)
next
  case (Suspend T T' d g u)
  let ?f = "\<lambda>u. u\<lparr>gu_nick_suspended := True, gu_nick_enabled := False, gu_nick_pending := False\<rparr>"
  have f: "user_key (?f r) = user_key r" for r by (simp add: user_key_def)
  have "users_ok (people_links d) (claim_users (suspend_nickname g u d))"
    unfolding suspend_nickname_def in_users_simps
    by (rule users_ok_update) (use Suspend.prems in \<open>simp_all add: claims_ok_iff user_key_def\<close>)
  moreover have "map user_key (claim_users (suspend_nickname g u d)) = map user_key (claim_users d)"
    unfolding suspend_nickname_def in_users_simps by (rule update_user_keys) (simp add: user_key_def)
  ultimately show ?case
    by (intro claims_ok_users [OF Suspend.prems Suspend.hyps]) (simp_all add: suspend_nickname_def del: set_map)
next
  case (Person T T' d g u joined)
  then show ?case using claims_ok_ensure by blast
next
  case (Elsewhere T T' d' d f)
  have "users_ok (people_links d) (claim_users d')" unfolding Elsewhere.hyps(4)
    by (rule users_ok_map) (use Elsewhere.prems Elsewhere.hyps(5) in \<open>auto simp: claims_ok_iff\<close>)
  moreover have "map user_key (claim_users d') = map user_key (claim_users d)"
    unfolding Elsewhere.hyps(4) using Elsewhere.hyps(5) by simp
  ultimately show ?case
    by (intro claims_ok_users [OF Elsewhere.prems Elsewhere.hyps(1-3)]) (simp_all del: set_map)
qed

lemma claims_ok_history: "claims_step\<^sup>*\<^sup>* s s' \<Longrightarrow> claims_ok s \<Longrightarrow> claims_ok s'"
  by (induction rule: rtranclp_induct) (auto intro: claims_step_ok)

section \<open>What holds\<close>

lemma ownership_facts:
  assumes run: "rtranclp claims_step (T0, d0) (T, d)" and start: "claims_ok (T0, d0)"
  shows "l \<in> set (people_links d) \<Longrightarrow> l' \<in> set (people_links d) \<Longrightarrow> lk_active l \<Longrightarrow> lk_active l' \<Longrightarrow>
      lk_guild l' = lk_guild l \<Longrightarrow> lk_character l' = lk_character l \<Longrightarrow> l' = l"
    and "c \<in> set (cd_challenges d) \<Longrightarrow> c' \<in> set (cd_challenges d) \<Longrightarrow> vc_live c \<Longrightarrow> vc_live c' \<Longrightarrow>
      vc_key c' = vc_key c \<Longrightarrow> c' = c"
    and "length (filter (vc_own g u) (unfinished T (cd_challenges d))) \<le> 5"
    and "length (unfinished T (cd_challenges d)) \<le> 1000"
    and "r \<in> set (pl_users (cd_people d)) \<Longrightarrow> gu_primary r = Some i \<Longrightarrow>
      \<exists>l \<in> set (people_links d). lk_guild l = gu_guild r \<and> lk_user l = gu_user r \<and> lk_character l = i \<and> lk_active l"
proof -
  have k: "links_ok (people_links d)" "users_ok (people_links d) (claim_users d)" "challenges_ok T (cd_challenges d)"
    using claims_ok_history [OF run start] by (simp_all add: claims_ok_iff)
  have inj: "distinct (map f (filter p xs)) \<Longrightarrow> x \<in> set xs \<Longrightarrow> y \<in> set xs \<Longrightarrow> p x \<Longrightarrow> p y \<Longrightarrow> f y = f x \<Longrightarrow> y = x"
    for f :: "'x \<Rightarrow> 'y" and p xs x y by (simp add: distinct_map inj_on_def)
  show "l \<in> set (people_links d) \<Longrightarrow> l' \<in> set (people_links d) \<Longrightarrow> lk_active l \<Longrightarrow> lk_active l' \<Longrightarrow>
      lk_guild l' = lk_guild l \<Longrightarrow> lk_character l' = lk_character l \<Longrightarrow> l' = l"
    using k(1) by (intro inj [of owner_key lk_active "people_links d"]) (simp_all add: links_ok_def owner_key_def)
  show "c \<in> set (cd_challenges d) \<Longrightarrow> c' \<in> set (cd_challenges d) \<Longrightarrow> vc_live c \<Longrightarrow> vc_live c' \<Longrightarrow>
      vc_key c' = vc_key c \<Longrightarrow> c' = c"
    using k(3) by (intro inj [of vc_key vc_live "cd_challenges d"]) (simp_all add: challenges_ok_def)
  show "length (filter (vc_own g u) (unfinished T (cd_challenges d))) \<le> 5"
    "length (unfinished T (cd_challenges d)) \<le> 1000"
    using k(3) by (simp_all add: challenges_ok_def own_count_def)
  show "r \<in> set (pl_users (cd_people d)) \<Longrightarrow> gu_primary r = Some i \<Longrightarrow>
      \<exists>l \<in> set (people_links d). lk_guild l = gu_guild r \<and> lk_user l = gu_user r \<and> lk_character l = i \<and> lk_active l"
    using k(2) unfolding users_ok_def owns_def by blast
qed

text \<open>
  (C19) Over any history of claims, verifications, assignments, removals and preferences: a character has
  one active owner in a server, a person one live challenge for a character, at most 5 unfinished claims
  of a person and 1000 in all, and a main character is a character its person actively owns.
\<close>

theorem character_ownership:
  assumes "rtranclp claims_step (T0, d0) (T, d)" "claims_ok (T0, d0)"
  shows "(\<forall>l \<in> set (people_links d). \<forall>l' \<in> set (people_links d). lk_active l \<and> lk_active l' \<and>
        lk_guild l' = lk_guild l \<and> lk_character l' = lk_character l \<longrightarrow> l' = l) \<and>
    (\<forall>c \<in> set (cd_challenges d). \<forall>c' \<in> set (cd_challenges d). vc_live c \<and> vc_live c' \<and> vc_key c' = vc_key c \<longrightarrow>
        c' = c) \<and>
    (\<forall>g u. length (filter (vc_own g u) (unfinished T (cd_challenges d))) \<le> 5) \<and>
    length (unfinished T (cd_challenges d)) \<le> 1000 \<and>
    (\<forall>r \<in> set (pl_users (cd_people d)). \<forall>i. gu_primary r = Some i \<longrightarrow>
      (\<exists>l \<in> set (people_links d). lk_guild l = gu_guild r \<and> lk_user l = gu_user r \<and> lk_character l = i \<and> lk_active l))"
  using ownership_facts [OF assms] by (intro conjI ballI allI impI) blast+

lemma verified_facts:
  assumes k: "distinct (map vc_id (cd_challenges d))"
    and v: "verify w before a i d = Inr (Verified link mode evidence, d')"
  obtains c profile bio token where "c \<in> set (cd_challenges d)" "cw_profile w i = Inr profile"
    "id_biography profile = Some bio" "token \<in> set (tokens_in bio)"
    "cw_digest w (proof_text (act_guild a) (act_user a) i token) = vc_hash c"
    "vc_guild c = act_guild a" "vc_user c = act_user a" "vc_character c = i" "vc_consumed c = None"
    "vc_replaced c = None" "vc_expires c > cw_check w" "vc_expires c > cw_clock w"
    "cd_challenges d' = map (\<lambda>x. if x = c then c\<lparr>vc_consumed := Some (cw_clock w)\<rparr> else x) (cd_challenges d)"
    "\<exists>l \<in> set (people_links d'). lk_id l = tr_id link \<and> lk_guild l = act_guild a \<and>
       lk_user l = act_user a \<and> lk_character l = i \<and> lk_active l"
  using v
proof (cases rule: verify_cases)
  case (Again profile)
  then show ?thesis by simp
next
  case (Done guild profile c link' e)
  then have l: "link' = link" by auto
  note c = newest_challenge_Some [OF Done(3)]
  have ce: "cd_challenges e = cd_challenges d"
    using Done(7) by (cases rule: trust_cases) simp_all
  obtain x where x: "x \<in> set (cd_challenges d)" "consumable w c x"
    using Done(8) unfolding ce list_ex_iff by blast
  then have "x = c" using k c(1) by (auto simp: consumable_def distinct_map inj_on_def)
  then have live: "vc_expires c > cw_clock w" "vc_live c" using x(2) by (simp_all add: consumable_def)
  have "spend w c y = (if y = c then c\<lparr>vc_consumed := Some (cw_clock w)\<rparr> else y)"
    if "y \<in> set (cd_challenges d)" for y
    using k c(1) that live by (auto simp: spend_def consumable_def distinct_map inj_on_def)
  then have cs: "cd_challenges d' = map (\<lambda>x. if x = c then c\<lparr>vc_consumed := Some (cw_clock w)\<rparr> else x) (cd_challenges d)"
    unfolding Done(9) ce by simp
  obtain bio where b: "id_biography profile = Some bio"
    using Done(6) by (cases "id_biography profile") (simp_all add: proven_def)
  then obtain token where t: "token \<in> set (tokens_in bio)"
      "cw_digest w (proof_text (act_guild a) (act_user a) i token) = vc_hash c"
    using Done(6) by (auto simp: proven_def list_ex_iff)
  have o: "\<exists>l \<in> set (people_links e). lk_id l = tr_id link \<and> lk_guild l = act_guild a \<and>
      lk_user l = act_user a \<and> lk_character l = i \<and> lk_active l"
    using Done(7)
  proof (cases rule: trust_cases)
    case (Held h)
    note h = holder_of_Some [OF Held(1)]
    show ?thesis unfolding Held(5) using h Held(2,3) l by auto
  next
    case New
    show ?thesis unfolding New(4) using New(2) l by (auto simp: new_link_def)
  qed
  show ?thesis
    by (rule that [OF c(1) Done(2) b t _ _ _ Done(5) c(3) Done(4) live(1) cs o [folded Done(10)]]) (use c(2) in \<open>simp_all add: vc_key_def\<close>)
qed

text \<open>
  (C20) A completed verification had a live, unexpired challenge of the same server, person and character,
  and the biography just read holds a token whose digest is the challenge's; it leaves the character
  actively linked to that person, that challenge consumed, and every other challenge as it was.
\<close>

theorem verified_link_proven:
  assumes "rtranclp claims_step (T0, d0) (T, d)" "claims_ok (T0, d0)"
    "verify w before a i d = Inr (Verified link mode evidence, d')"
  shows "(\<exists>c \<in> set (cd_challenges d). \<exists>profile bio token.
      cw_profile w i = Inr profile \<and> id_biography profile = Some bio \<and> token \<in> set (tokens_in bio) \<and>
      cw_digest w (proof_text (act_guild a) (act_user a) i token) = vc_hash c \<and>
      vc_guild c = act_guild a \<and> vc_user c = act_user a \<and> vc_character c = i \<and>
      vc_consumed c = None \<and> vc_replaced c = None \<and> vc_expires c > cw_check w \<and> vc_expires c > cw_clock w \<and>
      cd_challenges d' = map (\<lambda>x. if x = c then c\<lparr>vc_consumed := Some (cw_clock w)\<rparr> else x) (cd_challenges d)) \<and>
    (\<exists>l \<in> set (people_links d'). lk_id l = tr_id link \<and> lk_guild l = act_guild a \<and>
      lk_user l = act_user a \<and> lk_character l = i \<and> lk_active l)"
proof -
  have "distinct (map vc_id (cd_challenges d))"
    using claims_ok_history [OF assms(1,2)] by (simp add: claims_ok_iff challenges_ok_def)
  then show ?thesis
    by (rule verified_facts [OF _ assms(3)])
      (rule conjI, rule bexI, (rule exI)+, (intro conjI; assumption), assumption, assumption)
qed

lemma verify_completes:
  assumes "requirePermission a (act_guild a) P_characters_claim None = Inr ()" "guild_of (cd_guilds before) a = Inr row"
    and page: "cw_profile w i = Inr profile" "id_id profile = i"
    and c: "newest_challenge d (act_guild a) (act_user a) i = Some c" "cw_check w < vc_expires c" "cw_clock w < vc_expires c"
      "vc_live c" "proven w a i profile c"
    and h: "holder_of d (act_guild a) i = None"
  shows "\<exists>link mode evidence d'. verify w before a i d = Inr (Verified link mode evidence, d') \<and>
    tr_created link \<and> tr_id link = cw_row w"
proof -
  let ?e = "storeCharacter (cw_now w) True profile d" and ?s = "SourceObject None" and ?p = "''profile_token''"
  have ch: "\<exists>c. character_of ?e i = Some c"
    using stored_character [of profile "cw_now w" True d] page(2)
    by (cases "character_of ?e i") (auto simp: character_of_def find_None_iff)
  have "holder_of ?e (act_guild a) i = None" using h holder_of_cong [of ?e d] by simp
  then obtain x where tr: "trust w a (act_user a) i ?p None ?s ?e =
      Inr (insert_link w a (act_user a) (row_ref x) i ?p None ?s ?e)"
    using ch by (auto simp: trust_def)
  obtain link f where il: "insert_link w a (act_user a) (row_ref x) i ?p None ?s ?e = (link, f)"
    by (cases "insert_link w a (act_user a) (row_ref x) i ?p None ?s ?e")
  note iw = insert_link_writes [OF il]
  have "consumable w c c" using c(3,4) by (simp add: consumable_def)
  then have "list_ex (consumable w c) (cd_challenges f)"
    unfolding iw(2) using newest_challenge_Some(1) [OF c(1)] by (auto simp: list_ex_iff)
  moreover have "\<not> vc_expires c \<le> cw_check w" using c(2) by simp
  ultimately have "\<exists>mode evidence d'. verify_transaction w a row i profile d = Inr (Verified link mode evidence, d')"
    using c tr il unfolding verify_transaction_def by (simp add: Let_def vc_live_def)
  then show ?thesis using assms(1,2) page(1) iw(3,4) unfolding verify_def by auto
qed

text \<open>
  Issuing and publishing a token is enough: after a claim, when the Lodestone shows the token with
  nothing of a token right before it and the claim has not expired, verification completes with a new link.
\<close>

theorem claim_then_verify:
  assumes c: "claim_character w before a identity True d = Inr (ClaimPending ch token cid until, d')"
    and bytes: "length (cw_bytes w) = 32" "\<forall>b \<in> set (cw_bytes w). b < 256"
    and older: "\<forall>x \<in> set (cd_challenges d). vc_issued x < cw_now w"
    and later: "cw_check v < until" "cw_clock v < until" "cw_digest v = cw_digest w"
    and guild: "guild_of (cd_guilds after) a = Inr row"
    and page: "cw_profile v (id_id identity) = Inr profile" "id_id profile = id_id identity"
      "id_biography profile = Some (pre @ token @ post)" "pre = [] \<or> \<not> is_token_unit (last pre)"
  shows "\<exists>link mode evidence d''. verify v after a (id_id identity) d' = Inr (Verified link mode evidence, d'') \<and>
    tr_created link \<and> tr_id link = cw_row v"
  using c
proof (cases rule: claim_cases)
  case (1 m before_row e)
  let ?i = "id_id identity" and ?g = "act_guild a" and ?u = "act_user a"
  let ?n = "new_challenge w a ?i"
  have h: "holder_of d ?g ?i = None" using 1(8) by (auto split: option.splits)
  then have "claim_new w a (character_ref identity) e = Inr (ClaimPending ch token cid until, d')" using 1(8) by simp
  note w = claim_new_writes [OF this]
  have id: "fch_id (character_ref identity) = ?i" by (simp add: character_ref_def)
  have t: "token = issue_token w" and u: "until = vc_expires ?n" using w(1) by (simp_all add: new_challenge_def)
  have n: "vc_of ?g ?u ?i ?n" "vc_replaced ?n = None" "vc_consumed ?n = None" "vc_issued ?n = cw_now w" "vc_live ?n"
    by (simp_all add: new_challenge_def vc_of_def vc_live_def)
  let ?mine = "filter (\<lambda>c. vc_of ?g ?u ?i c \<and> vc_replaced c = None) (cd_challenges d')"
  have cs: "cd_challenges d' = map (replaces w a ?i) (cd_challenges d) @ [?n]" using w(2) by (simp add: id 1(4))
  obtain rest where mine: "?mine = rest @ [?n]" "\<forall>x \<in> set rest. vc_issued x < cw_now w"
  proof
    let ?rest = "filter (\<lambda>c. vc_of ?g ?u ?i c \<and> vc_replaced c = None) (map (replaces w a ?i) (cd_challenges d))"
    show "?mine = ?rest @ [?n]" unfolding cs using n by simp
    show "\<forall>x \<in> set ?rest. vc_issued x < cw_now w" using older by (auto simp: replaces_def)
  qed
  have newest: "newest_challenge d' ?g ?u ?i = Some ?n"
  proof -
    have "find (\<lambda>c. list_all (\<lambda>x. vc_issued x \<le> vc_issued c) (rest @ [?n])) rest = None"
      using mine(2) n(4) by (auto simp: find_None_iff)
    moreover have "list_all (\<lambda>x. vc_issued x \<le> vc_issued ?n) (rest @ [?n])"
      using mine(2) n(4) by (auto simp: list_all_iff)
    moreover have "find p (xs @ [y]) = Some y" if "find p xs = None" "p y" for p :: "challenge \<Rightarrow> bool" and xs y
      using that by (induction xs) (auto split: if_splits)
    ultimately show ?thesis unfolding newest_challenge_def Let_def mine(1) by blast
  qed
  have "token \<in> set (tokens_in (pre @ token @ post))"
    by (rule tokens_in_found [OF _ page(4)]) (simp add: t issue_token_shape [OF bytes])
  then have "list_ex (\<lambda>x. cw_digest v (proof_text ?g ?u ?i x) = vc_hash ?n) (tokens_in (pre @ token @ post))"
    unfolding list_ex_iff later(3) t by (intro bexI) (simp_all add: new_challenge_def)
  then have p: "proven v a ?i profile ?n" by (simp add: proven_def page(3))
  have "holder_of d' ?g ?i = None" using h holder_of_cong [of d' d] by (simp add: w(3) 1(3))
  then show ?thesis
    using verify_completes [OF 1(2) guild page(1,2) newest _ _ n(5) p] later(1,2) unfolding u by blast
qed

text \<open>The links that can count for a rank.\<close>

definition rank_links :: "claims_db \<Rightarrow> link_row list" where
  "rank_links d = filter (\<lambda>l. lk_active l \<and> linkConfersRank (lk_provenance l) (lk_source l)) (people_links d)"

lemma rank_links_cong: "people_links d' = people_links d \<Longrightarrow> rank_links d' = rank_links d"
  by (simp add: rank_links_def)

lemma rank_links_end:
  assumes "distinct (map lk_id ls)" "l \<in> set ls" "\<not> linkConfersRank (lk_provenance l) (lk_source l)"
  shows "filter (\<lambda>l. lk_active l \<and> linkConfersRank (lk_provenance l) (lk_source l)) (map (end_row now (lk_id l)) ls) =
     filter (\<lambda>l. lk_active l \<and> linkConfersRank (lk_provenance l) (lk_source l)) ls" (is "filter ?p _ = _")
proof -
  have "filter ?p (map (end_row now (lk_id l)) xs) = filter ?p xs" if "set xs \<subseteq> set ls" for xs
    using that
  proof (induction xs)
    case (Cons x xs)
    show ?case
    proof (cases "lk_id x = lk_id l")
      case True
      then have "x = l" using assms(1,2) Cons.prems by (auto simp: distinct_map inj_on_def)
      then show ?thesis using Cons assms(3) by (simp add: end_row_def)
    qed (use Cons in \<open>simp add: end_row_def\<close>)
  qed simp
  then show ?thesis by simp
qed

text \<open>
  (C21) Without admin.links an officer changes no link that can count for a rank: neither by assigning a
  character (the new link never counts) nor by removing someone else's.
\<close>

theorem rank_links_need_manager:
  assumes run: "rtranclp claims_step (T0, d0) (T, d)" and start: "claims_ok (T0, d0)"
    and delegate: "\<not> can a P_admin_links"
    and acted: "assign w before a owner identity reason d = Inr (s, d') \<or>
      owner \<noteq> act_user a \<and> unclaim w before a owner i why d = Inr (u, d')"
  shows "rank_links d' = rank_links d"
  using acted
proof
  assume "assign w before a owner identity reason d = Inr (s, d')"
  then show ?thesis
  proof (cases rule: assign_cases)
    case (1 m guild r link e)
    have "rank_links e = rank_links d"
      using 1(6)
    proof (cases rule: trust_cases)
      case (Held l)
      then show ?thesis by (intro rank_links_cong) simp
    next
      case New
      then show ?thesis using delegate by (simp add: rank_links_def new_link_def linkConfersRank_def)
    qed
    then show ?thesis unfolding 1(7) by (simp add: rank_links_def)
  qed
next
  assume "owner \<noteq> act_user a \<and> unclaim w before a owner i why d = Inr (u, d')"
  then have o: "owner \<noteq> act_user a" and "unclaim w before a owner i why d = Inr (u, d')" by simp_all
  from this(2) show ?thesis
  proof (cases rule: unclaim_cases)
    case (1 guild r l res e)
    have "distinct (map lk_id (people_links d))"
      using claims_ok_history [OF run start] by (simp add: claims_ok_iff links_ok_def)
    moreover have "\<not> linkConfersRank (lk_provenance l) (lk_source l)" using 1(4) [OF o] delegate by blast
    ultimately have "rank_links e = rank_links d"
      unfolding rank_links_def endLink_writes(1) [OF 1(6)] using holder_of_Some(1) [OF 1(2)] by (intro rank_links_end)
    then show ?thesis unfolding 1(7) by (simp add: rank_links_def)
  qed
qed

text \<open>Repeating a preference finds nothing left to change.\<close>

lemma user_of_update:
  assumes "\<And>r. user_key (f r) = user_key r"
  shows "user_of (update_user g u f us) g u = map_option f (user_of us g u)"
proof -
  have k: "gu_guild (f r) = gu_guild r" "gu_user (f r) = gu_user r" for r
    using assms [of r] by (simp_all add: user_key_def)
  show ?thesis unfolding user_of_def update_user_def by (induction us) (auto simp: k)
qed

lemma user_of_key:
  assumes "(g, u) \<in> set (map user_key us)" shows "\<exists>r. user_of us g u = Some r"
  using assms by (cases "user_of us g u") (auto simp: user_of_def find_None_iff user_key_def)

lemma owned_has_row:
  assumes "claims_ok (T, d)" "owns (people_links d) g u i"
  shows "\<exists>r. user_row_of d g u = Some r"
proof -
  from assms(2) obtain l where "l \<in> set (people_links d)" "lk_guild l = g" "lk_user l = u" by (auto simp: owns_def)
  then have "(g, u) \<in> set (map user_key (claim_users d))" using assms(1) by (auto simp: claims_ok_iff users_ok_def)
  then show ?thesis unfolding user_row_of_def by (rule user_of_key)
qed

definition saved_row :: "user_row \<Rightarrow> ident option \<Rightarrow> bool option \<Rightarrow> user_row" where
  "saved_row u main enabled =
     (let v = (case main of Some i \<Rightarrow> if gu_primary u \<noteq> main then set_main i (gu_nick_enabled u) u else u | None \<Rightarrow> u)
      in case enabled of Some on \<Rightarrow> if sync_changes (Some u) enabled then set_sync on v else v | None \<Rightarrow> v)"

lemma saved_row_settled:
  "\<not> main_changes (Some (saved_row u main enabled)) main \<and> \<not> sync_changes (Some (saved_row u main enabled)) enabled"
  by (cases main; cases enabled)
    (auto simp: saved_row_def Let_def main_changes_def sync_changes_def set_main_def set_sync_def)

lemma saved_user_row:
  assumes u: "user_row_of d (act_guild a) (act_user a) = Some u"
  shows "user_row_of (save_sync a (Some u) enabled (save_main a (Some u) main d)) (act_guild a) (act_user a) =
    Some (saved_row u main enabled)"
proof -
  note up = user_of_update [OF set_main_key(1)] user_of_update [OF set_main_key(2)]
  let ?v = "case main of Some i \<Rightarrow> if gu_primary u \<noteq> main then set_main i (gu_nick_enabled u) u else u | None \<Rightarrow> u"
  have v: "user_of (claim_users (save_main a (Some u) main d)) (act_guild a) (act_user a) = Some ?v"
    using u by (auto simp: save_main_def main_changes_def user_row_of_def up split: option.split)
  show ?thesis
    unfolding save_sync_def user_row_of_def saved_row_def Let_def
    using v by (auto simp: up split: option.split)
qed

text \<open>
  Repeating a saved preference changes nothing: the second run writes no row and queues no job, and
  answers with the same main character and nickname state, unchanged.
\<close>

theorem preferences_settle:
  assumes run: "rtranclp claims_step (T0, d0) (T, d)" and start: "claims_ok (T0, d0)" and m: "main \<noteq> Some []"
    and p: "preferences w before a main enabled d = Inr (p, d')"
    and g: "guild_of (cd_guilds before') a = guild_of (cd_guilds before) a" "cw_enable w' = cw_enable w"
  shows "preferences w' before' a main enabled d' = Inr (p\<lparr>pf_changed := False\<rparr>, d')"
proof -
  have k: "claims_ok (T, d)" by (rule claims_ok_history [OF run start])
  let ?g = "act_guild a" and ?u = "act_user a" and ?cur = "user_row_of d (act_guild a) (act_user a)"
  let ?d1 = "save_main a ?cur main d"
  let ?d2 = "save_sync a ?cur enabled ?d1"
  let ?ch = "main_changes ?cur main \<or> sync_changes ?cur enabled"
  obtain row where row: "guild_of (cd_guilds before) a = Inr row"
    and t: "preferences_transaction w a row main enabled d = Inr (p, d')"
    using p by (auto simp: preferences_def and_then_Inr_iff)
  have owned: "main_owned a main d = Inr ()"
    and first: "\<not> (enabled = Some True \<and> Option.bind ?cur (\<lambda>u. given (gu_primary u)) = None \<and> given main = None)"
    and pd: "d' = (if ?ch then queue_person w ?g ?u ?d2 else ?d2)" and pp: "p = preferences_result_of w a row ?ch d'"
    using t unfolding preferences_transaction_def Let_def and_then_Inr_iff by (auto split: if_splits)
  obtain guild e where facts: "\<And>i. given main = Some i \<Longrightarrow> owns (people_links d) ?g ?u i" "people_links d' = people_links d"
    using p by (cases rule: preferences_cases) blast
  have owned': "main_owned a main d' = Inr ()" using owned unfolding main_owned_def facts(2) .
  have cur': "\<exists>u. ?cur = Some u" if mn: "main \<noteq> None"
  proof -
    obtain i where "given main = Some i" using mn m by (cases main) (auto simp: given_def)
    then show ?thesis by (rule owned_has_row [OF k facts(1)])
  qed
  let ?cur' = "user_row_of d' ?g ?u"
  have same: "?cur' = user_row_of ?d2 ?g ?u" using pd by (simp add: user_row_of_def)
  have quiet: "\<not> main_changes ?cur' main \<and> \<not> sync_changes ?cur' enabled \<and>
      \<not> (enabled = Some True \<and> Option.bind ?cur' (\<lambda>u. given (gu_primary u)) = None \<and> given main = None)"
  proof (cases ?cur)
    case None
    then have n: "main = None" using cur' by (cases main) auto
    have "?cur' = None" using None n unfolding same by (simp add: save_main_def save_sync_def sync_changes_def split: option.split)
    then show ?thesis using None n first by (simp add: main_changes_def sync_changes_def split: option.split)
  next
    case (Some u)
    have c: "?cur' = Some (saved_row u main enabled)"
      unfolding same unfolding Some by (rule saved_user_row [OF Some])
    have "gu_primary (saved_row u None enabled) = gu_primary u"
      by (simp add: saved_row_def set_sync_def split: option.split)
    moreover have "main = None" if "given main = None" using that m by (cases main) (auto simp: given_def split: if_splits)
    ultimately show ?thesis using saved_row_settled first unfolding c Some by auto
  qed
  have "save_main a ?cur' main d' = d'" using quiet unfolding save_main_def by (cases main) simp_all
  moreover have "save_sync a ?cur' enabled d' = d'" using quiet unfolding save_sync_def by (cases enabled) simp_all
  ultimately have "preferences_transaction w' a row main enabled d' = Inr (preferences_result_of w' a row False d', d')"
    using owned' quiet by (simp add: preferences_transaction_def Let_def)
  moreover have "preferences_result_of w' a row False d' = p\<lparr>pf_changed := False\<rparr>"
    unfolding pp by (simp add: preferences_result_of_def Let_def g(2))
  ultimately show ?thesis using row g(1) by (simp add: preferences_def)
qed

section \<open>Witnesses\<close>

definition cs_guild :: guild_row where
  "cs_guild = \<lparr>gd_id = ''g'', gd_active = True, gd_revision = 1, gd_fc = None, gd_ledger_channel = None,
     gd_effects = True, gd_member_role = None, gd_guest_role = None, gd_apps_enabled = False,
     gd_apps_channel = None, gd_access_policy = False\<rparr>"

definition cs_user :: user_row where
  "cs_user = \<lparr>gu_guild = ''g'', gu_user = ''u'', gu_present = True, gu_joined = Some 5, gu_imported = False,
     gu_primary = Some ''1'', gu_nick_enabled = True, gu_nick_baseline = False, gu_nick_pending = False,
     gu_nick_restore = False, gu_nick_suspended = False, gu_local_loss = False\<rparr>"

definition cs_link :: link_row where
  "cs_link = \<lparr>lk_id = ''l'', lk_guild = ''g'', lk_user = ''u'', lk_character = ''1'', lk_active = True,
     lk_provenance = ''profile_token'', lk_actor = None, lk_reason = None, lk_source = SourceObject None,
     lk_ended = None\<rparr>"

definition cs_start :: claims_db where
  "cs_start = \<lparr>cd_guilds = [cs_guild],
     cd_people = \<lparr>pl_users = [cs_user], pl_links = [cs_link], pl_members = [], pl_history = [], pl_grants = [],
                  pl_states = [], pl_rosters = []\<rparr>,
     cd_characters = [\<lparr>ch_id = ''1'', ch_name = ''A'', ch_world = ''W'', ch_dc = None, ch_hint = None, ch_profile = None\<rparr>],
     cd_challenges = [], cd_snapshots = [], cd_listed = [], cd_jobs = [], cd_audit = []\<rparr>"

lemma cs_row_simps [simp]:
  "gd_id cs_guild = ''g''" "gd_active cs_guild" "gd_fc cs_guild = None"
  "gu_guild cs_user = ''g''" "gu_user cs_user = ''u''" "gu_primary cs_user = Some ''1''" "gu_nick_enabled cs_user"
  "gu_joined cs_user = Some 5"
  "lk_id cs_link = ''l''" "lk_guild cs_link = ''g''" "lk_user cs_link = ''u''" "lk_character cs_link = ''1''"
  "lk_active cs_link" "lk_provenance cs_link = ''profile_token''" "lk_source cs_link = SourceObject None"
  "\<not> gu_nick_suspended cs_user"
  by (simp_all add: cs_guild_def cs_user_def cs_link_def)

lemma cs_start_simps [simp]:
  "cd_guilds cs_start = [cs_guild]" "people_links cs_start = [cs_link]" "claim_users cs_start = [cs_user]"
  "cd_challenges cs_start = []" "pl_links (cd_people cs_start) = [cs_link]"
  by (simp_all add: cs_start_def people_links_def)

text \<open>A token of 32 zero bytes, on a page between two line breaks.\<close>

definition cs_bytes :: "nat list" where "cs_bytes = replicate 32 0"

definition cs_world :: "int \<Rightarrow> ident \<Rightarrow> claims_world" where
  "cs_world now row = \<lparr>cw_enable = True, cw_member = (\<lambda>_. Some \<lparr>dm_bot = False, dm_joined = 5, dm_roles = []\<rparr>),
     cw_profile = (\<lambda>i. Inr \<lparr>id_id = i, id_name = ''B'', id_world = ''W'', id_dc = ''D'', id_fc = None,
       id_biography = Some ([10] @ (token_prefix @ base64url cs_bytes) @ [10])\<rparr>),
     cw_digest = map char_of, cw_bytes = cs_bytes, cw_now = now, cw_check = now, cw_clock = now, cw_interval = 60,
     cw_lifetime = 100, cw_row = row, cw_job = (\<lambda>k. k)\<rparr>"

definition cs_identity :: identity where
  "cs_identity = \<lparr>id_id = ''2'', id_name = ''B'', id_world = ''W'', id_dc = ''D'', id_fc = None, id_biography = None\<rparr>"

lemma cs_world_simps [simp]:
  "cw_member (cs_world now row) u = Some \<lparr>dm_bot = False, dm_joined = 5, dm_roles = []\<rparr>"
  "cw_now (cs_world now row) = now" "cw_row (cs_world now row) = row" "cw_check (cs_world now row) = now"
  "cw_clock (cs_world now row) = now" "cw_lifetime (cs_world now row) = 100" "cw_bytes (cs_world now row) = cs_bytes"
  "cw_enable (cs_world now row)" "id_id cs_identity = ''2''" "cw_digest (cs_world now row) = map char_of"
  by (simp_all add: cs_world_def cs_identity_def)

definition cs_actor :: "ident \<Rightarrow> permission_id set \<Rightarrow> actor" where
  "cs_actor user ps = \<lparr>act_guild = ''g'', act_user = user, act_manage_roles = False, act_server_manager = None,
     act_role_ids = None, act_access = \<lparr>acc_manager = False, acc_roles = [], acc_permissions = ps,
       acc_blocked = (\<lambda>_. None)\<rparr>, act_member = None, act_guest = None, act_bot_administrator = None,
     act_timed_out = None\<rparr>"

lemma cs_actor_simps [simp]:
  "act_guild (cs_actor u ps) = ''g''" "act_user (cs_actor u ps) = u" "can (cs_actor u ps) p = (p \<in> ps)"
  "requirePermission (cs_actor u ps) ''g'' p m = (if p \<in> ps then Inr () else Inl (missing_permission p m))"
  by (simp_all add: cs_actor_def requirePermission_def authorize_def requireNotPaused_def pauseOn_def can_def)

abbreviation cs_person :: actor where "cs_person \<equiv> cs_actor ''u'' {P_characters_claim}"
abbreviation cs_officer :: actor where "cs_officer \<equiv> cs_actor ''o'' {P_characters_assign, P_characters_unassign}"

lemma cs_start_ok: "claims_ok (0, cs_start)"
  by (simp add: claims_ok_iff links_ok_def users_ok_def challenges_ok_def own_count_def unfinished_def user_key_def
      owner_key_def owns_def)

lemma cs_guild_of: "guild_of [cs_guild] (cs_actor u ps) = Inr cs_guild"
  by (simp add: guild_of_def authorize_def)

lemma cs_start_characters: "cd_characters cs_start =
    [\<lparr>ch_id = ''1'', ch_name = ''A'', ch_world = ''W'', ch_dc = None, ch_hint = None, ch_profile = None\<rparr>]"
  by (simp add: cs_start_def)

lemma cs_char: "list_ex (\<lambda>c. ch_id c = i) (cd_characters cs_start) = (i = ''1'')"
  by (auto simp: cs_start_def)

lemma cs_start_guild: "guild_of (cd_guilds cs_start) (cs_actor u ps) = Inr cs_guild"
  by (simp add: cs_guild_of)

text \<open>The member claims a second character.\<close>

lemma cs_claimed:
  "\<exists>ch d. claim_character (cs_world 0 ''c'') cs_start cs_person cs_identity True cs_start =
      Inr (ClaimPending ch (token_prefix @ base64url cs_bytes) ''c'' 100000, d) \<and>
    people_links d = [cs_link] \<and> cd_guilds d = [cs_guild] \<and> claim_users d = [cs_user\<lparr>gu_present := True, gu_joined := Some 5\<rparr>] \<and>
    cd_challenges d = [new_challenge (cs_world 0 ''c'') cs_person ''2'']"
  by (simp add: claim_character_def cs_guild_of claim_transaction_def Let_def holder_of_def claim_new_def claim_limits_def
      unfinished_def replace_live_def new_challenge_def issue_token_def character_ref_def ensureUser_def first_expiry_def
      people_links_def storeCharacter_def cs_char in_users_def in_people_def)

lemma cs_length: "length (cw_bytes (cs_world now row)) = 32" "\<forall>b \<in> set (cw_bytes (cs_world now row)). b < 256"
  by (simp_all add: cs_bytes_def)

lemma cs_claim_run:
  assumes "claim_character (cs_world 0 ''c'') cs_start cs_person cs_identity True cs_start = Inr (r, d)"
  shows "rtranclp claims_step (0, cs_start) (0, d)"
  using claims_step.Claim [OF assms, of 0] by (simp add: challenge_ids_def r_into_rtranclp)

theorem character_ownership_witness:
  "\<exists>d c. rtranclp claims_step (0, cs_start) (0, d) \<and> unfinished 0 (cd_challenges d) = [c] \<and>
     length (filter (vc_own ''g'' ''u'') (unfinished 0 (cd_challenges d))) \<le> 5 \<and>
     length (unfinished 0 (cd_challenges d)) \<le> 1000 \<and>
     (\<forall>x \<in> set (cd_challenges d). vc_live x \<longrightarrow> vc_key x = vc_key c \<longrightarrow> x = c) \<and>
     (\<forall>l \<in> set (people_links d). lk_active l \<longrightarrow> lk_guild l = ''g'' \<longrightarrow> lk_character l = ''1'' \<longrightarrow> l = cs_link) \<and>
     (\<exists>l \<in> set (people_links d). lk_guild l = ''g'' \<and> lk_user l = ''u'' \<and> lk_character l = ''1'' \<and> lk_active l)"
proof -
  obtain ch d where d: "claim_character (cs_world 0 ''c'') cs_start cs_person cs_identity True cs_start =
      Inr (ClaimPending ch (token_prefix @ base64url cs_bytes) ''c'' 100000, d)"
    "people_links d = [cs_link]" "claim_users d = [cs_user\<lparr>gu_present := True, gu_joined := Some 5\<rparr>]"
    "cd_challenges d = [new_challenge (cs_world 0 ''c'') cs_person ''2'']"
    using cs_claimed by blast
  let ?c = "new_challenge (cs_world 0 ''c'') cs_person ''2''"
  have run: "rtranclp claims_step (0, cs_start) (0, d)" by (rule cs_claim_run [OF d(1)])
  note own = character_ownership [OF run cs_start_ok]
  have c: "vc_live ?c" "?c \<in> set (cd_challenges d)" "unfinished 0 (cd_challenges d) = [?c]"
    by (simp_all add: d(4) new_challenge_def vc_live_def unfinished_def)
  have l: "cs_link \<in> set (people_links d)" by (simp add: d(2))
  have u: "cs_user\<lparr>gu_present := True, gu_joined := Some 5\<rparr> \<in> set (claim_users d)" by (simp add: d(3))
  have "\<forall>x \<in> set (cd_challenges d). vc_live x \<longrightarrow> vc_key x = vc_key ?c \<longrightarrow> x = ?c" using own c(1,2) by blast
  moreover have "\<forall>x \<in> set (people_links d). lk_active x \<longrightarrow> lk_guild x = ''g'' \<longrightarrow> lk_character x = ''1'' \<longrightarrow> x = cs_link"
    using conjunct1 [OF own] l by simp
  moreover have "\<exists>l \<in> set (people_links d). lk_guild l = ''g'' \<and> lk_user l = ''u'' \<and> lk_character l = ''1'' \<and> lk_active l"
    using bspec [OF conjunct2 [OF conjunct2 [OF conjunct2 [OF conjunct2 [OF own]]]] u] by simp
  ultimately show ?thesis using own run c(3) by blast
qed

definition cs_profile :: identity where
  "cs_profile = \<lparr>id_id = ''2'', id_name = ''B'', id_world = ''W'', id_dc = ''D'',
     id_fc = None, id_biography = Some ([10] @ (token_prefix @ base64url cs_bytes) @ [10])\<rparr>"

lemma cs_profile_simps [simp]:
  "id_id cs_profile = ''2''" "id_biography cs_profile = Some ([10] @ (token_prefix @ base64url cs_bytes) @ [10])"
  by (simp_all add: cs_profile_def)

lemma cs_page:
  "cw_profile (cs_world now row) ''2'' = Inr cs_profile"
  by (simp add: cs_world_def cs_profile_def)

lemma cs_proven: "proven (cs_world 10 ''v'') cs_person ''2'' cs_profile
     (new_challenge (cs_world 0 ''c'') cs_person ''2'')"
proof -
  let ?t = "issue_token (cs_world 0 ''c'')"
  have "?t \<in> set (tokens_in ([10] @ ?t @ [10]))"
    by (rule tokens_in_found [OF issue_token_shape [OF cs_length]]) (simp add: is_token_unit_def)
  then show ?thesis by (auto simp: proven_def list_ex_iff new_challenge_def issue_token_def)
qed

theorem verified_link_proven_witness:
  "\<exists>d link mode evidence d'. verify (cs_world 10 ''v'') cs_start cs_person ''2'' d = Inr (Verified link mode evidence, d') \<and>
     (\<exists>c \<in> set (cd_challenges d). vc_character c = ''2'' \<and> vc_consumed c = None \<and> vc_expires c > 10 \<and>
        cd_challenges d' = map (\<lambda>x. if x = c then c\<lparr>vc_consumed := Some 10\<rparr> else x) (cd_challenges d)) \<and>
     (\<exists>l \<in> set (people_links d'). lk_user l = ''u'' \<and> lk_character l = ''2'' \<and> lk_active l)"
proof -
  obtain ch d where d: "claim_character (cs_world 0 ''c'') cs_start cs_person cs_identity True cs_start =
      Inr (ClaimPending ch (token_prefix @ base64url cs_bytes) ''c'' 100000, d)"
    "people_links d = [cs_link]" "cd_challenges d = [new_challenge (cs_world 0 ''c'') cs_person ''2'']"
    using cs_claimed by blast
  let ?c = "new_challenge (cs_world 0 ''c'') cs_person ''2''"
  have n: "newest_challenge d (act_guild cs_person) (act_user cs_person) ''2'' = Some ?c"
    by (simp add: newest_challenge_def Let_def d(3) new_challenge_def vc_of_def)
  have h: "holder_of d (act_guild cs_person) ''2'' = None" by (simp add: holder_of_def d(2))
  obtain link mode evidence d' where v: "verify (cs_world 10 ''v'') cs_start cs_person ''2'' d =
      Inr (Verified link mode evidence, d')"
    using verify_completes [OF _ cs_start_guild cs_page _ n _ _ _ cs_proven h]
    by (auto simp: new_challenge_def vc_live_def)
  note facts = verified_link_proven [OF cs_claim_run [OF d(1)] cs_start_ok v]
  have "\<exists>c \<in> set (cd_challenges d). vc_character c = ''2'' \<and> vc_consumed c = None \<and> vc_expires c > 10 \<and>
      cd_challenges d' = map (\<lambda>x. if x = c then c\<lparr>vc_consumed := Some 10\<rparr> else x) (cd_challenges d)"
  proof -
    from conjunct1 [OF facts] obtain c where c: "c \<in> set (cd_challenges d)" "vc_character c = ''2''" "vc_consumed c = None"
        "vc_expires c > cw_clock (cs_world 10 ''v'')"
        "cd_challenges d' = map (\<lambda>x. if x = c then c\<lparr>vc_consumed := Some (cw_clock (cs_world 10 ''v''))\<rparr> else x)
           (cd_challenges d)" by blast
    show ?thesis using c(1-4) c(5) unfolding cs_world_simps by blast
  qed
  moreover have "\<exists>l \<in> set (people_links d'). lk_user l = ''u'' \<and> lk_character l = ''2'' \<and> lk_active l"
    using conjunct2 [OF facts] by auto
  ultimately show ?thesis using v by blast
qed

theorem claim_then_verify_witness:
  "\<exists>ch d link mode evidence d'. claim_character (cs_world 0 ''c'') cs_start cs_person cs_identity True cs_start =
       Inr (ClaimPending ch (token_prefix @ base64url cs_bytes) ''c'' 100000, d) \<and>
     verify (cs_world 10 ''v'') cs_start cs_person ''2'' d = Inr (Verified link mode evidence, d') \<and>
     tr_created link \<and> tr_id link = ''v''"
proof -
  obtain ch d where d: "claim_character (cs_world 0 ''c'') cs_start cs_person cs_identity True cs_start =
      Inr (ClaimPending ch (token_prefix @ base64url cs_bytes) ''c'' 100000, d)"
    using cs_claimed by blast
  have "\<exists>link mode evidence d'. verify (cs_world 10 ''v'') cs_start cs_person (id_id cs_identity) d =
      Inr (Verified link mode evidence, d') \<and> tr_created link \<and> tr_id link = cw_row (cs_world 10 ''v'')"
    by (rule claim_then_verify [OF d cs_length, where pre = "[10]" and post = "[10]" and row = cs_guild and profile = cs_profile])
      (simp_all add: cs_page cs_guild_of is_token_unit_def)
  then show ?thesis using d by auto
qed

definition cs_text :: text16 where "cs_text = [97, 98, 99]"

lemma cs_note: "parse_note cs_text LabelReason = Inr cs_text"
  by (simp add: parse_note_Inr_iff cs_text_def js_trim_def is_js_space_def)

theorem rank_links_need_manager_witness:
  "\<exists>s d. assign (cs_world 0 ''a'') cs_start cs_officer ''u'' cs_identity cs_text cs_start = Inr (s, d) \<and>
     tr_created (as_link s) \<and> rank_links d = [cs_link]"
proof -
  have "\<exists>s d. assign (cs_world 0 ''a'') cs_start cs_officer ''u'' cs_identity cs_text cs_start = Inr (s, d) \<and>
      tr_created (as_link s)"
    by (simp add: assign_def cs_guild_of cs_note assign_transaction_def Let_def trust_def character_of_def
        storeCharacter_def cs_char holder_of_def people_links_def in_users_def in_people_def insert_link_def
        cs_start_characters)
  then obtain s d where s: "assign (cs_world 0 ''a'') cs_start cs_officer ''u'' cs_identity cs_text cs_start = Inr (s, d)"
      "tr_created (as_link s)" by blast
  have "rank_links d = rank_links cs_start"
    by (rule rank_links_need_manager [OF rtranclp.rtrancl_refl cs_start_ok, of cs_officer])
      (use s(1) in auto)
  then show ?thesis using s by (auto simp: rank_links_def linkConfersRank_def)
qed

theorem preferences_settle_witness:
  "\<exists>p d. preferences (cs_world 0 ''p'') cs_start cs_person None (Some False) cs_start = Inr (p, d) \<and> pf_changed p \<and>
     preferences (cs_world 1 ''q'') cs_start cs_person None (Some False) d = Inr (p\<lparr>pf_changed := False\<rparr>, d)"
proof -
  have "\<exists>p d. preferences (cs_world 0 ''p'') cs_start cs_person None (Some False) cs_start = Inr (p, d) \<and> pf_changed p"
    by (simp add: preferences_def cs_guild_of preferences_transaction_def main_owned_def given_def sync_changes_def
        user_row_of_def user_of_def preferences_result_of_def Let_def)
  then obtain p d where p: "preferences (cs_world 0 ''p'') cs_start cs_person None (Some False) cs_start = Inr (p, d)"
      "pf_changed p" by blast
  have "preferences (cs_world 1 ''q'') cs_start cs_person None (Some False) d = Inr (p\<lparr>pf_changed := False\<rparr>, d)"
    by (rule preferences_settle [OF rtranclp.rtrancl_refl cs_start_ok _ p(1)]) simp_all
  then show ?thesis using p by blast
qed

end
