(* ===== verification/ModmailCipher.thy ===== *)
theory ModmailCipher
  imports Encodings
begin

text \<open>
  Mod mail's encryption, \<open>src/infrastructure/modmail/cipher.ts\<close>: the key's format, the AAD that binds a
  ciphertext to its row, padding, and what is stored. AES-256-GCM and HMAC-SHA256 of \<open>node:crypto\<close> are
  arguments (\<open>crypto\<close>); \<open>crypto_ok\<close> says what GCM documents: opening what was sealed under the same key,
  nonce and associated data gives it back, the ciphertext is as long as the text, and the tag is 16 bytes.
  No more is assumed: a 16 byte tag cannot rule out that a ciphertext opens under other associated data.
  \<open>forged\<close> says that it does, which is what GCM's authentication makes infeasible, and statements about moved
  ciphertexts name it as their only exception.
\<close>

section \<open>The primitives\<close>

record crypto =
  cr_seal :: "nat list \<Rightarrow> nat list \<Rightarrow> nat list \<Rightarrow> nat list \<Rightarrow> nat list \<times> nat list"
  cr_open :: "nat list \<Rightarrow> nat list \<Rightarrow> nat list \<Rightarrow> nat list \<Rightarrow> nat list \<Rightarrow> nat list option"
  cr_mac :: "nat list \<Rightarrow> ident \<Rightarrow> ident"

definition crypto_ok :: "crypto \<Rightarrow> bool" where
  "crypto_ok C \<longleftrightarrow>
     (\<forall>k n a p. cr_open C k n a (fst (cr_seal C k n a p)) (snd (cr_seal C k n a p)) = Some p \<and>
        length (fst (cr_seal C k n a p)) = length p \<and> length (snd (cr_seal C k n a p)) = 16 \<and>
        list_all (\<lambda>b. b < 256) (snd (cr_seal C k n a p)))"

definition forged :: "crypto \<Rightarrow> nat list \<Rightarrow> nat list \<Rightarrow> nat list \<Rightarrow> nat list \<Rightarrow> nat list \<Rightarrow> bool" where
  "forged C k n a p a' \<longleftrightarrow>
     a' \<noteq> a \<and> cr_open C k n a' (fst (cr_seal C k n a p)) (snd (cr_seal C k n a p)) \<noteq> None"

lemma crypto_okD:
  assumes "crypto_ok C" "cr_seal C k n a p = (c, t)"
  shows "cr_open C k n a c t = Some p" "length c = length p" "length t = 16"
proof -
  have "fst (cr_seal C k n a p) = c" "snd (cr_seal C k n a p) = t" using assms(2) by simp_all
  then show "cr_open C k n a c t = Some p" "length c = length p" "length t = 16"
    using assms(1) unfolding crypto_ok_def by metis+
qed

section \<open>The associated data\<close>

datatype message_side = MemberSide | OfficerSide
datatype signing = SignName | SignOfficers
datatype entry_kind = EntryMessage | EntryClosed | EntryReopened

fun side_name :: "message_side \<Rightarrow> string" where
  "side_name MemberSide = ''member''" | "side_name OfficerSide = ''officer''"

fun signing_name :: "signing option \<Rightarrow> string" where
  "signing_name None = ''none''"
| "signing_name (Some SignName) = ''name''"
| "signing_name (Some SignOfficers) = ''officers''"

fun kind_name :: "entry_kind \<Rightarrow> string" where
  "kind_name EntryMessage = ''message''" | "kind_name EntryClosed = ''closed''" | "kind_name EntryReopened = ''reopened''"

record case_binding =
  cb_guild :: ident
  cb_case :: ident
  cb_opener :: ident

record message_binding =
  mg_id :: ident
  mg_author :: ident
  mg_side :: message_side
  mg_signed :: "signing option"
  mg_kind :: entry_kind

datatype cipher_field = TopicField | MessageField message_binding

definition is_digit :: "char \<Rightarrow> bool" where
  "is_digit c \<longleftrightarrow> c \<in> set ''0123456789''"

definition is_hex :: "char \<Rightarrow> bool" where
  "is_hex c \<longleftrightarrow> c \<in> set ''0123456789abcdef''"

definition is_snowflake :: "ident \<Rightarrow> bool" where
  "is_snowflake s \<longleftrightarrow>
     (case s of [] \<Rightarrow> False
      | c # r \<Rightarrow> is_digit c \<and> c \<noteq> CHR ''0'' \<and> length r \<le> 19 \<and> list_all is_digit r)"

definition is_uuid :: "ident \<Rightarrow> bool" where
  "is_uuid s \<longleftrightarrow>
     length s = 36 \<and>
     list_all (\<lambda>i. if i \<in> {8, 13, 18, 23} then s ! i = CHR ''-'' else is_hex (s ! i)) [0..<36]"

text \<open>ASCII lower case, which is all of \<open>toLowerCase\<close> that can reach a hexadecimal digit.\<close>

definition lower :: "ident \<Rightarrow> ident" where
  "lower s = map (\<lambda>c. if 65 \<le> (of_char c :: nat) \<and> (of_char c :: nat) \<le> 90 then char_of ((of_char c :: nat) + 32) else c) s"

definition snowflake_part :: "ident \<Rightarrow> ident option" where
  "snowflake_part s = (if is_snowflake s then Some s else None)"

definition uuid_part :: "ident \<Rightarrow> ident option" where
  "uuid_part s = (if is_uuid (lower s) then Some (lower s) else None)"

text \<open>The parts, joined by a bar; \<^const>\<open>None\<close> where the code throws.\<close>

fun join_bar :: "string list \<Rightarrow> string" where
  "join_bar [] = []"
| "join_bar [p] = p"
| "join_bar (p # q # ps) = p @ CHR ''|'' # join_bar (q # ps)"

definition AAD_VERSION :: string where "AAD_VERSION = ''tarubot-modmail-v1''"

fun sequence_parts :: "ident option list \<Rightarrow> ident list option" where
  "sequence_parts [] = Some []"
| "sequence_parts (p # ps) = Option.bind p (\<lambda>x. map_option ((#) x) (sequence_parts ps))"

definition aad_parts :: "case_binding \<Rightarrow> cipher_field \<Rightarrow> ident list option" where
  "aad_parts b f =
     sequence_parts
       (Some AAD_VERSION # Some (case f of TopicField \<Rightarrow> ''topic'' | MessageField _ \<Rightarrow> ''message'') #
        snowflake_part (cb_guild b) # uuid_part (cb_case b) # snowflake_part (cb_opener b) #
        (case f of
           TopicField \<Rightarrow> []
         | MessageField m \<Rightarrow>
             [uuid_part (mg_id m), snowflake_part (mg_author m), Some (side_name (mg_side m)),
              Some (signing_name (mg_signed m)), Some (kind_name (mg_kind m))]))"

definition fieldAad :: "case_binding \<Rightarrow> cipher_field \<Rightarrow> nat list option" where
  "fieldAad b f = map_option (\<lambda>ps. map of_char (join_bar ps)) (aad_parts b f)"

section \<open>Padding\<close>

datatype padding = PadTopic | PadMessage

definition TOPIC_PADDED :: nat where "TOPIC_PADDED = 512"
definition MESSAGE_BLOCK :: nat where "MESSAGE_BLOCK = 256"
definition NONCE_BYTES :: nat where "NONCE_BYTES = 12"
definition TAG_BYTES :: nat where "TAG_BYTES = 16"
definition SEAL_OVERHEAD :: nat where "SEAL_OVERHEAD = NONCE_BYTES + TAG_BYTES"

definition padded_size :: "padding \<Rightarrow> nat \<Rightarrow> nat" where
  "padded_size p n =
     (case p of PadTopic \<Rightarrow> TOPIC_PADDED
      | PadMessage \<Rightarrow> (n + 1 + (MESSAGE_BLOCK - 1)) div MESSAGE_BLOCK * MESSAGE_BLOCK)"

definition pad :: "text16 \<Rightarrow> padding \<Rightarrow> nat list option" where
  "pad text p =
     (let bytes = utf8 text; size = padded_size p (length bytes)
      in if length bytes + 1 > size then None
         else Some (bytes @ 128 # replicate (size - length bytes - 1) 0))"

definition unpad :: "nat list \<Rightarrow> text16 option" where
  "unpad padded =
     (case dropWhile (\<lambda>b. b = 0) (rev padded) of
        [] \<Rightarrow> None
      | b # r \<Rightarrow> if b = 128 then utf8_decode (rev r) else None)"

section \<open>The cipher\<close>

record mail_cipher =
  mc_key :: "nat list"
  mc_id :: ident

record sealed =
  se_data :: "nat list"
  se_key :: ident

definition keyIdOf :: "crypto \<Rightarrow> nat list \<Rightarrow> ident" where
  "keyIdOf C key = take 16 (cr_mac C key ''tarubot modmail key id'')"

definition MODMAIL_KEY_BYTES :: nat where "MODMAIL_KEY_BYTES = 32"

definition new_cipher :: "crypto \<Rightarrow> nat list \<Rightarrow> mail_cipher option" where
  "new_cipher C raw =
     (if length raw \<noteq> MODMAIL_KEY_BYTES then None else Some \<lparr>mc_key = raw, mc_id = keyIdOf C raw\<rparr>)"

definition encrypt ::
  "crypto \<Rightarrow> mail_cipher \<Rightarrow> nat list \<Rightarrow> text16 \<Rightarrow> nat list \<Rightarrow> padding \<Rightarrow> sealed option" where
  "encrypt C m nonce text aad p =
     map_option (\<lambda>plain. let (body, tag) = cr_seal C (mc_key m) nonce aad plain
                         in \<lparr>se_data = nonce @ body @ tag, se_key = mc_id m\<rparr>) (pad text p)"

definition decrypt :: "crypto \<Rightarrow> mail_cipher \<Rightarrow> nat list \<Rightarrow> ident \<Rightarrow> nat list \<Rightarrow> text16 option" where
  "decrypt C m data keyId aad =
     (if keyId \<noteq> mc_id m \<or> length data \<le> NONCE_BYTES + TAG_BYTES then None
      else
        (let nonce = take NONCE_BYTES data; tag = drop (length data - TAG_BYTES) data;
             body = drop NONCE_BYTES (take (length data - TAG_BYTES) data)
         in Option.bind (cr_open C (mc_key m) nonce aad body tag) unpad))"

section \<open>The key setting\<close>

datatype modmail_key = KeyOff | KeyInvalid | KeyOn mail_cipher

definition KEY_FORMAT :: "text16 \<Rightarrow> bool" where
  "KEY_FORMAT v \<longleftrightarrow> length v = 44 \<and> list_all is_base64_char (take 43 v) \<and> v ! 43 = 61"

definition readModMailKey :: "crypto \<Rightarrow> text16 option \<Rightarrow> modmail_key" where
  "readModMailKey C value =
     (case value of
        None \<Rightarrow> KeyOff
      | Some v \<Rightarrow>
          if v = [] then KeyOff
          else if \<not> KEY_FORMAT v then KeyInvalid
          else
            (let raw = from_base64 v
             in if length raw \<noteq> MODMAIL_KEY_BYTES \<or> base64 raw \<noteq> v then KeyInvalid
                else (case new_cipher C raw of Some m \<Rightarrow> KeyOn m | None \<Rightarrow> KeyInvalid)))"

section \<open>The associated data names the row\<close>

lemma join_bar_Cons: "join_bar (p # ps) = p @ (if ps = [] then [] else CHR ''|'' # join_bar ps)"
  by (cases ps) simp_all

lemma split_bar:
  assumes "CHR ''|'' \<notin> set p" "CHR ''|'' \<notin> set q"
    "p @ (if ps = [] then [] else CHR ''|'' # x) = q @ (if qs = [] then [] else CHR ''|'' # y)"
  shows "p = q \<and> (ps = []) = (qs = []) \<and> (ps \<noteq> [] \<longrightarrow> x = y)"
proof (cases "ps = []")
  case True
  show ?thesis
  proof (cases "qs = []")
    case False
    then have "p = q @ CHR ''|'' # y" using True assms(3) by simp
    then show ?thesis using assms(1) by simp
  qed (use True assms(3) in simp)
next
  case False
  show ?thesis
  proof (cases "qs = []")
    case True
    then have "q = p @ CHR ''|'' # x" using False assms(3) by simp
    then show ?thesis using assms(2) by simp
  next
    case nq: False
    then have "p @ CHR ''|'' # x = q @ CHR ''|'' # y" using False assms(3) by simp
    then have "takeWhile (\<lambda>c. c \<noteq> CHR ''|'') (p @ CHR ''|'' # x) = takeWhile (\<lambda>c. c \<noteq> CHR ''|'') (q @ CHR ''|'' # y)" by simp
    moreover have "takeWhile (\<lambda>c. c \<noteq> CHR ''|'') (p @ CHR ''|'' # x) = p" "takeWhile (\<lambda>c. c \<noteq> CHR ''|'') (q @ CHR ''|'' # y) = q"
      using assms(1,2) by (simp_all add: takeWhile_tail) (metis takeWhile_eq_all_conv)+
    ultimately show ?thesis using False nq assms(3) by simp
  qed
qed

lemma join_bar_inj:
  assumes "\<forall>p \<in> set ps. CHR ''|'' \<notin> set p" "\<forall>q \<in> set qs. CHR ''|'' \<notin> set q" "(ps = []) = (qs = [])"
    "join_bar ps = join_bar qs"
  shows "ps = qs"
  using assms
proof (induction ps arbitrary: qs)
  case (Cons p ps)
  then obtain q qs' where q: "qs = q # qs'" by (cases qs) simp_all
  have "p = q \<and> (ps = []) = (qs' = []) \<and> (ps \<noteq> [] \<longrightarrow> join_bar ps = join_bar qs')"
    using Cons.prems unfolding q join_bar_Cons by (intro split_bar) simp_all
  then show ?case using Cons q by auto
qed simp

lemma sequence_parts_iff: "sequence_parts ps = Some xs \<longleftrightarrow> ps = map Some xs"
proof (induction ps arbitrary: xs)
  case (Cons p ps)
  then show ?case by (cases p; cases xs) auto
qed auto

lemma part_no_bar:
  shows "snowflake_part s = Some x \<Longrightarrow> CHR ''|'' \<notin> set x" "uuid_part s = Some x \<Longrightarrow> CHR ''|'' \<notin> set x"
    "CHR ''|'' \<notin> set (side_name sd)" "CHR ''|'' \<notin> set (signing_name sg)" "CHR ''|'' \<notin> set (kind_name k)"
proof -
  show "snowflake_part s = Some x \<Longrightarrow> CHR ''|'' \<notin> set x"
  proof -
    assume "snowflake_part s = Some x"
    then have "list_all is_digit x"
      by (auto simp: snowflake_part_def is_snowflake_def split: if_splits list.splits)
    moreover have "\<not> is_digit CHR ''|''" by (simp add: is_digit_def)
    ultimately show ?thesis by (auto simp: list_all_iff)
  qed
  show "CHR ''|'' \<notin> set x" if u: "uuid_part s = Some x"
  proof
    assume "CHR ''|'' \<in> set x"
    then obtain i where i: "i < length x" "x ! i = CHR ''|''" by (auto simp: in_set_conv_nth)
    from u have "is_uuid x" by (simp add: uuid_part_def split: if_splits)
    then have n: "length x = 36" and p: "\<forall>i \<in> set [0..<36]. if i \<in> {8, 13, 18, 23} then x ! i = CHR ''-'' else is_hex (x ! i)"
      unfolding is_uuid_def list_all_iff by blast+
    have "i \<in> set [0..<36]" using i(1) n by (simp only: set_upt atLeastLessThan_iff) simp
    then have "x ! i = CHR ''-'' \<or> is_hex (x ! i)" using bspec [OF p] by metis
    with i(2) show False by (simp add: is_hex_def)
  qed
  show "CHR ''|'' \<notin> set (side_name sd)" by (cases sd) simp_all
  show "CHR ''|'' \<notin> set (signing_name sg)" by (cases sg rule: signing_name.cases) simp_all
  show "CHR ''|'' \<notin> set (kind_name k)" by (cases k) simp_all
qed

definition clean :: "ident option \<Rightarrow> bool" where
  "clean p \<longleftrightarrow> (case p of Some x \<Rightarrow> CHR ''|'' \<notin> set x | None \<Rightarrow> True)"

lemma clean_parts [simp]:
  "clean (snowflake_part s)" "clean (uuid_part s)" "clean (Some (side_name sd))" "clean (Some (signing_name sg))"
  "clean (Some (kind_name k))" "clean (Some AAD_VERSION)" "clean (Some ''topic'')" "clean (Some ''message'')"
proof -
  show "clean (snowflake_part s)" using part_no_bar(1) [of s] by (cases "snowflake_part s") (simp_all add: clean_def)
  show "clean (uuid_part s)" using part_no_bar(2) [of s] by (cases "uuid_part s") (simp_all add: clean_def)
  show "clean (Some (side_name sd))" "clean (Some (signing_name sg))" "clean (Some (kind_name k))"
    unfolding clean_def option.case by (rule part_no_bar)+
  show "clean (Some AAD_VERSION)" "clean (Some ''topic'')" "clean (Some ''message'')"
    by (simp_all add: clean_def AAD_VERSION_def)
qed

lemma aad_parts_no_bar:
  assumes "aad_parts b f = Some ps" shows "\<forall>p \<in> set ps. CHR ''|'' \<notin> set p" "ps \<noteq> []"
proof -
  have m: "map Some ps = Some AAD_VERSION # Some (case f of TopicField \<Rightarrow> ''topic'' | MessageField _ \<Rightarrow> ''message'') #
        snowflake_part (cb_guild b) # uuid_part (cb_case b) # snowflake_part (cb_opener b) #
        (case f of TopicField \<Rightarrow> []
         | MessageField m \<Rightarrow> [uuid_part (mg_id m), snowflake_part (mg_author m), Some (side_name (mg_side m)),
              Some (signing_name (mg_signed m)), Some (kind_name (mg_kind m))])"
    using assms unfolding aad_parts_def sequence_parts_iff by simp
  then show "ps \<noteq> []" by auto
  have "list_all clean (map Some ps)" unfolding m by (cases f) simp_all
  then show "\<forall>p \<in> set ps. CHR ''|'' \<notin> set p" by (simp add: list_all_iff clean_def)
qed

text \<open>What a part leaves of an ID: itself, or its lower case.\<close>

definition same_row :: "case_binding \<Rightarrow> cipher_field \<Rightarrow> case_binding \<Rightarrow> cipher_field \<Rightarrow> bool" where
  "same_row b f b' f' \<longleftrightarrow>
     cb_guild b' = cb_guild b \<and> lower (cb_case b') = lower (cb_case b) \<and> cb_opener b' = cb_opener b \<and>
     (case (f, f') of
        (TopicField, TopicField) \<Rightarrow> True
      | (MessageField m, MessageField m') \<Rightarrow>
          lower (mg_id m') = lower (mg_id m) \<and> mg_author m' = mg_author m \<and> mg_side m' = mg_side m \<and>
          mg_signed m' = mg_signed m \<and> mg_kind m' = mg_kind m
      | _ \<Rightarrow> False)"

lemma name_inj [simp]:
  "side_name a = side_name b \<longleftrightarrow> a = b" "kind_name k = kind_name l \<longleftrightarrow> k = l"
  "signing_name x = signing_name y \<longleftrightarrow> x = y"
proof -
  show "side_name a = side_name b \<longleftrightarrow> a = b" by (cases a; cases b) simp_all
  show "kind_name k = kind_name l \<longleftrightarrow> k = l" by (cases k; cases l) simp_all
  show "signing_name x = signing_name y \<longleftrightarrow> x = y"
    by (cases x rule: signing_name.cases; cases y rule: signing_name.cases) simp_all
qed

lemma part_Some_eq:
  "snowflake_part s = Some x \<Longrightarrow> x = s" "uuid_part s = Some x \<Longrightarrow> x = lower s"
  by (auto simp: snowflake_part_def uuid_part_def split: if_splits)

lemma aad_same_row:
  assumes "fieldAad b f = Some x" "fieldAad b' f' = Some x"
  shows "same_row b f b' f'"
proof -
  obtain ps qs where p: "aad_parts b f = Some ps" "x = map of_char (join_bar ps)"
    and q: "aad_parts b' f' = Some qs" "x = map of_char (join_bar qs)"
    using assms by (auto simp: fieldAad_def)
  have "inj (of_char :: char \<Rightarrow> nat)" by (simp add: inj_on_def)
  then have "join_bar ps = join_bar qs" using p(2) q(2) by (metis inj_map_eq_map)
  then have e: "ps = qs"
    using aad_parts_no_bar [OF p(1)] aad_parts_no_bar [OF q(1)] by (intro join_bar_inj) simp_all
  show ?thesis
    using p(1) q(1) unfolding e aad_parts_def sequence_parts_iff same_row_def
    by (cases f; cases f') (auto dest!: part_Some_eq simp: sequence_parts_iff)
qed

section \<open>What is sealed is read back\<close>

lemma padded_room:
  assumes "pad text p = Some plain" shows "length plain = padded_size p (length (utf8 text))"
  using assms by (auto simp: pad_def Let_def split: if_splits)

lemma unpad_pad:
  assumes "pad text p = Some plain" "is_well_formed text" "units_ok text" "text = [] \<or> hd text \<noteq> 65279"
  shows "unpad plain = Some text"
proof -
  obtain n where n: "plain = utf8 text @ 128 # replicate n 0"
    using assms(1) by (auto simp: pad_def Let_def split: if_splits)
  have "dropWhile (\<lambda>b. b = 0) (replicate n 0 @ 128 # rev (utf8 text)) = 128 # rev (utf8 text)"
    by (induction n) simp_all
  then show ?thesis using utf8_decode_utf8 [OF assms(2-4)] by (simp add: unpad_def n)
qed

lemma encrypt_data:
  assumes "crypto_ok C" "encrypt C m nonce text aad p = Some s" "length nonce = NONCE_BYTES"
  shows "length (se_data s) = SEAL_OVERHEAD + padded_size p (length (utf8 text))" "se_key s = mc_id m"
proof -
  obtain plain where p: "pad text p = Some plain" using assms(2) by (auto simp: encrypt_def)
  obtain body tag where b: "cr_seal C (mc_key m) nonce aad plain = (body, tag)" by fastforce
  have s: "s = \<lparr>se_data = nonce @ body @ tag, se_key = mc_id m\<rparr>" using assms(2) p b by (simp add: encrypt_def)
  show "se_key s = mc_id m" by (simp add: s)
  show "length (se_data s) = SEAL_OVERHEAD + padded_size p (length (utf8 text))"
    using crypto_okD [OF assms(1) b] padded_room [OF p] assms(3)
    by (simp add: s SEAL_OVERHEAD_def NONCE_BYTES_def TAG_BYTES_def)
qed

lemma decrypt_sealed:
  assumes ok: "crypto_ok C" and e: "encrypt C m nonce text aad p = Some s" and n: "length nonce = NONCE_BYTES"
  obtains plain body tag where "pad text p = Some plain" "cr_seal C (mc_key m) nonce aad plain = (body, tag)"
    "\<And>aad'. decrypt C m (se_data s) (se_key s) aad' = Option.bind (cr_open C (mc_key m) nonce aad' body tag) unpad"
proof -
  obtain plain where p: "pad text p = Some plain" using e by (auto simp: encrypt_def)
  obtain body tag where b: "cr_seal C (mc_key m) nonce aad plain = (body, tag)" by fastforce
  have s: "s = \<lparr>se_data = nonce @ body @ tag, se_key = mc_id m\<rparr>" using e p b by (simp add: encrypt_def)
  note k = crypto_okD [OF ok b]
  have "length plain > 0" using p by (auto simp: pad_def Let_def split: if_splits)
  then have "decrypt C m (se_data s) (se_key s) aad' = Option.bind (cr_open C (mc_key m) nonce aad' body tag) unpad" for aad'
    using k n by (simp add: decrypt_def s NONCE_BYTES_def TAG_BYTES_def Let_def)
  then show ?thesis using that [OF p b] by blast
qed

lemma decrypt_encrypt:
  assumes "crypto_ok C" "encrypt C m nonce text aad p = Some s" "length nonce = NONCE_BYTES"
    "is_well_formed text" "units_ok text" "text = [] \<or> hd text \<noteq> 65279"
  shows "decrypt C m (se_data s) (se_key s) aad = Some text"
proof (rule decrypt_sealed [OF assms(1-3)])
  fix plain body tag
  assume p: "pad text p = Some plain" and b: "cr_seal C (mc_key m) nonce aad plain = (body, tag)"
    and d: "\<And>aad'. decrypt C m (se_data s) (se_key s) aad' = Option.bind (cr_open C (mc_key m) nonce aad' body tag) unpad"
  show ?thesis unfolding d crypto_okD(1) [OF assms(1) b] using unpad_pad [OF p assms(4-6)] by simp
qed

lemma decrypt_elsewhere:
  assumes "crypto_ok C" "encrypt C m nonce text aad p = Some s" "length nonce = NONCE_BYTES" "aad' \<noteq> aad"
  shows "decrypt C m (se_data s) (se_key s) aad' = None \<or> (\<exists>plain. pad text p = Some plain \<and> forged C (mc_key m) nonce aad plain aad')"
proof (rule decrypt_sealed [OF assms(1-3)])
  fix plain body tag
  assume pl: "pad text p = Some plain" and b: "cr_seal C (mc_key m) nonce aad plain = (body, tag)"
    and d: "\<And>aad'. decrypt C m (se_data s) (se_key s) aad' = Option.bind (cr_open C (mc_key m) nonce aad' body tag) unpad"
  show ?thesis unfolding d forged_def using pl b assms(4) by (cases "cr_open C (mc_key m) nonce aad' body tag") simp_all
qed

lemma pad_message: "\<exists>plain. pad text PadMessage = Some plain"
proof -
  let ?n = "length (utf8 text)"
  have "?n + 1 \<le> (?n + 1 + 255) div 256 * 256"
    using div_mult_mod_eq [of "?n + 1 + 255" 256] mod_less_divisor [of 256 "?n + 1 + 255"] by linarith
  then show ?thesis by (simp add: pad_def Let_def padded_size_def MESSAGE_BLOCK_def)
qed

lemma pad_topic: "length (code_points t) \<le> 100 \<Longrightarrow> \<exists>plain. pad t PadTopic = Some plain"
  using length_utf8 [of t] by (simp add: pad_def Let_def padded_size_def TOPIC_PADDED_def)

text \<open>The CHECKs of the tables: every topic has 540 bytes, a body 28 and whole blocks.\<close>

lemma topic_length:
  assumes "crypto_ok C" "encrypt C m nonce text aad PadTopic = Some s" "length nonce = NONCE_BYTES"
  shows "length (se_data s) = 540"
  using encrypt_data(1) [OF assms] by (simp add: padded_size_def TOPIC_PADDED_def SEAL_OVERHEAD_def NONCE_BYTES_def TAG_BYTES_def)

lemma body_length:
  assumes "crypto_ok C" "encrypt C m nonce text aad PadMessage = Some s" "length nonce = NONCE_BYTES"
  shows "284 \<le> length (se_data s)" "(length (se_data s) - 28) mod 256 = 0"
proof -
  have e: "length (se_data s) = 28 + (length (utf8 text) + 1 + 255) div 256 * 256"
    using encrypt_data(1) [OF assms] by (simp add: padded_size_def MESSAGE_BLOCK_def SEAL_OVERHEAD_def NONCE_BYTES_def TAG_BYTES_def)
  have "1 \<le> (length (utf8 text) + 1 + 255) div 256" by (simp add: less_eq_div_iff_mult_less_eq)
  then show "284 \<le> length (se_data s)" unfolding e by linarith
  show "(length (se_data s) - 28) mod 256 = 0" unfolding e by simp
qed

section \<open>One spelling for a key\<close>

lemma readModMailKey_on:
  "readModMailKey C (Some v) = KeyOn m \<longleftrightarrow>
     (\<exists>raw. length raw = 32 \<and> from_base64 v = raw \<and> base64 raw = v \<and> KEY_FORMAT v \<and> m = \<lparr>mc_key = raw, mc_id = keyIdOf C raw\<rparr>)"
  by (auto simp: readModMailKey_def Let_def new_cipher_def MODMAIL_KEY_BYTES_def KEY_FORMAT_def)

lemma base64_key_format:
  assumes "length raw = 32" "\<forall>b \<in> set raw. b < 256" shows "KEY_FORMAT (base64 raw)"
proof -
  have n: "length (sextets raw) = 43" using assms(1) by (simp add: length_sextets)
  have "\<forall>n \<in> set (sextets raw). n < 64" by (rule sextets_bound [OF assms(2)])
  then have "list_all is_base64_char (map base64_char (sextets raw))" using base64_char_ok by (auto simp: list_all_iff)
  then show ?thesis using n by (simp add: KEY_FORMAT_def base64_def Let_def nth_append)
qed

text \<open>A key is accepted exactly in the spelling base64 gives its 32 bytes.\<close>

lemma readModMailKey_base64:
  assumes "length raw = 32" "\<forall>b \<in> set raw. b < 256"
  shows "readModMailKey C (Some (base64 raw)) = KeyOn \<lparr>mc_key = raw, mc_id = keyIdOf C raw\<rparr>"
  unfolding readModMailKey_on using assms from_base64_base64 [OF assms(2)] base64_key_format [OF assms] by blast

end
