(* ===== verification/Modmail.thy ===== *)
theory Modmail
  imports Members ModmailCipher
begin

text \<open>
  Mod mail: its rules (\<open>src/domain/modmail.ts\<close>) and its operations (\<open>src/application/modmail.ts\<close>). A
  member opens a case, both sides reply, close and reopen it, officers read their inbox, every read is
  recorded, pings and DMs go through jobs, and closed cases are deleted after 90 days. Each operation is
  one transaction over the tables; a thread's rows are kept in the order of their \<open>seq\<close>. Texts are
  UTF-16 code units; the cipher's primitives, fresh IDs and nonces, and the
  payload check of an ID (\<open>z.uuid()\<close>) are arguments.
\<close>

section \<open>Rules\<close>

datatype case_state = WaitOfficers | WaitMember | CaseClosed
datatype inbox_filter = FilterOpen | FilterState case_state
datatype ping_event = PingOpened | PingReply

definition OPEN_CASES :: nat where "OPEN_CASES = 3"
definition DAILY_CASES :: nat where "DAILY_CASES = 5"
definition TOPIC_CHARS :: nat where "TOPIC_CHARS = 100"
definition MESSAGE_CHARS :: nat where "MESSAGE_CHARS = 4000"
definition MESSAGES_PER_CASE :: nat where "MESSAGES_PER_CASE = 500"
definition RETENTION_DAYS :: int where "RETENTION_DAYS = 90"
definition NOTIFY_COALESCE_SECONDS :: int where "NOTIFY_COALESCE_SECONDS = 600"
definition MODMAIL_PING_KIND :: string where "MODMAIL_PING_KIND = ''modmail.ping''"
definition MODMAIL_DM_KIND :: string where "MODMAIL_DM_KIND = ''modmail.dm''"

definition ping_key :: "ident \<Rightarrow> string" where "ping_key i = ''modmail:ping:'' @ i"
definition case_dm_key :: "ident \<Rightarrow> string" where "case_dm_key i = ''modmail:dm:'' @ i"

definition caseUrl :: "text16 \<Rightarrow> ident \<Rightarrow> nat \<Rightarrow> text16" where
  "caseUrl origin guild number =
     origin @ units ''/g/'' @ units guild @ units ''/modmail/'' @ decimal number"

definition mayUse :: "actor \<Rightarrow> bool" where
  "mayUse a \<longleftrightarrow> holds a P_modmail_open \<and> act_bot_administrator a = Some False"

definition mayOpen :: "actor \<Rightarrow> bool" where
  "mayOpen a \<longleftrightarrow> mayUse a \<and> can a P_modmail_open"

definition mayAccess :: "actor \<Rightarrow> ident \<Rightarrow> bool" where
  "mayAccess a opener = (if can a P_modmail_inbox then True else act_user a = opener \<and> mayUse a)"

definition sideIn :: "ident \<Rightarrow> ident \<Rightarrow> message_side" where
  "sideIn opener user = (if user = opener then MemberSide else OfficerSide)"

definition afterReply :: "message_side \<Rightarrow> case_state" where
  "afterReply side = (if side = MemberSide then WaitOfficers else WaitMember)"

definition REOPENED_STATE :: case_state where "REOPENED_STATE = WaitOfficers"

text \<open>Line endings become one line feed, and the ends are trimmed; a topic is one line.\<close>

definition cleanText :: "text16 \<Rightarrow> text16" where
  "cleanText s = js_trim (unify_lines s)"

fun collapse :: "text16 \<Rightarrow> text16" where
  "collapse (c # d # s) =
     (if is_js_space c then (if is_js_space d then collapse (d # s) else 32 # collapse (d # s))
      else c # collapse (d # s))"
| "collapse [c] = (if is_js_space c then [32] else [c])"
| "collapse [] = []"

definition cleanTopic :: "text16 \<Rightarrow> text16" where
  "cleanTopic s = collapse (cleanText s)"

definition mail_characters :: "text16 \<Rightarrow> nat" where
  "mail_characters s = length (code_points s)"

datatype text_error = TextEmpty | TextLong | TextUnsavable

definition mailTextProblem :: "text16 \<Rightarrow> nat \<Rightarrow> text_error option" where
  "mailTextProblem s m =
     (if s = [] then Some TextEmpty
      else if mail_characters s > m then Some TextLong
      else if \<not> is_well_formed s \<or> 0 \<in> set s then Some TextUnsavable
      else None)"

datatype open_refusal =
    NotConfigured | NotMember | HasAdministrator | MailOff | NoKey | NoWeb | OpenPaused | OpenLimit | DailyLimit

datatype key_state = KeyReady | KeyMissing | KeyBroken

record prerequisites =
  pq_key :: key_state
  pq_web :: bool
  pq_channel :: bool

definition canEnable :: "prerequisites \<Rightarrow> bool" where
  "canEnable p \<longleftrightarrow> pq_key p = KeyReady \<and> pq_web p \<and> pq_channel p"

text \<open>Who a row is shown as.\<close>

datatype shown_author = ShownPerson ident message_side bool | ShownYou | ShownOfficers | ShownOfficer ident

datatype audience = OfficerAudience | MemberAudience

definition shownAuthor :: "ident \<Rightarrow> message_side \<Rightarrow> signing option \<Rightarrow> audience \<Rightarrow> shown_author" where
  "shownAuthor author side signed audience =
     (if audience = OfficerAudience
      then ShownPerson author side (side = OfficerSide \<and> signed = Some SignOfficers)
      else if side = MemberSide then ShownYou
      else if signed = Some SignName then ShownOfficer author else ShownOfficers)"

section \<open>The tables\<close>

record mail_guild = guild_row +
  gm_notices :: "ident option"
  gm_officer :: "ident option"

record mail_settings =
  st_guild :: ident
  st_enabled :: bool
  st_revision :: nat
  st_last :: nat
  st_by :: "ident option"
  st_at :: int

record mail_case =
  ca_id :: ident
  ca_guild :: ident
  ca_number :: nat
  ca_opener :: ident
  ca_state :: case_state
  ca_revision :: nat
  ca_opened :: int
  ca_activity :: int
  ca_since :: int
  ca_closed :: "int option"
  ca_delete :: "int option"
  ca_topic :: "nat list"
  ca_topic_key :: ident

record mail_message =
  ms_id :: ident
  ms_case :: ident
  ms_kind :: entry_kind
  ms_author :: ident
  ms_side :: message_side
  ms_signed :: "signing option"
  ms_body :: "nat list option"
  ms_key :: "ident option"
  ms_created :: int

datatype read_kind = ReadCase | ReadList

record mail_read =
  rd_case :: ident
  rd_reader :: ident
  rd_side :: message_side
  rd_kind :: read_kind
  rd_at :: int

record mail_db =
  md_guilds :: "mail_guild list"
  md_settings :: "mail_settings list"
  md_cases :: "mail_case list"
  md_messages :: "mail_message list"
  md_reads :: "mail_read list"
  md_jobs :: "job list"
  md_audit :: "(ident \<times> ident \<times> string \<times> string) list"

record mail_world =
  mw_crypto :: crypto
  mw_key :: modmail_key
  mw_origin :: "text16 option"
  mw_stopping :: bool
  mw_stopping_later :: bool
  mw_now :: int
  mw_case :: ident
  mw_message :: ident
  mw_line :: ident
  mw_nonce :: "cipher_field \<Rightarrow> nat list"
  mw_job :: "string \<Rightarrow> ident"
  mw_uuid :: "ident \<Rightarrow> bool"

definition the_cipher :: "mail_world \<Rightarrow> mail_cipher option" where
  "the_cipher w = (case mw_key w of KeyOn m \<Rightarrow> Some m | _ \<Rightarrow> None)"

definition guildRow :: "mail_db \<Rightarrow> ident \<Rightarrow> mail_guild option" where
  "guildRow d guild = find (\<lambda>g. gd_id g = guild \<and> gd_active g) (md_guilds d)"

definition settings_of :: "mail_db \<Rightarrow> ident \<Rightarrow> mail_settings option" where
  "settings_of d guild = find (\<lambda>s. st_guild s = guild) (md_settings d)"

definition enabledIn :: "mail_db \<Rightarrow> ident \<Rightarrow> bool" where
  "enabledIn d guild = (case settings_of d guild of Some s \<Rightarrow> st_enabled s | None \<Rightarrow> False)"

definition case_of :: "mail_db \<Rightarrow> ident \<Rightarrow> mail_case option" where
  "case_of d i = find (\<lambda>c. ca_id c = i) (md_cases d)"

definition message_of :: "mail_db \<Rightarrow> ident \<Rightarrow> mail_message option" where
  "message_of d i = find (\<lambda>m. ms_id m = i) (md_messages d)"

definition thread :: "mail_db \<Rightarrow> ident \<Rightarrow> mail_message list" where
  "thread d i = filter (\<lambda>m. ms_case m = i) (md_messages d)"

definition message_count :: "mail_db \<Rightarrow> ident \<Rightarrow> nat" where
  "message_count d i = length (filter (\<lambda>m. ms_kind m = EntryMessage) (thread d i))"

definition update_case :: "ident \<Rightarrow> (mail_case \<Rightarrow> mail_case) \<Rightarrow> mail_db \<Rightarrow> mail_db" where
  "update_case i f d = d\<lparr>md_cases := map (\<lambda>c. if ca_id c = i then f c else c) (md_cases d)\<rparr>"

definition append_row :: "mail_message \<Rightarrow> mail_db \<Rightarrow> mail_db" where
  "append_row m d = d\<lparr>md_messages := md_messages d @ [m]\<rparr>"

section \<open>The officers' switch\<close>

definition prerequisites_of :: "mail_world \<Rightarrow> mail_guild option \<Rightarrow> prerequisites" where
  "prerequisites_of w guild =
     \<lparr>pq_key = (case mw_key w of KeyOn _ \<Rightarrow> KeyReady | KeyOff \<Rightarrow> KeyMissing | KeyInvalid \<Rightarrow> KeyBroken),
      pq_web = (mw_origin w \<noteq> None),
      pq_channel = (Option.bind guild gm_notices \<noteq> None)\<rparr>"

datatype toggle_outcome = ToggleSaved | ToggleUnchanged | ToggleConflict | ToggleInvalid prerequisites

definition mail_guild_missing :: failure where
  "mail_guild_missing = guild_missing"

definition toggle ::
  "mail_world \<Rightarrow> actor \<Rightarrow> bool \<Rightarrow> nat \<Rightarrow> mail_db \<Rightarrow> failure + (toggle_outcome \<times> mail_db)" where
  "toggle w a enabled revision d =
     and_then (requirePermission a (act_guild a) P_modmail_settings None) (\<lambda>_.
       if mw_stopping w then Inl stoppingRefusal
       else case guildRow d (act_guild a) of
         None \<Rightarrow> Inl mail_guild_missing
       | Some guild \<Rightarrow>
           (let fresh = \<lparr>st_guild = gd_id guild, st_enabled = False, st_revision = 1, st_last = 0, st_by = None,
                  st_at = mw_now w\<rparr>;
                row = (case settings_of d (gd_id guild) of Some s \<Rightarrow> s | None \<Rightarrow> fresh);
                d = (if settings_of d (gd_id guild) = None then d\<lparr>md_settings := md_settings d @ [fresh]\<rparr> else d)
            in if st_enabled row = enabled then Inr (ToggleUnchanged, d)
               else if st_revision row \<noteq> revision then Inr (ToggleConflict, d)
               else if enabled \<and> \<not> canEnable (prerequisites_of w (Some guild))
               then Inr (ToggleInvalid (prerequisites_of w (Some guild)), d)
               else if mw_stopping_later w then Inl stoppingRefusal
               else Inr (ToggleSaved,
                 d\<lparr>md_settings := map (\<lambda>s. if st_guild s = gd_id guild
                     then s\<lparr>st_enabled := enabled, st_revision := st_revision s + 1, st_by := Some (act_user a),
                            st_at := mw_now w\<rparr> else s) (md_settings d),
                   md_audit := md_audit d @ [(gd_id guild, act_user a, ''modmail'',
                     if enabled then ''enable'' else ''disable'')]\<rparr>)))"

section \<open>Notifications\<close>

definition ceil_seconds :: "int \<Rightarrow> int" where
  "ceil_seconds ms = (if ms > 0 then (ms + 999) div 1000 else 0)"

text \<open>Seconds until a window after the newest of some moments has passed.\<close>

definition window_left :: "int \<Rightarrow> int list \<Rightarrow> int" where
  "window_left now moments =
     (case moments of [] \<Rightarrow> 0
      | t # ts \<Rightarrow> ceil_seconds (fold max ts t + 1000 * NOTIFY_COALESCE_SECONDS - now))"

definition finished :: "job \<Rightarrow> bool" where
  "finished r \<longleftrightarrow> jb_status r \<in> {RowSucceeded, RowFailed}"

definition caseDelay :: "int \<Rightarrow> string \<Rightarrow> string \<Rightarrow> job list \<Rightarrow> int" where
  "caseDelay now kind key rows =
     window_left now (List.map_filter jb_completed
       (filter (\<lambda>r. jb_kind r = kind \<and> jb_key r = key \<and> finished r) rows))"

definition memberDelay :: "int \<Rightarrow> mail_db \<Rightarrow> ident \<Rightarrow> ident \<Rightarrow> int" where
  "memberDelay now d guild opener =
     (let keys = map (\<lambda>c. ping_key (ca_id c))
            (filter (\<lambda>c. ca_guild c = guild \<and> ca_opener c = opener) (md_cases d))
      in window_left now (List.map_filter (\<lambda>r. if finished r then jb_completed r else Some (jb_due r))
           (filter (\<lambda>r. jb_kind r = MODMAIL_PING_KIND \<and> jb_key r \<in> set keys \<and>
              json_field (jb_payload r) ''event'' = Some (JsonText ''reply'')) (md_jobs d))))"

definition notify ::
  "mail_world \<Rightarrow> string \<Rightarrow> string \<Rightarrow> json \<Rightarrow> ident \<Rightarrow> int \<Rightarrow> job list \<Rightarrow> job list" where
  "notify w kind key payload guild delay rows =
     (case scheduleJob (mw_now w) (mw_job w key) kind key payload (Some guild) delay rows of
        (Some _, rows') \<Rightarrow> rows'
      | (None, _) \<Rightarrow>
          map (\<lambda>r. if jb_key r = key \<and> jb_status r = RowRunning
                   then r\<lparr>jb_generation := jb_generation r + 1,
                          jb_due := mw_now w + 1000 * max delay NOTIFY_COALESCE_SECONDS, jb_payload := payload\<rparr>
                   else r) rows)"

definition event_name :: "ping_event \<Rightarrow> string" where
  "event_name e = (case e of PingOpened \<Rightarrow> ''opened'' | PingReply \<Rightarrow> ''reply'')"

definition ping_payload :: "ident \<Rightarrow> ping_event \<Rightarrow> json" where
  "ping_payload i e = JsonObject [(''caseId'', JsonText i), (''event'', JsonText (event_name e))]"

definition dm_payload :: "ident \<Rightarrow> json" where
  "dm_payload i = JsonObject [(''caseId'', JsonText i)]"

definition queuePing :: "mail_world \<Rightarrow> ident \<Rightarrow> ident \<Rightarrow> ping_event \<Rightarrow> ident \<Rightarrow> mail_db \<Rightarrow> mail_db" where
  "queuePing w guild i event opener d =
     (let key = ping_key i;
          delay = caseDelay (mw_now w) MODMAIL_PING_KIND key (md_jobs d);
          delay = (if event = PingReply then max delay (memberDelay (mw_now w) d guild opener) else delay)
      in d\<lparr>md_jobs := notify w MODMAIL_PING_KIND key (ping_payload i event) guild delay (md_jobs d)\<rparr>)"

definition queueDm :: "mail_world \<Rightarrow> ident \<Rightarrow> ident \<Rightarrow> mail_db \<Rightarrow> mail_db" where
  "queueDm w guild i d =
     (let key = case_dm_key i; delay = caseDelay (mw_now w) MODMAIL_DM_KIND key (md_jobs d)
      in d\<lparr>md_jobs := notify w MODMAIL_DM_KIND key (dm_payload i) guild delay (md_jobs d)\<rparr>)"

section \<open>Opening a case\<close>

definition case_counts :: "int \<Rightarrow> mail_db \<Rightarrow> ident \<Rightarrow> ident \<Rightarrow> nat \<times> nat" where
  "case_counts now d guild user =
     (let mine = filter (\<lambda>c. ca_guild c = guild \<and> ca_opener c = user) (md_cases d)
      in (length (filter (\<lambda>c. ca_state c \<noteq> CaseClosed) mine),
          length (filter (\<lambda>c. ca_opened c > now - 86400000) mine)))"

definition staticRefusal :: "mail_world \<Rightarrow> bool \<Rightarrow> bool option \<Rightarrow> open_refusal option" where
  "staticRefusal w opens botAdministrator =
     (if the_cipher w = None then Some NoKey
      else if mw_origin w = None then Some NoWeb
      else if \<not> opens then Some NotMember
      else if botAdministrator \<noteq> Some False then Some HasAdministrator
      else None)"

definition limit_refusal :: "int \<Rightarrow> mail_db \<Rightarrow> ident \<Rightarrow> ident \<Rightarrow> open_refusal option" where
  "limit_refusal now d guild user =
     (let (open, daily) = case_counts now d guild user
      in if open \<ge> OPEN_CASES then Some OpenLimit
         else if daily \<ge> DAILY_CASES then Some DailyLimit else None)"

text \<open>The two checks before a form: by the roles of an interaction, and by a resolved actor.\<close>

datatype open_gate = GateRefused open_refusal | GatePaused pause | GateOpen

definition openGate ::
  "mail_world \<Rightarrow> (permission_id \<Rightarrow> pause option) \<Rightarrow> mail_db \<Rightarrow> ident \<Rightarrow> ident \<Rightarrow> ident list \<Rightarrow> bool \<Rightarrow> bool \<Rightarrow> open_gate" where
  "openGate w blocks d guild user roles botAdministrator manager =
     (if the_cipher w = None then GateRefused NoKey
      else if mw_origin w = None then GateRefused NoWeb
      else case guildRow d guild of
        None \<Rightarrow> GateRefused NotConfigured
      | Some row \<Rightarrow>
          (let holds = (\<lambda>r. case r of None \<Rightarrow> False | Some i \<Rightarrow> i \<in> set roles)
           in case staticRefusal w (holds (gd_member_role row) \<or> holds (gd_guest_role row)) (Some botAdministrator) of
                Some r \<Rightarrow> GateRefused r
              | None \<Rightarrow>
                  (case (if manager then None else blocks P_modmail_open) of
                     Some p \<Rightarrow> GatePaused p
                   | None \<Rightarrow>
                       if \<not> enabledIn d guild then GateRefused MailOff
                       else (case limit_refusal (mw_now w) d guild user of
                               Some r \<Rightarrow> GateRefused r | None \<Rightarrow> GateOpen))))"

definition openRefusal :: "mail_world \<Rightarrow> actor \<Rightarrow> bool \<Rightarrow> mail_db \<Rightarrow> open_refusal option" where
  "openRefusal w a enabled d =
     (case staticRefusal w (holds a P_modmail_open) (act_bot_administrator a) of
        Some r \<Rightarrow> Some r
      | None \<Rightarrow>
          if pauseOn a P_modmail_open \<noteq> None then Some OpenPaused
          else if \<not> enabled then Some MailOff
          else limit_refusal (mw_now w) d (act_guild a) (act_user a))"

datatype open_outcome =
    OpenOpened nat "text16 option"
  | OpenRefused open_refusal
  | OpenInvalid bool text_error
  | OpenConflict
  | OpenAlready nat "text16 option"

definition url_of :: "mail_world \<Rightarrow> ident \<Rightarrow> nat \<Rightarrow> text16 option" where
  "url_of w guild number = map_option (\<lambda>origin. caseUrl origin guild number) (mw_origin w)"

definition opener_field :: "ident \<Rightarrow> ident \<Rightarrow> cipher_field" where
  "opener_field message user =
     MessageField \<lparr>mg_id = message, mg_author = user, mg_side = MemberSide, mg_signed = None, mg_kind = EntryMessage\<rparr>"

definition read_sealed ::
  "mail_world \<Rightarrow> case_binding \<Rightarrow> cipher_field \<Rightarrow> nat list \<Rightarrow> ident \<Rightarrow> text16 option option" where
  "read_sealed w b f data key =
     map_option (\<lambda>aad. Option.bind (the_cipher w) (\<lambda>m. decrypt (mw_crypto w) m data key aad)) (fieldAad b f)"

text \<open>The same form sent again; \<^const>\<open>None\<close> inside where the associated data cannot be formed (an exception).\<close>

definition openedBefore ::
  "mail_world \<Rightarrow> mail_db \<Rightarrow> ident \<Rightarrow> ident \<Rightarrow> ident \<Rightarrow> text16 \<Rightarrow> text16 \<Rightarrow> open_outcome option option" where
  "openedBefore w d i guild user topic body =
     (case case_of d i of
        None \<Rightarrow> Some None
      | Some c \<Rightarrow>
          if ca_guild c \<noteq> guild \<or> ca_opener c \<noteq> user then Some (Some OpenConflict)
          else
            (let b = \<lparr>cb_guild = guild, cb_case = i, cb_opener = user\<rparr>;
                 url = url_of w guild (ca_number c)
             in case read_sealed w b TopicField (ca_topic c) (ca_topic_key c) of
                  None \<Rightarrow> None
                | Some t \<Rightarrow>
                    (case (case find (\<lambda>m. ms_kind m = EntryMessage) (thread d i) of
                             None \<Rightarrow> Some None
                           | Some m \<Rightarrow>
                               (case (ms_body m, ms_key m) of
                                  (Some data, Some key) \<Rightarrow>
                                    if the_cipher w = None then Some None
                                    else read_sealed w b (opener_field (ms_id m) user) data key
                                | _ \<Rightarrow> Some None)) of
                       None \<Rightarrow> None
                     | Some s \<Rightarrow>
                         Some (Some (if t = Some topic \<and> s = Some body then OpenOpened (ca_number c) url
                                     else OpenAlready (ca_number c) url)))))"

definition seal_field ::
  "mail_world \<Rightarrow> mail_cipher \<Rightarrow> case_binding \<Rightarrow> cipher_field \<Rightarrow> text16 \<Rightarrow> padding \<Rightarrow> sealed option" where
  "seal_field w m b f text p =
     Option.bind (fieldAad b f) (\<lambda>aad. encrypt (mw_crypto w) m (mw_nonce w f) text aad p)"

definition insert_case ::
  "mail_world \<Rightarrow> mail_cipher \<Rightarrow> ident \<Rightarrow> ident \<Rightarrow> ident \<Rightarrow> nat \<Rightarrow> text16 \<Rightarrow> text16 \<Rightarrow> mail_db \<Rightarrow> mail_db option" where
  "insert_case w m guild user i number topic body d =
     (let b = \<lparr>cb_guild = guild, cb_case = i, cb_opener = user\<rparr>
      in case (seal_field w m b TopicField topic PadTopic,
               seal_field w m b (opener_field (mw_message w) user) body PadMessage) of
           (Some t, Some s) \<Rightarrow>
             Some (d\<lparr>md_cases := md_cases d @ [\<lparr>ca_id = i, ca_guild = guild, ca_number = number, ca_opener = user,
                      ca_state = WaitOfficers, ca_revision = 1, ca_opened = mw_now w, ca_activity = mw_now w,
                      ca_since = mw_now w, ca_closed = None, ca_delete = None, ca_topic = se_data t,
                      ca_topic_key = se_key t\<rparr>],
                    md_messages := md_messages d @ [\<lparr>ms_id = mw_message w, ms_case = i, ms_kind = EntryMessage,
                      ms_author = user, ms_side = MemberSide, ms_signed = None, ms_body = Some (se_data s),
                      ms_key = Some (se_key s), ms_created = mw_now w\<rparr>]\<rparr>)
         | _ \<Rightarrow> None)"

definition bug :: thrown where
  "bug = OtherError ''Error''"

definition openCase ::
  "mail_world \<Rightarrow> mail_cipher \<Rightarrow> ident \<Rightarrow> ident \<Rightarrow> text16 \<Rightarrow> text16 \<Rightarrow> ident option \<Rightarrow> mail_db \<Rightarrow>
   thrown + (open_outcome \<times> mail_db)" where
  "openCase w m guild user topic body minted d =
     (if guildRow d guild = None then Inr (OpenRefused NotConfigured, d)
      else case (case minted of None \<Rightarrow> Some None | Some i \<Rightarrow> openedBefore w d i guild user topic body) of
        None \<Rightarrow> Inl bug
      | Some (Some repeat) \<Rightarrow> Inr (repeat, d)
      | Some None \<Rightarrow>
          if \<not> enabledIn d guild then Inr (OpenRefused MailOff, d)
          else (case limit_refusal (mw_now w) d guild user of
            Some r \<Rightarrow> Inr (OpenRefused r, d)
          | None \<Rightarrow>
              (let number = (case settings_of d guild of Some s \<Rightarrow> st_last s + 1 | None \<Rightarrow> 0);
                   d = d\<lparr>md_settings := map (\<lambda>s. if st_guild s = guild then s\<lparr>st_last := st_last s + 1\<rparr> else s)
                         (md_settings d)\<rparr>;
                   i = (case minted of Some i \<Rightarrow> i | None \<Rightarrow> mw_case w)
               in case insert_case w m guild user i number topic body d of
                    None \<Rightarrow> Inl bug
                  | Some d \<Rightarrow>
                      (let d = queuePing w guild i PingOpened user d
                       in if mw_stopping_later w then Inl (ThrownFailure stoppingRefusal)
                          else Inr (OpenOpened number (url_of w guild number), d)))))"

definition outOfDateForm :: failure where
  "outOfDateForm = mk_failure F_input
     (Literal ''This form is out of date. Open the page again, then redo your change.'')"

definition open_mail ::
  "mail_world \<Rightarrow> actor \<Rightarrow> text16 \<Rightarrow> text16 \<Rightarrow> ident option \<Rightarrow> mail_db \<Rightarrow> thrown + (open_outcome \<times> mail_db)" where
  "open_mail w a topic body caseId d =
     (case and_then (authorize a (act_guild a)) (\<lambda>_.
             if (case caseId of Some i \<Rightarrow> \<not> is_uuid (lower i) | None \<Rightarrow> False) then Inl outOfDateForm
             else requireNotPaused a P_modmail_open) of
        Inl f \<Rightarrow> Inl (ThrownFailure f)
      | Inr _ \<Rightarrow>
          (case staticRefusal w (holds a P_modmail_open) (act_bot_administrator a) of
             Some r \<Rightarrow> Inr (OpenRefused r, d)
           | None \<Rightarrow>
               (case the_cipher w of
                  None \<Rightarrow> Inl bug
                | Some m \<Rightarrow>
                    if \<not> mayUse a then Inl bug
                    else (let topic = cleanTopic topic; body = cleanText body
                          in case mailTextProblem topic TOPIC_CHARS of
                               Some e \<Rightarrow> Inr (OpenInvalid True e, d)
                             | None \<Rightarrow>
                                 (case mailTextProblem body MESSAGE_CHARS of
                                    Some e \<Rightarrow> Inr (OpenInvalid False e, d)
                                  | None \<Rightarrow>
                                      if mw_stopping w then Inl (ThrownFailure stoppingRefusal)
                                      else openCase w m (act_guild a) (act_user a) topic body
                                             (map_option lower caseId) d)))))"

section \<open>Replying\<close>

definition accessible :: "mail_db \<Rightarrow> actor \<Rightarrow> nat \<Rightarrow> mail_case option" where
  "accessible d a number =
     (case find (\<lambda>c. ca_guild c = act_guild a \<and> ca_number c = number) (md_cases d) of
        None \<Rightarrow> None
      | Some c \<Rightarrow> if mayAccess a (ca_opener c) then Some c else None)"

datatype reply_refusal = ReplyText text_error | CaseFull | ReplyOpenLimit

datatype reply_outcome =
    ReplySaved ident
  | ReplyUnchanged ident
  | ReplyInvalid reply_refusal
  | ReplyConflict
  | ReplyResent ident

definition binding_of :: "mail_case \<Rightarrow> case_binding" where
  "binding_of c = \<lparr>cb_guild = ca_guild c, cb_case = ca_id c, cb_opener = ca_opener c\<rparr>"

definition row_field :: "mail_message \<Rightarrow> cipher_field" where
  "row_field m =
     MessageField \<lparr>mg_id = ms_id m, mg_author = ms_author m, mg_side = ms_side m, mg_signed = ms_signed m, mg_kind = ms_kind m\<rparr>"

definition repeated ::
  "mail_world \<Rightarrow> mail_db \<Rightarrow> ident \<Rightarrow> mail_case \<Rightarrow> ident \<Rightarrow> text16 \<Rightarrow> reply_outcome option option" where
  "repeated w d i c user body =
     (case message_of d i of
        None \<Rightarrow> Some None
      | Some m \<Rightarrow>
          if ms_case m \<noteq> ca_id c \<or> ms_author m \<noteq> user then Some (Some ReplyConflict)
          else map_option (\<lambda>stored. Some (if stored = Some body then ReplyUnchanged i else ReplyResent i))
            (case (the_cipher w, ms_kind m, ms_body m, ms_key m) of
               (Some _, EntryMessage, Some data, Some key) \<Rightarrow>
                 read_sealed w (binding_of c) (row_field m) data key
             | _ \<Rightarrow> Some None))"

definition line_row ::
  "mail_world \<Rightarrow> mail_case \<Rightarrow> entry_kind \<Rightarrow> ident \<Rightarrow> message_side \<Rightarrow> signing option \<Rightarrow> mail_message" where
  "line_row w c kind user side signed =
     \<lparr>ms_id = mw_line w, ms_case = ca_id c, ms_kind = kind, ms_author = user, ms_side = side, ms_signed = signed,
      ms_body = None, ms_key = None, ms_created = mw_now w\<rparr>"

definition reply_row ::
  "mail_world \<Rightarrow> mail_case \<Rightarrow> ident \<Rightarrow> ident \<Rightarrow> message_side \<Rightarrow> signing option \<Rightarrow> sealed \<Rightarrow> mail_message" where
  "reply_row w c i user side signed s =
     \<lparr>ms_id = i, ms_case = ca_id c, ms_kind = EntryMessage, ms_author = user, ms_side = side, ms_signed = signed,
      ms_body = Some (se_data s), ms_key = Some (se_key s), ms_created = mw_now w\<rparr>"

definition reply_field :: "ident \<Rightarrow> ident \<Rightarrow> message_side \<Rightarrow> signing option \<Rightarrow> cipher_field" where
  "reply_field i user side signed =
     MessageField \<lparr>mg_id = i, mg_author = user, mg_side = side, mg_signed = signed, mg_kind = EntryMessage\<rparr>"

definition after_reply :: "mail_world \<Rightarrow> message_side \<Rightarrow> mail_case \<Rightarrow> mail_case" where
  "after_reply w side c =
     c\<lparr>ca_state := afterReply side,
       ca_since := (if afterReply side = ca_state c then ca_since c else mw_now w),
       ca_activity := mw_now w, ca_closed := None, ca_delete := None, ca_revision := ca_revision c + 1\<rparr>"

definition save_reply ::
  "mail_world \<Rightarrow> ident \<Rightarrow> mail_case \<Rightarrow> ident \<Rightarrow> ident \<Rightarrow> message_side \<Rightarrow> signing option \<Rightarrow> sealed \<Rightarrow> mail_db \<Rightarrow> mail_db" where
  "save_reply w guild c i user side signed s d =
     (let d = (if ca_state c = CaseClosed then append_row (line_row w c EntryReopened user side signed) d else d);
          d = append_row (reply_row w c i user side signed s) d;
          d = update_case (ca_id c) (after_reply w side) d
      in if side = MemberSide then queuePing w guild (ca_id c) PingReply (ca_opener c) d
         else queueDm w guild (ca_id c) d)"

definition reply_transaction ::
  "mail_world \<Rightarrow> mail_cipher \<Rightarrow> ident \<Rightarrow> ident \<Rightarrow> mail_case \<Rightarrow> ident \<Rightarrow> message_side \<Rightarrow> signing option \<Rightarrow> text16 \<Rightarrow>
   mail_db \<Rightarrow> thrown + (reply_outcome option \<times> mail_db)" where
  "reply_transaction w m guild user seen i side signed body d =
     (case case_of d (ca_id seen) of
        None \<Rightarrow> Inr (None, d)
      | Some c \<Rightarrow>
          (case repeated w d i c user body of
             None \<Rightarrow> Inl bug
           | Some (Some r) \<Rightarrow> Inr (Some r, d)
           | Some None \<Rightarrow>
               if message_count d (ca_id c) \<ge> MESSAGES_PER_CASE then Inr (Some (ReplyInvalid CaseFull), d)
               else if ca_state c = CaseClosed \<and> side = MemberSide \<and>
                       fst (case_counts (mw_now w) d guild (ca_opener c)) \<ge> OPEN_CASES
               then Inr (Some (ReplyInvalid ReplyOpenLimit), d)
               else (case seal_field w m \<lparr>cb_guild = guild, cb_case = ca_id c, cb_opener = ca_opener c\<rparr>
                             (reply_field i user side signed) body PadMessage of
                       None \<Rightarrow> Inl bug
                     | Some s \<Rightarrow>
                         if mw_stopping_later w then Inl (ThrownFailure stoppingRefusal)
                         else Inr (Some (ReplySaved i), save_reply w guild c i user side signed s d))))"

definition keyUnavailable :: failure where
  "keyUnavailable = mk_failure F_unavailable
     (Literal (''Mod mail'' @ [CHR 0x27] @ ''s encryption key isn'' @ [CHR 0x27] @ ''t set up on this TaruBot, so nothing can be sent right now. An officer can see why on the Mod mail page.''))"

definition may_respond :: "actor \<Rightarrow> message_side \<Rightarrow> failure + unit" where
  "may_respond a side =
     (if side = OfficerSide then requirePermission a (act_guild a) P_modmail_respond None else Inr ())"

text \<open>\<open>before\<close> are the tables the page's own look-up read.\<close>

definition reply ::
  "mail_world \<Rightarrow> mail_db \<Rightarrow> actor \<Rightarrow> nat \<Rightarrow> ident \<Rightarrow> text16 \<Rightarrow> signing option \<Rightarrow> mail_db \<Rightarrow>
   thrown + (reply_outcome option \<times> mail_db)" where
  "reply w before a number messageId body signing d =
     (case and_then (authorize a (act_guild a)) (\<lambda>_.
             if mw_stopping w then Inl stoppingRefusal
             else if \<not> is_uuid (lower messageId) then Inl outOfDateForm else Inr ()) of
        Inl f \<Rightarrow> Inl (ThrownFailure f)
      | Inr _ \<Rightarrow>
          (case accessible before a number of
             None \<Rightarrow> Inr (None, d)
           | Some seen \<Rightarrow>
               (case the_cipher w of
                  None \<Rightarrow> Inl (ThrownFailure keyUnavailable)
                | Some m \<Rightarrow>
                    (let body = cleanText body; side = sideIn (ca_opener seen) (act_user a)
                     in case mailTextProblem body MESSAGE_CHARS of
                          Some e \<Rightarrow> Inr (Some (ReplyInvalid (ReplyText e)), d)
                        | None \<Rightarrow>
                            (case may_respond a side of
                               Inl f \<Rightarrow> Inl (ThrownFailure f)
                             | Inr _ \<Rightarrow>
                                 reply_transaction w m (act_guild a) (act_user a) seen (lower messageId) side
                                   (if side = OfficerSide then Some (case signing of Some s \<Rightarrow> s | None \<Rightarrow> SignName)
                                    else None) body d)))))"

section \<open>Closing and reopening\<close>

definition signingOf :: "mail_db \<Rightarrow> ident \<Rightarrow> ident \<Rightarrow> signing" where
  "signingOf d i user =
     (case find (\<lambda>m. ms_author m = user \<and> ms_side m = OfficerSide \<and> ms_kind m = EntryMessage) (rev (thread d i)) of
        None \<Rightarrow> SignOfficers
      | Some m \<Rightarrow> (case ms_signed m of Some s \<Rightarrow> s | None \<Rightarrow> SignOfficers))"

datatype change = Close | Reopen

datatype state_outcome = StateSaved | StateUnchanged | StateConflict

definition close_row :: "mail_world \<Rightarrow> mail_case \<Rightarrow> mail_case" where
  "close_row w c =
     c\<lparr>ca_state := CaseClosed, ca_closed := Some (mw_now w),
       ca_delete := Some (mw_now w + 86400000 * RETENTION_DAYS), ca_since := mw_now w, ca_activity := mw_now w,
       ca_revision := ca_revision c + 1\<rparr>"

definition reopen_row :: "mail_world \<Rightarrow> mail_case \<Rightarrow> mail_case" where
  "reopen_row w c =
     c\<lparr>ca_state := REOPENED_STATE, ca_closed := None, ca_delete := None, ca_since := mw_now w,
       ca_activity := mw_now w, ca_revision := ca_revision c + 1\<rparr>"

definition change_transaction ::
  "mail_world \<Rightarrow> ident \<Rightarrow> ident \<Rightarrow> mail_case \<Rightarrow> message_side \<Rightarrow> nat \<Rightarrow> change \<Rightarrow> mail_db \<Rightarrow>
   failure + (state_outcome option \<times> mail_db)" where
  "change_transaction w guild user seen side revision ch d =
     (case case_of d (ca_id seen) of
        None \<Rightarrow> Inr (None, d)
      | Some c \<Rightarrow>
          if (ch = Close) = (ca_state c = CaseClosed) then Inr (Some StateUnchanged, d)
          else if ca_revision c \<noteq> revision then Inr (Some StateConflict, d)
          else
            (let signed = (if side = OfficerSide then Some (signingOf d (ca_id c) user) else None);
                 d = append_row (line_row w c (if ch = Close then EntryClosed else EntryReopened) user side signed) d;
                 d = update_case (ca_id c) (if ch = Close then close_row w else reopen_row w) d;
                 d = (if ch = Close \<and> side = OfficerSide then queueDm w guild (ca_id c) d else d)
             in if mw_stopping_later w then Inl stoppingRefusal else Inr (Some StateSaved, d)))"

definition reply_to_reopen :: failure where
  "reply_to_reopen = mk_failure F_forbidden (Literal ''Reply to your case to reopen it.'')"

definition changeState ::
  "mail_world \<Rightarrow> mail_db \<Rightarrow> actor \<Rightarrow> nat \<Rightarrow> nat \<Rightarrow> change \<Rightarrow> mail_db \<Rightarrow> failure + (state_outcome option \<times> mail_db)" where
  "changeState w before a number revision ch d =
     and_then (authorize a (act_guild a)) (\<lambda>_.
       if mw_stopping w then Inl stoppingRefusal
       else case accessible before a number of
         None \<Rightarrow> Inr (None, d)
       | Some seen \<Rightarrow>
           (let side = sideIn (ca_opener seen) (act_user a)
            in and_then (may_respond a side) (\<lambda>_.
                 if ch = Reopen \<and> side = MemberSide then Inl reply_to_reopen
                 else change_transaction w (act_guild a) (act_user a) seen side revision ch d)))"

section \<open>Reading\<close>

definition LIST_LIMIT :: nat where "LIST_LIMIT = 100"
definition READ_LOG_LIMIT :: nat where "READ_LOG_LIMIT = 50"

definition recordRead :: "int \<Rightarrow> ident \<Rightarrow> ident \<Rightarrow> message_side \<Rightarrow> mail_db \<Rightarrow> mail_db" where
  "recordRead now i reader side d =
     (if list_ex (\<lambda>r. rd_case r = i \<and> rd_reader r = reader \<and> rd_kind r = ReadCase \<and> rd_at r > now - 60000) (md_reads d)
      then d
      else d\<lparr>md_reads := md_reads d @
             [\<lparr>rd_case = i, rd_reader = reader, rd_side = side, rd_kind = ReadCase, rd_at = now\<rparr>]\<rparr>)"

definition recordListReads :: "int \<Rightarrow> ident \<Rightarrow> (ident \<times> message_side) list \<Rightarrow> mail_db \<Rightarrow> mail_db" where
  "recordListReads now reader seen d =
     (let already = map rd_case (filter (\<lambda>r. rd_case r \<in> fst ` set seen \<and> rd_reader r = reader \<and>
            rd_kind r = ReadList \<and> rd_at r > now - 3600000) (md_reads d));
          fresh = filter (\<lambda>(i, _). i \<notin> set already) seen
      in d\<lparr>md_reads := md_reads d @ map (\<lambda>(i, side).
             \<lparr>rd_case = i, rd_reader = reader, rd_side = side, rd_kind = ReadList, rd_at = now\<rparr>) fresh\<rparr>)"

text \<open>A field as a page reads it: its text, and whether it failed under this key or under another one.\<close>

record read_field =
  rf_text :: "text16 option"
  rf_altered :: nat
  rf_other :: nat

definition decrypt_field :: "mail_world \<Rightarrow> nat list \<Rightarrow> ident \<Rightarrow> nat list \<Rightarrow> read_field" where
  "decrypt_field w data key aad =
     (case the_cipher w of
        None \<Rightarrow> \<lparr>rf_text = None, rf_altered = 0, rf_other = 0\<rparr>
      | Some m \<Rightarrow>
          (case decrypt (mw_crypto w) m data key aad of
             Some t \<Rightarrow> \<lparr>rf_text = Some t, rf_altered = 0, rf_other = 0\<rparr>
           | None \<Rightarrow> if key = mc_id m then \<lparr>rf_text = None, rf_altered = 1, rf_other = 0\<rparr>
                     else \<lparr>rf_text = None, rf_altered = 0, rf_other = 1\<rparr>))"

record case_entry =
  ce_id :: ident
  ce_kind :: entry_kind
  ce_author :: shown_author
  ce_body :: "read_field option"
  ce_created :: int

definition entry_of :: "mail_world \<Rightarrow> mail_case \<Rightarrow> audience \<Rightarrow> mail_message \<Rightarrow> case_entry option" where
  "entry_of w c aud m =
     (let base = \<lparr>ce_id = ms_id m, ce_kind = ms_kind m, ce_author = shownAuthor (ms_author m) (ms_side m) (ms_signed m) aud,
                  ce_body = None, ce_created = ms_created m\<rparr>
      in case (ms_kind m, ms_body m, ms_key m) of
           (EntryMessage, Some data, Some key) \<Rightarrow>
             map_option (\<lambda>aad. base\<lparr>ce_body := Some (decrypt_field w data key aad)\<rparr>) (fieldAad (binding_of c) (row_field m))
         | _ \<Rightarrow> Some base)"

fun those_of :: "('a \<Rightarrow> 'b option) \<Rightarrow> 'a list \<Rightarrow> 'b list option" where
  "those_of f [] = Some []"
| "those_of f (x # xs) = Option.bind (f x) (\<lambda>y. map_option ((#) y) (those_of f xs))"

record case_view =
  cv_case :: mail_case
  cv_audience :: audience
  cv_side :: message_side
  cv_topic :: "text16 option"
  cv_entries :: "case_entry list"
  cv_messages :: nat
  cv_reads :: "mail_read list option"
  cv_read_count :: nat
  cv_ids :: "ident list"
  cv_altered :: bool
  cv_other_key :: bool
  cv_can_reply :: bool
  cv_can_respond :: bool
  cv_key_problem :: bool

definition author_ids :: "case_entry list \<Rightarrow> ident list" where
  "author_ids es = concat (map (\<lambda>e. case ce_author e of ShownPerson i _ _ \<Rightarrow> [i] | ShownOfficer i \<Rightarrow> [i] | _ \<Rightarrow> []) es)"

definition view_of :: "mail_world \<Rightarrow> actor \<Rightarrow> mail_case \<Rightarrow> mail_db \<Rightarrow> case_view option" where
  "view_of w a c d =
     (let side = sideIn (ca_opener c) (act_user a);
          aud = (if can a P_modmail_inbox then OfficerAudience else MemberAudience);
          rows = thread d (ca_id c);
          log = rev (filter (\<lambda>r. rd_case r = ca_id c) (md_reads d));
          reads = (if can a P_modmail_read_log then Some (take READ_LOG_LIMIT log) else None)
      in case (those_of (entry_of w c aud) rows, fieldAad (binding_of c) TopicField) of
           (Some es, Some aad) \<Rightarrow>
             (let topic = decrypt_field w (ca_topic c) (ca_topic_key c) aad;
                  fields = topic # List.map_filter ce_body es
              in Some \<lparr>cv_case = c, cv_audience = aud, cv_side = side, cv_topic = rf_text topic, cv_entries = es,
                   cv_messages = length (filter (\<lambda>m. ms_kind m = EntryMessage) rows), cv_reads = reads,
                   cv_read_count = (if reads = None then 0 else length log),
                   cv_ids = ca_opener c # author_ids es @
                     map rd_reader (case reads of Some rs \<Rightarrow> rs | None \<Rightarrow> []),
                   cv_altered = (sum_list (map rf_altered fields) > 0), cv_other_key = (sum_list (map rf_other fields) > 0),
                   cv_can_reply = (the_cipher w \<noteq> None \<and>
                     length (filter (\<lambda>m. ms_kind m = EntryMessage) rows) < MESSAGES_PER_CASE),
                   cv_can_respond = (side = MemberSide \<or> can a P_modmail_respond),
                   cv_key_problem = (the_cipher w = None)\<rparr>)
         | _ \<Rightarrow> None)"

definition caseView :: "mail_world \<Rightarrow> actor \<Rightarrow> nat \<Rightarrow> mail_db \<Rightarrow> thrown + (case_view option \<times> mail_db)" where
  "caseView w a number d =
     (case authorize a (act_guild a) of
        Inl f \<Rightarrow> Inl (ThrownFailure f)
      | Inr _ \<Rightarrow>
          (case accessible d a number of
             None \<Rightarrow> Inr (None, d)
           | Some c \<Rightarrow>
               (let d = recordRead (mw_now w) (ca_id c) (act_user a) (sideIn (ca_opener c) (act_user a)) d
                in case view_of w a c d of None \<Rightarrow> Inl bug | Some v \<Rightarrow> Inr (Some v, d))))"

section \<open>Lists\<close>

record case_summary =
  su_case :: mail_case
  su_topic :: read_field

definition summary_of :: "mail_world \<Rightarrow> ident \<Rightarrow> mail_case \<Rightarrow> case_summary option" where
  "summary_of w guild c =
     map_option (\<lambda>aad. \<lparr>su_case = c, su_topic = decrypt_field w (ca_topic c) (ca_topic_key c) aad\<rparr>)
       (fieldAad \<lparr>cb_guild = guild, cb_case = ca_id c, cb_opener = ca_opener c\<rparr> TopicField)"

definition listed_cases :: "ident \<Rightarrow> case_summary list \<Rightarrow> (ident \<times> message_side) list" where
  "listed_cases reader ss =
     map (\<lambda>s. (ca_id (su_case s), sideIn (ca_opener (su_case s)) reader)) (filter (\<lambda>s. rf_text (su_topic s) \<noteq> None) ss)"

definition inbox_cases :: "inbox_filter \<Rightarrow> ident \<Rightarrow> mail_db \<Rightarrow> mail_case list" where
  "inbox_cases f guild d =
     (let keep = (\<lambda>c. ca_guild c = guild \<and>
            (case f of FilterOpen \<Rightarrow> ca_state c \<noteq> CaseClosed | FilterState s \<Rightarrow> ca_state c = s));
          cs = sort_key ca_number (filter keep (md_cases d))
      in if f = FilterState CaseClosed
         then rev (sort_key (\<lambda>c. case ca_closed c of Some t \<Rightarrow> t | None \<Rightarrow> 0) cs)
         else sort_key (\<lambda>c. if ca_state c = WaitOfficers then 0 else 1 :: nat) (sort_key ca_since cs))"

definition my_cases :: "actor \<Rightarrow> mail_db \<Rightarrow> mail_case list" where
  "my_cases a d =
     sort_key (\<lambda>c. if ca_state c = CaseClosed then 1 else 0 :: nat)
       (rev (sort_key ca_activity (filter (\<lambda>c. ca_guild c = act_guild a \<and> ca_opener c = act_user a) (md_cases d))))"

definition list_reads ::
  "mail_world \<Rightarrow> actor \<Rightarrow> mail_case list \<Rightarrow> mail_db \<Rightarrow> thrown + ((case_summary list \<times> bool) \<times> mail_db)" where
  "list_reads w a rows d =
     (case those_of (summary_of w (act_guild a)) (take LIST_LIMIT rows) of
        None \<Rightarrow> Inl bug
      | Some ss \<Rightarrow>
          Inr ((ss, length rows > LIST_LIMIT),
               if listed_cases (act_user a) ss = [] then d
               else recordListReads (mw_now w) (act_user a) (listed_cases (act_user a) ss) d))"

text \<open>The page also shows the settings card, whose own gate is met after the reads were recorded.\<close>

definition inbox ::
  "mail_world \<Rightarrow> actor \<Rightarrow> inbox_filter \<Rightarrow> mail_db \<Rightarrow> (thrown + (case_summary list \<times> bool)) \<times> mail_db" where
  "inbox w a f d =
     (case requirePermission a (act_guild a) P_modmail_inbox None of
        Inl e \<Rightarrow> (Inl (ThrownFailure e), d)
      | Inr _ \<Rightarrow>
          (case list_reads w a (inbox_cases f (act_guild a) d) d of
             Inl t \<Rightarrow> (Inl t, d)
           | Inr (x, d') \<Rightarrow>
               (case requirePermission a (act_guild a) P_modmail_settings None of
                  Inl e \<Rightarrow> (Inl (ThrownFailure e), d')
                | Inr _ \<Rightarrow> (Inr x, d'))))"

definition mine_refused :: failure where
  "mine_refused = mk_failure F_forbidden (Literal (''Mod mail is for this server'' @ [CHR 0x27] @ ''s members and guests.''))"

definition mine :: "mail_world \<Rightarrow> actor \<Rightarrow> mail_db \<Rightarrow> thrown + ((case_summary list \<times> bool) \<times> mail_db)" where
  "mine w a d =
     (case and_then (authorize a (act_guild a)) (\<lambda>_. if mayUse a then Inr () else Inl mine_refused) of
        Inl e \<Rightarrow> Inl (ThrownFailure e)
      | Inr _ \<Rightarrow> list_reads w a (my_cases a d) d)"

section \<open>What the notification jobs send\<close>

text \<open>A payload's case, when it can be read.\<close>

definition notified_case :: "mail_world \<Rightarrow> mail_db \<Rightarrow> job \<Rightarrow> failure + mail_case option" where
  "notified_case w d j =
     (case jb_guild j of
        None \<Rightarrow> Inl (mk_failure F_invalid_job (Literal ''A mod mail job needs a server.''))
      | Some guild \<Rightarrow>
          (case json_field (jb_payload j) ''caseId'' of
             Some (JsonText i) \<Rightarrow>
               if mw_uuid w i \<and>
                  (case json_field (jb_payload j) ''event'' of None \<Rightarrow> True
                   | Some v \<Rightarrow> v = JsonText ''opened'' \<or> v = JsonText ''reply'')
               then Inr (find (\<lambda>c. ca_id c = lower i \<and> ca_guild c = guild) (md_cases d))
               else Inl (mk_failure F_invalid_job (Literal (''A mod mail job'' @ [CHR 0x27] @ ''s payload can'' @ [CHR 0x27] @ ''t be read.'')))
           | _ \<Rightarrow> Inl (mk_failure F_invalid_job (Literal (''A mod mail job'' @ [CHR 0x27] @ ''s payload can'' @ [CHR 0x27] @ ''t be read.'')))))"

definition officer_at :: "mail_db \<Rightarrow> ident \<Rightarrow> int option" where
  "officer_at d i =
     (case map ms_created (filter (\<lambda>m. ms_side m = OfficerSide) (thread d i)) of
        [] \<Rightarrow> None | t # ts \<Rightarrow> Some (fold max ts t))"

definition notice_skip :: "mail_world \<Rightarrow> mail_db \<Rightarrow> job \<Rightarrow> mail_guild \<Rightarrow> failure + string option" where
  "notice_skip w d j guild =
     and_then (notified_case w d j) (\<lambda>found.
       case found of
         None \<Rightarrow> Inr (Some ''case gone'')
       | Some c \<Rightarrow>
           if jb_kind j = MODMAIL_PING_KIND
           then Inr (if given (gm_notices guild) \<noteq> None then None else Some ''officer notifications unconfigured'')
           else (case officer_at d (ca_id c) of
                   None \<Rightarrow> Inr (Some ''nothing to announce'')
                 | Some at \<Rightarrow>
                     Inr (if list_ex (\<lambda>r. rd_case r = ca_id c \<and> rd_reader r = ca_opener c \<and> rd_kind r = ReadCase \<and>
                               rd_at r \<ge> at) (md_reads d)
                          then Some ''seen on the dashboard'' else None)))"

text \<open>What a ping and a DM hold: a number, what happened, a link, and whom the ping may mention.\<close>

record ping_view =
  pv_number :: nat
  pv_event :: ping_event
  pv_url :: "text16 option"
  pv_role :: "ident option"

definition ping_message :: "mail_world \<Rightarrow> mail_db \<Rightarrow> job \<Rightarrow> mail_guild \<Rightarrow> failure + (ident \<times> ping_view)" where
  "ping_message w d j guild =
     and_then (notified_case w d j) (\<lambda>found.
       case (found, given (gm_notices guild)) of
         (Some c, Some channel) \<Rightarrow>
           Inr (channel, \<lparr>pv_number = ca_number c,
             pv_event = (if json_field (jb_payload j) ''event'' = Some (JsonText ''opened'') then PingOpened else PingReply),
             pv_url = url_of w (gd_id guild) (ca_number c),
             pv_role = (if gm_officer guild = Some (gd_id guild) then None else gm_officer guild)\<rparr>)
       | _ \<Rightarrow> Inl (mk_failure F_invalid_job (Literal ''Mod mail ping state is unavailable.'')))"

record dm_view =
  dv_to :: ident
  dv_guild :: ident
  dv_number :: nat
  dv_closed :: bool
  dv_url :: "text16 option"

definition dm_message :: "mail_world \<Rightarrow> mail_db \<Rightarrow> job \<Rightarrow> mail_guild \<Rightarrow> failure + dm_view" where
  "dm_message w d j guild =
     and_then (notified_case w d j) (\<lambda>found.
       case found of
         None \<Rightarrow> Inl (mk_failure F_invalid_job (Literal ''Mod mail DM state is unavailable.''))
       | Some c \<Rightarrow>
           (let rows = thread d (ca_id c);
                closed = (ca_state c = CaseClosed \<and> rows \<noteq> [] \<and> ms_kind (last rows) = EntryClosed \<and>
                          ms_side (last rows) = OfficerSide)
            in Inr \<lparr>dv_to = ca_opener c, dv_guild = gd_id guild, dv_number = ca_number c, dv_closed = closed,
                 dv_url = url_of w (gd_id guild) (ca_number c)\<rparr>))"

section \<open>Retention\<close>

definition RETENTION_INTERVAL_MS :: int where "RETENTION_INTERVAL_MS = 600000"

definition expired :: "int \<Rightarrow> mail_case \<Rightarrow> bool" where
  "expired now c \<longleftrightarrow> (case ca_delete c of Some t \<Rightarrow> t < now | None \<Rightarrow> False)"

text \<open>The cascades delete a case's rows and reads with it.\<close>

definition pruneModMail :: "int \<Rightarrow> mail_db \<Rightarrow> nat \<times> mail_db" where
  "pruneModMail now d =
     (let gone = map ca_id (filter (expired now) (md_cases d))
      in (length gone,
          d\<lparr>md_cases := filter (\<lambda>c. \<not> expired now c) (md_cases d),
            md_messages := filter (\<lambda>m. ms_case m \<notin> set gone) (md_messages d),
            md_reads := filter (\<lambda>r. rd_case r \<notin> set gone) (md_reads d)\<rparr>))"

definition retention_tick :: "int option \<Rightarrow> int \<Rightarrow> int \<Rightarrow> mail_db \<Rightarrow> int option \<times> nat \<times> mail_db" where
  "retention_tick prev clock now d =
     (if (case prev of Some l \<Rightarrow> clock - l < RETENTION_INTERVAL_MS | None \<Rightarrow> False) then (prev, 0, d)
      else (case pruneModMail now d of (n, d') \<Rightarrow> (Some clock, n, d')))"

end
