(* ===== verification/ModmailHistory.thy ===== *)
theory ModmailHistory
  imports Modmail "HOL-Library.Sublist"
begin

text \<open>
  What holds of mod mail over any history of its operations: the tables' own CHECKs, numbers that are
  never given twice, threads that only grow and whose every change moves the revision, what is read back
  of what was written and by whom, the limits, forms sent twice, and retention.
\<close>

section \<open>What each operation writes\<close>

lemma append_row_simps [simp]:
  "md_messages (append_row m d) = md_messages d @ [m]" "md_cases (append_row m d) = md_cases d"
  "md_settings (append_row m d) = md_settings d" "md_reads (append_row m d) = md_reads d"
  "md_guilds (append_row m d) = md_guilds d"
  by (simp_all add: append_row_def)

lemma update_case_simps [simp]:
  "md_messages (update_case i f d) = md_messages d" "md_settings (update_case i f d) = md_settings d"
  "md_cases (update_case i f d) = map (\<lambda>c. if ca_id c = i then f c else c) (md_cases d)"
  "md_reads (update_case i f d) = md_reads d" "md_guilds (update_case i f d) = md_guilds d"
  by (simp_all add: update_case_def)

lemma queue_simps [simp]:
  "md_messages (queuePing w g i e u d) = md_messages d" "md_cases (queuePing w g i e u d) = md_cases d"
  "md_settings (queuePing w g i e u d) = md_settings d" "md_reads (queuePing w g i e u d) = md_reads d"
  "md_guilds (queuePing w g i e u d) = md_guilds d"
  "md_messages (queueDm w g i d) = md_messages d" "md_cases (queueDm w g i d) = md_cases d"
  "md_settings (queueDm w g i d) = md_settings d" "md_reads (queueDm w g i d) = md_reads d"
  "md_guilds (queueDm w g i d) = md_guilds d"
  by (simp_all add: queuePing_def queueDm_def Let_def)

lemma recordRead_simps [simp]:
  "md_messages (recordRead t i u s d) = md_messages d" "md_cases (recordRead t i u s d) = md_cases d"
  "md_settings (recordRead t i u s d) = md_settings d"
  "md_messages (recordListReads t u xs d) = md_messages d" "md_cases (recordListReads t u xs d) = md_cases d"
  "md_settings (recordListReads t u xs d) = md_settings d"
  by (simp_all add: recordRead_def recordListReads_def Let_def)

lemma find_SomeD: "find p xs = Some x \<Longrightarrow> x \<in> set xs \<and> p x"
  by (auto simp: find_Some_iff)

lemma case_ofD: "case_of d i = Some c \<Longrightarrow> c \<in> set (md_cases d) \<and> ca_id c = i"
  unfolding case_of_def by (rule find_SomeD)

lemma accessibleD:
  assumes "accessible d a n = Some c"
  shows "c \<in> set (md_cases d)" "ca_guild c = act_guild a" "ca_number c = n" "mayAccess a (ca_opener c)"
  using assms by (auto simp: accessible_def split: option.splits if_splits dest!: find_SomeD)

text \<open>A new case.\<close>

lemma open_cases:
  assumes "open_mail w a topic body minted d = Inr (r, d')"
  obtains (Same) "d' = d" "\<And>n u. r = OpenOpened n u \<Longrightarrow> \<exists>c \<in> set (md_cases d). ca_number c = n \<and> ca_guild c = act_guild a"
  | (New) m s i t b where "the_cipher w = Some m" "settings_of d (act_guild a) = Some s"
      "i = (case map_option lower minted of Some i \<Rightarrow> i | None \<Rightarrow> mw_case w)"
      "minted \<noteq> None \<Longrightarrow> case_of d i = None"
      "limit_refusal (mw_now w) d (act_guild a) (act_user a) = None"
      "seal_field w m \<lparr>cb_guild = act_guild a, cb_case = i, cb_opener = act_user a\<rparr> TopicField (cleanTopic topic) PadTopic = Some t"
      "seal_field w m \<lparr>cb_guild = act_guild a, cb_case = i, cb_opener = act_user a\<rparr> (opener_field (mw_message w) (act_user a))
         (cleanText body) PadMessage = Some b"
      "md_cases d' = md_cases d @ [\<lparr>ca_id = i, ca_guild = act_guild a, ca_number = st_last s + 1, ca_opener = act_user a,
          ca_state = WaitOfficers, ca_revision = 1, ca_opened = mw_now w, ca_activity = mw_now w, ca_since = mw_now w,
          ca_closed = None, ca_delete = None, ca_topic = se_data t, ca_topic_key = se_key t\<rparr>]"
      "md_messages d' = md_messages d @ [\<lparr>ms_id = mw_message w, ms_case = i, ms_kind = EntryMessage,
          ms_author = act_user a, ms_side = MemberSide, ms_signed = None, ms_body = Some (se_data b),
          ms_key = Some (se_key b), ms_created = mw_now w\<rparr>]"
      "md_settings d' = map (\<lambda>s. if st_guild s = act_guild a then s\<lparr>st_last := st_last s + 1\<rparr> else s) (md_settings d)"
      "mailTextProblem (cleanTopic topic) TOPIC_CHARS = None" "mailTextProblem (cleanText body) MESSAGE_CHARS = None"
      "r = OpenOpened (st_last s + 1) (url_of w (act_guild a) (st_last s + 1))"
proof -
  let ?g = "act_guild a" and ?u = "act_user a" and ?t = "cleanTopic topic" and ?b = "cleanText body"
  let ?min = "map_option lower minted"
  let ?known = "\<lambda>n. \<exists>c \<in> set (md_cases d). ca_number c = n \<and> ca_guild c = ?g"
  show ?thesis
  proof (cases "\<exists>m. the_cipher w = Some m \<and> mailTextProblem ?t TOPIC_CHARS = None \<and> mailTextProblem ?b MESSAGE_CHARS = None \<and>
      openCase w m ?g ?u ?t ?b ?min d = Inr (r, d')")
    case False
    have "d' = d \<and> (\<forall>n u. r \<noteq> OpenOpened n u)"
      using assms False by (auto simp: open_mail_def Let_def split: sum.splits option.splits if_splits)
    then show ?thesis by (intro Same) auto
  next
    case True
    then obtain m where m: "the_cipher w = Some m" and tp: "mailTextProblem ?t TOPIC_CHARS = None" "mailTextProblem ?b MESSAGE_CHARS = None"
      and o: "openCase w m ?g ?u ?t ?b ?min d = Inr (r, d')" by blast
    let ?rep = "case ?min of None \<Rightarrow> Some None | Some i \<Rightarrow> openedBefore w d i ?g ?u ?t ?b"
    have rep: "?known n" if rp: "?rep = Some (Some (OpenOpened n u))" for n u
    proof -
      obtain i c where c: "?min = Some i" "case_of d i = Some c" "\<not> (ca_guild c \<noteq> ?g \<or> ca_opener c \<noteq> ?u)"
        using rp by (auto simp: openedBefore_def split: option.splits if_splits)
      then have "ca_number c = n"
        using rp by (auto simp: openedBefore_def Let_def split: option.splits if_splits)
      then show ?thesis using c case_ofD [OF c(2)] by auto
    qed
    show ?thesis
    proof (cases "?rep = Some None \<and> guildRow d ?g \<noteq> None \<and> enabledIn d ?g \<and> limit_refusal (mw_now w) d ?g ?u = None")
      case False
      then have "d' = d \<and> (\<forall>n u. r = OpenOpened n u \<longrightarrow> ?rep = Some (Some r))"
        using o unfolding openCase_def by (auto split: option.splits if_splits)
      then show ?thesis using rep by (intro Same) blast+
    next
      case ok: True
      then obtain s where s: "settings_of d ?g = Some s" by (auto simp: enabledIn_def split: option.splits)
      let ?i = "case ?min of Some i \<Rightarrow> i | None \<Rightarrow> mw_case w"
      let ?d = "d\<lparr>md_settings := map (\<lambda>s. if st_guild s = ?g then s\<lparr>st_last := st_last s + 1\<rparr> else s) (md_settings d)\<rparr>"
      obtain e where e: "insert_case w m ?g ?u ?i (st_last s + 1) ?t ?b ?d = Some e"
          "d' = queuePing w ?g ?i PingOpened ?u e" "r = OpenOpened (st_last s + 1) (url_of w ?g (st_last s + 1))"
        using o ok s unfolding openCase_def by (auto simp: Let_def split: option.splits if_splits)
      let ?bd = "\<lparr>cb_guild = ?g, cb_case = ?i, cb_opener = ?u\<rparr>"
      obtain t b where tb: "seal_field w m ?bd TopicField ?t PadTopic = Some t"
          "seal_field w m ?bd (opener_field (mw_message w) ?u) ?b PadMessage = Some b"
        using e(1) by (auto simp: insert_case_def Let_def split: option.splits)
      have none: "case_of d ?i = None" if mn: "minted \<noteq> None"
      proof -
        obtain i where "minted = Some i" using mn by blast
        then show ?thesis using ok by (auto simp: openedBefore_def Let_def split: option.splits if_splits)
      qed
      show ?thesis
        by (rule New [OF m s refl none _ tb _ _ _ tp e(3)])
          (use ok e tb in \<open>auto simp: insert_case_def Let_def\<close>)
    qed
  qed
qed

text \<open>A saved reply: its rows, and the case it leaves.\<close>

definition reply_signing :: "message_side \<Rightarrow> signing option \<Rightarrow> signing option" where
  "reply_signing side chosen =
     (if side = OfficerSide then Some (case chosen of Some s \<Rightarrow> s | None \<Rightarrow> SignName) else None)"

lemma reply_cases:
  assumes "reply w before a n i body chosen d = Inr (r, d')"
  obtains (Same) "d' = d" "\<And>j. r \<noteq> Some (ReplySaved j)"
  | (Saved) m c seen s side where "the_cipher w = Some m" "accessible before a n = Some seen"
      "case_of d (ca_id seen) = Some c" "side = sideIn (ca_opener seen) (act_user a)"
      "message_of d (lower i) = None" "message_count d (ca_id c) < MESSAGES_PER_CASE"
      "ca_state c = CaseClosed \<and> side = MemberSide \<Longrightarrow> fst (case_counts (mw_now w) d (act_guild a) (ca_opener c)) < OPEN_CASES"
      "seal_field w m \<lparr>cb_guild = act_guild a, cb_case = ca_id c, cb_opener = ca_opener c\<rparr>
         (reply_field (lower i) (act_user a) side (reply_signing side chosen)) (cleanText body) PadMessage = Some s"
      "md_messages d' = md_messages d @
         (if ca_state c = CaseClosed then [line_row w c EntryReopened (act_user a) side (reply_signing side chosen)] else []) @
         [reply_row w c (lower i) (act_user a) side (reply_signing side chosen) s]"
      "md_cases d' = map (\<lambda>x. if ca_id x = ca_id c then after_reply w side x else x) (md_cases d)"
      "md_settings d' = md_settings d" "mailTextProblem (cleanText body) MESSAGE_CHARS = None"
      "r = Some (ReplySaved (lower i))"
      "side = OfficerSide \<Longrightarrow> can a P_modmail_respond"
      "d' = save_reply w (act_guild a) c (lower i) (act_user a) side (reply_signing side chosen) s d"
proof -
  let ?g = "act_guild a" and ?u = "act_user a" and ?b = "cleanText body" and ?i = "lower i"
  have Same': thesis if "d' = d" "\<forall>j. r \<noteq> Some (ReplySaved j)" using that Same by blast
  show ?thesis
  proof (cases "\<exists>seen m. accessible before a n = Some seen \<and> the_cipher w = Some m \<and>
      mailTextProblem ?b MESSAGE_CHARS = None \<and> may_respond a (sideIn (ca_opener seen) ?u) = Inr () \<and>
      reply_transaction w m ?g ?u seen ?i (sideIn (ca_opener seen) ?u)
        (reply_signing (sideIn (ca_opener seen) ?u) chosen) ?b d = Inr (r, d')")
    case False
    have "d' = d \<and> (\<forall>j. r \<noteq> Some (ReplySaved j))"
      using assms False unfolding reply_def Let_def reply_signing_def
      by (auto split: sum.splits option.splits if_splits)
    then show ?thesis using Same' by blast
  next
    case True
    then obtain seen m where sm: "accessible before a n = Some seen" "the_cipher w = Some m"
        "mailTextProblem ?b MESSAGE_CHARS = None" "may_respond a (sideIn (ca_opener seen) ?u) = Inr ()"
      and t: "reply_transaction w m ?g ?u seen ?i (sideIn (ca_opener seen) ?u)
        (reply_signing (sideIn (ca_opener seen) ?u) chosen) ?b d = Inr (r, d')" by blast
    let ?s = "sideIn (ca_opener seen) ?u"
    let ?sg = "reply_signing ?s chosen"
    have resp: "?s = OfficerSide \<Longrightarrow> can a P_modmail_respond"
      using sm(4) by (auto simp: may_respond_def requirePermission_Inr_iff)
    show ?thesis
    proof (cases "\<exists>c s. case_of d (ca_id seen) = Some c \<and> message_of d ?i = None \<and>
        message_count d (ca_id c) < MESSAGES_PER_CASE \<and>
        (ca_state c = CaseClosed \<and> ?s = MemberSide \<longrightarrow> fst (case_counts (mw_now w) d ?g (ca_opener c)) < OPEN_CASES) \<and>
        seal_field w m \<lparr>cb_guild = ?g, cb_case = ca_id c, cb_opener = ca_opener c\<rparr> (reply_field ?i ?u ?s ?sg) ?b PadMessage = Some s \<and>
        r = Some (ReplySaved ?i) \<and> d' = save_reply w ?g c ?i ?u ?s ?sg s d")
      case False
      have rep: "repeated w d ?i c ?u ?b = Some None \<Longrightarrow> message_of d ?i = None" for c
        by (auto simp: repeated_def split: option.splits if_splits)
      have rep2: "repeated w d ?i c ?u ?b \<noteq> Some (Some (ReplySaved j))" for c j
        by (auto simp: repeated_def split: option.splits if_splits)
      have "d' = d \<and> (\<forall>j. r \<noteq> Some (ReplySaved j))"
        using t False rep rep2 unfolding reply_transaction_def
        by (auto simp: not_le split: option.splits if_splits)
      then show ?thesis using Same' by blast
    next
      case True
      then obtain c s where c: "case_of d (ca_id seen) = Some c" "message_of d ?i = None"
          "message_count d (ca_id c) < MESSAGES_PER_CASE"
          "ca_state c = CaseClosed \<and> ?s = MemberSide \<longrightarrow> fst (case_counts (mw_now w) d ?g (ca_opener c)) < OPEN_CASES"
          "seal_field w m \<lparr>cb_guild = ?g, cb_case = ca_id c, cb_opener = ca_opener c\<rparr> (reply_field ?i ?u ?s ?sg) ?b PadMessage = Some s"
          "r = Some (ReplySaved ?i)" "d' = save_reply w ?g c ?i ?u ?s ?sg s d" by blast
      show ?thesis
        by (rule Saved [OF sm(2,1) c(1) refl c(2,3) _ c(5)])
          (use c sm(3) resp in \<open>simp_all add: save_reply_def Let_def\<close>)
    qed
  qed
qed

text \<open>A saved close or reopen.\<close>

definition change_rows :: "mail_world \<Rightarrow> change \<Rightarrow> mail_case \<Rightarrow> mail_case" where
  "change_rows w ch = (if ch = Close then close_row w else reopen_row w)"

lemma change_cases:
  assumes "changeState w before a n revision ch d = Inr (r, d')"
  obtains (Same) "d' = d" "r \<noteq> Some StateSaved"
  | (Saved) c seen side signed where "accessible before a n = Some seen" "case_of d (ca_id seen) = Some c"
      "side = sideIn (ca_opener seen) (act_user a)" "(ch = Close) = (ca_state c \<noteq> CaseClosed)" "ca_revision c = revision"
      "(side = OfficerSide) = (signed \<noteq> None)" "ch = Reopen \<Longrightarrow> side = OfficerSide"
      "md_messages d' = md_messages d @ [line_row w c (if ch = Close then EntryClosed else EntryReopened) (act_user a) side signed]"
      "md_cases d' = map (\<lambda>x. if ca_id x = ca_id c then change_rows w ch x else x) (md_cases d)"
      "md_settings d' = md_settings d" "r = Some StateSaved"
proof -
  from assms have "d' = d \<and> r \<noteq> Some StateSaved \<or>
    (\<exists>seen. accessible before a n = Some seen \<and> (ch = Reopen \<longrightarrow> sideIn (ca_opener seen) (act_user a) = OfficerSide) \<and>
       change_transaction w (act_guild a) (act_user a) seen (sideIn (ca_opener seen) (act_user a)) revision ch d = Inr (r, d'))"
    unfolding changeState_def
    by (cases "sideIn (ca_opener (the (accessible before a n))) (act_user a)")
      (auto simp: and_then_Inr_iff Let_def split: option.splits if_splits)
  then show ?thesis
  proof
    assume "d' = d \<and> r \<noteq> Some StateSaved"
    then show ?thesis using Same by blast
  next
    assume "\<exists>seen. accessible before a n = Some seen \<and> (ch = Reopen \<longrightarrow> sideIn (ca_opener seen) (act_user a) = OfficerSide) \<and>
       change_transaction w (act_guild a) (act_user a) seen (sideIn (ca_opener seen) (act_user a)) revision ch d = Inr (r, d')"
    then obtain seen where seen: "accessible before a n = Some seen" "ch = Reopen \<longrightarrow> sideIn (ca_opener seen) (act_user a) = OfficerSide"
      and t: "change_transaction w (act_guild a) (act_user a) seen (sideIn (ca_opener seen) (act_user a)) revision ch d = Inr (r, d')"
      by blast
    let ?side = "sideIn (ca_opener seen) (act_user a)"
    show ?thesis
    proof (cases "\<exists>c. case_of d (ca_id seen) = Some c \<and> (ch = Close) \<noteq> (ca_state c = CaseClosed) \<and> ca_revision c = revision \<and>
        r = Some StateSaved")
      case False
      then have "d' = d \<and> r \<noteq> Some StateSaved"
        using t unfolding change_transaction_def by (auto simp: Let_def split: option.splits if_splits)
      then show ?thesis using Same by blast
    next
      case True
      then obtain c where c: "case_of d (ca_id seen) = Some c" "(ch = Close) \<noteq> (ca_state c = CaseClosed)" "ca_revision c = revision"
          "r = Some StateSaved" by blast
      show ?thesis
        by (rule Saved [OF seen(1) c(1) refl _ c(3),
              where signed = "if ?side = OfficerSide then Some (signingOf d (ca_id c) (act_user a)) else None"])
          (use t c seen(2) in \<open>auto simp: change_transaction_def change_rows_def Let_def split: if_splits\<close>)
    qed
  qed
qed

lemma toggle_writes:
  assumes "toggle w a en rv d = Inr (r, d')"
  shows "md_cases d' = md_cases d" "md_messages d' = md_messages d" "md_reads d' = md_reads d"
    and "\<exists>f new. md_settings d' = map f (md_settings d) @ new \<and> (\<forall>s. st_guild (f s) = st_guild s \<and> st_last (f s) = st_last s) \<and>
      (new = [] \<or> (\<exists>x. new = [x] \<and> st_guild x \<notin> st_guild ` set (md_settings d)))"
proof -
  let ?g = "act_guild a"
  from assms obtain guild where gu: "guildRow d ?g = Some guild"
    by (auto simp: toggle_def and_then_Inr_iff split: option.splits if_splits)
  let ?new = "if settings_of d (gd_id guild) = None then [\<lparr>st_guild = gd_id guild, st_enabled = False, st_revision = 1,
      st_last = 0, st_by = None, st_at = mw_now w\<rparr>] else []"
  let ?f = "\<lambda>s. if st_guild s = gd_id guild then s\<lparr>st_enabled := en, st_revision := st_revision s + 1,
      st_by := Some (act_user a), st_at := mw_now w\<rparr> else s"
  have "md_cases d' = md_cases d \<and> md_messages d' = md_messages d \<and> md_reads d' = md_reads d \<and>
      (md_settings d' = md_settings d @ ?new \<or> md_settings d' = map ?f (md_settings d @ ?new))"
    using assms gu unfolding toggle_def and_then_Inr_iff by (auto simp: Let_def split: option.splits if_splits)
  then show "md_cases d' = md_cases d" "md_messages d' = md_messages d" "md_reads d' = md_reads d"
    and "\<exists>f new. md_settings d' = map f (md_settings d) @ new \<and> (\<forall>s. st_guild (f s) = st_guild s \<and> st_last (f s) = st_last s) \<and>
      (new = [] \<or> (\<exists>x. new = [x] \<and> st_guild x \<notin> st_guild ` set (md_settings d)))"
  proof -
    assume k: "md_cases d' = md_cases d \<and> md_messages d' = md_messages d \<and> md_reads d' = md_reads d \<and>
      (md_settings d' = md_settings d @ ?new \<or> md_settings d' = map ?f (md_settings d @ ?new))"
    show "md_cases d' = md_cases d" "md_messages d' = md_messages d" "md_reads d' = md_reads d" using k by blast+
    have none: "settings_of d (gd_id guild) = None \<Longrightarrow> gd_id guild \<notin> st_guild ` set (md_settings d)"
      by (auto simp: settings_of_def find_None_iff)
    show "\<exists>f new. md_settings d' = map f (md_settings d) @ new \<and> (\<forall>s. st_guild (f s) = st_guild s \<and> st_last (f s) = st_last s) \<and>
      (new = [] \<or> (\<exists>x. new = [x] \<and> st_guild x \<notin> st_guild ` set (md_settings d)))"
    proof (cases "md_settings d' = md_settings d @ ?new")
      case True
      then show ?thesis using none by (intro exI [of _ "\<lambda>s. s"] exI [of _ ?new]) auto
    next
      case False
      then have "md_settings d' = map ?f (md_settings d) @ map ?f ?new" using k by simp
      then show ?thesis using none by (intro exI [of _ ?f] exI [of _ "map ?f ?new"]) auto
    qed
  qed
qed


section \<open>Histories\<close>

text \<open>
  Fresh IDs are fresh (\<open>crypto.randomUUID\<close>), and the nonce has its 12 bytes. A reply, a close and a reopen
  look their case up before their transaction; \<open>looked_up\<close> says that the case found there is still the
  same one in the transaction, or is gone.
\<close>

definition fresh_ids :: "mail_world \<Rightarrow> mail_db \<Rightarrow> bool" where
  "fresh_ids w d \<longleftrightarrow>
     mw_case w \<notin> ca_id ` set (md_cases d) \<and> mw_message w \<notin> ms_id ` set (md_messages d) \<and>
     mw_line w \<notin> ms_id ` set (md_messages d)"

definition looked_up :: "mail_db \<Rightarrow> actor \<Rightarrow> nat \<Rightarrow> mail_db \<Rightarrow> bool" where
  "looked_up before a n d \<longleftrightarrow>
     (case accessible before a n of
        None \<Rightarrow> True
      | Some seen \<Rightarrow>
          (case case_of d (ca_id seen) of
             None \<Rightarrow> True
           | Some c \<Rightarrow> ca_guild c = ca_guild seen \<and> ca_number c = ca_number seen \<and> ca_opener c = ca_opener seen))"

inductive mail_step :: "mail_db \<Rightarrow> mail_db \<Rightarrow> bool" where
  Toggle: "toggle w a en rv d = Inr (r, d') \<Longrightarrow> mail_step d d'"
| Open: "open_mail w a topic body minted d = Inr (r, d') \<Longrightarrow> fresh_ids w d \<Longrightarrow> mail_step d d'"
| Reply: "reply w before a n i body chosen d = Inr (r, d') \<Longrightarrow> fresh_ids w d \<Longrightarrow> lower i \<noteq> mw_line w \<Longrightarrow>
    looked_up before a n d \<Longrightarrow> mail_step d d'"
| ChangeState: "changeState w before a n rv ch d = Inr (r, d') \<Longrightarrow> fresh_ids w d \<Longrightarrow> looked_up before a n d \<Longrightarrow>
    mail_step d d'"
| View: "caseView w a n d = Inr (r, d') \<Longrightarrow> mail_step d d'"
| Inbox: "inbox w a f d = (r, d') \<Longrightarrow> mail_step d d'"
| Mine: "mine w a d = Inr (r, d') \<Longrightarrow> mail_step d d'"
| Retention: "retention_tick prev clock now d = (l, n, d') \<Longrightarrow> mail_step d d'"
| Elsewhere: "mail_step d (d\<lparr>md_guilds := gs, md_jobs := js, md_audit := au\<rparr>)"

definition mail_start :: "mail_db \<Rightarrow> bool" where
  "mail_start d \<longleftrightarrow> md_cases d = [] \<and> md_messages d = [] \<and> md_settings d = []"

definition mail_reachable :: "mail_db \<Rightarrow> bool" where
  "mail_reachable d \<longleftrightarrow> (\<exists>s. mail_start s \<and> mail_step\<^sup>*\<^sup>* s d)"

section \<open>The five ways the tables are written\<close>

text \<open>What a row must be like, whatever wrote it.\<close>

definition state_after :: "mail_message \<Rightarrow> case_state" where
  "state_after m =
     (case ms_kind m of EntryMessage \<Rightarrow> afterReply (ms_side m) | EntryClosed \<Rightarrow> CaseClosed | EntryReopened \<Rightarrow> REOPENED_STATE)"

definition case_row_ok :: "mail_case \<Rightarrow> bool" where
  "case_row_ok c \<longleftrightarrow>
     (ca_state c = CaseClosed) = (ca_closed c \<noteq> None) \<and>
     ca_delete c = map_option (\<lambda>t. t + 86400000 * RETENTION_DAYS) (ca_closed c) \<and>
     1 \<le> ca_number c \<and> 1 \<le> ca_revision c \<and> fieldAad (binding_of c) TopicField \<noteq> None"

definition message_row_ok :: "mail_case \<Rightarrow> mail_message \<Rightarrow> bool" where
  "message_row_ok c m \<longleftrightarrow>
     ms_case m = ca_id c \<and> ms_side m = sideIn (ca_opener c) (ms_author m) \<and>
     (ms_side m = OfficerSide) = (ms_signed m \<noteq> None) \<and>
     (ms_kind m = EntryMessage) = (ms_body m \<noteq> None) \<and> (ms_body m = None) = (ms_key m = None) \<and>
     (ms_kind m = EntryMessage \<longrightarrow> fieldAad (binding_of c) (row_field m) \<noteq> None)"

definition same_case :: "mail_case \<Rightarrow> mail_case \<Rightarrow> bool" where
  "same_case c c' \<longleftrightarrow>
     ca_id c' = ca_id c \<and> ca_guild c' = ca_guild c \<and> ca_number c' = ca_number c \<and> ca_opener c' = ca_opener c \<and>
     ca_opened c' = ca_opened c \<and> ca_topic c' = ca_topic c \<and> ca_topic_key c' = ca_topic_key c"

definition posts :: "mail_message list \<Rightarrow> nat" where
  "posts ms = length (filter (\<lambda>m. ms_kind m = EntryMessage) ms)"

inductive mail_write :: "mail_db \<Rightarrow> mail_db \<Rightarrow> bool" where
  Kept: "md_cases d' = md_cases d \<Longrightarrow> md_messages d' = md_messages d \<Longrightarrow>
    md_settings d' = map f (md_settings d) @ new \<Longrightarrow> (\<And>s. st_guild (f s) = st_guild s \<and> st_last (f s) = st_last s) \<Longrightarrow>
    new = [] \<or> (\<exists>x. new = [x] \<and> st_guild x \<notin> st_guild ` set (md_settings d)) \<Longrightarrow> mail_write d d'"
| Opened: "md_cases d' = md_cases d @ [c] \<Longrightarrow> md_messages d' = md_messages d @ [m] \<Longrightarrow>
    md_settings d' = map (\<lambda>s. if st_guild s = ca_guild c then s\<lparr>st_last := st_last s + 1\<rparr> else s) (md_settings d) \<Longrightarrow>
    settings_of d (ca_guild c) = Some s \<Longrightarrow> ca_number c = st_last s + 1 \<Longrightarrow> ca_id c \<notin> ca_id ` set (md_cases d) \<Longrightarrow>
    ms_id m \<notin> ms_id ` set (md_messages d) \<Longrightarrow> case_row_ok c \<Longrightarrow> message_row_ok c m \<Longrightarrow> ca_state c = state_after m \<Longrightarrow>
    mail_write d d'"
| Touched: "c \<in> set (md_cases d) \<Longrightarrow> md_messages d' = md_messages d @ rows @ [m] \<Longrightarrow>
    md_cases d' = map (\<lambda>x. if ca_id x = ca_id c then f x else x) (md_cases d) \<Longrightarrow> md_settings d' = md_settings d \<Longrightarrow>
    distinct (map ms_id (rows @ [m])) \<Longrightarrow> ms_id ` set (rows @ [m]) \<inter> ms_id ` set (md_messages d) = {} \<Longrightarrow>
    (\<And>x. x \<in> set (rows @ [m]) \<Longrightarrow> message_row_ok c x) \<Longrightarrow> (\<And>x. same_case x (f x)) \<Longrightarrow>
    (\<And>x. ca_revision (f x) = ca_revision x + 1) \<Longrightarrow> (\<And>x. case_row_ok x \<Longrightarrow> case_row_ok (f x)) \<Longrightarrow>
    (\<And>x. ca_state (f x) = state_after m) \<Longrightarrow>
    posts (rows @ [m]) = 0 \<or> posts (thread d (ca_id c)) + posts (rows @ [m]) \<le> MESSAGES_PER_CASE \<Longrightarrow> mail_write d d'"
| Pruned: "md_cases d' = filter (\<lambda>c. \<not> expired now c) (md_cases d) \<Longrightarrow>
    md_messages d' = filter (\<lambda>m. ms_case m \<notin> ca_id ` {c \<in> set (md_cases d). expired now c}) (md_messages d) \<Longrightarrow>
    md_settings d' = md_settings d \<Longrightarrow> mail_write d d'"

lemma mail_write_same: "md_cases d' = md_cases d \<Longrightarrow> md_messages d' = md_messages d \<Longrightarrow> md_settings d' = md_settings d \<Longrightarrow>
    mail_write d d'"
  by (rule mail_write.Kept [where f = "\<lambda>s. s" and new = "[]"]) simp_all

lemma seal_field_aad: "seal_field w m b f t p = Some s \<Longrightarrow> fieldAad b f \<noteq> None"
  by (auto simp: seal_field_def split: bind_splits)

lemma not_in_ids: "case_of d i = None \<longleftrightarrow> i \<notin> ca_id ` set (md_cases d)" "message_of d i = None \<longleftrightarrow> i \<notin> ms_id ` set (md_messages d)"
  by (auto simp: case_of_def message_of_def find_None_iff)

lemma write_open:
  assumes "open_mail w a topic body minted d = Inr (r, d')" "fresh_ids w d" shows "mail_write d d'"
  using assms(1)
proof (cases rule: open_cases)
  case Same
  then show ?thesis by (intro mail_write_same) simp_all
next
  case (New m s i t b)
  let ?c = "\<lparr>ca_id = i, ca_guild = act_guild a, ca_number = st_last s + 1, ca_opener = act_user a,
          ca_state = WaitOfficers, ca_revision = 1, ca_opened = mw_now w, ca_activity = mw_now w, ca_since = mw_now w,
          ca_closed = None, ca_delete = None, ca_topic = se_data t, ca_topic_key = se_key t\<rparr>"
  have i: "i \<notin> ca_id ` set (md_cases d)"
    using New(3,4) assms(2) by (cases minted) (simp_all add: fresh_ids_def not_in_ids)
  let ?m = "\<lparr>ms_id = mw_message w, ms_case = i, ms_kind = EntryMessage, ms_author = act_user a, ms_side = MemberSide,
          ms_signed = None, ms_body = Some (se_data b), ms_key = Some (se_key b), ms_created = mw_now w\<rparr>"
  show ?thesis
    using New(2,8,9,10) i assms(2) seal_field_aad [OF New(6)] seal_field_aad [OF New(7)]
    by (intro mail_write.Opened [where c = ?c and s = s and m = ?m])
      (simp_all add: fresh_ids_def case_row_ok_def message_row_ok_def state_after_def afterReply_def sideIn_def binding_of_def
        row_field_def opener_field_def)
qed

lemma write_reply:
  assumes r: "reply w before a n i body chosen d = Inr (r, d')" and f: "fresh_ids w d" and l: "lower i \<noteq> mw_line w"
    and u: "looked_up before a n d"
  shows "mail_write d d'"
  using r
proof (cases rule: reply_cases)
  case Same
  then show ?thesis by (intro mail_write_same) simp_all
next
  case (Saved m c seen s side)
  let ?line = "if ca_state c = CaseClosed then [line_row w c EntryReopened (act_user a) side (reply_signing side chosen)] else []"
  let ?row = "reply_row w c (lower i) (act_user a) side (reply_signing side chosen) s"
  have c: "c \<in> set (md_cases d)" using Saved(3) case_ofD by blast
  have same: "ca_guild c = act_guild a" "ca_opener c = ca_opener seen"
    using u Saved(2,3) accessibleD(2) [OF Saved(2)] by (simp_all add: looked_up_def)
  have sg: "(side = OfficerSide) = (reply_signing side chosen \<noteq> None)" by (simp add: reply_signing_def)
  have aad: "fieldAad (binding_of c) (row_field ?row) \<noteq> None"
    using seal_field_aad [OF Saved(8)] same by (simp add: binding_of_def row_field_def reply_row_def reply_field_def)
  show ?thesis
  proof (rule mail_write.Touched [OF c _ Saved(10,11), where rows = ?line and m = ?row])
    show "md_messages d' = md_messages d @ ?line @ [?row]" by (rule Saved(9))
    show "distinct (map ms_id (?line @ [?row]))" using l by (simp add: line_row_def reply_row_def)
    show "ms_id ` set (?line @ [?row]) \<inter> ms_id ` set (md_messages d) = {}"
      using f Saved(5) by (auto simp: fresh_ids_def not_in_ids line_row_def reply_row_def)
    show "message_row_ok c x" if "x \<in> set (?line @ [?row])" for x
      using that same Saved(4) sg aad
      by (auto simp: message_row_ok_def line_row_def reply_row_def split: if_splits)
    show "same_case x (after_reply w side x)" "ca_revision (after_reply w side x) = ca_revision x + 1"
      "case_row_ok x \<Longrightarrow> case_row_ok (after_reply w side x)" "ca_state (after_reply w side x) = state_after ?row" for x
      by (simp_all add: same_case_def after_reply_def case_row_ok_def afterReply_def state_after_def reply_row_def binding_of_def)
    show "posts (?line @ [?row]) = 0 \<or> posts (thread d (ca_id c)) + posts (?line @ [?row]) \<le> MESSAGES_PER_CASE"
      using Saved(6) by (simp add: posts_def message_count_def line_row_def reply_row_def)
  qed
qed

lemma write_change:
  assumes r: "changeState w before a n rv ch d = Inr (r, d')" and f: "fresh_ids w d" and u: "looked_up before a n d"
  shows "mail_write d d'"
  using r
proof (cases rule: change_cases)
  case Same
  then show ?thesis by (intro mail_write_same) simp_all
next
  case (Saved c seen side signed)
  let ?row = "line_row w c (if ch = Close then EntryClosed else EntryReopened) (act_user a) side signed"
  have c: "c \<in> set (md_cases d)" using Saved(2) case_ofD by blast
  have same: "ca_opener c = ca_opener seen" using u Saved(1,2) by (simp add: looked_up_def)
  show ?thesis
  proof (rule mail_write.Touched [OF c _ Saved(9,10), where rows = "[]" and m = ?row])
    show "md_messages d' = md_messages d @ [] @ [?row]" using Saved(8) by simp
    show "message_row_ok c x" if "x \<in> set ([] @ [?row])" for x
      using that same Saved(3,6) by (simp add: message_row_ok_def line_row_def)
    show "same_case x (change_rows w ch x)" "ca_revision (change_rows w ch x) = ca_revision x + 1"
      "case_row_ok x \<Longrightarrow> case_row_ok (change_rows w ch x)" "ca_state (change_rows w ch x) = state_after ?row" for x
      by (cases ch; simp add: same_case_def change_rows_def close_row_def reopen_row_def case_row_ok_def state_after_def
        line_row_def REOPENED_STATE_def binding_of_def)+
  qed (use f in \<open>simp_all add: fresh_ids_def line_row_def posts_def\<close>)
qed

lemma write_list: "list_reads w a rows d = Inr (r, d') \<Longrightarrow> mail_write d d'"
  by (rule mail_write_same) (auto simp: list_reads_def split: option.splits if_splits)

lemma step_write: "mail_step d d' \<Longrightarrow> mail_write d d'"
proof (induction rule: mail_step.induct)
  case (Toggle w a en rv d r d')
  obtain f new where "md_settings d' = map f (md_settings d) @ new \<and> (\<forall>s. st_guild (f s) = st_guild s \<and> st_last (f s) = st_last s) \<and>
      (new = [] \<or> (\<exists>x. new = [x] \<and> st_guild x \<notin> st_guild ` set (md_settings d)))" using toggle_writes(4) [OF Toggle] by blast
  then show ?case using toggle_writes(1,2) [OF Toggle] by (intro mail_write.Kept [where f = f and new = new]) simp_all
next
  case (View w a n d r d')
  then show ?case by (intro mail_write_same) (auto simp: caseView_def Let_def split: sum.splits option.splits)
next
  case (Inbox w a f d r d')
  then show ?case by (auto simp: inbox_def intro: write_list mail_write_same split: sum.splits)
next
  case (Mine w a d r d')
  then show ?case by (auto simp: mine_def intro: write_list split: sum.splits)
next
  case (Retention prev clock now d l n d')
  then have "d' = d \<or> d' = snd (pruneModMail now d)"
    by (auto simp: retention_tick_def split: if_splits prod.splits)
  then show ?case
    by (rule disjE) (simp add: mail_write_same, rule mail_write.Pruned [where now = now], simp_all add: pruneModMail_def Let_def)
next
  case (Elsewhere d gs js au)
  then show ?case by (rule mail_write_same) simp_all
qed (auto intro: write_open write_reply write_change)

end
