(* ===== verification/ModmailSafety.thy ===== *)
theory ModmailSafety
  imports ModmailHistory
begin

text \<open>
  What holds of mod mail over any history of its operations: the tables' own CHECKs, a case's state told by
  its thread, numbers that are never given twice, threads that only grow and whose every change moves the
  revision, what is read back of what was written and by whom, forms sent twice, and retention.
\<close>

section \<open>The tables\<close>

definition mail_ok :: "mail_db \<Rightarrow> bool" where
  "mail_ok d \<longleftrightarrow>
     distinct (map ca_id (md_cases d)) \<and> distinct (map (\<lambda>c. (ca_guild c, ca_number c)) (md_cases d)) \<and>
     distinct (map ms_id (md_messages d)) \<and> distinct (map st_guild (md_settings d)) \<and>
     (\<forall>c \<in> set (md_cases d). case_row_ok c \<and> (\<exists>s \<in> set (md_settings d). st_guild s = ca_guild c \<and> ca_number c \<le> st_last s)) \<and>
     (\<forall>m \<in> set (md_messages d). \<exists>c \<in> set (md_cases d). message_row_ok c m) \<and>
     (\<forall>c \<in> set (md_cases d). thread d (ca_id c) \<noteq> [] \<and> ca_state c = state_after (last (thread d (ca_id c))) \<and>
        posts (thread d (ca_id c)) \<le> MESSAGES_PER_CASE)"

lemma mail_okD:
  assumes "mail_ok d"
  shows "distinct (map ca_id (md_cases d))" "distinct (map (\<lambda>c. (ca_guild c, ca_number c)) (md_cases d))"
    "distinct (map ms_id (md_messages d))" "distinct (map st_guild (md_settings d))"
    "c \<in> set (md_cases d) \<Longrightarrow> case_row_ok c"
    "c \<in> set (md_cases d) \<Longrightarrow> \<exists>s \<in> set (md_settings d). st_guild s = ca_guild c \<and> ca_number c \<le> st_last s"
    "m \<in> set (md_messages d) \<Longrightarrow> \<exists>c \<in> set (md_cases d). message_row_ok c m"
    "c \<in> set (md_cases d) \<Longrightarrow> thread d (ca_id c) \<noteq> []"
    "c \<in> set (md_cases d) \<Longrightarrow> ca_state c = state_after (last (thread d (ca_id c)))"
    "c \<in> set (md_cases d) \<Longrightarrow> posts (thread d (ca_id c)) \<le> MESSAGES_PER_CASE"
  using assms unfolding mail_ok_def by blast+

lemma row_same_case: "message_row_ok c m \<Longrightarrow> same_case c c' \<Longrightarrow> message_row_ok c' m"
  unfolding message_row_ok_def same_case_def binding_of_def by (elim conjE) (simp only: simp_thms)

lemma posts_append [simp]: "posts (xs @ ys) = posts xs + posts ys" "posts [] = 0"
  by (simp_all add: posts_def)

lemma thread_append: "md_messages d' = md_messages d @ ms \<Longrightarrow> thread d' i = thread d i @ filter (\<lambda>m. ms_case m = i) ms"
  by (simp add: thread_def)

lemma thread_cong: "md_messages d' = md_messages d \<Longrightarrow> thread d' i = thread d i"
  by (simp add: thread_def)

lemma settings_ofD: "settings_of d g = Some s \<Longrightarrow> s \<in> set (md_settings d) \<and> st_guild s = g"
  unfolding settings_of_def by (rule find_SomeD)

lemma same_key: "distinct (map f xs) \<Longrightarrow> x \<in> set xs \<Longrightarrow> y \<in> set xs \<Longrightarrow> f x = f y \<Longrightarrow> x = y"
  by (auto simp: distinct_map inj_on_def)

lemma map_same_key: "(\<And>x. x \<in> set xs \<Longrightarrow> f (g x) = f x) \<Longrightarrow> map f (map g xs) = map f xs"
  by simp

lemma filter_outside: "k \<notin> S \<Longrightarrow> filter (\<lambda>m. f m = k) (filter (\<lambda>m. f m \<notin> S) xs) = filter (\<lambda>m. f m = k) xs"
  by (induction xs) auto

lemma thread_pruned:
  assumes "md_messages d' = filter (\<lambda>m. ms_case m \<notin> ca_id ` {c \<in> set (md_cases d). expired now c}) (md_messages d)"
    "distinct (map ca_id (md_cases d))" "c \<in> set (md_cases d)" "\<not> expired now c"
  shows "thread d' (ca_id c) = thread d (ca_id c)"
proof -
  have "ca_id c \<notin> ca_id ` {c \<in> set (md_cases d). expired now c}" 
  proof
    assume "ca_id c \<in> ca_id ` {c \<in> set (md_cases d). expired now c}"
    then obtain x where x: "x \<in> set (md_cases d)" "expired now x" "ca_id x = ca_id c" by auto
    then show False using same_key [OF assms(2) x(1) assms(3) x(3)] assms(4) by simp
  qed
  then show ?thesis unfolding thread_def assms(1) by (rule filter_outside)
qed

lemma mail_ok_write:
  assumes "mail_write d d'" "mail_ok d" shows "mail_ok d'"
  using assms
proof (induction rule: mail_write.induct)
  case (Kept d' d f new)
  note ok = mail_okD [OF Kept.prems]
  have "distinct (map st_guild (md_settings d'))" using ok(4) Kept(5) unfolding Kept(3) by (auto simp: comp_def Kept(4) image_iff)
  moreover have "\<exists>s \<in> set (md_settings d'). st_guild s = ca_guild c \<and> ca_number c \<le> st_last s" if c: "c \<in> set (md_cases d)" for c
  proof -
    obtain s where s: "s \<in> set (md_settings d)" "st_guild s = ca_guild c" "ca_number c \<le> st_last s" using ok(6) [OF c] by blast
    then show ?thesis using Kept(3,4) by (intro bexI [of _ "f s"]) simp_all
  qed
  ultimately show ?case
    using ok(1-3,5,7-10) unfolding mail_ok_def Kept(1,2) thread_cong [OF Kept(2)] by blast
next
  case (Opened d' d c m s)
  note ok = mail_okD [OF Opened.prems]
  let ?f = "\<lambda>s. if st_guild s = ca_guild c then s\<lparr>st_last := st_last s + 1\<rparr> else s"
  have s: "s \<in> set (md_settings d)" "st_guild s = ca_guild c" using settings_ofD [OF Opened(4)] by simp_all
  have new: "(ca_guild c, ca_number c) \<notin> (\<lambda>c. (ca_guild c, ca_number c)) ` set (md_cases d)"
  proof
    assume "(ca_guild c, ca_number c) \<in> (\<lambda>c. (ca_guild c, ca_number c)) ` set (md_cases d)"
    then obtain x where x: "x \<in> set (md_cases d)" "ca_guild x = ca_guild c" "ca_number x = ca_number c" by auto
    obtain t where "t \<in> set (md_settings d)" "st_guild t = ca_guild x" "ca_number x \<le> st_last t" using ok(6) [OF x(1)] by blast
    then have "ca_number c \<le> st_last s" using same_key [OF ok(4)] s x by metis
    then show False using Opened(5) by simp
  qed
  have lst: "\<exists>s \<in> set (md_settings d'). st_guild s = ca_guild x \<and> ca_number x \<le> st_last s" if x: "x \<in> set (md_cases d')" for x
  proof (cases "x = c")
    case True
    then show ?thesis using s Opened(3,5) by (intro bexI [of _ "?f s"]) simp_all
  next
    case False
    then obtain t where t: "t \<in> set (md_settings d)" "st_guild t = ca_guild x" "ca_number x \<le> st_last t"
      using ok(6) x Opened(1) by auto
    then show ?thesis using Opened(3) by (intro bexI [of _ "?f t"]) simp_all
  qed
  have none: "thread d (ca_id c) = []"
  proof -
    have "ms_case x \<noteq> ca_id c" if x: "x \<in> set (md_messages d)" for x
      using ok(7) [OF x] Opened(6) by (auto simp: message_row_ok_def)
    then show ?thesis by (simp add: thread_def filter_empty_conv)
  qed
  have mc: "ms_case m = ca_id c" using Opened(9) by (simp add: message_row_ok_def)
  have th: "thread d' (ca_id x) \<noteq> [] \<and> ca_state x = state_after (last (thread d' (ca_id x))) \<and>
      posts (thread d' (ca_id x)) \<le> MESSAGES_PER_CASE" if x: "x \<in> set (md_cases d')" for x
  proof (cases "x = c")
    case True
    then show ?thesis
      using none mc Opened(10) unfolding thread_append [OF Opened(2)] by (simp add: posts_def MESSAGES_PER_CASE_def)
  next
    case False
    then have "x \<in> set (md_cases d)" "ca_id x \<noteq> ca_id c" using x Opened(1,6) by (auto simp: image_iff)
    then show ?thesis using ok(8-10) mc unfolding thread_append [OF Opened(2)] by simp
  qed
  have set: "distinct (map st_guild (md_settings d'))" using ok(4) unfolding Opened(3) by (simp add: comp_def if_distrib cong: if_cong)
  have rows: "\<exists>c \<in> set (md_cases d'). message_row_ok c x" if "x \<in> set (md_messages d')" for x
    using that ok(7) Opened(1,2,9) by auto
  show ?case unfolding mail_ok_def
    using ok(1-3,5) new set lst th rows Opened(1,2,6-8) by (auto simp del: not_None_eq)
next
  case (Touched c d d' rows m f)
  note ok = mail_okD [OF Touched.prems]
  let ?g = "\<lambda>x. if ca_id x = ca_id c then f x else x"
  have g: "same_case x (?g x)" for x using Touched(8) by (simp add: same_case_def)
  have cs: "set (md_cases d') = ?g ` set (md_cases d)" using Touched(3) by simp
  have ids: "map ca_id (md_cases d') = map ca_id (md_cases d)"
    "map (\<lambda>c. (ca_guild c, ca_number c)) (md_cases d') = map (\<lambda>c. (ca_guild c, ca_number c)) (md_cases d)"
    using Touched(8) unfolding Touched(3) by (simp_all add: same_case_def)
  have mid: "distinct (map ms_id (md_messages d'))"
    using ok(3) Touched(5,6) unfolding Touched(2) by (auto simp del: map_append simp: map_append [of _ "md_messages d"])
  have msgs: "\<exists>c \<in> set (md_cases d'). message_row_ok c x" if x: "x \<in> set (md_messages d')" for x
  proof -
    have "\<exists>c \<in> set (md_cases d). message_row_ok c x"
      using x ok(7) Touched(1,2,7) by auto
    then obtain y where "y \<in> set (md_cases d)" "message_row_ok y x" by blast
    then show ?thesis using row_same_case [OF _ g] cs by blast
  qed
  have row: "case_row_ok x \<and> (\<exists>s \<in> set (md_settings d'). st_guild s = ca_guild x \<and> ca_number x \<le> st_last s)"
    if x: "x \<in> set (md_cases d')" for x
  proof -
    obtain y where y: "y \<in> set (md_cases d)" "x = ?g y" using x cs by blast
    have "case_row_ok x" using ok(5) [OF y(1)] Touched(10) y(2) by simp
    moreover have "ca_guild x = ca_guild y" "ca_number x = ca_number y" using g [of y] y(2) by (simp_all add: same_case_def)
    ultimately show ?thesis using ok(6) [OF y(1)] Touched(4) by simp
  qed
  have all: "filter (\<lambda>x. ms_case x = i) (rows @ [m]) = (if i = ca_id c then rows @ [m] else [])" for i
    using Touched(7) unfolding message_row_ok_def by (auto simp: filter_empty_conv filter_id_conv)
  have th: "thread d' (ca_id x) \<noteq> [] \<and> ca_state x = state_after (last (thread d' (ca_id x))) \<and>
      posts (thread d' (ca_id x)) \<le> MESSAGES_PER_CASE" if x: "x \<in> set (md_cases d')" for x
  proof -
    obtain y where y: "y \<in> set (md_cases d)" "x = ?g y" using x cs by blast
    have i: "ca_id x = ca_id y" using g [of y] y(2) by (simp add: same_case_def)
    have t: "thread d' (ca_id x) = thread d (ca_id y) @ (if ca_id y = ca_id c then rows @ [m] else [])"
      unfolding thread_append [OF Touched(2)] all i ..
    show ?thesis
    proof (cases "ca_id y = ca_id c")
      case True
      then show ?thesis using t ok(10) [OF y(1)] y(2) Touched(11,12) by (auto simp: add.assoc)
    next
      case False
      then show ?thesis using t ok(8-10) [OF y(1)] y(2) by simp
    qed
  qed
  show ?case unfolding mail_ok_def ids Touched(4) using ok(1,2,4) mid msgs row th unfolding Touched(4) by blast
next
  case (Pruned d' now d)
  note ok = mail_okD [OF Pruned.prems]
  have th: "thread d' (ca_id x) = thread d (ca_id x)" if "x \<in> set (md_cases d')" for x
    using that Pruned(1) by (intro thread_pruned [OF Pruned(2) ok(1)]) simp_all
  have msgs: "\<exists>c \<in> set (md_cases d'). message_row_ok c x" if x: "x \<in> set (md_messages d')" for x
  proof -
    obtain y where "y \<in> set (md_cases d)" "message_row_ok y x" using ok(7) x Pruned(2) by auto
    then show ?thesis using x Pruned(1,2) by (intro bexI [of _ y]) (auto simp: message_row_ok_def)
  qed
  have sub: "set (md_cases d') \<subseteq> set (md_cases d)" using Pruned(1) by auto
  have dis: "distinct (map ca_id (md_cases d'))" "distinct (map (\<lambda>c. (ca_guild c, ca_number c)) (md_cases d'))"
      "distinct (map ms_id (md_messages d'))"
    unfolding Pruned(1,2) by (intro distinct_map_filter ok(1-3))+
  have rest: "thread d' (ca_id x) \<noteq> [] \<and> ca_state x = state_after (last (thread d' (ca_id x))) \<and>
      posts (thread d' (ca_id x)) \<le> MESSAGES_PER_CASE" if x: "x \<in> set (md_cases d')" for x
    using ok(8-10) [OF subsetD [OF sub x]] unfolding th [OF x] by blast
  have row: "case_row_ok x \<and> (\<exists>s \<in> set (md_settings d). st_guild s = ca_guild x \<and> ca_number x \<le> st_last s)"
    if x: "x \<in> set (md_cases d')" for x
    using ok(5,6) [OF subsetD [OF sub x]] by blast
  show ?case unfolding mail_ok_def Pruned(3) using dis ok(4) msgs row rest by blast
qed

lemma mail_ok_steps: "mail_step\<^sup>*\<^sup>* d d' \<Longrightarrow> mail_ok d \<Longrightarrow> mail_ok d'"
  by (induction rule: rtranclp_induct) (auto intro: mail_ok_write step_write)

lemma mail_ok_reachable: "mail_reachable d \<Longrightarrow> mail_ok d"
proof -
  assume "mail_reachable d"
  then obtain s where s: "mail_start s" "mail_step\<^sup>*\<^sup>* s d" unfolding mail_reachable_def by blast
  have "mail_ok s" using s(1) by (simp add: mail_ok_def mail_start_def thread_def)
  then show ?thesis using s(2) by (rule mail_ok_steps [rotated])
qed

lemma reachable_steps: "mail_reachable d \<Longrightarrow> mail_step\<^sup>*\<^sup>* d d' \<Longrightarrow> mail_reachable d'"
  unfolding mail_reachable_def by (meson rtranclp_trans)


section \<open>What later tables keep of a case\<close>

definition case_kept :: "mail_db \<Rightarrow> mail_case \<Rightarrow> mail_db \<Rightarrow> mail_case \<Rightarrow> bool" where
  "case_kept d c d' c' \<longleftrightarrow>
     same_case c c' \<and> prefix (thread d (ca_id c)) (thread d' (ca_id c)) \<and> ca_revision c \<le> ca_revision c' \<and>
     (ca_revision c' = ca_revision c \<longrightarrow> c' = c \<and> thread d' (ca_id c) = thread d (ca_id c))"

definition grown :: "mail_db \<Rightarrow> mail_db \<Rightarrow> bool" where
  "grown d d' \<longleftrightarrow>
     (\<forall>s \<in> set (md_settings d). \<exists>s' \<in> set (md_settings d'). st_guild s' = st_guild s \<and> st_last s \<le> st_last s') \<and>
     (\<forall>c' \<in> set (md_cases d'). (\<exists>c \<in> set (md_cases d). case_kept d c d' c') \<or>
        (\<forall>s \<in> set (md_settings d). st_guild s = ca_guild c' \<longrightarrow> st_last s < ca_number c'))"

lemma grownD:
  assumes "grown d d'"
  shows "s \<in> set (md_settings d) \<Longrightarrow> \<exists>s' \<in> set (md_settings d'). st_guild s' = st_guild s \<and> st_last s \<le> st_last s'"
    "c' \<in> set (md_cases d') \<Longrightarrow> (\<exists>c \<in> set (md_cases d). case_kept d c d' c') \<or>
        (\<forall>s \<in> set (md_settings d). st_guild s = ca_guild c' \<longrightarrow> st_last s < ca_number c')"
  using assms unfolding grown_def by simp_all

lemma case_kept_same: "thread d' (ca_id c) = thread d (ca_id c) \<Longrightarrow> case_kept d c d' c"
  by (simp add: case_kept_def same_case_def)

lemma case_kept_trans:
  assumes "case_kept d c d' c'" "case_kept d' c' d'' c''" shows "case_kept d c d'' c''"
proof -
  have i: "ca_id c' = ca_id c" using assms(1) by (simp add: case_kept_def same_case_def)
  have "prefix (thread d (ca_id c)) (thread d'' (ca_id c))"
    using assms i prefix_order.trans unfolding case_kept_def by metis
  moreover have "same_case c c''" using assms unfolding case_kept_def same_case_def by simp
  moreover have "ca_revision c \<le> ca_revision c''" using assms unfolding case_kept_def by linarith
  moreover have "c'' = c \<and> thread d'' (ca_id c) = thread d (ca_id c)" if r: "ca_revision c'' = ca_revision c"
  proof -
    have "ca_revision c' = ca_revision c" "ca_revision c'' = ca_revision c'" using assms r unfolding case_kept_def by linarith+
    then show ?thesis using assms i unfolding case_kept_def by metis
  qed
  ultimately show ?thesis unfolding case_kept_def by blast
qed

lemma grown_refl: "grown d d"
  unfolding grown_def using case_kept_same by blast

lemma grown_trans:
  assumes "grown d d'" "grown d' d''" shows "grown d d''"
proof -
  have s: "\<exists>s'' \<in> set (md_settings d''). st_guild s'' = st_guild s \<and> st_last s \<le> st_last s''" if sm: "s \<in> set (md_settings d)" for s
  proof -
    obtain s' where s': "s' \<in> set (md_settings d')" "st_guild s' = st_guild s" "st_last s \<le> st_last s'"
      using grownD(1) [OF assms(1) sm] by auto
    obtain s'' where "s'' \<in> set (md_settings d'')" "st_guild s'' = st_guild s'" "st_last s' \<le> st_last s''"
      using grownD(1) [OF assms(2) s'(1)] by auto
    then show ?thesis using s' by (intro bexI [of _ s'']) simp_all
  qed
  have c: "(\<exists>c \<in> set (md_cases d). case_kept d c d'' c'') \<or>
        (\<forall>s \<in> set (md_settings d). st_guild s = ca_guild c'' \<longrightarrow> st_last s < ca_number c'')" if c'': "c'' \<in> set (md_cases d'')" for c''
  proof (cases "\<exists>c' \<in> set (md_cases d'). case_kept d' c' d'' c''")
    case True
    then obtain c' where c': "c' \<in> set (md_cases d')" "case_kept d' c' d'' c''" by blast
    have k: "ca_guild c'' = ca_guild c'" "ca_number c'' = ca_number c'" using c'(2) by (simp_all add: case_kept_def same_case_def)
    show ?thesis using grownD(2) [OF assms(1) c'(1)] case_kept_trans [OF _ c'(2)] unfolding k by blast
  next
    case False
    then have n: "\<forall>s \<in> set (md_settings d'). st_guild s = ca_guild c'' \<longrightarrow> st_last s < ca_number c''"
      using grownD(2) [OF assms(2) c''] by blast
    have "st_last s < ca_number c''" if s: "s \<in> set (md_settings d)" "st_guild s = ca_guild c''" for s
    proof -
      obtain s' where s': "s' \<in> set (md_settings d')" "st_guild s' = st_guild s" "st_last s \<le> st_last s'"
        using grownD(1) [OF assms(1) s(1)] by auto
      then have "st_last s' < ca_number c''" using n s(2) by simp
      then show ?thesis using s'(3) by simp
    qed
    then show ?thesis by blast
  qed
  show ?thesis unfolding grown_def using s c by blast
qed

lemma write_grown:
  assumes "mail_write d d'" "mail_ok d" shows "grown d d'"
  using assms
proof (induction rule: mail_write.induct)
  case (Kept d' d f new)
  have "\<exists>s' \<in> set (md_settings d'). st_guild s' = st_guild s \<and> st_last s \<le> st_last s'" if "s \<in> set (md_settings d)" for s
    using that Kept(3,4) by (intro bexI [of _ "f s"]) simp_all
  then show ?case unfolding grown_def Kept(1) using case_kept_same [OF thread_cong [OF Kept(2)]] by blast
next
  case (Opened d' d c m s)
  note ok = mail_okD [OF Opened.prems]
  let ?f = "\<lambda>s. if st_guild s = ca_guild c then s\<lparr>st_last := st_last s + 1\<rparr> else s"
  have st: "\<exists>s' \<in> set (md_settings d'). st_guild s' = st_guild t \<and> st_last t \<le> st_last s'" if "t \<in> set (md_settings d)" for t
    using that Opened(3) by (intro bexI [of _ "?f t"]) simp_all
  have s: "s \<in> set (md_settings d)" "st_guild s = ca_guild c" using settings_ofD [OF Opened(4)] by simp_all
  have new: "st_last t < ca_number c" if t: "t \<in> set (md_settings d)" "st_guild t = ca_guild c" for t
    using same_key [OF ok(4) t(1) s(1)] t(2) s(2) Opened(5) by simp
  have mc: "ms_case m = ca_id c" using Opened(9) by (simp add: message_row_ok_def)
  have old: "case_kept d x d' x" if "x \<in> set (md_cases d)" for x
    using that Opened(6) mc by (intro case_kept_same) (auto simp: thread_append [OF Opened(2)])
  show ?case unfolding grown_def Opened(1) using st new old by auto
next
  case (Touched c d d' rows m f)
  let ?g = "\<lambda>x. if ca_id x = ca_id c then f x else x"
  have k: "case_kept d x d' (?g x)" if x: "x \<in> set (md_cases d)" for x
  proof (cases "ca_id x = ca_id c")
    case True
    then show ?thesis using Touched(8,9) by (simp add: case_kept_def thread_append [OF Touched(2)])
  next
    case False
    have "ms_case r \<noteq> ca_id x" if "r \<in> set (rows @ [m])" for r
      using Touched(7) [OF that] False by (simp add: message_row_ok_def)
    then have "filter (\<lambda>r. ms_case r = ca_id x) (rows @ [m]) = []" unfolding filter_empty_conv by blast
    then have "thread d' (ca_id x) = thread d (ca_id x)" unfolding thread_append [OF Touched(2)] by simp
    then show ?thesis using False case_kept_same by simp
  qed
  have "set (md_cases d') = ?g ` set (md_cases d)" using Touched(3) by simp
  then have "\<exists>x \<in> set (md_cases d). case_kept d x d' c'" if "c' \<in> set (md_cases d')" for c'
    using k that by (metis (no_types, lifting) imageE)
  then show ?case unfolding grown_def Touched(4) by blast
next
  case (Pruned d' now d)
  note ok = mail_okD [OF Pruned.prems]
  have k: "case_kept d c d' c" if "c \<in> set (md_cases d')" for c
    using that Pruned(1) by (intro case_kept_same thread_pruned [OF Pruned(2) ok(1)]) simp_all
  have "set (md_cases d') \<subseteq> set (md_cases d)" using Pruned(1) by auto
  then show ?case unfolding grown_def Pruned(3) using k by blast
qed

lemma steps_grown: "mail_step\<^sup>*\<^sup>* d d' \<Longrightarrow> mail_ok d \<Longrightarrow> grown d d'"
proof (induction rule: rtranclp_induct)
  case base
  show ?case by (rule grown_refl)
next
  case (step e f)
  then show ?case using grown_trans write_grown [OF step_write] mail_ok_steps by blast
qed

text \<open>A case of both moments: the later row is the same case, its thread an extension.\<close>

lemma later_case:
  assumes "mail_ok d" "mail_step\<^sup>*\<^sup>* d d'" "c \<in> set (md_cases d)" "c' \<in> set (md_cases d')"
    "ca_guild c' = ca_guild c" "ca_number c' = ca_number c"
  shows "case_kept d c d' c'"
proof -
  note ok = mail_okD [OF assms(1)]
  obtain s where s: "s \<in> set (md_settings d)" "st_guild s = ca_guild c" "ca_number c \<le> st_last s" using ok(6) [OF assms(3)] by blast
  then have "\<not> (\<forall>s \<in> set (md_settings d). st_guild s = ca_guild c' \<longrightarrow> st_last s < ca_number c')" using assms(5,6) by auto
  then obtain x where x: "x \<in> set (md_cases d)" "case_kept d x d' c'"
    using steps_grown [OF assms(2,1)] assms(4) unfolding grown_def by blast
  have "ca_guild x = ca_guild c" "ca_number x = ca_number c" using x(2) assms(5,6) by (simp_all add: case_kept_def same_case_def)
  then have "x = c" using same_key [OF ok(2) x(1) assms(3)] by simp
  then show ?thesis using x(2) by simp
qed

end
