(* ===== verification/MailSample.thy ===== *)
theory MailSample
  imports ModmailSafety
begin

section \<open>A sample history\<close>

text \<open>
  A mod mail history on concrete tables, for the theorems of \<open>ModmailPromises\<close>: mod mail is switched on, a
  member opens a case, and an officer replies under their name.
\<close>

section \<open>A world\<close>

text \<open>Primitives whose tag is a checksum of the associated data, in 16 bytes.\<close>

definition xm_tag :: "nat list \<Rightarrow> nat list" where
  "xm_tag a = sum_list a mod 256 # replicate 15 0"

definition xm_crypto :: crypto where
  "xm_crypto = \<lparr>cr_seal = (\<lambda>k n a p. (p, xm_tag a)), cr_open = (\<lambda>k n a c t. if t = xm_tag a then Some c else None),
     cr_mac = (\<lambda>k s. [])\<rparr>"

lemma xm_crypto_ok: "crypto_ok xm_crypto"
  by (simp add: crypto_ok_def xm_crypto_def xm_tag_def list_all_iff)

definition xm_id :: "char \<Rightarrow> ident" where
  "xm_id c = ''00000000-0000-0000-0000-00000000000'' @ [c]"

lemma xm_id_eq [simp]: "(xm_id c = xm_id d) = (c = d)"
  by (simp add: xm_id_def)

definition xm_cipher :: mail_cipher where
  "xm_cipher = \<lparr>mc_key = [], mc_id = ''k''\<rparr>"

definition xm_world :: "char \<Rightarrow> char \<Rightarrow> mail_world" where
  "xm_world c m = \<lparr>mw_crypto = xm_crypto, mw_key = KeyOn xm_cipher, mw_origin = Some [], mw_stopping = False,
     mw_stopping_later = False, mw_now = 0, mw_case = xm_id c, mw_message = xm_id m, mw_line = xm_id CHR ''4'',
     mw_nonce = (\<lambda>_. replicate 12 0), mw_job = (\<lambda>_. []), mw_uuid = (\<lambda>_. True)\<rparr>"

lemma xm_world_simps [simp]:
  "mw_crypto (xm_world c m) = xm_crypto" "mw_key (xm_world c m) = KeyOn xm_cipher" "mw_origin (xm_world c m) = Some []"
  "mw_stopping (xm_world c m) = False" "mw_stopping_later (xm_world c m) = False" "mw_now (xm_world c m) = 0"
  "mw_case (xm_world c m) = xm_id c" "mw_message (xm_world c m) = xm_id m" "mw_line (xm_world c m) = xm_id CHR ''4''"
  "mw_nonce (xm_world c m) f = replicate 12 0" "the_cipher (xm_world c m) = Some xm_cipher"
  by (simp_all add: xm_world_def the_cipher_def)

definition xm_guild :: mail_guild where
  "xm_guild = \<lparr>gd_id = ''1'', gd_active = True, gd_revision = 1, gd_fc = None, gd_ledger_channel = None, gd_effects = True,
     gd_member_role = None, gd_guest_role = None, gd_apps_enabled = False, gd_apps_channel = None, gd_access_policy = False,
     gm_notices = Some ''9'', gm_officer = None\<rparr>"

lemma xm_guild_simps [simp]: "gd_id xm_guild = ''1''" "gd_active xm_guild" "gm_notices xm_guild = Some ''9''"
  by (simp_all add: xm_guild_def)

definition xm_actor :: "ident \<Rightarrow> permission_id set \<Rightarrow> actor" where
  "xm_actor user ps = \<lparr>act_guild = ''1'', act_user = user, act_manage_roles = False, act_server_manager = None,
     act_role_ids = None, act_access = \<lparr>acc_manager = False, acc_roles = [], acc_permissions = ps, acc_blocked = (\<lambda>_. None)\<rparr>,
     act_member = None, act_guest = None, act_bot_administrator = Some False, act_timed_out = None\<rparr>"

lemma xm_actor_simps [simp]:
  "act_guild (xm_actor u ps) = ''1''" "act_user (xm_actor u ps) = u" "can (xm_actor u ps) p = (p \<in> ps)"
  "holds (xm_actor u ps) p = (p \<in> ps)" "act_bot_administrator (xm_actor u ps) = Some False"
  "authorize (xm_actor u ps) ''1'' = Inr ()" "requireNotPaused (xm_actor u ps) p = Inr ()"
  "requirePermission (xm_actor u ps) ''1'' p m = (if p \<in> ps then Inr () else Inl (missing_permission p m))"
  by (simp_all add: xm_actor_def requirePermission_def authorize_def requireNotPaused_def pauseOn_def can_def holds_def)

abbreviation xm_member :: actor where "xm_member \<equiv> xm_actor ''2'' {P_modmail_open}"
abbreviation xm_officer :: actor where "xm_officer \<equiv> xm_actor ''3'' {P_modmail_inbox, P_modmail_respond}"

definition xm_start :: mail_db where
  "xm_start = \<lparr>md_guilds = [xm_guild], md_settings = [], md_cases = [], md_messages = [], md_reads = [], md_jobs = [], md_audit = []\<rparr>"

definition xm_on :: mail_db where
  "xm_on = xm_start\<lparr>md_settings := [\<lparr>st_guild = ''1'', st_enabled = True, st_revision = 2, st_last = 0, st_by = Some ''4'', st_at = 0\<rparr>],
     md_audit := [(''1'', ''4'', ''modmail'', ''enable'')]\<rparr>"

lemma xm_toggled: "toggle (xm_world CHR ''1'' CHR ''2'') (xm_actor ''4'' {P_modmail_settings}) True 1 xm_start = Inr (ToggleSaved, xm_on)"
  by (simp add: toggle_def xm_on_def xm_start_def guildRow_def settings_of_def canEnable_def prerequisites_of_def Let_def)

abbreviation xm_text :: text16 where "xm_text \<equiv> [72, 105]"

lemma xm_clean: "cleanText xm_text = xm_text" "cleanTopic xm_text = xm_text" "mailTextProblem xm_text k = (if 2 \<le> k then None else Some TextLong)"
  "units_ok xm_text"
  by (simp_all add: cleanTopic_def cleanText_def js_trim_def is_js_space_def mailTextProblem_def mail_characters_def units_ok_def)

definition xm_binding :: case_binding where
  "xm_binding = \<lparr>cb_guild = ''1'', cb_case = xm_id CHR ''1'', cb_opener = ''2''\<rparr>"

lemma xm_uuids: "is_uuid (xm_id CHR ''1'')" "is_uuid (xm_id CHR ''2'')" "is_uuid (xm_id CHR ''3'')"
  by code_simp+


lemma xm_lower: "lower (xm_id CHR ''1'') = xm_id CHR ''1''" "lower (xm_id CHR ''3'') = xm_id CHR ''3''" "lower (xm_id CHR ''2'') = xm_id CHR ''2''"
  by code_simp+

lemma xm_flakes: "is_snowflake ''1''" "is_snowflake ''2''" "is_snowflake ''3''"
  by code_simp+

lemma xm_topic_aad: "\<exists>aad. fieldAad xm_binding TopicField = Some aad"
  by (simp add: fieldAad_def aad_parts_def xm_binding_def snowflake_part_def uuid_part_def xm_uuids xm_lower xm_flakes)

lemma xm_field_aad: "i \<in> {xm_id CHR ''2'', xm_id CHR ''3''} \<Longrightarrow> u \<in> {''2'', ''3''} \<Longrightarrow>
    \<exists>aad. fieldAad xm_binding (MessageField \<lparr>mg_id = i, mg_author = u, mg_side = sd, mg_signed = sg, mg_kind = k\<rparr>) = Some aad"
  by (elim insertE emptyE; simp add: fieldAad_def aad_parts_def xm_binding_def snowflake_part_def uuid_part_def xm_uuids xm_lower
      xm_flakes)

lemma xm_pad: "\<exists>p. pad xm_text PadTopic = Some p" "\<exists>p. pad xm_text PadMessage = Some p"
  by (rule pad_topic, simp) (rule pad_message)

lemma xm_sealed: "fieldAad xm_binding f = Some aad \<Longrightarrow> pad t p = Some q \<Longrightarrow> \<exists>s. seal_field (xm_world c m) xm_cipher xm_binding f t p = Some s"
  by (simp add: seal_field_def encrypt_def split_beta)

definition xm_topic :: sealed where
  "xm_topic = the (seal_field (xm_world CHR ''1'' CHR ''2'') xm_cipher xm_binding TopicField xm_text PadTopic)"

definition xm_body :: sealed where
  "xm_body = the (seal_field (xm_world CHR ''1'' CHR ''2'') xm_cipher xm_binding (opener_field (xm_id CHR ''2'') ''2'') xm_text PadMessage)"

definition xm_reply_body :: sealed where
  "xm_reply_body = the (seal_field (xm_world CHR ''1'' CHR ''2'') xm_cipher xm_binding
     (reply_field (xm_id CHR ''3'') ''3'' OfficerSide (Some SignName)) xm_text PadMessage)"

lemma xm_seals:
  "seal_field (xm_world CHR ''1'' CHR ''2'') xm_cipher xm_binding TopicField xm_text PadTopic = Some xm_topic"
  "seal_field (xm_world CHR ''1'' CHR ''2'') xm_cipher xm_binding (opener_field (xm_id CHR ''2'') ''2'') xm_text PadMessage = Some xm_body"
  "seal_field (xm_world CHR ''1'' CHR ''2'') xm_cipher xm_binding (reply_field (xm_id CHR ''3'') ''3'' OfficerSide (Some SignName)) xm_text PadMessage
     = Some xm_reply_body"
proof -
  note s = xm_sealed [THEN exE]
  obtain a p where "fieldAad xm_binding TopicField = Some a" "pad xm_text PadTopic = Some p" using xm_topic_aad xm_pad by blast
  then show "seal_field (xm_world CHR ''1'' CHR ''2'') xm_cipher xm_binding TopicField xm_text PadTopic = Some xm_topic"
    unfolding xm_topic_def using xm_sealed [of TopicField a xm_text PadTopic p] by (metis option.sel)
  obtain a p where "fieldAad xm_binding (opener_field (xm_id CHR ''2'') ''2'') = Some a" "pad xm_text PadMessage = Some p"
    using xm_field_aad xm_pad unfolding opener_field_def by blast
  then show "seal_field (xm_world CHR ''1'' CHR ''2'') xm_cipher xm_binding (opener_field (xm_id CHR ''2'') ''2'') xm_text PadMessage = Some xm_body"
    unfolding xm_body_def using xm_sealed by (metis option.sel)
  obtain a p where "fieldAad xm_binding (reply_field (xm_id CHR ''3'') ''3'' OfficerSide (Some SignName)) = Some a" "pad xm_text PadMessage = Some p"
    using xm_field_aad xm_pad unfolding reply_field_def by blast
  then show "seal_field (xm_world CHR ''1'' CHR ''2'') xm_cipher xm_binding (reply_field (xm_id CHR ''3'') ''3'' OfficerSide (Some SignName)) xm_text PadMessage
     = Some xm_reply_body"
    unfolding xm_reply_body_def using xm_sealed by (metis option.sel)
qed


abbreviation xm_w :: mail_world where "xm_w \<equiv> xm_world CHR ''1'' CHR ''2''"

definition xm_case :: mail_case where
  "xm_case = \<lparr>ca_id = xm_id CHR ''1'', ca_guild = ''1'', ca_number = 1, ca_opener = ''2'', ca_state = WaitOfficers,
     ca_revision = 1, ca_opened = 0, ca_activity = 0, ca_since = 0, ca_closed = None, ca_delete = None,
     ca_topic = se_data xm_topic, ca_topic_key = se_key xm_topic\<rparr>"

definition xm_message :: mail_message where
  "xm_message = \<lparr>ms_id = xm_id CHR ''2'', ms_case = xm_id CHR ''1'', ms_kind = EntryMessage, ms_author = ''2'',
     ms_side = MemberSide, ms_signed = None, ms_body = Some (se_data xm_body), ms_key = Some (se_key xm_body), ms_created = 0\<rparr>"

lemma xm_case_simps [simp]:
  "ca_id xm_case = xm_id CHR ''1''" "ca_guild xm_case = ''1''" "ca_number xm_case = 1" "ca_opener xm_case = ''2''"
  "ca_state xm_case = WaitOfficers" "ca_revision xm_case = 1" "ca_closed xm_case = None"
  by (simp_all add: xm_case_def)

lemma xm_message_simps [simp]:
  "ms_id xm_message = xm_id CHR ''2''" "ms_case xm_message = xm_id CHR ''1''" "ms_kind xm_message = EntryMessage"
  by (simp_all add: xm_message_def)

definition xm_open :: mail_db where
  "xm_open = queuePing xm_w ''1'' (xm_id CHR ''1'') PingOpened ''2''
     (xm_on\<lparr>md_settings := map (\<lambda>s. s\<lparr>st_last := st_last s + 1\<rparr>) (md_settings xm_on), md_cases := [xm_case], md_messages := [xm_message]\<rparr>)"

lemma xm_open_simps [simp]:
  "md_cases xm_open = [xm_case]" "md_messages xm_open = [xm_message]" "thread xm_open i = (if i = xm_id CHR ''1'' then [xm_message] else [])"
  by (simp_all add: xm_open_def thread_def)

lemma xm_inserted:
  "insert_case xm_w xm_cipher ''1'' ''2'' (xm_id CHR ''1'') n xm_text xm_text (d\<lparr>md_settings := st\<rparr>) =
   Some (d\<lparr>md_settings := st, md_cases := md_cases d @ [xm_case\<lparr>ca_number := n\<rparr>], md_messages := md_messages d @ [xm_message]\<rparr>)"
  using xm_seals(1,2) by (simp add: insert_case_def xm_case_def xm_message_def xm_binding_def Let_def)

lemma xm_case_first: "xm_case\<lparr>ca_number := Suc 0\<rparr> = xm_case"
  by (simp add: xm_case_def)

lemma xm_on_simps [simp]:
  "md_guilds xm_on = [xm_guild]" "md_cases xm_on = []" "md_messages xm_on = []"
  "md_settings xm_on = [\<lparr>st_guild = ''1'', st_enabled = True, st_revision = 2, st_last = 0, st_by = Some ''4'', st_at = 0\<rparr>]"
  by (simp_all add: xm_on_def xm_start_def)

lemma xm_opened: "open_mail xm_w xm_member xm_text xm_text None xm_on = Inr (OpenOpened 1 (url_of xm_w ''1'' 1), xm_open)"
  using xm_inserted [where d = xm_on and n = "Suc 0"]
  by (simp add: xm_case_first open_mail_def openCase_def staticRefusal_def mayUse_def xm_clean guildRow_def enabledIn_def settings_of_def
      limit_refusal_def case_counts_def TOPIC_CHARS_def MESSAGE_CHARS_def OPEN_CASES_def DAILY_CASES_def xm_open_def Let_def)

lemma xm_reachable: "mail_reachable xm_open"
proof -
  have "mail_step xm_start xm_on" by (rule mail_step.Toggle [OF xm_toggled])
  moreover have "mail_step xm_on xm_open" by (rule mail_step.Open [OF xm_opened]) (simp add: fresh_ids_def)
  moreover have "mail_start xm_start" by (simp add: mail_start_def xm_start_def)
  ultimately show ?thesis unfolding mail_reachable_def by (meson rtranclp.rtrancl_refl rtranclp.rtrancl_into_rtrancl)
qed

text \<open>An officer replies, signing with their name.\<close>

abbreviation xm_w2 :: mail_world where "xm_w2 \<equiv> xm_world CHR ''5'' CHR ''6''"

definition xm_replied :: mail_db where
  "xm_replied = save_reply xm_w2 ''1'' xm_case (xm_id CHR ''3'') ''3'' OfficerSide (Some SignName) xm_reply_body xm_open"

lemma xm_seal2: "seal_field xm_w2 m b f t p = seal_field xm_w m b f t p"
  by (simp add: seal_field_def)

lemma xm_reply: "reply xm_w2 xm_open xm_officer 1 (xm_id CHR ''3'') xm_text None xm_open =
    Inr (Some (ReplySaved (xm_id CHR ''3'')), xm_replied)"
  using xm_seals(3)
  by (simp add: reply_def reply_transaction_def accessible_def mayAccess_def sideIn_def may_respond_def xm_clean xm_lower xm_uuids
      case_of_def repeated_def message_of_def message_count_def MESSAGES_PER_CASE_def MESSAGE_CHARS_def xm_seal2 xm_binding_def
      xm_replied_def Let_def)

lemma xm_conditions:
  "fresh_ids xm_w2 xm_open" "lower (xm_id CHR ''3'') \<noteq> mw_line xm_w2" "looked_up xm_open a n xm_open"
  by (auto simp: fresh_ids_def xm_lower looked_up_def accessible_def case_of_def split: option.splits if_splits)

lemma xm_replied_case: "md_cases xm_replied = [after_reply xm_w2 OfficerSide xm_case]"
  by (simp add: xm_replied_def save_reply_def Let_def)

end
