(* ===== verification/ModmailPromises.thy ===== *)
theory ModmailPromises
  imports MailSample
begin

text \<open>
  Mod mail's promises, over the histories of \<open>ModmailHistory\<close>: consistent tables, a thread that tells its
  case's state and only grows, a close that acts on what was seen, replies that are read back by everyone who
  may see the case and saved once, ciphertexts bound to their row, officers who are named only when they chose
  to be, and retention.
\<close>

section \<open>Views\<close>

lemma those_of_Some: "those_of f xs = Some ys \<longleftrightarrow> map f xs = map Some ys"
proof (induction xs arbitrary: ys)
  case (Cons x xs)
  then show ?case by (cases ys; cases "f x") auto
qed auto

lemma those_of_total: "(\<And>x. x \<in> set xs \<Longrightarrow> f x \<noteq> None) \<Longrightarrow> \<exists>ys. those_of f xs = Some ys"
proof -
  assume f: "\<And>x. x \<in> set xs \<Longrightarrow> f x \<noteq> None"
  have "map f xs = map Some (map (\<lambda>x. the (f x)) xs)" using f by (simp add: comp_def)
  then show ?thesis using those_of_Some by blast
qed

lemma those_of_mem: "those_of f xs = Some ys \<Longrightarrow> x \<in> set xs \<Longrightarrow> f x = Some y \<Longrightarrow> y \<in> set ys"
  by (induction xs arbitrary: ys) (auto split: bind_splits)

lemma those_of_from: "those_of f xs = Some ys \<Longrightarrow> y \<in> set ys \<Longrightarrow> \<exists>x \<in> set xs. f x = Some y"
  by (induction xs arbitrary: ys) (auto split: bind_splits)

lemma entry_total: "message_row_ok c m \<Longrightarrow> entry_of w c aud m \<noteq> None"
  by (cases "ms_kind m") (auto simp: message_row_ok_def entry_of_def Let_def split: option.splits)

lemma entry_author: "entry_of w c aud m = Some e \<Longrightarrow>
    ce_id e = ms_id m \<and> ce_author e = shownAuthor (ms_author m) (ms_side m) (ms_signed m) aud"
  by (auto simp: entry_of_def Let_def split: entry_kind.splits option.splits)

lemma thread_rows:
  assumes "mail_ok d" "c \<in> set (md_cases d)" "m \<in> set (thread d (ca_id c))" shows "message_row_ok c m"
proof -
  note ok = mail_okD [OF assms(1)]
  have m: "m \<in> set (md_messages d)" "ms_case m = ca_id c" using assms(3) by (simp_all add: thread_def)
  obtain x where x: "x \<in> set (md_cases d)" "message_row_ok x m" using ok(7) [OF m(1)] by blast
  then have "x = c" using m(2) by (intro same_key [OF ok(1) x(1) assms(2)]) (simp add: message_row_ok_def)
  then show ?thesis using x(2) by simp
qed

lemma view_entries: "view_of w a c d = Some v \<Longrightarrow>
    those_of (entry_of w c (cv_audience v)) (thread d (ca_id c)) = Some (cv_entries v) \<and>
    cv_audience v = (if can a P_modmail_inbox then OfficerAudience else MemberAudience)"
  by (auto simp: view_of_def Let_def split: option.splits)

lemma view_total:
  assumes "mail_ok d" "c \<in> set (md_cases d)" shows "\<exists>v. view_of w a c d = Some v"
proof -
  obtain es where "those_of (entry_of w c (if can a P_modmail_inbox then OfficerAudience else MemberAudience)) (thread d (ca_id c)) = Some es"
    using those_of_total entry_total thread_rows [OF assms] by metis
  moreover obtain aad where "fieldAad (binding_of c) TopicField = Some aad"
    using mail_okD(5) [OF assms] by (auto simp: case_row_ok_def)
  ultimately show ?thesis by (simp add: view_of_def Let_def)
qed

lemma recordRead_ok: "mail_ok (recordRead t i u s d) = mail_ok d"
  by (simp add: mail_ok_def thread_def)

lemma caseView_shown:
  assumes "mail_ok d" "authorize b (act_guild b) = Inr ()" "accessible d b n = Some c"
  obtains v where "caseView w b n d = Inr (Some v, recordRead (mw_now w) (ca_id c) (act_user b) (sideIn (ca_opener c) (act_user b)) d)"
    "those_of (entry_of w c (cv_audience v)) (thread d (ca_id c)) = Some (cv_entries v)"
proof -
  let ?d = "recordRead (mw_now w) (ca_id c) (act_user b) (sideIn (ca_opener c) (act_user b)) d"
  have "c \<in> set (md_cases ?d)" using accessibleD(1) [OF assms(3)] by simp
  then obtain v where v: "view_of w b c ?d = Some v" using view_total [of ?d c] assms(1) recordRead_ok by blast
  have th: "thread ?d (ca_id c) = thread d (ca_id c)" by (simp add: thread_def)
  have "those_of (entry_of w c (cv_audience v)) (thread d (ca_id c)) = Some (cv_entries v)"
    using view_entries [OF v] unfolding th by blast
  moreover have "caseView w b n d = Inr (Some v, ?d)"
    unfolding caseView_def assms(2,3) Let_def sum.case option.case v ..
  ultimately show ?thesis using that by blast
qed

section \<open>A saved reply's row\<close>

lemma unify_units: "units_ok s \<Longrightarrow> units_ok (unify_lines s)"
  by (induction s rule: unify_lines.induct) (auto simp: units_ok_def)

lemma trim_units: "units_ok s \<Longrightarrow> units_ok (js_trim s)"
  by (auto simp: units_ok_def js_trim_def list_all_iff dest!: set_dropWhileD)

lemma clean_units: "units_ok s \<Longrightarrow> units_ok (cleanText s)"
  unfolding cleanText_def by (intro trim_units unify_units)

lemma clean_text_start: "mailTextProblem (cleanText s) k = None \<Longrightarrow> is_well_formed (cleanText s) \<and> hd (cleanText s) \<noteq> 65279"
proof -
  assume t: "mailTextProblem (cleanText s) k = None"
  then have "cleanText s \<noteq> []" by (auto simp: mailTextProblem_def)
  then have "\<not> is_js_space (hd (cleanText s))" unfolding cleanText_def using js_trim_ends by blast
  then show ?thesis using t by (auto simp: mailTextProblem_def is_js_space_def split: if_splits)
qed

lemma sealed_field_read:
  assumes "seal_field w m b f t p = Some s" "the_cipher w' = Some m" "mw_crypto w' = mw_crypto w" "crypto_ok (mw_crypto w)"
    "length (mw_nonce w f) = NONCE_BYTES" "is_well_formed t" "units_ok t" "hd t \<noteq> 65279" "fieldAad b f = Some aad"
  shows "decrypt (mw_crypto w') m (se_data s) (se_key s) aad = Some t"
    "decrypt_field w' (se_data s) (se_key s) aad = \<lparr>rf_text = Some t, rf_altered = 0, rf_other = 0\<rparr>"
proof -
  have "encrypt (mw_crypto w) m (mw_nonce w f) t aad p = Some s" using assms(1,9) by (simp add: seal_field_def)
  then show *: "decrypt (mw_crypto w') m (se_data s) (se_key s) aad = Some t"
    unfolding assms(3) using assms(4-8) by (intro decrypt_encrypt) simp_all
  show "decrypt_field w' (se_data s) (se_key s) aad = \<lparr>rf_text = Some t, rf_altered = 0, rf_other = 0\<rparr>"
    using assms(2) * by (simp add: decrypt_field_def)
qed

lemma sealed_key: "seal_field w m b f t p = Some s \<Longrightarrow> se_key s = mc_id m"
  by (auto simp: seal_field_def encrypt_def split_beta split: bind_splits)

lemma saved_reply:
  assumes r: "reply w before a n i body chosen d = Inr (Some (ReplySaved j), d')" and u: "looked_up before a n d"
  obtains m c s sd where "the_cipher w = Some m" "c \<in> set (md_cases d)" "ca_guild c = act_guild a" "ca_number c = n"
    "sd = sideIn (ca_opener c) (act_user a)" "mailTextProblem (cleanText body) MESSAGE_CHARS = None" "j = lower i"
    "reply_row w c j (act_user a) sd (reply_signing sd chosen) s \<in> set (thread d' (ca_id c))"
    "seal_field w m (binding_of c) (row_field (reply_row w c j (act_user a) sd (reply_signing sd chosen) s)) (cleanText body) PadMessage = Some s"
    "after_reply w sd c \<in> set (md_cases d')"
  using r
proof (cases rule: reply_cases)
  case (Saved m c seen s side)
  have c: "c \<in> set (md_cases d)" using Saved(3) case_ofD by blast
  have same: "ca_guild c = act_guild a" "ca_number c = n" "ca_opener c = ca_opener seen"
    using u Saved(2,3) accessibleD [OF Saved(2)] by (simp_all add: looked_up_def)
  have j: "j = lower i" using Saved(13) by simp
  have sd: "side = sideIn (ca_opener c) (act_user a)" using Saved(4) same(3) by simp
  let ?row = "reply_row w c j (act_user a) side (reply_signing side chosen) s"
  have b: "binding_of c = \<lparr>cb_guild = act_guild a, cb_case = ca_id c, cb_opener = ca_opener c\<rparr>" using same by (simp add: binding_of_def)
  have f: "row_field ?row = reply_field (lower i) (act_user a) side (reply_signing side chosen)"
    by (simp add: row_field_def reply_row_def reply_field_def j)
  have "?row \<in> set (thread d' (ca_id c))"
    unfolding thread_append [OF Saved(9)] by (simp add: j reply_row_def)
  moreover have "after_reply w side c \<in> set (md_cases d')" using c Saved(10) by force
  ultimately show ?thesis
    using Saved(8) unfolding b [symmetric] f [symmetric]
    by (intro that [OF Saved(1) c same(1,2) sd Saved(12) j])
next
  case Same
  show ?thesis using Same(2) [of j] by blast
qed


lemma number_gone:
  assumes "mail_ok before" "mail_step\<^sup>*\<^sup>* before between" "mail_step\<^sup>*\<^sup>* between d" "c \<in> set (md_cases before)"
    "\<forall>x \<in> set (md_cases between). (ca_guild x, ca_number x) \<noteq> (ca_guild c, ca_number c)" "y \<in> set (md_cases d)"
  shows "(ca_guild y, ca_number y) \<noteq> (ca_guild c, ca_number c)"
proof
  assume y: "(ca_guild y, ca_number y) = (ca_guild c, ca_number c)"
  obtain s where s: "s \<in> set (md_settings before)" "st_guild s = ca_guild c" "ca_number c \<le> st_last s"
    using mail_okD(6) [OF assms(1,4)] by blast
  obtain s' where s': "s' \<in> set (md_settings between)" "st_guild s' = ca_guild c" "ca_number c \<le> st_last s'"
    using grownD(1) [OF steps_grown [OF assms(2,1)] s(1)] s(2,3) by auto
  have "mail_ok between" by (rule mail_ok_steps [OF assms(2,1)])
  from grownD(2) [OF steps_grown [OF assms(3) this] assms(6)] show False
  proof
    assume "\<exists>x \<in> set (md_cases between). case_kept between x d y"
    then show False using assms(5) y by (auto simp: case_kept_def same_case_def)
  next
    assume "\<forall>s \<in> set (md_settings between). st_guild s = ca_guild y \<longrightarrow> st_last s < ca_number y"
    then show False using s' y by auto
  qed
qed

section \<open>The promises\<close>

text \<open>
  (C25) Over any history of opening, replying, closing, reopening, reading, the switch and retention: a server
  never gives a case number again, so a number whose case retention deleted names no later case; no two
  cases of one moment share an ID or number, and no two messages an ID; a case is closed exactly when it has a closing time,
  and is kept 90 days from it; a case has at most 500 messages; every row belongs to a case, its side is the
  opener's or an officer's by who wrote it, only officers' rows are signed, and only messages hold a text.
\<close>

theorem mail_tables_consistent:
  assumes "mail_reachable before" "mail_step\<^sup>*\<^sup>* before between" "mail_step\<^sup>*\<^sup>* between d"
  shows "(\<forall>c \<in> set (md_cases before). (\<forall>x \<in> set (md_cases between). (ca_guild x, ca_number x) \<noteq> (ca_guild c, ca_number c)) \<longrightarrow>
      (\<forall>y \<in> set (md_cases d). (ca_guild y, ca_number y) \<noteq> (ca_guild c, ca_number c))) \<and>
    distinct (map ca_id (md_cases d)) \<and> distinct (map (\<lambda>c. (ca_guild c, ca_number c)) (md_cases d)) \<and>
    distinct (map ms_id (md_messages d)) \<and>
    (\<forall>c \<in> set (md_cases d). (ca_state c = CaseClosed) = (ca_closed c \<noteq> None) \<and>
       ca_delete c = map_option (\<lambda>t. t + 90 * 86400000) (ca_closed c) \<and> message_count d (ca_id c) \<le> 500) \<and>
    (\<forall>m \<in> set (md_messages d). \<exists>c \<in> set (md_cases d). ms_case m = ca_id c \<and>
       ms_side m = (if ms_author m = ca_opener c then MemberSide else OfficerSide) \<and>
       (ms_side m = OfficerSide) = (ms_signed m \<noteq> None) \<and> (ms_kind m = EntryMessage) = (ms_body m \<noteq> None))"
proof -
  note ok = mail_okD [OF mail_ok_reachable [OF reachable_steps [OF reachable_steps [OF assms(1,2)] assms(3)]]]
  have "(ca_state c = CaseClosed) = (ca_closed c \<noteq> None) \<and> ca_delete c = map_option (\<lambda>t. t + 90 * 86400000) (ca_closed c) \<and>
      message_count d (ca_id c) \<le> 500" if "c \<in> set (md_cases d)" for c
    using ok(5,10) [OF that]
    by (simp add: case_row_ok_def RETENTION_DAYS_def message_count_def posts_def MESSAGES_PER_CASE_def mult.commute)
  moreover have "\<exists>c \<in> set (md_cases d). ms_case m = ca_id c \<and>
       ms_side m = (if ms_author m = ca_opener c then MemberSide else OfficerSide) \<and>
       (ms_side m = OfficerSide) = (ms_signed m \<noteq> None) \<and> (ms_kind m = EntryMessage) = (ms_body m \<noteq> None)"
    if m: "m \<in> set (md_messages d)" for m
  proof -
    obtain c where "c \<in> set (md_cases d)" "message_row_ok c m" using ok(7) [OF m] by blast
    then show ?thesis unfolding message_row_ok_def sideIn_def by (intro bexI [of _ c] conjI) blast+
  qed
  ultimately show ?thesis using ok(1-3) number_gone [OF mail_ok_reachable [OF assms(1)] assms(2,3)] by blast
qed

text \<open>
  A case's state is what its last row says: closed after a closing line, waiting for officers after a
  reopening or a member's message, waiting for the member after an officer's message; and no case is without
  a row.
\<close>

theorem thread_tells_the_state:
  assumes "mail_reachable d" "c \<in> set (md_cases d)"
  shows "\<exists>m. thread d (ca_id c) \<noteq> [] \<and> m = last (thread d (ca_id c)) \<and>
    ca_state c = (case ms_kind m of EntryClosed \<Rightarrow> CaseClosed | EntryReopened \<Rightarrow> WaitOfficers
                  | EntryMessage \<Rightarrow> if ms_author m = ca_opener c then WaitOfficers else WaitMember)"
proof -
  note ok = mail_ok_reachable [OF assms(1)]
  let ?m = "last (thread d (ca_id c))"
  have ne: "thread d (ca_id c) \<noteq> []" by (rule mail_okD(8) [OF ok assms(2)])
  then have "?m \<in> set (thread d (ca_id c))" by simp
  then have "ms_side ?m = sideIn (ca_opener c) (ms_author ?m)" using thread_rows [OF ok assms(2)] by (simp add: message_row_ok_def)
  then show ?thesis
    using ne mail_okD(9) [OF ok assms(2)]
    by (simp add: state_after_def afterReply_def REOPENED_STATE_def sideIn_def split: entry_kind.splits)
qed

text \<open>
  (C23) A case keeps its number, opener and topic, its thread only grows at its end, its revision never goes
  back, and whoever finds the revision they knew finds the very case and thread they knew.
\<close>

theorem thread_only_grows:
  assumes "mail_reachable d" "mail_step\<^sup>*\<^sup>* d d'" "c \<in> set (md_cases d)" "c' \<in> set (md_cases d')"
    "ca_guild c' = ca_guild c" "ca_number c' = ca_number c"
  shows "ca_id c' = ca_id c \<and> ca_opener c' = ca_opener c \<and> ca_topic c' = ca_topic c \<and>
    prefix (thread d (ca_id c)) (thread d' (ca_id c)) \<and> ca_revision c \<le> ca_revision c' \<and>
    (ca_revision c' = ca_revision c \<longrightarrow> c' = c \<and> thread d' (ca_id c) = thread d (ca_id c))"
  using later_case [OF mail_ok_reachable [OF assms(1)] assms(2-6)] unfolding case_kept_def same_case_def by simp

text \<open>
  A saved close or reopen acted on what its page showed: with the revision of the case as it was seen,
  nothing was written in the case since.
\<close>

theorem change_acts_on_what_was_seen:
  assumes "mail_reachable d" "mail_step\<^sup>*\<^sup>* d d'" "c \<in> set (md_cases d)" "ca_guild c = act_guild a"
    "changeState w before a (ca_number c) (ca_revision c) ch d' = Inr (Some StateSaved, e)"
    "looked_up before a (ca_number c) d'"
  shows "c \<in> set (md_cases d') \<and> thread d' (ca_id c) = thread d (ca_id c)"
  using assms(5)
proof (cases rule: change_cases)
  case (Saved x seen side signed)
  have x: "x \<in> set (md_cases d')" using Saved(2) case_ofD by blast
  have "ca_guild x = ca_guild c" "ca_number x = ca_number c"
    using assms(4,6) Saved(1,2) accessibleD(2,3) [OF Saved(1)] by (simp_all add: looked_up_def)
  then have "case_kept d c d' x" by (rule later_case [OF mail_ok_reachable [OF assms(1)] assms(2,3) x])
  then have "x = c \<and> thread d' (ca_id c) = thread d (ca_id c)" using Saved(5) by (simp add: case_kept_def)
  then show ?thesis using x by blast
qed blast

text \<open>
  (C22) A saved reply is read back: in any later tables where the case still is, everyone who may see the case
  is shown it (the page never fails on a stored row), with the author the viewer may know. Under the key it
  was sealed with, it has the text that was sent, its line endings unified and its ends trimmed; under a key with
  another ID, or with no key set, it is shown without a text, and counted as sealed under another key in
  the first case.
\<close>

theorem reply_is_read_back:
  assumes "mail_reachable d" "reply w before a n i body chosen d = Inr (Some (ReplySaved j), d')"
    "fresh_ids w d" "lower i \<noteq> mw_line w" "looked_up before a n d" "mail_step\<^sup>*\<^sup>* d' e"
    "crypto_ok (mw_crypto w)" "\<And>f. length (mw_nonce w f) = NONCE_BYTES" "units_ok body"
    "mw_crypto w' = mw_crypto w" "act_guild b = act_guild a" "accessible e b n = Some c"
  shows "\<exists>v e' x. caseView w' b n e = Inr (Some v, e') \<and> x \<in> set (cv_entries v) \<and> ce_id x = j \<and>
    ce_author x = shownAuthor (act_user a) (sideIn (ca_opener c) (act_user a))
      (reply_signing (sideIn (ca_opener c) (act_user a)) chosen) (cv_audience v) \<and>
    (mw_key w' = mw_key w \<longrightarrow> ce_body x = Some \<lparr>rf_text = Some (cleanText body), rf_altered = 0, rf_other = 0\<rparr>) \<and>
    (the_cipher w' = None \<longrightarrow> ce_body x = Some \<lparr>rf_text = None, rf_altered = 0, rf_other = 0\<rparr>) \<and>
    (\<forall>m m'. the_cipher w = Some m \<and> the_cipher w' = Some m' \<and> mc_id m' \<noteq> mc_id m \<longrightarrow>
       ce_body x = Some \<lparr>rf_text = None, rf_altered = 0, rf_other = 1\<rparr>)"
  using assms(2,5)
proof (rule saved_reply)
  fix m c0 s sd
  let ?row = "reply_row w c0 j (act_user a) sd (reply_signing sd chosen) s"
  assume m: "the_cipher w = Some m" and c0: "c0 \<in> set (md_cases d)" "ca_guild c0 = act_guild a" "ca_number c0 = n"
    and sd: "sd = sideIn (ca_opener c0) (act_user a)" and tx: "mailTextProblem (cleanText body) MESSAGE_CHARS = None"
    and row: "?row \<in> set (thread d' (ca_id c0))"
    and seal: "seal_field w m (binding_of c0) (row_field ?row) (cleanText body) PadMessage = Some s"
    and c1: "after_reply w sd c0 \<in> set (md_cases d')"
  have r': "mail_reachable d'"
    using reachable_steps [OF assms(1)] mail_step.Reply [OF assms(2-5)] by blast
  have e: "mail_ok e" by (rule mail_ok_reachable [OF reachable_steps [OF r' assms(6)]])
  note c = accessibleD [OF assms(12)]
  have "case_kept d' (after_reply w sd c0) e c"
    using later_case [OF mail_ok_reachable [OF r'] assms(6) c1 c(1)] c(2,3) c0(2,3) assms(11) by (simp add: after_reply_def)
  then have k: "ca_id c = ca_id c0" "ca_opener c = ca_opener c0" "ca_guild c = ca_guild c0"
    "prefix (thread d' (ca_id c0)) (thread e (ca_id c0))"
    by (simp_all add: case_kept_def same_case_def after_reply_def)
  obtain aad where aad: "fieldAad (binding_of c0) (row_field ?row) = Some aad" using seal_field_aad [OF seal] by blast
  have read: "decrypt_field w' (se_data s) (se_key s) aad = \<lparr>rf_text = Some (cleanText body), rf_altered = 0, rf_other = 0\<rparr>"
    if "mw_key w' = mw_key w"
    using sealed_field_read(2) [OF seal _ assms(10,7,8) _ clean_units [OF assms(9)] _ aad] clean_text_start [OF tx] m that
    by (simp add: the_cipher_def)
  have off: "decrypt_field w' (se_data s) (se_key s) aad = \<lparr>rf_text = None, rf_altered = 0, rf_other = 0\<rparr>" if "the_cipher w' = None"
    using that by (simp add: decrypt_field_def)
  have "se_key s = mc_id m" by (rule sealed_key [OF seal])
  then have other: "decrypt_field w' (se_data s) (se_key s) aad = \<lparr>rf_text = None, rf_altered = 0, rf_other = 1\<rparr>"
    if "the_cipher w' = Some m'" "mc_id m' \<noteq> mc_id m" for m'
    using that by (simp add: decrypt_field_def decrypt_def)
  obtain v where v: "caseView w' b n e = Inr (Some v, recordRead (mw_now w') (ca_id c) (act_user b) (sideIn (ca_opener c) (act_user b)) e)"
      "those_of (entry_of w' c (cv_audience v)) (thread e (ca_id c)) = Some (cv_entries v)"
    by (rule caseView_shown [OF e _ assms(12)]) simp_all
  have bd: "binding_of c = binding_of c0" using k by (simp add: binding_of_def)
  define x where "x = \<lparr>ce_id = j, ce_kind = EntryMessage, ce_author = shownAuthor (act_user a) sd (reply_signing sd chosen) (cv_audience v),
      ce_body = Some (decrypt_field w' (se_data s) (se_key s) aad), ce_created = mw_now w\<rparr>"
  have "entry_of w' c (cv_audience v) ?row = Some x"
    using aad by (simp add: entry_of_def bd reply_row_def x_def Let_def)
  moreover have "?row \<in> set (thread e (ca_id c))" using row k(1,4) set_mono_prefix by (metis subsetD)
  ultimately have "x \<in> set (cv_entries v)" using those_of_mem [OF v(2)] by blast
  moreover have "ce_id x = j" "ce_author x = shownAuthor (act_user a) (sideIn (ca_opener c) (act_user a))
      (reply_signing (sideIn (ca_opener c) (act_user a)) chosen) (cv_audience v)"
    "ce_body x = Some (decrypt_field w' (se_data s) (se_key s) aad)"
    using sd k(2) by (simp_all add: x_def)
  ultimately show ?thesis using v(1) read off other m by (intro exI [of _ v] exI [of _ x] exI conjI allI impI) auto
qed


text \<open>
  The same reply form sent twice writes once: whatever happened in between, as long as the case is there,
  the second answer is that nothing changed, and nothing does.
\<close>

theorem reply_sent_twice:
  assumes "mail_reachable d" "reply w before a n i body chosen d = Inr (Some (ReplySaved j), d')"
    "fresh_ids w d" "lower i \<noteq> mw_line w" "looked_up before a n d" "mail_step\<^sup>*\<^sup>* d' e"
    "crypto_ok (mw_crypto w)" "\<And>f. length (mw_nonce w f) = NONCE_BYTES" "units_ok body"
    "mw_crypto w' = mw_crypto w" "mw_key w' = mw_key w" "\<not> mw_stopping w'"
    "accessible e b n = Some c" "act_guild b = act_guild a" "act_user b = act_user a"
    "ca_opener c = act_user b \<or> can b P_modmail_respond"
  shows "reply w' e b n i body chosen' e = Inr (Some (ReplyUnchanged j), e)"
  using assms(2,5)
proof (rule saved_reply)
  fix m c0 s sd
  let ?row = "reply_row w c0 j (act_user a) sd (reply_signing sd chosen) s"
  assume m: "the_cipher w = Some m" and c0: "c0 \<in> set (md_cases d)" "ca_guild c0 = act_guild a" "ca_number c0 = n"
    and sd: "sd = sideIn (ca_opener c0) (act_user a)" and tx: "mailTextProblem (cleanText body) MESSAGE_CHARS = None"
    and j: "j = lower i" and row: "?row \<in> set (thread d' (ca_id c0))"
    and seal: "seal_field w m (binding_of c0) (row_field ?row) (cleanText body) PadMessage = Some s"
    and c1: "after_reply w sd c0 \<in> set (md_cases d')"
  have r': "mail_reachable d'"
    using reachable_steps [OF assms(1)] mail_step.Reply [OF assms(2-5)] by blast
  have e: "mail_ok e" by (rule mail_ok_reachable [OF reachable_steps [OF r' assms(6)]])
  note c = accessibleD [OF assms(13)]
  have "case_kept d' (after_reply w sd c0) e c"
    using later_case [OF mail_ok_reachable [OF r'] assms(6) c1 c(1)] c(2,3) c0(2,3) assms(14) by (simp add: after_reply_def)
  then have k: "ca_id c = ca_id c0" "ca_opener c = ca_opener c0" "ca_guild c = ca_guild c0"
    "prefix (thread d' (ca_id c0)) (thread e (ca_id c0))"
    by (simp_all add: case_kept_def same_case_def after_reply_def)
  obtain aad where aad: "fieldAad (binding_of c0) (row_field ?row) = Some aad" using seal_field_aad [OF seal] by blast
  have m': "the_cipher w' = Some m" using m assms(11) by (simp add: the_cipher_def)
  have bd: "binding_of c = binding_of c0" using k by (simp add: binding_of_def)
  have read: "read_sealed w' (binding_of c) (row_field ?row) (se_data s) (se_key s) = Some (Some (cleanText body))"
    using sealed_field_read(1) [OF seal m' assms(10,7,8) _ clean_units [OF assms(9)] _ aad] clean_text_start [OF tx] m' aad
    by (simp add: read_sealed_def bd)
  have re: "?row \<in> set (md_messages e)" using row k(4) set_mono_prefix by (fastforce simp: thread_def)
  have "message_of e j = Some ?row"
    unfolding message_of_def using find_distinct_key [OF mail_okD(3) [OF e] re] by (simp add: reply_row_def)
  then have rep: "repeated w' e (lower i) c (act_user b) (cleanText body) = Some (Some (ReplyUnchanged j))"
    using read m' k(1) assms(15) j by (simp add: repeated_def reply_row_def)
  have cs: "case_of e (ca_id c) = Some c"
    unfolding case_of_def by (rule find_distinct_key [OF mail_okD(1) [OF e] c(1)])
  have u: "is_uuid (lower i)" using assms(2) by (auto simp: reply_def and_then_Inr_iff split: if_splits sum.splits)
  have resp: "may_respond b (sideIn (ca_opener c) (act_user b)) = Inr ()"
    using assms(16) by (auto simp: may_respond_def sideIn_def requirePermission_Inr_iff)
  show ?thesis
    using assms(12,13) u m' tx resp rep cs by (simp add: reply_def authorize_def reply_transaction_def Let_def)
qed


text \<open>
  (C24) What was sealed for one row is read in no other unless the cipher itself is broken: moved to another
  case, message, author, side, signing or kind, or from a topic to a message, it decrypts to nothing and the page
  counts it as altered, or else AES-GCM accepted, for the same key and nonce, associated data other than
  what the padded text was sealed with, a forgery of its tag. So no two rows share their associated data.
\<close>

theorem sealed_text_stays_in_its_row:
  assumes "crypto_ok (mw_crypto w)" "length (mw_nonce w f) = NONCE_BYTES"
    "seal_field w m b f text p = Some s" "fieldAad b' f' = Some aad" "\<not> same_row b f b' f'" "the_cipher w = Some m"
  shows "decrypt_field w (se_data s) (se_key s) aad = \<lparr>rf_text = None, rf_altered = 1, rf_other = 0\<rparr> \<or>
    (\<exists>own plain. fieldAad b f = Some own \<and> pad text p = Some plain \<and>
       forged (mw_crypto w) (mc_key m) (mw_nonce w f) own plain aad)"
proof -
  obtain own where own: "fieldAad b f = Some own" "encrypt (mw_crypto w) m (mw_nonce w f) text own p = Some s"
    using assms(3) by (auto simp: seal_field_def split: bind_splits)
  have "aad \<noteq> own" using aad_same_row [OF own(1)] assms(4,5) by blast
  from decrypt_elsewhere [OF assms(1) own(2) assms(2) this] show ?thesis
  proof
    assume "decrypt (mw_crypto w) m (se_data s) (se_key s) aad = None"
    then show ?thesis using assms(6) encrypt_data(2) [OF assms(1) own(2) assms(2)] by (simp add: decrypt_field_def)
  qed (use own(1) in blast)
qed

text \<open>
  (C26) A member without the inbox and the read log learns of no one but themselves and the officers who chose
  to sign with their name: every other officer's row is shown as the officers'.
\<close>

theorem unnamed_officers_stay_unnamed:
  assumes "mail_reachable d" "caseView w a n d = Inr (Some v, d')" "\<not> can a P_modmail_inbox" "\<not> can a P_modmail_read_log"
  shows "(\<forall>i \<in> set (cv_ids v). i = act_user a \<or>
      (\<exists>m \<in> set (thread d (ca_id (cv_case v))). ms_author m = i \<and> ms_side m = OfficerSide \<and> ms_signed m = Some SignName)) \<and>
    (\<forall>x \<in> set (cv_entries v). \<forall>i. ce_author x \<noteq> ShownPerson i OfficerSide True \<and> ce_author x \<noteq> ShownPerson i OfficerSide False)"
proof -
  obtain c where c: "accessible d a n = Some c"
    using assms(2) by (auto simp: caseView_def split: sum.splits option.splits)
  note acc = accessibleD [OF c]
  have op: "ca_opener c = act_user a" using acc(4) assms(3) by (simp add: mayAccess_def)
  let ?d = "recordRead (mw_now w) (ca_id c) (act_user a) (sideIn (ca_opener c) (act_user a)) d"
  have v: "view_of w a c ?d = Some v"
    using assms(2) c by (auto simp: caseView_def Let_def split: sum.splits option.splits)
  have th: "thread ?d (ca_id c) = thread d (ca_id c)" by (simp add: thread_def)
  have aud: "cv_audience v = MemberAudience" using conjunct2 [OF view_entries [OF v]] assms(3) by simp
  have es: "those_of (entry_of w c MemberAudience) (thread d (ca_id c)) = Some (cv_entries v)"
    using conjunct1 [OF view_entries [OF v]] unfolding th aud .
  have cv: "cv_case v = c" "cv_ids v = ca_opener c # author_ids (cv_entries v)"
    using v assms(4) by (auto simp: view_of_def Let_def split: option.splits)
  have shown: "\<exists>m \<in> set (thread d (ca_id c)). ce_author x = shownAuthor (ms_author m) (ms_side m) (ms_signed m) MemberAudience"
    if "x \<in> set (cv_entries v)" for x
    using those_of_from [OF es that] entry_author by blast
  have "i = act_user a \<or> (\<exists>m \<in> set (thread d (ca_id (cv_case v))). ms_author m = i \<and> ms_side m = OfficerSide \<and> ms_signed m = Some SignName)"
    if i: "i \<in> set (cv_ids v)" for i
  proof (cases "i = ca_opener c")
    case False
    then obtain x where x: "x \<in> set (cv_entries v)" "i \<in> set (case ce_author x of ShownPerson i _ _ \<Rightarrow> [i] | ShownOfficer i \<Rightarrow> [i] | _ \<Rightarrow> [])"
      using i unfolding cv(2) by (auto simp: author_ids_def)
    obtain m where m: "m \<in> set (thread d (ca_id c))" "ce_author x = shownAuthor (ms_author m) (ms_side m) (ms_signed m) MemberAudience"
      using shown [OF x(1)] by blast
    then have "ms_author m = i \<and> ms_side m = OfficerSide \<and> ms_signed m = Some SignName"
      using x(2) by (cases "ms_side m") (auto simp: shownAuthor_def split: if_splits)
    then show ?thesis using m(1) cv(1) by blast
  qed (simp add: op)
  moreover have "ce_author x \<noteq> ShownPerson i OfficerSide f" if x: "x \<in> set (cv_entries v)" for x i f
    using shown [OF x] by (auto simp: shownAuthor_def split: if_splits)
  ultimately show ?thesis by blast
qed

text \<open>
  Retention deletes exactly the cases closed more than 90 days ago, with all their rows and reads, and
  leaves every other case and its whole thread as they are.
\<close>

theorem retention_deletes_old_cases:
  assumes "mail_reachable d" "pruneModMail now d = (k, d')" "c \<in> set (md_cases d)"
  shows "(c \<in> set (md_cases d')) = (\<not> (\<exists>t. ca_closed c = Some t \<and> ca_state c = CaseClosed \<and> t + 90 * 86400000 < now)) \<and>
    thread d' (ca_id c) = (if c \<in> set (md_cases d') then thread d (ca_id c) else []) \<and>
    (c \<notin> set (md_cases d') \<longrightarrow> (\<forall>r \<in> set (md_reads d'). rd_case r \<noteq> ca_id c))"
proof -
  note ok = mail_okD [OF mail_ok_reachable [OF assms(1)]]
  have d': "md_cases d' = filter (\<lambda>c. \<not> expired now c) (md_cases d)"
    "md_messages d' = filter (\<lambda>m. ms_case m \<notin> ca_id ` {c \<in> set (md_cases d). expired now c}) (md_messages d)"
    "md_reads d' = filter (\<lambda>r. rd_case r \<notin> ca_id ` {c \<in> set (md_cases d). expired now c}) (md_reads d)"
    using assms(2) by (auto simp: pruneModMail_def Let_def)
  have "expired now c \<longleftrightarrow> (\<exists>t. ca_closed c = Some t \<and> ca_state c = CaseClosed \<and> t + 90 * 86400000 < now)"
    using ok(5) [OF assms(3)] by (auto simp: expired_def case_row_ok_def RETENTION_DAYS_def split: option.splits)
  moreover have "c \<in> set (md_cases d') \<longleftrightarrow> \<not> expired now c" using d'(1) assms(3) by simp
  moreover have "thread d' (ca_id c) = thread d (ca_id c)" if "\<not> expired now c"
    by (rule thread_pruned [OF d'(2) ok(1) assms(3) that])
  moreover have "thread d' (ca_id c) = [] \<and> (\<forall>r \<in> set (md_reads d'). rd_case r \<noteq> ca_id c)" if "expired now c"
    using that assms(3) unfolding thread_def d'(2,3) by (auto simp: filter_empty_conv)
  ultimately show ?thesis by metis
qed


section \<open>On concrete tables\<close>

lemma xm_replied_step: "mail_step\<^sup>*\<^sup>* xm_open xm_replied" "mail_reachable xm_replied"
proof -
  show "mail_step\<^sup>*\<^sup>* xm_open xm_replied" using mail_step.Reply [OF xm_reply xm_conditions] by blast
  then show "mail_reachable xm_replied" using reachable_steps [OF xm_reachable] by blast
qed

text \<open>The case closed, and deleted by retention after 90 days; the member then opens another, under the next number.\<close>

lemma xm_closed:
  obtains e where "changeState xm_w2 xm_open xm_member 1 1 Close xm_open = Inr (Some StateSaved, e)"
    "md_cases e = [close_row xm_w2 xm_case]" "md_settings e = md_settings xm_open" "md_guilds e = md_guilds xm_open"
    "list_all (\<lambda>m. ms_case m = xm_id CHR ''1'') (md_messages e)" "mail_step xm_open e"
proof -
  have "\<exists>e. changeState xm_w2 xm_open xm_member 1 1 Close xm_open = Inr (Some StateSaved, e) \<and>
      md_cases e = [close_row xm_w2 xm_case] \<and> md_settings e = md_settings xm_open \<and> md_guilds e = md_guilds xm_open \<and>
      list_all (\<lambda>m. ms_case m = xm_id CHR ''1'') (md_messages e)"
    by (simp add: changeState_def accessible_def mayAccess_def mayUse_def sideIn_def may_respond_def change_transaction_def
        case_of_def line_row_def Let_def)
  then show ?thesis using that mail_step.ChangeState [OF _ xm_conditions(1,3)] by blast
qed

lemma xm_opened_again:
  obtains p q where "mail_step\<^sup>*\<^sup>* xm_open p" "mail_step p q" "md_cases p = []" "md_cases q = [xm_case\<lparr>ca_number := 2\<rparr>]"
proof (rule xm_closed)
  fix e
  assume e: "md_cases e = [close_row xm_w2 xm_case]" "md_settings e = md_settings xm_open" "md_guilds e = md_guilds xm_open"
    "list_all (\<lambda>m. ms_case m = xm_id CHR ''1'') (md_messages e)" "mail_step xm_open e"
  obtain p where p: "pruneModMail 7776000001 e = (1, p)" "md_cases p = []" "md_messages p = []"
      "md_settings p = md_settings xm_open" "md_guilds p = md_guilds xm_open"
    using e(1-4) by (simp add: pruneModMail_def expired_def close_row_def RETENTION_DAYS_def list_all_iff Let_def)
  obtain q where q: "open_mail xm_w xm_member xm_text xm_text None p = Inr (OpenOpened 2 (url_of xm_w ''1'' 2), q)"
      "md_cases q = [xm_case\<lparr>ca_number := 2\<rparr>]"
    using xm_inserted [where d = p and n = 2] p(2-5)
    by (simp add: open_mail_def openCase_def staticRefusal_def mayUse_def xm_clean guildRow_def enabledIn_def settings_of_def
        limit_refusal_def case_counts_def TOPIC_CHARS_def MESSAGE_CHARS_def OPEN_CASES_def DAILY_CASES_def xm_open_def Let_def
        numeral_2_eq_2)
  have "mail_step e p" by (rule mail_step.Retention [of None 7776000001 7776000001]) (simp add: retention_tick_def p(1))
  moreover have "mail_step p q" by (rule mail_step.Open [OF q(1)]) (simp add: fresh_ids_def p)
  ultimately show ?thesis using that [of p q] e(5) p(2) q(2) by (meson converse_rtranclp_into_rtranclp rtranclp.rtrancl_refl)
qed

theorem mail_tables_consistent_witness:
  "\<exists>p q. md_cases p = [] \<and> md_cases q = [xm_case\<lparr>ca_number := 2\<rparr>] \<and> mail_step p q \<and>
     (\<forall>y \<in> set (md_cases q). (ca_guild y, ca_number y) \<noteq> (''1'', 1)) \<and> distinct (map ca_id (md_cases q))"
proof (rule xm_opened_again)
  fix p q
  assume h: "mail_step\<^sup>*\<^sup>* xm_open p" "mail_step p q" "md_cases p = []" "md_cases q = [xm_case\<lparr>ca_number := 2\<rparr>]"
  from mail_tables_consistent [OF xm_reachable h(1) r_into_rtranclp [of mail_step, OF h(2)]] show ?thesis
    using h(2-4) by (intro exI [of _ p] exI [of _ q]) simp
qed

theorem thread_tells_the_state_witness:
  "ca_state (after_reply xm_w2 OfficerSide xm_case) = WaitMember"
proof -
  have "after_reply xm_w2 OfficerSide xm_case \<in> set (md_cases xm_replied)" by (simp add: xm_replied_case)
  from thread_tells_the_state [OF xm_replied_step(2) this] show ?thesis
    by (simp add: xm_replied_def save_reply_def thread_def after_reply_def reply_row_def Let_def afterReply_def)
qed

theorem thread_only_grows_witness:
  "prefix (thread xm_open (xm_id CHR ''1'')) (thread xm_replied (xm_id CHR ''1''))"
  using thread_only_grows [OF xm_reachable xm_replied_step(1), of xm_case "after_reply xm_w2 OfficerSide xm_case"]
  by (simp add: xm_replied_case after_reply_def)

theorem change_acts_on_what_was_seen_witness:
  "\<exists>e. changeState xm_w2 xm_open xm_member 1 1 Close xm_open = Inr (Some StateSaved, e) \<and> xm_case \<in> set (md_cases xm_open)"
proof -
  obtain e where e: "changeState xm_w2 xm_open xm_member 1 1 Close xm_open = Inr (Some StateSaved, e)"
    by (simp add: changeState_def accessible_def mayAccess_def mayUse_def sideIn_def may_respond_def change_transaction_def
        case_of_def Let_def)
  then have "xm_case \<in> set (md_cases xm_open) \<and> thread xm_open (ca_id xm_case) = thread xm_open (ca_id xm_case)"
    by (intro change_acts_on_what_was_seen [OF xm_reachable _ _ _ _ xm_conditions(3)]) simp_all
  then show ?thesis using e by blast
qed

lemma xm_nonce: "length (mw_nonce xm_w2 f) = NONCE_BYTES"
  by (simp add: NONCE_BYTES_def)

lemma xm_seen: "accessible xm_replied xm_member 1 = Some (after_reply xm_w2 OfficerSide xm_case)"
    "accessible xm_replied xm_officer 1 = Some (after_reply xm_w2 OfficerSide xm_case)"
  by (simp_all add: accessible_def xm_replied_case mayAccess_def mayUse_def after_reply_def)

theorem reply_is_read_back_witness:
  "\<exists>v e' x. caseView xm_w xm_member 1 xm_replied = Inr (Some v, e') \<and> x \<in> set (cv_entries v) \<and>
     ce_body x = Some \<lparr>rf_text = Some xm_text, rf_altered = 0, rf_other = 0\<rparr>"
  using reply_is_read_back [OF xm_reachable xm_reply xm_conditions rtranclp.rtrancl_refl _ xm_nonce xm_clean(4) _ _ xm_seen(1), of xm_w]
    xm_crypto_ok by (fastforce simp: xm_clean)

theorem reply_sent_twice_witness:
  "reply xm_w xm_replied xm_officer 1 (xm_id CHR ''3'') xm_text (Some SignOfficers) xm_replied =
     Inr (Some (ReplyUnchanged (xm_id CHR ''3'')), xm_replied)"
  by (rule reply_sent_twice [OF xm_reachable xm_reply xm_conditions rtranclp.rtrancl_refl _ xm_nonce xm_clean(4) _ _ _ xm_seen(2)])
    (simp_all add: xm_crypto_ok)

lemma xm_sums: "map_option (\<lambda>a. sum_list a mod 256) (fieldAad xm_binding TopicField) \<noteq>
    map_option (\<lambda>a. sum_list a mod 256) (fieldAad xm_binding (opener_field (xm_id CHR ''2'') ''2''))"
  by code_simp

theorem sealed_text_stays_in_its_row_witness:
  "\<exists>aad. fieldAad xm_binding (opener_field (xm_id CHR ''2'') ''2'') = Some aad \<and>
     decrypt_field xm_w (se_data xm_topic) (se_key xm_topic) aad = \<lparr>rf_text = None, rf_altered = 1, rf_other = 0\<rparr>"
proof -
  let ?f = "opener_field (xm_id CHR ''2'') ''2''"
  obtain aad where aad: "fieldAad xm_binding ?f = Some aad" using xm_field_aad unfolding opener_field_def by blast
  have "\<not> forged (mw_crypto xm_w) (mc_key xm_cipher) (mw_nonce xm_w TopicField) own plain aad"
    if "fieldAad xm_binding TopicField = Some own" for own plain
    using xm_sums aad that by (auto simp: forged_def xm_crypto_def xm_tag_def)
  moreover have "decrypt_field xm_w (se_data xm_topic) (se_key xm_topic) aad = \<lparr>rf_text = None, rf_altered = 1, rf_other = 0\<rparr> \<or>
      (\<exists>own plain. fieldAad xm_binding TopicField = Some own \<and> pad xm_text PadTopic = Some plain \<and>
         forged (mw_crypto xm_w) (mc_key xm_cipher) (mw_nonce xm_w TopicField) own plain aad)"
    by (rule sealed_text_stays_in_its_row [OF _ _ xm_seals(1) aad])
      (simp_all add: xm_crypto_ok NONCE_BYTES_def same_row_def opener_field_def)
  ultimately show ?thesis using aad by blast
qed

theorem unnamed_officers_stay_unnamed_witness:
  "\<exists>v e. caseView xm_w xm_member 1 xm_replied = Inr (Some v, e) \<and> (\<forall>i \<in> set (cv_ids v). i = ''2'' \<or> i = ''3'')"
proof -
  obtain v e where v: "caseView xm_w xm_member 1 xm_replied = Inr (Some v, e)"
    by (rule caseView_shown [OF mail_ok_reachable [OF xm_replied_step(2)] _ xm_seen(1)]) auto
  have "ms_author m \<in> {''2'', ''3''}" if "m \<in> set (thread xm_replied i)" for m i
    using that by (auto simp: thread_def xm_replied_def save_reply_def Let_def xm_message_def reply_row_def split: if_splits)
  then show ?thesis using unnamed_officers_stay_unnamed [OF xm_replied_step(2) v] v by fastforce
qed

theorem retention_deletes_old_cases_witness:
  "\<exists>e c. changeState xm_w2 xm_open xm_member 1 1 Close xm_open = Inr (Some StateSaved, e) \<and> md_cases e = [c] \<and>
     c \<in> set (md_cases (snd (pruneModMail 7776000000 e))) \<and> c \<notin> set (md_cases (snd (pruneModMail 7776000001 e)))"
proof -
  obtain e where e: "changeState xm_w2 xm_open xm_member 1 1 Close xm_open = Inr (Some StateSaved, e)"
      "md_cases e = [close_row xm_w2 xm_case]"
    by (simp add: changeState_def accessible_def mayAccess_def mayUse_def sideIn_def may_respond_def change_transaction_def
        case_of_def Let_def)
  have r: "mail_reachable e"
    using reachable_steps [OF xm_reachable] mail_step.ChangeState [OF e(1) xm_conditions(1,3)] by blast
  have "(close_row xm_w2 xm_case \<in> set (md_cases (snd (pruneModMail now e)))) = (\<not> (0 + 90 * 86400000 < now))" for now
    using retention_deletes_old_cases [OF r, of now _ _ "close_row xm_w2 xm_case"] e(2)
    by (cases "pruneModMail now e") (simp add: close_row_def)
  then show ?thesis using e by (intro exI [of _ e] exI [of _ "close_row xm_w2 xm_case"]) simp
qed

end
