(* ===== verification/Moderation.thy ===== *)
theory Moderation
  imports Members
begin

text \<open>
  Per-person moderation (\<open>src/application/moderation.ts\<close>, \<open>src/application/blocks.ts\<close>,
  \<open>src/domain/moderation.ts\<close>): pausing one person's use of some features, lifting it, and who may read
  what of it. A pause is a row of \<open>member_blocks\<close>, written once; only its lift is written later. The
  actor's access as Discord and the tables resolve it, the person's join date and the clock are arguments;
  \<open>now()\<close> is one moment per transaction. Lists newest first keep the table's order where times are equal.
\<close>

section \<open>Rows\<close>

datatype issuer_level = ManagerLevel | ModeratorLevel

record block_row =
  bk_id :: ident
  bk_batch :: ident
  bk_guild :: ident
  bk_user :: ident
  bk_permission :: string
  bk_reason :: text16
  bk_level :: issuer_level
  bk_actor :: ident
  bk_created :: int
  bk_expires :: "int option"
  bk_lifted :: "int option"
  bk_lifted_by :: "ident option"
  bk_lift_reason :: "text16 option"

record mod_audit =
  ma_guild :: ident
  ma_actor :: ident
  ma_action :: string
  ma_target :: text16
  ma_permissions :: "permission_id list"
  ma_expires :: "int option"
  ma_batch :: "ident option"

record mod_db =
  mo_guilds :: "guild_row list"
  mo_accounts :: "ident list"
  mo_users :: "user_row list"
  mo_blocks :: "block_row list"
  mo_audit :: "mod_audit list"

record mod_world =
  mq_now :: int
  mq_stopping :: bool
  mq_stopping_begin :: bool
  mq_stopping_end :: bool
  mq_resolve :: "ident \<Rightarrow> ident \<Rightarrow> thrown + actor"
  mq_member :: "ident \<Rightarrow> ident \<Rightarrow> thrown + int option"
  mq_batch :: ident
  mq_row :: "permission_id \<Rightarrow> ident"

text \<open>\<open>ACTIVE_BLOCK\<close>: not lifted, and not past its end.\<close>

definition active_block :: "int \<Rightarrow> block_row \<Rightarrow> bool" where
  "active_block now r \<longleftrightarrow> bk_lifted r = None \<and> (case bk_expires r of None \<Rightarrow> True | Some t \<Rightarrow> t > now)"

definition blocks_of :: "ident \<Rightarrow> ident \<Rightarrow> block_row list \<Rightarrow> block_row list" where
  "blocks_of guild user rows = filter (\<lambda>r. bk_guild r = guild \<and> bk_user r = user) rows"

definition pause_of :: "block_row \<Rightarrow> pause" where
  "pause_of r = \<lparr>pause_until = bk_expires r, pause_reason = bk_reason r\<rparr>"

definition activeBlocks :: "mod_db \<Rightarrow> int \<Rightarrow> ident \<Rightarrow> ident \<Rightarrow> permission_id \<Rightarrow> pause option" where
  "activeBlocks d now guild user =
     foldl (\<lambda>m r. case permission_of_name (bk_permission r) of None \<Rightarrow> m | Some p \<Rightarrow> m(p := Some (pause_of r)))
       (\<lambda>_. None) (filter (active_block now) (blocks_of guild user (mo_blocks d)))"

section \<open>What may be asked\<close>

definition cleanReason :: "text16 \<Rightarrow> text16" where
  "cleanReason = unify_lines"

definition protectedTarget :: "string \<Rightarrow> failure" where
  "protectedTarget m = mk_failure_detail F_forbidden (Literal m) (DScope Scope_protected None None None)"

definition selfRefusal :: "string \<Rightarrow> failure" where
  "selfRefusal m = mk_failure_detail F_forbidden (Literal m) (DScope Scope_self None None None)"

definition unknownMember :: "ident \<Rightarrow> failure" where
  "unknownMember user = mk_failure_detail F_not_found
     (Literal (''That user isn'' @ [CHR 0x27] @ ''t a current or former member of this server.''))
     (DResource Resource_member (Some user) None None None)"

definition features :: "permission_id list \<Rightarrow> failure + permission_id list" where
  "features ids =
     (let unique = js_set ids
      in if unique = [] then Inl (mk_failure_detail F_input (Literal ''Pick at least one feature.'') (DOption ''feature''))
         else if \<not> list_all isBlockable unique
         then Inl (mk_failure_detail F_input (Literal (''That feature can'' @ [CHR 0x27] @ ''t be paused.'')) (DOption ''feature''))
         else Inr unique)"

definition level_of :: "actor \<Rightarrow> issuer_level" where
  "level_of a = (if acc_manager (act_access a) then ManagerLevel else ModeratorLevel)"

text \<open>Who the target is: an actor, nobody here any more, or a refusal.\<close>

definition pause_subject :: "mod_world \<Rightarrow> ident \<Rightarrow> ident \<Rightarrow> thrown + actor option" where
  "pause_subject w guild target =
     (case mq_resolve w guild target of
        Inr a \<Rightarrow> Inr (Some a)
      | Inl e \<Rightarrow>
          (let c = classifyFailure e
           in case (cl_category c, cl_detail c) of
                (C_forbidden, Some (DScope s p u r)) \<Rightarrow>
                  if s = Scope_human then Inl (ThrownFailure (protectedTarget (''Bots can'' @ [CHR 0x27] @ ''t be paused.'')))
                  else if s = Scope_current_member then Inr None
                  else Inl e
              | _ \<Rightarrow> Inl e))"

section \<open>Writing\<close>

definition EXPIRED :: text16 where "EXPIRED = units ''expired''"
definition REPLACED :: text16 where "REPLACED = units ''Replaced by a new pause''"

definition closeEnded :: "int \<Rightarrow> ident \<Rightarrow> ident \<Rightarrow> block_row list \<Rightarrow> block_row list" where
  "closeEnded now guild user rows =
     map (\<lambda>r. if bk_guild r = guild \<and> bk_user r = user \<and> bk_lifted r = None \<and>
                 (case bk_expires r of None \<Rightarrow> False | Some t \<Rightarrow> t \<le> now)
              then r\<lparr>bk_lifted := Some now, bk_lift_reason := Some EXPIRED\<rparr> else r) rows"

definition open_block :: "int \<Rightarrow> ident \<Rightarrow> ident \<Rightarrow> permission_id \<Rightarrow> block_row list \<Rightarrow> block_row option" where
  "open_block now guild user p rows =
     find (\<lambda>r. bk_guild r = guild \<and> bk_user r = user \<and> bk_permission r = permission_name p \<and> active_block now r) rows"

definition lift_row :: "int \<Rightarrow> ident \<Rightarrow> text16 \<Rightarrow> ident \<Rightarrow> block_row list \<Rightarrow> block_row list" where
  "lift_row now actor reason i rows =
     map (\<lambda>r. if bk_id r = i
              then r\<lparr>bk_lifted := Some now, bk_lifted_by := Some actor, bk_lift_reason := Some reason\<rparr> else r) rows"

definition new_block ::
  "mod_world \<Rightarrow> actor \<Rightarrow> ident \<Rightarrow> text16 \<Rightarrow> nat option \<Rightarrow> permission_id \<Rightarrow> block_row" where
  "new_block w a target reason seconds p =
     \<lparr>bk_id = mq_row w p, bk_batch = mq_batch w, bk_guild = act_guild a, bk_user = target,
      bk_permission = permission_name p, bk_reason = reason, bk_level = level_of a, bk_actor = act_user a,
      bk_created = mq_now w, bk_expires = map_option (\<lambda>s. mq_now w + 1000 * int s) seconds,
      bk_lifted = None, bk_lifted_by = None, bk_lift_reason = None\<rparr>"

text \<open>One feature: its active pause is lifted first, unless it is above the actor.\<close>

definition pause_one ::
  "mod_world \<Rightarrow> actor \<Rightarrow> ident \<Rightarrow> text16 \<Rightarrow> nat option \<Rightarrow> permission_id \<Rightarrow>
   permission_id list \<times> block_row list \<Rightarrow> failure + (permission_id list \<times> block_row list)" where
  "pause_one w a target reason seconds p s =
     (case open_block (mq_now w) (act_guild a) target p (snd s) of
        None \<Rightarrow> Inr (fst s, snd s @ [new_block w a target reason seconds p])
      | Some open \<Rightarrow>
          if level_of a = ModeratorLevel \<and> bk_level open = ManagerLevel
          then Inl (protectedTarget ''A server manager paused that, so only a server manager can change it.'')
          else Inr (fst s @ [p],
            lift_row (mq_now w) (act_user a) REPLACED (bk_id open) (snd s) @ [new_block w a target reason seconds p]))"

fun each :: "('a \<Rightarrow> 's \<Rightarrow> failure + 's) \<Rightarrow> 'a list \<Rightarrow> 's \<Rightarrow> failure + 's" where
  "each f [] s = Inr s"
| "each f (x # xs) s = and_then (f x s) (each f xs)"

definition known :: "ident \<Rightarrow> ident \<Rightarrow> int option \<Rightarrow> mod_db \<Rightarrow> failure + mod_db" where
  "known guild user joined d =
     (if list_ex (\<lambda>u. gu_guild u = guild \<and> gu_user u = user) (mo_users d) then Inr d
      else (case joined of
              None \<Rightarrow> Inl (unknownMember user)
            | Some at \<Rightarrow>
                Inr (d\<lparr>mo_accounts := (if user \<in> set (mo_accounts d) then mo_accounts d else mo_accounts d @ [user]),
                       mo_users := ensureUser guild user (Some at) (mo_users d)\<rparr>)))"

record block_result =
  br_target :: ident
  br_permissions :: "permission_id list"
  br_duration :: pause_duration
  br_until :: "int option"
  br_replaced :: "permission_id list"
  br_batch :: ident

definition pauses_audited ::
  "actor \<Rightarrow> string \<Rightarrow> ident \<Rightarrow> permission_id list \<Rightarrow> int option \<Rightarrow> ident option \<Rightarrow> mod_db \<Rightarrow> mod_db" where
  "pauses_audited a action target ids expires batch d =
     d\<lparr>mo_audit := mo_audit d @ [\<lparr>ma_guild = act_guild a, ma_actor = act_user a, ma_action = action,
        ma_target = units target, ma_permissions = ids, ma_expires = expires, ma_batch = batch\<rparr>]\<rparr>"

definition block_transaction ::
  "mod_world \<Rightarrow> actor \<Rightarrow> ident \<Rightarrow> permission_id list \<Rightarrow> pause_duration \<Rightarrow> text16 \<Rightarrow> int option \<Rightarrow> mod_db \<Rightarrow>
   failure + (block_result \<times> mod_db)" where
  "block_transaction w a target ids duration text joined d =
     (if mq_stopping_begin w then Inl stoppingRefusal
      else
        and_then (known (act_guild a) target joined d) (\<lambda>d.
        and_then (each (pause_one w a target text (duration_seconds duration)) ids
                    ([], closeEnded (mq_now w) (act_guild a) target (mo_blocks d))) (\<lambda>(replaced, rows).
          let until = map_option (\<lambda>s. mq_now w + 1000 * int s) (duration_seconds duration);
              d = pauses_audited a ''moderation.block'' target ids until (Some (mq_batch w)) (d\<lparr>mo_blocks := rows\<rparr>)
          in if mq_stopping_end w then Inl stoppingRefusal
             else Inr (\<lparr>br_target = target, br_permissions = ids, br_duration = duration, br_until = until,
                        br_replaced = replaced, br_batch = mq_batch w\<rparr>, d))))"

text \<open>The duration is \<^const>\<open>None\<close> where the value named none of the listed ones.\<close>

definition block_asked ::
  "mod_world \<Rightarrow> actor \<Rightarrow> ident \<Rightarrow> permission_id list \<Rightarrow> pause_duration option \<Rightarrow> text16 \<Rightarrow> mod_db \<Rightarrow>
   failure + (permission_id list \<times> text16 \<times> pause_duration)" where
  "block_asked w a target permissions duration reason d =
     and_then (requirePermission a (act_guild a) P_moderation_block None) (\<lambda>_.
     and_then (if mq_stopping w then Inl stoppingRefusal else Inr ()) (\<lambda>_.
     and_then (features permissions) (\<lambda>ids.
     and_then (parse_note (cleanReason reason) LabelReason) (\<lambda>text.
     and_then (case duration of
                 None \<Rightarrow> Inl (mk_failure_detail F_input (Literal ''Pick one of the listed durations.'') (DOption ''duration''))
               | Some x \<Rightarrow> Inr x) (\<lambda>chosen.
     and_then (if target = act_user a then Inl (selfRefusal (''You can'' @ [CHR 0x27] @ ''t pause yourself.'')) else Inr ()) (\<lambda>_.
     and_then (guild_of (mo_guilds d) a) (\<lambda>_.
       if level_of a = ModeratorLevel \<and> list_ex (\<lambda>p. p \<in> MANAGER_ONLY_BLOCKS) ids
       then Inl (protectedTarget ''Only a server manager can pause mod mail.'')
       else Inr (ids, text, chosen))))))))"

definition subject_allowed :: "actor \<Rightarrow> actor option \<Rightarrow> failure + unit" where
  "subject_allowed a subject =
     (case subject of
        None \<Rightarrow> Inr ()
      | Some s \<Rightarrow>
          if acc_manager (act_access s) then Inl (protectedTarget (''Server managers can'' @ [CHR 0x27] @ ''t be paused.''))
          else if level_of a = ModeratorLevel \<and> isStaff s
          then Inl (protectedTarget ''Only a server manager can pause someone with officer permissions.'')
          else Inr ())"

definition block ::
  "mod_world \<Rightarrow> actor \<Rightarrow> ident \<Rightarrow> permission_id list \<Rightarrow> pause_duration option \<Rightarrow> text16 \<Rightarrow> mod_db \<Rightarrow>
   thrown + (block_result \<times> mod_db)" where
  "block w a target permissions duration reason d =
     (case block_asked w a target permissions duration reason d of
        Inl f \<Rightarrow> Inl (ThrownFailure f)
      | Inr (ids, text, chosen) \<Rightarrow>
          (case pause_subject w (act_guild a) target of
             Inl e \<Rightarrow> Inl e
           | Inr subject \<Rightarrow>
               (case subject_allowed a subject of
                  Inl f \<Rightarrow> Inl (ThrownFailure f)
                | Inr _ \<Rightarrow>
                    (case (if subject = None then Inr None else mq_member w (act_guild a) target) of
                       Inl e \<Rightarrow> Inl e
                     | Inr joined \<Rightarrow>
                         (case block_transaction w a target ids chosen text joined d of
                            Inl f \<Rightarrow> Inl (ThrownFailure f)
                          | Inr x \<Rightarrow> Inr x)))))"

section \<open>Lifting\<close>

definition lift_one ::
  "mod_world \<Rightarrow> actor \<Rightarrow> ident \<Rightarrow> text16 \<Rightarrow> permission_id \<Rightarrow>
   (permission_id list \<times> permission_id list) \<times> block_row list \<Rightarrow>
   failure + ((permission_id list \<times> permission_id list) \<times> block_row list)" where
  "lift_one w a target reason p s =
     (case s of ((lifted, notPaused), rows) \<Rightarrow>
       (case open_block (mq_now w) (act_guild a) target p rows of
          None \<Rightarrow> Inr ((lifted, notPaused @ [p]), rows)
        | Some open \<Rightarrow>
            if level_of a = ModeratorLevel \<and> bk_level open = ManagerLevel
            then Inl (protectedTarget ''A server manager paused that, so only a server manager can lift it.'')
            else Inr ((lifted @ [p], notPaused), lift_row (mq_now w) (act_user a) reason (bk_id open) rows)))"

record lift_result =
  lr_target :: ident
  lr_lifted :: "permission_id list"
  lr_not_paused :: "permission_id list"

definition lift ::
  "mod_world \<Rightarrow> actor \<Rightarrow> ident \<Rightarrow> permission_id list \<Rightarrow> text16 \<Rightarrow> mod_db \<Rightarrow> failure + (lift_result \<times> mod_db)" where
  "lift w a target permissions reason d =
     and_then (requirePermission a (act_guild a) P_moderation_block None) (\<lambda>_.
     and_then (if mq_stopping w then Inl stoppingRefusal else Inr ()) (\<lambda>_.
     and_then (features permissions) (\<lambda>ids.
     and_then (parse_note (cleanReason reason) LabelReason) (\<lambda>text.
     and_then (if target = act_user a then Inl (selfRefusal (''You can'' @ [CHR 0x27] @ ''t lift your own pause.'')) else Inr ()) (\<lambda>_.
     and_then (guild_of (mo_guilds d) a) (\<lambda>_.
     and_then (if mq_stopping_begin w then Inl stoppingRefusal else Inr ()) (\<lambda>_.
     and_then (each (lift_one w a target text) ids
                 (([], []), closeEnded (mq_now w) (act_guild a) target (mo_blocks d))) (\<lambda>((lifted, notPaused), rows).
       let d = d\<lparr>mo_blocks := rows\<rparr>;
           d = (if lifted = [] then d else pauses_audited a ''moderation.lift'' target lifted None None d)
       in if mq_stopping_end w then Inl stoppingRefusal
          else Inr (\<lparr>lr_target = target, lr_lifted = lifted, lr_not_paused = notPaused\<rparr>, d)))))))))"

section \<open>Reading\<close>

definition ENDED_LIMIT :: nat where "ENDED_LIMIT = 25"
definition ACTIVE_LIMIT :: nat where "ACTIVE_LIMIT = 200"

definition pause_ended :: "int \<Rightarrow> block_row \<Rightarrow> bool" where
  "pause_ended now r \<longleftrightarrow> bk_lifted r \<noteq> None \<or> (case bk_expires r of None \<Rightarrow> False | Some t \<Rightarrow> t \<le> now)"

text \<open>\<open>ENDED_AT\<close>: a person's lift ends a pause when they lifted it, else it ended at its own end.\<close>

definition ended_at :: "block_row \<Rightarrow> int option" where
  "ended_at r = (if bk_lifted_by r = None then bk_expires r else bk_lifted r)"

record pause_end =
  pe_at :: int
  pe_by :: "ident option"
  pe_reason :: "text16 option"

record pause_view =
  vw_id :: ident
  vw_user :: ident
  vw_permission :: permission_id
  vw_reason :: text16
  vw_created :: int
  vw_until :: "int option"
  vw_by :: "(ident \<times> issuer_level) option"
  vw_ended :: "pause_end option"

definition view_pause :: "int \<Rightarrow> bool \<Rightarrow> block_row \<Rightarrow> pause_view option" where
  "view_pause now officer r =
     (case permission_of_name (bk_permission r) of
        None \<Rightarrow> None
      | Some p \<Rightarrow>
          if \<not> isBlockable p then None
          else
            (let ended = (if bk_lifted_by r \<noteq> None then bk_lifted r
                          else if bk_lifted r \<noteq> None \<or> (case bk_expires r of None \<Rightarrow> False | Some t \<Rightarrow> t \<le> now)
                          then bk_expires r else None)
             in Some \<lparr>vw_id = bk_id r, vw_user = bk_user r, vw_permission = p, vw_reason = bk_reason r,
                  vw_created = bk_created r, vw_until = bk_expires r,
                  vw_by = (if officer then Some (bk_actor r, bk_level r) else None),
                  vw_ended = map_option (\<lambda>at. \<lparr>pe_at = at, pe_by = (if officer then bk_lifted_by r else None),
                    pe_reason = (if officer \<and> bk_lifted_by r \<noteq> None then bk_lift_reason r else None)\<rparr>) ended\<rparr>))"

definition newest :: "(block_row \<Rightarrow> int) \<Rightarrow> block_row list \<Rightarrow> block_row list" where
  "newest k rows = rev (sort_key k rows)"

definition ended_key :: "block_row \<Rightarrow> int" where
  "ended_key r = (case ended_at r of Some t \<Rightarrow> t | None \<Rightarrow> 0)"

record pause_status =
  ps_subject :: ident
  ps_self :: bool
  ps_active :: "pause_view list"
  ps_ended :: "pause_view list"

definition status :: "mod_world \<Rightarrow> actor \<Rightarrow> ident \<Rightarrow> mod_db \<Rightarrow> failure + pause_status" where
  "status w a subject d =
     and_then (authorize a (act_guild a)) (\<lambda>_.
       let self = (subject = act_user a)
       in and_then (if self then Inr () else requirePermission a (act_guild a) P_moderation_view None) (\<lambda>_.
         let mine = blocks_of (act_guild a) subject (mo_blocks d);
             show = List.map_filter (view_pause (mq_now w) (\<not> self))
         in Inr \<lparr>ps_subject = subject, ps_self = self,
              ps_active = show (newest bk_created (filter (active_block (mq_now w)) mine)),
              ps_ended = (if self then [] else
                show (take ENDED_LIMIT (newest ended_key (filter (pause_ended (mq_now w)) mine))))\<rparr>))"

record pause_overview =
  po_active :: "pause_view list"
  po_ended :: "pause_view list"
  po_truncated :: bool

definition overview :: "mod_world \<Rightarrow> actor \<Rightarrow> mod_db \<Rightarrow> failure + pause_overview" where
  "overview w a d =
     and_then (requirePermission a (act_guild a) P_moderation_view None) (\<lambda>_.
       let server = filter (\<lambda>r. bk_guild r = act_guild a) (mo_blocks d);
           show = List.map_filter (\<lambda>r. view_pause (mq_now w) (bk_user r \<noteq> act_user a) r);
           active = take (ACTIVE_LIMIT + 1) (newest bk_created (filter (active_block (mq_now w)) server));
           ended = take ENDED_LIMIT (newest ended_key
             (filter (\<lambda>r. bk_user r \<noteq> act_user a \<and> pause_ended (mq_now w) r) server))
       in Inr \<lparr>po_active = show (take ACTIVE_LIMIT active), po_ended = show ended,
            po_truncated = (length active > ACTIVE_LIMIT)\<rparr>)"

definition MAX_SAFE_INTEGER :: int where "MAX_SAFE_INTEGER = 9007199254740991"

definition senderOfSuggestion :: "actor \<Rightarrow> int \<Rightarrow> mod_db \<Rightarrow> failure + ident option" where
  "senderOfSuggestion a number d =
     and_then (requirePermission a (act_guild a) P_moderation_view None) (\<lambda>_.
       if number < 1 \<or> number > MAX_SAFE_INTEGER then Inr None
       else Inr (map_option ma_actor (find (\<lambda>r. ma_guild r = act_guild a \<and> ma_action r = ''suggestion.posted'' \<and>
              ma_target r = units ''#'' @ decimal (nat number)) (rev (mo_audit d)))))"

end
