(* ===== verification/ModerationHistory.thy ===== *)
theory ModerationHistory
  imports Moderation
begin

text \<open>
  What holds of pauses over any history of them: one open pause per person and feature, rows that are kept
  as written and lifted once, what a pause does to what its person can do and when, what officers may not
  touch, and what a person is not told.
\<close>

section \<open>What a pause and a lift write\<close>

definition names_feature :: "ident \<Rightarrow> ident \<Rightarrow> permission_id list \<Rightarrow> block_row \<Rightarrow> bool" where
  "names_feature guild user ps r \<longleftrightarrow> bk_guild r = guild \<and> bk_user r = user \<and> bk_permission r \<in> permission_name ` set ps"

definition end_rows :: "int \<Rightarrow> ident \<Rightarrow> text16 \<Rightarrow> (block_row \<Rightarrow> bool) \<Rightarrow> block_row list \<Rightarrow> block_row list" where
  "end_rows now actor reason P rows =
     map (\<lambda>r. if P r \<and> active_block now r
              then r\<lparr>bk_lifted := Some now, bk_lifted_by := Some actor, bk_lift_reason := Some reason\<rparr> else r) rows"

definition feature_key :: "block_row \<Rightarrow> ident \<times> ident \<times> string" where
  "feature_key r = (bk_guild r, bk_user r, bk_permission r)"

definition block_rows_ok :: "block_row list \<Rightarrow> bool" where
  "block_rows_ok rows \<longleftrightarrow> distinct (map bk_id rows) \<and> distinct (map feature_key (filter (\<lambda>r. bk_lifted r = None) rows))"

text \<open>After \<^const>\<open>closeEnded\<close>, a person's open rows are active.\<close>

definition closed_for :: "int \<Rightarrow> ident \<Rightarrow> ident \<Rightarrow> block_row list \<Rightarrow> bool" where
  "closed_for now guild user rows \<longleftrightarrow>
     (\<forall>r \<in> set rows. bk_guild r = guild \<and> bk_user r = user \<and> bk_lifted r = None \<longrightarrow> active_block now r)"

lemma active_open: "active_block now r \<Longrightarrow> bk_lifted r = None"
  by (simp add: active_block_def)

lemma distinct_filter_eq:
  assumes "distinct (map f (filter P xs))" "x \<in> set xs" "y \<in> set xs" "P x" "P y" "f x = f y"
  shows "x = y"
  using assms by (auto simp: distinct_map inj_on_def)

lemma open_block_Some:
  assumes "open_block now g u p rows = Some r"
  shows "r \<in> set rows" "bk_guild r = g" "bk_user r = u" "bk_permission r = permission_name p" "active_block now r"
  using assms find_Some_mem [of _ rows r] by (auto simp: open_block_def find_Some_iff)

lemma open_block_None:
  "open_block now g u p rows = None \<longleftrightarrow> (\<forall>r \<in> set rows. names_feature g u [p] r \<longrightarrow> \<not> active_block now r)"
  by (auto simp: open_block_def find_None_iff names_feature_def)

lemma lift_open:
  assumes ok: "block_rows_ok rows" and o: "open_block now g u p rows = Some r"
  shows "lift_row now actor reason (bk_id r) rows = end_rows now actor reason (names_feature g u [p]) rows"
proof -
  note r = open_block_Some [OF o]
  have "(bk_id x = bk_id r) = (names_feature g u [p] x \<and> active_block now x)" if x: "x \<in> set rows" for x
  proof
    assume "bk_id x = bk_id r"
    then have "x = r" using ok x r(1) by (auto simp: block_rows_ok_def distinct_map inj_on_def)
    then show "names_feature g u [p] x \<and> active_block now x" using r by (simp add: names_feature_def)
  next
    assume a: "names_feature g u [p] x \<and> active_block now x"
    then have "feature_key x = feature_key r" using r by (simp add: feature_key_def names_feature_def)
    then have "x = r"
      using distinct_filter_eq [of feature_key "\<lambda>r. bk_lifted r = None" rows x r] ok x r(1,5) a active_open
      by (auto simp: block_rows_ok_def)
    then show "bk_id x = bk_id r" by simp
  qed
  then show ?thesis unfolding lift_row_def end_rows_def by (intro map_cong [OF refl]) simp
qed

lemma end_none: "\<forall>r \<in> set rows. P r \<longrightarrow> \<not> active_block now r \<Longrightarrow> end_rows now a t P rows = rows"
  unfolding end_rows_def by (rule map_idI) (metis (no_types, lifting))

lemma open_keys:
  assumes "\<And>r. feature_key (f r) = feature_key r" "\<And>r. bk_lifted (f r) = None \<Longrightarrow> bk_lifted r = None"
    "distinct (map feature_key (filter (\<lambda>r. bk_lifted r = None) rows))"
  shows "distinct (map feature_key (filter (\<lambda>r. bk_lifted r = None) (map f rows)))"
  using assms(3)
proof (induction rows)
  case (Cons r rows)
  have "feature_key (f r) \<notin> feature_key ` set (filter (\<lambda>r. bk_lifted r = None) (map f rows))" if o: "bk_lifted (f r) = None"
  proof
    assume "feature_key (f r) \<in> feature_key ` set (filter (\<lambda>r. bk_lifted r = None) (map f rows))"
    then obtain x where x: "x \<in> set rows" "bk_lifted (f x) = None" "feature_key (f x) = feature_key (f r)" by auto
    have "bk_lifted x = None" "feature_key x = feature_key r" using assms(1,2) x(2,3) by (blast, simp)
    then show False using Cons.prems assms(2) [OF o] x(1) by (auto simp: image_iff)
  qed
  then show ?case using Cons by (auto split: if_splits)
qed simp

lemma end_simps [simp]:
  "map bk_id (end_rows now a t P rows) = map bk_id rows" "length (end_rows now a t P rows) = length rows"
  by (simp_all add: end_rows_def)

lemma end_rows_ok:
  assumes "block_rows_ok rows" shows "block_rows_ok (end_rows now a t P rows)"
proof -
  have "distinct (map feature_key (filter (\<lambda>r. bk_lifted r = None) (end_rows now a t P rows)))"
    unfolding end_rows_def
  proof (rule open_keys)
    show "distinct (map feature_key (filter (\<lambda>r. bk_lifted r = None) rows))" using assms by (simp add: block_rows_ok_def)
  qed (simp_all add: feature_key_def split: if_splits)
  then show ?thesis using assms by (simp add: block_rows_ok_def)
qed

lemma end_closed: "closed_for now g u rows \<Longrightarrow> closed_for now g u (end_rows now a t P rows)"
  by (auto simp: closed_for_def end_rows_def)

lemma names_more: "names_feature g u (p # ps) r \<longleftrightarrow> names_feature g u ps r \<or> names_feature g u [p] r"
  by (auto simp: names_feature_def)

lemma end_twice:
  "end_rows now a t (names_feature g u ps) (end_rows now a t (names_feature g u [p]) rows) =
   end_rows now a t (names_feature g u (p # ps)) rows"
  unfolding end_rows_def map_map comp_def
proof (intro map_cong [OF refl])
  fix r :: block_row
  let ?r = "r\<lparr>bk_lifted := Some now, bk_lifted_by := Some a, bk_lift_reason := Some t\<rparr>"
  have i: "\<not> active_block now ?r" by (simp add: active_block_def)
  show "(if names_feature g u ps (if names_feature g u [p] r \<and> active_block now r then ?r else r) \<and>
        active_block now (if names_feature g u [p] r \<and> active_block now r then ?r else r)
      then (if names_feature g u [p] r \<and> active_block now r then ?r else r)
        \<lparr>bk_lifted := Some now, bk_lifted_by := Some a, bk_lift_reason := Some t\<rparr>
      else if names_feature g u [p] r \<and> active_block now r then ?r else r) =
      (if names_feature g u (p # ps) r \<and> active_block now r then ?r else r)"
    using i names_more [of g u p ps r] by (cases "names_feature g u [p] r"; cases "active_block now r") (simp_all only: if_True if_False simp_thms)
qed

lemma close_ok: "block_rows_ok rows \<Longrightarrow> block_rows_ok (closeEnded now g u rows)"
proof -
  assume r: "block_rows_ok rows"
  have "distinct (map feature_key (filter (\<lambda>r. bk_lifted r = None) (closeEnded now g u rows)))"
    unfolding closeEnded_def
  proof (rule open_keys)
    show "distinct (map feature_key (filter (\<lambda>r. bk_lifted r = None) rows))" using r by (simp add: block_rows_ok_def)
  qed (simp_all add: feature_key_def split: if_splits)
  moreover have "map bk_id (closeEnded now g u rows) = map bk_id rows" by (simp add: closeEnded_def)
  ultimately show ?thesis using r by (simp add: block_rows_ok_def)
qed

lemma close_closed: "closed_for now g u (closeEnded now g u rows)"
  unfolding closed_for_def closeEnded_def set_map ball_simps
  by (intro ballI) (auto simp: active_block_def split: option.split)

lemma positive_seconds: "duration_seconds x = Some s \<Longrightarrow> s > 0"
  by (cases x) auto

lemma new_block_simps [simp]:
  "bk_id (new_block w a u t s p) = mq_row w p" "bk_guild (new_block w a u t s p) = act_guild a"
  "bk_user (new_block w a u t s p) = u" "bk_permission (new_block w a u t s p) = permission_name p"
  "bk_lifted (new_block w a u t s p) = None" "bk_level (new_block w a u t s p) = level_of a"
  "bk_reason (new_block w a u t s p) = t" "bk_actor (new_block w a u t s p) = act_user a"
  "bk_expires (new_block w a u t s p) = map_option (\<lambda>s. mq_now w + 1000 * int s) s"
  "bk_created (new_block w a u t s p) = mq_now w" "bk_lifted_by (new_block w a u t s p) = None"
  "bk_lift_reason (new_block w a u t s p) = None"
  by (simp_all add: new_block_def)

lemma pause_one_rows:
  assumes "pause_one w a u t s p (rep, rows) = Inr (rep', rows')" "block_rows_ok rows"
  shows "rows' = end_rows (mq_now w) (act_user a) REPLACED (names_feature (act_guild a) u [p]) rows @ [new_block w a u t s p]"
    "level_of a = ModeratorLevel \<Longrightarrow> \<forall>r \<in> set rows. names_feature (act_guild a) u [p] r \<and> active_block (mq_now w) r \<longrightarrow> bk_level r \<noteq> ManagerLevel"
proof -
  let ?n = "names_feature (act_guild a) u [p]"
  have "rows' = end_rows (mq_now w) (act_user a) REPLACED ?n rows @ [new_block w a u t s p] \<and>
    (level_of a = ModeratorLevel \<longrightarrow> (\<forall>r \<in> set rows. ?n r \<and> active_block (mq_now w) r \<longrightarrow> bk_level r \<noteq> ManagerLevel))"
  proof (cases "open_block (mq_now w) (act_guild a) u p rows")
    case None
    then show ?thesis using assms(1) end_none [of rows ?n] open_block_None [of "mq_now w" "act_guild a" u p rows]
      by (auto simp: pause_one_def)
  next
    case (Some r)
    note o = open_block_Some [OF Some]
    have only: "x = r" if x: "x \<in> set rows" "?n x" "active_block (mq_now w) x" for x
    proof -
      have "feature_key x = feature_key r" using x(2) o by (simp add: feature_key_def names_feature_def)
      then show ?thesis
        using distinct_filter_eq [of feature_key "\<lambda>r. bk_lifted r = None" rows x r] assms(2) x o(1,5) active_open
        by (auto simp: block_rows_ok_def)
    qed
    then show ?thesis
      using assms(1) Some lift_open [OF assms(2) Some] by (auto simp: pause_one_def split: if_splits)
  qed
  then show "rows' = end_rows (mq_now w) (act_user a) REPLACED ?n rows @ [new_block w a u t s p]"
    "level_of a = ModeratorLevel \<Longrightarrow> \<forall>r \<in> set rows. ?n r \<and> active_block (mq_now w) r \<longrightarrow> bk_level r \<noteq> ManagerLevel" by blast+
qed

lemma end_rows_left:
  assumes "r \<in> set (end_rows now a t P rows)" "bk_lifted r = None" shows "\<not> (P r \<and> active_block now r)"
proof -
  obtain x where x: "r = (if P x \<and> active_block now x
      then x\<lparr>bk_lifted := Some now, bk_lifted_by := Some a, bk_lift_reason := Some t\<rparr> else x)"
    using assms(1) unfolding end_rows_def set_map by blast
  show ?thesis using x assms(2) by (cases "P x \<and> active_block now x") auto
qed

lemma add_row_ok:
  assumes "block_rows_ok rows" "closed_for (mq_now w) (act_guild a) u rows" "mq_row w p \<notin> bk_id ` set rows"
  shows "block_rows_ok (end_rows (mq_now w) x y (names_feature (act_guild a) u [p]) rows @ [new_block w a u t s p])"
proof -
  let ?e = "end_rows (mq_now w) x y (names_feature (act_guild a) u [p]) rows"
  have "feature_key r \<noteq> feature_key (new_block w a u t s p)" if r: "r \<in> set ?e" "bk_lifted r = None" for r
  proof
    assume k: "feature_key r = feature_key (new_block w a u t s p)"
    then have "names_feature (act_guild a) u [p] r" by (simp add: feature_key_def names_feature_def)
    moreover have "active_block (mq_now w) r"
      using end_closed [OF assms(2)] r k unfolding closed_for_def by (simp add: feature_key_def)
    moreover have "\<not> (names_feature (act_guild a) u [p] r \<and> active_block (mq_now w) r)"
      using r by (rule end_rows_left)
    ultimately show False by blast
  qed
  then have "feature_key (new_block w a u t s p) \<notin> feature_key ` set (filter (\<lambda>r. bk_lifted r = None) ?e)"
    by (intro notI, elim imageE, simp only: set_filter mem_Collect_eq) blast
  moreover have "mq_row w p \<notin> bk_id ` set ?e" using assms(3) by (metis end_simps(1) list.set_map)
  ultimately show ?thesis using end_rows_ok [OF assms(1)] assms(3) unfolding block_rows_ok_def by simp
qed


text \<open>The loops over the features, as one change of the rows.\<close>

definition fresh_rows :: "mod_world \<Rightarrow> permission_id list \<Rightarrow> block_row list \<Rightarrow> bool" where
  "fresh_rows w ps rows \<longleftrightarrow> inj_on (mq_row w) (set ps) \<and> mq_row w ` set ps \<inter> bk_id ` set rows = {}"

definition paused_rows ::
  "mod_world \<Rightarrow> actor \<Rightarrow> ident \<Rightarrow> text16 \<Rightarrow> nat option \<Rightarrow> permission_id list \<Rightarrow> block_row list \<Rightarrow> block_row list" where
  "paused_rows w a u t s ps rows =
     end_rows (mq_now w) (act_user a) REPLACED (names_feature (act_guild a) u ps) rows @ map (new_block w a u t s) ps"

lemma end_rows_append: "end_rows now a t P (xs @ ys) = end_rows now a t P xs @ end_rows now a t P ys"
  by (simp add: end_rows_def)

lemma end_rows_keep: "\<not> P r \<Longrightarrow> end_rows now a t P [r] = [r]"
  by (simp add: end_rows_def)

lemma names_new: "names_feature (act_guild a) u ps (new_block w a u t s p) \<longleftrightarrow> p \<in> set ps"
  by (auto simp: names_feature_def permission_name_inject)

lemma closed_new:
  assumes "closed_for (mq_now w) (act_guild a) u rows" "s = duration_seconds x"
  shows "closed_for (mq_now w) (act_guild a) u (rows @ [new_block w a u t s p])"
proof -
  have "active_block (mq_now w) (new_block w a u t s p)"
    using assms(2) positive_seconds [of x] by (auto simp: active_block_def split: option.splits)
  then show ?thesis using assms(1) unfolding closed_for_def by simp
qed

lemma pause_all_rows:
  assumes "each (pause_one w a u t s) ps (rep, rows) = Inr (rep', rows')" "block_rows_ok rows"
    "closed_for (mq_now w) (act_guild a) u rows" "distinct ps" "fresh_rows w ps rows" "s = duration_seconds x"
  shows "rows' = paused_rows w a u t s ps rows \<and> block_rows_ok rows' \<and>
    (level_of a = ModeratorLevel \<longrightarrow>
       (\<forall>r \<in> set rows. names_feature (act_guild a) u ps r \<and> active_block (mq_now w) r \<longrightarrow> bk_level r \<noteq> ManagerLevel))"
  using assms
proof (induction ps arbitrary: rep rows)
  case Nil
  then show ?case by (auto simp: paused_rows_def names_feature_def end_none)
next
  case (Cons p ps)
  obtain rep1 rows1 where one: "pause_one w a u t s p (rep, rows) = Inr (rep1, rows1)"
      and rest: "each (pause_one w a u t s) ps (rep1, rows1) = Inr (rep', rows')"
    using Cons.prems(1) by (auto simp: and_then_Inr_iff)
  note o = pause_one_rows [OF one Cons.prems(2)]
  let ?e = "end_rows (mq_now w) (act_user a) REPLACED (names_feature (act_guild a) u [p]) rows"
  have ids: "bk_id ` set rows1 = insert (mq_row w p) (bk_id ` set rows)"
    unfolding o(1) using end_simps(1) by (metis Un_insert_right append_Nil2 image_set list.simps(15) map_append new_block_simps(1)
        set_append sup_bot.right_neutral list.map(1,2))
  have ok1: "block_rows_ok rows1" unfolding o(1) using Cons.prems(2,3,5) by (intro add_row_ok) (auto simp: fresh_rows_def)
  have cl1: "closed_for (mq_now w) (act_guild a) u rows1"
    unfolding o(1) by (rule closed_new [OF end_closed [OF Cons.prems(3)] Cons.prems(6)])
  have fr1: "fresh_rows w ps rows1"
    using Cons.prems(4,5) unfolding fresh_rows_def ids by (auto simp: inj_on_def)
  have ps: "distinct ps" using Cons.prems(4) by simp
  have ih: "rows' = paused_rows w a u t s ps rows1 \<and> block_rows_ok rows' \<and>
    (level_of a = ModeratorLevel \<longrightarrow>
       (\<forall>r \<in> set rows1. names_feature (act_guild a) u ps r \<and> active_block (mq_now w) r \<longrightarrow> bk_level r \<noteq> ManagerLevel))"
    by (rule Cons.IH [OF rest ok1 cl1 ps fr1 Cons.prems(6)])
  have "paused_rows w a u t s ps rows1 = paused_rows w a u t s (p # ps) rows"
    using Cons.prems(4) unfolding paused_rows_def o(1) end_rows_append
    by (simp add: end_twice end_rows_keep names_new)
  moreover have "bk_level r \<noteq> ManagerLevel" if m: "level_of a = ModeratorLevel" and r: "r \<in> set rows"
      "names_feature (act_guild a) u (p # ps) r" "active_block (mq_now w) r" for r
  proof (cases "names_feature (act_guild a) u [p] r")
    case True
    then show ?thesis using o(2) [OF m] r by blast
  next
    case False
    then have "r \<in> set rows1" unfolding o(1) end_rows_def using r(1) by force
    then show ?thesis using ih m r names_more [of "act_guild a" u p ps r] False by blast
  qed
  ultimately show ?case using ih by blast
qed

lemma lift_all_rows:
  assumes "each (lift_one w a u t) ps ((l, n), rows) = Inr ((l', n'), rows')" "block_rows_ok rows"
  shows "rows' = end_rows (mq_now w) (act_user a) t (names_feature (act_guild a) u ps) rows \<and> block_rows_ok rows' \<and>
    (level_of a = ModeratorLevel \<longrightarrow>
       (\<forall>r \<in> set rows. names_feature (act_guild a) u ps r \<and> active_block (mq_now w) r \<longrightarrow> bk_level r \<noteq> ManagerLevel)) \<and>
    set l' \<union> set n' = set l \<union> set n \<union> set ps"
  using assms
proof (induction ps arbitrary: l n rows)
  case Nil
  then show ?case by (auto simp: names_feature_def end_none)
next
  case (Cons p ps)
  obtain l1 n1 rows1 where one: "lift_one w a u t p ((l, n), rows) = Inr ((l1, n1), rows1)"
      and rest: "each (lift_one w a u t) ps ((l1, n1), rows1) = Inr ((l', n'), rows')"
    using Cons.prems(1) by (auto simp: and_then_Inr_iff)
  let ?n = "names_feature (act_guild a) u [p]"
  have o: "rows1 = end_rows (mq_now w) (act_user a) t ?n rows \<and> set l1 \<union> set n1 = set l \<union> set n \<union> {p} \<and>
    (level_of a = ModeratorLevel \<longrightarrow> (\<forall>r \<in> set rows. ?n r \<and> active_block (mq_now w) r \<longrightarrow> bk_level r \<noteq> ManagerLevel))"
  proof (cases "open_block (mq_now w) (act_guild a) u p rows")
    case None
    then show ?thesis using one end_none [of rows ?n] open_block_None [of "mq_now w" "act_guild a" u p rows]
      by (auto simp: lift_one_def)
  next
    case (Some r)
    have only: "x = r" if x: "x \<in> set rows" "?n x" "active_block (mq_now w) x" for x
    proof -
      have "feature_key x = feature_key r" using x(2) open_block_Some [OF Some] by (simp add: feature_key_def names_feature_def)
      then show ?thesis
        using distinct_filter_eq [of feature_key "\<lambda>r. bk_lifted r = None" rows x r] Cons.prems(2) x open_block_Some(1,5) [OF Some] active_open
        by (auto simp: block_rows_ok_def)
    qed
    then show ?thesis
      using one Some lift_open [OF Cons.prems(2) Some] by (auto simp: lift_one_def split: if_splits)
  qed
  have ok1: "block_rows_ok rows1" using o end_rows_ok [OF Cons.prems(2)] by simp
  have ih: "rows' = end_rows (mq_now w) (act_user a) t (names_feature (act_guild a) u ps) rows1 \<and> block_rows_ok rows' \<and>
    (level_of a = ModeratorLevel \<longrightarrow>
       (\<forall>r \<in> set rows1. names_feature (act_guild a) u ps r \<and> active_block (mq_now w) r \<longrightarrow> bk_level r \<noteq> ManagerLevel)) \<and>
    set l' \<union> set n' = set l1 \<union> set n1 \<union> set ps" by (rule Cons.IH [OF rest ok1])
  have "bk_level r \<noteq> ManagerLevel" if m: "level_of a = ModeratorLevel" and r: "r \<in> set rows"
      "names_feature (act_guild a) u (p # ps) r" "active_block (mq_now w) r" for r
  proof (cases "?n r")
    case True
    then show ?thesis using o m r by blast
  next
    case False
    then have "r \<in> set rows1" using o r(1) unfolding end_rows_def by force
    then show ?thesis using ih m r names_more [of "act_guild a" u p ps r] False by blast
  qed
  moreover have "rows' = end_rows (mq_now w) (act_user a) t (names_feature (act_guild a) u (p # ps)) rows"
    using ih o end_twice by simp
  moreover have "set l' \<union> set n' = set l \<union> set n \<union> set (p # ps)" using ih o by auto
  ultimately show ?case using ih by blast
qed


section \<open>The two operations\<close>

lemma close_ids: "map bk_id (closeEnded now g u rows) = map bk_id rows"
  by (simp add: closeEnded_def)

lemma names_set [simp]: "names_feature g u (js_set ps) = names_feature g u ps"
  by (rule ext) (simp add: names_feature_def)

lemma known_keeps: "known g u j d = Inr d' \<Longrightarrow> mo_blocks d' = mo_blocks d"
  by (auto simp: known_def split: option.splits if_splits)

lemma audited_keeps [simp]: "mo_blocks (pauses_audited a x t ps e b d) = mo_blocks d"
  by (simp add: pauses_audited_def)

lemma features_Inr: "features ids = Inr ps \<Longrightarrow> ps = js_set ids \<and> distinct ps \<and> (\<forall>p \<in> set ps. isBlockable p)"
  by (auto simp: features_def Let_def list_all_iff split: if_splits)

lemma block_effect:
  assumes "block w a target ids dur reason d = Inr (r, d')" "block_rows_ok (mo_blocks d)" "fresh_rows w (js_set ids) (mo_blocks d)"
  obtains x why where "dur = Some x" "parse_note (cleanReason reason) LabelReason = Inr why" "target \<noteq> act_user a"
    "\<forall>p \<in> set ids. isBlockable p" "level_of a = ModeratorLevel \<Longrightarrow> set ids \<inter> MANAGER_ONLY_BLOCKS = {}"
    "\<And>s. mq_resolve w (act_guild a) target = Inr s \<Longrightarrow> \<not> acc_manager (act_access s) \<and> (level_of a = ModeratorLevel \<longrightarrow> \<not> isStaff s)"
    "mo_blocks d' = paused_rows w a target why (duration_seconds x) (js_set ids)
       (closeEnded (mq_now w) (act_guild a) target (mo_blocks d))"
    "block_rows_ok (mo_blocks d')"
    "level_of a = ModeratorLevel \<Longrightarrow> \<forall>r \<in> set (closeEnded (mq_now w) (act_guild a) target (mo_blocks d)).
       names_feature (act_guild a) target ids r \<and> active_block (mq_now w) r \<longrightarrow> bk_level r \<noteq> ManagerLevel"
    "br_until r = map_option (\<lambda>s. mq_now w + 1000 * int s) (duration_seconds x)" "can a P_moderation_block"
proof -
  obtain ps why x where asked: "block_asked w a target ids dur reason d = Inr (ps, why, x)"
    and rest: "(case pause_subject w (act_guild a) target of Inl e \<Rightarrow> Inl e
           | Inr subject \<Rightarrow> (case subject_allowed a subject of Inl f \<Rightarrow> Inl (ThrownFailure f)
                | Inr _ \<Rightarrow> (case (if subject = None then Inr None else mq_member w (act_guild a) target) of Inl e \<Rightarrow> Inl e
                     | Inr joined \<Rightarrow> (case block_transaction w a target ps x why joined d of Inl f \<Rightarrow> Inl (ThrownFailure f)
                          | Inr y \<Rightarrow> Inr y)))) = Inr (r, d')"
    using assms(1) by (auto simp: block_def split: sum.splits)
  obtain subject joined where sub: "pause_subject w (act_guild a) target = Inr subject" "subject_allowed a subject = Inr ()"
    and t: "block_transaction w a target ps x why joined d = Inr (r, d')"
    using rest by (auto split: sum.splits)
  have a: "can a P_moderation_block" "features ids = Inr ps" "parse_note (cleanReason reason) LabelReason = Inr why" "dur = Some x"
      "target \<noteq> act_user a" "level_of a = ModeratorLevel \<Longrightarrow> \<not> list_ex (\<lambda>p. p \<in> MANAGER_ONLY_BLOCKS) ps"
    using asked unfolding block_asked_def and_then_Inr_iff
    by (auto simp: requirePermission_Inr_iff split: option.splits if_splits)
  note f = features_Inr [OF a(2)]
  obtain d1 rep rows where k: "known (act_guild a) target joined d = Inr d1"
    and e: "each (pause_one w a target why (duration_seconds x)) ps ([], closeEnded (mq_now w) (act_guild a) target (mo_blocks d1)) = Inr (rep, rows)"
    and d': "mo_blocks d' = rows" "br_until r = map_option (\<lambda>s. mq_now w + 1000 * int s) (duration_seconds x)"
    using t unfolding block_transaction_def by (auto simp: and_then_Inr_iff Let_def split: if_splits)
  let ?c = "closeEnded (mq_now w) (act_guild a) target (mo_blocks d)"
  have ids: "bk_id ` set ?c = bk_id ` set (mo_blocks d)" by (metis close_ids list.set_map)
  have fresh: "fresh_rows w ps ?c" using assms(3) f unfolding fresh_rows_def ids by simp
  have k': "mo_blocks d1 = mo_blocks d" by (rule known_keeps [OF k])
  note res = pause_all_rows [OF e [unfolded k'] close_ok [OF assms(2)] close_closed _ fresh refl]
  have nf: "names_feature g u ps y = names_feature g u ids y" for g u y using f by (simp add: names_feature_def)
  show ?thesis
  proof (rule that [OF a(4,3,5)])
    show "\<forall>p \<in> set ids. isBlockable p" using f by simp
    show "level_of a = ModeratorLevel \<Longrightarrow> set ids \<inter> MANAGER_ONLY_BLOCKS = {}" using a(6) f by (auto simp: list_ex_iff)
    show "mq_resolve w (act_guild a) target = Inr s \<Longrightarrow> \<not> acc_manager (act_access s) \<and> (level_of a = ModeratorLevel \<longrightarrow> \<not> isStaff s)" for s
      using sub by (auto simp: pause_subject_def subject_allowed_def split: if_splits)
    show "mo_blocks d' = paused_rows w a target why (duration_seconds x) (js_set ids) ?c" "block_rows_ok (mo_blocks d')"
      using res f d'(1) by auto
    show "level_of a = ModeratorLevel \<Longrightarrow> \<forall>r \<in> set ?c. names_feature (act_guild a) target ids r \<and> active_block (mq_now w) r \<longrightarrow> bk_level r \<noteq> ManagerLevel"
      using res f unfolding nf by blast
    show "br_until r = map_option (\<lambda>s. mq_now w + 1000 * int s) (duration_seconds x)" by (rule d'(2))
    show "can a P_moderation_block" by (rule a(1))
  qed
qed

lemma lift_effect:
  assumes "lift w a target ids reason d = Inr (r, d')" "block_rows_ok (mo_blocks d)"
  obtains why where "parse_note (cleanReason reason) LabelReason = Inr why" "target \<noteq> act_user a"
    "mo_blocks d' = end_rows (mq_now w) (act_user a) why (names_feature (act_guild a) target ids)
       (closeEnded (mq_now w) (act_guild a) target (mo_blocks d))"
    "block_rows_ok (mo_blocks d')"
    "level_of a = ModeratorLevel \<Longrightarrow> \<forall>r \<in> set (closeEnded (mq_now w) (act_guild a) target (mo_blocks d)).
       names_feature (act_guild a) target ids r \<and> active_block (mq_now w) r \<longrightarrow> bk_level r \<noteq> ManagerLevel"
    "set (lr_lifted r) \<union> set (lr_not_paused r) = set ids" "can a P_moderation_block"
proof -
  obtain ps why l n rows where a: "can a P_moderation_block" "features ids = Inr ps" "parse_note (cleanReason reason) LabelReason = Inr why"
      "target \<noteq> act_user a"
    and e: "each (lift_one w a target why) ps (([], []), closeEnded (mq_now w) (act_guild a) target (mo_blocks d)) = Inr ((l, n), rows)"
    and d': "mo_blocks d' = rows" "lr_lifted r = l" "lr_not_paused r = n"
    using assms(1) unfolding lift_def and_then_Inr_iff by (auto simp: requirePermission_Inr_iff Let_def split: if_splits)
  note f = features_Inr [OF a(2)]
  note res = lift_all_rows [OF e close_ok [OF assms(2)]]
  have ps: "ps = js_set ids" using f by blast
  note res = res [unfolded ps names_set]
  show ?thesis
  proof (rule that [OF a(3,4)])
    show "mo_blocks d' = end_rows (mq_now w) (act_user a) why (names_feature (act_guild a) target ids)
       (closeEnded (mq_now w) (act_guild a) target (mo_blocks d))" unfolding d'(1) using res by (rule conjunct1)
    show "block_rows_ok (mo_blocks d')" unfolding d'(1) using res by (elim conjE)
    show "set (lr_lifted r) \<union> set (lr_not_paused r) = set ids" unfolding d'(2,3) using res by (elim conjE) simp
    show "level_of a = ModeratorLevel \<Longrightarrow> \<forall>r \<in> set (closeEnded (mq_now w) (act_guild a) target (mo_blocks d)).
       names_feature (act_guild a) target ids r \<and> active_block (mq_now w) r \<longrightarrow> bk_level r \<noteq> ManagerLevel"
      using res by (elim conjE) (drule (1) mp)
  qed (rule a(1))
qed

end
