(* ===== verification/ModerationPromises.thy ===== *)
theory ModerationPromises
  imports ModerationHistory
begin

text \<open>
  What the operations on pauses promise over any history of them: rows as \<open>015_member_blocks.sql\<close> wants
  them, kept as written and lifted once; an officer never touches a manager's pause; a pause stops the
  features it names until its end and nothing else; and a person is not told who paused them.
\<close>

section \<open>Histories\<close>

inductive pause_write :: "mod_world \<Rightarrow> actor \<Rightarrow> mod_db \<Rightarrow> mod_db \<Rightarrow> bool" where
  Blocked: "pause_write w a d d'"
    if "block w a target ids duration reason d = Inr (r, d')" "fresh_rows w (js_set ids) (mo_blocks d)"
| Lifted: "pause_write w a d d'" if "lift w a target ids reason d = Inr (r, d')"

inductive mod_step :: "mod_db \<Rightarrow> mod_db \<Rightarrow> bool" where
  Wrote: "mod_step d d'" if "pause_write w a d d'"
| Elsewhere: "mod_step d d'" if "mo_blocks d' = mo_blocks d"

text \<open>What one row may hold.\<close>

definition pause_row_ok :: "block_row \<Rightarrow> bool" where
  "pause_row_ok r \<longleftrightarrow> bk_user r \<noteq> bk_actor r \<and> bk_lifted_by r \<noteq> Some (bk_user r) \<and>
     (\<exists>p. bk_permission r = permission_name p \<and> isBlockable p \<and>
        (bk_level r = ModeratorLevel \<longrightarrow> p \<notin> MANAGER_ONLY_BLOCKS)) \<and>
     bk_reason r \<noteq> [] \<and> length (bk_reason r) \<le> 1000 \<and>
     (\<forall>t. bk_expires r = Some t \<longrightarrow> t > bk_created r) \<and>
     (bk_lifted r = None \<longrightarrow> bk_lifted_by r = None \<and> bk_lift_reason r = None) \<and>
     (bk_lifted r \<noteq> None \<and> bk_lifted_by r = None \<longrightarrow> bk_lift_reason r = Some EXPIRED) \<and>
     (\<forall>t. bk_lift_reason r = Some t \<longrightarrow> t \<noteq> [] \<and> length t \<le> 1000)"

definition pauses_ok :: "block_row list \<Rightarrow> bool" where
  "pauses_ok rows \<longleftrightarrow> block_rows_ok rows \<and> (\<forall>r \<in> set rows. pause_row_ok r)"

lemma reason_texts: "EXPIRED \<noteq> []" "length EXPIRED \<le> 1000" "REPLACED \<noteq> []" "length REPLACED \<le> 1000"
  by (simp_all add: EXPIRED_def REPLACED_def units_def)

lemma note_lengths: "parse_note x l = Inr t \<Longrightarrow> t \<noteq> [] \<and> length t \<le> 1000"
  unfolding parse_note_Inr_iff by blast

lemma close_rows_ok: "\<forall>r \<in> set rows. pause_row_ok r \<Longrightarrow> \<forall>r \<in> set (closeEnded now g u rows). pause_row_ok r"
  unfolding closeEnded_def set_map ball_simps by (auto simp: pause_row_ok_def reason_texts)

lemma end_rows_rows_ok:
  assumes "\<forall>r \<in> set rows. pause_row_ok r" "\<And>r. P r \<Longrightarrow> bk_user r \<noteq> a" "t \<noteq> []" "length t \<le> 1000"
  shows "\<forall>r \<in> set (end_rows now a t P rows). pause_row_ok r"
  using assms(1) assms(2) [symmetric] assms(3,4) unfolding end_rows_def set_map ball_simps
  by (auto simp: pause_row_ok_def)

lemma new_row_ok:
  assumes "target \<noteq> act_user a" "isBlockable p" "level_of a = ModeratorLevel \<Longrightarrow> p \<notin> MANAGER_ONLY_BLOCKS"
    "t \<noteq> []" "length t \<le> 1000" "s = duration_seconds x"
  shows "pause_row_ok (new_block w a target t s p)"
  using assms positive_seconds [of x] by (auto simp: pause_row_ok_def permission_name_inject split: option.splits)

lemma pause_write_ok:
  assumes "pause_write w a d d'" "pauses_ok (mo_blocks d)"
  shows "pauses_ok (mo_blocks d')"
  using assms(1)
proof cases
  case (Blocked target ids duration reason r)
  note 1 = this
  have ok: "block_rows_ok (mo_blocks d)" "\<forall>r \<in> set (mo_blocks d). pause_row_ok r"
    using assms(2) by (simp_all add: pauses_ok_def)
  obtain x t where e: "parse_note (cleanReason reason) LabelReason = Inr t" "target \<noteq> act_user a"
    "\<forall>p \<in> set ids. isBlockable p" "level_of a = ModeratorLevel \<Longrightarrow> set ids \<inter> MANAGER_ONLY_BLOCKS = {}"
    "mo_blocks d' = paused_rows w a target t (duration_seconds x) (js_set ids)
       (closeEnded (mq_now w) (act_guild a) target (mo_blocks d))" "block_rows_ok (mo_blocks d')"
    by (rule block_effect [OF 1(1) ok(1) 1(2)]) blast
  have "\<forall>r \<in> set (end_rows (mq_now w) (act_user a) REPLACED (names_feature (act_guild a) target (js_set ids))
       (closeEnded (mq_now w) (act_guild a) target (mo_blocks d))). pause_row_ok r"
    by (rule end_rows_rows_ok [OF close_rows_ok [OF ok(2)] _ reason_texts(3,4)]) (use e(2) in \<open>simp add: names_feature_def\<close>)
  moreover have "pause_row_ok (new_block w a target t (duration_seconds x) p)" if "p \<in> set ids" for p
    by (rule new_row_ok [OF e(2) _ _ _ _ refl]) (use that e(3,4) note_lengths [OF e(1)] in auto)
  ultimately show ?thesis using e(6) unfolding pauses_ok_def e(5) paused_rows_def by auto
next
  case (Lifted target ids reason r)
  note 2 = this
  have ok: "block_rows_ok (mo_blocks d)" "\<forall>r \<in> set (mo_blocks d). pause_row_ok r"
    using assms(2) by (simp_all add: pauses_ok_def)
  obtain t where e: "parse_note (cleanReason reason) LabelReason = Inr t" "target \<noteq> act_user a"
    "mo_blocks d' = end_rows (mq_now w) (act_user a) t (names_feature (act_guild a) target ids)
       (closeEnded (mq_now w) (act_guild a) target (mo_blocks d))" "block_rows_ok (mo_blocks d')"
    by (rule lift_effect [OF 2 ok(1)]) blast
  have "\<forall>r \<in> set (mo_blocks d'). pause_row_ok r"
    unfolding e(3) by (rule end_rows_rows_ok [OF close_rows_ok [OF ok(2)]])
      (use e(2) note_lengths [OF e(1)] in \<open>auto simp: names_feature_def\<close>)
  then show ?thesis using e(4) by (simp add: pauses_ok_def)
qed

text \<open>A row kept: as it was, or lifted once.\<close>

definition pause_kept :: "block_row \<Rightarrow> block_row \<Rightarrow> bool" where
  "pause_kept r r' \<longleftrightarrow> (bk_lifted r = None \<or> r' = r) \<and>
     (bk_id r', bk_batch r', bk_guild r', bk_user r', bk_permission r', bk_reason r', bk_level r', bk_actor r',
        bk_created r', bk_expires r') =
     (bk_id r, bk_batch r, bk_guild r, bk_user r, bk_permission r, bk_reason r, bk_level r, bk_actor r,
        bk_created r, bk_expires r)"

definition pauses_kept :: "block_row list \<Rightarrow> block_row list \<Rightarrow> bool" where
  "pauses_kept rows rows' \<longleftrightarrow> list_all2 pause_kept rows (take (length rows) rows')"

lemma pause_kept_refl: "pause_kept r r" by (simp add: pause_kept_def)

lemma pause_kept_trans: "pause_kept r r' \<Longrightarrow> pause_kept r' r'' \<Longrightarrow> pause_kept r r''"
  by (auto simp: pause_kept_def)

lemma pauses_kept_refl: "pauses_kept rows rows"
  by (simp add: pauses_kept_def list_all2_refl pause_kept_refl)

lemma pauses_kept_nth:
  "pauses_kept rows rows' \<longleftrightarrow> length rows \<le> length rows' \<and> (\<forall>i < length rows. pause_kept (rows ! i) (rows' ! i))"
  by (auto simp: pauses_kept_def list_all2_conv_all_nth)

lemma pauses_kept_trans: "pauses_kept a b \<Longrightarrow> pauses_kept b c \<Longrightarrow> pauses_kept a c"
  unfolding pauses_kept_nth using pause_kept_trans by (meson le_trans less_le_trans)

lemma end_rows_nth: "i < length rows \<Longrightarrow> end_rows now a t P rows ! i =
    (if P (rows ! i) \<and> active_block now (rows ! i)
     then (rows ! i)\<lparr>bk_lifted := Some now, bk_lifted_by := Some a, bk_lift_reason := Some t\<rparr> else rows ! i)"
  by (simp add: end_rows_def)

lemma close_nth: "i < length rows \<Longrightarrow> closeEnded now g u rows ! i =
    (if bk_guild (rows ! i) = g \<and> bk_user (rows ! i) = u \<and> bk_lifted (rows ! i) = None \<and>
        (case bk_expires (rows ! i) of None \<Rightarrow> False | Some t \<Rightarrow> t \<le> now)
     then (rows ! i)\<lparr>bk_lifted := Some now, bk_lift_reason := Some EXPIRED\<rparr> else rows ! i)"
  by (simp add: closeEnded_def)

lemma close_length [simp]: "length (closeEnded now g u rows) = length rows"
  by (simp add: closeEnded_def)

lemma pauses_kept_end: "pauses_kept rows (end_rows now a t P rows)"
  unfolding pauses_kept_nth by (auto simp: end_rows_nth pause_kept_def active_block_def)

lemma pauses_kept_close: "pauses_kept rows (closeEnded now g u rows)"
  unfolding pauses_kept_nth by (auto simp: close_nth pause_kept_def)

lemma pauses_kept_append: "pauses_kept rows rows' \<Longrightarrow> pauses_kept rows (rows' @ xs)"
  by (auto simp: pauses_kept_nth nth_append)

lemma pause_write_kept:
  assumes "pause_write w a d d'" "pauses_ok (mo_blocks d)"
  shows "pauses_kept (mo_blocks d) (mo_blocks d')"
  using assms(1)
proof cases
  case (Blocked target ids duration reason r)
  note 1 = this
  show ?thesis
    by (rule block_effect [OF 1(1) _ 1(2)])
      (use assms(2) pauses_kept_trans [OF pauses_kept_close pauses_kept_append [OF pauses_kept_end]] in
        \<open>simp_all add: pauses_ok_def paused_rows_def\<close>)
next
  case (Lifted target ids reason r)
  note 2 = this
  show ?thesis
    by (rule lift_effect [OF 2])
      (use assms(2) pauses_kept_trans [OF pauses_kept_close pauses_kept_end] in \<open>simp_all add: pauses_ok_def\<close>)
qed

lemma mod_steps_ok:
  assumes "rtranclp mod_step d d'" "pauses_ok (mo_blocks d)"
  shows "pauses_ok (mo_blocks d') \<and> pauses_kept (mo_blocks d) (mo_blocks d')"
  using assms
proof (induction rule: rtranclp_induct)
  case base
  then show ?case by (simp add: pauses_kept_refl)
next
  case (step y z)
  have y: "pauses_ok (mo_blocks y)" "pauses_kept (mo_blocks d) (mo_blocks y)" using step by auto
  from step.hyps(2) show ?case
  proof cases
    case (Wrote w a)
    note 1 = this
    show ?thesis using pause_write_ok [OF 1 y(1)] pauses_kept_trans [OF y(2) pause_write_kept [OF 1 y(1)]] by blast
  next
    case Elsewhere
    then show ?thesis using y by simp
  qed
qed

text \<open>What is in force at a moment, as the rows show it.\<close>

definition in_force :: "block_row list \<Rightarrow> int \<Rightarrow> ident \<Rightarrow> ident \<Rightarrow> permission_id \<Rightarrow> pause \<Rightarrow> bool" where
  "in_force rows t guild user p x \<longleftrightarrow>
     (\<exists>r \<in> set rows. names_feature guild user [p] r \<and> active_block t r \<and> pause_of r = x)"

lemma pauses_fold:
  assumes "distinct (map bk_permission rows)"
  shows "foldl (\<lambda>m r. case permission_of_name (bk_permission r) of None \<Rightarrow> m | Some p \<Rightarrow> m(p := Some (pause_of r))) m rows p = Some x
     \<longleftrightarrow> (\<exists>r \<in> set rows. bk_permission r = permission_name p \<and> pause_of r = x) \<or>
        (m p = Some x \<and> (\<forall>r \<in> set rows. bk_permission r \<noteq> permission_name p))"
  using assms
proof (induction rows arbitrary: m)
  case (Cons r rows)
  show ?case
  proof (cases "bk_permission r = permission_name p")
    case True
    then have none: "\<forall>y \<in> set rows. bk_permission y \<noteq> permission_name p" using Cons.prems by (auto simp: image_iff)
    show ?thesis using Cons True none by auto
  next
    case False
    let ?m = "case permission_of_name (bk_permission r) of None \<Rightarrow> m | Some q \<Rightarrow> m(q := Some (pause_of r))"
    have "?m p = m p" using False permission_of_name_Some [of "bk_permission r"] by (auto split: option.split)
    then show ?thesis using Cons False by simp
  qed
qed simp

lemma activeBlocks_Some:
  assumes "block_rows_ok (mo_blocks d)"
  shows "activeBlocks d t g u p = Some x \<longleftrightarrow> in_force (mo_blocks d) t g u p x"
proof -
  let ?rows = "filter (active_block t) (blocks_of g u (mo_blocks d))"
  have open': "distinct (map feature_key (filter (\<lambda>r. bk_lifted r = None) (mo_blocks d)))" (is "distinct (map _ ?open)")
    using assms by (simp add: block_rows_ok_def)
  have sub: "?rows = filter (\<lambda>r. active_block t r \<and> bk_guild r = g \<and> bk_user r = u) ?open"
    by (simp add: blocks_of_def filter_filter conj_ac active_block_def cong: conj_cong)
  have keys: "distinct (map feature_key ?rows)" unfolding sub by (rule distinct_map_filter [OF open'])
  have inj: "inj_on feature_key (set ?rows)" and dr: "distinct ?rows" using keys by (simp_all only: distinct_map)
  have "inj_on bk_permission (set ?rows)"
    by (intro inj_onI, rule inj_onD [OF inj]) (simp_all add: feature_key_def blocks_of_def)
  then have "distinct (map bk_permission ?rows)" using dr by (simp only: distinct_map)
  from pauses_fold [OF this, of "\<lambda>_. None" p x] show ?thesis
    by (auto simp: activeBlocks_def in_force_def names_feature_def blocks_of_def)
qed

lemma in_force_end:
  assumes "\<And>r. names_feature g u [p] r \<Longrightarrow> \<not> P r"
  shows "in_force (end_rows now a why P rows) t g u p x \<longleftrightarrow> in_force rows t g u p x"
  unfolding in_force_def end_rows_def set_map bex_simps
proof (intro bex_cong refl)
  fix r :: block_row
  let ?r = "r\<lparr>bk_lifted := Some now, bk_lifted_by := Some a, bk_lift_reason := Some why\<rparr>"
  have n: "names_feature g u [p] ?r = names_feature g u [p] r" by (simp add: names_feature_def)
  show "(names_feature g u [p] (if P r \<and> active_block now r then ?r else r) \<and>
      active_block t (if P r \<and> active_block now r then ?r else r) \<and>
      pause_of (if P r \<and> active_block now r then ?r else r) = x) =
      (names_feature g u [p] r \<and> active_block t r \<and> pause_of r = x)"
  proof (cases "names_feature g u [p] r")
    case True
    then have "\<not> (P r \<and> active_block now r)" using assms by blast
    then show ?thesis by (simp only: if_False)
  next
    case False
    then show ?thesis using n by (cases "P r \<and> active_block now r") (simp_all only: if_True if_False simp_thms)
  qed
qed

lemma in_force_close:
  assumes "now \<le> t"
  shows "in_force (closeEnded now g' u' rows) t g u p x \<longleftrightarrow> in_force rows t g u p x"
  unfolding in_force_def closeEnded_def set_map bex_simps
proof (intro bex_cong refl)
  fix r :: block_row
  let ?r = "r\<lparr>bk_lifted := Some now, bk_lift_reason := Some EXPIRED\<rparr>"
  let ?c = "bk_guild r = g' \<and> bk_user r = u' \<and> bk_lifted r = None \<and> (case bk_expires r of None \<Rightarrow> False | Some t \<Rightarrow> t \<le> now)"
  have "\<not> active_block t ?r" by (simp add: active_block_def)
  moreover have "?c \<Longrightarrow> \<not> active_block t r" using assms by (auto simp: active_block_def split: option.splits)
  ultimately show "(names_feature g u [p] (if ?c then ?r else r) \<and> active_block t (if ?c then ?r else r) \<and>
      pause_of (if ?c then ?r else r) = x) = (names_feature g u [p] r \<and> active_block t r \<and> pause_of r = x)"
    by (cases ?c) (simp_all only: if_True if_False simp_thms)
qed

lemma none_left:
  assumes "closed_for now g u rows" "p \<in> set ps"
  shows "\<not> in_force (end_rows now a why (names_feature g u ps) rows) t g u p x"
proof
  assume "in_force (end_rows now a why (names_feature g u ps) rows) t g u p x"
  then obtain r where r: "r \<in> set (end_rows now a why (names_feature g u ps) rows)" "names_feature g u [p] r" "active_block t r"
    by (auto simp: in_force_def)
  note o = active_open [OF r(3)]
  have "active_block now r"
    using end_closed [OF assms(1), of a why "names_feature g u ps"] r(1,2) o unfolding closed_for_def names_feature_def by blast
  moreover have "names_feature g u ps r" using r(2) assms(2) by (auto simp: names_feature_def)
  ultimately show False using end_rows_left [OF r(1) o] by blast
qed

lemma in_force_append: "in_force (xs @ ys) t g u p x \<longleftrightarrow> in_force xs t g u p x \<or> in_force ys t g u p x"
  by (auto simp: in_force_def)

lemma in_force_new:
  "in_force (map (new_block w a target why s) ps) t (act_guild a) u p x \<longleftrightarrow>
     u = target \<and> p \<in> set ps \<and> (case map_option (\<lambda>s. mq_now w + 1000 * int s) s of None \<Rightarrow> True | Some e \<Rightarrow> e > t) \<and>
     x = \<lparr>pause_until = map_option (\<lambda>s. mq_now w + 1000 * int s) s, pause_reason = why\<rparr>"
  by (auto simp: in_force_def names_feature_def permission_name_inject active_block_def pause_of_def)


section \<open>Properties\<close>

text \<open>
  (C28) Over any history of pauses and lifts that starts from rows that hold it, the table keeps what
  \<open>015_member_blocks.sql\<close> demands and the application promises: at most one open pause per server, person
  and feature; nobody pauses themselves or lifts their own pause; only features of the member and baseline
  tiers are paused, and mod mail only by a manager; every reason has 1 to 1000 units; an end is after the
  start; and a lifted pause either names who lifted it or says it expired.
\<close>

theorem pause_history:
  assumes "rtranclp mod_step d d'" "pauses_ok (mo_blocks d)"
  shows "pauses_ok (mo_blocks d')"
  using mod_steps_ok [OF assms] by blast

text \<open>
  A pause is written once: over any such history every row stays where it was, with all but its lift
  unchanged, and a lifted row stays exactly as it is. No row is deleted, moved or lifted twice.
\<close>

theorem pauses_are_kept:
  assumes "rtranclp mod_step d d'" "pauses_ok (mo_blocks d)"
  shows "pauses_kept (mo_blocks d) (mo_blocks d')"
  using mod_steps_ok [OF assms] by blast

text \<open>
  (C29) An officer who is no server manager never changes a pause a manager set while it is in force: whatever
  they pause or lift, and for whomever, the row is as it was.
\<close>

theorem officers_never_touch_a_managers_pause:
  assumes "pause_write w a d d'" "pauses_ok (mo_blocks d)" "level_of a = ModeratorLevel"
    "i < length (mo_blocks d)" "bk_level (mo_blocks d ! i) = ManagerLevel" "active_block (mq_now w) (mo_blocks d ! i)"
  shows "mo_blocks d' ! i = mo_blocks d ! i"
proof -
  have ok: "block_rows_ok (mo_blocks d)" using assms(2) by (simp add: pauses_ok_def)
  let ?c = "\<lambda>u. closeEnded (mq_now w) (act_guild a) u (mo_blocks d)"
  have c: "?c u ! i = mo_blocks d ! i" for u
    using assms(4,6) by (auto simp: close_nth active_block_def split: option.splits)
  have m: "?c u ! i \<in> set (?c u)" for u using assms(4) by (simp del: nth_mem add: nth_mem)
  have e: "end_rows now x t (names_feature g u ids) (?c v) ! i = mo_blocks d ! i"
    if "\<not> names_feature g u ids (mo_blocks d ! i)" for now x t g u v ids
    using that assms(4) c [of v] by (simp add: end_rows_nth)
  have n: "\<not> names_feature (act_guild a) u ids (mo_blocks d ! i)"
    if "\<forall>r \<in> set (?c u). names_feature (act_guild a) u ids r \<and> active_block (mq_now w) r \<longrightarrow> bk_level r \<noteq> ManagerLevel" for u ids
    using that m [of u] assms(5,6) unfolding c by blast
  from assms(1) show ?thesis
  proof cases
    case (Blocked target ids duration reason r)
    show ?thesis
    proof (rule block_effect [OF Blocked(1) ok Blocked(2)])
      fix x why
      assume d': "mo_blocks d' = paused_rows w a target why (duration_seconds x) (js_set ids) (?c target)"
        and l: "level_of a = ModeratorLevel \<Longrightarrow> \<forall>r \<in> set (?c target).
          names_feature (act_guild a) target ids r \<and> active_block (mq_now w) r \<longrightarrow> bk_level r \<noteq> ManagerLevel"
      show ?thesis using e [OF n [OF l [OF assms(3)]]] assms(4) unfolding d' paused_rows_def names_set by (simp add: nth_append)
    qed
  next
    case (Lifted target ids reason r)
    show ?thesis
    proof (rule lift_effect [OF Lifted ok])
      fix why
      assume d': "mo_blocks d' = end_rows (mq_now w) (act_user a) why (names_feature (act_guild a) target ids) (?c target)"
        and l: "level_of a = ModeratorLevel \<Longrightarrow> \<forall>r \<in> set (?c target).
          names_feature (act_guild a) target ids r \<and> active_block (mq_now w) r \<longrightarrow> bk_level r \<noteq> ManagerLevel"
      show ?thesis unfolding d' by (rule e [OF n [OF l [OF assms(3)]]])
    qed
  qed
qed

text \<open>
  (C27) What a pause does, at every later moment: the features it names are paused for its target until its
  end, for the reason given and whatever was paused before; every other feature of theirs and every feature
  of anyone else is paused exactly as it was.
\<close>

theorem block_takes_effect:
  assumes "block w a target ids duration reason d = Inr (r, d')" "fresh_rows w (js_set ids) (mo_blocks d)"
    "pauses_ok (mo_blocks d)" "mq_now w \<le> t"
  shows "activeBlocks d' t (act_guild a) u p =
    (if u = target \<and> p \<in> set ids
     then (case br_until r of
             None \<Rightarrow> Some \<lparr>pause_until = None, pause_reason = js_trim (cleanReason reason)\<rparr>
           | Some e \<Rightarrow> if t < e then Some \<lparr>pause_until = Some e, pause_reason = js_trim (cleanReason reason)\<rparr> else None)
     else activeBlocks d t (act_guild a) u p)"
proof -
  have ok: "block_rows_ok (mo_blocks d)" using assms(3) by (simp add: pauses_ok_def)
  let ?c = "closeEnded (mq_now w) (act_guild a) target (mo_blocks d)"
  obtain x why where e: "parse_note (cleanReason reason) LabelReason = Inr why"
    "mo_blocks d' = paused_rows w a target why (duration_seconds x) (js_set ids) ?c" "block_rows_ok (mo_blocks d')"
    "br_until r = map_option (\<lambda>s. mq_now w + 1000 * int s) (duration_seconds x)"
    by (rule block_effect [OF assms(1) ok assms(2)]) blast
  have why: "why = js_trim (cleanReason reason)" using e(1) by (simp only: parse_note_Inr_iff)
  let ?new = "\<lambda>y. u = target \<and> p \<in> set ids \<and> (case br_until r of None \<Rightarrow> True | Some e \<Rightarrow> e > t) \<and>
     y = \<lparr>pause_until = br_until r, pause_reason = why\<rparr>"
  have all: "activeBlocks d' t (act_guild a) u p = Some y \<longleftrightarrow>
      in_force (end_rows (mq_now w) (act_user a) REPLACED (names_feature (act_guild a) target ids) ?c) t (act_guild a) u p y \<or> ?new y" for y
    unfolding activeBlocks_Some [OF e(3)] unfolding e(2,4) paused_rows_def names_set in_force_append in_force_new by simp
  show ?thesis
  proof (cases "u = target \<and> p \<in> set ids")
    case True
    then have old: "\<not> in_force (end_rows (mq_now w) (act_user a) REPLACED (names_feature (act_guild a) target ids) ?c) t (act_guild a) u p y" for y
      using none_left [OF close_closed] by blast
    show ?thesis unfolding if_P [OF True]
      by (rule option_ext, unfold all) (use old in \<open>auto simp: True why split: option.split\<close>)
  next
    case False
    then have "in_force (end_rows (mq_now w) (act_user a) REPLACED (names_feature (act_guild a) target ids) ?c) t (act_guild a) u p y
      \<longleftrightarrow> activeBlocks d t (act_guild a) u p = Some y" for y
      unfolding activeBlocks_Some [OF ok]
      by (subst in_force_end) (auto simp: in_force_close [OF assms(4)] names_feature_def permission_name_inject)
    then show ?thesis unfolding if_not_P [OF False] by (intro option_ext, unfold all) (use False in blast)
  qed
qed

text \<open>
  What a lift does, at every later moment: the features it names are not paused for its target any more,
  and everything else is paused exactly as it was.
\<close>

theorem lift_takes_effect:
  assumes "lift w a target ids reason d = Inr (r, d')" "pauses_ok (mo_blocks d)" "mq_now w \<le> t"
  shows "activeBlocks d' t (act_guild a) u p =
    (if u = target \<and> p \<in> set ids then None else activeBlocks d t (act_guild a) u p)"
proof -
  have ok: "block_rows_ok (mo_blocks d)" using assms(2) by (simp add: pauses_ok_def)
  let ?c = "closeEnded (mq_now w) (act_guild a) target (mo_blocks d)"
  obtain why where e: "mo_blocks d' = end_rows (mq_now w) (act_user a) why (names_feature (act_guild a) target ids) ?c"
    "block_rows_ok (mo_blocks d')"
    by (rule lift_effect [OF assms(1) ok]) blast
  show ?thesis
  proof (intro option_ext)
    fix y
    show "activeBlocks d' t (act_guild a) u p = Some y \<longleftrightarrow>
      (if u = target \<and> p \<in> set ids then None else activeBlocks d t (act_guild a) u p) = Some y"
    proof (cases "u = target \<and> p \<in> set ids")
      case True
      then show ?thesis unfolding activeBlocks_Some [OF e(2)] e(1) using none_left [OF close_closed] by auto
    next
      case False
      then show ?thesis unfolding if_not_P [OF False] activeBlocks_Some [OF e(2)] activeBlocks_Some [OF ok] e(1)
        by (subst in_force_end) (auto simp: in_force_close [OF assms(3)] names_feature_def permission_name_inject)
    qed
  qed
qed

text \<open>
  A paused feature is refused: until the end of the pause, whoever is no server manager and holds the
  feature is refused it with the reason they were given and its end, whatever roles they hold, once their
  access is worked out from the tables again.
\<close>

theorem paused_feature_is_refused:
  assumes "block w a target ids duration reason d = Inr (r, d')" "fresh_rows w (js_set ids) (mo_blocks d)"
    "pauses_ok (mo_blocks d)" "p \<in> set ids" "mq_now w \<le> t" "\<And>e. br_until r = Some e \<Longrightarrow> t < e"
    "act_guild b = act_guild a" "act_access b = accessFor False roles (activeBlocks d' t (act_guild a) target)" "holds b p"
  shows "requirePermission b (act_guild a) p m =
    Inl (pausedFailure p \<lparr>pause_until = br_until r, pause_reason = js_trim (cleanReason reason)\<rparr>)"
proof -
  have "activeBlocks d' t (act_guild a) target p =
      Some \<lparr>pause_until = br_until r, pause_reason = js_trim (cleanReason reason)\<rparr>"
    unfolding block_takes_effect [OF assms(1-3,5)] using assms(4,6) by (auto split: option.split)
  then have "pauseOn b p = Some \<lparr>pause_until = br_until r, pause_reason = js_trim (cleanReason reason)\<rparr>"
    using assms(8,9) by (simp add: pauseOn_def holds_def blocked_accessFor accessFor_def Let_def)
  then show ?thesis using assms(7) by (simp add: requirePermission_def requireNotPaused_def authorize_def)
qed

section \<open>What a person is not told\<close>

text \<open>Everything the two pages tell a person, and the tables with the officers behind that person's pauses changed.\<close>

definition own_pages :: "mod_world \<Rightarrow> actor \<Rightarrow> mod_db \<Rightarrow> (failure + pause_status) \<times> (failure + pause_overview)" where
  "own_pages w a d = (status w a (act_user a) d, overview w a d)"

definition officers_changed ::
  "ident \<Rightarrow> (block_row \<Rightarrow> ident \<times> issuer_level \<times> ident option \<times> text16 option) \<Rightarrow> block_row \<Rightarrow> block_row" where
  "officers_changed user f r =
     (if bk_user r \<noteq> user then r
      else (case f r of (actor, level, lifter, why) \<Rightarrow>
        r\<lparr>bk_actor := actor, bk_level := level, bk_lifted_by := lifter, bk_lift_reason := why\<rparr>))"

lemma changed_simps [simp]:
  "bk_user (officers_changed u f r) = bk_user r" "bk_guild (officers_changed u f r) = bk_guild r"
  "bk_created (officers_changed u f r) = bk_created r" "active_block now (officers_changed u f r) = active_block now r"
  "pause_ended now (officers_changed u f r) = pause_ended now r"
  by (auto simp: officers_changed_def active_block_def pause_ended_def split: prod.split option.split)

lemma changed_other [simp]: "bk_user r \<noteq> u \<Longrightarrow> officers_changed u f r = r"
  by (simp add: officers_changed_def)

lemma view_changed:
  assumes "active_block now r"
  shows "view_pause now False (officers_changed u f r) = view_pause now False r"
  using assms by (auto simp: officers_changed_def view_pause_def active_block_def Let_def split: prod.split option.split)

lemma insort_key_map: "(\<And>x. k (f x) = k x) \<Longrightarrow> insort_key k (f x) (map f xs) = map f (insort_key k x xs)"
  by (induction xs) auto

lemma sort_key_map: "(\<And>x. k (f x) = k x) \<Longrightarrow> sort_key k (map f xs) = map f (sort_key k xs)"
  by (induction xs) (simp_all add: insort_key_map sort_key_def)

lemma newest_changed: "newest bk_created (map (officers_changed u f) rows) = map (officers_changed u f) (newest bk_created rows)"
  by (simp add: newest_def sort_key_map rev_map)

lemma set_newest [simp]: "set (newest k rows) = set rows"
  by (simp add: newest_def)

lemma map_filter_cong_map: "(\<And>x. x \<in> set xs \<Longrightarrow> g (f x) = g x) \<Longrightarrow> List.map_filter g (map f xs) = List.map_filter g xs"
  by (induction xs) (auto simp: List.map_filter_simps split: option.split)

lemma filter_map_same: "(\<And>x. P (f x) = P x) \<Longrightarrow> filter P (map f xs) = map f (filter P xs)"
  by (induction xs) auto

lemma map_officers_other: "\<forall>r \<in> set rows. bk_user r \<noteq> u \<Longrightarrow> map (officers_changed u f) rows = rows"
  by (intro map_idI) simp

text \<open>
  A person is never told who paused them or who lifted it: whatever officer, level, lifter and lift
  reason stand behind their own pauses, their own status and the whole server's overview, if they may read
  it, say exactly the same.
\<close>

theorem own_pauses_hide_officers:
  "own_pages w a (d\<lparr>mo_blocks := map (officers_changed (act_user a) f) (mo_blocks d)\<rparr>) = own_pages w a d"
proof -
  let ?f = "officers_changed (act_user a) f" and ?now = "mq_now w"
  let ?d = "d\<lparr>mo_blocks := map ?f (mo_blocks d)\<rparr>"
  let ?mine = "filter (active_block ?now) (blocks_of (act_guild a) (act_user a) (mo_blocks d))"
  let ?server = "filter (\<lambda>r. bk_guild r = act_guild a) (mo_blocks d)"
  let ?others = "\<lambda>r. bk_user r \<noteq> act_user a \<and> pause_ended ?now r"
  have mine: "filter (active_block ?now) (blocks_of (act_guild a) (act_user a) (map ?f (mo_blocks d))) = map ?f ?mine"
    by (simp add: blocks_of_def filter_map_same)
  have s: "List.map_filter (view_pause ?now False) (newest bk_created (map ?f ?mine)) =
      List.map_filter (view_pause ?now False) (newest bk_created ?mine)"
    unfolding newest_changed by (rule map_filter_cong_map) (simp add: view_changed)
  have server: "filter (\<lambda>r. bk_guild r = act_guild a) (map ?f (mo_blocks d)) = map ?f ?server"
    by (rule filter_map_same) simp
  have ended: "filter ?others (map ?f ?server) = filter ?others ?server"
    by (subst filter_map_same) (auto intro!: map_officers_other)
  have act: "newest bk_created (filter (active_block ?now) (map ?f ?server)) = map ?f (newest bk_created (filter (active_block ?now) ?server))"
    by (simp add: filter_map_same newest_changed)
  have v: "view_pause ?now (bk_user (?f r) \<noteq> act_user a) (?f r) = view_pause ?now (bk_user r \<noteq> act_user a) r"
    if "active_block ?now r" for r
    using view_changed [OF that] by (cases "bk_user r = act_user a") simp_all
  have o: "List.map_filter (\<lambda>r. view_pause ?now (bk_user r \<noteq> act_user a) r)
      (take n (take m (map ?f (newest bk_created (filter (active_block ?now) ?server))))) =
    List.map_filter (\<lambda>r. view_pause ?now (bk_user r \<noteq> act_user a) r)
      (take n (take m (newest bk_created (filter (active_block ?now) ?server))))" for n m
    unfolding take_map by (rule map_filter_cong_map, rule v) (auto dest!: in_set_takeD)
  have "status w a (act_user a) ?d = status w a (act_user a) d"
    by (simp add: status_def Let_def mine s)
  moreover have b: "mo_blocks ?d = map ?f (mo_blocks d)" by simp
  moreover have "overview w a ?d = overview w a d"
    by (simp only: overview_def Let_def b server ended act o length_take length_map)
  ultimately show ?thesis by (simp add: own_pages_def)
qed


section \<open>A sample history\<close>

definition ms_guild :: guild_row where
  "ms_guild = \<lparr>gd_id = ''g'', gd_active = True, gd_revision = 1, gd_fc = None, gd_ledger_channel = None,
     gd_effects = True, gd_member_role = None, gd_guest_role = None, gd_apps_enabled = False,
     gd_apps_channel = None, gd_access_policy = False\<rparr>"

definition ms_user :: user_row where
  "ms_user = \<lparr>gu_guild = ''g'', gu_user = ''u'', gu_present = True, gu_joined = Some 5, gu_imported = False,
     gu_primary = None, gu_nick_enabled = False, gu_nick_baseline = False, gu_nick_pending = False,
     gu_nick_restore = False, gu_nick_suspended = False, gu_local_loss = False\<rparr>"

definition ms_actor :: "ident \<Rightarrow> access \<Rightarrow> actor" where
  "ms_actor user x = \<lparr>act_guild = ''g'', act_user = user, act_manage_roles = False, act_server_manager = None,
     act_role_ids = None, act_access = x, act_member = None, act_guest = None, act_bot_administrator = None,
     act_timed_out = None\<rparr>"

definition ms_officer :: "bool \<Rightarrow> actor" where
  "ms_officer manager = ms_actor ''o'' \<lparr>acc_manager = manager, acc_roles = [],
     acc_permissions = {P_moderation_block, P_moderation_view}, acc_blocked = (\<lambda>_. None)\<rparr>"

definition ms_person :: "(permission_id \<Rightarrow> pause option) \<Rightarrow> actor" where
  "ms_person pauses = ms_actor ''u'' (accessFor False [MemberRole] pauses)"

definition ms_world :: "int \<Rightarrow> string \<Rightarrow> mod_world" where
  "ms_world now row = \<lparr>mq_now = now, mq_stopping = False, mq_stopping_begin = False, mq_stopping_end = False,
     mq_resolve = (\<lambda>_ _. Inr (ms_person (\<lambda>_. None))), mq_member = (\<lambda>_ _. Inr (Some 5)), mq_batch = ''b'',
     mq_row = (\<lambda>p. row @ permission_name p)\<rparr>"

definition ms_start :: mod_db where
  "ms_start = \<lparr>mo_guilds = [ms_guild], mo_accounts = [''u''], mo_users = [ms_user], mo_blocks = [], mo_audit = []\<rparr>"

definition ms_text :: text16 where "ms_text = [115, 112, 97, 109]"

lemma ms_world_simps [simp]:
  "mq_now (ms_world now row) = now" "\<not> mq_stopping (ms_world now row)" "\<not> mq_stopping_begin (ms_world now row)"
  "\<not> mq_stopping_end (ms_world now row)" "mq_resolve (ms_world now row) g u = Inr (ms_person (\<lambda>_. None))"
  "mq_member (ms_world now row) g u = Inr (Some 5)"
  by (simp_all add: ms_world_def)

lemma ms_officer_simps [simp]:
  "act_guild (ms_officer m) = ''g''" "act_user (ms_officer m) = ''o''"
  "requirePermission (ms_officer m) ''g'' P_moderation_block None = Inr ()"
  "level_of (ms_officer m) = (if m then ManagerLevel else ModeratorLevel)"
  by (simp_all add: ms_officer_def ms_actor_def requirePermission_def requireNotPaused_def pauseOn_def authorize_def
      can_def level_of_def)

lemma ms_person_simps [simp]:
  "act_guild (ms_person x) = ''g''" "act_access (ms_person x) = accessFor False [MemberRole] x" "\<not> isStaff (ms_person x)"
  by (auto simp: ms_person_def ms_actor_def isStaff_iff holds_def mem_accessFor_iff)

lemma ms_note [simp]: "parse_note (cleanReason ms_text) LabelReason = Inr ms_text" "js_trim (cleanReason ms_text) = ms_text"
  by (simp_all add: parse_note_Inr_iff ms_text_def js_trim_def is_js_space_def cleanReason_def is_well_formed.simps)

lemma ms_start_simps [simp]:
  "mo_guilds ms_start = [ms_guild]" "mo_users ms_start = [ms_user]" "mo_blocks ms_start = []"
  by (simp_all add: ms_start_def)

lemma no_pauses_ok [simp]: "pauses_ok []"
  by (simp add: pauses_ok_def block_rows_ok_def)

lemma ms_start_ok: "pauses_ok (mo_blocks ms_start)"
  by simp

lemma ms_guild_of [simp]: "guild_of [ms_guild] (ms_officer m) = Inr ms_guild"
  by (simp add: guild_of_def authorize_def ms_guild_def)

lemma ms_known [simp]: "mo_users d = [ms_user] \<Longrightarrow> known ''g'' ''u'' x d = Inr d"
  by (simp add: known_def ms_user_def)

lemma ms_features [simp]: "isBlockable p \<Longrightarrow> features [p] = Inr [p]"
  by (simp add: features_def js_set_def)

lemma ms_block:
  assumes "mo_guilds d = [ms_guild]" "mo_users d = [ms_user]" "isBlockable p" "p \<notin> MANAGER_ONLY_BLOCKS"
    "m \<or> open_block now ''g'' ''u'' p (closeEnded now ''g'' ''u'' (mo_blocks d)) = None"
  obtains r d' where "block (ms_world now row) (ms_officer m) ''u'' [p] (Some Pause1h) ms_text d = Inr (r, d')"
    "br_until r = Some (now + 3600000)" "mo_guilds d' = [ms_guild]" "mo_users d' = [ms_user]"
proof -
  let ?w = "ms_world now row" and ?a = "ms_officer m" and ?c = "closeEnded now ''g'' ''u'' (mo_blocks d)"
  obtain rep rows where one: "pause_one ?w ?a ''u'' ms_text (Some 3600) p ([], ?c) = Inr (rep, rows)"
  proof (cases "open_block now ''g'' ''u'' p ?c")
    case None
    then show ?thesis using that by (simp add: pause_one_def)
  next
    case (Some r)
    then have m using assms(5) by simp
    then show ?thesis using Some that by (simp add: pause_one_def)
  qed
  have asked: "block_asked ?w ?a ''u'' [p] (Some Pause1h) ms_text d = Inr ([p], ms_text, Pause1h)"
    using assms(1,3,4) by (simp add: block_asked_def)
  have b: "block ?w ?a ''u'' [p] (Some Pause1h) ms_text d =
      Inr (\<lparr>br_target = ''u'', br_permissions = [p], br_duration = Pause1h, br_until = Some (now + 3600000),
             br_replaced = rep, br_batch = mq_batch ?w\<rparr>, pauses_audited ?a ''moderation.block'' ''u'' [p] (Some (now + 3600000)) (Some (mq_batch ?w)) (d\<lparr>mo_blocks := rows\<rparr>))"
    using assms(2) by (simp add: block_def asked pause_subject_def subject_allowed_def block_transaction_def one Let_def)
  show ?thesis by (rule that [OF b]) (use assms(1,2) in \<open>simp_all add: pauses_audited_def\<close>)
qed

text \<open>Two features that may be paused, and rows no pause has yet.\<close>

lemma ms_features_ok [simp]: "isBlockable P_suggest_use" "isBlockable P_ledger_view"
  "P_suggest_use \<notin> MANAGER_ONLY_BLOCKS" "P_ledger_view \<notin> MANAGER_ONLY_BLOCKS"
  by (simp_all add: isBlockable_iff MANAGER_ONLY_BLOCKS_def)

lemma ms_fresh: "row @ permission_name p \<notin> bk_id ` set (mo_blocks d) \<Longrightarrow> fresh_rows (ms_world now row) (js_set [p]) (mo_blocks d)"
  by (simp add: fresh_rows_def ms_world_def)

lemma ms_first:
  obtains r d where "block (ms_world 0 ''x'') (ms_officer True) ''u'' [P_suggest_use] (Some Pause1h) ms_text ms_start = Inr (r, d)"
    "fresh_rows (ms_world 0 ''x'') (js_set [P_suggest_use]) (mo_blocks ms_start)" "br_until r = Some 3600000"
    "mo_guilds d = [ms_guild]" "mo_users d = [ms_user]" "pauses_ok (mo_blocks d)" "mod_step ms_start d"
    "mo_blocks d = [new_block (ms_world 0 ''x'') (ms_officer True) ''u'' ms_text (Some 3600) P_suggest_use]"
proof -
  have f: "fresh_rows (ms_world 0 ''x'') (js_set [P_suggest_use]) (mo_blocks ms_start)" by (rule ms_fresh) simp
  obtain r d where b: "block (ms_world 0 ''x'') (ms_officer True) ''u'' [P_suggest_use] (Some Pause1h) ms_text ms_start = Inr (r, d)"
    "br_until r = Some (0 + 3600000)" "mo_guilds d = [ms_guild]" "mo_users d = [ms_user]"
    by (rule ms_block [of ms_start P_suggest_use True 0 "''x''"]) simp_all
  note w = Blocked [OF b(1) f]
  have rows: "mo_blocks d = [new_block (ms_world 0 ''x'') (ms_officer True) ''u'' ms_text (Some 3600) P_suggest_use]"
    by (rule block_effect [OF b(1) _ f])
      (auto simp: block_rows_ok_def paused_rows_def closeEnded_def end_rows_def js_set_def)
  show thesis using b(2-4) by (intro that [OF b(1) f _ _ _ pause_write_ok [OF w] Wrote [OF w] rows]) simp_all
qed

theorem pause_history_witness:
  "\<exists>d. rtranclp mod_step ms_start d \<and> length (mo_blocks d) = 1 \<and> pauses_ok (mo_blocks d)"
proof -
  obtain d :: mod_db where d: "mod_step ms_start d"
    "mo_blocks d = [new_block (ms_world 0 ''x'') (ms_officer True) ''u'' ms_text (Some 3600) P_suggest_use]"
    by (rule ms_first) blast
  show ?thesis using pause_history [OF r_into_rtranclp [of mod_step, OF d(1)] ms_start_ok] d by auto
qed

lemma ms_lift:
  assumes "mo_guilds d = [ms_guild]" "isBlockable p"
    "m \<or> open_block now ''g'' ''u'' p (closeEnded now ''g'' ''u'' (mo_blocks d)) = None"
  obtains r d' where "lift (ms_world now row) (ms_officer m) ''u'' [p] ms_text d = Inr (r, d')"
proof (cases "open_block now ''g'' ''u'' p (closeEnded now ''g'' ''u'' (mo_blocks d))")
  case None
  then show ?thesis using assms(1,2) that by (simp add: lift_def lift_one_def Let_def)
next
  case (Some r)
  then have m using assms(3) by simp
  then show ?thesis using Some assms(1,2) that by (simp add: lift_def lift_one_def Let_def)
qed

theorem pauses_are_kept_witness:
  "\<exists>d d'. rtranclp mod_step d d' \<and> length (mo_blocks d) = 1 \<and> pauses_kept (mo_blocks d) (mo_blocks d')"
proof -
  obtain d :: mod_db where d: "mo_guilds d = [ms_guild]" "pauses_ok (mo_blocks d)"
    "mo_blocks d = [new_block (ms_world 0 ''x'') (ms_officer True) ''u'' ms_text (Some 3600) P_suggest_use]"
    by (rule ms_first) blast
  obtain r' d' where l: "lift (ms_world 5 ''y'') (ms_officer True) ''u'' [P_suggest_use] ms_text d = Inr (r', d')"
    using ms_lift [OF d(1), of P_suggest_use True 5 "''y''"] by auto
  show ?thesis
    using pauses_are_kept [OF r_into_rtranclp [of mod_step, OF Wrote [OF Lifted [OF l]]] d(2)] Wrote [OF Lifted [OF l]] d(3)
    by (intro exI [of _ d] exI [of _ d']) auto
qed

lemma ms_row: "active_block 10 (new_block (ms_world 0 ''x'') (ms_officer True) ''u'' ms_text (Some 3600) P_suggest_use)"
  by (simp add: active_block_def)

theorem officers_never_touch_a_managers_pause_witness:
  "\<exists>d d'. pause_write (ms_world 10 ''y'') (ms_officer False) d d' \<and> length (mo_blocks d) = 1 \<and>
     bk_level (mo_blocks d ! 0) = ManagerLevel \<and> mo_blocks d' ! 0 = mo_blocks d ! 0"
proof -
  obtain d :: mod_db where d: "mo_guilds d = [ms_guild]" "mo_users d = [ms_user]" "pauses_ok (mo_blocks d)"
    "mo_blocks d = [new_block (ms_world 0 ''x'') (ms_officer True) ''u'' ms_text (Some 3600) P_suggest_use]"
    by (rule ms_first) blast
  have none: "open_block 10 ''g'' ''u'' P_ledger_view (closeEnded 10 ''g'' ''u'' (mo_blocks d)) = None"
    unfolding d(4) open_block_None by (simp add: closeEnded_def names_feature_def permission_name_inject)
  obtain r' d' where b: "block (ms_world 10 ''y'') (ms_officer False) ''u'' [P_ledger_view] (Some Pause1h) ms_text d = Inr (r', d')"
    by (rule ms_block [OF d(1,2) ms_features_ok(2,4), of False 10 "''y''"]) (simp_all add: none)
  have f: "fresh_rows (ms_world 10 ''y'') (js_set [P_ledger_view]) (mo_blocks d)"
    by (rule ms_fresh) (simp add: d(4) ms_world_def)
  note w = Blocked [OF b f]
  have "mo_blocks d' ! 0 = mo_blocks d ! 0"
    by (rule officers_never_touch_a_managers_pause [OF w d(3)]) (simp_all add: d(4) ms_row)
  then show ?thesis using w d(4) by (intro exI [of _ d] exI [of _ d']) simp
qed

theorem block_takes_effect_witness:
  "\<exists>r d. block (ms_world 0 ''x'') (ms_officer True) ''u'' [P_suggest_use] (Some Pause1h) ms_text ms_start = Inr (r, d) \<and>
     activeBlocks d 10 ''g'' ''u'' P_suggest_use = Some \<lparr>pause_until = Some 3600000, pause_reason = ms_text\<rparr> \<and>
     activeBlocks d 3600000 ''g'' ''u'' P_suggest_use = None"
proof -
  obtain r d where b: "block (ms_world 0 ''x'') (ms_officer True) ''u'' [P_suggest_use] (Some Pause1h) ms_text ms_start = Inr (r, d)"
    "fresh_rows (ms_world 0 ''x'') (js_set [P_suggest_use]) (mo_blocks ms_start)" "br_until r = Some 3600000"
    by (rule ms_first) blast
  show ?thesis
    using b(1) block_takes_effect [OF b(1,2) ms_start_ok, of 10 "''u''" P_suggest_use]
      block_takes_effect [OF b(1,2) ms_start_ok, of 3600000 "''u''" P_suggest_use] b(3)
    by auto
qed

theorem lift_takes_effect_witness:
  "\<exists>d r d'. activeBlocks d 10 ''g'' ''u'' P_suggest_use \<noteq> None \<and>
     lift (ms_world 10 ''y'') (ms_officer True) ''u'' [P_suggest_use] ms_text d = Inr (r, d') \<and>
     activeBlocks d' 10 ''g'' ''u'' P_suggest_use = None"
proof -
  obtain d :: mod_db where d: "mo_guilds d = [ms_guild]" "pauses_ok (mo_blocks d)"
    "mo_blocks d = [new_block (ms_world 0 ''x'') (ms_officer True) ''u'' ms_text (Some 3600) P_suggest_use]"
    by (rule ms_first) blast
  have ok: "block_rows_ok (mo_blocks d)" using d(2) by (simp add: pauses_ok_def)
  obtain r' d' where l: "lift (ms_world 10 ''y'') (ms_officer True) ''u'' [P_suggest_use] ms_text d = Inr (r', d')"
    using ms_lift [OF d(1), of P_suggest_use True 10 "''y''"] by auto
  have "in_force (mo_blocks d) 10 ''g'' ''u'' P_suggest_use \<lparr>pause_until = Some 3600000, pause_reason = ms_text\<rparr>"
    using ms_row unfolding d(3) in_force_def by (simp add: names_feature_def pause_of_def)
  then have "activeBlocks d 10 ''g'' ''u'' P_suggest_use \<noteq> None"
    unfolding activeBlocks_Some [OF ok, symmetric] by simp
  moreover have "activeBlocks d' 10 ''g'' ''u'' P_suggest_use = None"
    using lift_takes_effect [OF l d(2), of 10 "''u''" P_suggest_use] by simp
  ultimately show ?thesis using l by blast
qed

theorem paused_feature_is_refused_witness:
  "\<exists>r d. block (ms_world 0 ''x'') (ms_officer True) ''u'' [P_suggest_use] (Some Pause1h) ms_text ms_start = Inr (r, d) \<and>
     requirePermission (ms_person (activeBlocks d 10 ''g'' ''u'')) ''g'' P_suggest_use None =
       Inl (pausedFailure P_suggest_use \<lparr>pause_until = Some 3600000, pause_reason = ms_text\<rparr>)"
proof -
  obtain r d where b: "block (ms_world 0 ''x'') (ms_officer True) ''u'' [P_suggest_use] (Some Pause1h) ms_text ms_start = Inr (r, d)"
    "fresh_rows (ms_world 0 ''x'') (js_set [P_suggest_use]) (mo_blocks ms_start)" "br_until r = Some 3600000"
    by (rule ms_first) blast
  have h: "holds (ms_person x) P_suggest_use" for x
    by (simp add: holds_def mem_accessFor_iff)
  show ?thesis
    using b(1,3) paused_feature_is_refused [OF b(1,2) ms_start_ok, of P_suggest_use 10 "ms_person (activeBlocks d 10 ''g'' ''u'')" "[MemberRole]" None] h
    by auto
qed

end
