(* ===== verification/VisibilityReport.thy ===== *)
theory VisibilityReport
  imports Visibility
begin

text \<open>
  What remains of TaruBot's view once Administrator is off, \<open>src/domain/visibility.ts\<close>: the settings it
  reads, the roles TaruBot keeps, the state of each channel and the report. Administrator is ignored
  throughout, so the value of all permissions together is never read and \<open>0\<close> stands for it.
\<close>

section \<open>Settings\<close>

record visibility_config =
  vf_onboarding :: bool
  vf_ledger :: "ident option"
  vf_notices :: "ident option"
  vf_changelog :: "ident option"
  vf_review :: "ident option"
  vf_applications :: bool
  vf_lobby :: "ident option"
  vf_officer_room :: "ident option"
  vf_member_role :: "ident option"
  vf_guest_role :: "ident option"
  vf_officer_role :: "ident option"
  vf_leader_role :: "ident option"

record visibility_records =
  vr_retired :: "ident list"
  vr_reviews :: "ident list"
  vr_hidden :: "ident list"
  vr_modmail :: bool

definition NO_RECORDS :: visibility_records where
  "NO_RECORDS = \<lparr>vr_retired = [], vr_reviews = [], vr_hidden = [], vr_modmail = False\<rparr>"

record visibility_settings =
  vs_onboarding :: bool
  vs_posting :: "ident list"
  vs_configured :: "ident list"
  vs_accessRoles :: "ident list"
  vs_retired :: "ident list"
  vs_hidden :: "ident list"
  vs_modmail :: bool
  vs_notices :: "ident option"
  vs_officerRole :: "ident option"

definition distinct_values :: "ident option list \<Rightarrow> ident list" where
  "distinct_values values = js_set (List.map_filter (\<lambda>v. v) values)"

definition visibilitySettings :: "visibility_config \<Rightarrow> visibility_records \<Rightarrow> visibility_settings" where
  "visibilitySettings f r =
     (let posting = distinct_values ([vf_ledger f, vf_notices f, vf_changelog f,
            if vf_applications f then vf_review f else None] @ map Some (vr_reviews r))
      in \<lparr>vs_onboarding = vf_onboarding f, vs_posting = posting,
          vs_configured = distinct_values (map Some posting @ [vf_review f, vf_lobby f, vf_officer_room f]),
          vs_accessRoles = distinct_values [vf_member_role f, vf_guest_role f, vf_officer_role f, vf_leader_role f],
          vs_retired = distinct_values (map Some (vr_retired r)), vs_hidden = distinct_values (map Some (vr_hidden r)),
          vs_modmail = vr_modmail r, vs_notices = vf_notices f, vs_officerRole = vf_officer_role f\<rparr>)"

definition POSTING_BITS :: "flag_bits \<Rightarrow> int" where
  "POSTING_BITS P = or_all P POSTING_PERMISSIONS"

definition ONBOARDING_BITS :: "flag_bits \<Rightarrow> int" where
  "ONBOARDING_BITS P = or_all P ONBOARDING_PERMISSIONS"

section \<open>As if Administrator were off\<close>

definition grantsAdministrator :: "flag_bits \<Rightarrow> api_role \<Rightarrow> bool" where
  "grantsAdministrator P r \<longleftrightarrow> ar_permissions r AND P Administrator \<noteq> 0"

text \<open>A \<open>Map\<close> built from the roles keeps the last one of an ID.\<close>

definition asIfRoles :: "flag_bits \<Rightarrow> visibility_guild \<Rightarrow> ident list" where
  "asIfRoles P g = filter (\<lambda>i. Some i = vg_botRole g \<or>
     (case find (\<lambda>r. ar_id r = i) (rev (vg_roles g)) of None \<Rightarrow> True | Some r \<Rightarrow> \<not> grantsAdministrator P r)) (vg_botRoles g)"

definition asIfBase :: "flag_bits \<Rightarrow> visibility_guild \<Rightarrow> int" where
  "asIfBase P g = guildPermissions P 0 (vg_guild g) (vg_roles g) (asIfRoles P g) True"

record as_if =
  ai_roles :: "ident list"
  ai_base :: int

definition asIfView :: "flag_bits \<Rightarrow> visibility_guild \<Rightarrow> as_if" where
  "asIfView P g = \<lparr>ai_roles = asIfRoles P g, ai_base = asIfBase P g\<rparr>"

definition channelBits :: "flag_bits \<Rightarrow> visibility_guild \<Rightarrow> visibility_channel \<Rightarrow> as_if \<Rightarrow> int" where
  "channelBits P g c v = channelPermissions P 0 (vg_guild g) (ai_base v) (vc_overwrites c) (vg_botId g) (ai_roles v) True"

definition ownEntry :: "visibility_guild \<Rightarrow> visibility_channel \<Rightarrow> overwrite option" where
  "ownEntry g c = find (\<lambda>e. ow_type e = OwMember \<and> ow_id e = vg_botId g) (vc_overwrites c)"

definition denies :: "overwrite option \<Rightarrow> int \<Rightarrow> bool" where
  "denies e b = (case e of None \<Rightarrow> False | Some e \<Rightarrow> ow_deny e AND b \<noteq> 0)"

definition VOICE_BASED :: "channel_type \<Rightarrow> bool" where
  "VOICE_BASED t \<longleftrightarrow> t = GuildVoice \<or> t = GuildStageVoice"

definition blocksOnboarding :: "flag_bits \<Rightarrow> visibility_guild \<Rightarrow> visibility_channel \<Rightarrow> bool" where
  "blocksOnboarding P g c \<longleftrightarrow>
     denies (ownEntry g c) (P ManageRoles OR P ManageChannels) \<or>
     VOICE_BASED (vc_type c) \<and> denies (ownEntry g c) (P Connect)"

section \<open>One channel\<close>

datatype channel_state = StVisible | StMissing | StMasked | StHidden | StDenied

record judgement =
  jg_state :: channel_state
  jg_need :: int
  jg_perms :: int
  jg_posting :: bool
  jg_configured :: bool
  jg_readable :: bool
  jg_via :: bool

definition botEntry :: "visibility_guild \<Rightarrow> visibility_channel \<Rightarrow> overwrite option" where
  "botEntry g c = (case vg_botRole g of None \<Rightarrow> None
     | Some r \<Rightarrow> find (\<lambda>e. ow_type e = OwRole \<and> ow_id e = r) (vc_overwrites c))"

text \<open>
  The judgement, given whether the channel's category is hidden on purpose. A category asks about no other
  channel, so the recursion is one deep.
\<close>

definition judge_in ::
  "bool \<Rightarrow> flag_bits \<Rightarrow> visibility_guild \<Rightarrow> visibility_channel \<Rightarrow> visibility_settings \<Rightarrow> as_if \<Rightarrow> judgement" where
  "judge_in hidden P g c s v =
     (let posting = vc_id c \<in> set (vs_posting s);
          configured = vc_id c \<in> set (vs_configured s);
          need = (if posting then POSTING_BITS P else P ViewChannel);
          readable = (\<not> unreadable P g c);
          perms = channelBits P g c v;
          own = ownEntry g c;
          facts = (\<lambda>st via. \<lparr>jg_state = st, jg_need = need, jg_perms = perms, jg_posting = posting,
            jg_configured = configured, jg_readable = readable, jg_via = via\<rparr>)
      in if readable \<and> perms AND need = need
         then facts (if configured \<and> denies own (P ReadMessageHistory) then StMasked else StVisible) False
         else if (if readable then perms AND P ViewChannel = 0 \<and> (denies own (P ViewChannel) \<or> denies (botEntry g c) (P ViewChannel))
                  else vc_id c \<in> set (vs_hidden s))
         then facts (if configured then StDenied else StHidden) False
         else if \<not> configured \<and> own = None \<and> botEntry g c = None \<and> hidden
         then facts StHidden True
         else facts StMissing False)"

definition parent_of :: "visibility_guild \<Rightarrow> visibility_channel \<Rightarrow> visibility_channel option" where
  "parent_of g c = (case vc_parent c of None \<Rightarrow> None | Some i \<Rightarrow> find (\<lambda>x. vc_id x = i) (vg_channels g))"

definition judge ::
  "flag_bits \<Rightarrow> visibility_guild \<Rightarrow> visibility_channel \<Rightarrow> visibility_settings \<Rightarrow> as_if \<Rightarrow> judgement" where
  "judge P g c s v =
     judge_in (\<not> isCategory c \<and>
       (case parent_of g c of None \<Rightarrow> False
        | Some p \<Rightarrow> isCategory p \<and> jg_state (judge_in False P g p s v) = StHidden)) P g c s v"

definition channelState :: "flag_bits \<Rightarrow> visibility_guild \<Rightarrow> visibility_channel \<Rightarrow> visibility_settings \<Rightarrow> channel_state" where
  "channelState P g c s = jg_state (judge P g c s (asIfView P g))"

section \<open>Display order\<close>

definition inCategory :: "ident list \<Rightarrow> visibility_channel \<Rightarrow> bool" where
  "inCategory categories c \<longleftrightarrow> (case vc_parent c of None \<Rightarrow> False | Some p \<Rightarrow> p \<in> set categories)"

definition reportOrder :: "visibility_channel list \<Rightarrow> visibility_channel list" where
  "reportOrder channels =
     (let categories = sort_by byPosition (filter isCategory channels)
      in sort_by byPosition (filter (\<lambda>c. \<not> isCategory c \<and> \<not> inCategory (map vc_id categories) c) channels) @
         concat (map (\<lambda>k. k # sort_by byPosition
            (filter (\<lambda>c. \<not> isCategory c \<and> vc_parent c = Some (vc_id k)) channels)) categories))"

lemma set_reportOrder [simp]: "set (reportOrder channels) = set channels"
  by (auto simp: reportOrder_def inCategory_def Let_def split: option.splits)

section \<open>Roles\<close>

definition grantingRoles :: "visibility_guild \<Rightarrow> int \<Rightarrow> ident list \<Rightarrow> ident list" where
  "grantingRoles g b held = map ar_id (filter (\<lambda>r. ar_id r \<in> set (vg_guild g # held) \<and> ar_permissions r AND b = b)
     (rev (ascendingRoles (vg_roles g))))"

datatype core_source = FromOwnRole | FromOtherRoles | FromEveryone | FromNowhere

record core_row =
  cr_permission :: perm_flag
  cr_source :: core_source
  cr_roles :: "ident list"

definition coreRows :: "flag_bits \<Rightarrow> visibility_guild \<Rightarrow> as_if \<Rightarrow> core_row list" where
  "coreRows P g v = map (\<lambda>p.
     let granting = grantingRoles g (P p) (ai_roles v);
         roles = filter (\<lambda>i. Some i \<noteq> vg_botRole g) granting
     in \<lparr>cr_permission = p,
         cr_source = (if \<exists>i \<in> set granting. Some i = vg_botRole g then FromOwnRole
           else if \<exists>i \<in> set roles. i \<noteq> vg_guild g then FromOtherRoles
           else if vg_guild g \<in> set roles then FromEveryone else FromNowhere),
         cr_roles = roles\<rparr>) CORE_PERMISSIONS"

definition role_index :: "api_role list \<Rightarrow> ident \<Rightarrow> nat option" where
  "role_index ascending i = map_option fst (find (\<lambda>(k, r). ar_id r = i) (rev (enumerate 0 ascending)))"

definition roleOrderOver :: "visibility_guild \<Rightarrow> visibility_settings \<Rightarrow> ident list \<Rightarrow> ident option \<times> ident list" where
  "roleOrderOver g s roles =
     (let ascending = ascendingRoles (vg_roles g);
          top = foldl (\<lambda>h (k, r). if ar_id r \<in> set (vg_guild g # roles) then int k else h) (-1) (enumerate 0 ascending);
          highest = (if top \<ge> 0 \<and> ar_id (ascending ! nat top) \<noteq> vg_guild g then Some (ar_id (ascending ! nat top)) else None);
          heldRetired = filter (\<lambda>r. r \<in> set (vg_heldRoles g)) (vs_retired s)
      in (highest, filter (\<lambda>i. case role_index ascending i of None \<Rightarrow> False | Some k \<Rightarrow> int k \<ge> top)
           (distinct_values (map Some (vs_accessRoles s @ heldRetired)))))"

record role_order =
  ro_highest :: "ident option"
  ro_notBelow :: "ident list"
  ro_throughShared :: "ident list"

definition roleOrder :: "visibility_guild \<Rightarrow> visibility_settings \<Rightarrow> as_if \<Rightarrow> role_order" where
  "roleOrder g s v =
     (let asIf = roleOrderOver g s (ai_roles v); real = roleOrderOver g s (vg_botRoles g)
      in \<lparr>ro_highest = fst asIf, ro_notBelow = snd asIf,
          ro_throughShared = filter (\<lambda>i. i \<notin> set (snd real)) (snd asIf)\<rparr>)"

section \<open>Mentions\<close>

datatype officer_ping =
  PingMissing | PingCannotPost | PingMentionable | PingAllowed | PingServerWide | PingAdministrator | PingSilent

definition officerPing ::
  "flag_bits \<Rightarrow> visibility_guild \<Rightarrow> ident option \<Rightarrow> ident option \<Rightarrow> officer_ping option" where
  "officerPing P g channelId roleId =
     (case (channelId, roleId) of
        (Some ch, Some ro) \<Rightarrow>
          (if ro = vg_guild g then None
           else case find (\<lambda>r. ar_id r = ro) (vg_roles g) of
             None \<Rightarrow> None
           | Some role \<Rightarrow>
               (case find (\<lambda>c. vc_id c = ch) (vg_channels g) of
                  None \<Rightarrow> Some PingMissing
                | Some c \<Rightarrow>
                    (let administrator = (grantingRoles g (P Administrator) (vg_botRoles g) \<noteq> []);
                         v = asIfView P g;
                         bits = channelBits P g c v;
                         fromEntries = channelBits P g c (v\<lparr>ai_base := ai_base v AND NOT (P MentionEveryone)\<rparr>)
                     in Some (if unreadable P g c \<or> bits AND POSTING_BITS P \<noteq> POSTING_BITS P
                              then (if administrator then PingAdministrator else PingCannotPost)
                              else if ar_mentionable role = Some True then PingMentionable
                              else if fromEntries AND P MentionEveryone \<noteq> 0 then PingAllowed
                              else if bits AND P MentionEveryone \<noteq> 0 then PingServerWide
                              else if administrator then PingAdministrator else PingSilent))))
      | _ \<Rightarrow> None)"

definition mentionAllows :: "flag_bits \<Rightarrow> visibility_guild \<Rightarrow> as_if \<Rightarrow> ident list" where
  "mentionAllows P g v = map vc_id (filter (\<lambda>c. \<not> unreadable P g c \<and>
     list_ex (\<lambda>e. (ow_type e = OwMember \<and> ow_id e = vg_botId g \<or>
         ow_type e = OwRole \<and> ow_id e \<in> set (ai_roles v) \<and> ow_id e \<noteq> vg_guild g) \<and>
       ow_allow e AND P MentionEveryone \<noteq> 0) (vc_overwrites c)) (reportOrder (vg_channels g)))"

section \<open>The report\<close>

definition privateSet :: "flag_bits \<Rightarrow> visibility_guild \<Rightarrow> visibility_settings \<Rightarrow> as_if \<Rightarrow> ident list" where
  "privateSet P g s v =
     (if vs_onboarding s then []
      else (let holders = map vc_parent (filter (\<lambda>c. vc_id c \<in> set (vs_configured s)) (vg_channels g))
            in js_set (map vc_id (filter (\<lambda>c. isCategory c \<and> Some (vc_id c) \<in> set holders \<and>
                 jg_state (judge P g c s v) = StMissing) (vg_channels g)))))"

definition privateCategoryIds :: "flag_bits \<Rightarrow> visibility_guild \<Rightarrow> visibility_settings \<Rightarrow> ident list" where
  "privateCategoryIds P g s = privateSet P g s (asIfView P g)"

record private_category =
  pc_id :: ident
  pc_configured :: "ident list"
  pc_inside :: "ident list"

datatype officer_channel = MentionExpected | MentionUnneeded

record report_mentions =
  rm_ping :: "officer_ping option"
  rm_unneeded :: "ident list"
  rm_officer :: "officer_channel option"

record sweep =
  sw_private :: "private_category list"
  sw_categories :: "ident list"
  sw_inside :: "ident list"
  sw_channels :: "ident list"
  sw_posting :: "(ident \<times> perm_flag list) list"
  sw_unreadable :: "ident list"
  sw_masked :: "ident list"
  sw_denied :: "ident list"
  sw_hidden :: "ident list"
  sw_via :: "ident list"

definition NOTHING :: sweep where
  "NOTHING = \<lparr>sw_private = [], sw_categories = [], sw_inside = [], sw_channels = [], sw_posting = [], sw_unreadable = [],
     sw_masked = [], sw_denied = [], sw_hidden = [], sw_via = []\<rparr>"

definition hold :: "visibility_channel \<Rightarrow> judgement \<Rightarrow> private_category \<Rightarrow> private_category" where
  "hold c j h =
     h\<lparr>pc_configured := (if jg_configured j then pc_configured h @ [vc_id c] else pc_configured h),
       pc_inside := (if jg_state j = StMissing \<or> jg_state j = StMasked then pc_inside h @ [vc_id c] else pc_inside h)\<rparr>"

definition sweep_one ::
  "flag_bits \<Rightarrow> visibility_guild \<Rightarrow> visibility_settings \<Rightarrow> as_if \<Rightarrow> ident list \<Rightarrow> sweep \<Rightarrow> visibility_channel \<Rightarrow> sweep" where
  "sweep_one P g s v privateIds w c =
     (if vc_id c \<in> set privateIds
      then w\<lparr>sw_private := (let h = \<lparr>pc_id = vc_id c, pc_configured = [], pc_inside = []\<rparr>
               in if vc_id c \<in> set (map pc_id (sw_private w))
                  then map (\<lambda>x. if pc_id x = vc_id c then h else x) (sw_private w) else sw_private w @ [h])\<rparr>
      else
        (let j = judge P g c s v; i = vc_id c
         in if \<exists>h \<in> set (sw_private w). vc_parent c = Some (pc_id h)
            then (let w = w\<lparr>sw_private := map (\<lambda>h. if vc_parent c = Some (pc_id h) then hold c j h else h) (sw_private w)\<rparr>
                  in if jg_state j = StDenied then w\<lparr>sw_denied := sw_denied w @ [i]\<rparr>
                     else if jg_state j = StHidden then w\<lparr>sw_hidden := sw_hidden w @ [i]\<rparr> else w)
            else
              (case jg_state j of
                 StMasked \<Rightarrow> w\<lparr>sw_masked := sw_masked w @ [i]\<rparr>
               | StDenied \<Rightarrow> w\<lparr>sw_denied := sw_denied w @ [i]\<rparr>
               | StHidden \<Rightarrow> w\<lparr>sw_hidden := sw_hidden w @ [i], sw_via := (if jg_via j then sw_via w @ [i] else sw_via w)\<rparr>
               | StVisible \<Rightarrow> w
               | StMissing \<Rightarrow>
                   (let w = (if isCategory c then w\<lparr>sw_categories := sw_categories w @ [i]\<rparr>
                             else if \<exists>p \<in> set (sw_categories w). vc_parent c = Some p then w\<lparr>sw_inside := sw_inside w @ [i]\<rparr>
                             else w\<lparr>sw_channels := sw_channels w @ [i]\<rparr>);
                        w = (if jg_posting j
                             then w\<lparr>sw_posting := sw_posting w @ [(i, permissionKeys P (NOT (jg_perms j) AND POSTING_BITS P) POSTING_PERMISSIONS)]\<rparr>
                             else w)
                    in if jg_readable j then w else w\<lparr>sw_unreadable := sw_unreadable w @ [i]\<rparr>))))"

record administrator_view =
  av_held :: bool
  av_roles :: "ident list"
  av_shared :: "ident list"

record report_common =
  rc_administrator :: administrator_view
  rc_core :: "core_row list"
  rc_onboardingMissing :: "perm_flag list option"
  rc_neverNeeded :: "(perm_flag \<times> ident list) list"
  rc_mentions :: report_mentions
  rc_order :: role_order

record visibility_report = report_common +
  vt_sweep :: sweep
  vt_pending :: "(ident list \<times> ident list) option"
  vt_missingCount :: nat
  vt_needed :: bool

definition common_report :: "flag_bits \<Rightarrow> visibility_guild \<Rightarrow> visibility_settings \<Rightarrow> as_if \<Rightarrow> report_common" where
  "common_report P g s v =
     (let roles = grantingRoles g (P Administrator) (vg_botRoles g);
          allows = mentionAllows P g v
      in \<lparr>rc_administrator = \<lparr>av_held = (roles \<noteq> []), av_roles = roles,
            av_shared = filter (\<lambda>i. Some i \<noteq> vg_botRole g \<and> i \<noteq> vg_guild g) roles\<rparr>,
          rc_core = coreRows P g v,
          rc_onboardingMissing = (if vs_onboarding s
            then Some (permissionKeys P (NOT (ai_base v) AND ONBOARDING_BITS P) ONBOARDING_PERMISSIONS) else None),
          rc_neverNeeded = filter (\<lambda>row. snd row \<noteq> []) (map (\<lambda>p. (p, filter (\<lambda>i. i \<noteq> vg_guild g)
            (grantingRoles g (P p) (ai_roles v)))) NEVER_NEEDED_PERMISSIONS),
          rc_mentions = \<lparr>rm_ping = (if vs_modmail s then officerPing P g (vs_notices s) (vs_officerRole s) else None),
            rm_unneeded = filter (\<lambda>i. Some i \<noteq> vs_notices s) allows,
            rm_officer = (if \<exists>i \<in> set allows. vs_notices s = Some i
              then Some (if vs_modmail s then MentionExpected else MentionUnneeded) else None)\<rparr>,
          rc_order = roleOrder g s v\<rparr>)"

definition roleProblem :: "report_common \<Rightarrow> bool" where
  "roleProblem r \<longleftrightarrow> list_ex (\<lambda>row. cr_source row = FromNowhere) (rc_core r) \<or>
     (case rc_onboardingMissing r of None \<Rightarrow> False | Some ps \<Rightarrow> ps \<noteq> []) \<or> ro_throughShared (rc_order r) \<noteq> []"

definition excludedChannels :: "visibility_guild \<Rightarrow> ident list" where
  "excludedChannels g =
     (case vg_communityUpdates g of
        None \<Rightarrow> []
      | Some u \<Rightarrow> u # (case find (\<lambda>c. vc_id c = u) (vg_channels g) of None \<Rightarrow> []
          | Some c \<Rightarrow> (case vc_parent c of None \<Rightarrow> [] | Some p \<Rightarrow> if p = [] then [] else [p])))"

definition pending_one ::
  "flag_bits \<Rightarrow> visibility_guild \<Rightarrow> visibility_settings \<Rightarrow> as_if \<Rightarrow> ident list \<times> ident list \<Rightarrow> visibility_channel \<Rightarrow>
   ident list \<times> ident list" where
  "pending_one P g s v acc c =
     (let st = jg_state (judge P g c s v); reached = (st = StVisible \<or> st = StMasked)
      in if vc_id c \<in> set (excludedChannels g)
         then (if \<not> reached \<and> vc_id c \<in> set (vs_configured s) then (fst acc, snd acc @ [vc_id c]) else acc)
         else if \<not> reached \<or> blocksOnboarding P g c then (fst acc @ [vc_id c], snd acc) else acc)"

definition missing_count :: "sweep \<Rightarrow> nat" where
  "missing_count w = length (sw_categories w) + length (sw_inside w) + length (sw_channels w) + length (sw_masked w) +
     length (sw_denied w) + sum_list (map (\<lambda>h. 1 + length (pc_inside h)) (sw_private w))"

definition analyseVisibility :: "flag_bits \<Rightarrow> visibility_guild \<Rightarrow> visibility_settings \<Rightarrow> visibility_report" where
  "analyseVisibility P g s =
     (let v = asIfView P g; r = common_report P g s v; held = av_held (rc_administrator r)
      in if vs_onboarding s
         then (let pending = foldl (pending_one P g s v) ([], []) (reportOrder (vg_channels g))
               in report_common.extend r (visibility_report.fields NOTHING (Some pending) 0
                    (held \<and> (roleProblem r \<or> length (fst pending) + length (snd pending) > 0))))
         else (let w = foldl (sweep_one P g s v (privateSet P g s v)) NOTHING (reportOrder (vg_channels g));
                   count = missing_count w
               in report_common.extend r (visibility_report.fields w None count (held \<and> (count > 0 \<or> roleProblem r)))))"

end
