(* ===== verification/OverridePlan.thy ===== *)
theory OverridePlan
  imports VisibilityReport
begin

text \<open>
  The writes of TaruBot's own entry that make the server work without Administrator, the planner of
  \<open>src/domain/visibility.ts\<close>: the write of one channel, what a synced child copies, the resume rule and the
  plan. \<open>filter(candidate !== entry)\<close> drops the one entry \<open>find\<close> found, which is the first of its shape.
\<close>

record override_entry =
  oe_allow :: int
  oe_deny :: int

record inherit =
  ih_parent :: ident
  ih_before :: "overwrite list"
  ih_after :: override_entry

record override_target =
  ot_channel :: ident
  ot_category :: bool
  ot_posting :: bool
  ot_before :: "override_entry option"
  ot_after :: override_entry
  ot_granted :: int
  ot_masked :: int
  ot_cleared :: int
  ot_inherited :: bool
  ot_unsyncs :: bool

definition VOICE_MASK_TYPES :: "channel_type \<Rightarrow> bool" where
  "VOICE_MASK_TYPES t \<longleftrightarrow> t = GuildVoice \<or> t = GuildStageVoice \<or> t = GuildCategory"

definition overwriteKeys :: "overwrite list \<Rightarrow> ident \<Rightarrow> ((overwrite_type \<times> ident) \<times> int \<times> int) list" where
  "overwriteKeys ows g = fold (\<lambda>e m. if ow_id e = g \<and> ow_allow e = 0 \<and> ow_deny e = 0 then m
     else AList.update (ow_type e, ow_id e) (ow_allow e, ow_deny e) m) ows []"

definition sameOverwriteSet :: "overwrite list \<Rightarrow> overwrite list \<Rightarrow> ident \<Rightarrow> bool" where
  "sameOverwriteSet left right g =
     (let a = overwriteKeys left g; b = overwriteKeys right g
      in length a = length b \<and> list_all (\<lambda>(k, bits). map_of b k = Some bits) a)"

definition parentOverwrites :: "visibility_guild \<Rightarrow> visibility_channel \<Rightarrow> overwrite list option" where
  "parentOverwrites g c = map_option vc_overwrites (parent_of g c)"

record plan_context =
  px_view :: as_if
  px_private :: "ident list"

definition planContext :: "flag_bits \<Rightarrow> visibility_guild \<Rightarrow> visibility_settings \<Rightarrow> plan_context" where
  "planContext P g s = (let v = asIfView P g in \<lparr>px_view = v, px_private = privateSet P g s v\<rparr>)"

definition entry_bits :: "overwrite \<Rightarrow> override_entry" where
  "entry_bits e = \<lparr>oe_allow = ow_allow e, oe_deny = ow_deny e\<rparr>"

definition own_write :: "flag_bits \<Rightarrow> visibility_channel \<Rightarrow> judgement \<Rightarrow> override_entry \<Rightarrow> override_entry" where
  "own_write P c j b =
     (let granted = (if jg_state j = StMasked then 0 else jg_need j AND NOT (jg_perms j))
      in if jg_configured j
         then \<lparr>oe_allow = oe_allow b OR granted, oe_deny = (oe_deny b AND NOT granted) AND NOT (P ReadMessageHistory)\<rparr>
         else (let mask = (if VOICE_MASK_TYPES (vc_type c) then VOICE_DENY_MASK P else DENY_MASK P)
               in \<lparr>oe_allow = (oe_allow b OR granted) AND NOT mask, oe_deny = (oe_deny b AND NOT granted) OR mask\<rparr>))"

definition targetOf ::
  "flag_bits \<Rightarrow> visibility_guild \<Rightarrow> visibility_channel \<Rightarrow> visibility_settings \<Rightarrow> inherit option \<Rightarrow> plan_context \<Rightarrow>
   override_target option" where
  "targetOf P g c s inh x =
     (let j = judge P g c s (px_view x)
      in if \<not> jg_readable j \<or> jg_state j \<noteq> StMissing \<and> jg_state j \<noteq> StMasked then None
         else if vc_id c \<in> set (px_private x) \<or> (\<exists>i \<in> set (px_private x). vc_parent c = Some i) then None
         else
           (let before = map_option entry_bits (ownEntry g c);
                b = (case before of None \<Rightarrow> \<lparr>oe_allow = 0, oe_deny = 0\<rparr> | Some e \<Rightarrow> e);
                lent = (case inh of None \<Rightarrow> None | Some h \<Rightarrow> if vc_parent c = Some (ih_parent h) then Some h else None);
                matchesBefore = (case lent of None \<Rightarrow> False | Some h \<Rightarrow> sameOverwriteSet (vc_overwrites c) (ih_before h) (vg_guild g));
                synced = (matchesBefore \<or> (case parentOverwrites g c of None \<Rightarrow> False
                  | Some ows \<Rightarrow> sameOverwriteSet (vc_overwrites c) ows (vg_guild g)));
                inherited = (matchesBefore \<and> \<not> jg_configured j);
                after = (case lent of Some h \<Rightarrow> if inherited then ih_after h else own_write P c j b | None \<Rightarrow> own_write P c j b);
                matchesParent = (case lent of None \<Rightarrow> False
                  | Some h \<Rightarrow> oe_allow after = oe_allow (ih_after h) \<and> oe_deny after = oe_deny (ih_after h))
            in Some \<lparr>ot_channel = vc_id c, ot_category = isCategory c, ot_posting = jg_posting j, ot_before = before,
                 ot_after = after, ot_granted = oe_allow after AND NOT (oe_allow b),
                 ot_masked = (oe_deny after AND NOT (oe_deny b)) AND VOICE_DENY_MASK P,
                 ot_cleared = (oe_deny b AND NOT (oe_deny after)) AND VOICE_DENY_MASK P,
                 ot_inherited = inherited, ot_unsyncs = synced \<and> \<not> inherited \<and> \<not> matchesParent\<rparr>))"

definition overrideTarget ::
  "flag_bits \<Rightarrow> visibility_guild \<Rightarrow> visibility_channel \<Rightarrow> visibility_settings \<Rightarrow> inherit option \<Rightarrow> override_target option" where
  "overrideTarget P g c s inh = targetOf P g c s inh (planContext P g s)"

definition resumeOf :: "flag_bits \<Rightarrow> visibility_guild \<Rightarrow> visibility_channel \<Rightarrow> visibility_settings \<Rightarrow> as_if \<Rightarrow> inherit option" where
  "resumeOf P g c s v =
     (if \<not> isCategory c \<or> unreadable P g c then None
      else if jg_state (judge P g c s v) \<noteq> StVisible then None
      else case ownEntry g c of
        None \<Rightarrow> None
      | Some e \<Rightarrow>
          if ow_allow e AND P ViewChannel = 0 \<or> ow_deny e AND VOICE_DENY_MASK P \<noteq> VOICE_DENY_MASK P then None
          else Some \<lparr>ih_parent = vc_id c, ih_before = remove1 e (vc_overwrites c), ih_after = entry_bits e\<rparr>)"

definition resumeInherit :: "flag_bits \<Rightarrow> visibility_guild \<Rightarrow> visibility_channel \<Rightarrow> visibility_settings \<Rightarrow> inherit option" where
  "resumeInherit P g c s = resumeOf P g c s (asIfView P g)"

definition inheritFor ::
  "flag_bits \<Rightarrow> visibility_guild \<Rightarrow> visibility_settings \<Rightarrow> plan_context \<Rightarrow> override_target list \<Rightarrow> visibility_channel \<Rightarrow> inherit option" where
  "inheritFor P g s x planned c =
     (case parent_of g c of
        None \<Rightarrow> None
      | Some p \<Rightarrow>
          (case find (\<lambda>t. ot_channel t = vc_id p) (rev planned) of
             Some t \<Rightarrow> Some \<lparr>ih_parent = vc_id p, ih_before = vc_overwrites p, ih_after = ot_after t\<rparr>
           | None \<Rightarrow> resumeOf P g p s (px_view x)))"

definition planned_categories :: "flag_bits \<Rightarrow> visibility_guild \<Rightarrow> visibility_settings \<Rightarrow> override_target list" where
  "planned_categories P g s =
     List.map_filter (\<lambda>c. targetOf P g c s None (planContext P g s)) (sort_by byPosition (filter isCategory (vg_channels g)))"

definition planOverrides :: "flag_bits \<Rightarrow> visibility_guild \<Rightarrow> visibility_settings \<Rightarrow> override_target list" where
  "planOverrides P g s =
     (let x = planContext P g s; categories = planned_categories P g s
      in categories @ List.map_filter (\<lambda>c. targetOf P g c s (inheritFor P g s x categories c) x)
           (filter (\<lambda>c. \<not> isCategory c) (reportOrder (vg_channels g))))"

end
