(* ===== verification/OverridePromises.thy ===== *)
theory OverridePromises
  imports OverridePlan
begin

text \<open>
  What the override plan promises: once its writes are made TaruBot sees every channel the plan names, a
  second plan is empty, the report counts nothing the plan could fix, synced children stay synced, and no
  deliberate deny is written over.
\<close>

section \<open>Writing one entry\<close>

text \<open>Discord's documented PUT of one overwrite: TaruBot's own entry is replaced, or added.\<close>

definition put_own :: "ident \<Rightarrow> override_entry \<Rightarrow> overwrite list \<Rightarrow> overwrite list" where
  "put_own i a ows =
     (if \<exists>e \<in> set ows. ow_type e = OwMember \<and> ow_id e = i
      then map (\<lambda>e. if ow_type e = OwMember \<and> ow_id e = i then e\<lparr>ow_allow := oe_allow a, ow_deny := oe_deny a\<rparr> else e) ows
      else ows @ [\<lparr>ow_id = i, ow_type = OwMember, ow_allow = oe_allow a, ow_deny = oe_deny a\<rparr>])"

definition write_target :: "visibility_guild \<Rightarrow> override_target \<Rightarrow> visibility_channel \<Rightarrow> visibility_channel" where
  "write_target g t c = c\<lparr>vc_overwrites := put_own (vg_botId g) (ot_after t) (vc_overwrites c)\<rparr>"

definition write_all :: "visibility_guild \<Rightarrow> override_target list \<Rightarrow> visibility_guild" where
  "write_all g ts = g\<lparr>vg_channels := map (\<lambda>c. case find (\<lambda>t. ot_channel t = vc_id c) ts of
     None \<Rightarrow> c | Some t \<Rightarrow> write_target g t c) (vg_channels g)\<rparr>"

text \<open>The permissions below TaruBot's own entry, one bit at a time.\<close>

definition below :: "flag_bits \<Rightarrow> visibility_guild \<Rightarrow> visibility_channel \<Rightarrow> as_if \<Rightarrow> nat \<Rightarrow> bool" where
  "below P g c v n =
     ((\<exists>e \<in> set (vc_overwrites c). ow_type e = OwRole \<and> ow_id e \<noteq> vg_guild g \<and> ow_id e \<in> set (ai_roles v) \<and> bit (ow_allow e) n) \<or>
      (entry_layer (find (\<lambda>e. ow_id e = vg_guild g) (vc_overwrites c)) n (bit (ai_base v) n \<and> \<not> bit (P Administrator) n) \<and>
       \<not> (\<exists>e \<in> set (vc_overwrites c). ow_type e = OwRole \<and> ow_id e \<noteq> vg_guild g \<and> ow_id e \<in> set (ai_roles v) \<and> bit (ow_deny e) n)))"

lemma bit_channelBits: "bit (channelBits P g c v) n = entry_layer (ownEntry g c) n (below P g c v n)"
  by (simp add: channelBits_def bit_channelPermissions_ignore decided_bit_def below_def ownEntry_def)

lemma find_map_id: "(\<And>x. p (f x) = p x) \<Longrightarrow> find p (map f xs) = map_option f (find p xs)"
  by (induction xs) auto

lemma find_join: "find p (xs @ ys) = (case find p xs of None \<Rightarrow> find p ys | Some x \<Rightarrow> Some x)"
  by (induction xs) auto

lemma ownEntry_put:
  obtains e where "find (\<lambda>e. ow_type e = OwMember \<and> ow_id e = i) (put_own i a ows) = Some e" "ow_allow e = oe_allow a" "ow_deny e = oe_deny a"
proof (cases "find (\<lambda>e. ow_type e = OwMember \<and> ow_id e = i) ows")
  case (Some e)
  have e: "e \<in> set ows" "ow_type e = OwMember \<and> ow_id e = i" using find_Some_mem [OF Some] by simp_all
  then have ex: "\<exists>e \<in> set ows. ow_type e = OwMember \<and> ow_id e = i" by (rule bexI [rotated])
  have "find (\<lambda>e. ow_type e = OwMember \<and> ow_id e = i) (put_own i a ows) =
      map_option (\<lambda>e. if ow_type e = OwMember \<and> ow_id e = i then e\<lparr>ow_allow := oe_allow a, ow_deny := oe_deny a\<rparr> else e)
        (find (\<lambda>e. ow_type e = OwMember \<and> ow_id e = i) ows)"
    unfolding put_own_def if_P [OF ex] by (rule find_map_id) simp
  then show thesis using that e Some by simp
next
  case None
  then have ex: "\<not> (\<exists>e \<in> set ows. ow_type e = OwMember \<and> ow_id e = i)" by (auto simp: find_None_iff)
  show thesis by (rule that [of "\<lparr>ow_id = i, ow_type = OwMember, ow_allow = oe_allow a, ow_deny = oe_deny a\<rparr>"])
    (unfold put_own_def if_not_P [OF ex], simp_all add: find_join None)
qed

lemma below_put:
  assumes "vg_botId g \<noteq> vg_guild g"
  shows "below P g (c\<lparr>vc_overwrites := put_own (vg_botId g) a (vc_overwrites c)\<rparr>) v n = below P g c v n"
proof -
  let ?o = "put_own (vg_botId g) a (vc_overwrites c)"
  have ex: "(\<exists>e \<in> set ?o. ow_type e = OwRole \<and> Q e) = (\<exists>e \<in> set (vc_overwrites c). ow_type e = OwRole \<and> Q e)" for Q
    unfolding put_own_def by (auto split: if_splits)
  have f: "find (\<lambda>e. ow_id e = vg_guild g) ?o = find (\<lambda>e. ow_id e = vg_guild g) (vc_overwrites c)"
  proof (cases "\<exists>e \<in> set (vc_overwrites c). ow_type e = OwMember \<and> ow_id e = vg_botId g")
    case True
    let ?m = "\<lambda>e. if ow_type e = OwMember \<and> ow_id e = vg_botId g then e\<lparr>ow_allow := oe_allow a, ow_deny := oe_deny a\<rparr> else e"
    have "find (\<lambda>e. ow_id e = vg_guild g) ?o = map_option ?m (find (\<lambda>e. ow_id e = vg_guild g) (vc_overwrites c))"
      unfolding put_own_def if_P [OF True] by (rule find_map_id) simp
    moreover have "?m e = e" if "find (\<lambda>e. ow_id e = vg_guild g) (vc_overwrites c) = Some e" for e
      using that assms by (auto simp: find_Some_iff)
    ultimately show ?thesis by (cases "find (\<lambda>e. ow_id e = vg_guild g) (vc_overwrites c)") simp_all
  next
    case False
    show ?thesis unfolding put_own_def if_not_P [OF False] using assms by (simp add: find_join split: option.split)
  qed
  have o: "vc_overwrites (c\<lparr>vc_overwrites := ?o\<rparr>) = ?o" by simp
  show ?thesis unfolding below_def o f ex ..
qed

lemma bits_put:
  assumes "vg_botId g \<noteq> vg_guild g"
  shows "bit (channelBits P g (c\<lparr>vc_overwrites := put_own (vg_botId g) a (vc_overwrites c)\<rparr>) v) n \<longleftrightarrow>
    bit (oe_allow a) n \<or> (below P g c v n \<and> \<not> bit (oe_deny a) n)"
proof -
  obtain e where e: "find (\<lambda>e. ow_type e = OwMember \<and> ow_id e = vg_botId g) (put_own (vg_botId g) a (vc_overwrites c)) = Some e"
      "ow_allow e = oe_allow a" "ow_deny e = oe_deny a" by (rule ownEntry_put)
  show ?thesis unfolding bit_channelBits below_put [OF assms] by (simp add: ownEntry_def e entry_layer_def)
qed

lemma readable_put:
  assumes "\<not> unreadable P g c"
  shows "\<not> unreadable P g (c\<lparr>vc_overwrites := put_own i a (vc_overwrites c)\<rparr>)"
proof (cases "vc_fetched c")
  case True
  then show ?thesis using assms by (simp add: unreadable_def split: if_splits)
next
  case False
  have "\<not> vc_obfuscated c" using assms by (simp add: unreadable_def split: if_splits)
  moreover have "\<exists>e \<in> set (put_own i a (vc_overwrites c)). ow_type e = OwMember"
    using ownEntry_put [of i a "vc_overwrites c"] by (metis (mono_tags, lifting) find_Some_iff nth_mem)
  ultimately show ?thesis using False
    by (auto simp: unreadable_def split: list.split)
qed

text \<open>What the plan asks of the server and its settings.\<close>

definition plan_ok :: "flag_bits \<Rightarrow> visibility_guild \<Rightarrow> visibility_settings \<Rightarrow> bool" where
  "plan_ok P g s \<longleftrightarrow> flag_bits_ok P \<and> vg_botId g \<noteq> vg_guild g \<and> distinct (map vc_id (vg_channels g)) \<and>
     set (vs_posting s) \<subseteq> set (vs_configured s) \<and>
     (\<forall>c \<in> set (vg_channels g). isCategory c \<longrightarrow> vc_id c \<notin> set (vs_configured s))"

lemma settings_posting: "set (vs_posting (visibilitySettings f r)) \<subseteq> set (vs_configured (visibilitySettings f r))"
  by (auto simp: visibilitySettings_def distinct_values_def Let_def map_filter_def)

lemma judge_facts [simp]:
  "jg_need (judge P g c s v) = (if vc_id c \<in> set (vs_posting s) then POSTING_BITS P else P ViewChannel)"
  "jg_perms (judge P g c s v) = channelBits P g c v" "jg_posting (judge P g c s v) \<longleftrightarrow> vc_id c \<in> set (vs_posting s)"
  "jg_configured (judge P g c s v) \<longleftrightarrow> vc_id c \<in> set (vs_configured s)" "jg_readable (judge P g c s v) \<longleftrightarrow> \<not> unreadable P g c"
  by (simp_all add: judge_def judge_in_def Let_def)

lemma and_eq_iff: "(a::int) AND b = b \<longleftrightarrow> (\<forall>n. bit b n \<longrightarrow> bit a n)"
  by (auto simp: bit_eq_iff bit_simps)

lemma visible_iff:
  "jg_state (judge P g c s v) = StVisible \<longleftrightarrow> \<not> unreadable P g c \<and>
     channelBits P g c v AND jg_need (judge P g c s v) = jg_need (judge P g c s v) \<and>
     \<not> (vc_id c \<in> set (vs_configured s) \<and> denies (ownEntry g c) (P ReadMessageHistory))"
  by (auto simp: judge_def judge_in_def Let_def)

lemma masked_has:
  "jg_state (judge P g c s v) = StMasked \<Longrightarrow> vc_id c \<in> set (vs_configured s) \<and>
     channelBits P g c v AND jg_need (judge P g c s v) = jg_need (judge P g c s v)"
  unfolding judge_facts by (auto simp: judge_def judge_in_def Let_def split: if_splits)

lemma missing_lacks:
  "jg_state (judge P g c s v) = StMissing \<Longrightarrow> \<not> unreadable P g c \<Longrightarrow>
     channelBits P g c v AND jg_need (judge P g c s v) \<noteq> jg_need (judge P g c s v)"
  unfolding judge_facts by (auto simp: judge_def judge_in_def Let_def split: if_splits)

lemma mask_bits: "DENY_MASK P = or_all P [ReadMessageHistory, ManageRoles, ManageChannels, CreateInstantInvite]"
  "VOICE_DENY_MASK P = or_all P [ReadMessageHistory, ManageRoles, ManageChannels, CreateInstantInvite, Connect]"
  by (simp_all add: DENY_MASK_def VOICE_DENY_MASK_def or_all_def or.assoc)

lemma flag_position:
  assumes "flag_bits_ok P"
  shows "\<exists>k. (\<forall>m. bit (P f) m \<longleftrightarrow> m = k) \<and> (\<forall>g. bit (P g) k \<longleftrightarrow> g = f)"
proof -
  obtain pos :: "perm_flag \<Rightarrow> nat" where pos: "inj pos" "\<forall>f. P f = 2 ^ pos f"
    using assms by (auto simp: flag_bits_ok_def)
  show ?thesis by (rule exI [of _ "pos f"]) (use pos in \<open>auto simp: bit_two_power inj_def\<close>)
qed

definition granted_bits :: "judgement \<Rightarrow> int" where
  "granted_bits j = (if jg_state j = StMasked then 0 else jg_need j AND NOT (jg_perms j))"

definition write_mask :: "flag_bits \<Rightarrow> visibility_channel \<Rightarrow> int" where
  "write_mask P c = (if VOICE_MASK_TYPES (vc_type c) then VOICE_DENY_MASK P else DENY_MASK P)"

lemma own_write_eq: "own_write P c j b =
    (if jg_configured j
     then \<lparr>oe_allow = oe_allow b OR granted_bits j, oe_deny = (oe_deny b AND NOT (granted_bits j)) AND NOT (P ReadMessageHistory)\<rparr>
     else \<lparr>oe_allow = (oe_allow b OR granted_bits j) AND NOT (write_mask P c),
            oe_deny = (oe_deny b AND NOT (granted_bits j)) OR write_mask P c\<rparr>)"
  unfolding own_write_def granted_bits_def [symmetric] write_mask_def [symmetric] Let_def ..

lemma own_write_configured:
  assumes "jg_configured j"
  shows "bit (oe_allow (own_write P c j b)) n \<longleftrightarrow> bit (oe_allow b) n \<or> bit (granted_bits j) n"
    "bit (oe_deny (own_write P c j b)) n \<longleftrightarrow> bit (oe_deny b) n \<and> \<not> bit (granted_bits j) n \<and> \<not> bit (P ReadMessageHistory) n"
  using assms by (simp_all add: own_write_eq bits_simps bit_or_iff)

lemma own_write_unconfigured:
  assumes "\<not> jg_configured j"
  shows "bit (oe_allow (own_write P c j b)) n \<longleftrightarrow> (bit (oe_allow b) n \<or> bit (granted_bits j) n) \<and> \<not> bit (write_mask P c) n"
    "bit (oe_deny (own_write P c j b)) n \<longleftrightarrow> (bit (oe_deny b) n \<and> \<not> bit (granted_bits j) n) \<or> bit (write_mask P c) n"
  using assms by (simp_all add: own_write_eq bits_simps bit_or_iff)

text \<open>The write gives every needed bit, whatever is below it, and keeps no history deny where it is needed.\<close>

lemma own_write_bits:
  assumes P: "flag_bits_ok P" and post: "vc_id c \<in> set (vs_posting s) \<Longrightarrow> vc_id c \<in> set (vs_configured s)"
    and st: "jg_state (judge P g c s v) = StMissing \<or> jg_state (judge P g c s v) = StMasked"
    and b: "b = (case map_option entry_bits (ownEntry g c) of None \<Rightarrow> \<lparr>oe_allow = 0, oe_deny = 0\<rparr> | Some e \<Rightarrow> e)"
    and a: "a = own_write P c (judge P g c s v) b" and n: "bit (jg_need (judge P g c s v)) n"
  shows "bit (oe_allow a) n \<or> (below P g c v n \<and> \<not> bit (oe_deny a) n)"
proof -
  let ?j = "judge P g c s v"
  have perms: "bit (channelBits P g c v) n \<longleftrightarrow> bit (oe_allow b) n \<or> (below P g c v n \<and> \<not> bit (oe_deny b) n)"
    unfolding bit_channelBits b by (simp add: entry_layer_def entry_bits_def split: option.split)
  obtain k where k: "\<forall>m. bit (P ViewChannel) m \<longleftrightarrow> m = k" "\<forall>f. bit (P f) k \<longleftrightarrow> f = ViewChannel"
    using flag_position [OF P, of ViewChannel] by (elim exE conjE)
  have granted: "bit (granted_bits ?j) n \<longleftrightarrow> jg_state ?j \<noteq> StMasked \<and> \<not> bit (channelBits P g c v) n"
    using n by (simp add: granted_bits_def bits_simps)
  show ?thesis
  proof (cases "vc_id c \<in> set (vs_configured s)")
    case True
    then have conf: "jg_configured ?j" by simp
    have has: "jg_state ?j = StMasked \<Longrightarrow> bit (channelBits P g c v) n"
      using masked_has [of P g c s v] n unfolding and_eq_iff by blast
    show ?thesis unfolding a own_write_configured [OF conf] using granted has perms by blast
  next
    case False
    then have conf: "\<not> jg_configured ?j" by simp
    have need: "jg_need ?j = P ViewChannel" using post False by auto
    then have nk: "n = k" using n k(1) by simp
    have mask: "\<not> bit (write_mask P c) n" unfolding nk write_mask_def by (simp add: mask_bits bits_simps k(2))
    have "jg_state ?j \<noteq> StMasked" using masked_has [of P g c s v] False by blast
    then show ?thesis unfolding a own_write_unconfigured [OF conf] using granted perms mask by blast
  qed
qed

lemma own_write_history:
  assumes "flag_bits_ok P" "vc_id c \<in> set (vs_configured s)"
  shows "oe_deny (own_write P c (judge P g c s v) b) AND P ReadMessageHistory = 0"
proof -
  have conf: "jg_configured (judge P g c s v)" using assms(2) by simp
  show ?thesis unfolding and_eq_zero_iff own_write_configured [OF conf] by blast
qed

section \<open>The plan\<close>

text \<open>A write that gives all needed bits and no history deny makes the channel visible.\<close>

lemma visible_after:
  assumes P: "vg_botId g \<noteq> vg_guild g" and r: "\<not> unreadable P g c"
    and bits: "\<And>n. bit (jg_need (judge P g c s v)) n \<Longrightarrow> bit (oe_allow a) n \<or> (below P g c v n \<and> \<not> bit (oe_deny a) n)"
    and hist: "vc_id c \<in> set (vs_configured s) \<Longrightarrow> oe_deny a AND P ReadMessageHistory = 0"
  shows "jg_state (judge P g (c\<lparr>vc_overwrites := put_own (vg_botId g) a (vc_overwrites c)\<rparr>) s v) = StVisible"
proof -
  let ?c = "c\<lparr>vc_overwrites := put_own (vg_botId g) a (vc_overwrites c)\<rparr>"
  have id: "vc_id ?c = vc_id c" by simp
  have need: "jg_need (judge P g ?c s v) = jg_need (judge P g c s v)" by simp
  have all: "channelBits P g ?c v AND jg_need (judge P g c s v) = jg_need (judge P g c s v)"
    unfolding and_eq_iff bits_put [OF P] using bits by blast
  obtain e where e: "ownEntry g ?c = Some e" "ow_deny e = oe_deny a"
    using ownEntry_put [of "vg_botId g" a "vc_overwrites c"] by (auto simp: ownEntry_def)
  have "\<not> (vc_id c \<in> set (vs_configured s) \<and> denies (ownEntry g ?c) (P ReadMessageHistory))"
    using hist by (auto simp: e denies_def)
  then show ?thesis unfolding visible_iff need id using readable_put [OF r] all by blast
qed

lemma targetOf_Some:
  assumes "targetOf P g c s inh x = Some t"
  shows "\<not> unreadable P g c" "jg_state (judge P g c s (px_view x)) = StMissing \<or> jg_state (judge P g c s (px_view x)) = StMasked"
    "vc_id c \<notin> set (px_private x)" "\<forall>i \<in> set (px_private x). vc_parent c \<noteq> Some i" "ot_channel t = vc_id c"
    "\<not> ot_inherited t \<Longrightarrow> ot_after t = own_write P c (judge P g c s (px_view x))
       (case map_option entry_bits (ownEntry g c) of None \<Rightarrow> \<lparr>oe_allow = 0, oe_deny = 0\<rparr> | Some e \<Rightarrow> e)"
    "ot_inherited t \<Longrightarrow> vc_id c \<notin> set (vs_configured s) \<and> (\<exists>h. inh = Some h \<and> vc_parent c = Some (ih_parent h) \<and>
       sameOverwriteSet (vc_overwrites c) (ih_before h) (vg_guild g) \<and> ot_after t = ih_after h)"
  using assms unfolding targetOf_def Let_def
  by (auto split: if_splits option.splits)

text \<open>Whether a channel is written does not depend on what it would copy.\<close>

lemma targetOf_None:
  "targetOf P g c s inh x = None \<longleftrightarrow> unreadable P g c \<or>
     jg_state (judge P g c s (px_view x)) \<noteq> StMissing \<and> jg_state (judge P g c s (px_view x)) \<noteq> StMasked \<or>
     vc_id c \<in> set (px_private x) \<or> (\<exists>i \<in> set (px_private x). vc_parent c = Some i)"
  unfolding targetOf_def Let_def judge_facts by simp

text \<open>A category's write, planned or from before, lets TaruBot see whatever copies it.\<close>

lemma unconfigured_view:
  assumes P: "flag_bits_ok P" and t: "targetOf P g c s None x = Some t" and conf: "vc_id c \<notin> set (vs_configured s)"
    and post: "set (vs_posting s) \<subseteq> set (vs_configured s)" and k: "bit (P ViewChannel) k"
  shows "bit (oe_allow (ot_after t)) k"
proof -
  let ?j = "judge P g c s (px_view x)"
  note T = targetOf_Some [OF t]
  have j: "\<not> jg_configured ?j" using conf by simp
  have need: "jg_need ?j = P ViewChannel" using conf post by auto
  obtain k' where k': "\<forall>m. bit (P ViewChannel) m \<longleftrightarrow> m = k'" "\<forall>f. bit (P f) k' \<longleftrightarrow> f = ViewChannel"
    using flag_position [OF P, of ViewChannel] by (elim exE conjE)
  have kk: "k' = k" using k k'(1) by simp
  have mask: "\<not> bit (write_mask P c) k" using k'(2) unfolding kk write_mask_def by (simp add: mask_bits bits_simps)
  have miss: "jg_state ?j = StMissing" using T(2) masked_has [of P g c s "px_view x"] conf by blast
  have "\<not> bit (channelBits P g c (px_view x)) k"
    using missing_lacks [OF miss T(1)] k'(1) unfolding need and_eq_iff kk by simp
  then have "bit (granted_bits ?j) k" using k miss need by (simp add: granted_bits_def bits_simps)
  moreover have "\<not> ot_inherited t" using T(7) by blast
  ultimately show ?thesis unfolding T(6) [OF \<open>\<not> ot_inherited t\<close>] own_write_unconfigured [OF j] using mask by blast
qed

lemma resumed_view:
  assumes "resumeOf P g c s v = Some h" "flag_bits_ok P" "bit (P ViewChannel) k"
  shows "bit (oe_allow (ih_after h)) k"
proof -
  obtain k' where k': "\<forall>m. bit (P ViewChannel) m \<longleftrightarrow> m = k'"
    using flag_position [OF assms(2), of ViewChannel] by (elim exE conjE)
  have "oe_allow (ih_after h) AND P ViewChannel \<noteq> 0"
    using assms(1) by (auto simp: resumeOf_def entry_bits_def split: if_splits option.splits)
  then show ?thesis using k' assms(3) by (auto simp: and_eq_zero_iff)
qed

lemma plan_member:
  assumes "t \<in> set (planOverrides P g s)"
  obtains c inh where "c \<in> set (vg_channels g)" "targetOf P g c s inh (planContext P g s) = Some t"
    "inh = None \<and> isCategory c \<or> \<not> isCategory c \<and> inh = inheritFor P g s (planContext P g s) (planned_categories P g s) c"
proof -
  have "(\<exists>c \<in> set (vg_channels g). isCategory c \<and> targetOf P g c s None (planContext P g s) = Some t) \<or>
    (\<exists>c \<in> set (vg_channels g). \<not> isCategory c \<and> targetOf P g c s (inheritFor P g s (planContext P g s) (planned_categories P g s) c) (planContext P g s) = Some t)"
    using assms by (auto simp: planOverrides_def planned_categories_def Let_def map_filter_def set_sort_by split: if_splits)
  then show thesis using that by blast
qed

lemma planned_category_target:
  assumes "t \<in> set (planned_categories P g s)"
  obtains c where "c \<in> set (vg_channels g)" "isCategory c" "targetOf P g c s None (planContext P g s) = Some t"
  using assms by (auto simp: planned_categories_def map_filter_def set_sort_by split: if_splits)

lemma plan_channel:
  assumes "c \<in> set (vg_channels g)" "targetOf P g c s inh (planContext P g s) \<noteq> None"
  shows "vc_id c \<in> ot_channel ` set (planOverrides P g s)"
proof -
  have some: "targetOf P g c s i (planContext P g s) \<noteq> None" for i using assms(2) by (simp add: targetOf_None)
  show ?thesis
  proof (cases "isCategory c")
    case True
    obtain t where t: "targetOf P g c s None (planContext P g s) = Some t" using some by blast
    then have "t \<in> set (planOverrides P g s)" using True assms(1)
      by (auto simp: planOverrides_def planned_categories_def Let_def map_filter_def set_sort_by intro!: image_eqI [of _ _ c])
    then show ?thesis using targetOf_Some(5) [OF t] by force
  next
    case False
    obtain t where t: "targetOf P g c s (inheritFor P g s (planContext P g s) (planned_categories P g s) c) (planContext P g s) = Some t"
      using some by blast
    then have "t \<in> set (planOverrides P g s)" using False assms(1)
      by (auto simp: planOverrides_def Let_def map_filter_def intro!: image_eqI [of _ _ c])
    then show ?thesis using targetOf_Some(5) [OF t] by force
  qed
qed

lemma px_view_simp [simp]: "px_view (planContext P g s) = asIfView P g"
  by (simp add: planContext_def Let_def)

lemma px_private_simp [simp]: "px_private (planContext P g s) = privateCategoryIds P g s"
  by (simp add: planContext_def privateCategoryIds_def Let_def)

lemma write_all_simps [simp]:
  "vg_guild (write_all g ts) = vg_guild g" "vg_botId (write_all g ts) = vg_botId g" "vg_botRole (write_all g ts) = vg_botRole g"
  "vg_botRoles (write_all g ts) = vg_botRoles g" "vg_roles (write_all g ts) = vg_roles g"
  by (simp_all add: write_all_def)

lemma write_all_view [simp]: "asIfView P (write_all g ts) = asIfView P g"
  by (simp add: asIfView_def asIfBase_def asIfRoles_def)

lemma write_all_reads [simp]:
  "unreadable P (write_all g ts) c = unreadable P g c" "channelBits P (write_all g ts) c v = channelBits P g c v"
  "ownEntry (write_all g ts) c = ownEntry g c" "botEntry (write_all g ts) c = botEntry g c"
  unfolding unreadable_def channelBits_def ownEntry_def botEntry_def write_all_simps by (rule refl)+

lemma write_all_visible [simp]:
  "jg_state (judge P (write_all g ts) c s v) = StVisible \<longleftrightarrow> jg_state (judge P g c s v) = StVisible"
  unfolding visible_iff by simp

lemma inherit_view:
  assumes ok: "plan_ok P g s" and h: "inheritFor P g s (planContext P g s) (planned_categories P g s) c = Some h"
    and k: "bit (P ViewChannel) k"
  shows "bit (oe_allow (ih_after h)) k"
proof -
  have P: "flag_bits_ok P" and post: "set (vs_posting s) \<subseteq> set (vs_configured s)"
    and cat: "\<forall>c \<in> set (vg_channels g). isCategory c \<longrightarrow> vc_id c \<notin> set (vs_configured s)"
    using ok by (simp_all add: plan_ok_def)
  obtain p where p: "parent_of g c = Some p" using h by (auto simp: inheritFor_def split: option.splits)
  show ?thesis
  proof (cases "find (\<lambda>t. ot_channel t = vc_id p) (rev (planned_categories P g s))")
    case None
    then have "resumeOf P g p s (asIfView P g) = Some h" using h p by (simp add: inheritFor_def)
    then show ?thesis by (rule resumed_view [OF _ P k])
  next
    case (Some t)
    then have m: "t \<in> set (planned_categories P g s)" and ht: "ih_after h = ot_after t"
      using h p find_Some_mem [OF Some] by (auto simp: inheritFor_def)
    obtain c' where c': "c' \<in> set (vg_channels g)" "isCategory c'" "targetOf P g c' s None (planContext P g s) = Some t"
      by (rule planned_category_target [OF m])
    show ?thesis unfolding ht by (rule unconfigured_view [OF P c'(3) _ post k]) (use cat c' in blast)
  qed
qed

lemma plan_target_visible:
  assumes ok: "plan_ok P g s" and t: "t \<in> set (planOverrides P g s)" and c: "c \<in> set (vg_channels g)" "ot_channel t = vc_id c"
  shows "jg_state (judge P g (write_target g t c) s (asIfView P g)) = StVisible"
proof -
  have P: "flag_bits_ok P" and bot: "vg_botId g \<noteq> vg_guild g" and post: "set (vs_posting s) \<subseteq> set (vs_configured s)"
    and ids: "distinct (map vc_id (vg_channels g))"
    using ok by (simp_all add: plan_ok_def)
  let ?v = "asIfView P g" and ?x = "planContext P g s"
  obtain c' inh where c': "c' \<in> set (vg_channels g)" "targetOf P g c' s inh ?x = Some t"
    "inh = None \<and> isCategory c' \<or> \<not> isCategory c' \<and> inh = inheritFor P g s ?x (planned_categories P g s) c'"
    by (rule plan_member [OF t])
  note T = targetOf_Some [OF c'(2), unfolded px_view_simp]
  have "inj_on vc_id (set (vg_channels g))" using ids by (simp add: distinct_map)
  then have cc: "c' = c" by (rule inj_onD) (use c c'(1) T(5) in simp_all)
  show ?thesis
    unfolding write_target_def
  proof (rule visible_after [OF bot T(1) [unfolded cc]])
    fix n assume n: "bit (jg_need (judge P g c s ?v)) n"
    show "bit (oe_allow (ot_after t)) n \<or> (below P g c ?v n \<and> \<not> bit (oe_deny (ot_after t)) n)"
    proof (cases "ot_inherited t")
      case False
      show ?thesis
        by (rule own_write_bits [OF P _ T(2) [unfolded cc] refl T(6) [OF False, unfolded cc] n]) (use post in blast)
    next
      case True
      then obtain h where h: "inh = Some h" "ot_after t = ih_after h" "vc_id c \<notin> set (vs_configured s)"
        using T(7) cc by blast
      then have need: "jg_need (judge P g c s ?v) = P ViewChannel" using post by auto
      have "bit (oe_allow (ih_after h)) n" using inherit_view [OF ok, of c h n] c'(3) h(1) n need cc by simp
      then show ?thesis using h(2) by simp
    qed
  next
    assume conf: "vc_id c \<in> set (vs_configured s)"
    then have "\<not> ot_inherited t" using T(7) cc by blast
    then show "oe_deny (ot_after t) AND P ReadMessageHistory = 0"
      using own_write_history [OF P conf] T(6) cc by simp
  qed
qed

text \<open>A channel of the server once the plan is written.\<close>

definition after_plan :: "visibility_guild \<Rightarrow> override_target list \<Rightarrow> visibility_channel \<Rightarrow> visibility_channel" where
  "after_plan g ts c = (case find (\<lambda>t. ot_channel t = vc_id c) ts of None \<Rightarrow> c | Some t \<Rightarrow> write_target g t c)"

lemma write_all_channels [simp]: "vg_channels (write_all g ts) = map (after_plan g ts) (vg_channels g)"
  by (simp add: write_all_def after_plan_def)

lemma after_plan_simps [simp]:
  "vc_id (after_plan g ts c) = vc_id c" "vc_parent (after_plan g ts c) = vc_parent c" "vc_type (after_plan g ts c) = vc_type c"
  "isCategory (after_plan g ts c) = isCategory c"
  by (simp_all add: after_plan_def write_target_def isCategory_def split: option.split)

lemma after_plan_cases:
  assumes ok: "plan_ok P g s" and c: "c \<in> set (vg_channels g)"
  shows "jg_state (judge P g (after_plan g (planOverrides P g s) c) s (asIfView P g)) = StVisible \<or>
    after_plan g (planOverrides P g s) c = c \<and> (\<forall>inh. targetOf P g c s inh (planContext P g s) = None)"
proof (cases "find (\<lambda>t. ot_channel t = vc_id c) (planOverrides P g s)")
  case (Some t)
  note m = find_Some_mem [OF Some]
  show ?thesis using plan_target_visible [OF ok _ c] m Some by (simp add: after_plan_def)
next
  case None
  then have "vc_id c \<notin> ot_channel ` set (planOverrides P g s)" by (auto simp: find_None_iff)
  then have "targetOf P g c s inh (planContext P g s) = None" for inh using plan_channel [OF c] by blast
  then show ?thesis using None by (simp add: after_plan_def)
qed

lemma parent_after: "parent_of (write_all g ts) c = map_option (after_plan g ts) (parent_of g c)"
  by (simp add: parent_of_def find_map_id split: option.split)

lemma judge_in_same: "judge_in b P (write_all g ts) c s v = judge_in b P g c s v"
  unfolding judge_in_def write_all_reads ..

lemma category_hidden_same:
  assumes ok: "plan_ok P g s" and p: "p \<in> set (vg_channels g)" "isCategory p"
  shows "jg_state (judge_in False P g (after_plan g (planOverrides P g s) p) s (asIfView P g)) = StHidden \<longleftrightarrow>
    jg_state (judge_in False P g p s (asIfView P g)) = StHidden"
proof -
  have j: "judge P g c s v = judge_in False P g c s v" if "isCategory c" for c v using that by (simp add: judge_def)
  show ?thesis
  proof (cases "after_plan g (planOverrides P g s) p = p")
    case False
    then obtain t where t: "find (\<lambda>t. ot_channel t = vc_id p) (planOverrides P g s) = Some t"
      by (auto simp: after_plan_def split: option.splits)
    have vis: "jg_state (judge P g (after_plan g (planOverrides P g s) p) s (asIfView P g)) = StVisible"
      using after_plan_cases [OF ok p(1)] False by blast
    have tm: "t \<in> set (planOverrides P g s)" "ot_channel t = vc_id p" using find_Some_mem [OF t] by simp_all
    obtain c inh where c: "c \<in> set (vg_channels g)" "targetOf P g c s inh (planContext P g s) = Some t"
      by (rule plan_member [OF tm(1)])
    have "inj_on vc_id (set (vg_channels g))" using ok by (simp add: plan_ok_def distinct_map)
    then have "c = p" by (rule inj_onD) (use c p targetOf_Some(5) [OF c(2)] tm(2) in simp_all)
    then have "jg_state (judge P g p s (asIfView P g)) \<noteq> StHidden" using targetOf_Some(2) [OF c(2)] by auto
    then show ?thesis using vis j p(2) by simp
  qed simp
qed

lemma judge_unwritten:
  assumes ok: "plan_ok P g s"
  shows "judge P (write_all g (planOverrides P g s)) c s (asIfView P g) = judge P g c s (asIfView P g)"
proof (cases "parent_of g c")
  case None
  then show ?thesis unfolding judge_def judge_in_same by (simp add: parent_after)
next
  case (Some p)
  then have "p \<in> set (vg_channels g)" by (auto simp: parent_of_def split: option.splits dest: find_Some_mem)
  then show ?thesis using category_hidden_same [OF ok, of p] Some
    unfolding judge_def judge_in_same parent_after by (cases "isCategory p") simp_all
qed

lemma private_stays:
  assumes ok: "plan_ok P g s" and i: "i \<in> set (privateCategoryIds P g s)"
  shows "i \<in> set (privateCategoryIds P (write_all g (planOverrides P g s)) s)"
proof -
  let ?g = "write_all g (planOverrides P g s)" and ?a = "after_plan g (planOverrides P g s)"
  have on: "\<not> vs_onboarding s" using i by (auto simp: privateCategoryIds_def privateSet_def split: if_splits)
  then obtain c where c: "c \<in> set (vg_channels g)" "vc_id c = i" "isCategory c"
      "Some i \<in> vc_parent ` set (filter (\<lambda>c. vc_id c \<in> set (vs_configured s)) (vg_channels g))"
      "jg_state (judge P g c s (asIfView P g)) = StMissing"
    using i by (auto simp: privateCategoryIds_def privateSet_def Let_def)
  then obtain x where x: "x \<in> set (vg_channels g)" "vc_id x \<in> set (vs_configured s)" "vc_parent x = Some i" by auto
  have none: "targetOf P g c s inh (planContext P g s) = None" for inh using c(2) i unfolding targetOf_None by simp
  have same: "?a c = c"
  proof (cases "find (\<lambda>t. ot_channel t = vc_id c) (planOverrides P g s)")
    case (Some t)
    note tm = find_Some_mem [OF Some]
    obtain c' inh where c': "c' \<in> set (vg_channels g)" "targetOf P g c' s inh (planContext P g s) = Some t"
      by (rule plan_member) (use tm in blast)
    have "vc_id c' = i" using targetOf_Some(5) [OF c'(2)] tm c(2) by simp
    then show ?thesis using targetOf_Some(3) [OF c'(2)] i by simp
  qed (simp add: after_plan_def)
  have "c \<in> set (vg_channels ?g)" using image_eqI [of c ?a c "set (vg_channels g)"] same c(1) by simp
  moreover have "?a x \<in> set (filter (\<lambda>c. vc_id c \<in> set (vs_configured s)) (vg_channels ?g))" using x by simp
  then have "Some i \<in> set (map vc_parent (filter (\<lambda>c. vc_id c \<in> set (vs_configured s)) (vg_channels ?g)))"
    using x(3) by (metis after_plan_simps(2) image_eqI set_map)
  moreover have "jg_state (judge P ?g c s (asIfView P ?g)) = StMissing" using c(5) judge_unwritten [OF ok] by simp
  ultimately show ?thesis using on c(2,3) by (auto simp: privateCategoryIds_def privateSet_def Let_def)
qed

lemma plan_empty:
  assumes "\<And>c. c \<in> set (vg_channels g) \<Longrightarrow> \<forall>inh. targetOf P g c s inh (planContext P g s) = None"
  shows "planOverrides P g s = []"
proof -
  have c: "planned_categories P g s = []"
    unfolding planned_categories_def using assms by (auto simp: map_filter_def filter_empty_conv)
  show ?thesis
    unfolding planOverrides_def Let_def c using assms by (auto simp: map_filter_def filter_empty_conv)
qed

lemma after_state:
  assumes ok: "plan_ok P g s" and c: "c \<in> set (vg_channels g)"
  shows "jg_state (judge P (write_all g (planOverrides P g s)) (after_plan g (planOverrides P g s) c) s (asIfView P g)) = StVisible \<or>
    after_plan g (planOverrides P g s) c = c \<and> (\<forall>inh. targetOf P g c s inh (planContext P g s) = None)"
  using after_plan_cases [OF ok c] by simp

lemma no_private:
  assumes "\<And>c. c \<in> set (vg_channels g) \<Longrightarrow> jg_state (judge P g c s v) \<noteq> StMissing"
  shows "privateSet P g s v = []"
  using assms by (auto simp: privateSet_def Let_def filter_empty_conv)

text \<open>A channel that is visible or hidden on purpose adds nothing to the count.\<close>

lemma missing_count_zero:
  "missing_count w = 0 \<longleftrightarrow> sw_private w = [] \<and> sw_categories w = [] \<and> sw_inside w = [] \<and> sw_channels w = [] \<and>
     sw_masked w = [] \<and> sw_denied w = []"
  by (cases "sw_private w") (auto simp: missing_count_def)

lemma sweep_one_quiet:
  assumes "missing_count w = 0" "jg_state (judge P g c s v) = StVisible \<or> jg_state (judge P g c s v) = StHidden"
  shows "missing_count (sweep_one P g s v [] w c) = 0"
  using assms unfolding missing_count_zero by (auto simp: sweep_one_def Let_def)

lemma sweep_quiet:
  assumes "\<And>c. c \<in> set cs \<Longrightarrow> jg_state (judge P g c s v) = StVisible \<or> jg_state (judge P g c s v) = StHidden"
  shows "missing_count (foldl (sweep_one P g s v []) NOTHING cs) = 0"
proof -
  have "missing_count (foldl (sweep_one P g s v []) w cs) = 0" if "missing_count w = 0" for w
    using assms that
  proof (induction cs arbitrary: w)
    case (Cons c cs)
    then show ?case using sweep_one_quiet [OF Cons.prems(2), of P g c s v] by simp
  qed simp
  then show ?thesis by (simp add: NOTHING_def missing_count_def)
qed

section \<open>Sets of entries\<close>

definition entry_key :: "overwrite \<Rightarrow> overwrite_type \<times> ident" where
  "entry_key e = (ow_type e, ow_id e)"

text \<open>The set Discord compares: the entries of a list, without an @everyone entry that says nothing.\<close>

definition entry_set :: "overwrite list \<Rightarrow> ident \<Rightarrow> ((overwrite_type \<times> ident) \<times> int \<times> int) set" where
  "entry_set ows g = {(entry_key e, ow_allow e, ow_deny e) | e. e \<in> set ows \<and> \<not> (ow_id e = g \<and> ow_allow e = 0 \<and> ow_deny e = 0)}"

lemma overwriteKeys_snoc:
  "overwriteKeys [] g = []"
  "overwriteKeys (ows @ [e]) g = (if ow_id e = g \<and> ow_allow e = 0 \<and> ow_deny e = 0 then overwriteKeys ows g
     else AList.update (entry_key e) (ow_allow e, ow_deny e) (overwriteKeys ows g))"
  by (simp_all add: overwriteKeys_def entry_key_def)

lemma distinct_keys: "distinct (map fst (overwriteKeys ows g))"
  by (induction ows rule: rev_induct) (simp_all add: overwriteKeys_snoc distinct_update)

lemma keys_map_snoc:
  "map_of (overwriteKeys (ows @ [e]) g) = (if ow_id e = g \<and> ow_allow e = 0 \<and> ow_deny e = 0 then map_of (overwriteKeys ows g)
     else (map_of (overwriteKeys ows g))(entry_key e \<mapsto> (ow_allow e, ow_deny e)))"
  by (simp add: overwriteKeys_snoc update_conv')

lemma keys_graph:
  "distinct (map entry_key ows) \<Longrightarrow> map_of (overwriteKeys ows g) k = Some b \<longleftrightarrow> (k, b) \<in> entry_set ows g"
proof (induction ows rule: rev_induct)
  case Nil
  then show ?case by (simp add: overwriteKeys_snoc entry_set_def)
next
  case (snoc e ows)
  have fresh: "(entry_key e, c) \<notin> entry_set ows g" for c
    using snoc.prems by (auto simp: entry_set_def image_iff)
  have set_snoc: "entry_set (ows @ [e]) g = (if ow_id e = g \<and> ow_allow e = 0 \<and> ow_deny e = 0 then entry_set ows g
      else insert (entry_key e, ow_allow e, ow_deny e) (entry_set ows g))"
    by (auto simp: entry_set_def)
  have "distinct (map entry_key ows)" using snoc.prems by simp
  note IH = snoc.IH [OF this]
  show ?case unfolding keys_map_snoc set_snoc using IH fresh by (cases "k = entry_key e") auto
qed

lemma same_maps: "sameOverwriteSet l r g \<longleftrightarrow> map_of (overwriteKeys l g) = map_of (overwriteKeys r g)"
proof -
  let ?a = "overwriteKeys l g" and ?b = "overwriteKeys r g"
  have len: "length (overwriteKeys ows g) = card (dom (map_of (overwriteKeys ows g)))" for ows
    using distinct_card [OF distinct_keys [of ows g]] by (simp add: dom_map_of_conv_image_fst)
  have all: "list_all (\<lambda>(k, bits). map_of ?b k = Some bits) ?a \<longleftrightarrow> map_of ?a \<subseteq>\<^sub>m map_of ?b"
  proof
    assume l: "list_all (\<lambda>(k, bits). map_of ?b k = Some bits) ?a"
    have "map_of ?b k = Some x" if "map_of ?a k = Some x" for k x
      using l map_of_SomeD [OF that] by (auto simp: list_all_iff)
    then show "map_of ?a \<subseteq>\<^sub>m map_of ?b" by (auto simp: map_le_def)
  next
    assume le: "map_of ?a \<subseteq>\<^sub>m map_of ?b"
    have "map_of ?b k = Some x" if "(k, x) \<in> set ?a" for k x
      using map_of_is_SomeI [OF distinct_keys that] le by (metis domI map_le_def)
    then show "list_all (\<lambda>(k, bits). map_of ?b k = Some bits) ?a" by (auto simp: list_all_iff)
  qed
  show ?thesis
  proof
    assume "sameOverwriteSet l r g"
    then have le: "map_of ?a \<subseteq>\<^sub>m map_of ?b" and card: "card (dom (map_of ?a)) = card (dom (map_of ?b))"
      unfolding sameOverwriteSet_def Let_def all len by auto
    have "dom (map_of ?a) = dom (map_of ?b)"
      by (rule card_subset_eq [OF finite_dom_map_of map_le_implies_dom_le [OF le] card])
    then show "map_of ?a = map_of ?b" using le by (metis map_le_antisym map_le_def)
  next
    assume "map_of ?a = map_of ?b"
    then show "sameOverwriteSet l r g" unfolding sameOverwriteSet_def Let_def all len by simp
  qed
qed

definition replace_own :: "ident \<Rightarrow> override_entry \<Rightarrow> overwrite \<Rightarrow> overwrite" where
  "replace_own i a e = (if ow_type e = OwMember \<and> ow_id e = i then e\<lparr>ow_allow := oe_allow a, ow_deny := oe_deny a\<rparr> else e)"

lemma keys_replace:
  assumes "i \<noteq> g"
  shows "map_of (overwriteKeys (map (replace_own i a) ows) g) =
    (if (OwMember, i) \<in> entry_key ` set ows
     then (map_of (overwriteKeys ows g))((OwMember, i) \<mapsto> (oe_allow a, oe_deny a)) else map_of (overwriteKeys ows g))"
proof (induction ows rule: rev_induct)
  case Nil
  then show ?case by (simp add: overwriteKeys_snoc)
next
  case (snoc e ows)
  let ?K = "(OwMember, i)" and ?A = "(oe_allow a, oe_deny a)"
  show ?case
  proof (cases "entry_key e = ?K")
    case True
    then have r: "entry_key (replace_own i a e) = ?K" "ow_allow (replace_own i a e) = oe_allow a" "ow_deny (replace_own i a e) = oe_deny a"
      "ow_id (replace_own i a e) \<noteq> g" "ow_id e \<noteq> g" using assms by (simp_all add: entry_key_def replace_own_def)
    have "(map_of (overwriteKeys (map (replace_own i a) ows) g))(?K \<mapsto> ?A) = (map_of (overwriteKeys ows g))(?K \<mapsto> ?A)"
      unfolding snoc.IH by simp
    then show ?thesis using r True by (simp add: keys_map_snoc)
  next
    case False
    then have "replace_own i a e = e" by (auto simp: entry_key_def replace_own_def)
    then show ?thesis using False snoc.IH by (auto simp: keys_map_snoc fun_eq_iff)
  qed
qed

lemma keys_put:
  assumes "i \<noteq> g"
  shows "map_of (overwriteKeys (put_own i a ows) g) = (map_of (overwriteKeys ows g))((OwMember, i) \<mapsto> (oe_allow a, oe_deny a))"
proof (cases "\<exists>e \<in> set ows. ow_type e = OwMember \<and> ow_id e = i")
  case True
  then have "(OwMember, i) \<in> entry_key ` set ows" by (force simp: entry_key_def)
  then show ?thesis unfolding put_own_def if_P [OF True] replace_own_def [symmetric] keys_replace [OF assms] by (rule if_P)
next
  case False
  then show ?thesis unfolding put_own_def if_not_P [OF False] keys_map_snoc using assms by (simp add: entry_key_def)
qed

text \<open>Taking out one entry changes the map at its key only.\<close>

lemma keys_without:
  assumes "entry_key e = k"
  shows "(map_of (overwriteKeys (remove1 e ows) g))(k \<mapsto> b) = (map_of (overwriteKeys ows g))(k \<mapsto> b)"
proof (cases "e \<in> set ows")
  case True
  then obtain xs ys where x: "ows = xs @ e # ys" "e \<notin> set xs" by (meson split_list_first)
  have "(map_of (overwriteKeys (xs @ ys) g))(k \<mapsto> b) = (map_of (overwriteKeys (xs @ e # ys) g))(k \<mapsto> b)"
  proof (induction ys rule: rev_induct)
    case Nil
    then show ?case using assms by (auto simp: keys_map_snoc fun_eq_iff)
  next
    case (snoc y ys)
    have one: "map_of (overwriteKeys (xs @ ys @ [y]) g) = map_of (overwriteKeys ((xs @ ys) @ [y]) g)"
      "map_of (overwriteKeys (xs @ e # ys @ [y]) g) = map_of (overwriteKeys ((xs @ e # ys) @ [y]) g)" by simp_all
    show ?case
    proof (rule ext)
      fix q show "((map_of (overwriteKeys (xs @ ys @ [y]) g))(k \<mapsto> b)) q = ((map_of (overwriteKeys (xs @ e # ys @ [y]) g))(k \<mapsto> b)) q"
        using fun_cong [OF snoc, of q] unfolding one keys_map_snoc by (auto split: if_splits)
    qed
  qed
  then show ?thesis using x by (simp add: remove1_append)
qed (simp add: remove1_idem)

text \<open>The write of a channel is the first of its name in the plan, and the only one.\<close>

lemma plan_write_unique:
  assumes ok: "plan_ok P g s" and "t \<in> set (planOverrides P g s)" "u \<in> set (planOverrides P g s)" "ot_channel t = ot_channel u"
  shows "t = u"
proof -
  obtain c i where c: "c \<in> set (vg_channels g)" "targetOf P g c s i (planContext P g s) = Some t"
    "i = None \<and> isCategory c \<or> \<not> isCategory c \<and> i = inheritFor P g s (planContext P g s) (planned_categories P g s) c"
    by (rule plan_member [OF assms(2)])
  obtain d j where d: "d \<in> set (vg_channels g)" "targetOf P g d s j (planContext P g s) = Some u"
    "j = None \<and> isCategory d \<or> \<not> isCategory d \<and> j = inheritFor P g s (planContext P g s) (planned_categories P g s) d"
    by (rule plan_member [OF assms(3)])
  have "inj_on vc_id (set (vg_channels g))" using ok by (simp add: plan_ok_def distinct_map)
  then have "c = d" by (rule inj_onD) (use c d assms(4) targetOf_Some(5) [OF c(2)] targetOf_Some(5) [OF d(2)] in simp_all)
  then have "i = j" using c(3) d(3) by blast
  then show ?thesis using c(2) d(2) \<open>c = d\<close> by simp
qed

lemma after_plan_written:
  assumes "plan_ok P g s" "t \<in> set (planOverrides P g s)" "ot_channel t = vc_id c"
  shows "after_plan g (planOverrides P g s) c = write_target g t c"
proof (cases "find (\<lambda>t. ot_channel t = vc_id c) (planOverrides P g s)")
  case None
  then show ?thesis using assms(2,3) by (auto simp: find_None_iff)
next
  case (Some u)
  note um = find_Some_mem [OF Some]
  have "u = t" by (rule plan_write_unique [OF assms(1) _ assms(2)]) (use um assms(3) in simp_all)
  then show ?thesis using Some by (simp add: after_plan_def)
qed

lemma resumed_stays:
  assumes ok: "plan_ok P g s" and p: "p \<in> set (vg_channels g)" and st: "jg_state (judge P g p s (asIfView P g)) = StVisible"
  shows "after_plan g (planOverrides P g s) p = p"
proof (cases "find (\<lambda>t. ot_channel t = vc_id p) (planOverrides P g s)")
  case (Some t)
  note tm = find_Some_mem [OF Some]
  obtain c i where c: "c \<in> set (vg_channels g)" "targetOf P g c s i (planContext P g s) = Some t"
    by (rule plan_member) (use tm in blast)
  have "inj_on vc_id (set (vg_channels g))" using ok by (simp add: plan_ok_def distinct_map)
  then have "c = p" by (rule inj_onD) (use c p tm targetOf_Some(5) [OF c(2)] in simp_all)
  then show ?thesis using targetOf_Some(2) [OF c(2)] st by simp
qed (simp add: after_plan_def)

lemma own_entry_key: "ownEntry g c = Some e \<Longrightarrow> e \<in> set (vc_overwrites c) \<and> entry_key e = (OwMember, vg_botId g)"
  unfolding ownEntry_def using find_Some_mem [of _ "vc_overwrites c" e] by (auto simp: entry_key_def)

lemma inherited_synced:
  assumes ok: "plan_ok P g s" and t: "t \<in> set (planOverrides P g s)" "ot_inherited t"
    and c: "c \<in> set (vg_channels g)" "ot_channel t = vc_id c" and p: "parent_of g c = Some p"
    and keys: "\<forall>c \<in> set (vg_channels g). distinct (map entry_key (vc_overwrites c))"
  shows "sameOverwriteSet (vc_overwrites (after_plan g (planOverrides P g s) c)) (vc_overwrites (after_plan g (planOverrides P g s) p)) (vg_guild g)"
proof -
  let ?a = "after_plan g (planOverrides P g s)" and ?K = "(OwMember, vg_botId g)" and ?m = "\<lambda>ows. map_of (overwriteKeys ows (vg_guild g))"
  have bot: "vg_botId g \<noteq> vg_guild g" using ok by (simp add: plan_ok_def)
  have pm: "p \<in> set (vg_channels g)" using p by (auto simp: parent_of_def split: option.splits dest: find_Some_mem)
  obtain c' inh where c': "c' \<in> set (vg_channels g)" "targetOf P g c' s inh (planContext P g s) = Some t"
    "inh = None \<and> isCategory c' \<or> \<not> isCategory c' \<and> inh = inheritFor P g s (planContext P g s) (planned_categories P g s) c'"
    by (rule plan_member [OF t(1)])
  have "inj_on vc_id (set (vg_channels g))" using ok by (simp add: plan_ok_def distinct_map)
  then have cc: "c' = c" by (rule inj_onD) (use c c' targetOf_Some(5) [OF c'(2)] in simp_all)
  obtain h where h0: "inh = Some h" and h2: "sameOverwriteSet (vc_overwrites c') (ih_before h) (vg_guild g)" "ot_after t = ih_after h"
    using targetOf_Some(7) [OF c'(2) t(2)] by blast
  have "inheritFor P g s (planContext P g s) (planned_categories P g s) c = Some h" using c'(3) h0 cc by simp
  note h = this h2 [unfolded cc]
  have child: "?m (vc_overwrites (?a c)) = (?m (ih_before h))(?K \<mapsto> (oe_allow (ih_after h), oe_deny (ih_after h)))"
    using h(2,3) keys_put [OF bot] unfolding after_plan_written [OF ok t(1) c(2)] same_maps by (simp add: write_target_def)
  show ?thesis
  proof (cases "find (\<lambda>t. ot_channel t = vc_id p) (rev (planned_categories P g s))")
    case None
    then have r: "resumeOf P g p s (asIfView P g) = Some h" using h(1) p by (simp add: inheritFor_def)
    then obtain e where e: "ownEntry g p = Some e" "ih_before h = remove1 e (vc_overwrites p)" "ih_after h = entry_bits e"
      and vis: "jg_state (judge P g p s (asIfView P g)) = StVisible"
      by (auto simp: resumeOf_def split: if_splits option.splits)
    note k = own_entry_key [OF e(1)]
    have "ow_id e \<noteq> vg_guild g" using k bot by (simp add: entry_key_def)
    then have "(?K, ow_allow e, ow_deny e) \<in> entry_set (vc_overwrites p) (vg_guild g)" 
      using k unfolding entry_set_def by (intro CollectI exI [of _ e]) simp
    then have "?m (vc_overwrites p) ?K = Some (ow_allow e, ow_deny e)"
      using keys_graph [of "vc_overwrites p"] keys pm by blast
    then have "(?m (vc_overwrites p))(?K \<mapsto> (ow_allow e, ow_deny e)) = ?m (vc_overwrites p)" by (rule map_upd_triv)
    then show ?thesis
      unfolding same_maps child e(2,3) resumed_stays [OF ok pm vis]
      using keys_without [of e ?K "vc_overwrites p" "vg_guild g"] k by (simp add: entry_bits_def)
  next
    case (Some u)
    note um = find_Some_mem [OF Some]
    have hb: "ih_before h = vc_overwrites p" "ih_after h = ot_after u" using h(1) p Some by (auto simp: inheritFor_def)
    have "u \<in> set (planOverrides P g s)" using um by (simp add: planOverrides_def Let_def)
    then have "?a p = write_target g u p" by (rule after_plan_written [OF ok]) (use um in simp)
    then show ?thesis unfolding same_maps child hb by (simp add: write_target_def keys_put [OF bot])
  qed
qed

text \<open>A View deny on TaruBot itself, by its own entry or its role's, that does hide the channel.\<close>

definition deliberate_deny :: "flag_bits \<Rightarrow> visibility_guild \<Rightarrow> visibility_channel \<Rightarrow> bool" where
  "deliberate_deny P g c \<longleftrightarrow> channelBits P g c (asIfView P g) AND P ViewChannel = 0 \<and>
     (denies (ownEntry g c) (P ViewChannel) \<or> denies (botEntry g c) (P ViewChannel))"

lemma posting_view:
  assumes "flag_bits_ok P" "b AND P ViewChannel = 0"
  shows "b AND POSTING_BITS P \<noteq> POSTING_BITS P" "b AND P ViewChannel \<noteq> P ViewChannel"
proof -
  obtain k where k: "\<forall>m. bit (P ViewChannel) m \<longleftrightarrow> m = k" using flag_position [OF assms(1), of ViewChannel] by (elim exE conjE)
  have n: "\<not> bit b k" using assms(2) k by (auto simp: and_eq_zero_iff)
  show "b AND P ViewChannel \<noteq> P ViewChannel" unfolding and_eq_iff using n k by blast
  have "bit (POSTING_BITS P) k" using k by (auto simp: POSTING_BITS_def POSTING_PERMISSIONS_def bits_simps)
  then show "b AND POSTING_BITS P \<noteq> POSTING_BITS P" unfolding and_eq_iff using n by blast
qed

lemma deliberate_not_planned:
  assumes "flag_bits_ok P" "deliberate_deny P g c"
  shows "targetOf P g c s inh (planContext P g s) = None"
proof (cases "unreadable P g c")
  case True
  then show ?thesis by (simp add: targetOf_None)
next
  case False
  have lacks: "channelBits P g c (asIfView P g) AND jg_need (judge P g c s (asIfView P g)) \<noteq> jg_need (judge P g c s (asIfView P g))"
  proof -
    have "channelBits P g c (asIfView P g) AND P ViewChannel = 0" using assms(2) by (simp only: deliberate_deny_def)
    note lack = posting_view [OF assms(1) this]
    show ?thesis unfolding judge_facts
      by (cases "vc_id c \<in> set (vs_posting s)") (simp_all only: if_True if_False lack not_False_eq_True)
  qed
  have "jg_state (judge P g c s (asIfView P g)) \<noteq> StMissing \<and> jg_state (judge P g c s (asIfView P g)) \<noteq> StMasked"
    using lacks assms(2) False unfolding judge_facts deliberate_deny_def by (auto simp: judge_def judge_in_def Let_def)
  then show ?thesis by (simp add: targetOf_None)
qed

section \<open>Properties\<close>

text \<open>
  Once the whole plan is written, with TaruBot's own entry put in each planned channel as Discord puts
  it, TaruBot sees every channel the plan names as if Administrator were off, with every permission its
  settings need there and no history deny left in a configured one.
\<close>

theorem planned_channels_become_visible:
  assumes "plan_ok P g s" "t \<in> set (planOverrides P g s)" "c \<in> set (vg_channels (write_all g (planOverrides P g s)))"
    "vc_id c = ot_channel t"
  shows "channelState P (write_all g (planOverrides P g s)) c s = StVisible"
proof -
  obtain b where b: "b \<in> set (vg_channels g)" "c = after_plan g (planOverrides P g s) b" using assms(3) by auto
  have m: "ot_channel t = vc_id b" using assms(4) b(2) by simp
  obtain u where u: "find (\<lambda>t. ot_channel t = vc_id b) (planOverrides P g s) = Some u"
    using assms(2) m by (cases "find (\<lambda>t. ot_channel t = vc_id b) (planOverrides P g s)") (auto simp: find_None_iff)
  note um = find_Some_mem [OF u]
  have "jg_state (judge P g c s (asIfView P g)) = StVisible"
    using plan_target_visible [OF assms(1) _ b(1), of u] um u by (simp add: b(2) after_plan_def)
  then show ?thesis by (simp add: channelState_def)
qed

text \<open>
  (C7) One run is enough: once the plan is written, planning again gives nothing to write, whatever entries
  the children copied and whatever stays private, hidden or denied.
\<close>

theorem override_plan_settles:
  assumes "plan_ok P g s"
  shows "planOverrides P (write_all g (planOverrides P g s)) s = []"
proof (rule plan_empty, intro allI)
  let ?ts = "planOverrides P g s"
  fix c inh assume c: "c \<in> set (vg_channels (write_all g ?ts))"
  then obtain b where b: "b \<in> set (vg_channels g)" "c = after_plan g ?ts b" by auto
  from after_state [OF assms b(1)] show "targetOf P (write_all g ?ts) c s inh (planContext P (write_all g ?ts) s) = None"
  proof (elim disjE conjE)
    assume "jg_state (judge P (write_all g ?ts) (after_plan g ?ts b) s (asIfView P g)) = StVisible"
    then show ?thesis unfolding targetOf_None by (simp add: b(2) del: write_all_visible)
  next
    assume same: "after_plan g ?ts b = b" and none: "\<forall>inh. targetOf P g b s inh (planContext P g s) = None"
    have sub: "set (privateCategoryIds P g s) \<subseteq> set (privateCategoryIds P (write_all g ?ts) s)"
      using private_stays [OF assms] by blast
    have "targetOf P g b s inh (planContext P g s) = None" using none by blast
    then show ?thesis
      unfolding targetOf_None px_view_simp px_private_simp write_all_reads write_all_view b(2) same judge_unwritten [OF assms]
      using sub by blast
  qed
qed

text \<open>
  (C5) A run frees the server of Administrator: with onboarding off, nothing unreadable, no deliberate deny
  on a configured channel and no private category, nothing counts as missing once the plan is written.
\<close>

theorem plan_leaves_nothing_missing:
  assumes ok: "plan_ok P g s" and "\<not> vs_onboarding s" "privateCategoryIds P g s = []"
    "\<forall>c \<in> set (vg_channels g). \<not> unreadable P g c \<and> channelState P g c s \<noteq> StDenied"
  shows "vt_missingCount (analyseVisibility P (write_all g (planOverrides P g s)) s) = 0"
proof -
  let ?g = "write_all g (planOverrides P g s)" and ?a = "after_plan g (planOverrides P g s)" and ?v = "asIfView P g"
  have st: "jg_state (judge P ?g c s ?v) = StVisible \<or> jg_state (judge P ?g c s ?v) = StHidden" if c: "c \<in> set (vg_channels ?g)" for c
  proof -
    obtain b where b: "b \<in> set (vg_channels g)" "c = ?a b" using c by auto
    from after_state [OF ok b(1)] show ?thesis
    proof (elim disjE conjE)
      assume "jg_state (judge P ?g (?a b) s ?v) = StVisible" then show ?thesis by (simp add: b(2))
    next
      assume same: "?a b = b" and none: "\<forall>inh. targetOf P g b s inh (planContext P g s) = None"
      have "targetOf P g b s None (planContext P g s) = None" using none by blast
      moreover have "\<not> unreadable P g b" "jg_state (judge P g b s ?v) \<noteq> StDenied"
        using assms(4) b(1) by (simp_all add: channelState_def)
      ultimately have "jg_state (judge P g b s ?v) \<noteq> StMissing \<and> jg_state (judge P g b s ?v) \<noteq> StMasked \<and> jg_state (judge P g b s ?v) \<noteq> StDenied"
        unfolding targetOf_None px_view_simp px_private_simp assms(3) by simp
      then show ?thesis unfolding b(2) same judge_unwritten [OF ok] by (cases "jg_state (judge P g b s ?v)") auto
    qed
  qed
  have none: "privateSet P ?g s ?v = []"
    by (rule no_private) (use st in fastforce)
  have "missing_count (foldl (sweep_one P ?g s ?v []) NOTHING (reportOrder (vg_channels ?g))) = 0"
    by (rule sweep_quiet) (use st in simp_all)
  then show ?thesis
    using assms(2) none by (simp add: analyseVisibility_def Let_def report_common.defs visibility_report.defs)
qed

text \<open>
  (C6) A deliberate deny is never written over: a channel where TaruBot's own entry or its bot role's denies
  View Channel, and TaruBot indeed cannot see it, is after the plan exactly what it was before.
\<close>

theorem deliberate_denies_stand:
  assumes "plan_ok P g s" "c \<in> set (vg_channels g)" "deliberate_deny P g c"
  shows "c \<in> set (vg_channels (write_all g (planOverrides P g s)))"
proof -
  have P: "flag_bits_ok P" using assms(1) by (simp add: plan_ok_def)
  have "after_plan g (planOverrides P g s) c = c"
  proof (cases "find (\<lambda>t. ot_channel t = vc_id c) (planOverrides P g s)")
    case (Some t)
    note tm = find_Some_mem [OF Some]
    obtain d i where d: "d \<in> set (vg_channels g)" "targetOf P g d s i (planContext P g s) = Some t"
      by (rule plan_member) (use tm in blast)
    have "inj_on vc_id (set (vg_channels g))" using assms(1) by (simp add: plan_ok_def distinct_map)
    then have "d = c" by (rule inj_onD) (use d tm assms(2) targetOf_Some(5) [OF d(2)] in simp_all)
    then show ?thesis using d(2) deliberate_not_planned [OF P assms(3), of s i] by simp
  qed (simp add: after_plan_def)
  then show ?thesis using assms(2) by (metis image_eqI list.set_map write_all_channels)
qed

text \<open>
  (C12) A child that copies its category's entry is synced with it after the plan, both for a category this
  plan writes and for one an interrupted run wrote before.
\<close>

theorem synced_children_stay_synced:
  assumes "plan_ok P g s" "\<forall>c \<in> set (vg_channels g). distinct (map entry_key (vc_overwrites c))"
    "t \<in> set (planOverrides P g s)" "ot_inherited t"
    "c \<in> set (vg_channels (write_all g (planOverrides P g s)))" "vc_id c = ot_channel t"
    "parent_of (write_all g (planOverrides P g s)) c = Some p"
  shows "sameOverwriteSet (vc_overwrites c) (vc_overwrites p) (vg_guild g)"
proof -
  obtain b where b: "b \<in> set (vg_channels g)" "c = after_plan g (planOverrides P g s) b" using assms(5) by auto
  have "parent_of g c = parent_of g b" by (simp add: b(2) parent_of_def)
  then obtain q where q: "parent_of g b = Some q" "p = after_plan g (planOverrides P g s) q"
    using assms(7) by (auto simp: parent_after)
  show ?thesis unfolding b(2) q(2)
    by (rule inherited_synced [OF assms(1,3,4) b(1) _ q(1) assms(2)]) (use assms(6) b(2) in simp)
qed

text \<open>
  (C13) Whether two lists are synced is decided as Discord decides it: for lists with one entry a target,
  \<open>sameOverwriteSet\<close> holds exactly when their sets of entries are equal, in any order, where an @everyone entry that
  says nothing is no entry.
\<close>

theorem sameOverwriteSet_is_set_equality:
  assumes "distinct (map entry_key l)" "distinct (map entry_key r)"
  shows "sameOverwriteSet l r g \<longleftrightarrow> entry_set l g = entry_set r g"
proof -
  have "map_of (overwriteKeys l g) = map_of (overwriteKeys r g) \<longleftrightarrow> entry_set l g = entry_set r g"
  proof
    assume e: "map_of (overwriteKeys l g) = map_of (overwriteKeys r g)"
    show "entry_set l g = entry_set r g"
      using keys_graph [OF assms(1), of g] keys_graph [OF assms(2), of g] unfolding e by (auto simp: set_eq_iff)
  next
    assume e: "entry_set l g = entry_set r g"
    show "map_of (overwriteKeys l g) = map_of (overwriteKeys r g)"
      by (rule ext, rule option_ext) (simp only: keys_graph [OF assms(1)] keys_graph [OF assms(2)] e)
  qed
  then show ?thesis by (simp only: same_maps)
qed

section \<open>A sample server\<close>

definition os_role :: "ident \<Rightarrow> int \<Rightarrow> int \<Rightarrow> api_role" where
  "os_role i p bits = \<lparr>ar_id = i, ar_name = [], ar_position = p, ar_permissions = bits, ar_hoist = False, ar_managed = False,
     ar_mentionable = None\<rparr>"

definition os_entry :: "overwrite_type \<Rightarrow> ident \<Rightarrow> int \<Rightarrow> int \<Rightarrow> overwrite" where
  "os_entry t i allow deny = \<lparr>ow_id = i, ow_type = t, ow_allow = allow, ow_deny = deny\<rparr>"

definition os_channel :: "ident \<Rightarrow> channel_type \<Rightarrow> ident option \<Rightarrow> int \<Rightarrow> overwrite list \<Rightarrow> visibility_channel" where
  "os_channel i t parent pos ows = \<lparr>vc_id = i, vc_type = t, vc_parent = parent, vc_position = pos, vc_overwrites = ows,
     vc_obfuscated = False, vc_fetched = False\<rparr>"

definition os_private :: "overwrite list" where
  "os_private = [os_entry OwRole ''1'' 0 1024, os_entry OwRole ''5'' 1024 0]"

definition os_guild :: visibility_guild where
  "os_guild = \<lparr>vg_guild = ''1'', vg_botId = ''8'', vg_botRoles = [''9''], vg_botRole = Some ''9'',
     vg_roles = [os_role ''1'' 0 1024, os_role ''5'' 1 0, os_role ''9'' 2 8],
     vg_channels = [os_channel ''20'' GuildCategory None 0 os_private, os_channel ''21'' (OtherChannel 0) (Some ''20'') 1 os_private,
       os_channel ''22'' (OtherChannel 0) None 2 [os_entry OwMember ''8'' 0 1024]],
     vg_heldRoles = [], vg_communityUpdates = None\<rparr>"

definition os_settings :: visibility_settings where
  "os_settings = visibilitySettings \<lparr>vf_onboarding = False, vf_ledger = None, vf_notices = None, vf_changelog = None, vf_review = None,
     vf_applications = False, vf_lobby = None, vf_officer_room = None, vf_member_role = None, vf_guest_role = None,
     vf_officer_role = None, vf_leader_role = None\<rparr> NO_RECORDS"

abbreviation os_plan :: "override_target list" where
  "os_plan \<equiv> planOverrides documented_bits os_guild os_settings"

abbreviation os_after :: visibility_guild where
  "os_after \<equiv> write_all os_guild os_plan"

lemma os_ok: "plan_ok documented_bits os_guild os_settings"
proof -
  have "vg_botId os_guild \<noteq> vg_guild os_guild" "distinct (map vc_id (vg_channels os_guild))"
    "set (vs_posting os_settings) \<subseteq> set (vs_configured os_settings)"
    "\<forall>c \<in> set (vg_channels os_guild). isCategory c \<longrightarrow> vc_id c \<notin> set (vs_configured os_settings)"
    by code_simp+
  then show ?thesis by (simp add: plan_ok_def documented_bits_ok)
qed

lemma os_facts:
  "length os_plan = 2" "ot_channel (os_plan ! 1) = ''21''" "ot_inherited (os_plan ! 1)"
  "length (vg_channels os_after) = 3" "vc_id (vg_channels os_after ! 1) = ''21''"
  "map_option vc_id (parent_of os_after (vg_channels os_after ! 1)) = Some ''20''"
  by code_simp+

lemma os_child: "os_plan ! 1 \<in> set os_plan" "vg_channels os_after ! 1 \<in> set (vg_channels os_after)"
  using nth_mem [of 1 os_plan] nth_mem [of 1 "vg_channels os_after"] os_facts(1,4) by simp_all

theorem planned_channels_become_visible_witness:
  "\<exists>c \<in> set (vg_channels os_after). vc_id c = ''21'' \<and> channelState documented_bits os_after c os_settings = StVisible"
proof
  show "vc_id (vg_channels os_after ! 1) = ''21'' \<and> channelState documented_bits os_after (vg_channels os_after ! 1) os_settings = StVisible"
    using planned_channels_become_visible [OF os_ok os_child] os_facts(2,5) by simp
qed (rule os_child)

theorem override_plan_settles_witness:
  "length os_plan = 2 \<and> planOverrides documented_bits os_after os_settings = []"
  using override_plan_settles [OF os_ok] os_facts(1) by blast

theorem plan_leaves_nothing_missing_witness:
  "vt_missingCount (analyseVisibility documented_bits os_guild os_settings) = 2 \<and>
   vt_missingCount (analyseVisibility documented_bits os_after os_settings) = 0"
proof -
  have "\<not> vs_onboarding os_settings" "privateCategoryIds documented_bits os_guild os_settings = []"
    "\<forall>c \<in> set (vg_channels os_guild). \<not> unreadable documented_bits os_guild c \<and> channelState documented_bits os_guild c os_settings \<noteq> StDenied"
    by code_simp+
  note after = plan_leaves_nothing_missing [OF os_ok this]
  have "vt_missingCount (analyseVisibility documented_bits os_guild os_settings) = 2" by code_simp
  then show ?thesis using after by blast
qed

theorem deliberate_denies_stand_witness:
  "\<exists>c. vc_id c = ''22'' \<and> deliberate_deny documented_bits os_guild c \<and> c \<in> set (vg_channels os_after)"
proof -
  have c: "vc_id (vg_channels os_guild ! 2) = ''22''" "deliberate_deny documented_bits os_guild (vg_channels os_guild ! 2)"
    "length (vg_channels os_guild) = 3"
    by code_simp+
  have "vg_channels os_guild ! 2 \<in> set (vg_channels os_guild)" using c(3) by simp
  then show ?thesis using deliberate_denies_stand [OF os_ok _ c(2)] c by blast
qed

theorem synced_children_stay_synced_witness:
  "\<exists>c (p :: visibility_channel). c \<in> set (vg_channels os_after) \<and> vc_id c = ''21'' \<and> vc_id p = ''20'' \<and> sameOverwriteSet (vc_overwrites c) (vc_overwrites p) ''1''"
proof -
  obtain p where p: "parent_of os_after (vg_channels os_after ! 1) = Some p" "vc_id p = ''20''"
    using os_facts(6) by auto
  have k: "\<forall>c \<in> set (vg_channels os_guild). distinct (map entry_key (vc_overwrites c))" by code_simp
  have g: "vg_guild os_guild = ''1''" by code_simp
  have i: "vc_id (vg_channels os_after ! 1) = ot_channel (os_plan ! 1)" by (simp only: os_facts)
  show ?thesis
    using synced_children_stay_synced [OF os_ok k os_child(1) os_facts(3) os_child(2) i p(1)] os_facts(5) os_child(2) p(2)
    unfolding g by blast
qed

theorem sameOverwriteSet_is_set_equality_witness:
  "sameOverwriteSet (rev os_private) (os_entry OwRole ''1'' 0 1024 # tl os_private) ''1'' \<and>
   entry_set (rev os_private) ''1'' = entry_set (os_entry OwRole ''1'' 0 1024 # tl os_private) ''1''"
proof -
  have k: "distinct (map entry_key (rev os_private))" "distinct (map entry_key (os_entry OwRole ''1'' 0 1024 # tl os_private))"
    and y: "sameOverwriteSet (rev os_private) (os_entry OwRole ''1'' 0 1024 # tl os_private) ''1''" by code_simp+
  then show ?thesis using sameOverwriteSet_is_set_equality [OF k, of "''1''"] by blast
qed

end
