(* ===== verification/OverrideRun.thy ===== *)
theory OverrideRun
  imports OverridePlan Members
begin

text \<open>
  The run of \<open>/setup overrides\<close>, \<open>src/application/overrides.ts\<close>: the dry run, and the real run that
  re-checks everything before each write, reads each channel fresh, writes TaruBot's own entry, reads it
  back and records itself. What Discord, the clock, a shutdown and the other transactions answer is an
  argument: one record for each step of the loop, in the order the loop asks. An answer may be the abort of a
  draining shutdown or any thrown value. \<open>Service.guild\<close>'s answer, the row of the server, is an argument as well.
\<close>

section \<open>What is asked\<close>

datatype 'a asked = Answered 'a | AbortedCall | CallThrew thrown

record overrides_facts =
  of_botAdministrator :: bool
  of_callerAllowed :: "bool option"
  of_basePosting :: bool

datatype channel_read = ReadOk visibility_channel | ReadDeleted | ReadHidden
datatype put_outcome = PutWritten | PutDeleted | PutForbidden | PutRefused int
datatype overrides_stop = StopPermissions | StopChanged | StopPrecondition | StopTime | StopStopping
datatype overrides_blocker = BlockedCaller | BlockedEffects | BlockedAdministrator | BlockedBase

record overrides_guild = guild_row +
  og_notices :: "ident option"
  og_changelog :: "ident option"
  og_lobby :: "ident option"
  og_officer_room :: "ident option"
  og_officer_role :: "ident option"
  og_leader_role :: "ident option"

definition config_of :: "overrides_guild \<Rightarrow> visibility_config" where
  "config_of g = \<lparr>vf_onboarding = gd_access_policy g, vf_ledger = gd_ledger_channel g, vf_notices = og_notices g,
     vf_changelog = og_changelog g, vf_review = gd_apps_channel g, vf_applications = gd_apps_enabled g, vf_lobby = og_lobby g,
     vf_officer_room = og_officer_room g, vf_member_role = gd_member_role g, vf_guest_role = gd_guest_role g,
     vf_officer_role = og_officer_role g, vf_leader_role = og_leader_role g\<rparr>"

definition CALLER_REFUSAL :: string where
  "CALLER_REFUSAL = ''Only someone with Administrator, or the server owner, can run /setup overrides confirm:true.''"

definition ADMINISTRATOR_REFUSAL :: string where
  "ADMINISTRATOR_REFUSAL = ''TaruBot needs Administrator while /setup overrides confirm:true runs. Turn it on for TaruBot'' @ [CHR 0x27] @
     ''s role, run it again, then remove it once /config validate says it is no longer needed.''"

definition BASE_REFUSAL :: string where
  "BASE_REFUSAL = ''Give TaruBot'' @ [CHR 0x27] @ ''s role View Channel, Send Messages, Embed Links and Read Message History first, so it keeps them once Administrator is off; /config validate lists what'' @ [CHR 0x27] @ ''s missing.''"

definition BUSY_REFUSAL :: string where
  "BUSY_REFUSAL = ''Another /setup or channel pass for this server is in progress. Try again in a minute.''"

section \<open>One write\<close>

record overrides_write =
  wr_id :: ident
  wr_category :: bool
  wr_posting :: bool
  wr_allow :: "perm_flag list"
  wr_deny :: "perm_flag list"
  wr_cleared :: "perm_flag list"
  wr_inherited :: bool
  wr_unsyncs :: bool

definition writeOf :: "flag_bits \<Rightarrow> override_target \<Rightarrow> overrides_write" where
  "writeOf P t = \<lparr>wr_id = ot_channel t, wr_category = ot_category t, wr_posting = ot_posting t,
     wr_allow = permissionKeys P (ot_granted t) LABELLED_PERMISSIONS, wr_deny = permissionKeys P (ot_masked t) LABELLED_PERMISSIONS,
     wr_cleared = permissionKeys P (ot_cleared t) LABELLED_PERMISSIONS, wr_inherited = ot_inherited t, wr_unsyncs = ot_unsyncs t\<rparr>"

definition replaced :: "visibility_guild \<Rightarrow> ident \<Rightarrow> visibility_channel option \<Rightarrow> visibility_guild" where
  "replaced g i channel = g\<lparr>vg_channels := concat (map (\<lambda>e. if vc_id e \<noteq> i then [e]
     else case channel of Some c \<Rightarrow> [c] | None \<Rightarrow> []) (vg_channels g))\<rparr>"

definition own_bits :: "visibility_guild \<Rightarrow> visibility_channel \<Rightarrow> override_entry" where
  "own_bits g c = (case ownEntry g c of Some e \<Rightarrow> entry_bits e | None \<Rightarrow> \<lparr>oe_allow = 0, oe_deny = 0\<rparr>)"

definition propagatedWrite ::
  "flag_bits \<Rightarrow> visibility_guild \<Rightarrow> override_target \<Rightarrow> visibility_channel \<Rightarrow> inherit \<Rightarrow> override_target option" where
  "propagatedWrite P g planned fresh h =
     (if \<not> ot_inherited planned \<or> vc_parent fresh \<noteq> Some (ih_parent h) then None
      else
        (let after = ih_after h;
             copied = filter (\<lambda>e. \<not> (ow_type e = OwMember \<and> ow_id e = vg_botId g)) (ih_before h) @
               [\<lparr>ow_id = vg_botId g, ow_type = OwMember, ow_allow = oe_allow after, ow_deny = oe_deny after\<rparr>];
             before = (case ot_before planned of Some b \<Rightarrow> b | None \<Rightarrow> \<lparr>oe_allow = 0, oe_deny = 0\<rparr>)
         in if \<not> sameOverwriteSet (vc_overwrites fresh) copied (vg_guild g) then None
            else Some (planned\<lparr>ot_after := after, ot_granted := oe_allow after AND NOT (oe_allow before),
              ot_masked := (oe_deny after AND NOT (oe_deny before)) AND VOICE_DENY_MASK P,
              ot_cleared := (oe_deny before AND NOT (oe_deny after)) AND VOICE_DENY_MASK P,
              ot_inherited := True, ot_unsyncs := False\<rparr>)))"

datatype read_back = BackPass | BackNormalized | BackFail

definition readBack :: "override_entry \<Rightarrow> override_entry \<Rightarrow> read_back" where
  "readBack after got =
     (if oe_allow got AND oe_allow after \<noteq> oe_allow after \<or> oe_deny got AND oe_allow after \<noteq> 0 then BackFail
      else if oe_allow got AND oe_deny after \<noteq> 0 then BackFail
      else if oe_allow got = oe_allow after \<and> oe_deny got = oe_deny after then BackPass else BackNormalized)"

section \<open>The loop\<close>

record guild_now =
  gn_active :: bool
  gn_onboarding :: bool
  gn_effects :: bool
  gn_revision :: int

record step_world =
  sp_stop :: bool
  sp_late :: bool
  sp_row :: "thrown + guild_now option"
  sp_facts :: "thrown + overrides_facts"
  sp_snapshot :: "thrown + visibility_guild option"
  sp_read :: "channel_read asked"
  sp_category :: "channel_read asked"
  sp_write :: "put_outcome asked"
  sp_back :: "channel_read asked"

record loop_context =
  lc_flags :: flag_bits
  lc_enabled :: bool
  lc_baseline :: overrides_guild
  lc_snapshot :: visibility_guild
  lc_settings :: visibility_settings
  lc_report :: visibility_report
  lc_plan :: "override_target list"

record run_log =
  rl_written :: "(override_target \<times> bool) list"
  rl_skipped :: "ident list"
  rl_refused :: "(ident \<times> int) list"
  rl_unconfirmed :: "ident list"
  rl_normalized :: "ident list"
  rl_hidden :: "ident list"
  rl_denied :: "ident list"
  rl_categories :: "(ident \<times> inherit) list"
  rl_resumed :: "(ident \<times> inherit) list"

definition EMPTY_LOG :: run_log where
  "EMPTY_LOG = \<lparr>rl_written = [], rl_skipped = [], rl_refused = [], rl_unconfirmed = [], rl_normalized = [], rl_hidden = [],
     rl_denied = [], rl_categories = [], rl_resumed = []\<rparr>"

text \<open>How one step ends: on to the next, a stop (with whether this channel is done), or a thrown value.\<close>

datatype flow = Onward | Halt overrides_stop bool | Broke thrown

definition current :: "bool \<Rightarrow> overrides_guild \<Rightarrow> guild_now option \<Rightarrow> bool" where
  "current enabled baseline row =
     (case row of None \<Rightarrow> False
      | Some r \<Rightarrow> gn_active r \<and> \<not> gn_onboarding r \<and> gn_effects r \<and> gn_revision r = gd_revision baseline)"

definition plannedCategories :: "loop_context \<Rightarrow> ident list" where
  "plannedCategories L = map ot_channel (filter ot_category (lc_plan L))"

definition resumable :: "loop_context \<Rightarrow> ident list" where
  "resumable L = map vc_id (filter (\<lambda>c. isCategory c \<and> vc_id c \<notin> set (plannedCategories L) \<and>
     resumeInherit (lc_flags L) (lc_snapshot L) c (lc_settings L) \<noteq> None) (vg_channels (lc_snapshot L)))"

definition private_ids :: "loop_context \<Rightarrow> ident list" where
  "private_ids L = map pc_id (sw_private (vt_sweep (lc_report L)))"

definition step_checks :: "loop_context \<Rightarrow> step_world \<Rightarrow> override_target \<Rightarrow> flow" where
  "step_checks L w t =
     (if sp_stop w then Halt StopStopping False
      else if sp_late w then Halt StopTime False
      else if \<not> lc_enabled L then Halt StopPrecondition False
      else case sp_row w of Inl e \<Rightarrow> Broke e
      | Inr row \<Rightarrow>
          if \<not> current (lc_enabled L) (lc_baseline L) row then Halt StopPrecondition False
          else case sp_facts w of Inl e \<Rightarrow> Broke e
          | Inr f \<Rightarrow>
              if \<not> of_botAdministrator f \<or> \<not> of_basePosting f then Halt StopPrecondition False
              else if \<not> ot_category t then Onward
              else case sp_snapshot w of Inl e \<Rightarrow> Broke e
              | Inr None \<Rightarrow> Halt StopPrecondition False
              | Inr (Some now) \<Rightarrow>
                  if \<exists>c \<in> set (vg_channels now). vc_parent c = Some (ot_channel t) \<and> vc_id c \<in> set (vs_configured (lc_settings L))
                  then Halt StopChanged False else Onward)"

datatype lending = LendingEnds flow | LendingSkips | Lends "inherit option" run_log

definition lend :: "loop_context \<Rightarrow> step_world \<Rightarrow> visibility_channel \<Rightarrow> run_log \<Rightarrow> lending" where
  "lend L w fresh l =
     (case vc_parent fresh of
        None \<Rightarrow> Lends None l
      | Some p \<Rightarrow>
          (case map_of (rl_categories l) p of
             Some h \<Rightarrow> Lends (Some h) l
           | None \<Rightarrow>
               if p \<in> set (plannedCategories L) then LendingSkips
               else if p \<notin> set (resumable L) then Lends None l
               else case map_of (rl_resumed l) p of
                 Some h \<Rightarrow> Lends (Some h) l
               | None \<Rightarrow>
                   (case sp_category w of
                      AbortedCall \<Rightarrow> LendingEnds (Halt StopStopping False)
                    | CallThrew e \<Rightarrow> LendingEnds (Broke e)
                    | Answered r \<Rightarrow>
                        (case r of
                           ReadOk c \<Rightarrow>
                             (case resumeInherit (lc_flags L) (replaced (lc_snapshot L) p (Some c)) c (lc_settings L) of
                                None \<Rightarrow> LendingEnds (Halt StopChanged False)
                              | Some h \<Rightarrow> Lends (Some h) (l\<lparr>rl_resumed := (p, h) # rl_resumed l\<rparr>))
                         | _ \<Rightarrow> LendingEnds (Halt StopChanged False)))))"

definition skip :: "ident \<Rightarrow> run_log \<Rightarrow> run_log" where
  "skip i l = l\<lparr>rl_skipped := rl_skipped l @ [i]\<rparr>"

text \<open>Nothing to write: a copy Discord made, or a channel judged anew.\<close>

definition nothing_to_write ::
  "loop_context \<Rightarrow> override_target \<Rightarrow> visibility_channel \<Rightarrow> inherit option \<Rightarrow> run_log \<Rightarrow> run_log" where
  "nothing_to_write L t fresh inh l =
     (let copied = (case (vc_parent fresh, inh) of
            (Some p, Some h) \<Rightarrow> if map_of (rl_categories l) p = Some h
              then propagatedWrite (lc_flags L) (lc_snapshot L) t fresh h else None
          | _ \<Rightarrow> None)
      in case copied of
           Some x \<Rightarrow> l\<lparr>rl_written := rl_written l @ [(x, True)]\<rparr>
         | None \<Rightarrow>
             (let i = ot_channel t; st = channelState (lc_flags L) (lc_snapshot L) fresh (lc_settings L)
              in skip i (if st = StHidden then l\<lparr>rl_hidden := rl_hidden l @ [i]\<rparr>
                         else if st = StDenied then l\<lparr>rl_denied := rl_denied l @ [i]\<rparr> else l)))"

definition put_entry ::
  "loop_context \<Rightarrow> step_world \<Rightarrow> ident \<Rightarrow> visibility_channel \<Rightarrow> override_target \<Rightarrow> run_log \<Rightarrow> flow \<times> run_log" where
  "put_entry L w i fresh target l =
     (let unconfirmed = l\<lparr>rl_unconfirmed := rl_unconfirmed l @ [i]\<rparr>
      in case sp_write w of
           AbortedCall \<Rightarrow> (Halt StopStopping True, unconfirmed)
         | CallThrew e \<Rightarrow> (Broke e, unconfirmed)
         | Answered PutDeleted \<Rightarrow> (Onward, skip i l)
         | Answered PutForbidden \<Rightarrow> (Halt StopPermissions False, l)
         | Answered (PutRefused code) \<Rightarrow> (Onward, (skip i l)\<lparr>rl_refused := rl_refused l @ [(i, code)]\<rparr>)
         | Answered PutWritten \<Rightarrow>
             (let l = l\<lparr>rl_written := rl_written l @ [(target, False)]\<rparr>;
                  l = (if ot_category target
                       then l\<lparr>rl_categories := (i, \<lparr>ih_parent = i, ih_before = vc_overwrites fresh, ih_after = ot_after target\<rparr>) # rl_categories l\<rparr>
                       else l)
              in case sp_back w of
                   AbortedCall \<Rightarrow> (Halt StopStopping True, l)
                 | CallThrew e \<Rightarrow> (Broke e, l)
                 | Answered ReadDeleted \<Rightarrow> (Onward, l)
                 | Answered ReadHidden \<Rightarrow> (Halt StopChanged True, l)
                 | Answered (ReadOk c) \<Rightarrow>
                     (case readBack (ot_after target) (own_bits (lc_snapshot L) c) of
                        BackFail \<Rightarrow> (Halt StopChanged True, l)
                      | BackNormalized \<Rightarrow> (Onward, l\<lparr>rl_normalized := rl_normalized l @ [i]\<rparr>)
                      | BackPass \<Rightarrow> (Onward, l))))"

definition write_fresh ::
  "loop_context \<Rightarrow> step_world \<Rightarrow> override_target \<Rightarrow> visibility_channel \<Rightarrow> run_log \<Rightarrow> flow \<times> run_log" where
  "write_fresh L w t fresh l =
     (let i = ot_channel t
      in if i \<in> set (private_ids L) \<or> (\<exists>p \<in> set (private_ids L). vc_parent fresh = Some p) then (Onward, skip i l)
         else case lend L w fresh l of
           LendingEnds f \<Rightarrow> (f, l)
         | LendingSkips \<Rightarrow> (Onward, skip i l)
         | Lends inh l \<Rightarrow>
             (case overrideTarget (lc_flags L) (lc_snapshot L) fresh (lc_settings L) inh of
                None \<Rightarrow> (Onward, nothing_to_write L t fresh inh l)
              | Some target \<Rightarrow> put_entry L w i fresh target l))"

definition loop_one :: "loop_context \<Rightarrow> step_world \<Rightarrow> override_target \<Rightarrow> run_log \<Rightarrow> flow \<times> run_log" where
  "loop_one L w t l =
     (case step_checks L w t of
        Onward \<Rightarrow>
          (case sp_read w of
             AbortedCall \<Rightarrow> (Halt StopStopping False, l)
           | CallThrew e \<Rightarrow> (Broke e, l)
           | Answered ReadDeleted \<Rightarrow> (Onward, skip (ot_channel t) l)
           | Answered ReadHidden \<Rightarrow> (Halt StopPermissions False, l)
           | Answered (ReadOk fresh) \<Rightarrow> write_fresh L w t fresh l)
      | f \<Rightarrow> (f, l))"

datatype loop_end = LoopDone | LoopStopped overrides_stop nat | LoopThrew thrown

fun loop_over :: "loop_context \<Rightarrow> (nat \<Rightarrow> step_world) \<Rightarrow> nat \<Rightarrow> override_target list \<Rightarrow> run_log \<Rightarrow> loop_end \<times> run_log" where
  "loop_over L w k [] l = (LoopDone, l)"
| "loop_over L w k (t # ts) l =
     (case loop_one L (w k) t l of
        (Onward, l) \<Rightarrow> loop_over L w (Suc k) ts l
      | (Halt why reached, l) \<Rightarrow> (LoopStopped why (length ts + (if reached then 0 else 1)), l)
      | (Broke e, l) \<Rightarrow> (LoopThrew e, l))"

section \<open>The view\<close>

text \<open>The answers of one fresh read before the plan: a drain, the deadline, the read.\<close>

record view_world =
  vw_aborted :: bool
  vw_late :: bool
  vw_read :: "channel_read asked"

fun view_over ::
  "flag_bits \<Rightarrow> visibility_guild \<Rightarrow> (nat \<Rightarrow> view_world) \<Rightarrow> nat \<Rightarrow> visibility_channel list \<Rightarrow> visibility_guild \<Rightarrow>
   thrown + (visibility_guild \<times> overrides_stop option)" where
  "view_over P cached w k [] g = Inr (g, None)"
| "view_over P cached w k (c # cs) g =
     (if \<not> unreadable P cached c then view_over P cached w k cs g
      else if vw_aborted (w k) then Inr (g, Some StopStopping)
      else if vw_late (w k) then Inr (g, Some StopTime)
      else case vw_read (w k) of
        CallThrew e \<Rightarrow> Inl e
      | AbortedCall \<Rightarrow> Inr (g, Some StopStopping)
      | Answered r \<Rightarrow> view_over P cached w (Suc k) cs
          (case r of ReadOk x \<Rightarrow> replaced g (vc_id c) (Some x) | ReadDeleted \<Rightarrow> replaced g (vc_id c) None | ReadHidden \<Rightarrow> g))"

record run_view =
  rv_snapshot :: visibility_guild
  rv_settings :: visibility_settings
  rv_recorded :: "ident list"
  rv_cut :: "overrides_stop option"

definition not_delivered :: failure where
  "not_delivered = mk_failure F_transient
     (Literal (''Discord hasn'' @ [CHR 0x27] @ ''t delivered this server'' @ [CHR 0x27] @ ''s channels yet. Try again in a minute.''))"

record overrides_world =
  oq_flags :: flag_bits
  oq_enabled :: bool
  oq_draining :: bool
  oq_guild :: "failure + overrides_guild"
  oq_facts :: "thrown + overrides_facts"
  oq_locked :: bool
  oq_baseline :: "failure + overrides_guild"
  oq_records :: "thrown + visibility_records"
  oq_cached :: "thrown + visibility_guild option"
  oq_view :: "nat \<Rightarrow> view_world"
  oq_steps :: "nat \<Rightarrow> step_world"
  oq_now :: int
  oq_others :: "nat \<Rightarrow> job list \<Rightarrow> job list"
  oq_transaction :: "thrown option"
  oq_conflict :: thrown

definition view :: "overrides_world \<Rightarrow> overrides_guild \<Rightarrow> bool \<Rightarrow> thrown + run_view" where
  "view w guild administrator =
     (case oq_records w of Inl e \<Rightarrow> Inl e
      | Inr records \<Rightarrow>
          (case oq_cached w of Inl e \<Rightarrow> Inl e
           | Inr None \<Rightarrow> Inl (ThrownFailure not_delivered)
           | Inr (Some cached) \<Rightarrow>
               (case (if administrator then view_over (oq_flags w) cached (oq_view w) 0 (vg_channels cached) cached
                      else Inr (cached, None)) of
                  Inl e \<Rightarrow> Inl e
                | Inr (g, early) \<Rightarrow> Inr \<lparr>rv_snapshot = g, rv_settings = visibilitySettings (config_of guild) records,
                    rv_recorded = vr_hidden records, rv_cut = early\<rparr>)))"

section \<open>Results\<close>

record overrides_common =
  oc_hidden :: "ident list"
  oc_via :: "ident list"
  oc_denied :: "ident list"
  oc_private :: "private_category list"
  oc_grant :: "perm_flag list"
  oc_roles :: "ident list"
  oc_shared :: "ident list"
  oc_mode :: effects_mode

record run_result =
  rr_stopped :: "overrides_stop option"
  rr_written :: "overrides_write list"
  rr_skipped :: "ident list"
  rr_refused :: "ident list"
  rr_unconfirmed :: "ident list"
  rr_normalized :: "ident list"
  rr_remaining :: nat
  rr_requeued :: nat

text \<open>A run's status is \<open>stopped\<close> where it stopped, else \<open>applied\<close>.\<close>

datatype overrides_result =
    ResultOnboarding effects_mode
  | ResultPlan overrides_common "overrides_write list" "ident list" "overrides_blocker list"
  | ResultNothing overrides_common nat
  | ResultRun overrides_common run_result

definition mode_of :: "overrides_world \<Rightarrow> overrides_guild \<Rightarrow> effects_mode" where
  "mode_of w g = effectsMode (oq_enabled w) (guild_row.truncate g)"

definition effectsOn :: "overrides_world \<Rightarrow> overrides_guild \<Rightarrow> bool" where
  "effectsOn w g \<longleftrightarrow> oq_enabled w \<and> gd_effects g"

definition common :: "overrides_world \<Rightarrow> overrides_guild \<Rightarrow> visibility_report \<Rightarrow> ident list \<Rightarrow> ident list \<Rightarrow> overrides_common" where
  "common w g r hidden denied =
     \<lparr>oc_hidden = js_set (sw_hidden (vt_sweep r) @ hidden), oc_via = sw_via (vt_sweep r),
      oc_denied = js_set (sw_denied (vt_sweep r) @ denied), oc_private = sw_private (vt_sweep r),
      oc_grant = map cr_permission (filter (\<lambda>row. cr_source row = FromNowhere) (rc_core r)),
      oc_roles = av_roles (rc_administrator r), oc_shared = av_shared (rc_administrator r), oc_mode = mode_of w g\<rparr>"

definition dry_run :: "overrides_world \<Rightarrow> overrides_guild \<Rightarrow> overrides_facts \<Rightarrow> thrown + overrides_result" where
  "dry_run w g f =
     (case view w g (of_botAdministrator f) of Inl e \<Rightarrow> Inl e
      | Inr v \<Rightarrow>
          (let P = oq_flags w; report = analyseVisibility P (rv_snapshot v) (rv_settings v);
               writes = map (writeOf P) (planOverrides P (rv_snapshot v) (rv_settings v));
               blockers = (if of_callerAllowed f \<noteq> Some True then [BlockedCaller] else []) @
                 (if \<not> effectsOn w g then [BlockedEffects] else []) @
                 (if \<not> of_botAdministrator f then [BlockedAdministrator] else []) @
                 (if \<not> of_basePosting f then [BlockedBase] else []);
               c = common w g report [] []; hidden = sw_unreadable (vt_sweep report)
           in Inr (if writes = [] \<and> hidden = [] then ResultNothing c 0 else ResultPlan c writes hidden blockers)))"

section \<open>The record of a run\<close>

record written_row =
  wt_id :: ident
  wt_category :: bool
  wt_before :: "override_entry option"
  wt_after :: override_entry
  wt_propagated :: bool

record overrides_audit =
  oa_actor :: ident
  oa_written :: "written_row list"
  oa_skipped :: "ident list"
  oa_refused :: "(ident \<times> int) list"
  oa_unconfirmed :: "ident list"
  oa_normalized :: "ident list"
  oa_hidden :: "ident list"
  oa_stopped :: "overrides_stop option"
  oa_failed :: bool
  oa_remaining :: "nat option"

record overrides_db =
  od_queue :: queue_db
  od_audit :: "overrides_audit list"

text \<open>\<open>join\<close> with a comma.\<close>

fun joined :: "ident list \<Rightarrow> string" where
  "joined [] = []"
| "joined [x] = x"
| "joined (x # y # xs) = x @ '','' @ joined (y # xs)"

definition code_unit_sort :: "ident list \<Rightarrow> ident list" where
  "code_unit_sort xs = sort_by locale_compare xs"

record run_summary =
  rs_stopped :: "overrides_stop option"
  rs_failed :: bool
  rs_planned :: "nat option"
  rs_nothing :: bool
  rs_before :: "ident list"
  rs_recorded :: "ident list option"

definition hidden_set :: "run_summary \<Rightarrow> run_log \<Rightarrow> ident list" where
  "hidden_set x l = code_unit_sort (js_set ((case rs_recorded x of Some r \<Rightarrow> r | None \<Rightarrow> rs_before x) @ rl_hidden l @ rl_denied l))"

definition audited_run :: "run_summary \<Rightarrow> run_log \<Rightarrow> bool" where
  "audited_run x l \<longleftrightarrow> rl_written l \<noteq> [] \<or> rl_unconfirmed l \<noteq> [] \<or> rl_refused l \<noteq> [] \<or>
     joined (hidden_set x l) \<noteq> joined (code_unit_sort (js_set (rs_before x)))"

definition requeues :: "run_summary \<Rightarrow> run_log \<Rightarrow> bool" where
  "requeues x l \<longleftrightarrow> rl_written l \<noteq> [] \<or> rl_unconfirmed l \<noteq> [] \<or> rs_nothing x"

definition reached :: "run_log \<Rightarrow> ident list" where
  "reached l = js_set (map (\<lambda>(t, _). ot_channel t) (rl_written l) @ rl_skipped l @ rl_unconfirmed l)"

definition audit_of :: "ident \<Rightarrow> run_summary \<Rightarrow> run_log \<Rightarrow> overrides_audit" where
  "audit_of actor x l =
     \<lparr>oa_actor = actor,
      oa_written = map (\<lambda>(t, p). \<lparr>wt_id = ot_channel t, wt_category = ot_category t, wt_before = ot_before t,
        wt_after = ot_after t, wt_propagated = p\<rparr>) (rl_written l),
      oa_skipped = rl_skipped l, oa_refused = rl_refused l, oa_unconfirmed = rl_unconfirmed l,
      oa_normalized = rl_normalized l, oa_hidden = hidden_set x l, oa_stopped = rs_stopped x, oa_failed = rs_failed x,
      oa_remaining = map_option (\<lambda>n. n - length (reached l)) (rs_planned x)\<rparr>"

text \<open>One transaction: the audit row and the requeued jobs, both or neither.\<close>

definition record_run ::
  "overrides_world \<Rightarrow> ident \<Rightarrow> ident \<Rightarrow> run_summary \<Rightarrow> run_log \<Rightarrow> overrides_db \<Rightarrow> thrown + (nat \<times> overrides_db)" where
  "record_run w guild actor x l d =
     (if \<not> audited_run x l \<and> \<not> requeues x l then Inr (0, d)
      else case oq_transaction w of Some e \<Rightarrow> Inl e
      | None \<Rightarrow>
          (let d = (if audited_run x l then d\<lparr>od_audit := od_audit d @ [audit_of actor x l]\<rparr> else d)
           in if \<not> requeues x l then Inr (0, d)
              else case requeueParked (oq_now w) [guild] [RowBlocked, RowDisabled] (oq_others w) (od_queue d) of
                None \<Rightarrow> Inl (oq_conflict w)
              | Some (ids, q) \<Rightarrow> Inr (length ids, d\<lparr>od_queue := q\<rparr>)))"

section \<open>The real run\<close>

text \<open>What the run ends with; two values are thrown together as an \<open>AggregateError\<close>.\<close>

datatype overrides_end = RunResult overrides_result | RunThrew thrown | RunThrewBoth thrown thrown

definition no_run :: "nat \<Rightarrow> overrides_stop option \<Rightarrow> run_result" where
  "no_run n why = \<lparr>rr_stopped = why, rr_written = [], rr_skipped = [], rr_refused = [], rr_unconfirmed = [], rr_normalized = [],
     rr_remaining = n, rr_requeued = 0\<rparr>"

definition run_of :: "flag_bits \<Rightarrow> run_log \<Rightarrow> overrides_stop option \<Rightarrow> nat \<Rightarrow> run_result" where
  "run_of P l why n = \<lparr>rr_stopped = why, rr_written = map (\<lambda>(t, _). writeOf P t) (rl_written l), rr_skipped = rl_skipped l,
     rr_refused = map fst (rl_refused l), rr_unconfirmed = rl_unconfirmed l, rr_normalized = rl_normalized l,
     rr_remaining = n, rr_requeued = 0\<rparr>"

definition context_of :: "overrides_world \<Rightarrow> overrides_guild \<Rightarrow> run_view \<Rightarrow> loop_context" where
  "context_of w g v =
     \<lparr>lc_flags = oq_flags w, lc_enabled = oq_enabled w, lc_baseline = g, lc_snapshot = rv_snapshot v, lc_settings = rv_settings v,
      lc_report = analyseVisibility (oq_flags w) (rv_snapshot v) (rv_settings v),
      lc_plan = planOverrides (oq_flags w) (rv_snapshot v) (rv_settings v)\<rparr>"

text \<open>What this run judged from real data, and what was recorded and could not be looked at.\<close>

definition recorded_of :: "loop_context \<Rightarrow> ident list \<Rightarrow> ident list" where
  "recorded_of L before =
     (let readable = map vc_id (filter (\<lambda>c. \<not> unreadable (lc_flags L) (lc_snapshot L) c) (vg_channels (lc_snapshot L)))
      in filter (\<lambda>i. i \<in> set readable) (sw_hidden (vt_sweep (lc_report L)) @ sw_denied (vt_sweep (lc_report L))) @
         filter (\<lambda>i. i \<in> vc_id ` set (vg_channels (lc_snapshot L)) \<and> i \<notin> set readable) before)"

definition run_body ::
  "overrides_world \<Rightarrow> overrides_guild \<Rightarrow> (thrown + overrides_result) \<times> run_summary \<times> run_log" where
  "run_body w g =
     (case view w g True of
        Inl e \<Rightarrow> (Inl e, \<lparr>rs_stopped = None, rs_failed = True, rs_planned = None, rs_nothing = False, rs_before = [], rs_recorded = None\<rparr>,
                 EMPTY_LOG)
      | Inr v \<Rightarrow>
          (let L = context_of w g v; n = length (lc_plan L); c = common w g (lc_report L);
               x = \<lparr>rs_stopped = None, rs_failed = False, rs_planned = Some n, rs_nothing = False, rs_before = rv_recorded v,
                    rs_recorded = Some (recorded_of L (rv_recorded v))\<rparr>
           in if rv_cut v \<noteq> None then (Inr (ResultRun (c [] []) (no_run n (rv_cut v))), x\<lparr>rs_stopped := rv_cut v\<rparr>, EMPTY_LOG)
              else if n = 0 then (Inr (ResultNothing (c [] []) 0), x\<lparr>rs_nothing := True\<rparr>, EMPTY_LOG)
              else case loop_over L (oq_steps w) 0 (lc_plan L) EMPTY_LOG of
                (LoopThrew e, l) \<Rightarrow> (Inl e, x\<lparr>rs_failed := True\<rparr>, l)
              | (LoopStopped why m, l) \<Rightarrow>
                  (Inr (ResultRun (c (rl_hidden l) (rl_denied l)) (run_of (oq_flags w) l (Some why) m)), x\<lparr>rs_stopped := Some why\<rparr>, l)
              | (LoopDone, l) \<Rightarrow> (Inr (ResultRun (c (rl_hidden l) (rl_denied l)) (run_of (oq_flags w) l None 0)), x, l)))"

fun with_requeued :: "nat \<Rightarrow> overrides_result \<Rightarrow> overrides_result" where
  "with_requeued n (ResultNothing c m) = ResultNothing c n"
| "with_requeued n (ResultRun c r) = ResultRun c (r\<lparr>rr_requeued := n\<rparr>)"
| "with_requeued n r = r"

definition locked_run :: "overrides_world \<Rightarrow> actor \<Rightarrow> overrides_db \<Rightarrow> overrides_end \<times> overrides_db" where
  "locked_run w a d =
     (case oq_baseline w of Inl f \<Rightarrow> (RunThrew (ThrownFailure f), d)
      | Inr g \<Rightarrow>
          if gd_access_policy g then (RunResult (ResultOnboarding (mode_of w g)), d)
          else if \<not> effectsOn w g then (RunThrew (ThrownFailure (effectsPaused (oq_enabled w))), d)
          else
            (let (result, x, l) = run_body w g
             in case record_run w (gd_id g) (act_user a) x l d of
                  Inl e \<Rightarrow> (case result of Inl f \<Rightarrow> (RunThrewBoth f e, d) | Inr _ \<Rightarrow> (RunThrew e, d))
                | Inr (n, d) \<Rightarrow> (case result of Inl f \<Rightarrow> (RunThrew f, d) | Inr r \<Rightarrow> (RunResult (with_requeued n r), d))))"

definition apply_run :: "overrides_world \<Rightarrow> actor \<Rightarrow> overrides_db \<Rightarrow> overrides_end \<times> overrides_db" where
  "apply_run w a d =
     (if \<not> oq_locked w then (RunThrew (ThrownFailure (mk_failure F_busy (Literal BUSY_REFUSAL))), d) else locked_run w a d)"

definition run_preconditions :: "overrides_world \<Rightarrow> overrides_guild \<Rightarrow> overrides_facts \<Rightarrow> failure + unit" where
  "run_preconditions w g f =
     (if oq_draining w then Inl (mk_failure F_stopping (Literal ''Shutdown began before /setup overrides could start.''))
      else if of_callerAllowed f \<noteq> Some True
      then Inl (mk_failure_detail F_forbidden (Literal CALLER_REFUSAL) (DScope Scope_administrator None None None))
      else if \<not> effectsOn w g then Inl (effectsPaused (oq_enabled w))
      else if \<not> of_botAdministrator f then Inl (mk_failure F_blocked (Literal ADMINISTRATOR_REFUSAL))
      else if \<not> of_basePosting f then Inl (mk_failure F_blocked (Literal BASE_REFUSAL))
      else Inr ())"

definition run_overrides :: "overrides_world \<Rightarrow> actor \<Rightarrow> bool \<Rightarrow> overrides_db \<Rightarrow> overrides_end \<times> overrides_db" where
  "run_overrides w a confirm d =
     (case requirePermission a (act_guild a) P_admin_setup None of Inl f \<Rightarrow> (RunThrew (ThrownFailure f), d)
      | Inr _ \<Rightarrow>
          (case oq_guild w of Inl f \<Rightarrow> (RunThrew (ThrownFailure f), d)
           | Inr g \<Rightarrow>
               if gd_access_policy g then (RunResult (ResultOnboarding (mode_of w g)), d)
               else case oq_facts w of Inl e \<Rightarrow> (RunThrew e, d)
               | Inr f \<Rightarrow>
                   if \<not> confirm
                   then (case dry_run w g f of Inl e \<Rightarrow> (RunThrew e, d) | Inr r \<Rightarrow> (RunResult r, d))
                   else case run_preconditions w g f of Inl e \<Rightarrow> (RunThrew (ThrownFailure e), d)
                   | Inr _ \<Rightarrow> apply_run w a d))"

end
