(* ===== verification/OverrideRunPromises.thy ===== *)
theory OverrideRunPromises
  imports OverrideRun OverridePromises
begin

text \<open>
  What a real run of \<open>/setup overrides\<close> promises: it deals with every planned channel once and counts what
  it left, it writes only what its checks and a fresh read of the channel allow, and where nothing
  interferes it carries out exactly the plan.
\<close>

section \<open>One step\<close>

definition dealt :: "run_log \<Rightarrow> ident list" where
  "dealt l = map (\<lambda>(t, _). ot_channel t) (rl_written l) @ rl_skipped l @ rl_unconfirmed l"

text \<open>Whether a step's channel is done when it ends so.\<close>

fun done_with :: "flow \<Rightarrow> bool" where
  "done_with Onward = True"
| "done_with (Halt _ r) = r"
| "done_with (Broke _) = False"

definition dealt_more :: "ident \<Rightarrow> run_log \<Rightarrow> flow \<times> run_log \<Rightarrow> bool" where
  "dealt_more i l r \<longleftrightarrow>
     (case fst r of Broke _ \<Rightarrow> mset (dealt (snd r)) = mset (dealt l) \<or> mset (dealt (snd r)) = add_mset i (mset (dealt l))
      | f \<Rightarrow> mset (dealt (snd r)) = (if done_with f then add_mset i (mset (dealt l)) else mset (dealt l)))"

lemma dealt_changes [simp]:
  "mset (dealt (skip i l)) = add_mset i (mset (dealt l))"
  "mset (dealt (l\<lparr>rl_unconfirmed := rl_unconfirmed l @ [i]\<rparr>)) = add_mset i (mset (dealt l))"
  "mset (dealt (l\<lparr>rl_written := rl_written l @ [(t, b)]\<rparr>)) = add_mset (ot_channel t) (mset (dealt l))"
  "dealt (l\<lparr>rl_refused := r\<rparr>) = dealt l" "dealt (l\<lparr>rl_normalized := n\<rparr>) = dealt l" "dealt (l\<lparr>rl_hidden := h\<rparr>) = dealt l"
  "dealt (l\<lparr>rl_denied := h\<rparr>) = dealt l" "dealt (l\<lparr>rl_categories := c\<rparr>) = dealt l" "dealt (l\<lparr>rl_resumed := x\<rparr>) = dealt l"
  by (simp_all add: dealt_def skip_def)

lemma propagated_channel: "propagatedWrite P g t fresh h = Some x \<Longrightarrow> ot_channel x = ot_channel t"
  by (auto simp: propagatedWrite_def Let_def split: if_splits)

lemma lend_dealt: "lend L w fresh l = Lends inh l' \<Longrightarrow> dealt l' = dealt l \<and> rl_written l' = rl_written l"
  by (auto simp: lend_def split: option.splits if_splits asked.splits channel_read.splits)

lemma put_dealt:
  assumes "ot_channel target = i"
  shows "dealt_more i l (put_entry L w i fresh target l)"
  using assms unfolding put_entry_def dealt_more_def Let_def
  by (auto split: asked.split put_outcome.split channel_read.split read_back.split)

lemma nothing_dealt: "mset (dealt (nothing_to_write L t fresh inh l)) = add_mset (ot_channel t) (mset (dealt l))"
  unfolding nothing_to_write_def Let_def
  by (auto simp: propagated_channel split: option.split if_splits dest: propagated_channel)

lemma overrideTarget_channel: "overrideTarget P g c s inh = Some t \<Longrightarrow> ot_channel t = vc_id c"
  unfolding overrideTarget_def by (rule targetOf_Some(5))

lemma lend_ends: "lend L w fresh l = LendingEnds f \<Longrightarrow> \<not> done_with f"
  by (auto simp: lend_def split: option.splits if_splits asked.splits channel_read.splits)

lemma undone_keeps: "\<not> done_with f \<Longrightarrow> dealt_more i l (f, l)"
  by (cases f) (auto simp: dealt_more_def)

lemma dealt_more_same: "dealt l1 = dealt l \<Longrightarrow> dealt_more i l1 r = dealt_more i l r"
  unfolding dealt_more_def by (rule arg_cong [where f = "\<lambda>d. case fst r of Broke _ \<Rightarrow>
     mset (dealt (snd r)) = mset d \<or> mset (dealt (snd r)) = add_mset i (mset d)
      | f \<Rightarrow> mset (dealt (snd r)) = (if done_with f then add_mset i (mset d) else mset d)"])

lemma loop_one_dealt:
  assumes "\<And>x. sp_read w = Answered (ReadOk x) \<Longrightarrow> vc_id x = ot_channel t"
  shows "dealt_more (ot_channel t) l (loop_one L w t l)"
proof -
  have skipped: "dealt_more (ot_channel t) l (Onward, skip (ot_channel t) l)" by (simp add: dealt_more_def)
  have w: "dealt_more (ot_channel t) l (write_fresh L w t x l)" if x: "vc_id x = ot_channel t" for x
  proof (cases "lend L w x l")
    case (Lends inh l1)
    note k = lend_dealt [OF Lends]
    have put: "dealt_more (ot_channel t) l (put_entry L w (ot_channel t) x target l1)"
      if "overrideTarget (lc_flags L) (lc_snapshot L) x (lc_settings L) inh = Some target" for target
      using put_dealt [of target "ot_channel t" l1 L w x] overrideTarget_channel [OF that] x k
        dealt_more_same [of l1 l] by simp
    have none: "dealt_more (ot_channel t) l (Onward, nothing_to_write L t x inh l1)"
      using nothing_dealt [of L t x inh l1] k by (simp add: dealt_more_def)
    show ?thesis using put none skipped
      unfolding write_fresh_def Let_def Lends lending.case by (auto split: option.split)
  next
    case (LendingEnds f)
    then show ?thesis using undone_keeps [OF lend_ends [OF LendingEnds]] skipped by (simp add: write_fresh_def Let_def)
  next
    case LendingSkips
    then show ?thesis using skipped by (simp add: write_fresh_def Let_def)
  qed
  have c: "step_checks L w t = Onward \<or> \<not> done_with (step_checks L w t)"
    by (auto simp: step_checks_def split: sum.split option.split)
  show ?thesis
  proof (cases "step_checks L w t")
    case Onward
    then show ?thesis using w [OF assms] skipped undone_keeps
      unfolding loop_one_def by (auto split: asked.split channel_read.split)
  next
    case (Halt x2 x3)
    then have "\<not> done_with (Halt x2 x3)" using c by auto
    then show ?thesis using Halt undone_keeps by (simp add: loop_one_def)
  next
    case (Broke x)
    then show ?thesis using undone_keeps [of "Broke x"] by (simp add: loop_one_def)
  qed
qed

definition reads_honest :: "(nat \<Rightarrow> step_world) \<Rightarrow> nat \<Rightarrow> override_target list \<Rightarrow> bool" where
  "reads_honest w k ts \<longleftrightarrow> (\<forall>i < length ts. \<forall>x. sp_read (w (k + i)) = Answered (ReadOk x) \<longrightarrow> vc_id x = ot_channel (ts ! i))"

lemma reads_honest_Cons:
  assumes "reads_honest w k (t # ts)"
  shows "\<And>x. sp_read (w k) = Answered (ReadOk x) \<Longrightarrow> vc_id x = ot_channel t" "reads_honest w (Suc k) ts"
  using assms unfolding reads_honest_def by (auto dest: spec [of _ 0] spec [of _ "Suc _"]) 

lemma loop_over_dealt:
  assumes "loop_over L w k ts l = (e, l')" "reads_honest w k ts"
  shows "(e = LoopDone \<longrightarrow> mset (dealt l') = mset (dealt l) + mset (map ot_channel ts)) \<and>
    (\<forall>why n. e = LoopStopped why n \<longrightarrow> n \<le> length ts \<and>
       mset (dealt l') = mset (dealt l) + mset (map ot_channel (take (length ts - n) ts)))"
  using assms
proof (induction ts arbitrary: k l)
  case Nil
  then show ?case by simp
next
  case (Cons t ts)
  note h = reads_honest_Cons [OF Cons.prems(2)]
  have one: "dealt_more (ot_channel t) l (loop_one L (w k) t l)" by (rule loop_one_dealt [OF h(1)])
  obtain f l1 where f: "loop_one L (w k) t l = (f, l1)" by (cases "loop_one L (w k) t l")
  show ?case
  proof (cases f)
    case Onward
    then have "loop_over L w (Suc k) ts l1 = (e, l')" using Cons.prems(1) f by simp
    note ih = Cons.IH [OF this h(2)]
    have m: "mset (dealt l1) = add_mset (ot_channel t) (mset (dealt l))" using one f Onward by (simp add: dealt_more_def)
    show ?thesis using ih m by (auto simp: Suc_diff_le)
  next
    case (Halt why r)
    then have e: "e = LoopStopped why (length ts + (if r then 0 else 1))" "l' = l1" using Cons.prems(1) f by auto
    have m: "mset (dealt l1) = (if r then add_mset (ot_channel t) (mset (dealt l)) else mset (dealt l))"
      using one f Halt by (simp add: dealt_more_def)
    show ?thesis using e m by auto
  next
    case (Broke x)
    then have "e = LoopThrew x" using Cons.prems(1) f by auto
    then show ?thesis by simp
  qed
qed

section \<open>Planned channels, once each\<close>

lemma distinct_reportOrder:
  assumes ids: "distinct (map vc_id cs)"
  shows "distinct (reportOrder cs)"
proof -
  let ?K = "sort_by byPosition (filter isCategory cs)"
  let ?B = "\<lambda>k. sort_by byPosition (filter (\<lambda>c. \<not> isCategory c \<and> vc_parent c = Some (vc_id k)) cs)"
  have cs: "distinct cs" using ids by (simp add: distinct_map)
  have inj: "inj_on vc_id (set cs)" using ids by (simp add: distinct_map)
  have same: "k = k'" if "k \<in> set ?K" "k' \<in> set ?K" "vc_id k = vc_id k'" for k k'
    using inj_onD [OF inj that(3)] that(1,2) by simp
  have "distinct (concat (map (\<lambda>k. k # ?B k) ?K))"
  proof (rule distinct_concat)
    show "distinct (map (\<lambda>k. k # ?B k) ?K)" using cs by (simp add: distinct_map inj_on_def)
  next
    fix ys assume "ys \<in> set (map (\<lambda>k. k # ?B k) ?K)" then show "distinct ys" using cs by auto
  next
    fix ys zs assume y: "ys \<in> set (map (\<lambda>k. k # ?B k) ?K)" "zs \<in> set (map (\<lambda>k. k # ?B k) ?K)" "ys \<noteq> zs"
    then obtain k k' where k: "ys = k # ?B k" "k \<in> set ?K" "zs = k' # ?B k'" "k' \<in> set ?K" by auto
    then have ne: "k \<noteq> k'" using y(3) by auto
    then have "vc_id k \<noteq> vc_id k'" using same k(2,4) by blast
    then show "set ys \<inter> set zs = {}" using k ne by auto
  qed
  moreover have "set (sort_by byPosition (filter (\<lambda>c. \<not> isCategory c \<and> \<not> inCategory (map vc_id ?K) c) cs)) \<inter>
      set (concat (map (\<lambda>k. k # ?B k) ?K)) = {}"
    by (auto simp: inCategory_def split: option.splits)
  ultimately show ?thesis using cs by (simp only: reportOrder_def Let_def distinct_append distinct_sort_by) (simp add: distinct_sort_by)
qed

lemma map_filter_channels:
  assumes f: "\<And>c t. f c = Some t \<Longrightarrow> ot_channel t = vc_id c" and "distinct (map vc_id cs)"
  shows "distinct (map ot_channel (List.map_filter f cs)) \<and> ot_channel ` set (List.map_filter f cs) \<subseteq> vc_id ` set cs"
  using assms(2)
proof (induction cs)
  case (Cons c cs)
  then have ih: "distinct (map ot_channel (List.map_filter f cs))" "ot_channel ` set (List.map_filter f cs) \<subseteq> vc_id ` set cs"
    and c: "vc_id c \<notin> vc_id ` set cs" by auto
  show ?case
  proof (cases "f c")
    case None
    then show ?thesis using ih by (auto simp: map_filter_simps)
  next
    case (Some t)
    have "ot_channel t \<notin> ot_channel ` set (List.map_filter f cs)" using f [OF Some] ih(2) c by (metis subsetD)
    then show ?thesis using Some ih f [OF Some] by (auto simp: map_filter_simps)
  qed
qed (simp add: map_filter_simps)

lemma distinct_plan:
  assumes ok: "plan_ok P g s"
  shows "distinct (map ot_channel (planOverrides P g s))"
proof -
  let ?C = "sort_by byPosition (filter isCategory (vg_channels g))"
  let ?D = "filter (\<lambda>c. \<not> isCategory c) (reportOrder (vg_channels g))"
  have ids: "distinct (map vc_id (vg_channels g))" using ok by (simp add: plan_ok_def)
  then have inj: "inj_on vc_id (set (vg_channels g))" by (simp add: distinct_map)
  have d1: "distinct (map vc_id ?C)" using ids by (simp add: distinct_map_filter)
  have d2: "distinct (map vc_id ?D)"
    using distinct_reportOrder [OF ids] inj by (auto simp: distinct_map intro: inj_on_subset)
  have dis: "vc_id ` set ?C \<inter> vc_id ` set ?D = {}"
    using inj by (auto dest: inj_onD)
  let ?f = "\<lambda>c. targetOf P g c s None (planContext P g s)"
  let ?h = "\<lambda>c. targetOf P g c s (inheritFor P g s (planContext P g s) (planned_categories P g s) c) (planContext P g s)"
  have a: "distinct (map ot_channel (List.map_filter ?f ?C)) \<and> ot_channel ` set (List.map_filter ?f ?C) \<subseteq> vc_id ` set ?C"
    by (rule map_filter_channels [OF _ d1]) (erule targetOf_Some(5))
  have b: "distinct (map ot_channel (List.map_filter ?h ?D)) \<and> ot_channel ` set (List.map_filter ?h ?D) \<subseteq> vc_id ` set ?D"
    by (rule map_filter_channels [OF _ d2]) (erule targetOf_Some(5))
  have "planOverrides P g s = List.map_filter ?f ?C @ List.map_filter ?h ?D"
    by (simp only: planOverrides_def planned_categories_def Let_def)
  moreover have "distinct (map ot_channel (List.map_filter ?f ?C @ List.map_filter ?h ?D))"
    unfolding map_append distinct_append set_map using a b dis by blast
  ultimately show ?thesis by simp
qed

lemma dealt_empty [simp]: "dealt EMPTY_LOG = []"
  by (simp add: dealt_def EMPTY_LOG_def)

lemma reached_dealt: "reached l = js_set (dealt l)"
  by (simp add: reached_def dealt_def)

lemma loop_counts:
  assumes "loop_over L w 0 (lc_plan L) EMPTY_LOG = (e, l)" "reads_honest w 0 (lc_plan L)" "distinct (map ot_channel (lc_plan L))"
  shows "(e = LoopDone \<longrightarrow> length (reached l) = length (lc_plan L)) \<and>
    (\<forall>why n. e = LoopStopped why n \<longrightarrow> n \<le> length (lc_plan L) \<and> length (reached l) + n = length (lc_plan L))"
proof -
  note d = loop_over_dealt [OF assms(1,2)]
  have len: "length (reached l) = length xs" if "mset (dealt l) = mset xs" "distinct xs" for xs
  proof -
    have "distinct (dealt l)" using that mset_eq_imp_distinct_iff by blast
    then have "reached l = dealt l" by (simp add: reached_dealt js_set_id)
    then show ?thesis using that(1) by (metis size_mset)
  qed
  have tk: "distinct (map ot_channel (take m (lc_plan L)))" for m
    using assms(3) by (simp add: take_map [symmetric] distinct_take)
  show ?thesis using d len [OF _ assms(3)] len [OF _ tk] by auto
qed

section \<open>What was written\<close>

definition rightly_written :: "loop_context \<Rightarrow> (nat \<Rightarrow> step_world) \<Rightarrow> override_target list \<Rightarrow> nat \<Rightarrow> override_target \<Rightarrow> bool" where
  "rightly_written L w ts k t \<longleftrightarrow>
     (\<exists>i < length ts. \<exists>f. sp_read (w (k + i)) = Answered (ReadOk f) \<and> step_checks L (w (k + i)) (ts ! i) = Onward \<and>
        ot_channel t = vc_id f \<and> \<not> deliberate_deny (lc_flags L) (lc_snapshot L) f \<and> \<not> unreadable (lc_flags L) (lc_snapshot L) f \<and>
        ot_channel (ts ! i) \<notin> set (private_ids L) \<and> (\<forall>p \<in> set (private_ids L). vc_parent f \<noteq> Some p))"

lemma put_written:
  "(t, False) \<in> set (rl_written (snd (put_entry L w i fresh target l))) \<Longrightarrow> (t, False) \<in> set (rl_written l) \<or> t = target"
  unfolding put_entry_def Let_def skip_def
  by (auto split: asked.splits put_outcome.splits channel_read.splits read_back.splits if_splits)

lemma nothing_written: "(t, False) \<in> set (rl_written (nothing_to_write L x fresh inh l)) \<Longrightarrow> (t, False) \<in> set (rl_written l)"
  unfolding nothing_to_write_def Let_def skip_def by (auto split: option.splits if_splits)

lemma skip_written [simp]: "rl_written (skip i l) = rl_written l"
  by (simp add: skip_def)

lemma step_written:
  assumes P: "flag_bits_ok (lc_flags L)" and new: "(t, False) \<in> set (rl_written (snd (loop_one L w x l)))"
  shows "(t, False) \<in> set (rl_written l) \<or> rightly_written L (\<lambda>_. w) [x] 0 t"
proof (rule ccontr)
  assume no: "\<not> ?thesis"
  then have c: "step_checks L w x = Onward" using new by (auto simp: loop_one_def split: flow.splits)
  then obtain f where f: "sp_read w = Answered (ReadOk f)" "(t, False) \<in> set (rl_written (snd (write_fresh L w x f l)))"
    using new no by (auto simp: loop_one_def split: asked.splits channel_read.splits)
  have pr: "ot_channel x \<notin> set (private_ids L)" "\<forall>p \<in> set (private_ids L). vc_parent f \<noteq> Some p"
    using f(2) no by (auto simp: write_fresh_def split: if_splits)
  obtain inh l1 where d: "lend L w f l = Lends inh l1"
    using f(2) no pr by (cases "lend L w f l") (auto simp: write_fresh_def)
  note k = lend_dealt [OF d]
  obtain target where t: "overrideTarget (lc_flags L) (lc_snapshot L) f (lc_settings L) inh = Some target"
      "(t, False) \<in> set (rl_written (snd (put_entry L w (ot_channel x) f target l1)))"
    using f(2) no pr d k nothing_written [of t L x f inh l1] by (auto simp: write_fresh_def split: option.splits)
  then have tt: "t = target" using put_written [OF t(2)] no k by auto
  note T = targetOf_Some [OF t(1) [unfolded overrideTarget_def]]
  have "\<not> deliberate_deny (lc_flags L) (lc_snapshot L) f"
    using deliberate_not_planned [OF P, of "lc_snapshot L" f "lc_settings L" inh] t(1) by (auto simp: overrideTarget_def)
  then have "rightly_written L (\<lambda>_. w) [x] 0 t"
    unfolding rightly_written_def using f(1) c pr T(1,5) tt by auto
  then show False using no by blast
qed

lemma loop_written:
  assumes "flag_bits_ok (lc_flags L)"
  shows "loop_over L w k ts l = (e, l') \<Longrightarrow> (t, False) \<in> set (rl_written l') \<Longrightarrow>
    (t, False) \<in> set (rl_written l) \<or> rightly_written L w ts k t"
proof (induction ts arbitrary: k l)
  case (Cons x ts)
  obtain f l1 where f: "loop_one L (w k) x l = (f, l1)" by (cases "loop_one L (w k) x l")
  have here: "(t, False) \<in> set (rl_written l1) \<Longrightarrow> (t, False) \<in> set (rl_written l) \<or> rightly_written L w (x # ts) k t"
  proof -
    assume m: "(t, False) \<in> set (rl_written l1)"
    have "(t, False) \<in> set (rl_written l) \<or> rightly_written L (\<lambda>_. w k) [x] 0 t"
      using step_written [OF assms, of t "w k" x l] m f by simp
    moreover have "rightly_written L (\<lambda>_. w k) [x] 0 t \<Longrightarrow> rightly_written L w (x # ts) k t"
      unfolding rightly_written_def by (force intro: exI [of _ 0])
    ultimately show ?thesis by blast
  qed
  have later: "rightly_written L w ts (Suc k) t \<Longrightarrow> rightly_written L w (x # ts) k t"
  proof -
    assume "rightly_written L w ts (Suc k) t"
    then obtain i where "i < length ts" and r: "\<exists>f. sp_read (w (Suc k + i)) = Answered (ReadOk f) \<and> step_checks L (w (Suc k + i)) (ts ! i) = Onward \<and>
        ot_channel t = vc_id f \<and> \<not> deliberate_deny (lc_flags L) (lc_snapshot L) f \<and> \<not> unreadable (lc_flags L) (lc_snapshot L) f \<and>
        ot_channel (ts ! i) \<notin> set (private_ids L) \<and> (\<forall>p \<in> set (private_ids L). vc_parent f \<noteq> Some p)"
      unfolding rightly_written_def by blast
    then show ?thesis unfolding rightly_written_def by (intro exI [of _ "Suc i"] conjI) simp_all
  qed
  show ?case
  proof (cases f)
    case Onward
    then have "loop_over L w (Suc k) ts l1 = (e, l')" using Cons.prems(1) f by simp
    then show ?thesis using Cons.IH [OF _ Cons.prems(2)] here later by blast
  next
    case (Halt why r)
    then show ?thesis using Cons.prems here f by auto
  next
    case (Broke x)
    then show ?thesis using Cons.prems here f by auto
  qed
qed simp

section \<open>What is reported\<close>

lemma run_body_run:
  assumes "run_body w g = (Inr (ResultRun c r), x, l)"
  shows "rr_written r = map (\<lambda>(t, _). writeOf (oq_flags w) t) (rl_written l) \<and> rr_skipped r = rl_skipped l \<and>
    rr_unconfirmed r = rl_unconfirmed l \<and> rr_stopped r = rs_stopped x \<and> \<not> rs_failed x"
  using assms by (auto simp: run_body_def Let_def no_run_def run_of_def EMPTY_LOG_def split: sum.splits if_splits prod.splits loop_end.splits)

lemma record_run_audit:
  assumes "record_run w guild actor x l d = Inr (n, d')" "rl_written l \<noteq> []"
  shows "od_audit d' = od_audit d @ [audit_of actor x l]"
  using assms by (auto simp: record_run_def audited_run_def requeues_def Let_def split: option.splits if_splits)

lemma with_requeued_run:
  assumes "with_requeued n res = ResultRun c r"
  shows "\<exists>r0. res = ResultRun c r0 \<and> r = r0\<lparr>rr_requeued := n\<rparr>"
  using assms by (cases res) auto

text \<open>Only the locked run ends with the report of a run.\<close>

lemma run_overrides_run:
  assumes "run_overrides w a confirm d = (RunResult (ResultRun c r), d')"
  obtains g x l r0 n where "run_body w g = (Inr (ResultRun c r0), x, l)" "r = r0\<lparr>rr_requeued := n\<rparr>"
    "record_run w (gd_id g) (act_user a) x l d = Inr (n, d')"
proof -
  have "locked_run w a d = (RunResult (ResultRun c r), d')"
    using assms by (auto simp: run_overrides_def apply_run_def dry_run_def Let_def split: sum.splits if_splits)
  then show thesis using that
    by (auto simp: locked_run_def split: sum.splits if_splits prod.splits dest!: with_requeued_run)
qed

section \<open>Properties\<close>

text \<open>
  (C9) No reported write goes unrecorded: a run that reports writes has added one audit row, which names the
  person who ran it, exactly the channels of those writes in their order, and the stop it reports.
\<close>

theorem reported_writes_are_recorded:
  assumes "run_overrides w a confirm d = (RunResult (ResultRun c r), d')" "rr_written r \<noteq> []"
  shows "\<exists>row. od_audit d' = od_audit d @ [row] \<and> oa_actor row = act_user a \<and> map wt_id (oa_written row) = map wr_id (rr_written r) \<and>
    oa_skipped row = rr_skipped r \<and> oa_unconfirmed row = rr_unconfirmed r \<and> oa_stopped row = rr_stopped r \<and> \<not> oa_failed row"
proof -
  obtain g x l r0 n where run: "run_body w g = (Inr (ResultRun c r0), x, l)" "r = r0\<lparr>rr_requeued := n\<rparr>"
    "record_run w (gd_id g) (act_user a) x l d = Inr (n, d')"
    by (rule run_overrides_run [OF assms(1)])
  note b = run_body_run [OF run(1)]
  have "rl_written l \<noteq> []" using assms(2) b run(2) by auto
  note row = record_run_audit [OF run(3) this]
  have "map wt_id (oa_written (audit_of (act_user a) x l)) = map wr_id (rr_written r)"
    using b run(2) by (auto simp: audit_of_def writeOf_def)
  then show ?thesis using row b run(2) by (auto simp: audit_of_def)
qed

text \<open>
  (C11) The record and the report count alike: where each fresh read answers for the channel it was asked about, what
  the audit row says is left of the plan, counted from the channels the run dealt with, is what the stop
  reports from its place in the loop. No channel is counted twice and none is forgotten.
\<close>

theorem the_record_counts_what_is_left:
  assumes "view w g True = Inr v" "plan_ok (oq_flags w) (rv_snapshot v) (rv_settings v)"
    "reads_honest (oq_steps w) 0 (planOverrides (oq_flags w) (rv_snapshot v) (rv_settings v))"
    "run_body w g = (Inr (ResultRun c r), x, l)"
  shows "oa_remaining (audit_of actor x l) = Some (rr_remaining r)"
proof -
  let ?L = "context_of w g v"
  have L: "lc_plan ?L = planOverrides (oq_flags w) (rv_snapshot v) (rv_settings v)" by (simp add: context_of_def)
  have dis: "distinct (map ot_channel (lc_plan ?L))" unfolding L by (rule distinct_plan [OF assms(2)])
  have counts: "loop_over ?L (oq_steps w) 0 (lc_plan ?L) EMPTY_LOG = (e, l') \<Longrightarrow>
     (e = LoopDone \<longrightarrow> length (reached l') = length (lc_plan ?L)) \<and>
     (\<forall>why n. e = LoopStopped why n \<longrightarrow> n \<le> length (lc_plan ?L) \<and> length (reached l') + n = length (lc_plan ?L))" for e l'
    by (rule loop_counts [OF _ _ dis]) (use assms(3) L in simp_all)
  show ?thesis
  proof (cases "rv_cut v \<noteq> None")
    case True
    then show ?thesis using assms(1,4)
      by (auto simp: run_body_def Let_def audit_of_def no_run_def reached_dealt)
  next
    case False
    obtain e l' where run: "loop_over ?L (oq_steps w) 0 (lc_plan ?L) EMPTY_LOG = (e, l')"
      by (cases "loop_over ?L (oq_steps w) 0 (lc_plan ?L) EMPTY_LOG")
    then show ?thesis using False assms(1,4) counts [OF run]
      by (auto simp: run_body_def Let_def audit_of_def run_of_def split: if_splits loop_end.splits)
  qed
qed

text \<open>
  (C10) Each write is rightly made, whatever the world answers meanwhile: it comes from a step whose re-checks all
  passed and whose fresh read shows the channel readable, without a deliberate deny, and neither a private
  category nor inside one.
\<close>

theorem writes_are_rightly_made:
  assumes "flag_bits_ok (lc_flags L)" "loop_over L w 0 (lc_plan L) EMPTY_LOG = (e, l)" "(t, False) \<in> set (rl_written l)"
  shows "\<exists>i < length (lc_plan L). \<exists>f. step_checks L (w i) (lc_plan L ! i) = Onward \<and>
    sp_read (w i) = Answered (ReadOk f) \<and> ot_channel t = vc_id f \<and> \<not> unreadable (lc_flags L) (lc_snapshot L) f \<and>
    \<not> deliberate_deny (lc_flags L) (lc_snapshot L) f \<and> ot_channel (lc_plan L ! i) \<notin> set (private_ids L) \<and>
    (\<forall>p \<in> set (private_ids L). vc_parent f \<noteq> Some p)"
proof -
  have "rightly_written L w (lc_plan L) 0 t"
    using loop_written [OF assms(1,2,3)] by (simp add: EMPTY_LOG_def)
  then show ?thesis unfolding rightly_written_def by (auto 0 3)
qed

section \<open>A sample run\<close>

definition os_baseline :: overrides_guild where
  "os_baseline = \<lparr>gd_id = ''1'', gd_active = True, gd_revision = 3, gd_fc = None, gd_ledger_channel = None, gd_effects = True,
     gd_member_role = None, gd_guest_role = None, gd_apps_enabled = False, gd_apps_channel = None, gd_access_policy = False,
     og_notices = None, og_changelog = None, og_lobby = None, og_officer_room = None, og_officer_role = None, og_leader_role = None\<rparr>"

definition os_context :: loop_context where
  "os_context = \<lparr>lc_flags = documented_bits, lc_enabled = True, lc_baseline = os_baseline, lc_snapshot = os_guild,
     lc_settings = os_settings, lc_report = analyseVisibility documented_bits os_guild os_settings, lc_plan = os_plan\<rparr>"

text \<open>The category is written, then a drain comes while the child is read.\<close>

definition os_step :: "nat \<Rightarrow> step_world" where
  "os_step i =
     (let c = vg_channels os_guild ! i
      in \<lparr>sp_stop = False, sp_late = False,
          sp_row = Inr (Some \<lparr>gn_active = True, gn_onboarding = False, gn_effects = True, gn_revision = 3\<rparr>),
          sp_facts = Inr \<lparr>of_botAdministrator = True, of_callerAllowed = None, of_basePosting = True\<rparr>,
          sp_snapshot = Inr (Some os_guild), sp_read = (if i = 0 then Answered (ReadOk c) else AbortedCall),
          sp_category = AbortedCall, sp_write = Answered PutWritten,
          sp_back = Answered (ReadOk (write_target os_guild (os_plan ! i) c))\<rparr>)"

definition os_actor :: actor where
  "os_actor = \<lparr>act_guild = ''1'', act_user = ''70'', act_manage_roles = True, act_server_manager = Some True,
     act_role_ids = None, act_access = \<lparr>acc_manager = True, acc_roles = [], acc_permissions = {P_admin_setup}, acc_blocked = (\<lambda>_. None)\<rparr>,
     act_member = None, act_guest = None, act_bot_administrator = None, act_timed_out = None\<rparr>"

definition os_world :: overrides_world where
  "os_world = \<lparr>oq_flags = documented_bits, oq_enabled = True, oq_draining = False, oq_guild = Inr os_baseline,
     oq_facts = Inr \<lparr>of_botAdministrator = True, of_callerAllowed = Some True, of_basePosting = True\<rparr>, oq_locked = True,
     oq_baseline = Inr os_baseline, oq_records = Inr NO_RECORDS, oq_cached = Inr (Some os_guild),
     oq_view = (\<lambda>_. \<lparr>vw_aborted = False, vw_late = False, vw_read = AbortedCall\<rparr>), oq_steps = os_step, oq_now = 9,
     oq_others = (\<lambda>_ rows. rows), oq_transaction = None, oq_conflict = ThrownFailure not_delivered\<rparr>"

definition os_db :: overrides_db where
  "os_db = \<lparr>od_queue = \<lparr>qd_rows = [], qd_links = []\<rparr>, od_audit = []\<rparr>"


definition os_end :: "overrides_end \<times> overrides_db" where
  "os_end = run_overrides os_world os_actor True os_db"

definition reported :: "overrides_end \<Rightarrow> run_result option" where
  "reported e = (case e of RunResult (ResultRun _ r) \<Rightarrow> Some r | _ \<Rightarrow> None)"

lemma os_run:
  "map_option (\<lambda>r. (rr_stopped r, map wr_id (rr_written r), rr_remaining r)) (reported (fst os_end)) =
     Some (Some StopStopping, [''20''], 1)"
  by code_simp


theorem reported_writes_are_recorded_witness:
  "\<exists>row. od_audit (snd os_end) = [row] \<and> oa_actor row = ''70'' \<and> map wt_id (oa_written row) = [''20''] \<and>
     oa_stopped row = Some StopStopping"
proof -
  obtain c r where e: "fst os_end = RunResult (ResultRun c r)" "map wr_id (rr_written r) = [''20'']" "rr_stopped r = Some StopStopping"
    using os_run by (auto simp: reported_def split: overrides_end.splits overrides_result.splits)
  have run: "run_overrides os_world os_actor True os_db = (RunResult (ResultRun c r), snd os_end)"
    using e(1) by (simp add: os_end_def prod_eq_iff)
  have "rr_written r \<noteq> []" using e(2) by auto
  from reported_writes_are_recorded [OF run this] show ?thesis
    unfolding e(2,3) by (auto simp: os_db_def os_actor_def)
qed

lemma os_view: "view os_world os_baseline True = Inr \<lparr>rv_snapshot = os_guild, rv_settings = os_settings, rv_recorded = [], rv_cut = None\<rparr>"
  by code_simp

lemma os_reads: "reads_honest os_step k os_plan" if "k = 0"
proof -
  have "vc_id (vg_channels os_guild ! 0) = ot_channel (os_plan ! 0)" by code_simp
  then show ?thesis using that by (auto simp: reads_honest_def os_step_def Let_def split: if_splits)
qed

lemma os_body:
  "\<exists>c r x l. run_body os_world os_baseline = (Inr (ResultRun c r), x, l) \<and> rr_remaining r = 1"
proof -
  have "map_option rr_remaining (reported (case fst (run_body os_world os_baseline) of Inr r \<Rightarrow> RunResult r | Inl t \<Rightarrow> RunThrew t)) = Some 1"
    by code_simp
  then show ?thesis
    by (cases "run_body os_world os_baseline") (auto simp: reported_def split: sum.splits overrides_result.splits)
qed

theorem the_record_counts_what_is_left_witness:
  "\<exists>res x l. run_body os_world os_baseline = (res, x, l) \<and> oa_remaining (audit_of ''70'' x l) = Some 1"
proof -
  obtain c r x l where b: "run_body os_world os_baseline = (Inr (ResultRun c r), x, l)" "rr_remaining r = 1" using os_body by blast
  have f: "oq_flags os_world = documented_bits" "oq_steps os_world = os_step" by (simp_all add: os_world_def)
  have "oa_remaining (audit_of ''70'' x l) = Some (rr_remaining r)"
    by (rule the_record_counts_what_is_left [OF os_view _ _ b(1)]) (simp_all only: run_view.simps f os_ok os_reads)
  then show ?thesis using b by auto
qed

theorem writes_are_rightly_made_witness:
  "\<exists>l t. loop_over os_context os_step 0 (lc_plan os_context) EMPTY_LOG = (LoopStopped StopStopping 1, l) \<and> rl_written l = [(t, False)] \<and>
     ot_channel t = ''20'' \<and> (\<exists>i < length (lc_plan os_context). step_checks os_context (os_step i) (lc_plan os_context ! i) = Onward)"
proof -
  let ?r = "loop_over os_context os_step 0 (lc_plan os_context) EMPTY_LOG"
  have e: "fst ?r = LoopStopped StopStopping 1" "map (\<lambda>(t, b). (ot_channel t, b)) (rl_written (snd ?r)) = [(''20'', False)]"
    by code_simp+
  then obtain t where t: "rl_written (snd ?r) = [(t, False)]" "ot_channel t = ''20''" by (auto simp: Cons_eq_map_conv)
  have run: "?r = (LoopStopped StopStopping 1, snd ?r)" using e(1) by (simp add: prod_eq_iff)
  have P: "flag_bits_ok (lc_flags os_context)" by (simp add: os_context_def documented_bits_ok)
  have "(t, False) \<in> set (rl_written (snd ?r))" using t(1) by simp
  from writes_are_rightly_made [OF P run this] t run show ?thesis by blast
qed

end
