(* ===== verification/OverrideQuiet.thy ===== *)
theory OverrideQuiet
  imports OverrideRunPromises
begin

text \<open>
  A run of \<open>/setup overrides\<close> that nothing interferes with: each channel reads as the snapshot had it, or, where
  it is synced to a category the run has written, as Discord's permission syncing left it; each write is made
  and reads back as written. The loop then carries out exactly the plan.
\<close>

section \<open>An undisturbed run\<close>

text \<open>A channel as a fresh read shows it, where nothing changed since the snapshot.\<close>

definition read_again :: "visibility_channel \<Rightarrow> visibility_channel" where
  "read_again c = c\<lparr>vc_fetched := True\<rparr>"

text \<open>Where each channel is.\<close>

definition places :: "visibility_guild \<Rightarrow> (ident \<times> ident option) set" where
  "places g = (\<lambda>c. (vc_id c, vc_parent c)) ` set (vg_channels g)"

text \<open>
  Discord's permission syncing: a channel synced to its category takes over the category's entries when those are
  written, whatever their order. The loop may read a channel before or after that.
\<close>

definition copied_by :: "loop_context \<Rightarrow> override_target \<Rightarrow> visibility_channel \<Rightarrow> visibility_channel \<Rightarrow> bool" where
  "copied_by L t c x \<longleftrightarrow> ot_inherited t \<and>
     (\<exists>p u ows. parent_of (lc_snapshot L) c = Some p \<and> u \<in> set (lc_plan L) \<and> ot_category u \<and> ot_channel u = vc_id p \<and>
        x = read_again (c\<lparr>vc_overwrites := ows\<rparr>) \<and> distinct (map entry_key ows) \<and>
        sameOverwriteSet ows (vc_overwrites (write_target (lc_snapshot L) u p)) (vg_guild (lc_snapshot L)))"

definition quiet_step :: "loop_context \<Rightarrow> step_world \<Rightarrow> override_target \<Rightarrow> visibility_channel \<Rightarrow> bool" where
  "quiet_step L w t c \<longleftrightarrow>
     \<not> sp_stop w \<and> \<not> sp_late w \<and> (\<exists>row. sp_row w = Inr row \<and> current (lc_enabled L) (lc_baseline L) row) \<and>
     (\<exists>f. sp_facts w = Inr f \<and> of_botAdministrator f \<and> of_basePosting f) \<and> (\<exists>now. sp_snapshot w = Inr (Some now) \<and> places now = places (lc_snapshot L)) \<and>
     (sp_read w = Answered (ReadOk (read_again c)) \<or> (\<exists>x. copied_by L t c x \<and> sp_read w = Answered (ReadOk x))) \<and>
     (\<forall>p. parent_of (lc_snapshot L) c = Some p \<longrightarrow> sp_category w = Answered (ReadOk (read_again p))) \<and>
     sp_write w = Answered PutWritten \<and>
     sp_back w = Answered (ReadOk (read_again (write_target (lc_snapshot L) t c)))"

definition quiet_run :: "loop_context \<Rightarrow> (nat \<Rightarrow> step_world) \<Rightarrow> bool" where
  "quiet_run L w \<longleftrightarrow> (\<forall>i < length (lc_plan L). \<forall>c \<in> set (vg_channels (lc_snapshot L)).
     vc_id c = ot_channel (lc_plan L ! i) \<longrightarrow> quiet_step L (w i) (lc_plan L ! i) c)"

text \<open>Whether the channel of the plan's entry \<open>i\<close> reads as a copy.\<close>

definition reads_copied :: "loop_context \<Rightarrow> (nat \<Rightarrow> step_world) \<Rightarrow> nat \<Rightarrow> bool" where
  "reads_copied L w i \<longleftrightarrow> (\<exists>c \<in> set (vg_channels (lc_snapshot L)). \<exists>x. vc_id c = ot_channel (lc_plan L ! i) \<and>
     copied_by L (lc_plan L ! i) c x \<and> sp_read (w i) = Answered (ReadOk x))"

definition carried_out :: "loop_context \<Rightarrow> (nat \<Rightarrow> step_world) \<Rightarrow> nat \<Rightarrow> (override_target \<times> bool) list" where
  "carried_out L w n = map (\<lambda>i. (lc_plan L ! i, reads_copied L w i)) [0..<n]"

text \<open>What the context holds when the loop starts, and what Discord promises of a server's channels.\<close>

definition context_ok :: "loop_context \<Rightarrow> bool" where
  "context_ok L \<longleftrightarrow> plan_ok (lc_flags L) (lc_snapshot L) (lc_settings L) \<and> lc_enabled L \<and> \<not> vs_onboarding (lc_settings L) \<and>
     lc_report L = analyseVisibility (lc_flags L) (lc_snapshot L) (lc_settings L) \<and>
     lc_plan L = planOverrides (lc_flags L) (lc_snapshot L) (lc_settings L) \<and>
     (\<forall>c \<in> set (vg_channels (lc_snapshot L)). (isCategory c \<longrightarrow> vc_parent c = None) \<and>
        (\<forall>e \<in> set (vc_overwrites c). ow_allow e AND ow_deny e = 0))"

lemma read_again_fields [simp]:
  "vc_id (read_again c) = vc_id c" "vc_parent (read_again c) = vc_parent c" "vc_overwrites (read_again c) = vc_overwrites c"
  "vc_type (read_again c) = vc_type c"
  by (simp_all add: read_again_def)

lemma read_again_simps [simp]:
  "isCategory (read_again c) = isCategory c" "ownEntry g (read_again c) = ownEntry g c"
  "botEntry g (read_again c) = botEntry g c" "channelBits P g (read_again c) v = channelBits P g c v"
  "parent_of g (read_again c) = parent_of g c"
  unfolding isCategory_def ownEntry_def botEntry_def channelBits_def parent_of_def read_again_fields by (rule refl)+

lemma read_again_readable: "\<not> unreadable P g c \<Longrightarrow> \<not> unreadable P g (read_again c)"
  by (simp add: unreadable_def read_again_def split: if_splits)

lemma judge_again:
  assumes "\<not> unreadable P g c"
  shows "judge P g (read_again c) s v = judge P g c s v"
proof -
  have u: "unreadable P g (read_again c) = False" "unreadable P g c = False" using assms read_again_readable by blast+
  show ?thesis unfolding judge_def judge_in_def read_again_simps read_again_fields u ..
qed

lemma target_again:
  assumes "\<not> unreadable P g c"
  shows "overrideTarget P g (read_again c) s inh = overrideTarget P g c s inh"
  unfolding overrideTarget_def targetOf_def judge_again [OF assms] read_again_simps read_again_fields own_write_def parentOverwrites_def ..

lemma replaced_simps [simp]:
  "vg_guild (replaced g i x) = vg_guild g" "vg_botId (replaced g i x) = vg_botId g" "vg_botRole (replaced g i x) = vg_botRole g"
  "vg_botRoles (replaced g i x) = vg_botRoles g" "vg_roles (replaced g i x) = vg_roles g"
  by (simp_all add: replaced_def)

lemma replaced_reads [simp]:
  "asIfView P (replaced g i x) = asIfView P g" "unreadable P (replaced g i x) c = unreadable P g c"
  "channelBits P (replaced g i x) c v = channelBits P g c v" "ownEntry (replaced g i x) c = ownEntry g c"
  unfolding asIfView_def asIfBase_def asIfRoles_def unreadable_def channelBits_def ownEntry_def replaced_simps by (rule refl)+

lemma resume_again:
  assumes "\<not> unreadable P g c"
  shows "resumeInherit P (replaced g i x) (read_again c) s = resumeInherit P g c s"
proof -
  have u: "unreadable P g (read_again c) = False" "unreadable P g c = False" using assms read_again_readable by blast+
  have v: "(jg_state (judge P (replaced g i x) (read_again c) s w) = StVisible) = (jg_state (judge P g c s w) = StVisible)" for w
    unfolding visible_iff replaced_reads judge_facts read_again_simps read_again_fields u ..
  show ?thesis unfolding resumeInherit_def resumeOf_def replaced_reads read_again_simps read_again_fields u v ..
qed

lemma own_write_disjoint:
  assumes "oe_allow b AND oe_deny b = 0"
  shows "oe_allow (own_write P c j b) AND oe_deny (own_write P c j b) = 0"
proof (cases "jg_configured j")
  case True
  show ?thesis using assms unfolding and_eq_zero_iff own_write_configured [OF True] by blast
next
  case False
  show ?thesis using assms unfolding and_eq_zero_iff own_write_unconfigured [OF False] by blast
qed

lemma own_bits_disjoint:
  assumes "\<forall>e \<in> set (vc_overwrites c). ow_allow e AND ow_deny e = 0"
    "b = (case map_option entry_bits (ownEntry g c) of None \<Rightarrow> \<lparr>oe_allow = 0, oe_deny = 0\<rparr> | Some e \<Rightarrow> e)"
  shows "oe_allow b AND oe_deny b = 0"
  using assms own_entry_key [of g c] by (cases "ownEntry g c") (auto simp: entry_bits_def)

lemma category_write_disjoint:
  assumes "targetOf P g c s None x = Some t" "\<forall>e \<in> set (vc_overwrites c). ow_allow e AND ow_deny e = 0"
  shows "oe_allow (ot_after t) AND oe_deny (ot_after t) = 0"
proof -
  have "\<not> ot_inherited t" using targetOf_Some(7) [OF assms(1)] by blast
  then show ?thesis using targetOf_Some(6) [OF assms(1)] own_write_disjoint own_bits_disjoint [OF assms(2) refl] by simp
qed

lemma plan_disjoint:
  assumes t: "t \<in> set (planOverrides P g s)" and dis: "\<forall>c \<in> set (vg_channels g). \<forall>e \<in> set (vc_overwrites c). ow_allow e AND ow_deny e = 0"
  shows "oe_allow (ot_after t) AND oe_deny (ot_after t) = 0"
proof -
  obtain c inh where c: "c \<in> set (vg_channels g)" "targetOf P g c s inh (planContext P g s) = Some t"
    "inh = None \<and> isCategory c \<or> \<not> isCategory c \<and> inh = inheritFor P g s (planContext P g s) (planned_categories P g s) c"
    by (rule plan_member [OF t])
  show ?thesis
  proof (cases "ot_inherited t")
    case False
    then show ?thesis using targetOf_Some(6) [OF c(2)] own_write_disjoint own_bits_disjoint [OF _ refl] c(1) dis by simp
  next
    case True
    then obtain h where h: "inh = Some h" "ot_after t = ih_after h" using targetOf_Some(7) [OF c(2)] by blast
    then have i: "inheritFor P g s (planContext P g s) (planned_categories P g s) c = Some h" using c(3) by simp
    then obtain p where p: "parent_of g c = Some p" by (auto simp: inheritFor_def split: option.splits)
    then have pm: "p \<in> set (vg_channels g)" by (auto simp: parent_of_def split: option.splits dest: find_Some_mem)
    show ?thesis
    proof (cases "find (\<lambda>t. ot_channel t = vc_id p) (rev (planned_categories P g s))")
      case None
      then have "resumeOf P g p s (asIfView P g) = Some h" using i p by (simp add: inheritFor_def)
      then obtain e where "ownEntry g p = Some e" "ih_after h = entry_bits e" by (auto simp: resumeOf_def split: if_splits option.splits)
      then show ?thesis using own_entry_key [of g p e] dis pm h(2) by (auto simp: entry_bits_def)
    next
      case (Some u)
      then have m: "u \<in> set (planned_categories P g s)" "ih_after h = ot_after u"
        using i p find_Some_mem [OF Some] by (auto simp: inheritFor_def)
      obtain d where "d \<in> set (vg_channels g)" "targetOf P g d s None (planContext P g s) = Some u"
        by (rule planned_category_target [OF m(1)])
      then show ?thesis using category_write_disjoint dis h(2) m(2) by simp
    qed
  qed
qed

lemma read_back_same:
  assumes "oe_allow a AND oe_deny a = 0"
  shows "readBack a a = BackPass"
  using assms by (simp add: readBack_def and.commute)

lemma own_bits_put: "own_bits g (c\<lparr>vc_overwrites := put_own (vg_botId g) a (vc_overwrites c)\<rparr>) = a"
proof -
  obtain e where e: "find (\<lambda>e. ow_type e = OwMember \<and> ow_id e = vg_botId g) (put_own (vg_botId g) a (vc_overwrites c)) = Some e"
      "ow_allow e = oe_allow a" "ow_deny e = oe_deny a" by (rule ownEntry_put)
  then show ?thesis by (simp add: own_bits_def ownEntry_def entry_bits_def)
qed

lemma sweep_private:
  assumes "\<forall>h \<in> set (sw_private w). pc_id h \<in> set ps"
  shows "\<forall>h \<in> set (sw_private (sweep_one P g s v ps w c)). pc_id h \<in> set ps"
proof (cases "vc_id c \<in> set ps")
  case True
  then show ?thesis using assms by (auto simp: sweep_one_def Let_def)
next
  case False
  show ?thesis
  proof (cases "\<exists>h \<in> set (sw_private w). vc_parent c = Some (pc_id h)")
    case True
    have "\<forall>h \<in> set (map (\<lambda>h. if vc_parent c = Some (pc_id h) then hold c (judge P g c s v) h else h) (sw_private w)). pc_id h \<in> set ps"
      unfolding set_map ball_simps using assms by (simp add: hold_def)
    then show ?thesis unfolding sweep_one_def if_not_P [OF False] Let_def if_P [OF True] by simp
  next
    case no: False
    show ?thesis unfolding sweep_one_def if_not_P [OF False] Let_def if_not_P [OF no]
      using assms by (cases "jg_state (judge P g c s v)") simp_all
  qed
qed

lemma private_ids_of:
  assumes "context_ok L"
  shows "set (private_ids L) \<subseteq> set (privateCategoryIds (lc_flags L) (lc_snapshot L) (lc_settings L))"
proof -
  let ?P = "lc_flags L" and ?g = "lc_snapshot L" and ?s = "lc_settings L"
  have steps: "\<forall>h \<in> set (sw_private w). pc_id h \<in> set ps \<Longrightarrow>
      \<forall>h \<in> set (sw_private (foldl (sweep_one ?P ?g ?s v ps) w cs)). pc_id h \<in> set ps" for v ps w cs
  proof (induction cs arbitrary: w)
    case (Cons c cs)
    show ?case unfolding foldl_Cons by (rule Cons.IH) (rule sweep_private [OF Cons.prems])
  qed simp
  have "\<forall>h \<in> set (sw_private NOTHING). pc_id h \<in> set ps" for ps by (simp add: NOTHING_def)
  then have "\<forall>h \<in> set (sw_private (foldl (sweep_one ?P ?g ?s v ps) NOTHING cs)). pc_id h \<in> set ps" for v ps cs
    by (rule steps)
  then show ?thesis using assms
    by (auto simp: context_ok_def private_ids_def analyseVisibility_def Let_def privateCategoryIds_def report_common.defs
        visibility_report.defs)
qed


lemma find_key: "distinct (map f xs) \<Longrightarrow> find (\<lambda>x. f x = i) xs = Some u \<longleftrightarrow> u \<in> set xs \<and> f u = i"
  by (induction xs) (auto simp: image_iff)

text \<open>What the loop has after the planned writes of \<open>ts\<close>.\<close>

definition on_plan :: "loop_context \<Rightarrow> (nat \<Rightarrow> step_world) \<Rightarrow> override_target list \<Rightarrow> run_log \<Rightarrow> bool" where
  "on_plan L W ts l \<longleftrightarrow> rl_written l = carried_out L W (length ts) \<and> rl_skipped l = [] \<and> rl_unconfirmed l = [] \<and> rl_refused l = [] \<and>
     rl_normalized l = [] \<and>
     (\<forall>p h. map_of (rl_categories l) p = Some h \<longleftrightarrow> (\<exists>t \<in> set ts. ot_category t \<and> ot_channel t = p \<and>
        (\<exists>c \<in> set (vg_channels (lc_snapshot L)). vc_id c = p \<and>
           h = \<lparr>ih_parent = p, ih_before = vc_overwrites c, ih_after = ot_after t\<rparr>))) \<and>
     (\<forall>p h. map_of (rl_resumed l) p = Some h \<longrightarrow> (\<exists>c \<in> set (vg_channels (lc_snapshot L)). vc_id c = p \<and>
        resumeInherit (lc_flags L) (lc_snapshot L) c (lc_settings L) = Some h))"

lemma plan_split:
  "filter ot_category (planOverrides P g s) = planned_categories P g s"
  "\<exists>rest. planOverrides P g s = planned_categories P g s @ rest \<and> (\<forall>t \<in> set rest. \<not> ot_category t)"
proof -
  let ?h = "\<lambda>c. targetOf P g c s (inheritFor P g s (planContext P g s) (planned_categories P g s) c) (planContext P g s)"
  let ?rest = "List.map_filter ?h (filter (\<lambda>c. \<not> isCategory c) (reportOrder (vg_channels g)))"
  have plan: "planOverrides P g s = planned_categories P g s @ ?rest" by (simp only: planOverrides_def Let_def)
  have kind: "ot_category t = isCategory c" if "targetOf P g c s inh x = Some t" for c inh x t
    using that by (auto simp: targetOf_def Let_def split: if_splits)
  have a: "\<forall>t \<in> set (planned_categories P g s). ot_category t"
  proof
    fix t assume "t \<in> set (planned_categories P g s)"
    then show "ot_category t" by (rule planned_category_target) (simp add: kind)
  qed
  have b: "\<forall>t \<in> set ?rest. \<not> ot_category t" by (auto simp: map_filter_def dest: kind)
  show "filter ot_category (planOverrides P g s) = planned_categories P g s"
    using a b by (simp add: plan)
  show "\<exists>rest. planOverrides P g s = planned_categories P g s @ rest \<and> (\<forall>t \<in> set rest. \<not> ot_category t)"
    using plan b by blast
qed

lemma categories_first:
  assumes "planOverrides P g s = ts @ t # us" "\<not> ot_category t"
  shows "set (planned_categories P g s) \<subseteq> set ts"
proof -
  obtain rest where r: "planOverrides P g s = planned_categories P g s @ rest" "\<forall>t \<in> set rest. \<not> ot_category t"
    using plan_split(2) [of P g s] by blast
  have all: "\<forall>t \<in> set (planned_categories P g s). ot_category t"
    unfolding plan_split(1) [symmetric] by simp
  then have "t \<notin> set (planned_categories P g s)" using assms(2) by blast
  moreover have "planned_categories P g s @ rest = ts @ t # us" using r(1) assms(1) by simp
  ultimately show ?thesis by (auto simp: append_eq_append_conv2 append_eq_Cons_conv)
qed

lemma parent_found:
  assumes "parent_of g c = Some p"
  shows "p \<in> set (vg_channels g)" "vc_parent c = Some (vc_id p)"
  using assms by (auto simp: parent_of_def split: option.splits dest: find_Some_mem)

lemma parent_known:
  assumes "distinct (map vc_id (vg_channels g))" "p \<in> set (vg_channels g)" "vc_parent c = Some (vc_id p)"
  shows "parent_of g c = Some p"
  using assms by (simp add: parent_of_def find_key)

lemma resumed_readable: "resumeInherit P g c s = Some h \<Longrightarrow> isCategory c \<and> \<not> unreadable P g c"
  by (auto simp: resumeInherit_def resumeOf_def split: if_splits)


text \<open>The entry the loop lends a channel's write is the plan's.\<close>

lemma lend_category:
  assumes "on_plan L W ts l" "vc_parent c = None"
  shows "lend L w (read_again c) l = Lends None l"
  using assms(2) by (simp add: lend_def)

lemma lend_quiet:
  assumes L: "context_ok L" and plan: "lc_plan L = ts @ t # us" "\<not> ot_category t" and l: "on_plan L W ts l"
    and w: "quiet_step L w t c" and h: "h = inheritFor (lc_flags L) (lc_snapshot L) (lc_settings L)
      (planContext (lc_flags L) (lc_snapshot L) (lc_settings L)) (planned_categories (lc_flags L) (lc_snapshot L) (lc_settings L)) c"
  shows "\<exists>l'. lend L w (read_again c) l = Lends h l' \<and> on_plan L W ts l' \<and> rl_categories l' = rl_categories l"
proof (cases "vc_parent c")
  case None
  then show ?thesis using l h by (simp add: lend_def inheritFor_def parent_of_def)
next
  case (Some p)
  let ?P = "lc_flags L" and ?g = "lc_snapshot L" and ?s = "lc_settings L"
  let ?cats = "planned_categories ?P ?g ?s"
  have ok: "plan_ok ?P ?g ?s" and planL: "lc_plan L = planOverrides ?P ?g ?s" using L by (simp_all add: context_ok_def)
  have ids: "distinct (map vc_id (vg_channels ?g))" using ok by (simp add: plan_ok_def)
  then have inj: "inj_on vc_id (set (vg_channels ?g))" by (simp add: distinct_map)
  have dc: "distinct (map ot_channel (rev ?cats))"
    using distinct_plan [OF ok] plan_split(1) [of ?P ?g ?s] by (metis distinct_map_filter distinct_rev rev_map)
  have cats: "set ?cats \<subseteq> set ts" "\<forall>u \<in> set ?cats. ot_category u"
    using categories_first [of ?P ?g ?s ts t us] plan planL plan_split(1) [of ?P ?g ?s, symmetric] by auto
  have planned: "plannedCategories L = map ot_channel ?cats" by (simp add: plannedCategories_def planL plan_split(1))
  have tsp: "u \<in> set ?cats" if "u \<in> set ts" "ot_category u" for u
    using that plan(1) planL plan_split(1) [of ?P ?g ?s, symmetric] by auto
  note known = l [unfolded on_plan_def]
  show ?thesis
  proof (cases "map_of (rl_categories l) p")
    case (Some k)
    then obtain u pc where u: "u \<in> set ts" "ot_category u" "ot_channel u = p" and pc: "pc \<in> set (vg_channels ?g)" "vc_id pc = p"
        "k = \<lparr>ih_parent = p, ih_before = vc_overwrites pc, ih_after = ot_after u\<rparr>"
      using known by blast
    have "parent_of ?g c = Some pc" by (rule parent_known [OF ids pc(1)]) (use \<open>vc_parent c = Some p\<close> pc in simp)
    moreover have "find (\<lambda>t. ot_channel t = p) (rev ?cats) = Some u" using find_key [OF dc] u tsp by simp
    ultimately have "h = Some k" using h pc by (simp add: inheritFor_def)
    then show ?thesis using Some \<open>vc_parent c = Some p\<close> l by (simp add: lend_def)
  next
    case None
    have np: "p \<notin> ot_channel ` set ?cats"
    proof
      assume "p \<in> ot_channel ` set ?cats"
      then obtain u where u: "u \<in> set ?cats" "ot_channel u = p" by blast
      obtain d where d: "d \<in> set (vg_channels ?g)" "targetOf ?P ?g d ?s None (planContext ?P ?g ?s) = Some u"
        by (rule planned_category_target [OF u(1)])
      have "vc_id d = p" using targetOf_Some(5) [OF d(2)] u(2) by simp
      then have "map_of (rl_categories l) p = Some \<lparr>ih_parent = p, ih_before = vc_overwrites d, ih_after = ot_after u\<rparr>"
        using known cats u d(1) by blast
      then show False using None by simp
    qed
    then have nf: "find (\<lambda>t. ot_channel t = p) (rev ?cats) = None" by (auto simp: find_None_iff)
    show ?thesis
    proof (cases "p \<in> set (resumable L)")
      case False
      have "h = None"
      proof (cases "parent_of ?g c")
        case (Some pc)
        have pid: "vc_id pc = p" using parent_found(2) [OF Some] \<open>vc_parent c = Some p\<close> by simp
        have hh: "h = resumeInherit ?P ?g pc ?s" using h Some nf pid by (simp add: inheritFor_def resumeInherit_def)
        show ?thesis
        proof (rule ccontr)
          assume "h \<noteq> None"
          then have "isCategory pc" "resumeInherit ?P ?g pc ?s \<noteq> None" using hh resumed_readable by fastforce+
          then have "p \<in> set (resumable L)"
            unfolding resumable_def planned set_map set_filter using parent_found(1) [OF Some] pid np by blast
          then show False using False by blast
        qed
      qed (simp add: h inheritFor_def)
      then show ?thesis using None \<open>vc_parent c = Some p\<close> np False l by (simp add: lend_def planned)
    next
      case True
      then obtain pc k where pc: "pc \<in> set (vg_channels ?g)" "vc_id pc = p" "resumeInherit ?P ?g pc ?s = Some k"
        unfolding resumable_def by auto
      have par: "parent_of ?g c = Some pc" by (rule parent_known [OF ids pc(1)]) (use \<open>vc_parent c = Some p\<close> pc in simp)
      have hk: "h = Some k" using h par nf pc by (simp add: inheritFor_def resumeInherit_def)
      show ?thesis
      proof (cases "map_of (rl_resumed l) p")
        case (Some k')
        then obtain d where d: "d \<in> set (vg_channels ?g)" "vc_id d = p" "resumeInherit ?P ?g d ?s = Some k'" using known by blast
        have "d = pc" by (rule inj_onD [OF inj]) (use d pc in simp_all)
        then show ?thesis using None Some True np \<open>vc_parent c = Some p\<close> l hk d(3) pc(3) by (simp add: lend_def planned)
      next
        case fresh: None
        have rd: "sp_category w = Answered (ReadOk (read_again pc))" using w par by (simp add: quiet_step_def)
        have "resumeInherit ?P (replaced ?g p (Some (read_again pc))) (read_again pc) ?s = Some k"
          using resume_again [of ?P ?g pc] resumed_readable [OF pc(3)] pc(3) by simp
        then have "lend L w (read_again c) l = Lends h (l\<lparr>rl_resumed := (p, k) # rl_resumed l\<rparr>)"
          using None fresh True np \<open>vc_parent c = Some p\<close> rd hk by (simp add: lend_def planned)
        moreover have "on_plan L W ts (l\<lparr>rl_resumed := (p, k) # rl_resumed l\<rparr>)"
          using l pc unfolding on_plan_def by auto
        ultimately show ?thesis by simp
      qed
    qed
  qed
qed


text \<open>A copy has the category's own entry, so TaruBot sees the channel and the plan's entry is what was copied.\<close>

lemma inherited_from:
  assumes L: "context_ok L" and h: "inheritFor (lc_flags L) (lc_snapshot L) (lc_settings L)
      (planContext (lc_flags L) (lc_snapshot L) (lc_settings L)) (planned_categories (lc_flags L) (lc_snapshot L) (lc_settings L)) c = Some h"
    and p: "parent_of (lc_snapshot L) c = Some p" and u: "u \<in> set (lc_plan L)" "ot_category u" "ot_channel u = vc_id p"
  shows "h = \<lparr>ih_parent = vc_id p, ih_before = vc_overwrites p, ih_after = ot_after u\<rparr>"
proof -
  let ?P = "lc_flags L" and ?g = "lc_snapshot L" and ?s = "lc_settings L"
  have ok: "plan_ok ?P ?g ?s" and planL: "lc_plan L = planOverrides ?P ?g ?s" using L by (simp_all add: context_ok_def)
  have "distinct (map ot_channel (rev (planned_categories ?P ?g ?s)))"
    using distinct_plan [OF ok] plan_split(1) [of ?P ?g ?s] by (metis distinct_map_filter distinct_rev rev_map)
  moreover have "u \<in> set (planned_categories ?P ?g ?s)"
    using u(1,2) planL plan_split(1) [of ?P ?g ?s, symmetric] by simp
  ultimately have "find (\<lambda>t. ot_channel t = vc_id p) (rev (planned_categories ?P ?g ?s)) = Some u"
    using u(3) by (simp add: find_key)
  then show ?thesis using h p by (simp add: inheritFor_def)
qed

lemma keys_but_own:
  assumes "i \<noteq> g"
  shows "(map_of (overwriteKeys (filter (\<lambda>e. \<not> (ow_type e = OwMember \<and> ow_id e = i)) ows) g))((OwMember, i) \<mapsto> b) =
    (map_of (overwriteKeys ows g))((OwMember, i) \<mapsto> b)"
proof (induction ows rule: rev_induct)
  case (snoc e ows)
  let ?K = "(OwMember, i)" and ?f = "filter (\<lambda>e. \<not> (ow_type e = OwMember \<and> ow_id e = i))"
  show ?case
  proof (cases "ow_type e = OwMember \<and> ow_id e = i")
    case True
    then have k: "entry_key e = ?K" by (simp add: entry_key_def)
    have ev: "\<not> (ow_id e = g \<and> ow_allow e = 0 \<and> ow_deny e = 0)" using True assms by blast
    have "?f (ows @ [e]) = ?f ows" using True by simp
    then show ?thesis unfolding keys_map_snoc if_not_P [OF ev] k fun_upd_upd using snoc by metis
  next
    case False
    then have "entry_key e \<noteq> ?K" by (auto simp: entry_key_def)
    then have twist: "(m(entry_key e \<mapsto> x))(?K \<mapsto> b) = (m(?K \<mapsto> b))(entry_key e \<mapsto> x)" for m :: "overwrite_type \<times> ident \<Rightarrow> (int \<times> int) option" and x
      by (rule fun_upd_twist)
    have f: "?f (ows @ [e]) = ?f ows @ [e]" using False by simp
    show ?thesis
    proof (cases "ow_id e = g \<and> ow_allow e = 0 \<and> ow_deny e = 0")
      case True
      show ?thesis unfolding f keys_map_snoc if_P [OF True] by (rule snoc)
    next
      case False
      show ?thesis unfolding f keys_map_snoc if_not_P [OF False] twist snoc ..
    qed
  qed
qed simp

lemma copied_entry:
  assumes bot: "vg_botId g \<noteq> vg_guild g" and ows: "distinct (map entry_key ows)"
    "sameOverwriteSet ows (vc_overwrites (write_target g u p)) (vg_guild g)"
  obtains e where "find (\<lambda>e. ow_type e = OwMember \<and> ow_id e = vg_botId g) ows = Some e" "entry_bits e = ot_after u"
proof -
  let ?K = "(OwMember, vg_botId g)"
  have "map_of (overwriteKeys ows (vg_guild g)) ?K = Some (oe_allow (ot_after u), oe_deny (ot_after u))"
    using ows(2) unfolding same_maps by (simp add: write_target_def keys_put [OF bot])
  then have "(?K, oe_allow (ot_after u), oe_deny (ot_after u)) \<in> entry_set ows (vg_guild g)" using keys_graph [OF ows(1)] by blast
  then obtain e where e: "e \<in> set ows" "entry_key e = ?K" "entry_bits e = ot_after u"
    by (auto simp: entry_set_def entry_bits_def)
  have "find (\<lambda>x. entry_key x = ?K) ows = Some e" using find_key [OF ows(1)] e(1,2) by blast
  moreover have "(\<lambda>x. entry_key x = ?K) = (\<lambda>e. ow_type e = OwMember \<and> ow_id e = vg_botId g)" by (auto simp: entry_key_def)
  ultimately show thesis using that e(3) by simp
qed

lemma copy_seen:
  assumes L: "context_ok L" and c: "c \<in> set (vg_channels (lc_snapshot L))"
    and t: "targetOf (lc_flags L) (lc_snapshot L) c (lc_settings L) inh (planContext (lc_flags L) (lc_snapshot L) (lc_settings L)) = Some t"
    "inh = inheritFor (lc_flags L) (lc_snapshot L) (lc_settings L) (planContext (lc_flags L) (lc_snapshot L) (lc_settings L))
       (planned_categories (lc_flags L) (lc_snapshot L) (lc_settings L)) c"
    and x: "copied_by L t c x"
  shows "overrideTarget (lc_flags L) (lc_snapshot L) x (lc_settings L) i = None"
proof -
  let ?P = "lc_flags L" and ?g = "lc_snapshot L" and ?s = "lc_settings L"
  let ?v = "asIfView ?P ?g"
  have ok: "plan_ok ?P ?g ?s" using L by (simp add: context_ok_def)
  then have bot: "vg_botId ?g \<noteq> vg_guild ?g" and post: "set (vs_posting ?s) \<subseteq> set (vs_configured ?s)" by (simp_all add: plan_ok_def)
  obtain p u ows where cp: "ot_inherited t" "parent_of ?g c = Some p" "u \<in> set (lc_plan L)" "ot_category u" "ot_channel u = vc_id p"
      "x = read_again (c\<lparr>vc_overwrites := ows\<rparr>)" "distinct (map entry_key ows)"
      "sameOverwriteSet ows (vc_overwrites (write_target ?g u p)) (vg_guild ?g)"
    using x unfolding copied_by_def by blast
  note T = targetOf_Some [OF t(1)]
  obtain h where h: "inh = Some h" "vc_id c \<notin> set (vs_configured ?s)" using T(7) [OF cp(1)] by blast
  have hu: "ih_after h = ot_after u" using inherited_from [OF L _ cp(2-5)] h(1) t(2) by simp
  obtain e where e: "find (\<lambda>e. ow_type e = OwMember \<and> ow_id e = vg_botId ?g) ows = Some e" "entry_bits e = ot_after u"
    by (rule copied_entry [OF bot cp(7,8)])
  have own: "ownEntry ?g x = Some e" using e(1) by (simp add: ownEntry_def cp(6))
  have need: "jg_need (judge ?P ?g x ?s ?v) = ?P ViewChannel" using h(2) post by (auto simp: cp(6))
  have "bit (channelBits ?P ?g x ?v) n" if "bit (?P ViewChannel) n" for n
  proof -
    have "bit (oe_allow (ih_after h)) n" by (rule inherit_view [OF ok _ that]) (use h(1) t(2) in simp)
    moreover have "oe_allow (ot_after u) = ow_allow e" unfolding e(2) [symmetric] by (simp add: entry_bits_def)
    ultimately show ?thesis unfolding hu bit_channelBits own by (simp add: entry_layer_def)
  qed
  then have "channelBits ?P ?g x ?v AND ?P ViewChannel = ?P ViewChannel" unfolding and_eq_iff by blast
  moreover have "\<not> unreadable ?P ?g x" using T(1) by (simp add: cp(6) unreadable_def read_again_def split: if_splits)
  moreover have "vc_id x \<notin> set (vs_configured ?s)" using h(2) by (simp add: cp(6))
  ultimately have "jg_state (judge ?P ?g x ?s ?v) = StVisible" unfolding visible_iff need by blast
  then show ?thesis by (simp add: overrideTarget_def targetOf_None)
qed

lemma copy_counted:
  assumes L: "context_ok L" and c: "c \<in> set (vg_channels (lc_snapshot L))"
    and t: "targetOf (lc_flags L) (lc_snapshot L) c (lc_settings L) (Some h) (planContext (lc_flags L) (lc_snapshot L) (lc_settings L)) = Some t"
    "Some h = inheritFor (lc_flags L) (lc_snapshot L) (lc_settings L) (planContext (lc_flags L) (lc_snapshot L) (lc_settings L))
       (planned_categories (lc_flags L) (lc_snapshot L) (lc_settings L)) c"
    and l: "on_plan L W ts l" "lc_plan L = ts @ t # us" and x: "copied_by L t c x" and cat: "\<not> ot_category t"
  shows "nothing_to_write L t x (Some h) l = l\<lparr>rl_written := rl_written l @ [(t, True)]\<rparr>"
proof -
  let ?P = "lc_flags L" and ?g = "lc_snapshot L" and ?s = "lc_settings L"
  have ok: "plan_ok ?P ?g ?s" and planL: "lc_plan L = planOverrides ?P ?g ?s" using L by (simp_all add: context_ok_def)
  then have bot: "vg_botId ?g \<noteq> vg_guild ?g" by (simp add: plan_ok_def)
  obtain p u ows where cp: "ot_inherited t" "parent_of ?g c = Some p" "u \<in> set (lc_plan L)" "ot_category u" "ot_channel u = vc_id p"
      "x = read_again (c\<lparr>vc_overwrites := ows\<rparr>)" "distinct (map entry_key ows)"
      "sameOverwriteSet ows (vc_overwrites (write_target ?g u p)) (vg_guild ?g)"
    using x unfolding copied_by_def by blast
  note T = targetOf_Some [OF t(1)]
  have h: "h = \<lparr>ih_parent = vc_id p, ih_before = vc_overwrites p, ih_after = ot_after u\<rparr>"
    using inherited_from [OF L _ cp(2-5)] t(2) by simp
  have par: "p \<in> set (vg_channels ?g)" "vc_parent x = Some (vc_id p)" using parent_found [OF cp(2)] by (simp_all add: cp(6))
  have "u \<in> set ts"
    using categories_first [of ?P ?g ?s ts t us] l(2) planL cat cp(3,4) plan_split(1) [of ?P ?g ?s, symmetric] by auto
  then have known: "map_of (rl_categories l) (vc_id p) = Some h" using l(1) cp(4,5) par(1) h unfolding on_plan_def by blast
  let ?copy = "filter (\<lambda>e. \<not> (ow_type e = OwMember \<and> ow_id e = vg_botId ?g)) (vc_overwrites p) @
      [\<lparr>ow_id = vg_botId ?g, ow_type = OwMember, ow_allow = oe_allow (ot_after u), ow_deny = oe_deny (ot_after u)\<rparr>]"
  have "sameOverwriteSet (vc_overwrites x) ?copy (vg_guild ?g)"
    using cp(8) keys_but_own [OF bot, of "vc_overwrites p"] bot unfolding same_maps cp(6)
    by (simp add: write_target_def keys_put [OF bot] keys_map_snoc entry_key_def)
  moreover have "ot_after t = ot_after u" using T(7) [OF cp(1)] h by auto
  moreover have "ot_granted t = oe_allow (ot_after t) AND NOT (oe_allow (case ot_before t of None \<Rightarrow> \<lparr>oe_allow = 0, oe_deny = 0\<rparr> | Some e \<Rightarrow> e))"
    "ot_masked t = (oe_deny (ot_after t) AND NOT (oe_deny (case ot_before t of None \<Rightarrow> \<lparr>oe_allow = 0, oe_deny = 0\<rparr> | Some e \<Rightarrow> e))) AND VOICE_DENY_MASK ?P"
    "ot_cleared t = (oe_deny (case ot_before t of None \<Rightarrow> \<lparr>oe_allow = 0, oe_deny = 0\<rparr> | Some e \<Rightarrow> e) AND NOT (oe_deny (ot_after t))) AND VOICE_DENY_MASK ?P"
    "ot_unsyncs t = False"
    using t(1) cp(1) unfolding targetOf_def Let_def by (auto split: if_splits)
  ultimately have "propagatedWrite ?P ?g t x h = Some t"
    using cp(1) par(2) unfolding propagatedWrite_def Let_def h by (simp split: option.splits)
  then show ?thesis using known par(2) by (simp add: nothing_to_write_def)
qed


text \<open>A category with a configured channel in it is private, so it is not planned.\<close>

lemma planned_not_holding:
  assumes L: "context_ok L" and t: "t \<in> set (lc_plan L)" "ot_category t" and c: "c \<in> set (vg_channels (lc_snapshot L))"
    "vc_parent c = Some (ot_channel t)"
  shows "vc_id c \<notin> set (vs_configured (lc_settings L))"
proof
  let ?P = "lc_flags L" and ?g = "lc_snapshot L" and ?s = "lc_settings L"
  assume conf: "vc_id c \<in> set (vs_configured ?s)"
  have "t \<in> set (planned_categories ?P ?g ?s)"
    using t L plan_split(1) [of ?P ?g ?s, symmetric] by (simp add: context_ok_def)
  then obtain d where d: "d \<in> set (vg_channels ?g)" "isCategory d" "targetOf ?P ?g d ?s None (planContext ?P ?g ?s) = Some t"
    by (rule planned_category_target)
  note T = targetOf_Some [OF d(3)]
  have "vc_id d \<notin> set (vs_configured ?s)" using L d(1,2) by (simp add: context_ok_def plan_ok_def)
  then have "jg_state (judge ?P ?g d ?s (asIfView ?P ?g)) = StMissing"
    using T(2) masked_has [of ?P ?g d ?s "asIfView ?P ?g"] by auto
  moreover have "Some (vc_id d) \<in> set (map vc_parent (filter (\<lambda>c. vc_id c \<in> set (vs_configured ?s)) (vg_channels ?g)))"
    unfolding set_map by (rule image_eqI [of _ _ c]) (use c conf T(5) in simp_all)
  moreover have "\<not> vs_onboarding ?s" using L by (simp add: context_ok_def)
  ultimately have "vc_id d \<in> set (privateCategoryIds ?P ?g ?s)"
    unfolding privateCategoryIds_def privateSet_def Let_def using d(1,2) by auto
  then show False using T(3) by simp
qed

lemma quiet_checks:
  assumes "context_ok L" "t \<in> set (lc_plan L)" "quiet_step L w t c"
  shows "step_checks L w t = Onward"
proof -
  obtain row f now where w: "\<not> sp_stop w" "\<not> sp_late w" "lc_enabled L" "sp_row w = Inr row"
      "current (lc_enabled L) (lc_baseline L) row" "sp_facts w = Inr f" "of_botAdministrator f" "of_basePosting f"
      "sp_snapshot w = Inr (Some now)" "places now = places (lc_snapshot L)"
    using assms(1,3) unfolding quiet_step_def context_ok_def by blast
  have "\<not> (\<exists>x \<in> set (vg_channels now). vc_parent x = Some (ot_channel t) \<and> vc_id x \<in> set (vs_configured (lc_settings L)))"
    if "ot_category t"
  proof
    assume "\<exists>x \<in> set (vg_channels now). vc_parent x = Some (ot_channel t) \<and> vc_id x \<in> set (vs_configured (lc_settings L))"
    then obtain x where x: "x \<in> set (vg_channels now)" "vc_parent x = Some (ot_channel t)"
      "vc_id x \<in> set (vs_configured (lc_settings L))" by blast
    have "(vc_id x, vc_parent x) \<in> places now" unfolding places_def by (rule image_eqI [OF _ x(1)]) (rule refl)
    then have "(vc_id x, vc_parent x) \<in> places (lc_snapshot L)" by (simp only: w(10))
    then obtain y where "y \<in> set (vg_channels (lc_snapshot L))" "vc_id y = vc_id x" "vc_parent y = vc_parent x"
      unfolding places_def by auto
    then show False using planned_not_holding [OF assms(1,2) that, of y] x(2,3) by simp
  qed
  then have "ot_category t \<Longrightarrow> (\<exists>x \<in> set (vg_channels now). vc_parent x = Some (ot_channel t) \<and>
      vc_id x \<in> set (vs_configured (lc_settings L))) = False" by blast
  then show ?thesis unfolding step_checks_def w(4,6,9) sum.case option.case using w(1,2,3,5,7,8) by (cases "ot_category t") simp_all
qed

lemma quiet_put:
  assumes w: "quiet_step L w t c" and dis: "oe_allow (ot_after t) AND oe_deny (ot_after t) = 0"
  shows "put_entry L w i (read_again c) t l = (Onward,
     (let l = l\<lparr>rl_written := rl_written l @ [(t, False)]\<rparr>
      in if ot_category t
         then l\<lparr>rl_categories := (i, \<lparr>ih_parent = i, ih_before = vc_overwrites c, ih_after = ot_after t\<rparr>) # rl_categories l\<rparr> else l))"
proof -
  have b: "own_bits (lc_snapshot L) (read_again (write_target (lc_snapshot L) t c)) = ot_after t"
    using own_bits_put [of "lc_snapshot L" "ot_after t" c] by (simp add: own_bits_def write_target_def)
  show ?thesis using w read_back_same [OF dis] by (simp add: put_entry_def quiet_step_def Let_def b)
qed

lemma on_plan_more:
  assumes l: "on_plan L W ts l" and new: "ot_channel t \<notin> ot_channel ` set ts" and ids: "distinct (map vc_id (vg_channels (lc_snapshot L)))"
    and c: "c \<in> set (vg_channels (lc_snapshot L))" "vc_id c = ot_channel t" and b: "carried_out L W (Suc (length ts)) = carried_out L W (length ts) @ [(t, b)]"
  shows "on_plan L W (ts @ [t]) (let l = l\<lparr>rl_written := rl_written l @ [(t, b)]\<rparr>
      in if ot_category t
         then l\<lparr>rl_categories := (ot_channel t, \<lparr>ih_parent = ot_channel t, ih_before = vc_overwrites c, ih_after = ot_after t\<rparr>) # rl_categories l\<rparr> else l)"
proof -
  have inj: "x = c" if "x \<in> set (vg_channels (lc_snapshot L))" "vc_id x = ot_channel t" for x
    using inj_onD [of vc_id "set (vg_channels (lc_snapshot L))" x c] ids c that by (simp add: distinct_map)
  show ?thesis
  proof (cases "ot_category t")
    case False
    then show ?thesis using l b unfolding on_plan_def by (simp add: Let_def)
  next
    case True
    let ?C = "set (vg_channels (lc_snapshot L))" and ?i = "ot_channel t"
    let ?k = "\<lambda>c u. \<lparr>ih_parent = ot_channel u, ih_before = vc_overwrites (c :: visibility_channel), ih_after = ot_after u\<rparr>"
    have none: "ot_channel u \<noteq> ?i" if "u \<in> set ts" for u using new that by (metis image_eqI)
    have old: "map_of (rl_categories l) p = Some h \<longleftrightarrow>
        (\<exists>u \<in> set ts. ot_category u \<and> ot_channel u = p \<and> (\<exists>d \<in> ?C. vc_id d = p \<and> h = ?k d u))" for p h
      using l unfolding on_plan_def by metis
    have now: "(\<exists>d \<in> ?C. vc_id d = ?i \<and> h = ?k d t) \<longleftrightarrow> h = ?k c t" for h using c inj by blast
    have cats: "map_of ((?i, ?k c t) # rl_categories l) p = Some h \<longleftrightarrow>
        (\<exists>u \<in> set (ts @ [t]). ot_category u \<and> ot_channel u = p \<and> (\<exists>d \<in> ?C. vc_id d = p \<and>
           h = \<lparr>ih_parent = p, ih_before = vc_overwrites d, ih_after = ot_after u\<rparr>))" (is "_ \<longleftrightarrow> ?R p h") for p h
    proof -
      have "?R p h \<longleftrightarrow> (\<exists>u \<in> set ts. ot_category u \<and> ot_channel u = p \<and> (\<exists>d \<in> ?C. vc_id d = p \<and> h = ?k d u)) \<or>
          ?i = p \<and> (\<exists>d \<in> ?C. vc_id d = ?i \<and> h = ?k d t)"
        using True unfolding set_append by (simp cong: conj_cong) blast
      also have "\<dots> \<longleftrightarrow> map_of (rl_categories l) p = Some h \<or> ?i = p \<and> h = ?k c t" by (simp only: old now)
      also have "\<dots> \<longleftrightarrow> map_of ((?i, ?k c t) # rl_categories l) p = Some h"
      proof (cases "?i = p")
        case True
        have "map_of (rl_categories l) p \<noteq> Some h" unfolding old True [symmetric] using none by blast
        then show ?thesis using True by auto
      next
        case False then show ?thesis by simp
      qed
      finally show ?thesis by simp
    qed
    have rest: "rl_written l = carried_out L W (length ts)" "rl_skipped l = []" "rl_unconfirmed l = []" "rl_refused l = []" "rl_normalized l = []"
      "\<forall>p h. map_of (rl_resumed l) p = Some h \<longrightarrow> (\<exists>c \<in> ?C. vc_id c = p \<and>
        resumeInherit (lc_flags L) (lc_snapshot L) c (lc_settings L) = Some h)"
      using l unfolding on_plan_def by blast+
    let ?l = "l\<lparr>rl_written := rl_written l @ [(t, b)]\<rparr>"
    let ?l = "?l\<lparr>rl_categories := (?i, ?k c t) # rl_categories ?l\<rparr>"
    have fields: "rl_written ?l = carried_out L W (length (ts @ [t]))" "rl_skipped ?l = []" "rl_unconfirmed ?l = []" "rl_refused ?l = []"
      "rl_normalized ?l = []" "rl_categories ?l = (?i, ?k c t) # rl_categories l" "rl_resumed ?l = rl_resumed l"
      by (simp_all add: rest b)
    show ?thesis unfolding on_plan_def Let_def if_P [OF True] fields
      by (intro conjI refl rest(6)) (intro allI cats)
  qed
qed

text \<open>One entry: written, or found copied.\<close>

lemma flag_next:
  assumes "lc_plan L = ts @ t # us"
  shows "carried_out L W (Suc (length ts)) = carried_out L W (length ts) @ [(t, reads_copied L W (length ts))]"
  using assms by (simp add: carried_out_def)

lemma quiet_one:
  assumes L: "context_ok L" and plan: "lc_plan L = ts @ t # us" and l: "on_plan L W ts l"
    and c: "c \<in> set (vg_channels (lc_snapshot L))" "vc_id c = ot_channel t" and w: "quiet_step L (W (length ts)) t c"
  shows "\<exists>l'. loop_one L (W (length ts)) t l = (Onward, l') \<and> on_plan L W (ts @ [t]) l'"
proof -
  let ?P = "lc_flags L" and ?g = "lc_snapshot L" and ?s = "lc_settings L" and ?w = "W (length ts)"
  let ?x = "planContext ?P ?g ?s"
  have planL: "lc_plan L = planOverrides ?P ?g ?s" and ok: "plan_ok ?P ?g ?s" using L by (simp_all add: context_ok_def)
  have ids: "distinct (map vc_id (vg_channels ?g))" using ok by (simp add: plan_ok_def)
  then have one: "d = c" if "d \<in> set (vg_channels ?g)" "vc_id d = ot_channel t" for d
    using inj_onD [of vc_id "set (vg_channels ?g)" d c] c that by (simp add: distinct_map)
  have t: "t \<in> set (lc_plan L)" and at: "lc_plan L ! length ts = t" using plan by simp_all
  obtain d inh where d: "d \<in> set (vg_channels ?g)" "targetOf ?P ?g d ?s inh ?x = Some t"
    "inh = None \<and> isCategory d \<or> \<not> isCategory d \<and> inh = inheritFor ?P ?g ?s ?x (planned_categories ?P ?g ?s) d"
    by (rule plan_member) (use t planL in simp)
  have "d = c" by (rule one [OF d(1)]) (use targetOf_Some(5) [OF d(2)] in simp)
  note d = d [unfolded this]
  note T = targetOf_Some [OF d(2)]
  have kind: "ot_category t = isCategory c" using d(2) by (auto simp: targetOf_def Let_def split: if_splits)
  have lends: "\<exists>l'. lend L ?w (read_again c) l = Lends inh l' \<and> on_plan L W ts l'"
  proof (cases "isCategory c")
    case True
    then have "vc_parent c = None" using L c(1) by (simp add: context_ok_def)
    then show ?thesis using lend_category l d(3) True by blast
  next
    case False
    then show ?thesis using lend_quiet [OF L plan _ l w, of inh] d(3) kind by blast
  qed
  then obtain l' where l': "lend L ?w (read_again c) l = Lends inh l'" "on_plan L W ts l'" by blast
  have priv: "ot_channel t \<notin> set (private_ids L)" "\<not> (\<exists>p \<in> set (private_ids L). vc_parent c = Some p)"
    using private_ids_of [OF L] T(3,4,5) by auto
  have "distinct (map ot_channel (ts @ t # us))" using distinct_plan [OF ok] planL plan by simp
  then have new: "ot_channel t \<notin> ot_channel ` set ts" by auto
  have copy: "inh = inheritFor ?P ?g ?s ?x (planned_categories ?P ?g ?s) c \<and> \<not> ot_category t \<and> inh \<noteq> None" if "ot_inherited t"
    using T(7) [OF that] d(3) kind by auto
  show ?thesis
  proof (cases "reads_copied L W (length ts)")
    case True
    then obtain x where x: "copied_by L t c x" "sp_read ?w = Answered (ReadOk x)"
      using one unfolding reads_copied_def at by blast
    then have inh: "ot_inherited t" and same: "vc_parent x = vc_parent c" by (auto simp: copied_by_def)
    obtain h where h: "inh = Some h" using copy [OF inh] by blast
    have "lend L ?w x l = Lends inh l'" using l'(1) same unfolding lend_def by simp
    moreover have "overrideTarget ?P ?g x ?s inh = None" by (rule copy_seen [OF L c(1) d(2) _ x(1)]) (use copy [OF inh] in blast)
    moreover have "nothing_to_write L t x inh l' = l'\<lparr>rl_written := rl_written l' @ [(t, True)]\<rparr>"
      unfolding h by (rule copy_counted [OF L c(1) _ _ l'(2) plan x(1)]) (use copy [OF inh] d(2) h in simp_all)
    ultimately have "loop_one L ?w t l = (Onward, l'\<lparr>rl_written := rl_written l' @ [(t, True)]\<rparr>)"
      using quiet_checks [OF L t w] x(2) priv same by (simp add: loop_one_def write_fresh_def)
    moreover have "on_plan L W (ts @ [t]) (l'\<lparr>rl_written := rl_written l' @ [(t, True)]\<rparr>)"
      using on_plan_more [OF l'(2) new ids c flag_next [OF plan]] copy [OF inh] True by (simp add: Let_def)
    ultimately show ?thesis by blast
  next
    case False
    then have rd: "sp_read ?w = Answered (ReadOk (read_again c))" using w c unfolding reads_copied_def quiet_step_def at by blast
    have again: "overrideTarget ?P ?g (read_again c) ?s inh = Some t"
      using target_again [OF T(1)] d(2) by (simp add: overrideTarget_def)
    have dis: "oe_allow (ot_after t) AND oe_deny (ot_after t) = 0"
      by (rule plan_disjoint) (use t planL L in \<open>auto simp: context_ok_def\<close>)
    have "loop_one L ?w t l = put_entry L ?w (ot_channel t) (read_again c) t l'"
      using quiet_checks [OF L t w] rd priv l'(1) again by (simp add: loop_one_def write_fresh_def)
    then show ?thesis using quiet_put [OF w dis] on_plan_more [OF l'(2) new ids c flag_next [OF plan]] False by auto
  qed
qed

lemma quiet_loop:
  assumes L: "context_ok L"
  shows "lc_plan L = ts @ us \<Longrightarrow> on_plan L W ts l \<Longrightarrow> quiet_run L W \<Longrightarrow>
    \<exists>l'. loop_over L W (length ts) us l = (LoopDone, l') \<and> on_plan L W (lc_plan L) l'"
proof (induction us arbitrary: ts l)
  case Nil
  then show ?case by simp
next
  case (Cons t us)
  let ?g = "lc_snapshot L"
  have "t \<in> set (lc_plan L)" using Cons.prems(1) by simp
  then have tm: "t \<in> set (planOverrides (lc_flags L) ?g (lc_settings L))" using L by (simp add: context_ok_def)
  obtain c inh where c: "c \<in> set (vg_channels ?g)" "targetOf (lc_flags L) ?g c (lc_settings L) inh (planContext (lc_flags L) ?g (lc_settings L)) = Some t"
    by (rule plan_member [OF tm])
  have id: "vc_id c = ot_channel t" using targetOf_Some(5) [OF c(2)] by simp
  have "length ts < length (lc_plan L)" "lc_plan L ! length ts = t" using Cons.prems(1) by simp_all
  then have "quiet_step L (W (length ts)) t c" using Cons.prems(3) c(1) id unfolding quiet_run_def by blast
  then obtain l1 where l1: "loop_one L (W (length ts)) t l = (Onward, l1)" "on_plan L W (ts @ [t]) l1"
    using quiet_one [OF L Cons.prems(1,2) c(1) id] by blast
  have "\<exists>l'. loop_over L W (length (ts @ [t])) us l1 = (LoopDone, l') \<and> on_plan L W (lc_plan L) l'"
    by (rule Cons.IH [OF _ l1(2) Cons.prems(3)]) (use Cons.prems(1) in simp)
  then show ?case using l1(1) by simp
qed


section \<open>The property\<close>

text \<open>
  (C8) Where nothing interferes, the run is the plan: with Discord keeping each write, and showing each channel as
  the snapshot had it or as its permission syncing left it, the loop ends by itself and has carried out every
  planned entry exactly as planned and in the plan's order. An entry is logged as copied exactly where the
  fresh read showed the category's entries on a synced channel; every other one was written. No channel is listed as
  skipped, refused, unconfirmed or normalized.
\<close>

theorem quiet_run_is_the_plan:
  assumes "context_ok L" "quiet_run L w"
  shows "\<exists>l. loop_over L w 0 (lc_plan L) EMPTY_LOG = (LoopDone, l) \<and>
    rl_written l = map (\<lambda>i. (lc_plan L ! i, reads_copied L w i)) [0..<length (lc_plan L)] \<and>
    rl_skipped l = [] \<and> rl_refused l = [] \<and> rl_unconfirmed l = [] \<and> rl_normalized l = []"
proof -
  have "on_plan L w [] EMPTY_LOG" by (simp add: on_plan_def EMPTY_LOG_def carried_out_def)
  then obtain l where "loop_over L w 0 (lc_plan L) EMPTY_LOG = (LoopDone, l)" "on_plan L w (lc_plan L) l"
    using quiet_loop [OF assms(1), of "[]" "lc_plan L" w EMPTY_LOG] assms(2) by auto
  then show ?thesis unfolding on_plan_def carried_out_def by blast
qed

section \<open>A quiet world\<close>

text \<open>
  The answers of an undisturbed Discord and database, step by step: a channel synced to a planned category reads
  as the copy, where the plan expects one.
\<close>

definition copy_of :: "loop_context \<Rightarrow> override_target \<Rightarrow> visibility_channel \<Rightarrow> overwrite list option" where
  "copy_of L t c =
     (if \<not> ot_inherited t then None
      else case parent_of (lc_snapshot L) c of
        None \<Rightarrow> None
      | Some p \<Rightarrow> map_option (\<lambda>u. vc_overwrites (write_target (lc_snapshot L) u p))
          (find (\<lambda>u. ot_category u \<and> ot_channel u = vc_id p) (lc_plan L)))"

definition quiet_world :: "loop_context \<Rightarrow> nat \<Rightarrow> step_world" where
  "quiet_world L i =
     (let t = lc_plan L ! i; g = lc_snapshot L;
          c = the (find (\<lambda>c. vc_id c = ot_channel t) (vg_channels g))
      in \<lparr>sp_stop = False, sp_late = False,
          sp_row = Inr (Some \<lparr>gn_active = True, gn_onboarding = False, gn_effects = True, gn_revision = gd_revision (lc_baseline L)\<rparr>),
          sp_facts = Inr \<lparr>of_botAdministrator = True, of_callerAllowed = None, of_basePosting = True\<rparr>, sp_snapshot = Inr (Some g),
          sp_read = Answered (ReadOk (case copy_of L t c of None \<Rightarrow> read_again c | Some ows \<Rightarrow> read_again (c\<lparr>vc_overwrites := ows\<rparr>))),
          sp_category = (case parent_of g c of None \<Rightarrow> AbortedCall | Some p \<Rightarrow> Answered (ReadOk (read_again p))),
          sp_write = Answered PutWritten, sp_back = Answered (ReadOk (read_again (write_target g t c)))\<rparr>)"

lemma keys_put_own:
  assumes "distinct (map entry_key ows)"
  shows "distinct (map entry_key (put_own i a ows))"
proof (cases "\<exists>e \<in> set ows. ow_type e = OwMember \<and> ow_id e = i")
  case True
  have "entry_key \<circ> replace_own i a = entry_key" by (rule ext) (auto simp: entry_key_def replace_own_def)
  then show ?thesis using assms unfolding put_own_def if_P [OF True] replace_own_def [symmetric] map_map by simp
next
  case False
  then show ?thesis using assms unfolding put_own_def if_not_P [OF False] by (auto simp: entry_key_def)
qed

lemma copy_is_copied:
  assumes "copy_of L t c = Some ows" "\<forall>p \<in> set (vg_channels (lc_snapshot L)). distinct (map entry_key (vc_overwrites p))"
  shows "copied_by L t c (read_again (c\<lparr>vc_overwrites := ows\<rparr>))"
proof -
  obtain p u where h: "ot_inherited t" "parent_of (lc_snapshot L) c = Some p"
      "find (\<lambda>u. ot_category u \<and> ot_channel u = vc_id p) (lc_plan L) = Some u" "ows = vc_overwrites (write_target (lc_snapshot L) u p)"
    using assms(1) by (auto simp: copy_of_def split: if_splits option.splits)
  have "distinct (map entry_key (vc_overwrites p))" using assms(2) parent_found(1) [OF h(2)] by blast
  then have "distinct (map entry_key ows)" unfolding h(4) write_target_def by (simp add: keys_put_own)
  moreover have "sameOverwriteSet ows (vc_overwrites (write_target (lc_snapshot L) u p)) (vg_guild (lc_snapshot L))"
    unfolding h(4) same_maps ..
  ultimately show ?thesis unfolding copied_by_def using h(1,2) find_Some_mem [OF h(3)] by blast
qed

lemma quiet_world_quiet:
  assumes "context_ok L" "\<forall>p \<in> set (vg_channels (lc_snapshot L)). distinct (map entry_key (vc_overwrites p))"
  shows "quiet_run L (quiet_world L)"
  unfolding quiet_run_def
proof (intro allI impI ballI)
  fix i c
  assume c: "c \<in> set (vg_channels (lc_snapshot L))" "vc_id c = ot_channel (lc_plan L ! i)"
  have "distinct (map vc_id (vg_channels (lc_snapshot L)))" using assms(1) by (simp add: context_ok_def plan_ok_def)
  then have f: "find (\<lambda>c. vc_id c = ot_channel (lc_plan L ! i)) (vg_channels (lc_snapshot L)) = Some c"
    using c by (simp add: find_key)
  show "quiet_step L (quiet_world L i) (lc_plan L ! i) c"
    unfolding quiet_step_def quiet_world_def f option.sel Let_def
    using copy_is_copied [OF _ assms(2)] by (auto simp: current_def split: option.split)
qed

lemma os_context_ok: "context_ok os_context"
proof -
  have f: "\<not> vs_onboarding os_settings" "\<forall>c \<in> set (vg_channels os_guild). (isCategory c \<longrightarrow> vc_parent c = None) \<and>
      (\<forall>e \<in> set (vc_overwrites c). ow_allow e AND ow_deny e = 0)" by code_simp+
  show ?thesis unfolding context_ok_def os_context_def loop_context.simps
    by (intro conjI os_ok f refl) (rule TrueI)
qed

text \<open>In the sample server, the category is written and its synced child is found copied.\<close>

theorem quiet_run_is_the_plan_witness:
  "\<exists>l. loop_over os_context (quiet_world os_context) 0 os_plan EMPTY_LOG = (LoopDone, l) \<and>
     rl_written l = [(os_plan ! 0, False), (os_plan ! 1, True)]"
proof -
  have plan: "lc_plan os_context = os_plan" by (simp add: os_context_def)
  have keys: "\<forall>p \<in> set (vg_channels (lc_snapshot os_context)). distinct (map entry_key (vc_overwrites p))" by code_simp
  note q = quiet_world_quiet [OF os_context_ok keys]
  let ?c = "vg_channels os_guild ! 1"
  have "vc_id ?c = ot_channel (os_plan ! 1) \<and> copy_of os_context (os_plan ! 1) ?c \<noteq> None \<and>
      find (\<lambda>c. vc_id c = ot_channel (os_plan ! 1)) (vg_channels os_guild) = Some ?c" by code_simp
  then obtain ows where ows: "vc_id ?c = ot_channel (os_plan ! 1)" "copy_of os_context (os_plan ! 1) ?c = Some ows"
      "find (\<lambda>c. vc_id c = ot_channel (os_plan ! 1)) (vg_channels os_guild) = Some ?c" by blast
  have g: "lc_snapshot os_context = os_guild" by (simp add: os_context_def)
  have "?c \<in> set (vg_channels os_guild)" by (rule nth_mem) (simp add: os_guild_def)
  moreover have "sp_read (quiet_world os_context 1) = Answered (ReadOk (read_again (?c\<lparr>vc_overwrites := ows\<rparr>)))"
    unfolding quiet_world_def Let_def plan g ows(3) option.sel ows(2) by simp
  ultimately have one: "reads_copied os_context (quiet_world os_context) 1"
    unfolding reads_copied_def plan g using copy_is_copied [OF ows(2) keys] ows(1) by blast
  have "\<not> ot_inherited (os_plan ! 0)" by code_simp
  then have zero: "\<not> reads_copied os_context (quiet_world os_context) 0" unfolding reads_copied_def plan copied_by_def by blast
  have two: "map f [0..<length os_plan] = [f 0, f 1]" for f :: "nat \<Rightarrow> override_target \<times> bool"
    by (simp add: os_facts(1) upt_rec)
  show ?thesis using quiet_run_is_the_plan [OF os_context_ok q] one zero unfolding plan two by auto
qed

end
