(* ===== verification/Spec2Isabelle.thy ===== *)
theory Spec2Isabelle
  imports Prelude Rbac Failures Values Policy Permissions ChannelAccess ChannelSafety
    RankPolicy StatusNotices RoleLayout Grandfathering Uptime RateLimits LodestoneGate
    SelfRoleMenu SelfRoleEdits Visibility SelfRoleChecker SelfRoleSafety SelfRoleChoices
    SelfRoleService SelfRoleHistory
    JobQueue JobWorker
    Members Ledger LedgerHistory Guests GuestHistory Encodings Claims ClaimsHistory
    ModmailCipher Modmail ModmailHistory ModmailSafety MailSample ModmailPromises
    Moderation ModerationHistory ModerationPromises
    VisibilityReport OverridePlan OverridePromises OverrideRun OverrideRunPromises OverrideQuiet
begin

text \<open>
  TaruBot is a Discord bot for Free Companies of Final Fantasy XIV: it links members to their game
  characters, gives and takes their Discord roles, guards the visibility of channels, keeps the
  company's gil ledger, carries mod mail between members and officers, lets members pick their own roles
  from a menu, and does every Discord write through a queue of jobs in PostgreSQL. This library models the
  parts that decide something, each theory after the file it translates, and proves what makes them
  correct. Paths below are under \<open>src/src\<close>.

  The parts and their theories:

  \<^item> \<open>Prelude\<close>: results with errors, comparators and their stable sort (a locale and its instances),
    lists without duplicates as JavaScript's \<open>Set\<close> keeps them. \<open>Encodings\<close>: base64 and UTF-8 as Node reads and writes them.
  \<^item> \<open>Rbac\<close> (\<open>domain/rbac.ts\<close>): the permission catalog, tiers and templates. \<open>Failures\<close>
    (\<open>domain/failures.ts\<close>): every failure code with its category, level and detail. \<open>Values\<close>
    (\<open>domain/values.ts\<close>): IDs, gil amounts, cursors, notes as UTF-16 code units.
  \<^item> \<open>Policy\<close> (\<open>domain/policy.ts\<close>): \<open>accessFor\<close>, \<open>can\<close>, \<open>requirePermission\<close>, \<open>desiredAccess\<close>,
    \<open>departure\<close>. Its lemmas say who may use a command, that a pause only takes away, and that a
    departure needs two absences.
  \<^item> \<open>Permissions\<close> (\<open>domain/permissions.ts\<close>), \<open>ChannelAccess\<close> and \<open>ChannelSafety\<close>
    (\<open>domain/channel-access.ts\<close>): Discord's permission arithmetic on flag bits, the overwrites the bot
    wants on a channel, and the ordered writes that reach them without ever showing a restricted
    channel in between.
  \<^item> \<open>RankPolicy\<close> (\<open>application/rank-policy.ts\<close>), \<open>StatusNotices\<close> (\<open>domain/status.ts\<close>),
    \<open>RoleLayout\<close> (\<open>domain/role-layout.ts\<close>), \<open>Grandfathering\<close> (\<open>domain/grandfathering.ts\<close>),
    \<open>Uptime\<close> (\<open>domain/uptime.ts\<close>), \<open>RateLimits\<close> (\<open>web/limits.ts\<close>), \<open>LodestoneGate\<close>
    (\<open>infrastructure/lodestone/gate.ts\<close>): one component each.
  \<^item> \<open>SelfRoleMenu\<close>, \<open>SelfRoleEdits\<close>, \<open>Visibility\<close>, \<open>SelfRoleChecker\<close>, \<open>SelfRoleSafety\<close>,
    \<open>SelfRoleChoices\<close> (\<open>domain/self-roles.ts\<close>, and the parts of \<open>domain/visibility.ts\<close> it reads): the
    menu and its edits, the check a role must pass to be offered, a member's submission and the plan
    that applies it. \<open>SelfRoleService\<close> and \<open>SelfRoleHistory\<close> (\<open>application/self-roles.ts\<close>): the
    transactions over them, and their histories.
  \<^item> \<open>VisibilityReport\<close>, \<open>OverridePlan\<close> and \<open>OverridePromises\<close> (\<open>domain/visibility.ts\<close>): what TaruBot would see
    without Administrator, the report of \<open>/config validate\<close>, and the plan of writes of TaruBot's own entries; the
    promises are about the server as Discord would have it once the plan is written. \<open>OverrideRun\<close>,
    \<open>OverrideRunPromises\<close> and \<open>OverrideQuiet\<close> (\<open>application/overrides.ts\<close>): the run of \<open>/setup overrides\<close> that carries
    the plan out against a world that may answer anything, and what it records.
  \<^item> \<open>JobQueue\<close> and \<open>JobWorker\<close> (\<open>jobs/queue.ts\<close>): the \<open>jobs\<close> table, one function per transaction, and
    the workers and every other writer of the table as a step relation over any interleaving of them.
  \<^item> \<open>Members\<close> (the rows all of the service reads, \<open>application/access-facts.ts\<close>). Of \<open>application/service.ts\<close>:
    \<open>Ledger\<close> and \<open>LedgerHistory\<close> (\<open>ledger\<close>, \<open>ledgerRead\<close>: recording gil and reading it back), \<open>Guests\<close> and
    \<open>GuestHistory\<close> (guest applications, decisions, grants, revocations, resets), \<open>Claims\<close> and \<open>ClaimsHistory\<close>
    (character claims, verification, assignment, removal, the main character), each with its invariant over any
    history of operations.
  \<^item> \<open>ModmailCipher\<close> (\<open>infrastructure/modmail/cipher.ts\<close>), \<open>Modmail\<close> (\<open>domain/modmail.ts\<close>,
    \<open>application/modmail.ts\<close>), \<open>ModmailHistory\<close>, \<open>ModmailSafety\<close>, \<open>ModmailPromises\<close>: sealed text, cases and their
    threads, reads, lists, notifications and retention; \<open>MailSample\<close> is the server their witnesses run on.
  \<^item> \<open>Moderation\<close>, \<open>ModerationHistory\<close>, \<open>ModerationPromises\<close> (\<open>application/moderation.ts\<close>,
    \<open>application/blocks.ts\<close>, \<open>domain/moderation.ts\<close>): pausing features for one person.

  How they interact: the ledger, the guests, the claims, the self roles and the roles' layout queue their
  work with \<open>JobQueue.enqueue\<close>, and an override run requeues what was parked with \<open>JobQueue.requeueParked\<close>; every
  command asks \<open>Policy\<close> first and fails with a value of \<open>Failures\<close>; the self-role checker and the visibility
  report read \<open>Permissions\<close> and \<open>Visibility\<close>; the pauses of \<open>Moderation\<close> are the pauses \<open>Policy\<close> applies.

  State and errors: a table is the list of its rows, a transaction a function from the tables before to
  the tables after, and a throw is \<open>Inl\<close> with the tables unchanged. Where a decision reads a value before
  its transaction (a settings revision, a stored answer) the model takes both states, so the fences of
  the code are what the proofs rest on.

  Parameters stand for what is not in the repository: Discord's flag numbers (\<open>flag_bits\<close>), a digest and
  the cipher of \<open>node:crypto\<close> (\<open>crypto_ok\<close> is what GCM documents, and \<open>forged\<close> what it makes infeasible), the environment of Unicode text (\<open>text_env\<close>), ISO dates, random jitter, fresh IDs
  and tokens, and the answers of Discord, PostgreSQL and the clock (\<open>ledger_world\<close>, \<open>edit_world\<close>, \<open>overrides_world\<close>
  with one \<open>step_world\<close> for each step of its loop).

  Bounds: the requeue loop has five passes (\<open>REQUEUE_ATTEMPTS\<close>), an attempt is retried eight times
  (\<open>MAX_ATTEMPTS\<close>), a lease lasts 45 seconds; they are the code's own, not fuel of the model. The walk
  over the ledger's pages takes as many pages as there are tens of entries. A balance stays within
  \<open>MAX_GIL\<close> = 2^63 - 1, PostgreSQL's \<open>bigint\<close>. The loops over a plan, a menu or a table recurse over the list.

  Not modelled: HTML, CSS, replies and their wording (\<open>discord/presenters\<close>, \<open>web/views\<close>,
  \<open>web/styles\<close>), the discord.js gateway, HTTP and OAuth, parsing of Lodestone pages, GitHub, the SQL
  engine itself (a statement is what it does to the rows; a committed transaction whose acknowledgement
  is lost is not a step), process start and the waiting at shutdown. These are layout, text or calls of libraries whose
  code is not here. Suggestions and issue reports, the server's lifecycle and the reading of Discord's roster
  (\<open>application/synchronization.ts\<close> but its departure rule and what it writes to \<open>jobs\<close>) are left out too: they are mostly calls of the
  parts above around text and requests. The manifest lists every part with its reason.
\<close>

end
